(* ===== verification/Prelude.thy ===== *)
theory Prelude
  imports Main "HOL-Library.Word" "HOL-Library.Monad_Syntax"
begin

text \<open>
  What the component theories share: the machine types of the Go sources, big-endian byte
  encodings (the package encoding/binary), Go strings as byte sequences, bounds-checked slice
  access (a Go run-time panic is \<^const>\<open>None\<close>), and the collections of rewrite rules that the
  component proofs use.
\<close>

named_theorems run_simps \<open>unfolding rules of the operations of the model\<close>
named_theorems inv_intros \<open>preservation of the component invariants\<close>

type_synonym byte = "8 word"
type_synonym bytes = "8 word list"
type_synonym int64 = "64 word"
type_synonym uint32 = "32 word"

section \<open>Big-endian encodings\<close>

text \<open>
  \<open>be_bytes n v\<close> are the \<open>n\<close> low bytes of \<open>v\<close>, most significant first, and \<open>be_nat\<close> reads such a
  sequence back: binary.BigEndian.PutUint16/32/64 and Uint16/32/64.
\<close>

fun be_bytes :: "nat \<Rightarrow> nat \<Rightarrow> bytes" where
  "be_bytes 0 v = []"
| "be_bytes (Suc n) v = be_bytes n (v div 256) @ [word_of_nat v]"

definition be_nat :: "bytes \<Rightarrow> nat" where
  "be_nat bs = foldl (\<lambda>a b. a * 256 + unat b) 0 bs"

lemma unat_byte_less: "unat (b :: byte) < 256"
  using unsigned_less [of b] by simp

lemma word_of_nat_unat_byte: "word_of_nat (unat b) = (b :: byte)"
  by simp

lemma length_be_bytes [simp]: "length (be_bytes n v) = n"
  by (induction n arbitrary: v) auto

lemma be_nat_Nil [simp]: "be_nat [] = 0"
  by (simp add: be_nat_def)

lemma be_nat_snoc [simp]: "be_nat (bs @ [b]) = be_nat bs * 256 + unat b"
  by (simp add: be_nat_def)

lemma be_nat_be_bytes: "be_nat (be_bytes n v) = v mod 256 ^ n"
proof (induction n arbitrary: v)
  case 0
  then show ?case by simp
next
  case (Suc n)
  have "v div 256 mod 256 ^ n * 256 + v mod 256 = v mod (256 * 256 ^ n)"
    by (simp add: mod_mult2_eq)
  then show ?case
    by (simp add: Suc.IH unat_of_nat)
qed

lemma be_nat_less: "be_nat bs < 256 ^ length bs"
proof (induction bs rule: rev_induct)
  case Nil
  then show ?case by simp
next
  case (snoc b bs)
  have "unat b < 256" by (rule unat_byte_less)
  with snoc.IH have "be_nat bs * 256 + unat b < (be_nat bs + 1) * 256"
    by simp
  also have "\<dots> \<le> 256 ^ length bs * 256"
    using snoc.IH by (intro mult_right_mono) auto
  finally show ?case by simp
qed

lemma be_bytes_be_nat: "length bs = n \<Longrightarrow> be_bytes n (be_nat bs) = bs"
proof (induction n arbitrary: bs)
  case 0
  then show ?case by simp
next
  case (Suc n)
  then obtain cs c where bs: "bs = cs @ [c]" and n: "length cs = n"
    by (metis length_append_singleton length_Suc_conv_rev nat.inject)
  have "(256 :: byte) = 0" by simp
  then have "word_of_nat (be_nat cs * 256 + unat c) = c"
    by (simp only: of_nat_add of_nat_mult of_nat_numeral mult_zero_right add_0 word_of_nat_unat_byte)
  with Suc.IH [OF n] show ?case
    using unat_byte_less [of c] by (simp add: bs)
qed

lemma word_of_nat_be_bytes:
  "word_of_nat (be_nat (be_bytes n (unat w))) = w" if "256 ^ n = (2 :: nat) ^ LENGTH('a)" for w :: "'a::len word"
proof -
  have "unat w mod 256 ^ n = unat w"
    using that unsigned_less [of w] by simp
  then show ?thesis by (simp add: be_nat_be_bytes)
qed

lemma be16 [simp]: "word_of_nat (be_nat (be_bytes 2 (unat w))) = w" for w :: "16 word"
  by (rule word_of_nat_be_bytes) simp

lemma be32 [simp]: "word_of_nat (be_nat (be_bytes 4 (unat w))) = w" for w :: "32 word"
  by (rule word_of_nat_be_bytes) simp

lemma be64 [simp]: "word_of_nat (be_nat (be_bytes 8 (unat w))) = w" for w :: "64 word"
  by (rule word_of_nat_be_bytes) simp

text \<open>Truncating a signed 64-bit value that fits and sign-extending it again gives it back.\<close>

lemma scast_ucast_fits:
  fixes i :: "64 word"
  assumes "LENGTH('b::len) < 64"
    and "- (2 ^ (LENGTH('b) - 1)) \<le> sint i" and "sint i < 2 ^ (LENGTH('b) - 1)"
  shows "scast (ucast i :: 'b word) = i"
proof -
  have "sint (ucast i :: 'b word) = signed_take_bit (LENGTH('b) - 1) (sint i)"
    using assms(1) by (auto simp: signed_ucast_eq bit_eq_iff bit_simps min_def)
  also have "\<dots> = sint i"
    using assms(2,3) by (intro signed_take_bit_int_eq_self) auto
  finally have eq: "sint (ucast i :: 'b word) = sint i" .
  have "scast (ucast i :: 'b word) = (word_of_int (sint (ucast i :: 'b word)) :: 64 word)"
    by (rule scast_eq)
  also have "\<dots> = word_of_int (sint i)" by (rule arg_cong [OF eq])
  also have "\<dots> = i" by (simp only: of_int_sint scast_id)
  finally show ?thesis .
qed

section \<open>Go strings\<close>

text \<open>A Go string is a byte sequence; the model keeps it as a \<^typ>\<open>string\<close>, one \<^typ>\<open>char\<close> per byte.\<close>

definition str_bytes :: "string \<Rightarrow> bytes" where
  "str_bytes s = map (\<lambda>c. word_of_nat (of_char c)) s"

definition bytes_str :: "bytes \<Rightarrow> string" where
  "bytes_str bs = map (\<lambda>b. char_of (unat b)) bs"

lemma length_str_bytes [simp]: "length (str_bytes s) = length s"
  by (simp add: str_bytes_def)

lemma length_bytes_str [simp]: "length (bytes_str bs) = length bs"
  by (simp add: bytes_str_def)

lemma bytes_str_str_bytes [simp]: "bytes_str (str_bytes s) = s"
  by (simp add: bytes_str_def str_bytes_def comp_def unat_of_nat)

lemma str_bytes_bytes_str [simp]: "str_bytes (bytes_str bs) = bs"
  by (simp add: bytes_str_def str_bytes_def comp_def unat_byte_less)

section \<open>Bounds-checked access\<close>

text \<open>
  \<open>at xs i\<close> is the Go expression \<^verbatim>\<open>xs[i]\<close> and \<open>slice xs i j\<close> is \<^verbatim>\<open>xs[i:j]\<close>; out of range both panic.
\<close>

definition at :: "'a list \<Rightarrow> nat \<Rightarrow> 'a option" where
  "at xs i = (if i < length xs then Some (xs ! i) else None)"

definition slice :: "'a list \<Rightarrow> nat \<Rightarrow> nat \<Rightarrow> 'a list option" where
  "slice xs i j = (if i \<le> j \<and> j \<le> length xs then Some (take (j - i) (drop i xs)) else None)"

lemma at_append [simp]: "at (xs @ y # ys) (length xs) = Some y"
  by (simp add: at_def)

lemma slice_append: "i = length xs \<Longrightarrow> j = i + length ys \<Longrightarrow> slice (xs @ ys @ zs) i j = Some ys"
  by (simp add: slice_def)

section \<open>Invariants of step relations\<close>

text \<open>
  The interface of a component that runs in steps: what holds initially and is kept by every step holds in
  every reachable state.
\<close>

locale stepping =
  fixes init :: "'s \<Rightarrow> bool"
    and step :: "'s \<Rightarrow> 's \<Rightarrow> bool"
    and inv :: "'s \<Rightarrow> bool"
  assumes inv_init: "init s \<Longrightarrow> inv s"
    and inv_step: "inv s \<Longrightarrow> step s t \<Longrightarrow> inv t"
begin

lemma inv_reachable: "step\<^sup>*\<^sup>* s t \<Longrightarrow> inv s \<Longrightarrow> inv t"
  by (induction rule: rtranclp_induct) (auto intro: inv_step)

lemma reachable_from_init: "init s \<Longrightarrow> step\<^sup>*\<^sup>* s t \<Longrightarrow> inv t"
  using inv_reachable inv_init by blast

end

end
