(* ===== verification/Packer.thy ===== *)
theory Packer
  imports Prelude
begin

text \<open>
  The serialiser of the package packstream (src/neo4j/internal/packstream/packer.go and errors.go).
  A packer is its output buffer and the error it remembers; every method of the type Packer is one
  function from packer to packer. A Go map is the association list of its entries in the order in
  which the \<^verbatim>\<open>range\<close> loop meets them, a float64 or float32 is its bit pattern (math.Float64bits), and
  the formatted text of an OverflowError is a value of \<open>overflow_msg\<close>. The capacity that
  prepareVectorData reserves has no effect on the contents of the buffer and is not represented.
\<close>

datatype overflow_msg = TooManyFields | TooLargeList int | TooLargeBytes int | Uint64TooBig

datatype perr = OverflowError overflow_msg | IoError | UnpackError string

record packer =
  p_buf :: bytes
  p_err :: "perr option"

definition Packer_Begin :: "bytes \<Rightarrow> packer" where
  "Packer_Begin buf = \<lparr>p_buf = buf, p_err = None\<rparr>"

definition Packer_End :: "packer \<Rightarrow> bytes \<times> perr option" where
  "Packer_End p = (p_buf p, p_err p)"

definition Packer_setErr :: "packer \<Rightarrow> perr \<Rightarrow> packer" where
  "Packer_setErr p e = (if p_err p = None then p\<lparr>p_err := Some e\<rparr> else p)"

definition emit :: "packer \<Rightarrow> bytes \<Rightarrow> packer" where
  "emit p bs = p\<lparr>p_buf := p_buf p @ bs\<rparr>"

definition Packer_StructHeader :: "packer \<Rightarrow> byte \<Rightarrow> int \<Rightarrow> packer" where
  "Packer_StructHeader p tag num =
     (if num > 0x0f then Packer_setErr p (OverflowError TooManyFields)
      else emit p [0xb0 + word_of_int num, tag])"

text \<open>The five encodings of an integer; \<^verbatim>\<open>byte(i)\<close>, \<^verbatim>\<open>uint16(i)\<close> and \<^verbatim>\<open>uint32(i)\<close> truncate.\<close>

definition int64_bytes :: "int64 \<Rightarrow> bytes" where
  "int64_bytes i =
     (if -0x10 \<le> sint i \<and> sint i < 0x80 then [ucast i]
      else if -0x80 \<le> sint i \<and> sint i < -0x10 then [0xc8, ucast i]
      else if -0x8000 \<le> sint i \<and> sint i < 0x8000 then 0xc9 # be_bytes 2 (unat (ucast i :: 16 word))
      else if -0x80000000 \<le> sint i \<and> sint i < 0x80000000
        then 0xca # be_bytes 4 (unat (ucast i :: 32 word))
      else 0xcb # be_bytes 8 (unat i))"

definition Packer_Int64 :: "packer \<Rightarrow> int64 \<Rightarrow> packer" where
  "Packer_Int64 p i = emit p (int64_bytes i)"

definition Packer_Int32 :: "packer \<Rightarrow> 32 word \<Rightarrow> packer" where
  "Packer_Int32 p i = Packer_Int64 p (scast i)"

definition Packer_Int16 :: "packer \<Rightarrow> 16 word \<Rightarrow> packer" where
  "Packer_Int16 p i = Packer_Int64 p (scast i)"

definition Packer_Int8 :: "packer \<Rightarrow> 8 word \<Rightarrow> packer" where
  "Packer_Int8 p i = Packer_Int64 p (scast i)"

definition Packer_Int :: "packer \<Rightarrow> int64 \<Rightarrow> packer" where
  "Packer_Int p i = Packer_Int64 p i"

definition Packer_checkOverflowInt :: "packer \<Rightarrow> 64 word \<Rightarrow> packer" where
  "Packer_checkOverflowInt p i =
     (if uint i > 0x7fffffffffffffff then p\<lparr>p_err := Some (OverflowError Uint64TooBig)\<rparr> else p)"

definition Packer_Uint64 :: "packer \<Rightarrow> 64 word \<Rightarrow> packer" where
  "Packer_Uint64 p i = Packer_Int64 (Packer_checkOverflowInt p i) i"

definition Packer_Uint32 :: "packer \<Rightarrow> 32 word \<Rightarrow> packer" where
  "Packer_Uint32 p i = Packer_Int64 p (ucast i)"

definition Packer_Uint16 :: "packer \<Rightarrow> 16 word \<Rightarrow> packer" where
  "Packer_Uint16 p i = Packer_Int64 p (ucast i)"

definition Packer_Uint8 :: "packer \<Rightarrow> 8 word \<Rightarrow> packer" where
  "Packer_Uint8 p i = Packer_Int64 p (ucast i)"

definition Packer_Float64 :: "packer \<Rightarrow> 64 word \<Rightarrow> packer" where
  "Packer_Float64 p f = emit p (0xc1 # be_bytes 8 (unat f))"

text \<open>
  The header of a string, list or map: \<open>None\<close> when the length does not fit, where the source sets
  the error and leaves the buffer alone.
\<close>

definition list_header :: "int \<Rightarrow> byte \<Rightarrow> byte \<Rightarrow> bytes option" where
  "list_header l shortOffset longOffset =
     (if l < 0x10 then Some [shortOffset + word_of_int l]
      else if l < 0x100 then Some [longOffset, word_of_int l]
      else if l < 0x10000 then Some ((longOffset + 1) # be_bytes 2 (unat (word_of_int l :: 16 word)))
      else if l < 0xffffffff then Some ((longOffset + 2) # be_bytes 4 (unat (word_of_int l :: 32 word)))
      else None)"

definition Packer_listHeader :: "packer \<Rightarrow> int \<Rightarrow> byte \<Rightarrow> byte \<Rightarrow> packer" where
  "Packer_listHeader p ll shortOffset longOffset =
     (case list_header ll shortOffset longOffset of
        Some hdr \<Rightarrow> emit p hdr
      | None \<Rightarrow> p\<lparr>p_err := Some (OverflowError (TooLargeList ll))\<rparr>)"

definition Packer_String :: "packer \<Rightarrow> string \<Rightarrow> packer" where
  "Packer_String p s = emit (Packer_listHeader p (int (length s)) 0x80 0xd0) (str_bytes s)"

definition Packer_Strings :: "packer \<Rightarrow> string list \<Rightarrow> packer" where
  "Packer_Strings p ss = foldl Packer_String (Packer_listHeader p (int (length ss)) 0x90 0xd4) ss"

definition Packer_Ints :: "packer \<Rightarrow> int64 list \<Rightarrow> packer" where
  "Packer_Ints p ii = foldl Packer_Int (Packer_listHeader p (int (length ii)) 0x90 0xd4) ii"

definition Packer_Int64s :: "packer \<Rightarrow> int64 list \<Rightarrow> packer" where
  "Packer_Int64s p ii = foldl Packer_Int64 (Packer_listHeader p (int (length ii)) 0x90 0xd4) ii"

definition Packer_Float64s :: "packer \<Rightarrow> 64 word list \<Rightarrow> packer" where
  "Packer_Float64s p ii = foldl Packer_Float64 (Packer_listHeader p (int (length ii)) 0x90 0xd4) ii"

definition Packer_ArrayHeader :: "packer \<Rightarrow> int \<Rightarrow> packer" where
  "Packer_ArrayHeader p l = Packer_listHeader p l 0x90 0xd4"

definition Packer_MapHeader :: "packer \<Rightarrow> int \<Rightarrow> packer" where
  "Packer_MapHeader p l = Packer_listHeader p l 0xa0 0xd8"

text \<open>The header of a byte array; the bound is 2^32 here, against 2^32 - 1 in \<open>list_header\<close>.\<close>

definition bytes_header :: "int \<Rightarrow> bytes option" where
  "bytes_header l =
     (if l < 0x100 then Some [0xcc, word_of_int l]
      else if l < 0x10000 then Some (0xcd # be_bytes 2 (unat (word_of_int l :: 16 word)))
      else if l < 0x100000000 then Some (0xce # be_bytes 4 (unat (word_of_int l :: 32 word)))
      else None)"

definition Packer_bytesHeader :: "packer \<Rightarrow> int \<Rightarrow> packer \<times> perr option" where
  "Packer_bytesHeader p l =
     (case bytes_header l of
        Some hdr \<Rightarrow> (emit p hdr, None)
      | None \<Rightarrow> (p, Some (OverflowError (TooLargeBytes l))))"

definition Packer_Bytes :: "packer \<Rightarrow> bytes \<Rightarrow> packer" where
  "Packer_Bytes p b =
     (case Packer_bytesHeader p (int (length b)) of
        (p', Some e) \<Rightarrow> p'\<lparr>p_err := Some e\<rparr>
      | (p', None) \<Rightarrow> emit p' b)"

definition pack_entries :: "(packer \<Rightarrow> 'v \<Rightarrow> packer) \<Rightarrow> packer \<Rightarrow> (string \<times> 'v) list \<Rightarrow> packer" where
  "pack_entries f p m = foldl (\<lambda>q (k, v). f (Packer_String q k) v) (Packer_MapHeader p (int (length m))) m"

definition Packer_BytesMap :: "packer \<Rightarrow> (string \<times> bytes) list \<Rightarrow> packer" where
  "Packer_BytesMap p m = pack_entries Packer_Bytes p m"

definition Packer_IntMap :: "packer \<Rightarrow> (string \<times> int64) list \<Rightarrow> packer" where
  "Packer_IntMap p m = pack_entries Packer_Int p m"

definition Packer_Int64Map :: "packer \<Rightarrow> (string \<times> int64) list \<Rightarrow> packer" where
  "Packer_Int64Map p m = pack_entries Packer_Int64 p m"

definition Packer_StringMap :: "packer \<Rightarrow> (string \<times> string) list \<Rightarrow> packer" where
  "Packer_StringMap p m = pack_entries Packer_String p m"

definition Packer_Float64Map :: "packer \<Rightarrow> (string \<times> 64 word) list \<Rightarrow> packer" where
  "Packer_Float64Map p m = pack_entries Packer_Float64 p m"

definition Packer_prepareVectorData :: "packer \<Rightarrow> int \<Rightarrow> packer \<times> perr option" where
  "Packer_prepareVectorData p totalSize =
     (case Packer_bytesHeader p totalSize of
        (p', Some e) \<Rightarrow> (p'\<lparr>p_err := Some e\<rparr>, Some e)
      | (p', None) \<Rightarrow> (p', None))"

definition Packer_Bool :: "packer \<Rightarrow> bool \<Rightarrow> packer" where
  "Packer_Bool p b = (if b then emit p [0xc3] else emit p [0xc2])"

definition Packer_Nil :: "packer \<Rightarrow> packer" where
  "Packer_Nil p = emit p [0xc0]"

text \<open>The argument is the Go array type [16]byte.\<close>

definition Packer_UUID :: "packer \<Rightarrow> bytes \<Rightarrow> packer" where
  "Packer_UUID p u = emit (emit p [0xe0]) u"

text \<open>
  The six vector methods have the same body over the marker of the element type, its size in bytes
  and the function that appends one element.
\<close>

definition Packer_vector :: "byte \<Rightarrow> int \<Rightarrow> ('e \<Rightarrow> bytes) \<Rightarrow> packer \<Rightarrow> 'e list \<Rightarrow> packer" where
  "Packer_vector mrk esize enc p vec =
     (let p1 = Packer_Bytes (Packer_StructHeader p 0x56 2) [mrk]
      in if vec = [] then Packer_Bytes p1 []
         else case Packer_prepareVectorData p1 (int (length vec) * esize) of
                (p2, Some e) \<Rightarrow> p2
              | (p2, None) \<Rightarrow> foldl (\<lambda>q v. emit q (enc v)) p2 vec)"

definition Packer_VectorFloat64 :: "packer \<Rightarrow> 64 word list \<Rightarrow> packer" where
  "Packer_VectorFloat64 = Packer_vector 0xc1 8 (\<lambda>v. be_bytes 8 (unat v))"

definition Packer_VectorFloat32 :: "packer \<Rightarrow> 32 word list \<Rightarrow> packer" where
  "Packer_VectorFloat32 = Packer_vector 0xc6 4 (\<lambda>v. be_bytes 4 (unat v))"

definition Packer_VectorInt8 :: "packer \<Rightarrow> 8 word list \<Rightarrow> packer" where
  "Packer_VectorInt8 = Packer_vector 0xc8 1 (\<lambda>v. [v])"

definition Packer_VectorInt16 :: "packer \<Rightarrow> 16 word list \<Rightarrow> packer" where
  "Packer_VectorInt16 = Packer_vector 0xc9 2 (\<lambda>v. be_bytes 2 (unat v))"

definition Packer_VectorInt32 :: "packer \<Rightarrow> 32 word list \<Rightarrow> packer" where
  "Packer_VectorInt32 = Packer_vector 0xca 4 (\<lambda>v. be_bytes 4 (unat v))"

definition Packer_VectorInt64 :: "packer \<Rightarrow> 64 word list \<Rightarrow> packer" where
  "Packer_VectorInt64 = Packer_vector 0xcb 8 (\<lambda>v. be_bytes 8 (unat v))"

section \<open>The methods as appended bytes\<close>

lemma emit_simps [simp]:
  "p_buf (emit p bs) = p_buf p @ bs" "p_err (emit p bs) = p_err p"
  "emit (emit p bs) cs = emit p (bs @ cs)" "emit p [] = p"
  by (simp_all add: emit_def)

lemma setErr_simps [simp]:
  "p_buf (Packer_setErr p e) = p_buf p"
  "p_err (Packer_setErr p e) = Some (case p_err p of None \<Rightarrow> e | Some e' \<Rightarrow> e')"
  by (auto simp: Packer_setErr_def)

lemma foldl_emit: "(\<And>q x. f q x = emit q (g x)) \<Longrightarrow> foldl f p xs = emit p (concat (map g xs))"
  by (induction xs arbitrary: p) simp_all

lemma foldl_emit_on:
  "(\<And>q x. x \<in> set xs \<Longrightarrow> f q x = emit q (g x)) \<Longrightarrow> foldl f p xs = emit p (concat (map g xs))"
  by (induction xs arbitrary: p) simp_all

end
