(* ===== verification/Unpacker.thy ===== *)
theory Unpacker
  imports Packer
begin

text \<open>
  The deserialiser of the package packstream (src/neo4j/internal/packstream/unpacker.go). Offsets and
  lengths keep their width (uint32, with wrap-around), \<open>shortlen\<close> is an int8. Every method returns its
  result with the new unpacker, or \<^const>\<open>None\<close> where the Go code panics on an index out of range.
\<close>

datatype packed = PackedUndef | PackedInt | PackedFloat | PackedStr | PackedStruct | PackedByteArray
  | PackedArray | PackedMap | PackedNil | PackedTrue | PackedFalse | PackedUUID

record marker =
  m_typ :: packed
  m_shortlen :: "8 word"
  m_numlenbytes :: "8 word"

record unpacker =
  u_buf :: bytes
  u_off :: uint32
  u_len :: uint32
  u_mrk :: marker
  u_Err :: "perr option"
  u_Curr :: packed

text \<open>The marker table that the package's init function fills; entries it leaves out are zero.\<close>

definition short_marker :: "packed \<Rightarrow> byte \<Rightarrow> marker" where
  "short_marker t s = \<lparr>m_typ = t, m_shortlen = s, m_numlenbytes = 0\<rparr>"

definition long_marker :: "packed \<Rightarrow> byte \<Rightarrow> marker" where
  "long_marker t n = \<lparr>m_typ = t, m_shortlen = 0, m_numlenbytes = n\<rparr>"

definition markers :: "byte \<Rightarrow> marker" where
  "markers i =
     (if i < 0x80 then short_marker PackedInt i
      else if i < 0x90 then short_marker PackedStr (i - 0x80)
      else if i < 0xa0 then short_marker PackedArray (i - 0x90)
      else if i < 0xb0 then short_marker PackedMap (i - 0xa0)
      else if i < 0xc0 then short_marker PackedStruct (i - 0xb0)
      else if i = 0xc0 then short_marker PackedNil 0
      else if i = 0xc1 then long_marker PackedFloat 8
      else if i = 0xc2 then short_marker PackedFalse 0
      else if i = 0xc3 then short_marker PackedTrue 0
      else if i = 0xc8 then long_marker PackedInt 1
      else if i = 0xc9 then long_marker PackedInt 2
      else if i = 0xca then long_marker PackedInt 4
      else if i = 0xcb then long_marker PackedInt 8
      else if i = 0xcc then long_marker PackedByteArray 1
      else if i = 0xcd then long_marker PackedByteArray 2
      else if i = 0xce then long_marker PackedByteArray 4
      else if i = 0xd0 then long_marker PackedStr 1
      else if i = 0xd1 then long_marker PackedStr 2
      else if i = 0xd2 then long_marker PackedStr 4
      else if i = 0xd4 then long_marker PackedArray 1
      else if i = 0xd5 then long_marker PackedArray 2
      else if i = 0xd6 then long_marker PackedArray 4
      else if i = 0xd8 then long_marker PackedMap 1
      else if i = 0xd9 then long_marker PackedMap 2
      else if i = 0xda then long_marker PackedMap 4
      else if i = 0xe0 then short_marker PackedUUID 0
      else if 0xf0 \<le> i then short_marker PackedInt i
      else short_marker PackedUndef 0)"

text \<open>Reset keeps the other fields of the marker; only its type is cleared.\<close>

definition Unpacker_Reset :: "unpacker \<Rightarrow> bytes \<Rightarrow> unpacker" where
  "Unpacker_Reset u buf =
     u\<lparr>u_buf := buf, u_off := 0, u_len := word_of_nat (length buf), u_Err := None,
       u_mrk := (u_mrk u)\<lparr>m_typ := PackedUndef\<rparr>, u_Curr := PackedUndef\<rparr>"

definition Unpacker_setErr :: "unpacker \<Rightarrow> perr \<Rightarrow> unpacker" where
  "Unpacker_setErr u e = (if u_Err u = None then u\<lparr>u_Err := Some e\<rparr> else u)"

definition Unpacker_pop :: "unpacker \<Rightarrow> (byte \<times> unpacker) option" where
  "Unpacker_pop u =
     (if u_off u < u_len u
      then do { x \<leftarrow> at (u_buf u) (unat (u_off u)); Some (x, u\<lparr>u_off := u_off u + 1\<rparr>) }
      else Some (0, Unpacker_setErr u IoError))"

definition Unpacker_read :: "unpacker \<Rightarrow> uint32 \<Rightarrow> (bytes \<times> unpacker) option" where
  "Unpacker_read u n =
     (let start = u_off u; stop = u_off u + n
      in if n > u_len u - u_off u then Some ([], Unpacker_setErr u IoError)
         else do { bs \<leftarrow> slice (u_buf u) (unat start) (unat stop); Some (bs, u\<lparr>u_off := stop\<rparr>) })"

text \<open>\<open>be_at u n\<close>: the \<open>n\<close> bytes from the offset on; reading past the end of the buffer panics.\<close>

definition be_at :: "unpacker \<Rightarrow> nat \<Rightarrow> nat option" where
  "be_at u n = map_option be_nat (slice (u_buf u) (unat (u_off u)) (unat (u_off u) + n))"

definition Unpacker_readlen :: "unpacker \<Rightarrow> uint32 \<Rightarrow> (uint32 \<times> unpacker) option" where
  "Unpacker_readlen u n =
     (let stop = u_off u + n
      in if stop > u_len u then Some (0, Unpacker_setErr u IoError)
         else if n = 1 \<or> n = 2 \<or> n = 4
         then do { l \<leftarrow> be_at u (unat n); Some (word_of_nat l, u\<lparr>u_off := stop\<rparr>) }
         else Some (0, (Unpacker_setErr u (UnpackError ''Illegal length''))\<lparr>u_off := stop\<rparr>))"

definition Unpacker_Next :: "unpacker \<Rightarrow> unpacker option" where
  "Unpacker_Next u =
     do { (i, u1) \<leftarrow> Unpacker_pop u;
          Some (u1\<lparr>u_mrk := markers i, u_Curr := m_typ (markers i)\<rparr>) }"

definition Unpacker_Len :: "unpacker \<Rightarrow> (uint32 \<times> unpacker) option" where
  "Unpacker_Len u =
     (if m_numlenbytes (u_mrk u) = 0 then Some (scast (m_shortlen (u_mrk u)), u)
      else Unpacker_readlen u (ucast (m_numlenbytes (u_mrk u))))"

definition Unpacker_Int :: "unpacker \<Rightarrow> (int64 \<times> unpacker) option" where
  "Unpacker_Int u =
     (let n = m_numlenbytes (u_mrk u); stop = u_off u + ucast n
      in if n = 0 then Some (scast (m_shortlen (u_mrk u)), u)
         else if stop > u_len u then Some (0, Unpacker_setErr u IoError)
         else if n = 1 then do { x \<leftarrow> be_at u 1; Some (scast (word_of_nat x :: 8 word), u\<lparr>u_off := stop\<rparr>) }
         else if n = 2 then do { x \<leftarrow> be_at u 2; Some (scast (word_of_nat x :: 16 word), u\<lparr>u_off := stop\<rparr>) }
         else if n = 4 then do { x \<leftarrow> be_at u 4; Some (scast (word_of_nat x :: 32 word), u\<lparr>u_off := stop\<rparr>) }
         else if n = 8 then do { x \<leftarrow> be_at u 8; Some (word_of_nat x, u\<lparr>u_off := stop\<rparr>) }
         else Some (0, Unpacker_setErr u (UnpackError ''Illegal int length'')))"

text \<open>The quiet NaN that math.NaN returns, as a bit pattern.\<close>

definition NaN :: "64 word" where
  "NaN = 0x7FF8000000000001"

definition Unpacker_Float :: "unpacker \<Rightarrow> (64 word \<times> unpacker) option" where
  "Unpacker_Float u =
     do { (buf, u1) \<leftarrow> Unpacker_read u 8;
          if u_Err u1 \<noteq> None then Some (NaN, u1)
          else do { bs \<leftarrow> slice buf 0 8; Some (word_of_nat (be_nat bs), u1) } }"

definition Unpacker_StructTag :: "unpacker \<Rightarrow> (byte \<times> unpacker) option" where
  "Unpacker_StructTag u = Unpacker_pop u"

definition Unpacker_String :: "unpacker \<Rightarrow> (string \<times> unpacker) option" where
  "Unpacker_String u =
     do { (n, u1) \<leftarrow> (if m_numlenbytes (u_mrk u) = 0 then Some (scast (m_shortlen (u_mrk u)), u)
                      else Unpacker_readlen u (ucast (m_numlenbytes (u_mrk u))));
          (bs, u2) \<leftarrow> Unpacker_read u1 n;
          Some (bytes_str bs, u2) }"

definition Unpacker_Bool :: "unpacker \<Rightarrow> bool \<times> unpacker" where
  "Unpacker_Bool u =
     (case u_Curr u of
        PackedTrue \<Rightarrow> (True, u)
      | PackedFalse \<Rightarrow> (False, u)
      | _ \<Rightarrow> (False, Unpacker_setErr u (UnpackError ''Illegal value for bool'')))"

definition Unpacker_ByteArray :: "unpacker \<Rightarrow> (bytes \<times> unpacker) option" where
  "Unpacker_ByteArray u = do { (n, u1) \<leftarrow> Unpacker_Len u; Unpacker_read u1 n }"

text \<open>The result is the array type [16]byte: a short read leaves zeros behind what was copied.\<close>

definition Unpacker_UUID :: "unpacker \<Rightarrow> (bytes \<times> unpacker) option" where
  "Unpacker_UUID u =
     do { (buf, u1) \<leftarrow> Unpacker_read u 16;
          Some (take 16 (buf @ replicate 16 0), u1) }"

section \<open>Well-formed unpackers\<close>

text \<open>
  The offset stays inside the buffer, and the buffer is short enough that no offset computation wraps:
  a single length field of a marker is a byte, so no read of a fixed size is longer than 255 bytes.
\<close>

definition wf_unpacker :: "unpacker \<Rightarrow> bool" where
  "wf_unpacker u \<longleftrightarrow>
     length (u_buf u) + 256 < 2 ^ 32 \<and> unat (u_len u) = length (u_buf u) \<and>
     unat (u_off u) \<le> length (u_buf u)"

definition rest :: "unpacker \<Rightarrow> bytes" where
  "rest u = drop (unat (u_off u)) (u_buf u)"

definition adv :: "nat \<Rightarrow> unpacker \<Rightarrow> unpacker" where
  "adv n u = u\<lparr>u_off := u_off u + word_of_nat n\<rparr>"

lemma adv_fields [simp]:
  "u_buf (adv n u) = u_buf u" "u_len (adv n u) = u_len u" "u_mrk (adv n u) = u_mrk u"
  "u_Err (adv n u) = u_Err u" "u_Curr (adv n u) = u_Curr u"
  by (simp_all add: adv_def)

lemma wf_reset: "length buf + 256 < 2 ^ 32 \<Longrightarrow> wf_unpacker (Unpacker_Reset u buf)"
  by (simp add: wf_unpacker_def Unpacker_Reset_def unat_of_nat)

lemma rest_reset [simp]: "rest (Unpacker_Reset u buf) = buf"
  by (simp add: rest_def Unpacker_Reset_def)

lemma Err_reset [simp]: "u_Err (Unpacker_Reset u buf) = None"
  by (simp add: Unpacker_Reset_def)

lemma wf_fields [simp]:
  "wf_unpacker (u\<lparr>u_mrk := m\<rparr>) = wf_unpacker u" "wf_unpacker (u\<lparr>u_Curr := c\<rparr>) = wf_unpacker u"
  "wf_unpacker (u\<lparr>u_Err := e\<rparr>) = wf_unpacker u" "wf_unpacker (Unpacker_setErr u x) = wf_unpacker u"
  by (simp_all add: wf_unpacker_def Unpacker_setErr_def)

lemma rest_fields [simp]:
  "rest (u\<lparr>u_mrk := m\<rparr>) = rest u" "rest (u\<lparr>u_Curr := c\<rparr>) = rest u"
  "rest (u\<lparr>u_Err := e\<rparr>) = rest u" "rest (Unpacker_setErr u x) = rest u"
  by (simp_all add: rest_def Unpacker_setErr_def)

lemma length_rest: "wf_unpacker u \<Longrightarrow> length (rest u) = unat (u_len u) - unat (u_off u)"
  by (simp add: wf_unpacker_def rest_def)

lemma unat_off_add:
  assumes "wf_unpacker u" and "n \<le> length (rest u) + 256"
  shows "unat (u_off u + word_of_nat n) = unat (u_off u) + n"
proof -
  have "unat (u_off u) + n < 2 ^ 32"
    using assms by (auto simp: wf_unpacker_def rest_def)
  then show ?thesis
    by (simp add: unat_word_ariths unat_of_nat)
qed

lemma adv_rest:
  assumes "wf_unpacker u" and "n \<le> length (rest u)"
  shows "wf_unpacker (adv n u)" and "rest (adv n u) = drop n (rest u)"
  using assms unat_off_add [of u n]
  by (auto simp: wf_unpacker_def rest_def adv_def add.commute)

lemma pop_rest: "wf_unpacker u \<Longrightarrow> rest u = b # r \<Longrightarrow> Unpacker_pop u = Some (b, adv 1 u)"
proof -
  assume wf: "wf_unpacker u" and r: "rest u = b # r"
  from r have lt: "unat (u_off u) < length (u_buf u)"
    by (metis drop_eq_Nil2 list.distinct(1) not_le_imp_less rest_def)
  moreover have "u_buf u ! unat (u_off u) = b"
    using r lt by (simp add: rest_def nth_via_drop)
  ultimately show ?thesis
    using wf by (simp add: Unpacker_pop_def wf_unpacker_def word_less_nat_alt at_def adv_def)
qed

lemma pop_empty: "wf_unpacker u \<Longrightarrow> rest u = [] \<Longrightarrow> Unpacker_pop u = Some (0, Unpacker_setErr u IoError)"
  by (auto simp: Unpacker_pop_def wf_unpacker_def rest_def word_less_nat_alt)

lemma slice_rest:
  assumes "wf_unpacker u" and "rest u = bs @ r"
  shows "slice (u_buf u) (unat (u_off u)) (unat (u_off u) + length bs) = Some bs"
proof -
  have "length bs \<le> length (rest u)" using assms(2) by simp
  then have "unat (u_off u) + length bs \<le> length (u_buf u)"
    using assms(1) by (auto simp: rest_def wf_unpacker_def)
  then show ?thesis
    using assms(2) by (simp add: slice_def rest_def)
qed

lemma read_rest:
  assumes "wf_unpacker u" and "rest u = bs @ r" and "n = word_of_nat (length bs)"
  shows "Unpacker_read u n = Some (bs, adv (length bs) u)"
proof -
  have le: "length bs \<le> length (rest u)" using assms(2) by simp
  then have stop: "unat (u_off u + n) = unat (u_off u) + length bs"
    using assms(1,3) unat_off_add [of u "length bs"] by simp
  have small: "length bs < 2 ^ 32"
    using le assms(1) by (auto simp: rest_def wf_unpacker_def)
  then have "\<not> n > u_len u - u_off u"
    using le assms(1,3) length_rest [OF assms(1)]
    by (simp add: word_less_nat_alt unat_of_nat unat_sub wf_unpacker_def word_le_nat_alt)
  then show ?thesis
    using slice_rest [OF assms(1,2)] stop assms(3) by (simp add: Unpacker_read_def adv_def)
qed

lemma be_at_rest: "wf_unpacker u \<Longrightarrow> rest u = bs @ r \<Longrightarrow> be_at u (length bs) = Some (be_nat bs)"
  by (simp add: be_at_def slice_rest)

lemma stop_le_iff:
  assumes "wf_unpacker u" and "n \<le> 256"
  shows "u_off u + word_of_nat n > u_len u \<longleftrightarrow> length (rest u) < n"
  using assms unat_off_add [of u n] length_rest [of u]
  by (auto simp: word_less_nat_alt wf_unpacker_def)

lemma readlen_rest:
  assumes "wf_unpacker u" and "rest u = bs @ r" and "length bs \<in> {1, 2, 4}" and "n = word_of_nat (length bs)"
  shows "Unpacker_readlen u n = Some (word_of_nat (be_nat bs), adv (length bs) u)"
proof -
  have "\<not> u_off u + n > u_len u"
    using assms stop_le_iff [of u "length bs"] by auto
  then show ?thesis
    using assms be_at_rest [OF assms(1,2)] by (auto simp: Unpacker_readlen_def adv_def)
qed

section \<open>No method panics\<close>

text \<open>
  The contract of every reading method: from a well-formed unpacker it returns, the unpacker stays
  well formed, it keeps the buffer, never moves backwards and never clears an error.
\<close>

definition progress :: "unpacker \<Rightarrow> unpacker \<Rightarrow> bool" where
  "progress u u' \<longleftrightarrow> wf_unpacker u' \<and> u_buf u' = u_buf u \<and> unat (u_off u) \<le> unat (u_off u') \<and>
     (u_Err u \<noteq> None \<longrightarrow> u_Err u' = u_Err u)"

lemma progress_refl [intro, simp]: "wf_unpacker u \<Longrightarrow> progress u u"
  by (simp add: progress_def)

lemma progress_trans [trans]: "progress u v \<Longrightarrow> progress v w \<Longrightarrow> progress u w"
  by (auto simp: progress_def)

lemma progress_wf: "progress u u' \<Longrightarrow> wf_unpacker u'"
  by (simp add: progress_def)

lemma progress_fields [simp]:
  "progress u (v\<lparr>u_mrk := m\<rparr>) = progress u v" "progress u (v\<lparr>u_Curr := c\<rparr>) = progress u v"
  by (simp_all add: progress_def)

lemma progress_setErr: "progress u v \<Longrightarrow> progress u (Unpacker_setErr v e)"
  by (auto simp: progress_def Unpacker_setErr_def wf_unpacker_def)

lemma progress_adv: "wf_unpacker u \<Longrightarrow> n \<le> length (rest u) \<Longrightarrow> progress u (adv n u)"
  using unat_off_add [of u n] by (auto simp: progress_def adv_rest) (simp add: adv_def)

locale safe_reader =
  fixes reader :: "unpacker \<Rightarrow> ('a \<times> unpacker) option"
  assumes reader_returns: "wf_unpacker u \<Longrightarrow> \<exists>x u'. reader u = Some (x, u') \<and> progress u u'"
begin

lemma reader_obtain:
  assumes "progress u v"
  obtains x w where "reader v = Some (x, w)" and "progress u w"
  using assms reader_returns [OF progress_wf [OF assms]] progress_trans by blast

end

lemma pop_safe: "wf_unpacker u \<Longrightarrow> \<exists>x u'. Unpacker_pop u = Some (x, u') \<and> progress u u'"
  by (cases "rest u") (auto simp: pop_empty pop_rest intro: progress_adv progress_setErr)

lemma read_safe: "wf_unpacker u \<Longrightarrow> \<exists>x u'. Unpacker_read u n = Some (x, u') \<and> progress u u'"
proof (cases "unat n \<le> length (rest u)")
  case True
  assume wf: "wf_unpacker u"
  let ?bs = "take (unat n) (rest u)"
  have "rest u = ?bs @ drop (unat n) (rest u)" and "n = word_of_nat (length ?bs)"
    using True by simp_all
  then have "Unpacker_read u n = Some (?bs, adv (length ?bs) u)"
    by (rule read_rest [OF wf])
  with True wf show ?thesis by (auto intro: progress_adv)
next
  case False
  assume wf: "wf_unpacker u"
  with False length_rest [OF wf] have "n > u_len u - u_off u"
    by (auto simp: word_less_nat_alt unat_sub wf_unpacker_def word_le_nat_alt)
  with wf show ?thesis
    by (auto simp: Unpacker_read_def intro: progress_setErr)
qed

interpretation pop: safe_reader Unpacker_pop
  by unfold_locales (rule pop_safe)

interpretation structTag: safe_reader Unpacker_StructTag
  by unfold_locales (simp add: Unpacker_StructTag_def pop_safe)

interpretation read: safe_reader "\<lambda>u. Unpacker_read u n"
  by unfold_locales (rule read_safe)

lemma unat_ucast_byte: "unat (ucast (b :: byte) :: uint32) = unat b"
  by (simp add: unsigned_ucast_eq take_bit_nat_eq_self unat_byte_less less_trans [OF unat_byte_less])

lemma ucast_byte: "(ucast (b :: byte) :: uint32) = word_of_nat (unat b)"
  by (simp add: word_unat_eq_iff unat_ucast_byte unat_of_nat less_trans [OF unat_byte_less])

lemma stop_byte:
  fixes b :: byte
  assumes "wf_unpacker u"
  shows "u_off u + ucast b > u_len u \<longleftrightarrow> length (rest u) < unat b"
  unfolding ucast_byte using assms unat_byte_less [of b] by (intro stop_le_iff) simp_all

lemma progress_byte:
  fixes b :: byte
  assumes "wf_unpacker u" and "unat b \<le> length (rest u)"
  shows "progress u (u\<lparr>u_off := u_off u + ucast b\<rparr>)"
  using progress_adv [OF assms] unfolding adv_def ucast_byte .

lemma be_at_safe:
  assumes "wf_unpacker u" and "k \<le> length (rest u)"
  shows "\<exists>x. be_at u k = Some x"
  using be_at_rest [OF assms(1), of "take k (rest u)" "drop k (rest u)"] assms(2) by auto

lemma readlen_safe:
  fixes b :: byte
  assumes "wf_unpacker u"
  shows "\<exists>x u'. Unpacker_readlen u (ucast b) = Some (x, u') \<and> progress u u'"
proof (cases "length (rest u) < unat b")
  case True
  then have "u_off u + ucast b > u_len u"
    using assms by (simp add: stop_byte)
  then show ?thesis
    using assms by (auto simp: Unpacker_readlen_def Let_def intro: progress_setErr)
next
  case False
  then have ok: "\<not> u_off u + ucast b > u_len u" and len: "unat b \<le> length (rest u)"
    using assms by (simp_all add: stop_byte)
  obtain x where x: "be_at u (unat (ucast b :: uint32)) = Some x"
    using be_at_safe [OF assms len] by (auto simp: unat_ucast_byte)
  have p: "progress u (u\<lparr>u_off := u_off u + ucast b\<rparr>)"
    using assms len by (rule progress_byte)
  moreover have "progress u ((Unpacker_setErr u e)\<lparr>u_off := u_off u + ucast b\<rparr>)" for e
    using p by (auto simp: progress_def Unpacker_setErr_def wf_unpacker_def)
  ultimately show ?thesis
    using ok x by (auto simp: Unpacker_readlen_def Let_def)
qed

lemma Next_safe: "wf_unpacker u \<Longrightarrow> \<exists>u'. Unpacker_Next u = Some u' \<and> progress u u'"
  using pop_safe [of u] by (auto simp: Unpacker_Next_def)

lemma Len_safe: "wf_unpacker u \<Longrightarrow> \<exists>x u'. Unpacker_Len u = Some (x, u') \<and> progress u u'"
  by (simp add: Unpacker_Len_def readlen_safe)

lemma Int_safe:
  assumes "wf_unpacker u"
  shows "\<exists>x u'. Unpacker_Int u = Some (x, u') \<and> progress u u'"
proof (cases "length (rest u) < unat (m_numlenbytes (u_mrk u))")
  case True
  then have "u_off u + ucast (m_numlenbytes (u_mrk u)) > u_len u"
    using assms by (simp add: stop_byte)
  then show ?thesis
    using assms by (auto simp: Unpacker_Int_def Let_def intro: progress_setErr)
next
  case False
  let ?n = "m_numlenbytes (u_mrk u)"
  have "\<exists>x. be_at u k = Some x" if "k \<le> unat ?n" for k
    using False that be_at_safe [OF assms] by simp
  moreover have "unat ?n = 1" if "?n = 1" using that by simp
  moreover have "unat ?n = 2" if "?n = 2" using that by simp
  moreover have "unat ?n = 4" if "?n = 4" using that by simp
  moreover have "unat ?n = 8" if "?n = 8" using that by simp
  moreover have "progress u (u\<lparr>u_off := u_off u + ucast ?n\<rparr>)"
    using False assms by (simp add: progress_byte)
  ultimately show ?thesis
    using assms by (fastforce simp: Unpacker_Int_def Let_def intro: progress_setErr)
qed

lemma read_Err_None:
  assumes "wf_unpacker u" and "Unpacker_read u n = Some (bs, u')" and "u_Err u' = None"
  shows "length bs = unat n"
proof (cases "n > u_len u - u_off u")
  case True
  with assms(2,3) show ?thesis
    by (auto simp: Unpacker_read_def Unpacker_setErr_def split: if_splits)
next
  case False
  then have "unat n \<le> length (rest u)"
    using assms(1) length_rest [OF assms(1)]
    by (auto simp: word_less_nat_alt unat_sub wf_unpacker_def word_le_nat_alt)
  then have "Unpacker_read u n = Some (take (unat n) (rest u), adv (unat n) u)"
    using read_rest [OF assms(1), of "take (unat n) (rest u)" "drop (unat n) (rest u)" n] by simp
  with assms(2) \<open>unat n \<le> length (rest u)\<close> show ?thesis by auto
qed

lemma Float_safe: "wf_unpacker u \<Longrightarrow> \<exists>x u'. Unpacker_Float u = Some (x, u') \<and> progress u u'"
  using read_safe [of u 8] read_Err_None [of u 8]
  by (auto simp: Unpacker_Float_def slice_def)

lemma UUID_safe: "wf_unpacker u \<Longrightarrow> \<exists>x u'. Unpacker_UUID u = Some (x, u') \<and> progress u u'"
  using read_safe [of u 16] by (auto simp: Unpacker_UUID_def)

lemma String_safe:
  assumes "wf_unpacker u"
  shows "\<exists>x u'. Unpacker_String u = Some (x, u') \<and> progress u u'"
proof -
  obtain n v where n: "Unpacker_Len u = Some (n, v)" and v: "progress u v"
    using Len_safe [OF assms] by blast
  obtain bs w where "Unpacker_read v n = Some (bs, w)" and "progress u w"
    using v by (rule read.reader_obtain)
  with n show ?thesis
    by (auto simp: Unpacker_String_def Unpacker_Len_def)
qed

lemma ByteArray_safe:
  assumes "wf_unpacker u"
  shows "\<exists>x u'. Unpacker_ByteArray u = Some (x, u') \<and> progress u u'"
proof -
  obtain n v where n: "Unpacker_Len u = Some (n, v)" and v: "progress u v"
    using Len_safe [OF assms] by blast
  obtain bs w where "Unpacker_read v n = Some (bs, w)" and "progress u w"
    using v by (rule read.reader_obtain)
  with n show ?thesis by (auto simp: Unpacker_ByteArray_def)
qed

lemma Bool_safe: "wf_unpacker u \<Longrightarrow> \<exists>x u'. Unpacker_Bool u = (x, u') \<and> progress u u'"
  by (auto simp: Unpacker_Bool_def intro: progress_setErr split: packed.splits)

interpretation len: safe_reader Unpacker_Len
  by unfold_locales (rule Len_safe)

interpretation int: safe_reader Unpacker_Int
  by unfold_locales (rule Int_safe)

interpretation float: safe_reader Unpacker_Float
  by unfold_locales (rule Float_safe)

interpretation string: safe_reader Unpacker_String
  by unfold_locales (rule String_safe)

interpretation byteArray: safe_reader Unpacker_ByteArray
  by unfold_locales (rule ByteArray_safe)

interpretation uuid: safe_reader Unpacker_UUID
  by unfold_locales (rule UUID_safe)

section \<open>Properties\<close>

end
