(* ===== verification/Packstream.thy ===== *)
theory Packstream
  imports Unpacker
begin

text \<open>
  What the packer writes, the unpacker reads. A codec is an encoder to bytes together with the
  reading methods that take those bytes off the front of the unread part of the buffer; the laws are
  stated once in a locale, with the lemmas for sequences of encoded values, and interpreted on the
  scalar methods of the Packer and Unpacker.
\<close>

definition got :: "unpacker \<Rightarrow> bytes \<Rightarrow> unpacker \<Rightarrow> bool" where
  "got u r u' \<longleftrightarrow> wf_unpacker u' \<and> rest u' = r \<and> u_Err u' = u_Err u"

lemma got_trans [trans]: "got u r v \<Longrightarrow> got v s w \<Longrightarrow> got u s w"
  by (simp add: got_def)

lemma got_fields [simp]:
  "got u r (v\<lparr>u_mrk := m\<rparr>) = got u r v" "got u r (v\<lparr>u_Curr := c\<rparr>) = got u r v"
  by (simp_all add: got_def)

lemma got_adv: "wf_unpacker u \<Longrightarrow> rest u = bs @ r \<Longrightarrow> got u r (adv (length bs) u)"
  by (simp add: got_def adv_rest)

text \<open>A loop of the source that reads \<open>n\<close> values one after the other.\<close>

fun read_n :: "(unpacker \<Rightarrow> ('a \<times> unpacker) option) \<Rightarrow> nat \<Rightarrow> unpacker \<Rightarrow> ('a list \<times> unpacker) option" where
  "read_n f 0 u = Some ([], u)"
| "read_n f (Suc n) u = do { (x, u1) \<leftarrow> f u; (xs, u2) \<leftarrow> read_n f n u1; Some (x # xs, u2) }"

locale wire_codec =
  fixes enc :: "'a \<Rightarrow> bytes"
    and dec :: "unpacker \<Rightarrow> ('a \<times> unpacker) option"
    and ok :: "'a \<Rightarrow> bool"
  assumes dec_enc: "ok x \<Longrightarrow> wf_unpacker u \<Longrightarrow> rest u = enc x @ r \<Longrightarrow> \<exists>u'. dec u = Some (x, u') \<and> got u r u'"
begin

lemma read_n_enc:
  assumes "list_all ok xs" and "wf_unpacker u" and "rest u = concat (map enc xs) @ r"
  shows "\<exists>u'. read_n dec (length xs) u = Some (xs, u') \<and> got u r u'"
  using assms
proof (induction xs arbitrary: u)
  case Nil
  then show ?case by (simp add: got_def)
next
  case (Cons x xs)
  then obtain v where v: "dec u = Some (x, v)" "got u (concat (map enc xs) @ r) v"
    using dec_enc [of x u "concat (map enc xs) @ r"] by auto
  have "\<exists>w. read_n dec (length xs) v = Some (xs, w) \<and> got v r w"
    using Cons.prems v(2) by (intro Cons.IH) (simp_all add: got_def)
  then obtain w where "read_n dec (length xs) v = Some (xs, w)" "got v r w" by blast
  with v show ?case by (auto intro: got_trans)
qed

lemma dec_after_reset:
  assumes "ok x" and "length (enc x @ r) + 256 < 2 ^ 32"
  shows "\<exists>u'. dec (Unpacker_Reset u (enc x @ r)) = Some (x, u') \<and> rest u' = r \<and> u_Err u' = None"
  using dec_enc [OF assms(1) wf_reset [OF assms(2)]] by (auto simp: got_def)

end

lemma Next_rest:
  "wf_unpacker u \<Longrightarrow> rest u = b # r \<Longrightarrow>
     Unpacker_Next u = Some ((adv 1 u)\<lparr>u_mrk := markers b, u_Curr := m_typ (markers b)\<rparr>)"
  by (simp add: Unpacker_Next_def pop_rest)

lemma got_adv1: "wf_unpacker u \<Longrightarrow> rest u = b # r \<Longrightarrow> got u r (adv 1 u)"
  using got_adv [of u "[b]" r] by simp

section \<open>Integers\<close>

definition dec_int :: "unpacker \<Rightarrow> (int64 \<times> unpacker) option" where
  "dec_int u = do { u1 \<leftarrow> Unpacker_Next u; Unpacker_Int u1 }"

lemma uint_ucast_byte: "uint (ucast i :: byte) = sint i mod 256" for i :: int64
proof -
  have "uint (ucast i :: byte) = take_bit 8 (sint i)"
    by (auto simp: bit_eq_iff bit_simps min_def)
  then show ?thesis by (simp add: take_bit_eq_mod)
qed

lemma markers_tiny:
  assumes "-0x10 \<le> sint i" and "sint i < 0x80"
  shows "markers (ucast (i :: int64)) = short_marker PackedInt (ucast i)"
proof (cases "0 \<le> sint i")
  case True
  with assms have "uint (ucast i :: byte) < 0x80"
    by (simp add: uint_ucast_byte)
  then have "(ucast i :: byte) < 0x80" by (simp add: word_less_def)
  then show ?thesis by (simp add: markers_def)
next
  case False
  then have "sint i mod 256 = sint i + 256"
    using assms by presburger
  with assms have "0xf0 \<le> uint (ucast i :: byte)"
    by (simp add: uint_ucast_byte)
  then have "(0xf0 :: byte) \<le> ucast i" by (simp add: word_le_def)
  moreover from this have "\<not> ucast i < (c :: byte)" if "c \<le> 0xf0" for c
    using that by simp
  moreover from \<open>0xf0 \<le> ucast i\<close> have "ucast i \<noteq> (c :: byte)" if "c < 0xf0" for c
    using that by auto
  ultimately show ?thesis by (simp add: markers_def)
qed

lemma markers_long [simp]:
  "markers 0xc0 = short_marker PackedNil 0" "markers 0xc1 = long_marker PackedFloat 8"
  "markers 0xc2 = short_marker PackedFalse 0" "markers 0xc3 = short_marker PackedTrue 0"
  "markers 0xc8 = long_marker PackedInt 1" "markers 0xc9 = long_marker PackedInt 2"
  "markers 0xca = long_marker PackedInt 4" "markers 0xcb = long_marker PackedInt 8"
  "markers 0xcc = long_marker PackedByteArray 1" "markers 0xcd = long_marker PackedByteArray 2"
  "markers 0xce = long_marker PackedByteArray 4" "markers 0xd0 = long_marker PackedStr 1"
  "markers 0xd1 = long_marker PackedStr 2" "markers 0xd2 = long_marker PackedStr 4"
  "markers 0xd4 = long_marker PackedArray 1" "markers 0xd5 = long_marker PackedArray 2"
  "markers 0xd6 = long_marker PackedArray 4" "markers 0xd8 = long_marker PackedMap 1"
  "markers 0xd9 = long_marker PackedMap 2" "markers 0xda = long_marker PackedMap 4"
  "markers 0xe0 = short_marker PackedUUID 0"
  by (simp_all add: markers_def)

lemma marker_fields [simp]:
  "m_typ (short_marker t s) = t" "m_shortlen (short_marker t s) = s" "m_numlenbytes (short_marker t s) = 0"
  "m_typ (long_marker t n) = t" "m_shortlen (long_marker t n) = 0" "m_numlenbytes (long_marker t n) = n"
  by (simp_all add: short_marker_def long_marker_def)

text \<open>\<open>Unpacker_Int\<close> after a marker with a \<open>k\<close>-byte payload.\<close>

lemma Int_payload:
  assumes "wf_unpacker u" and "rest u = bs @ r" and "m_numlenbytes (u_mrk u) = word_of_nat (length bs)"
    and "length bs \<in> {1, 2, 4, 8}"
  shows "Unpacker_Int u = Some
     (if length bs = 1 then scast (word_of_nat (be_nat bs) :: 8 word)
      else if length bs = 2 then scast (word_of_nat (be_nat bs) :: 16 word)
      else if length bs = 4 then scast (word_of_nat (be_nat bs) :: 32 word)
      else word_of_nat (be_nat bs), adv (length bs) u)"
proof -
  have "\<not> u_off u + ucast (m_numlenbytes (u_mrk u)) > u_len u"
    using assms by (auto simp: stop_byte [OF assms(1)] unat_of_nat)
  moreover have "be_at u (length bs) = Some (be_nat bs)"
    using assms by (simp add: be_at_rest)
  ultimately show ?thesis
    using assms(3,4) by (auto simp: Unpacker_Int_def Let_def adv_def)
qed

lemma dec_int_payload:
  assumes "wf_unpacker u" and "rest u = b # bs @ r" and "markers b = long_marker PackedInt (word_of_nat (length bs))"
    and "length bs \<in> {1, 2, 4, 8}"
  shows "\<exists>u'. dec_int u = Some
     (if length bs = 1 then scast (word_of_nat (be_nat bs) :: 8 word)
      else if length bs = 2 then scast (word_of_nat (be_nat bs) :: 16 word)
      else if length bs = 4 then scast (word_of_nat (be_nat bs) :: 32 word)
      else word_of_nat (be_nat bs), u') \<and> got u r u'"
proof -
  let ?v = "(adv 1 u)\<lparr>u_mrk := markers b, u_Curr := m_typ (markers b)\<rparr>"
  have g: "got u (bs @ r) ?v"
    using got_adv1 [OF assms(1), of b] assms(2) by simp
  then have "got ?v r (adv (length bs) ?v)"
    by (intro got_adv) (simp_all add: got_def)
  with g have "got u r (adv (length bs) ?v)" by (rule got_trans)
  moreover have "Unpacker_Next u = Some ?v"
    using assms by (simp add: Next_rest)
  ultimately show ?thesis
    using Int_payload [of ?v bs r] assms(3,4) g by (simp add: dec_int_def got_def)
qed

lemma dec_int_enc:
  assumes wf: "wf_unpacker u" and r: "rest u = int64_bytes i @ r"
  shows "\<exists>u'. dec_int u = Some (i, u') \<and> got u r u'"
proof -
  let ?A = "-0x10 \<le> sint i \<and> sint i < 0x80" and ?B = "-0x80 \<le> sint i \<and> sint i < -0x10"
    and ?C = "-0x8000 \<le> sint i \<and> sint i < 0x8000"
    and ?D = "-0x80000000 \<le> sint i \<and> sint i < 0x80000000"
  consider (tiny) ?A | (w8) "\<not> ?A" ?B | (w16) "\<not> ?A" "\<not> ?B" ?C
    | (w32) "\<not> ?A" "\<not> ?B" "\<not> ?C" ?D | (w64) "\<not> ?A" "\<not> ?B" "\<not> ?C" "\<not> ?D"
    by argo
  then show ?thesis
  proof cases
    case tiny
    then have m: "int64_bytes i = [ucast i]" "markers (ucast i) = short_marker PackedInt (ucast i)"
      by (simp_all add: int64_bytes_def markers_tiny)
    moreover have "scast (ucast i :: byte) = i" using tiny by (intro scast_ucast_fits) simp_all
    ultimately show ?thesis
      using wf r got_adv1 [OF wf, of "ucast i" r]
      by (simp add: dec_int_def Next_rest Unpacker_Int_def)
  next
    case w8
    then have "int64_bytes i = 0xc8 # [ucast i]" by (simp add: int64_bytes_def)
    moreover have "scast (ucast i :: byte) = i" using w8 by (intro scast_ucast_fits) simp_all
    ultimately show ?thesis
      using dec_int_payload [OF wf, of "0xc8" "[ucast i]" r] r by (simp add: be_nat_def)
  next
    case w16
    then have "int64_bytes i = 0xc9 # be_bytes 2 (unat (ucast i :: 16 word))"
      by (simp only: int64_bytes_def if_False if_True simp_thms)
    moreover have "scast (ucast i :: 16 word) = i" using w16 by (intro scast_ucast_fits) simp_all
    ultimately show ?thesis
      using dec_int_payload [OF wf, of "0xc9" "be_bytes 2 (unat (ucast i :: 16 word))" r] r by simp
  next
    case w32
    then have "int64_bytes i = 0xca # be_bytes 4 (unat (ucast i :: 32 word))"
      by (simp only: int64_bytes_def if_False if_True simp_thms)
    moreover have "scast (ucast i :: 32 word) = i" using w32 by (intro scast_ucast_fits) simp_all
    ultimately show ?thesis
      using dec_int_payload [OF wf, of "0xca" "be_bytes 4 (unat (ucast i :: 32 word))" r] r by simp
  next
    case w64
    then have "int64_bytes i = 0xcb # be_bytes 8 (unat i)"
      by (simp only: int64_bytes_def if_False if_True simp_thms)
    then show ?thesis
      using dec_int_payload [OF wf, of "0xcb" "be_bytes 8 (unat i)" r] r by simp
  qed
qed

interpretation int_codec: wire_codec int64_bytes dec_int "\<lambda>_. True"
  by unfold_locales (rule dec_int_enc)

section \<open>Headers of strings, lists and maps\<close>

lemma scast_small: "n < 128 \<Longrightarrow> scast (word_of_nat n :: byte) = (word_of_nat n :: uint32)"
  by (simp add: signed_of_nat signed_take_bit_int_eq_self)

text \<open>A marker with a length field of one, two or four bytes, whatever the type it announces.\<close>

lemma header_long:
  assumes "wf_unpacker u" and "rest u = b # bs @ r" and "markers b = long_marker t (word_of_nat (length bs))"
    and "length bs \<in> {1, 2, 4}"
  shows "\<exists>u1 u2. Unpacker_Next u = Some u1 \<and> u_Curr u1 = t \<and>
     Unpacker_Len u1 = Some (word_of_nat (be_nat bs), u2) \<and> got u r u2"
proof -
  let ?v = "(adv 1 u)\<lparr>u_mrk := markers b, u_Curr := m_typ (markers b)\<rparr>"
  have g: "got u (bs @ r) ?v"
    using got_adv1 [OF assms(1), of b] assms(2) by simp
  then have "got ?v r (adv (length bs) ?v)"
    by (intro got_adv) (simp_all add: got_def)
  with g have "got u r (adv (length bs) ?v)" by (rule got_trans)
  moreover have "Unpacker_readlen ?v (word_of_nat (length bs)) = Some (word_of_nat (be_nat bs), adv (length bs) ?v)"
    using g assms(4) by (intro readlen_rest) (simp_all add: got_def)
  moreover have "(ucast (word_of_nat (length bs) :: byte) :: uint32) = word_of_nat (length bs)"
    using assms(4) by auto
  moreover have "(word_of_nat (length bs) :: byte) \<noteq> 0" using assms(4) by auto
  ultimately show ?thesis
    using assms(1-3) by (simp add: Next_rest Unpacker_Len_def)
qed

text \<open>
  The three families of length-prefixed values share one header format. What the format needs of the
  marker table are the laws of this locale.
\<close>

locale header_family =
  fixes short long :: byte and t :: packed
  assumes short_mark: "k < 16 \<Longrightarrow> markers (short + word_of_nat k) = short_marker t (word_of_nat k)"
    and long_mark1: "markers long = long_marker t 1"
    and long_mark2: "markers (long + 1) = long_marker t 2"
    and long_mark4: "markers (long + 2) = long_marker t 4"
begin

lemma header_dec:
  assumes "wf_unpacker u" and "rest u = hdr @ r" and "list_header (int n) short long = Some hdr"
  shows "\<exists>u1 u2. Unpacker_Next u = Some u1 \<and> u_Curr u1 = t \<and>
     Unpacker_Len u1 = Some (word_of_nat n, u2) \<and> got u r u2"
proof -
  consider (tiny) "n < 16" | (w8) "16 \<le> n" "n < 0x100" | (w16) "0x100 \<le> n" "n < 0x10000"
    | (w32) "0x10000 \<le> n" "n < 0xffffffff"
    using assms(3) by (fastforce simp: list_header_def split: if_splits)
  then show ?thesis
  proof cases
    case tiny
    then have "hdr = [short + word_of_nat n]" using assms(3) by (simp add: list_header_def)
    then show ?thesis
      using assms(1,2) tiny got_adv1 [OF assms(1), of "short + word_of_nat n" r]
      by (simp add: Next_rest Unpacker_Len_def short_mark scast_small)
  next
    case w8
    then have "hdr = long # [word_of_nat n]" using assms(3) by (simp add: list_header_def)
    then show ?thesis
      using header_long [OF assms(1), of long "[word_of_nat n]" r] assms(2) w8
      by (simp add: long_mark1 be_nat_def unat_of_nat)
  next
    case w16
    then have "hdr = (long + 1) # be_bytes 2 (unat (word_of_nat n :: 16 word))"
      using assms(3) by (simp add: list_header_def)
    then show ?thesis
      using header_long [OF assms(1), of "long + 1" "be_bytes 2 (unat (word_of_nat n :: 16 word))" r] assms(2) w16
      by (simp add: long_mark2 be_nat_be_bytes unat_of_nat)
  next
    case w32
    then have "hdr = (long + 2) # be_bytes 4 (unat (word_of_nat n :: 32 word))"
      using assms(3) by (simp add: list_header_def)
    then show ?thesis
      using header_long [OF assms(1), of "long + 2" "be_bytes 4 (unat (word_of_nat n :: 32 word))" r] assms(2) w32
      by (simp add: long_mark4 be_nat_be_bytes unat_of_nat)
  qed
qed

end

lemma unat_short: "k < 16 \<Longrightarrow> unat c \<le> 0xe0 \<Longrightarrow> unat (c + word_of_nat k :: byte) = unat c + k"
  by (simp add: unat_word_ariths unat_of_nat)

lemma markers_short:
  assumes "k < 16"
  shows "markers (0x80 + word_of_nat k) = short_marker PackedStr (word_of_nat k)"
    and "markers (0x90 + word_of_nat k) = short_marker PackedArray (word_of_nat k)"
    and "markers (0xa0 + word_of_nat k) = short_marker PackedMap (word_of_nat k)"
    and "markers (0xb0 + word_of_nat k) = short_marker PackedStruct (word_of_nat k)"
  using assms unat_short [of k "0x80"] unat_short [of k "0x90"] unat_short [of k "0xa0"] unat_short [of k "0xb0"]
  by (simp_all add: markers_def word_less_nat_alt)

interpretation str_header: header_family "0x80" "0xd0" PackedStr
  by unfold_locales (simp_all add: markers_short)

interpretation array_header: header_family "0x90" "0xd4" PackedArray
  by unfold_locales (simp_all add: markers_short)

interpretation map_header: header_family "0xa0" "0xd8" PackedMap
  by unfold_locales (simp_all add: markers_short)

section \<open>Strings, byte arrays, floats, UUIDs\<close>

definition string_bytes :: "string \<Rightarrow> bytes" where
  "string_bytes s = the (list_header (int (length s)) 0x80 0xd0) @ str_bytes s"

definition dec_string :: "unpacker \<Rightarrow> (string \<times> unpacker) option" where
  "dec_string u = do { u1 \<leftarrow> Unpacker_Next u; Unpacker_String u1 }"

definition fits :: "'a list \<Rightarrow> bool" where
  "fits xs \<longleftrightarrow> length xs < 0xffffffff"

lemma fits_header: "fits xs \<Longrightarrow> \<exists>hdr. list_header (int (length xs)) a b = Some hdr"
  by (auto simp: fits_def list_header_def)

lemma String_as_Len:
  "Unpacker_String u = do { (n, u1) \<leftarrow> Unpacker_Len u; (bs, u2) \<leftarrow> Unpacker_read u1 n; Some (bytes_str bs, u2) }"
  by (simp add: Unpacker_String_def Unpacker_Len_def)

lemma read_got:
  assumes "wf_unpacker u" and "rest u = bs @ r"
  shows "Unpacker_read u (word_of_nat (length bs)) = Some (bs, adv (length bs) u)"
    and "got u r (adv (length bs) u)"
  using assms by (simp_all add: read_rest got_adv)

lemma dec_string_enc:
  assumes "fits s" and "wf_unpacker u" and "rest u = string_bytes s @ r"
  shows "\<exists>u'. dec_string u = Some (s, u') \<and> got u r u'"
proof -
  obtain hdr where hdr: "list_header (int (length s)) 0x80 0xd0 = Some hdr"
    using fits_header [OF assms(1)] by blast
  have rest: "rest u = hdr @ (str_bytes s @ r)"
    using assms(3) hdr by (simp add: string_bytes_def)
  obtain u1 u2 where u: "Unpacker_Next u = Some u1" "Unpacker_Len u1 = Some (word_of_nat (length s), u2)"
      "got u (str_bytes s @ r) u2"
    using str_header.header_dec [OF assms(2) rest hdr] by blast
  then have "Unpacker_read u2 (word_of_nat (length s)) = Some (str_bytes s, adv (length s) u2)"
      "got u2 r (adv (length s) u2)"
    using read_got [of u2 "str_bytes s" r] by (simp_all add: got_def)
  with u show ?thesis
    by (auto simp: dec_string_def String_as_Len intro: got_trans)
qed

interpretation string_codec: wire_codec string_bytes dec_string fits
  by unfold_locales (rule dec_string_enc)

definition bytearray_bytes :: "bytes \<Rightarrow> bytes" where
  "bytearray_bytes b = the (bytes_header (int (length b))) @ b"

definition dec_bytes :: "unpacker \<Rightarrow> (bytes \<times> unpacker) option" where
  "dec_bytes u = do { u1 \<leftarrow> Unpacker_Next u; Unpacker_ByteArray u1 }"

definition fits32 :: "'a list \<Rightarrow> bool" where
  "fits32 xs \<longleftrightarrow> length xs < 0x100000000"

lemma fits32_header: "fits32 b \<Longrightarrow> \<exists>hdr. bytes_header (int (length b)) = Some hdr"
  by (simp add: fits32_def bytes_header_def)

lemma bytes_header_dec:
  assumes "wf_unpacker u" and "rest u = hdr @ r" and "bytes_header (int n) = Some hdr"
  shows "\<exists>u1 u2. Unpacker_Next u = Some u1 \<and> u_Curr u1 = PackedByteArray \<and>
     Unpacker_Len u1 = Some (word_of_nat n, u2) \<and> got u r u2"
proof -
  consider (w8) "n < 0x100" | (w16) "0x100 \<le> n" "n < 0x10000"
    | (w32) "0x10000 \<le> n" "n < 0x100000000"
    using assms(3) by (fastforce simp: bytes_header_def split: if_splits)
  then show ?thesis
  proof cases
    case w8
    then have "hdr = 0xcc # [word_of_nat n]" using assms(3) by (simp add: bytes_header_def)
    then show ?thesis
      using header_long [OF assms(1), of "0xcc" "[word_of_nat n]" r] assms(2) w8
      by (simp add: be_nat_def unat_of_nat)
  next
    case w16
    then have "hdr = 0xcd # be_bytes 2 (unat (word_of_nat n :: 16 word))"
      using assms(3) by (simp add: bytes_header_def)
    then show ?thesis
      using header_long [OF assms(1), of "0xcd" "be_bytes 2 (unat (word_of_nat n :: 16 word))" r] assms(2) w16
      by (simp add: be_nat_be_bytes unat_of_nat)
  next
    case w32
    then have "hdr = 0xce # be_bytes 4 (unat (word_of_nat n :: 32 word))"
      using assms(3) by (simp add: bytes_header_def)
    then show ?thesis
      using header_long [OF assms(1), of "0xce" "be_bytes 4 (unat (word_of_nat n :: 32 word))" r] assms(2) w32
      by (simp add: be_nat_be_bytes unat_of_nat)
  qed
qed

lemma dec_bytes_enc:
  assumes "fits32 b" and "wf_unpacker u" and "rest u = bytearray_bytes b @ r"
  shows "\<exists>u'. dec_bytes u = Some (b, u') \<and> got u r u'"
proof -
  obtain hdr where hdr: "bytes_header (int (length b)) = Some hdr"
    using fits32_header [OF assms(1)] by blast
  have rest: "rest u = hdr @ (b @ r)"
    using assms(3) hdr by (simp add: bytearray_bytes_def)
  obtain u1 u2 where u: "Unpacker_Next u = Some u1" "Unpacker_Len u1 = Some (word_of_nat (length b), u2)"
      "got u (b @ r) u2"
    using bytes_header_dec [OF assms(2) rest hdr] by blast
  then have "Unpacker_read u2 (word_of_nat (length b)) = Some (b, adv (length b) u2)"
      "got u2 r (adv (length b) u2)"
    using read_got [of u2 b r] by (simp_all add: got_def)
  with u show ?thesis
    by (auto simp: dec_bytes_def Unpacker_ByteArray_def intro: got_trans)
qed

interpretation bytes_codec: wire_codec bytearray_bytes dec_bytes fits32
  by unfold_locales (rule dec_bytes_enc)

definition float_bytes :: "64 word \<Rightarrow> bytes" where
  "float_bytes f = 0xc1 # be_bytes 8 (unat f)"

definition dec_float :: "unpacker \<Rightarrow> (64 word \<times> unpacker) option" where
  "dec_float u = do { u1 \<leftarrow> Unpacker_Next u; Unpacker_Float u1 }"

definition uuid_bytes :: "bytes \<Rightarrow> bytes" where
  "uuid_bytes b = 0xe0 # b"

definition dec_uuid :: "unpacker \<Rightarrow> (bytes \<times> unpacker) option" where
  "dec_uuid u = do { u1 \<leftarrow> Unpacker_Next u; Unpacker_UUID u1 }"

lemma Next_got:
  assumes "wf_unpacker u" and "rest u = b # r"
  obtains u1 where "Unpacker_Next u = Some u1" and "got u r u1" and "u_mrk u1 = markers b"
    and "u_Curr u1 = m_typ (markers b)"
  using Next_rest [OF assms] got_adv1 [OF assms] by auto

lemma dec_float_enc:
  assumes "u_Err u = None" and "wf_unpacker u" and "rest u = float_bytes f @ r"
  shows "\<exists>u'. dec_float u = Some (f, u') \<and> got u r u'"
proof -
  obtain u1 where u1: "Unpacker_Next u = Some u1" "got u (be_bytes 8 (unat f) @ r) u1"
    using Next_got [OF assms(2), of "0xc1"] assms(3) by (auto simp: float_bytes_def)
  then have "Unpacker_read u1 8 = Some (be_bytes 8 (unat f), adv 8 u1)" and "got u1 r (adv 8 u1)"
    using read_got [of u1 "be_bytes 8 (unat f)" r] by (simp_all add: got_def)
  with u1 assms(1) show ?thesis
    by (auto simp: dec_float_def Unpacker_Float_def slice_def got_def)
qed

lemma dec_uuid_enc:
  assumes "length b = 16" and "wf_unpacker u" and "rest u = uuid_bytes b @ r"
  shows "\<exists>u'. dec_uuid u = Some (b, u') \<and> got u r u'"
proof -
  obtain u1 where u1: "Unpacker_Next u = Some u1" "got u (b @ r) u1"
    using Next_got [OF assms(2), of "0xe0"] assms(3) by (auto simp: uuid_bytes_def)
  then have "Unpacker_read u1 16 = Some (b, adv 16 u1)" and "got u1 r (adv 16 u1)"
    using read_got [of u1 b r] assms(1) by (simp_all add: got_def)
  with u1 assms(1) show ?thesis
    by (auto simp: dec_uuid_def Unpacker_UUID_def intro: got_trans)
qed

interpretation uuid_codec: wire_codec uuid_bytes dec_uuid "\<lambda>b. length b = 16"
  by unfold_locales (rule dec_uuid_enc)

section \<open>The packer's methods write these encodings\<close>

lemma Packer_Int64_emit [run_simps]: "Packer_Int64 p i = emit p (int64_bytes i)"
  by (simp add: Packer_Int64_def)

lemma Packer_listHeader_emit:
  "list_header l a b = Some hdr \<Longrightarrow> Packer_listHeader p l a b = emit p hdr"
  by (simp add: Packer_listHeader_def)

lemma Packer_String_emit [run_simps]: "fits s \<Longrightarrow> Packer_String p s = emit p (string_bytes s)"
  using fits_header [of s "0x80" "0xd0"]
  by (auto simp: Packer_String_def Packer_listHeader_emit string_bytes_def)

lemma Packer_Bytes_emit [run_simps]: "fits32 b \<Longrightarrow> Packer_Bytes p b = emit p (bytearray_bytes b)"
  using fits32_header [of b] by (auto simp: Packer_Bytes_def Packer_bytesHeader_def bytearray_bytes_def)

lemma Packer_Float64_emit [run_simps]: "Packer_Float64 p f = emit p (float_bytes f)"
  by (simp add: Packer_Float64_def float_bytes_def)

lemma Packer_UUID_emit [run_simps]: "Packer_UUID p b = emit p (uuid_bytes b)"
  by (simp add: Packer_UUID_def uuid_bytes_def)

section \<open>Any sequence of reads\<close>

datatype read_op = ReadNext | ReadLen | ReadInt | ReadFloat | ReadTag | ReadString | ReadBool | ReadBytes | ReadUUID

fun read_step :: "unpacker \<Rightarrow> read_op \<Rightarrow> unpacker option" where
  "read_step u ReadNext = Unpacker_Next u"
| "read_step u ReadLen = map_option snd (Unpacker_Len u)"
| "read_step u ReadInt = map_option snd (Unpacker_Int u)"
| "read_step u ReadFloat = map_option snd (Unpacker_Float u)"
| "read_step u ReadTag = map_option snd (Unpacker_StructTag u)"
| "read_step u ReadString = map_option snd (Unpacker_String u)"
| "read_step u ReadBool = Some (snd (Unpacker_Bool u))"
| "read_step u ReadBytes = map_option snd (Unpacker_ByteArray u)"
| "read_step u ReadUUID = map_option snd (Unpacker_UUID u)"

fun read_run :: "unpacker \<Rightarrow> read_op list \<Rightarrow> unpacker option" where
  "read_run u [] = Some u"
| "read_run u (x # xs) = do { u1 \<leftarrow> read_step u x; read_run u1 xs }"

lemma read_step_safe: "wf_unpacker u \<Longrightarrow> \<exists>u'. read_step u x = Some u' \<and> progress u u'"
  using Next_safe [of u] len.reader_returns [of u] int.reader_returns [of u] float.reader_returns [of u]
    structTag.reader_returns [of u] string.reader_returns [of u] byteArray.reader_returns [of u]
    uuid.reader_returns [of u] Bool_safe [of u]
  by (cases x) auto

lemma read_run_safe: "wf_unpacker u \<Longrightarrow> \<exists>u'. read_run u xs = Some u' \<and> progress u u'"
proof (induction xs arbitrary: u)
  case Nil
  then show ?case by simp
next
  case (Cons x xs)
  obtain v where v: "read_step u x = Some v" "progress u v"
    using read_step_safe [OF Cons.prems] by blast
  then obtain w where "read_run v xs = Some w" "progress v w"
    using Cons.IH [OF progress_wf] by blast
  with v show ?case by (auto intro: progress_trans)
qed

section \<open>The integer encoding is the shortest\<close>

lemma sint_scast:
  "sint (scast (w :: 'a::len word) :: int64) = sint w" if "LENGTH('a) < 64"
proof -
  have "(2 :: int) ^ (LENGTH('a) - 1) \<le> 2 ^ 63"
    using that by (intro power_increasing) auto
  then show ?thesis
    using sint_lt [of w] sint_ge [of w]
    by (simp add: signed_scast_eq signed_take_bit_int_eq_self)
qed

lemma sint_byte: "sint (b :: byte) = (uint b + 128) mod 256 - 128"
  by (simp add: sint_uint signed_take_bit_eq_take_bit_shift take_bit_eq_mod)

lemma sint_byte_if: "sint (b :: byte) = (if uint b < 128 then uint b else uint b - 256)"
proof -
  have "(x + 128) mod 256 = (if x < 128 then x + 128 else x - 128)" if "0 \<le> x" "x < 256" for x :: int
  proof (cases "x < 128")
    case False
    have "(x + 128) mod 256 = (x - 128 + 256) mod 256" by (simp add: add.commute)
    also have "\<dots> = x - 128"
      using False that by (simp only: mod_add_self2) simp
    finally show ?thesis using False by simp
  qed (use that in simp)
  from this [of "uint b"] show ?thesis
    using uint_lt2p [of b] by (simp add: sint_byte)
qed

lemma sint_byte_tiny: "uint (b :: byte) < 0x80 \<or> 0xf0 \<le> uint b \<Longrightarrow> -0x10 \<le> sint b"
  by (auto simp: sint_byte_if intro: order_trans [OF _ uint_ge_0])

lemma markers_shortlen:
  assumes "m_numlenbytes (markers b) = 0"
  shows "uint (m_shortlen (markers b)) < 0x80 \<or> 0xf0 \<le> uint (m_shortlen (markers b))"
proof -
  have d: "uint (c - d) < 0x80" if "\<not> c < d" "c < d + 0x10" "d \<le> 0xb0" for c d :: byte
    using that by uint_arith
  show ?thesis
    using assms d [of b "0x80"] d [of b "0x90"] d [of b "0xa0"] d [of b "0xb0"]
    by (simp add: markers_def word_less_def word_le_def split: if_splits)
qed

lemma length_int64_bytes:
  "length (int64_bytes i) \<le> 9"
  "-0x80000000 \<le> sint i \<Longrightarrow> sint i < 0x80000000 \<Longrightarrow> length (int64_bytes i) \<le> 5"
  "-0x8000 \<le> sint i \<Longrightarrow> sint i < 0x8000 \<Longrightarrow> length (int64_bytes i) \<le> 3"
  "-0x80 \<le> sint i \<Longrightarrow> sint i < 0x80 \<Longrightarrow> length (int64_bytes i) \<le> 2"
  "-0x10 \<le> sint i \<Longrightarrow> sint i < 0x80 \<Longrightarrow> length (int64_bytes i) = 1"
  by (auto simp: int64_bytes_def)

lemma length_int64_scast:
  "length (int64_bytes (scast (w8 :: 8 word))) \<le> 2"
  "length (int64_bytes (scast (w16 :: 16 word))) \<le> 3"
  "length (int64_bytes (scast (w32 :: 32 word))) \<le> 5"
  using sint_lt [of w8] sint_ge [of w8] sint_lt [of w16] sint_ge [of w16] sint_lt [of w32] sint_ge [of w32]
  by (intro length_int64_bytes; simp add: sint_scast)+

lemma dec_int_shortest:
  assumes wf: "wf_unpacker u" and dec: "dec_int u = Some (i, u')" and ok: "u_Err u' = None"
  shows "length (int64_bytes i) \<le> unat (u_off u') - unat (u_off u)"
proof -
  obtain u1 where u1: "Unpacker_Next u = Some u1" "Unpacker_Int u1 = Some (i, u')"
    using dec by (auto simp: dec_int_def bind_eq_Some_conv)
  then have "u_Err u1 = None"
    using Next_safe [OF wf] Int_safe [of u1] ok by (auto simp: progress_def)
  then obtain b r where r: "rest u = b # r"
    using u1(1) pop_empty [OF wf] by (cases "rest u") (auto simp: Unpacker_Next_def Unpacker_setErr_def split: if_splits)
  define n where "n = m_numlenbytes (markers b)"
  have mrk: "u_mrk u1 = markers b" and off: "unat (u_off u1) = unat (u_off u) + 1" and wf1: "wf_unpacker u1"
    using Next_rest [OF wf r] u1(1) unat_off_add [OF wf, of 1] got_adv1 [OF wf r]
    by (auto simp: adv_def got_def r)
  show ?thesis
  proof (cases "n = 0")
    case True
    then have "i = scast (m_shortlen (markers b))" "u' = u1"
      using u1(2) mrk by (auto simp: Unpacker_Int_def n_def)
    moreover from this have "-0x10 \<le> sint i" and "sint i < 0x80"
      using sint_byte_tiny [OF markers_shortlen [of b]] True sint_lt [of "m_shortlen (markers b)"]
      by (simp_all add: n_def sint_scast)
    ultimately show ?thesis using off by (simp add: length_int64_bytes(5))
  next
    case False
    have le: "unat n \<le> length (rest u1)" and off': "u_off u' = u_off u1 + ucast n" and n: "n \<in> {1, 2, 4, 8}"
      using u1(2) False ok stop_byte [OF wf1, of n] mrk
      by (auto simp: Unpacker_Int_def n_def Unpacker_setErr_def Let_def bind_eq_Some_conv split: if_splits)
    have "unat (u_off u') = unat (u_off u1) + unat n"
      using unat_off_add [OF wf1, of "unat n"] le off' by (simp only: ucast_byte)
    moreover have "length (int64_bytes i) \<le> 1 + unat n"
      using u1(2) n mrk length_int64_bytes(1) [of i] stop_byte [OF wf1, of n] le
      by (auto simp: Unpacker_Int_def n_def Let_def bind_eq_Some_conv split: if_splits
          intro: order_trans [OF length_int64_scast(1)] order_trans [OF length_int64_scast(2)]
            order_trans [OF length_int64_scast(3)])
    ultimately show ?thesis using off by simp
  qed
qed

section \<open>Errors of the packer are sticky\<close>

datatype pack_op = PackStructHeader byte int | PackInt64 int64 | PackUint64 "64 word" | PackFloat64 "64 word"
  | PackString string | PackStrings "string list" | PackArrayHeader int | PackMapHeader int | PackBytes bytes
  | PackBool bool | PackNil | PackUUID bytes | PackVectorInt8 "8 word list" | PackVectorInt64 "64 word list"

fun pack_step :: "packer \<Rightarrow> pack_op \<Rightarrow> packer" where
  "pack_step p (PackStructHeader t n) = Packer_StructHeader p t n"
| "pack_step p (PackInt64 i) = Packer_Int64 p i"
| "pack_step p (PackUint64 i) = Packer_Uint64 p i"
| "pack_step p (PackFloat64 f) = Packer_Float64 p f"
| "pack_step p (PackString s) = Packer_String p s"
| "pack_step p (PackStrings ss) = Packer_Strings p ss"
| "pack_step p (PackArrayHeader n) = Packer_ArrayHeader p n"
| "pack_step p (PackMapHeader n) = Packer_MapHeader p n"
| "pack_step p (PackBytes b) = Packer_Bytes p b"
| "pack_step p (PackBool b) = Packer_Bool p b"
| "pack_step p PackNil = Packer_Nil p"
| "pack_step p (PackUUID u) = Packer_UUID p u"
| "pack_step p (PackVectorInt8 v) = Packer_VectorInt8 p v"
| "pack_step p (PackVectorInt64 v) = Packer_VectorInt64 p v"

definition extends :: "packer \<Rightarrow> packer \<Rightarrow> bool" where
  "extends p q \<longleftrightarrow> (\<exists>bs. p_buf q = p_buf p @ bs) \<and> (p_err p \<noteq> None \<longrightarrow> p_err q \<noteq> None)"

lemma extends_refl [simp, intro]: "extends p p"
  by (simp add: extends_def)

lemma extends_trans [trans]: "extends p q \<Longrightarrow> extends q r \<Longrightarrow> extends p r"
  by (auto simp: extends_def)

lemma extends_emit [intro]: "extends p q \<Longrightarrow> extends p (emit q bs)"
  by (auto simp: extends_def)

lemma extends_err [intro]: "extends p q \<Longrightarrow> extends p (q\<lparr>p_err := Some e\<rparr>)"
  by (auto simp: extends_def)

lemma extends_setErr [intro]: "extends p q \<Longrightarrow> extends p (Packer_setErr q e)"
  by (auto simp: extends_def)

lemma extends_foldl: "(\<And>q x. extends q (f q x)) \<Longrightarrow> extends p q \<Longrightarrow> extends p (foldl f q xs)"
  by (induction xs arbitrary: q) (simp, metis extends_trans foldl_Cons)

lemma extends_listHeader [intro]: "extends p q \<Longrightarrow> extends p (Packer_listHeader q l a b)"
  by (auto simp: Packer_listHeader_def split: option.split)

lemma extends_String: "extends p (Packer_String p s)"
  unfolding Packer_String_def by blast

lemma extends_Bytes [intro]: "extends p q \<Longrightarrow> extends p (Packer_Bytes q b)"
  by (auto simp: Packer_Bytes_def Packer_bytesHeader_def split: option.split)

lemma extends_vector: "extends p (Packer_vector m n enc p vec)"
proof -
  let ?p1 = "Packer_Bytes (Packer_StructHeader p 0x56 2) [m]"
  have p1: "extends p ?p1" by (auto simp: Packer_StructHeader_def)
  have "extends p q \<Longrightarrow> extends p (foldl (\<lambda>q v. emit q (enc v)) q vec)" for q
    by (rule extends_foldl) auto
  with p1 show ?thesis
    by (auto simp: Packer_vector_def Let_def Packer_prepareVectorData_def Packer_bytesHeader_def
        split: option.split)
qed

lemma pack_step_extends: "extends p (pack_step p x)"
proof (cases x)
  case (PackStrings ss)
  have "extends p (foldl Packer_String (Packer_listHeader p (int (length ss)) 0x90 0xd4) ss)"
    by (intro extends_foldl extends_String extends_listHeader extends_refl)
  then show ?thesis by (simp add: PackStrings Packer_Strings_def)
qed (auto simp: Packer_StructHeader_def Packer_Int64_def Packer_Uint64_def Packer_checkOverflowInt_def
  Packer_Float64_def Packer_ArrayHeader_def Packer_MapHeader_def Packer_Bool_def Packer_Nil_def
  Packer_UUID_def Packer_VectorInt8_def Packer_VectorInt64_def extends_String extends_vector
  simp del: emit_simps(3))

lemma pack_run_extends: "extends p (foldl pack_step p xs)"
  by (rule extends_foldl [OF pack_step_extends extends_refl])

section \<open>Properties\<close>

definition Unpacker_zero :: unpacker where
  "Unpacker_zero = \<lparr>u_buf = [], u_off = 0, u_len = 0, u_mrk = short_marker PackedUndef 0, u_Err = None,
     u_Curr = PackedUndef\<rparr>"

text \<open>
  whatever a packer already holds, the bytes that Int64 appends for a value are read back by Next and
  Int as that value, announced as PackedInt, with nothing else of the buffer consumed and no error set.
\<close>

lemma int64_roundtrip:
  assumes "p_buf (Packer_Int64 p i) = p_buf p @ bs" and "wf_unpacker u" and "rest u = bs @ r"
  shows "\<exists>u1 u2. Unpacker_Next u = Some u1 \<and> Unpacker_Int u1 = Some (i, u2) \<and> rest u2 = r \<and> u_Err u2 = u_Err u"
  using dec_int_enc [OF assms(2), of i r] assms(1,3)
  by (auto simp: Packer_Int64_def dec_int_def got_def bind_eq_Some_conv)

theorem int64_roundtrip_witness:
  "\<exists>u1 u2. Unpacker_Next (Unpacker_Reset Unpacker_zero [0xc9, 0x04, 0xd2, 0x2a]) = Some u1 \<and>
     Unpacker_Int u1 = Some (1234, u2) \<and> rest u2 = [0x2a] \<and> u_Err u2 = None"
proof -
  have 1: "p_buf (Packer_Int64 (Packer_Begin [7]) 1234) = p_buf (Packer_Begin [7]) @ [0xc9, 0x04, 0xd2]"
    by code_simp
  have 2: "wf_unpacker (Unpacker_Reset Unpacker_zero [0xc9, 0x04, 0xd2, 0x2a])"
    by (rule wf_reset) simp
  show ?thesis
    using int64_roundtrip [OF 1 2, of "[0x2a]"] by simp
qed

text \<open>
  the encoding that Int64 chooses is the shortest one: no byte sequence that Next and Int read as the
  value \<open>i\<close> without an error is shorter than the bytes that Int64 appends for \<open>i\<close>.
\<close>

theorem int64_shortest:
  assumes "wf_unpacker u" and "Unpacker_Next u = Some u1" and "Unpacker_Int u1 = Some (i, u2)"
    and "u_Err u2 = None"
  shows "length (p_buf (Packer_Int64 p i)) \<le> length (p_buf p) + (unat (u_off u2) - unat (u_off u))"
  using dec_int_shortest [of u i u2] assms by (simp add: dec_int_def Packer_Int64_def)

theorem int64_shortest_witness:
  "length (p_buf (Packer_Int64 (Packer_Begin []) 5)) \<le> 3"
proof -
  let ?u = "Unpacker_Reset Unpacker_zero [0xc9, 0, 5]"
  let ?u1 = "the (Unpacker_Next ?u)"
  let ?u2 = "snd (the (Unpacker_Int ?u1))"
  have u: "Unpacker_Next ?u = Some ?u1" "Unpacker_Int ?u1 = Some (5, ?u2)" "u_Err ?u2 = None"
    and off: "unat (u_off ?u2) - unat (u_off ?u) = 3" "length (p_buf (Packer_Begin [])) = 0"
    by code_simp+
  have "wf_unpacker ?u" by (rule wf_reset) simp
  from int64_shortest [OF this u, of "Packer_Begin []"] show ?thesis
    unfolding off by simp
qed

text \<open>
  a list of strings written by Strings is read back by Next, Len and then Next and String once per
  element (the loop of the hydrator), for every list and every string of fewer than 2^32 - 1 elements.
\<close>

lemma strings_roundtrip:
  assumes "fits ss" and "list_all fits ss"
    and "p_buf (Packer_Strings p ss) = p_buf p @ bs" and "wf_unpacker u" and "rest u = bs @ r"
  shows "\<exists>u1 u2 u3. Unpacker_Next u = Some u1 \<and> u_Curr u1 = PackedArray \<and>
     Unpacker_Len u1 = Some (word_of_nat (length ss), u2) \<and>
     read_n dec_string (length ss) u2 = Some (ss, u3) \<and> rest u3 = r \<and> u_Err u3 = u_Err u"
proof -
  obtain hdr where hdr: "list_header (int (length ss)) 0x90 0xd4 = Some hdr"
    using fits_header [OF assms(1)] by blast
  have "foldl Packer_String (emit p hdr) ss = emit (emit p hdr) (concat (map string_bytes ss))"
    using assms(2) by (intro foldl_emit_on) (simp add: list_all_iff Packer_String_emit)
  then have rest: "rest u = hdr @ (concat (map string_bytes ss) @ r)"
    using assms(3,5) hdr by (simp add: Packer_Strings_def Packer_listHeader_emit)
  obtain u1 u2 where u: "Unpacker_Next u = Some u1" "u_Curr u1 = PackedArray"
      "Unpacker_Len u1 = Some (word_of_nat (length ss), u2)" "got u (concat (map string_bytes ss) @ r) u2"
    using array_header.header_dec [OF assms(4) rest hdr] by blast
  moreover obtain u3 where "read_n dec_string (length ss) u2 = Some (ss, u3)" "got u2 r u3"
    using string_codec.read_n_enc [OF assms(2), of u2 r] u(4) by (auto simp: got_def)
  ultimately show ?thesis by (auto simp: got_def)
qed

theorem strings_roundtrip_witness:
  "\<exists>u1 u2 u3. Unpacker_Next (Unpacker_Reset Unpacker_zero [0x92, 0x82, 0x61, 0x62, 0x80]) = Some u1 \<and>
     u_Curr u1 = PackedArray \<and> Unpacker_Len u1 = Some (2, u2) \<and>
     read_n dec_string 2 u2 = Some ([''ab'', []], u3) \<and> rest u3 = [] \<and> u_Err u3 = None"
proof -
  let ?u = "Unpacker_Reset Unpacker_zero [0x92, 0x82, 0x61, 0x62, 0x80]"
  have 1: "fits [''ab'', []]" "list_all fits [''ab'', []]"
    by (simp_all add: fits_def)
  have 2: "p_buf (Packer_Strings (Packer_Begin [1]) [''ab'', []]) =
      p_buf (Packer_Begin [1]) @ [0x92, 0x82, 0x61, 0x62, 0x80]"
    by code_simp
  have 3: "wf_unpacker ?u" by (rule wf_reset) simp
  have 4: "Unpacker_Reset Unpacker_zero [0x92, 0x82, 0x61, 0x62, 0x80] = ?u" ..
  show ?thesis using strings_roundtrip [OF 1 2 3, of "[]"] by (simp add: numeral_2_eq_2)
qed

text \<open>
  C30: on every buffer of fewer than 2^32 - 256 bytes, whatever it holds and in whatever order the reading
  methods are called, no call panics, the offset never leaves the buffer and never moves back, and an
  error once recorded stays.
\<close>

theorem unpacker_never_panics:
  assumes "length buf + 256 < 2 ^ 32"
  shows "\<exists>u1 u2. read_run (Unpacker_Reset u buf) xs = Some u1 \<and> read_run u1 ys = Some u2 \<and>
     u_buf u2 = buf \<and> unat (u_off u1) \<le> unat (u_off u2) \<and> unat (u_off u2) \<le> length buf \<and>
     (u_Err u1 \<noteq> None \<longrightarrow> u_Err u2 = u_Err u1)"
proof -
  obtain u1 where u1: "read_run (Unpacker_Reset u buf) xs = Some u1" "progress (Unpacker_Reset u buf) u1"
    using read_run_safe [OF wf_reset [OF assms]] by blast
  then obtain u2 where "read_run u1 ys = Some u2" "progress u1 u2"
    using read_run_safe [OF progress_wf] by blast
  with u1 show ?thesis
    by (auto simp: progress_def wf_unpacker_def Unpacker_Reset_def)
qed

theorem unpacker_never_panics_witness:
  "\<exists>u1 u2. read_run (Unpacker_Reset Unpacker_zero [0xd2, 0xff, 0xff]) [ReadNext, ReadString] = Some u1 \<and>
     read_run u1 [ReadInt, ReadUUID] = Some u2 \<and>
     u_buf u2 = [0xd2, 0xff, 0xff] \<and> unat (u_off u1) \<le> unat (u_off u2) \<and> unat (u_off u2) \<le> 3"
proof -
  have "length ([0xd2, 0xff, 0xff] :: bytes) + 256 < 2 ^ 32" by simp
  from unpacker_never_panics [OF this, of Unpacker_zero "[ReadNext, ReadString]" "[ReadInt, ReadUUID]"]
  show ?thesis by auto
qed

text \<open>
  a packing error is never lost: once a packer has recorded an error, every further sequence of packing
  calls ends with an error from End, and packing only ever appends to the buffer.
\<close>

lemma packer_error_sticky:
  assumes "snd (Packer_End p) \<noteq> None"
  shows "snd (Packer_End (foldl pack_step p xs)) \<noteq> None \<and>
     (\<exists>bs. fst (Packer_End (foldl pack_step p xs)) = fst (Packer_End p) @ bs)"
  using pack_run_extends [of p xs] assms by (auto simp: extends_def Packer_End_def)

theorem packer_error_sticky_witness:
  "snd (Packer_End (foldl pack_step (Packer_Uint64 (Packer_Begin []) 0x8000000000000000)
     [PackString ''ok'', PackStructHeader 1 16])) \<noteq> None"
proof -
  have "snd (Packer_End (Packer_Uint64 (Packer_Begin []) 0x8000000000000000)) \<noteq> None"
    by (simp add: Packer_End_def Packer_Uint64_def Packer_Int64_def Packer_checkOverflowInt_def)
  from packer_error_sticky [OF this] show ?thesis by blast
qed

end
