(* ===== verification/Values.thy ===== *)
theory Values
  imports Prelude
begin

text \<open>
  The values that cross the driver: what the hydrator builds from the wire and what records, summaries
  and error diagnostics hold (the Go type any, restricted to the types the driver produces; package
  src/neo4j/dbtype). Floats are bit patterns; a map is the list of its entries with distinct keys.
\<close>

datatype 'v node = Node (node_Id: int64) (node_ElementId: string) (node_Labels: "string list")
  (node_Props: "(string \<times> 'v) list")

datatype 'v relationship = Relationship (rel_Id: int64) (rel_ElementId: string)
  (rel_StartId: int64) (rel_StartElementId: string) (rel_EndId: int64) (rel_EndElementId: string)
  (rel_Type: string) (rel_Props: "(string \<times> 'v) list")

datatype 'v relNode = RelNode (rn_id: int64) (rn_elementId: string) (rn_name: string)
  (rn_props: "(string \<times> 'v) list")

text \<open>
  A time.Time: seconds since the epoch in UTC (an int64, as the method Unix returns it), nanoseconds within the
  second, and the location: a zone made by time.FixedZone with its name and offset, or one of the tz database.
\<close>

datatype location = FixedZone string int64 | NamedZone string | LocalZone | UTC

datatype gotime = GoTime (t_unix: int64) (t_nsec: int) (t_loc: location)

datatype goval = VNil | VBool bool | VInt int64 | VFloat "64 word" | VStr string | VBytes bytes | VUUID bytes
  | VList "goval list" | VMap "(string \<times> goval) list"
  | VNode "goval node" | VRelationship "goval relationship" | VRelNode "goval relNode"
  | VPath "goval node list" "goval relationship list"
  | VPoint2D "32 word" "64 word" "64 word" | VPoint3D "32 word" "64 word" "64 word" "64 word"
  | VDateTime gotime | VLocalDateTime gotime | VDate gotime | VTime gotime | VLocalTime gotime
  | VDuration int64 int64 int64 int64
  | VVectorF64 "64 word list" | VVectorF32 "32 word list" | VVectorI8 "8 word list" | VVectorI16 "16 word list"
  | VVectorI32 "32 word list" | VVectorI64 "64 word list"
  | VUnsupported string int64 int64 "string option" | VInvalid string

type_synonym gomap = "(string \<times> goval) list"

text \<open>Assignment \<^verbatim>\<open>m[k] = v\<close> and lookup in a Go map kept as an association list.\<close>

fun map_put :: "'k \<Rightarrow> 'v \<Rightarrow> ('k \<times> 'v) list \<Rightarrow> ('k \<times> 'v) list" where
  "map_put k v [] = [(k, v)]"
| "map_put k v ((k', v') # m) = (if k = k' then (k, v) # m else (k', v') # map_put k v m)"

fun map_del :: "'k \<Rightarrow> ('k \<times> 'v) list \<Rightarrow> ('k \<times> 'v) list" where
  "map_del k [] = []"
| "map_del k ((k', v') # m) = (if k = k' then map_del k m else (k', v') # map_del k m)"

definition wf_map :: "('k \<times> 'v) list \<Rightarrow> bool" where
  "wf_map m \<longleftrightarrow> distinct (map fst m)"

lemma map_of_put [simp]: "map_of (map_put k v m) = (map_of m)(k \<mapsto> v)"
  by (induction k v m rule: map_put.induct) auto

lemma map_of_del [simp]: "map_of (map_del k m) = (map_of m)(k := None)"
  by (induction k m rule: map_del.induct) auto

lemma dom_map_put [simp]: "fst ` set (map_put k v m) = insert k (fst ` set m)"
  by (induction k v m rule: map_put.induct) auto

lemma dom_map_del [simp]: "fst ` set (map_del k m) = fst ` set m - {k}"
  by (induction k m rule: map_del.induct) auto

lemma wf_map_put [simp, inv_intros]: "wf_map m \<Longrightarrow> wf_map (map_put k v m)"
  by (induction k v m rule: map_put.induct) (auto simp: wf_map_def image_iff)

lemma wf_map_del [simp, inv_intros]: "wf_map m \<Longrightarrow> wf_map (map_del k m)"
  by (induction k m rule: map_del.induct) (auto simp: wf_map_def image_iff)

lemma wf_map_Nil [simp]: "wf_map []"
  by (simp add: wf_map_def)

lemma map_put_id: "wf_map m \<Longrightarrow> k \<notin> fst ` set m \<Longrightarrow> map_put k v m = m @ [(k, v)]"
  by (induction k v m rule: map_put.induct) (auto simp: wf_map_def)

lemma in_set_wf_map: "wf_map m \<Longrightarrow> (k, v) \<in> set m \<longleftrightarrow> map_of m k = Some v"
  by (simp add: wf_map_def)

lemma set_map_put:
  assumes "wf_map m"
  shows "set (map_put k v m) = insert (k, v) {e \<in> set m. fst e \<noteq> k}"
proof (rule set_eqI)
  fix e :: "'a \<times> 'b"
  obtain k' v' where "e = (k', v')" by (cases e)
  then show "e \<in> set (map_put k v m) \<longleftrightarrow> e \<in> insert (k, v) {e \<in> set m. fst e \<noteq> k}"
    using in_set_wf_map [OF wf_map_put [OF assms]] in_set_wf_map [OF assms] by auto
qed

lemma map_del_filter: "map_del k m = filter (\<lambda>e. fst e \<noteq> k) m"
  by (induction k m rule: map_del.induct) auto

lemma set_map_del: "set (map_del k m) = {e \<in> set m. fst e \<noteq> k}"
  by (simp only: map_del_filter set_filter)

text \<open>The interface of a keyed store, and its instance on these association lists.\<close>

locale keyed_store =
  fixes empty :: 'm
    and put :: "'k \<Rightarrow> 'v \<Rightarrow> 'm \<Rightarrow> 'm"
    and del :: "'k \<Rightarrow> 'm \<Rightarrow> 'm"
    and get :: "'m \<Rightarrow> 'k \<Rightarrow> 'v option"
    and valid :: "'m \<Rightarrow> bool"
  assumes get_empty: "get empty k = None"
    and get_put: "valid m \<Longrightarrow> get (put k v m) k' = (if k' = k then Some v else get m k')"
    and get_del: "valid m \<Longrightarrow> get (del k m) k' = (if k' = k then None else get m k')"
    and valid_empty: "valid empty"
    and valid_put: "valid m \<Longrightarrow> valid (put k v m)"
    and valid_del: "valid m \<Longrightarrow> valid (del k m)"
begin

lemma get_del_all:
  "valid m \<Longrightarrow> get (foldl (\<lambda>m k. del k m) m ks) k' = (if k' \<in> set ks then None else get m k')"
  by (induction ks arbitrary: m) (auto simp: get_del valid_del)

lemma valid_del_all: "valid m \<Longrightarrow> valid (foldl (\<lambda>m k. del k m) m ks)"
  by (induction ks arbitrary: m) (auto simp: valid_del)

lemma get_put_all:
  "valid m \<Longrightarrow> get (foldl (\<lambda>m k. put k v m) m ks) k' = (if k' \<in> set ks then Some v else get m k')"
  by (induction ks arbitrary: m) (auto simp: get_put valid_put)

lemma valid_put_all: "valid m \<Longrightarrow> valid (foldl (\<lambda>m k. put k v m) m ks)"
  by (induction ks arbitrary: m) (auto simp: valid_put)

end

interpretation assoc: keyed_store "[]" map_put map_del map_of wf_map
  by unfold_locales auto

text \<open>The type assertion \<^verbatim>\<open>v.(string)\<close> and its relatives: \<^const>\<open>None\<close> when the dynamic type differs.\<close>

fun as_string :: "goval \<Rightarrow> string option" where
  "as_string (VStr s) = Some s"
| "as_string _ = None"

fun as_int64 :: "goval \<Rightarrow> int64 option" where
  "as_int64 (VInt i) = Some i"
| "as_int64 _ = None"

fun as_bool :: "goval \<Rightarrow> bool option" where
  "as_bool (VBool b) = Some b"
| "as_bool _ = None"

fun as_list :: "goval \<Rightarrow> goval list option" where
  "as_list (VList l) = Some l"
| "as_list _ = None"

fun as_map :: "goval \<Rightarrow> gomap option" where
  "as_map (VMap m) = Some m"
| "as_map _ = None"

text \<open>\<^verbatim>\<open>m[key].(T)\<close>: a missing key is a nil any, on which every assertion fails.\<close>

definition lookup_as :: "(goval \<Rightarrow> 'a option) \<Rightarrow> gomap \<Rightarrow> string \<Rightarrow> 'a option" where
  "lookup_as as m k = Option.bind (map_of m k) as"

lemma as_list_Some: "as_list v = Some l \<longleftrightarrow> v = VList l"
  by (cases v) auto

lemma as_map_Some: "as_map v = Some m \<longleftrightarrow> v = VMap m"
  by (cases v) auto

lemma lookup_as_Some: "lookup_as as m k = Some x \<longleftrightarrow> (\<exists>v. map_of m k = Some v \<and> as v = Some x)"
  by (auto simp: lookup_as_def bind_eq_Some_conv)

end
