(* ===== verification/Errors.thy ===== *)
theory Errors
  imports Values Packer
begin

text \<open>
  The error values of the driver and the functions that classify them: src/neo4j/db/errors.go, the
  package src/neo4j/internal/errorutil, isFatalError of src/neo4j/internal/bolt/bolt4.go,
  fillServerName of src/neo4j/internal/bolt/errors.go and the retry predicate of
  src/neo4j/internal/retry/state.go. A Go error interface value is a \<open>goerr\<close>, one constructor per
  dynamic type; a nil error is \<open>None\<close> of \<open>goerr option\<close>. The human-readable texts are not
  represented, except the two that the code compares.
\<close>

section \<open>Server errors\<close>

datatype classification = ClientError | DatabaseError | TransientError | UnknownError

record neo4j_core =
  Code :: string
  Msg :: string
  GqlStatus :: string
  GqlStatusDescription :: string
  GqlClassification :: classification
  GqlRawClassification :: string
  GqlDiagnosticRecord :: "gomap option"
  parsed :: bool
  classification :: string
  category :: string
  title :: string
  retriable :: bool

text \<open>An error with the chain of its causes.\<close>

datatype neo4j_error = Neo4jError (core: neo4j_core) (GqlCause: "neo4j_error option")

definition upd_core :: "(neo4j_core \<Rightarrow> neo4j_core) \<Rightarrow> neo4j_error \<Rightarrow> neo4j_error" where
  "upd_core f e = Neo4jError (f (core e)) (GqlCause e)"

abbreviation eCode :: "neo4j_error \<Rightarrow> string" where
  "eCode e \<equiv> Code (core e)"

text \<open>The package strings: Split at a one-character separator, and HasPrefix.\<close>

fun split_at :: "char \<Rightarrow> string \<Rightarrow> string list" where
  "split_at c [] = [[]]"
| "split_at c (x # xs) =
     (if x = c then [] # split_at c xs
      else case split_at c xs of [] \<Rightarrow> [[x]] | p # ps \<Rightarrow> (x # p) # ps)"

definition HasPrefix :: "string \<Rightarrow> string \<Rightarrow> bool" where
  "HasPrefix s p \<longleftrightarrow> take (length p) s = p"

definition reclassify :: "neo4j_core \<Rightarrow> neo4j_core" where
  "reclassify e =
     (if Code e = ''Neo.TransientError.Transaction.LockClientStopped''
        then e\<lparr>Code := ''Neo.ClientError.Transaction.LockClientStopped''\<rparr>
      else if Code e = ''Neo.TransientError.Transaction.Terminated''
        then e\<lparr>Code := ''Neo.ClientError.Transaction.Terminated''\<rparr>
      else e)"

fun set_parts :: "neo4j_core \<Rightarrow> string list \<Rightarrow> neo4j_core" where
  "set_parts e [_, c, g, t] = e\<lparr>classification := c, category := g, title := t\<rparr>"
| "set_parts e _ = e"

definition parse :: "neo4j_core \<Rightarrow> neo4j_core" where
  "parse e =
     (if parsed e then e
      else let e1 = reclassify (e\<lparr>parsed := True\<rparr>) in set_parts e1 (split_at (CHR ''.'') (Code e1)))"

text \<open>The accessors parse first, so they return the error they leave behind as well.\<close>

definition Classification :: "neo4j_error \<Rightarrow> string \<times> neo4j_error" where
  "Classification e = (classification (parse (core e)), upd_core parse e)"

definition Category :: "neo4j_error \<Rightarrow> string \<times> neo4j_error" where
  "Category e = (category (parse (core e)), upd_core parse e)"

definition Title :: "neo4j_error \<Rightarrow> string \<times> neo4j_error" where
  "Title e = (title (parse (core e)), upd_core parse e)"

definition HasSecurityCode :: "neo4j_error \<Rightarrow> bool" where
  "HasSecurityCode e \<longleftrightarrow> HasPrefix (eCode e) ''Neo.ClientError.Security.''"

definition IsAuthenticationFailed :: "neo4j_error \<Rightarrow> bool" where
  "IsAuthenticationFailed e \<longleftrightarrow> eCode e = ''Neo.ClientError.Security.Unauthorized''"

definition IsRetriableTransient :: "neo4j_error \<Rightarrow> bool \<times> neo4j_error" where
  "IsRetriableTransient e =
     (let e1 = upd_core parse e in (classification (core e1) = ''TransientError'', e1))"

definition IsRetriableCluster :: "neo4j_error \<Rightarrow> bool" where
  "IsRetriableCluster e \<longleftrightarrow>
     eCode e = ''Neo.ClientError.Cluster.NotALeader'' \<or>
     eCode e = ''Neo.ClientError.General.ForbiddenOnReadOnlyDatabase''"

text \<open>Short-circuit evaluation: parse runs only when the error is not marked already.\<close>

definition IsRetriable :: "neo4j_error \<Rightarrow> bool \<times> neo4j_error" where
  "IsRetriable e =
     (if retriable (core e) then (True, e)
      else let (t, e1) = IsRetriableTransient e
           in (t \<or> IsRetriableCluster e1 \<or> eCode e1 = ''Neo.ClientError.Security.AuthorizationExpired'', e1))"

definition MarkRetriable :: "neo4j_error \<Rightarrow> neo4j_error" where
  "MarkRetriable e = upd_core (\<lambda>c. c\<lparr>retriable := True\<rparr>) e"

text \<open>The loop along the chain of causes.\<close>

function FindByGqlStatus :: "neo4j_error option \<Rightarrow> string \<Rightarrow> neo4j_error option" where
  "FindByGqlStatus None s = None"
| "FindByGqlStatus (Some e) s = (if GqlStatus (core e) = s then Some e else FindByGqlStatus (GqlCause e) s)"
  by pat_completeness auto
termination
proof (relation "measure (\<lambda>(e, s). case e of None \<Rightarrow> 0 | Some x \<Rightarrow> size x)", goal_cases)
  case (2 e s)
  then show ?case by (cases e) (auto split: option.split)
qed simp

definition ContainsGqlStatus :: "neo4j_error \<Rightarrow> string \<Rightarrow> bool" where
  "ContainsGqlStatus e s \<longleftrightarrow> FindByGqlStatus (Some e) s \<noteq> None"

section \<open>Go error values\<close>

datatype limit_cause = LimitTimeout | LimitDeadConnections int | LimitSleep

datatype goerr =
    ErrEOF | ErrDeadlineExceeded | ErrCanceled
  | NetError bool                                  \<comment> \<open>a net.Error; the argument is its Timeout()\<close>
  | Neo4jErr neo4j_error
  | FeatureNotSupportedError string string string  \<comment> \<open>Server, Feature, Reason\<close>
  | UnsupportedTypeError string
  | ProtocolError string string string             \<comment> \<open>MessageType, Field, Err\<close>
  | PackstreamErr perr
  | UsageError string
  | ConnectivityError goerr
  | TokenExpiredError string string neo4j_error
  | PoolTimeout goerr "string list" | PoolFull "string list" | PoolClosed | PoolOutOfServers
  | ReadRoutingTableError "goerr option" string
  | TlsError goerr
  | CommitFailedDeadError goerr
  | TransactionExecutionLimit limit_cause "goerr list"
  | ConnectionReadTimeout goerr | ConnectionWriteTimeout goerr
  | ConnectionReadCanceled goerr | ConnectionWriteCanceled goerr
  | LockTimeoutError string
  | PlainError string                              \<comment> \<open>errors.New and fmt.Errorf without \<^verbatim>\<open>%w\<close>\<close>
  | WrappedError goerr goerr                       \<comment> \<open>CombineErrors: the later error, the earlier one it wraps\<close>

definition InvalidTransactionError :: string where
  "InvalidTransactionError = ''invalid transaction handle''"

definition CombineErrors :: "goerr option \<Rightarrow> goerr option \<Rightarrow> goerr option" where
  "CombineErrors err1 err2 =
     (case err2 of None \<Rightarrow> err1
      | Some e2 \<Rightarrow> (case err1 of None \<Rightarrow> Some e2 | Some e1 \<Rightarrow> Some (WrappedError e2 e1)))"

definition CombineAllErrors :: "goerr option list \<Rightarrow> goerr option" where
  "CombineAllErrors errs = (case errs of [] \<Rightarrow> None | e # es \<Rightarrow> foldl CombineErrors e es)"

text \<open>
  \<^verbatim>\<open>err == context.DeadlineExceeded\<close>, or an error with a Timeout method that says so; context.DeadlineExceeded
  itself is a net.Error too.
\<close>

fun IsTimeoutError :: "goerr option \<Rightarrow> bool" where
  "IsTimeoutError (Some ErrDeadlineExceeded) = True"
| "IsTimeoutError (Some (NetError t)) = t"
| "IsTimeoutError _ = False"

definition fatal_discovery_codes :: "string list" where
  "fatal_discovery_codes =
     [''Neo.ClientError.Database.DatabaseNotFound'', ''Neo.ClientError.Transaction.InvalidBookmark'',
      ''Neo.ClientError.Transaction.InvalidBookmarkMixture'', ''Neo.ClientError.Statement.TypeError'',
      ''Neo.ClientError.Statement.ArgumentError'', ''Neo.ClientError.Request.Invalid'']"

fun IsFatalDuringDiscovery :: "goerr option \<Rightarrow> bool" where
  "IsFatalDuringDiscovery (Some (FeatureNotSupportedError _ _ _)) = True"
| "IsFatalDuringDiscovery (Some (Neo4jErr e)) =
     (eCode e \<in> set fatal_discovery_codes \<or>
      HasPrefix (eCode e) ''Neo.ClientError.Security.'' \<and>
        eCode e \<noteq> ''Neo.ClientError.Security.AuthorizationExpired'')"
| "IsFatalDuringDiscovery (Some ErrDeadlineExceeded) = True"
| "IsFatalDuringDiscovery (Some ErrCanceled) = True"
| "IsFatalDuringDiscovery _ = False"

text \<open>
  \<^verbatim>\<open>err.Error() == InvalidTransactionError\<close>: of the types that reach the comparison, these three can have
  that text; the texts of the others start with a fixed prefix.
\<close>

fun text_invalid_transaction :: "goerr \<Rightarrow> bool" where
  "text_invalid_transaction (PlainError s) = (s = InvalidTransactionError)"
| "text_invalid_transaction (UsageError s) = (s = InvalidTransactionError)"
| "text_invalid_transaction (LockTimeoutError s) = (s = InvalidTransactionError)"
| "text_invalid_transaction _ = False"

fun WrapError :: "goerr option \<Rightarrow> goerr option" where
  "WrapError None = None"
| "WrapError (Some err) = Some
     (case err of
        ErrEOF \<Rightarrow> ConnectivityError err
      | UnsupportedTypeError t \<Rightarrow> UsageError (''Usage of type '' @ [CHR 0x27] @ t @ [CHR 0x27] @ '' is not supported'')
      | FeatureNotSupportedError srv f r \<Rightarrow>
          UsageError (''feature not supported: Server '' @ srv @ '' does not support: '' @ f @ '' ('' @ r @ '')'')
      | PoolClosed \<Rightarrow> UsageError ''Pool closed''
      | TlsError _ \<Rightarrow> ConnectivityError err
      | NetError _ \<Rightarrow> ConnectivityError err
      | ErrDeadlineExceeded \<Rightarrow> ConnectivityError err
      | PoolTimeout _ _ \<Rightarrow> ConnectivityError err
      | PoolFull _ \<Rightarrow> ConnectivityError err
      | PoolOutOfServers \<Rightarrow> ConnectivityError err
      | ReadRoutingTableError _ _ \<Rightarrow> ConnectivityError err
      | CommitFailedDeadError _ \<Rightarrow> ConnectivityError err
      | ConnectionReadTimeout _ \<Rightarrow> ConnectivityError err
      | ConnectionWriteTimeout _ \<Rightarrow> ConnectivityError err
      | Neo4jErr e \<Rightarrow>
          if eCode e = ''Neo.ClientError.Security.TokenExpired''
          then TokenExpiredError (eCode e) (Msg (core e)) e else err
      | _ \<Rightarrow> if text_invalid_transaction err then UsageError InvalidTransactionError else err)"

text \<open>errors.As for *db.Neo4jError: the error itself, or the one it unwraps to.\<close>

fun as_neo4j :: "goerr \<Rightarrow> neo4j_error option" where
  "as_neo4j (Neo4jErr e) = Some e"
| "as_neo4j (TokenExpiredError _ _ e) = Some e"
| "as_neo4j (WrappedError _ e) = as_neo4j e"
| "as_neo4j _ = None"

fun IsRetryable :: "goerr option \<Rightarrow> bool" where
  "IsRetryable (Some (ConnectivityError (CommitFailedDeadError _))) = False"
| "IsRetryable (Some (ConnectivityError (PoolTimeout _ _))) = False"
| "IsRetryable (Some (ConnectivityError _)) = True"
| "IsRetryable (Some err) = (case as_neo4j err of None \<Rightarrow> False | Some e \<Rightarrow> fst (IsRetriable e))"
| "IsRetryable None = False"

text \<open>
  The driver reads the errors through pointers, so the parse that IsRetriable runs is seen by everyone who
  holds the error: \<open>after_IsRetryable\<close> is the error as IsRetryable leaves it.
\<close>

fun after_IsRetryable :: "goerr \<Rightarrow> goerr" where
  "after_IsRetryable (Neo4jErr e) = Neo4jErr (snd (IsRetriable e))"
| "after_IsRetryable (TokenExpiredError c m e) = TokenExpiredError c m (snd (IsRetriable e))"
| "after_IsRetryable (WrappedError e2 e1) = WrappedError e2 (after_IsRetryable e1)"
| "after_IsRetryable err = err"

definition isFatalError :: "neo4j_error option \<Rightarrow> bool" where
  "isFatalError err \<longleftrightarrow> (case err of None \<Rightarrow> False | Some e \<Rightarrow> eCode e = ''Status.Security.AuthorizationExpired'')"

fun fillServerName :: "goerr \<Rightarrow> string \<Rightarrow> goerr" where
  "fillServerName (FeatureNotSupportedError srv f r) serverName =
     FeatureNotSupportedError (if srv = [] then serverName else srv) f r"
| "fillServerName err _ = err"

section \<open>Polyfill of the GQL fields\<close>

definition NewDefaultDiagnosticRecord :: gomap where
  "NewDefaultDiagnosticRecord =
     [(''OPERATION'', VStr []), (''OPERATION_CODE'', VStr ''0''), (''CURRENT_SCHEMA'', VStr ''/'')]"

definition add_missing :: "gomap \<Rightarrow> gomap \<Rightarrow> gomap" where
  "add_missing defaults m =
     foldl (\<lambda>m (k, v). case map_of m k of None \<Rightarrow> map_put k v m | Some _ \<Rightarrow> m) m defaults"

definition classification_of :: "string \<Rightarrow> classification" where
  "classification_of s =
     (if s = ''CLIENT_ERROR'' then ClientError else if s = ''DATABASE_ERROR'' then DatabaseError
      else if s = ''TRANSIENT_ERROR'' then TransientError else UnknownError)"

definition or_default :: "string \<Rightarrow> string \<Rightarrow> string" where
  "or_default s d = (if s = [] then d else s)"

definition polyfill_texts :: "neo4j_core \<Rightarrow> neo4j_core" where
  "polyfill_texts e =
     (let e1 = e\<lparr>Code := or_default (Code e) ''Neo.DatabaseError.General.UnknownError'',
                  Msg := or_default (Msg e) ''An unknown error occurred'',
                  GqlStatus := or_default (GqlStatus e) ''50N42''\<rparr>
      in e1\<lparr>GqlStatusDescription := or_default (GqlStatusDescription e1)
              (''error: general processing exception - unexpected error. '' @ Msg e1)\<rparr>)"

definition polyfill_record :: "neo4j_core \<Rightarrow> neo4j_core" where
  "polyfill_record e =
     e\<lparr>GqlDiagnosticRecord :=
         Some (case GqlDiagnosticRecord e of
             None \<Rightarrow> NewDefaultDiagnosticRecord
           | Some m \<Rightarrow> add_missing NewDefaultDiagnosticRecord m)\<rparr>"

definition diag :: "neo4j_core \<Rightarrow> string \<rightharpoonup> goval" where
  "diag e = (case GqlDiagnosticRecord e of None \<Rightarrow> Map.empty | Some m \<Rightarrow> map_of m)"

definition polyfill_classification :: "neo4j_core \<Rightarrow> neo4j_core" where
  "polyfill_classification e =
     (case Option.bind (diag e ''_classification'') as_string of
        Some c \<Rightarrow> e\<lparr>GqlRawClassification := c, GqlClassification := classification_of c\<rparr>
      | None \<Rightarrow> e\<lparr>GqlRawClassification := [], GqlClassification := UnknownError\<rparr>)"

definition PolyfillGqlError :: "neo4j_core \<Rightarrow> neo4j_core" where
  "PolyfillGqlError e = polyfill_classification (polyfill_record (polyfill_texts e))"

section \<open>Lemmas\<close>

lemma set_parts_fields [simp]:
  "parsed (set_parts e ps) = parsed e" "retriable (set_parts e ps) = retriable e"
  "Code (set_parts e ps) = Code e"
  by (induction e ps rule: set_parts.induct) simp_all

lemma reclassify_fields [simp]:
  "parsed (reclassify e) = parsed e" "retriable (reclassify e) = retriable e"
  "classification (reclassify e) = classification e"
  by (simp_all add: reclassify_def)

lemma Code_reclassify_parsed [simp]: "Code (reclassify (c\<lparr>parsed := b\<rparr>)) = Code (reclassify c)"
  by (simp add: reclassify_def)

lemma parsed_parse [simp]: "parsed (parse c)"
  by (simp add: parse_def Let_def)

lemma retriable_parse [simp]: "retriable (parse c) = retriable c"
  by (simp add: parse_def Let_def)

lemma parse_idem [simp]: "parse (parse c) = parse c"
  using parsed_parse [of c] by (simp only: parse_def [of "parse c"] if_True)

lemma Code_parse: "Code (parse c) = (if parsed c then Code c else Code (reclassify c))"
  by (simp add: parse_def Let_def)

text \<open>strings.Split is inverse to joining parts that do not contain the separator.\<close>

fun join :: "char \<Rightarrow> string list \<Rightarrow> string" where
  "join c [] = []"
| "join c [p] = p"
| "join c (p # q # ps) = p @ c # join c (q # ps)"

lemma split_at_not_Nil [simp]: "split_at c s \<noteq> []"
  by (induction c s rule: split_at.induct) (auto split: list.splits)

lemma join_Cons_Cons: "ps \<noteq> [] \<Longrightarrow> join c ([] # ps) = c # join c ps"
  by (cases ps) auto

lemma join_push: "join c ((x # p) # ps) = x # join c (p # ps)"
  by (cases ps) auto

lemma join_split_at: "join c (split_at c s) = s"
proof (induction s)
  case (Cons x xs)
  obtain p ps where "split_at c xs = p # ps" by (meson neq_Nil_conv split_at_not_Nil)
  with Cons show ?case by (simp add: join_push)
qed simp

lemma split_at_no_sep: "p \<in> set (split_at c s) \<Longrightarrow> c \<notin> set p"
  by (induction s arbitrary: p) (fastforce split: if_splits list.splits)+

lemma split_at_part: "c \<notin> set p \<Longrightarrow> split_at c p = [p]"
  by (induction p) auto

lemma split_at_append: "c \<notin> set p \<Longrightarrow> split_at c (p @ c # s) = p # split_at c s"
  by (induction p) auto

lemma split_at_join: "ps \<noteq> [] \<Longrightarrow> \<forall>p \<in> set ps. c \<notin> set p \<Longrightarrow> split_at c (join c ps) = ps"
  by (induction c ps rule: join.induct) (auto simp: split_at_part split_at_append)

lemma split_at_iff: "split_at c s = ps \<longleftrightarrow> ps \<noteq> [] \<and> s = join c ps \<and> (\<forall>p \<in> set ps. c \<notin> set p)"
  by (metis join_split_at split_at_join split_at_no_sep split_at_not_Nil)

lemma classification_set_parts:
  "classification (set_parts e ps) = (if length ps = 4 then ps ! 1 else classification e)"
  by (induction e ps rule: set_parts.induct) simp_all

definition four_part_code :: "string \<Rightarrow> string \<Rightarrow> bool" where
  "four_part_code cls s \<longleftrightarrow> (let ps = split_at (CHR ''.'') s in length ps = 4 \<and> ps ! 1 = cls)"

lemma classification_parse_fresh:
  "\<not> parsed c \<Longrightarrow> classification c = [] \<Longrightarrow> cls \<noteq> [] \<Longrightarrow>
   classification (parse c) = cls \<longleftrightarrow> four_part_code cls (Code (reclassify c))"
  by (auto simp: parse_def Let_def classification_set_parts four_part_code_def)

lemma Code_reclassify_neq [simp]:
  "Code (reclassify c) \<noteq> ''Neo.TransientError.Transaction.LockClientStopped''"
  "Code (reclassify c) \<noteq> ''Neo.TransientError.Transaction.Terminated''"
  by (simp_all add: reclassify_def)

lemma core_upd_core [simp]: "core (upd_core f e) = f (core e)"
  by (simp add: upd_core_def)

lemma upd_core_idem: "f (f (core e)) = f (core e) \<Longrightarrow> upd_core f (upd_core f e) = upd_core f e"
  by (simp add: upd_core_def)

lemma fresh_IsRetriable:
  assumes "\<not> parsed (core e)" "\<not> retriable (core e)" "classification (core e) = []"
  shows "fst (IsRetriable e) \<longleftrightarrow>
    (let s = Code (reclassify (core e)) in
       four_part_code ''TransientError'' s \<or> s = ''Neo.ClientError.Cluster.NotALeader'' \<or>
       s = ''Neo.ClientError.General.ForbiddenOnReadOnlyDatabase'' \<or>
       s = ''Neo.ClientError.Security.AuthorizationExpired'')"
  using assms
  by (simp add: IsRetriable_def IsRetriableTransient_def IsRetriableCluster_def Let_def
      classification_parse_fresh Code_parse)

section \<open>Properties\<close>

lemma four_part_code_iff:
  "four_part_code cls s \<longleftrightarrow>
     (\<exists>p g t. s = p @ ''.'' @ cls @ ''.'' @ g @ ''.'' @ t \<and> CHR ''.'' \<notin> set (p @ cls @ g @ t))"
proof
  assume "four_part_code cls s"
  then obtain p g t where "split_at (CHR ''.'') s = [p, cls, g, t]"
    by (auto simp: four_part_code_def Let_def numeral_eq_Suc length_Suc_conv)
  then have "s = p @ ''.'' @ cls @ ''.'' @ g @ ''.'' @ t \<and> CHR ''.'' \<notin> set (p @ cls @ g @ t)"
    by (auto simp: split_at_iff)
  then show "\<exists>p g t. s = p @ ''.'' @ cls @ ''.'' @ g @ ''.'' @ t \<and> CHR ''.'' \<notin> set (p @ cls @ g @ t)"
    by blast
next
  assume "\<exists>p g t. s = p @ ''.'' @ cls @ ''.'' @ g @ ''.'' @ t \<and> CHR ''.'' \<notin> set (p @ cls @ g @ t)"
  then obtain p g t where "split_at (CHR ''.'') s = [p, cls, g, t]"
    by (fastforce simp: split_at_iff)
  then show "four_part_code cls s"
    by (simp add: four_part_code_def)
qed

text \<open>
  the retry decision of a server error that was just received (no field derived yet) is the documented
  one. It is retriable exactly when its code has four parts of which the second is TransientError, other
  than the two transaction-termination codes that older servers send as transient, or when it is one of the
  two leadership codes or the expired authorization. Asking again gives the same answer.
\<close>

lemma retriable_decision:
  assumes "\<not> parsed (core e)" "\<not> retriable (core e)" "classification (core e) = []"
  shows "(fst (IsRetriable e) \<longleftrightarrow>
      (\<exists>p g t. eCode e = p @ ''.'' @ ''TransientError'' @ ''.'' @ g @ ''.'' @ t \<and> CHR ''.'' \<notin> set (p @ g @ t)) \<and>
        eCode e \<notin> {''Neo.TransientError.Transaction.LockClientStopped'', ''Neo.TransientError.Transaction.Terminated''}
      \<or> eCode e \<in> {''Neo.ClientError.Cluster.NotALeader'', ''Neo.ClientError.General.ForbiddenOnReadOnlyDatabase'',
          ''Neo.ClientError.Security.AuthorizationExpired''})
    \<and> fst (IsRetriable (snd (IsRetriable e))) = fst (IsRetriable e)"
proof
  have no: "\<not> four_part_code ''TransientError'' ''Neo.ClientError.Transaction.LockClientStopped''"
    "\<not> four_part_code ''TransientError'' ''Neo.ClientError.Transaction.Terminated''"
    by (simp_all add: four_part_code_def)
  have tr: "four_part_code ''TransientError'' s \<longleftrightarrow>
      (\<exists>p g t. s = p @ ''.'' @ ''TransientError'' @ ''.'' @ g @ ''.'' @ t \<and> CHR ''.'' \<notin> set (p @ g @ t))" for s
    by (simp only: four_part_code_iff) simp
  show "fst (IsRetriable e) \<longleftrightarrow>
      (\<exists>p g t. eCode e = p @ ''.'' @ ''TransientError'' @ ''.'' @ g @ ''.'' @ t \<and> CHR ''.'' \<notin> set (p @ g @ t)) \<and>
        eCode e \<notin> {''Neo.TransientError.Transaction.LockClientStopped'', ''Neo.TransientError.Transaction.Terminated''}
      \<or> eCode e \<in> {''Neo.ClientError.Cluster.NotALeader'', ''Neo.ClientError.General.ForbiddenOnReadOnlyDatabase'',
          ''Neo.ClientError.Security.AuthorizationExpired''}"
    unfolding tr [symmetric] fresh_IsRetriable [OF assms] using no
    by (simp add: reclassify_def Let_def)
  show "fst (IsRetriable (snd (IsRetriable e))) = fst (IsRetriable e)"
    by (simp add: IsRetriable_def IsRetriableTransient_def IsRetriableCluster_def Let_def)
qed

definition sample_core :: "string \<Rightarrow> neo4j_core" where
  "sample_core c = \<lparr>Code = c, Msg = [], GqlStatus = [], GqlStatusDescription = [],
     GqlClassification = UnknownError, GqlRawClassification = [], GqlDiagnosticRecord = None, parsed = False,
     classification = [], category = [], title = [], retriable = False\<rparr>"

theorem retriable_decision_witness:
  "fst (IsRetriable (Neo4jError (sample_core ''Neo.TransientError.Transaction.DeadlockDetected'') None)) \<and>
   \<not> fst (IsRetriable (Neo4jError (sample_core ''Neo.TransientError.Transaction.Terminated'') None))"
proof -
  let ?e = "\<lambda>c. Neo4jError (sample_core c) None"
  have h: "\<not> parsed (core (?e c))" "\<not> retriable (core (?e c))" "classification (core (?e c)) = []" for c
    by (simp_all add: sample_core_def)
  have ex: "\<exists>p g t. ''Neo.TransientError.Transaction.DeadlockDetected'' =
      p @ ''.'' @ ''TransientError'' @ ''.'' @ g @ ''.'' @ t \<and> CHR ''.'' \<notin> set (p @ g @ t)"
    by (rule exI [of _ "''Neo''"], rule exI [of _ "''Transaction''"], rule exI [of _ "''DeadlockDetected''"]) simp
  show ?thesis
    using retriable_decision [OF h, of "''Neo.TransientError.Transaction.DeadlockDetected''"] ex
      retriable_decision [OF h, of "''Neo.TransientError.Transaction.Terminated''"]
    by (simp add: sample_core_def)
qed

lemma map_of_add_missing: "map_of (add_missing ds m) = map_of ds ++ map_of m"
proof (induction ds arbitrary: m)
  case Nil
  then show ?case by (simp add: add_missing_def)
next
  case (Cons d ds)
  obtain k v where d: "d = (k, v)" by fastforce
  show ?case
  proof (cases "map_of m k")
    case None
    then have "map_of (add_missing (d # ds) m) = map_of (add_missing ds (map_put k v m))"
      by (simp add: add_missing_def d)
    with Cons None show ?thesis by (auto simp: d map_add_def fun_eq_iff split: option.split)
  next
    case (Some v')
    then have "map_of (add_missing (d # ds) m) = map_of (add_missing ds m)"
      by (simp add: add_missing_def d)
    with Cons Some show ?thesis by (auto simp: d map_add_def fun_eq_iff split: option.split)
  qed
qed

lemma or_default_neq [simp]: "d \<noteq> [] \<Longrightarrow> or_default s d \<noteq> []"
  by (simp add: or_default_def)

lemma or_default_id: "s \<noteq> [] \<Longrightarrow> or_default s d = s"
  by (simp add: or_default_def)

lemma polyfill_texts_fields [simp]:
  "Code (polyfill_texts e) = or_default (Code e) ''Neo.DatabaseError.General.UnknownError''"
  "Msg (polyfill_texts e) = or_default (Msg e) ''An unknown error occurred''"
  "GqlStatus (polyfill_texts e) = or_default (GqlStatus e) ''50N42''"
  "GqlStatusDescription (polyfill_texts e) \<noteq> []"
  "GqlDiagnosticRecord (polyfill_texts e) = GqlDiagnosticRecord e"
  by (simp_all add: polyfill_texts_def Let_def)

lemma polyfill_classification_fields [simp]:
  "Code (polyfill_classification e) = Code e" "Msg (polyfill_classification e) = Msg e"
  "GqlStatus (polyfill_classification e) = GqlStatus e"
  "GqlStatusDescription (polyfill_classification e) = GqlStatusDescription e"
  "GqlDiagnosticRecord (polyfill_classification e) = GqlDiagnosticRecord e"
  by (simp_all add: polyfill_classification_def split: option.split)

lemma diag_classification [simp]: "diag (polyfill_classification e) = diag e"
  by (simp add: diag_def)

lemma diag_texts [simp]: "diag (polyfill_texts e) = diag e"
  by (simp add: diag_def)

lemma polyfill_record_fields [simp]:
  "Code (polyfill_record e) = Code e" "Msg (polyfill_record e) = Msg e"
  "GqlStatus (polyfill_record e) = GqlStatus e"
  "GqlStatusDescription (polyfill_record e) = GqlStatusDescription e"
  by (simp_all add: polyfill_record_def)

lemma diag_record [simp]: "diag (polyfill_record e) = map_of NewDefaultDiagnosticRecord ++ diag e"
  by (simp add: diag_def polyfill_record_def map_of_add_missing split: option.split)

lemma polyfill_class:
  "GqlRawClassification (polyfill_classification e) =
     (case diag e ''_classification'' of Some (VStr c) \<Rightarrow> c | _ \<Rightarrow> [])"
  "GqlClassification (polyfill_classification e) = classification_of (GqlRawClassification (polyfill_classification e))"
proof -
  have *: "Option.bind x as_string = (case x of Some (VStr c) \<Rightarrow> Some c | _ \<Rightarrow> None)" for x
    by (auto split: option.split goval.split)
  show "GqlRawClassification (polyfill_classification e) =
      (case diag e ''_classification'' of Some (VStr c) \<Rightarrow> c | _ \<Rightarrow> [])"
    by (simp add: polyfill_classification_def * split: option.split goval.split)
  show "GqlClassification (polyfill_classification e) =
      classification_of (GqlRawClassification (polyfill_classification e))"
    by (simp add: polyfill_classification_def classification_of_def split: option.split)
qed

lemma polyfill_texts_id:
  "Code e \<noteq> [] \<Longrightarrow> Msg e \<noteq> [] \<Longrightarrow> GqlStatus e \<noteq> [] \<Longrightarrow> GqlStatusDescription e \<noteq> [] \<Longrightarrow> polyfill_texts e = e"
  by (simp add: polyfill_texts_def or_default_id)

lemma add_missing_id: "\<forall>k \<in> fst ` set ds. map_of m k \<noteq> None \<Longrightarrow> add_missing ds m = m"
  by (induction ds) (auto simp: add_missing_def)

lemma polyfill_record_id:
  assumes "GqlDiagnosticRecord e = Some m" "\<forall>k \<in> fst ` set NewDefaultDiagnosticRecord. map_of m k \<noteq> None"
  shows "polyfill_record e = e"
  using add_missing_id [OF assms(2)] assms(1) by (simp add: polyfill_record_def)

lemma polyfill_classification_idem: "polyfill_classification (polyfill_classification e) = polyfill_classification e"
  unfolding polyfill_classification_def [of "polyfill_classification e"] diag_classification
  by (simp add: polyfill_classification_def split: option.split)

lemma Polyfill_idem: "PolyfillGqlError (PolyfillGqlError e) = PolyfillGqlError e"
proof -
  let ?p = "PolyfillGqlError e"
  obtain m where m: "GqlDiagnosticRecord ?p = Some m"
    by (simp add: PolyfillGqlError_def polyfill_record_def)
  have "diag ?p = map_of NewDefaultDiagnosticRecord ++ diag e"
    by (simp add: PolyfillGqlError_def)
  with m have mo: "map_of m = map_of NewDefaultDiagnosticRecord ++ diag e"
    by (simp add: diag_def [of ?p])
  have keys: "\<forall>k \<in> fst ` set NewDefaultDiagnosticRecord. map_of m k \<noteq> None"
    by (auto simp: mo map_add_def NewDefaultDiagnosticRecord_def split: option.split)
  have "polyfill_texts ?p = ?p"
    by (rule polyfill_texts_id) (simp_all add: PolyfillGqlError_def)
  then have "PolyfillGqlError ?p = polyfill_classification (polyfill_record ?p)"
    by (simp only: PolyfillGqlError_def [of ?p])
  also have "polyfill_record ?p = ?p"
    by (rule polyfill_record_id [OF m keys])
  also have "polyfill_classification ?p = ?p"
    by (simp only: PolyfillGqlError_def polyfill_classification_idem)
  finally show ?thesis .
qed

text \<open>
  the polyfill of the GQL fields gives every server error a code, a message, a GQL status and a
  description, keeps those the server sent, and completes the diagnostic record: the server's entries win
  over the defaults, nothing else is added. The classification is the one of the record, unknown when the
  record has none. Running it on its own result changes nothing.
\<close>

lemma polyfill_complete:
  "(let e' = PolyfillGqlError e in
     Code e' = (if Code e = [] then ''Neo.DatabaseError.General.UnknownError'' else Code e) \<and>
     Msg e' = (if Msg e = [] then ''An unknown error occurred'' else Msg e) \<and>
     GqlStatus e' = (if GqlStatus e = [] then ''50N42'' else GqlStatus e) \<and>
     GqlStatusDescription e' \<noteq> [] \<and>
     diag e' = map_of NewDefaultDiagnosticRecord ++ diag e \<and>
     GqlRawClassification e' = (case diag e' ''_classification'' of Some (VStr c) \<Rightarrow> c | _ \<Rightarrow> []) \<and>
     GqlClassification e' = classification_of (GqlRawClassification e') \<and>
     PolyfillGqlError e' = e')"
  unfolding Let_def Polyfill_idem
  unfolding PolyfillGqlError_def
  by (intro conjI; (rule refl)?; (simp add: or_default_def; fail)?; (simp add: polyfill_class; fail)?)

end
