(* ===== verification/Racing.thy ===== *)
theory Racing
  imports Errors
begin

text \<open>
  Reads and writes that race against a context: src/neo4j/internal/racing/reader.go and writer.go. What the
  operation observes of its context is a record; the byte stream is the data that will arrive and the error
  that ends it, the writer is the outcome of its Write.
\<close>

section \<open>Contexts\<close>

text \<open>
  \<open>expired\<close> is the result of deadline.Before(time.Now()); a context without deadline gives the zero time,
  which is before every clock reading. \<open>done_first\<close> is ctx.Err() when the select takes the branch of
  ctx.Done().
\<close>

record ctx =
  hasDeadline :: bool
  expired :: bool
  c_err :: "goerr option"
  done_first :: "goerr option"

definition wf_ctx :: "ctx \<Rightarrow> bool" where
  "wf_ctx c \<longleftrightarrow> (hasDeadline c \<or> expired c)"

definition background :: ctx where
  "background = \<lparr>hasDeadline = False, expired = True, c_err = None, done_first = None\<rparr>"

text \<open>The three ways the race ends: the operation runs, or it does not and the error is that of the context.\<close>

datatype race_outcome = Runs | Refused "goerr option"

definition race :: "ctx \<Rightarrow> race_outcome" where
  "race c =
     (if \<not> hasDeadline c \<and> c_err c = None then Runs
      else if expired c \<or> c_err c \<noteq> None then Refused (c_err c)
      else case done_first c of Some e \<Rightarrow> Refused (Some e) | None \<Rightarrow> Runs)"

text \<open>The context is refused without an error: its deadline has passed, but ctx.Err() was read before that.\<close>

definition silent :: "ctx \<Rightarrow> bool" where
  "silent c \<longleftrightarrow> race c = Refused None"

lemma silent_iff: "silent c \<longleftrightarrow> hasDeadline c \<and> expired c \<and> c_err c = None"
  by (auto simp: silent_def race_def split: option.splits)

lemma race_background [simp]: "race background = Runs"
  by (simp add: race_def background_def)

lemma not_silent_background [simp]: "\<not> silent background"
  by (simp add: silent_def)

section \<open>Writer\<close>

text \<open>
  One call of the underlying Write under a context: \<^const>\<open>None\<close> when all bytes are taken, else how many were
  taken and the error (an io.Writer that takes fewer bytes returns an error).
\<close>

record wstep =
  w_ctx :: ctx
  w_err :: "(nat \<times> goerr) option"

definition ok_write :: wstep where
  "ok_write = \<lparr>w_ctx = background, w_err = None\<rparr>"

definition base_Write :: "wstep \<Rightarrow> bytes \<Rightarrow> goerr option \<times> bytes" where
  "base_Write w bs = (case w_err w of None \<Rightarrow> (None, bs) | Some (n, e) \<Rightarrow> (Some e, take n bs))"

text \<open>
  The error of the racing Write and the bytes that reach the wire because of it. When ctx.Done() wins the select, the
  caller gets the error of the context, but the goroutine that was started is left behind and still writes what it can.
\<close>

definition racing_Write :: "wstep \<Rightarrow> bytes \<Rightarrow> goerr option \<times> bytes" where
  "racing_Write w bs =
     (let c = w_ctx w in
      if \<not> hasDeadline c \<and> c_err c = None then base_Write w bs
      else if expired c \<or> c_err c \<noteq> None then (c_err c, [])
      else (case done_first c of Some e \<Rightarrow> (Some e, snd (base_Write w bs)) | None \<Rightarrow> base_Write w bs))"

lemma racing_Write_race:
  "racing_Write w bs =
     (case race (w_ctx w) of
        Runs \<Rightarrow> base_Write w bs
      | Refused e \<Rightarrow> (e, if expired (w_ctx w) \<or> c_err (w_ctx w) \<noteq> None then [] else snd (base_Write w bs)))"
  by (auto simp: racing_Write_def race_def Let_def split: option.split)

lemma silent_expired: "race c = Refused None \<Longrightarrow> expired c"
  by (auto simp: race_def split: if_splits option.splits)

lemma racing_Write_ok: "racing_Write ok_write bs = (None, bs)"
  by (simp add: racing_Write_race base_Write_def ok_write_def)

lemma racing_Write_complete: "\<not> silent (w_ctx w) \<Longrightarrow> racing_Write w bs = (None, out) \<Longrightarrow> out = bs"
  by (auto simp: racing_Write_race base_Write_def silent_def split: race_outcome.splits option.splits)

lemma base_Write_prefix: "\<exists>t. bs = snd (base_Write w bs) @ t"
  by (auto simp: base_Write_def split: option.split) (metis append_take_drop_id)

lemma racing_Write_prefix: "racing_Write w bs = (e, out) \<Longrightarrow> \<exists>t. bs = out @ t"
  using base_Write_prefix [of bs w] by (auto simp: racing_Write_race split: race_outcome.splits if_splits)

section \<open>Reader\<close>

text \<open>
  The data that will arrive and the error that ends it. The goroutine of a read that has lost the race may still take
  data; nobody reads from the connection after the error of that read, so the data is left where it is.
\<close>

record conn =
  inp :: bytes
  fail :: goerr

abbreviation ErrUnexpectedEOF :: goerr where
  "ErrUnexpectedEOF \<equiv> PlainError ''unexpected EOF''"

text \<open>io.ReadFull for \<open>n\<close> bytes: what was read, the error, the connection afterwards.\<close>

definition ReadFull :: "nat \<Rightarrow> conn \<Rightarrow> bytes \<times> goerr option \<times> conn" where
  "ReadFull n c =
     (if n \<le> length (inp c) then (take n (inp c), None, c\<lparr>inp := drop n (inp c)\<rparr>)
      else (inp c, Some (if fail c = ErrEOF \<and> inp c \<noteq> [] then ErrUnexpectedEOF else fail c), c\<lparr>inp := []\<rparr>))"

text \<open>
  The racing ReadFull into a buffer at an offset. When the context wins, the goroutine that still reads is left
  behind; the model leaves the connection as it is, and the callers give it up.
\<close>

definition overwrite :: "'a list \<Rightarrow> nat \<Rightarrow> 'a list \<Rightarrow> 'a list" where
  "overwrite buf off bs = take off buf @ bs @ drop (off + length bs) buf"

definition racing_ReadFull :: "ctx \<Rightarrow> bytes \<Rightarrow> nat \<Rightarrow> nat \<Rightarrow> conn \<Rightarrow> goerr option \<times> bytes \<times> conn" where
  "racing_ReadFull cx buf off n c =
     (case race cx of
        Refused e \<Rightarrow> (e, buf, c)
      | Runs \<Rightarrow> (case ReadFull n c of (bs, e, c') \<Rightarrow> (e, overwrite buf off bs, c')))"

lemma length_overwrite: "off + length bs \<le> length buf \<Longrightarrow> length (overwrite buf off bs) = length buf"
  by (simp add: overwrite_def)

lemma take_overwrite: "off \<le> length buf \<Longrightarrow> take off (overwrite buf off bs) = take off buf"
  by (simp add: overwrite_def)

lemma take_overwrite_end:
  "off \<le> length buf \<Longrightarrow> n = off + length bs \<Longrightarrow> take n (overwrite buf off bs) = take off buf @ bs"
  by (simp add: overwrite_def)

lemma drop_overwrite:
  "off \<le> length buf \<Longrightarrow> off + length bs \<le> n \<Longrightarrow> drop n (overwrite buf off bs) = drop n buf"
  by (simp add: overwrite_def drop_append)

lemma drop_overwrite_at:
  "off \<le> length buf \<Longrightarrow> drop off (overwrite buf off bs) = bs @ drop (off + length bs) buf"
  by (simp add: overwrite_def)

lemma ReadFull_enough [simp]:
  "n = length bs \<Longrightarrow> ReadFull n (c\<lparr>inp := bs @ rest\<rparr>) = (bs, None, c\<lparr>inp := rest\<rparr>)"
  by (simp add: ReadFull_def)

section \<open>Finding\<close>

text \<open>
  A write whose context deadline passes between the check of ctx.Err() and the check of the clock reports
  success although nothing was written: the racing writer returns \<^verbatim>\<open>(0, nil)\<close> exactly in that case, and in every
  other case a nil error means that all bytes were taken.
\<close>

theorem racing_write_success:
  "fst (racing_Write w bs) = None \<longleftrightarrow>
     (silent (w_ctx w) \<and> snd (racing_Write w bs) = []) \<or>
     (race (w_ctx w) = Runs \<and> w_err w = None \<and> snd (racing_Write w bs) = bs)"
  by (auto simp: racing_Write_race base_Write_def silent_def dest: silent_expired split: race_outcome.splits option.splits)

end
