(* ===== verification/Chunking.thy ===== *)
theory Chunking
  imports Racing "HOL-Library.Sublist"
begin

text \<open>
  Message framing: src/neo4j/internal/bolt/chunker.go and dechunker.go. The chunker keeps the messages in one
  buffer with two bytes reserved before and after each and fills in the sizes in place when it sends; the
  dechunker joins the chunks of one message. A slice index out of range is \<^const>\<open>None\<close>; ints are naturals, since
  a buffer never reaches 2^63 bytes. In the whole driver the read buffer has length equal to capacity.
\<close>

section \<open>Chunker\<close>

record chunker =
  c_buf :: bytes
  c_sizes :: "nat list"
  c_offset :: nat

definition newChunker :: chunker where
  "newChunker = \<lparr>c_buf = [], c_sizes = [], c_offset = 0\<rparr>"

definition beginMessage :: "chunker \<Rightarrow> chunker" where
  "beginMessage c = c\<lparr>c_buf := c_buf c @ [0, 0], c_offset := c_offset c + 2\<rparr>"

definition endMessage :: "chunker \<Rightarrow> chunker" where
  "endMessage c =
     (let size' = length (c_buf c) - c_offset c in
      c\<lparr>c_sizes := c_sizes c @ [size'], c_buf := c_buf c @ [0, 0], c_offset := c_offset c + size' + 2\<rparr>)"

definition reset_chunker :: "chunker \<Rightarrow> chunker" where
  "reset_chunker c = c\<lparr>c_offset := 0, c_buf := [], c_sizes := []\<rparr>"

definition processWriteError :: "goerr \<Rightarrow> goerr" where
  "processWriteError err =
     (if IsTimeoutError (Some err) then ConnectionWriteTimeout err
      else if err = ErrCanceled then ConnectionWriteCanceled err else err)"

text \<open>binary.BigEndian.PutUint16(buf[end:], v).\<close>

definition put16 :: "bytes \<Rightarrow> nat \<Rightarrow> nat \<Rightarrow> bytes option" where
  "put16 buf e v = (if e + 2 \<le> length buf then Some (overwrite buf e (be_bytes 2 v)) else None)"

text \<open>The wire so far and the number of writes made; the n-th write has the outcome \<open>ws n\<close>.\<close>

record wire =
  out :: bytes
  writes :: nat

definition wire_write :: "(nat \<Rightarrow> wstep) \<Rightarrow> bytes \<Rightarrow> wire \<Rightarrow> goerr option \<times> wire" where
  "wire_write ws bs w =
     (case racing_Write (ws (writes w)) bs of (e, o') \<Rightarrow> (e, \<lparr>out = out w @ o', writes = writes w + 1\<rparr>))"

text \<open>The variables of the loops of send.\<close>

record sendst =
  s_buf :: bytes
  s_start :: nat
  s_end :: nat
  s_wire :: wire

text \<open>The loop for a message over several chunks, with the size that is left; an error ends it.\<close>

function send_big :: "(nat \<Rightarrow> wstep) \<Rightarrow> nat \<Rightarrow> sendst \<Rightarrow> (goerr option \<times> nat \<times> sendst) option" where
  "send_big ws sz s =
     (if sz > 0xffff then
        do {
          buf1 \<leftarrow> put16 (s_buf s) (s_end s) 0xffff;
          let end1 = s_end s + 2 + 0xffff;
          bs \<leftarrow> slice buf1 (s_start s) end1;
          (case wire_write ws bs (s_wire s) of
             (Some e, w) \<Rightarrow> Some (Some e, sz, s\<lparr>s_buf := buf1, s_end := end1, s_wire := w\<rparr>)
           | (None, w) \<Rightarrow> send_big ws (sz - 0xffff)
               \<lparr>s_buf = buf1, s_start = end1 - 2, s_end = end1 - 2, s_wire = w\<rparr>)
        }
      else Some (None, sz, s))"
  by pat_completeness auto
termination by (relation "measure (\<lambda>(ws, sz, s). sz)") auto

definition send_one :: "(nat \<Rightarrow> wstep) \<Rightarrow> nat \<Rightarrow> sendst \<Rightarrow> (goerr option \<times> sendst) option" where
  "send_one ws sz s =
     do {
       (err, sz1, s1) \<leftarrow> (if sz \<le> 0xffff then Some (None, sz, s) else send_big ws sz s);
       (case err of
          Some e \<Rightarrow> Some (Some e, s1)
        | None \<Rightarrow> do {
            buf1 \<leftarrow> put16 (s_buf s1) (s_end s1) sz1;
            Some (None, s1\<lparr>s_buf := buf1, s_end := s_end s1 + 2 + sz1 + 2\<rparr>)
          })
     }"

fun send_sizes :: "(nat \<Rightarrow> wstep) \<Rightarrow> nat list \<Rightarrow> sendst \<Rightarrow> (goerr option \<times> sendst) option" where
  "send_sizes ws [] s = Some (None, s)"
| "send_sizes ws (sz # szs) s =
     do {
       (err, s1) \<leftarrow> send_one ws sz s;
       (case err of Some e \<Rightarrow> Some (Some e, s1) | None \<Rightarrow> send_sizes ws szs s1)
     }"

definition send :: "(nat \<Rightarrow> wstep) \<Rightarrow> chunker \<Rightarrow> (goerr option \<times> chunker \<times> bytes) option" where
  "send ws c =
     do {
       (err, s) \<leftarrow> send_sizes ws (c_sizes c)
                   \<lparr>s_buf = c_buf c, s_start = 0, s_end = 0, s_wire = \<lparr>out = [], writes = 0\<rparr>\<rparr>;
       let c1 = c\<lparr>c_buf := s_buf s\<rparr>;
       (case err of
          Some e \<Rightarrow> Some (Some (processWriteError e), c1, out (s_wire s))
        | None \<Rightarrow>
            if s_end s > s_start s then
              do {
                bs \<leftarrow> slice (s_buf s) (s_start s) (s_end s);
                (case wire_write ws bs (s_wire s) of
                   (Some e, w) \<Rightarrow> Some (Some (processWriteError e), c1, out w)
                 | (None, w) \<Rightarrow> Some (None, reset_chunker c1, out w))
              }
            else Some (None, reset_chunker c1, out (s_wire s)))
     }"

section \<open>Dechunker\<close>

definition processReadError :: "goerr \<Rightarrow> goerr" where
  "processReadError err =
     (if IsTimeoutError (Some err) then ConnectionReadTimeout err
      else if err = ErrCanceled then ConnectionReadCanceled err else err)"

text \<open>
  The loop on the contexts that its reads meet, one per read (newContext makes a fresh one); \<^const>\<open>None\<close>: the
  next read has not ended yet. The result is the buffer to reuse, the message or the error, and the connection.
\<close>

definition grow :: "bytes \<Rightarrow> nat \<Rightarrow> bytes" where
  "grow buf n = (if n > length buf then buf @ replicate (n + 4096 - length buf) 0 else buf)"

function dechunk_loop ::
  "ctx list \<Rightarrow> bytes \<Rightarrow> nat \<Rightarrow> bytes \<Rightarrow> conn \<Rightarrow> (bytes \<times> (goerr + bytes) \<times> conn) option" where
  "dechunk_loop [] sizeBuf off msgBuf c = None"
| "dechunk_loop (cx # cxs) sizeBuf off msgBuf c =
     (case racing_ReadFull cx sizeBuf 0 2 c of
        (Some e, _, c1) \<Rightarrow> Some (msgBuf, Inl (processReadError e), c1)
      | (None, sizeBuf1, c1) \<Rightarrow>
          let chunkSize = be_nat sizeBuf1 in
          if chunkSize = 0 then
            if off > 0 then Some (msgBuf, Inr (take off msgBuf), c1)
            else dechunk_loop cxs sizeBuf1 off msgBuf c1
          else
            let msgBuf1 = grow msgBuf (off + chunkSize) in
            (case cxs of
               [] \<Rightarrow> None
             | cx2 # cxs2 \<Rightarrow>
                 (case racing_ReadFull cx2 msgBuf1 off chunkSize c1 of
                    (Some e, msgBuf2, c2) \<Rightarrow> Some (msgBuf2, Inl (processReadError e), c2)
                  | (None, msgBuf2, c2) \<Rightarrow> dechunk_loop cxs2 sizeBuf1 (off + chunkSize) msgBuf2 c2)))"
  by pat_completeness auto
termination by (relation "measure (\<lambda>(cxs, _). length cxs)") auto

definition dechunkMessage :: "ctx list \<Rightarrow> bytes \<Rightarrow> conn \<Rightarrow> (bytes \<times> (goerr + bytes) \<times> conn) option" where
  "dechunkMessage cxs msgBuf c = dechunk_loop cxs [0, 0] 0 msgBuf c"

declare send_big.simps [simp del]

section \<open>The chunked encoding\<close>

text \<open>The reference: full chunks of 65535 bytes, a last chunk, the end marker.\<close>

function chunked :: "bytes \<Rightarrow> bytes" where
  "chunked m =
     (if length m > 0xffff then [0xff, 0xff] @ take 0xffff m @ chunked (drop 0xffff m)
      else be_bytes 2 (length m) @ m @ [0, 0])"
  by pat_completeness auto
termination by (relation "measure length") auto

declare chunked.simps [simp del]

definition frame :: "bytes \<Rightarrow> bytes" where
  "frame m = [0, 0] @ m @ [0, 0]"

text \<open>The chunker holds the messages \<open>ms\<close>, complete.\<close>

definition holds :: "bytes list \<Rightarrow> chunker \<Rightarrow> bool" where
  "holds ms c \<longleftrightarrow> c_buf c = concat (map frame ms) \<and> c_sizes c = map length ms \<and> c_offset c = length (c_buf c)"

definition add_message :: "bytes \<Rightarrow> chunker \<Rightarrow> chunker" where
  "add_message m c = endMessage ((beginMessage c)\<lparr>c_buf := c_buf (beginMessage c) @ m\<rparr>)"

lemma holds_new: "holds [] newChunker"
  by (simp add: holds_def newChunker_def)

lemma holds_add: "holds ms c \<Longrightarrow> holds (ms @ [m]) (add_message m c)"
  by (simp add: holds_def add_message_def beginMessage_def endMessage_def frame_def Let_def)

lemma holds_foldl: "holds ms c \<Longrightarrow> holds (ms @ ms') (foldl (\<lambda>c m. add_message m c) c ms')"
  by (induction ms' arbitrary: ms c) (simp, metis append.assoc append_Cons append_Nil foldl_Cons holds_add)

section \<open>Sending\<close>

text \<open>
  \<open>D\<close> is what the wire and the part of the buffer that is ready to be written make together, \<open>R\<close> the part of
  the buffer that is not encoded yet.
\<close>

definition ready :: "sendst \<Rightarrow> bytes \<Rightarrow> bytes \<Rightarrow> bool" where
  "ready s D R \<longleftrightarrow>
     (\<exists>A P. s_buf s = A @ P @ R \<and> s_start s = length A \<and> s_end s = length A + length P \<and> out (s_wire s) @ P = D)"

definition no_silent :: "(nat \<Rightarrow> wstep) \<Rightarrow> bool" where
  "no_silent ws \<longleftrightarrow> (\<forall>n. \<not> silent (w_ctx (ws n)))"

lemma put16_at:
  "put16 (A @ x # y # R) (length A) v = Some (A @ be_bytes 2 v @ R)"
  by (simp add: put16_def overwrite_def)

lemma be_bytes_2: "be_bytes 2 v = [word_of_nat (v div 256), word_of_nat v]"
  by (simp add: numeral_2_eq_2)

lemma be_bytes_ffff [simp]: "be_bytes 2 0xffff = [0xff, 0xff]"
  unfolding be_bytes_2 by simp

lemma wire_write_cases:
  assumes "no_silent ws" "wire_write ws bs w = (e, w')"
  shows "(e = None \<and> out w' = out w @ bs) \<or> (e \<noteq> None \<and> prefix (out w') (out w @ bs))"
proof -
  obtain o' where r: "racing_Write (ws (writes w)) bs = (e, o')" and w': "out w' = out w @ o'"
    using assms(2) by (auto simp: wire_write_def split: prod.splits)
  show ?thesis
    using racing_Write_complete [of "ws (writes w)" bs o'] racing_Write_prefix [OF r] r w' assms(1)
    by (cases e) (auto simp: no_silent_def)
qed

lemma chunked_big: "length m > 0xffff \<Longrightarrow> chunked m = [0xff, 0xff] @ take 0xffff m @ chunked (drop 0xffff m)"
  by (subst chunked.simps) simp

lemma chunked_small: "length m \<le> 0xffff \<Longrightarrow> chunked m = be_bytes 2 (length m) @ m @ [0, 0]"
  by (subst chunked.simps) simp

text \<open>The buffer after a full chunk was written: its last two bytes become the next size field.\<close>

lemma length_2_cases: "length xs = 2 \<Longrightarrow> (\<And>x y. xs = [x, y] \<Longrightarrow> thesis) \<Longrightarrow> thesis"
  by (cases xs; cases "tl xs") auto

lemma split_full_chunk:
  assumes "length rem > 0xffff"
  obtains x y where "rem = take 65533 rem @ [x, y] @ drop 0xffff rem"
    and "take 0xffff rem = take 65533 rem @ [x, y]"
proof -
  have "length (take 2 (drop 65533 rem)) = 2" using assms by simp
  then obtain x y where xy: "take 2 (drop 65533 rem) = [x, y]"
    by (rule length_2_cases)
  have 1: "take 0xffff rem = take 65533 rem @ [x, y]"
    using take_add [of 65533 2 rem] xy by simp
  then have "rem = take 65533 rem @ [x, y] @ drop 0xffff rem"
    by (metis append.assoc append_take_drop_id)
  with 1 show thesis using that by blast
qed

lemma send_big_ok:
  assumes "no_silent ws" "ready s D ([x, y] @ rem @ R)" "length rem = sz" "2 \<le> length R"
  shows "\<exists>err sz' s'. send_big ws sz s = Some (err, sz', s') \<and>
    (case err of
       Some e \<Rightarrow> prefix (out (s_wire s')) (D @ chunked rem)
     | None \<Rightarrow> (\<exists>D' rem' x' y'. length rem' = sz' \<and> sz' \<le> 0xffff \<and> ready s' D' ([x', y'] @ rem' @ R) \<and>
         D @ chunked rem = D' @ chunked rem'))"
  using assms(2,3)
proof (induction sz arbitrary: s D x y rem rule: less_induct)
  case (less sz)
  show ?case
  proof (cases "sz > 0xffff")
    case False
    with less.prems show ?thesis
      by (subst send_big.simps) auto
  next
    case True
    obtain A P where b: "s_buf s = A @ P @ x # y # rem @ R" "s_start s = length A"
      "s_end s = length A + length P" "out (s_wire s) @ P = D"
      using less.prems(1) by (auto simp: ready_def)
    let ?buf1 = "A @ P @ [0xff, 0xff] @ rem @ R"
    let ?bs = "P @ [0xff, 0xff] @ take 0xffff rem"
    have p: "put16 (s_buf s) (s_end s) 0xffff = Some ?buf1"
      using put16_at [of "A @ P" x y "rem @ R" "0xffff"] b by simp
    have sl: "slice ?buf1 (s_start s) (s_end s + 2 + 0xffff) = Some ?bs"
      using True less.prems(2) b by (simp add: slice_def)
    obtain e w where w: "wire_write ws ?bs (s_wire s) = (e, w)" by fastforce
    have D1: "out (s_wire s) @ ?bs = D @ [0xff, 0xff] @ take 0xffff rem" using b by simp
    have enc: "D @ chunked rem = (out (s_wire s) @ ?bs) @ chunked (drop 0xffff rem)"
      using True less.prems(2) D1 by (simp add: chunked_big)
    note wc = wire_write_cases [OF assms(1) w]
    show ?thesis
    proof (cases e)
      case (Some e')
      with wc have "prefix (out w) (out (s_wire s) @ ?bs)" by simp
      then have "prefix (out w) (D @ chunked rem)" unfolding enc by (rule prefix_prefix)
      with Some True p sl w show ?thesis
        by (subst send_big.simps) simp
    next
      case None
      obtain x' y' where r: "rem = take 65533 rem @ [x', y'] @ drop 0xffff rem"
        "take 0xffff rem = take 65533 rem @ [x', y']"
        using split_full_chunk [of rem] True less.prems(2) by blast
      let ?s1 = "\<lparr>s_buf = ?buf1, s_start = s_end s + 0xffff, s_end = s_end s + 0xffff, s_wire = w\<rparr>"
      have rs: "ready ?s1 (out (s_wire s) @ ?bs) ([x', y'] @ drop 0xffff rem @ R)"
        unfolding ready_def
        apply (rule exI [of _ "A @ P @ [0xff, 0xff] @ take 65533 rem"], rule exI [of _ "[]"])
        using True less.prems(2) b wc None r(1) by simp
      have lt: "sz - 0xffff < sz" and len: "length (drop 0xffff rem) = sz - 0xffff"
        using True less.prems(2) by simp_all
      note IH = less.IH [OF lt rs len, folded enc]
      have "send_big ws sz s = send_big ws (sz - 0xffff) ?s1"
        using None True p sl w by (subst send_big.simps) (simp add: add.commute)
      with IH show ?thesis by (simp only:)
    qed
  qed
qed

lemma send_one_ok:
  assumes "no_silent ws" "ready s D (frame m @ R)"
  shows "\<exists>err s'. send_one ws (length m) s = Some (err, s') \<and>
    (case err of
       Some e \<Rightarrow> prefix (out (s_wire s')) (D @ chunked m)
     | None \<Rightarrow> ready s' (D @ chunked m) R)"
proof -
  have fin: "\<exists>s2. (do {buf1 \<leftarrow> put16 (s_buf s1) (s_end s1) sz1;
        Some (None, s1\<lparr>s_buf := buf1, s_end := s_end s1 + 2 + sz1 + 2\<rparr>)}) = Some (None :: goerr option, s2) \<and>
      ready s2 (D' @ chunked rem) R"
    if "ready s1 D' ([x, y] @ rem @ [0, 0] @ R)" "length rem = sz1" "sz1 \<le> 0xffff" for s1 D' x y rem sz1
  proof -
    note rs = that(1)
    obtain A P where b0: "s_buf s1 = A @ P @ [x, y] @ rem @ [0, 0] @ R" "s_start s1 = length A"
      "s_end s1 = length A + length P" "out (s_wire s1) @ P = D'"
      using rs unfolding ready_def by blast
    then have b: "s_buf s1 = (A @ P) @ x # y # rem @ [0, 0] @ R" "s_start s1 = length A"
      "s_end s1 = length (A @ P)" "out (s_wire s1) @ P = D'"
      by simp_all
    let ?s2 = "s1\<lparr>s_buf := (A @ P) @ be_bytes 2 sz1 @ rem @ [0, 0] @ R, s_end := s_end s1 + 2 + sz1 + 2\<rparr>"
    have "ready ?s2 (D' @ chunked rem) R"
      unfolding ready_def
      apply (rule exI [of _ A], rule exI [of _ "P @ be_bytes 2 sz1 @ rem @ [0, 0]"])
      using b that(2,3) by (auto simp: chunked_small)
    moreover have "put16 (s_buf s1) (s_end s1) sz1 = Some ((A @ P) @ be_bytes 2 sz1 @ rem @ [0, 0] @ R)"
      unfolding b(1,3) by (rule put16_at)
    ultimately show ?thesis by auto
  qed
  have R: "ready s D ([0, 0] @ m @ [0, 0] @ R)" using assms(2) by (simp add: frame_def)
  show ?thesis
  proof (cases "length m \<le> 0xffff")
    case True
    from fin [OF R refl this] True show ?thesis
      by (auto simp: send_one_def)
  next
    case False
    from send_big_ok [OF assms(1) R refl] obtain err sz' s' where
      sb: "send_big ws (length m) s = Some (err, sz', s')"
      "case err of Some e \<Rightarrow> prefix (out (s_wire s')) (D @ chunked m)
       | None \<Rightarrow> (\<exists>D' rem' x' y'. length rem' = sz' \<and> sz' \<le> 0xffff \<and>
           ready s' D' ([x', y'] @ rem' @ [0, 0] @ R) \<and> D @ chunked m = D' @ chunked rem')"
      by auto
    show ?thesis
    proof (cases err)
      case (Some e)
      with sb False show ?thesis by (simp add: send_one_def)
    next
      case None
      with sb(2) obtain D' rem' x' y' where r: "length rem' = sz'" "sz' \<le> 0xffff"
        "ready s' D' ([x', y'] @ rem' @ [0, 0] @ R)" "D @ chunked m = D' @ chunked rem'"
        by auto
      from fin [OF r(3,1,2)] sb(1) None False r(4) show ?thesis by (auto simp: send_one_def)
    qed
  qed
qed

lemma send_sizes_ok:
  assumes "no_silent ws" "ready s D (concat (map frame ms))"
  shows "\<exists>err s'. send_sizes ws (map length ms) s = Some (err, s') \<and>
    (case err of
       Some e \<Rightarrow> prefix (out (s_wire s')) (D @ concat (map chunked ms))
     | None \<Rightarrow> ready s' (D @ concat (map chunked ms)) [])"
  using assms(2)
proof (induction ms arbitrary: s D)
  case Nil
  then show ?case by simp
next
  case (Cons m ms)
  then obtain err s1 where s1: "send_one ws (length m) s = Some (err, s1)"
    "case err of Some e \<Rightarrow> prefix (out (s_wire s1)) (D @ chunked m)
     | None \<Rightarrow> ready s1 (D @ chunked m) (concat (map frame ms))"
    using send_one_ok [OF assms(1), of s D m "concat (map frame ms)"] by auto
  show ?case
  proof (cases err)
    case (Some e)
    with s1 have "prefix (out (s_wire s1)) ((D @ chunked m) @ concat (map chunked ms))"
      by (rule_tac prefix_prefix) simp
    with Some s1 show ?thesis by simp
  next
    case None
    with s1 have "ready s1 (D @ chunked m) (concat (map frame ms))" by simp
    have eq: "D @ concat (map chunked (m # ms)) = (D @ chunked m) @ concat (map chunked ms)" by simp
    from Cons.IH [OF \<open>ready s1 (D @ chunked m) (concat (map frame ms))\<close>] None s1(1) show ?thesis
      unfolding eq by simp
  qed
qed

lemma send_ok:
  assumes "no_silent ws" "holds ms c"
  shows "\<exists>err c' o'. send ws c = Some (err, c', o') \<and>
    (case err of
       Some e \<Rightarrow> prefix o' (concat (map chunked ms))
     | None \<Rightarrow> o' = concat (map chunked ms) \<and> holds [] c')"
proof -
  let ?s = "\<lparr>s_buf = c_buf c, s_start = 0, s_end = 0, s_wire = \<lparr>out = [], writes = 0\<rparr>\<rparr>"
  have "ready ?s [] (concat (map frame ms))"
    using assms(2) by (auto simp: ready_def holds_def)
  from send_sizes_ok [OF assms(1) this, unfolded append_Nil] obtain err s1 where
    s1: "send_sizes ws (c_sizes c) ?s = Some (err, s1)"
    "case err of Some e \<Rightarrow> prefix (out (s_wire s1)) (concat (map chunked ms))
     | None \<Rightarrow> ready s1 (concat (map chunked ms)) []"
    using assms(2) unfolding holds_def by metis
  show ?thesis
  proof (cases err)
    case (Some e)
    with s1 show ?thesis by (simp add: send_def)
  next
    case None
    with s1 obtain A P where b: "s_buf s1 = A @ P" "s_start s1 = length A" "s_end s1 = length A + length P"
      "out (s_wire s1) @ P = concat (map chunked ms)"
      by (auto simp: ready_def)
    have sl: "slice (s_buf s1) (s_start s1) (s_end s1) = Some P"
      using b by (simp add: slice_def)
    obtain e w where w: "wire_write ws P (s_wire s1) = (e, w)" by fastforce
    have r: "holds [] (reset_chunker (c\<lparr>c_buf := s_buf s1\<rparr>))"
      by (simp add: reset_chunker_def holds_def)
    show ?thesis
      using None s1(1) sl w r b wire_write_cases [OF assms(1) w]
      by (cases e; cases "P = []") (simp_all add: send_def)
  qed
qed

lemma wire_write_ok: "fst (wire_write (\<lambda>_. ok_write) bs w) = None"
  by (simp add: wire_write_def racing_Write_ok)

lemma send_big_all_written: "send_big (\<lambda>_. ok_write) sz s = Some (err, sz', s') \<Longrightarrow> err = None"
proof (induction sz arbitrary: s rule: less_induct)
  case (less sz)
  from less.prems show ?case
    by (subst (asm) send_big.simps)
      (auto split: if_splits prod.splits option.splits Option.bind_splits dest!: less.IH [rotated]
        dest: arg_cong [of _ _ fst] simp: wire_write_def racing_Write_ok Let_def)
qed

lemma send_sizes_all_written: "send_sizes (\<lambda>_. ok_write) szs s = Some (err, s') \<Longrightarrow> err = None"
  by (induction szs arbitrary: s)
    (auto simp: send_one_def split: if_splits option.splits Option.bind_splits dest: send_big_all_written)

lemma send_all_written: "send (\<lambda>_. ok_write) c = Some (err, c', w) \<Longrightarrow> err = None"
  by (auto simp: send_def Let_def wire_write_def racing_Write_ok
      split: if_splits option.splits Option.bind_splits dest: send_sizes_all_written)

lemma chunked_not_Nil: "chunked m \<noteq> []"
  by (subst chunked.simps) simp

section \<open>Receiving\<close>

definition all_run :: "ctx list \<Rightarrow> bool" where
  "all_run cxs \<longleftrightarrow> (\<forall>cx \<in> set cxs. race cx = Runs)"

lemma all_run_Cons [simp]: "all_run (cx # cxs) \<longleftrightarrow> race cx = Runs \<and> all_run cxs"
  by (simp add: all_run_def)

lemma racing_ReadFull_enough:
  "race cx = Runs \<Longrightarrow> inp c = bs @ rest \<Longrightarrow> n = length bs \<Longrightarrow>
   racing_ReadFull cx buf off n c = (None, overwrite buf off bs, c\<lparr>inp := rest\<rparr>)"
  by (simp add: racing_ReadFull_def ReadFull_def)

lemma read_size:
  "race cx = Runs \<Longrightarrow> inp c = [a, b] @ rest \<Longrightarrow> length szb = 2 \<Longrightarrow>
   racing_ReadFull cx szb 0 2 c = (None, [a, b], c\<lparr>inp := rest\<rparr>)"
  by (subst racing_ReadFull_enough [where bs = "[a, b]" and rest = rest]) (auto simp: overwrite_def)

lemma dechunk_end:
  assumes "all_run cxs" "cxs \<noteq> []" "inp c = [0, 0] @ rest" "length szb = 2" "off > 0"
  shows "dechunk_loop cxs szb off buf c = Some (buf, Inr (take off buf), c\<lparr>inp := rest\<rparr>)"
  using assms by (cases cxs) (simp_all add: read_size be_nat_def)

lemma length_grow: "n \<le> length (grow buf n)"
  by (simp add: grow_def)

lemma take_grow: "off \<le> length buf \<Longrightarrow> take off (grow buf n) = take off buf"
  by (simp add: grow_def)

text \<open>One chunk: the buffer grows when needed and what was received before is kept.\<close>

lemma dechunk_chunk:
  assumes "all_run cxs" "length cxs > 2" "inp c = [a, b] @ ch @ rest" "be_nat [a, b] = length ch" "ch \<noteq> []"
    "length szb = 2" "off \<le> length buf"
  shows "\<exists>buf'. dechunk_loop cxs szb off buf c =
      dechunk_loop (drop 2 cxs) [a, b] (off + length ch) buf' (c\<lparr>inp := rest\<rparr>) \<and>
    take (off + length ch) buf' = take off buf @ ch \<and> off + length ch \<le> length buf'"
proof -
  obtain c1 c2 cs where cxs: "cxs = c1 # c2 # cs"
    using assms(2) by (cases cxs; cases "tl cxs") auto
  let ?g = "grow buf (off + length ch)"
  have g: "off \<le> length ?g" "off + length ch \<le> length ?g"
    using length_grow [of "off + length ch" buf] by simp_all
  have r2: "racing_ReadFull c2 ?g off (length ch) (c\<lparr>inp := ch @ rest\<rparr>) =
      (None, overwrite ?g off ch, c\<lparr>inp := rest\<rparr>)"
    using assms(1) cxs by (subst racing_ReadFull_enough [where bs = ch and rest = rest]) auto
  have "dechunk_loop cxs szb off buf c =
      dechunk_loop (drop 2 cxs) [a, b] (off + length ch) (overwrite ?g off ch) (c\<lparr>inp := rest\<rparr>)"
    using assms cxs r2 by (simp add: read_size Let_def)
  moreover have "take (off + length ch) (overwrite ?g off ch) = take off buf @ ch"
    using g assms(7) by (simp add: take_overwrite_end take_grow)
  moreover have "off + length ch \<le> length (overwrite ?g off ch)"
    using g by (simp add: length_overwrite)
  ultimately show ?thesis by blast
qed

lemma be_nat_ffff: "be_nat [0xff, 0xff] = 0xffff"
  by (simp add: be_nat_def)

lemma be_bytes_2_size: "n \<le> 0xffff \<Longrightarrow> \<exists>a b. be_bytes 2 n = [a, b] \<and> be_nat [a, b] = n"
  using be_nat_be_bytes [of 2 n] by (simp add: be_bytes_2)

lemma dechunk_chunked:
  assumes "all_run cxs" "length (chunked m) \<le> length cxs" "inp c = chunked m @ rest" "length szb = 2"
    "off \<le> length buf" "m \<noteq> []"
  shows "\<exists>buf'. dechunk_loop cxs szb off buf c = Some (buf', Inr (take off buf @ m), c\<lparr>inp := rest\<rparr>)"
  using assms
proof (induction m arbitrary: cxs c szb off buf rule: length_induct)
  case (1 m)
  note run = \<open>all_run cxs\<close>
  have run2: "all_run (drop 2 cxs)" using run by (auto simp: all_run_def dest: in_set_dropD)
  show ?case
  proof (cases "length m > 0xffff")
    case True
    let ?ch = "take 0xffff m" and ?m = "drop 0xffff m"
    have ch: "length ?ch = 0xffff" "?ch \<noteq> []" using True by auto
    have enc: "chunked m = [0xff, 0xff] @ ?ch @ chunked ?m" by (rule chunked_big [OF True])
    have len: "length (chunked ?m) + 2 \<le> length cxs" "length cxs > 2" using "1.prems"(2) ch enc by simp_all
    obtain buf' where b: "dechunk_loop cxs szb off buf c =
        dechunk_loop (drop 2 cxs) [0xff, 0xff] (off + length ?ch) buf' (c\<lparr>inp := chunked ?m @ rest\<rparr>)"
      "take (off + length ?ch) buf' = take off buf @ ?ch" "off + length ?ch \<le> length buf'"
      using dechunk_chunk [OF run len(2), of c "0xff" "0xff" ?ch "chunked ?m @ rest" szb off buf] "1.prems" ch enc
      by (auto simp: be_nat_ffff)
    have "\<exists>buf''. dechunk_loop (drop 2 cxs) [0xff, 0xff] (off + length ?ch) buf' (c\<lparr>inp := chunked ?m @ rest\<rparr>) =
        Some (buf'', Inr (take (off + length ?ch) buf' @ ?m), (c\<lparr>inp := chunked ?m @ rest\<rparr>)\<lparr>inp := rest\<rparr>)"
      using "1.IH" [rule_format, of ?m "drop 2 cxs" "c\<lparr>inp := chunked ?m @ rest\<rparr>" "[0xff, 0xff]"
          "off + length ?ch" buf'] True run2 len b(3) ch by simp
    with b show ?thesis by simp
  next
    case False
    then have enc: "chunked m = be_bytes 2 (length m) @ m @ [0, 0]" by (simp add: chunked_small)
    obtain a b where ab: "be_bytes 2 (length m) = [a, b]" "be_nat [a, b] = length m"
      using be_bytes_2_size [of "length m"] False by auto
    have m: "m \<noteq> []" by (rule "1.prems")
    have len: "length cxs > 2" using "1.prems"(2) enc m by simp
    obtain buf' where b: "dechunk_loop cxs szb off buf c =
        dechunk_loop (drop 2 cxs) [a, b] (off + length m) buf' (c\<lparr>inp := [0, 0] @ rest\<rparr>)"
      "take (off + length m) buf' = take off buf @ m" "off + length m \<le> length buf'"
      using dechunk_chunk [OF run len, of c a b m "[0, 0] @ rest" szb off buf] "1.prems" ab enc m by auto
    have "drop 2 cxs \<noteq> []" using len by simp
    with b m show ?thesis
      using dechunk_end [OF run2, of "c\<lparr>inp := [0, 0] @ rest\<rparr>" rest "[a, b]" "off + length m" buf'] by simp
  qed
qed

lemma drop_nops:
  assumes "all_run cxs" "k < length cxs" "inp c = replicate (2 * k) 0 @ rest" "length szb = 2"
  shows "\<exists>szb'. length szb' = 2 \<and>
    dechunk_loop cxs szb 0 buf c = dechunk_loop (drop k cxs) szb' 0 buf (c\<lparr>inp := rest\<rparr>)"
  using assms
proof (induction k arbitrary: cxs c szb)
  case 0
  have "c\<lparr>inp := rest\<rparr> = c" using 0 by simp
  with 0 show ?case by (metis drop0)
next
  case (Suc k)
  obtain c1 cs where cxs: "cxs = c1 # cs" using Suc.prems(2) by (cases cxs) auto
  have "inp c = [0, 0] @ replicate (2 * k) 0 @ rest" using Suc.prems(3) by simp
  then have "dechunk_loop cxs szb 0 buf c = dechunk_loop cs [0, 0] 0 buf (c\<lparr>inp := replicate (2 * k) 0 @ rest\<rparr>)"
    using Suc.prems cxs by (simp add: read_size be_nat_def)
  with Suc.IH [of cs "c\<lparr>inp := replicate (2 * k) 0 @ rest\<rparr>" "[0, 0]"] Suc.prems cxs show ?case by simp
qed

lemma frames_lossless:
  assumes "m \<noteq> []" "all_run cxs" "length (chunked m) + k \<le> length cxs"
  shows "\<exists>c' w. send (\<lambda>_. ok_write) (foldl (\<lambda>c m. add_message m c) newChunker (m # ms)) = Some (None, c', w) \<and>
    holds [] c' \<and>
    (\<exists>buf' rest. dechunkMessage cxs buf \<lparr>inp = replicate (2 * k) 0 @ w, fail = e\<rparr> =
       Some (buf', Inr m, \<lparr>inp = rest, fail = e\<rparr>) \<and>
     send (\<lambda>_. ok_write) (foldl (\<lambda>c m. add_message m c) newChunker ms) = Some (None, c', rest))"
proof -
  have ns: "no_silent (\<lambda>_. ok_write)" by (simp add: no_silent_def ok_write_def)
  have err: "\<exists>c'. send (\<lambda>_. ok_write) (foldl (\<lambda>c m. add_message m c) newChunker xs) =
      Some (None, c', concat (map chunked xs)) \<and> holds [] c'" for xs
    using send_ok [OF ns holds_foldl [OF holds_new, of xs]] send_all_written
    by (fastforce split: option.splits)
  have hc: "holds [] c1 \<Longrightarrow> holds [] c2 \<Longrightarrow> c1 = c2" for c1 c2 :: chunker
    by (cases c1, cases c2) (simp add: holds_def)
  let ?w = "concat (map chunked (m # ms))"
  let ?c = "\<lparr>inp = replicate (2 * k) 0 @ ?w, fail = e\<rparr>"
  have kc: "k < length cxs" using assms(3) chunked_not_Nil [of m] by (cases "chunked m") auto
  obtain szb where szb: "length szb = 2"
    "dechunk_loop cxs [0, 0] 0 buf ?c = dechunk_loop (drop k cxs) szb 0 buf (?c\<lparr>inp := ?w\<rparr>)"
    using drop_nops [OF assms(2) kc, of ?c ?w "[0, 0]" buf] by auto
  have len: "length (chunked m) \<le> length (drop k cxs)" using assms(3) by simp
  have "all_run (drop k cxs)" using assms(2) by (auto simp: all_run_def dest: in_set_dropD)
  then obtain buf' where "dechunk_loop (drop k cxs) szb 0 buf (?c\<lparr>inp := ?w\<rparr>) =
      Some (buf', Inr m, \<lparr>inp = concat (map chunked ms), fail = e\<rparr>)"
    using dechunk_chunked [of "drop k cxs" m "?c\<lparr>inp := ?w\<rparr>" "concat (map chunked ms)" szb 0 buf] len assms(1) szb(1)
    by auto
  with szb(2) have d: "dechunkMessage cxs buf ?c = Some (buf', Inr m, \<lparr>inp = concat (map chunked ms), fail = e\<rparr>)"
    by (simp only: dechunkMessage_def)
  obtain c1 where c1: "send (\<lambda>_. ok_write) (foldl (\<lambda>c m. add_message m c) newChunker (m # ms)) = Some (None, c1, ?w)"
    "holds [] c1" using err [of "m # ms"] by blast
  obtain c2 where c2: "send (\<lambda>_. ok_write) (foldl (\<lambda>c m. add_message m c) newChunker ms) =
      Some (None, c2, concat (map chunked ms))" "holds [] c2" using err [of ms] by blast
  show ?thesis using c1 c2 d hc [OF c1(2) c2(2)] by blast
qed

section \<open>Properties\<close>

text \<open>
  C22: framing is lossless, for messages of any length and any number of them queued before one send. When the
  writes succeed, send empties the chunker and puts the messages on the wire; dechunkMessage then returns the
  first of them, also after any number of no-operation chunks, and leaves the wire at the start of the next.
  The contexts of the reads do not end; as many of them as there are bytes are enough.
\<close>

theorem chunk_dechunk_roundtrip:
  assumes "m \<noteq> []" "all_run cxs" "length (chunked m) + k \<le> length cxs"
  shows "\<exists>c' w. send (\<lambda>_. ok_write) (foldl (\<lambda>c m. add_message m c) newChunker (m # ms)) = Some (None, c', w) \<and>
    holds [] c' \<and>
    (\<exists>buf' rest. dechunkMessage cxs buf \<lparr>inp = replicate (2 * k) 0 @ w, fail = e\<rparr> =
       Some (buf', Inr m, \<lparr>inp = rest, fail = e\<rparr>) \<and>
     send (\<lambda>_. ok_write) (foldl (\<lambda>c m. add_message m c) newChunker ms) = Some (None, c', rest))"
  by (rule frames_lossless [OF assms])

theorem chunk_dechunk_roundtrip_witness:
  "\<exists>c' w. send (\<lambda>_. ok_write) (foldl (\<lambda>c m. add_message m c) newChunker [[1, 2, 3], [4]]) = Some (None, c', w) \<and>
    (\<exists>buf' rest. dechunkMessage (replicate 9 background) [] \<lparr>inp = replicate (2 * 1) 0 @ w, fail = ErrEOF\<rparr> =
       Some (buf', Inr [1, 2, 3], \<lparr>inp = rest, fail = ErrEOF\<rparr>))"
proof -
  have l: "length (chunked [1, 2, 3]) = 7" by (subst chunked.simps) simp
  show ?thesis
    using chunk_dechunk_roundtrip [of "[1, 2, 3]" "replicate 9 background" 1 "[[4]]" "[]" ErrEOF] l
    by (auto simp: all_run_def)
qed

text \<open>
  C33: a write that fails or loses its race never makes send panic or corrupt the wire. For every list of queued
  messages and every outcome of the writes (success, a partial write with an error, a context that has ended, a
  context that ends first while the write goes on behind the caller), the bytes on the wire are a prefix of the encoding
  of the messages; if send reports success, they are all of it and the chunker is empty again. One outcome is excluded,
  because there it is false: the write that the racing writer skips and reports as \<^verbatim>\<open>(0, nil)\<close>, when the deadline passes
  between its two looks at the context.
\<close>

theorem send_writes_prefix:
  assumes "no_silent ws"
  shows "\<exists>err c' w. send ws (foldl (\<lambda>c m. add_message m c) newChunker ms) = Some (err, c', w) \<and>
    prefix w (concat (map chunked ms)) \<and>
    (err = None \<longrightarrow> w = concat (map chunked ms) \<and> c' = newChunker)"
proof -
  have hc: "holds [] c \<Longrightarrow> c = newChunker" for c :: chunker
    by (cases c) (simp add: holds_def newChunker_def)
  from send_ok [OF assms holds_foldl [OF holds_new, of ms]] show ?thesis
    by (fastforce split: option.splits dest: hc)
qed

text \<open>The context ends first, and two bytes still go out.\<close>

definition late_write :: wstep where
  "late_write =
     \<lparr>w_ctx = \<lparr>hasDeadline = True, expired = False, c_err = None, done_first = Some ErrDeadlineExceeded\<rparr>, w_err = Some (2, ErrEOF)\<rparr>"

theorem send_writes_prefix_witness:
  "\<exists>err c' w. send (\<lambda>n. late_write) (foldl (\<lambda>c m. add_message m c) newChunker [[1, 2, 3]]) = Some (err, c', w) \<and>
    prefix w (concat (map chunked [[1, 2, 3]]))"
  using send_writes_prefix [of "\<lambda>n. late_write" "[[1, 2, 3]]"]
  by (auto simp: no_silent_def silent_iff late_write_def)

definition chunk :: "bytes \<Rightarrow> bytes" where
  "chunk ch = be_bytes 2 (length ch) @ ch"

definition wf_chunk :: "bytes \<Rightarrow> bool" where
  "wf_chunk ch \<longleftrightarrow> ch \<noteq> [] \<and> length ch \<le> 0xffff"

lemma racing_ReadFull_None:
  "racing_ReadFull cx buf off n c = (None, buf', c') \<Longrightarrow> \<not> silent cx \<Longrightarrow>
   \<exists>bs. length bs = n \<and> inp c = bs @ inp c' \<and> buf' = overwrite buf off bs"
  by (auto simp: racing_ReadFull_def ReadFull_def silent_def intro!: exI [of _ "take n (inp c)"]
      split: race_outcome.splits if_splits)

lemma be_nat_zero: "length bs = 2 \<Longrightarrow> be_nat bs = 0 \<Longrightarrow> bs = [0, 0]"
  using be_bytes_be_nat [of bs 2] by (simp add: be_bytes_2)

lemma dechunk_loop_sound:
  "dechunk_loop cxs szb off buf c = Some (buf', Inr m, c') \<Longrightarrow> \<forall>cx \<in> set cxs. \<not> silent cx \<Longrightarrow>
   length szb = 2 \<Longrightarrow> off \<le> length buf \<Longrightarrow>
   \<exists>k chs. inp c = replicate (2 * k) 0 @ concat (map chunk chs) @ [0, 0] @ inp c' \<and>
     m = take off buf @ concat chs \<and> list_all wf_chunk chs \<and> (off > 0 \<longrightarrow> k = 0) \<and> (off = 0 \<longrightarrow> chs \<noteq> [])"
proof (induction "length cxs" arbitrary: cxs szb off buf c rule: less_induct)
  case (less cxs0)
  obtain cx cxs where cxs0: "cxs0 = cx # cxs" using less.prems(1) by (cases cxs0) auto
  note IH = less.hyps [unfolded cxs0] and 2 = less.prems [unfolded cxs0]
  obtain e szb1 c1 where r1: "racing_ReadFull cx szb 0 2 c = (e, szb1, c1)" by (metis prod_cases3)
  have e: "e = None" using 2(1) r1 by (cases e) auto
  obtain bs where bs: "length bs = 2" "inp c = bs @ inp c1" "szb1 = overwrite szb 0 bs"
    using racing_ReadFull_None [of cx szb 0 2 c szb1 c1] r1 e 2(2) by auto
  then have szb1: "szb1 = bs" using 2(3) by (simp add: overwrite_def)
  show ?case
  proof (cases "be_nat bs = 0")
    case z: True
    with bs have bs0: "bs = [0, 0]" using be_nat_zero by blast
    show ?thesis
    proof (cases "off > 0")
      case True
      with 2(1) r1 e szb1 z bs(2) bs0 show ?thesis
        by (intro exI [of _ 0] exI [of _ "[]"]) auto
    next
      case False
      then obtain k chs where "inp c1 = replicate (2 * k) 0 @ concat (map chunk chs) @ [0, 0] @ inp c'"
        "m = concat chs" "list_all wf_chunk chs" "chs \<noteq> []"
        using IH [of cxs bs 0 buf c1] 2(1,2) r1 e szb1 bs z by auto
      with False bs bs0 show ?thesis
        by (intro exI [of _ "Suc k"] exI [of _ chs]) auto
    qed
  next
    case nz: False
    let ?n = "be_nat bs" let ?g = "grow buf (off + ?n)"
    obtain cx2 cxs2 where cxs: "cxs = cx2 # cxs2" using 2(1) r1 e szb1 nz by (cases cxs) auto
    obtain e2 buf2 c2 where r2: "racing_ReadFull cx2 ?g off ?n c1 = (e2, buf2, c2)" by (metis prod_cases3)
    have e2: "e2 = None" using 2(1) r1 e szb1 nz cxs r2 by (cases e2) auto
    obtain ch where ch: "length ch = ?n" "inp c1 = ch @ inp c2" "buf2 = overwrite ?g off ch"
      using racing_ReadFull_None [of cx2 ?g off ?n c1 buf2 c2] r2 e2 2(2) cxs by auto
    have g: "off + ?n \<le> length ?g" by (rule length_grow)
    have b2: "off + ?n \<le> length buf2" "take (off + ?n) buf2 = take off buf @ ch"
      using g ch 2(4) by (simp_all add: length_overwrite take_overwrite_end take_grow)
    have run: "dechunk_loop cxs2 bs (off + ?n) buf2 c2 = Some (buf', Inr m, c')"
      using 2(1) r1 e szb1 nz cxs r2 e2 by (simp add: Let_def)
    obtain chs where "inp c2 = concat (map chunk chs) @ [0, 0] @ inp c'"
      "m = take (off + ?n) buf2 @ concat chs" "list_all wf_chunk chs"
      using IH [of cxs2 bs "off + ?n" buf2 c2] run 2(2) cxs nz bs(1) b2(1) by auto
    moreover have "chunk ch = bs @ ch" using be_bytes_be_nat [of bs 2] bs ch by (simp add: chunk_def)
    moreover have "wf_chunk ch" using ch nz be_nat_less [of bs] bs by (auto simp: wf_chunk_def)
    ultimately show ?thesis
      using bs ch b2 by (intro exI [of _ 0] exI [of _ "ch # chs"]) auto
  qed
qed

text \<open>
  dechunkMessage never invents or loses data. When it returns a message, the bytes it consumed are no-operation
  chunks, then chunks of 1 to 65535 bytes whose contents concatenated are exactly that message, then the end
  marker; nothing behind the marker was consumed. A stream that ends or fails earlier cannot give a message.
\<close>

lemma dechunk_sound:
  assumes "dechunkMessage cxs buf c = Some (buf', Inr m, c')" "\<forall>cx \<in> set cxs. \<not> silent cx"
  shows "\<exists>k chs. inp c = replicate (2 * k) 0 @ concat (map chunk chs) @ [0, 0] @ inp c' \<and>
    m = concat chs \<and> list_all wf_chunk chs \<and> chs \<noteq> []"
  using dechunk_loop_sound [OF assms(1) [unfolded dechunkMessage_def] assms(2)] by auto

theorem dechunk_sound_witness:
  "\<exists>k chs. [0, 0, 0, 1, 7, 0, 1, 8, 0, 0, 9] = replicate (2 * k) 0 @ concat (map chunk chs) @ [0, 0] @ [9] \<and>
    [7, 8] = concat chs \<and> list_all wf_chunk chs \<and> chs \<noteq> []"
proof -
  let ?c = "\<lparr>inp = [0, 0, 0, 1, 7, 0, 1, 8, 0, 0, 9], fail = ErrEOF\<rparr>"
  have "dechunkMessage (replicate 6 background) [5, 5, 5] ?c = Some ([7, 8, 5], Inr [7, 8], \<lparr>inp = [9], fail = ErrEOF\<rparr>)"
    by code_simp
  from dechunk_sound [OF this] show ?thesis by (simp add: silent_iff background_def)
qed

end
