(* ===== verification/Retry.thy ===== *)
theory Retry
  imports Errors
begin

text \<open>
  The retry loop of the transaction functions: src/neo4j/internal/retry/state.go and throttler.go, and the
  loop of runRetriable and executeTransactionFunction of src/neo4j/session.go. What one round of the loop
  meets outside the retry logic (the context, the clock, the sleep, the outcome of every call to the
  connection and of the user's work) is a record of that round.
\<close>

section \<open>The retry state\<close>

record rstate =
  Errs :: "goerr list"
  MaxTransactionRetryTime :: int
  Throttle :: int
  MaxDeadConnections :: int
  start :: "int option"         \<comment> \<open>None is the zero time\<close>
  deadErrors :: int
  skipSleep :: bool

text \<open>What Continue reads: ctx.Err() once ctx is done, the clock, the result of Sleep, the two jitter terms.\<close>

record cenv =
  ctx_err :: "goerr option"
  now :: int
  sleep_err :: "goerr option"
  jitter :: int
  spread :: int

definition Throttler_next :: "int \<Rightarrow> int \<Rightarrow> int \<Rightarrow> int" where
  "Throttler_next delay jit spr = 2 * delay - jit + spr"

text \<open>\<open>conn\<close> is \<^const>\<open>None\<close> for a nil connection, else whether it is alive.\<close>

definition OnFailure :: "goerr \<Rightarrow> bool option \<Rightarrow> bool \<Rightarrow> rstate \<Rightarrow> rstate" where
  "OnFailure err conn isCommitting s =
     (if conn = Some False then
        s\<lparr>Errs := Errs s @ [if isCommitting then CommitFailedDeadError err else err],
          deadErrors := deadErrors s + 1, skipSleep := True\<rparr>
      else s\<lparr>Errs := Errs s @ [err], skipSleep := False\<rparr>)"

definition limit_reached :: "limit_cause \<Rightarrow> rstate \<Rightarrow> rstate" where
  "limit_reached c s = s\<lparr>Errs := [TransactionExecutionLimit c (Errs s)]\<rparr>"

definition Continue :: "cenv \<Rightarrow> rstate \<Rightarrow> bool \<times> rstate" where
  "Continue v s0 =
     (let s = (if start s0 = None then s0\<lparr>start := Some (now v)\<rparr> else s0) in
      case ctx_err v of Some e \<Rightarrow> (False, s\<lparr>Errs := Errs s @ [e]\<rparr>)
      | None \<Rightarrow>
        if Errs s = [] then (True, s)
        else
          let lastErr = last (Errs s);
              s1 = s\<lparr>Errs := butlast (Errs s) @ [after_IsRetryable lastErr]\<rparr>
          in if \<not> IsRetryable (WrapError (Some lastErr)) then (False, s1)
             else if now v - the (start s1) > MaxTransactionRetryTime s1 then (False, limit_reached LimitTimeout s1)
             else if deadErrors s1 > MaxDeadConnections s1
               then (False, limit_reached (LimitDeadConnections (MaxDeadConnections s1)) s1)
             else if skipSleep s1 then (True, s1)
             else let s2 = s1\<lparr>Throttle := Throttler_next (Throttle s1) (jitter v) (spread v)\<rparr> in
               case sleep_err v of Some _ \<Rightarrow> (False, limit_reached LimitSleep s2) | None \<Rightarrow> (True, s2))"

text \<open>The outer \<^const>\<open>None\<close> is the index-out-of-range panic on an empty slice of errors.\<close>

definition ProduceError :: "rstate \<Rightarrow> goerr option option" where
  "ProduceError s =
     (if Errs s = [] then None
      else Some (case last (Errs s) of
          TransactionExecutionLimit c es \<Rightarrow> Some (TransactionExecutionLimit c es)
        | e \<Rightarrow> WrapError (Some e)))"

section \<open>The loop\<close>

text \<open>
  One attempt: the error, if any, of getConnection, getBookmarks, TxBegin, the user's work and TxCommit, and
  whether the connection is alive when the failure is recorded.
\<close>

record attempt =
  a_conn :: "goerr option"
  a_bookmarks :: "goerr option"
  a_begin :: "goerr option"
  a_work :: "goerr option"
  a_commit :: "goerr option"
  a_alive :: bool

text \<open>The calls of an attempt, in order, that reach the server or the user.\<close>

datatype call = CGetConnection | CBookmarks | CBegin | CWork | CCommit | CReturn

definition executeTransactionFunction :: "attempt \<Rightarrow> rstate \<Rightarrow> bool \<times> rstate \<times> call list" where
  "executeTransactionFunction a s =
     (case a_conn a of Some e \<Rightarrow> (False, OnFailure e None False s, [CGetConnection])
      | None \<Rightarrow> let c = Some (a_alive a) in
     case a_bookmarks a of Some e \<Rightarrow> (False, OnFailure e c False s, [CGetConnection, CBookmarks, CReturn])
      | None \<Rightarrow>
     case a_begin a of Some e \<Rightarrow> (False, OnFailure e c False s, [CGetConnection, CBookmarks, CBegin, CReturn])
      | None \<Rightarrow>
     case a_work a of
       Some e \<Rightarrow> (False, OnFailure e c False s, [CGetConnection, CBookmarks, CBegin, CWork, CReturn])
      | None \<Rightarrow>
     case a_commit a of
       Some e \<Rightarrow> (False, OnFailure e c True s, [CGetConnection, CBookmarks, CBegin, CWork, CCommit, CReturn])
      | None \<Rightarrow> (True, s, [CGetConnection, CBookmarks, CBegin, CWork, CCommit, CReturn]))"

datatype run_result = Completed | GaveUp "goerr option option" | Interrupted

text \<open>
  The loop on a script of rounds: the result, and the attempts that were made. \<^const>\<open>Interrupted\<close> is a script
  shorter than the run.
\<close>

fun runRetriable :: "(cenv \<times> attempt) list \<Rightarrow> rstate \<Rightarrow> run_result \<times> (cenv \<times> attempt) list" where
  "runRetriable [] s = (Interrupted, [])"
| "runRetriable ((v, a) # rs) s =
     (case Continue v s of
        (False, s1) \<Rightarrow> (GaveUp (ProduceError s1), [])
      | (True, s1) \<Rightarrow>
          (case executeTransactionFunction a s1 of
             (True, _, _) \<Rightarrow> (Completed, [(v, a)])
           | (False, s2, _) \<Rightarrow> (case runRetriable rs s2 of (r, as) \<Rightarrow> (r, (v, a) # as))))"

definition new_state :: "int \<Rightarrow> int \<Rightarrow> int \<Rightarrow> rstate" where
  "new_state maxTime throttle maxDead =
     \<lparr>Errs = [], MaxTransactionRetryTime = maxTime, Throttle = throttle, MaxDeadConnections = maxDead,
      start = None, deadErrors = 0, skipSleep = False\<rparr>"

section \<open>Lemmas\<close>

lemma Continue_False_Errs: "Continue v s = (False, s') \<Longrightarrow> Errs s' \<noteq> []"
  by (auto simp: Continue_def Let_def limit_reached_def split: option.splits if_splits)

lemma WrapError_Some: "\<exists>e'. WrapError (Some e) = Some e'"
  by simp

lemma ProduceError_nonnil: "Errs s \<noteq> [] \<Longrightarrow> \<exists>e. ProduceError s = Some (Some e)"
  by (auto simp: ProduceError_def split: goerr.split)

lemma Continue_config [simp]:
  "MaxDeadConnections (snd (Continue v s)) = MaxDeadConnections s"
  "MaxTransactionRetryTime (snd (Continue v s)) = MaxTransactionRetryTime s"
  "deadErrors (snd (Continue v s)) = deadErrors s"
  by (auto simp: Continue_def Let_def limit_reached_def split: option.splits)

lemma OnFailure_fields [simp]:
  "MaxDeadConnections (OnFailure e c b s) = MaxDeadConnections s"
  "MaxTransactionRetryTime (OnFailure e c b s) = MaxTransactionRetryTime s"
  "start (OnFailure e c b s) = start s"
  "Errs (OnFailure e c b s) \<noteq> []"
  "deadErrors (OnFailure e c b s) = deadErrors s + (if c = Some False then 1 else 0)"
  by (simp_all add: OnFailure_def)

lemma Continue_start:
  "start (snd (Continue v s)) = (if start s = None then Some (now v) else start s)"
  by (auto simp: Continue_def Let_def limit_reached_def split: option.splits)

text \<open>What a second or later attempt has passed.\<close>

lemma Continue_True:
  "Continue v s = (True, s') \<Longrightarrow> Errs s \<noteq> [] \<Longrightarrow>
   ctx_err v = None \<and> IsRetryable (WrapError (Some (last (Errs s)))) \<and> deadErrors s \<le> MaxDeadConnections s \<and>
   now v - the (start s') \<le> MaxTransactionRetryTime s \<and> (skipSleep s \<or> sleep_err v = None)"
  by (auto simp: Continue_def Let_def simp del: WrapError.simps split: option.splits if_splits)

text \<open>Whether an attempt failed on a connection that is no longer alive.\<close>

definition failed_dead :: "attempt \<Rightarrow> bool" where
  "failed_dead a \<longleftrightarrow> a_conn a = None \<and> \<not> a_alive a \<and>
     (a_bookmarks a \<noteq> None \<or> a_begin a \<noteq> None \<or> a_work a \<noteq> None \<or> a_commit a \<noteq> None)"

lemma execute_fails:
  assumes "executeTransactionFunction a s = (False, s', cs)"
  shows "Errs s' \<noteq> []" "deadErrors s' = deadErrors s + (if failed_dead a then 1 else 0)"
    "MaxDeadConnections s' = MaxDeadConnections s" "MaxTransactionRetryTime s' = MaxTransactionRetryTime s"
    "start s' = start s"
  using assms by (auto simp: executeTransactionFunction_def failed_dead_def Let_def split: option.splits)

lemma execute_commit_dead:
  assumes "executeTransactionFunction a s = (False, s', cs)" "CCommit \<in> set cs" "\<not> a_alive a"
  shows "\<exists>e. a_commit a = Some e \<and> last (Errs s') = CommitFailedDeadError e"
  using assms by (auto simp: executeTransactionFunction_def OnFailure_def Let_def split: option.splits)

lemma commit_dead_stops: "Errs s \<noteq> [] \<Longrightarrow> last (Errs s) = CommitFailedDeadError e \<Longrightarrow> \<not> fst (Continue v s)"
  by (simp add: Continue_def Let_def split: option.split)

section \<open>Properties\<close>

text \<open>
  C31: a commit whose outcome is unknown is never sent again. When TxCommit fails and the connection is dead,
  the next Continue ends the loop whatever the context, the clock and the limits say; as long as the context
  is not done, the caller gets a connectivity error that carries the commit failure.
\<close>

theorem lost_commit_not_retried:
  "\<not> fst (Continue v (OnFailure err (Some False) True s)) \<and>
   (ctx_err v = None \<longrightarrow>
     ProduceError (snd (Continue v (OnFailure err (Some False) True s))) =
       Some (Some (ConnectivityError (CommitFailedDeadError err))))"
  by (simp add: Continue_def OnFailure_def ProduceError_def Let_def split: option.split)

definition sample_env :: cenv where
  "sample_env = \<lparr>ctx_err = None, now = 5, sleep_err = None, jitter = 0, spread = 0\<rparr>"

theorem lost_commit_not_retried_witness:
  "ProduceError (snd (Continue sample_env (OnFailure ErrEOF (Some False) True (new_state 30 1 100)))) =
     Some (Some (ConnectivityError (CommitFailedDeadError ErrEOF)))"
  using lost_commit_not_retried [of sample_env ErrEOF "new_state 30 1 100"] by (simp add: sample_env_def)

lemma run_bounded:
  "runRetriable rs s = (r, as) \<Longrightarrow> Errs s \<noteq> [] \<longrightarrow> start s \<noteq> None \<Longrightarrow> Errs s = [] \<longrightarrow> deadErrors s = 0 \<Longrightarrow>
   0 \<le> MaxDeadConnections s \<Longrightarrow> deadErrors s \<le> MaxDeadConnections s + 1 \<Longrightarrow>
   deadErrors s + int (length (filter (\<lambda>x. failed_dead (snd x)) as)) \<le> MaxDeadConnections s + 1 \<and>
   (\<forall>(v, a) \<in> set (if Errs s = [] then tl as else as). ctx_err v = None \<and>
      now v - (if start s = None then now (fst (hd as)) else the (start s)) \<le> MaxTransactionRetryTime s) \<and>
   (\<forall>p. r = GaveUp p \<longrightarrow> (\<exists>e. p = Some (Some e)))"
proof (induction rs arbitrary: s r as)
  case Nil
  then show ?case by auto
next
  case (Cons va rs)
  obtain v a where va: "va = (v, a)" by fastforce
  note 2 = Cons.prems [unfolded va]
  obtain b s1 where c: "Continue v s = (b, s1)" by fastforce
  have cfg: "MaxDeadConnections s1 = MaxDeadConnections s" "deadErrors s1 = deadErrors s"
    "MaxTransactionRetryTime s1 = MaxTransactionRetryTime s"
    "start s1 = (if start s = None then Some (now v) else start s)"
    using Continue_config [of v s] Continue_start [of v s] c by simp_all
  show ?case
  proof (cases b)
    case False
    with 2 c show ?thesis
      using Continue_False_Errs [of v s s1] ProduceError_nonnil [of s1] by auto
  next
    case b: True
    obtain d s2 cs where x: "executeTransactionFunction a s1 = (d, s2, cs)" by (cases "executeTransactionFunction a s1")
    have pass: "Errs s \<noteq> [] \<Longrightarrow> ctx_err v = None \<and> deadErrors s \<le> MaxDeadConnections s \<and>
        now v - the (start s) \<le> MaxTransactionRetryTime s"
      using Continue_True [of v s s1] c b 2 cfg by auto
    show ?thesis
    proof (cases d)
      case True
      have "\<not> failed_dead a"
        using x True by (auto simp: executeTransactionFunction_def failed_dead_def Let_def split: option.splits)
      with 2 c b x True pass show ?thesis by auto
    next
      case d: False
      obtain r' as' where rec: "runRetriable rs s2 = (r', as')" by fastforce
      have as: "as = (v, a) # as'" "r = r'" using 2 c b x d rec by auto
      have xF: "executeTransactionFunction a s1 = (False, s2, cs)" using x d by simp
      note f = execute_fails [OF xF]
      have le: "deadErrors s2 \<le> MaxDeadConnections s + 1"
        using f cfg pass 2 by (cases "Errs s = []") auto
      have st: "start s2 = Some (if start s = None then now v else the (start s))"
        using f cfg by auto
      have IH: "deadErrors s2 + int (length (filter (\<lambda>x. failed_dead (snd x)) as')) \<le> MaxDeadConnections s2 + 1 \<and>
          (\<forall>(v, a) \<in> set as'. ctx_err v = None \<and> now v - the (start s2) \<le> MaxTransactionRetryTime s2) \<and>
          (\<forall>p. r' = GaveUp p \<longrightarrow> (\<exists>e. p = Some (Some e)))"
      proof -
        have "Errs s2 \<noteq> [] \<longrightarrow> start s2 \<noteq> None" "Errs s2 = [] \<longrightarrow> deadErrors s2 = 0"
          "0 \<le> MaxDeadConnections s2" "deadErrors s2 \<le> MaxDeadConnections s2 + 1"
          using f cfg le st 2(4) by simp_all
        from Cons.IH [OF rec this] show ?thesis
          using f(1) st by (simp add: split_def)
      qed
      show ?thesis
        using IH pass f cfg st as va 2(2) by (cases "Errs s = []") (auto split: if_splits)
    qed
  qed
qed

text \<open>
  C32: a transaction function stops retrying. In every run of the loop at most MaxDeadConnections + 1 attempts
  fail on a dead connection; every attempt after the first starts with a live context and within the maximum
  retry time counted from the first; and when the loop gives up, it returns an error: ProduceError neither
  panics on an empty slice of errors nor returns nil.
\<close>

theorem retry_run_bounded:
  assumes "0 \<le> maxDead" and "runRetriable rs (new_state maxTime throttle maxDead) = (r, as)"
  shows "int (length (filter (\<lambda>x. failed_dead (snd x)) as)) \<le> maxDead + 1
    \<and> (\<forall>(v, a) \<in> set (tl as). ctx_err v = None \<and> now v - now (fst (hd as)) \<le> maxTime)
    \<and> (\<forall>p. r = GaveUp p \<longrightarrow> (\<exists>e. p = Some (Some e)))"
  using run_bounded [OF assms(2)] assms(1) by (simp add: new_state_def)

definition sample_round :: "int \<Rightarrow> cenv \<times> attempt" where
  "sample_round t = (sample_env\<lparr>now := t\<rparr>,
     \<lparr>a_conn = None, a_bookmarks = None, a_begin = Some ErrEOF, a_work = None, a_commit = None, a_alive = False\<rparr>)"

theorem retry_run_bounded_witness:
  "int (length (filter (\<lambda>x. failed_dead (snd x))
     (snd (runRetriable (map sample_round [0, 1, 2, 3]) (new_state 30 1 1))))) \<le> 1 + 1"
  using retry_run_bounded [of 1 "map sample_round [0, 1, 2, 3]" 30 1, OF _ surjective_pairing] by simp

end
