(* ===== verification/Server.thy ===== *)
theory Server
  imports Errors "HOL-Library.Multiset"
begin

text \<open>
  The connections of one server: src/neo4j/internal/pool/server.go and ssr_tracker.go. The two container/list
  lists are Isabelle lists, front first; a connection is what the pool reads of it. A call of the close function
  is a value, the list of connections to close in order, so that the caller decides what closing does.
\<close>

unbundle bit_operations_syntax

section \<open>Connections and servers\<close>

text \<open>
  \<open>p_id\<close> stands for the pointer; the birth date, server name and server-side routing flag of a connection never
  change.
\<close>

record pconn =
  p_id :: nat
  p_server :: string
  p_birth :: int
  p_ssr :: bool

record server =
  idle :: "pconn list"
  busy :: "pconn list"
  reservations :: int
  failedConnectAt :: "int option"   \<comment> \<open>None is the zero time\<close>
  roundRobin :: uint32
  closing :: bool

definition NewServer :: server where
  "NewServer = \<lparr>idle = [], busy = [], reservations = 0, failedConnectAt = None, roundRobin = 0, closing = False\<rparr>"

text \<open>3 minutes in nanoseconds.\<close>

definition rememberFailedConnectDuration :: int where
  "rememberFailedConnectDuration = 180000000000"

definition getIdle :: "server \<Rightarrow> pconn option \<times> server" where
  "getIdle s = (case idle s of [] \<Rightarrow> (None, s) | c # cs \<Rightarrow> (Some c, s\<lparr>idle := cs, busy := c # busy s\<rparr>))"

text \<open>What the health check observes of the connection.\<close>

record health =
  isPeerAlive :: bool
  idleFor :: int
  aliveAfterReset :: bool
  reAuthErr :: "goerr option"
  aliveAfterReAuth :: bool
  h_ctxErr :: "goerr option"

definition healthCheck :: "health \<Rightarrow> int \<Rightarrow> uint32 \<Rightarrow> server \<Rightarrow> bool \<times> goerr option \<times> uint32 \<times> server" where
  "healthCheck h idlenessTimeout sharedRoundRobin s =
     (if \<not> isPeerAlive h then (False, None, sharedRoundRobin, s)
      else if idleFor h > idlenessTimeout \<and> \<not> aliveAfterReset h then (False, h_ctxErr h, sharedRoundRobin, s)
      else case reAuthErr h of Some e \<Rightarrow> (False, Some e, sharedRoundRobin, s)
      | None \<Rightarrow>
        if \<not> aliveAfterReAuth h then (False, h_ctxErr h, sharedRoundRobin, s)
        else (True, None, sharedRoundRobin + 1, s\<lparr>roundRobin := sharedRoundRobin + 1\<rparr>))"

definition notifyFailedConnect :: "int \<Rightarrow> server \<Rightarrow> server" where
  "notifyFailedConnect now s = s\<lparr>failedConnectAt := Some now\<rparr>"

definition notifySuccessfulConnect :: "server \<Rightarrow> server" where
  "notifySuccessfulConnect s = s\<lparr>failedConnectAt := None\<rparr>"

definition hasFailedConnect :: "int \<Rightarrow> server \<Rightarrow> bool" where
  "hasFailedConnect now s =
     (case failedConnectAt s of None \<Rightarrow> False | Some t \<Rightarrow> now - t < rememberFailedConnectDuration)"

definition newConnectionPenalty :: uint32 where
  "newConnectionPenalty = push_bit 8 1"

definition calculatePenalty :: "int \<Rightarrow> server \<Rightarrow> uint32" where
  "calculatePenalty now s =
     (let p0 = (if hasFailedConnect now s then push_bit 31 1 else 0);
          n = (word_of_nat (length (busy s)) :: uint32);
          n1 = (if n > 0xff then 0xff else n);
          p1 = p0 OR push_bit 16 n1;
          p2 = (if idle s = [] then p1 OR newConnectionPenalty else p1)
      in p2 OR (roundRobin s AND 0xff))"

definition registerBusy :: "pconn \<Rightarrow> uint32 \<Rightarrow> server \<Rightarrow> uint32 \<times> server" where
  "registerBusy c sharedRoundRobin s =
     (sharedRoundRobin + 1, s\<lparr>roundRobin := sharedRoundRobin + 1, busy := c # busy s\<rparr>)"

definition unregisterBusy :: "pconn \<Rightarrow> server \<Rightarrow> server" where
  "unregisterBusy c s = s\<lparr>busy := remove1 c (busy s)\<rparr>"

definition srv_size :: "server \<Rightarrow> int" where
  "srv_size s = int (length (busy s)) + int (length (idle s)) + reservations s"

text \<open>The connections to close, and the server.\<close>

definition returnBusy :: "pconn \<Rightarrow> server \<Rightarrow> pconn list \<times> server" where
  "returnBusy c s =
     (let s1 = unregisterBusy c s in
      if closing s1 then ([c], s1) else ([], s1\<lparr>idle := c # idle s1\<rparr>))"

fun prune :: "int \<Rightarrow> int \<Rightarrow> pconn list \<Rightarrow> pconn list \<times> pconn list" where
  "prune now maxAge [] = ([], [])"
| "prune now maxAge (c # cs) =
     (let (cl, keep) = prune now maxAge cs in
      if now - p_birth c \<ge> maxAge then (c # cl, keep) else (cl, c # keep))"

definition removeIdleOlderThan :: "int \<Rightarrow> int \<Rightarrow> server \<Rightarrow> pconn list \<times> server" where
  "removeIdleOlderThan now maxAge s =
     (let (cl, keep) = prune now maxAge (idle s) in (cl, s\<lparr>idle := keep\<rparr>))"

definition executeForAllConnections :: "(pconn \<Rightarrow> 'a) \<Rightarrow> server \<Rightarrow> 'a list" where
  "executeForAllConnections f s = map f (busy s) @ map f (idle s)"

definition startClosing :: "server \<Rightarrow> pconn list \<times> server" where
  "startClosing s = (idle s, s\<lparr>closing := True, idle := []\<rparr>)"

section \<open>The tracker of server-side routing\<close>

record ssrTracker =
  ssrEnabledCount :: "64 word"
  ssrDisabledCount :: "64 word"

definition addConnection :: "pconn \<Rightarrow> ssrTracker \<Rightarrow> ssrTracker" where
  "addConnection c t =
     (if p_ssr c then t\<lparr>ssrEnabledCount := ssrEnabledCount t + 1\<rparr>
      else t\<lparr>ssrDisabledCount := ssrDisabledCount t + 1\<rparr>)"

text \<open>Adding the complement of 0 subtracts 1.\<close>

definition removeConnection :: "pconn \<Rightarrow> ssrTracker \<Rightarrow> ssrTracker" where
  "removeConnection c t =
     (if p_ssr c then t\<lparr>ssrEnabledCount := ssrEnabledCount t + NOT 0\<rparr>
      else t\<lparr>ssrDisabledCount := ssrDisabledCount t + NOT 0\<rparr>)"

definition ssrEnabled :: "ssrTracker \<Rightarrow> bool" where
  "ssrEnabled t \<longleftrightarrow> ssrEnabledCount t > 0 \<and> ssrDisabledCount t = 0"

section \<open>Lemmas\<close>

lemma prune_set:
  "set (fst (prune now maxAge cs)) = {c \<in> set cs. now - p_birth c \<ge> maxAge}"
  "set (snd (prune now maxAge cs)) = {c \<in> set cs. now - p_birth c < maxAge}"
  by (induction now maxAge cs rule: prune.induct) (auto simp: split_def Let_def)

lemma prune_mset: "mset (fst (prune now maxAge cs)) + mset (snd (prune now maxAge cs)) = mset cs"
  by (induction now maxAge cs rule: prune.induct) (auto simp: split_def Let_def)

lemma prune_keeps_order: "snd (prune now maxAge cs) = filter (\<lambda>c. now - p_birth c < maxAge) cs"
  by (induction now maxAge cs rule: prune.induct) (auto simp: split_def Let_def)

text \<open>The four fields of the penalty do not overlap, so it is their sum.\<close>

lemma fields_disjoint:
  fixes n r :: uint32
  shows "k < 16 \<or> 24 \<le> k \<Longrightarrow> push_bit 16 (take_bit 8 n) AND push_bit k 1 = 0"
    "push_bit 16 (take_bit 8 n) AND take_bit 8 r = 0"
    "8 \<le> k \<Longrightarrow> push_bit k 1 AND take_bit 8 r = 0"
    "k \<noteq> l \<Longrightarrow> push_bit k (1 :: uint32) AND push_bit l 1 = 0"
  by (rule bit_word_eqI; auto simp: bit_simps)+

lemma take_bit_low_byte: "n \<le> (0xff :: uint32) \<Longrightarrow> take_bit 8 n = n"
  by (simp add: word_unat_eq_iff unsigned_take_bit_eq take_bit_nat_eq_self word_le_nat_alt)

lemma penalty_sum:
  assumes "n \<le> (0xff :: uint32)" "f \<in> {0, push_bit 31 1}" "e \<in> {0, push_bit 8 1}"
  shows "((f OR push_bit 16 n) OR e) OR take_bit 8 r = ((f + push_bit 16 n) + e) + take_bit 8 r"
proof -
  have hi: "push_bit 31 1 AND take_bit 8 r = 0" "push_bit 8 1 AND take_bit 8 r = 0"
    "push_bit 31 (1 :: uint32) AND push_bit 8 1 = 0"
    by (rule fields_disjoint, simp)+
  have lo: "push_bit 16 n AND push_bit 31 1 = 0" "push_bit 16 n AND push_bit 8 1 = 0"
    "push_bit 16 n AND take_bit 8 r = 0"
    using fields_disjoint(1) [of 31 n] fields_disjoint(1) [of 8 n] fields_disjoint(2) [of n r]
    unfolding take_bit_low_byte [OF assms(1)] by simp_all
  have 1: "f OR push_bit 16 n = f + push_bit 16 n"
    using assms(2) lo by (intro disjunctive_add_eq_or [symmetric]) (auto simp: and.commute)
  have 2: "(f OR push_bit 16 n) OR e = (f OR push_bit 16 n) + e"
    using assms(2,3) lo hi by (intro disjunctive_add_eq_or [symmetric]) (auto simp: bit.conj_disj_distrib2)
  have 3: "((f OR push_bit 16 n) OR e) OR take_bit 8 r = ((f OR push_bit 16 n) OR e) + take_bit 8 r"
    using assms(2,3) lo hi by (intro disjunctive_add_eq_or [symmetric]) (auto simp: bit.conj_disj_distrib2)
  show ?thesis using 3 2 1 by metis
qed

lemma unat_sum:
  assumes "n \<le> (0xff :: uint32)" "f \<in> {0, 0x80000000}" "e \<in> {0, 0x100}" "r \<le> 0xff"
  shows "unat (((f + n * 0x10000) + e) + r) = ((unat f + unat n * 0x10000) + unat e) + unat r"
proof -
  have "unat n \<le> 255" "unat r \<le> 255" "unat f \<le> 0x80000000" "unat e \<le> 0x100"
    using assms by (auto simp: word_le_nat_alt)
  then show ?thesis by (simp add: unat_word_ariths)
qed

definition busy_field :: "server \<Rightarrow> nat" where
  "busy_field s = min (length (busy s) mod 2 ^ 32) 255"

lemma unat_penalty:
  "unat (calculatePenalty now s) =
     (if hasFailedConnect now s then 2 ^ 31 else 0) + busy_field s * 2 ^ 16 +
     (if idle s = [] then 2 ^ 8 else 0) + unat (roundRobin s) mod 256"
proof -
  let ?f = "if hasFailedConnect now s then push_bit 31 1 else 0 :: uint32"
  let ?e = "if idle s = [] then push_bit 8 1 else 0 :: uint32"
  let ?n = "word_of_nat (length (busy s)) :: uint32"
  let ?n1 = "if ?n > 0xff then 0xff else ?n"
  let ?r = "take_bit 8 (roundRobin s)"
  have r: "roundRobin s AND 0xff = ?r" by (simp add: take_bit_eq_mask mask_eq_exp_minus_1)
  have n1: "?n1 \<le> 0xff" by (simp add: not_less)
  have un: "unat ?n1 = busy_field s"
    by (simp add: busy_field_def word_less_nat_alt unat_of_nat min_def)
  have ur: "unat ?r = unat (roundRobin s) mod 256"
    by (simp only: unsigned_take_bit_eq) (simp add: take_bit_nat_def)
  then have r8: "?r \<le> 0xff" by (simp add: word_le_nat_alt)
  have "calculatePenalty now s = ((?f OR push_bit 16 ?n1) OR ?e) OR ?r"
    by (simp add: calculatePenalty_def Let_def newConnectionPenalty_def r)
  also have "\<dots> = ((?f + push_bit 16 ?n1) + ?e) + ?r"
    by (rule penalty_sum) (use n1 in auto)
  also have "push_bit 16 ?n1 = ?n1 * 0x10000" by (simp add: push_bit_eq_mult)
  finally have c: "calculatePenalty now s = ((?f + ?n1 * 0x10000) + ?e) + ?r" .
  have "unat (((?f + ?n1 * 0x10000) + ?e) + ?r) = ((unat ?f + unat ?n1 * 0x10000) + unat ?e) + unat ?r"
    by (rule unat_sum) (use n1 r8 in \<open>auto simp: push_bit_eq_mult\<close>)
  also have "\<dots> = (if hasFailedConnect now s then 2 ^ 31 else 0) + busy_field s * 2 ^ 16 +
     (if idle s = [] then 2 ^ 8 else 0) + unat (roundRobin s) mod 256"
    unfolding un ur by (simp add: push_bit_eq_mult)
  finally show ?thesis unfolding c .
qed

lemma lex_step: "b < K \<Longrightarrow> b' < K \<Longrightarrow> a * K + b < a' * K + b' \<longleftrightarrow> a < a' \<or> a = a' \<and> b < b'" for a :: nat
proof (cases a a' rule: linorder_cases)
  case less
  assume "b < K"
  then have "a * K + b < (a + 1) * K" by simp
  also have "\<dots> \<le> a' * K" using less by (intro mult_right_mono) auto
  finally show ?thesis using less by simp
next
  case greater
  assume "b' < K"
  then have "a' * K + b' < (a' + 1) * K" by simp
  also have "\<dots> \<le> a * K" using greater by (intro mult_right_mono) auto
  finally show ?thesis using greater by simp
qed simp

section \<open>Properties\<close>

text \<open>
  the pool prefers servers in the documented order. The 32-bit penalty compares first whether a connect
  failed in the last three minutes, then the number of busy connections up to 255, then whether a new
  connection would be needed, and last the low byte of the round-robin counter; no field overflows into
  another.
\<close>

lemma penalty_order:
  "calculatePenalty now s < calculatePenalty now t \<longleftrightarrow>
     (let key = (\<lambda>x. (of_bool (hasFailedConnect now x) :: nat, busy_field x, of_bool (idle x = []) :: nat,
                      unat (roundRobin x) mod 256));
          (f, n, e, r) = key s; (f', n', e', r') = key t
      in f < f' \<or> f = f' \<and> (n < n' \<or> n = n' \<and> (e < e' \<or> e = e' \<and> r < r')))"
proof -
  have lex: "f * 2147483648 + n * 65536 + e * 256 + r < f' * 2147483648 + n' * 65536 + e' * 256 + r' \<longleftrightarrow>
      f < f' \<or> f = f' \<and> (n < n' \<or> n = n' \<and> (e < e' \<or> e = e' \<and> r < r'))"
    if "n \<le> 255" "n' \<le> 255" "e \<le> 1" "e' \<le> 1" "r < 256" "r' < 256" for f n e r f' n' e' r' :: nat
    using that lex_step [of r 256 r' e e'] lex_step [of "e * 256 + r" 65536 "e' * 256 + r'" n n']
      lex_step [of "n * 65536 + (e * 256 + r)" 2147483648 "n' * 65536 + (e' * 256 + r')" f f']
    by (simp add: add.assoc)
  have b: "busy_field x \<le> 255" "unat (roundRobin x) mod 256 < 256" for x
    by (simp_all add: busy_field_def)
  have u: "unat (calculatePenalty now x) = of_bool (hasFailedConnect now x) * 2147483648 + busy_field x * 65536 +
      of_bool (idle x = []) * 256 + unat (roundRobin x) mod 256" for x
    by (simp add: unat_penalty)
  show ?thesis
    unfolding word_less_nat_alt u Let_def prod.case
    by (rule lex) (use b in auto)
qed

end
