(* ===== verification/Pool.thy ===== *)
theory Pool
  imports Server
begin

text \<open>
  The connection pool: src/neo4j/internal/pool/pool.go. Every critical section of a method (what runs under one
  hold of serversMut or queueMut) is a function on the pool; the methods compose them. The effects that leave
  the pool are logs in its state: wake-ups sent to waiters, connections handed to Close, calls to the router.
  The step relation at the end interleaves the sections of any number of goroutines.
\<close>

section \<open>The pool and its sections\<close>

datatype router_call = InvalidateServer string | InvalidateWriter string string

record pool =
  servers :: "(string \<times> server) list"
  queue :: "nat list"
  closed :: bool
  tracker :: ssrTracker
  sharedRoundRobin :: uint32
  cacheEnabled :: bool
  woken :: "nat list"
  closeLog :: "pconn list"
  routerCalls :: "router_call list"

definition New :: pool where
  "New = \<lparr>servers = [], queue = [], closed = False,
     tracker = \<lparr>ssrEnabledCount = 0, ssrDisabledCount = 0\<rparr>, sharedRoundRobin = 0, cacheEnabled = False,
     woken = [], closeLog = [], routerCalls = []\<rparr>"

definition checkClosed :: "pool \<Rightarrow> goerr option" where
  "checkClosed p = (if closed p then Some PoolClosed else None)"

definition closeConnection :: "pool \<Rightarrow> pconn \<Rightarrow> pool" where
  "closeConnection p c = p\<lparr>tracker := removeConnection c (tracker p), closeLog := closeLog p @ [c]\<rparr>"

abbreviation put_server :: "string \<Rightarrow> server \<Rightarrow> pool \<Rightarrow> pool" where
  "put_server n s p \<equiv> p\<lparr>servers := map_put n s (servers p)\<rparr>"

abbreviation del_server :: "string \<Rightarrow> pool \<Rightarrow> pool" where
  "del_server n p \<equiv> p\<lparr>servers := map_del n (servers p)\<rparr>"

text \<open>An operation of a server that closes connections, run on the server with a name.\<close>

definition on_server :: "(server \<Rightarrow> pconn list \<times> server) \<Rightarrow> string \<Rightarrow> pool \<Rightarrow> pool" where
  "on_server f n p =
     (case map_of (servers p) n of
        None \<Rightarrow> p
      | Some s \<Rightarrow> (case f s of (cl, s1) \<Rightarrow> foldl closeConnection (put_server n s1 p) cl))"

definition removeIdleOlderThanOnServer :: "int \<Rightarrow> int \<Rightarrow> string \<Rightarrow> pool \<Rightarrow> pool" where
  "removeIdleOlderThanOnServer now maxAge n p = on_server (removeIdleOlderThan now maxAge) n p"

text \<open>The map entry goes away with the last connection, unless a failed connect has to be remembered.\<close>

definition drop_if_unused :: "int \<Rightarrow> string \<Rightarrow> pool \<Rightarrow> pool" where
  "drop_if_unused now n p =
     (case map_of (servers p) n of
        None \<Rightarrow> p
      | Some s \<Rightarrow> if srv_size s = 0 \<and> \<not> hasFailedConnect now s then del_server n p else p)"

definition unregLocked :: "string \<Rightarrow> pconn \<Rightarrow> int \<Rightarrow> pool \<Rightarrow> pool" where
  "unregLocked n c now p =
     closeConnection
       (case map_of (servers p) n of
          None \<Rightarrow> p
        | Some s \<Rightarrow> drop_if_unused now n (put_server n (unregisterBusy c s) p)) c"

definition updateCacheState :: "pool \<Rightarrow> pool" where
  "updateCacheState p = p\<lparr>cacheEnabled := ssrEnabled (tracker p)\<rparr>"

definition wake_front :: "pool \<Rightarrow> pool" where
  "wake_front p = (case queue p of [] \<Rightarrow> p | w # ws \<Rightarrow> p\<lparr>queue := ws, woken := woken p @ [w]\<rparr>)"

definition CleanUp :: "int \<Rightarrow> int \<Rightarrow> pool \<Rightarrow> pool" where
  "CleanUp now life p =
     foldl (\<lambda>p n. drop_if_unused now n (removeIdleOlderThanOnServer now life n p)) p (map fst (servers p))"

text \<open>
  The loop over the queue: Remove clears the links of the element, so that its Next is nil and the loop ends
  after the first waiter.
\<close>

definition Close :: "pool \<Rightarrow> pool" where
  "Close p =
     (let p1 = wake_front (p\<lparr>closed := True\<rparr>)
      in foldl (\<lambda>p n. on_server startClosing n p) p1 (map fst (servers p1)))"

definition penalty_of :: "int \<Rightarrow> string \<Rightarrow> pool \<Rightarrow> uint32" where
  "penalty_of now n p =
     (case map_of (servers p) n of None \<Rightarrow> newConnectionPenalty | Some s \<Rightarrow> calculatePenalty now s)"

fun getPenaltiesForServers :: "int \<Rightarrow> int \<Rightarrow> string list \<Rightarrow> pool \<Rightarrow> (string \<times> uint32) list \<times> pool" where
  "getPenaltiesForServers now life [] p = ([], p)"
| "getPenaltiesForServers now life (n # ns) p =
     (let p1 = removeIdleOlderThanOnServer now life n p;
          (ps, p2) = getPenaltiesForServers now life ns p1
      in ((n, penalty_of now n p1) # ps, p2))"

definition anyHasCapacity :: "int \<Rightarrow> string list \<Rightarrow> pool \<Rightarrow> bool" where
  "anyHasCapacity maxSize ns p =
     list_ex (\<lambda>n. case map_of (servers p) n of
                    None \<Rightarrow> False
                  | Some s \<Rightarrow> length (idle s) > 0 \<or> srv_size s < maxSize) ns"

subsection \<open>tryBorrow\<close>

datatype tb = TFull | TGot pconn | TConnect

text \<open>One pass of the loop under the lock: an idle connection, no capacity, or a reservation to connect.\<close>

definition tb_lock :: "int \<Rightarrow> string \<Rightarrow> pool \<Rightarrow> tb \<times> pool" where
  "tb_lock maxSize n p =
     (case map_of (servers p) n of
        None \<Rightarrow> (TConnect, put_server n (NewServer\<lparr>reservations := 1\<rparr>) p)
      | Some s0 \<Rightarrow>
          (case getIdle (s0\<lparr>closing := False\<rparr>) of
             (Some c, s1) \<Rightarrow> (TGot c, put_server n s1 p)
           | (None, s1) \<Rightarrow>
               if srv_size s1 \<ge> maxSize then (TFull, put_server n s1 p)
               else (TConnect, put_server n (s1\<lparr>reservations := reservations s1 + 1\<rparr>) p)))"

text \<open>The health check runs without the lock; only its effect on the round-robin counters is the pool's.\<close>

definition tb_check :: "health \<Rightarrow> int \<Rightarrow> string \<Rightarrow> pool \<Rightarrow> bool \<times> goerr option \<times> pool" where
  "tb_check h idlenessTimeout n p =
     (case map_of (servers p) n of
        None \<Rightarrow> (fst (healthCheck h idlenessTimeout (sharedRoundRobin p) NewServer),
                 fst (snd (healthCheck h idlenessTimeout (sharedRoundRobin p) NewServer)), p)
      | Some s \<Rightarrow>
          (case healthCheck h idlenessTimeout (sharedRoundRobin p) s of
             (ok, e, rr, s1) \<Rightarrow> (ok, e, put_server n s1 (p\<lparr>sharedRoundRobin := rr\<rparr>))))"

fun is_FeatureNotSupported :: "goerr \<Rightarrow> bool" where
  "is_FeatureNotSupported (FeatureNotSupportedError _ _ _) = True"
| "is_FeatureNotSupported _ = False"

text \<open>
  After the connect. The code holds the server by pointer; a server with a reservation has a positive size and
  stays in the map, so the entry of that name is the same object.
\<close>

definition tb_connected :: "string \<Rightarrow> goerr + pconn \<Rightarrow> int \<Rightarrow> pool \<Rightarrow> pool" where
  "tb_connected n r now p =
     (case map_of (servers p) n of
        None \<Rightarrow> p
      | Some s0 \<Rightarrow>
          let s = s0\<lparr>reservations := reservations s0 - 1\<rparr> in
          (case r of
             Inl e \<Rightarrow> put_server n (if is_FeatureNotSupported e then s else notifyFailedConnect now s) p
           | Inr c \<Rightarrow>
               (case registerBusy c (sharedRoundRobin p) s of
                  (rr, s1) \<Rightarrow>
                    put_server n (notifySuccessfulConnect s1)
                      (p\<lparr>tracker := addConnection c (tracker p), sharedRoundRobin := rr\<rparr>))))"

text \<open>
  The method without interference: \<open>hc\<close> is what the health check finds of a connection, \<open>r\<close> how the connect ends.
  The loop discards an idle connection in every further round, so it ends.
\<close>

definition num_idle :: "string \<Rightarrow> pool \<Rightarrow> nat" where
  "num_idle n p = (case map_of (servers p) n of None \<Rightarrow> 0 | Some s \<Rightarrow> length (idle s))"

lemma num_idle_lock: "tb_lock maxSize n p = (TGot c, p1) \<Longrightarrow> num_idle n p = Suc (num_idle n p1)"
  by (auto simp: tb_lock_def num_idle_def getIdle_def split: option.splits list.splits if_splits)

lemma idle_healthCheck: "healthCheck h i rr s = (ok, e, rr1, s1) \<Longrightarrow> idle s1 = idle s"
  by (auto simp: healthCheck_def split: if_splits option.splits)

lemma num_idle_check: "num_idle n (snd (snd (tb_check h i n p))) = num_idle n p"
  by (auto simp: tb_check_def num_idle_def split: option.splits prod.splits dest: idle_healthCheck)

lemma servers_closeConnection [simp]: "servers (closeConnection p c) = servers p"
  by (simp add: closeConnection_def)

lemma num_idle_unreg: "num_idle n (unregLocked n c now p) \<le> num_idle n p"
  by (auto simp: unregLocked_def drop_if_unused_def num_idle_def unregisterBusy_def split: option.splits)

function tb_loop :: "int \<Rightarrow> int \<Rightarrow> int \<Rightarrow> string \<Rightarrow> (pconn \<Rightarrow> health) \<Rightarrow> goerr + pconn \<Rightarrow> pool \<Rightarrow>
  (pconn option \<times> goerr option) \<times> pool" where
  "tb_loop maxSize idleness now n hc r p =
     (case tb_lock maxSize n p of
        (TFull, p1) \<Rightarrow> ((None, None), p1)
      | (TConnect, p1) \<Rightarrow>
          (case r of
             Inl e \<Rightarrow> ((None, Some e), tb_connected n r now p1)
           | Inr c \<Rightarrow> ((Some c, None), tb_connected n r now p1))
      | (TGot c, p1) \<Rightarrow>
          (case tb_check (hc c) idleness n p1 of
             (True, _, p2) \<Rightarrow> ((Some c, None), p2)
           | (False, Some e, p2) \<Rightarrow> ((None, Some e), unregLocked n c now p2)
           | (False, None, p2) \<Rightarrow> tb_loop maxSize idleness now n hc r (unregLocked n c now p2)))"
  by pat_completeness auto
termination
proof (relation "measure (\<lambda>(_, _, _, n, _, _, p). num_idle n p)", goal_cases)
  case (2 maxSize idleness now n hc r p t p1 c ok rest e p2)
  have "num_idle n p2 = num_idle n p1"
    using num_idle_check [of n "hc c" idleness p1] 2 by (metis snd_conv)
  then show ?case
    using num_idle_lock [of maxSize n p c p1] num_idle_unreg [of n c now p2] 2 by simp
qed simp

declare tb_loop.simps [simp del]

definition tryBorrow :: "int \<Rightarrow> int \<Rightarrow> int \<Rightarrow> string \<Rightarrow> (pconn \<Rightarrow> health) \<Rightarrow> goerr + pconn \<Rightarrow> pool \<Rightarrow>
  (pconn option \<times> goerr option) \<times> pool" where
  "tryBorrow maxSize idleness now n hc r p =
     (case checkClosed p of
        Some e \<Rightarrow> ((None, Some e), p)
      | None \<Rightarrow> tb_loop maxSize idleness now n hc r p)"

subsection \<open>Borrow\<close>

datatype borrow_result = Borrowed pconn | BorrowErr goerr | Exhausted

text \<open>The loop over the penalties; \<open>env\<close> is how a connect to a server ends.\<close>

fun borrow_try :: "int \<Rightarrow> int \<Rightarrow> int \<Rightarrow> string list \<Rightarrow> (pconn \<Rightarrow> health) \<Rightarrow> (string \<Rightarrow> goerr + pconn) \<Rightarrow>
  (string \<times> uint32) list \<Rightarrow> goerr option \<Rightarrow> pool \<Rightarrow> borrow_result \<times> pool" where
  "borrow_try maxSize idleness now names hc env [] err p =
     (case err of Some e \<Rightarrow> (BorrowErr e, p) | None \<Rightarrow> (Exhausted, p))"
| "borrow_try maxSize idleness now names hc env ((n, _) # ps) err p =
     (case tryBorrow maxSize idleness now n hc (env n) p of
        ((Some c, _), p1) \<Rightarrow> (Borrowed c, updateCacheState p1)
      | ((None, err1), p1) \<Rightarrow>
          if IsTimeoutError err1 then (BorrowErr (PoolTimeout (the err1) names), p1)
          else if IsFatalDuringDiscovery err1 then (BorrowErr (the err1), p1)
          else borrow_try maxSize idleness now names hc env ps err1 p1)"

text \<open>Joining the queue: the check and the insertion happen under the queue lock.\<close>

definition borrow_enqueue :: "int \<Rightarrow> string list \<Rightarrow> nat \<Rightarrow> pool \<Rightarrow> bool \<times> pool" where
  "borrow_enqueue maxSize names w p =
     (if anyHasCapacity maxSize names p then (False, p) else (True, p\<lparr>queue := queue p @ [w]\<rparr>))"

text \<open>
  The waiter gives up when its context is done: when it was notified meanwhile it passes the notification on and
  tries again, else it returns the time-out.
\<close>

definition borrow_giveup :: "goerr \<Rightarrow> string list \<Rightarrow> nat \<Rightarrow> pool \<Rightarrow> goerr option \<times> pool" where
  "borrow_giveup e names w p =
     (let p1 = p\<lparr>queue := filter (\<lambda>x. x \<noteq> w) (queue p)\<rparr> in
      if w \<in> set (woken p) then (None, wake_front p1) else (Some (PoolTimeout e names), p1))"

datatype borrow_outcome = Done borrow_result | Queued | Again

text \<open>One round of the loop of Borrow; \<open>names\<close> is what getServerNames returns.\<close>

definition Borrow_round :: "int \<Rightarrow> int \<Rightarrow> int \<Rightarrow> int \<Rightarrow> bool \<Rightarrow> string list \<Rightarrow>
  (pconn \<Rightarrow> health) \<Rightarrow> (string \<Rightarrow> goerr + pconn) \<Rightarrow> nat \<Rightarrow> pool \<Rightarrow> borrow_outcome \<times> pool" where
  "Borrow_round maxSize life idleness now wait names hc env w p =
     (case checkClosed p of
        Some e \<Rightarrow> (Done (BorrowErr e), p)
      | None \<Rightarrow>
        if names = [] then (Done (BorrowErr PoolOutOfServers), p)
        else
          (case getPenaltiesForServers now life names p of
             (pens, p1) \<Rightarrow>
               (case borrow_try maxSize idleness now names hc env (sort_key snd pens) None p1 of
                  (Exhausted, p2) \<Rightarrow>
                    if \<not> wait then (Done (BorrowErr (PoolFull names)), p2)
                    else (case borrow_enqueue maxSize names w p2 of
                            (True, p3) \<Rightarrow> (Queued, p3)
                          | (False, p3) \<Rightarrow> (Again, p3))
                | (res, p2) \<Rightarrow> (Done res, p2))))"

subsection \<open>Return and the error callbacks\<close>

definition ret_prune :: "pconn \<Rightarrow> bool \<Rightarrow> int \<Rightarrow> int \<Rightarrow> pool \<Rightarrow> pool" where
  "ret_prune c isAlive now life p =
     (let age = now - p_birth c;
          maxAge = (if \<not> isAlive \<and> age < life then age else life)
      in removeIdleOlderThanOnServer now maxAge (p_server c) p)"

definition ret_idle :: "pconn \<Rightarrow> pool \<Rightarrow> pool" where
  "ret_idle c p =
     (case map_of (servers p) (p_server c) of
        None \<Rightarrow> closeConnection p c
      | Some s \<Rightarrow>
          (case returnBusy c s of
             (cl, s1) \<Rightarrow>
               let p1 = foldl closeConnection (put_server (p_server c) s1 p) cl in
               if closing s1 \<and> srv_size s1 = 0 then del_server (p_server c) p1 else p1))"

definition ret_give :: "pconn \<Rightarrow> bool \<Rightarrow> int \<Rightarrow> int \<Rightarrow> pool \<Rightarrow> pool" where
  "ret_give c isAlive now life p =
     (if \<not> isAlive \<or> now - p_birth c \<ge> life then unregLocked (p_server c) c now p else ret_idle c p)"

text \<open>\<open>alive0\<close> is IsAlive before the reset, \<open>alive1\<close> after it.\<close>

definition Return :: "pconn \<Rightarrow> bool \<Rightarrow> bool \<Rightarrow> int \<Rightarrow> int \<Rightarrow> pool \<Rightarrow> pool" where
  "Return c alive0 alive1 now life p =
     wake_front (updateCacheState (ret_give c (alive0 \<and> alive1) now life (ret_prune c alive0 now life p)))"

definition deactivate :: "string \<Rightarrow> pool \<Rightarrow> pool" where
  "deactivate n p = on_server startClosing n (p\<lparr>routerCalls := routerCalls p @ [InvalidateServer n]\<rparr>)"

definition deactivateWriter :: "string \<Rightarrow> string \<Rightarrow> pool \<Rightarrow> pool" where
  "deactivateWriter n db p = p\<lparr>routerCalls := routerCalls p @ [InvalidateWriter db n]\<rparr>"

definition OnIoError :: "pconn \<Rightarrow> pool \<Rightarrow> pool" where
  "OnIoError c p = deactivate (p_server c) p"

definition OnDialError :: "string \<Rightarrow> pool \<Rightarrow> pool" where
  "OnDialError n p = deactivate n p"

text \<open>
  The result is \<^const>\<open>None\<close> for the nil dereference of an unknown server, else the error of the auth manager,
  the server error as it is left, the connections whose authentication is reset, and the pool.
  \<open>sec\<close> is the answer of the auth manager, when the connection has one.
\<close>

definition OnNeo4jError :: "pconn \<Rightarrow> string \<Rightarrow> (bool \<times> goerr option) option \<Rightarrow> neo4j_error \<Rightarrow> pool \<Rightarrow>
  (goerr option \<times> neo4j_error \<times> pconn list \<times> pool) option" where
  "OnNeo4jError c db sec e p =
     do {
       resets \<leftarrow> (if eCode e = ''Neo.ClientError.Security.AuthorizationExpired''
                  then map_option (executeForAllConnections id) (map_of (servers p) (p_server c)) else Some []);
       let p1 = (if eCode e = ''Neo.TransientError.General.DatabaseUnavailable'' then deactivate (p_server c) p else p);
       let p2 = (if IsRetriableCluster e then deactivateWriter (p_server c) db p1 else p1);
       (if HasSecurityCode e then
          (case sec of
             Some (_, Some err) \<Rightarrow> Some (Some err, e, resets, p2)
           | Some (True, None) \<Rightarrow> Some (None, MarkRetriable e, resets, p2)
           | _ \<Rightarrow> Some (None, e, resets, p2))
        else Some (None, e, resets, p2))
     }"

end
