(* ===== verification/PoolSteps.thy ===== *)
theory PoolSteps
  imports Pool
begin

text \<open>
  Any number of goroutines on one pool. A state is the pool, the connections that are out of it (borrowed, or
  under a health check), the servers that a goroutine is connecting to, and every connection ever made. A step
  is one critical section of some goroutine, in any order; what the sections find out about connections and
  clocks is arbitrary. The invariant bounds the connections of every server and accounts for every connection.
\<close>

section \<open>Steps\<close>

record sys =
  pl :: pool
  out_conns :: "pconn list"
  connecting :: "string list"
  made :: "pconn list"

inductive pstep :: "int \<Rightarrow> sys \<Rightarrow> sys \<Rightarrow> bool" for maxSize where
  lock_got: "tb_lock maxSize n (pl s) = (TGot c, p) \<Longrightarrow>
    pstep maxSize s (s\<lparr>pl := p, out_conns := c # out_conns s\<rparr>)"
| lock_full: "tb_lock maxSize n (pl s) = (TFull, p) \<Longrightarrow> pstep maxSize s (s\<lparr>pl := p\<rparr>)"
| lock_connect: "tb_lock maxSize n (pl s) = (TConnect, p) \<Longrightarrow>
    pstep maxSize s (s\<lparr>pl := p, connecting := n # connecting s\<rparr>)"
| checked: "tb_check h idleness n (pl s) = (ok, e, p) \<Longrightarrow> pstep maxSize s (s\<lparr>pl := p\<rparr>)"
| unhealthy: "c \<in> set (out_conns s) \<Longrightarrow>
    pstep maxSize s (s\<lparr>pl := unregLocked (p_server c) c now (pl s), out_conns := remove1 c (out_conns s)\<rparr>)"
| connect_failed: "n \<in> set (connecting s) \<Longrightarrow>
    pstep maxSize s (s\<lparr>pl := tb_connected n (Inl e) now (pl s), connecting := remove1 n (connecting s)\<rparr>)"
| connected: "n \<in> set (connecting s) \<Longrightarrow> c \<notin> set (made s) \<Longrightarrow> p_server c = n \<Longrightarrow>
    pstep maxSize s (s\<lparr>pl := tb_connected n (Inr c) now (pl s), connecting := remove1 n (connecting s),
      out_conns := c # out_conns s, made := c # made s\<rparr>)"
| pruned: "pstep maxSize s (s\<lparr>pl := removeIdleOlderThanOnServer now maxAge n (pl s)\<rparr>)"
| returned: "c \<in> set (out_conns s) \<Longrightarrow>
    pstep maxSize s (s\<lparr>pl := ret_give c alive now life (pl s), out_conns := remove1 c (out_conns s)\<rparr>)"
| cache_updated: "pstep maxSize s (s\<lparr>pl := updateCacheState (pl s)\<rparr>)"
| woke: "pstep maxSize s (s\<lparr>pl := wake_front (pl s)\<rparr>)"
| enqueued: "borrow_enqueue maxSize names w (pl s) = (b, p) \<Longrightarrow> pstep maxSize s (s\<lparr>pl := p\<rparr>)"
| gave_up: "borrow_giveup e names w (pl s) = (r, p) \<Longrightarrow> pstep maxSize s (s\<lparr>pl := p\<rparr>)"
| deactivated: "pstep maxSize s (s\<lparr>pl := deactivate n (pl s)\<rparr>)"
| cleaned: "pstep maxSize s (s\<lparr>pl := CleanUp now life (pl s)\<rparr>)"
| closing_down: "pstep maxSize s (s\<lparr>pl := Close (pl s)\<rparr>)"

definition init_sys :: "sys \<Rightarrow> bool" where
  "init_sys s \<longleftrightarrow> s = \<lparr>pl = New, out_conns = [], connecting = [], made = []\<rparr>"

section \<open>The invariant\<close>

text \<open>One server: its connections carry its name, the busy ones are those out of the pool, the bound holds.\<close>

definition srv_ok :: "int \<Rightarrow> pconn multiset \<Rightarrow> string multiset \<Rightarrow> string \<Rightarrow> server \<Rightarrow> bool" where
  "srv_ok maxSize O' P n s \<longleftrightarrow>
     (\<forall>c \<in> set (idle s). p_server c = n) \<and>
     mset (busy s) = filter_mset (\<lambda>c. p_server c = n) O' \<and>
     reservations s = int (count P n) \<and> srv_size s \<le> maxSize"

definition idle_conns :: "(string \<times> server) list \<Rightarrow> pconn multiset" where
  "idle_conns m = (\<Sum>(n, s) \<in># mset m. mset (idle s))"

definition ssr_count :: "(pconn \<Rightarrow> bool) \<Rightarrow> pconn multiset \<Rightarrow> pconn list \<Rightarrow> 64 word" where
  "ssr_count q M cl = of_nat (size (filter_mset q M)) - of_nat (length (filter q cl))"

definition pool_inv :: "int \<Rightarrow> sys \<Rightarrow> bool" where
  "pool_inv maxSize s \<longleftrightarrow>
     wf_map (servers (pl s)) \<and>
     (\<forall>(n, v) \<in> set (servers (pl s)). srv_ok maxSize (mset (out_conns s)) (mset (connecting s)) n v) \<and>
     (\<forall>c \<in> set (out_conns s). p_server c \<in> fst ` set (servers (pl s))) \<and>
     set (connecting s) \<subseteq> fst ` set (servers (pl s)) \<and>
     distinct (made s) \<and>
     mset (made s) = mset (closeLog (pl s)) + idle_conns (servers (pl s)) + mset (out_conns s) \<and>
     ssrEnabledCount (tracker (pl s)) = ssr_count p_ssr (mset (made s)) (closeLog (pl s)) \<and>
     ssrDisabledCount (tracker (pl s)) = ssr_count (\<lambda>c. \<not> p_ssr c) (mset (made s)) (closeLog (pl s))"

lemma map_del_absent: "k \<notin> fst ` set m \<Longrightarrow> map_del k m = m"
  by (induction k m rule: map_del.induct) auto

lemma idle_conns_simps [simp]:
  "idle_conns [] = {#}" "idle_conns ((n, s) # m) = mset (idle s) + idle_conns m"
  by (simp_all add: idle_conns_def)

lemma idle_conns_put:
  "wf_map m \<Longrightarrow> idle_conns (map_put n s m) = idle_conns (map_del n m) + mset (idle s)"
  by (induction n s m rule: map_put.induct) (auto simp: wf_map_def map_del_absent ac_simps)

lemma idle_conns_split:
  "wf_map m \<Longrightarrow> map_of m n = Some s \<Longrightarrow> idle_conns m = idle_conns (map_del n m) + mset (idle s)"
  by (induction n m rule: map_del.induct) (auto simp: wf_map_def map_del_absent ac_simps split: if_splits)

lemma ssr_count_append: "ssr_count q M (cl @ cl') = ssr_count q M cl - of_nat (length (filter q cl'))"
  by (simp add: ssr_count_def)

lemma closeConnection_simps [simp]:
  "closeLog (closeConnection p c) = closeLog p @ [c]"
  "tracker (closeConnection p c) = removeConnection c (tracker p)"
  "queue (closeConnection p c) = queue p" "woken (closeConnection p c) = woken p"
  "closed (closeConnection p c) = closed p"
  by (simp_all add: closeConnection_def)

lemma foldl_close [simp]:
  "servers (foldl closeConnection p cl) = servers p"
  "closeLog (foldl closeConnection p cl) = closeLog p @ cl"
  "queue (foldl closeConnection p cl) = queue p" "woken (foldl closeConnection p cl) = woken p"
  "closed (foldl closeConnection p cl) = closed p"
  by (induction cl arbitrary: p) simp_all

lemma removeConnection_counts:
  "ssrEnabledCount (removeConnection c t) = ssrEnabledCount t - of_nat (length (filter p_ssr [c]))"
  "ssrDisabledCount (removeConnection c t) = ssrDisabledCount t - of_nat (length (filter (\<lambda>c. \<not> p_ssr c) [c]))"
  by (simp_all add: removeConnection_def)

lemma foldl_close_tracker:
  "ssrEnabledCount (tracker (foldl closeConnection p cl)) =
     ssrEnabledCount (tracker p) - of_nat (length (filter p_ssr cl))"
  "ssrDisabledCount (tracker (foldl closeConnection p cl)) =
     ssrDisabledCount (tracker p) - of_nat (length (filter (\<lambda>c. \<not> p_ssr c) cl))"
  by (induction cl arbitrary: p) (simp_all add: removeConnection_counts)

text \<open>The tracker agrees with the connections made and closed.\<close>

definition tracked :: "pconn list \<Rightarrow> pool \<Rightarrow> bool" where
  "tracked M p \<longleftrightarrow>
     ssrEnabledCount (tracker p) = ssr_count p_ssr (mset M) (closeLog p) \<and>
     ssrDisabledCount (tracker p) = ssr_count (\<lambda>c. \<not> p_ssr c) (mset M) (closeLog p)"

lemma tracked_close: "tracked M p \<Longrightarrow> tracked M (foldl closeConnection p cl)"
  by (simp add: tracked_def foldl_close_tracker ssr_count_append)

lemma tracked_same:
  "tracked M p \<Longrightarrow> tracker p' = tracker p \<Longrightarrow> closeLog p' = closeLog p \<Longrightarrow> tracked M p'"
  by (simp add: tracked_def)

lemma tracked_add:
  "tracked M p \<Longrightarrow> tracker p' = addConnection c (tracker p) \<Longrightarrow> closeLog p' = closeLog p \<Longrightarrow> tracked (c # M) p'"
  by (simp add: tracked_def addConnection_def ssr_count_def)

lemma pool_inv_tracked: "pool_inv K s \<Longrightarrow> tracked (made s) (pl s)"
  by (simp add: pool_inv_def tracked_def)

lemma pool_inv_srv:
  "pool_inv K s \<Longrightarrow> map_of (servers (pl s)) n = Some v \<Longrightarrow> srv_ok K (mset (out_conns s)) (mset (connecting s)) n v"
  by (auto simp: pool_inv_def dest!: map_of_SomeD)

text \<open>One server is replaced, connections are closed, taken out or given back.\<close>

lemma server_update:
  assumes inv: "pool_inv K s" and v: "map_of (servers (pl s)) n = Some v"
    and srv: "srv_ok K (mset O') (mset P') n v'"
    and others: "\<And>m. m \<noteq> n \<Longrightarrow> filter_mset (\<lambda>c. p_server c = m) (mset O') =
        filter_mset (\<lambda>c. p_server c = m) (mset (out_conns s))"
      "\<And>m. m \<noteq> n \<Longrightarrow> count (mset P') m = count (mset (connecting s)) m"
    and dom: "\<And>c. c \<in> set O' \<Longrightarrow> p_server c = n \<or> c \<in> set (out_conns s)"
      "\<And>x. x \<in> set P' \<Longrightarrow> x = n \<or> x \<in> set (connecting s)"
    and M: "distinct M'" "mset M' + mset (idle v) + mset (out_conns s) =
        mset (made s) + mset cl + mset (idle v') + mset O'"
    and p': "servers p' = map_put n v' (servers (pl s))" "closeLog p' = closeLog (pl s) @ cl" "tracked M' p'"
  shows "pool_inv K \<lparr>pl = p', out_conns = O', connecting = P', made = M'\<rparr>"
proof -
  have wf: "wf_map (servers (pl s))" using inv by (simp add: pool_inv_def)
  have sv: "srv_ok K (mset O') (mset P') m x" if "(m, x) \<in> set (servers p')" for m x
  proof (cases "m = n")
    case True
    with that wf srv show ?thesis by (auto simp: p'(1) set_map_put)
  next
    case False
    with that wf have "(m, x) \<in> set (servers (pl s))" by (auto simp: p'(1) set_map_put)
    then have "srv_ok K (mset (out_conns s)) (mset (connecting s)) m x"
      using inv by (auto simp: pool_inv_def)
    with False show ?thesis by (simp add: srv_ok_def others)
  qed
  have D: "idle_conns (servers (pl s)) = idle_conns (map_del n (servers (pl s))) + mset (idle v)"
    by (rule idle_conns_split [OF wf v])
  have D': "idle_conns (servers p') = idle_conns (map_del n (servers (pl s))) + mset (idle v')"
    by (simp add: p'(1) idle_conns_put [OF wf])
  have "mset (made s) = mset (closeLog (pl s)) + idle_conns (servers (pl s)) + mset (out_conns s)"
    using inv by (simp add: pool_inv_def)
  with M(2) have "mset M' + (mset (idle v) + mset (out_conns s)) =
      (mset (closeLog p') + idle_conns (servers p') + mset O') + (mset (idle v) + mset (out_conns s))"
    unfolding D D' p'(2) by (simp add: ac_simps)
  then have "mset M' = mset (closeLog p') + idle_conns (servers p') + mset O'"
    by (rule add_right_imp_eq)
  moreover have "n \<in> fst ` set (servers (pl s))" using v by (force dest: map_of_SomeD)
  ultimately show ?thesis
    using sv inv dom M(1) p'(3) wf
    unfolding pool_inv_def tracked_def by (fastforce simp: p'(1))
qed

lemma filter_mset_mset_empty:
  "filter_mset q (mset xs) = {#} \<longleftrightarrow> (\<forall>x \<in> set xs. \<not> q x)" "{#} = filter_mset q (mset xs) \<longleftrightarrow> (\<forall>x \<in> set xs. \<not> q x)"
  by (auto simp: filter_empty_conv simp flip: mset_filter)

text \<open>A server without connections and reservations is removed.\<close>

lemma server_delete:
  assumes inv: "pool_inv K s" and v: "map_of (servers (pl s)) n = Some v" and z: "srv_size v = 0"
    and p': "servers p' = map_del n (servers (pl s))" "closeLog p' = closeLog (pl s)" "tracker p' = tracker (pl s)"
  shows "pool_inv K (s\<lparr>pl := p'\<rparr>)"
proof -
  have ok: "srv_ok K (mset (out_conns s)) (mset (connecting s)) n v" by (rule pool_inv_srv [OF inv v])
  then have "int (length (busy v)) + int (length (idle v)) + int (count (mset (connecting s)) n) = 0"
    using z by (simp add: srv_ok_def srv_size_def)
  then have "length (busy v) = 0 \<and> length (idle v) = 0 \<and> count (mset (connecting s)) n = 0"
    by linarith
  then have e: "idle v = []" "busy v = []" "count (mset (connecting s)) n = 0"
    by simp_all
  then have no: "\<forall>c \<in> set (out_conns s). p_server c \<noteq> n" "n \<notin> set (connecting s)"
    using ok by (simp_all add: srv_ok_def filter_mset_mset_empty)
  have wf: "wf_map (servers (pl s))" using inv by (simp add: pool_inv_def)
  have "idle_conns (servers (pl s)) = idle_conns (map_del n (servers (pl s)))"
    using idle_conns_split [OF wf v] e by simp
  moreover have "e \<in> set (servers (pl s))" if "e \<in> set (map_del n (servers (pl s)))" for e
    using that by (simp add: set_map_del)
  ultimately show ?thesis
    using inv no unfolding pool_inv_def by (auto simp: p')
qed

text \<open>A server is entered with a reservation.\<close>

lemma server_insert:
  assumes inv: "pool_inv K s" and v: "map_of (servers (pl s)) n = None" and K: "1 \<le> K"
  shows "pool_inv K (s\<lparr>pl := put_server n (NewServer\<lparr>reservations := 1\<rparr>) (pl s), connecting := n # connecting s\<rparr>)"
proof -
  have wf: "wf_map (servers (pl s))" using inv by (simp add: pool_inv_def)
  have n: "n \<notin> fst ` set (servers (pl s))" using v by (simp add: map_of_eq_None_iff)
  then have no: "filter_mset (\<lambda>c. p_server c = n) (mset (out_conns s)) = {#}" "count (mset (connecting s)) n = 0"
    using inv by (auto simp: pool_inv_def filter_mset_mset_empty count_mset_0_iff)
  have "srv_ok K (mset (out_conns s)) (mset (n # connecting s)) n (NewServer\<lparr>reservations := 1\<rparr>)"
    using no K by (simp add: srv_ok_def NewServer_def srv_size_def)
  moreover have "srv_ok K (mset (out_conns s)) (mset (n # connecting s)) m x"
    if "(m, x) \<in> set (servers (pl s))" for m x
  proof -
    have "m \<noteq> n" using that n by force
    moreover have "srv_ok K (mset (out_conns s)) (mset (connecting s)) m x"
      using that inv by (auto simp: pool_inv_def)
    ultimately show ?thesis by (simp add: srv_ok_def)
  qed
  moreover have "idle_conns (map_put n (NewServer\<lparr>reservations := 1\<rparr>) (servers (pl s))) = idle_conns (servers (pl s))"
    using idle_conns_put [OF wf] map_del_absent [OF n] by (simp add: NewServer_def)
  ultimately show ?thesis
    using inv wf unfolding pool_inv_def by (auto simp: set_map_put split_beta simp del: dom_map_put intro: rev_image_eqI)
qed

text \<open>Steps that leave servers, connections and tracker alone.\<close>

lemma pool_inv_same:
  "pool_inv K s \<Longrightarrow> servers p' = servers (pl s) \<Longrightarrow> closeLog p' = closeLog (pl s) \<Longrightarrow> tracker p' = tracker (pl s) \<Longrightarrow>
   pool_inv K (s\<lparr>pl := p'\<rparr>)"
  by (simp add: pool_inv_def)

text \<open>One server changes without connections entering or leaving the pool.\<close>

lemma server_change:
  assumes inv: "pool_inv K s" and v: "map_of (servers (pl s)) n = Some v"
    and f: "busy v' = busy v" "reservations v' = reservations v" "mset cl + mset (idle v') = mset (idle v)"
    and p': "servers p' = map_put n v' (servers (pl s))" "closeLog p' = closeLog (pl s) @ cl" "tracked (made s) p'"
  shows "pool_inv K (s\<lparr>pl := p'\<rparr>)"
proof -
  have ok: "srv_ok K (mset (out_conns s)) (mset (connecting s)) n v" by (rule pool_inv_srv [OF inv v])
  have sub: "set (idle v') \<subseteq> set (idle v)" "length (idle v') \<le> length (idle v)"
    using f(3) by (metis set_mset_mset set_mset_union Un_upper2, metis size_mset size_union le_add2)
  have "pool_inv K \<lparr>pl = p', out_conns = out_conns s, connecting = connecting s, made = made s\<rparr>"
  proof (rule server_update [OF inv v, where v' = v' and cl = cl])
    show "srv_ok K (mset (out_conns s)) (mset (connecting s)) n v'"
      using ok sub f by (auto simp: srv_ok_def srv_size_def)
    show "distinct (made s)" using inv by (simp add: pool_inv_def)
    show "mset (made s) + mset (idle v) + mset (out_conns s) = mset (made s) + mset cl + mset (idle v') + mset (out_conns s)"
      by (simp flip: f(3))
  qed (use p' in auto)
  then show ?thesis by (cases s) simp
qed

lemma on_server_inv:
  assumes inv: "pool_inv K s"
    and f: "\<And>v. busy (snd (f v)) = busy v \<and> reservations (snd (f v)) = reservations v \<and>
      mset (fst (f v)) + mset (idle (snd (f v))) = mset (idle v)"
  shows "pool_inv K (s\<lparr>pl := on_server f n (pl s)\<rparr>)"
proof (cases "map_of (servers (pl s)) n")
  case None
  then show ?thesis using inv by (simp add: on_server_def)
next
  case (Some v)
  obtain cl v' where fv: "f v = (cl, v')" by fastforce
  have t: "tracked (made s) (foldl closeConnection (put_server n v' (pl s)) cl)"
    by (rule tracked_close, rule tracked_same [OF pool_inv_tracked [OF inv]]) simp_all
  have "pool_inv K (s\<lparr>pl := foldl closeConnection (put_server n v' (pl s)) cl\<rparr>)"
    by (rule server_change [OF inv Some _ _ _ _ _ t, where v' = v' and cl = cl]) (use f [of v] fv in auto)
  then show ?thesis using Some fv by (simp add: on_server_def)
qed

lemma prune_inv:
  assumes "pool_inv K s"
  shows "pool_inv K (s\<lparr>pl := removeIdleOlderThanOnServer now maxAge n (pl s)\<rparr>)"
  unfolding removeIdleOlderThanOnServer_def
  by (rule on_server_inv [OF assms]) (simp add: removeIdleOlderThan_def split_def Let_def prune_mset)

lemma startClosing_inv:
  assumes "pool_inv K s"
  shows "pool_inv K (s\<lparr>pl := on_server startClosing n (pl s)\<rparr>)"
  by (rule on_server_inv [OF assms]) (simp add: startClosing_def)

lemma drop_inv:
  assumes "pool_inv K s"
  shows "pool_inv K (s\<lparr>pl := drop_if_unused now n (pl s)\<rparr>)"
  using assms server_delete [OF assms] by (auto simp: drop_if_unused_def split: option.split)

lemma foldl_inv:
  assumes "\<And>p n. pool_inv K (s\<lparr>pl := p\<rparr>) \<Longrightarrow> pool_inv K (s\<lparr>pl := f p n\<rparr>)"
  shows "pool_inv K (s\<lparr>pl := p\<rparr>) \<Longrightarrow> pool_inv K (s\<lparr>pl := foldl f p ns\<rparr>)"
  by (induction ns arbitrary: p) (simp_all add: assms)

section \<open>Every step keeps the invariant\<close>

lemma srv_update:
  assumes "pool_inv K s" "map_of (servers (pl s)) n = Some v" "srv_ok K (mset O') (mset P') n v'"
    "\<And>m. m \<noteq> n \<Longrightarrow> filter_mset (\<lambda>c. p_server c = m) (mset O') = filter_mset (\<lambda>c. p_server c = m) (mset (out_conns s))"
    "\<And>m. m \<noteq> n \<Longrightarrow> count (mset P') m = count (mset (connecting s)) m"
    "\<And>c. c \<in> set O' \<Longrightarrow> p_server c = n \<or> c \<in> set (out_conns s)"
    "\<And>x. x \<in> set P' \<Longrightarrow> x = n \<or> x \<in> set (connecting s)"
    "mset (idle v) + mset (out_conns s) = mset cl + mset (idle v') + mset O'"
    "servers p' = map_put n v' (servers (pl s))" "closeLog p' = closeLog (pl s) @ cl" "tracked (made s) p'"
  shows "pool_inv K (s\<lparr>pl := p', out_conns := O', connecting := P'\<rparr>)"
proof -
  have "distinct (made s)" using assms(1) by (simp add: pool_inv_def)
  moreover have "mset (made s) + mset (idle v) + mset (out_conns s) = mset (made s) + mset cl + mset (idle v') + mset O'"
    using assms(8) by (simp add: ac_simps)
  ultimately show ?thesis
    using server_update [OF assms(1-7) _ _ assms(9-11)] by (cases s) auto
qed

lemma tracked_put: "pool_inv K s \<Longrightarrow> tracked (made s) (put_server n v (pl s))"
  by (rule tracked_same [OF pool_inv_tracked]) auto

lemma out_server:
  assumes "pool_inv K s" "c \<in> set (out_conns s)"
  obtains v where "map_of (servers (pl s)) (p_server c) = Some v"
    "srv_ok K (mset (out_conns s)) (mset (connecting s)) (p_server c) v" "c \<in> set (busy v)"
proof -
  from assms obtain v where v: "map_of (servers (pl s)) (p_server c) = Some v"
    by (auto simp: pool_inv_def map_of_eq_None_iff intro: not_None_eq [THEN iffD1])
       (metis map_of_eq_None_iff not_None_eq)
  then have ok: "srv_ok K (mset (out_conns s)) (mset (connecting s)) (p_server c) v"
    by (rule pool_inv_srv [OF assms(1)])
  then have "set_mset (mset (busy v)) = set_mset (filter_mset (\<lambda>x. p_server x = p_server c) (mset (out_conns s)))"
    by (simp add: srv_ok_def)
  then have "c \<in> set (busy v)" using assms(2) by auto
  with v ok show thesis using that by blast
qed

lemma lock_inv:
  assumes inv: "pool_inv K s" and K: "1 \<le> K" and l: "tb_lock K n (pl s) = (r, p)"
  shows "pool_inv K (case r of TFull \<Rightarrow> s\<lparr>pl := p\<rparr>
      | TGot c \<Rightarrow> s\<lparr>pl := p, out_conns := c # out_conns s\<rparr>
      | TConnect \<Rightarrow> s\<lparr>pl := p, connecting := n # connecting s\<rparr>)"
proof (cases "map_of (servers (pl s)) n")
  case None
  with l have "r = TConnect" "p = put_server n (NewServer\<lparr>reservations := 1\<rparr>) (pl s)"
    by (auto simp: tb_lock_def)
  with server_insert [OF inv None K] show ?thesis by simp
next
  case (Some v)
  have ok: "srv_ok K (mset (out_conns s)) (mset (connecting s)) n v" by (rule pool_inv_srv [OF inv Some])
  let ?v = "v\<lparr>closing := False\<rparr>"
  show ?thesis
  proof (cases "idle v")
    case (Cons c cs)
    let ?v' = "?v\<lparr>idle := cs, busy := c # busy v\<rparr>"
    have r: "r = TGot c" "p = put_server n ?v' (pl s)"
      using l Some Cons by (auto simp: tb_lock_def getIdle_def)
    have "pool_inv K (s\<lparr>pl := p, out_conns := c # out_conns s, connecting := connecting s\<rparr>)"
      by (rule srv_update [OF inv Some, where v' = ?v' and cl = "[]"])
        (use ok Cons r tracked_put [OF inv] in \<open>auto simp: srv_ok_def srv_size_def\<close>)
    with r show ?thesis by simp
  next
    case Nil
    show ?thesis
    proof (cases "srv_size ?v \<ge> K")
      case True
      then have r: "r = TFull" "p = put_server n ?v (pl s)"
        using l Some Nil by (auto simp: tb_lock_def getIdle_def)
      have "pool_inv K (s\<lparr>pl := p\<rparr>)"
        by (rule server_change [OF inv Some, where v' = ?v and cl = "[]"])
          (use r tracked_put [OF inv] in auto)
      with r show ?thesis by simp
    next
      case False
      let ?v' = "?v\<lparr>reservations := reservations v + 1\<rparr>"
      have r: "r = TConnect" "p = put_server n ?v' (pl s)"
        using l Some Nil False by (auto simp: tb_lock_def getIdle_def)
      have "pool_inv K (s\<lparr>pl := p, out_conns := out_conns s, connecting := n # connecting s\<rparr>)"
        by (rule srv_update [OF inv Some, where v' = ?v' and cl = "[]"])
          (use ok Nil False r tracked_put [OF inv] in \<open>auto simp: srv_ok_def srv_size_def\<close>)
      with r show ?thesis by simp
    qed
  qed
qed

lemma healthCheck_server:
  "healthCheck h i rr v = (ok, e, rr1, v1) \<Longrightarrow> busy v1 = busy v \<and> idle v1 = idle v \<and> reservations v1 = reservations v"
  by (auto simp: healthCheck_def split: if_splits option.splits)

lemma check_inv:
  assumes inv: "pool_inv K s" and c: "tb_check h i n (pl s) = (ok, e, p)"
  shows "pool_inv K (s\<lparr>pl := p\<rparr>)"
proof (cases "map_of (servers (pl s)) n")
  case None
  with c have "p = pl s" by (auto simp: tb_check_def)
  with inv show ?thesis by simp
next
  case (Some v)
  obtain rr v1 where h: "healthCheck h i (sharedRoundRobin (pl s)) v = (ok, e, rr, v1)"
    "p = put_server n v1 ((pl s)\<lparr>sharedRoundRobin := rr\<rparr>)"
    using c Some by (auto simp: tb_check_def split: prod.splits)
  have "tracked (made s) p" using tracked_same [OF pool_inv_tracked [OF inv], of p] h by simp
  then show ?thesis
    by (intro server_change [OF inv Some, where v' = v1 and cl = "[]"]) (use h healthCheck_server [OF h(1)] in auto)
qed

lemma close_drop_commute: "closeConnection (drop_if_unused now n p) c = drop_if_unused now n (closeConnection p c)"
  by (simp add: drop_if_unused_def closeConnection_def split: option.split)

lemma srv_ok_remove:
  assumes "srv_ok K (mset out) P (p_server c) v" "c \<in> set out" "c \<in> set (busy v)"
  shows "mset (remove1 c (busy v)) = filter_mset (\<lambda>x. p_server x = p_server c) (mset (remove1 c out))"
    "length (busy v) = Suc (length (remove1 c (busy v)))"
  using assms length_pos_if_in_set [OF assms(3)] by (auto simp: srv_ok_def length_remove1 filter_diff_mset)

lemma filter_remove_other:
  "p_server c \<noteq> m \<Longrightarrow> filter_mset (\<lambda>x. p_server x = m) (mset (remove1 c xs)) = filter_mset (\<lambda>x. p_server x = m) (mset xs)"
  by (induction xs) auto

lemma unreg_inv:
  assumes inv: "pool_inv K s" and c: "c \<in> set (out_conns s)"
  shows "pool_inv K (s\<lparr>pl := unregLocked (p_server c) c now (pl s), out_conns := remove1 c (out_conns s)\<rparr>)"
proof -
  obtain v where v: "map_of (servers (pl s)) (p_server c) = Some v"
    "srv_ok K (mset (out_conns s)) (mset (connecting s)) (p_server c) v" "c \<in> set (busy v)"
    by (rule out_server [OF inv c])
  let ?p = "closeConnection (put_server (p_server c) (unregisterBusy c v) (pl s)) c"
  have t: "tracked (made s) ?p"
    using tracked_close [OF tracked_put [OF inv], of "p_server c" "unregisterBusy c v" "[c]"] by simp
  note rm = srv_ok_remove [OF v(2) c v(3)]
  have "mset (out_conns s) = add_mset c (mset (remove1 c (out_conns s)))"
    using c by (simp add: insert_DiffM)
  then have "pool_inv K (s\<lparr>pl := ?p, out_conns := remove1 c (out_conns s), connecting := connecting s\<rparr>)"
    by (intro srv_update [OF inv v(1), where v' = "unregisterBusy c v" and cl = "[c]"])
      (use v rm t in \<open>auto simp: srv_ok_def srv_size_def unregisterBusy_def filter_remove_other
          dest: notin_set_remove1\<close>)
  then have "pool_inv K (s\<lparr>out_conns := remove1 c (out_conns s)\<rparr>\<lparr>pl := ?p\<rparr>)"
    by (cases s) simp
  from drop_inv [OF this, of now "p_server c"] show ?thesis
    using v(1) by (cases s) (simp add: unregLocked_def close_drop_commute)
qed

lemma srv_ok_failed:
  "srv_ok K O' P n v \<Longrightarrow> int (count P' n) = int (count P n) - 1 \<Longrightarrow> busy v' = busy v \<Longrightarrow> idle v' = idle v \<Longrightarrow>
   reservations v' = reservations v - 1 \<Longrightarrow> srv_ok K O' P' n v'"
  by (simp add: srv_ok_def srv_size_def)

lemma srv_ok_connected:
  "srv_ok K O' P n v \<Longrightarrow> int (count P' n) = int (count P n) - 1 \<Longrightarrow> busy v' = c # busy v \<Longrightarrow> idle v' = idle v \<Longrightarrow>
   reservations v' = reservations v - 1 \<Longrightarrow> p_server c = n \<Longrightarrow> srv_ok K (add_mset c O') P' n v'"
  by (simp add: srv_ok_def srv_size_def)

lemma count_remove1: "n \<in> set xs \<Longrightarrow> int (count (mset (remove1 n xs)) n) = int (count (mset xs) n) - 1"
  by (simp add: of_nat_diff Suc_leI)

lemma connected_inv:
  assumes inv: "pool_inv K s" and n: "n \<in> set (connecting s)"
    and r: "case r of Inl e \<Rightarrow> True | Inr c \<Rightarrow> c \<notin> set (made s) \<and> p_server c = n"
  shows "pool_inv K (case r of
      Inl e \<Rightarrow> s\<lparr>pl := tb_connected n r now (pl s), connecting := remove1 n (connecting s)\<rparr>
    | Inr c \<Rightarrow> s\<lparr>pl := tb_connected n r now (pl s), connecting := remove1 n (connecting s),
        out_conns := c # out_conns s, made := c # made s\<rparr>)"
proof -
  have "n \<in> fst ` set (servers (pl s))" using inv n by (auto simp: pool_inv_def)
  then obtain v where v: "map_of (servers (pl s)) n = Some v"
    by (metis map_of_eq_None_iff not_None_eq)
  have ok: "srv_ok K (mset (out_conns s)) (mset (connecting s)) n v" by (rule pool_inv_srv [OF inv v])
  note cnt = count_remove1 [OF n]
  show ?thesis
  proof (cases r)
    case (Inl e)
    obtain v' where v': "tb_connected n r now (pl s) = put_server n v' (pl s)"
      "busy v' = busy v" "idle v' = idle v" "reservations v' = reservations v - 1"
      using Inl v by (simp add: tb_connected_def Let_def notifyFailedConnect_def)
    have "srv_ok K (mset (out_conns s)) (mset (remove1 n (connecting s))) n v'"
      by (rule srv_ok_failed [OF ok cnt v'(2-4)])
    then have "pool_inv K (s\<lparr>pl := put_server n v' (pl s), out_conns := out_conns s, connecting := remove1 n (connecting s)\<rparr>)"
      by (rule srv_update [OF inv v, where cl = "[]"])
        (use v' tracked_put [OF inv] in \<open>auto dest: notin_set_remove1\<close>)
    then show ?thesis using Inl v' by (cases s) simp
  next
    case (Inr c)
    with r have c: "c \<notin> set (made s)" "p_server c = n" by simp_all
    let ?v' = "v\<lparr>reservations := reservations v - 1, roundRobin := sharedRoundRobin (pl s) + 1, busy := c # busy v,
        failedConnectAt := None\<rparr>"
    let ?p = "put_server n ?v' ((pl s)\<lparr>tracker := addConnection c (tracker (pl s)),
        sharedRoundRobin := sharedRoundRobin (pl s) + 1\<rparr>)"
    have p: "tb_connected n r now (pl s) = ?p"
      using Inr v by (simp add: tb_connected_def Let_def registerBusy_def notifySuccessfulConnect_def)
    have t: "tracked (c # made s) ?p"
      by (rule tracked_add [OF pool_inv_tracked [OF inv]]) simp_all
    have ok': "srv_ok K (mset (c # out_conns s)) (mset (remove1 n (connecting s))) n ?v'"
      using srv_ok_connected [OF ok cnt, of ?v' c] c(2) by simp
    have d: "distinct (c # made s)" using c inv by (simp add: pool_inv_def)
    have "pool_inv K \<lparr>pl = ?p, out_conns = c # out_conns s, connecting = remove1 n (connecting s), made = c # made s\<rparr>"
      by (rule server_update [OF inv v ok' _ _ _ _ d, where cl = "[]"])
        (use c t in \<open>auto dest: notin_set_remove1\<close>)
    then show ?thesis using Inr p by (cases s) simp
  qed
qed

lemma ret_idle_inv:
  assumes inv: "pool_inv K s" and c: "c \<in> set (out_conns s)"
  shows "pool_inv K (s\<lparr>pl := ret_idle c (pl s), out_conns := remove1 c (out_conns s)\<rparr>)"
proof -
  obtain v where v: "map_of (servers (pl s)) (p_server c) = Some v"
    "srv_ok K (mset (out_conns s)) (mset (connecting s)) (p_server c) v" "c \<in> set (busy v)"
    by (rule out_server [OF inv c])
  obtain cl v1 where rb: "returnBusy c v = (cl, v1)" by fastforce
  let ?p = "foldl closeConnection (put_server (p_server c) v1 (pl s)) cl"
  have t: "tracked (made s) ?p" by (rule tracked_close [OF tracked_put [OF inv]])
  note rm = srv_ok_remove [OF v(2) c v(3)]
  have f: "busy v1 = remove1 c (busy v)" "reservations v1 = reservations v"
    "(cl = [c] \<and> idle v1 = idle v) \<or> (cl = [] \<and> idle v1 = c # idle v)"
    using rb by (auto simp: returnBusy_def unregisterBusy_def Let_def split: if_splits)
  have "mset (out_conns s) = add_mset c (mset (remove1 c (out_conns s)))"
    using c by (simp add: insert_DiffM)
  then have "pool_inv K (s\<lparr>pl := ?p, out_conns := remove1 c (out_conns s), connecting := connecting s\<rparr>)"
    by (intro srv_update [OF inv v(1), where v' = v1 and cl = cl])
      (use v rm t f in \<open>auto simp: srv_ok_def srv_size_def filter_remove_other dest: notin_set_remove1\<close>)
  then have i: "pool_inv K (s\<lparr>out_conns := remove1 c (out_conns s)\<rparr>\<lparr>pl := ?p\<rparr>)"
    by (cases s) simp
  show ?thesis
  proof (cases "closing v1 \<and> srv_size v1 = 0")
    case True
    with v(1) rb have "ret_idle c (pl s) = del_server (p_server c) ?p"
      by (simp add: ret_idle_def Let_def)
    with server_delete [OF i, of "p_server c" v1 "del_server (p_server c) ?p"] True show ?thesis by (cases s) simp
  next
    case False
    with v(1) rb have "ret_idle c (pl s) = ?p" by (auto simp: ret_idle_def Let_def)
    with i show ?thesis by (cases s) simp
  qed
qed

lemma foldl_on_servers_inv:
  assumes "pool_inv K s"
  shows "pool_inv K (s\<lparr>pl := CleanUp now life (pl s)\<rparr>)" "pool_inv K (s\<lparr>pl := Close (pl s)\<rparr>)"
proof -
  have "pool_inv K (s\<lparr>pl := drop_if_unused now n (removeIdleOlderThanOnServer now life n p)\<rparr>)"
    if "pool_inv K (s\<lparr>pl := p\<rparr>)" for p n
    using drop_inv [OF prune_inv [OF that], of now n now life n] by simp
  from foldl_inv [where f = "\<lambda>p n. drop_if_unused now n (removeIdleOlderThanOnServer now life n p)" and p = "pl s", OF this] assms
  show "pool_inv K (s\<lparr>pl := CleanUp now life (pl s)\<rparr>)" by (simp add: CleanUp_def)
  have c: "pool_inv K (s\<lparr>pl := on_server startClosing n p\<rparr>)" if "pool_inv K (s\<lparr>pl := p\<rparr>)" for p n
    using startClosing_inv [OF that, of n] by simp
  have "pool_inv K (s\<lparr>pl := wake_front ((pl s)\<lparr>closed := True\<rparr>)\<rparr>)"
    by (rule pool_inv_same [OF assms]) (simp_all add: wake_front_def split: list.split)
  from foldl_inv [where f = "\<lambda>p n. on_server startClosing n p", OF c this] show "pool_inv K (s\<lparr>pl := Close (pl s)\<rparr>)"
    by (simp add: Close_def Let_def)
qed

lemma pstep_inv:
  assumes K: "1 \<le> K" and inv: "pool_inv K s" and st: "pstep K s t"
  shows "pool_inv K t"
  using st
proof cases
  case (lock_got n c p)
  then show ?thesis using inv K lock_inv [of K s n "TGot c" p] by simp
next
  case (lock_full n p)
  then show ?thesis using inv K lock_inv [of K s n TFull p] by simp
next
  case (lock_connect n p)
  then show ?thesis using inv K lock_inv [of K s n TConnect p] by simp
next
  case (checked h idleness n ok e p)
  then show ?thesis using inv K check_inv by auto
next
  case (unhealthy c now)
  then show ?thesis using inv K unreg_inv by auto
next
  case (connect_failed n e now)
  then show ?thesis using inv K connected_inv [of K s n "Inl e" now] by simp
next
  case (connected n c now)
  then show ?thesis using inv K connected_inv [of K s n "Inr c" now] by simp
next
  case (pruned now maxAge n)
  then show ?thesis using inv K prune_inv by auto
next
  case (returned c alive now life)
  then show ?thesis using inv K unreg_inv ret_idle_inv by (auto simp: ret_give_def)
next
  case cache_updated
  then show ?thesis using inv K pool_inv_same [of K s "updateCacheState (pl s)"] by (simp add: updateCacheState_def)
next
  case woke
  then show ?thesis
    using inv pool_inv_same [of K s "wake_front (pl s)"] by (simp add: wake_front_def split: list.split)
next
  case (enqueued names w b p)
  then show ?thesis
    using inv pool_inv_same [of K s p] by (auto simp: borrow_enqueue_def split: if_splits)
next
  case (gave_up e names w r p)
  then show ?thesis
    using inv pool_inv_same [of K s p] by (auto simp: borrow_giveup_def wake_front_def Let_def split: if_splits list.splits)
next
  case (deactivated n)
  then have "pool_inv K (s\<lparr>pl := (pl s)\<lparr>routerCalls := routerCalls (pl s) @ [InvalidateServer n]\<rparr>\<rparr>)"
    by (intro pool_inv_same [OF inv]) simp_all
  from startClosing_inv [OF this, of n] deactivated show ?thesis by (simp add: deactivate_def)
next
  case (cleaned now life)
  then show ?thesis using inv K foldl_on_servers_inv(1) by auto
next
  case closing_down
  then show ?thesis using inv K foldl_on_servers_inv(2) by auto
qed

lemma init_inv: "init_sys s \<Longrightarrow> pool_inv K s"
  by (simp add: init_sys_def pool_inv_def New_def wf_map_def ssr_count_def)

text \<open>The pool as a stepping component, for every bound of at least one.\<close>

interpretation pool_run: stepping init_sys "pstep (max 1 K)" "pool_inv (max 1 K)" for K
  by unfold_locales (auto intro: init_inv pstep_inv)

lemma pool_reachable: "1 \<le> K \<Longrightarrow> init_sys s0 \<Longrightarrow> (pstep K)\<^sup>*\<^sup>* s0 s \<Longrightarrow> pool_inv K s"
  using pool_run.reachable_from_init [of s0 K s] by (simp add: max_def split: if_splits)

lemma filter_all_iff:
  "filter_mset q M \<noteq> {#} \<and> filter_mset (\<lambda>c. \<not> q c) M = {#} \<longleftrightarrow> M \<noteq> {#} \<and> (\<forall>c \<in># M. q c)"
proof -
  have "filter_mset (\<lambda>c. \<not> q c) M = {#} \<longleftrightarrow> (\<forall>c \<in># M. q c)"
    by (induction M) auto
  moreover have "filter_mset q M = M" if "\<forall>c \<in># M. q c"
    using that by (induction M) auto
  ultimately show ?thesis by metis
qed

lemma of_nat_zero_word: "n < 2 ^ 64 \<Longrightarrow> (of_nat n :: 64 word) = 0 \<longleftrightarrow> n = 0"
  by (simp add: word_unat_eq_iff unat_of_nat)

section \<open>Properties\<close>

text \<open>
  C34: however the goroutines interleave, no server ever has more connections than the maximum pool size,
  counting the busy ones, the idle ones and those being established; the reservations are exactly the connects
  in flight, and the server of a connect in flight is never dropped from the pool.
\<close>

theorem pool_size_bounded:
  assumes "1 \<le> maxSize" "init_sys s0" "(pstep maxSize)\<^sup>*\<^sup>* s0 s"
  shows "(\<forall>n v. map_of (servers (pl s)) n = Some v \<longrightarrow>
      int (length (busy v)) + int (length (idle v)) + reservations v \<le> maxSize \<and>
      reservations v = int (count (mset (connecting s)) n)) \<and>
    (\<forall>n \<in> set (connecting s). map_of (servers (pl s)) n \<noteq> None)"
proof -
  have inv: "pool_inv maxSize s" by (rule pool_reachable [OF assms])
  show ?thesis
  proof (intro conjI allI impI ballI)
    fix n v assume v: "map_of (servers (pl s)) n = Some v"
    show "int (length (busy v)) + int (length (idle v)) + reservations v \<le> maxSize"
      "reservations v = int (count (mset (connecting s)) n)"
      using pool_inv_srv [OF inv v] unfolding srv_ok_def srv_size_def by blast+
  next
    fix n assume "n \<in> set (connecting s)"
    then show "map_of (servers (pl s)) n \<noteq> None"
      using inv by (auto simp: pool_inv_def map_of_eq_None_iff)
  qed
qed

text \<open>
  C35: the pool keeps track of every connection. In every reachable state the connections ever made are, without
  repetition, those closed, those idle and those out of the pool: no connection is lent twice, none is idle
  while it is lent, and none is used or kept after it was closed. The busy connections of a server are the
  lent ones that belong to it.
\<close>

theorem pool_no_sharing:
  assumes "1 \<le> maxSize" "init_sys s0" "(pstep maxSize)\<^sup>*\<^sup>* s0 s"
  shows "distinct (made s) \<and>
    mset (made s) = mset (closeLog (pl s)) + idle_conns (servers (pl s)) + mset (out_conns s) \<and>
    (\<forall>c \<in> set (out_conns s). \<exists>v. map_of (servers (pl s)) (p_server c) = Some v \<and> c \<in> set (busy v))"
proof -
  have inv: "pool_inv maxSize s" by (rule pool_reachable [OF assms])
  show ?thesis
    using out_server [OF inv] inv by (metis (no_types, lifting) pool_inv_def)
qed

text \<open>
  C37: the tracker of server-side routing is exact. In every reachable state of the pool, ssrEnabled of the tracker says
  that server-side routing is enabled exactly when there is at least one live connection, idle or lent, and every live
  connection has it, as long as there are fewer than 2^64 of them. (The home database cache takes this value when a
  connection is borrowed or returned; between these calls its own flag may differ.)
\<close>

theorem ssr_tracker_exact:
  assumes "1 \<le> maxSize" "init_sys s0" "(pstep maxSize)\<^sup>*\<^sup>* s0 s"
    and "size (idle_conns (servers (pl s)) + mset (out_conns s)) < 2 ^ 64"
  shows "ssrEnabled (tracker (pl s)) \<longleftrightarrow>
    (let live = idle_conns (servers (pl s)) + mset (out_conns s) in live \<noteq> {#} \<and> (\<forall>c \<in># live. p_ssr c))"
proof -
  have inv: "pool_inv maxSize s" by (rule pool_reachable [OF assms(1-3)])
  let ?live = "idle_conns (servers (pl s)) + mset (out_conns s)"
  have M: "mset (made s) = mset (closeLog (pl s)) + ?live" using inv by (simp add: pool_inv_def ac_simps)
  have cnt: "ssr_count q (mset (made s)) (closeLog (pl s)) = of_nat (size (filter_mset q ?live))" for q
    unfolding ssr_count_def M by (simp flip: size_mset mset_filter)
  have lt: "size (filter_mset q ?live) < 2 ^ 64" for q
    using assms(4) size_filter_mset_lesseq [of q ?live] by linarith
  have z: "(of_nat (size (filter_mset q ?live)) :: 64 word) = 0 \<longleftrightarrow> filter_mset q ?live = {#}" for q
    by (simp only: of_nat_zero_word [OF lt] size_eq_0_iff_empty)
  have "ssrEnabled (tracker (pl s)) \<longleftrightarrow> filter_mset p_ssr ?live \<noteq> {#} \<and> filter_mset (\<lambda>c. \<not> p_ssr c) ?live = {#}"
    using inv z unfolding ssrEnabled_def pool_inv_def cnt word_neq_0_conv [symmetric] by simp
  also have "\<dots> \<longleftrightarrow> ?live \<noteq> {#} \<and> (\<forall>c \<in># ?live. p_ssr c)"
    by (rule filter_all_iff)
  finally show ?thesis by (simp add: Let_def)
qed

text \<open>A run for the witnesses: one goroutine connects to a server and returns the connection alive.\<close>

definition sample_conn :: pconn where
  "sample_conn = \<lparr>p_id = 1, p_server = ''a'', p_birth = 0, p_ssr = True\<rparr>"

definition sys0 :: sys where
  "sys0 = \<lparr>pl = New, out_conns = [], connecting = [], made = []\<rparr>"

definition sys1 :: sys where
  "sys1 = sys0\<lparr>pl := put_server ''a'' (NewServer\<lparr>reservations := 1\<rparr>) New, connecting := [''a'']\<rparr>"

definition sys2 :: sys where
  "sys2 = sys1\<lparr>pl := tb_connected ''a'' (Inr sample_conn) 5 (pl sys1), connecting := [],
     out_conns := [sample_conn], made := [sample_conn]\<rparr>"

lemma init_sys0: "init_sys sys0"
  by (simp add: init_sys_def sys0_def)

lemma run_to_sys2: "(pstep 1)\<^sup>*\<^sup>* sys0 sys2"
proof -
  have "tb_lock 1 ''a'' (pl sys0) = (TConnect, pl sys1)" by (simp add: tb_lock_def sys0_def sys1_def New_def)
  from pstep.lock_connect [OF this] have 1: "pstep 1 sys0 sys1" by (simp add: sys1_def sys0_def)
  have "pstep 1 sys1 sys2"
    using pstep.connected [of "''a''" sys1 sample_conn 1 5] by (simp add: sys2_def sys1_def sys0_def sample_conn_def)
  with 1 show ?thesis by (meson rtranclp.simps)
qed

theorem pool_size_bounded_witness:
  "\<exists>v. map_of (servers (pl sys2)) ''a'' = Some v \<and> int (length (busy v)) + int (length (idle v)) + reservations v \<le> 1 \<and>
     length (busy v) = 1"
proof -
  obtain v where v: "map_of (servers (pl sys2)) ''a'' = Some v" and "length (busy v) = 1"
    by (simp add: sys2_def sys1_def sys0_def tb_connected_def registerBusy_def notifySuccessfulConnect_def New_def
        NewServer_def Let_def)
  moreover have "int (length (busy v)) + int (length (idle v)) + reservations v \<le> 1"
    using pool_size_bounded [OF order_refl init_sys0 run_to_sys2] v by blast
  ultimately show ?thesis by blast
qed

theorem pool_no_sharing_witness: "distinct (made sys2) \<and> sample_conn \<in> set (out_conns sys2)"
  using pool_no_sharing [OF _ init_sys0 run_to_sys2] by (simp add: sys2_def)

theorem ssr_tracker_exact_witness: "ssrEnabled (tracker (pl sys2))"
proof -
  have "idle_conns (servers (pl sys2)) + mset (out_conns sys2) = {#sample_conn#}"
    by (simp add: sys2_def sys1_def sys0_def tb_connected_def registerBusy_def notifySuccessfulConnect_def New_def
        NewServer_def Let_def)
  then show ?thesis
    using ssr_tracker_exact [OF _ init_sys0 run_to_sys2] by (simp add: sample_conn_def)
qed

text \<open>
  a waiter can be forgotten. With a pool of one connection there is an interleaving in which a goroutine that
  found the server full queues up after the last connection of that server was dropped: nobody holds a
  connection, none is being established, the pool has no server at all and so full capacity, and yet the waiter
  stays in the queue without a wake-up, because anyHasCapacity does not count a server that is not in the map.
\<close>

lemma waiter_forgotten:
  "\<exists>s0 s. init_sys s0 \<and> (pstep 1)\<^sup>*\<^sup>* s0 s \<and> 7 \<in> set (queue (pl s)) \<and> 7 \<notin> set (woken (pl s)) \<and>
     out_conns s = [] \<and> connecting s = [] \<and> servers (pl s) = [] \<and> \<not> closed (pl s)"
proof -
  define p3 where "p3 = snd (tb_lock 1 ''a'' (pl sys2))"
  define s3 where "s3 = sys2\<lparr>pl := p3\<rparr>"
  define s4 where "s4 = s3\<lparr>pl := ret_give sample_conn False 9 100 (pl s3), out_conns := remove1 sample_conn (out_conns s3)\<rparr>"
  define s5 where "s5 = s4\<lparr>pl := wake_front (pl s4)\<rparr>"
  define s6 where "s6 = s5\<lparr>pl := snd (borrow_enqueue 1 [''a''] 7 (pl s5))\<rparr>"
  note defs = p3_def s3_def s4_def s5_def s6_def sys2_def sys1_def sys0_def New_def NewServer_def sample_conn_def
    tb_lock_def tb_connected_def getIdle_def registerBusy_def notifySuccessfulConnect_def srv_size_def Let_def
    addConnection_def
  have full: "tb_lock 1 ''a'' (pl sys2) = (TFull, p3)" by (simp add: defs)
  have 3: "pstep 1 sys2 s3" unfolding s3_def by (rule pstep.lock_full [OF full])
  have 4: "pstep 1 s3 s4"
    unfolding s4_def by (rule pstep.returned) (simp add: s3_def sys2_def)
  have 5: "pstep 1 s4 s5" unfolding s5_def by (rule pstep.woke)
  have 6: "pstep 1 s5 s6" unfolding s6_def by (rule pstep.enqueued) (rule surjective_pairing)
  have run: "(pstep 1)\<^sup>*\<^sup>* sys0 s6"
    using run_to_sys2 3 4 5 6 by (meson rtranclp.rtrancl_into_rtrancl)
  have e: "queue (pl s6) = [7] \<and> woken (pl s6) = [] \<and> out_conns s6 = [] \<and> connecting s6 = [] \<and> servers (pl s6) = [] \<and>
      \<not> closed (pl s6)"
    by (simp add: defs ret_give_def unregLocked_def drop_if_unused_def unregisterBusy_def hasFailedConnect_def
        closeConnection_def removeConnection_def wake_front_def borrow_enqueue_def anyHasCapacity_def)
  show ?thesis
    by (rule exI [of _ sys0], rule exI [of _ s6]) (use init_sys0 run e in simp)
qed

lemma on_server_queue [simp]:
  "queue (on_server f n p) = queue p" "woken (on_server f n p) = woken p" "closed (on_server f n p) = closed p"
  by (simp_all add: on_server_def split: option.split prod.split)

lemma foldl_on_server_queue:
  "queue (foldl (\<lambda>p n. on_server f n p) p ns) = queue p \<and> woken (foldl (\<lambda>p n. on_server f n p) p ns) = woken p"
  by (induction ns arbitrary: p) simp_all

text \<open>
  closing the pool wakes at most one waiter. Close leaves all waiters but the first in the queue without a
  wake-up, although it is meant to release all of them: the loop asks an element for its successor after it was
  removed from the list.
\<close>

lemma close_wakes_first_only:
  "woken (Close p) = woken p @ take 1 (queue p) \<and> queue (Close p) = drop 1 (queue p)"
  by (cases "queue p") (simp_all add: Close_def Let_def foldl_on_server_queue wake_front_def)

lemma idle_after_prune:
  "map_of (servers (removeIdleOlderThanOnServer now maxAge n p)) n = Some v \<Longrightarrow> c \<in> set (idle v) \<Longrightarrow>
   now - p_birth c < maxAge"
  by (auto simp: removeIdleOlderThanOnServer_def on_server_def removeIdleOlderThan_def Let_def prune_keeps_order
      split: option.splits prod.splits)
     (metis (no_types, lifting) mem_Collect_eq prune_set(2) snd_conv)

lemma idle_unreg:
  "map_of (servers (unregLocked n c now p)) n = Some v \<Longrightarrow> \<exists>v0. map_of (servers p) n = Some v0 \<and> idle v = idle v0"
  by (auto simp: unregLocked_def drop_if_unused_def unregisterBusy_def split: option.splits if_splits)

lemma wake_cache_servers [simp]: "servers (wake_front p) = servers p" "servers (updateCacheState p) = servers p"
  by (simp_all add: wake_front_def updateCacheState_def split: list.split)

text \<open>
  a dead connection takes its elders with it. After Return of a connection that is dead, no connection of
  the same server that is as old as it or older is left idle, nor one beyond the maximum lifetime, and the
  dead connection itself is handed to Close.
\<close>

lemma dead_return_evicts:
  assumes "map_of (servers (Return c False alive1 now life p)) (p_server c) = Some v" "c' \<in> set (idle v)"
  shows "p_birth c < p_birth c' \<and> now - p_birth c' < life \<and> c \<in> set (closeLog (Return c False alive1 now life p))"
proof -
  let ?age = "now - p_birth c"
  let ?p = "removeIdleOlderThanOnServer now (if ?age < life then ?age else life) (p_server c) p"
  have r: "Return c False alive1 now life p = wake_front (updateCacheState (unregLocked (p_server c) c now ?p))"
    by (simp add: Return_def ret_give_def ret_prune_def Let_def)
  from assms obtain v0 where "map_of (servers ?p) (p_server c) = Some v0" "idle v = idle v0"
    using idle_unreg unfolding r by (metis wake_cache_servers)
  with assms(2) have "now - p_birth c' < (if ?age < life then ?age else life)"
    using idle_after_prune by metis
  moreover have "c \<in> set (closeLog (Return c False alive1 now life p))"
    unfolding r by (simp add: wake_front_def updateCacheState_def unregLocked_def split: list.split)
  ultimately show ?thesis by (auto split: if_splits)
qed

definition young_conn :: pconn where
  "young_conn = \<lparr>p_id = 2, p_server = ''a'', p_birth = 4, p_ssr = True\<rparr>"

definition sample_pool :: pool where
  "sample_pool = New\<lparr>servers := [(''a'', NewServer\<lparr>idle := [young_conn], busy := [sample_conn]\<rparr>)]\<rparr>"

theorem dead_return_evicts_witness:
  "sample_conn \<in> set (closeLog (Return sample_conn False False 9 100 sample_pool)) \<and>
   p_birth sample_conn < p_birth young_conn"
proof -
  have "\<exists>v. map_of (servers (Return sample_conn False False 9 100 sample_pool)) (p_server sample_conn) = Some v \<and>
      young_conn \<in> set (idle v)"
    by (simp add: sample_pool_def New_def NewServer_def sample_conn_def young_conn_def Return_def ret_give_def
        ret_prune_def Let_def removeIdleOlderThanOnServer_def on_server_def removeIdleOlderThan_def unregLocked_def
        drop_if_unused_def unregisterBusy_def srv_size_def)
  then show ?thesis using dead_return_evicts by blast
qed

end
