(* ===== verification/HomeDb.thy ===== *)
theory HomeDb
  imports Errors "HOL-Library.Multiset"
begin

text \<open>
  The home database cache: src/neo4j/internal/homedb/cache.go. The cache maps a key computed from the user to the
  name of the home database; when it is over its size, the least recently used entries are dropped. The clock
  reading of an operation is an argument. The JSON encoding of custom tokens is a parameter.
\<close>

section \<open>The cache\<close>

record cacheEntry =
  database :: string
  lastUsed :: int

record cache =
  maxSize :: nat
  pruneFactor :: nat
  entries :: "(string \<times> cacheEntry) list"
  enabled :: bool

text \<open>\<open>rounded\<close> is the floating-point value of \<^verbatim>\<open>math.Round(0.01 * n * math.Log(n))\<close>.\<close>

definition NewCache :: "int \<Rightarrow> nat \<Rightarrow> goerr + cache" where
  "NewCache size' rounded =
     (if size' \<le> 0 then Inl (UsageError ''Maximum cache size must be greater than 0'')
      else Inr \<lparr>maxSize = nat size', pruneFactor = max 1 rounded, entries = [], enabled = False\<rparr>)"

definition Get :: "string \<Rightarrow> int \<Rightarrow> cache \<Rightarrow> (string \<times> bool) \<times> cache" where
  "Get user now c =
     (if \<not> enabled c then (([], False), c)
      else case map_of (entries c) user of
             None \<Rightarrow> (([], False), c)
           | Some e \<Rightarrow> ((database e, True), c\<lparr>entries := map_put user (e\<lparr>lastUsed := now\<rparr>) (entries c)\<rparr>))"

definition prune_cache :: "cache \<Rightarrow> cache" where
  "prune_cache c =
     (if length (entries c) \<le> maxSize c then c
      else
        let sorted = sort_key (lastUsed \<circ> snd) (entries c);
            pruneCount = min (pruneFactor c) (length sorted)
        in c\<lparr>entries := foldl (\<lambda>m k. map_del k m) (entries c) (map fst (take pruneCount sorted))\<rparr>)"

definition Set :: "string \<Rightarrow> string \<Rightarrow> int \<Rightarrow> cache \<Rightarrow> cache" where
  "Set user db now c =
     prune_cache (c\<lparr>entries := map_put user \<lparr>database = db, lastUsed = now\<rparr> (entries c)\<rparr>)"

definition SetEnabled :: "bool \<Rightarrow> cache \<Rightarrow> cache" where
  "SetEnabled b c = c\<lparr>enabled := b\<rparr>"

definition IsEnabled :: "cache \<Rightarrow> bool" where
  "IsEnabled c = enabled c"

text \<open>\<open>marshal\<close> is the JSON encoding of the scheme and the tokens.\<close>

definition ComputeKey :: "(string \<Rightarrow> gomap \<Rightarrow> goerr + string) \<Rightarrow> string \<Rightarrow> gomap option \<Rightarrow> goerr + string" where
  "ComputeKey marshal impersonatedUser sessionAuth =
     (if impersonatedUser \<noteq> [] then Inr (''basic:'' @ impersonatedUser)
      else case sessionAuth of
             None \<Rightarrow> Inr ''DEFAULT''
           | Some tokens \<Rightarrow>
               (case lookup_as as_string tokens ''scheme'' of
                  None \<Rightarrow> marshal ''unknown'' tokens
                | Some scheme \<Rightarrow>
                    if scheme = ''basic'' then
                      (case lookup_as as_string tokens ''principal'' of
                         Some p \<Rightarrow> Inr (''basic:'' @ p) | None \<Rightarrow> Inr ''basic:'')
                    else if scheme = ''kerberos'' then
                      (case lookup_as as_string tokens ''credentials'' of
                         Some c \<Rightarrow> Inr (''kerberos:'' @ c) | None \<Rightarrow> marshal ''unknown'' tokens)
                    else if scheme = ''bearer'' then
                      (case lookup_as as_string tokens ''credentials'' of
                         Some c \<Rightarrow> Inr (''bearer:'' @ c) | None \<Rightarrow> marshal ''unknown'' tokens)
                    else if scheme = ''none'' then Inr ''none''
                    else marshal scheme tokens))"

section \<open>Lemmas\<close>

definition cache_ok :: "cache \<Rightarrow> bool" where
  "cache_ok c \<longleftrightarrow> wf_map (entries c) \<and> length (entries c) \<le> maxSize c \<and> 1 \<le> pruneFactor c"

lemma map_del_all_filter: "foldl (\<lambda>m k. map_del k m) m ks = filter (\<lambda>e. fst e \<notin> set ks) m"
  by (induction ks arbitrary: m) (auto simp: map_del_filter conj_commute intro!: filter_cong)

lemma length_put: "length (map_put k v m) = (if k \<in> fst ` set m then length m else Suc (length m))"
  by (induction k v m rule: map_put.induct) (auto simp: image_iff)

text \<open>Deleting the keys of a prefix of a permutation leaves the rest of the permutation.\<close>

lemma filter_prefix_keys:
  assumes "wf_map m" "mset s = mset m"
  shows "mset (filter (\<lambda>e. fst e \<notin> set (map fst (take n s))) m) = mset (drop n s)"
proof -
  have d: "distinct (map fst s)"
    using assms unfolding wf_map_def by (metis mset_eq_imp_distinct_iff mset_map)
  have "filter (\<lambda>e. fst e \<notin> set (map fst (take n s))) (take n s @ drop n s) = drop n s"
  proof -
    have "filter (\<lambda>e. fst e \<notin> set (map fst (take n s))) (take n s) = []"
      by (simp add: filter_empty_conv)
    moreover have "filter (\<lambda>e. fst e \<notin> set (map fst (take n s))) (drop n s) = drop n s"
    proof (rule filter_True, rule ballI)
      fix e assume "e \<in> set (drop n s)"
      then have "fst e \<in> set (drop n (map fst s))" by (auto simp: drop_map)
      moreover have "set (take n (map fst s)) \<inter> set (drop n (map fst s)) = {}"
        using d by (rule set_take_disj_set_drop_if_distinct) simp
      ultimately show "fst e \<notin> set (map fst (take n s))" by (auto simp: take_map)
    qed
    ultimately show ?thesis by (simp only: filter_append append_Nil)
  qed
  then have "mset (filter (\<lambda>e. fst e \<notin> set (map fst (take n s))) s) = mset (drop n s)"
    by (simp only: append_take_drop_id)
  then show ?thesis
    using assms(2) by (metis mset_filter)
qed

lemma prune_result:
  assumes "wf_map (entries c)" "length (entries c) > maxSize c"
  shows "mset (entries (prune_cache c)) =
    mset (drop (min (pruneFactor c) (length (entries c))) (sort_key (lastUsed \<circ> snd) (entries c)))"
  using assms filter_prefix_keys [OF assms(1), of "sort_key (lastUsed \<circ> snd) (entries c)"]
  by (simp add: prune_cache_def Let_def map_del_all_filter)

lemma prune_cache_fields [simp]:
  "maxSize (prune_cache c) = maxSize c" "pruneFactor (prune_cache c) = pruneFactor c" "enabled (prune_cache c) = enabled c"
  by (simp_all add: prune_cache_def Let_def)

lemma prune_cache_wf: "wf_map (entries c) \<Longrightarrow> wf_map (entries (prune_cache c))"
  by (simp add: prune_cache_def Let_def assoc.valid_del_all)

lemma Set_ok:
  assumes "cache_ok c"
  shows "cache_ok (Set user db now c)"
proof -
  let ?c = "c\<lparr>entries := map_put user \<lparr>database = db, lastUsed = now\<rparr> (entries c)\<rparr>"
  have wf: "wf_map (entries ?c)" using assms by (simp add: cache_ok_def)
  have len: "length (entries ?c) \<le> Suc (maxSize c)" using assms by (auto simp: cache_ok_def length_put)
  have "length (entries (prune_cache ?c)) \<le> maxSize c"
  proof (cases "length (entries ?c) > maxSize ?c")
    case True
    then have "length (entries (prune_cache ?c)) = length (entries ?c) - min (pruneFactor c) (length (entries ?c))"
      using mset_eq_length [OF prune_result [OF wf True]] by simp
    with len assms True show ?thesis by (auto simp: cache_ok_def)
  next
    case False
    then show ?thesis by (simp add: prune_cache_def)
  qed
  with wf assms show ?thesis
    by (simp add: cache_ok_def Set_def prune_cache_wf)
qed

lemma Get_ok: "cache_ok c \<Longrightarrow> cache_ok (snd (Get user now c))"
  by (auto simp: cache_ok_def Get_def length_put split: option.split dest: map_of_SomeD intro: rev_image_eqI)

text \<open>The operations of the cache keep its invariant, whatever sequence of them is run.\<close>

datatype cache_op = OpGet string int | OpSet string string int | OpSetEnabled bool

fun cache_step :: "cache \<Rightarrow> cache_op \<Rightarrow> cache" where
  "cache_step c (OpGet u t) = snd (Get u t c)"
| "cache_step c (OpSet u d t) = Set u d t c"
| "cache_step c (OpSetEnabled b) = SetEnabled b c"

lemma cache_step_ok: "cache_ok c \<Longrightarrow> cache_ok (cache_step c op)"
  by (cases op) (simp_all add: Get_ok Set_ok, simp add: SetEnabled_def cache_ok_def)

interpretation cache_run: stepping
  "\<lambda>c. \<exists>n k. NewCache n k = Inr c" "\<lambda>c d. \<exists>op. d = cache_step c op" cache_ok
proof unfold_locales
  show "cache_ok c" if "\<exists>n k. NewCache n k = Inr c" for c
    using that by (auto simp: NewCache_def cache_ok_def split: if_splits)
  show "cache_ok d" if "cache_ok c" "\<exists>op. d = cache_step c op" for c d
    using that cache_step_ok by auto
qed

lemma steps_foldl: "(\<lambda>c d. \<exists>op. d = cache_step c op)\<^sup>*\<^sup>* c (foldl cache_step c ops)"
  by (induction ops rule: rev_induct) (auto intro: rtranclp.rtrancl_into_rtrancl)

section \<open>Properties\<close>

text \<open>
  the home database cache never exceeds its maximum size. After any sequence of lookups, insertions and
  switches on a new cache there are at most as many entries as the size it was made for, at most one per user.
\<close>

lemma cache_size_bounded:
  assumes "NewCache n rounded = Inr c"
  shows "int (length (entries (foldl cache_step c ops))) \<le> n \<and> distinct (map fst (entries (foldl cache_step c ops)))"
proof -
  have "cache_ok (foldl cache_step c ops)"
    by (rule cache_run.reachable_from_init [OF _ steps_foldl]) (use assms in blast)
  moreover have "maxSize (foldl cache_step c ops) = maxSize c"
  proof (induction ops rule: rev_induct)
    case (snoc op ops)
    have "maxSize (cache_step d op) = maxSize d" for d
      by (cases op) (simp_all add: Get_def Set_def SetEnabled_def split: option.split)
    with snoc show ?case by simp
  qed simp
  moreover have "int (maxSize c) = n" using assms by (auto simp: NewCache_def split: if_splits)
  ultimately show ?thesis by (auto simp: cache_ok_def wf_map_def)
qed

definition tiny_cache :: cache where
  "tiny_cache = \<lparr>maxSize = 1, pruneFactor = 1, entries = [], enabled = False\<rparr>"

theorem cache_size_bounded_witness:
  "length (entries (foldl cache_step tiny_cache [OpSet ''u'' ''d'' 1, OpSet ''v'' ''e'' 2])) \<le> 1"
proof -
  have "NewCache 1 0 = Inr tiny_cache" by (simp add: NewCache_def tiny_cache_def)
  from cache_size_bounded [OF this, of "[OpSet ''u'' ''d'' 1, OpSet ''v'' ''e'' 2]"] show ?thesis by linarith
qed

lemma drop_sort_newest:
  assumes "x \<in> set xs" "\<And>y. y \<in> set xs \<Longrightarrow> y \<noteq> x \<Longrightarrow> f y < f x" "n < length xs" "distinct xs"
  shows "x \<in> set (drop n (sort_key f xs))"
proof (rule ccontr)
  assume "x \<notin> set (drop n (sort_key f xs))"
  then have t: "x \<in> set (take n (sort_key f xs))"
    using assms(1) by (metis Un_iff append_take_drop_id set_append set_sort)
  obtain y where y: "y \<in> set (drop n (sort_key f xs))"
    using assms(3) by (metis drop_eq_Nil2 length_sort list.set_intros(1) neq_Nil_conv not_less)
  have "sorted (map f (take n (sort_key f xs) @ drop n (sort_key f xs)))" by simp
  then have "f x \<le> f y" using t y unfolding map_append sorted_append by auto
  moreover have "y \<noteq> x" using y \<open>x \<notin> set (drop n (sort_key f xs))\<close> by auto
  moreover have "y \<in> set xs" using y by (metis in_set_dropD set_sort)
  ultimately show False using assms(2) by fastforce
qed

text \<open>
  what was just stored is found. When an entry is set at a time later than the last use of all others, and
  the cache drops at most as many entries as its size at a time, the next lookup of that user on an enabled
  cache returns the database that was set, even when the insertion made the cache overflow.
\<close>

lemma cache_set_get:
  assumes "cache_ok c" "pruneFactor c \<le> maxSize c" "enabled c"
    and "\<forall>(u, e) \<in> set (entries c). lastUsed e < now"
  shows "fst (Get user now' (Set user db now c)) = (db, True)"
proof -
  let ?e = "\<lparr>database = db, lastUsed = now\<rparr>"
  let ?c = "c\<lparr>entries := map_put user ?e (entries c)\<rparr>"
  have wf: "wf_map (entries ?c)" using assms(1) by (simp add: cache_ok_def)
  have mem: "(user, ?e) \<in> set (entries ?c)" and
    older: "\<And>y. y \<in> set (entries ?c) \<Longrightarrow> y \<noteq> (user, ?e) \<Longrightarrow> (lastUsed \<circ> snd) y < (lastUsed \<circ> snd) (user, ?e)"
    using assms(1,4) by (auto simp: set_map_put cache_ok_def)
  have "map_of (entries (prune_cache ?c)) user = Some ?e"
  proof (cases "length (entries ?c) > maxSize ?c")
    case True
    let ?d = "drop (min (pruneFactor ?c) (length (entries ?c))) (sort_key (lastUsed \<circ> snd) (entries ?c))"
    have "min (pruneFactor ?c) (length (entries ?c)) < length (entries ?c)"
      using True assms(2) by simp
    then have "(user, ?e) \<in> set ?d"
      using wf by (intro drop_sort_newest [where f = "lastUsed \<circ> snd", OF mem older]) (auto simp: wf_map_def distinct_map)
    then have "(user, ?e) \<in> set (entries (prune_cache ?c))"
      using prune_result [OF wf True] by (metis set_mset_mset)
    then show ?thesis using prune_cache_wf [OF wf] by (simp add: wf_map_def)
  next
    case False
    then show ?thesis by (simp add: prune_cache_def)
  qed
  then show ?thesis using assms(3) by (simp add: Get_def Set_def)
qed

theorem cache_set_get_witness:
  "fst (Get ''v'' 3 (Set ''v'' ''e'' 2 (tiny_cache\<lparr>enabled := True, entries := [(''u'', \<lparr>database = ''d'', lastUsed = 1\<rparr>)]\<rparr>))) =
     (''e'', True)"
  by (rule cache_set_get) (simp_all add: cache_ok_def tiny_cache_def wf_map_def)

lemma key_of_known:
  "scheme \<in> {''basic'', ''kerberos'', ''bearer''} \<Longrightarrow>
   ComputeKey marshal [] (Some [(''scheme'', VStr scheme), (''principal'', VStr p), (''credentials'', VStr c)]) =
   Inr (scheme @ '':'' @ (if scheme = ''basic'' then p else c))"
  by (elim insertE emptyE) (simp_all add: ComputeKey_def lookup_as_def)

text \<open>
  users with different credentials do not share a cache entry. For the authentication schemes the driver
  knows, two sessions without impersonation have the same cache key only if they have the same scheme and the
  same principal (basic) or credentials (kerberos, bearer).
\<close>

lemma cache_key_separates:
  assumes "scheme \<in> {''basic'', ''kerberos'', ''bearer''}" "scheme' \<in> {''basic'', ''kerberos'', ''bearer''}"
    and "ComputeKey marshal [] (Some [(''scheme'', VStr scheme), (''principal'', VStr p), (''credentials'', VStr c)]) =
      ComputeKey marshal [] (Some [(''scheme'', VStr scheme'), (''principal'', VStr p'), (''credentials'', VStr c')])"
  shows "scheme = scheme' \<and> (if scheme = ''basic'' then p = p' else c = c')"
  using assms(3) unfolding key_of_known [OF assms(1)] key_of_known [OF assms(2)]
  using assms(1,2) by (elim insertE emptyE) simp_all

theorem cache_key_separates_witness:
  "ComputeKey (\<lambda>_ _. Inr []) [] (Some [(''scheme'', VStr ''basic''), (''principal'', VStr ''a''), (''credentials'', VStr ''x'')]) \<noteq>
   ComputeKey (\<lambda>_ _. Inr []) [] (Some [(''scheme'', VStr ''bearer''), (''principal'', VStr ''a''), (''credentials'', VStr ''x'')])"
  using cache_key_separates [of "''basic''" "''bearer''" "\<lambda>_ _. Inr []" "''a''" "''x''" "''a''" "''x''"] by auto

end
