(* ===== verification/Router.thy ===== *)
theory Router
  imports Errors
begin

text \<open>
  Routing tables: src/neo4j/internal/router/router.go and readtable.go, and the parser of routing records of
  src/neo4j/internal/bolt/parseroutingtable.go. What happens outside the router (the clock, the pool and the
  server that is asked for a table, the bookmark supplier, the resolver hook) is an environment; the n-th
  contact with a router ends as the environment says for n. Times are in nanoseconds.
\<close>

section \<open>Tables\<close>

record routing_table =
  TimeToLive :: int
  DatabaseName :: string
  Routers :: "string list"
  Readers :: "string list"
  Writers :: "string list"

record databaseRouter =
  dueUnix :: int
  tbl :: routing_table

record router =
  dbRouters :: "(string \<times> databaseRouter) list"
  contacts :: nat
  ticks :: nat

datatype discovery = BorrowFails goerr "goerr option" | RouteFails goerr | RouteOk routing_table

record renv =
  clock :: "nat \<Rightarrow> int"
  discover :: "nat \<Rightarrow> discovery"
  bookmarksErr :: "goerr option"
  rootRouter :: string
  getRouters :: "string list option"

definition New_router :: router where
  "New_router = \<lparr>dbRouters = [], contacts = 0, ticks = 0\<rparr>"

text \<open>itime.Now().\<close>

definition read_clock :: "renv \<Rightarrow> router \<Rightarrow> int \<times> router" where
  "read_clock env r = (clock env (ticks r), r\<lparr>ticks := ticks r + 1\<rparr>)"

definition unix :: "int \<Rightarrow> int" where
  "unix t = t div 1000000000"

text \<open>\<^verbatim>\<open>time.Duration(ttl) * time.Second\<close> is a 64-bit product.\<close>

definition ttl_duration :: "int \<Rightarrow> int" where
  "ttl_duration ttl = sint (word_of_int (ttl * 1000000000) :: 64 word)"

fun is_Neo4jErr :: "goerr \<Rightarrow> bool" where
  "is_Neo4jErr (Neo4jErr _) = True"
| "is_Neo4jErr _ = False"

definition wrapError :: "string \<Rightarrow> goerr \<Rightarrow> goerr" where
  "wrapError server err = (if is_Neo4jErr err then err else ReadRoutingTableError (Some err) server)"

section \<open>Reading a table\<close>

text \<open>The loop over the routers, with the error of the last attempt.\<close>

fun readTable_loop :: "renv \<Rightarrow> string list \<Rightarrow> goerr \<Rightarrow> router \<Rightarrow> (goerr + routing_table) \<times> router" where
  "readTable_loop env [] err r = (Inl err, r)"
| "readTable_loop env (x # xs) err r =
     (let r1 = r\<lparr>contacts := contacts r + 1\<rparr> in
      case discover env (contacts r) of
        BorrowFails e ctxErr \<Rightarrow>
          (case ctxErr of
             Some ce \<Rightarrow> (Inl (wrapError x ce), r1)
           | None \<Rightarrow>
               if IsFatalDuringDiscovery (Some e) then (Inl e, r1)
               else readTable_loop env xs (wrapError x e) r1)
      | RouteOk t \<Rightarrow> (Inr t, r1)
      | RouteFails e \<Rightarrow>
          if IsFatalDuringDiscovery (Some e) then (Inl e, r1)
          else readTable_loop env xs (wrapError x e) r1)"

definition readTable :: "renv \<Rightarrow> string list \<Rightarrow> router \<Rightarrow> (goerr + routing_table) \<times> router" where
  "readTable env routers r = readTable_loop env routers (ReadRoutingTableError None []) r"

text \<open>Known routers, then the initial one, then those of the hook; a fatal error ends the search.\<close>

definition fatal :: "goerr + routing_table \<Rightarrow> bool" where
  "fatal x = (case x of Inl e \<Rightarrow> IsFatalDuringDiscovery (Some e) | Inr _ \<Rightarrow> False)"

definition Router_readTable :: "renv \<Rightarrow> databaseRouter option \<Rightarrow> router \<Rightarrow> (goerr + routing_table) \<times> router" where
  "Router_readTable env dbRouter r0 =
     (let (x1, r1) =
        (case dbRouter of
           Some d \<Rightarrow>
             if Routers (tbl d) \<noteq> [] then (case readTable env (Routers (tbl d)) r0 of (x, r) \<Rightarrow> (Some x, r))
             else (None, r0)
         | None \<Rightarrow> (None, r0))
      in case x1 of
           Some (Inr t) \<Rightarrow> (Inr t, r1)
         | _ \<Rightarrow>
           if (case x1 of Some x \<Rightarrow> fatal x | None \<Rightarrow> False) then (the x1, r1)
           else
             (case readTable env [rootRouter env] r1 of
                (Inr t, r2) \<Rightarrow> (Inr t, r2)
              | (Inl e, r2) \<Rightarrow>
                  if fatal (Inl e) then (Inl e, r2)
                  else
                    (case getRouters env of
                       None \<Rightarrow> (Inl e, r2)
                     | Some routers \<Rightarrow> readTable env routers r2)))"

definition getTableLocked :: "renv \<Rightarrow> databaseRouter option \<Rightarrow> router \<Rightarrow> routing_table option \<times> router" where
  "getTableLocked env dbRouter r =
     (case read_clock env r of
        (now, r1) \<Rightarrow>
          ((case dbRouter of
              Some d \<Rightarrow> if unix now < dueUnix d then Some (tbl d) else None
            | None \<Rightarrow> None), r1))"

definition storeRoutingTable :: "string \<Rightarrow> routing_table \<Rightarrow> int \<Rightarrow> router \<Rightarrow> router" where
  "storeRoutingTable database table now r =
     (let name = (if database = [] then DatabaseName table else database) in
      r\<lparr>dbRouters := map_put name \<lparr>dueUnix = unix (now + ttl_duration (TimeToLive table)), tbl = table\<rparr> (dbRouters r)\<rparr>)"

definition updateTable :: "renv \<Rightarrow> string \<Rightarrow> databaseRouter option \<Rightarrow> router \<Rightarrow> (goerr + routing_table) \<times> router" where
  "updateTable env database dbRouter r =
     (case bookmarksErr env of
        Some e \<Rightarrow> (Inl e, r)
      | None \<Rightarrow>
          (case Router_readTable env dbRouter r of
             (Inl e, r1) \<Rightarrow> (Inl e, r1)
           | (Inr t, r1) \<Rightarrow> (case read_clock env r1 of (now, r2) \<Rightarrow> (Inr t, storeRoutingTable database t now r2))))"

record selection =
  sel_Name :: string
  IsHomeDbGuess :: bool
  ImpersonatedUser :: string
  HomeDbCacheKey :: string

datatype updateKey = ByDatabase string | ByHomeDbKey string

text \<open>The key of the update that is in progress; with an empty database the server resolves the name.\<close>

definition update_key :: "selection \<Rightarrow> updateKey" where
  "update_key sel = (if IsHomeDbGuess sel \<or> sel_Name sel = [] then ByHomeDbKey (HomeDbCacheKey sel) else ByDatabase (sel_Name sel))"

definition target_database :: "selection \<Rightarrow> string" where
  "target_database sel = (case update_key sel of ByDatabase d \<Rightarrow> d | ByHomeDbKey _ \<Rightarrow> [])"

text \<open>Without other goroutines; their coordination is the step relation below.\<close>

definition getOrUpdateTable :: "renv \<Rightarrow> selection \<Rightarrow> router \<Rightarrow> (goerr + routing_table) \<times> router" where
  "getOrUpdateTable env sel r =
     (let dbRouter = map_of (dbRouters r) (sel_Name sel) in
      case getTableLocked env dbRouter r of
        (Some t, r1) \<Rightarrow> (Inr t, r1)
      | (None, r1) \<Rightarrow> updateTable env (target_database sel) dbRouter r1)"

definition getTable :: "renv \<Rightarrow> string \<Rightarrow> router \<Rightarrow> routing_table option \<times> router" where
  "getTable env database r = getTableLocked env (map_of (dbRouters r) database) r"

definition Invalidate :: "string \<Rightarrow> router \<Rightarrow> router" where
  "Invalidate database r =
     (case map_of (dbRouters r) database of
        None \<Rightarrow> r
      | Some d \<Rightarrow> r\<lparr>dbRouters := map_put database (d\<lparr>dueUnix := 0\<rparr>) (dbRouters r)\<rparr>)"

section \<open>Readers and writers\<close>

text \<open>
  The retry loop, with the servers the table has to offer, the database to invalidate before each retry, and
  the retries that are left.
\<close>

fun retry_table :: "renv \<Rightarrow> selection \<Rightarrow> (routing_table \<Rightarrow> string list) \<Rightarrow> (routing_table \<Rightarrow> string) \<Rightarrow> nat \<Rightarrow>
  routing_table \<Rightarrow> router \<Rightarrow> (goerr + routing_table) \<times> router" where
  "retry_table env sel srv inval 0 t r = (Inr t, r)"
| "retry_table env sel srv inval (Suc n) t r =
     (if srv t \<noteq> [] \<or> n = 0 then (Inr t, r)
      else
        (case getOrUpdateTable env sel (Invalidate (inval t) r) of
           (Inl e, r1) \<Rightarrow> (Inl e, r1)
         | (Inr t1, r1) \<Rightarrow> retry_table env sel srv inval n t1 r1))"

definition get_servers :: "renv \<Rightarrow> selection \<Rightarrow> (routing_table \<Rightarrow> string list) \<Rightarrow> (routing_table \<Rightarrow> string) \<Rightarrow>
  string \<Rightarrow> router \<Rightarrow> (goerr + string list) \<times> router" where
  "get_servers env sel srv inval what r =
     (case getOrUpdateTable env sel r of
        (Inl e, r1) \<Rightarrow> (Inl e, r1)
      | (Inr t, r1) \<Rightarrow>
          (case retry_table env sel srv inval 100 t r1 of
             (Inl e, r2) \<Rightarrow> (Inl e, r2)
           | (Inr t2, r2) \<Rightarrow>
               if srv t2 = [] then (Inl (wrapError (rootRouter env) (PlainError what)), r2) else (Inr (srv t2), r2)))"

text \<open>The readers invalidate the name the server gave, the writers the name that was asked for.\<close>

definition GetOrUpdateReaders :: "renv \<Rightarrow> selection \<Rightarrow> router \<Rightarrow> (goerr + string list) \<times> router" where
  "GetOrUpdateReaders env sel r = get_servers env sel Readers DatabaseName ''no readers'' r"

definition GetOrUpdateWriters :: "renv \<Rightarrow> selection \<Rightarrow> router \<Rightarrow> (goerr + string list) \<times> router" where
  "GetOrUpdateWriters env sel r = get_servers env sel Writers (\<lambda>_. sel_Name sel) ''no writers'' r"

definition Readers_of :: "renv \<Rightarrow> string \<Rightarrow> router \<Rightarrow> string list \<times> router" where
  "Readers_of env database r =
     (case getTable env database r of (None, r1) \<Rightarrow> ([], r1) | (Some t, r1) \<Rightarrow> (Readers t, r1))"

definition Writers_of :: "renv \<Rightarrow> string \<Rightarrow> router \<Rightarrow> string list \<times> router" where
  "Writers_of env database r =
     (case getTable env database r of (None, r1) \<Rightarrow> ([], r1) | (Some t, r1) \<Rightarrow> (Writers t, r1))"

definition GetNameOfDefaultDatabase :: "renv \<Rightarrow> router \<Rightarrow> (goerr + string) \<times> router" where
  "GetNameOfDefaultDatabase env r =
     (case Router_readTable env None r of
        (Inl e, r1) \<Rightarrow> (Inl e, r1)
      | (Inr t, r1) \<Rightarrow>
          (case read_clock env r1 of (now, r2) \<Rightarrow>
             (Inr (DatabaseName t), storeRoutingTable (DatabaseName t) t now r2)))"

section \<open>Invalidation\<close>

text \<open>
  removeServerFromList works in place: append copies the tail over the removed entry in the array that the
  list shares with everybody who was given it. The result is the array afterwards and the length of the list.
\<close>

fun index_of :: "'a \<Rightarrow> 'a list \<Rightarrow> nat option" where
  "index_of x [] = None"
| "index_of x (y # ys) = (if y = x then Some 0 else map_option Suc (index_of x ys))"

definition removeServerInPlace :: "string list \<Rightarrow> string \<Rightarrow> string list \<times> nat" where
  "removeServerInPlace arr server =
     (case index_of server arr of
        Some i \<Rightarrow> (take i arr @ drop (Suc i) arr @ [last arr], length arr - 1)
      | None \<Rightarrow> (arr, length arr))"

definition removeServerFromList :: "string list \<Rightarrow> string \<Rightarrow> string list" where
  "removeServerFromList xs server = (case removeServerInPlace xs server of (arr, n) \<Rightarrow> take n arr)"

definition on_table :: "(routing_table \<Rightarrow> routing_table) \<Rightarrow> databaseRouter \<Rightarrow> databaseRouter" where
  "on_table f d = d\<lparr>tbl := f (tbl d)\<rparr>"

definition InvalidateWriter_at :: "string \<Rightarrow> string \<Rightarrow> router \<Rightarrow> router" where
  "InvalidateWriter_at db server r =
     (case map_of (dbRouters r) db of
        None \<Rightarrow> r
      | Some d \<Rightarrow> r\<lparr>dbRouters := map_put db (on_table (\<lambda>t. t\<lparr>Writers := removeServerFromList (Writers t) server\<rparr>) d) (dbRouters r)\<rparr>)"

definition InvalidateReader_at :: "string \<Rightarrow> string \<Rightarrow> router \<Rightarrow> router" where
  "InvalidateReader_at db server r =
     (case map_of (dbRouters r) db of
        None \<Rightarrow> r
      | Some d \<Rightarrow> r\<lparr>dbRouters := map_put db (on_table (\<lambda>t. t\<lparr>Readers := removeServerFromList (Readers t) server\<rparr>) d) (dbRouters r)\<rparr>)"

definition without_server :: "string \<Rightarrow> routing_table \<Rightarrow> routing_table" where
  "without_server server t =
     t\<lparr>Routers := removeServerFromList (Routers t) server, Readers := removeServerFromList (Readers t) server,
       Writers := removeServerFromList (Writers t) server\<rparr>"

definition InvalidateServer_all :: "string \<Rightarrow> router \<Rightarrow> router" where
  "InvalidateServer_all server r =
     r\<lparr>dbRouters := map (\<lambda>(n, d). (n, on_table (without_server server) d)) (dbRouters r)\<rparr>"

definition CleanUp_router :: "renv \<Rightarrow> router \<Rightarrow> router" where
  "CleanUp_router env r =
     (case read_clock env r of (now, r1) \<Rightarrow>
        r1\<lparr>dbRouters := filter (\<lambda>(n, d). \<not> unix now > dueUnix d) (dbRouters r1)\<rparr>)"

section \<open>Parsing a routing record\<close>

fun all_strings :: "goval list \<Rightarrow> string list option" where
  "all_strings [] = Some []"
| "all_strings (v # vs) = do {s \<leftarrow> as_string v; ss \<leftarrow> all_strings vs; Some (s # ss)}"

definition parse_entry :: "goval \<Rightarrow> routing_table \<Rightarrow> routing_table option" where
  "parse_entry x t =
     do {
       m \<leftarrow> as_map x;
       addressesX \<leftarrow> lookup_as as_list m ''addresses'';
       addresses \<leftarrow> all_strings addressesX;
       role \<leftarrow> lookup_as as_string m ''role'';
       Some (if role = ''READ'' then t\<lparr>Readers := addresses\<rparr>
             else if role = ''WRITE'' then t\<lparr>Writers := addresses\<rparr>
             else if role = ''ROUTE'' then t\<lparr>Routers := addresses\<rparr> else t)
     }"

fun parse_entries :: "goval list \<Rightarrow> routing_table \<Rightarrow> routing_table option" where
  "parse_entries [] t = Some t"
| "parse_entries (x # xs) t = do {t1 \<leftarrow> parse_entry x t; parse_entries xs t1}"

text \<open>The outer \<^const>\<open>None\<close> is an index out of range, the inner one a nil table.\<close>

definition parseRoutingTableRecord :: "goval list \<Rightarrow> routing_table option option" where
  "parseRoutingTableRecord vals =
     do {
       v0 \<leftarrow> at vals 0;
       case as_int64 v0 of
         None \<Rightarrow> Some None
       | Some ttl \<Rightarrow> do {
           v1 \<leftarrow> at vals 1;
           case as_list v1 of
             None \<Rightarrow> Some None
           | Some xs \<Rightarrow>
               Some (parse_entries xs
                 \<lparr>TimeToLive = sint ttl, DatabaseName = [], Routers = [], Readers = [], Writers = []\<rparr>)
         }
     }"

section \<open>Coordination of concurrent updates\<close>

text \<open>
  The part of getOrUpdateTable that other goroutines see: the map of the updates in progress with the channels
  that wait for each. Channels are numbered; closing a channel twice would panic.
\<close>

record flight =
  updating :: "(updateKey \<times> nat list) list"
  updaters :: "updateKey list"
  waiting :: "nat list"
  closed_chans :: "nat list"
  next_chan :: nat

datatype gou = Wait nat | Update

text \<open>Under the lock, when no valid table was found.\<close>

definition gou_lock :: "updateKey \<Rightarrow> flight \<Rightarrow> gou \<times> flight" where
  "gou_lock k f =
     (case map_of (updating f) k of
        Some waiters \<Rightarrow>
          (Wait (next_chan f),
           f\<lparr>updating := map_put k (waiters @ [next_chan f]) (updating f), waiting := next_chan f # waiting f,
             next_chan := next_chan f + 1\<rparr>)
      | None \<Rightarrow> (Update, f\<lparr>updating := map_put k [] (updating f), updaters := k # updaters f\<rparr>))"

text \<open>After the update: all waiters are notified and the entry goes.\<close>

definition gou_finish :: "updateKey \<Rightarrow> flight \<Rightarrow> flight" where
  "gou_finish k f =
     f\<lparr>closed_chans := closed_chans f @ (case map_of (updating f) k of None \<Rightarrow> [] | Some ws \<Rightarrow> ws),
       updating := map_del k (updating f), updaters := remove1 k (updaters f)\<rparr>"

inductive fstep :: "flight \<Rightarrow> flight \<Rightarrow> bool" where
  locked: "fstep f (snd (gou_lock k f))"
| finished: "k \<in> set (updaters f) \<Longrightarrow> fstep f (gou_finish k f)"
| notified: "ch \<in> set (waiting f) \<Longrightarrow> ch \<in> set (closed_chans f) \<Longrightarrow> fstep f (f\<lparr>waiting := remove1 ch (waiting f)\<rparr>)"
| timed_out: "ch \<in> set (waiting f) \<Longrightarrow> fstep f (f\<lparr>waiting := remove1 ch (waiting f)\<rparr>)"

inductive_cases fstepE: "fstep f g"

definition init_flight :: "flight \<Rightarrow> bool" where
  "init_flight f \<longleftrightarrow> f = \<lparr>updating = [], updaters = [], waiting = [], closed_chans = [], next_chan = 0\<rparr>"

definition pending_chans :: "(updateKey \<times> nat list) list \<Rightarrow> nat list" where
  "pending_chans m = concat (map snd m)"

definition flight_inv :: "flight \<Rightarrow> bool" where
  "flight_inv f \<longleftrightarrow>
     wf_map (updating f) \<and> distinct (updaters f) \<and> set (updaters f) = fst ` set (updating f) \<and>
     distinct (closed_chans f @ pending_chans (updating f)) \<and>
     set (waiting f) \<subseteq> set (closed_chans f @ pending_chans (updating f)) \<and>
     (\<forall>ch \<in> set (closed_chans f @ pending_chans (updating f)). ch < next_chan f)"

lemma pending_put:
  "wf_map m \<Longrightarrow> map_of m k = Some ws \<Longrightarrow> ch \<notin> set (pending_chans m) \<Longrightarrow> distinct (pending_chans m) \<Longrightarrow>
   distinct (pending_chans (map_put k (ws @ [ch]) m)) \<and>
   set (pending_chans (map_put k (ws @ [ch]) m)) = insert ch (set (pending_chans m))"
  by (induction k "ws @ [ch]" m rule: map_put.induct)
     (auto simp: pending_chans_def wf_map_def split: if_splits)

lemma pending_new:
  "map_of m k = None \<Longrightarrow> pending_chans (map_put k [] m) = pending_chans m"
  by (induction k "[] :: nat list" m rule: map_put.induct) (auto simp: pending_chans_def split: if_splits)

lemma pending_del:
  "wf_map m \<Longrightarrow> map_of m k = Some ws \<Longrightarrow> distinct (pending_chans m) \<Longrightarrow>
   set (pending_chans m) = set ws \<union> set (pending_chans (map_del k m)) \<and>
   distinct (ws @ pending_chans (map_del k m))"
proof (induction k m rule: map_del.induct)
  case (2 k k' v' m)
  have nd: "k = k' \<Longrightarrow> map_del k m = m"
    using 2(3) by (induction m) (auto simp: wf_map_def)
  show ?case
    using 2 nd by (cases "k = k'") (auto simp: pending_chans_def wf_map_def)
qed simp

lemma fstep_inv: "flight_inv f \<Longrightarrow> fstep f g \<Longrightarrow> flight_inv g"
proof (elim fstepE)
  fix k assume inv: "flight_inv f" and g: "g = snd (gou_lock k f)"
  show "flight_inv g"
  proof (cases "map_of (updating f) k")
    case None
    then have "k \<notin> fst ` set (updating f)" by (simp add: map_of_eq_None_iff)
    with inv None g show ?thesis
      by (auto simp: flight_inv_def gou_lock_def pending_new)
  next
    case (Some ws)
    have nc: "next_chan f \<notin> set (closed_chans f @ pending_chans (updating f))"
      using inv by (auto simp: flight_inv_def)
    have pp: "distinct (pending_chans (map_put k (ws @ [next_chan f]) (updating f)))"
      "set (pending_chans (map_put k (ws @ [next_chan f]) (updating f))) = insert (next_chan f) (set (pending_chans (updating f)))"
      using pending_put [of "updating f" k ws "next_chan f"] Some inv nc by (auto simp: flight_inv_def)
    have k: "insert k (fst ` set (updating f)) = fst ` set (updating f)"
      using Some by (force dest: map_of_SomeD)
    show ?thesis
      using inv Some g pp nc k by (auto simp: flight_inv_def gou_lock_def less_Suc_eq)
  qed
next
  fix k assume inv: "flight_inv f" and g: "g = gou_finish k f" and k: "k \<in> set (updaters f)"
  then obtain ws where ws: "map_of (updating f) k = Some ws"
    by (metis flight_inv_def map_of_eq_None_iff not_None_eq)
  have wf: "wf_map (updating f)" and d: "distinct (pending_chans (updating f))"
    using inv by (auto simp: flight_inv_def)
  note pd = pending_del [OF wf ws d]
  show "flight_inv g"
    using inv g ws pd wf by (auto simp: flight_inv_def gou_finish_def)
next
  fix ch assume inv: "flight_inv f" and g: "g = f\<lparr>waiting := remove1 ch (waiting f)\<rparr>"
  then show "flight_inv g" by (auto simp: flight_inv_def dest: notin_set_remove1)
next
  fix ch assume inv: "flight_inv f" and g: "g = f\<lparr>waiting := remove1 ch (waiting f)\<rparr>"
  then show "flight_inv g" by (auto simp: flight_inv_def dest: notin_set_remove1)
qed

interpretation flight_run: stepping init_flight fstep flight_inv
proof unfold_locales
  show "flight_inv f" if "init_flight f" for f
    using that by (simp add: init_flight_def flight_inv_def pending_chans_def)
  show "flight_inv g" if "flight_inv f" "fstep f g" for f g
    using that by (rule fstep_inv)
qed

section \<open>Properties\<close>

text \<open>
  C36: concurrent requests for the same table share one update. However the goroutines interleave, at most one of
  them updates a key at a time, every goroutine that still waits is either notified already or waits for an
  update that is in progress and will notify it, and no channel is closed twice.
\<close>

theorem update_single_flight:
  assumes "init_flight f0" "fstep\<^sup>*\<^sup>* f0 f"
  shows "distinct (updaters f) \<and> distinct (closed_chans f) \<and>
    (\<forall>ch \<in> set (waiting f). ch \<in> set (closed_chans f) \<or>
       (\<exists>k ws. k \<in> set (updaters f) \<and> map_of (updating f) k = Some ws \<and> ch \<in> set ws))"
proof -
  have inv: "flight_inv f" by (rule flight_run.reachable_from_init [OF assms])
  have "\<exists>k ws. k \<in> set (updaters f) \<and> map_of (updating f) k = Some ws \<and> ch \<in> set ws"
    if ch: "ch \<in> set (pending_chans (updating f))" for ch
  proof -
    obtain k ws where "(k, ws) \<in> set (updating f)" "ch \<in> set ws"
      using ch by (auto simp: pending_chans_def)
    moreover from this have "map_of (updating f) k = Some ws"
      using inv by (auto simp: flight_inv_def wf_map_def)
    moreover from this have "k \<in> set (updaters f)"
      using inv unfolding flight_inv_def by (metis map_of_eq_None_iff option.distinct(1))
    ultimately show ?thesis by blast
  qed
  moreover have "distinct (updaters f)" "distinct (closed_chans f)"
    "set (waiting f) \<subseteq> set (closed_chans f) \<union> set (pending_chans (updating f))"
    using inv by (simp_all add: flight_inv_def)
  ultimately show ?thesis by blast
qed

definition flight0 :: flight where
  "flight0 = \<lparr>updating = [], updaters = [], waiting = [], closed_chans = [], next_chan = 0\<rparr>"

theorem update_single_flight_witness:
  "let f = snd (gou_lock (ByDatabase ''d'') (snd (gou_lock (ByDatabase ''d'') flight0)))
   in waiting f = [0] \<and> distinct (updaters f) \<and> (\<exists>k ws. k \<in> set (updaters f) \<and> map_of (updating f) k = Some ws \<and> 0 \<in> set ws)"
proof -
  let ?f1 = "snd (gou_lock (ByDatabase ''d'') flight0)"
  let ?f2 = "snd (gou_lock (ByDatabase ''d'') ?f1)"
  have i: "init_flight flight0" by (simp add: init_flight_def flight0_def)
  have "fstep\<^sup>*\<^sup>* flight0 ?f2"
    by (rule rtranclp.rtrancl_into_rtrancl [OF r_into_rtranclp]) (rule fstep.locked)+
  note u = update_single_flight [OF i this]
  have w: "waiting ?f2 = [0]" "closed_chans ?f2 = []" by (simp_all add: flight0_def gou_lock_def)
  with u show ?thesis unfolding Let_def by (metis empty_iff list.set(1) list.set_intros(1))
qed

lemma index_of_remove1:
  "index_of x xs = Some i \<Longrightarrow> take i xs @ drop (Suc i) xs = remove1 x xs \<and> i < length xs \<and> xs ! i = x"
  by (induction xs arbitrary: i) (auto split: if_splits)

lemma index_of_None: "index_of x xs = None \<longleftrightarrow> x \<notin> set xs"
  by (induction xs) auto

lemma map_of_map_values: "map_of (map (\<lambda>(n, d). (n, f d)) m) n = map_option f (map_of m n)"
  by (induction m) auto

lemma removeServerFromList_remove1: "removeServerFromList xs x = remove1 x xs"
proof (cases "index_of x xs")
  case None
  then have "x \<notin> set xs" by (simp add: index_of_None)
  with None show ?thesis by (simp add: removeServerFromList_def removeServerInPlace_def remove1_idem)
next
  case (Some i)
  note r = index_of_remove1 [OF Some]
  have "x \<in> set xs" using Some index_of_None [of x xs] by auto
  then have "length (remove1 x xs) = length xs - 1" by (simp add: length_remove1)
  then have "take (length xs - 1) (remove1 x xs @ [last xs]) = remove1 x xs" by simp
  then have "take (length xs - 1) (take i xs @ drop (Suc i) xs @ [last xs]) = remove1 x xs"
    using r by (metis append.assoc)
  then show ?thesis using Some by (simp add: removeServerFromList_def removeServerInPlace_def)
qed

text \<open>
  a deactivated server disappears from every routing table. When the lists of the tables have no duplicates,
  InvalidateServer leaves the server in none of the lists of any table, keeps the order and every other server,
  and does not change when a table expires.
\<close>

lemma invalidate_server_removes:
  assumes "map_of (dbRouters (InvalidateServer_all server r)) n = Some d"
  shows "\<exists>d0. map_of (dbRouters r) n = Some d0 \<and> dueUnix d = dueUnix d0 \<and>
    Readers (tbl d) = remove1 server (Readers (tbl d0)) \<and> Writers (tbl d) = remove1 server (Writers (tbl d0)) \<and>
    Routers (tbl d) = remove1 server (Routers (tbl d0)) \<and>
    (distinct (Readers (tbl d0)) \<longrightarrow> server \<notin> set (Readers (tbl d))) \<and>
    (distinct (Writers (tbl d0)) \<longrightarrow> server \<notin> set (Writers (tbl d))) \<and>
    (distinct (Routers (tbl d0)) \<longrightarrow> server \<notin> set (Routers (tbl d)))"
proof -
  from assms obtain d0 where "map_of (dbRouters r) n = Some d0" "d = on_table (without_server server) d0"
    by (auto simp: InvalidateServer_all_def map_of_map_values)
  then show ?thesis
    by (simp add: on_table_def without_server_def removeServerFromList_remove1)
qed

definition sample_table :: routing_table where
  "sample_table = \<lparr>TimeToLive = 300, DatabaseName = ''neo4j'', Routers = [''a''], Readers = [], Writers = [''a'', ''b'']\<rparr>"

definition sample_router :: router where
  "sample_router = New_router\<lparr>dbRouters := [(''alias'', \<lparr>dueUnix = 1000, tbl = sample_table\<rparr>)]\<rparr>"

theorem invalidate_server_removes_witness:
  "map_option (Writers \<circ> tbl) (map_of (dbRouters (InvalidateServer_all ''a'' sample_router)) ''alias'') = Some [''b'']"
proof -
  let ?d = "on_table (without_server ''a'') \<lparr>dueUnix = 1000, tbl = sample_table\<rparr>"
  have "map_of (dbRouters (InvalidateServer_all ''a'' sample_router)) ''alias'' = Some ?d"
    by (simp add: InvalidateServer_all_def sample_router_def)
  from invalidate_server_removes [OF this] this show ?thesis
    by (auto simp: sample_router_def sample_table_def)
qed

text \<open>
  the list of servers that a caller was given changes under it. When a server other than the last is
  invalidated, the slice that GetOrUpdateReaders returned before no longer shows that server, but shows the last
  server twice: the removal shifts the shared array in place.
\<close>

lemma invalidation_visible_to_holders:
  assumes "distinct arr" "server \<in> set arr" "server \<noteq> last arr"
  shows "let view = fst (removeServerInPlace arr server) in
    length view = length arr \<and> server \<notin> set view \<and> view = remove1 server arr @ [last arr] \<and>
    last arr \<in> set (remove1 server arr)"
proof -
  obtain i where i: "index_of server arr = Some i"
    using assms(2) index_of_None [of server arr] by auto
  note r = index_of_remove1 [OF i]
  have ne: "arr \<noteq> []" using assms(2) by auto
  have "fst (removeServerInPlace arr server) = remove1 server arr @ [last arr]"
    using i r by (simp add: removeServerInPlace_def flip: append.assoc)
  moreover have "length (remove1 server arr) = length arr - 1"
    using assms(2) by (simp add: length_remove1)
  moreover have "server \<notin> set (remove1 server arr)" "last arr \<in> set (remove1 server arr)"
    using assms ne by (simp_all add: in_set_remove1)
  ultimately show ?thesis
    using assms(3) ne by (simp add: Let_def)
qed

theorem invalidation_visible_to_holders_witness:
  "fst (removeServerInPlace [''a'', ''b'', ''c''] ''a'') = [''b'', ''c'', ''c'']"
  using invalidation_visible_to_holders [of "[''a'', ''b'', ''c'']" "''a''"] by (simp add: Let_def)

lemma read_clock_simps [simp]:
  "fst (read_clock env r) = clock env (ticks r)" "dbRouters (snd (read_clock env r)) = dbRouters r"
  "contacts (snd (read_clock env r)) = contacts r"
  by (simp_all add: read_clock_def)

lemma getTableLocked_fields:
  "dbRouters (snd (getTableLocked env d r)) = dbRouters r" "contacts (snd (getTableLocked env d r)) = contacts r"
  by (simp_all add: getTableLocked_def read_clock_def)

lemma getTableLocked_valid:
  "(\<And>k. unix (clock env k) < dueUnix d) \<Longrightarrow> fst (getTableLocked env (Some d) r) = Some (tbl d)"
  by (simp add: getTableLocked_def read_clock_def)

text \<open>A cached table that stays valid is returned without any contact.\<close>

lemma getOrUpdateTable_cached:
  assumes "map_of (dbRouters r) (sel_Name sel) = Some d" "\<And>k. unix (clock env k) < dueUnix d"
  shows "\<exists>r1. getOrUpdateTable env sel r = (Inr (tbl d), r1) \<and> dbRouters r1 = dbRouters r \<and> contacts r1 = contacts r"
proof -
  have "fst (getTableLocked env (Some d) r) = Some (tbl d)" by (rule getTableLocked_valid [OF assms(2)])
  then obtain r1 where r1: "getTableLocked env (Some d) r = (Some (tbl d), r1)" by (metis prod.collapse)
  with getTableLocked_fields [of env "Some d" r] assms(1) show ?thesis
    by (simp add: getOrUpdateTable_def)
qed

lemma map_of_Invalidate_other: "n \<noteq> n' \<Longrightarrow> map_of (dbRouters (Invalidate n r)) n' = map_of (dbRouters r) n'"
  by (simp add: Invalidate_def split: option.split)

lemma contacts_Invalidate [simp]: "contacts (Invalidate n r) = contacts r"
  by (simp add: Invalidate_def split: option.split)

lemma retry_cached:
  assumes "map_of (dbRouters r) (sel_Name sel) = Some d" "\<And>k. unix (clock env k) < dueUnix d"
    and "DatabaseName (tbl d) \<noteq> sel_Name sel"
  shows "\<exists>r1. retry_table env sel Readers DatabaseName n (tbl d) r = (Inr (tbl d), r1) \<and> contacts r1 = contacts r"
  using assms(1)
proof (induction n arbitrary: r)
  case (Suc n)
  have "map_of (dbRouters (Invalidate (DatabaseName (tbl d)) r)) (sel_Name sel) = Some d"
    using Suc.prems assms(3) by (simp add: map_of_Invalidate_other)
  from getOrUpdateTable_cached [where env = env, OF this assms(2)] this obtain r1 where r1:
    "getOrUpdateTable env sel (Invalidate (DatabaseName (tbl d)) r) = (Inr (tbl d), r1)"
    "map_of (dbRouters r1) (sel_Name sel) = Some d" "contacts r1 = contacts r"
    by auto
  with Suc.IH [of r1] show ?case by auto
qed simp

text \<open>
  the retries for missing readers can be in vain. When a table without readers is cached under the name that
  was asked for and the server reported another name for it (an alias, or another spelling), the retry loop of
  GetOrUpdateReaders invalidates the reported name only: no router is contacted in any of the retries, and the
  call ends with the error that there are no readers, however the cluster changes meanwhile.
\<close>

lemma readers_of_alias_not_refreshed:
  assumes "map_of (dbRouters r) (sel_Name sel) = Some d" "Readers (tbl d) = []"
    and "DatabaseName (tbl d) \<noteq> sel_Name sel" "\<And>k. unix (clock env k) < dueUnix d"
  shows "\<exists>r1. GetOrUpdateReaders env sel r =
      (Inl (ReadRoutingTableError (Some (PlainError ''no readers'')) (rootRouter env)), r1) \<and> contacts r1 = contacts r"
proof -
  obtain r1 where r1: "getOrUpdateTable env sel r = (Inr (tbl d), r1)" "dbRouters r1 = dbRouters r"
    "contacts r1 = contacts r"
    using getOrUpdateTable_cached [where env = env, OF assms(1,4)] by blast
  have "map_of (dbRouters r1) (sel_Name sel) = Some d" using r1 assms(1) by simp
  from retry_cached [where env = env and n = 100, OF this assms(4,3)] obtain r2 where
    "retry_table env sel Readers DatabaseName 100 (tbl d) r1 = (Inr (tbl d), r2)" "contacts r2 = contacts r1"
    by blast
  with r1 assms(2) show ?thesis
    by (simp add: GetOrUpdateReaders_def get_servers_def wrapError_def)
qed

definition sample_env :: renv where
  "sample_env = \<lparr>clock = (\<lambda>_. 0), discover = (\<lambda>_. RouteOk (sample_table\<lparr>Readers := [''c'']\<rparr>)), bookmarksErr = None,
     rootRouter = ''a'', getRouters = None\<rparr>"

definition sample_sel :: selection where
  "sample_sel = \<lparr>sel_Name = ''alias'', IsHomeDbGuess = False, ImpersonatedUser = [], HomeDbCacheKey = []\<rparr>"

theorem readers_of_alias_not_refreshed_witness:
  "\<exists>r1. GetOrUpdateReaders sample_env sample_sel sample_router =
     (Inl (ReadRoutingTableError (Some (PlainError ''no readers'')) ''a''), r1) \<and> contacts r1 = 0"
proof -
  have "map_of (dbRouters sample_router) (sel_Name sample_sel) = Some \<lparr>dueUnix = 1000, tbl = sample_table\<rparr>"
    by (simp add: sample_router_def sample_sel_def)
  from readers_of_alias_not_refreshed [where env = sample_env, OF this] show ?thesis
    by (simp add: sample_table_def sample_sel_def sample_env_def sample_router_def New_router_def unix_def)
qed

lemma sint_in_range: "- (2 ^ 63) \<le> k \<Longrightarrow> k < 2 ^ 63 \<Longrightarrow> sint (word_of_int k :: 64 word) = k"
  by (simp add: signed_of_int signed_take_bit_int_eq_self)

lemma ttl_duration_exact: "0 \<le> ttl \<Longrightarrow> ttl \<le> 9223372036 \<Longrightarrow> ttl_duration ttl = ttl * 1000000000"
  unfolding ttl_duration_def by (rule sint_in_range) auto

text \<open>
  a stored table is used until its time to live is over, and by nobody else. After storeRoutingTable at a
  time, a lookup of the database it was stored under (the requested name, or the one the server resolved when
  none was requested) returns the table exactly while fewer than TimeToLive whole seconds have passed; other
  databases are not affected. The time to live has to fit a 64-bit duration.
\<close>

lemma stored_table_until_due:
  assumes "0 \<le> TimeToLive t" "TimeToLive t \<le> 9223372036"
  shows "fst (getTable env (if db = [] then DatabaseName t else db) (storeRoutingTable db t now r)) =
      (if unix (clock env (ticks r)) < unix now + TimeToLive t then Some t else None) \<and>
    (\<forall>db'. db' \<noteq> (if db = [] then DatabaseName t else db) \<longrightarrow>
       fst (getTable env db' (storeRoutingTable db t now r)) = fst (getTable env db' r))"
proof -
  have "unix (now + TimeToLive t * 1000000000) = unix now + TimeToLive t"
    by (simp add: unix_def)
  then show ?thesis
    by (simp add: getTable_def storeRoutingTable_def getTableLocked_def read_clock_def Let_def
        ttl_duration_exact [OF assms])
qed

theorem stored_table_until_due_witness:
  "fst (getTable sample_env ''neo4j'' (storeRoutingTable [] sample_table 5 New_router)) = Some sample_table"
proof -
  have "0 \<le> TimeToLive sample_table" "TimeToLive sample_table \<le> 9223372036"
    by (simp_all add: sample_table_def)
  from stored_table_until_due [OF this, of sample_env "[]" 5 New_router] show ?thesis
    by (simp add: sample_env_def unix_def) (simp add: sample_table_def)
qed

end
