(* ===== verification/Streams.thy ===== *)
theory Streams
  imports Router
begin

text \<open>
  Result streams and the state of a connection: src/neo4j/internal/bolt/stream.go, response_handler.go, the
  messages a connection exchanges (requests of message_queue.go, responses of hydrator.go) and the fields of the
  struct bolt5 of bolt5.go. Streams are pointers in the code; here they are indexes into a heap that the
  connection carries. A response handler is a value that says which handler it is.
\<close>

section \<open>Messages\<close>

text \<open>
  Of a SUCCESS message, and of the summary built from it, the fields that the connection reads or sets; the
  counters, plans and notifications are carried along unread.
\<close>

record success =
  su_fields :: "string list"
  su_tfirst :: int
  su_qid :: int
  su_bookmark :: string
  connectionId :: string
  su_server :: string
  su_db :: string
  hasMore :: bool
  su_tlast :: int
  su_qtype :: int
  routingTable :: "routing_table option"
  configurationHints :: gomap

datatype message = MRecord "goval list" | MSuccess success | MFailure neo4j_error | MIgnored

datatype request =
    RqHello gomap | RqLogoff | RqLogon gomap | RqRoute "(string \<times> string) list" "string list" gomap
  | RqBegin gomap | RqRun string gomap "gomap option" | RqPull int | RqPullQid int int
  | RqDiscard int | RqDiscardQid int int | RqCommit | RqRollback | RqReset | RqGoodbye | RqTelemetry int

datatype handler =
    HHello | HLogoff | HLogon | HRoute | HBegin | HRun nat | HCommit | HRollback | HDiscard nat | HPull nat
  | HReset | HTelemetry

section \<open>Streams\<close>

record summary =
  Bookmark :: string
  QueryType :: int
  TLast :: int
  Database :: string
  Agent :: string
  Major :: int
  Minor :: int
  ServerName :: string
  TFirst :: int
  HadRecord :: bool
  HadKey :: bool

text \<open>A record carries the keys of its stream.\<close>

type_synonym rec = "string list \<times> goval list"

record stream =
  attached :: bool
  keys :: "string list"
  fifo :: "rec list"
  sum :: "summary option"
  s_err :: "goerr option"
  qid :: int
  fetchSize :: int
  s_key :: int
  endOfBatch :: bool
  discarding :: bool
  tfirst :: int
  hadRecord :: bool

definition new_stream :: "int \<Rightarrow> stream" where
  "new_stream n = \<lparr>attached = False, keys = [], fifo = [], sum = None, s_err = None, qid = 0, fetchSize = n, s_key = 0,
     endOfBatch = False, discarding = False, tfirst = 0, hadRecord = False\<rparr>"

text \<open>\<open>None\<close>: nothing is buffered and the stream is not over.\<close>

datatype next_result = NRecord rec | NSummary summary | NErr goerr

definition bufferedNext :: "stream \<Rightarrow> next_result option \<times> stream" where
  "bufferedNext s =
     (case fifo s of
        r # rs \<Rightarrow> (Some (NRecord r), s\<lparr>fifo := rs\<rparr>)
      | [] \<Rightarrow>
          (case s_err s of
             Some e \<Rightarrow> (Some (NErr e), s)
           | None \<Rightarrow> (case sum s of Some m \<Rightarrow> (Some (NSummary m), s) | None \<Rightarrow> (None, s))))"

definition emptyRecords :: "stream \<Rightarrow> stream" where
  "emptyRecords s = s\<lparr>fifo := []\<rparr>"

definition stream_Err :: "stream \<Rightarrow> goerr option" where
  "stream_Err s = (if fifo s \<noteq> [] then None else s_err s)"

definition push :: "rec \<Rightarrow> stream \<Rightarrow> stream" where
  "push r s = s\<lparr>fifo := fifo s @ [r]\<rparr>"

section \<open>The connection\<close>

datatype bstate = Ready | Streaming | Tx | StreamingTx | Failed | Dead | Unauthorized

record bolt =
  state :: bstate
  txId :: int
  curr :: "nat option"
  num :: int
  okey :: int
  heap :: "stream list"
  handlers :: "handler list"
  q_err :: "goerr option"
  inbox :: "(goerr + message) list"
  in_fail :: goerr
  outbuf :: "request list"
  wire :: "request list"
  n_writes :: nat
  bookmark :: string
  databaseName :: string
  b_err :: "goerr option"
  minor :: int
  lastQid :: int
  b_auth :: gomap
  resetAuth :: bool
  telemetryEnabled :: bool
  b_ssr :: bool
  readTimeout :: int
  connId :: string
  serverVersion :: string
  b_serverName :: string
  b_ticks :: nat
  pinned :: "string list"
  io_reported :: "goerr list"
  route_cell :: "routing_table option"
  sock_closed :: nat
  birthDate :: int
  idleDate :: int
  telemetryDone :: nat

text \<open>
  What the connection meets: the answers of the error listener to a server error (its own error, the server error
  as it leaves it, whether it calls ResetAuth on this connection), the clock in nanoseconds, the outcome of the
  n-th write, the result of closing the socket, the errors of packing a message, whether a pin callback is set,
  and the values of the package boltagent.
\<close>

record benv =
  on_neo4j_error :: "neo4j_error \<Rightarrow> goerr option \<times> neo4j_error \<times> bool"
  nanos :: "nat \<Rightarrow> int"
  write_err :: "nat \<Rightarrow> goerr option"
  close_err :: "goerr option"
  pack_errs :: "request \<Rightarrow> goerr list"
  pin_callback :: bool
  agent_info :: gomap

text \<open>
  The connection reads from \<open>inbox\<close>, what the server will have sent (a message, or an error of reading or hydrating
  it); when that is used up every read fails with \<open>in_fail\<close>.
\<close>

definition NewBolt5 :: "string \<Rightarrow> (goerr + message) list \<Rightarrow> goerr \<Rightarrow> int \<Rightarrow> bolt" where
  "NewBolt5 name inp' f now = \<lparr>state = Unauthorized, txId = 0, curr = None, num = 0, okey = 0, heap = [], handlers = [],
     q_err = None, inbox = inp', in_fail = f, outbuf = [], wire = [], n_writes = 0, bookmark = [], databaseName = [],
     b_err = None, minor = 0, lastQid = -1, b_auth = [], resetAuth = False, telemetryEnabled = False, b_ssr = False,
     readTimeout = -1, connId = [], serverVersion = [], b_serverName = name, b_ticks = 0, pinned = [],
     io_reported = [], route_cell = None, sock_closed = 0,
     birthDate = now, idleDate = now, telemetryDone = 0\<rparr>"

definition strm :: "bolt \<Rightarrow> nat \<Rightarrow> stream" where
  "strm b i = (if i < length (heap b) then heap b ! i else new_stream 0)"

definition upd :: "nat \<Rightarrow> (stream \<Rightarrow> stream) \<Rightarrow> bolt \<Rightarrow> bolt" where
  "upd i f b = b\<lparr>heap := (heap b)[i := f (strm b i)]\<rparr>"

definition clock_key :: "benv \<Rightarrow> bolt \<Rightarrow> int" where
  "clock_key env b = nanos env (b_ticks b)"

subsection \<open>Open streams\<close>

definition streams_attach :: "nat \<Rightarrow> bolt \<Rightarrow> bolt" where
  "streams_attach i b =
     (if curr b \<noteq> None then b
      else upd i (\<lambda>s. s\<lparr>s_key := okey b\<rparr>) (b\<lparr>num := num b + 1, curr := Some i\<rparr>))"

definition streams_remove :: "nat \<Rightarrow> bolt \<Rightarrow> bolt" where
  "streams_remove i b =
     (let b1 = upd i (\<lambda>s. s\<lparr>s_key := 0\<rparr>) (b\<lparr>num := num b - 1\<rparr>)
      in if curr b1 = Some i then b1\<lparr>curr := None\<rparr> else b1)"

definition streams_detach :: "summary option \<Rightarrow> goerr option \<Rightarrow> bolt \<Rightarrow> bolt" where
  "streams_detach sm e b =
     (case curr b of None \<Rightarrow> b | Some i \<Rightarrow> streams_remove i (upd i (\<lambda>s. s\<lparr>sum := sm, s_err := e\<rparr>) b))"

definition streams_pause :: "bolt \<Rightarrow> bolt" where
  "streams_pause b = b\<lparr>curr := None\<rparr>"

definition streams_resume :: "nat \<Rightarrow> bolt \<Rightarrow> bolt" where
  "streams_resume i b = (if curr b \<noteq> None then b else b\<lparr>curr := Some i\<rparr>)"

definition streams_reset :: "benv \<Rightarrow> bolt \<Rightarrow> bolt" where
  "streams_reset env b = b\<lparr>num := 0, curr := None, okey := clock_key env b, b_ticks := b_ticks b + 1\<rparr>"

text \<open>A stream handle is an index that exists; anything else is an invalid handle.\<close>

definition errInvalidStream :: goerr where
  "errInvalidStream = PlainError ''invalid stream handle''"

definition getUnsafe :: "nat \<Rightarrow> bolt \<Rightarrow> goerr option" where
  "getUnsafe h b = (if h < length (heap b) then None else Some errInvalidStream)"

definition isSafe :: "nat \<Rightarrow> bolt \<Rightarrow> goerr option" where
  "isSafe i b = (if s_key (strm b i) = okey b then None else Some errInvalidStream)"

section \<open>Lemmas\<close>

lemma length_upd [simp]: "length (heap (upd i f b)) = length (heap b)"
  by (simp add: upd_def)

lemma strm_upd: "strm (upd i f b) j = (if i = j \<and> j < length (heap b) then f (strm b j) else strm b j)"
  by (simp add: strm_def upd_def nth_list_update)

lemma strm_upd_same [simp]: "i < length (heap b) \<Longrightarrow> strm (upd i f b) i = f (strm b i)"
  by (simp add: strm_upd)

lemma upd_fields [simp]:
  "state (upd i f b) = state b" "txId (upd i f b) = txId b" "curr (upd i f b) = curr b" "num (upd i f b) = num b"
  "okey (upd i f b) = okey b" "handlers (upd i f b) = handlers b" "q_err (upd i f b) = q_err b"
  "inbox (upd i f b) = inbox b" "in_fail (upd i f b) = in_fail b" "outbuf (upd i f b) = outbuf b"
  "wire (upd i f b) = wire b" "b_err (upd i f b) = b_err b" "lastQid (upd i f b) = lastQid b"
  "n_writes (upd i f b) = n_writes b" "bookmark (upd i f b) = bookmark b" "minor (upd i f b) = minor b"
  by (simp_all add: upd_def)

lemma strm_heap: "heap b' = heap b \<Longrightarrow> strm b' i = strm b i"
  by (simp add: strm_def)

end
