(* ===== verification/Bolt5.thy ===== *)
theory Bolt5
  imports Streams "HOL-Library.Signed_Division"
begin

text \<open>
  A connection that speaks Bolt 5: src/neo4j/internal/bolt/bolt5.go, the queue of response handlers it uses
  (message_queue.go), handleTerminatedContextError of connections.go, reauth.go, notifications.go and
  NotificationConfig.ToMeta of internal/db/connection.go. An operation takes the environment and the connection
  and returns its results and the connection. The loops that wait for the end of a stream are partial: a result
  of \<^const>\<open>None\<close> is a loop that never ends.
\<close>

section \<open>Errors and the state of the connection\<close>

definition checkStreams :: "bolt \<Rightarrow> bolt" where
  "checkStreams b =
     (if num b \<le> 0 then
        (case state b of StreamingTx \<Rightarrow> b\<lparr>state := Tx\<rparr> | Streaming \<Rightarrow> b\<lparr>state := Ready\<rparr> | _ \<Rightarrow> b)
      else b)"

fun contextTerminatedErr :: "goerr \<Rightarrow> bool" where
  "contextTerminatedErr (ConnectionWriteTimeout _) = True"
| "contextTerminatedErr (ConnectionReadTimeout _) = True"
| "contextTerminatedErr (ConnectionWriteCanceled _) = True"
| "contextTerminatedErr (ConnectionReadCanceled _) = True"
| "contextTerminatedErr _ = False"

definition handleTerminatedContextError :: "benv \<Rightarrow> goerr \<Rightarrow> bolt \<Rightarrow> goerr option \<times> bolt" where
  "handleTerminatedContextError env err b =
     (if \<not> contextTerminatedErr err then (None, b)
      else
        (case close_err env of
           None \<Rightarrow> (None, b\<lparr>sock_closed := sock_closed b + 1\<rparr>)
         | Some e \<Rightarrow> (CombineErrors (Some err) (Some e), b\<lparr>sock_closed := sock_closed b + 1\<rparr>)))"

definition setError :: "benv \<Rightarrow> goerr \<Rightarrow> bool \<Rightarrow> bolt \<Rightarrow> bolt" where
  "setError env err fatal' b =
     (let b1 = (if b_err b = None then b\<lparr>b_err := Some err, state := Failed\<rparr> else b);
          b2 = (if fatal' then
                  (case handleTerminatedContextError env err b1 of
                     (Some e, b') \<Rightarrow> b'\<lparr>b_err := Some e, state := Dead\<rparr>
                   | (None, b') \<Rightarrow> b'\<lparr>state := Dead\<rparr>)
                else b1)
      in if curr b2 \<noteq> None then checkStreams (streams_detach None (Some err) b2) else b2)"

text \<open>The error as the callback leaves it and the connection; the caller may hold a pointer to the error.\<close>

definition onFailure :: "benv \<Rightarrow> neo4j_error \<Rightarrow> bolt \<Rightarrow> bolt" where
  "onFailure env failure b =
     (case on_neo4j_error env failure of
        (callbackErr, failure', ra) \<Rightarrow>
          let b1 = (if ra then b\<lparr>resetAuth := True\<rparr> else b);
              err = (case callbackErr of
                       None \<Rightarrow> Neo4jErr failure'
                     | Some e \<Rightarrow> the (CombineErrors (Some e) (Some (Neo4jErr failure'))))
          in setError env err (isFatalError (Some failure')) b1)"

definition onIoError :: "benv \<Rightarrow> goerr \<Rightarrow> bolt \<Rightarrow> bolt" where
  "onIoError env err b =
     setError env err True
       (if state b \<noteq> Failed \<and> state b \<noteq> Dead then b\<lparr>io_reported := io_reported b @ [err]\<rparr> else b)"

definition onNextMessage :: "benv \<Rightarrow> bolt \<Rightarrow> bolt" where
  "onNextMessage env b = b\<lparr>idleDate := clock_key env b, b_ticks := b_ticks b + 1\<rparr>"

section \<open>Response handlers\<close>

definition ToSummary :: "stream \<Rightarrow> bool \<times> bool" where
  "ToSummary s = (hadRecord s, keys s \<noteq> [])"

definition extractSummary :: "success \<Rightarrow> stream \<Rightarrow> bolt \<Rightarrow> summary" where
  "extractSummary su s b = \<lparr>Bookmark = su_bookmark su, QueryType = su_qtype su, TLast = su_tlast su, Database = su_db su,
     Agent = serverVersion b, Major = 5, Minor = minor b, ServerName = b_serverName b,
     TFirst = tfirst s, HadRecord = fst (ToSummary s), HadKey = snd (ToSummary s)\<rparr>"

definition readTimeoutHintName :: string where
  "readTimeoutHintName = ''connection.recv_timeout_seconds''"

definition initializeReadTimeoutHint :: "gomap \<Rightarrow> bolt \<Rightarrow> bolt" where
  "initializeReadTimeoutHint hints b =
     (case lookup_as as_int64 hints readTimeoutHintName of
        None \<Rightarrow> b
      | Some t \<Rightarrow>
          if sint t \<le> 0 then b else b\<lparr>readTimeout := sint (t * 1000000000)\<rparr>)"

definition initializeTelemetryEnabledHint :: "gomap \<Rightarrow> bolt \<Rightarrow> bolt" where
  "initializeTelemetryEnabledHint hints b =
     (case lookup_as as_bool hints ''telemetry.enabled'' of None \<Rightarrow> b | Some t \<Rightarrow> b\<lparr>telemetryEnabled := t\<rparr>)"

definition initializeSsrEnabledHint :: "gomap \<Rightarrow> bolt \<Rightarrow> bolt" where
  "initializeSsrEnabledHint hints b =
     (case lookup_as as_bool hints ''ssr.enabled'' of None \<Rightarrow> b | Some t \<Rightarrow> b\<lparr>b_ssr := t\<rparr>)"

definition onHelloSuccess :: "success \<Rightarrow> bolt \<Rightarrow> bolt" where
  "onHelloSuccess su b =
     initializeSsrEnabledHint (configurationHints su)
       (initializeTelemetryEnabledHint (configurationHints su)
         (initializeReadTimeoutHint (configurationHints su)
           (b\<lparr>connId := connectionId su, serverVersion := su_server su\<rparr>)))"

definition onCommitSuccess :: "success \<Rightarrow> bolt \<Rightarrow> bolt" where
  "onCommitSuccess su b = (if su_bookmark su \<noteq> [] then b\<lparr>bookmark := su_bookmark su\<rparr> else b)"

definition pin_database :: "benv \<Rightarrow> success \<Rightarrow> bolt \<Rightarrow> bolt" where
  "pin_database env su b = (if pin_callback env \<and> su_db su \<noteq> [] then b\<lparr>pinned := pinned b @ [su_db su]\<rparr> else b)"

definition runSuccess :: "benv \<Rightarrow> nat \<Rightarrow> success \<Rightarrow> bolt \<Rightarrow> bolt" where
  "runSuccess env i su b =
     (let b1 = upd i (\<lambda>s. s\<lparr>attached := True, keys := su_fields su, qid := su_qid su, tfirst := su_tfirst su\<rparr>)
                 (pin_database env su b);
          b2 = (if su_qid su > -1 then b1\<lparr>lastQid := su_qid su\<rparr> else b1)
      in streams_attach i b2)"

text \<open>The end of a stream: the onSuccess of the PULL and of the DISCARD handlers.\<close>

definition stream_done :: "nat \<Rightarrow> success \<Rightarrow> bolt \<Rightarrow> bolt" where
  "stream_done i su b =
     (if hasMore su then upd i (\<lambda>s. s\<lparr>endOfBatch := True\<rparr>) b
      else
        let m = extractSummary su (strm b i) b;
            b1 = (if Bookmark m \<noteq> [] then b\<lparr>bookmark := Bookmark m\<rparr> else b)
        in checkStreams (streams_remove i (upd i (\<lambda>s. s\<lparr>sum := Some m\<rparr>) b1)))"

definition stream_interrupted :: "nat \<Rightarrow> goerr \<Rightarrow> bolt \<Rightarrow> bolt" where
  "stream_interrupted i e b = checkStreams (streams_remove i (upd i (\<lambda>s. s\<lparr>s_err := Some e\<rparr>) b))"

definition pullRecord :: "nat \<Rightarrow> goval list \<Rightarrow> bolt \<Rightarrow> bolt" where
  "pullRecord i vs b =
     (let b1 = upd i (\<lambda>s. s\<lparr>hadRecord := True\<rparr>) b;
          b2 = (if discarding (strm b1 i) then upd i emptyRecords b1
                else upd i (\<lambda>s. push (keys s, vs) s) b1)
      in b2\<lparr>handlers := HPull i # handlers b2\<rparr>)"

text \<open>
  A handler applied to a message: \<^const>\<open>None\<close> when it has no callback for this kind of message.
\<close>

fun on_record :: "handler \<Rightarrow> goval list \<Rightarrow> bolt \<Rightarrow> bolt option" where
  "on_record (HPull i) vs b = Some (pullRecord i vs b)"
| "on_record _ vs b = None"

fun on_success :: "benv \<Rightarrow> handler \<Rightarrow> success \<Rightarrow> bolt \<Rightarrow> bolt" where
  "on_success env HHello su b = onHelloSuccess su b"
| "on_success env HRoute su b = b\<lparr>route_cell := routingTable su\<rparr>"
| "on_success env HBegin su b = pin_database env su b"
| "on_success env (HRun i) su b = runSuccess env i su b"
| "on_success env HCommit su b = onCommitSuccess su b"
| "on_success env (HDiscard i) su b = stream_done i su b"
| "on_success env (HPull i) su b =
     stream_done i su (if discarding (strm b i) then upd i emptyRecords b else b)"
| "on_success env HReset su b = b\<lparr>state := Ready\<rparr>"
| "on_success env HTelemetry su b = b\<lparr>telemetryDone := telemetryDone b + 1\<rparr>"
| "on_success env _ su b = b"

text \<open>The failure handlers of a stream store the failure in the stream before the connection handles it.\<close>

definition failed_stream :: "benv \<Rightarrow> nat \<Rightarrow> neo4j_error \<Rightarrow> bolt \<Rightarrow> bolt" where
  "failed_stream env i e b =
     onFailure env e (upd i (\<lambda>s. s\<lparr>s_err := Some (Neo4jErr (fst (snd (on_neo4j_error env e))))\<rparr>) b)"

fun on_failure :: "benv \<Rightarrow> handler \<Rightarrow> neo4j_error \<Rightarrow> bolt \<Rightarrow> bolt" where
  "on_failure env (HPull i) e b = failed_stream env i e b"
| "on_failure env (HDiscard i) e b = failed_stream env i e b"
| "on_failure env HReset e b =
     (if snd (snd (on_neo4j_error env e)) then b\<lparr>resetAuth := True\<rparr> else b)\<lparr>state := Dead\<rparr>"
| "on_failure env _ e b = onFailure env e b"

fun on_ignored :: "handler \<Rightarrow> bolt \<Rightarrow> bolt option" where
  "on_ignored (HPull i) b = Some (stream_interrupted i (PlainError ''stream interrupted while pulling results'') b)"
| "on_ignored (HDiscard i) b = Some (stream_interrupted i (PlainError ''stream interrupted while discarding results'') b)"
| "on_ignored HReset b = None"
| "on_ignored _ b = Some b"

section \<open>The message queue\<close>

text \<open>
  Appending a message: packing it may fail, once or more often, which is fatal; the message is built and the
  handler queued in any case.
\<close>

definition out_append :: "benv \<Rightarrow> request \<Rightarrow> bolt \<Rightarrow> bolt" where
  "out_append env rq b =
     foldl (\<lambda>b' e. setError env (fillServerName e (b_serverName b)) True b')
       (b\<lparr>outbuf := outbuf b @ [rq]\<rparr>) (pack_errs env rq)"

definition enqueueCallback :: "handler \<Rightarrow> bolt \<Rightarrow> bolt" where
  "enqueueCallback h b = b\<lparr>handlers := handlers b @ [h]\<rparr>"

definition append_msg :: "benv \<Rightarrow> request \<Rightarrow> handler \<Rightarrow> bolt \<Rightarrow> bolt" where
  "append_msg env rq h b = enqueueCallback h (out_append env rq b)"

text \<open>
  Sending: nothing is written when no message is pending; after a failed write the buffer is kept. A message is
  on \<open>wire\<close> once a write of it has succeeded.
\<close>

definition queue_send :: "benv \<Rightarrow> bolt \<Rightarrow> bolt" where
  "queue_send env b =
     (if outbuf b = [] then b
      else
        let b1 = b\<lparr>n_writes := n_writes b + 1\<rparr> in
        (case write_err env (n_writes b) of
           Some e \<Rightarrow> onIoError env e b1
         | None \<Rightarrow> b1\<lparr>wire := wire b @ outbuf b, outbuf := []\<rparr>))"

definition receiveMsg :: "benv \<Rightarrow> bolt \<Rightarrow> message option \<times> bolt" where
  "receiveMsg env b =
     (if q_err b \<noteq> None then (None, b)
      else
        let (r, b1) = (case inbox b of [] \<Rightarrow> (Inl (in_fail b), b) | m # ms \<Rightarrow> (m, b\<lparr>inbox := ms\<rparr>)) in
        (case r of
           Inl e \<Rightarrow> (None, onIoError env e (b1\<lparr>q_err := Some e\<rparr>))
         | Inr m \<Rightarrow> (Some m, onNextMessage env b1)))"

definition violation :: "string \<Rightarrow> goerr" where
  "violation k = PlainError (''protocol violation: the server sent an unexpected '' @ k @ '' response'')"

text \<open>The FAILURE that a receive returns is the one the error listener may have changed.\<close>

definition dispatch :: "benv \<Rightarrow> handler \<Rightarrow> message \<Rightarrow> bolt \<Rightarrow> goerr option \<times> bolt" where
  "dispatch env h msg b =
     (case msg of
        MRecord vs \<Rightarrow>
          (case on_record h vs b of None \<Rightarrow> (Some (violation ''RECORD''), b) | Some b1 \<Rightarrow> (None, b1))
      | MSuccess su \<Rightarrow> (None, on_success env h su b)
      | MFailure e \<Rightarrow> (Some (Neo4jErr (fst (snd (on_neo4j_error env e)))), on_failure env h e b)
      | MIgnored \<Rightarrow>
          (case on_ignored h b of None \<Rightarrow> (Some (violation ''IGNORED''), b) | Some b1 \<Rightarrow> (None, b1)))"

definition receive :: "benv \<Rightarrow> bolt \<Rightarrow> goerr option \<times> bolt" where
  "receive env b =
     (case receiveMsg env b of
        (None, b1) \<Rightarrow> (q_err b1, b1)
      | (Some msg, b1) \<Rightarrow>
          (case handlers b1 of
             [] \<Rightarrow> (Some (PlainError ''no more response callback to apply''), b1)
           | h # hs \<Rightarrow> dispatch env h msg (b1\<lparr>handlers := hs\<rparr>)))"


section \<open>What the handlers leave alone\<close>

text \<open>The handlers and the error functions never touch the input, the output or the number of streams.\<close>

definition io_frame :: "bolt \<Rightarrow> bolt \<Rightarrow> bool" where
  "io_frame b b' \<longleftrightarrow> inbox b' = inbox b \<and> in_fail b' = in_fail b \<and> q_err b' = q_err b \<and> outbuf b' = outbuf b \<and>
     wire b' = wire b \<and> n_writes b' = n_writes b \<and> length (heap b') = length (heap b) \<and> txId b' = txId b"

lemma io_frame_refl [simp, intro!]: "io_frame b b"
  by (simp add: io_frame_def)

lemma io_frame_trans: "io_frame a b \<Longrightarrow> io_frame b c \<Longrightarrow> io_frame a c"
  by (simp add: io_frame_def)

lemma io_frame_upd [simp]: "io_frame b (upd i f b') = io_frame b b'"
  by (simp add: io_frame_def)

lemma io_frame_update [simp]:
  "io_frame b (b'\<lparr>state := x1\<rparr>) = io_frame b b'" "io_frame b (b'\<lparr>b_err := x2\<rparr>) = io_frame b b'"
  "io_frame b (b'\<lparr>curr := x3\<rparr>) = io_frame b b'" "io_frame b (b'\<lparr>num := x4\<rparr>) = io_frame b b'"
  "io_frame b (b'\<lparr>handlers := x5\<rparr>) = io_frame b b'" "io_frame b (b'\<lparr>bookmark := x6\<rparr>) = io_frame b b'"
  "io_frame b (b'\<lparr>sock_closed := x7\<rparr>) = io_frame b b'" "io_frame b (b'\<lparr>io_reported := x8\<rparr>) = io_frame b b'"
  "io_frame b (b'\<lparr>resetAuth := x9\<rparr>) = io_frame b b'" "io_frame b (b'\<lparr>pinned := y1\<rparr>) = io_frame b b'"
  "io_frame b (b'\<lparr>lastQid := y2\<rparr>) = io_frame b b'" "io_frame b (b'\<lparr>route_cell := y3\<rparr>) = io_frame b b'"
  "io_frame b (b'\<lparr>telemetryDone := y4\<rparr>) = io_frame b b'" "io_frame b (b'\<lparr>readTimeout := y5\<rparr>) = io_frame b b'"
  "io_frame b (b'\<lparr>telemetryEnabled := y6\<rparr>) = io_frame b b'" "io_frame b (b'\<lparr>b_ssr := y7\<rparr>) = io_frame b b'"
  "io_frame b (b'\<lparr>connId := y8\<rparr>) = io_frame b b'" "io_frame b (b'\<lparr>serverVersion := y9\<rparr>) = io_frame b b'"
  "io_frame b (b'\<lparr>idleDate := z1\<rparr>) = io_frame b b'" "io_frame b (b'\<lparr>b_ticks := z2\<rparr>) = io_frame b b'"
  "io_frame b (b'\<lparr>okey := z3\<rparr>) = io_frame b b'" "io_frame b (b'\<lparr>databaseName := z4\<rparr>) = io_frame b b'"
  by (simp_all add: io_frame_def)

lemma io_frame_checkStreams [simp]: "io_frame b (checkStreams b') = io_frame b b'"
  by (simp add: checkStreams_def split: bstate.split)

lemma io_frame_streams [simp]:
  "io_frame b (streams_attach i b') = io_frame b b'" "io_frame b (streams_remove i b') = io_frame b b'"
  "io_frame b (streams_pause b') = io_frame b b'" "io_frame b (streams_resume i b') = io_frame b b'"
  "io_frame b (streams_reset env b') = io_frame b b'"
  by (simp_all add: streams_attach_def streams_remove_def streams_pause_def streams_resume_def streams_reset_def Let_def)

lemma io_frame_detach [simp]: "io_frame b (streams_detach sm e b') = io_frame b b'"
  by (simp add: streams_detach_def split: option.split)

lemma io_frame_setError [simp]: "io_frame b (setError env e f b') = io_frame b b'"
  by (simp add: setError_def handleTerminatedContextError_def Let_def split: option.split)

lemma io_frame_onFailure [simp]: "io_frame b (onFailure env e b') = io_frame b b'"
  by (simp add: onFailure_def Let_def split: prod.split option.split)

lemma io_frame_onIoError [simp]: "io_frame b (onIoError env e b') = io_frame b b'"
  by (simp add: onIoError_def)

lemma io_frame_pin [simp]: "io_frame b (pin_database env su b') = io_frame b b'"
  by (simp add: pin_database_def)

lemma io_frame_on_success [simp]: "io_frame b (on_success env h su b') = io_frame b b'"
  by (cases h) (simp_all add: onHelloSuccess_def initializeSsrEnabledHint_def initializeTelemetryEnabledHint_def
      initializeReadTimeoutHint_def runSuccess_def onCommitSuccess_def stream_done_def Let_def split: option.split)

lemma io_frame_on_failure [simp]: "io_frame b (on_failure env h e b') = io_frame b b'"
  by (cases h) (simp_all add: failed_stream_def)

lemma io_frame_if [simp]: "io_frame b (if P then b1 else b2) = (if P then io_frame b b1 else io_frame b b2)"
  by simp

lemma io_frame_on_record: "on_record h vs b' = Some b'' \<Longrightarrow> io_frame b b'' = io_frame b b'"
  by (cases h) (auto simp: pullRecord_def Let_def split: if_splits)

lemma io_frame_on_ignored: "on_ignored h b' = Some b'' \<Longrightarrow> io_frame b b'' = io_frame b b'"
  by (cases h) (auto simp: stream_interrupted_def)

lemma io_frame_dispatch [simp]: "io_frame b (snd (dispatch env h m b')) = io_frame b b'"
  by (auto simp: dispatch_def io_frame_on_record io_frame_on_ignored split: message.split option.split)

lemma io_frameD:
  assumes "io_frame b b'"
  shows "inbox b' = inbox b" "in_fail b' = in_fail b" "q_err b' = q_err b" "outbuf b' = outbuf b"
    "wire b' = wire b" "n_writes b' = n_writes b" "length (heap b') = length (heap b)" "txId b' = txId b"
  using assms by (simp_all add: io_frame_def)

lemmas onIoError_io [simp] = io_frameD [OF iffD2 [OF io_frame_onIoError io_frame_refl]]
lemmas setError_io [simp] = io_frameD [OF iffD2 [OF io_frame_setError io_frame_refl]]
lemmas dispatch_io [simp] = io_frameD [OF iffD2 [OF io_frame_dispatch io_frame_refl]]
lemmas checkStreams_io [simp] = io_frameD [OF iffD2 [OF io_frame_checkStreams io_frame_refl]]

lemma receive_shortens:
  assumes "receive env b = (None, b')"
  shows "length (inbox b') < length (inbox b)"
proof -
  from assms obtain m ms where m: "q_err b = None" "inbox b = Inr m # ms"
    by (auto simp: receive_def receiveMsg_def split: if_splits list.splits sum.splits option.splits prod.splits)
  let ?b = "onNextMessage env (b\<lparr>inbox := ms\<rparr>)"
  have "receiveMsg env b = (Some m, ?b)" using m by (simp add: receiveMsg_def)
  with assms obtain h hs where "b' = snd (dispatch env h m (?b\<lparr>handlers := hs\<rparr>))"
    by (auto simp: receive_def split: list.splits) (metis snd_conv)
  with m show ?thesis by (simp add: onNextMessage_def)
qed

function receiveAll :: "benv \<Rightarrow> bolt \<Rightarrow> goerr option \<times> bolt" where
  "receiveAll env b =
     (if handlers b = [] then (None, b)
      else (case receive env b of (Some e, b1) \<Rightarrow> (Some e, b1) | (None, b1) \<Rightarrow> receiveAll env b1))"
  by pat_completeness auto
termination
  by (relation "measure (\<lambda>(_, b). length (inbox b))") (auto dest: receive_shortens [OF sym])

declare receiveAll.simps [simp del]

section \<open>Checks\<close>

text \<open>The checks leave the connection as it is: they only return an error.\<close>

definition assertTxHandle :: "int \<Rightarrow> int \<Rightarrow> goerr option" where
  "assertTxHandle h1 h2 = (if h1 \<noteq> h2 then Some (PlainError InvalidTransactionError) else None)"

definition assertState :: "bstate list \<Rightarrow> bolt \<Rightarrow> goerr option" where
  "assertState allowed b =
     (case b_err b of
        Some e \<Rightarrow> Some e
      | None \<Rightarrow> if state b \<in> set allowed then None else Some (PlainError ''invalid state''))"

definition Version :: "bolt \<Rightarrow> int \<times> int" where
  "Version b = (5, minor b)"

record reauth_token =
  FromSession :: bool
  ForceReAuth :: bool
  GetAuthToken :: "goerr + gomap"

definition checkReAuth :: "reauth_token \<Rightarrow> bolt \<Rightarrow> goerr option" where
  "checkReAuth a b =
     (if \<not> FromSession a then None
      else if fst (Version b) < 5 \<or> (fst (Version b) = 5 \<and> snd (Version b) = 0) then
        Some (FeatureNotSupportedError (b_serverName b) ''session auth'' ''requires least server v5.5'')
      else None)"

record notificationConfig =
  MinSev :: string
  cats_none :: bool
  cats :: "string list"
  clas_none :: bool
  clas :: "string list"

definition checkNotificationFiltering :: "notificationConfig \<Rightarrow> bolt \<Rightarrow> goerr option" where
  "checkNotificationFiltering n b =
     (if MinSev n = [] \<and> \<not> cats_none n \<and> cats n = [] \<and> \<not> clas_none n \<and> clas n = [] then None
      else if fst (Version b) < 5 \<or> fst (Version b) = 5 \<and> snd (Version b) < 2 then
        Some (FeatureNotSupportedError (b_serverName b) ''notification filtering'' ''requires least server v5.7'')
      else None)"

abbreviation strings :: "string list \<Rightarrow> goval" where
  "strings ss \<equiv> VList (map VStr ss)"

definition ToMeta :: "notificationConfig \<Rightarrow> int \<times> int \<Rightarrow> gomap \<Rightarrow> gomap" where
  "ToMeta n v meta =
     (let m1 = (if MinSev n \<noteq> [] then map_put ''notifications_minimum_severity'' (VStr (MinSev n)) meta else meta);
          disabledKey = (if fst v \<ge> 6 \<or> (fst v = 5 \<and> snd v \<ge> 5) then ''notifications_disabled_classifications''
                         else ''notifications_disabled_categories'')
      in if cats_none n \<or> clas_none n then map_put disabledKey (strings []) m1
         else
           let m2 = (if cats n \<noteq> [] then map_put disabledKey (strings (cats n)) m1 else m1)
           in if clas n \<noteq> [] then map_put disabledKey (strings (clas n)) m2 else m2)"

record txConfig =
  is_read :: bool
  tx_bookmarks :: "string list"
  tx_timeout :: int64
  tx_imp_user :: string
  tx_meta :: gomap
  tx_notifications :: notificationConfig

text \<open>
  The metadata of a transaction on a database; the time-out is an int64 of nanoseconds, and Go's division
  truncates towards zero.
\<close>

definition timeout_ms :: "int64 \<Rightarrow> int64" where
  "timeout_ms t =
     (let ms = word_of_int (sint t sdiv 1000000)
      in if sint t smod 1000000 > 0 then ms + 1 else ms)"

definition toMeta :: "txConfig \<Rightarrow> string \<Rightarrow> int \<times> int \<Rightarrow> gomap" where
  "toMeta c db v =
     (let m1 = (if is_read c then map_put ''mode'' (VStr ''r'') [] else []);
          m2 = (if tx_bookmarks c \<noteq> [] then map_put ''bookmarks'' (strings (tx_bookmarks c)) m1 else m1);
          ms = timeout_ms (tx_timeout c);
          m3 = (if sint ms > 0 then map_put ''tx_timeout'' (VInt ms) m2 else m2);
          m4 = (if tx_meta c \<noteq> [] then map_put ''tx_metadata'' (VMap (tx_meta c)) m3 else m3);
          m5 = (if db \<noteq> [] then map_put ''db'' (VStr db) m4 else m4);
          m6 = (if tx_imp_user c \<noteq> [] then map_put ''imp_user'' (VStr (tx_imp_user c)) m5 else m5)
      in ToMeta (tx_notifications c) v m6)"

section \<open>Streams of records\<close>

definition appendPullN :: "benv \<Rightarrow> nat \<Rightarrow> bolt \<Rightarrow> bolt" where
  "appendPullN env i b =
     (let s = strm b i in
      case state b of
        Streaming \<Rightarrow> append_msg env (RqPull (fetchSize s)) (HPull i) b
      | StreamingTx \<Rightarrow>
          if qid s = lastQid b then append_msg env (RqPull (fetchSize s)) (HPull i) b
          else append_msg env (RqPullQid (fetchSize s) (qid s)) (HPull i) b
      | _ \<Rightarrow> b)"

definition finished :: "stream \<Rightarrow> bool" where
  "finished s \<longleftrightarrow> sum s \<noteq> None \<or> s_err s \<noteq> None"

definition appendDiscard :: "benv \<Rightarrow> nat \<Rightarrow> bolt \<Rightarrow> bolt" where
  "appendDiscard env i b =
     (let s = strm b i in
      if state b = StreamingTx \<and> qid s \<noteq> lastQid b
      then append_msg env (RqDiscardQid (fetchSize s) (qid s)) (HDiscard i) b
      else append_msg env (RqDiscard (fetchSize s)) (HDiscard i) b)"

partial_function (option) discard_loop :: "benv \<Rightarrow> nat \<Rightarrow> bool \<Rightarrow> bolt \<Rightarrow> bolt option" where
  "discard_loop env i discarded b =
     (let e = fst (receiveAll env b); b1 = snd (receiveAll env b) in
      if e \<noteq> None \<or> b_err b1 \<noteq> None \<or> finished (strm b1 i) then Some b1
      else if endOfBatch (strm b1 i) \<and> discarded then Some (checkStreams (streams_remove i b1))
      else
        let b2 = queue_send env (appendDiscard env i (upd i (\<lambda>s. s\<lparr>fetchSize := -1\<rparr>) b1)) in
        if b_err b2 \<noteq> None then Some b2 else discard_loop env i True b2)"

definition discardStream :: "benv \<Rightarrow> bolt \<Rightarrow> bolt option" where
  "discardStream env b =
     (if state b \<noteq> Streaming \<and> state b \<noteq> StreamingTx then Some b
      else
        (case curr b of
           None \<Rightarrow> Some b
         | Some i \<Rightarrow> discard_loop env i False (upd i (\<lambda>s. s\<lparr>discarding := True\<rparr>) b)))"

definition discardAllStreams :: "benv \<Rightarrow> bolt \<Rightarrow> bolt option" where
  "discardAllStreams env b =
     (if state b \<noteq> Streaming \<and> state b \<noteq> StreamingTx then Some b
      else map_option (\<lambda>b1. checkStreams (streams_reset env b1)) (discardStream env b))"

partial_function (option) buffer_loop :: "benv \<Rightarrow> nat \<Rightarrow> bolt \<Rightarrow> bolt option" where
  "buffer_loop env i b =
     (let e = fst (receiveAll env b); b1 = snd (receiveAll env b) in
      if e \<noteq> None \<or> b_err b1 \<noteq> None \<or> finished (strm b1 i) then Some b1
      else if endOfBatch (strm b1 i) then
        let b2 = queue_send env (appendPullN env i (upd i (\<lambda>s. s\<lparr>fetchSize := -1\<rparr>) b1)) in
        if b_err b2 \<noteq> None then Some b2 else buffer_loop env i b2
      else buffer_loop env i b1)"

definition bufferStream :: "benv \<Rightarrow> bolt \<Rightarrow> bolt option" where
  "bufferStream env b = (case curr b of None \<Rightarrow> Some b | Some i \<Rightarrow> buffer_loop env i b)"

definition pauseStream :: "benv \<Rightarrow> bolt \<Rightarrow> bolt" where
  "pauseStream env b =
     (case curr b of
        None \<Rightarrow> b
      | Some i \<Rightarrow>
          (case receiveAll env b of
             (e, b1) \<Rightarrow>
               if e \<noteq> None \<or> b_err b1 \<noteq> None \<or> finished (strm b1 i) then b1
               else if endOfBatch (strm b1 i) then streams_pause b1 else b1))"

definition resumeStream :: "benv \<Rightarrow> nat \<Rightarrow> bolt \<Rightarrow> bolt" where
  "resumeStream env i b = queue_send env (appendPullN env i (streams_resume i b))"

section \<open>Connecting and transactions\<close>

text \<open>Sending the pending messages and waiting for all responses.\<close>

definition exchange :: "benv \<Rightarrow> bolt \<Rightarrow> goerr option \<times> bolt" where
  "exchange env b =
     (let b1 = queue_send env b in
      if b_err b1 \<noteq> None then (b_err b1, b1)
      else
        (case receiveAll env b1 of
           (Some e, b2) \<Rightarrow> (Some e, b2)
         | (None, b2) \<Rightarrow> (b_err b2, b2)))"

definition bolt5_hello :: "benv \<Rightarrow> gomap \<Rightarrow> string \<Rightarrow> (string \<times> string) list option \<Rightarrow> notificationConfig \<Rightarrow> bolt \<Rightarrow> gomap" where
  "bolt5_hello env tokens userAgent routingContext n b =
     (let h1 = [(''user_agent'', VStr userAgent)];
          h2 = (case routingContext of
                  None \<Rightarrow> h1
                | Some rc \<Rightarrow> map_put ''routing'' (VMap (map (\<lambda>(k, v). (k, VStr v)) rc)) h1);
          h3 = (if minor b \<ge> 3 then map_put ''bolt_agent'' (VMap (agent_info env)) h2 else h2);
          h4 = (if minor b = 0
                then foldl (\<lambda>m (k, v). if map_of m k = None then map_put k v m else m) h3 tokens else h3)
      in ToMeta n (Version b) h4)"

definition bolt5_Connect :: "benv \<Rightarrow> int \<Rightarrow> reauth_token \<Rightarrow> string \<Rightarrow> (string \<times> string) list option \<Rightarrow>
  notificationConfig \<Rightarrow> bolt \<Rightarrow> goerr option \<times> bolt" where
  "bolt5_Connect env mnr a userAgent routingContext n b =
     (case assertState [Unauthorized] b of
        Some e \<Rightarrow> (Some e, b)
      | None \<Rightarrow>
        let b1 = b\<lparr>minor := mnr\<rparr> in
        (case checkReAuth a b1 of
           Some e \<Rightarrow> (Some e, b1)
         | None \<Rightarrow>
           (case GetAuthToken a of
              Inl e \<Rightarrow> (Some e, b1)
            | Inr tokens \<Rightarrow>
              let b2 = b1\<lparr>b_auth := tokens\<rparr> in
              (case checkNotificationFiltering n b2 of
                 Some e \<Rightarrow> (Some e, b2)
               | None \<Rightarrow>
                 let b3 = append_msg env (RqHello (bolt5_hello env tokens userAgent routingContext n b2)) HHello b2;
                     b4 = (if minor b3 > 0 then append_msg env (RqLogon tokens) HLogon b3 else b3)
                 in (case exchange env b4 of
                       (Some e, b5) \<Rightarrow> (Some e, b5)
                     | (None, b5) \<Rightarrow> (None, streams_reset env (b5\<lparr>state := Ready\<rparr>)))))))"

text \<open>The result of an operation that may hang: \<^const>\<open>None\<close>, else an error or a value, and the connection.\<close>

type_synonym 'a outcome = "((goerr + 'a) \<times> bolt) option"

definition bolt5_TxBegin :: "benv \<Rightarrow> txConfig \<Rightarrow> bool \<Rightarrow> bolt \<Rightarrow> int outcome" where
  "bolt5_TxBegin env c syncMessages b =
     do {
       b1 \<leftarrow> (if state b = Streaming then bufferStream env b else Some b);
       (if state b = Streaming \<and> b_err b1 \<noteq> None then Some (Inl (the (b_err b1)), b1)
        else
          let b2 = streams_reset env b1 in
          case assertState [Ready] b2 of
            Some e \<Rightarrow> Some (Inl e, b2)
          | None \<Rightarrow>
            (case checkNotificationFiltering (tx_notifications c) b2 of
               Some e \<Rightarrow> Some (Inl e, b2)
             | None \<Rightarrow>
               let b3 = append_msg env (RqBegin (toMeta c (databaseName b2) (Version b2))) HBegin b2;
                   (e, b4) = (if syncMessages then exchange env b3 else (None, b3))
               in case e of
                    Some err \<Rightarrow> Some (Inl err, b4)
                  | None \<Rightarrow>
                    (case b_err b4 of
                       Some err \<Rightarrow> Some (Inl err, b4)
                     | None \<Rightarrow>
                         let h = clock_key env b4 div 1000000000
                         in Some (Inr h, b4\<lparr>state := Tx, txId := h, b_ticks := b_ticks b4 + 1\<rparr>))))
     }"

text \<open>Commit and rollback differ in the message and its handler only.\<close>

definition end_tx :: "benv \<Rightarrow> request \<Rightarrow> handler \<Rightarrow> int \<Rightarrow> bolt \<Rightarrow> unit outcome" where
  "end_tx env rq h txh b =
     (case assertTxHandle (txId b) txh of
        Some e \<Rightarrow> Some (Inl e, b)
      | None \<Rightarrow>
        do {
          b1 \<leftarrow> discardAllStreams env b;
          (if b_err b1 \<noteq> None then Some (Inl (the (b_err b1)), b1)
           else
             case assertState [Tx] b1 of
               Some e \<Rightarrow> Some (Inl e, b1)
             | None \<Rightarrow>
               (case exchange env (append_msg env rq h b1) of
                  (Some e, b2) \<Rightarrow> Some (Inl e, b2)
                | (None, b2) \<Rightarrow> Some (Inr (), b2\<lparr>state := Ready\<rparr>)))
        })"

definition bolt5_TxCommit :: "benv \<Rightarrow> int \<Rightarrow> bolt \<Rightarrow> unit outcome" where
  "bolt5_TxCommit env txh b = end_tx env RqCommit HCommit txh b"

definition bolt5_TxRollback :: "benv \<Rightarrow> int \<Rightarrow> bolt \<Rightarrow> unit outcome" where
  "bolt5_TxRollback env txh b = end_tx env RqRollback HRollback txh b"

section \<open>Queries\<close>

definition normalizeFetchSize :: "int \<Rightarrow> int" where
  "normalizeFetchSize n = (if n < 0 then -1 else if n = 0 then 1000 else n)"

text \<open>Waiting for the response of the RUN message.\<close>

function run_wait :: "benv \<Rightarrow> nat \<Rightarrow> bolt \<Rightarrow> goerr option \<times> bolt" where
  "run_wait env i b =
     (if attached (strm b i) then (None, b)
      else
        (case receive env b of
           (Some e, b1) \<Rightarrow> (Some e, b1)
         | (None, b1) \<Rightarrow> if b_err b1 \<noteq> None then (b_err b1, b1) else run_wait env i b1))"
  by pat_completeness auto
termination
  by (relation "measure (\<lambda>(_, _, b). length (inbox b))") (auto dest: receive_shortens [OF sym])

declare run_wait.simps [simp del]

text \<open>What run does first: the records of an open stream are buffered, or its batch ended.\<close>

definition run_prepare :: "benv \<Rightarrow> bolt \<Rightarrow> bolt option" where
  "run_prepare env b =
     (case state b of
        Streaming \<Rightarrow> bufferStream env b
      | StreamingTx \<Rightarrow> Some (pauseStream env b)
      | _ \<Rightarrow> Some b)"

definition run_start :: "benv \<Rightarrow> string \<Rightarrow> gomap \<Rightarrow> int \<Rightarrow> gomap option \<Rightarrow> bolt \<Rightarrow> (goerr + nat) \<times> bolt" where
  "run_start env cypher params rawFetchSize meta b =
     (let n = normalizeFetchSize rawFetchSize;
          i = length (heap b);
          b1 = append_msg env (RqRun cypher params meta) (HRun i) (b\<lparr>heap := heap b @ [new_stream n]\<rparr>);
          b2 = queue_send env (append_msg env (RqPull n) (HPull i) b1)
      in if b_err b2 \<noteq> None then (Inl (the (b_err b2)), b2)
         else
           (case run_wait env i b2 of
              (Some e, b3) \<Rightarrow> (Inl e, b3)
            | (None, b3) \<Rightarrow>
                (Inr i, (case state b3 of
                           Ready \<Rightarrow> b3\<lparr>state := Streaming\<rparr> | Tx \<Rightarrow> b3\<lparr>state := StreamingTx\<rparr> | _ \<Rightarrow> b3))))"

definition bolt5_run :: "benv \<Rightarrow> string \<Rightarrow> gomap \<Rightarrow> int \<Rightarrow> gomap option \<Rightarrow> bolt \<Rightarrow> nat outcome" where
  "bolt5_run env cypher params rawFetchSize meta b =
     do {
       b1 \<leftarrow> run_prepare env b;
       (if (state b = Streaming \<or> state b = StreamingTx) \<and> b_err b1 \<noteq> None then Some (Inl (the (b_err b1)), b1)
        else
          case assertState [Tx, Ready, StreamingTx] b1 of
            Some e \<Rightarrow> Some (Inl e, b1)
          | None \<Rightarrow> Some (run_start env cypher params rawFetchSize meta b1))
     }"

definition bolt5_Run :: "benv \<Rightarrow> string \<Rightarrow> gomap \<Rightarrow> int \<Rightarrow> txConfig \<Rightarrow> bolt \<Rightarrow> nat outcome" where
  "bolt5_Run env cypher params n c b =
     (case assertState [Streaming, Ready] b of
        Some e \<Rightarrow> Some (Inl e, b)
      | None \<Rightarrow>
        (case checkNotificationFiltering (tx_notifications c) b of
           Some e \<Rightarrow> Some (Inl e, b)
         | None \<Rightarrow> bolt5_run env cypher params n (Some (toMeta c (databaseName b) (Version b))) b))"

definition bolt5_RunTx :: "benv \<Rightarrow> int \<Rightarrow> string \<Rightarrow> gomap \<Rightarrow> int \<Rightarrow> bolt \<Rightarrow> nat outcome" where
  "bolt5_RunTx env txh cypher params n b =
     (case assertTxHandle (txId b) txh of
        Some e \<Rightarrow> Some (Inl e, b)
      | None \<Rightarrow> bolt5_run env cypher params n None b)"

definition bolt5_Keys :: "nat \<Rightarrow> bolt \<Rightarrow> goerr + string list" where
  "bolt5_Keys i b = (case getUnsafe i b of Some e \<Rightarrow> Inl e | None \<Rightarrow> Inr (keys (strm b i)))"

text \<open>
  Next: before it receives, it asks for the next batch when the last one has ended. The step gives a result, or
  the connection with which the loop goes on.
\<close>

definition next_pull :: "benv \<Rightarrow> nat \<Rightarrow> bolt \<Rightarrow> goerr option \<times> bolt" where
  "next_pull env i b =
     (if endOfBatch (strm b i) then
        let b1 = queue_send env (appendPullN env i b) in
        if b_err b1 \<noteq> None then (b_err b1, b1) else (None, upd i (\<lambda>s. s\<lparr>endOfBatch := False\<rparr>) b1)
      else (None, b))"

lemma inbox_setErrors [simp]: "inbox (foldl (\<lambda>b' e. setError env (g e) f b') b es) = inbox b"
  by (induction es arbitrary: b) simp_all

lemma inbox_out_append [simp]: "inbox (out_append env rq b) = inbox b"
  by (simp add: out_append_def)

lemma inbox_append_msg [simp]: "inbox (append_msg env rq h b) = inbox b"
  by (simp add: append_msg_def enqueueCallback_def)

lemma inbox_appendPullN [simp]: "inbox (appendPullN env i b) = inbox b"
  by (simp add: appendPullN_def Let_def split: bstate.split)

lemma inbox_queue_send [simp]: "inbox (queue_send env b) = inbox b"
  by (simp add: queue_send_def Let_def split: option.split)

lemma inbox_next_pull: "(e, b1) = next_pull env i b \<Longrightarrow> inbox b1 = inbox b"
  by (auto simp: next_pull_def Let_def split: if_splits)

function next_loop :: "benv \<Rightarrow> nat \<Rightarrow> bolt \<Rightarrow> next_result \<times> bolt" where
  "next_loop env i b =
     (case bufferedNext (strm b i) of
        (Some r, s) \<Rightarrow> (r, upd i (\<lambda>_. s) b)
      | (None, _) \<Rightarrow>
          (case next_pull env i b of
             (Some e, b1) \<Rightarrow> (NErr e, b1)
           | (None, b1) \<Rightarrow>
               if handlers b1 = [] then (NErr (PlainError ''there should be more results to pull''), b1)
               else
                 (case receive env b1 of
                    (Some e, b2) \<Rightarrow> (NErr e, b2)
                  | (None, b2) \<Rightarrow> if b_err b2 \<noteq> None then (NErr (the (b_err b2)), b2) else next_loop env i b2)))"
  by pat_completeness auto
termination
  by (relation "measure (\<lambda>(_, _, b). length (inbox b))")
    (auto dest!: receive_shortens [OF sym] inbox_next_pull)

declare next_loop.simps [simp del]

definition bolt5_Next :: "benv \<Rightarrow> nat \<Rightarrow> bolt \<Rightarrow> next_result \<times> bolt" where
  "bolt5_Next env i b = (case getUnsafe i b of Some e \<Rightarrow> (NErr e, b) | None \<Rightarrow> next_loop env i b)"

text \<open>Making a stream the current one: the current one is paused first.\<close>

definition make_current :: "benv \<Rightarrow> nat \<Rightarrow> bolt \<Rightarrow> goerr option \<times> bolt" where
  "make_current env i b =
     (if curr b = Some i then (None, b)
      else
        let b1 = pauseStream env b in
        if b_err b1 \<noteq> None then (b_err b1, b1) else (None, resumeStream env i b1))"

definition bolt5_Consume :: "benv \<Rightarrow> nat \<Rightarrow> bolt \<Rightarrow> ((summary option \<times> goerr option) \<times> bolt) option" where
  "bolt5_Consume env i b =
     (case getUnsafe i b of
        Some e \<Rightarrow> Some ((None, Some e), b)
      | None \<Rightarrow>
        if finished (strm b i) then Some ((sum (strm b i), s_err (strm b i)), b)
        else
          (case isSafe i b of
             Some e \<Rightarrow> Some ((None, Some e), b)
           | None \<Rightarrow>
             (case assertState [Streaming, StreamingTx] b of
                Some e \<Rightarrow> Some ((None, Some e), b)
              | None \<Rightarrow>
                (case make_current env i b of
                   (Some e, b1) \<Rightarrow> Some ((None, Some e), b1)
                 | (None, b1) \<Rightarrow>
                     map_option (\<lambda>b2. ((sum (strm b2 i), s_err (strm b2 i)), b2)) (discardStream env b1)))))"

definition bolt5_Buffer :: "benv \<Rightarrow> nat \<Rightarrow> bolt \<Rightarrow> (goerr option \<times> bolt) option" where
  "bolt5_Buffer env i b =
     (case getUnsafe i b of
        Some e \<Rightarrow> Some (Some e, b)
      | None \<Rightarrow>
        if finished (strm b i) then Some (stream_Err (strm b i), b)
        else
          (case isSafe i b of
             Some e \<Rightarrow> Some (Some e, b)
           | None \<Rightarrow>
             (case assertState [Streaming, StreamingTx] b of
                Some e \<Rightarrow> Some (Some e, b)
              | None \<Rightarrow>
                (case make_current env i b of
                   (Some e, b1) \<Rightarrow> Some (Some e, b1)
                 | (None, b1) \<Rightarrow> map_option (\<lambda>b2. (stream_Err (strm b2 i), b2)) (bufferStream env b1)))))"

section \<open>Reset, routing table, authentication and closing\<close>

definition IsAlive :: "bolt \<Rightarrow> bool" where
  "IsAlive b \<longleftrightarrow> state b \<noteq> Dead"

definition HasFailed :: "bolt \<Rightarrow> bool" where
  "HasFailed b \<longleftrightarrow> state b = Failed"

definition bolt5_ForceReset :: "benv \<Rightarrow> bolt \<Rightarrow> bolt" where
  "bolt5_ForceReset env b =
     (if state b = Dead then b
      else
        (case receiveAll env (b\<lparr>b_err := None\<rparr>) of
           (e, b1) \<Rightarrow>
             if b_err b1 \<noteq> None \<or> e \<noteq> None then b1
             else
               let b2 = queue_send env (append_msg env RqReset HReset b1) in
               if b_err b2 \<noteq> None then b2 else snd (receive env b2)))"

definition bolt5_Reset :: "benv \<Rightarrow> bolt \<Rightarrow> bolt" where
  "bolt5_Reset env b =
     (let b1 = (if state b = Ready then b else bolt5_ForceReset env b)
      in streams_reset env (b1\<lparr>txId := 0, bookmark := [], databaseName := [], b_err := None, lastQid := -1\<rparr>))"

definition bolt5_GetRoutingTable :: "benv \<Rightarrow> (string \<times> string) list \<Rightarrow> string list \<Rightarrow> string \<Rightarrow> string \<Rightarrow> bolt \<Rightarrow>
  (goerr + routing_table option) \<times> bolt" where
  "bolt5_GetRoutingTable env routingContext bookmarks db imp b =
     (case assertState [Ready] b of
        Some e \<Rightarrow> (Inl e, b)
      | None \<Rightarrow>
        let e1 = (if db \<noteq> [] then map_put ''db'' (VStr db) [] else []);
            extras = (if imp \<noteq> [] then map_put ''imp_user'' (VStr imp) e1 else e1)
        in (case exchange env (append_msg env (RqRoute routingContext bookmarks extras) HRoute (b\<lparr>route_cell := None\<rparr>)) of
              (Some e, b1) \<Rightarrow> (Inl e, b1)
            | (None, b1) \<Rightarrow> (Inr (route_cell b1), b1)))"

definition bolt5_Close :: "benv \<Rightarrow> bolt \<Rightarrow> bolt" where
  "bolt5_Close env b =
     (let b1 = (if state b \<noteq> Dead then queue_send env (out_append env RqGoodbye (b\<lparr>state := Dead\<rparr>)) else b)
      in b1\<lparr>sock_closed := sock_closed b1 + 1\<rparr>)"

definition fallbackReAuth :: "benv \<Rightarrow> reauth_token \<Rightarrow> bolt \<Rightarrow> goerr option \<times> bolt" where
  "fallbackReAuth env a b =
     (case checkReAuth a b of
        Some e \<Rightarrow> (Some e, b)
      | None \<Rightarrow>
        if resetAuth b then (None, bolt5_Close env b)
        else
          (case GetAuthToken a of
             Inl e \<Rightarrow> (Some e, b)
           | Inr tokens \<Rightarrow> (None, if set (b_auth b) \<noteq> set tokens then bolt5_Close env b else b)))"

definition relogon :: "benv \<Rightarrow> gomap \<Rightarrow> bolt \<Rightarrow> bolt" where
  "relogon env tokens b = append_msg env (RqLogon tokens) HLogon (append_msg env RqLogoff HLogoff b)"

definition reAuth :: "benv \<Rightarrow> reauth_token \<Rightarrow> bolt \<Rightarrow> goerr option \<times> bolt" where
  "reAuth env a b =
     (case GetAuthToken a of
        Inl e \<Rightarrow> (Some e, b)
      | Inr tokens \<Rightarrow>
          if resetAuth b \<or> set (b_auth b) \<noteq> set tokens \<or> ForceReAuth a then
            let b1 = queue_send env (relogon env tokens b) in
            if b_err b1 \<noteq> None then (b_err b1, b1)
            else
              let b2 = b1\<lparr>b_auth := tokens\<rparr> in
              if ForceReAuth a then
                (case receiveAll env b2 of (Some e, b3) \<Rightarrow> (Some e, b3) | (None, b3) \<Rightarrow> (b_err b3, b3))
              else (None, b2)
          else (None, b))"

definition bolt5_ReAuth :: "benv \<Rightarrow> reauth_token \<Rightarrow> bolt \<Rightarrow> goerr option \<times> bolt" where
  "bolt5_ReAuth env a b = (if minor b = 0 then fallbackReAuth env a b else reAuth env a b)"

definition SelectDatabase :: "string \<Rightarrow> bolt \<Rightarrow> bolt" where
  "SelectDatabase db b = b\<lparr>databaseName := db\<rparr>"

definition ResetAuth :: "bolt \<Rightarrow> bolt" where
  "ResetAuth b = b\<lparr>resetAuth := True\<rparr>"

text \<open>\<open>telemetryDone\<close> counts the calls of the callback of Telemetry.\<close>

definition bolt5_Telemetry :: "benv \<Rightarrow> int \<Rightarrow> bolt \<Rightarrow> bolt" where
  "bolt5_Telemetry env api b =
     (if telemetryEnabled b \<and> snd (Version b) \<ge> 4 then append_msg env (RqTelemetry api) HTelemetry b
      else b\<lparr>telemetryDone := telemetryDone b + 1\<rparr>)"

end
