(* ===== verification/Bolt6.thy ===== *)
theory Bolt6
  imports Bolt5
begin

text \<open>
  A connection that speaks Bolt 6: src/neo4j/internal/bolt/bolt6.go. The file repeats most of bolt5.go, on a
  struct with the same fields, and so does this theory; what differs is the handling of a value that cannot be
  packed, the greeting of the server, re-authentication and the version in the summaries. The code that both
  connections share (message_queue.go, reauth.go, notifications.go) calls the connection back, so it is
  instantiated here with the callbacks of this one. That the copies agree is proved, not assumed: the equations
  of \<open>bolt6_same\<close> and the simulation of Bolt6Props. Connect also tells the packer and the hydrator whether the
  protocol has UUID values (from 6.1 on); here that is part of what packing and hydrating a message gives.
\<close>

section \<open>The connection\<close>

definition NewBolt6 :: "string \<Rightarrow> (goerr + message) list \<Rightarrow> goerr \<Rightarrow> int \<Rightarrow> bolt" where
  "NewBolt6 name inp' f now = \<lparr>state = Unauthorized, txId = 0, curr = None, num = 0, okey = 0, heap = [], handlers = [],
     q_err = None, inbox = inp', in_fail = f, outbuf = [], wire = [], n_writes = 0, bookmark = [], databaseName = [],
     b_err = None, minor = 0, lastQid = -1, b_auth = [], resetAuth = False, telemetryEnabled = False, b_ssr = False,
     readTimeout = -1, connId = [], serverVersion = [], b_serverName = name, b_ticks = 0, pinned = [],
     io_reported = [], route_cell = None, sock_closed = 0,
     birthDate = now, idleDate = now, telemetryDone = 0\<rparr>"

section \<open>Errors and the state of the connection\<close>

definition bolt6_checkStreams :: "bolt \<Rightarrow> bolt" where
  "bolt6_checkStreams b =
     (if num b \<le> 0 then
        (case state b of StreamingTx \<Rightarrow> b\<lparr>state := Tx\<rparr> | Streaming \<Rightarrow> b\<lparr>state := Ready\<rparr> | _ \<Rightarrow> b)
      else b)"

definition bolt6_setError :: "benv \<Rightarrow> goerr \<Rightarrow> bool \<Rightarrow> bolt \<Rightarrow> bolt" where
  "bolt6_setError env err fatal' b =
     (let b1 = (if b_err b = None then b\<lparr>b_err := Some err, state := Failed\<rparr> else b);
          b2 = (if fatal' then
                  (case handleTerminatedContextError env err b1 of
                     (Some e, b') \<Rightarrow> b'\<lparr>b_err := Some e, state := Dead\<rparr>
                   | (None, b') \<Rightarrow> b'\<lparr>state := Dead\<rparr>)
                else b1)
      in if curr b2 \<noteq> None then bolt6_checkStreams (streams_detach None (Some err) b2) else b2)"

definition bolt6_onFailure :: "benv \<Rightarrow> neo4j_error \<Rightarrow> bolt \<Rightarrow> bolt" where
  "bolt6_onFailure env failure b =
     (case on_neo4j_error env failure of
        (callbackErr, failure', ra) \<Rightarrow>
          let b1 = (if ra then b\<lparr>resetAuth := True\<rparr> else b);
              err = (case callbackErr of
                       None \<Rightarrow> Neo4jErr failure'
                     | Some e \<Rightarrow> the (CombineErrors (Some e) (Some (Neo4jErr failure'))))
          in bolt6_setError env err (isFatalError (Some failure')) b1)"

definition bolt6_onIoError :: "benv \<Rightarrow> goerr \<Rightarrow> bolt \<Rightarrow> bolt" where
  "bolt6_onIoError env err b =
     bolt6_setError env err True
       (if state b \<noteq> Failed \<and> state b \<noteq> Dead then b\<lparr>io_reported := io_reported b @ [err]\<rparr> else b)"

definition bolt6_onNextMessage :: "benv \<Rightarrow> bolt \<Rightarrow> bolt" where
  "bolt6_onNextMessage env b = b\<lparr>idleDate := clock_key env b, b_ticks := b_ticks b + 1\<rparr>"

section \<open>Response handlers\<close>

definition bolt6_extractSummary :: "success \<Rightarrow> stream \<Rightarrow> bolt \<Rightarrow> summary" where
  "bolt6_extractSummary su s b = \<lparr>Bookmark = su_bookmark su, QueryType = su_qtype su, TLast = su_tlast su, Database = su_db su,
     Agent = serverVersion b, Major = 6, Minor = minor b, ServerName = b_serverName b,
     TFirst = tfirst s, HadRecord = fst (ToSummary s), HadKey = snd (ToSummary s)\<rparr>"

definition bolt6_initializeReadTimeoutHint :: "gomap \<Rightarrow> bolt \<Rightarrow> bolt" where
  "bolt6_initializeReadTimeoutHint hints b =
     (case lookup_as as_int64 hints readTimeoutHintName of
        None \<Rightarrow> b
      | Some t \<Rightarrow>
          if sint t \<le> 0 then b else b\<lparr>readTimeout := sint (t * 1000000000)\<rparr>)"

definition bolt6_initializeTelemetryEnabledHint :: "gomap \<Rightarrow> bolt \<Rightarrow> bolt" where
  "bolt6_initializeTelemetryEnabledHint hints b =
     (case lookup_as as_bool hints ''telemetry.enabled'' of None \<Rightarrow> b | Some t \<Rightarrow> b\<lparr>telemetryEnabled := t\<rparr>)"

definition bolt6_initializeSsrEnabledHint :: "gomap \<Rightarrow> bolt \<Rightarrow> bolt" where
  "bolt6_initializeSsrEnabledHint hints b =
     (case lookup_as as_bool hints ''ssr.enabled'' of None \<Rightarrow> b | Some t \<Rightarrow> b\<lparr>b_ssr := t\<rparr>)"

definition bolt6_onHelloSuccess :: "success \<Rightarrow> bolt \<Rightarrow> bolt" where
  "bolt6_onHelloSuccess su b =
     bolt6_initializeSsrEnabledHint (configurationHints su)
       (bolt6_initializeTelemetryEnabledHint (configurationHints su)
         (bolt6_initializeReadTimeoutHint (configurationHints su)
           (b\<lparr>connId := connectionId su, serverVersion := su_server su\<rparr>)))"

definition bolt6_onCommitSuccess :: "success \<Rightarrow> bolt \<Rightarrow> bolt" where
  "bolt6_onCommitSuccess su b = (if su_bookmark su \<noteq> [] then b\<lparr>bookmark := su_bookmark su\<rparr> else b)"

definition bolt6_pin_database :: "benv \<Rightarrow> success \<Rightarrow> bolt \<Rightarrow> bolt" where
  "bolt6_pin_database env su b = (if pin_callback env \<and> su_db su \<noteq> [] then b\<lparr>pinned := pinned b @ [su_db su]\<rparr> else b)"

definition bolt6_runSuccess :: "benv \<Rightarrow> nat \<Rightarrow> success \<Rightarrow> bolt \<Rightarrow> bolt" where
  "bolt6_runSuccess env i su b =
     (let b1 = upd i (\<lambda>s. s\<lparr>attached := True, keys := su_fields su, qid := su_qid su, tfirst := su_tfirst su\<rparr>)
                 (bolt6_pin_database env su b);
          b2 = (if su_qid su > -1 then b1\<lparr>lastQid := su_qid su\<rparr> else b1)
      in streams_attach i b2)"

text \<open>The end of a stream: the onSuccess of the PULL and of the DISCARD handlers.\<close>

definition bolt6_stream_done :: "nat \<Rightarrow> success \<Rightarrow> bolt \<Rightarrow> bolt" where
  "bolt6_stream_done i su b =
     (if hasMore su then upd i (\<lambda>s. s\<lparr>endOfBatch := True\<rparr>) b
      else
        let m = bolt6_extractSummary su (strm b i) b;
            b1 = (if Bookmark m \<noteq> [] then b\<lparr>bookmark := Bookmark m\<rparr> else b)
        in bolt6_checkStreams (streams_remove i (upd i (\<lambda>s. s\<lparr>sum := Some m\<rparr>) b1)))"

definition bolt6_stream_interrupted :: "nat \<Rightarrow> goerr \<Rightarrow> bolt \<Rightarrow> bolt" where
  "bolt6_stream_interrupted i e b = bolt6_checkStreams (streams_remove i (upd i (\<lambda>s. s\<lparr>s_err := Some e\<rparr>) b))"

definition bolt6_pullRecord :: "nat \<Rightarrow> goval list \<Rightarrow> bolt \<Rightarrow> bolt" where
  "bolt6_pullRecord i vs b =
     (let b1 = upd i (\<lambda>s. s\<lparr>hadRecord := True\<rparr>) b;
          b2 = (if discarding (strm b1 i) then upd i emptyRecords b1
                else upd i (\<lambda>s. push (keys s, vs) s) b1)
      in b2\<lparr>handlers := HPull i # handlers b2\<rparr>)"

fun bolt6_on_record :: "handler \<Rightarrow> goval list \<Rightarrow> bolt \<Rightarrow> bolt option" where
  "bolt6_on_record (HPull i) vs b = Some (bolt6_pullRecord i vs b)"
| "bolt6_on_record _ vs b = None"

fun bolt6_on_success :: "benv \<Rightarrow> handler \<Rightarrow> success \<Rightarrow> bolt \<Rightarrow> bolt" where
  "bolt6_on_success env HHello su b = bolt6_onHelloSuccess su b"
| "bolt6_on_success env HRoute su b = b\<lparr>route_cell := routingTable su\<rparr>"
| "bolt6_on_success env HBegin su b = bolt6_pin_database env su b"
| "bolt6_on_success env (HRun i) su b = bolt6_runSuccess env i su b"
| "bolt6_on_success env HCommit su b = bolt6_onCommitSuccess su b"
| "bolt6_on_success env (HDiscard i) su b = bolt6_stream_done i su b"
| "bolt6_on_success env (HPull i) su b =
     bolt6_stream_done i su (if discarding (strm b i) then upd i emptyRecords b else b)"
| "bolt6_on_success env HReset su b = b\<lparr>state := Ready\<rparr>"
| "bolt6_on_success env HTelemetry su b = b\<lparr>telemetryDone := telemetryDone b + 1\<rparr>"
| "bolt6_on_success env _ su b = b"

definition bolt6_failed_stream :: "benv \<Rightarrow> nat \<Rightarrow> neo4j_error \<Rightarrow> bolt \<Rightarrow> bolt" where
  "bolt6_failed_stream env i e b =
     bolt6_onFailure env e (upd i (\<lambda>s. s\<lparr>s_err := Some (Neo4jErr (fst (snd (on_neo4j_error env e))))\<rparr>) b)"

fun bolt6_on_failure :: "benv \<Rightarrow> handler \<Rightarrow> neo4j_error \<Rightarrow> bolt \<Rightarrow> bolt" where
  "bolt6_on_failure env (HPull i) e b = bolt6_failed_stream env i e b"
| "bolt6_on_failure env (HDiscard i) e b = bolt6_failed_stream env i e b"
| "bolt6_on_failure env HReset e b =
     (if snd (snd (on_neo4j_error env e)) then b\<lparr>resetAuth := True\<rparr> else b)\<lparr>state := Dead\<rparr>"
| "bolt6_on_failure env _ e b = bolt6_onFailure env e b"

fun bolt6_on_ignored :: "handler \<Rightarrow> bolt \<Rightarrow> bolt option" where
  "bolt6_on_ignored (HPull i) b = Some (bolt6_stream_interrupted i (PlainError ''stream interrupted while pulling results'') b)"
| "bolt6_on_ignored (HDiscard i) b = Some (bolt6_stream_interrupted i (PlainError ''stream interrupted while discarding results'') b)"
| "bolt6_on_ignored HReset b = None"
| "bolt6_on_ignored _ b = Some b"

section \<open>The message queue\<close>

text \<open>
  An error of packing is fatal unless it says that the protocol lacks a feature: the callback onPackErr that
  NewBolt6 installs. The message is built and its handler queued in any case.
\<close>

definition recoverable :: "goerr \<Rightarrow> bool" where
  "recoverable e = (case e of FeatureNotSupportedError _ _ _ \<Rightarrow> True | _ \<Rightarrow> False)"

definition bolt6_onPackErr :: "benv \<Rightarrow> goerr \<Rightarrow> bolt \<Rightarrow> bolt" where
  "bolt6_onPackErr env err b =
     (let e = fillServerName err (b_serverName b) in bolt6_setError env e (\<not> recoverable e) b)"

definition bolt6_out_append :: "benv \<Rightarrow> request \<Rightarrow> bolt \<Rightarrow> bolt" where
  "bolt6_out_append env rq b =
     foldl (\<lambda>b' e. bolt6_onPackErr env e b') (b\<lparr>outbuf := outbuf b @ [rq]\<rparr>) (pack_errs env rq)"

definition bolt6_append_msg :: "benv \<Rightarrow> request \<Rightarrow> handler \<Rightarrow> bolt \<Rightarrow> bolt" where
  "bolt6_append_msg env rq h b = enqueueCallback h (bolt6_out_append env rq b)"

definition bolt6_queue_send :: "benv \<Rightarrow> bolt \<Rightarrow> bolt" where
  "bolt6_queue_send env b =
     (if outbuf b = [] then b
      else
        let b1 = b\<lparr>n_writes := n_writes b + 1\<rparr> in
        (case write_err env (n_writes b) of
           Some e \<Rightarrow> bolt6_onIoError env e b1
         | None \<Rightarrow> b1\<lparr>wire := wire b @ outbuf b, outbuf := []\<rparr>))"

definition bolt6_receiveMsg :: "benv \<Rightarrow> bolt \<Rightarrow> message option \<times> bolt" where
  "bolt6_receiveMsg env b =
     (if q_err b \<noteq> None then (None, b)
      else
        let (r, b1) = (case inbox b of [] \<Rightarrow> (Inl (in_fail b), b) | m # ms \<Rightarrow> (m, b\<lparr>inbox := ms\<rparr>)) in
        (case r of
           Inl e \<Rightarrow> (None, bolt6_onIoError env e (b1\<lparr>q_err := Some e\<rparr>))
         | Inr m \<Rightarrow> (Some m, bolt6_onNextMessage env b1)))"

definition bolt6_dispatch :: "benv \<Rightarrow> handler \<Rightarrow> message \<Rightarrow> bolt \<Rightarrow> goerr option \<times> bolt" where
  "bolt6_dispatch env h msg b =
     (case msg of
        MRecord vs \<Rightarrow>
          (case bolt6_on_record h vs b of None \<Rightarrow> (Some (violation ''RECORD''), b) | Some b1 \<Rightarrow> (None, b1))
      | MSuccess su \<Rightarrow> (None, bolt6_on_success env h su b)
      | MFailure e \<Rightarrow> (Some (Neo4jErr (fst (snd (on_neo4j_error env e)))), bolt6_on_failure env h e b)
      | MIgnored \<Rightarrow>
          (case bolt6_on_ignored h b of None \<Rightarrow> (Some (violation ''IGNORED''), b) | Some b1 \<Rightarrow> (None, b1)))"

definition bolt6_receive :: "benv \<Rightarrow> bolt \<Rightarrow> goerr option \<times> bolt" where
  "bolt6_receive env b =
     (case bolt6_receiveMsg env b of
        (None, b1) \<Rightarrow> (q_err b1, b1)
      | (Some msg, b1) \<Rightarrow>
          (case handlers b1 of
             [] \<Rightarrow> (Some (PlainError ''no more response callback to apply''), b1)
           | h # hs \<Rightarrow> bolt6_dispatch env h msg (b1\<lparr>handlers := hs\<rparr>)))"

section \<open>What the two files share\<close>

named_theorems bolt6_same \<open>copies of a function of bolt5.go that agree with it\<close>

lemma same_checkStreams [bolt6_same]: "bolt6_checkStreams = checkStreams"
  by (intro ext, unfold bolt6_checkStreams_def checkStreams_def bolt6_same, rule refl)

lemma same_setError [bolt6_same]: "bolt6_setError = setError"
  by (intro ext, unfold bolt6_setError_def setError_def bolt6_same, rule refl)

lemma same_onFailure [bolt6_same]: "bolt6_onFailure = onFailure"
  by (intro ext, unfold bolt6_onFailure_def onFailure_def bolt6_same, rule refl)

lemma same_onIoError [bolt6_same]: "bolt6_onIoError = onIoError"
  by (intro ext, unfold bolt6_onIoError_def onIoError_def bolt6_same, rule refl)

lemma same_onNextMessage [bolt6_same]: "bolt6_onNextMessage = onNextMessage"
  by (intro ext, unfold bolt6_onNextMessage_def onNextMessage_def bolt6_same, rule refl)

lemma same_initializeReadTimeoutHint [bolt6_same]: "bolt6_initializeReadTimeoutHint = initializeReadTimeoutHint"
  by (intro ext, unfold bolt6_initializeReadTimeoutHint_def initializeReadTimeoutHint_def bolt6_same, rule refl)

lemma same_initializeTelemetryEnabledHint [bolt6_same]: "bolt6_initializeTelemetryEnabledHint = initializeTelemetryEnabledHint"
  by (intro ext, unfold bolt6_initializeTelemetryEnabledHint_def initializeTelemetryEnabledHint_def bolt6_same, rule refl)

lemma same_initializeSsrEnabledHint [bolt6_same]: "bolt6_initializeSsrEnabledHint = initializeSsrEnabledHint"
  by (intro ext, unfold bolt6_initializeSsrEnabledHint_def initializeSsrEnabledHint_def bolt6_same, rule refl)

lemma same_onHelloSuccess [bolt6_same]: "bolt6_onHelloSuccess = onHelloSuccess"
  by (intro ext, unfold bolt6_onHelloSuccess_def onHelloSuccess_def bolt6_same, rule refl)

lemma same_onCommitSuccess [bolt6_same]: "bolt6_onCommitSuccess = onCommitSuccess"
  by (intro ext, unfold bolt6_onCommitSuccess_def onCommitSuccess_def bolt6_same, rule refl)

lemma same_pin_database [bolt6_same]: "bolt6_pin_database = pin_database"
  by (intro ext, unfold bolt6_pin_database_def pin_database_def bolt6_same, rule refl)

lemma same_runSuccess [bolt6_same]: "bolt6_runSuccess = runSuccess"
  by (intro ext, unfold bolt6_runSuccess_def runSuccess_def bolt6_same, rule refl)

lemma same_stream_interrupted [bolt6_same]: "bolt6_stream_interrupted = stream_interrupted"
  by (intro ext, unfold bolt6_stream_interrupted_def stream_interrupted_def bolt6_same, rule refl)

lemma same_pullRecord [bolt6_same]: "bolt6_pullRecord = pullRecord"
  by (intro ext, unfold bolt6_pullRecord_def pullRecord_def bolt6_same, rule refl)

lemma same_failed_stream [bolt6_same]: "bolt6_failed_stream = failed_stream"
  by (intro ext, unfold bolt6_failed_stream_def failed_stream_def bolt6_same, rule refl)

lemma same_queue_send [bolt6_same]: "bolt6_queue_send = queue_send"
  by (intro ext, unfold bolt6_queue_send_def queue_send_def bolt6_same, rule refl)

lemma same_receiveMsg [bolt6_same]: "bolt6_receiveMsg = receiveMsg"
  by (intro ext, unfold bolt6_receiveMsg_def receiveMsg_def bolt6_same, rule refl)

lemma same_on_record [bolt6_same]: "bolt6_on_record h vs b = on_record h vs b"
  by (cases h) (simp_all add: bolt6_same)

lemma same_on_failure [bolt6_same]: "bolt6_on_failure env h e b = on_failure env h e b"
  by (cases h) (simp_all add: bolt6_same)

lemma same_on_ignored [bolt6_same]: "bolt6_on_ignored h b = on_ignored h b"
  by (cases h) (simp_all add: bolt6_same)

lemma io_frame_stream_done6 [simp]: "io_frame b (bolt6_stream_done i su b') = io_frame b b'"
  by (simp add: bolt6_stream_done_def bolt6_same Let_def)

lemma io_frame_on_success6 [simp]: "io_frame b (bolt6_on_success env h su b') = io_frame b b'"
  by (cases h) (simp_all add: bolt6_same onHelloSuccess_def initializeReadTimeoutHint_def
      initializeTelemetryEnabledHint_def initializeSsrEnabledHint_def runSuccess_def onCommitSuccess_def Let_def split: option.split)

lemma io_frame_dispatch6 [simp]: "io_frame b (snd (bolt6_dispatch env h m b')) = io_frame b b'"
  by (auto simp: bolt6_dispatch_def bolt6_same io_frame_on_record io_frame_on_ignored split: message.split option.split)

lemmas dispatch6_io [simp] = io_frameD [OF iffD2 [OF io_frame_dispatch6 io_frame_refl]]

lemma receive_shortens6:
  assumes "bolt6_receive env b = (None, b')"
  shows "length (inbox b') < length (inbox b)"
proof -
  from assms obtain m ms where m: "q_err b = None" "inbox b = Inr m # ms"
    by (auto simp: bolt6_receive_def bolt6_same receiveMsg_def
        split: if_splits list.splits sum.splits option.splits prod.splits)
  let ?b = "onNextMessage env (b\<lparr>inbox := ms\<rparr>)"
  have "bolt6_receiveMsg env b = (Some m, ?b)" using m by (simp add: bolt6_same receiveMsg_def)
  with assms obtain h hs where "b' = snd (bolt6_dispatch env h m (?b\<lparr>handlers := hs\<rparr>))"
    by (auto simp: bolt6_receive_def split: list.splits) (metis snd_conv)
  with m show ?thesis by (simp add: onNextMessage_def)
qed

function bolt6_receiveAll :: "benv \<Rightarrow> bolt \<Rightarrow> goerr option \<times> bolt" where
  "bolt6_receiveAll env b =
     (if handlers b = [] then (None, b)
      else (case bolt6_receive env b of (Some e, b1) \<Rightarrow> (Some e, b1) | (None, b1) \<Rightarrow> bolt6_receiveAll env b1))"
  by pat_completeness auto
termination
  by (relation "measure (\<lambda>(_, b). length (inbox b))") (auto dest: receive_shortens6 [OF sym])

declare bolt6_receiveAll.simps [simp del]

section \<open>Checks\<close>

definition bolt6_assertTxHandle :: "int \<Rightarrow> int \<Rightarrow> goerr option" where
  "bolt6_assertTxHandle h1 h2 = (if h1 \<noteq> h2 then Some (PlainError InvalidTransactionError) else None)"

definition bolt6_assertState :: "bstate list \<Rightarrow> bolt \<Rightarrow> goerr option" where
  "bolt6_assertState allowed b =
     (case b_err b of
        Some e \<Rightarrow> Some e
      | None \<Rightarrow> if state b \<in> set allowed then None else Some (PlainError ''invalid state''))"

definition bolt6_Version :: "bolt \<Rightarrow> int \<times> int" where
  "bolt6_Version b = (6, minor b)"

definition bolt6_checkReAuth :: "reauth_token \<Rightarrow> bolt \<Rightarrow> goerr option" where
  "bolt6_checkReAuth a b =
     (if \<not> FromSession a then None
      else if fst (bolt6_Version b) < 5 \<or> (fst (bolt6_Version b) = 5 \<and> snd (bolt6_Version b) = 0) then
        Some (FeatureNotSupportedError (b_serverName b) ''session auth'' ''requires least server v5.5'')
      else None)"

definition bolt6_checkNotificationFiltering :: "notificationConfig \<Rightarrow> bolt \<Rightarrow> goerr option" where
  "bolt6_checkNotificationFiltering n b =
     (if MinSev n = [] \<and> \<not> cats_none n \<and> cats n = [] \<and> \<not> clas_none n \<and> clas n = [] then None
      else if fst (bolt6_Version b) < 5 \<or> fst (bolt6_Version b) = 5 \<and> snd (bolt6_Version b) < 2 then
        Some (FeatureNotSupportedError (b_serverName b) ''notification filtering'' ''requires least server v5.7'')
      else None)"

definition bolt6_toMeta :: "txConfig \<Rightarrow> string \<Rightarrow> int \<times> int \<Rightarrow> gomap" where
  "bolt6_toMeta c db v =
     (let m1 = (if is_read c then map_put ''mode'' (VStr ''r'') [] else []);
          m2 = (if tx_bookmarks c \<noteq> [] then map_put ''bookmarks'' (strings (tx_bookmarks c)) m1 else m1);
          ms = timeout_ms (tx_timeout c);
          m3 = (if sint ms > 0 then map_put ''tx_timeout'' (VInt ms) m2 else m2);
          m4 = (if tx_meta c \<noteq> [] then map_put ''tx_metadata'' (VMap (tx_meta c)) m3 else m3);
          m5 = (if db \<noteq> [] then map_put ''db'' (VStr db) m4 else m4);
          m6 = (if tx_imp_user c \<noteq> [] then map_put ''imp_user'' (VStr (tx_imp_user c)) m5 else m5)
      in ToMeta (tx_notifications c) v m6)"

section \<open>Streams of records\<close>

definition bolt6_appendPullN :: "benv \<Rightarrow> nat \<Rightarrow> bolt \<Rightarrow> bolt" where
  "bolt6_appendPullN env i b =
     (let s = strm b i in
      case state b of
        Streaming \<Rightarrow> bolt6_append_msg env (RqPull (fetchSize s)) (HPull i) b
      | StreamingTx \<Rightarrow>
          if qid s = lastQid b then bolt6_append_msg env (RqPull (fetchSize s)) (HPull i) b
          else bolt6_append_msg env (RqPullQid (fetchSize s) (qid s)) (HPull i) b
      | _ \<Rightarrow> b)"

definition bolt6_appendDiscard :: "benv \<Rightarrow> nat \<Rightarrow> bolt \<Rightarrow> bolt" where
  "bolt6_appendDiscard env i b =
     (let s = strm b i in
      if state b = StreamingTx \<and> qid s \<noteq> lastQid b
      then bolt6_append_msg env (RqDiscardQid (fetchSize s) (qid s)) (HDiscard i) b
      else bolt6_append_msg env (RqDiscard (fetchSize s)) (HDiscard i) b)"

partial_function (option) bolt6_discard_loop :: "benv \<Rightarrow> nat \<Rightarrow> bool \<Rightarrow> bolt \<Rightarrow> bolt option" where
  "bolt6_discard_loop env i discarded b =
     (let e = fst (bolt6_receiveAll env b); b1 = snd (bolt6_receiveAll env b) in
      if e \<noteq> None \<or> b_err b1 \<noteq> None \<or> finished (strm b1 i) then Some b1
      else if endOfBatch (strm b1 i) \<and> discarded then Some (bolt6_checkStreams (streams_remove i b1))
      else
        let b2 = bolt6_queue_send env (bolt6_appendDiscard env i (upd i (\<lambda>s. s\<lparr>fetchSize := -1\<rparr>) b1)) in
        if b_err b2 \<noteq> None then Some b2 else bolt6_discard_loop env i True b2)"

definition bolt6_discardStream :: "benv \<Rightarrow> bolt \<Rightarrow> bolt option" where
  "bolt6_discardStream env b =
     (if state b \<noteq> Streaming \<and> state b \<noteq> StreamingTx then Some b
      else
        (case curr b of
           None \<Rightarrow> Some b
         | Some i \<Rightarrow> bolt6_discard_loop env i False (upd i (\<lambda>s. s\<lparr>discarding := True\<rparr>) b)))"

definition bolt6_discardAllStreams :: "benv \<Rightarrow> bolt \<Rightarrow> bolt option" where
  "bolt6_discardAllStreams env b =
     (if state b \<noteq> Streaming \<and> state b \<noteq> StreamingTx then Some b
      else map_option (\<lambda>b1. bolt6_checkStreams (streams_reset env b1)) (bolt6_discardStream env b))"

partial_function (option) bolt6_buffer_loop :: "benv \<Rightarrow> nat \<Rightarrow> bolt \<Rightarrow> bolt option" where
  "bolt6_buffer_loop env i b =
     (let e = fst (bolt6_receiveAll env b); b1 = snd (bolt6_receiveAll env b) in
      if e \<noteq> None \<or> b_err b1 \<noteq> None \<or> finished (strm b1 i) then Some b1
      else if endOfBatch (strm b1 i) then
        let b2 = bolt6_queue_send env (bolt6_appendPullN env i (upd i (\<lambda>s. s\<lparr>fetchSize := -1\<rparr>) b1)) in
        if b_err b2 \<noteq> None then Some b2 else bolt6_buffer_loop env i b2
      else bolt6_buffer_loop env i b1)"

definition bolt6_bufferStream :: "benv \<Rightarrow> bolt \<Rightarrow> bolt option" where
  "bolt6_bufferStream env b = (case curr b of None \<Rightarrow> Some b | Some i \<Rightarrow> bolt6_buffer_loop env i b)"

definition bolt6_pauseStream :: "benv \<Rightarrow> bolt \<Rightarrow> bolt" where
  "bolt6_pauseStream env b =
     (case curr b of
        None \<Rightarrow> b
      | Some i \<Rightarrow>
          (case bolt6_receiveAll env b of
             (e, b1) \<Rightarrow>
               if e \<noteq> None \<or> b_err b1 \<noteq> None \<or> finished (strm b1 i) then b1
               else if endOfBatch (strm b1 i) then streams_pause b1 else b1))"

definition bolt6_resumeStream :: "benv \<Rightarrow> nat \<Rightarrow> bolt \<Rightarrow> bolt" where
  "bolt6_resumeStream env i b = bolt6_queue_send env (bolt6_appendPullN env i (streams_resume i b))"

section \<open>Connecting and transactions\<close>

definition bolt6_exchange :: "benv \<Rightarrow> bolt \<Rightarrow> goerr option \<times> bolt" where
  "bolt6_exchange env b =
     (let b1 = bolt6_queue_send env b in
      if b_err b1 \<noteq> None then (b_err b1, b1)
      else
        (case bolt6_receiveAll env b1 of
           (Some e, b2) \<Rightarrow> (Some e, b2)
         | (None, b2) \<Rightarrow> (b_err b2, b2)))"

definition bolt6_hello :: "benv \<Rightarrow> string \<Rightarrow> (string \<times> string) list option \<Rightarrow> notificationConfig \<Rightarrow> bolt \<Rightarrow> gomap" where
  "bolt6_hello env userAgent routingContext n b =
     (let h1 = [(''user_agent'', VStr userAgent)];
          h2 = (case routingContext of
                  None \<Rightarrow> h1
                | Some rc \<Rightarrow> map_put ''routing'' (VMap (map (\<lambda>(k, v). (k, VStr v)) rc)) h1);
          h3 = map_put ''bolt_agent'' (VMap (agent_info env)) h2
      in ToMeta n (bolt6_Version b) h3)"

definition bolt6_Connect :: "benv \<Rightarrow> int \<Rightarrow> reauth_token \<Rightarrow> string \<Rightarrow> (string \<times> string) list option \<Rightarrow>
  notificationConfig \<Rightarrow> bolt \<Rightarrow> goerr option \<times> bolt" where
  "bolt6_Connect env mnr a userAgent routingContext n b =
     (case bolt6_assertState [Unauthorized] b of
        Some e \<Rightarrow> (Some e, b)
      | None \<Rightarrow>
        let b1 = b\<lparr>minor := mnr\<rparr> in
        (case bolt6_checkReAuth a b1 of
           Some e \<Rightarrow> (Some e, b1)
         | None \<Rightarrow>
           (case GetAuthToken a of
              Inl e \<Rightarrow> (Some e, b1)
            | Inr tokens \<Rightarrow>
              let b2 = b1\<lparr>b_auth := tokens\<rparr> in
              (case bolt6_checkNotificationFiltering n b2 of
                 Some e \<Rightarrow> (Some e, b2)
               | None \<Rightarrow>
                 let b3 = bolt6_append_msg env (RqHello (bolt6_hello env userAgent routingContext n b2)) HHello b2;
                     b4 = bolt6_append_msg env (RqLogon tokens) HLogon b3
                 in (case bolt6_exchange env b4 of
                       (Some e, b5) \<Rightarrow> (Some e, b5)
                     | (None, b5) \<Rightarrow> (None, streams_reset env (b5\<lparr>state := Ready\<rparr>)))))))"

definition bolt6_TxBegin :: "benv \<Rightarrow> txConfig \<Rightarrow> bool \<Rightarrow> bolt \<Rightarrow> int outcome" where
  "bolt6_TxBegin env c syncMessages b =
     do {
       b1 \<leftarrow> (if state b = Streaming then bolt6_bufferStream env b else Some b);
       (if state b = Streaming \<and> b_err b1 \<noteq> None then Some (Inl (the (b_err b1)), b1)
        else
          let b2 = streams_reset env b1 in
          case bolt6_assertState [Ready] b2 of
            Some e \<Rightarrow> Some (Inl e, b2)
          | None \<Rightarrow>
            (case bolt6_checkNotificationFiltering (tx_notifications c) b2 of
               Some e \<Rightarrow> Some (Inl e, b2)
             | None \<Rightarrow>
               let b3 = bolt6_append_msg env (RqBegin (bolt6_toMeta c (databaseName b2) (bolt6_Version b2))) HBegin b2;
                   (e, b4) = (if syncMessages then bolt6_exchange env b3 else (None, b3))
               in case e of
                    Some err \<Rightarrow> Some (Inl err, b4)
                  | None \<Rightarrow>
                    (case b_err b4 of
                       Some err \<Rightarrow> Some (Inl err, b4)
                     | None \<Rightarrow>
                         let h = clock_key env b4 div 1000000000
                         in Some (Inr h, b4\<lparr>state := Tx, txId := h, b_ticks := b_ticks b4 + 1\<rparr>))))
     }"

text \<open>Commit and rollback differ in the message and its handler only.\<close>

definition bolt6_end_tx :: "benv \<Rightarrow> request \<Rightarrow> handler \<Rightarrow> int \<Rightarrow> bolt \<Rightarrow> unit outcome" where
  "bolt6_end_tx env rq h txh b =
     (case bolt6_assertTxHandle (txId b) txh of
        Some e \<Rightarrow> Some (Inl e, b)
      | None \<Rightarrow>
        do {
          b1 \<leftarrow> bolt6_discardAllStreams env b;
          (if b_err b1 \<noteq> None then Some (Inl (the (b_err b1)), b1)
           else
             case bolt6_assertState [Tx] b1 of
               Some e \<Rightarrow> Some (Inl e, b1)
             | None \<Rightarrow>
               (case bolt6_exchange env (bolt6_append_msg env rq h b1) of
                  (Some e, b2) \<Rightarrow> Some (Inl e, b2)
                | (None, b2) \<Rightarrow> Some (Inr (), b2\<lparr>state := Ready\<rparr>)))
        })"

definition bolt6_TxCommit :: "benv \<Rightarrow> int \<Rightarrow> bolt \<Rightarrow> unit outcome" where
  "bolt6_TxCommit env txh b = bolt6_end_tx env RqCommit HCommit txh b"

definition bolt6_TxRollback :: "benv \<Rightarrow> int \<Rightarrow> bolt \<Rightarrow> unit outcome" where
  "bolt6_TxRollback env txh b = bolt6_end_tx env RqRollback HRollback txh b"

section \<open>Queries\<close>

definition bolt6_normalizeFetchSize :: "int \<Rightarrow> int" where
  "bolt6_normalizeFetchSize n = (if n < 0 then -1 else if n = 0 then 1000 else n)"

text \<open>Waiting for the response of the RUN message.\<close>

function bolt6_run_wait :: "benv \<Rightarrow> nat \<Rightarrow> bolt \<Rightarrow> goerr option \<times> bolt" where
  "bolt6_run_wait env i b =
     (if attached (strm b i) then (None, b)
      else
        (case bolt6_receive env b of
           (Some e, b1) \<Rightarrow> (Some e, b1)
         | (None, b1) \<Rightarrow> if b_err b1 \<noteq> None then (b_err b1, b1) else bolt6_run_wait env i b1))"
  by pat_completeness auto
termination
  by (relation "measure (\<lambda>(_, _, b). length (inbox b))") (auto dest: receive_shortens6 [OF sym])

declare bolt6_run_wait.simps [simp del]

definition bolt6_run_prepare :: "benv \<Rightarrow> bolt \<Rightarrow> bolt option" where
  "bolt6_run_prepare env b =
     (case state b of
        Streaming \<Rightarrow> bolt6_bufferStream env b
      | StreamingTx \<Rightarrow> Some (bolt6_pauseStream env b)
      | _ \<Rightarrow> Some b)"

text \<open>
  When the RUN message cannot be packed, run drops the messages that are not sent yet and the handler at the front
  of the queue. A pop of an empty queue panics, but here the handler of RUN has just been queued.
\<close>

definition queue_pop :: "bolt \<Rightarrow> bolt" where
  "queue_pop b = b\<lparr>handlers := tl (handlers b)\<rparr>"

definition chunker_reset :: "bolt \<Rightarrow> bolt" where
  "chunker_reset b = b\<lparr>outbuf := []\<rparr>"

definition bolt6_run_start :: "benv \<Rightarrow> string \<Rightarrow> gomap \<Rightarrow> int \<Rightarrow> gomap option \<Rightarrow> bolt \<Rightarrow> (goerr + nat) \<times> bolt" where
  "bolt6_run_start env cypher params rawFetchSize meta b =
     (let n = bolt6_normalizeFetchSize rawFetchSize;
          i = length (heap b);
          b1 = bolt6_append_msg env (RqRun cypher params meta) (HRun i) (b\<lparr>heap := heap b @ [new_stream n]\<rparr>)
      in if b_err b1 \<noteq> None then (Inl (the (b_err b1)), queue_pop (chunker_reset b1))
         else
           let b2 = bolt6_queue_send env (bolt6_append_msg env (RqPull n) (HPull i) b1) in
           if b_err b2 \<noteq> None then (Inl (the (b_err b2)), b2)
           else
             (case bolt6_run_wait env i b2 of
                (Some e, b3) \<Rightarrow> (Inl e, b3)
              | (None, b3) \<Rightarrow>
                  (Inr i, (case state b3 of
                             Ready \<Rightarrow> b3\<lparr>state := Streaming\<rparr> | Tx \<Rightarrow> b3\<lparr>state := StreamingTx\<rparr> | _ \<Rightarrow> b3))))"

definition bolt6_run :: "benv \<Rightarrow> string \<Rightarrow> gomap \<Rightarrow> int \<Rightarrow> gomap option \<Rightarrow> bolt \<Rightarrow> nat outcome" where
  "bolt6_run env cypher params rawFetchSize meta b =
     do {
       b1 \<leftarrow> bolt6_run_prepare env b;
       (if (state b = Streaming \<or> state b = StreamingTx) \<and> b_err b1 \<noteq> None then Some (Inl (the (b_err b1)), b1)
        else
          case bolt6_assertState [Tx, Ready, StreamingTx] b1 of
            Some e \<Rightarrow> Some (Inl e, b1)
          | None \<Rightarrow> Some (bolt6_run_start env cypher params rawFetchSize meta b1))
     }"

definition bolt6_Run :: "benv \<Rightarrow> string \<Rightarrow> gomap \<Rightarrow> int \<Rightarrow> txConfig \<Rightarrow> bolt \<Rightarrow> nat outcome" where
  "bolt6_Run env cypher params n c b =
     (case bolt6_assertState [Streaming, Ready] b of
        Some e \<Rightarrow> Some (Inl e, b)
      | None \<Rightarrow>
        (case bolt6_checkNotificationFiltering (tx_notifications c) b of
           Some e \<Rightarrow> Some (Inl e, b)
         | None \<Rightarrow> bolt6_run env cypher params n (Some (bolt6_toMeta c (databaseName b) (bolt6_Version b))) b))"

definition bolt6_RunTx :: "benv \<Rightarrow> int \<Rightarrow> string \<Rightarrow> gomap \<Rightarrow> int \<Rightarrow> bolt \<Rightarrow> nat outcome" where
  "bolt6_RunTx env txh cypher params n b =
     (case bolt6_assertTxHandle (txId b) txh of
        Some e \<Rightarrow> Some (Inl e, b)
      | None \<Rightarrow> bolt6_run env cypher params n None b)"

definition bolt6_Keys :: "nat \<Rightarrow> bolt \<Rightarrow> goerr + string list" where
  "bolt6_Keys i b = (case getUnsafe i b of Some e \<Rightarrow> Inl e | None \<Rightarrow> Inr (keys (strm b i)))"

definition bolt6_next_pull :: "benv \<Rightarrow> nat \<Rightarrow> bolt \<Rightarrow> goerr option \<times> bolt" where
  "bolt6_next_pull env i b =
     (if endOfBatch (strm b i) then
        let b1 = bolt6_queue_send env (bolt6_appendPullN env i b) in
        if b_err b1 \<noteq> None then (b_err b1, b1) else (None, upd i (\<lambda>s. s\<lparr>endOfBatch := False\<rparr>) b1)
      else (None, b))"

lemma inbox_onPackErrs6 [simp]: "inbox (foldl (\<lambda>b' e. bolt6_onPackErr env e b') b es) = inbox b"
  by (induction es arbitrary: b) (simp_all add: bolt6_onPackErr_def bolt6_same Let_def)

lemma inbox_append_msg6 [simp]: "inbox (bolt6_append_msg env rq h b) = inbox b"
  by (simp add: bolt6_append_msg_def bolt6_out_append_def enqueueCallback_def)

lemma inbox_appendPullN6 [simp]: "inbox (bolt6_appendPullN env i b) = inbox b"
  by (simp add: bolt6_appendPullN_def Let_def split: bstate.split)

lemma inbox_next_pull6: "(e, b1) = bolt6_next_pull env i b \<Longrightarrow> inbox b1 = inbox b"
  by (auto simp: bolt6_next_pull_def bolt6_same Let_def split: if_splits)

function bolt6_next_loop :: "benv \<Rightarrow> nat \<Rightarrow> bolt \<Rightarrow> next_result \<times> bolt" where
  "bolt6_next_loop env i b =
     (case bufferedNext (strm b i) of
        (Some r, s) \<Rightarrow> (r, upd i (\<lambda>_. s) b)
      | (None, _) \<Rightarrow>
          (case bolt6_next_pull env i b of
             (Some e, b1) \<Rightarrow> (NErr e, b1)
           | (None, b1) \<Rightarrow>
               if handlers b1 = [] then (NErr (PlainError ''there should be more results to pull''), b1)
               else
                 (case bolt6_receive env b1 of
                    (Some e, b2) \<Rightarrow> (NErr e, b2)
                  | (None, b2) \<Rightarrow> if b_err b2 \<noteq> None then (NErr (the (b_err b2)), b2) else bolt6_next_loop env i b2)))"
  by pat_completeness auto
termination
  by (relation "measure (\<lambda>(_, _, b). length (inbox b))")
    (auto dest!: receive_shortens6 [OF sym] inbox_next_pull6)

declare bolt6_next_loop.simps [simp del]

definition bolt6_Next :: "benv \<Rightarrow> nat \<Rightarrow> bolt \<Rightarrow> next_result \<times> bolt" where
  "bolt6_Next env i b = (case getUnsafe i b of Some e \<Rightarrow> (NErr e, b) | None \<Rightarrow> bolt6_next_loop env i b)"

definition bolt6_make_current :: "benv \<Rightarrow> nat \<Rightarrow> bolt \<Rightarrow> goerr option \<times> bolt" where
  "bolt6_make_current env i b =
     (if curr b = Some i then (None, b)
      else
        let b1 = bolt6_pauseStream env b in
        if b_err b1 \<noteq> None then (b_err b1, b1) else (None, bolt6_resumeStream env i b1))"

definition bolt6_Consume :: "benv \<Rightarrow> nat \<Rightarrow> bolt \<Rightarrow> ((summary option \<times> goerr option) \<times> bolt) option" where
  "bolt6_Consume env i b =
     (case getUnsafe i b of
        Some e \<Rightarrow> Some ((None, Some e), b)
      | None \<Rightarrow>
        if finished (strm b i) then Some ((sum (strm b i), s_err (strm b i)), b)
        else
          (case isSafe i b of
             Some e \<Rightarrow> Some ((None, Some e), b)
           | None \<Rightarrow>
             (case bolt6_assertState [Streaming, StreamingTx] b of
                Some e \<Rightarrow> Some ((None, Some e), b)
              | None \<Rightarrow>
                (case bolt6_make_current env i b of
                   (Some e, b1) \<Rightarrow> Some ((None, Some e), b1)
                 | (None, b1) \<Rightarrow>
                     map_option (\<lambda>b2. ((sum (strm b2 i), s_err (strm b2 i)), b2)) (bolt6_discardStream env b1)))))"

definition bolt6_Buffer :: "benv \<Rightarrow> nat \<Rightarrow> bolt \<Rightarrow> (goerr option \<times> bolt) option" where
  "bolt6_Buffer env i b =
     (case getUnsafe i b of
        Some e \<Rightarrow> Some (Some e, b)
      | None \<Rightarrow>
        if finished (strm b i) then Some (stream_Err (strm b i), b)
        else
          (case isSafe i b of
             Some e \<Rightarrow> Some (Some e, b)
           | None \<Rightarrow>
             (case bolt6_assertState [Streaming, StreamingTx] b of
                Some e \<Rightarrow> Some (Some e, b)
              | None \<Rightarrow>
                (case bolt6_make_current env i b of
                   (Some e, b1) \<Rightarrow> Some (Some e, b1)
                 | (None, b1) \<Rightarrow> map_option (\<lambda>b2. (stream_Err (strm b2 i), b2)) (bolt6_bufferStream env b1)))))"

section \<open>Reset, routing table, authentication and closing\<close>

definition bolt6_IsAlive :: "bolt \<Rightarrow> bool" where
  "bolt6_IsAlive b \<longleftrightarrow> state b \<noteq> Dead"

definition bolt6_HasFailed :: "bolt \<Rightarrow> bool" where
  "bolt6_HasFailed b \<longleftrightarrow> state b = Failed"

definition bolt6_ForceReset :: "benv \<Rightarrow> bolt \<Rightarrow> bolt" where
  "bolt6_ForceReset env b =
     (if state b = Dead then b
      else
        (case bolt6_receiveAll env (b\<lparr>b_err := None\<rparr>) of
           (e, b1) \<Rightarrow>
             if b_err b1 \<noteq> None \<or> e \<noteq> None then b1
             else
               let b2 = bolt6_queue_send env (bolt6_append_msg env RqReset HReset b1) in
               if b_err b2 \<noteq> None then b2 else snd (bolt6_receive env b2)))"

definition bolt6_Reset :: "benv \<Rightarrow> bolt \<Rightarrow> bolt" where
  "bolt6_Reset env b =
     (let b1 = (if state b = Ready then b else bolt6_ForceReset env b)
      in streams_reset env (b1\<lparr>txId := 0, bookmark := [], databaseName := [], b_err := None, lastQid := -1\<rparr>))"

definition bolt6_GetRoutingTable :: "benv \<Rightarrow> (string \<times> string) list \<Rightarrow> string list \<Rightarrow> string \<Rightarrow> string \<Rightarrow> bolt \<Rightarrow>
  (goerr + routing_table option) \<times> bolt" where
  "bolt6_GetRoutingTable env routingContext bookmarks db imp b =
     (case bolt6_assertState [Ready] b of
        Some e \<Rightarrow> (Inl e, b)
      | None \<Rightarrow>
        let e1 = (if db \<noteq> [] then map_put ''db'' (VStr db) [] else []);
            extras = (if imp \<noteq> [] then map_put ''imp_user'' (VStr imp) e1 else e1)
        in (case bolt6_exchange env (bolt6_append_msg env (RqRoute routingContext bookmarks extras) HRoute (b\<lparr>route_cell := None\<rparr>)) of
              (Some e, b1) \<Rightarrow> (Inl e, b1)
            | (None, b1) \<Rightarrow> (Inr (route_cell b1), b1)))"

definition bolt6_Close :: "benv \<Rightarrow> bolt \<Rightarrow> bolt" where
  "bolt6_Close env b =
     (let b1 = (if state b \<noteq> Dead then bolt6_queue_send env (bolt6_out_append env RqGoodbye (b\<lparr>state := Dead\<rparr>)) else b)
      in b1\<lparr>sock_closed := sock_closed b1 + 1\<rparr>)"

definition bolt6_relogon :: "benv \<Rightarrow> gomap \<Rightarrow> bolt \<Rightarrow> bolt" where
  "bolt6_relogon env tokens b = bolt6_append_msg env (RqLogon tokens) HLogon (bolt6_append_msg env RqLogoff HLogoff b)"

definition bolt6_ReAuth :: "benv \<Rightarrow> reauth_token \<Rightarrow> bolt \<Rightarrow> goerr option \<times> bolt" where
  "bolt6_ReAuth env a b =
     (case GetAuthToken a of
        Inl e \<Rightarrow> (Some e, b)
      | Inr tokens \<Rightarrow>
          if resetAuth b \<or> set (b_auth b) \<noteq> set tokens \<or> ForceReAuth a then
            let b1 = bolt6_queue_send env (bolt6_relogon env tokens b) in
            if b_err b1 \<noteq> None then (b_err b1, b1)
            else
              let b2 = b1\<lparr>b_auth := tokens\<rparr> in
              if ForceReAuth a then
                (case bolt6_receiveAll env b2 of (Some e, b3) \<Rightarrow> (Some e, b3) | (None, b3) \<Rightarrow> (b_err b3, b3))
              else (None, b2)
          else (None, b))"

definition bolt6_SelectDatabase :: "string \<Rightarrow> bolt \<Rightarrow> bolt" where
  "bolt6_SelectDatabase db b = b\<lparr>databaseName := db\<rparr>"

definition bolt6_ResetAuth :: "bolt \<Rightarrow> bolt" where
  "bolt6_ResetAuth b = b\<lparr>resetAuth := True\<rparr>"

definition bolt6_Telemetry :: "benv \<Rightarrow> int \<Rightarrow> bolt \<Rightarrow> bolt" where
  "bolt6_Telemetry env api b =
     (if telemetryEnabled b then bolt6_append_msg env (RqTelemetry api) HTelemetry b
      else b\<lparr>telemetryDone := telemetryDone b + 1\<rparr>)"

text \<open>The equations of the functions that return no connection.\<close>

lemma same_assertTxHandle [bolt6_same]: "bolt6_assertTxHandle = assertTxHandle"
  by (intro ext) (simp add: bolt6_assertTxHandle_def assertTxHandle_def)

lemma same_assertState [bolt6_same]: "bolt6_assertState = assertState"
  by (intro ext) (simp add: bolt6_assertState_def assertState_def)

lemma same_toMeta [bolt6_same]: "bolt6_toMeta = toMeta"
  by (intro ext) (simp add: bolt6_toMeta_def toMeta_def)

lemma same_normalizeFetchSize [bolt6_same]: "bolt6_normalizeFetchSize = normalizeFetchSize"
  by (intro ext) (simp add: bolt6_normalizeFetchSize_def normalizeFetchSize_def)

lemma same_state_tests [bolt6_same]: "bolt6_IsAlive = IsAlive" "bolt6_HasFailed = HasFailed"
  by (intro ext, simp add: bolt6_IsAlive_def IsAlive_def) (intro ext, simp add: bolt6_HasFailed_def HasFailed_def)

lemma same_setters [bolt6_same]: "bolt6_SelectDatabase = SelectDatabase" "bolt6_ResetAuth = ResetAuth"
  by (intro ext, simp add: bolt6_SelectDatabase_def SelectDatabase_def) (intro ext, simp add: bolt6_ResetAuth_def ResetAuth_def)

end
