(* ===== verification/Bolt5Props.thy ===== *)
theory Bolt5Props
  imports Bolt5
begin

text \<open>
  Properties of a Bolt 5 connection: records are delivered in the order the server sends them, across batches and
  without loss; the loops that end a stream return; commits; what a failed or dead connection does; how a
  time-out is rounded.
\<close>

section \<open>Lemmas on the heap of streams\<close>

lemma strm_updates [simp]:
  "strm (b\<lparr>state := x1\<rparr>) i = strm b i" "strm (b\<lparr>b_err := x2\<rparr>) i = strm b i" "strm (b\<lparr>curr := x3\<rparr>) i = strm b i"
  "strm (b\<lparr>num := x4\<rparr>) i = strm b i" "strm (b\<lparr>handlers := x5\<rparr>) i = strm b i" "strm (b\<lparr>bookmark := x6\<rparr>) i = strm b i"
  "strm (b\<lparr>inbox := x7\<rparr>) i = strm b i" "strm (b\<lparr>outbuf := x8\<rparr>) i = strm b i" "strm (b\<lparr>wire := x9\<rparr>) i = strm b i"
  "strm (b\<lparr>n_writes := y1\<rparr>) i = strm b i" "strm (b\<lparr>idleDate := y2\<rparr>) i = strm b i" "strm (b\<lparr>b_ticks := y3\<rparr>) i = strm b i"
  "strm (b\<lparr>lastQid := y4\<rparr>) i = strm b i" "strm (b\<lparr>okey := y5\<rparr>) i = strm b i" "strm (b\<lparr>pinned := y6\<rparr>) i = strm b i"
  "strm (b\<lparr>txId := y7\<rparr>) i = strm b i" "strm (b\<lparr>q_err := y8\<rparr>) i = strm b i"
  by (simp_all add: strm_def)

lemma strm_alloc [simp]: "strm (b\<lparr>heap := heap b @ [s]\<rparr>) (length (heap b)) = s"
  by (simp add: strm_def)

lemma new_stream_fields [simp]:
  "attached (new_stream n) = False" "fifo (new_stream n) = []" "sum (new_stream n) = None" "s_err (new_stream n) = None"
  "discarding (new_stream n) = False" "endOfBatch (new_stream n) = False"
  by (simp_all add: new_stream_def)

lemma heap_onNextMessage [simp]: "heap (onNextMessage env b) = heap b"
  by (simp add: onNextMessage_def)

lemma strm_checkStreams [simp]: "strm (checkStreams b) i = strm b i"
  by (simp add: checkStreams_def split: bstate.split)

lemma checkStreams_fields [simp]:
  "b_err (checkStreams b) = b_err b" "handlers (checkStreams b) = handlers b" "curr (checkStreams b) = curr b"
  "num (checkStreams b) = num b" "bookmark (checkStreams b) = bookmark b" "lastQid (checkStreams b) = lastQid b"
  by (simp_all add: checkStreams_def split: bstate.split)

lemma receive_one:
  assumes "q_err b = None" "inbox b = Inr m # ms" "handlers b = h # hs"
  shows "receive env b =
    dispatch env h m (b\<lparr>inbox := ms, idleDate := clock_key env b, b_ticks := b_ticks b + 1, handlers := hs\<rparr>)"
  using assms by (simp add: receive_def receiveMsg_def onNextMessage_def clock_key_def)

section \<open>Delivery of records\<close>

text \<open>An environment in which messages can be packed and written.\<close>

definition calm :: "benv \<Rightarrow> bool" where
  "calm env \<longleftrightarrow> (\<forall>n. write_err env n = None) \<and> (\<forall>rq. pack_errs env rq = [])"

text \<open>The connection waits for records of stream \<open>i\<close>, none of which is buffered.\<close>

definition pulling :: "nat \<Rightarrow> bolt \<Rightarrow> bool" where
  "pulling i b \<longleftrightarrow> i < length (heap b) \<and> handlers b = [HPull i] \<and> b_err b = None \<and> q_err b = None \<and> outbuf b = [] \<and>
     (state b = Streaming \<or> state b = StreamingTx) \<and> fifo (strm b i) = [] \<and> \<not> finished (strm b i) \<and>
     \<not> discarding (strm b i) \<and> \<not> endOfBatch (strm b i)"

text \<open>What the server sends for a stream: batches that end with has_more, and the last one.\<close>

fun script :: "(goval list list \<times> success) list \<Rightarrow> goval list list \<Rightarrow> success \<Rightarrow> message list" where
  "script [] vss fin = map MRecord vss @ [MSuccess fin]"
| "script ((rs, su) # bs) vss fin = map MRecord rs @ MSuccess su # script bs vss fin"

fun nexts :: "benv \<Rightarrow> nat \<Rightarrow> nat \<Rightarrow> bolt \<Rightarrow> next_result list \<times> bolt" where
  "nexts env i 0 b = ([], b)"
| "nexts env i (Suc n) b =
     (let (r, b1) = bolt5_Next env i b; (rs, b2) = nexts env i n b1 in (r # rs, b2))"

lemma bolt5_Next_valid: "i < length (heap b) \<Longrightarrow> bolt5_Next env i b = next_loop env i b"
  by (simp add: bolt5_Next_def getUnsafe_def)

lemma next_loop_step:
  assumes "fifo (strm b i) = []" "\<not> finished (strm b i)" "next_pull env i b = (None, b1)" "handlers b1 \<noteq> []"
  shows "next_loop env i b =
    (case receive env b1 of
       (Some e, b2) \<Rightarrow> (NErr e, b2)
     | (None, b2) \<Rightarrow> if b_err b2 \<noteq> None then (NErr (the (b_err b2)), b2) else next_loop env i b2)"
  using assms by (subst next_loop.simps) (simp add: bufferedNext_def finished_def)

lemma pulling_next:
  assumes "pulling i b" "receive env b = (None, b2)" "b_err b2 = None"
  shows "next_loop env i b = next_loop env i b2"
  using assms by (subst next_loop_step [where ?b1.0 = b]) (simp_all add: pulling_def next_pull_def)

text \<open>A record is handed out as it comes in.\<close>

lemma next_record:
  assumes p: "pulling i b" and m: "inbox b = Inr (MRecord vs) # ms"
  shows "\<exists>b'. bolt5_Next env i b = (NRecord (keys (strm b i), vs), b') \<and> pulling i b' \<and> inbox b' = ms \<and>
    keys (strm b' i) = keys (strm b i) \<and> wire b' = wire b \<and> bookmark b' = bookmark b \<and> num b' = num b \<and> state b' = state b \<and>
    curr b' = curr b \<and> isSafe i b' = isSafe i b"
proof -
  have i: "i < length (heap b)" using p by (simp add: pulling_def)
  let ?c = "b\<lparr>inbox := ms, idleDate := clock_key env b, b_ticks := b_ticks b + 1, handlers := []\<rparr>"
  let ?b2 = "pullRecord i vs ?c"
  have r: "receive env b = (None, ?b2)"
    using p m by (subst receive_one [OF _ m]) (auto simp: pulling_def dispatch_def)
  have s2: "strm ?b2 i = push (keys (strm b i), vs) ((strm b i)\<lparr>hadRecord := True\<rparr>)"
    using i p by (simp add: pullRecord_def pulling_def Let_def)
  have f2: "handlers ?b2 = [HPull i]" "b_err ?b2 = None" "q_err ?b2 = None" "outbuf ?b2 = []" "state ?b2 = state b"
    "inbox ?b2 = ms" "wire ?b2 = wire b" "bookmark ?b2 = bookmark b" "num ?b2 = num b" "length (heap ?b2) = length (heap b)"
    "curr ?b2 = curr b" "okey ?b2 = okey b"
    using p by (simp_all add: pullRecord_def pulling_def Let_def)
  have "next_loop env i b = next_loop env i ?b2" using p r f2 by (intro pulling_next) auto
  also have "\<dots> = (NRecord (keys (strm b i), vs), upd i (\<lambda>_. (strm ?b2 i)\<lparr>fifo := []\<rparr>) ?b2)"
    using s2 p by (subst next_loop.simps) (simp add: bufferedNext_def push_def pulling_def)
  finally show ?thesis
    using i p s2 f2 by (simp add: bolt5_Next_valid pulling_def push_def finished_def isSafe_def)
qed

lemma calm_append:
  "calm env \<Longrightarrow> append_msg env rq h b = b\<lparr>outbuf := outbuf b @ [rq], handlers := handlers b @ [h]\<rparr>"
  by (simp add: calm_def append_msg_def out_append_def enqueueCallback_def)

lemma calm_send:
  "calm env \<Longrightarrow> outbuf b \<noteq> [] \<Longrightarrow>
     queue_send env b = b\<lparr>n_writes := n_writes b + 1, wire := wire b @ outbuf b, outbuf := []\<rparr>"
  by (simp add: calm_def queue_send_def Let_def)

definition is_pull :: "request \<Rightarrow> bool" where
  "is_pull rq = (case rq of RqPull _ \<Rightarrow> True | RqPullQid _ _ \<Rightarrow> True | _ \<Rightarrow> False)"

lemma appendPullN_streaming:
  assumes "state b = Streaming \<or> state b = StreamingTx"
  shows "\<exists>rq. appendPullN env i b = append_msg env rq (HPull i) b \<and> is_pull rq"
proof (cases "state b = Streaming \<or> qid (strm b i) = lastQid b")
  case True
  then have "appendPullN env i b = append_msg env (RqPull (fetchSize (strm b i))) (HPull i) b"
    using assms by (auto simp: appendPullN_def Let_def)
  then show ?thesis by (auto simp: is_pull_def)
next
  case False
  then have "appendPullN env i b = append_msg env (RqPullQid (fetchSize (strm b i)) (qid (strm b i))) (HPull i) b"
    using assms by (auto simp: appendPullN_def Let_def)
  then show ?thesis by (auto simp: is_pull_def)
qed

text \<open>At the end of a batch the next one is asked for: one PULL is sent and the connection waits again.\<close>

lemma next_pull_calm:
  assumes c: "calm env" and i: "i < length (heap b)" and e: "endOfBatch (strm b i)" and f: "fifo (strm b i) = []"
    "\<not> finished (strm b i)" "\<not> discarding (strm b i)"
    and h: "handlers b = []" "b_err b = None" "q_err b = None" "outbuf b = []" "state b = Streaming \<or> state b = StreamingTx"
  shows "\<exists>b1 rq. next_pull env i b = (None, b1) \<and> pulling i b1 \<and> inbox b1 = inbox b \<and>
    keys (strm b1 i) = keys (strm b i) \<and> wire b1 = wire b @ [rq] \<and> is_pull rq \<and> bookmark b1 = bookmark b \<and>
    num b1 = num b \<and> state b1 = state b \<and> curr b1 = curr b \<and> isSafe i b1 = isSafe i b"
proof -
  obtain rq where a: "appendPullN env i b = append_msg env rq (HPull i) b" "is_pull rq"
    using appendPullN_streaming [OF h(5)] by blast
  let ?b1 = "upd i (\<lambda>s. s\<lparr>endOfBatch := False\<rparr>) (queue_send env (append_msg env rq (HPull i) b))"
  have "next_pull env i b = (None, ?b1)"
    using c e h by (simp add: next_pull_def a Let_def calm_append calm_send)
  moreover have "pulling i ?b1" "inbox ?b1 = inbox b" "keys (strm ?b1 i) = keys (strm b i)" "wire ?b1 = wire b @ [rq]"
    "bookmark ?b1 = bookmark b" "num ?b1 = num b" "state ?b1 = state b" "curr ?b1 = curr b" "isSafe i ?b1 = isSafe i b"
    using c i f h by (auto simp: pulling_def calm_append calm_send finished_def isSafe_def)
  ultimately show ?thesis using a(2) by blast
qed

lemma next_batch:
  assumes c: "calm env" and p: "pulling i b" and m: "inbox b = Inr (MSuccess su) # ms" and more: "hasMore su"
  shows "\<exists>b' rq. bolt5_Next env i b = bolt5_Next env i b' \<and> pulling i b' \<and> inbox b' = ms \<and>
    keys (strm b' i) = keys (strm b i) \<and> wire b' = wire b @ [rq] \<and> is_pull rq \<and> bookmark b' = bookmark b \<and>
    num b' = num b \<and> state b' = state b \<and> curr b' = curr b \<and> isSafe i b' = isSafe i b"
proof -
  have i: "i < length (heap b)" using p by (simp add: pulling_def)
  let ?b2 = "upd i (\<lambda>s. s\<lparr>endOfBatch := True\<rparr>)
    (b\<lparr>inbox := ms, idleDate := clock_key env b, b_ticks := b_ticks b + 1, handlers := []\<rparr>)"
  have r: "receive env b = (None, ?b2)"
    using p more by (subst receive_one [OF _ m]) (auto simp: pulling_def dispatch_def stream_done_def)
  have s2: "fifo (strm ?b2 i) = []" "\<not> finished (strm ?b2 i)" "keys (strm ?b2 i) = keys (strm b i)"
    using i p by (simp_all add: pulling_def finished_def)
  obtain b3 rq where b3: "next_pull env i ?b2 = (None, b3)" "pulling i b3" "inbox b3 = ms"
      "keys (strm b3 i) = keys (strm b i)" "wire b3 = wire b @ [rq]" "is_pull rq" "bookmark b3 = bookmark b" "num b3 = num b" "state b3 = state b"
      "curr b3 = curr b" "isSafe i b3 = isSafe i b"
    using next_pull_calm [of env i ?b2] c i p by (auto simp: pulling_def finished_def isSafe_def)
  have "next_loop env i b = next_loop env i ?b2"
    using p r by (intro pulling_next) (auto simp: pulling_def)
  also have "\<dots> = next_loop env i b3"
    using b3(2) by (subst next_loop_step [OF s2(1,2) b3(1)], simp add: pulling_def)
      (subst next_loop_step [where ?b1.0 = b3], auto simp: pulling_def next_pull_def)
  finally have "bolt5_Next env i b = bolt5_Next env i b3"
    using b3(2) i by (simp add: bolt5_Next_valid pulling_def)
  with b3 show ?thesis by blast
qed

text \<open>The state after the end of a stream, when it was the last open one.\<close>

definition settled :: "bolt \<Rightarrow> bstate" where
  "settled b = (if num b \<le> 1 then (if state b = Streaming then Ready else Tx) else state b)"

text \<open>The end of the stream gives the summary, with the bookmark stored and no handler left.\<close>

lemma next_summary:
  assumes p: "pulling i b" and m: "inbox b = Inr (MSuccess su) # ms" and last: "\<not> hasMore su"
  shows "\<exists>b'. bolt5_Next env i b = (NSummary (extractSummary su (strm b i) b), b') \<and> inbox b' = ms \<and>
    handlers b' = [] \<and> b_err b' = None \<and> wire b' = wire b \<and>
    bookmark b' = (if su_bookmark su \<noteq> [] then su_bookmark su else bookmark b) \<and> state b' = settled b \<and>
    i < length (heap b') \<and> fifo (strm b' i) = [] \<and> s_err (strm b' i) = None \<and> sum (strm b' i) \<noteq> None"
proof -
  have i: "i < length (heap b)" using p by (simp add: pulling_def)
  let ?c = "b\<lparr>inbox := ms, idleDate := clock_key env b, b_ticks := b_ticks b + 1, handlers := []\<rparr>"
  let ?b2 = "stream_done i su ?c"
  have r: "receive env b = (None, ?b2)"
    using p by (subst receive_one [OF _ m]) (auto simp: pulling_def dispatch_def)
  have s2: "fifo (strm ?b2 i) = []" "s_err (strm ?b2 i) = None" "sum (strm ?b2 i) = Some (extractSummary su (strm b i) b)"
    using i p last by (auto simp: stream_done_def streams_remove_def Let_def pulling_def finished_def extractSummary_def)
  have f2: "handlers ?b2 = []" "b_err ?b2 = None" "inbox ?b2 = ms" "wire ?b2 = wire b"
    "bookmark ?b2 = (if su_bookmark su \<noteq> [] then su_bookmark su else bookmark b)" "length (heap ?b2) = length (heap b)"
    using p last by (auto simp: stream_done_def streams_remove_def Let_def pulling_def extractSummary_def)
  have st: "state ?b2 = settled b"
    using p last by (auto simp: stream_done_def streams_remove_def Let_def pulling_def settled_def checkStreams_def)
  have "next_loop env i b = next_loop env i ?b2"
    using p r f2 by (intro pulling_next) auto
  also have "\<dots> = (NSummary (extractSummary su (strm b i) b), upd i (\<lambda>_. strm ?b2 i) ?b2)"
    using s2 by (subst next_loop.simps) (simp add: bufferedNext_def)
  finally show ?thesis using i f2 st s2 by (simp add: bolt5_Next_valid)
qed

lemma nexts_Suc: "bolt5_Next env i b = (r, b1) \<Longrightarrow> nexts env i (Suc n) b = (r # fst (nexts env i n b1), snd (nexts env i n b1))"
  by (simp split: prod.split)

text \<open>The records of a script, and what the stream delivers for it.\<close>

definition all_records :: "(goval list list \<times> success) list \<Rightarrow> goval list list \<Rightarrow> goval list list" where
  "all_records bs vss = concat (map fst bs) @ vss"

definition delivers :: "benv \<Rightarrow> nat \<Rightarrow> bolt \<Rightarrow> goval list list \<Rightarrow> success \<Rightarrow> (goerr + message) list \<Rightarrow> nat \<Rightarrow> bool" where
  "delivers env i b vss fin rest k \<longleftrightarrow>
     (\<exists>m b'. nexts env i (length vss + 1) b = (map (\<lambda>vs. NRecord (keys (strm b i), vs)) vss @ [NSummary m], b') \<and>
        Bookmark m = su_bookmark fin \<and> inbox b' = rest \<and> handlers b' = [] \<and> b_err b' = None \<and>
        bookmark b' = (if su_bookmark fin \<noteq> [] then su_bookmark fin else bookmark b) \<and> state b' = settled b \<and>
        (\<exists>rqs. wire b' = wire b @ rqs \<and> length rqs = k \<and> list_all is_pull rqs))"

lemma delivers_record:
  assumes p: "pulling i b" and m: "inbox b = Inr (MRecord vs) # ms"
    and IH: "\<And>b'. pulling i b' \<Longrightarrow> inbox b' = ms \<Longrightarrow> delivers env i b' vss fin rest k"
  shows "delivers env i b (vs # vss) fin rest k"
proof -
  obtain b' where b': "bolt5_Next env i b = (NRecord (keys (strm b i), vs), b')" "pulling i b'" "inbox b' = ms"
      "keys (strm b' i) = keys (strm b i)" "wire b' = wire b" "bookmark b' = bookmark b" "num b' = num b" "state b' = state b"
    using next_record [OF p m] by blast
  from IH [OF b'(2,3)] show ?thesis
    unfolding delivers_def settled_def using b'(4-8) nexts_Suc [OF b'(1), of "length vss + 1"] by auto
qed

lemma delivers_batch:
  assumes "calm env" and p: "pulling i b" and m: "inbox b = Inr (MSuccess su) # ms" and "hasMore su"
    and IH: "\<And>b'. pulling i b' \<Longrightarrow> inbox b' = ms \<Longrightarrow> delivers env i b' vss fin rest k"
  shows "delivers env i b vss fin rest (Suc k)"
proof -
  obtain b' rq where b': "bolt5_Next env i b = bolt5_Next env i b'" "pulling i b'" "inbox b' = ms"
      "keys (strm b' i) = keys (strm b i)" "wire b' = wire b @ [rq]" "is_pull rq" "bookmark b' = bookmark b"
      "num b' = num b" "state b' = state b"
    using next_batch [OF assms(1-4)] by blast
  have n: "nexts env i (length vss + 1) b = nexts env i (length vss + 1) b'"
    by (simp add: b'(1))
  obtain m b2 rqs where d: "nexts env i (length vss + 1) b' = (map (\<lambda>vs. NRecord (keys (strm b' i), vs)) vss @ [NSummary m], b2)"
      "Bookmark m = su_bookmark fin" "inbox b2 = rest" "handlers b2 = []" "b_err b2 = None"
      "bookmark b2 = (if su_bookmark fin \<noteq> [] then su_bookmark fin else bookmark b')" "state b2 = settled b'"
      "wire b2 = wire b' @ rqs" "length rqs = k" "list_all is_pull rqs"
    using IH [OF b'(2,3)] unfolding delivers_def by blast
  have "wire b2 = wire b @ (rq # rqs) \<and> length (rq # rqs) = Suc k \<and> list_all is_pull (rq # rqs)"
    using d b' by simp
  then show ?thesis unfolding delivers_def n settled_def using d(1-7) b'(4,7-9) by (auto simp: settled_def)
qed

lemma delivers_summary:
  assumes "pulling i b" "inbox b = Inr (MSuccess fin) # rest" "\<not> hasMore fin"
  shows "delivers env i b [] fin rest 0"
  using next_summary [OF assms, of env] unfolding delivers_def
  by (auto simp: extractSummary_def split: prod.split)

lemma delivers_records:
  assumes "pulling i b" "inbox b = map (Inr \<circ> MRecord) rs @ ms"
    and "\<And>b'. pulling i b' \<Longrightarrow> inbox b' = ms \<Longrightarrow> delivers env i b' vss fin rest k"
  shows "delivers env i b (rs @ vss) fin rest k"
  using assms
proof (induction rs arbitrary: b)
  case Nil
  then show ?case by simp
next
  case (Cons r rs)
  from Cons.prems(1) have "inbox b = Inr (MRecord r) # (map (Inr \<circ> MRecord) rs @ ms)"
    using Cons.prems(2) by simp
  from delivers_record [OF Cons.prems(1) this] Cons.IH [OF _ _ Cons.prems(3)] show ?case by simp
qed

lemma delivers_script:
  assumes "calm env" "\<not> hasMore fin" "list_all (hasMore \<circ> snd) bs"
    and "pulling i b" "inbox b = map Inr (script bs vss fin) @ rest"
  shows "delivers env i b (all_records bs vss) fin rest (length bs)"
  using assms(3-)
proof (induction bs arbitrary: b)
  case Nil
  from Nil.prems have "inbox b = map (Inr \<circ> MRecord) vss @ Inr (MSuccess fin) # rest" by simp
  from delivers_records [OF Nil.prems(2) this, of env "[]" fin rest 0] delivers_summary [OF _ _ assms(2)]
  show ?case by (simp add: all_records_def)
next
  case (Cons x bs)
  obtain rs su where x: "x = (rs, su)" by (cases x)
  let ?ms = "map Inr (script bs vss fin) @ rest"
  have m: "inbox b = map (Inr \<circ> MRecord) rs @ Inr (MSuccess su) # ?ms"
    using Cons.prems(3) x by simp
  have "delivers env i b' (all_records bs vss) fin rest (Suc (length bs))"
    if "pulling i b'" "inbox b' = Inr (MSuccess su) # ?ms" for b'
    using delivers_batch [OF assms(1) that] Cons.prems(1) x Cons.IH by simp
  from delivers_records [OF Cons.prems(2) m this] show ?case by (simp add: all_records_def x)
qed

text \<open>A connection between two requests: nothing is pending.\<close>

definition idle_conn :: "bolt \<Rightarrow> bool" where
  "idle_conn b \<longleftrightarrow> (state b = Ready \<or> state b = Tx) \<and> handlers b = [] \<and> outbuf b = [] \<and> b_err b = None \<and> q_err b = None \<and>
     curr b = None \<and> num b = 0"

lemma pin_database_fields [simp]:
  "heap (pin_database env su b) = heap b" "curr (pin_database env su b) = curr b" "okey (pin_database env su b) = okey b"
  "strm (pin_database env su b) i = strm b i"
  by (simp_all add: pin_database_def)

lemma runSuccess_strm:
  assumes "i < length (heap c)" "curr c = None"
  shows "strm (runSuccess env i su c) i =
    (strm c i)\<lparr>attached := True, keys := su_fields su, qid := su_qid su, tfirst := su_tfirst su, s_key := okey c\<rparr>"
  using assms by (simp add: runSuccess_def streams_attach_def Let_def)

lemma run_wait_step:
  "\<not> attached (strm b i) \<Longrightarrow> receive env b = (None, b1) \<Longrightarrow> b_err b1 = None \<Longrightarrow> attached (strm b1 i) \<Longrightarrow>
     run_wait env i b = (None, b1)"
  by (subst run_wait.simps, subst run_wait.simps) simp

text \<open>The response of a RUN message attaches the stream.\<close>

lemma run_response:
  assumes "i < length (heap b)" "curr b = None" "q_err b = None" "b_err b = None"
    and h: "handlers b = HRun i # hs" and m: "inbox b = Inr (MSuccess su) # ms"
  shows "\<exists>b'. receive env b = (None, b') \<and>
    strm b' i = (strm b i)\<lparr>attached := True, keys := su_fields su, qid := su_qid su, tfirst := su_tfirst su, s_key := okey b\<rparr> \<and>
    b_err b' = None \<and> handlers b' = hs \<and> state b' = state b \<and> inbox b' = ms \<and> num b' = num b + 1 \<and>
    curr b' = Some i \<and> q_err b' = None \<and> outbuf b' = outbuf b \<and> bookmark b' = bookmark b \<and> wire b' = wire b \<and>
    length (heap b') = length (heap b) \<and> okey b' = okey b"
proof -
  let ?c = "b\<lparr>inbox := ms, idleDate := clock_key env b, b_ticks := b_ticks b + 1, handlers := hs\<rparr>"
  have "receive env b = (None, runSuccess env i su ?c)"
    using assms by (subst receive_one [OF _ m h]) (auto simp: dispatch_def)
  moreover have "strm (runSuccess env i su ?c) i = (strm b i)\<lparr>attached := True, keys := su_fields su, qid := su_qid su,
      tfirst := su_tfirst su, s_key := okey b\<rparr>"
    using runSuccess_strm [of i ?c env su] assms by simp
  ultimately show ?thesis
    using assms by (auto simp: runSuccess_def streams_attach_def Let_def pin_database_def)
qed

lemma run_start_ok:
  assumes c: "calm env" and b: "idle_conn b" and m: "inbox b = Inr (MSuccess su) # ms"
  shows "\<exists>b'. run_start env cypher params n meta b = (Inr (length (heap b)), b') \<and> pulling (length (heap b)) b' \<and>
    keys (strm b' (length (heap b))) = su_fields su \<and> inbox b' = ms \<and> num b' = 1 \<and> curr b' = Some (length (heap b)) \<and>
    isSafe (length (heap b)) b' = None \<and> bookmark b' = bookmark b \<and> state b' = (if state b = Ready then Streaming else StreamingTx) \<and>
    wire b' = wire b @ [RqRun cypher params meta, RqPull (normalizeFetchSize n)]"
proof -
  let ?i = "length (heap b)" and ?f = "normalizeFetchSize n"
  let ?b2 = "b\<lparr>heap := heap b @ [new_stream ?f], n_writes := Suc (n_writes b), outbuf := [],
    wire := wire b @ [RqRun cypher params meta, RqPull ?f], handlers := [HRun ?i, HPull ?i]\<rparr>"
  have send: "queue_send env (append_msg env (RqPull ?f) (HPull ?i)
      (append_msg env (RqRun cypher params meta) (HRun ?i) (b\<lparr>heap := heap b @ [new_stream ?f]\<rparr>))) = ?b2"
    using c b by (simp add: calm_append calm_send idle_conn_def)
  have s: "strm ?b2 ?i = new_stream ?f" by (simp add: strm_def)
  obtain b3 where r: "receive env ?b2 = (None, b3)"
    and s3: "strm b3 ?i = (new_stream ?f)\<lparr>attached := True, keys := su_fields su, qid := su_qid su,
      tfirst := su_tfirst su, s_key := okey b\<rparr>"
    and f3: "b_err b3 = None" "handlers b3 = [HPull ?i]" "state b3 = state b" "inbox b3 = ms" "num b3 = 1"
    "curr b3 = Some ?i" "q_err b3 = None" "outbuf b3 = []" "bookmark b3 = bookmark b" "wire b3 = wire ?b2"
    "length (heap b3) = length (heap b) + 1" "okey b3 = okey b"
    using run_response [of ?i ?b2 "[HPull ?i]" su ms env] b m unfolding s
    by (auto simp: idle_conn_def)
  have w: "run_wait env ?i ?b2 = (None, b3)"
    by (rule run_wait_step [OF _ r f3(1)]) (unfold s s3, simp_all)
  have "b_err ?b2 = None" using b by (simp add: idle_conn_def)
  then show ?thesis
    using s3 f3 b by (auto simp: run_start_def Let_def send w pulling_def idle_conn_def finished_def isSafe_def)
qed

lemma Run_ready:
  assumes "idle_conn b" "state b = Ready" "checkNotificationFiltering (tx_notifications c) b = None"
  shows "bolt5_Run env cypher params n c b =
    Some (run_start env cypher params n (Some (toMeta c (databaseName b) (Version b))) b)"
  using assms by (simp add: bolt5_Run_def bolt5_run_def run_prepare_def assertState_def idle_conn_def)

section \<open>Queries\<close>

text \<open>
  C19: a query returns every record, in order, and then the summary. On an idle connection Run sends RUN and PULL
  and returns a stream; whatever way the server splits the records into batches, the calls of Next return the
  records in the order of the server, each with the keys of the query, then the summary; exactly one PULL is sent
  for each batch that has more; the bookmark of the server is stored; no response is left over, and the
  connection is ready again.
\<close>

theorem query_delivers_all:
  assumes "calm env" "idle_conn b" "state b = Ready" "checkNotificationFiltering (tx_notifications c) b = None"
    and "inbox b = Inr (MSuccess su) # map Inr (script bs vss fin) @ rest"
    and "\<not> hasMore fin" "list_all (hasMore \<circ> snd) bs"
  shows "\<exists>i b1 m b2 pulls.
    bolt5_Run env cypher params n c b = Some (Inr i, b1) \<and>
    nexts env i (length (all_records bs vss) + 1) b1 =
      (map (\<lambda>vs. NRecord (su_fields su, vs)) (all_records bs vss) @ [NSummary m], b2) \<and>
    Bookmark m = su_bookmark fin \<and> inbox b2 = rest \<and> handlers b2 = [] \<and> b_err b2 = None \<and> state b2 = Ready \<and>
    bookmark b2 = (if su_bookmark fin \<noteq> [] then su_bookmark fin else bookmark b) \<and>
    wire b2 = wire b @ [RqRun cypher params (Some (toMeta c (databaseName b) (Version b))),
      RqPull (normalizeFetchSize n)] @ pulls \<and> length pulls = length bs \<and> list_all is_pull pulls"
proof -
  let ?meta = "Some (toMeta c (databaseName b) (Version b))" and ?i = "length (heap b)"
  obtain b1 where b1: "run_start env cypher params n ?meta b = (Inr ?i, b1)" "pulling ?i b1"
      "keys (strm b1 ?i) = su_fields su" "inbox b1 = map Inr (script bs vss fin) @ rest" "num b1 = 1"
      "bookmark b1 = bookmark b" "state b1 = Streaming"
      "wire b1 = wire b @ [RqRun cypher params ?meta, RqPull (normalizeFetchSize n)]"
    using run_start_ok [OF assms(1,2,5)] assms(3) by force
  have "settled b1 = Ready" using b1 by (simp add: settled_def)
  then have "\<exists>m b2 pulls. nexts env ?i (length (all_records bs vss) + 1) b1 =
      (map (\<lambda>vs. NRecord (su_fields su, vs)) (all_records bs vss) @ [NSummary m], b2) \<and>
    Bookmark m = su_bookmark fin \<and> inbox b2 = rest \<and> handlers b2 = [] \<and> b_err b2 = None \<and> state b2 = Ready \<and>
    bookmark b2 = (if su_bookmark fin \<noteq> [] then su_bookmark fin else bookmark b) \<and>
    wire b2 = wire b @ [RqRun cypher params ?meta, RqPull (normalizeFetchSize n)] @ pulls \<and>
    length pulls = length bs \<and> list_all is_pull pulls"
    using delivers_script [OF assms(1,6,7) b1(2,4)] unfolding delivers_def b1(3,6) by (auto simp: b1(8))
  then show ?thesis
    unfolding Run_ready [OF assms(2,3,4)] b1(1) by blast
qed

section \<open>The loops that end a stream\<close>

lemma setError_err [simp]: "b_err (setError env e f b) \<noteq> None"
  by (auto simp: setError_def handleTerminatedContextError_def streams_detach_def streams_remove_def CombineErrors_def Let_def
      split: option.splits if_splits)

lemma setError_err_Some [simp]: "\<exists>y. b_err (setError env e f b) = Some y"
  using setError_err by blast

lemma onIoError_err [simp]: "b_err (onIoError env e b) \<noteq> None" "\<exists>y. b_err (onIoError env e b) = Some y"
  by (simp_all add: onIoError_def)

lemma setErrors_err: "b_err b \<noteq> None \<or> es \<noteq> [] \<Longrightarrow> b_err (foldl (\<lambda>b' e. setError env (g e) f b') b es) \<noteq> None"
  by (induction es arbitrary: b) auto

lemma append_ok:
  assumes "b_err (append_msg env rq h b) = None"
  shows "append_msg env rq h b = b\<lparr>outbuf := outbuf b @ [rq], handlers := handlers b @ [h]\<rparr>"
proof (cases "pack_errs env rq")
  case Nil
  then show ?thesis by (simp add: append_msg_def out_append_def enqueueCallback_def)
next
  case (Cons e es)
  then have "b_err (append_msg env rq h b) \<noteq> None"
    by (simp add: append_msg_def out_append_def enqueueCallback_def setErrors_err)
  with assms show ?thesis by simp
qed

lemma queue_send_ok:
  assumes "b_err (queue_send env b) = None"
  shows "b_err b = None \<and> (\<exists>n w rs. queue_send env b = b\<lparr>n_writes := n, wire := w, outbuf := rs\<rparr>)"
proof (cases "outbuf b = []")
  case True
  then have "queue_send env b = b\<lparr>n_writes := n_writes b, wire := wire b, outbuf := outbuf b\<rparr>"
    by (simp add: queue_send_def)
  moreover have "b_err b = None" using assms True by (simp add: queue_send_def)
  ultimately show ?thesis by blast
next
  case False
  with assms show ?thesis
    by (auto simp: queue_send_def Let_def split: option.splits)
qed

lemma send_append_ok:
  assumes "b_err (queue_send env (append_msg env rq h b)) = None"
  shows "b_err b = None \<and> (\<exists>n w rs. queue_send env (append_msg env rq h b) =
    b\<lparr>handlers := handlers b @ [h], n_writes := n, wire := w, outbuf := rs\<rparr>)"
proof -
  note s = queue_send_ok [OF assms]
  then have a: "append_msg env rq h b = b\<lparr>outbuf := outbuf b @ [rq], handlers := handlers b @ [h]\<rparr>"
    by (intro append_ok) simp
  with s show ?thesis by auto
qed

lemma receiveAll_shortens:
  "receiveAll env b = (None, b1) \<Longrightarrow> handlers b \<noteq> [] \<Longrightarrow> length (inbox b1) < length (inbox b)"
proof (induction env b rule: receiveAll.induct)
  case (1 env b)
  then obtain b' where r: "receive env b = (None, b')" "receiveAll env b' = (None, b1)"
    by (auto simp: receiveAll.simps [of env b] split: prod.splits option.splits)
  have "length (inbox b1) \<le> length (inbox b')"
    using 1(1) [OF 1(3) r(1) [symmetric] refl r(2)] r(2) by (cases "handlers b' = []") (auto simp: receiveAll.simps [of env b'])
  with receive_shortens [OF r(1)] show ?case by simp
qed

lemma receiveAll_le: "receiveAll env b = (None, b1) \<Longrightarrow> length (inbox b1) \<le> length (inbox b)"
  using receiveAll_shortens [of env b b1] by (cases "handlers b = []") (auto simp: receiveAll.simps [of env b])

lemma receiveAll_handlers: "receiveAll env b = (None, b1) \<Longrightarrow> handlers b1 = []"
proof (induction env b rule: receiveAll.induct)
  case (1 env b)
  then show ?case
    by (cases "handlers b = []") (auto simp: receiveAll.simps [of env b] split: prod.splits option.splits)
qed

text \<open>
  Every round of the discarding loop but the first has a response to wait for, so the loop uses up what the
  server sends.
\<close>

lemma discard_loop_returns: "\<exists>b'. discard_loop env i d b = Some b'"
proof (induction "2 * length (inbox b) + (if handlers b = [] then 1 else 0)" arbitrary: d b rule: less_induct)
  case less
  obtain e b1 where ra: "receiveAll env b = (e, b1)" by (cases "receiveAll env b")
  let ?c = "upd i (\<lambda>s. s\<lparr>fetchSize := -1\<rparr>) b1"
  let ?b2 = "queue_send env (appendDiscard env i ?c)"
  obtain rq where a: "appendDiscard env i ?c = append_msg env rq (HDiscard i) ?c"
    by (simp add: appendDiscard_def Let_def) (metis (full_types))
  consider "e \<noteq> None \<or> b_err b1 \<noteq> None \<or> finished (strm b1 i)" | "endOfBatch (strm b1 i) \<and> d" | "b_err ?b2 \<noteq> None"
    | "e = None" "b_err ?b2 = None" by blast
  then show ?case
  proof cases
    case 4
    from send_append_ok [OF 4(2) [unfolded a]] have "handlers ?b2 \<noteq> []" "inbox ?b2 = inbox b1"
      unfolding a by auto
    moreover have "length (inbox b1) < length (inbox b) \<or> handlers b = [] \<and> inbox b1 = inbox b"
      using ra 4(1) receiveAll_shortens [of env b b1] by (cases "handlers b = []") (auto simp: receiveAll.simps [of env b])
    ultimately have "\<exists>b'. discard_loop env i True ?b2 = Some b'"
      by (intro less) auto
    then show ?thesis by (subst discard_loop.simps) (auto simp: ra Let_def)
  qed (subst discard_loop.simps, simp add: ra Let_def)+
qed

lemma discardStream_returns: "\<exists>b'. discardStream env b = Some b'"
  using discard_loop_returns by (auto simp: discardStream_def split: option.split)

lemma discardAllStreams_returns: "\<exists>b'. discardAllStreams env b = Some b'"
  using discardStream_returns [of env b] by (auto simp: discardAllStreams_def)

text \<open>
  Ending a transaction and consuming a result always return: whatever the server sends, and in whatever state the
  connection is, TxCommit, TxRollback and Consume come back as long as a read from the socket does.
\<close>

lemma end_of_stream_returns:
  "(\<exists>r b'. bolt5_TxCommit env h b = Some (r, b')) \<and> (\<exists>r b'. bolt5_TxRollback env h b = Some (r, b')) \<and>
   (\<exists>r b'. bolt5_Consume env i b = Some (r, b'))"
proof -
  have e: "\<exists>r b'. end_tx env rq hd h b = Some (r, b')" for rq hd
    using discardAllStreams_returns [of env b]
    by (auto simp: end_tx_def split: option.split prod.split)
  moreover have "\<exists>r b'. bolt5_Consume env i b = Some (r, b')"
    using discardStream_returns by (auto simp: bolt5_Consume_def split: option.split prod.split)
  ultimately show ?thesis by (simp add: bolt5_TxCommit_def bolt5_TxRollback_def)
qed

section \<open>Discarding the rest of a stream\<close>

text \<open>The connection waits for records of stream \<open>i\<close> that nobody wants.\<close>

definition draining :: "nat \<Rightarrow> bolt \<Rightarrow> bool" where
  "draining i b \<longleftrightarrow> i < length (heap b) \<and> handlers b = [HPull i] \<and> b_err b = None \<and> q_err b = None \<and> outbuf b = [] \<and>
     (state b = Streaming \<or> state b = StreamingTx) \<and> fifo (strm b i) = [] \<and> \<not> finished (strm b i) \<and>
     discarding (strm b i) \<and> \<not> endOfBatch (strm b i)"

text \<open>What receiving for a stream leaves alone.\<close>

definition stream_frame :: "bolt \<Rightarrow> bolt \<Rightarrow> bool" where
  "stream_frame b b' \<longleftrightarrow> wire b' = wire b \<and> bookmark b' = bookmark b \<and> num b' = num b \<and> state b' = state b \<and> curr b' = curr b \<and>
     lastQid b' = lastQid b \<and> serverVersion b' = serverVersion b \<and> minor b' = minor b \<and> b_serverName b' = b_serverName b"

lemma upd_names [simp]: "serverVersion (upd i f b) = serverVersion b" "b_serverName (upd i f b) = b_serverName b"
  by (simp_all add: upd_def)

lemma drain_record:
  assumes p: "draining i b" and m: "inbox b = Inr (MRecord vs) # ms"
  shows "\<exists>c. receive env b = (None, c) \<and> draining i c \<and> stream_frame b c \<and> inbox c = ms \<and> strm c i = (strm b i)\<lparr>hadRecord := True\<rparr>"
proof -
  have i: "i < length (heap b)" using p by (simp add: draining_def)
  let ?c = "pullRecord i vs (b\<lparr>inbox := ms, idleDate := clock_key env b, b_ticks := b_ticks b + 1, handlers := []\<rparr>)"
  have "receive env b = (None, ?c)"
    using p by (subst receive_one [OF _ m]) (auto simp: draining_def dispatch_def)
  moreover have "strm ?c i = (strm b i)\<lparr>hadRecord := True\<rparr>"
    using i p by (cases "strm b i") (simp add: pullRecord_def draining_def Let_def emptyRecords_def)
  moreover have "stream_frame b ?c" "inbox ?c = ms" "handlers ?c = [HPull i]" "length (heap ?c) = length (heap b)"
    "b_err ?c = b_err b" "q_err ?c = q_err b" "outbuf ?c = outbuf b"
    by (simp_all add: pullRecord_def Let_def stream_frame_def)
  ultimately show ?thesis using p by (intro exI [of _ ?c]) (simp add: draining_def stream_frame_def finished_def)
qed

lemma drain_records:
  assumes "draining i b" "inbox b = map (Inr \<circ> MRecord) vss @ ms"
  shows "\<exists>c. receiveAll env b = receiveAll env c \<and> draining i c \<and> stream_frame b c \<and> inbox c = ms \<and>
    strm c i = (strm b i)\<lparr>hadRecord := hadRecord (strm b i) \<or> vss \<noteq> []\<rparr>"
  using assms
proof (induction vss arbitrary: b)
  case Nil
  then show ?case by (intro exI [of _ b]) (simp add: stream_frame_def)
next
  case (Cons vs vss)
  have "inbox b = Inr (MRecord vs) # map (Inr \<circ> MRecord) vss @ ms" using Cons.prems(2) by simp
  then obtain c where c: "receive env b = (None, c)" "draining i c" "stream_frame b c" "inbox c = map (Inr \<circ> MRecord) vss @ ms"
      "strm c i = (strm b i)\<lparr>hadRecord := True\<rparr>"
    using drain_record [OF Cons.prems(1)] by blast
  have "receiveAll env b = receiveAll env c"
    using Cons.prems(1) by (subst receiveAll.simps) (simp add: c(1) draining_def)
  then show ?case using Cons.IH [OF c(2,4)] c(3,5) by (auto simp: stream_frame_def)
qed

text \<open>The stream \<open>i\<close> of \<open>b\<close> is no longer there: nothing is pending, and the connection is ready if this was the last stream.\<close>

definition given_up :: "bolt \<Rightarrow> bolt \<Rightarrow> bool" where
  "given_up b b' \<longleftrightarrow> handlers b' = [] \<and> outbuf b' = [] \<and> b_err b' = None \<and> curr b' = None \<and> num b' = num b - 1 \<and> state b' = settled b"

lemma last_response:
  assumes "handlers b = [h]" "h = HPull i \<or> h = HDiscard i" "q_err b = None" "b_err b = None" "outbuf b = []"
    and "state b = Streaming \<or> state b = StreamingTx" "curr b = Some i" "i < length (heap b)" "fifo (strm b i) = []"
    and m: "inbox b = Inr (MSuccess su) # ms"
  shows "\<exists>c. receiveAll env b = (None, c) \<and> inbox c = ms \<and> wire c = wire b \<and> handlers c = [] \<and> q_err c = None \<and> outbuf c = [] \<and>
    b_err c = None \<and> length (heap c) = length (heap b) \<and>
    (if hasMore su then stream_frame b c \<and> strm c i = (strm b i)\<lparr>endOfBatch := True\<rparr>
     else given_up b c \<and> strm c i = (strm b i)\<lparr>sum := Some (extractSummary su (strm b i) b), s_key := 0\<rparr> \<and>
       bookmark c = (if su_bookmark su \<noteq> [] then su_bookmark su else bookmark b))"
proof -
  let ?c = "b\<lparr>inbox := ms, idleDate := clock_key env b, b_ticks := b_ticks b + 1, handlers := []\<rparr>"
  let ?f = "if h = HPull i \<and> discarding (strm b i) then upd i emptyRecords ?c else ?c"
  let ?d = "stream_done i su ?f"
  have "receive env b = (None, ?d)"
    using assms(2) by (subst receive_one [OF assms(3) m assms(1)]) (auto simp: dispatch_def)
  moreover have f: "handlers ?f = []" "inbox ?f = ms" "wire ?f = wire b" "q_err ?f = None" "outbuf ?f = []" "b_err ?f = None"
    "curr ?f = Some i" "num ?f = num b" "state ?f = state b" "bookmark ?f = bookmark b" "length (heap ?f) = length (heap b)" "stream_frame b ?f"
    using assms by (auto simp: stream_frame_def)
  moreover have s: "strm ?f i = strm b i"
    using assms(8,9) by (cases "strm b i") (simp add: emptyRecords_def)
  moreover have "handlers ?d = []" using f(1) by (simp add: stream_done_def streams_remove_def Let_def)
  ultimately have "receiveAll env b = (None, ?d)"
    using assms(1) by (simp add: receiveAll.simps [of env b] receiveAll.simps [of env ?d])
  moreover have "inbox c = ms \<and> wire c = wire b \<and> handlers c = [] \<and> q_err c = None \<and> outbuf c = [] \<and>
      b_err c = None \<and> length (heap c) = length (heap b) \<and>
      (if hasMore su then stream_frame b c \<and> strm c i = (strm b i)\<lparr>endOfBatch := True\<rparr>
       else given_up b c \<and> strm c i = (strm b i)\<lparr>sum := Some (extractSummary su (strm b i) b), s_key := 0\<rparr> \<and>
         bookmark c = (if su_bookmark su \<noteq> [] then su_bookmark su else bookmark b))"
    if "c = stream_done i su f" "handlers f = []" "inbox f = ms" "wire f = wire b" "q_err f = None" "outbuf f = []" "b_err f = None"
      "length (heap f) = length (heap b)" "stream_frame b f" "strm f i = strm b i" for c f
    using that assms(6,7,8)
    by (auto simp: stream_done_def streams_remove_def Let_def stream_frame_def given_up_def settled_def checkStreams_def extractSummary_def)
  ultimately show ?thesis using f s by blast
qed

text \<open>The request that asks the server to drop the rest of stream \<open>i\<close>.\<close>

definition discard_request :: "nat \<Rightarrow> bolt \<Rightarrow> request" where
  "discard_request i b =
     (if state b = StreamingTx \<and> qid (strm b i) \<noteq> lastQid b then RqDiscardQid (-1) (qid (strm b i)) else RqDiscard (-1))"

text \<open>The first round of the loop, which ends with the batch that was asked for.\<close>

lemma drain_batch:
  assumes p: "pulling i b" "curr b = Some i" and m: "inbox b = map (Inr \<circ> MRecord) vss @ Inr (MSuccess su) # ms"
  shows "\<exists>c. receiveAll env (upd i (\<lambda>s. s\<lparr>discarding := True\<rparr>) b) = (None, c) \<and> inbox c = ms \<and> wire c = wire b \<and> handlers c = [] \<and>
    q_err c = None \<and> outbuf c = [] \<and> b_err c = None \<and> i < length (heap c) \<and>
    (let s = (strm b i)\<lparr>discarding := True, hadRecord := hadRecord (strm b i) \<or> vss \<noteq> []\<rparr> in
     if hasMore su then stream_frame b c \<and> strm c i = s\<lparr>endOfBatch := True\<rparr>
     else given_up b c \<and> strm c i = s\<lparr>sum := Some (extractSummary su s b), s_key := 0\<rparr> \<and>
       bookmark c = (if su_bookmark su \<noteq> [] then su_bookmark su else bookmark b))"
proof -
  let ?b = "upd i (\<lambda>s. s\<lparr>discarding := True\<rparr>) b"
  have d: "draining i ?b" "inbox ?b = map (Inr \<circ> MRecord) vss @ Inr (MSuccess su) # ms" "stream_frame b ?b" "curr ?b = Some i"
      "strm ?b i = (strm b i)\<lparr>discarding := True\<rparr>" "length (heap ?b) = length (heap b)"
    using p m by (auto simp: draining_def pulling_def finished_def stream_frame_def)
  obtain c where c: "receiveAll env ?b = receiveAll env c" "draining i c" "stream_frame ?b c" "inbox c = Inr (MSuccess su) # ms"
      "strm c i = (strm ?b i)\<lparr>hadRecord := hadRecord (strm ?b i) \<or> vss \<noteq> []\<rparr>"
    using drain_records [OF d(1,2)] by blast
  have k: "stream_frame b c" "curr c = Some i" using d(3,4) c(3) by (auto simp: stream_frame_def)
  then have x: "extractSummary su s c = extractSummary su s b" "given_up c = given_up b" "stream_frame c e \<Longrightarrow> stream_frame b e" for s e
    by (auto simp: extractSummary_def stream_frame_def settled_def given_up_def)
  have f: "handlers c = [HPull i]" "q_err c = None" "b_err c = None" "outbuf c = []" "state c = Streaming \<or> state c = StreamingTx"
    "i < length (heap c)" "fifo (strm c i) = []" using c(2) by (auto simp: draining_def)
  show ?thesis
    using last_response [OF f(1) disjI1 f(2-5) k(2) f(6,7) c(4), of env] k(1) f(6)
    by (auto simp: c(1,5) d(5) x stream_frame_def Let_def)
qed

text \<open>The second round, after the DISCARD.\<close>

lemma drain_rest:
  assumes "calm env" "handlers b = []" "q_err b = None" "b_err b = None" "outbuf b = []" "state b = Streaming \<or> state b = StreamingTx"
    and "curr b = Some i" "i < length (heap b)" "fifo (strm b i) = []" "endOfBatch (strm b i)" "s_err (strm b i) = None" "sum (strm b i) = None"
    and "inbox b = Inr (MSuccess su) # ms" "b' = queue_send env (appendDiscard env i (upd i (\<lambda>s. s\<lparr>fetchSize := -1\<rparr>) b))"
  shows "b_err b' = None \<and> (\<exists>c. discard_loop env i True b' = Some c \<and> inbox c = ms \<and> wire c = wire b @ [discard_request i b] \<and>
    given_up b c \<and> s_err (strm c i) = None \<and> i < length (heap c) \<and> fifo (strm c i) = [] \<and>
    sum (strm c i) = (if hasMore su then None else Some (extractSummary su (strm b i) b)) \<and>
    bookmark c = (if \<not> hasMore su \<and> su_bookmark su \<noteq> [] then su_bookmark su else bookmark b))"
proof -
  let ?b = "(upd i (\<lambda>s. s\<lparr>fetchSize := -1\<rparr>) b)\<lparr>handlers := [HDiscard i], n_writes := n_writes b + 1, wire := wire b @ [discard_request i b]\<rparr>"
  have b': "b' = ?b"
    using assms by (auto simp: appendDiscard_def calm_append calm_send discard_request_def Let_def)
  have s: "strm b' i = (strm b i)\<lparr>fetchSize := -1\<rparr>" using assms(8) by (simp add: b')
  have f: "handlers b' = [HDiscard i]" "q_err b' = None" "b_err b' = None" "outbuf b' = []" "state b' = Streaming \<or> state b' = StreamingTx"
    "curr b' = Some i" "i < length (heap b')" "fifo (strm b' i) = []" "inbox b' = Inr (MSuccess su) # ms"
    unfolding s using assms(1-13) by (simp_all add: b')
  obtain c where c: "receiveAll env b' = (None, c)" "inbox c = ms" "wire c = wire b'" "handlers c = []" "q_err c = None" "outbuf c = []"
    "b_err c = None" "length (heap c) = length (heap b')"
    "if hasMore su then stream_frame b' c \<and> strm c i = (strm b' i)\<lparr>endOfBatch := True\<rparr>
     else given_up b' c \<and> strm c i = (strm b' i)\<lparr>sum := Some (extractSummary su (strm b' i) b'), s_key := 0\<rparr> \<and>
       bookmark c = (if su_bookmark su \<noteq> [] then su_bookmark su else bookmark b')"
    using last_response [OF f(1) disjI2 f(2-9), of env] by auto
  have x: "extractSummary su (strm b' i) b' = extractSummary su (strm b i) b" "given_up b' = given_up b" "wire b' = wire b @ [discard_request i b]"
    "bookmark b' = bookmark b" "num b' = num b" "settled b' = settled b"
    unfolding s by (auto simp: b' extractSummary_def ToSummary_def given_up_def settled_def)
  let ?d = "if hasMore su then checkStreams (streams_remove i c) else c"
  have "discard_loop env i True b' = Some ?d"
    using c(7,9) assms(11,12) by (subst discard_loop.simps) (auto simp: c(1) s Let_def finished_def)
  moreover have "inbox ?d = ms" "wire ?d = wire b @ [discard_request i b]" "i < length (heap ?d)"
    using c(2,3,8) f(7) x(3) by (auto simp: streams_remove_def Let_def)
  moreover have "given_up b ?d" "bookmark ?d = (if \<not> hasMore su \<and> su_bookmark su \<noteq> [] then su_bookmark su else bookmark b)"
    using c f(5,6) x by (auto simp: streams_remove_def Let_def stream_frame_def given_up_def settled_def checkStreams_def split: if_splits)
  moreover have "strm ?d i = (if hasMore su then (strm b' i)\<lparr>endOfBatch := True, s_key := 0\<rparr>
      else (strm b' i)\<lparr>sum := Some (extractSummary su (strm b i) b), s_key := 0\<rparr>)"
    using c(8,9) f(7) x(1) by (auto simp: streams_remove_def Let_def)
  ultimately show ?thesis using f(3) s assms(9,11,12) by auto
qed

lemma Consume_drains:
  assumes "calm env" "pulling i b" "curr b = Some i" "isSafe i b = None"
    and "inbox b = map (Inr \<circ> MRecord) vss @ Inr (MSuccess su) # ms"
    and "hasMore su \<Longrightarrow> ms = Inr (MSuccess su2) # ms2"
  shows "\<exists>b'. given_up b b' \<and> i < length (heap b') \<and> fifo (strm b' i) = [] \<and>
    bolt5_Consume env i b = Some ((sum (strm b' i), s_err (strm b' i)), b') \<and>
    (let had = hadRecord (strm b i) \<or> vss \<noteq> []; answer = (if hasMore su then su2 else su);
         m = (extractSummary answer (strm b i) b)\<lparr>HadRecord := had\<rparr>
     in bolt5_Consume env i b = Some ((if hasMore answer then None else Some m, None), b') \<and>
       bookmark b' = (if \<not> hasMore answer \<and> su_bookmark answer \<noteq> [] then su_bookmark answer else bookmark b)) \<and>
    inbox b' = (if hasMore su then ms2 else ms) \<and>
    wire b' = wire b @ (if hasMore su then [discard_request i b] else [])"
proof -
  let ?s = "(strm b i)\<lparr>discarding := True, hadRecord := hadRecord (strm b i) \<or> vss \<noteq> []\<rparr>"
  have i: "i < length (heap b)" using assms(2) by (simp add: pulling_def)
  have x: "extractSummary a ?s b = (extractSummary a (strm b i) b)\<lparr>HadRecord := hadRecord (strm b i) \<or> vss \<noteq> []\<rparr>" for a
    by (simp add: extractSummary_def ToSummary_def)
  have con: "bolt5_Consume env i b = map_option (\<lambda>b2. ((sum (strm b2 i), s_err (strm b2 i)), b2))
      (discard_loop env i False (upd i (\<lambda>s. s\<lparr>discarding := True\<rparr>) b))"
    using assms(2-4) by (auto simp: bolt5_Consume_def getUnsafe_def pulling_def assertState_def make_current_def discardStream_def)
  obtain c where c: "receiveAll env (upd i (\<lambda>s. s\<lparr>discarding := True\<rparr>) b) = (None, c)" "inbox c = ms" "wire c = wire b" "handlers c = []"
    "q_err c = None" "outbuf c = []" "b_err c = None" "i < length (heap c)"
    "if hasMore su then stream_frame b c \<and> strm c i = ?s\<lparr>endOfBatch := True\<rparr>
     else given_up b c \<and> strm c i = ?s\<lparr>sum := Some (extractSummary su ?s b), s_key := 0\<rparr> \<and>
       bookmark c = (if su_bookmark su \<noteq> [] then su_bookmark su else bookmark b)"
    using drain_batch [OF assms(2,3,5), of env] unfolding Let_def by blast
  have s: "s_err (strm b i) = None" "sum (strm b i) = None" "fifo (strm b i) = []" using assms(2) by (auto simp: pulling_def finished_def)
  show ?thesis
  proof (cases "hasMore su")
    case False
    then have "discard_loop env i False (upd i (\<lambda>s. s\<lparr>discarding := True\<rparr>) b) = Some c"
      using c(7,9) by (subst discard_loop.simps) (simp add: c(1) Let_def finished_def)
    then show ?thesis using False c(2,3,8,9) s x by (simp add: con)
  next
    case True
    then have k: "stream_frame b c" "strm c i = ?s\<lparr>endOfBatch := True\<rparr>" and m: "inbox c = Inr (MSuccess su2) # ms2"
      using c(2,9) assms(6) by auto
    have f: "state c = Streaming \<or> state c = StreamingTx" "curr c = Some i" "fifo (strm c i) = []" "endOfBatch (strm c i)"
      "s_err (strm c i) = None" "sum (strm c i) = None"
      using k assms(2,3) s by (auto simp: stream_frame_def pulling_def)
    let ?d = "queue_send env (appendDiscard env i (upd i (\<lambda>s. s\<lparr>fetchSize := -1\<rparr>) c))"
    note r = drain_rest [OF assms(1) c(4,5,7,6) f(1,2) c(8) f(3-6) m refl]
    have y: "discard_request i c = discard_request i b" "given_up c = given_up b" "bookmark c = bookmark b"
      "extractSummary su2 (strm c i) c = extractSummary su2 ?s b"
      using k by (auto simp: stream_frame_def discard_request_def given_up_def settled_def extractSummary_def ToSummary_def)
    have "discard_loop env i False (upd i (\<lambda>s. s\<lparr>discarding := True\<rparr>) b) = discard_loop env i True ?d"
      using r c(7) f(5,6) by (subst discard_loop.simps) (simp add: c(1) Let_def finished_def)
    then show ?thesis using True r c(3) y x by (auto simp: con Let_def)
  qed
qed

text \<open>
  C25: Consume drops the rest of a result with at most one request. The records of the batch that is on its way are
  thrown away. If the batch was the last one, nothing is sent and the summary of the server is returned. If there is
  more, exactly one DISCARD of everything that is left is sent, for the query of the stream; its answer ends the
  stream: Consume returns the summary in it, or nothing if the server says again that there is more. Every message up to
  that answer has been read and none after it, nothing is pending, and the connection is ready when this was its last
  stream.
\<close>

theorem consume_discards:
  assumes "calm env" "pulling i b" "curr b = Some i" "isSafe i b = None"
    and "inbox b = map (Inr \<circ> MRecord) vss @ Inr (MSuccess su) # ms"
    and "hasMore su \<Longrightarrow> ms = Inr (MSuccess su2) # ms2"
  shows "\<exists>b'. given_up b b' \<and>
    (let had = hadRecord (strm b i) \<or> vss \<noteq> []; answer = (if hasMore su then su2 else su);
         m = (extractSummary answer (strm b i) b)\<lparr>HadRecord := had\<rparr>
     in bolt5_Consume env i b = Some ((if hasMore answer then None else Some m, None), b') \<and>
       bookmark b' = (if \<not> hasMore answer \<and> su_bookmark answer \<noteq> [] then su_bookmark answer else bookmark b)) \<and>
    inbox b' = (if hasMore su then ms2 else ms) \<and>
    wire b' = wire b @ (if hasMore su then [discard_request i b] else [])"
  using Consume_drains [OF assms] unfolding Let_def by blast

text \<open>The current stream is open and either waits for records or is at the end of a batch.\<close>

definition buffering :: "nat \<Rightarrow> bolt \<Rightarrow> bool" where
  "buffering i b \<longleftrightarrow> i < length (heap b) \<and> (state b = Streaming \<or> state b = StreamingTx) \<and> num b \<ge> 1 \<and> b_err b = None \<and> q_err b = None \<and>
     (handlers b = [HPull i] \<or> handlers b = [] \<and> (endOfBatch (strm b i) \<or> finished (strm b i)))"

lemma onFailure_err [simp]: "b_err (onFailure env e b) \<noteq> None" "\<exists>y. b_err (onFailure env e b) = Some y"
  by (auto simp: onFailure_def Let_def split: prod.split)

text \<open>One message for the PULL of the stream: the stream stays open, or it is over, or the connection has an error.\<close>

lemma buffering_receive:
  assumes p: "buffering i b" "handlers b = [HPull i]" and r: "receive env b = (e, b1)"
  shows "if e = None then b_err b1 = None \<and> (buffering i b1 \<or> handlers b1 = [] \<and> finished (strm b1 i))
    else b_err b1 \<noteq> None"
proof (cases "\<exists>m ms. inbox b = Inr m # ms")
  case False
  then show ?thesis
    using r p by (auto simp: buffering_def receive_def receiveMsg_def split: list.splits sum.splits option.splits prod.splits if_splits)
next
  case True
  then obtain m ms where m: "inbox b = Inr m # ms" by blast
  have q: "q_err b = None" using p by (simp add: buffering_def)
  let ?c = "b\<lparr>inbox := ms, idleDate := clock_key env b, b_ticks := b_ticks b + 1, handlers := []\<rparr>"
  have d: "dispatch env (HPull i) m ?c = (e, b1)"
    using receive_one [OF q m p(2)] r by simp
  have i: "i < length (heap ?c)" and st: "b_err ?c = None" "q_err ?c = None" "state ?c = state b" "num ?c \<ge> 1" "handlers ?c = []"
    using p by (simp_all add: buffering_def)
  show ?thesis
  proof (cases m)
    case (MRecord vs)
    with d have "e = None" "b1 = pullRecord i vs ?c" by (simp_all add: dispatch_def)
    with p show ?thesis by (simp add: pullRecord_def buffering_def Let_def)
  next
    case (MSuccess su)
    with d have e: "e = None" and b1: "b1 = stream_done i su (if discarding (strm b i) then upd i emptyRecords ?c else ?c)"
      by (auto simp: dispatch_def)
    have sd: "b_err (stream_done i su c) = None \<and> handlers (stream_done i su c) = [] \<and>
        (if hasMore su then buffering i (stream_done i su c) else finished (strm (stream_done i su c) i))"
      if "i < length (heap c)" "b_err c = None" "q_err c = None" "handlers c = []" "num c \<ge> 1" "state c = Streaming \<or> state c = StreamingTx"
      for c
      using that by (simp add: stream_done_def streams_remove_def finished_def buffering_def Let_def)
    have "b_err b1 = None \<and> handlers b1 = [] \<and> (if hasMore su then buffering i b1 else finished (strm b1 i))"
      unfolding b1 by (rule sd) (use i st p in \<open>auto simp: buffering_def\<close>)
    then show ?thesis using e by (auto split: if_splits)
  next
    case (MFailure e)
    with d show ?thesis by (auto simp: dispatch_def failed_stream_def)
  next
    case MIgnored
    with d i st show ?thesis
      by (auto simp: dispatch_def stream_interrupted_def streams_remove_def finished_def Let_def)
  qed
qed

text \<open>Receiving all responses leaves the stream at the end of a batch, over, or the connection with an error.\<close>

lemma buffering_receiveAll:
  "buffering i b \<Longrightarrow> receiveAll env b = (None, b1) \<Longrightarrow>
     b_err b1 = None \<and> handlers b1 = [] \<and> (finished (strm b1 i) \<or> buffering i b1 \<and> endOfBatch (strm b1 i))"
proof (induction env b rule: receiveAll.induct)
  case (1 env b)
  show ?case
  proof (cases "handlers b = []")
    case True
    with 1 show ?thesis by (auto simp: receiveAll.simps [of env b] buffering_def)
  next
    case False
    with 1 have h: "handlers b = [HPull i]" by (simp add: buffering_def)
    obtain b' where r: "receive env b = (None, b')" "receiveAll env b' = (None, b1)"
      using 1(3) False by (auto simp: receiveAll.simps [of env b] split: prod.splits option.splits)
    have "buffering i b' \<or> handlers b' = [] \<and> finished (strm b' i) \<and> b_err b' = None"
      using buffering_receive [OF 1(2) h r(1)] by simp
    then show ?thesis
      using 1(1) [OF False r(1) [symmetric] refl _ r(2)] r(2) by (auto simp: receiveAll.simps [of env b'])
  qed
qed

lemma buffering_receiveAll_err:
  "buffering i b \<Longrightarrow> receiveAll env b = (Some e, b1) \<Longrightarrow> b_err b1 \<noteq> None"
proof (induction env b rule: receiveAll.induct)
  case (1 env b)
  then have h: "handlers b = [HPull i]" by (auto simp: buffering_def receiveAll.simps [of env b])
  obtain e' b' where r: "receive env b = (e', b')" by (cases "receive env b")
  show ?case
    using buffering_receive [OF 1(2) h r] 1(1,3) r h
    by (cases e') (auto simp: receiveAll.simps [of env b] receiveAll.simps [of env b'])
qed

lemma buffering_pull:
  assumes b: "buffering i b" "handlers b = []" and c: "c = upd i (\<lambda>s. s\<lparr>fetchSize := -1\<rparr>) b"
    and e: "b_err (queue_send env (appendPullN env i c)) = None"
  shows "buffering i (queue_send env (appendPullN env i c)) \<and> handlers (queue_send env (appendPullN env i c)) = [HPull i] \<and>
    inbox (queue_send env (appendPullN env i c)) = inbox b"
proof -
  have "state c = Streaming \<or> state c = StreamingTx" using b c by (simp add: buffering_def)
  then obtain rq where a: "appendPullN env i c = append_msg env rq (HPull i) c"
    using appendPullN_streaming by blast
  obtain n w rs where q: "queue_send env (append_msg env rq (HPull i) c) =
      c\<lparr>handlers := handlers c @ [HPull i], n_writes := n, wire := w, outbuf := rs\<rparr>"
    using send_append_ok [OF e [unfolded a]] by blast
  show ?thesis unfolding a q using b c by (auto simp: buffering_def)
qed

lemma buffer_loop_returns:
  "buffering i b \<Longrightarrow> \<exists>b'. buffer_loop env i b = Some b' \<and> (finished (strm b' i) \<or> b_err b' \<noteq> None)"
proof (induction "2 * length (inbox b) + (if handlers b = [] then 1 else 0)" arbitrary: b rule: less_induct)
  case less
  obtain e b1 where ra: "receiveAll env b = (e, b1)" by (cases "receiveAll env b")
  let ?c = "upd i (\<lambda>s. s\<lparr>fetchSize := -1\<rparr>) b1"
  let ?b2 = "queue_send env (appendPullN env i ?c)"
  consider "b_err b1 \<noteq> None \<or> finished (strm b1 i)" | "e = None" "buffering i b1" "handlers b1 = []"
      "endOfBatch (strm b1 i)" "\<not> finished (strm b1 i)" "b_err b1 = None"
    using buffering_receiveAll [OF less.prems, of env b1] buffering_receiveAll_err [OF less.prems, of env _ b1] ra
    by (cases e) auto
  then show ?case
  proof cases
    case 1
    then show ?thesis using ra by (subst buffer_loop.simps) (auto simp: Let_def)
  next
    case 2
    then have l: "buffer_loop env i b = (if b_err ?b2 \<noteq> None then Some ?b2 else buffer_loop env i ?b2)"
      using ra by (subst buffer_loop.simps) (simp add: Let_def)
    show ?thesis
    proof (cases "b_err ?b2 = None")
      case True
      have "length (inbox b1) < length (inbox b) \<or> handlers b = [] \<and> inbox b1 = inbox b"
        using ra 2(1) receiveAll_shortens [of env b b1] by (cases "handlers b = []") (auto simp: receiveAll.simps [of env b])
      with less.hyps [of ?b2] buffering_pull [OF 2(2,3) refl True] l True show ?thesis by auto
    qed (use l in auto)
  qed
qed

text \<open>
  C24: buffering a stream returns. When the current stream of a connection waits for its records, or is at the end
  of a batch, bufferStream comes back whatever the server sends and whatever writes fail, and then the stream is
  complete (it has its summary or its error) or the connection has an error. In particular this holds after a
  successful Run, so a new transaction can always be begun over an open result.
\<close>

theorem buffer_returns:
  assumes "curr b = Some i" "buffering i b"
  shows "\<exists>b'. bufferStream env b = Some b' \<and> (finished (strm b' i) \<or> b_err b' \<noteq> None)"
  using buffer_loop_returns [OF assms(2)] assms(1) by (auto simp: bufferStream_def)

section \<open>Transactions\<close>

lemma receiveAll_one:
  assumes "q_err b = None" "inbox b = Inr m # ms" "handlers b = [h]"
    and "dispatch env h m (b\<lparr>inbox := ms, idleDate := clock_key env b, b_ticks := b_ticks b + 1, handlers := []\<rparr>) = (e, b1)"
    and "handlers b1 = []"
  shows "receiveAll env b = (e, b1)"
  using receive_one [OF assms(1-3), of env] assms(3-5)
  by (cases e) (simp_all add: receiveAll.simps [of env b] receiveAll.simps [of env b1])

lemma exchange_one:
  assumes "calm env" "b_err b = None" "q_err b = None" "handlers b = []" "outbuf b = []" "inbox b = Inr m # ms"
    and "c = b\<lparr>n_writes := Suc (n_writes b), wire := wire b @ [rq], inbox := ms, idleDate := clock_key env b,
           b_ticks := Suc (b_ticks b)\<rparr>"
    and "dispatch env h m c = (e, b1)" and "handlers b1 = []"
  shows "exchange env (append_msg env rq h b) = (if e = None then b_err b1 else e, b1)"
proof -
  let ?b = "b\<lparr>outbuf := [], handlers := [h], n_writes := Suc (n_writes b), wire := wire b @ [rq]\<rparr>"
  have s: "queue_send env (append_msg env rq h b) = ?b"
    using assms by (simp add: calm_append calm_send)
  have c: "?b\<lparr>inbox := ms, idleDate := clock_key env ?b, b_ticks := b_ticks ?b + 1, handlers := []\<rparr> = c"
    using assms by (cases b) (simp add: clock_key_def)
  have "receiveAll env ?b = (e, b1)"
    using assms receiveAll_one [where env = env and b = ?b and m = m and ms = ms and h = h and e = e and ?b1.0 = b1]
    unfolding c by simp
  then show ?thesis unfolding exchange_def s using assms(2) by (cases e) (simp_all add: Let_def)
qed

text \<open>An open transaction without a pending response.\<close>

definition idle_tx :: "bolt \<Rightarrow> bool" where
  "idle_tx b \<longleftrightarrow> idle_conn b \<and> state b = Tx"

lemma handlers_setError [simp]: "handlers (setError env e f b) = handlers b"
  by (simp add: setError_def handleTerminatedContextError_def streams_detach_def streams_remove_def Let_def split: option.split)

lemma handlers_onFailure [simp]: "handlers (onFailure env e b) = handlers b"
  by (simp add: onFailure_def Let_def split: prod.split option.split)

lemma setError_nonfatal_fields:
  assumes "b_err b = None" "curr b = None"
  shows "setError env e f b =
    (let b1 = b\<lparr>b_err := Some e, state := Failed\<rparr> in
     if \<not> f then b1
     else (case handleTerminatedContextError env e b1 of
             (Some e', b') \<Rightarrow> b'\<lparr>b_err := Some e', state := Dead\<rparr> | (None, b') \<Rightarrow> b'\<lparr>state := Dead\<rparr>))"
  using assms by (simp add: setError_def handleTerminatedContextError_def Let_def split: option.split)

lemma onFailure_commit:
  assumes "b_err b = None" "curr b = None"
  shows "bookmark (onFailure env e b) = bookmark b \<and>
    (state (onFailure env e b) = Failed \<or> state (onFailure env e b) = Dead) \<and> wire (onFailure env e b) = wire b"
  using assms by (auto simp: onFailure_def setError_nonfatal_fields handleTerminatedContextError_def Let_def
      split: prod.split option.split)

text \<open>
  C23: what the answer to COMMIT means. On an open transaction with nothing pending, TxCommit with the right handle
  sends exactly COMMIT; when the server succeeds it returns nil, the bookmark of the server is stored and the
  connection is ready; when the server fails it returns the error, the bookmark is stream_frame, and the connection
  needs a reset or is dead. An IGNORED answer counts as success, without a bookmark.
\<close>

theorem commit_outcomes:
  assumes "calm env" "idle_tx b" "inbox b = Inr m # ms"
  shows "\<exists>r b'. bolt5_TxCommit env (txId b) b = Some (r, b') \<and> wire b' = wire b @ [RqCommit] \<and>
    (case m of
       MSuccess su \<Rightarrow> r = Inr () \<and> state b' = Ready \<and>
         bookmark b' = (if su_bookmark su \<noteq> [] then su_bookmark su else bookmark b)
     | MFailure e \<Rightarrow> r = Inl (Neo4jErr (fst (snd (on_neo4j_error env e)))) \<and> (state b' = Failed \<or> state b' = Dead) \<and>
         b_err b' \<noteq> None \<and> bookmark b' = bookmark b
     | MIgnored \<Rightarrow> r = Inr () \<and> state b' = Ready \<and> bookmark b' = bookmark b
     | MRecord vs \<Rightarrow> (\<exists>e. r = Inl e) \<and> state b' = Tx \<and> bookmark b' = bookmark b)"
proof -
  have b: "b_err b = None" "q_err b = None" "handlers b = []" "outbuf b = []" "curr b = None" "state b = Tx"
    using assms(2) by (simp_all add: idle_tx_def idle_conn_def)
  let ?c = "b\<lparr>n_writes := Suc (n_writes b), wire := wire b @ [RqCommit], inbox := ms, idleDate := clock_key env b,
    b_ticks := Suc (b_ticks b)\<rparr>"
  have t: "bolt5_TxCommit env (txId b) b =
      (case exchange env (append_msg env RqCommit HCommit b) of
         (Some e, b2) \<Rightarrow> Some (Inl e, b2) | (None, b2) \<Rightarrow> Some (Inr (), b2\<lparr>state := Ready\<rparr>))"
    using b by (simp add: bolt5_TxCommit_def end_tx_def assertTxHandle_def discardAllStreams_def assertState_def)
  note x = exchange_one [OF assms(1) b(1-4) assms(3) refl, where h = HCommit and rq = RqCommit]
  show ?thesis
  proof (cases m)
    case (MSuccess su)
    with x [of None "onCommitSuccess su ?c"] b show ?thesis
      unfolding t by (simp add: dispatch_def onCommitSuccess_def)
  next
    case (MFailure e)
    with x [of "Some (Neo4jErr (fst (snd (on_neo4j_error env e))))" "onFailure env e ?c"] b
      onFailure_commit [of ?c env e] show ?thesis
      unfolding t by (simp add: dispatch_def)
  next
    case MIgnored
    with x [of None ?c] b show ?thesis unfolding t by (simp add: dispatch_def)
  next
    case (MRecord vs)
    with x [of "Some (violation ''RECORD'')" ?c] b show ?thesis unfolding t by (simp add: dispatch_def)
  qed
qed

section \<open>Failed and dead connections\<close>




lemma streams_reset_fields [simp]:
  "state (streams_reset env b) = state b" "b_err (streams_reset env b) = b_err b" "handlers (streams_reset env b) = handlers b"
  by (simp_all add: streams_reset_def)



lemma state_detach [simp]: "state (streams_detach sm e b) = state b"
  by (simp add: streams_detach_def streams_remove_def Let_def split: option.split)

lemma setError_failed: "b_err b = None \<Longrightarrow> state (setError env e False b) = Failed"
  by (simp add: setError_def checkStreams_def Let_def)

text \<open>
  C40: a reset can leave the connection failed although it counts as alive. When a FAILURE (not a fatal one) is
  still to be received, Reset consumes it and returns without sending RESET; it clears the error all the same.
  The connection is not dead, so a pool keeps it, but it is in the failed state, and the next transaction or
  query on it is rejected.
\<close>

theorem reset_leaves_failed:
  assumes "state b \<noteq> Ready" "state b \<noteq> Dead" "handlers b = h # hs" "h \<noteq> HReset" "q_err b = None"
    and m: "inbox b = Inr (MFailure e) # ms"
    and f: "eCode (fst (snd (on_neo4j_error env e))) \<noteq> ''Status.Security.AuthorizationExpired''"
  shows "let b' = bolt5_Reset env b in
    IsAlive b' \<and> HasFailed b' \<and> b_err b' = None \<and> wire b' = wire b \<and>
    map_option fst (bolt5_TxBegin env c sync b') = Some (Inl (PlainError ''invalid state'')) \<and>
    map_option fst (bolt5_Run env q ps n c b') = Some (Inl (PlainError ''invalid state''))"
proof -
  let ?c = "b\<lparr>b_err := None, inbox := ms, idleDate := clock_key env b, b_ticks := b_ticks b + 1, handlers := hs\<rparr>"
  let ?d = "on_failure env h e ?c"
  have "receive env (b\<lparr>b_err := None\<rparr>) = (Some (Neo4jErr (fst (snd (on_neo4j_error env e)))), ?d)"
    using receive_one [of "b\<lparr>b_err := None\<rparr>" "MFailure e" ms h hs env] assms
    by (simp add: dispatch_def clock_key_def)
  then have ra: "receiveAll env (b\<lparr>b_err := None\<rparr>) = (Some (Neo4jErr (fst (snd (on_neo4j_error env e)))), ?d)"
    using assms(3) by (simp add: receiveAll.simps [of env "b\<lparr>b_err := None\<rparr>"])
  have nf: "state (onFailure env e x) = Failed" if "b_err x = None" for x
    using that f by (cases "on_neo4j_error env e") (simp add: onFailure_def isFatalError_def setError_failed Let_def)
  have st: "state ?d = Failed"
    using assms(4) by (cases h) (simp_all add: nf failed_stream_def)
  have w: "wire ?d = wire b"
    using io_frame_on_failure [of ?c env h e ?c] by (simp add: io_frame_def)
  have r: "bolt5_Reset env b = streams_reset env (?d\<lparr>txId := 0, bookmark := [], databaseName := [], b_err := None, lastQid := -1\<rparr>)"
    using assms(1,2) by (simp add: bolt5_Reset_def bolt5_ForceReset_def ra)
  show ?thesis
    unfolding r Let_def using st w
    by (simp add: IsAlive_def HasFailed_def bolt5_TxBegin_def bolt5_Run_def assertState_def Let_def streams_reset_def)
qed

section \<open>Time-outs\<close>

lemma sint_word_of_int_small: "- (2 ^ 62) \<le> x \<Longrightarrow> x \<le> 2 ^ 62 \<Longrightarrow> sint (word_of_int x :: int64) = x"
  by (simp add: signed_of_int signed_take_bit_int_eq_self)

lemma ceil_div: "(x + 999999) div 1000000 = (if x mod 1000000 > 0 then x div 1000000 + 1 else x div 1000000)" for x :: int
proof -
  let ?q = "x div 1000000" and ?r = "x mod 1000000"
  have r: "0 \<le> ?r" "?r < 1000000" by simp_all
  have "x + 999999 = (?r + 999999) + ?q * 1000000" by simp
  then have "(x + 999999) div 1000000 = ?q + (?r + 999999) div 1000000"
    by (simp only: div_mult_self1 [of 1000000 "?r + 999999" ?q])
  moreover have "(?r + 999999) div 1000000 = (if ?r > 0 then 1 else 0)"
  proof (cases "?r > 0")
    case True
    have "?r + 999999 = (?r - 1) + 1000000" by simp
    then have "(?r + 999999) div 1000000 = (?r - 1) div 1000000 + 1" by (simp only: div_add_self2)
    with True r show ?thesis by (simp only: div_pos_pos_trivial if_True)
  qed (use r in simp)
  ultimately show ?thesis by simp
qed

lemma timeout_ms_pos:
  assumes "sint t > 0"
  shows "sint (timeout_ms t) = (sint t + 999999) div 1000000"
proof -
  have b: "sint t < 2 ^ 63" using sint_lt [of t] by simp
  let ?q = "sint t div 1000000" and ?r = "sint t mod 1000000"
  have q: "sint t sdiv 1000000 = ?q" "sint t smod 1000000 = ?r"
    using assms by (simp_all add: signed_divide_int_def signed_modulo_int_def)
  have m: "timeout_ms t = word_of_int (if ?r > 0 then ?q + 1 else ?q)"
    by (simp add: timeout_ms_def q Let_def)
  have "(sint t + 999999) div 1000000 = (if ?r > 0 then ?q + 1 else ?q)" by (rule ceil_div)
  moreover have "0 \<le> ?q" "?q + 1 \<le> 2 ^ 62" using assms b by (auto simp: pos_imp_zdiv_nonneg_iff)
  ultimately show ?thesis unfolding m by (subst sint_word_of_int_small) (auto split: if_splits)
qed

lemma timeout_ms_nonpos:
  assumes "sint t \<le> 0"
  shows "sint (timeout_ms t) \<le> 0"
proof -
  have b: "- (2 ^ 63) \<le> sint t" using sint_ge [of t] by simp
  have "sint t sdiv 1000000 = - (- sint t div 1000000)" and sm: "\<not> sint t smod 1000000 > 0"
    using assms by (auto simp: signed_divide_int_def signed_modulo_int_def sgn_if)
  moreover have "0 \<le> - sint t div 1000000" "- sint t div 1000000 \<le> 2 ^ 62"
    using assms b by (auto simp: pos_imp_zdiv_nonneg_iff)
  ultimately have "sint (word_of_int (sint t sdiv 1000000) :: int64) \<le> 0"
    by (subst sint_word_of_int_small) auto
  with sm show ?thesis by (simp add: timeout_ms_def Let_def)
qed

lemma ToMeta_other:
  "map_of (ToMeta n v m) ''tx_timeout'' = map_of m ''tx_timeout''"
  by (simp add: ToMeta_def Let_def)

text \<open>
  the time-out of a transaction is never shortened by the conversion to milliseconds: a positive time-out is
  sent as the next whole millisecond, without overflow for any duration, and no time-out is sent for zero or a
  negative one (the default, which is the least int64, among them).
\<close>

lemma tx_timeout_rounds_up:
  "if sint (tx_timeout c) > 0
   then \<exists>ms. map_of (toMeta c db v) ''tx_timeout'' = Some (VInt ms) \<and>
          sint ms = (sint (tx_timeout c) + 999999) div 1000000 \<and>
          sint ms * 1000000 - 1000000 < sint (tx_timeout c) \<and> sint (tx_timeout c) \<le> sint ms * 1000000
   else map_of (toMeta c db v) ''tx_timeout'' = None"
proof (cases "sint (tx_timeout c) > 0")
  case True
  then have s: "sint (timeout_ms (tx_timeout c)) = (sint (tx_timeout c) + 999999) div 1000000"
    by (rule timeout_ms_pos)
  then have "sint (timeout_ms (tx_timeout c)) > 0" using True by (simp add: pos_imp_zdiv_pos_iff)
  then have "map_of (toMeta c db v) ''tx_timeout'' = Some (VInt (timeout_ms (tx_timeout c)))"
    by (simp add: toMeta_def ToMeta_other Let_def)
  with True s show ?thesis by auto
next
  case False
  then have "\<not> sint (timeout_ms (tx_timeout c)) > 0" using timeout_ms_nonpos [of "tx_timeout c"] by simp
  with False show ?thesis by (simp add: toMeta_def ToMeta_other Let_def)
qed

section \<open>Transaction handles\<close>

lemma TxBegin_handle:
  assumes "bolt5_TxBegin env c s b = Some (Inr h, b')"
  shows "txId b' = h \<and> state b' = Tx \<and> (\<exists>k. h = nanos env k div 1000000000)"
  using assms by (auto simp: bolt5_TxBegin_def Let_def clock_key_def split: bind_splits if_splits option.splits prod.splits)

text \<open>
  the handle of a transaction is the time in seconds, so the check of the handle does not tell transactions
  apart that one connection begins within a second. A handle that was stream_frame from an earlier transaction ends the
  later one.
\<close>

lemma stale_tx_handle_accepted:
  assumes "\<forall>k k'. nanos env k div 1000000000 = nanos env k' div 1000000000"
    and "bolt5_TxBegin env c s b = Some (Inr h, b1)" "bolt5_TxBegin env c' s' b2 = Some (Inr h', b3)"
  shows "assertTxHandle (txId b3) h = None \<and> bolt5_TxCommit env h b3 = bolt5_TxCommit env h' b3"
proof -
  have "h = h'" using TxBegin_handle [OF assms(2)] TxBegin_handle [OF assms(3)] assms(1) by metis
  with TxBegin_handle [OF assms(3)] show ?thesis by (simp add: assertTxHandle_def)
qed

section \<open>Witnesses\<close>

definition env0 :: benv where
  "env0 = \<lparr>on_neo4j_error = \<lambda>e. (None, e, False), nanos = \<lambda>_. 5000000000, write_err = \<lambda>_. None, close_err = None,
     pack_errs = \<lambda>_. [], pin_callback = False, agent_info = []\<rparr>"

definition succ0 :: success where
  "succ0 = \<lparr>su_fields = [''x''], su_tfirst = 0, su_qid = 0, su_bookmark = ''bm'', connectionId = [], su_server = [], su_db = [],
     hasMore = False, su_tlast = 0, su_qtype = 0, routingTable = None, configurationHints = []\<rparr>"

definition nconf0 :: notificationConfig where
  "nconf0 = \<lparr>MinSev = [], cats_none = False, cats = [], clas_none = False, clas = []\<rparr>"

definition txc0 :: txConfig where
  "txc0 = \<lparr>is_read = True, tx_bookmarks = [], tx_timeout = 1, tx_imp_user = [], tx_meta = [], tx_notifications = nconf0\<rparr>"

definition conn0 :: "message list \<Rightarrow> bolt" where
  "conn0 ms = (NewBolt5 ''a'' (map Inr ms) ErrEOF 0)\<lparr>state := Ready, minor := 4\<rparr>"

lemma calm_env0: "calm env0"
  by (simp add: calm_def env0_def)

lemma idle_conn0: "idle_conn (conn0 ms)" "state (conn0 ms) = Ready" "inbox (conn0 ms) = map Inr ms"
  by (simp_all add: conn0_def NewBolt5_def idle_conn_def)

lemma filtering0: "checkNotificationFiltering (tx_notifications txc0) b = None"
  by (simp add: txc0_def nconf0_def checkNotificationFiltering_def)

theorem query_delivers_all_witness:
  "\<exists>i b1 m b2. bolt5_Run env0 ''q'' [] 1 txc0
       (conn0 (MSuccess succ0 # script [([[VInt 1]], succ0\<lparr>hasMore := True\<rparr>)] [[VInt 2]] succ0)) = Some (Inr i, b1) \<and>
     nexts env0 i 3 b1 = ([NRecord ([''x''], [VInt 1]), NRecord ([''x''], [VInt 2]), NSummary m], b2) \<and>
     bookmark b2 = ''bm'' \<and> state b2 = Ready"
proof -
  let ?bs = "[([[VInt 1]], succ0\<lparr>hasMore := True\<rparr>)]" and ?vs = "[[VInt 2]]"
  have n: "length (all_records ?bs ?vs) + 1 = 3" by (simp add: all_records_def)
  have "inbox (conn0 (MSuccess succ0 # script ?bs ?vs succ0)) = Inr (MSuccess succ0) # map Inr (script ?bs ?vs succ0) @ []"
    by (simp add: idle_conn0)
  from query_delivers_all [OF calm_env0 idle_conn0(1,2) filtering0 this, of "''q''" "[]" 1, unfolded n]
  show ?thesis by (simp add: succ0_def all_records_def) blast
qed

theorem consume_discards_witness:
  "\<exists>b'. bolt5_Consume env0 0 ((conn0 [MRecord [VInt 1], MSuccess (succ0\<lparr>hasMore := True\<rparr>), MSuccess succ0, MIgnored])
        \<lparr>state := Streaming, num := 1, heap := [new_stream 1], curr := Some 0, handlers := [HPull 0], okey := 0\<rparr>) =
      Some ((Some \<lparr>Bookmark = ''bm'', QueryType = 0, TLast = 0, Database = [], Agent = [], Major = 5, Minor = 4, ServerName = ''a'',
        TFirst = 0, HadRecord = True, HadKey = False\<rparr>, None), b') \<and>
    inbox b' = [Inr MIgnored] \<and> wire b' = [RqDiscard (-1)] \<and> bookmark b' = ''bm'' \<and> state b' = Ready"
proof -
  let ?b = "(conn0 [MRecord [VInt 1], MSuccess (succ0\<lparr>hasMore := True\<rparr>), MSuccess succ0, MIgnored])
    \<lparr>state := Streaming, num := 1, heap := [new_stream 1], curr := Some 0, handlers := [HPull 0], okey := 0\<rparr>"
  have p: "pulling 0 ?b" "curr ?b = Some 0" "isSafe 0 ?b = None"
    "inbox ?b = map (Inr \<circ> MRecord) [[VInt 1]] @ Inr (MSuccess (succ0\<lparr>hasMore := True\<rparr>)) # [Inr (MSuccess succ0), Inr MIgnored]"
    by (simp_all add: pulling_def conn0_def NewBolt5_def strm_def new_stream_def finished_def isSafe_def)
  have "[Inr (MSuccess succ0), Inr MIgnored] = Inr (MSuccess succ0) # [Inr MIgnored]" by simp
  from consume_discards [OF calm_env0 p this] show ?thesis
    by (auto simp: Let_def succ0_def extractSummary_def ToSummary_def conn0_def NewBolt5_def strm_def new_stream_def discard_request_def
        given_up_def settled_def)
qed

theorem buffer_returns_witness:
  "\<exists>b'. bufferStream env0 ((conn0 [MRecord [VInt 1], MSuccess succ0])\<lparr>state := Streaming, num := 1, heap := [new_stream 1],
      curr := Some 0, handlers := [HPull 0]\<rparr>) = Some b' \<and> (finished (strm b' 0) \<or> b_err b' \<noteq> None)"
  by (rule buffer_returns) (simp_all add: buffering_def conn0_def NewBolt5_def)

theorem commit_outcomes_witness:
  "\<exists>r b'. bolt5_TxCommit env0 0 ((conn0 [MSuccess succ0])\<lparr>state := Tx\<rparr>) = Some (r, b') \<and> r = Inr () \<and> bookmark b' = ''bm''"
proof -
  let ?b = "(conn0 [MSuccess succ0])\<lparr>state := Tx\<rparr>"
  have "idle_tx ?b" "inbox ?b = Inr (MSuccess succ0) # []" "txId ?b = 0"
    using idle_conn0(1) [of "[MSuccess succ0]"] idle_conn0(3) [of "[MSuccess succ0]"]
    by (simp_all add: idle_tx_def idle_conn_def conn0_def NewBolt5_def)
  with commit_outcomes [OF calm_env0, of ?b "MSuccess succ0" "[]"] show ?thesis by (auto simp: succ0_def)
qed


theorem stale_tx_handle_accepted_witness:
  "\<exists>b1 b3. bolt5_TxBegin env0 txc0 False (conn0 []) = Some (Inr 5, b1) \<and>
     bolt5_TxBegin env0 txc0 False (conn0 [MSuccess succ0]) = Some (Inr 5, b3) \<and>
     assertTxHandle (txId b3) 5 = None"
proof -
  have t: "\<exists>b1. bolt5_TxBegin env0 txc0 False (conn0 ms) = Some (Inr 5, b1)" for ms
    using idle_conn0(1,2) [of ms] calm_env0
    by (simp add: bolt5_TxBegin_def assertState_def streams_reset_def filtering0 calm_append Let_def idle_conn_def
        clock_key_def) (simp add: env0_def)
  obtain b1 b3 where b: "bolt5_TxBegin env0 txc0 False (conn0 []) = Some (Inr 5, b1)"
      "bolt5_TxBegin env0 txc0 False (conn0 [MSuccess succ0]) = Some (Inr 5, b3)"
    using t by metis
  have "\<forall>k k'. nanos env0 k div 1000000000 = nanos env0 k' div 1000000000"
    by (simp add: env0_def)
  from stale_tx_handle_accepted [OF this b] b show ?thesis by blast
qed

theorem reset_leaves_failed_witness:
  "let b' = bolt5_Reset env0 ((conn0 [MFailure (Neo4jError (sample_core ''Neo.ClientError.Statement.SyntaxError'') None)])
     \<lparr>state := Streaming, num := 1, heap := [new_stream 1], curr := Some 0, handlers := [HPull 0]\<rparr>)
   in IsAlive b' \<and> HasFailed b' \<and> wire b' = []"
  using reset_leaves_failed [of "(conn0 [MFailure (Neo4jError (sample_core ''Neo.ClientError.Statement.SyntaxError'') None)])
     \<lparr>state := Streaming, num := 1, heap := [new_stream 1], curr := Some 0, handlers := [HPull 0]\<rparr>" "HPull 0" "[]"
     "Neo4jError (sample_core ''Neo.ClientError.Statement.SyntaxError'') None" "[]" env0 txc0 True "[]" "[]" 0]
  by (simp add: conn0_def NewBolt5_def env0_def sample_core_def Let_def)

end
