(* ===== verification/Bolt6Props.thy ===== *)
theory Bolt6Props
  imports Bolt6 Bolt5Props
begin

text \<open>
  What holds of a Bolt 6 connection. As long as every message can be packed it does what a Bolt 5 connection of
  version 5.5 or later does, whatever the calls and the answers of the server: a simulation, proved function by
  function, whose only difference is the version in the summaries. The rest is about the message that cannot be
  packed, where the two files differ.
\<close>

section \<open>The same connection with another version\<close>

definition relabel :: "int \<Rightarrow> summary \<Rightarrow> summary" where
  "relabel M m = m\<lparr>Major := 5, Minor := M\<rparr>"

fun relabel_next :: "int \<Rightarrow> next_result \<Rightarrow> next_result" where
  "relabel_next M (NSummary m) = NSummary (relabel M m)"
| "relabel_next M r = r"

definition s5 :: "int \<Rightarrow> stream \<Rightarrow> stream" where
  "s5 M s = s\<lparr>sum := map_option (relabel M) (sum s)\<rparr>"

definition as5 :: "int \<Rightarrow> bolt \<Rightarrow> bolt" where
  "as5 M b = b\<lparr>minor := M, heap := map (s5 M) (heap b)\<rparr>"

lemma s5_fields [simp]:
  "attached (s5 M s) = attached s" "keys (s5 M s) = keys s" "fifo (s5 M s) = fifo s" "s_err (s5 M s) = s_err s"
  "sum (s5 M s) = map_option (relabel M) (sum s)"
  "qid (s5 M s) = qid s" "fetchSize (s5 M s) = fetchSize s" "s_key (s5 M s) = s_key s"
  "endOfBatch (s5 M s) = endOfBatch s" "discarding (s5 M s) = discarding s" "tfirst (s5 M s) = tfirst s"
  "hadRecord (s5 M s) = hadRecord s" "s5 M (new_stream n) = new_stream n"
  by (simp_all add: s5_def new_stream_def)

lemma s5_updates [simp]:
  "attached_update f1 (s5 M s) = s5 M (attached_update f1 s)" "keys_update f2 (s5 M s) = s5 M (keys_update f2 s)"
  "fifo_update f3 (s5 M s) = s5 M (fifo_update f3 s)" "s_err_update f4 (s5 M s) = s5 M (s_err_update f4 s)"
  "qid_update f5 (s5 M s) = s5 M (qid_update f5 s)" "fetchSize_update f6 (s5 M s) = s5 M (fetchSize_update f6 s)"
  "s_key_update f7 (s5 M s) = s5 M (s_key_update f7 s)" "endOfBatch_update f8 (s5 M s) = s5 M (endOfBatch_update f8 s)"
  "discarding_update f9 (s5 M s) = s5 M (discarding_update f9 s)" "tfirst_update g1 (s5 M s) = s5 M (tfirst_update g1 s)"
  "hadRecord_update g2 (s5 M s) = s5 M (hadRecord_update g2 s)"
  "sum_update (\<lambda>_. None) (s5 M s) = s5 M (sum_update (\<lambda>_. None) s)"
  "sum_update (\<lambda>_. Some (relabel M m)) (s5 M s) = s5 M (sum_update (\<lambda>_. Some m) s)"
  by (simp_all add: s5_def)

lemma finished_s5 [simp]: "finished (s5 M s) = finished s"
  by (simp add: finished_def)

lemma stream_Err_s5 [simp]: "stream_Err (s5 M s) = stream_Err s"
  by (simp add: stream_Err_def)

lemma as5_fields [simp]:
  "state (as5 M b) = state b" "txId (as5 M b) = txId b" "curr (as5 M b) = curr b" "num (as5 M b) = num b"
  "okey (as5 M b) = okey b" "handlers (as5 M b) = handlers b" "q_err (as5 M b) = q_err b" "inbox (as5 M b) = inbox b"
  "in_fail (as5 M b) = in_fail b" "outbuf (as5 M b) = outbuf b" "wire (as5 M b) = wire b"
  "n_writes (as5 M b) = n_writes b" "bookmark (as5 M b) = bookmark b" "databaseName (as5 M b) = databaseName b"
  "b_err (as5 M b) = b_err b" "minor (as5 M b) = M" "lastQid (as5 M b) = lastQid b" "b_auth (as5 M b) = b_auth b"
  "resetAuth (as5 M b) = resetAuth b" "telemetryEnabled (as5 M b) = telemetryEnabled b"
  "serverVersion (as5 M b) = serverVersion b" "b_serverName (as5 M b) = b_serverName b"
  "b_ticks (as5 M b) = b_ticks b" "pinned (as5 M b) = pinned b" "io_reported (as5 M b) = io_reported b"
  "route_cell (as5 M b) = route_cell b" "sock_closed (as5 M b) = sock_closed b"
  "telemetryDone (as5 M b) = telemetryDone b" "length (heap (as5 M b)) = length (heap b)"
  "strm (as5 M b) i = s5 M (strm b i)" "clock_key env (as5 M b) = clock_key env b"
  by (simp_all add: as5_def strm_def clock_key_def)

lemma as5_updates [simp]:
  "state_update f1 (as5 M b) = as5 M (state_update f1 b)" "txId_update f2 (as5 M b) = as5 M (txId_update f2 b)"
  "curr_update f3 (as5 M b) = as5 M (curr_update f3 b)" "num_update f4 (as5 M b) = as5 M (num_update f4 b)"
  "okey_update f5 (as5 M b) = as5 M (okey_update f5 b)" "handlers_update f6 (as5 M b) = as5 M (handlers_update f6 b)"
  "q_err_update f7 (as5 M b) = as5 M (q_err_update f7 b)" "inbox_update f8 (as5 M b) = as5 M (inbox_update f8 b)"
  "outbuf_update f9 (as5 M b) = as5 M (outbuf_update f9 b)" "wire_update g1 (as5 M b) = as5 M (wire_update g1 b)"
  "n_writes_update g2 (as5 M b) = as5 M (n_writes_update g2 b)" "bookmark_update g3 (as5 M b) = as5 M (bookmark_update g3 b)"
  "databaseName_update g4 (as5 M b) = as5 M (databaseName_update g4 b)" "b_err_update g5 (as5 M b) = as5 M (b_err_update g5 b)"
  "lastQid_update g6 (as5 M b) = as5 M (lastQid_update g6 b)" "b_auth_update g7 (as5 M b) = as5 M (b_auth_update g7 b)"
  "resetAuth_update g8 (as5 M b) = as5 M (resetAuth_update g8 b)"
  "telemetryEnabled_update g9 (as5 M b) = as5 M (telemetryEnabled_update g9 b)"
  "b_ssr_update h1 (as5 M b) = as5 M (b_ssr_update h1 b)" "readTimeout_update h2 (as5 M b) = as5 M (readTimeout_update h2 b)"
  "connId_update h3 (as5 M b) = as5 M (connId_update h3 b)" "serverVersion_update h4 (as5 M b) = as5 M (serverVersion_update h4 b)"
  "b_ticks_update h5 (as5 M b) = as5 M (b_ticks_update h5 b)" "pinned_update h6 (as5 M b) = as5 M (pinned_update h6 b)"
  "io_reported_update h7 (as5 M b) = as5 M (io_reported_update h7 b)" "route_cell_update h8 (as5 M b) = as5 M (route_cell_update h8 b)"
  "sock_closed_update h9 (as5 M b) = as5 M (sock_closed_update h9 b)" "idleDate_update k1 (as5 M b) = as5 M (idleDate_update k1 b)"
  "telemetryDone_update k2 (as5 M b) = as5 M (telemetryDone_update k2 b)"
  by (simp_all add: as5_def)

lemma minor_as5: "(as5 M b)\<lparr>minor := M\<rparr> = as5 M (b\<lparr>minor := m\<rparr>)"
  by (simp add: as5_def)

lemma alloc_as5 [simp]:
  "heap_update (\<lambda>_. heap (as5 M b) @ [new_stream n]) (as5 M b) = as5 M (b\<lparr>heap := heap b @ [new_stream n]\<rparr>)"
  by (simp add: as5_def)

lemma upd_as5: "(\<And>s. f (s5 M s) = s5 M (g s)) \<Longrightarrow> upd i f (as5 M b) = as5 M (upd i g b)"
  by (simp add: upd_def as5_def map_update strm_def list_update_beyond)

lemma upd_as5_same [simp]: "(\<And>s. f (s5 M s) = s5 M (f s)) \<Longrightarrow> upd i f (as5 M b) = as5 M (upd i f b)"
  by (rule upd_as5)

section \<open>The functions that the two files share\<close>

lemma as5_streams [simp]:
  "streams_attach i (as5 M b) = as5 M (streams_attach i b)" "streams_remove i (as5 M b) = as5 M (streams_remove i b)"
  "streams_pause (as5 M b) = as5 M (streams_pause b)" "streams_resume i (as5 M b) = as5 M (streams_resume i b)"
  "streams_reset env (as5 M b) = as5 M (streams_reset env b)"
  by (simp_all add: streams_attach_def streams_remove_def streams_pause_def streams_resume_def streams_reset_def Let_def)

lemma as5_detach [simp]: "streams_detach None e (as5 M b) = as5 M (streams_detach None e b)"
  by (simp add: streams_detach_def split: option.split)

lemma as5_handles [simp]: "getUnsafe i (as5 M b) = getUnsafe i b" "isSafe i (as5 M b) = isSafe i b"
  by (simp_all add: getUnsafe_def isSafe_def)

lemma as5_checkStreams [simp]: "checkStreams (as5 M b) = as5 M (checkStreams b)"
  by (simp add: checkStreams_def split: bstate.split)

lemma as5_terminated [simp]:
  "handleTerminatedContextError env e (as5 M b) = apsnd (as5 M) (handleTerminatedContextError env e b)"
  by (simp add: handleTerminatedContextError_def split: option.split)

lemma as5_setError [simp]: "setError env e f (as5 M b) = as5 M (setError env e f b)"
  by (auto simp: setError_def Let_def split: option.split prod.split)

lemma as5_onFailure [simp]: "onFailure env e (as5 M b) = as5 M (onFailure env e b)"
  by (simp add: onFailure_def Let_def split: option.split prod.split)

lemma as5_onIoError [simp]: "onIoError env e (as5 M b) = as5 M (onIoError env e b)"
  by (simp add: onIoError_def)

lemma as5_onNextMessage [simp]: "onNextMessage env (as5 M b) = as5 M (onNextMessage env b)"
  by (simp add: onNextMessage_def)

lemma as5_hello [simp]: "onHelloSuccess su (as5 M b) = as5 M (onHelloSuccess su b)"
  by (simp add: onHelloSuccess_def initializeSsrEnabledHint_def initializeTelemetryEnabledHint_def
      initializeReadTimeoutHint_def split: option.split)

lemma as5_success [simp]:
  "onCommitSuccess su (as5 M b) = as5 M (onCommitSuccess su b)" "pin_database env su (as5 M b) = as5 M (pin_database env su b)"
  "runSuccess env i su (as5 M b) = as5 M (runSuccess env i su b)"
  by (simp_all add: onCommitSuccess_def pin_database_def runSuccess_def Let_def)

lemma as5_interrupted [simp]: "stream_interrupted i e (as5 M b) = as5 M (stream_interrupted i e b)"
  by (simp add: stream_interrupted_def)

lemma as5_pullRecord [simp]: "pullRecord i vs (as5 M b) = as5 M (pullRecord i vs b)"
  by (simp add: pullRecord_def Let_def push_def emptyRecords_def)

lemma as5_on_record [simp]: "on_record h vs (as5 M b) = map_option (as5 M) (on_record h vs b)"
  by (cases h) simp_all

lemma as5_on_failure [simp]: "on_failure env h e (as5 M b) = as5 M (on_failure env h e b)"
  by (cases h) (simp_all add: failed_stream_def)

lemma as5_on_ignored [simp]: "on_ignored h (as5 M b) = map_option (as5 M) (on_ignored h b)"
  by (cases h) simp_all

lemma as5_queue_send [simp]: "queue_send env (as5 M b) = as5 M (queue_send env b)"
  by (simp add: queue_send_def Let_def split: option.split)

lemma as5_receiveMsg [simp]: "receiveMsg env (as5 M b) = apsnd (as5 M) (receiveMsg env b)"
  by (simp add: receiveMsg_def Let_def split: list.split sum.split)

lemma as5_assertState [simp]: "assertState S (as5 M b) = assertState S b"
  by (simp add: assertState_def)



lemma bufferedNext_s5:
  "bufferedNext (s5 M s) = map_prod (map_option (relabel_next M)) (s5 M) (bufferedNext s)"
  by (simp add: bufferedNext_def split: list.split option.split)

section \<open>Simulation\<close>

text \<open>The client side of the contract: every message can be packed, and the other connection is a 5.5 or later.\<close>

locale same_protocol =
  fixes env :: benv and M :: int
  assumes packs: "pack_errs env rq = []" and minor5: "5 \<le> M"
begin

lemma sim_append: "append_msg env rq h (as5 M b) = as5 M (bolt6_append_msg env rq h b)"
  by (simp add: append_msg_def bolt6_append_msg_def out_append_def bolt6_out_append_def enqueueCallback_def packs)

lemma sim_summary: "extractSummary su (s5 M s) (as5 M b) = relabel M (bolt6_extractSummary su s b)"
  by (simp add: extractSummary_def bolt6_extractSummary_def relabel_def ToSummary_def)

lemma sim_stream_done: "stream_done i su (as5 M b) = as5 M (bolt6_stream_done i su b)"
proof -
  have "upd i (\<lambda>s. s\<lparr>sum := Some (relabel M m)\<rparr>) (as5 M c) = as5 M (upd i (\<lambda>s. s\<lparr>sum := Some m\<rparr>) c)" for m c
    by (rule upd_as5) simp
  moreover have "Bookmark (relabel M m) = Bookmark m" for m by (simp add: relabel_def)
  ultimately show ?thesis
    by (simp add: stream_done_def bolt6_stream_done_def bolt6_same sim_summary Let_def)
qed

lemma sim_on_success: "on_success env h su (as5 M b) = as5 M (bolt6_on_success env h su b)"
  by (cases h) (simp_all add: bolt6_same sim_stream_done [symmetric] emptyRecords_def)

lemma sim_dispatch: "dispatch env h m (as5 M b) = apsnd (as5 M) (bolt6_dispatch env h m b)"
  by (simp add: dispatch_def bolt6_dispatch_def bolt6_same sim_on_success split: message.split option.split)

lemma sim_receive: "receive env (as5 M b) = apsnd (as5 M) (bolt6_receive env b)"
  by (auto simp: receive_def bolt6_receive_def bolt6_same sim_dispatch split: prod.split option.split list.split)

lemma sim_receiveAll: "receiveAll env (as5 M b) = apsnd (as5 M) (bolt6_receiveAll env b)"
proof (induction "length (inbox b)" arbitrary: b rule: less_induct)
  case less
  show ?case
    by (subst receiveAll.simps, subst bolt6_receiveAll.simps)
      (auto simp: sim_receive less dest: receive_shortens6 split: prod.split option.split)
qed

lemma sim_checks:
  "checkReAuth a (as5 M b) = bolt6_checkReAuth a b"
  "checkNotificationFiltering n (as5 M b) = bolt6_checkNotificationFiltering n b"
  "ToMeta n (Version (as5 M b)) mt = ToMeta n (bolt6_Version b) mt"
  using minor5
  by (simp_all add: checkReAuth_def bolt6_checkReAuth_def checkNotificationFiltering_def
      bolt6_checkNotificationFiltering_def ToMeta_def Version_def bolt6_Version_def)

lemma sim_toMeta: "toMeta c db (Version (as5 M b)) = bolt6_toMeta c db (bolt6_Version b)"
  by (simp add: bolt6_same toMeta_def sim_checks)

lemma sim_appendPullN: "appendPullN env i (as5 M b) = as5 M (bolt6_appendPullN env i b)"
  by (simp add: appendPullN_def bolt6_appendPullN_def sim_append Let_def split: bstate.split)

lemma sim_appendDiscard: "appendDiscard env i (as5 M b) = as5 M (bolt6_appendDiscard env i b)"
  by (simp add: appendDiscard_def bolt6_appendDiscard_def sim_append Let_def)

lemma sim_pauseStream: "pauseStream env (as5 M b) = as5 M (bolt6_pauseStream env b)"
  by (cases "bolt6_receiveAll env b") (simp add: pauseStream_def bolt6_pauseStream_def sim_receiveAll split: option.split)

lemma sim_resumeStream: "resumeStream env i (as5 M b) = as5 M (bolt6_resumeStream env i b)"
  by (simp add: resumeStream_def bolt6_resumeStream_def bolt6_same sim_appendPullN)

lemma sim_exchange: "exchange env (as5 M b) = apsnd (as5 M) (bolt6_exchange env b)"
  by (simp add: exchange_def bolt6_exchange_def bolt6_same sim_receiveAll Let_def split: option.split prod.split)

lemma sim_run_wait: "run_wait env i (as5 M b) = apsnd (as5 M) (bolt6_run_wait env i b)"
proof (induction "length (inbox b)" arbitrary: b rule: less_induct)
  case less
  show ?case
    by (subst run_wait.simps, subst bolt6_run_wait.simps)
      (auto simp: sim_receive less dest: receive_shortens6 split: prod.split option.split)
qed

lemma sim_next_pull: "next_pull env i (as5 M b) = apsnd (as5 M) (bolt6_next_pull env i b)"
  by (simp add: next_pull_def bolt6_next_pull_def bolt6_same sim_appendPullN Let_def)

text \<open>The loops that may run forever agree on whether they end, by fixpoint induction in either direction.\<close>

lemma sim_discard_fwd:
  assumes "bolt6_discard_loop env i d b = Some y"
  shows "discard_loop env i d (as5 M b) = Some (as5 M y)"
proof -
  have "env = env \<longrightarrow> discard_loop env i d (as5 M b) = Some (as5 M y)"
  proof (rule bolt6_discard_loop.raw_induct
      [where P = "\<lambda>e i d b y. e = env \<longrightarrow> discard_loop e i d (as5 M b) = Some (as5 M y)", OF _ assms], goal_cases)
    case (1 loop e i d b y)
    then show ?case
      by (subst discard_loop.simps)
        (auto simp: Let_def sim_receiveAll sim_appendDiscard bolt6_same split: if_splits)
  qed
  then show ?thesis by simp
qed

lemma sim_discard_bwd:
  assumes "discard_loop env i d (as5 M b) = Some z"
  shows "\<exists>y. bolt6_discard_loop env i d b = Some y"
proof -
  have "env = env \<longrightarrow> (\<forall>c. as5 M b = as5 M c \<longrightarrow> (\<exists>y. bolt6_discard_loop env i d c = Some y))"
  proof (rule discard_loop.raw_induct
      [where P = "\<lambda>e i d c z. e = env \<longrightarrow> (\<forall>b. c = as5 M b \<longrightarrow> (\<exists>y. bolt6_discard_loop e i d b = Some y))", OF _ assms], goal_cases)
    case (1 loop e i d c z)
    then show ?case
      by (subst bolt6_discard_loop.simps)
        (auto simp: Let_def sim_receiveAll sim_appendDiscard bolt6_same split: if_splits)
  qed
  then show ?thesis by simp
qed

lemma sim_discard_loop: "discard_loop env i d (as5 M b) = map_option (as5 M) (bolt6_discard_loop env i d b)"
  by (cases "bolt6_discard_loop env i d b"; cases "discard_loop env i d (as5 M b)")
    (use sim_discard_fwd sim_discard_bwd in fastforce)+

lemma sim_buffer_fwd:
  assumes "bolt6_buffer_loop env i b = Some y"
  shows "buffer_loop env i (as5 M b) = Some (as5 M y)"
proof -
  have "env = env \<longrightarrow> buffer_loop env i (as5 M b) = Some (as5 M y)"
  proof (rule bolt6_buffer_loop.raw_induct
      [where P = "\<lambda>e i b y. e = env \<longrightarrow> buffer_loop e i (as5 M b) = Some (as5 M y)", OF _ assms], goal_cases)
    case (1 loop e i b y)
    then show ?case
      by (subst buffer_loop.simps)
        (auto simp: Let_def sim_receiveAll sim_appendPullN bolt6_same split: if_splits)
  qed
  then show ?thesis by simp
qed

lemma sim_buffer_bwd:
  assumes "buffer_loop env i (as5 M b) = Some z"
  shows "\<exists>y. bolt6_buffer_loop env i b = Some y"
proof -
  have "env = env \<longrightarrow> (\<forall>c. as5 M b = as5 M c \<longrightarrow> (\<exists>y. bolt6_buffer_loop env i c = Some y))"
  proof (rule buffer_loop.raw_induct
      [where P = "\<lambda>e i c z. e = env \<longrightarrow> (\<forall>b. c = as5 M b \<longrightarrow> (\<exists>y. bolt6_buffer_loop e i b = Some y))", OF _ assms], goal_cases)
    case (1 loop e i c z)
    then show ?case
      by (subst bolt6_buffer_loop.simps)
        (auto simp: Let_def sim_receiveAll sim_appendPullN bolt6_same split: if_splits)
  qed
  then show ?thesis by simp
qed

lemma sim_buffer_loop: "buffer_loop env i (as5 M b) = map_option (as5 M) (bolt6_buffer_loop env i b)"
  by (cases "bolt6_buffer_loop env i b"; cases "buffer_loop env i (as5 M b)")
    (use sim_buffer_fwd sim_buffer_bwd in fastforce)+

lemma sim_discardStream: "discardStream env (as5 M b) = map_option (as5 M) (bolt6_discardStream env b)"
  by (simp add: discardStream_def bolt6_discardStream_def sim_discard_loop split: option.split)

lemma sim_discardAllStreams: "discardAllStreams env (as5 M b) = map_option (as5 M) (bolt6_discardAllStreams env b)"
  by (simp add: discardAllStreams_def bolt6_discardAllStreams_def sim_discardStream bolt6_same option.map_comp comp_def)

lemma sim_bufferStream: "bufferStream env (as5 M b) = map_option (as5 M) (bolt6_bufferStream env b)"
  by (simp add: bufferStream_def bolt6_bufferStream_def sim_buffer_loop split: option.split)

lemma sim_run_prepare: "run_prepare env (as5 M b) = map_option (as5 M) (bolt6_run_prepare env b)"
  by (simp add: run_prepare_def bolt6_run_prepare_def sim_bufferStream sim_pauseStream split: bstate.split)

lemma sim_run_start:
  assumes "b_err b = None"
  shows "run_start env q ps n mt (as5 M b) = apsnd (as5 M) (bolt6_run_start env q ps n mt b)"
proof -
  let ?c = "b\<lparr>heap := heap b @ [new_stream (normalizeFetchSize n)]\<rparr>"
  let ?b1 = "bolt6_append_msg env (RqRun q ps mt) (HRun (length (heap b))) ?c"
  have "b_err ?b1 = None"
    using assms by (simp add: bolt6_append_msg_def bolt6_out_append_def packs enqueueCallback_def)
  then show ?thesis
    by (cases "bolt6_run_wait env (length (heap b)) (queue_send env (bolt6_append_msg env (RqPull (normalizeFetchSize n))
          (HPull (length (heap b))) ?b1))")
      (simp add: run_start_def bolt6_run_start_def bolt6_same sim_append sim_run_wait Let_def split: option.split bstate.split)
qed

lemma sim_run: "bolt5_run env q ps n mt (as5 M b) = map_option (apsnd (as5 M)) (bolt6_run env q ps n mt b)"
proof (cases "bolt6_run_prepare env b")
  case (Some b1)
  have "b_err b1 = None" if "assertState S b1 = None" for S
    using that by (simp add: assertState_def split: option.splits)
  with Some show ?thesis
    by (auto simp: bolt5_run_def bolt6_run_def bolt6_same sim_run_prepare sim_run_start split: option.split)
qed (simp add: bolt5_run_def bolt6_run_def sim_run_prepare)

lemma sim_Run: "bolt5_Run env q ps n c (as5 M b) = map_option (apsnd (as5 M)) (bolt6_Run env q ps n c b)"
  by (simp add: bolt5_Run_def bolt6_Run_def bolt6_same sim_checks sim_run sim_toMeta [unfolded bolt6_same] split: option.split)

lemma sim_RunTx: "bolt5_RunTx env h q ps n (as5 M b) = map_option (apsnd (as5 M)) (bolt6_RunTx env h q ps n b)"
  by (simp add: bolt5_RunTx_def bolt6_RunTx_def bolt6_same sim_run split: option.split)

lemma sim_TxBegin: "bolt5_TxBegin env c s (as5 M b) = map_option (apsnd (as5 M)) (bolt6_TxBegin env c s b)"
proof -
  have "(if state (as5 M b) = Streaming then bufferStream env (as5 M b) else Some (as5 M b)) =
      map_option (as5 M) (if state b = Streaming then bolt6_bufferStream env b else Some b)"
    by (simp add: sim_bufferStream)
  then show ?thesis
    by (cases "if state b = Streaming then bolt6_bufferStream env b else Some b")
      (auto simp: bolt5_TxBegin_def bolt6_TxBegin_def bolt6_same sim_checks sim_toMeta [unfolded bolt6_same] sim_append
        sim_exchange Let_def split: option.split prod.split)
qed

lemma sim_end_tx: "end_tx env rq h t (as5 M b) = map_option (apsnd (as5 M)) (bolt6_end_tx env rq h t b)"
  by (cases "bolt6_discardAllStreams env b")
    (auto simp: end_tx_def bolt6_end_tx_def bolt6_same sim_discardAllStreams sim_append sim_exchange
      split: option.split prod.split)

lemma sim_hello: "bolt5_hello env tk ua rc n (as5 M b) = bolt6_hello env ua rc n b"
  using minor5 by (simp add: bolt5_hello_def bolt6_hello_def sim_checks Let_def)

lemma sim_Connect: "bolt5_Connect env M a ua rc n (as5 M b) = apsnd (as5 M) (bolt6_Connect env m a ua rc n b)"
proof -
  have "minor (as5 M c) > 0" "minor (as5 M c) \<noteq> 0" for c using minor5 by simp_all
  then show ?thesis
    by (simp add: bolt5_Connect_def bolt6_Connect_def bolt6_same minor_as5 [where m = m] sim_checks sim_hello sim_append
        sim_exchange Let_def split: option.split sum.split prod.split)
qed

lemma sim_make_current: "make_current env i (as5 M b) = apsnd (as5 M) (bolt6_make_current env i b)"
  by (simp add: make_current_def bolt6_make_current_def sim_pauseStream sim_resumeStream Let_def)

lemma sim_Consume:
  "bolt5_Consume env i (as5 M b) =
     map_option (map_prod (apfst (map_option (relabel M))) (as5 M)) (bolt6_Consume env i b)"
  by (auto simp: bolt5_Consume_def bolt6_Consume_def bolt6_same sim_make_current sim_discardStream option.map_comp comp_def
      split: option.split prod.split)

lemma sim_Buffer: "bolt5_Buffer env i (as5 M b) = map_option (apsnd (as5 M)) (bolt6_Buffer env i b)"
  by (auto simp: bolt5_Buffer_def bolt6_Buffer_def bolt6_same sim_make_current sim_bufferStream option.map_comp comp_def
      split: option.split prod.split)

lemma sim_next_loop: "next_loop env i (as5 M b) = map_prod (relabel_next M) (as5 M) (bolt6_next_loop env i b)"
proof (induction "length (inbox b)" arbitrary: b rule: less_induct)
  case less
  have u: "upd i (\<lambda>_. s5 M s) (as5 M b) = as5 M (upd i (\<lambda>_. s) b)" for s
    by (rule upd_as5) simp
  show ?case
  proof (cases "fst (bufferedNext (strm b i))")
    case (Some r)
    then show ?thesis
      by (subst next_loop.simps, subst bolt6_next_loop.simps) (simp add: bufferedNext_s5 u split_def)
  next
    case None
    obtain e b1 where p: "bolt6_next_pull env i b = (e, b1)" by fastforce
    obtain e' b2 where r: "bolt6_receive env b1 = (e', b2)" by fastforce
    have "length (inbox b2) < length (inbox b)" if "e' = None"
      using receive_shortens6 [of env b1 b2] r inbox_next_pull6 [OF p [symmetric]] that by simp
    with less have "next_loop env i (as5 M b2) = map_prod (relabel_next M) (as5 M) (bolt6_next_loop env i b2)"
      if "e' = None" using that by simp
    with None p r show ?thesis
      by (subst next_loop.simps, subst bolt6_next_loop.simps)
        (auto simp: bufferedNext_s5 split_def sim_next_pull sim_receive split: option.split)
  qed
qed

lemma sim_Next: "bolt5_Next env i (as5 M b) = map_prod (relabel_next M) (as5 M) (bolt6_Next env i b)"
  by (simp add: bolt5_Next_def bolt6_Next_def sim_next_loop split: option.split)

lemma sim_ForceReset: "bolt5_ForceReset env (as5 M b) = as5 M (bolt6_ForceReset env b)"
  by (cases "bolt6_receiveAll env (b\<lparr>b_err := None\<rparr>)")
    (simp add: bolt5_ForceReset_def bolt6_ForceReset_def bolt6_same sim_receiveAll sim_receive sim_append Let_def)

lemma sim_Reset: "bolt5_Reset env (as5 M b) = as5 M (bolt6_Reset env b)"
  by (simp add: bolt5_Reset_def bolt6_Reset_def sim_ForceReset Let_def)

lemma sim_GetRoutingTable:
  "bolt5_GetRoutingTable env rc bms db imp (as5 M b) = apsnd (as5 M) (bolt6_GetRoutingTable env rc bms db imp b)"
  by (simp add: bolt5_GetRoutingTable_def bolt6_GetRoutingTable_def bolt6_same sim_append sim_exchange Let_def
      split: option.split prod.split)

lemma sim_Close: "bolt5_Close env (as5 M b) = as5 M (bolt6_Close env b)"
  by (simp add: bolt5_Close_def bolt6_Close_def bolt6_same out_append_def bolt6_out_append_def packs Let_def)

lemma sim_ReAuth: "bolt5_ReAuth env a (as5 M b) = apsnd (as5 M) (bolt6_ReAuth env a b)"
  using minor5
  by (simp add: bolt5_ReAuth_def reAuth_def bolt6_ReAuth_def relogon_def bolt6_relogon_def bolt6_same sim_append
      sim_receiveAll Let_def split: sum.split option.split prod.split)

lemma sim_Telemetry: "bolt5_Telemetry env api (as5 M b) = as5 M (bolt6_Telemetry env api b)"
  using minor5 by (simp add: bolt5_Telemetry_def bolt6_Telemetry_def Version_def sim_append)

end

section \<open>Histories of calls\<close>

text \<open>The calls that a client can make on a connection, and what they return.\<close>

datatype bolt_op =
    OConnect int reauth_token string "(string \<times> string) list option" notificationConfig
  | OBegin txConfig bool | OCommit int | ORollback int
  | ORun string gomap int txConfig | ORunTx int string gomap int
  | OKeys nat | ONext nat | OConsume nat | OBuffer nat | OReset | OForceReset
  | ORoute "(string \<times> string) list" "string list" string string
  | OReAuth reauth_token | OTelemetry int | OSelectDatabase string | OResetAuth | OClose

datatype bolt_res =
    RDone | RErr "goerr option" | RTx "goerr + int" | REnd "goerr + unit" | RStream "goerr + nat"
  | RKeys "goerr + string list" | RNext next_result | RSummary "summary option" "goerr option"
  | RTable "goerr + routing_table option"

fun relabel_res :: "int \<Rightarrow> bolt_res \<Rightarrow> bolt_res" where
  "relabel_res M (RNext r) = RNext (relabel_next M r)"
| "relabel_res M (RSummary m e) = RSummary (map_option (relabel M) m) e"
| "relabel_res M r = r"

text \<open>A call that never returns is \<^const>\<open>None\<close>.\<close>

fun op5 :: "benv \<Rightarrow> bolt_op \<Rightarrow> bolt \<Rightarrow> (bolt_res \<times> bolt) option" where
  "op5 env (OConnect m a ua rc n) b = Some (apfst RErr (bolt5_Connect env m a ua rc n b))"
| "op5 env (OBegin c s) b = map_option (apfst RTx) (bolt5_TxBegin env c s b)"
| "op5 env (OCommit h) b = map_option (apfst REnd) (bolt5_TxCommit env h b)"
| "op5 env (ORollback h) b = map_option (apfst REnd) (bolt5_TxRollback env h b)"
| "op5 env (ORun q ps n c) b = map_option (apfst RStream) (bolt5_Run env q ps n c b)"
| "op5 env (ORunTx h q ps n) b = map_option (apfst RStream) (bolt5_RunTx env h q ps n b)"
| "op5 env (OKeys i) b = Some (RKeys (bolt5_Keys i b), b)"
| "op5 env (ONext i) b = Some (apfst RNext (bolt5_Next env i b))"
| "op5 env (OConsume i) b = map_option (apfst (\<lambda>(m, e). RSummary m e)) (bolt5_Consume env i b)"
| "op5 env (OBuffer i) b = map_option (apfst RErr) (bolt5_Buffer env i b)"
| "op5 env OReset b = Some (RDone, bolt5_Reset env b)"
| "op5 env OForceReset b = Some (RDone, bolt5_ForceReset env b)"
| "op5 env (ORoute rc bms db imp) b = Some (apfst RTable (bolt5_GetRoutingTable env rc bms db imp b))"
| "op5 env (OReAuth a) b = Some (apfst RErr (bolt5_ReAuth env a b))"
| "op5 env (OTelemetry api) b = Some (RDone, bolt5_Telemetry env api b)"
| "op5 env (OSelectDatabase db) b = Some (RDone, SelectDatabase db b)"
| "op5 env OResetAuth b = Some (RDone, ResetAuth b)"
| "op5 env OClose b = Some (RDone, bolt5_Close env b)"

fun op6 :: "benv \<Rightarrow> bolt_op \<Rightarrow> bolt \<Rightarrow> (bolt_res \<times> bolt) option" where
  "op6 env (OConnect m a ua rc n) b = Some (apfst RErr (bolt6_Connect env m a ua rc n b))"
| "op6 env (OBegin c s) b = map_option (apfst RTx) (bolt6_TxBegin env c s b)"
| "op6 env (OCommit h) b = map_option (apfst REnd) (bolt6_TxCommit env h b)"
| "op6 env (ORollback h) b = map_option (apfst REnd) (bolt6_TxRollback env h b)"
| "op6 env (ORun q ps n c) b = map_option (apfst RStream) (bolt6_Run env q ps n c b)"
| "op6 env (ORunTx h q ps n) b = map_option (apfst RStream) (bolt6_RunTx env h q ps n b)"
| "op6 env (OKeys i) b = Some (RKeys (bolt6_Keys i b), b)"
| "op6 env (ONext i) b = Some (apfst RNext (bolt6_Next env i b))"
| "op6 env (OConsume i) b = map_option (apfst (\<lambda>(m, e). RSummary m e)) (bolt6_Consume env i b)"
| "op6 env (OBuffer i) b = map_option (apfst RErr) (bolt6_Buffer env i b)"
| "op6 env OReset b = Some (RDone, bolt6_Reset env b)"
| "op6 env OForceReset b = Some (RDone, bolt6_ForceReset env b)"
| "op6 env (ORoute rc bms db imp) b = Some (apfst RTable (bolt6_GetRoutingTable env rc bms db imp b))"
| "op6 env (OReAuth a) b = Some (apfst RErr (bolt6_ReAuth env a b))"
| "op6 env (OTelemetry api) b = Some (RDone, bolt6_Telemetry env api b)"
| "op6 env (OSelectDatabase db) b = Some (RDone, bolt6_SelectDatabase db b)"
| "op6 env OResetAuth b = Some (RDone, bolt6_ResetAuth b)"
| "op6 env OClose b = Some (RDone, bolt6_Close env b)"

fun history :: "(bolt_op \<Rightarrow> bolt \<Rightarrow> (bolt_res \<times> bolt) option) \<Rightarrow> bolt_op list \<Rightarrow> bolt \<Rightarrow> (bolt_res list \<times> bolt) option" where
  "history f [] b = Some ([], b)"
| "history f (c # cs) b = do { (r, b1) \<leftarrow> f c b; (rs, b2) \<leftarrow> history f cs b1; Some (r # rs, b2) }"

text \<open>The same calls on a connection of version 5.M.\<close>

fun at_minor :: "int \<Rightarrow> bolt_op \<Rightarrow> bolt_op" where
  "at_minor M (OConnect m a ua rc n) = OConnect M a ua rc n"
| "at_minor M c = c"

context same_protocol
begin

lemma sim_op: "op5 env (at_minor M c) (as5 M b) = map_option (map_prod (relabel_res M) (as5 M)) (op6 env c b)"
proof (cases c)
  case (OConnect m a ua rc n)
  then show ?thesis
    by (cases "bolt6_Connect env m a ua rc n b") (simp add: sim_Connect [where m = m])
qed (simp_all add: sim_TxBegin bolt5_TxCommit_def bolt6_TxCommit_def bolt5_TxRollback_def bolt6_TxRollback_def
    sim_end_tx sim_Run sim_RunTx bolt5_Keys_def bolt6_Keys_def sim_Next sim_Consume sim_Buffer sim_Reset
    sim_ForceReset sim_GetRoutingTable sim_ReAuth sim_Telemetry sim_Close bolt6_same SelectDatabase_def ResetAuth_def
    option.map_comp comp_def apfst_def apsnd_def map_prod_def split_def split: option.split)

lemma sim_history:
  "history (op5 env) (map (at_minor M) cs) (as5 M b) =
     map_option (map_prod (map (relabel_res M)) (as5 M)) (history (op6 env) cs b)"
  by (induction cs arbitrary: b) (auto simp: sim_op split: Option.bind_split)

end

lemma as5_new: "as5 M (NewBolt6 name inp' f now) = (NewBolt5 name inp' f now)\<lparr>minor := M\<rparr>"
  by (simp add: as5_def NewBolt6_def NewBolt5_def)

lemma Connect_minor:
  "state b = Unauthorized \<Longrightarrow> b_err b = None \<Longrightarrow>
   bolt5_Connect env M a ua rc n (b\<lparr>minor := k\<rparr>) = bolt5_Connect env M a ua rc n b"
  by (simp add: bolt5_Connect_def assertState_def)

text \<open>
  C20: a Bolt 6 connection is a Bolt 5 connection of version 5.5 or later with another version number. Whatever calls
  a client makes after Connect and whatever the server answers, in whatever order, as long as the messages can be
  packed the two connections return the same records, summaries and errors, get stuck on the same calls, send the
  same messages and end in the same state; only the protocol version in the summaries differs.
\<close>

theorem bolt6_behaves_as_bolt5:
  assumes "\<forall>rq. pack_errs env rq = []" "5 \<le> M"
  shows "history (op5 env) (OConnect M a ua rc n # map (at_minor M) ops) (NewBolt5 name inp' f now) =
    map_option (map_prod (map (relabel_res M)) (as5 M))
      (history (op6 env) (OConnect m a ua rc n # ops) (NewBolt6 name inp' f now))"
proof -
  have p: "same_protocol env M" using assms by unfold_locales auto
  have "bolt5_Connect env M a ua rc n (as5 M (NewBolt6 name inp' f now)) =
      bolt5_Connect env M a ua rc n (NewBolt5 name inp' f now)"
    unfolding as5_new by (rule Connect_minor) (simp_all add: NewBolt5_def)
  with same_protocol.sim_history [OF p, of "OConnect m a ua rc n # ops" "NewBolt6 name inp' f now"]
  show ?thesis by (simp del: history.simps(1))
qed

section \<open>Messages that cannot be packed\<close>

lemma recoverable_fill [simp]: "recoverable (fillServerName e s) = recoverable e"
  by (cases e) (simp_all add: recoverable_def)

text \<open>Errors that do not break the connection: the first is recorded, the connection has failed.\<close>

lemma onPackErrs:
  assumes "\<forall>e \<in> set es. recoverable e" "curr b = None"
  shows "b_err b \<noteq> None \<Longrightarrow> foldl (\<lambda>b' e. bolt6_onPackErr env e b') b es = b"
    and "b_err b = None \<Longrightarrow> es \<noteq> [] \<Longrightarrow> foldl (\<lambda>b' e. bolt6_onPackErr env e b') b es =
      b\<lparr>b_err := Some (fillServerName (hd es) (b_serverName b)), state := Failed\<rparr>"
proof -
  have old: "b_err c \<noteq> None \<Longrightarrow> curr c = None \<Longrightarrow> foldl (\<lambda>b' e. bolt6_onPackErr env e b') c es = c"
    if "\<forall>e \<in> set es. recoverable e" for c es
    using that by (induction es) (auto simp: bolt6_onPackErr_def bolt6_same setError_def Let_def)
  from old [OF assms(1) _ assms(2)] show "b_err b \<noteq> None \<Longrightarrow> foldl (\<lambda>b' e. bolt6_onPackErr env e b') b es = b" .
  assume "b_err b = None" "es \<noteq> []"
  moreover from this obtain e es' where "es = e # es'" by (cases es) auto
  ultimately show "foldl (\<lambda>b' e. bolt6_onPackErr env e b') b es =
      b\<lparr>b_err := Some (fillServerName (hd es) (b_serverName b)), state := Failed\<rparr>"
    using assms old [of es' "b\<lparr>b_err := Some (fillServerName e (b_serverName b)), state := Failed\<rparr>"]
    by (simp add: bolt6_onPackErr_def bolt6_same setError_def Let_def)
qed

text \<open>The protocol of the connection lacks a feature that the message needs.\<close>

definition rejected :: "benv \<Rightarrow> request \<Rightarrow> bool" where
  "rejected env rq \<longleftrightarrow> pack_errs env rq \<noteq> [] \<and> (\<forall>e \<in> set (pack_errs env rq). recoverable e)"

definition reject_err :: "benv \<Rightarrow> request \<Rightarrow> bolt \<Rightarrow> goerr" where
  "reject_err env rq b = fillServerName (hd (pack_errs env rq)) (b_serverName b)"

lemma append_rejected:
  "rejected env rq \<Longrightarrow> b_err b = None \<Longrightarrow> curr b = None \<Longrightarrow>
   bolt6_append_msg env rq h b = b\<lparr>outbuf := outbuf b @ [rq], handlers := handlers b @ [h],
     b_err := Some (reject_err env rq b), state := Failed\<rparr>"
  by (simp add: rejected_def reject_err_def bolt6_append_msg_def bolt6_out_append_def enqueueCallback_def onPackErrs(2))

lemma run_rejected:
  assumes "rejected env (RqRun q ps mt)" "state b = Ready \<or> state b = Tx" "b_err b = None" "curr b = None"
  shows "bolt6_run env q ps n mt b = Some (Inl (reject_err env (RqRun q ps mt) b),
    b\<lparr>heap := heap b @ [new_stream (normalizeFetchSize n)], outbuf := [],
      handlers := tl (handlers b @ [HRun (length (heap b))]),
      b_err := Some (reject_err env (RqRun q ps mt) b), state := Failed\<rparr>)"
proof -
  have "bolt6_run_prepare env b = Some b" "bolt6_assertState [Tx, Ready, StreamingTx] b = None"
    using assms by (auto simp: bolt6_run_prepare_def bolt6_assertState_def)
  moreover have "reject_err env rq (b\<lparr>heap := hp\<rparr>) = reject_err env rq b" for rq hp by (simp add: reject_err_def)
  ultimately show ?thesis
    using assms by (auto simp: bolt6_run_def bolt6_run_start_def append_rejected bolt6_same queue_pop_def chunker_reset_def
        Let_def)
qed

text \<open>
  C21: a query that the protocol version cannot express is rejected on the client side and costs nothing but a reset.
  On an idle connection Run returns the error, nothing is sent, no message and no handler is left behind, and the
  connection is alive but failed; the RESET that the pool sends when the connection is returned makes it idle
  again.
\<close>

theorem rejected_query_recovers:
  assumes idle: "idle_conn b" "state b = Ready"
    and rj: "bolt6_checkNotificationFiltering (tx_notifications c) b = None"
      "rejected env (RqRun q ps (Some (bolt6_toMeta c (databaseName b) (bolt6_Version b))))"
    and reset: "pack_errs env RqReset = []" "write_err env (n_writes b) = None" "inbox b = Inr (MSuccess su) # ms"
  shows "\<exists>e b'. bolt6_Run env q ps n c b = Some (Inl e, b') \<and> recoverable e \<and> bolt6_IsAlive b' \<and> bolt6_HasFailed b' \<and>
    handlers b' = [] \<and> outbuf b' = [] \<and> wire b' = wire b \<and>
    (let r = bolt6_Reset env b' in idle_conn r \<and> state r = Ready \<and> wire r = wire b @ [RqReset] \<and> inbox r = ms)"
proof -
  let ?rq = "RqRun q ps (Some (bolt6_toMeta c (databaseName b) (bolt6_Version b)))"
  let ?b = "b\<lparr>heap := heap b @ [new_stream (normalizeFetchSize n)], outbuf := [], handlers := [],
      b_err := Some (reject_err env ?rq b), state := Failed\<rparr>"
  have i: "handlers b = []" "outbuf b = []" "b_err b = None" "q_err b = None" "curr b = None" "num b = 0"
    using idle by (simp_all add: idle_conn_def)
  have run: "bolt6_Run env q ps n c b = Some (Inl (reject_err env ?rq b), ?b)"
    using rj idle(2) i run_rejected [OF rj(2), of b n] by (simp add: bolt6_Run_def bolt6_assertState_def)
  have "recoverable (reject_err env ?rq b)" using rj(2) by (simp add: rejected_def reject_err_def)
  moreover have "let r = bolt6_Reset env ?b in idle_conn r \<and> state r = Ready \<and> wire r = wire b @ [RqReset] \<and> inbox r = ms"
    using reset i
    by (simp add: bolt6_Reset_def bolt6_ForceReset_def bolt6_receiveAll.simps bolt6_append_msg_def bolt6_out_append_def
        enqueueCallback_def bolt6_same queue_send_def bolt6_receive_def receiveMsg_def onNextMessage_def bolt6_dispatch_def
        streams_reset_def idle_conn_def Let_def)
  ultimately show ?thesis
    unfolding run using i by (simp add: bolt6_IsAlive_def bolt6_HasFailed_def)
qed

text \<open>
  C38: on a connection with messages that are not sent yet (TELEMETRY before a query, BEGIN before the first query of
  a transaction) the rejection of a query loses track of the responses. All messages are dropped, but only one
  handler, the first one: that of the query stays, although the server was sent nothing. The reset then waits for
  a response that does not come, sends no RESET, and when the read fails the connection is dead.
\<close>

theorem rejected_query_orphans_handler:
  assumes "state b = Ready \<or> state b = Tx" "b_err b = None" "q_err b = None" "curr b = None"
    and "handlers b = h # hs" "inbox b = []" "rejected env (RqRun q ps mt)"
  shows "\<exists>e b'. bolt6_run env q ps n mt b = Some (Inl e, b') \<and> wire b' = wire b \<and> outbuf b' = [] \<and>
    handlers b' = hs @ [HRun (length (heap b))] \<and> bolt6_IsAlive b' \<and>
    (let r = bolt6_Reset env b' in \<not> bolt6_IsAlive r \<and> wire r = wire b)"
proof -
  let ?b = "b\<lparr>heap := heap b @ [new_stream (normalizeFetchSize n)], outbuf := [], handlers := hs @ [HRun (length (heap b))],
      b_err := Some (reject_err env (RqRun q ps mt) b), state := Failed\<rparr>"
  let ?c = "onIoError env (in_fail b) (?b\<lparr>b_err := None, q_err := Some (in_fail b)\<rparr>)"
  have run: "bolt6_run env q ps n mt b = Some (Inl (reject_err env (RqRun q ps mt) b), ?b)"
    using run_rejected [OF assms(7,1,2,4), of n] assms(5) by simp
  have "bolt6_receive env (?b\<lparr>b_err := None\<rparr>) = (Some (in_fail b), ?c)"
    using assms(3,6) by (simp add: bolt6_receive_def bolt6_same receiveMsg_def)
  then have all: "bolt6_receiveAll env (?b\<lparr>b_err := None\<rparr>) = (Some (in_fail b), ?c)"
    by (subst bolt6_receiveAll.simps) simp
  have "state ?c = Dead"
    using assms(4) by (simp add: onIoError_def setError_def handleTerminatedContextError_def Let_def split: option.split)
  with all show ?thesis
    unfolding run by (simp add: bolt6_IsAlive_def bolt6_Reset_def bolt6_ForceReset_def Let_def streams_reset_def)
qed

text \<open>
  C39: a BEGIN that the protocol version cannot express is sent all the same. The transaction metadata cannot be
  packed, TxBegin returns the error, and yet the half-built message is on the wire and its handler in the queue:
  only a query is taken back.
\<close>

theorem rejected_begin_is_sent:
  assumes "state b = Ready" "b_err b = None"
    and "bolt6_checkNotificationFiltering (tx_notifications c) b = None"
    and rj: "rejected env (RqBegin (bolt6_toMeta c (databaseName b) (bolt6_Version b)))"
    and "write_err env (n_writes b) = None"
  shows "\<exists>e b'. bolt6_TxBegin env c True b = Some (Inl e, b') \<and> recoverable e \<and> bolt6_HasFailed b' \<and>
    wire b' = wire b @ outbuf b @ [RqBegin (bolt6_toMeta c (databaseName b) (bolt6_Version b))] \<and>
    handlers b' = handlers b @ [HBegin]"
proof -
  let ?rq = "RqBegin (bolt6_toMeta c (databaseName b) (bolt6_Version b))"
  let ?b = "streams_reset env b"
  have v: "bolt6_Version ?b = bolt6_Version b" "databaseName ?b = databaseName b" "curr ?b = None" "b_serverName ?b = b_serverName b"
    "bolt6_checkNotificationFiltering (tx_notifications c) ?b = None"
    using assms(3) by (auto simp: streams_reset_def bolt6_Version_def bolt6_checkNotificationFiltering_def)
  have "recoverable (reject_err env ?rq ?b)" using rj by (simp add: rejected_def reject_err_def)
  then show ?thesis
    using assms v append_rejected [OF rj, of ?b HBegin]
    by (simp add: bolt6_TxBegin_def bolt6_assertState_def bolt6_exchange_def bolt6_same queue_send_def bolt6_HasFailed_def
        HasFailed_def assertState_def streams_reset_def Let_def)
qed

section \<open>Witnesses\<close>

text \<open>An environment in which messages with parameters or metadata need a UUID, and connections of version 6.0.\<close>

definition uuid_err :: goerr where
  "uuid_err = FeatureNotSupportedError [] ''UUID type'' ''requires at least Bolt 6.1''"

definition env1 :: benv where
  "env1 = env0\<lparr>pack_errs := \<lambda>rq. case rq of
      RqRun _ ps _ \<Rightarrow> if ps = [] then [] else [uuid_err]
    | RqBegin m \<Rightarrow> if map_of m ''tx_metadata'' = None then [] else [uuid_err]
    | _ \<Rightarrow> []\<rparr>"

definition token0 :: reauth_token where
  "token0 = \<lparr>FromSession = False, ForceReAuth = False, GetAuthToken = Inr []\<rparr>"

definition new6 :: "message list \<Rightarrow> bolt" where
  "new6 ms = NewBolt6 ''a'' (map Inr ms) ErrEOF 0"

definition conn6 :: "message list \<Rightarrow> bolt" where
  "conn6 ms = (new6 ms)\<lparr>state := Ready\<rparr>"

interpretation conn60: same_protocol env0 8
  by unfold_locales (simp_all add: env0_def)

lemma rejected_env1:
  "rejected env1 (RqRun q ps mt) = (ps \<noteq> [])" "rejected env1 (RqBegin m) = (map_of m ''tx_metadata'' \<noteq> None)"
  by (simp_all add: rejected_def env1_def uuid_err_def recoverable_def)

lemma idle_conn6: "idle_conn (conn6 ms)" "state (conn6 ms) = Ready" "inbox (conn6 ms) = map Inr ms" "wire (conn6 ms) = []"
  by (simp_all add: conn6_def new6_def NewBolt6_def idle_conn_def)

lemma filtering6: "bolt6_checkNotificationFiltering n b = None"
  by (simp add: bolt6_checkNotificationFiltering_def bolt6_Version_def)

lemma history6_result:
  "map_option fst (history (op6 env0) [OConnect 1 token0 ''ua'' None nconf0, ORun ''q'' [] 1 txc0, ONext 0, ONext 0]
     (new6 [MSuccess succ0, MSuccess succ0, MSuccess succ0, MRecord [VInt 1], MSuccess succ0])) =
   Some [RErr None, RStream (Inr 0), RNext (NRecord ([''x''], [VInt 1])),
     RNext (NSummary \<lparr>Bookmark = ''bm'', QueryType = 0, TLast = 0, Database = [], Agent = [], Major = 6, Minor = 1,
       ServerName = ''a'', TFirst = 0, HadRecord = True, HadKey = True\<rparr>)]"
  by code_simp

theorem bolt6_behaves_as_bolt5_witness:
  "map_option fst (history (op5 env0) [OConnect 8 token0 ''ua'' None nconf0, ORun ''q'' [] 1 txc0, ONext 0, ONext 0]
     (NewBolt5 ''a'' (map Inr [MSuccess succ0, MSuccess succ0, MSuccess succ0, MRecord [VInt 1], MSuccess succ0]) ErrEOF 0)) =
   Some [RErr None, RStream (Inr 0), RNext (NRecord ([''x''], [VInt 1])),
     RNext (NSummary \<lparr>Bookmark = ''bm'', QueryType = 0, TLast = 0, Database = [], Agent = [], Major = 5, Minor = 8,
       ServerName = ''a'', TFirst = 0, HadRecord = True, HadKey = True\<rparr>)]"
proof -
  let ?ops = "[ORun ''q'' [] 1 txc0, ONext 0, ONext 0]"
  let ?in = "map Inr [MSuccess succ0, MSuccess succ0, MSuccess succ0, MRecord [VInt 1], MSuccess succ0]"
  have e: "\<forall>rq. pack_errs env0 rq = []" by (simp add: env0_def)
  have "history (op5 env0) (OConnect 8 token0 ''ua'' None nconf0 # map (at_minor 8) ?ops) (NewBolt5 ''a'' ?in ErrEOF 0) =
      map_option (map_prod (map (relabel_res 8)) (as5 8))
        (history (op6 env0) (OConnect 1 token0 ''ua'' None nconf0 # ?ops) (NewBolt6 ''a'' ?in ErrEOF 0))"
    by (rule bolt6_behaves_as_bolt5 [OF e]) simp
  moreover obtain b where
    "history (op6 env0) (OConnect 1 token0 ''ua'' None nconf0 # ?ops) (NewBolt6 ''a'' ?in ErrEOF 0) =
      Some ([RErr None, RStream (Inr 0), RNext (NRecord ([''x''], [VInt 1])),
        RNext (NSummary \<lparr>Bookmark = ''bm'', QueryType = 0, TLast = 0, Database = [], Agent = [], Major = 6, Minor = 1,
          ServerName = ''a'', TFirst = 0, HadRecord = True, HadKey = True\<rparr>)], b)"
    using history6_result by (force simp: new6_def simp del: history.simps)
  ultimately show ?thesis by (simp add: relabel_def del: history.simps)
qed

theorem rejected_query_recovers_witness:
  "\<exists>e b'. bolt6_Run env1 ''q'' [(''u'', VInt 1)] 1 txc0 (conn6 [MSuccess succ0]) = Some (Inl e, b') \<and> bolt6_HasFailed b' \<and>
     wire b' = [] \<and> idle_conn (bolt6_Reset env1 b') \<and> wire (bolt6_Reset env1 b') = [RqReset]"
proof -
  have "rejected env1 (RqRun ''q'' [(''u'', VInt 1)] mt)" for mt by (simp add: rejected_env1)
  moreover have "pack_errs env1 RqReset = []" "write_err env1 k = None" for k by (simp_all add: env1_def env0_def)
  moreover have "inbox (conn6 [MSuccess succ0]) = Inr (MSuccess succ0) # []" by (simp add: idle_conn6)
  ultimately show ?thesis
    using rejected_query_recovers [OF idle_conn6(1,2) filtering6, of env1 "''q''" "[(''u'', VInt 1)]" txc0 "[MSuccess succ0]"
      succ0 "[]" 1] by (simp add: idle_conn6 Let_def) blast
qed

theorem rejected_query_orphans_handler_witness:
  "let b = bolt6_Telemetry env1 3 ((conn6 [])\<lparr>telemetryEnabled := True\<rparr>) in
   \<exists>e b'. bolt6_run env1 ''q'' [(''u'', VInt 1)] 1 None b = Some (Inl e, b') \<and> wire b' = [] \<and> handlers b' = [HRun 0] \<and>
     \<not> bolt6_IsAlive (bolt6_Reset env1 b')"
proof -
  let ?b = "bolt6_Telemetry env1 3 ((conn6 [])\<lparr>telemetryEnabled := True\<rparr>)"
  have b: "?b = (conn6 [])\<lparr>telemetryEnabled := True, outbuf := [RqTelemetry 3], handlers := [HTelemetry]\<rparr>"
    by (simp add: bolt6_Telemetry_def bolt6_append_msg_def bolt6_out_append_def enqueueCallback_def env1_def conn6_def
        new6_def NewBolt6_def)
  have "rejected env1 (RqRun ''q'' [(''u'', VInt 1)] None)" by (simp add: rejected_env1)
  from rejected_query_orphans_handler [OF _ _ _ _ _ _ this, of ?b HTelemetry "[]" 1]
  show ?thesis unfolding b by (simp add: conn6_def new6_def NewBolt6_def Let_def) blast
qed

theorem rejected_begin_is_sent_witness:
  "\<exists>e b' m. bolt6_TxBegin env1 (txc0\<lparr>tx_meta := [(''u'', VInt 1)]\<rparr>) True (conn6 []) = Some (Inl e, b') \<and> bolt6_HasFailed b' \<and>
     wire b' = [RqBegin m] \<and> handlers b' = [HBegin]"
proof -
  let ?c = "txc0\<lparr>tx_meta := [(''u'', VInt 1)]\<rparr>"
  have t: "map_of (bolt6_toMeta ?c db v) ''tx_metadata'' \<noteq> None" for db v
    by (simp add: bolt6_same toMeta_def ToMeta_def txc0_def nconf0_def Let_def)
  have "rejected env1 (RqBegin (bolt6_toMeta ?c (databaseName b) (bolt6_Version b)))" for b
    by (simp only: rejected_env1 t simp_thms not_False_eq_True)
  moreover have "write_err env1 k = None" for k by (simp add: env1_def env0_def)
  ultimately show ?thesis
    using rejected_begin_is_sent [of "conn6 []" ?c env1] idle_conn6(1,2) [of "[]"] filtering6
    by (auto simp: idle_conn_def idle_conn6)
qed

end
