(* ===== verification/Handshake.thy ===== *)
theory Handshake
  imports Racing
begin

text \<open>
  The negotiation of the protocol version: src/neo4j/internal/bolt/connect.go. The legacy handshake offers four
  versions; a server that knows the manifest answers with its own offers, of which the client chooses one. The
  base-128 integers are those of the package encoding/binary. What a read or write meets is given by its number.
\<close>

unbundle bit_operations_syntax

section \<open>Versions\<close>

record protocolVersion =
  v_major :: byte
  v_minor :: byte
  v_back :: byte

definition ver :: "byte \<Rightarrow> byte \<Rightarrow> byte \<Rightarrow> protocolVersion" where
  "ver ma mi b = \<lparr>v_major = ma, v_minor = mi, v_back = b\<rparr>"

definition bolt6Ver :: protocolVersion where "bolt6Ver = ver 6 1 1"
definition bolt5Ver :: protocolVersion where "bolt5Ver = ver 5 8 8"
definition bolt4Ver :: protocolVersion where "bolt4Ver = ver 4 4 2"
definition bolt3Ver :: protocolVersion where "bolt3Ver = ver 3 0 0"

definition supportedVersions :: "protocolVersion list" where
  "supportedVersions = [bolt6Ver, bolt5Ver, bolt4Ver, bolt3Ver]"

definition handshakeProposals :: "protocolVersion list" where
  "handshakeProposals = [ver 0xFF 0x01 0x00, bolt5Ver, bolt4Ver, bolt3Ver]"

definition handshake :: bytes where
  "handshake = [0x60, 0x60, 0xb0, 0x17] @ concat (map (\<lambda>p. [0, v_back p, v_minor p, v_major p]) handshakeProposals)"

text \<open>The candidates of selectProtocol: every minor version of every supported major one, the newest first.\<close>

definition minors :: "protocolVersion \<Rightarrow> int list" where
  "minors c = rev [uint (v_minor c) - uint (v_back c) .. uint (v_minor c)]"

definition accepts :: "protocolVersion \<Rightarrow> byte \<Rightarrow> int \<Rightarrow> bool" where
  "accepts offer ma v \<longleftrightarrow> v_major offer = ma \<and>
     word_of_int v \<le> v_minor offer \<and> word_of_int v \<ge> v_minor offer - v_back offer"

definition selectProtocol :: "protocolVersion list \<Rightarrow> protocolVersion option" where
  "selectProtocol offers =
     map_option (\<lambda>(c, v). ver (v_major c) (word_of_int v) 0)
       (find (\<lambda>(c, v). list_ex (\<lambda>o'. accepts o' (v_major c) v) offers)
         (concat (map (\<lambda>c. map (Pair c) (minors c)) supportedVersions)))"

section \<open>Base-128 integers\<close>

lemma unat_drop_bit7: "unat (drop_bit 7 x) = unat x div 2 ^ 7" for x :: "64 word"
  by (metis unat_drop_bit_eq drop_bit_eq_div)

function PutUvarint :: "64 word \<Rightarrow> bytes" where
  "PutUvarint x = (if x < 0x80 then [ucast x] else (ucast x OR 0x80) # PutUvarint (drop_bit 7 x))"
  by pat_completeness auto
termination
proof (relation "measure unat", goal_cases)
  case (2 x)
  then have "unat x \<ge> 128" by (simp add: word_le_nat_alt not_less)
  moreover have "unat (drop_bit 7 x) = unat x div 2 ^ 7" by (rule unat_drop_bit7)
  ultimately show ?case by simp
qed simp

declare PutUvarint.simps [simp del]

definition encodeVarInt :: "64 word \<Rightarrow> bytes" where
  "encodeVarInt v = PutUvarint v"

text \<open>binary.Uvarint: \<^const>\<open>None\<close> stands for a count that is not positive.\<close>

fun Uvarint_loop :: "nat \<Rightarrow> 64 word \<Rightarrow> bytes \<Rightarrow> (64 word) option" where
  "Uvarint_loop i x [] = None"
| "Uvarint_loop i x (b # bs) =
     (if i = 10 then None
      else if b < 0x80 then if i = 9 \<and> b > 1 then None else Some (x OR push_bit (7 * i) (ucast b))
      else Uvarint_loop (i + 1) (x OR push_bit (7 * i) (ucast (b AND 0x7f))) bs)"

definition Uvarint :: "bytes \<Rightarrow> (64 word) option" where
  "Uvarint bs = Uvarint_loop 0 0 bs"

section \<open>Reading and writing during the handshake\<close>

record henv =
  r_ctx :: "nat \<Rightarrow> ctx"
  w_step :: "nat \<Rightarrow> wstep"

record hs =
  h_conn :: conn
  h_reads :: nat
  h_writes :: nat
  h_out :: bytes
  dialErrors :: "goerr list"

text \<open>Read for one byte; the array is zero where nothing was read.\<close>

definition h_Read1 :: "henv \<Rightarrow> hs \<Rightarrow> (goerr option \<times> byte) \<times> hs" where
  "h_Read1 env s =
     (let s1 = s\<lparr>h_reads := h_reads s + 1\<rparr> in
      case race (r_ctx env (h_reads s)) of
        Refused e \<Rightarrow> ((e, 0), s1)
      | Runs \<Rightarrow>
          (case inp (h_conn s) of
             [] \<Rightarrow> ((Some (fail (h_conn s)), 0), s1)
           | b # bs \<Rightarrow> ((None, b), s1\<lparr>h_conn := (h_conn s)\<lparr>inp := bs\<rparr>\<rparr>)))"

definition h_ReadFull :: "henv \<Rightarrow> nat \<Rightarrow> hs \<Rightarrow> (goerr option \<times> bytes) \<times> hs" where
  "h_ReadFull env n s =
     (case racing_ReadFull (r_ctx env (h_reads s)) (replicate n 0) 0 n (h_conn s) of
        (e, buf, c) \<Rightarrow> ((e, buf), s\<lparr>h_reads := h_reads s + 1, h_conn := c\<rparr>))"

definition h_Write :: "henv \<Rightarrow> bytes \<Rightarrow> hs \<Rightarrow> goerr option \<times> hs" where
  "h_Write env bs s =
     (case racing_Write (w_step env (h_writes s)) bs of
        (e, out) \<Rightarrow> (e, s\<lparr>h_writes := h_writes s + 1, h_out := h_out s @ out\<rparr>))"

definition OnDialError_hs :: "goerr \<Rightarrow> hs \<Rightarrow> hs" where
  "OnDialError_hs e s = s\<lparr>dialErrors := dialErrors s @ [e]\<rparr>"

fun readVarInt_loop :: "henv \<Rightarrow> nat \<Rightarrow> bytes \<Rightarrow> hs \<Rightarrow> (goerr + 64 word \<times> bytes) \<times> hs" where
  "readVarInt_loop env 0 buf s = (Inl (PlainError ''varint too long''), s)"
| "readVarInt_loop env (Suc n) buf s =
     (case h_Read1 env s of
        ((Some e, _), s1) \<Rightarrow> (Inl e, s1)
      | ((None, b), s1) \<Rightarrow>
          if b AND 0x80 = 0 then
            (case Uvarint (buf @ [b]) of
               None \<Rightarrow> (Inl (PlainError ''failed to decode varint''), s1)
             | Some v \<Rightarrow> (Inr (v, buf @ [b]), s1))
          else readVarInt_loop env n (buf @ [b]) s1)"

definition readVarInt :: "henv \<Rightarrow> hs \<Rightarrow> (goerr + 64 word \<times> bytes) \<times> hs" where
  "readVarInt env s = readVarInt_loop env 10 [] s"

section \<open>Negotiation\<close>

fun read_offers :: "henv \<Rightarrow> nat \<Rightarrow> protocolVersion list \<Rightarrow> hs \<Rightarrow> (goerr + protocolVersion list) \<times> hs" where
  "read_offers env 0 acc s = (Inr acc, s)"
| "read_offers env (Suc n) acc s =
     (case h_ReadFull env 4 s of
        ((Some e, _), s1) \<Rightarrow> (Inl (WrappedError (PlainError ''failed to read manifest protocol version'') e), OnDialError_hs e s1)
      | ((None, vb), s1) \<Rightarrow> read_offers env n (acc @ [\<lparr>v_major = vb ! 3, v_minor = vb ! 2, v_back = vb ! 1\<rparr>]) s1)"

text \<open>
  The slice is made with the announced count as its capacity: a run-time panic (\<^const>\<open>None\<close>) when the count is
  not an int.
\<close>

definition readProtocolOfferings :: "henv \<Rightarrow> hs \<Rightarrow> ((goerr + protocolVersion list) \<times> hs) option" where
  "readProtocolOfferings env s =
     (case readVarInt env s of
        (Inl e, s1) \<Rightarrow> Some (Inl (WrappedError (PlainError ''failed to read manifest protocol count'') e), OnDialError_hs e s1)
      | (Inr (count, _), s1) \<Rightarrow>
          if unat count \<ge> 2 ^ 63 then None else Some (read_offers env (unat count) [] s1))"

definition readCapabilityMask :: "henv \<Rightarrow> hs \<Rightarrow> (goerr + 64 word \<times> bytes) \<times> hs" where
  "readCapabilityMask env s =
     (case readVarInt env s of
        (Inl e, s1) \<Rightarrow> (Inl (WrappedError (PlainError ''failed to read capability mask'') e), OnDialError_hs e s1)
      | (Inr m, s1) \<Rightarrow> (Inr m, s1))"

definition sendHandshakeConfirmation :: "henv \<Rightarrow> protocolVersion \<Rightarrow> bytes \<Rightarrow> hs \<Rightarrow> goerr option \<times> hs" where
  "sendHandshakeConfirmation env chosen capBytes s =
     (case h_Write env [0, 0, v_minor chosen, v_major chosen] s of
        (Some e, s1) \<Rightarrow> (Some e, OnDialError_hs e s1)
      | (None, s1) \<Rightarrow>
          (case h_Write env capBytes s1 of
             (Some e, s2) \<Rightarrow> (Some e, OnDialError_hs e s2)
           | (None, s2) \<Rightarrow> (None, s2)))"

definition performManifestNegotiation :: "henv \<Rightarrow> hs \<Rightarrow> ((goerr + byte \<times> byte) \<times> hs) option" where
  "performManifestNegotiation env s =
     (case readProtocolOfferings env s of
        None \<Rightarrow> None
      | Some (Inl e, s1) \<Rightarrow> Some (Inl e, s1)
      | Some (Inr offers, s1) \<Rightarrow>
          (case readCapabilityMask env s1 of
             (Inl e, s2) \<Rightarrow> Some (Inl e, s2)
           | (Inr _, s2) \<Rightarrow>
               (case selectProtocol offers of
                  None \<Rightarrow>
                    let e = PlainError ''none of the server offered Bolt versions are supported''
                    in Some (Inl e, snd (h_Write env [0, 0, 0, 0, 0] (OnDialError_hs e s2)))
                | Some chosen \<Rightarrow>
                    (case sendHandshakeConfirmation env chosen [0] s2 of
                       (Some e, s3) \<Rightarrow> Some (Inl e, s3)
                     | (None, s3) \<Rightarrow> Some (Inr (v_major chosen, v_minor chosen), s3)))))"

text \<open>
  The part of Connect before a connection object exists: the negotiated version, for which an implementation is
  known, or an error.
\<close>

definition Connect_version :: "henv \<Rightarrow> hs \<Rightarrow> ((goerr + byte \<times> byte) \<times> hs) option" where
  "Connect_version env s =
     (case h_Write env handshake s of
        (Some e, s1) \<Rightarrow> Some (Inl e, OnDialError_hs e s1)
      | (None, s1) \<Rightarrow>
        (case h_ReadFull env 4 s1 of
           ((Some e, _), s2) \<Rightarrow> Some (Inl e, OnDialError_hs e s2)
         | ((None, buf), s2) \<Rightarrow>
             let ma = buf ! 3; mi = buf ! 2 in
             if ma = 80 \<and> mi = 84 then Some (Inl (UsageError ''server responded HTTP''), s2)
             else
               (case (if ma = 0xFF \<and> mi = 1 then performManifestNegotiation env s2 else Some (Inr (ma, mi), s2)) of
                  None \<Rightarrow> None
                | Some (Inl e, s3) \<Rightarrow> Some (Inl e, s3)
                | Some (Inr (ma', mi'), s3) \<Rightarrow>
                    if ma' \<in> {3, 4, 5, 6} then Some (Inr (ma', mi'), s3)
                    else if ma' = 0 then Some (Inl (PlainError ''server did not accept any of the requested Bolt versions''), s3)
                    else Some (Inl (UsageError ''server responded with unsupported version''), s3))))"

section \<open>Choice of the version\<close>

text \<open>
  What the two sides have in common: a version in a range of the client and in a range of the server. A server
  range that reaches below zero is empty: the byte subtraction of the code wraps around.
\<close>

definition in_range :: "protocolVersion \<Rightarrow> byte \<Rightarrow> int \<Rightarrow> bool" where
  "in_range p ma m \<longleftrightarrow> v_major p = ma \<and> uint (v_back p) \<le> uint (v_minor p) \<and>
     uint (v_minor p) - uint (v_back p) \<le> m \<and> m \<le> uint (v_minor p)"

definition common :: "protocolVersion list \<Rightarrow> byte \<Rightarrow> int \<Rightarrow> bool" where
  "common offers ma m \<longleftrightarrow> list_ex (\<lambda>c. in_range c ma m) supportedVersions \<and> list_ex (\<lambda>o'. in_range o' ma m) offers"

lemma accepts_in_range:
  assumes "0 \<le> v" "v < 256"
  shows "accepts p ma v \<longleftrightarrow> in_range p ma v"
proof -
  have v: "uint (word_of_int v :: byte) = v" using assms by (simp add: uint_word_of_int)
  have b: "uint (v_minor p) < 256" "uint (v_back p) < 256" "0 \<le> uint (v_minor p)" "0 \<le> uint (v_back p)"
    using uint_bounded [of "v_minor p"] uint_bounded [of "v_back p"] by simp_all
  have d: "uint (v_minor p - v_back p) = (if uint (v_back p) \<le> uint (v_minor p) then uint (v_minor p) - uint (v_back p)
      else uint (v_minor p) - uint (v_back p) + 256)"
    using b by (simp add: uint_sub_if' split: if_splits)
  show ?thesis
    unfolding accepts_def in_range_def word_le_def v d using b by auto
qed

definition candidates :: "(protocolVersion \<times> int) list" where
  "candidates = concat (map (\<lambda>c. map (Pair c) (minors c)) supportedVersions)"

definition rank :: "byte \<Rightarrow> int \<Rightarrow> int" where
  "rank ma m = 256 * uint ma + m"

lemma minors_eqs: "minors bolt6Ver = [1, 0]" "minors bolt5Ver = [8, 7, 6, 5, 4, 3, 2, 1, 0]"
  "minors bolt4Ver = [4, 3, 2]" "minors bolt3Ver = [0]"
  by (simp_all add: minors_def bolt6Ver_def bolt5Ver_def bolt4Ver_def bolt3Ver_def ver_def upto.simps)

lemma candidates_sorted: "sorted_wrt (\<lambda>(c, v) (c', v'). rank (v_major c') v' < rank (v_major c) v) candidates"
  by (simp add: candidates_def supportedVersions_def minors_eqs)
    (simp add: rank_def bolt6Ver_def bolt5Ver_def bolt4Ver_def bolt3Ver_def ver_def)

lemma candidates_bounds: "(c, v) \<in> set candidates \<Longrightarrow> 0 \<le> v \<and> v < 256"
  by (auto simp: candidates_def supportedVersions_def minors_eqs)

lemma set_candidates: "(c, v) \<in> set candidates \<longleftrightarrow> c \<in> set supportedVersions \<and> v \<in> set (minors c)"
  by (auto simp: candidates_def)

lemma candidates_iff: "(\<exists>c. (c, m) \<in> set candidates \<and> v_major c = ma) \<longleftrightarrow> list_ex (\<lambda>c. in_range c ma m) supportedVersions"
proof -
  have "v \<in> set (minors c) \<longleftrightarrow> uint (v_minor c) - uint (v_back c) \<le> v \<and> v \<le> uint (v_minor c)" for c v
    by (simp add: minors_def)
  moreover have "uint (v_back c) \<le> uint (v_minor c)" if "c \<in> set supportedVersions" for c
    using that by (auto simp: supportedVersions_def bolt6Ver_def bolt5Ver_def bolt4Ver_def bolt3Ver_def ver_def)
  ultimately show ?thesis
    by (auto simp: set_candidates in_range_def list_ex_iff)
qed

lemma selectProtocol_find:
  "selectProtocol offers = map_option (\<lambda>(c, v). ver (v_major c) (word_of_int v) 0)
     (find (\<lambda>(c, v). list_ex (\<lambda>o'. in_range o' (v_major c) v) offers) candidates)"
proof -
  have "find (\<lambda>(c, v). list_ex (\<lambda>o'. accepts o' (v_major c) v) offers) candidates =
      find (\<lambda>(c, v). list_ex (\<lambda>o'. in_range o' (v_major c) v) offers) candidates"
    by (rule find_cong [OF refl]) (auto simp: list_ex_iff accepts_in_range dest!: candidates_bounds)
  then show ?thesis by (simp add: selectProtocol_def candidates_def)
qed

text \<open>
  C28: the newest version that both sides support is chosen. selectProtocol returns a version exactly when the
  client and an offer of the server have one in common, and no version they have in common is newer than the
  one it returns. An offer whose range would reach below minor version zero is ignored.
\<close>

theorem select_newest_common:
  "case selectProtocol offers of
     None \<Rightarrow> \<not> (\<exists>ma m. common offers ma m)
   | Some p \<Rightarrow> common offers (v_major p) (uint (v_minor p)) \<and>
       \<not> (\<exists>ma m. common offers ma m \<and> rank (v_major p) (uint (v_minor p)) < rank ma m)"
proof (cases "find (\<lambda>(c, v). list_ex (\<lambda>o'. in_range o' (v_major c) v) offers) candidates")
  case None
  then have "\<not> (\<exists>ma m. common offers ma m)"
    by (fastforce simp: common_def candidates_iff [symmetric] find_None_iff)
  with None show ?thesis by (simp add: selectProtocol_find)
next
  case (Some x)
  obtain c v where x: "x = (c, v)" by (cases x)
  from Some obtain i where i: "i < length candidates" "list_ex (\<lambda>o'. in_range o' (v_major c) v) offers"
      "candidates ! i = (c, v)" "\<forall>j<i. \<not> (case candidates ! j of (c, v) \<Rightarrow> list_ex (\<lambda>o'. in_range o' (v_major c) v) offers)"
    by (auto simp: x find_Some_iff)
  have cv: "(c, v) \<in> set candidates" using i by (metis nth_mem)
  from candidates_bounds [OF this] have v: "uint (word_of_int v :: byte) = v" by (simp add: uint_word_of_int)
  have com: "common offers (v_major c) v"
    using i(2) cv by (auto simp: common_def candidates_iff [symmetric])
  have "rank ma m \<le> rank (v_major c) v" if "common offers ma m" for ma m
  proof -
    from that obtain c' where "(c', m) \<in> set candidates" and ma: "v_major c' = ma" and o': "list_ex (\<lambda>o'. in_range o' ma m) offers"
      by (auto simp: common_def candidates_iff [symmetric])
    then obtain j where j: "j < length candidates" "candidates ! j = (c', m)" by (auto simp: in_set_conv_nth)
    with i(4) ma o' have "\<not> j < i" by auto
    then show ?thesis
      using sorted_wrt_nth_less [OF candidates_sorted, of i j] i(3) j ma by (cases "j = i") auto
  qed
  then have "\<not> (\<exists>ma m. common offers ma m \<and> rank (v_major c) v < rank ma m)" by force
  with com v Some show ?thesis by (simp add: selectProtocol_find x ver_def)
qed

section \<open>Base-128 integers are read back\<close>

lemma byte_msb: "b AND 0x80 = 0 \<longleftrightarrow> b < 0x80" for b :: byte
proof -
  have "b AND 0x80 = 0 \<longleftrightarrow> \<not> bit b 7"
    using and_exp_eq_0_iff_not_bit [of b 7] by simp
  also have "\<dots> \<longleftrightarrow> \<not> bit (unat b) 7"
    by (simp add: bit_unsigned_iff)
  also have "\<dots> \<longleftrightarrow> even (unat b div 128)" by (simp add: bit_iff_odd)
  also have "\<dots> \<longleftrightarrow> unat b < 128"
  proof -
    have "unat b div 128 < 2" using unat_byte_less [of b] by (simp add: less_mult_imp_div_less)
    then have "even (unat b div 128) \<longleftrightarrow> unat b div 128 = 0" by (auto simp: less_2_cases_iff)
    then show ?thesis by (simp add: div_eq_0_iff)
  qed
  finally show ?thesis by (simp add: word_less_nat_alt)
qed

lemma msb_set: "\<not> (b OR 0x80) < 0x80" for b :: byte
proof -
  have "bit ((b OR 0x80) AND 0x80) 7" by (simp add: bit_simps)
  then have "(b OR 0x80) AND 0x80 \<noteq> 0" by (metis bit_0_eq bot_apply bot_bool_def)
  then show ?thesis by (simp only: byte_msb) simp
qed

lemma low_bits: "ucast ((ucast w OR 0x80 :: byte) AND 0x7f) = w AND 0x7f" for w :: "64 word"
proof (rule bit_word_eqI)
  fix n assume "n < LENGTH(64)"
  have m: "(0x7f :: byte) = mask 7" "(0x7f :: 64 word) = mask 7" by (simp_all add: mask_eq_exp_minus_1)
  have "(0x80 :: byte) = 2 ^ 7" by simp
  then have "bit (0x80 :: byte) n \<longleftrightarrow> n = 7" by (simp only: bit_exp_iff) auto
  then show "bit (ucast ((ucast w OR 0x80 :: byte) AND 0x7f) :: 64 word) n = bit (w AND 0x7f) n"
    unfolding m by (auto simp: bit_simps)
qed

lemma join_low_high: "x OR push_bit k (w AND 0x7f) OR push_bit (k + 7) (drop_bit 7 w) = x OR push_bit k w" for w :: "64 word"
proof (rule bit_word_eqI)
  fix n assume "n < LENGTH(64)"
  have m: "(0x7f :: 64 word) = mask 7" by (simp add: mask_eq_exp_minus_1)
  show "bit (x OR push_bit k (w AND 0x7f) OR push_bit (k + 7) (drop_bit 7 w)) n = bit (x OR push_bit k w) n"
    unfolding m by (cases "k + 7 \<le> n") (auto simp: bit_simps)
qed

lemma Uvarint_PutUvarint:
  "i \<le> 9 \<Longrightarrow> unat w < 2 ^ (64 - 7 * i) \<Longrightarrow> Uvarint_loop i x (PutUvarint w) = Some (x OR push_bit (7 * i) w)"
proof (induction w arbitrary: i x rule: PutUvarint.induct)
  case (1 w)
  show ?case
  proof (cases "w < 0x80")
    case True
    then have l: "unat w < 128" by (simp add: word_less_nat_alt)
    have u: "unat (ucast w :: byte) = unat w"
      using l by (simp add: unsigned_ucast_eq unsigned_take_bit_eq take_bit_nat_eq_self)
    then have "(ucast w :: byte) < 0x80" "(ucast (ucast w :: byte) :: 64 word) = w"
      using l by (simp_all add: word_less_nat_alt word_unat_eq_iff unsigned_ucast_eq unsigned_take_bit_eq take_bit_nat_eq_self)
    moreover have "\<not> (ucast w :: byte) > 1" if "i = 9"
      using 1(3) that u by (simp add: word_less_nat_alt)
    ultimately show ?thesis using True 1(2) by (simp add: PutUvarint.simps [of w])
  next
    case False
    then have g: "unat w \<ge> 128" by (simp add: word_less_nat_alt)
    have i: "i \<le> 8" 
    proof (rule ccontr)
      assume "\<not> i \<le> 8"
      with 1(2) have "i = 9" by simp
      with 1(3) g show False by simp
    qed
    have d: "unat (drop_bit 7 w) = unat w div 128" using unat_drop_bit7 [of w] by simp
    have "64 - 7 * i = (64 - 7 * (i + 1)) + 7" using i by simp
    then have "(2 :: nat) ^ (64 - 7 * i) = 2 ^ (64 - 7 * (i + 1)) * 128" by (simp only: power_add) simp
    with 1(3) have "unat (drop_bit 7 w) < 2 ^ (64 - 7 * (i + 1))"
      unfolding d by (simp add: less_mult_imp_div_less)
    note IH = 1(1) [OF False _ this]
    have nb: "\<not> (ucast w OR 0x80 :: byte) < 0x80" by (rule msb_set)
    have "Uvarint_loop i x (PutUvarint w) =
        Uvarint_loop (i + 1) (x OR push_bit (7 * i) (w AND 0x7f)) (PutUvarint (drop_bit 7 w))"
      using False i nb by (simp add: PutUvarint.simps [of w] low_bits)
    also have "\<dots> = Some ((x OR push_bit (7 * i) (w AND 0x7f)) OR push_bit (7 * (i + 1)) (drop_bit 7 w))"
      using i by (intro IH) simp
    also have "(x OR push_bit (7 * i) (w AND 0x7f)) OR push_bit (7 * (i + 1)) (drop_bit 7 w) = x OR push_bit (7 * i) w"
      using join_low_high [of x "7 * i" w] by (simp add: or.assoc add.commute)
    finally show ?thesis .
  qed
qed

lemma length_PutUvarint: "i \<le> 9 \<Longrightarrow> unat w < 2 ^ (64 - 7 * i) \<Longrightarrow> length (PutUvarint w) \<le> 10 - i"
proof (induction w arbitrary: i rule: PutUvarint.induct)
  case (1 w)
  show ?case
  proof (cases "w < 0x80")
    case True
    with 1(2) show ?thesis by (simp add: PutUvarint.simps [of w])
  next
    case False
    then have g: "unat w \<ge> 128" by (simp add: word_less_nat_alt)
    with 1(2,3) have i: "i \<le> 8" by (cases "i = 9") auto
    have "64 - 7 * i = (64 - 7 * (i + 1)) + 7" using i by simp
    then have "(2 :: nat) ^ (64 - 7 * i) = 2 ^ (64 - 7 * (i + 1)) * 128" by (simp only: power_add) simp
    with 1(3) have "unat (drop_bit 7 w) < 2 ^ (64 - 7 * (i + 1))"
      using unat_drop_bit7 [of w] by (simp add: less_mult_imp_div_less)
    from 1(1) [OF False _ this] i have "length (PutUvarint (drop_bit 7 w)) \<le> 10 - (i + 1)" by simp
    with False i show ?thesis by (simp add: PutUvarint.simps [of w])
  qed
qed

text \<open>No read of the handshake is refused by its context.\<close>

definition reads_run :: "henv \<Rightarrow> bool" where
  "reads_run env \<longleftrightarrow> (\<forall>k. race (r_ctx env k) = Runs)"

text \<open>The connection after \<open>k\<close> reads that left the bytes \<open>rest\<close>.\<close>

definition after :: "nat \<Rightarrow> bytes \<Rightarrow> hs \<Rightarrow> hs" where
  "after k rest s = s\<lparr>h_reads := h_reads s + k, h_conn := (h_conn s)\<lparr>inp := rest\<rparr>\<rparr>"

lemma Read1_run:
  "reads_run env \<Longrightarrow> inp (h_conn s) = b # bs \<Longrightarrow> h_Read1 env s = ((None, b), after 1 bs s)"
  by (simp add: reads_run_def h_Read1_def after_def)

lemma after_after [simp]: "after k r (after j q s) = after (j + k) r s"
  by (simp add: after_def)

lemma inp_after [simp]: "inp (h_conn (after k r s)) = r"
  by (simp add: after_def)

text \<open>The bytes of an encoding all but the last have the continuation bit.\<close>

fun continued :: "bytes \<Rightarrow> bool" where
  "continued [] = False"
| "continued [b] = (b < 0x80)"
| "continued (b # bs) = (\<not> b < 0x80 \<and> continued bs)"

lemma continued_Cons: "bs \<noteq> [] \<Longrightarrow> continued (b # bs) = (\<not> b < 0x80 \<and> continued bs)"
  by (cases bs) auto

lemma readVarInt_bytes:
  assumes "reads_run env" "continued bs" "length bs \<le> n" "inp (h_conn s) = bs @ rest"
  shows "readVarInt_loop env n buf s =
    (case Uvarint (buf @ bs) of
       None \<Rightarrow> (Inl (PlainError ''failed to decode varint''), after (length bs) rest s)
     | Some v \<Rightarrow> (Inr (v, buf @ bs), after (length bs) rest s))"
  using assms(2-)
proof (induction bs arbitrary: n buf s)
  case Nil
  then show ?case by simp
next
  case (Cons b bs)
  then obtain m where n: "n = Suc m" by (cases n) auto
  have r: "h_Read1 env s = ((None, b), after 1 (bs @ rest) s)"
    using assms(1) Cons.prems(3) by (intro Read1_run) auto
  show ?case
  proof (cases "bs = []")
    case True
    with Cons.prems(1) show ?thesis by (simp add: n r byte_msb split: option.split)
  next
    case False
    with Cons.prems Cons.IH [of m "after 1 (bs @ rest) s" "buf @ [b]"] show ?thesis
      by (simp add: n r byte_msb continued_Cons split: option.split)
  qed
qed

lemma continued_PutUvarint: "continued (PutUvarint w)"
proof (induction w rule: PutUvarint.induct)
  case (1 w)
  have ne: "PutUvarint v \<noteq> []" for v by (simp add: PutUvarint.simps [of v])
  show ?case
  proof (cases "w < 0x80")
    case True
    then have "unat w < 128" by (simp add: word_less_nat_alt)
    with True show ?thesis
      by (simp add: PutUvarint.simps [of w] word_less_nat_alt unsigned_ucast_eq unsigned_take_bit_eq take_bit_nat_eq_self)
  next
    case False
    with 1 ne msb_set show ?thesis by (simp add: PutUvarint.simps [of w] continued_Cons)
  qed
qed

lemma Uvarint_encode: "Uvarint (encodeVarInt v) = Some v"
  using Uvarint_PutUvarint [of 0 v 0] unsigned_less [of v] by (simp add: Uvarint_def encodeVarInt_def)

lemma readVarInt_encode:
  assumes "reads_run env" "inp (h_conn s) = encodeVarInt v @ rest"
  shows "readVarInt env s = (Inr (v, encodeVarInt v), after (length (encodeVarInt v)) rest s)"
proof -
  have "length (encodeVarInt v) \<le> 10"
    using length_PutUvarint [of 0 v] unsigned_less [of v] by (simp add: encodeVarInt_def)
  with readVarInt_bytes [OF assms(1) _ _ assms(2), of 10 "[]"] continued_PutUvarint [of v] Uvarint_encode [of v]
  show ?thesis by (simp add: readVarInt_def encodeVarInt_def)
qed

definition offer_bytes :: "protocolVersion \<Rightarrow> bytes" where
  "offer_bytes p = [0, v_back p, v_minor p, v_major p]"

lemma length_offer_bytes [simp]: "length (offer_bytes p) = 4"
  by (simp add: offer_bytes_def)

lemma ReadFull4_run:
  assumes "reads_run env" "inp (h_conn s) = bs @ rest" "length bs = 4"
  shows "h_ReadFull env 4 s = ((None, bs), after 1 rest s)"
  using assms by (simp add: reads_run_def h_ReadFull_def racing_ReadFull_def ReadFull_def after_def overwrite_def)

lemma read_offers_run:
  "reads_run env \<Longrightarrow> inp (h_conn s) = concat (map offer_bytes offers) @ rest \<Longrightarrow>
     read_offers env (length offers) acc s = (Inr (acc @ offers), after (length offers) rest s)"
proof (induction offers arbitrary: acc s)
  case Nil
  then show ?case by (simp add: after_def)
next
  case (Cons p offers)
  have "h_ReadFull env 4 s = ((None, offer_bytes p), after 1 (concat (map offer_bytes offers) @ rest) s)"
    using Cons.prems by (intro ReadFull4_run) simp_all
  moreover have "\<lparr>v_major = offer_bytes p ! 3, v_minor = offer_bytes p ! 2, v_back = offer_bytes p ! 1\<rparr> = p"
    by (simp add: offer_bytes_def)
  ultimately show ?case
    using Cons.IH [of "after 1 (concat (map offer_bytes offers) @ rest) s" "acc @ [p]"] Cons.prems(1) by simp
qed

lemma h_Write_ok: "w_step env (h_writes s) = ok_write \<Longrightarrow> h_Write env bs s = (None, s\<lparr>h_writes := h_writes s + 1, h_out := h_out s @ bs\<rparr>)"
  by (simp add: h_Write_def racing_Write_ok)

text \<open>
  C29: the manifest of a server is understood. When the server sends the number of its offers, the offers and its
  capabilities as the handshake prescribes, the negotiation reads exactly these bytes; it confirms the version
  that selectProtocol chooses, or, when there is none, answers with the invalid version and reports the failure
  to the error listener.
\<close>

theorem manifest_negotiated:
  assumes "reads_run env" "\<forall>k. w_step env k = ok_write" "length offers < 2 ^ 63"
    and "inp (h_conn s) = encodeVarInt (word_of_nat (length offers)) @ concat (map offer_bytes offers) @ encodeVarInt caps @ rest"
  shows "\<exists>r s'. performManifestNegotiation env s = Some (r, s') \<and> inp (h_conn s') = rest \<and>
    (case selectProtocol offers of
       None \<Rightarrow> (\<exists>e. r = Inl e \<and> dialErrors s' = dialErrors s @ [e]) \<and> h_out s' = h_out s @ [0, 0, 0, 0, 0]
     | Some p \<Rightarrow> r = Inr (v_major p, v_minor p) \<and> dialErrors s' = dialErrors s \<and>
         h_out s' = h_out s @ [0, 0, v_minor p, v_major p, 0])"
proof -
  let ?n = "word_of_nat (length offers) :: 64 word"
  have n: "unat ?n = length offers" using assms(3) by (simp add: unat_of_nat)
  let ?s1 = "after (length (encodeVarInt ?n)) (concat (map offer_bytes offers) @ encodeVarInt caps @ rest) s"
  let ?s2 = "after (length offers) (encodeVarInt caps @ rest) ?s1"
  let ?s3 = "after (length (encodeVarInt caps)) rest ?s2"
  have rp: "readProtocolOfferings env s = Some (Inr offers, ?s2)"
    using readVarInt_encode [OF assms(1,4)] read_offers_run [OF assms(1), of ?s1 offers "encodeVarInt caps @ rest" "[]"] assms(3)
    by (simp add: readProtocolOfferings_def n)
  have rc: "readCapabilityMask env ?s2 = (Inr (caps, encodeVarInt caps), ?s3)"
    using readVarInt_encode [OF assms(1), of ?s2 caps rest] by (simp add: readCapabilityMask_def)
  have p: "performManifestNegotiation env s =
      (case selectProtocol offers of
         None \<Rightarrow> let e = PlainError ''none of the server offered Bolt versions are supported''
                 in Some (Inl e, snd (h_Write env [0, 0, 0, 0, 0] (OnDialError_hs e ?s3)))
       | Some chosen \<Rightarrow>
           (case sendHandshakeConfirmation env chosen [0] ?s3 of
              (Some e, s3) \<Rightarrow> Some (Inl e, s3) | (None, s3) \<Rightarrow> Some (Inr (v_major chosen, v_minor chosen), s3)))"
    by (simp only: performManifestNegotiation_def rp rc option.case sum.case prod.case)
  show ?thesis
    unfolding p using assms(2)
    by (cases "selectProtocol offers")
      (simp_all add: sendHandshakeConfirmation_def h_Write_ok OnDialError_hs_def after_def Let_def)
qed

text \<open>
  a server can make the driver panic. The announced number of offers is used as the capacity of a slice before
  any offer is read; a number that is not an int is a run-time panic.
\<close>

lemma manifest_count_panics:
  assumes "reads_run env" "inp (h_conn s) = encodeVarInt count @ rest" "2 ^ 63 \<le> unat count"
  shows "performManifestNegotiation env s = None"
  using readVarInt_encode [OF assms(1,2)] assms(3)
  by (simp add: performManifestNegotiation_def readProtocolOfferings_def)

definition henv0 :: henv where
  "henv0 = \<lparr>r_ctx = \<lambda>_. background, w_step = \<lambda>_. ok_write\<rparr>"

definition hs0 :: "bytes \<Rightarrow> hs" where
  "hs0 bs = \<lparr>h_conn = \<lparr>inp = bs, fail = ErrEOF\<rparr>, h_reads = 0, h_writes = 0, h_out = [], dialErrors = []\<rparr>"

lemma henv0_ok: "reads_run henv0" "\<forall>k. w_step henv0 k = ok_write"
  by (simp_all add: henv0_def reads_run_def)

theorem manifest_negotiated_witness:
  "\<exists>s'. performManifestNegotiation henv0 (hs0 (encodeVarInt 1 @ [0, 4, 6, 5] @ encodeVarInt 0)) = Some (Inr (5, 6), s') \<and>
     h_out s' = [0, 0, 6, 5, 0]"
proof -
  have s: "selectProtocol [ver 5 6 4] = Some (ver 5 6 0)"
    by (simp add: selectProtocol_find candidates_def supportedVersions_def minors_eqs in_range_def)
      (simp add: bolt6Ver_def bolt5Ver_def bolt4Ver_def bolt3Ver_def ver_def)
  show ?thesis
    using manifest_negotiated [OF henv0_ok, of "[ver 5 6 4]" "hs0 (encodeVarInt 1 @ [0, 4, 6, 5] @ encodeVarInt 0)" 0 "[]"]
    by (simp add: s) (auto simp: hs0_def ver_def offer_bytes_def)
qed

theorem manifest_count_panics_witness:
  "performManifestNegotiation henv0 (hs0 (encodeVarInt 0xffffffffffffffff @ [])) = None"
  using manifest_count_panics [OF henv0_ok(1), of "hs0 (encodeVarInt 0xffffffffffffffff @ [])" "0xffffffffffffffff" "[]"]
  by (simp add: hs0_def)

end
