(* ===== verification/Bookmarks.thy ===== *)
theory Bookmarks
  imports Errors
begin

text \<open>
  Bookmarks and causal chaining: src/neo4j/bookmarks.go (the bookmark manager), src/neo4j/session_bookmarks.go,
  the bookmark functions of src/neo4j/session.go and the sets of src/neo4j/internal/collections/set.go. A Go map
  used as a set is a list without duplicates; its iteration order is that of the list, and no statement depends
  on it. The supplier and the consumer of the user are parameters.
\<close>

section \<open>Sets\<close>

type_synonym 'a gset = "'a list"

definition Add :: "'a \<Rightarrow> 'a gset \<Rightarrow> 'a gset" where
  "Add x s = (if x \<in> set s then s else s @ [x])"

definition AddAll :: "'a list \<Rightarrow> 'a gset \<Rightarrow> 'a gset" where
  "AddAll xs s = foldl (\<lambda>s x. Add x s) s xs"

definition NewSet :: "'a list \<Rightarrow> 'a gset" where
  "NewSet xs = foldl (\<lambda>s x. Add x s) [] xs"

definition Remove :: "'a \<Rightarrow> 'a gset \<Rightarrow> 'a gset" where
  "Remove x s = filter (\<lambda>y. y \<noteq> x) s"

definition RemoveAll :: "'a list \<Rightarrow> 'a gset \<Rightarrow> 'a gset" where
  "RemoveAll xs s = foldl (\<lambda>s x. Remove x s) s xs"

definition set_Values :: "'a gset \<Rightarrow> 'a list" where
  "set_Values s = s"

definition Copy :: "'a gset \<Rightarrow> 'a gset" where
  "Copy s = s"

definition Union :: "'a gset \<Rightarrow> 'a gset \<Rightarrow> 'a gset" where
  "Union other s = AddAll (set_Values other) s"

definition Contains :: "'a gset \<Rightarrow> 'a \<Rightarrow> bool" where
  "Contains s x \<longleftrightarrow> x \<in> set s"

text \<open>What the clients rely on, proved once for any such implementation.\<close>

locale set_ops =
  fixes empty :: 's
    and add :: "'a \<Rightarrow> 's \<Rightarrow> 's"
    and remove :: "'a \<Rightarrow> 's \<Rightarrow> 's"
    and contains :: "'s \<Rightarrow> 'a \<Rightarrow> bool"
    and elems :: "'s \<Rightarrow> 'a list"
    and valid :: "'s \<Rightarrow> bool"
  assumes elems_empty: "elems empty = []"
    and elems_add: "valid s \<Longrightarrow> set (elems (add x s)) = insert x (set (elems s))"
    and elems_remove: "valid s \<Longrightarrow> set (elems (remove x s)) = set (elems s) - {x}"
    and contains_iff: "valid s \<Longrightarrow> contains s x \<longleftrightarrow> x \<in> set (elems s)"
    and elems_distinct: "valid s \<Longrightarrow> distinct (elems s)"
    and valid_empty: "valid empty"
    and valid_add: "valid s \<Longrightarrow> valid (add x s)"
    and valid_remove: "valid s \<Longrightarrow> valid (remove x s)"
begin

lemma elems_add_all: "valid s \<Longrightarrow> set (elems (foldl (\<lambda>s x. add x s) s xs)) = set (elems s) \<union> set xs"
  by (induction xs arbitrary: s) (auto simp: elems_add valid_add)

lemma valid_add_all: "valid s \<Longrightarrow> valid (foldl (\<lambda>s x. add x s) s xs)"
  by (induction xs arbitrary: s) (auto simp: valid_add)

lemma elems_remove_all: "valid s \<Longrightarrow> set (elems (foldl (\<lambda>s x. remove x s) s xs)) = set (elems s) - set xs"
  by (induction xs arbitrary: s) (auto simp: elems_remove valid_remove)

lemma valid_remove_all: "valid s \<Longrightarrow> valid (foldl (\<lambda>s x. remove x s) s xs)"
  by (induction xs arbitrary: s) (auto simp: valid_remove)

end

interpretation coll: set_ops "[]" Add Remove Contains set_Values distinct
  by unfold_locales (auto simp: Add_def Remove_def Contains_def set_Values_def)

lemmas set_op_simps [simp] =
  coll.elems_add_all [folded AddAll_def, unfolded set_Values_def] coll.elems_remove_all [folded RemoveAll_def, unfolded set_Values_def]
  coll.valid_add_all [folded AddAll_def] coll.valid_remove_all [folded RemoveAll_def]

lemma set_NewSet [simp]: "set (NewSet xs) = set xs" "distinct (NewSet xs)"
  using coll.elems_add_all [of "[]" xs] coll.valid_add_all [of "[]" xs] by (simp_all add: NewSet_def set_Values_def)

section \<open>The bookmark manager\<close>

record bookmarkManager =
  bm_set :: "string gset"
  consumed :: "string list list"

text \<open>\<open>consume\<close> is the consumer, when there is one, and the error it returns.\<close>

definition UpdateBookmarks :: "(string list \<Rightarrow> goerr option) option \<Rightarrow> string list \<Rightarrow> string list \<Rightarrow> bookmarkManager \<Rightarrow>
  goerr option \<times> bookmarkManager" where
  "UpdateBookmarks consume previous new m =
     (if new = [] then (None, m)
      else
        let s = AddAll new (RemoveAll previous (bm_set m)); m1 = m\<lparr>bm_set := s\<rparr> in
        (case consume of
           None \<Rightarrow> (None, m1)
         | Some f \<Rightarrow> (f (set_Values s), m1\<lparr>consumed := consumed m @ [set_Values s]\<rparr>)))"

text \<open>\<open>supply\<close> is what the supplier returns, when there is one; a nil result is \<^const>\<open>None\<close> inside.\<close>

definition GetBookmarks :: "(goerr + string list option) option \<Rightarrow> bookmarkManager \<Rightarrow> goerr + string list option" where
  "GetBookmarks supply m =
     (let r = (case supply of None \<Rightarrow> Inr None | Some x \<Rightarrow> x) in
      case r of
        Inl e \<Rightarrow> Inl e
      | Inr extra \<Rightarrow>
          if bm_set m = [] then Inr extra
          else
            (case extra of
               None \<Rightarrow> Inr (Some (set_Values (Copy (bm_set m))))
             | Some bs \<Rightarrow> Inr (Some (set_Values (AddAll bs (Copy (bm_set m)))))))"

definition NewBookmarkManager :: "string list \<Rightarrow> bookmarkManager" where
  "NewBookmarkManager initial = \<lparr>bm_set = NewSet initial, consumed = []\<rparr>"

definition CombineBookmarks :: "string list list \<Rightarrow> string list" where
  "CombineBookmarks bs = concat bs"

section \<open>The bookmarks of a session\<close>

definition cleanupBookmarks :: "string list \<Rightarrow> string list" where
  "cleanupBookmarks bs = (if list_ex (\<lambda>b. b = []) bs then filter (\<lambda>b. b \<noteq> []) bs else bs)"

record sessionBookmarks =
  sb_manager :: "bookmarkManager option"
  sb_bookmarks :: "string list"

definition newSessionBookmarks :: "bookmarkManager option \<Rightarrow> string list \<Rightarrow> sessionBookmarks" where
  "newSessionBookmarks m bs = \<lparr>sb_manager = m, sb_bookmarks = cleanupBookmarks bs\<rparr>"

definition lastBookmark :: "sessionBookmarks \<Rightarrow> string" where
  "lastBookmark sb = (if sb_bookmarks sb = [] then [] else last (sb_bookmarks sb))"

definition replaceSessionBookmarks :: "string \<Rightarrow> sessionBookmarks \<Rightarrow> sessionBookmarks" where
  "replaceSessionBookmarks new sb = (if new = [] then sb else sb\<lparr>sb_bookmarks := [new]\<rparr>)"

definition replaceBookmarks :: "(string list \<Rightarrow> goerr option) option \<Rightarrow> string list \<Rightarrow> string \<Rightarrow> sessionBookmarks \<Rightarrow>
  goerr option \<times> sessionBookmarks" where
  "replaceBookmarks consume previous new sb =
     (if new = [] then (None, sb)
      else
        (case sb_manager sb of
           None \<Rightarrow> (None, replaceSessionBookmarks new sb)
         | Some m \<Rightarrow>
             (case UpdateBookmarks consume previous [new] m of
                (Some e, m1) \<Rightarrow> (Some e, sb\<lparr>sb_manager := Some m1\<rparr>)
              | (None, m1) \<Rightarrow> (None, replaceSessionBookmarks new (sb\<lparr>sb_manager := Some m1\<rparr>)))))"

definition sb_getBookmarks :: "(goerr + string list option) option \<Rightarrow> sessionBookmarks \<Rightarrow> goerr + string list option" where
  "sb_getBookmarks supply sb = (case sb_manager sb of None \<Rightarrow> Inr None | Some m \<Rightarrow> GetBookmarks supply m)"

text \<open>What a session sends: the bookmarks of the manager and its own, without repetition.\<close>

definition session_getBookmarks :: "(goerr + string list option) option \<Rightarrow> sessionBookmarks \<Rightarrow> goerr + string list" where
  "session_getBookmarks supply sb =
     (case sb_getBookmarks supply sb of
        Inl e \<Rightarrow> Inl e
      | Inr bs \<Rightarrow> Inr (set_Values (AddAll (sb_bookmarks sb) (NewSet (case bs of None \<Rightarrow> [] | Some b \<Rightarrow> b)))))"

section \<open>The specification of causal chaining\<close>

text \<open>An update removes what the transaction was given and adds what it produced; empty results change nothing.\<close>

definition spec_update :: "string list \<times> string list \<Rightarrow> string set \<Rightarrow> string set" where
  "spec_update u S = (if snd u = [] then S else (S - set (fst u)) \<union> set (snd u))"

definition bm_ok :: "bookmarkManager \<Rightarrow> bool" where
  "bm_ok m \<longleftrightarrow> distinct (bm_set m)"

lemma Update_refines:
  assumes "bm_ok m" "UpdateBookmarks consume previous new m = (e, m')"
  shows "bm_ok m' \<and> set (bm_set m') = spec_update (previous, new) (set (bm_set m))"
  using assms by (auto simp: UpdateBookmarks_def bm_ok_def spec_update_def Let_def split: if_splits option.splits)

fun updates :: "(string list \<Rightarrow> goerr option) option \<Rightarrow> (string list \<times> string list) list \<Rightarrow> bookmarkManager \<Rightarrow> bookmarkManager" where
  "updates consume [] m = m"
| "updates consume (u # us) m = updates consume us (snd (UpdateBookmarks consume (fst u) (snd u) m))"

lemma updates_refine:
  "bm_ok m \<Longrightarrow> bm_ok (updates consume us m) \<and>
     set (bm_set (updates consume us m)) = foldl (\<lambda>S u. spec_update u S) (set (bm_set m)) us"
proof (induction us arbitrary: m)
  case (Cons u us)
  obtain e m' where m': "UpdateBookmarks consume (fst u) (snd u) m = (e, m')"
    by (cases "UpdateBookmarks consume (fst u) (snd u) m")
  from Update_refines [OF Cons.prems m'] Cons.IH [of m'] show ?case by (simp add: m')
qed simp

text \<open>An update keeps a bookmark unless it replaces it; a bookmark is tracked when it was produced and then kept.\<close>

definition keeps :: "string \<Rightarrow> string list \<times> string list \<Rightarrow> bool" where
  "keeps b v \<longleftrightarrow> snd v = [] \<or> b \<in> set (snd v) \<or> b \<notin> set (fst v)"

definition produced :: "string \<Rightarrow> (string list \<times> string list) list \<Rightarrow> bool" where
  "produced b us \<longleftrightarrow> (\<exists>us1 u us2. us = us1 @ u # us2 \<and> b \<in> set (snd u) \<and> list_all (keeps b) us2)"

lemma produced_snoc: "produced b (us @ [v]) \<longleftrightarrow> b \<in> set (snd v) \<or> produced b us \<and> keeps b v"
proof
  assume "produced b (us @ [v])"
  then obtain us1 u us2 where u: "us @ [v] = us1 @ u # us2" "b \<in> set (snd u)" "list_all (keeps b) us2"
    unfolding produced_def by blast
  show "b \<in> set (snd v) \<or> produced b us \<and> keeps b v"
  proof (cases us2 rule: rev_cases)
    case Nil
    with u show ?thesis by simp
  next
    case (snoc ys y)
    with u have "us = us1 @ u # ys" "y = v" by simp_all
    with u snoc show ?thesis unfolding produced_def by fastforce
  qed
next
  assume "b \<in> set (snd v) \<or> produced b us \<and> keeps b v"
  then show "produced b (us @ [v])"
  proof
    assume "b \<in> set (snd v)"
    then show ?thesis unfolding produced_def by (intro exI [of _ us] exI [of _ v] exI [of _ "[]"]) simp
  next
    assume p: "produced b us \<and> keeps b v"
    then obtain us1 u us2 where "us = us1 @ u # us2" "b \<in> set (snd u)" "list_all (keeps b) us2"
      unfolding produced_def by blast
    with p show ?thesis
      unfolding produced_def by (intro exI [of _ us1] exI [of _ u] exI [of _ "us2 @ [v]"]) simp
  qed
qed

lemma spec_tracks:
  "b \<in> foldl (\<lambda>S u. spec_update u S) S us \<longleftrightarrow> produced b us \<or> b \<in> S \<and> list_all (keeps b) us"
proof (induction us rule: rev_induct)
  case Nil
  show ?case by (simp add: produced_def)
next
  case (snoc v us)
  then show ?case by (auto simp: produced_snoc spec_update_def keeps_def)
qed

text \<open>
  C27: the bookmark manager implements causal chaining. After any sequence of updates by the sessions that share it,
  the bookmarks it hands out, together with those of its supplier, are those the specification prescribes: a
  bookmark is tracked exactly when it was produced by some transaction, or was there initially, and no later
  transaction that had it as its previous bookmark replaced it. No bookmark is handed out twice when any is
  tracked.
\<close>

theorem bookmark_chaining:
  assumes "m = updates consume us (NewBookmarkManager initial)" "supply = None \<or> supply = Some (Inr extra)"
  shows "\<exists>r. GetBookmarks supply m = Inr r \<and>
    (let tracked = {b. produced b us \<or> b \<in> set initial \<and> list_all (keeps b) us};
         given = (case r of None \<Rightarrow> [] | Some bs \<Rightarrow> bs)
     in set given = tracked \<union> (if supply = None then {} else (case extra of None \<Rightarrow> {} | Some bs \<Rightarrow> set bs)) \<and>
        (tracked = {} \<or> distinct given))"
proof -
  have "bm_ok (NewBookmarkManager initial)" "set (bm_set (NewBookmarkManager initial)) = set initial"
    by (simp_all add: NewBookmarkManager_def bm_ok_def)
  with updates_refine [of "NewBookmarkManager initial" consume us] assms(1)
  have ok: "distinct (bm_set m)" and set: "set (bm_set m) = foldl (\<lambda>S u. spec_update u S) (set initial) us"
    by (simp_all add: bm_ok_def)
  have t: "{b. produced b us \<or> b \<in> set initial \<and> list_all (keeps b) us} = set (bm_set m)"
    unfolding set using spec_tracks [of _ "set initial" us] by blast
  show ?thesis
    unfolding t Let_def using assms(2) ok
    by (cases extra) (auto simp: GetBookmarks_def Let_def set_Values_def Copy_def)
qed

theorem bookmark_chaining_witness:
  "\<exists>r. GetBookmarks None (updates None [([''a''], [''b'']), ([''x''], [''c''])] (NewBookmarkManager [''a''])) = Inr (Some r) \<and>
     set r = {''b'', ''c''} \<and> distinct r"
proof -
  let ?us = "[([''a''], [''b'']), ([''x''], [''c''])]"
  have "updates None ?us (NewBookmarkManager [''a'']) = \<lparr>bm_set = [''b'', ''c''], consumed = []\<rparr>"
    by (simp add: UpdateBookmarks_def NewBookmarkManager_def NewSet_def AddAll_def RemoveAll_def Add_def Remove_def)
  moreover obtain r where "GetBookmarks None (updates None ?us (NewBookmarkManager [''a''])) = Inr r"
    using bookmark_chaining [OF refl, of None None None ?us "[''a'']"] by auto
  ultimately show ?thesis by (auto simp: GetBookmarks_def set_Values_def Copy_def)
qed

lemma cleanup_filter: "cleanupBookmarks bs = filter (\<lambda>b. b \<noteq> []) bs"
  by (auto simp: cleanupBookmarks_def list_ex_iff intro!: filter_True [symmetric])

end
