(* ===== verification/Temporal.thy ===== *)
theory Temporal
  imports Values "HOL-Library.Signed_Division"
begin

text \<open>
  Times and zones: the package src/neo4j/internal/timezone and what the driver uses of Go's package time. The tz
  database of the host and its local zone are parameters (a \<open>tzdb\<close>): which zone ids it knows, and for every
  zone and instant the offset in force with the bounds of the period in which it is. The civil fields of a time
  (year to second) only occur in the sources as arguments of time.Date again, so they are represented by the
  number of seconds since 1970-01-01 00:00:00 that a clock of the zone shows, the wall time.
\<close>

section \<open>Package time\<close>

record tzdb =
  tz_known :: "string \<Rightarrow> bool"
  tz_period :: "location \<Rightarrow> int \<Rightarrow> int64 \<times> int option \<times> int option"

text \<open>The offset of a zone at an instant, with the first instant of its period and the first one after it.\<close>

definition lookup_zone :: "tzdb \<Rightarrow> location \<Rightarrow> int \<Rightarrow> int64 \<times> int option \<times> int option" where
  "lookup_zone tz l sec =
     (case l of
        UTC \<Rightarrow> (0, None, None)
      | FixedZone _ off \<Rightarrow> (off, None, None)
      | _ \<Rightarrow> tz_period tz l sec)"

definition Zone :: "tzdb \<Rightarrow> gotime \<Rightarrow> int64" where
  "Zone tz t = fst (lookup_zone tz (t_loc t) (sint (t_unix t)))"

definition time_Unix :: "int64 \<Rightarrow> int64 \<Rightarrow> gotime" where
  "time_Unix sec nsec =
     GoTime (sec + word_of_int (sint nsec div 1000000000)) (sint nsec mod 1000000000) LocalZone"

definition In :: "gotime \<Rightarrow> location \<Rightarrow> gotime" where
  "In t l = GoTime (t_unix t) (t_nsec t) l"

text \<open>
  time.Date for the civil time \<open>wall\<close>: the offset in force at that many seconds after the epoch is tried first;
  where the instant it gives is outside the period of that offset, the offset at that instant is taken.
\<close>

definition date_offset :: "tzdb \<Rightarrow> location \<Rightarrow> int64 \<Rightarrow> int64" where
  "date_offset tz l wall =
     (case lookup_zone tz l (sint wall) of
        (off, start, stop) \<Rightarrow>
          let utc = wall - off
          in if off \<noteq> 0 \<and> ((case start of Some s \<Rightarrow> sint utc < s | None \<Rightarrow> False) \<or>
                             (case stop of Some e \<Rightarrow> e \<le> sint utc | None \<Rightarrow> False))
             then fst (lookup_zone tz l (sint utc))
             else off)"

definition Date_wall :: "tzdb \<Rightarrow> int64 \<Rightarrow> int \<Rightarrow> location \<Rightarrow> gotime" where
  "Date_wall tz wall nsec l = GoTime (wall - date_offset tz l wall) nsec l"

text \<open>The civil time of \<open>t\<close> in UTC, copied as it is into another zone.\<close>

definition copy_civil :: "tzdb \<Rightarrow> gotime \<Rightarrow> location \<Rightarrow> gotime" where
  "copy_civil tz t l = Date_wall tz (t_unix t) (t_nsec t) l"

text \<open>
  time.Date(0, 0, 0, 0, 0, secs, nans, l): month 0 and day 0 of year 0 are the 30th of November of the year
  before, 719560 days before the epoch.
\<close>

definition Date_zero :: "tzdb \<Rightarrow> int64 \<Rightarrow> int64 \<Rightarrow> location \<Rightarrow> gotime" where
  "Date_zero tz secs nans l =
     Date_wall tz (- 62169984000 + secs + word_of_int (sint nans div 1000000000)) (sint nans mod 1000000000) l"

text \<open>Seconds since midnight on the clock of the zone: Hour, Minute and Second together.\<close>

definition clock_seconds :: "tzdb \<Rightarrow> gotime \<Rightarrow> int" where
  "clock_seconds tz t = (sint (t_unix t) + sint (Zone tz t)) mod 86400"

definition Hour :: "tzdb \<Rightarrow> gotime \<Rightarrow> int" where
  "Hour tz t = clock_seconds tz t div 3600"

definition Minute :: "tzdb \<Rightarrow> gotime \<Rightarrow> int" where
  "Minute tz t = clock_seconds tz t mod 3600 div 60"

definition Second :: "tzdb \<Rightarrow> gotime \<Rightarrow> int" where
  "Second tz t = clock_seconds tz t mod 60"

fun loc_String :: "location \<Rightarrow> string" where
  "loc_String (FixedZone n _) = n"
| "loc_String (NamedZone n) = n"
| "loc_String LocalZone = ''Local''"
| "loc_String UTC = ''UTC''"

definition LoadLocation :: "tzdb \<Rightarrow> string \<Rightarrow> location option" where
  "LoadLocation tz name =
     (if name = [] \<or> name = ''UTC'' then Some UTC
      else if name = ''Local'' then Some LocalZone
      else if tz_known tz name then Some (NamedZone name)
      else None)"

section \<open>Package timezone\<close>

text \<open>The cache of lookups, failed ones included.\<close>

type_synonym known = "(string \<times> location option) list"

definition timezone_Load :: "tzdb \<Rightarrow> known \<Rightarrow> string \<Rightarrow> location option \<times> known" where
  "timezone_Load tz known zid =
     (if zid = [] then (None, known)
      else if zid = ''Local'' then (None, known)
      else
        case map_of known zid of
          Some r \<Rightarrow> (r, known)
        | None \<Rightarrow> (let zone = LoadLocation tz zid in (zone, map_put zid zone known)))"

definition timezone_ID :: "tzdb \<Rightarrow> known \<Rightarrow> gotime \<Rightarrow> string option \<times> known" where
  "timezone_ID tz known t =
     (let zid = loc_String (t_loc t)
      in case timezone_Load tz known zid of
           (None, known') \<Rightarrow> (None, known')
         | (Some zone, known') \<Rightarrow>
             if Zone tz (In t zone) \<noteq> Zone tz t then (None, known') else (Some zid, known'))"

text \<open>A cache as the package fills it, and what a lookup returns through such a cache: the cache is invisible.\<close>

definition cache_ok :: "tzdb \<Rightarrow> known \<Rightarrow> bool" where
  "cache_ok tz known \<longleftrightarrow> list_all (\<lambda>(zid, r). r = LoadLocation tz zid) known"

definition zone_of_id :: "tzdb \<Rightarrow> string \<Rightarrow> location option" where
  "zone_of_id tz zid = fst (timezone_Load tz [] zid)"

definition id_of_time :: "tzdb \<Rightarrow> gotime \<Rightarrow> string option" where
  "id_of_time tz t = fst (timezone_ID tz [] t)"

lemma cache_ok_lookup: "cache_ok tz known \<Longrightarrow> map_of known zid = Some r \<Longrightarrow> r = LoadLocation tz zid"
  by (auto simp: cache_ok_def list_all_iff dest: map_of_SomeD)

lemma cache_ok_put: "cache_ok tz known \<Longrightarrow> cache_ok tz (map_put zid (LoadLocation tz zid) known)"
  by (induction zid "LoadLocation tz zid" known rule: map_put.induct) (auto simp: cache_ok_def)

lemma Load_transparent:
  assumes "cache_ok tz known"
  shows "fst (timezone_Load tz known zid) = zone_of_id tz zid" and "cache_ok tz (snd (timezone_Load tz known zid))"
  using assms cache_ok_lookup [OF assms] cache_ok_put [OF assms]
  by (auto simp: timezone_Load_def zone_of_id_def Let_def split: option.split)

lemma ID_transparent:
  assumes "cache_ok tz known"
  shows "fst (timezone_ID tz known t) = id_of_time tz t" and "cache_ok tz (snd (timezone_ID tz known t))"
proof -
  obtain r k where r: "timezone_Load tz known (loc_String (t_loc t)) = (r, k)" by fastforce
  moreover obtain k' where "timezone_Load tz [] (loc_String (t_loc t)) = (r, k')"
    using Load_transparent(1) [OF assms, of "loc_String (t_loc t)"] r
    by (metis fst_conv prod.collapse zone_of_id_def)
  ultimately show "fst (timezone_ID tz known t) = id_of_time tz t"
    by (cases r) (simp_all add: timezone_ID_def id_of_time_def Let_def)
  show "cache_ok tz (snd (timezone_ID tz known t))"
    using r Load_transparent(2) [OF assms, of "loc_String (t_loc t)"]
    by (cases r) (simp_all add: timezone_ID_def Let_def)
qed

section \<open>Zones with a fixed offset\<close>

lemma lookup_fixed [simp]: "lookup_zone tz (FixedZone n off) s = (off, None, None)" "lookup_zone tz UTC s = (0, None, None)"
  by (simp_all add: lookup_zone_def)

lemma Zone_fixed [simp]: "Zone tz (GoTime u n (FixedZone m off)) = off" "Zone tz (GoTime u n UTC) = 0"
  by (simp_all add: Zone_def)

lemma Date_wall_fixed [simp]:
  "Date_wall tz w n (FixedZone m off) = GoTime (w - off) n (FixedZone m off)"
  "Date_wall tz w n UTC = GoTime w n UTC"
  by (simp_all add: Date_wall_def date_offset_def)

lemma sint_of_int64: "- (2 ^ 63) \<le> k \<Longrightarrow> k < 2 ^ 63 \<Longrightarrow> sint (word_of_int k :: int64) = k"
  by (simp add: signed_of_int signed_take_bit_int_eq_self)

lemma time_Unix_normal [simp]:
  "0 \<le> n \<Longrightarrow> n < 1000000000 \<Longrightarrow> time_Unix s (word_of_int n) = GoTime s n LocalZone"
  by (simp add: time_Unix_def sint_of_int64)

section \<open>A history of lookups\<close>

text \<open>The calls of Load and ID of all goroutines, in the order in which they reach the cache.\<close>

datatype tz_call = CallLoad string | CallID gotime

fun tz_history :: "tzdb \<Rightarrow> known \<Rightarrow> tz_call list \<Rightarrow> (location option + string option) list" where
  "tz_history tz known [] = []"
| "tz_history tz known (CallLoad zid # cs) =
     (case timezone_Load tz known zid of (r, known') \<Rightarrow> Inl r # tz_history tz known' cs)"
| "tz_history tz known (CallID t # cs) =
     (case timezone_ID tz known t of (r, known') \<Rightarrow> Inr r # tz_history tz known' cs)"

fun tz_uncached :: "tzdb \<Rightarrow> tz_call \<Rightarrow> location option + string option" where
  "tz_uncached tz (CallLoad zid) = Inl (if zid = [] \<or> zid = ''Local'' then None else LoadLocation tz zid)"
| "tz_uncached tz (CallID t) = Inr (let zid = loc_String (t_loc t) in
     if zid = [] \<or> zid = ''Local'' then None
     else case LoadLocation tz zid of
            None \<Rightarrow> None
          | Some zone \<Rightarrow> if Zone tz (In t zone) = Zone tz t then Some zid else None)"

lemma uncached_eq:
  "tz_uncached tz (CallLoad zid) = Inl (zone_of_id tz zid)" "tz_uncached tz (CallID t) = Inr (id_of_time tz t)"
  by (simp_all add: zone_of_id_def id_of_time_def timezone_ID_def timezone_Load_def Let_def split: option.split)

lemma tz_history_cache_ok: "cache_ok tz known \<Longrightarrow> tz_history tz known cs = map (tz_uncached tz) cs"
proof (induction cs arbitrary: known)
  case (Cons c cs)
  show ?case
  proof (cases c)
    case (CallLoad zid)
    then show ?thesis using Load_transparent [OF Cons.prems, of zid] Cons.IH
      by (simp add: uncached_eq case_prod_unfold del: tz_uncached.simps)
  next
    case (CallID t)
    then show ?thesis using ID_transparent [OF Cons.prems, of t] Cons.IH
      by (simp add: uncached_eq case_prod_unfold del: tz_uncached.simps)
  qed
qed simp

text \<open>
  C12: the cache of time zones is invisible. In every history of lookups, from the empty cache on, each call of Load
  and ID returns what it would return without a cache, failed lookups included, and the empty id and the id Local are
  refused every time.
\<close>

theorem timezone_cache_invisible: "tz_history tz [] cs = map (tz_uncached tz) cs"
  by (rule tz_history_cache_ok) (simp add: cache_ok_def)

end
