(* ===== verification/Hydrator.thy ===== *)
theory Hydrator
  imports Temporal Streams Unpacker
begin

text \<open>
  From the bytes of a message to values: src/neo4j/internal/bolt/hydrator.go and path.go. A method of the type
  hydrator is a function of the hydrator that returns its result with the hydrator it leaves; \<^const>\<open>None\<close> is a
  panic. The methods that build structured values are parameterised by the method \<open>value\<close>, which ties them
  together by recursion over the depth of nesting: its first argument bounds that depth, and \<open>hydrate\<close> gives it
  the length of the message, which no nesting reaches. The messages written to the Bolt log are not represented,
  nor is the reuse of one success struct for all messages.
\<close>

section \<open>The hydrator\<close>

record hydrator =
  hy_unp :: unpacker
  hy_err :: "goerr option"
  hy_major :: int
  hy_utc :: bool
  hy_uuid :: bool

type_synonym 'a hy = "hydrator \<Rightarrow> ('a \<times> hydrator) option"

definition hydrator_setErr :: "goerr \<Rightarrow> hydrator \<Rightarrow> hydrator" where
  "hydrator_setErr e h = (if hy_err h = None then h\<lparr>hy_err := Some e\<rparr> else h)"

definition getErr :: "hydrator \<Rightarrow> goerr option" where
  "getErr h = (case u_Err (hy_unp h) of Some e \<Rightarrow> Some (PackstreamErr e) | None \<Rightarrow> hy_err h)"

definition assertLength :: "string \<Rightarrow> uint32 \<Rightarrow> uint32 \<Rightarrow> hydrator \<Rightarrow> hydrator" where
  "assertLength structType expected actual h =
     (if expected \<noteq> actual
      then hydrator_setErr (ProtocolError structType [] ''Invalid length of struct'') h else h)"

text \<open>A method of the unpacker applied to the one the hydrator holds, and Next followed by such a method.\<close>

definition unp :: "(unpacker \<Rightarrow> ('a \<times> unpacker) option) \<Rightarrow> 'a hy" where
  "unp f h = do { (x, u) \<leftarrow> f (hy_unp h); Some (x, h\<lparr>hy_unp := u\<rparr>) }"

definition unp_Next :: "hydrator \<Rightarrow> hydrator option" where
  "unp_Next h = do { u \<leftarrow> Unpacker_Next (hy_unp h); Some (h\<lparr>hy_unp := u\<rparr>) }"

definition unp_Bool :: "bool hy" where
  "unp_Bool = unp (\<lambda>u. Some (Unpacker_Bool u))"

definition next_then :: "'a hy \<Rightarrow> 'a hy" where
  "next_then f h = do { h1 \<leftarrow> unp_Next h; f h1 }"

abbreviation next_Int :: "int64 hy" where "next_Int \<equiv> next_then (unp Unpacker_Int)"
abbreviation next_Float :: "64 word hy" where "next_Float \<equiv> next_then (unp Unpacker_Float)"
abbreviation next_String :: "string hy" where "next_String \<equiv> next_then (unp Unpacker_String)"

text \<open>The loop that calls \<open>f\<close> \<open>n\<close> times.\<close>

fun repeatedly :: "'a hy \<Rightarrow> nat \<Rightarrow> 'a list hy" where
  "repeatedly f 0 h = Some ([], h)"
| "repeatedly f (Suc n) h = do { (x, h1) \<leftarrow> f h; (xs, h2) \<leftarrow> repeatedly f n h1; Some (x # xs, h2) }"

definition hstrings :: "string list hy" where
  "hstrings h = do { (n, h1) \<leftarrow> unp Unpacker_Len h; repeatedly next_String (unat n) h1 }"

definition harray :: "goval hy \<Rightarrow> goval list hy" where
  "harray value h = do { (n, h1) \<leftarrow> unp Unpacker_Len h; repeatedly (next_then value) (unat n) h1 }"

text \<open>
  The loop over the \<open>n\<close> entries of a map: Next and String for the key, Next, and \<open>f\<close> for what the loop does with
  the value under this key.
\<close>

fun entries :: "(string \<Rightarrow> 'a \<Rightarrow> 'a hy) \<Rightarrow> nat \<Rightarrow> 'a \<Rightarrow> 'a hy" where
  "entries f 0 x h = Some (x, h)"
| "entries f (Suc n) x h =
     do { (key, h) \<leftarrow> next_String h;
          (x', h) \<leftarrow> next_then (f key x) h;
          entries f n x' h }"

definition amap_field :: "goval hy \<Rightarrow> string \<Rightarrow> gomap \<Rightarrow> gomap hy" where
  "amap_field value key m h = do { (v, h) \<leftarrow> value h; Some (map_put key v m, h) }"

definition amap :: "goval hy \<Rightarrow> gomap hy" where
  "amap value h = do { (n, h) \<leftarrow> unp Unpacker_Len h; entries (amap_field value) (unat n) [] h }"

section \<open>Graph values\<close>

text \<open>\<^verbatim>\<open>fmt.Sprintf("%d", i)\<close>\<close>

fun digits :: "nat \<Rightarrow> string" where
  "digits n = (if n < 10 then [char_of (48 + n)] else digits (n div 10) @ [char_of (48 + n mod 10)])"

definition Sprint :: "int64 \<Rightarrow> string" where
  "Sprint i = (if sint i < 0 then CHR ''-'' # digits (nat (- sint i)) else digits (nat (sint i)))"

text \<open>The early return of a method whose struct has the wrong length, or that runs after an error: nil.\<close>

definition checked :: "string \<Rightarrow> uint32 \<Rightarrow> uint32 \<Rightarrow> goval hy \<Rightarrow> goval hy" where
  "checked structType expected n body h =
     (let h1 = assertLength structType expected n h
      in if getErr h1 \<noteq> None then Some (VNil, h1) else body h1)"

definition hnode :: "goval hy \<Rightarrow> uint32 \<Rightarrow> goval hy" where
  "hnode value n = checked ''node'' 3 n (\<lambda>h.
     do { (i, h) \<leftarrow> next_Int h;
          (labels, h) \<leftarrow> next_then hstrings h;
          (props, h) \<leftarrow> next_then (amap value) h;
          Some (VNode (Node i (Sprint i) labels props), h) })"

definition nodeWithElementId :: "goval hy \<Rightarrow> uint32 \<Rightarrow> goval hy" where
  "nodeWithElementId value n = checked ''node'' 4 n (\<lambda>h.
     do { (i, h) \<leftarrow> next_Int h;
          (labels, h) \<leftarrow> next_then hstrings h;
          (props, h) \<leftarrow> next_then (amap value) h;
          (eid, h) \<leftarrow> next_String h;
          Some (VNode (Node i eid labels props), h) })"

definition hrelationship :: "goval hy \<Rightarrow> uint32 \<Rightarrow> goval hy" where
  "hrelationship value n = checked ''relationship'' 5 n (\<lambda>h.
     do { (i, h) \<leftarrow> next_Int h;
          (s, h) \<leftarrow> next_Int h;
          (e, h) \<leftarrow> next_Int h;
          (typ, h) \<leftarrow> next_String h;
          (props, h) \<leftarrow> next_then (amap value) h;
          Some (VRelationship (Relationship i (Sprint i) s (Sprint s) e (Sprint e) typ props), h) })"

definition relationshipWithElementId :: "goval hy \<Rightarrow> uint32 \<Rightarrow> goval hy" where
  "relationshipWithElementId value n = checked ''relationship'' 8 n (\<lambda>h.
     do { (i, h) \<leftarrow> next_Int h;
          (s, h) \<leftarrow> next_Int h;
          (e, h) \<leftarrow> next_Int h;
          (typ, h) \<leftarrow> next_String h;
          (props, h) \<leftarrow> next_then (amap value) h;
          (eid, h) \<leftarrow> next_String h;
          (sid, h) \<leftarrow> next_String h;
          (tid, h) \<leftarrow> next_String h;
          Some (VRelationship (Relationship i eid s sid e tid typ props), h) })"

definition relationnode :: "goval hy \<Rightarrow> uint32 \<Rightarrow> goval hy" where
  "relationnode value n = checked ''relationnode'' 3 n (\<lambda>h.
     do { (i, h) \<leftarrow> next_Int h;
          (name, h) \<leftarrow> next_String h;
          (props, h) \<leftarrow> next_then (amap value) h;
          Some (VRelNode (RelNode i (Sprint i) name props), h) })"

definition relationnodeWithElementId :: "goval hy \<Rightarrow> uint32 \<Rightarrow> goval hy" where
  "relationnodeWithElementId value n = checked ''relationnode'' 4 n (\<lambda>h.
     do { (i, h) \<leftarrow> next_Int h;
          (name, h) \<leftarrow> next_String h;
          (props, h) \<leftarrow> next_then (amap value) h;
          (eid, h) \<leftarrow> next_String h;
          Some (VRelNode (RelNode i eid name props), h) })"

subsection \<open>Paths\<close>

text \<open>Indexing a slice with an int: a negative index panics like one that is too large.\<close>

definition at_int :: "'a list \<Rightarrow> int \<Rightarrow> 'a option" where
  "at_int xs i = (if 0 \<le> i then at xs (nat i) else None)"

definition path_rel :: "goval node \<Rightarrow> goval node \<Rightarrow> goval relNode \<Rightarrow> bool \<Rightarrow> goval relationship" where
  "path_rel n1 n2 reln n1start =
     (if n1start
      then Relationship (rn_id reln) (rn_elementId reln) (node_Id n1) (node_ElementId n1) (node_Id n2) (node_ElementId n2)
             (rn_name reln) (rn_props reln)
      else Relationship (rn_id reln) (rn_elementId reln) (node_Id n2) (node_ElementId n2) (node_Id n1) (node_ElementId n1)
             (rn_name reln) (rn_props reln))"

text \<open>The loop over the pairs of indexes; \<open>n1\<close> is the node reached so far. Ints wrap at 64 bits.\<close>

fun path_loop :: "goval node list \<Rightarrow> goval relNode list \<Rightarrow> goval node \<Rightarrow> int64 list \<Rightarrow> goval relationship list option" where
  "path_loop nodes relNodes n1 (relni # n2i # is) =
     do { reln \<leftarrow> (if sint relni < 0 then at_int relNodes (sint (relni * -1 - 1)) else at_int relNodes (sint (relni - 1)));
          n2 \<leftarrow> at_int nodes (sint n2i);
          rels \<leftarrow> path_loop nodes relNodes n2 is;
          Some (path_rel n1 n2 reln (\<not> sint relni < 0) # rels) }"
| "path_loop nodes relNodes n1 _ = Some []"

definition buildPath :: "goval node list \<Rightarrow> goval relNode list \<Rightarrow> int64 list \<Rightarrow> (goval node list \<times> goval relationship list) option" where
  "buildPath nodes relNodes indexes =
     (if length indexes div 2 = 0 then Some (nodes, [])
      else
        do { n1 \<leftarrow> at nodes 0;
             rels \<leftarrow> path_loop nodes relNodes n1 indexes;
             Some (nodes, rels) })"

fun as_node :: "goval \<Rightarrow> goval node option" where
  "as_node (VNode n) = Some n"
| "as_node _ = None"

fun as_relNode :: "goval \<Rightarrow> goval relNode option" where
  "as_relNode (VRelNode r) = Some r"
| "as_relNode _ = None"

text \<open>The loops that read the nodes and the relationships stop at the first value of another type.\<close>

fun path_items :: "goval hy \<Rightarrow> (goval \<Rightarrow> 'a option) \<Rightarrow> nat \<Rightarrow> 'a list option hy" where
  "path_items value cast 0 h = Some (Some [], h)"
| "path_items value cast (Suc n) h =
     do { (v, h1) \<leftarrow> next_then value h;
          case cast v of
            None \<Rightarrow> Some (None, h1)
          | Some x \<Rightarrow>
              do { (r, h2) \<leftarrow> path_items value cast n h1;
                   Some (map_option (\<lambda>xs. x # xs) r, h2) } }"

definition hpath :: "goval hy \<Rightarrow> uint32 \<Rightarrow> goval hy" where
  "hpath value n = checked ''path'' 3 n (\<lambda>h.
     do { (num, h) \<leftarrow> next_then (unp Unpacker_Len) h;
          (ns, h) \<leftarrow> path_items value as_node (unat num) h;
          case ns of
            None \<Rightarrow> Some (VNil, hydrator_setErr (ProtocolError ''path'' ''nodes'' ''value could not be cast to Node'') h)
          | Some nodes \<Rightarrow>
              do { (num, h) \<leftarrow> next_then (unp Unpacker_Len) h;
                   (rs, h) \<leftarrow> path_items value as_relNode (unat num) h;
                   case rs of
                     None \<Rightarrow> Some (VNil, hydrator_setErr (ProtocolError ''path'' ''rnodes'' ''value could be not cast to *relNode'') h)
                   | Some rnodes \<Rightarrow>
                       do { (num, h) \<leftarrow> next_then (unp Unpacker_Len) h;
                            (indexes, h) \<leftarrow> repeatedly next_Int (unat num) h;
                            if odd (length indexes)
                            then Some (VNil, hydrator_setErr (ProtocolError ''path'' ''indices'' ''there should be an even number of indices'') h)
                            else do { (ns, rels) \<leftarrow> buildPath nodes rnodes indexes; Some (VPath ns rels, h) } } } })"

section \<open>Spatial and temporal values\<close>

definition point2d :: "uint32 \<Rightarrow> goval hy" where
  "point2d n h =
     do { (srid, h) \<leftarrow> next_Int h;
          (x, h) \<leftarrow> next_Float h;
          (y, h) \<leftarrow> next_Float h;
          Some (VPoint2D (ucast srid) x y, h) }"

definition point3d :: "uint32 \<Rightarrow> goval hy" where
  "point3d n h =
     do { (srid, h) \<leftarrow> next_Int h;
          (x, h) \<leftarrow> next_Float h;
          (y, h) \<leftarrow> next_Float h;
          (z, h) \<leftarrow> next_Float h;
          Some (VPoint3D (ucast srid) x y z, h) }"

definition dateTimeOffset :: "tzdb \<Rightarrow> uint32 \<Rightarrow> goval hy" where
  "dateTimeOffset tz n h =
     do { (seconds, h) \<leftarrow> next_Int h;
          (nanos, h) \<leftarrow> next_Int h;
          (offset, h) \<leftarrow> next_Int h;
          Some (VDateTime (copy_civil tz (In (time_Unix seconds nanos) UTC) (FixedZone ''Offset'' offset)), h) }"

definition utcDateTimeOffset :: "uint32 \<Rightarrow> goval hy" where
  "utcDateTimeOffset n h =
     do { (seconds, h) \<leftarrow> next_Int h;
          (nanos, h) \<leftarrow> next_Int h;
          (offset, h) \<leftarrow> next_Int h;
          Some (VDateTime (In (time_Unix seconds nanos) (FixedZone ''Offset'' offset)), h) }"

definition dateTimeNamedZone :: "tzdb \<Rightarrow> uint32 \<Rightarrow> goval hy" where
  "dateTimeNamedZone tz n h =
     do { (seconds, h) \<leftarrow> next_Int h;
          (nanos, h) \<leftarrow> next_Int h;
          (zone, h) \<leftarrow> next_String h;
          Some (case zone_of_id tz zone of
                  None \<Rightarrow> VInvalid ''dateTimeNamedZone''
                | Some l \<Rightarrow> VDateTime (copy_civil tz (In (time_Unix seconds nanos) UTC) l), h) }"

definition utcDateTimeNamedZone :: "tzdb \<Rightarrow> uint32 \<Rightarrow> goval hy" where
  "utcDateTimeNamedZone tz n h =
     do { (secs, h) \<leftarrow> next_Int h;
          (nans, h) \<leftarrow> next_Int h;
          (zone, h) \<leftarrow> next_String h;
          Some (case zone_of_id tz zone of
                  None \<Rightarrow> VInvalid ''utcDateTimeNamedZone''
                | Some l \<Rightarrow> VDateTime (In (time_Unix secs nans) l), h) }"

definition localDateTime :: "tzdb \<Rightarrow> uint32 \<Rightarrow> goval hy" where
  "localDateTime tz n h =
     do { (secs, h) \<leftarrow> next_Int h;
          (nans, h) \<leftarrow> next_Int h;
          Some (VLocalDateTime (copy_civil tz (In (time_Unix secs nans) UTC) LocalZone), h) }"

definition date :: "uint32 \<Rightarrow> goval hy" where
  "date n h =
     do { (days, h) \<leftarrow> next_Int h;
          Some (VDate (In (time_Unix (days * 86400) 0) UTC), h) }"

text \<open>Go's integer division truncates towards zero.\<close>

definition split_nanos :: "int64 \<Rightarrow> int64 \<times> int64" where
  "split_nanos nans =
     (let secs = word_of_int (sint nans sdiv 1000000000) in (secs, nans - secs * 1000000000))"

definition htime :: "tzdb \<Rightarrow> uint32 \<Rightarrow> goval hy" where
  "htime tz n h =
     do { (nans, h) \<leftarrow> next_Int h;
          (offs, h) \<leftarrow> next_Int h;
          case split_nanos nans of
            (secs, nans') \<Rightarrow> Some (VTime (Date_zero tz secs nans' (FixedZone ''Offset'' offs)), h) }"

definition localTime :: "tzdb \<Rightarrow> uint32 \<Rightarrow> goval hy" where
  "localTime tz n h =
     do { (nans, h) \<leftarrow> next_Int h;
          case split_nanos nans of
            (secs, nans') \<Rightarrow> Some (VLocalTime (Date_zero tz secs nans' LocalZone), h) }"

definition duration :: "uint32 \<Rightarrow> goval hy" where
  "duration n h =
     do { (mon, h) \<leftarrow> next_Int h;
          (day, h) \<leftarrow> next_Int h;
          (sec, h) \<leftarrow> next_Int h;
          (nan, h) \<leftarrow> next_Int h;
          Some (VDuration mon day sec nan, h) }"

section \<open>Vectors and unsupported types\<close>

text \<open>The loop over the slices \<^verbatim>\<open>values[i*k:(i+1)*k]\<close> of a byte array.\<close>

definition elems :: "nat \<Rightarrow> bytes \<Rightarrow> 'w::len word list" where
  "elems k values = map (\<lambda>i. word_of_nat (be_nat (take k (drop (i * k) values)))) [0..<length values div k]"

definition vector_elems :: "byte \<Rightarrow> bytes \<Rightarrow> string + goval" where
  "vector_elems typeMarker values =
     (if typeMarker = 0xc1 then
        if length values mod 8 \<noteq> 0 then Inl ''Vector values must be multiple of 8 bytes for float64''
        else Inr (VVectorF64 (elems 8 values))
      else if typeMarker = 0xc6 then
        if length values mod 4 \<noteq> 0 then Inl ''Vector values must be multiple of 4 bytes for float32''
        else Inr (VVectorF32 (elems 4 values))
      else if typeMarker = 0xc8 then Inr (VVectorI8 values)
      else if typeMarker = 0xc9 then
        if length values mod 2 \<noteq> 0 then Inl ''Vector values must be multiple of 2 bytes for int16''
        else Inr (VVectorI16 (elems 2 values))
      else if typeMarker = 0xca then
        if length values mod 4 \<noteq> 0 then Inl ''Vector values must be multiple of 4 bytes for int32''
        else Inr (VVectorI32 (elems 4 values))
      else if typeMarker = 0xcb then
        if length values mod 8 \<noteq> 0 then Inl ''Vector values must be multiple of 8 bytes for int64''
        else Inr (VVectorI64 (elems 8 values))
      else Inl ''Unknown vector type marker'')"

abbreviation vectorErr :: "string \<Rightarrow> hydrator \<Rightarrow> (goval \<times> hydrator) option" where
  "vectorErr msg h \<equiv> Some (VNil, hydrator_setErr (ProtocolError ''vector'' [] msg) h)"

definition vector :: "uint32 \<Rightarrow> goval hy" where
  "vector n = checked ''vector'' 2 n (\<lambda>h.
     do { h \<leftarrow> unp_Next h;
          if u_Curr (hy_unp h) \<noteq> PackedByteArray then vectorErr ''Expected byte array for vector type marker'' h
          else
            do { (typeMarker, h) \<leftarrow> unp Unpacker_ByteArray h;
                 if length typeMarker \<noteq> 1 then vectorErr ''Vector type marker must be exactly 1 byte'' h
                 else
                   do { h \<leftarrow> unp_Next h;
                        if u_Curr (hy_unp h) \<noteq> PackedByteArray then vectorErr ''Expected byte array for vector values'' h
                        else
                          do { (values, h) \<leftarrow> unp Unpacker_ByteArray h;
                               m \<leftarrow> at typeMarker 0;
                               case vector_elems m values of
                                 Inl msg \<Rightarrow> vectorErr msg h
                               | Inr v \<Rightarrow> Some (v, h) } } } })"

definition unsupportedType :: "goval hy \<Rightarrow> uint32 \<Rightarrow> goval hy" where
  "unsupportedType value n = checked ''unsupported'' 4 n (\<lambda>h.
     do { (name, h) \<leftarrow> next_String h;
          (major, h) \<leftarrow> next_Int h;
          (minor, h) \<leftarrow> next_Int h;
          (extra, h) \<leftarrow> next_then (amap value) h;
          Some (VUnsupported name major minor (lookup_as as_string extra ''message''), h) })"

definition unknownStructError :: "byte \<Rightarrow> goval hy" where
  "unknownStructError t h = Some (VNil, hydrator_setErr (ProtocolError [] [] ''Received unknown struct tag'') h)"

section \<open>Any value\<close>

definition struct_value :: "tzdb \<Rightarrow> goval hy \<Rightarrow> byte \<Rightarrow> uint32 \<Rightarrow> goval hy" where
  "struct_value tz value t n h =
     (if t = 0x4e then (if 5 \<le> hy_major h then nodeWithElementId value n h else hnode value n h)
      else if t = 0x52 then (if 5 \<le> hy_major h then relationshipWithElementId value n h else hrelationship value n h)
      else if t = 0x72 then (if 5 \<le> hy_major h then relationnodeWithElementId value n h else relationnode value n h)
      else if t = 0x50 then hpath value n h
      else if t = 0x58 then point2d n h
      else if t = 0x59 then point3d n h
      else if t = 0x56 then vector n h
      else if t = 0x46 then (if hy_utc h then unknownStructError t h else dateTimeOffset tz n h)
      else if t = 0x49 then (if \<not> hy_utc h then unknownStructError t h else utcDateTimeOffset n h)
      else if t = 0x66 then (if hy_utc h then unknownStructError t h else dateTimeNamedZone tz n h)
      else if t = 0x69 then (if \<not> hy_utc h then unknownStructError t h else utcDateTimeNamedZone tz n h)
      else if t = 0x64 then localDateTime tz n h
      else if t = 0x44 then date n h
      else if t = 0x54 then htime tz n h
      else if t = 0x74 then localTime tz n h
      else if t = 0x45 then duration n h
      else if t = 0x3f then unsupportedType value n h
      else unknownStructError t h)"

text \<open>One level of the method value over the method for the values nested inside.\<close>

definition value_step :: "tzdb \<Rightarrow> goval hy \<Rightarrow> goval hy" where
  "value_step tz value h =
     (case u_Curr (hy_unp h) of
        PackedInt \<Rightarrow> do { (i, h) \<leftarrow> unp Unpacker_Int h; Some (VInt i, h) }
      | PackedFloat \<Rightarrow> do { (f, h) \<leftarrow> unp Unpacker_Float h; Some (VFloat f, h) }
      | PackedStr \<Rightarrow> do { (s, h) \<leftarrow> unp Unpacker_String h; Some (VStr s, h) }
      | PackedStruct \<Rightarrow>
          do { (t, h) \<leftarrow> unp Unpacker_StructTag h;
               (n, h) \<leftarrow> unp Unpacker_Len h;
               struct_value tz value t n h }
      | PackedByteArray \<Rightarrow> do { (b, h) \<leftarrow> unp Unpacker_ByteArray h; Some (VBytes b, h) }
      | PackedUUID \<Rightarrow>
          if \<not> hy_uuid h
          then Some (VNil, hydrator_setErr (ProtocolError [] [] ''received UUID packstream type 0xE0 on Bolt protocol prior to 6.1'') h)
          else do { (b, h) \<leftarrow> unp Unpacker_UUID h; Some (VUUID b, h) }
      | PackedArray \<Rightarrow> do { (l, h) \<leftarrow> harray value h; Some (VList l, h) }
      | PackedMap \<Rightarrow> do { (m, h) \<leftarrow> amap value h; Some (VMap m, h) }
      | PackedNil \<Rightarrow> Some (VNil, h)
      | PackedTrue \<Rightarrow> Some (VBool True, h)
      | PackedFalse \<Rightarrow> Some (VBool False, h)
      | PackedUndef \<Rightarrow> Some (VNil, hydrator_setErr (ProtocolError [] [] ''Received unknown packstream value type'') h))"

fun hvalue :: "tzdb \<Rightarrow> nat \<Rightarrow> goval hy" where
  "hvalue tz 0 h = None"
| "hvalue tz (Suc d) h = value_step tz (hvalue tz d) h"

section \<open>Plans, profiles, notifications and statuses\<close>

datatype plan = Plan (Operator: string) (Arguments: "gomap option") (Identifiers: "string list") (Children: "plan list")

record profile_info =
  pr_Operator :: string
  pr_Arguments :: "gomap option"
  pr_Identifiers :: "string list"
  DbHits :: "int64 option"
  Rows :: "int64 option"
  Time :: "int64 option"
  PageCacheMisses :: "int64 option"
  PageCacheHits :: "int64 option"
  PageCacheHitRatio :: "64 word option"

datatype profile = Profile (pr_info: profile_info) (pr_Children: "profile list")

record inputPosition =
  Column :: int64
  Line :: int64
  Offset :: int64

record notification =
  n_Code :: string
  n_Title :: string
  n_Description :: string
  n_Position :: "inputPosition option"
  n_Severity :: string
  n_Category :: string

record gqlStatusObject =
  g_Code :: string
  g_Title :: string
  g_Description :: string
  g_GqlStatus :: string
  g_StatusDescription :: string
  g_Position :: "inputPosition option"
  g_Classification :: string
  g_Severity :: string
  g_DiagnosticRecord :: gomap
  g_IsNotification :: bool

fun as_float64 :: "goval \<Rightarrow> 64 word option" where
  "as_float64 (VFloat f) = Some f"
| "as_float64 _ = None"

text \<open>The comma-ok assertion whose ok is ignored: the zero value when the type differs.\<close>

definition or_zero :: "'a \<Rightarrow> 'a option \<Rightarrow> 'a" where
  "or_zero z x = (case x of None \<Rightarrow> z | Some y \<Rightarrow> y)"

definition parsePlanOpIdArgsChildren :: "gomap \<Rightarrow> string \<times> string list \<times> gomap option \<times> goval list" where
  "parsePlanOpIdArgsChildren planx =
     (or_zero [] (lookup_as as_string planx ''operatorType''),
      map (\<lambda>i. or_zero [] (as_string i)) (or_zero [] (lookup_as as_list planx ''identifiers'')),
      lookup_as as_map planx ''args'',
      or_zero [] (lookup_as as_list planx ''children''))"

text \<open>The maps among the children that are not empty, the ones the loops descend into.\<close>

definition child_maps :: "gomap \<Rightarrow> gomap list" where
  "child_maps planx =
     (case parsePlanOpIdArgsChildren planx of
        (_, _, _, childrenx) \<Rightarrow> filter (\<lambda>m. m \<noteq> []) (map (\<lambda>c. or_zero [] (as_map c)) childrenx))"

lemma size_map_entry: "(k, v) \<in> set m \<Longrightarrow> size v < size (VMap m)"
  by (induction m) auto

lemma size_list_elem: "v \<in> set l \<Longrightarrow> size v < size (VList l)"
  by (induction l) auto

lemma child_maps_size: "c \<in> set (child_maps planx) \<Longrightarrow> size (VMap c) < size (VMap planx)"
proof -
  assume "c \<in> set (child_maps planx)"
  then obtain x l where l: "lookup_as as_list planx ''children'' = Some l" and x: "x \<in> set l" and c: "as_map x = Some c"
    by (cases "lookup_as as_list planx ''children''")
      (auto simp: child_maps_def parsePlanOpIdArgsChildren_def or_zero_def split: option.splits)
  then have "size (VMap c) < size (VList l)" by (auto simp: as_map_Some dest: size_list_elem)
  also have "size (VList l) < size (VMap planx)"
    using l by (auto simp: lookup_as_Some as_list_Some dest!: map_of_SomeD size_map_entry)
  finally show ?thesis .
qed

function parsePlan :: "gomap \<Rightarrow> plan" where
  "parsePlan planx =
     (case parsePlanOpIdArgsChildren planx of
        (op, ids, args, _) \<Rightarrow> Plan op args ids (map parsePlan (child_maps planx)))"
  by pat_completeness auto
termination by (relation "measure (\<lambda>m. size (VMap m))") (auto dest: child_maps_size)

definition parse_profile_info :: "gomap \<Rightarrow> profile_info" where
  "parse_profile_info profilex =
     (case parsePlanOpIdArgsChildren profilex of
        (op, ids, args, _) \<Rightarrow>
          \<lparr>pr_Operator = op, pr_Arguments = args, pr_Identifiers = ids,
           DbHits = lookup_as as_int64 profilex ''dbHits'',
           Rows = lookup_as as_int64 profilex ''rows'',
           Time = lookup_as as_int64 profilex ''time'',
           PageCacheMisses = lookup_as as_int64 profilex ''pageCacheMisses'',
           PageCacheHits = lookup_as as_int64 profilex ''pageCacheHits'',
           PageCacheHitRatio = lookup_as as_float64 profilex ''pageCacheHitRatio''\<rparr>)"

function parseProfile :: "gomap \<Rightarrow> profile" where
  "parseProfile profilex = Profile (parse_profile_info profilex) (map parseProfile (child_maps profilex))"
  by pat_completeness auto
termination by (relation "measure (\<lambda>m. size (VMap m))") (auto dest: child_maps_size)

definition parseInputPosition :: "gomap \<Rightarrow> inputPosition" where
  "parseInputPosition m =
     \<lparr>Column = or_zero 0 (lookup_as as_int64 m ''column''),
      Line = or_zero 0 (lookup_as as_int64 m ''line''),
      Offset = or_zero 0 (lookup_as as_int64 m ''offset'')\<rparr>"

definition parseNotification :: "gomap \<Rightarrow> notification" where
  "parseNotification m =
     \<lparr>n_Code = or_zero [] (lookup_as as_string m ''code''),
      n_Title = or_zero [] (lookup_as as_string m ''title''),
      n_Description = or_zero [] (lookup_as as_string m ''description''),
      n_Position = map_option parseInputPosition (lookup_as as_map m ''position''),
      n_Severity = or_zero [] (lookup_as as_string m ''severity''),
      n_Category = or_zero [] (lookup_as as_string m ''category'')\<rparr>"

definition parseNotifications :: "goval list \<Rightarrow> notification list" where
  "parseNotifications notificationsx = map parseNotification (List.map_filter as_map notificationsx)"

definition parseGqlStatusObject :: "gomap \<Rightarrow> gqlStatusObject" where
  "parseGqlStatusObject m =
     (let dr = lookup_as as_map m ''diagnostic_record''; d = or_zero [] dr
      in \<lparr>g_Code = or_zero [] (lookup_as as_string m ''neo4j_code''),
          g_Title = or_zero [] (lookup_as as_string m ''title''),
          g_Description = or_zero [] (lookup_as as_string m ''description''),
          g_GqlStatus = or_zero [] (lookup_as as_string m ''gql_status''),
          g_StatusDescription = or_zero [] (lookup_as as_string m ''status_description''),
          g_Position = map_option parseInputPosition (lookup_as as_map d ''_position''),
          g_Classification = or_zero [] (lookup_as as_string d ''_classification''),
          g_Severity = or_zero [] (lookup_as as_string d ''_severity''),
          g_DiagnosticRecord = foldl (\<lambda>r (k, v). map_put k v r) NewDefaultDiagnosticRecord d,
          g_IsNotification = (lookup_as as_string m ''neo4j_code'' \<noteq> None)\<rparr>)"

definition parseGqlStatusObjects :: "goval list \<Rightarrow> gqlStatusObject list" where
  "parseGqlStatusObjects statuses = map parseGqlStatusObject (List.map_filter as_map statuses)"

section \<open>Messages\<close>

text \<open>A counter of the statistics is an int or, for the two keys that say whether there were updates, a bool.\<close>

datatype counter = CInt int64 | CBool bool

record success_msg = success +
  su_counters :: "(string \<times> counter) list"
  su_plan :: "plan option"
  su_profile :: "profile option"
  su_notifications :: "notification list option"
  su_statuses :: "gqlStatusObject list option"
  su_num :: uint32
  su_patches :: "string list"

definition empty_success :: success_msg where
  "empty_success =
     \<lparr>su_fields = [], su_tfirst = -1, su_qid = -1, su_bookmark = [], connectionId = [], su_server = [], su_db = [],
      hasMore = False, su_tlast = -1, su_qtype = 0, routingTable = None, configurationHints = [],
      su_counters = [], su_plan = None, su_profile = None, su_notifications = None, su_statuses = None, su_num = 0,
      su_patches = []\<rparr>"

definition parseStatValue :: "string \<Rightarrow> counter hy" where
  "parseStatValue key h =
     (if key = ''contains-system-updates'' \<or> key = ''contains-updates''
      then do { (b, h) \<leftarrow> unp_Bool h; Some (CBool b, h) }
      else do { (i, h) \<leftarrow> unp Unpacker_Int h; Some (CInt i, h) })"

definition stats_field :: "string \<Rightarrow> (string \<times> counter) list \<Rightarrow> (string \<times> counter) list hy" where
  "stats_field key counts h = do { (val, h) \<leftarrow> parseStatValue key h; Some (map_put key val counts, h) }"

definition successStats :: "(string \<times> counter) list hy" where
  "successStats h = do { (n, h) \<leftarrow> unp Unpacker_Len h; entries stats_field (unat n) [] h }"

subsection \<open>Routing tables\<close>

definition role_field :: "goval hy \<Rightarrow> string \<Rightarrow> string \<times> string list \<Rightarrow> (string \<times> string list) hy" where
  "role_field value key ra h =
     (if key = ''role'' then do { (r, h) \<leftarrow> unp Unpacker_String h; Some ((r, snd ra), h) }
      else if key = ''addresses'' then do { (a, h) \<leftarrow> hstrings h; Some ((fst ra, a), h) }
      else do { (_, h) \<leftarrow> value h; Some (ra, h) })"

definition set_role :: "string \<Rightarrow> string list \<Rightarrow> routing_table \<Rightarrow> routing_table" where
  "set_role role addresses rt =
     (if role = ''READ'' then rt\<lparr>Readers := addresses\<rparr>
      else if role = ''WRITE'' then rt\<lparr>Writers := addresses\<rparr>
      else if role = ''ROUTE'' then rt\<lparr>Routers := addresses\<rparr>
      else rt)"

definition routingTableRole :: "goval hy \<Rightarrow> routing_table \<Rightarrow> routing_table hy" where
  "routingTableRole value rt h =
     do { (nkeys, h) \<leftarrow> next_then (unp Unpacker_Len) h;
          (ra, h) \<leftarrow> entries (role_field value) (unat nkeys) ([], []) h;
          Some (set_role (fst ra) (snd ra) rt, h) }"

fun servers_loop :: "goval hy \<Rightarrow> nat \<Rightarrow> routing_table \<Rightarrow> routing_table hy" where
  "servers_loop value 0 rt h = Some (rt, h)"
| "servers_loop value (Suc n) rt h = do { (rt', h) \<leftarrow> routingTableRole value rt h; servers_loop value n rt' h }"

definition rt_field :: "goval hy \<Rightarrow> string \<Rightarrow> routing_table \<Rightarrow> routing_table hy" where
  "rt_field value key rt h =
     (if key = ''ttl'' then do { (i, h) \<leftarrow> unp Unpacker_Int h; Some (rt\<lparr>TimeToLive := sint i\<rparr>, h) }
      else if key = ''servers'' then
        do { (nservers, h) \<leftarrow> unp Unpacker_Len h; servers_loop value (unat nservers) rt h }
      else if key = ''db'' then do { (s, h) \<leftarrow> unp Unpacker_String h; Some (rt\<lparr>DatabaseName := s\<rparr>, h) }
      else do { (_, h) \<leftarrow> value h; Some (rt, h) })"

definition hroutingTable :: "goval hy \<Rightarrow> routing_table hy" where
  "hroutingTable value h =
     do { (nkeys, h) \<leftarrow> unp Unpacker_Len h;
          entries (rt_field value) (unat nkeys) \<lparr>TimeToLive = 0, DatabaseName = [], Routers = [], Readers = [], Writers = []\<rparr> h }"

subsection \<open>Failures\<close>

definition empty_core :: neo4j_core where
  "empty_core =
     \<lparr>Code = [], Msg = [], GqlStatus = [], GqlStatusDescription = [], GqlClassification = UnknownError,
      GqlRawClassification = [], GqlDiagnosticRecord = None, parsed = False, classification = [], category = [],
      title = [], retriable = False\<rparr>"

text \<open>The entries of the map; \<open>nested\<close> reads the cause, which is another failure.\<close>

definition failure_field :: "goval hy \<Rightarrow> neo4j_error option hy \<Rightarrow> string \<Rightarrow> neo4j_error \<Rightarrow> neo4j_error hy" where
  "failure_field value nested key e h =
     (if key = ''gql_status'' then do { (s, h) \<leftarrow> unp Unpacker_String h; Some (upd_core (\<lambda>c. c\<lparr>GqlStatus := s\<rparr>) e, h) }
      else if key = ''description'' then
        do { (s, h) \<leftarrow> unp Unpacker_String h; Some (upd_core (\<lambda>c. c\<lparr>GqlStatusDescription := s\<rparr>) e, h) }
      else if key = ''neo4j_code'' \<or> key = ''code'' then
        do { (s, h) \<leftarrow> unp Unpacker_String h; Some (upd_core (\<lambda>c. c\<lparr>Code := s\<rparr>) e, h) }
      else if key = ''message'' then do { (s, h) \<leftarrow> unp Unpacker_String h; Some (upd_core (\<lambda>c. c\<lparr>Msg := s\<rparr>) e, h) }
      else if key = ''diagnostic_record'' then
        do { (m, h) \<leftarrow> amap value h; Some (upd_core (\<lambda>c. c\<lparr>GqlDiagnosticRecord := Some m\<rparr>) e, h) }
      else if key = ''cause'' then do { (c, h) \<leftarrow> nested h; Some (Neo4jError (core e) c, h) }
      else do { (_, h) \<leftarrow> value h; Some (e, h) })"

definition failure_body :: "goval hy \<Rightarrow> neo4j_error option hy \<Rightarrow> uint32 \<Rightarrow> bool \<Rightarrow> neo4j_error option hy" where
  "failure_body value nested n isNestedError h =
     (let h = assertLength ''failure'' 1 n h
      in if getErr h \<noteq> None then Some (None, h)
         else
           do { h \<leftarrow> (if isNestedError then Some h else unp_Next h);
                (maplen, h) \<leftarrow> unp Unpacker_Len h;
                (e, h) \<leftarrow> entries (failure_field value nested) (unat maplen) (Neo4jError empty_core None) h;
                Some (Some (upd_core PolyfillGqlError e), h) })"

fun nested_failure :: "tzdb \<Rightarrow> nat \<Rightarrow> neo4j_error option hy" where
  "nested_failure tz 0 h = None"
| "nested_failure tz (Suc d) h = failure_body (hvalue tz d) (nested_failure tz d) 1 True h"

definition failure :: "tzdb \<Rightarrow> nat \<Rightarrow> uint32 \<Rightarrow> neo4j_error option hy" where
  "failure tz d n h = failure_body (hvalue tz d) (nested_failure tz d) n False h"

subsection \<open>Successes\<close>

definition query_type :: "string \<Rightarrow> int option" where
  "query_type t =
     (if t = ''r'' then Some 1 else if t = ''w'' then Some 3 else if t = ''rw'' then Some 2
      else if t = ''s'' then Some 4 else None)"

definition success_field :: "goval hy \<Rightarrow> string \<Rightarrow> success_msg \<Rightarrow> success_msg hy" where
  "success_field value key succ h =
     (if key = ''fields'' then do { (x, h) \<leftarrow> hstrings h; Some (succ\<lparr>su_fields := x\<rparr>, h) }
      else if key = ''t_first'' then do { (i, h) \<leftarrow> unp Unpacker_Int h; Some (succ\<lparr>su_tfirst := sint i\<rparr>, h) }
      else if key = ''qid'' then do { (i, h) \<leftarrow> unp Unpacker_Int h; Some (succ\<lparr>su_qid := sint i\<rparr>, h) }
      else if key = ''bookmark'' then do { (s, h) \<leftarrow> unp Unpacker_String h; Some (succ\<lparr>su_bookmark := s\<rparr>, h) }
      else if key = ''connection_id'' then do { (s, h) \<leftarrow> unp Unpacker_String h; Some (succ\<lparr>connectionId := s\<rparr>, h) }
      else if key = ''server'' then do { (s, h) \<leftarrow> unp Unpacker_String h; Some (succ\<lparr>su_server := s\<rparr>, h) }
      else if key = ''has_more'' then do { (b, h) \<leftarrow> unp_Bool h; Some (succ\<lparr>hasMore := b\<rparr>, h) }
      else if key = ''t_last'' then do { (i, h) \<leftarrow> unp Unpacker_Int h; Some (succ\<lparr>su_tlast := sint i\<rparr>, h) }
      else if key = ''type'' then
        do { (t, h) \<leftarrow> unp Unpacker_String h;
             Some (case query_type t of
                     Some q \<Rightarrow> (succ\<lparr>su_qtype := q\<rparr>, h)
                   | None \<Rightarrow> (succ, hydrator_setErr (ProtocolError ''success'' ''type'' ''unrecognized success query type'') h)) }
      else if key = ''db'' then do { (s, h) \<leftarrow> unp Unpacker_String h; Some (succ\<lparr>su_db := s\<rparr>, h) }
      else if key = ''stats'' then do { (c, h) \<leftarrow> successStats h; Some (succ\<lparr>su_counters := c\<rparr>, h) }
      else if key = ''plan'' then do { (m, h) \<leftarrow> amap value h; Some (succ\<lparr>su_plan := Some (parsePlan m)\<rparr>, h) }
      else if key = ''profile'' then do { (m, h) \<leftarrow> amap value h; Some (succ\<lparr>su_profile := Some (parseProfile m)\<rparr>, h) }
      else if key = ''notifications'' then do { (l, h) \<leftarrow> harray value h; Some (succ\<lparr>su_notifications := Some (parseNotifications l)\<rparr>, h) }
      else if key = ''statuses'' then do { (l, h) \<leftarrow> harray value h; Some (succ\<lparr>su_statuses := Some (parseGqlStatusObjects l)\<rparr>, h) }
      else if key = ''rt'' then do { (rt, h) \<leftarrow> hroutingTable value h; Some (succ\<lparr>routingTable := Some rt\<rparr>, h) }
      else if key = ''hints'' then do { (m, h) \<leftarrow> amap value h; Some (succ\<lparr>configurationHints := m\<rparr>, h) }
      else if key = ''patch_bolt'' then do { (x, h) \<leftarrow> hstrings h; Some (succ\<lparr>su_patches := x\<rparr>, h) }
      else do { (_, h) \<leftarrow> value h; Some (succ, h) })"

definition hsuccess :: "goval hy \<Rightarrow> uint32 \<Rightarrow> success_msg option hy" where
  "hsuccess value n h =
     (let h = assertLength ''success'' 1 n h
      in if getErr h \<noteq> None then Some (None, h)
         else
           do { (n, h) \<leftarrow> next_then (unp Unpacker_Len) h;
                (succ, h) \<leftarrow> entries (success_field value) (unat n) (empty_success\<lparr>su_num := n\<rparr>) h;
                Some (Some succ, h) })"

text \<open>The type assertions \<^verbatim>\<open>v.(int)\<close> and \<^verbatim>\<open>v.(*bool)\<close> panic on another type.\<close>

fun counter_int :: "counter \<Rightarrow> int64 option" where
  "counter_int (CInt i) = Some i"
| "counter_int (CBool _) = None"

fun counter_bool :: "counter \<Rightarrow> bool option" where
  "counter_bool (CBool b) = Some b"
| "counter_bool (CInt _) = None"

fun extractIntCounters :: "(string \<times> counter) list \<Rightarrow> (string \<times> int64) list option" where
  "extractIntCounters [] = Some []"
| "extractIntCounters ((k, v) # cs) =
     (if k \<noteq> ''contains-system-updates'' \<and> k \<noteq> ''contains-updates''
      then do { i \<leftarrow> counter_int v; r \<leftarrow> extractIntCounters cs; Some ((k, i) # r) }
      else extractIntCounters cs)"

definition extractBoolPointer :: "(string \<times> counter) list \<Rightarrow> string \<Rightarrow> bool option option" where
  "extractBoolPointer counters key =
     (case map_of counters key of None \<Rightarrow> Some None | Some c \<Rightarrow> map_option Some (counter_bool c))"

record msg_summary =
  ms_Bookmark :: string
  ms_QueryType :: int
  ms_Counters :: "(string \<times> int64) list"
  ms_TLast :: int
  ms_Plan :: "plan option"
  ms_Profile :: "profile option"
  ms_Notifications :: "notification list option"
  ms_GqlStatusObjects :: "gqlStatusObject list option"
  ms_Database :: string
  ms_ContainsSystemUpdates :: "bool option"
  ms_ContainsUpdates :: "bool option"

definition success_summary :: "success_msg \<Rightarrow> msg_summary option" where
  "success_summary s =
     do { counters \<leftarrow> extractIntCounters (su_counters s);
          csu \<leftarrow> extractBoolPointer (su_counters s) ''contains-system-updates'';
          cu \<leftarrow> extractBoolPointer (su_counters s) ''contains-updates'';
          Some \<lparr>ms_Bookmark = su_bookmark s, ms_QueryType = su_qtype s, ms_Counters = counters, ms_TLast = su_tlast s,
            ms_Plan = su_plan s, ms_Profile = su_profile s, ms_Notifications = su_notifications s,
            ms_GqlStatusObjects = su_statuses s, ms_Database = su_db s,
            ms_ContainsSystemUpdates = csu, ms_ContainsUpdates = cu\<rparr> }"

subsection \<open>Records, ignored messages and the top level\<close>

definition hrecord :: "goval hy \<Rightarrow> uint32 \<Rightarrow> goval list option hy" where
  "hrecord value n h =
     (let h = assertLength ''record'' 1 n h
      in if getErr h \<noteq> None then Some (None, h)
         else
           do { (n, h) \<leftarrow> next_then (unp Unpacker_Len) h;
                (vs, h) \<leftarrow> repeatedly (next_then value) (unat n) h;
                Some (Some vs, h) })"

definition hignored :: "uint32 \<Rightarrow> hydrator \<Rightarrow> bool \<times> hydrator" where
  "hignored n h = (let h = assertLength ''ignored'' 0 n h in (getErr h = None, h))"

datatype hmessage = HMSuccess success_msg | HMIgnored | HMFailure neo4j_error | HMRecord "goval list"

definition hydrate_tag :: "tzdb \<Rightarrow> nat \<Rightarrow> byte \<Rightarrow> uint32 \<Rightarrow> hydrator \<Rightarrow> ((hmessage option \<times> goerr option) \<times> hydrator) option" where
  "hydrate_tag tz d t n h =
     (if t = 0x70 then do { (x, h) \<leftarrow> hsuccess (hvalue tz d) n h; Some ((map_option HMSuccess x, getErr h), h) }
      else if t = 0x7e then
        (case hignored n h of (ok, h) \<Rightarrow> Some ((if ok then Some HMIgnored else None, getErr h), h))
      else if t = 0x7f then do { (x, h) \<leftarrow> failure tz d n h; Some ((map_option HMFailure x, getErr h), h) }
      else if t = 0x71 then do { (x, h) \<leftarrow> hrecord (hvalue tz d) n h; Some ((map_option HMRecord x, getErr h), h) }
      else Some ((None, Some (PlainError ''unexpected tag at top level'')), h))"

definition hydrate :: "tzdb \<Rightarrow> bytes \<Rightarrow> hydrator \<Rightarrow> ((hmessage option \<times> goerr option) \<times> hydrator) option" where
  "hydrate tz buf h =
     do { h \<leftarrow> unp_Next (h\<lparr>hy_unp := Unpacker_Reset (hy_unp h) buf\<rparr>);
          if u_Curr (hy_unp h) \<noteq> PackedStruct then Some ((None, Some (PlainError ''expected struct'')), h)
          else
            do { (n, h) \<leftarrow> unp Unpacker_Len h;
                 (t, h) \<leftarrow> unp Unpacker_StructTag h;
                 hydrate_tag tz (length buf + 2) t n h } }"

end
