(* ===== verification/HydratorProps.thy ===== *)
theory HydratorProps
  imports Hydrator Packstream
begin

text \<open>
  Properties of the hydrator: it returns on every input (the recursion is bounded by the length of the message and
  nothing but the indexes of a path can panic), an error once recorded is final, and paths are assembled from the
  indexes the server sends.
\<close>

section \<open>Every method returns\<close>

text \<open>
  What a method keeps: the unpacker only advances, the settings stay and a recorded error stays.
\<close>

definition hprog :: "hydrator \<Rightarrow> hydrator \<Rightarrow> bool" where
  "hprog h h' \<longleftrightarrow> progress (hy_unp h) (hy_unp h') \<and> hy_major h' = hy_major h \<and> hy_utc h' = hy_utc h \<and>
     hy_uuid h' = hy_uuid h \<and> (hy_err h \<noteq> None \<longrightarrow> hy_err h' = hy_err h)"

definition wf_hy :: "hydrator \<Rightarrow> bool" where
  "wf_hy h \<longleftrightarrow> wf_unpacker (hy_unp h)"

definition left :: "hydrator \<Rightarrow> nat" where
  "left h = length (rest (hy_unp h))"

text \<open>
  The one way to panic: the tag byte of a path occurs in the buffer, and from some place of the buffer nodes,
  relationships and an even number of indexes can be read that buildPath cannot put together.
\<close>

definition path_read :: "goval hy \<Rightarrow> hydrator \<Rightarrow> goval node list \<Rightarrow> goval relNode list \<Rightarrow> int64 list \<Rightarrow> bool" where
  "path_read value g nodes rnodes indexes \<longleftrightarrow>
     (\<exists>n1 g1 g2 n2 g3 g4 n3 g5 g6.
        next_then (unp Unpacker_Len) g = Some (n1, g1) \<and> path_items value as_node (unat n1) g1 = Some (Some nodes, g2) \<and>
        next_then (unp Unpacker_Len) g2 = Some (n2, g3) \<and> path_items value as_relNode (unat n2) g3 = Some (Some rnodes, g4) \<and>
        next_then (unp Unpacker_Len) g4 = Some (n3, g5) \<and> repeatedly next_Int (unat n3) g5 = Some (indexes, g6))"

definition path_trouble :: "tzdb \<Rightarrow> bytes \<Rightarrow> bool" where
  "path_trouble tz buf \<longleftrightarrow>
     (\<exists>d g nodes rnodes indexes. u_buf (hy_unp g) = buf \<and> 0x50 \<in> set buf \<and> path_read (hvalue tz d) g nodes rnodes indexes \<and>
        even (length indexes) \<and> buildPath nodes rnodes indexes = None)"

text \<open>
  \<open>safe L f\<close>: with at most \<open>L\<close> unread bytes \<open>f\<close> returns. \<open>post tz L f\<close>: \<open>f\<close> returns right after a call of Next on
  at most \<open>L\<close> unread bytes, which took one of them off or found none and announced the integer 0.
\<close>

definition returns :: "tzdb \<Rightarrow> 'a hy \<Rightarrow> hydrator \<Rightarrow> bool" where
  "returns tz f h \<longleftrightarrow> (\<exists>x h'. f h = Some (x, h') \<and> hprog h h') \<or> f h = None \<and> path_trouble tz (u_buf (hy_unp h))"

definition safe :: "tzdb \<Rightarrow> nat \<Rightarrow> 'a hy \<Rightarrow> bool" where
  "safe tz L f \<longleftrightarrow> (\<forall>h. wf_hy h \<longrightarrow> left h \<le> L \<longrightarrow> returns tz f h)"

definition exhausted :: "hydrator \<Rightarrow> bool" where
  "exhausted h \<longleftrightarrow> left h = 0 \<and> u_mrk (hy_unp h) = markers 0 \<and> u_Curr (hy_unp h) = PackedInt"

definition post :: "tzdb \<Rightarrow> nat \<Rightarrow> 'a hy \<Rightarrow> bool" where
  "post tz L f \<longleftrightarrow> (\<forall>h. wf_hy h \<longrightarrow> left h < L \<or> exhausted h \<longrightarrow> returns tz f h)"

named_theorems safe_intros

lemma hprog_refl [simp]: "wf_hy h \<Longrightarrow> hprog h h"
  by (simp add: hprog_def wf_hy_def)

lemma hprog_trans: "hprog h h1 \<Longrightarrow> hprog h1 h2 \<Longrightarrow> hprog h h2"
  by (auto simp: hprog_def intro: progress_trans)

lemma progress_left: "progress u u' \<Longrightarrow> length (rest u') \<le> length (rest u)"
  by (auto simp: progress_def rest_def)

lemma hprog_wf: "wf_hy h \<Longrightarrow> hprog h h' \<Longrightarrow> wf_hy h'"
  by (auto simp: hprog_def wf_hy_def progress_def)

lemma hprog_left: "hprog h h' \<Longrightarrow> left h' \<le> left h"
  by (auto simp: hprog_def left_def dest: progress_left)

lemma hprog_buf: "hprog h h' \<Longrightarrow> u_buf (hy_unp h') = u_buf (hy_unp h)"
  by (simp add: hprog_def progress_def)

lemma safe_post: "safe tz L f \<Longrightarrow> post tz L f"
  by (auto simp: safe_def post_def exhausted_def)

lemma safe_mono: "safe tz L f \<Longrightarrow> L' \<le> L \<Longrightarrow> safe tz L' f"
  by (auto simp: safe_def)

lemma returns_bind:
  assumes "returns tz f h" and "wf_hy h"
    and "\<And>x h'. f h = Some (x, h') \<Longrightarrow> hprog h h' \<Longrightarrow> wf_hy h' \<Longrightarrow> left h' \<le> left h \<Longrightarrow> returns tz (g x) h'"
  shows "returns tz (\<lambda>h. f h \<bind> (\<lambda>(x, h). g x h)) h"
proof (cases "f h")
  case None
  then show ?thesis using assms(1) by (auto simp: returns_def)
next
  case (Some y)
  then obtain x h1 where 1: "f h = Some (x, h1)" "hprog h h1" using assms(1) by (auto simp: returns_def)
  have "returns tz (g x) h1"
    using 1 assms by (intro assms(3)) (auto intro: hprog_wf hprog_left)
  then show ?thesis using 1 hprog_buf [OF 1(2)] by (auto simp: returns_def intro: hprog_trans)
qed

lemma returns_cong: "f h = g h \<Longrightarrow> returns tz f h = returns tz g h"
  by (simp add: returns_def)

text \<open>A step that surely returns, before one that does.\<close>

lemma returns_after:
  assumes "f h = Some (x, h1)" "hprog h h1" "returns tz (g x) h1"
  shows "returns tz (\<lambda>h. f h \<bind> (\<lambda>(x, h). g x h)) h"
  using assms hprog_buf [OF assms(2)] by (auto simp: returns_def intro: hprog_trans)

lemma safe_bind [safe_intros]:
  "safe tz L f \<Longrightarrow> (\<And>x. safe tz L (g x)) \<Longrightarrow> safe tz L (\<lambda>h. f h \<bind> (\<lambda>(x, h). g x h))"
  unfolding safe_def by (intro allI impI returns_bind) (auto intro: order_trans)

lemma post_bind:
  assumes "post tz L f" and "\<And>x. safe tz L (g x)"
  shows "post tz L (\<lambda>h. f h \<bind> (\<lambda>(x, h). g x h))"
  unfolding post_def
proof (intro allI impI)
  fix h assume "wf_hy h" and h: "left h < L \<or> exhausted h"
  moreover from h have "left h \<le> L" by (auto simp: exhausted_def)
  ultimately show "returns tz (\<lambda>h. f h \<bind> (\<lambda>(x, h). g x h)) h"
    using assms by (intro returns_bind) (auto simp: post_def safe_def)
qed

lemma safe_return [safe_intros]: "safe tz L (\<lambda>h. Some (f h, h))"
  by (auto simp: safe_def returns_def)

lemma hprog_setErr: "wf_hy h \<Longrightarrow> hprog h (hydrator_setErr e h)"
  by (auto simp: hprog_def wf_hy_def hydrator_setErr_def)

lemma safe_setErr [safe_intros]: "safe tz L (\<lambda>h. Some (x, hydrator_setErr e h))"
  by (auto simp: safe_def returns_def intro: hprog_setErr)

lemma safe_if [safe_intros]: "safe tz L f \<Longrightarrow> safe tz L g \<Longrightarrow> safe tz L (\<lambda>h. if P h then f h else g h)"
  by (auto simp: safe_def returns_def)

lemma safe_unp:
  assumes "\<And>u. wf_unpacker u \<Longrightarrow> \<exists>x u'. f u = Some (x, u') \<and> progress u u'"
  shows "safe tz L (unp f)"
  unfolding safe_def
proof (intro allI impI)
  fix h :: hydrator assume "wf_hy h"
  then obtain x u' where "f (hy_unp h) = Some (x, u')" "progress (hy_unp h) u'"
    using assms [of "hy_unp h"] by (auto simp: wf_hy_def)
  then show "returns tz (unp f) h" by (auto simp: returns_def unp_def hprog_def)
qed

lemma safe_methods [safe_intros]:
  "safe tz L (unp Unpacker_Int)" "safe tz L (unp Unpacker_Float)" "safe tz L (unp Unpacker_String)"
  "safe tz L (unp Unpacker_ByteArray)" "safe tz L (unp Unpacker_UUID)" "safe tz L (unp Unpacker_Len)"
  by (blast intro!: safe_unp Int_safe Float_safe String_safe ByteArray_safe UUID_safe Len_safe)+

lemma safe_Bool [safe_intros]: "safe tz L unp_Bool"
  unfolding unp_Bool_def using Bool_safe by (intro safe_unp) fastforce

lemma Next_cases:
  assumes "wf_hy h" and "left h \<le> L"
  obtains h' where "unp_Next h = Some h'" and "hprog h h'" and "left h' < L \<or> exhausted h'"
proof (cases "rest (hy_unp h)")
  case Nil
  then have "Unpacker_Next (hy_unp h) =
      Some ((Unpacker_setErr (hy_unp h) IoError)\<lparr>u_mrk := markers 0, u_Curr := m_typ (markers 0)\<rparr>)"
    using assms(1) by (simp add: Unpacker_Next_def pop_empty wf_hy_def)
  moreover have "m_typ (markers 0) = PackedInt" by (simp add: markers_def)
  ultimately show ?thesis
    using Nil assms(1)
    by (intro that [of "h\<lparr>hy_unp := (Unpacker_setErr (hy_unp h) IoError)\<lparr>u_mrk := markers 0, u_Curr := PackedInt\<rparr>\<rparr>"])
      (auto simp: unp_Next_def hprog_def wf_hy_def exhausted_def left_def intro: progress_setErr)
next
  case (Cons b r)
  have wf: "wf_unpacker (hy_unp h)" using assms(1) by (simp add: wf_hy_def)
  obtain u1 where u1: "Unpacker_Next (hy_unp h) = Some u1" "got (hy_unp h) r u1"
    using Next_got [OF wf Cons] .
  moreover obtain u' where "Unpacker_Next (hy_unp h) = Some u'" "progress (hy_unp h) u'"
    using Next_safe [OF wf] by blast
  ultimately show ?thesis
    using assms(2) Cons
    by (intro that [of "h\<lparr>hy_unp := u1\<rparr>"]) (auto simp: unp_Next_def hprog_def left_def got_def)
qed

lemma safe_next: "post tz L f \<Longrightarrow> safe tz L (next_then f)"
  unfolding safe_def
proof (intro allI impI)
  fix h assume f: "post tz L f" and h: "wf_hy h" "left h \<le> L"
  obtain h1 where 1: "unp_Next h = Some h1" "hprog h h1" "left h1 < L \<or> exhausted h1"
    using h by (rule Next_cases)
  moreover have "wf_hy h1" using h(1) 1(2) by (rule hprog_wf)
  ultimately have "returns tz f h1" using f by (auto simp: post_def)
  with 1 hprog_buf [OF 1(2)] show "returns tz (next_then f) h" by (auto simp: returns_def next_then_def intro: hprog_trans)
qed

lemmas safe_next_method [safe_intros] = safe_methods [THEN safe_post, THEN safe_next]

lemma safe_repeatedly [safe_intros]: "safe tz L f \<Longrightarrow> safe tz L (repeatedly f n)"
proof (induction n)
  case 0
  have "repeatedly f 0 = (\<lambda>h. Some ([], h))" by (simp add: fun_eq_iff)
  then show ?case by (simp add: safe_return)
next
  case (Suc n)
  have "repeatedly f (Suc n) = (\<lambda>h. f h \<bind> (\<lambda>(x, h). repeatedly f n h \<bind> (\<lambda>(xs, h). Some (x # xs, h))))"
    by (simp add: fun_eq_iff)
  with Suc show ?case by (simp only:) (intro safe_intros; simp)
qed

lemma safe_entries [safe_intros]: "(\<And>k x. post tz L (f k x)) \<Longrightarrow> safe tz L (entries f n x)"
proof (induction n arbitrary: x)
  case 0
  have "entries f 0 x = (\<lambda>h. Some (x, h))" by (simp add: fun_eq_iff)
  then show ?case by (simp add: safe_return)
next
  case (Suc n)
  have "entries f (Suc n) x =
      (\<lambda>h. next_String h \<bind> (\<lambda>(k, h). next_then (f k x) h \<bind> (\<lambda>(x', h). entries f n x' h)))"
    by (simp add: fun_eq_iff)
  with Suc show ?case by (simp only:) (intro safe_intros safe_next; simp)
qed

lemma safe_next_safe: "safe tz L f \<Longrightarrow> safe tz L (next_then f)"
  by (rule safe_next [OF safe_post])

text \<open>The early return of a method that finds an error.\<close>

lemma returns_guard:
  assumes "wf_hy h" "returns tz body (assertLength s e n h)"
  shows "returns tz (\<lambda>h. if getErr (assertLength s e n h) \<noteq> None then Some (x, assertLength s e n h)
    else body (assertLength s e n h)) h"
proof -
  have p: "hprog h (assertLength s e n h)" using assms(1) by (simp add: assertLength_def hprog_setErr)
  then show ?thesis using assms(2) hprog_buf [OF p] by (auto simp: returns_def intro: hprog_trans)
qed

lemma assertLength_prog:
  assumes "wf_hy h"
  shows "wf_hy (assertLength s e n h)" "left (assertLength s e n h) \<le> left h"
    "u_buf (hy_unp (assertLength s e n h)) = u_buf (hy_unp h)"
proof -
  have p: "hprog h (assertLength s e n h)" using assms by (simp add: assertLength_def hprog_setErr)
  show "wf_hy (assertLength s e n h)" "left (assertLength s e n h) \<le> left h"
    "u_buf (hy_unp (assertLength s e n h)) = u_buf (hy_unp h)"
    using hprog_wf [OF assms p] hprog_left [OF p] hprog_buf [OF p] by simp_all
qed

lemma safe_guard:
  assumes "safe tz L body"
  shows "safe tz L (\<lambda>h. if getErr (assertLength s e n h) \<noteq> None then Some (x, assertLength s e n h)
    else body (assertLength s e n h))"
  unfolding safe_def
proof (intro allI impI returns_guard)
  fix h assume "wf_hy h" "left h \<le> L"
  then show "returns tz body (assertLength s e n h)"
    using assms assertLength_prog [of h s e n] by (simp add: safe_def)
qed

lemma safe_checked [safe_intros]: "safe tz L body \<Longrightarrow> safe tz L (checked s e n body)"
  unfolding checked_def [abs_def] Let_def by (rule safe_guard)

lemma safe_hstrings [safe_intros]: "safe tz L hstrings"
  unfolding hstrings_def [abs_def] by (intro safe_intros)

lemmas safe_next_hstrings [safe_intros] = safe_next_safe [OF safe_hstrings]

text \<open>The methods over a method for nested values that returns right after Next.\<close>

locale safe_value =
  fixes tz :: tzdb and val :: "goval hy" and L :: nat
  assumes value_post: "post tz L val" and value_hv: "\<exists>d. val = hvalue tz d"
begin

lemma safe_harray: "safe tz L (harray val)"
  unfolding harray_def [abs_def] by (intro safe_intros safe_next value_post)

lemma post_amap_field: "post tz L (amap_field val k m)"
  unfolding amap_field_def [abs_def] by (intro post_bind value_post safe_intros)

lemma safe_amap: "safe tz L (amap val)"
  unfolding amap_def [abs_def] by (intro safe_intros post_amap_field)

lemmas value_intros = safe_intros safe_amap safe_harray safe_next_safe [OF safe_amap]

lemma safe_entities:
  "safe tz L (hnode val n)" "safe tz L (nodeWithElementId val n)" "safe tz L (hrelationship val n)"
  "safe tz L (relationshipWithElementId val n)" "safe tz L (relationnode val n)"
  "safe tz L (relationnodeWithElementId val n)" "safe tz L (unsupportedType val n)"
  unfolding hnode_def nodeWithElementId_def hrelationship_def relationshipWithElementId_def relationnode_def
    relationnodeWithElementId_def unsupportedType_def
  by (rule value_intros)+

end

lemma safe_scalars [safe_intros]:
  "safe tz L (point2d n)" "safe tz L (point3d n)" "safe tz L (dateTimeOffset tz n)" "safe tz L (utcDateTimeOffset n)"
  "safe tz L (dateTimeNamedZone tz n)" "safe tz L (utcDateTimeNamedZone tz n)" "safe tz L (localDateTime tz n)"
  "safe tz L (date n)" "safe tz L (duration n)" "safe tz L (unknownStructError t)"
  unfolding point2d_def [abs_def] point3d_def [abs_def] dateTimeOffset_def [abs_def] utcDateTimeOffset_def [abs_def]
    dateTimeNamedZone_def [abs_def] utcDateTimeNamedZone_def [abs_def] localDateTime_def [abs_def] date_def [abs_def]
    duration_def [abs_def] unknownStructError_def [abs_def]
  by (rule safe_intros)+

lemma safe_times [safe_intros]: "safe tz L (htime tz n)" "safe tz L (localTime tz n)"
  unfolding htime_def [abs_def] localTime_def [abs_def] split_nanos_def Let_def prod.case
  by (rule safe_intros)+

lemma safe_Next_bind [safe_intros]: "safe tz L f \<Longrightarrow> safe tz L (\<lambda>h. unp_Next h \<bind> f)"
  using safe_next_safe [of tz L f] by (simp add: next_then_def [abs_def])

lemma safe_vector [safe_intros]: "safe tz L (vector n)"
proof -
  have elems: "safe tz L (\<lambda>h. case vector_elems m vs of
      Inl msg \<Rightarrow> vectorErr msg h | Inr v \<Rightarrow> Some (v, h))" for m vs
    by (cases "vector_elems m vs") (simp_all add: safe_intros)
  have "safe tz L (\<lambda>h. if length t \<noteq> 1 then vectorErr ''Vector type marker must be exactly 1 byte'' h
      else unp_Next h \<bind> (\<lambda>h. if u_Curr (hy_unp h) \<noteq> PackedByteArray
        then vectorErr ''Expected byte array for vector values'' h
        else unp Unpacker_ByteArray h \<bind> (\<lambda>(values, h). at t 0 \<bind> (\<lambda>m.
          case vector_elems m values of Inl msg \<Rightarrow> vectorErr msg h | Inr v \<Rightarrow> Some (v, h)))))" for t
  proof (cases "length t = 1")
    case True
    then have "at t 0 = Some (t ! 0)" by (simp add: at_def)
    then show ?thesis by (simp only: True bind.bind_lunit simp_thms if_False) (intro safe_intros elems)
  qed (simp add: safe_intros)
  note body = this
  show ?thesis
    unfolding vector_def
    by (rule body safe_checked safe_Next_bind safe_if safe_setErr safe_bind safe_methods)+
qed

lemma tag_in_buffer:
  assumes "wf_hy h" and "unp Unpacker_StructTag h = Some (t, h')" and "t \<noteq> 0"
  shows "t \<in> set (u_buf (hy_unp h))"
proof (cases "rest (hy_unp h)")
  case Nil
  then show ?thesis
    using assms by (auto simp: unp_def Unpacker_StructTag_def wf_hy_def pop_empty)
next
  case (Cons b r)
  then have "b \<in> set (u_buf (hy_unp h))"
    by (metis in_set_dropD list.set_intros(1) rest_def)
  with Cons assms show ?thesis
    by (auto simp: unp_def Unpacker_StructTag_def wf_hy_def pop_rest)
qed

context safe_value
begin

lemma safe_struct: "t \<noteq> 0x50 \<Longrightarrow> safe tz L (struct_value tz val t n)"
  unfolding struct_value_def [abs_def] by (simp only: if_False) (intro safe_intros safe_entities)

lemma safe_path_items: "safe tz L (path_items val cast n)"
proof (induction n)
  case 0
  have "path_items val cast 0 = (\<lambda>h. Some (Some [], h))" by (simp add: fun_eq_iff)
  then show ?case by (simp add: safe_return)
next
  case (Suc n)
  have "path_items val cast (Suc n) = (\<lambda>h. next_then val h \<bind> (\<lambda>(v, h). case cast v of
      None \<Rightarrow> Some (None, h) | Some x \<Rightarrow> path_items val cast n h \<bind> (\<lambda>(r, h). Some (map_option (\<lambda>xs. x # xs) r, h))))"
    by (simp add: fun_eq_iff)
  moreover have "safe tz L (\<lambda>h. case cast v of
      None \<Rightarrow> Some (None, h) | Some x \<Rightarrow> path_items val cast n h \<bind> (\<lambda>(r, h). Some (map_option (\<lambda>xs. x # xs) r, h)))" for v
    using Suc by (cases "cast v") (simp_all add: safe_intros)
  ultimately show ?case by (simp only:) (intro safe_bind safe_next value_post)
qed

lemma path_read_trouble:
  assumes "path_read val g nodes rnodes indexes" "0x50 \<in> set (u_buf (hy_unp g))" "even (length indexes)"
    "buildPath nodes rnodes indexes = None"
  shows "path_trouble tz (u_buf (hy_unp g))"
  using assms value_hv unfolding path_trouble_def by blast

text \<open>The reading of a path ends with an error, a path, or indexes that do not fit.\<close>

lemma returns_path_body:
  assumes h: "wf_hy h" "left h \<le> L" and p: "0x50 \<in> set (u_buf (hy_unp h))"
  shows "returns tz (\<lambda>h. next_then (unp Unpacker_Len) h \<bind> (\<lambda>(num, h). path_items val as_node (unat num) h \<bind> (\<lambda>(ns, h).
    case ns of
      None \<Rightarrow> Some (VNil, hydrator_setErr (e1 :: goerr) h)
    | Some nodes \<Rightarrow> next_then (unp Unpacker_Len) h \<bind> (\<lambda>(num, h). path_items val as_relNode (unat num) h \<bind> (\<lambda>(rs, h).
        case rs of
          None \<Rightarrow> Some (VNil, hydrator_setErr e2 h)
        | Some rnodes \<Rightarrow> next_then (unp Unpacker_Len) h \<bind> (\<lambda>(num, h). repeatedly next_Int (unat num) h \<bind> (\<lambda>(indexes, h).
            if odd (length indexes) then Some (VNil, hydrator_setErr e3 h)
            else buildPath nodes rnodes indexes \<bind> (\<lambda>(ns, rels). Some (VPath ns rels, h))))))))) h"
proof -
  have st: "returns tz (next_then (unp Unpacker_Len)) g" "returns tz (path_items val cast n) g" "returns tz (repeatedly next_Int n) g"
    if "wf_hy g" "left g \<le> left h" for g cast n
    using that h(2) safe_path_items [of cast n] safe_next_method safe_repeatedly [of tz L next_Int n]
    by (auto simp: safe_def)
  have err: "returns tz (\<lambda>h. Some (VNil, hydrator_setErr e h)) g" if "wf_hy g" for e g
    using that by (auto simp: returns_def intro: hprog_setErr)
  have last: "returns tz (\<lambda>g. if odd (length indexes) then Some (VNil, hydrator_setErr e3 g)
      else buildPath nodes rnodes indexes \<bind> (\<lambda>(ns, rels). Some (VPath ns rels, g))) g"
    if "wf_hy g" "hprog h g" "path_read val h nodes rnodes indexes" for g nodes rnodes indexes
    using that path_read_trouble [OF that(3) p] hprog_buf [OF that(2)]
    by (cases "buildPath nodes rnodes indexes") (auto simp: returns_def intro: hprog_setErr)
  show ?thesis
  proof (rule returns_bind [OF st(1) [OF h(1) order_refl] h(1)], goal_cases)
    case a: (1 n1 g1)
    show ?case
    proof (rule returns_bind [OF st(2) [OF a(3,4)] a(3)], goal_cases)
      case b: (1 ns g2)
      have l2: "left g2 \<le> left h" using a(4) b(4) by simp
      show ?case
      proof (cases ns)
        case (Some nodes)
        show ?thesis
        proof (simp only: Some option.case, rule returns_bind [OF st(1) [OF b(3) l2] b(3)], goal_cases)
          case c: (1 n2 g3)
          have l3: "left g3 \<le> left h" using l2 c(4) by simp
          show ?case
          proof (rule returns_bind [OF st(2) [OF c(3) l3] c(3)], goal_cases)
            case d: (1 rs g4)
            have l4: "left g4 \<le> left h" using l3 d(4) by simp
            show ?case
            proof (cases rs)
              case rn: (Some rnodes)
              show ?thesis
              proof (simp only: rn option.case, rule returns_bind [OF st(1) [OF d(3) l4] d(3)], goal_cases)
                case e: (1 n3 g5)
                have l5: "left g5 \<le> left h" using l4 e(4) by simp
                show ?case
                proof (rule returns_bind [OF st(3) [OF e(3) l5] e(3)], goal_cases)
                  case f: (1 indexes g6)
                  have "path_read val h nodes rnodes indexes"
                    unfolding path_read_def using a(1) b(1) c(1) d(1) e(1) f(1) Some rn by blast
                  moreover have "hprog h g6" using a(2) b(2) c(2) d(2) e(2) f(2) by (blast intro: hprog_trans)
                  ultimately show ?case using last f(3) by blast
                qed
              qed
            qed (simp add: err d(3))
          qed
        qed
      qed (simp add: err b(3))
    qed
  qed
qed

lemma returns_hpath:
  assumes h: "wf_hy h" "left h \<le> L" and p: "0x50 \<in> set (u_buf (hy_unp h))"
  shows "returns tz (hpath val n) h"
proof -
  note a = assertLength_prog [OF h(1), of "''path''" 3 n]
  have "left (assertLength ''path'' 3 n h) \<le> L" "0x50 \<in> set (u_buf (hy_unp (assertLength ''path'' 3 n h)))"
    using a h(2) p by auto
  from returns_path_body [OF a(1) this] show ?thesis
    unfolding hpath_def checked_def [abs_def] Let_def by (intro returns_guard [OF h(1)])
qed

lemma returns_struct:
  assumes "wf_hy h" and "left h \<le> L"
  shows "returns tz (\<lambda>h. unp Unpacker_StructTag h \<bind> (\<lambda>(t, h). unp Unpacker_Len h \<bind> (\<lambda>(n, h). struct_value tz val t n h))) h"
proof -
  have tag: "safe tz L (unp Unpacker_StructTag)" using structTag.reader_returns by (intro safe_unp) blast
  show ?thesis
  proof (rule returns_bind [OF _ assms(1)], goal_cases)
    case 1
    then show ?case using tag assms by (simp add: safe_def)
  next
    case a: (2 t h1)
    show ?case
    proof (rule returns_bind [OF _ a(3)], goal_cases)
      case 1
      then show ?case using safe_methods(6) [of tz L] a(3,4) assms(2) by (auto simp: safe_def)
    next
      case b: (2 n h2)
      have l: "left h2 \<le> L" using a(4) b(4) assms(2) by simp
      show ?case
      proof (cases "t = 0x50")
        case True
        then have "0x50 \<in> set (u_buf (hy_unp h2))"
          using tag_in_buffer [OF assms(1) a(1)] hprog_buf [OF a(2)] hprog_buf [OF b(2)] by simp
        from returns_hpath [OF b(3) l this] show ?thesis
          using True by (simp add: returns_def struct_value_def)
      next
        case False
        then show ?thesis using safe_struct [OF False] b(3) l by (simp add: safe_def)
      qed
    qed
  qed
qed

lemma safe_value_step: "safe tz L (value_step tz val)"
proof -
  have leaf: "safe tz L (\<lambda>h. unp Unpacker_Int h \<bind> (\<lambda>(i, h). Some (VInt i, h)))"
      "safe tz L (\<lambda>h. unp Unpacker_Float h \<bind> (\<lambda>(f, h). Some (VFloat f, h)))"
      "safe tz L (\<lambda>h. unp Unpacker_String h \<bind> (\<lambda>(s, h). Some (VStr s, h)))"
      "safe tz L (\<lambda>h. unp Unpacker_ByteArray h \<bind> (\<lambda>(b, h). Some (VBytes b, h)))"
      "safe tz L (\<lambda>h. unp Unpacker_UUID h \<bind> (\<lambda>(b, h). Some (VUUID b, h)))"
      "safe tz L (\<lambda>h. harray val h \<bind> (\<lambda>(l, h). Some (VList l, h)))"
      "safe tz L (\<lambda>h. amap val h \<bind> (\<lambda>(m, h). Some (VMap m, h)))"
    by (rule safe_intros safe_harray safe_amap)+
  have "returns tz (value_step tz val) h" if h: "wf_hy h" "left h \<le> L" for h
    using leaf [unfolded safe_def, rule_format, OF h] returns_struct [OF h] h
      safe_return [of tz L "\<lambda>_. VNil"] safe_return [of tz L "\<lambda>_. VBool True"] safe_return [of tz L "\<lambda>_. VBool False"]
      safe_setErr [of tz L VNil]
    by (cases "u_Curr (hy_unp h)") (auto simp: value_step_def returns_def safe_def)
  then show ?thesis by (simp add: safe_def)
qed

end

text \<open>After Next on an exhausted buffer the value is the integer 0, whatever the bound.\<close>

lemma exhausted_value: "wf_hy h \<Longrightarrow> exhausted h \<Longrightarrow> returns tz (value_step tz val) h"
  using Int_safe [of "hy_unp h"]
  by (auto simp: exhausted_def value_step_def returns_def unp_def hprog_def wf_hy_def)

lemma post_hvalue: "L < d \<Longrightarrow> post tz L (hvalue tz d)"
proof (induction d arbitrary: L)
  case 0
  then show ?case by simp
next
  case (Suc d)
  have "hvalue tz (Suc d) = value_step tz (hvalue tz d)" by (simp add: fun_eq_iff)
  moreover have "post tz L (value_step tz (hvalue tz d))"
    unfolding post_def
  proof (intro allI impI)
    fix h assume h: "wf_hy h" "left h < L \<or> exhausted h"
    show "returns tz (value_step tz (hvalue tz d)) h"
    proof (cases "exhausted h")
      case True
      with h show ?thesis by (simp add: exhausted_value)
    next
      case False
      with h have "left h \<le> L - 1" "L - 1 < d" using Suc.prems by auto
      moreover from this have "safe_value tz (hvalue tz d) (L - 1)"
        by unfold_locales (rule Suc.IH, blast+)
      ultimately show ?thesis
        using h(1) safe_value.safe_value_step by (auto simp: safe_def)
    qed
  qed
  ultimately show ?case by simp
qed

interpretation hv: safe_value tz "hvalue tz (Suc d)" d for tz d
  by unfold_locales (simp add: post_hvalue del: hvalue.simps, blast)

section \<open>Messages\<close>

lemma post_if: "post tz L f \<Longrightarrow> post tz L g \<Longrightarrow> post tz L (\<lambda>h. if P h then f h else g h)"
  by (auto simp: post_def returns_def)

lemma safe_stats [safe_intros]: "safe tz L successStats"
proof -
  have "safe tz L (stats_field k x)" for k x
    unfolding stats_field_def [abs_def] parseStatValue_def [abs_def]
    by (rule safe_intros)+
  then show ?thesis
    unfolding successStats_def [abs_def] by (intro safe_intros safe_post)
qed

context safe_value
begin

lemma post_trash: "post tz L (\<lambda>h. val h \<bind> (\<lambda>(_, h). Some (x, h)))"
  by (intro post_bind value_post safe_return)

lemma post_role_field: "post tz L (role_field val k ra)"
  unfolding role_field_def [abs_def] by (intro post_if post_trash; rule safe_post; intro safe_intros)

lemma safe_routingTableRole: "safe tz L (routingTableRole val rt)"
  unfolding routingTableRole_def [abs_def] by (intro safe_intros post_role_field)

lemma safe_servers: "safe tz L (servers_loop val n rt)"
proof (induction n arbitrary: rt)
  case 0
  have "servers_loop val 0 rt = (\<lambda>h. Some (rt, h))" by (simp add: fun_eq_iff)
  then show ?case by (simp add: safe_return)
next
  case (Suc n)
  have "servers_loop val (Suc n) rt = (\<lambda>h. routingTableRole val rt h \<bind> (\<lambda>(rt', h). servers_loop val n rt' h))"
    by (simp add: fun_eq_iff)
  with Suc show ?case by (simp only:) (intro safe_bind safe_routingTableRole)
qed

lemma post_rt_field: "post tz L (rt_field val k rt)"
  unfolding rt_field_def [abs_def]
  by (intro post_if post_trash; rule safe_post; intro safe_intros safe_servers)

lemma safe_routingTable: "safe tz L (hroutingTable val)"
  unfolding hroutingTable_def [abs_def] by (intro safe_intros post_rt_field)

lemma safe_query_type:
  "safe tz L (\<lambda>h. unp Unpacker_String h \<bind> (\<lambda>(t, h).
     Some (case query_type t of Some q \<Rightarrow> (f q, h) | None \<Rightarrow> (x, hydrator_setErr e h))))"
proof (rule safe_bind [OF safe_methods(3)])
  show "safe tz L (\<lambda>h. Some (case query_type t of Some q \<Rightarrow> (f q, h) | None \<Rightarrow> (x, hydrator_setErr e h)))" for t
    by (cases "query_type t") (simp_all add: safe_intros)
qed

lemma post_success_field: "post tz L (success_field val k succ)"
  unfolding success_field_def [abs_def]
  by (intro post_if post_trash; rule safe_post; (rule safe_query_type | intro value_intros safe_routingTable safe_stats))

lemma safe_success: "safe tz L (hsuccess val n)"
  unfolding hsuccess_def [abs_def] Let_def by (rule safe_guard) (intro safe_intros post_success_field)

lemma safe_record: "safe tz L (hrecord val n)"
  unfolding hrecord_def [abs_def] Let_def by (rule safe_guard) (intro safe_intros safe_next value_post)

lemma post_failure_field:
  assumes "post tz L nested"
  shows "post tz L (failure_field val nested k e)"
  unfolding failure_field_def [abs_def]
  by (intro post_if post_trash post_bind [OF assms] safe_return; rule safe_post; intro value_intros)

lemma safe_failure:
  assumes "post tz L nested"
  shows "safe tz L (failure_body val nested n b)"
proof -
  have "safe tz L (\<lambda>h. unp Unpacker_Len h \<bind> (\<lambda>(maplen, h).
      entries (failure_field val nested) (unat maplen) e h \<bind> (\<lambda>(e, h). Some (Some (upd_core PolyfillGqlError e), h))))" for e
    by (intro safe_intros post_failure_field assms)
  note body = this
  show ?thesis
    unfolding failure_body_def [abs_def] Let_def
    by (cases b; simp only: if_True if_False bind.bind_lunit) (rule safe_guard safe_Next_bind body)+
qed

end

text \<open>The cause of a failure is nested like a value.\<close>

lemma exhausted_failure:
  assumes "wf_hy h" and "exhausted h"
  shows "returns tz (failure_body val nested 1 True) h"
proof -
  have "unp Unpacker_Len h = Some (0, h)"
    using assms(2) by (simp add: unp_def Unpacker_Len_def exhausted_def markers_def)
  with assms(1) show ?thesis
    by (auto simp: failure_body_def assertLength_def returns_def)
qed

lemma post_nested_failure: "L < d \<Longrightarrow> post tz L (nested_failure tz d)"
proof (induction d arbitrary: L)
  case 0
  then show ?case by simp
next
  case (Suc d)
  have "nested_failure tz (Suc d) = failure_body (hvalue tz d) (nested_failure tz d) 1 True"
    by (simp add: fun_eq_iff)
  moreover have "post tz L (failure_body (hvalue tz d) (nested_failure tz d) 1 True)"
    unfolding post_def
  proof (intro allI impI)
    fix h assume h: "wf_hy h" "left h < L \<or> exhausted h"
    show "returns tz (failure_body (hvalue tz d) (nested_failure tz d) 1 True) h"
    proof (cases "exhausted h")
      case True
      with h show ?thesis by (simp add: exhausted_failure)
    next
      case False
      with h have L: "left h \<le> L - 1" "L - 1 < d" using Suc.prems by auto
      from L(2) have "safe_value tz (hvalue tz d) (L - 1)"
        by unfold_locales (rule post_hvalue, blast+)
      from safe_value.safe_failure [OF this Suc.IH [OF L(2)]] show ?thesis
        using h(1) L(1) by (auto simp: safe_def)
    qed
  qed
  ultimately show ?case by simp
qed

lemma safe_hydrate_tag:
  assumes "L + 1 < d"
  shows "safe tz L (hydrate_tag tz d t n)"
proof -
  have d: "L < d" using assms by simp
  have v: "safe_value tz (hvalue tz d) L" using d by unfold_locales (rule post_hvalue, blast+)
  have nf: "post tz L (nested_failure tz d)" using d by (rule post_nested_failure)
  have "hprog h (assertLength s e n h)" if "wf_hy h" for h s e
    using that by (simp add: assertLength_def hprog_setErr)
  then have ig: "safe tz L (\<lambda>h. case hignored n h of (ok, h) \<Rightarrow> Some ((if ok then Some HMIgnored else None, getErr h), h))"
    by (auto simp: safe_def returns_def hignored_def Let_def)
  show ?thesis
    unfolding hydrate_tag_def [abs_def] failure_def [abs_def]
    by (intro safe_if ig safe_bind safe_return safe_value.safe_success [OF v] safe_value.safe_record [OF v]
        safe_value.safe_failure [OF v nf])
qed

lemma hydrate_start:
  assumes "length buf + 256 < 2 ^ 32"
  shows "wf_hy (h\<lparr>hy_unp := Unpacker_Reset (hy_unp h) buf\<rparr>)"
    and "left (h\<lparr>hy_unp := Unpacker_Reset (hy_unp h) buf\<rparr>) = length buf"
  using wf_reset [OF assms] by (simp_all add: wf_hy_def left_def)

lemma returns_hydrate:
  assumes "length buf + 256 < 2 ^ 32"
  shows "(\<exists>x e h'. hydrate tz buf h = Some ((x, e), h')) \<or> hydrate tz buf h = None \<and> path_trouble tz buf"
proof -
  let ?h = "h\<lparr>hy_unp := Unpacker_Reset (hy_unp h) buf\<rparr>"
  let ?go = "\<lambda>h. if u_Curr (hy_unp h) \<noteq> PackedStruct then Some ((None, Some (PlainError ''expected struct'')), h)
    else unp Unpacker_Len h \<bind> (\<lambda>(n, h). unp Unpacker_StructTag h \<bind> (\<lambda>(t, h). hydrate_tag tz (length buf + 2) t n h))"
  have "safe tz (length buf) (unp Unpacker_StructTag)"
    using structTag.reader_returns by (intro safe_unp) blast
  then have "safe tz (length buf) (\<lambda>h. unp_Next h \<bind> ?go)"
    by (intro safe_Next_bind safe_if safe_return safe_bind safe_methods safe_hydrate_tag) simp_all
  then have "returns tz (\<lambda>h. unp_Next h \<bind> ?go) ?h"
    using hydrate_start [OF assms, of h] by (simp only: safe_def)
  moreover have "u_buf (Unpacker_Reset (hy_unp h) buf) = buf" by (simp add: Unpacker_Reset_def)
  ultimately show ?thesis by (auto simp: returns_def hydrate_def)
qed

section \<open>Invariants of the loops over maps\<close>

lemma if_SomeE: "(if P then x else y) = Some z \<Longrightarrow> (P \<Longrightarrow> x = Some z \<Longrightarrow> R) \<Longrightarrow> (\<not> P \<Longrightarrow> y = Some z \<Longrightarrow> R) \<Longrightarrow> R"
  by (auto split: if_splits)

lemma bind_SomeE:
  "f \<bind> (\<lambda>(x, h). g x h) = Some z \<Longrightarrow> (\<And>x h. f = Some (x, h) \<Longrightarrow> g x h = Some z \<Longrightarrow> R) \<Longrightarrow> R"
  by (auto simp: bind_eq_Some_conv)

lemma entries_inv:
  assumes "entries f n x h = Some (x', h')" and "I x"
    and "\<And>k y g y' g'. I y \<Longrightarrow> f k y g = Some (y', g') \<Longrightarrow> I y'"
  shows "I x'"
  using assms(1,2)
proof (induction n arbitrary: x h)
  case 0
  then show ?case by simp
next
  case (Suc n)
  then show ?case using assms(3) by (auto simp: bind_eq_Some_conv next_then_def)
qed

subsection \<open>Statistics\<close>

definition counters_ok :: "(string \<times> counter) list \<Rightarrow> bool" where
  "counters_ok cs \<longleftrightarrow> list_all (\<lambda>(k, c). (counter_int c = None) =
     (k = ''contains-system-updates'' \<or> k = ''contains-updates'')) cs"

lemma counters_ok_put:
  "counters_ok cs \<Longrightarrow> (counter_int c = None) = (k = ''contains-system-updates'' \<or> k = ''contains-updates'') \<Longrightarrow>
     counters_ok (map_put k c cs)"
  by (induction k c cs rule: map_put.induct) (auto simp: counters_ok_def)

lemma stats_field_ok: "counters_ok cs \<Longrightarrow> stats_field k cs h = Some (cs', h') \<Longrightarrow> counters_ok cs'"
  by (auto simp: stats_field_def parseStatValue_def bind_eq_Some_conv intro!: counters_ok_put split: if_splits)

lemma successStats_ok: "successStats h = Some (cs, h') \<Longrightarrow> counters_ok cs"
  by (auto simp: successStats_def bind_eq_Some_conv counters_ok_def
      intro: entries_inv [where I = counters_ok, OF _ _ stats_field_ok, unfolded counters_ok_def])

lemma extract_ok: "counters_ok cs \<Longrightarrow> \<exists>r. extractIntCounters cs = Some r"
proof (induction cs)
  case (Cons kc cs)
  then show ?case by (cases kc; cases "snd kc") (auto simp: counters_ok_def)
qed (simp add: counters_ok_def)

lemma extractBool_ok:
  assumes "counters_ok cs" and "k = ''contains-system-updates'' \<or> k = ''contains-updates''"
  shows "\<exists>b. extractBoolPointer cs k = Some b"
proof (cases "map_of cs k")
  case (Some c)
  then have "counter_int c = None"
    using assms by (auto simp: counters_ok_def list_all_iff dest!: map_of_SomeD)
  with Some show ?thesis by (cases c) (auto simp: extractBoolPointer_def)
qed (simp add: extractBoolPointer_def)

lemma success_field_counters:
  "counters_ok (su_counters s) \<Longrightarrow> success_field val k s h = Some (s', h') \<Longrightarrow> counters_ok (su_counters s')"
  by (auto simp: success_field_def bind_eq_Some_conv successStats_ok split: if_splits option.splits)

lemma hsuccess_counters: "hsuccess val n h = Some (Some s, h') \<Longrightarrow> counters_ok (su_counters s)"
  unfolding hsuccess_def Let_def
  by (auto simp: bind_eq_Some_conv split: if_splits
      elim!: entries_inv [where I = "\<lambda>s. counters_ok (su_counters s)"]
      intro: success_field_counters) (simp add: counters_ok_def empty_success_def)

subsection \<open>Failures\<close>

definition complete_core :: "neo4j_core \<Rightarrow> bool" where
  "complete_core c \<longleftrightarrow> Code c \<noteq> [] \<and> Msg c \<noteq> [] \<and> GqlStatus c \<noteq> [] \<and> GqlStatusDescription c \<noteq> [] \<and>
     diag c ''OPERATION'' \<noteq> None \<and> diag c ''OPERATION_CODE'' \<noteq> None \<and> diag c ''CURRENT_SCHEMA'' \<noteq> None"

fun complete_chain :: "neo4j_error \<Rightarrow> bool" where
  "complete_chain (Neo4jError c cause) \<longleftrightarrow> complete_core c \<and> (case cause of None \<Rightarrow> True | Some e \<Rightarrow> complete_chain e)"

definition complete_cause :: "neo4j_error option \<Rightarrow> bool" where
  "complete_cause cause \<longleftrightarrow> (case cause of None \<Rightarrow> True | Some e \<Rightarrow> complete_chain e)"

lemma complete_polyfill: "complete_core (PolyfillGqlError c)"
  by (simp add: complete_core_def PolyfillGqlError_def polyfill_class) 
    (simp add: or_default_def NewDefaultDiagnosticRecord_def)

lemma complete_chain_upd: "complete_chain (upd_core PolyfillGqlError e) \<longleftrightarrow> complete_cause (GqlCause e)"
  by (simp add: upd_core_def complete_polyfill complete_cause_def)

lemma GqlCause_upd_core [simp]: "GqlCause (upd_core f e) = GqlCause e"
  by (simp add: upd_core_def)

lemma failure_field_cause:
  assumes "\<And>g c g'. nested g = Some (c, g') \<Longrightarrow> complete_cause c" and "complete_cause (GqlCause e)"
    and "failure_field val nested k e h = Some (e', h')"
  shows "complete_cause (GqlCause e')"
proof (cases "k = ''cause''")
  case True
  then obtain c where "nested h = Some (c, h')" and "e' = Neo4jError (core e) c"
    using assms(3) by (auto simp: failure_field_def bind_eq_Some_conv)
  then show ?thesis using assms(1) by simp
next
  case False
  then have "GqlCause e' = GqlCause e"
    using assms(3) False unfolding failure_field_def
    by (elim if_SomeE bind_SomeE; simp only: option.inject prod.inject; elim conjE; hypsubst)
      (simp_all only: GqlCause_upd_core simp_thms)
  then show ?thesis using assms(2) by simp
qed

lemma failure_body_complete:
  assumes "\<And>g c g'. nested g = Some (c, g') \<Longrightarrow> complete_cause c"
    and "failure_body val nested n b h = Some (r, h')"
  shows "complete_cause r"
proof (cases r)
  case (Some e)
  then obtain m e0 g g' where
      e0: "entries (failure_field val nested) m (Neo4jError empty_core None) g = Some (e0, g')"
    and e: "e = upd_core PolyfillGqlError e0"
    using assms(2) by (auto simp: failure_body_def Let_def bind_eq_Some_conv split: if_splits)
  have "complete_cause (GqlCause e0)"
    using e0 by (rule entries_inv [where I = "\<lambda>e. complete_cause (GqlCause e)"])
      (auto simp: complete_cause_def [of None] intro: failure_field_cause [OF assms(1)])
  then show ?thesis
    using complete_chain_upd [of e0] by (simp add: complete_cause_def [of "Some _"] Some e)
qed (simp add: complete_cause_def)

lemma nested_failure_complete: "nested_failure tz d h = Some (r, h') \<Longrightarrow> complete_cause r"
  by (induction d arbitrary: h r h') (auto intro: failure_body_complete)

lemma failure_complete: "failure tz d n h = Some (r, h') \<Longrightarrow> complete_cause r"
  unfolding failure_def by (rule failure_body_complete [OF nested_failure_complete])

section \<open>Paths\<close>

text \<open>A pair of indexes that is in range: a relationship, counted from 1 and signed, and a node.\<close>

definition in_range :: "goval node list \<Rightarrow> goval relNode list \<Rightarrow> int64 \<Rightarrow> int64 \<Rightarrow> bool" where
  "in_range nodes rns r i \<longleftrightarrow>
     sint r \<noteq> 0 \<and> \<bar>sint r\<bar> \<le> int (length rns) \<and> 0 \<le> sint i \<and> sint i < int (length nodes)"

fun all_in_range :: "goval node list \<Rightarrow> goval relNode list \<Rightarrow> int64 list \<Rightarrow> bool" where
  "all_in_range nodes rns (r # i # is) \<longleftrightarrow> in_range nodes rns r i \<and> all_in_range nodes rns is"
| "all_in_range nodes rns _ = True"

text \<open>The nodes a path visits after its first one.\<close>

fun visited :: "goval node list \<Rightarrow> int64 list \<Rightarrow> goval node list" where
  "visited nodes (r # i # is) = nodes ! nat (sint i) # visited nodes is"
| "visited nodes _ = []"

text \<open>The relationship of a step joins its two nodes, in the direction that the sign of the index says.\<close>

definition joins :: "goval node \<Rightarrow> goval node \<Rightarrow> goval relationship \<Rightarrow> bool" where
  "joins a b r \<longleftrightarrow> rel_StartId r = node_Id a \<and> rel_StartElementId r = node_ElementId a \<and>
     rel_EndId r = node_Id b \<and> rel_EndElementId r = node_ElementId b"

fun walk :: "goval relNode list \<Rightarrow> goval node \<Rightarrow> int64 list \<Rightarrow> goval node list \<Rightarrow> goval relationship list \<Rightarrow> bool" where
  "walk rns a (r # i # is) (b # ns) (rel # rels) \<longleftrightarrow>
     (let rn = rns ! nat (\<bar>sint r\<bar> - 1)
      in rel_Id rel = rn_id rn \<and> rel_ElementId rel = rn_elementId rn \<and> rel_Type rel = rn_name rn \<and> rel_Props rel = rn_props rn \<and>
         (if 0 < sint r then joins a b rel else joins b a rel)) \<and> walk rns b is ns rels"
| "walk rns a is ns rels \<longleftrightarrow> ns = [] \<and> rels = []"

lemma sint_neg_sub1:
  fixes r :: int64
  assumes "sint r < 0"
  shows "sint (r * -1 - 1) = - sint r - 1"
proof -
  have "r * -1 - 1 = word_of_int (- sint r - 1)" by simp
  moreover have "- (2 ^ 63) \<le> - sint r - 1" "- sint r - 1 < 2 ^ 63"
    using assms sint_ge [of r] by simp_all
  ultimately show ?thesis by (simp only: sint_of_int64)
qed

lemma sint_sub1:
  fixes r :: int64
  assumes "0 \<le> sint r"
  shows "sint (r - 1) = sint r - 1"
proof -
  have "r - 1 = word_of_int (sint r - 1)" by simp
  moreover have "- (2 ^ 63) \<le> sint r - 1" "sint r - 1 < 2 ^ 63"
    using assms sint_lt [of r] by simp_all
  ultimately show ?thesis by (simp only: sint_of_int64)
qed

lemma path_relNode:
  fixes r :: int64
  shows "(if sint r < 0 then at_int rns (sint (r * -1 - 1)) else at_int rns (sint (r - 1))) =
     (if sint r \<noteq> 0 \<and> \<bar>sint r\<bar> \<le> int (length rns) then Some (rns ! nat (\<bar>sint r\<bar> - 1)) else None)"
proof (cases "sint r < 0")
  case True
  then show ?thesis unfolding sint_neg_sub1 [OF True] at_int_def at_def by auto
next
  case False
  then have "sint (r - 1) = sint r - 1" by (simp add: sint_sub1)
  with False show ?thesis unfolding at_int_def at_def by auto
qed

lemma path_loop_step:
  "path_loop nodes rns a (r # i # is) =
     (if in_range nodes rns r i
      then do { rels \<leftarrow> path_loop nodes rns (nodes ! nat (sint i)) is;
                Some (path_rel a (nodes ! nat (sint i)) (rns ! nat (\<bar>sint r\<bar> - 1)) (\<not> sint r < 0) # rels) }
      else None)"
  unfolding path_loop.simps path_relNode by (auto simp: in_range_def at_int_def at_def)

lemma path_loop_None: "path_loop nodes rns a is = None \<longleftrightarrow> \<not> all_in_range nodes rns is"
proof (induction nodes rns "is" arbitrary: a rule: all_in_range.induct)
  case (1 nodes rns r i "is")
  then show ?case unfolding path_loop_step by (simp add: bind_eq_None_conv)
qed simp_all

lemma path_loop_walk:
  "path_loop nodes rns a is = Some rels \<Longrightarrow> walk rns a is (visited nodes is) rels"
proof (induction nodes rns "is" arbitrary: a rels rule: all_in_range.induct)
  case (1 nodes rns r i "is")
  then show ?case
    unfolding path_loop_step
    by (auto simp: bind_eq_Some_conv path_rel_def joins_def Let_def in_range_def split: if_splits)
qed simp_all


section \<open>Properties\<close>

text \<open>A host without a tz database, and the hydrator of a new connection.\<close>

definition no_tz :: tzdb where
  "no_tz = \<lparr>tz_known = (\<lambda>_. False), tz_period = (\<lambda>_ _. (0, None, None))\<rparr>"

definition new_hydrator :: "int \<Rightarrow> bool \<Rightarrow> bool \<Rightarrow> hydrator" where
  "new_hydrator major utc uuid = \<lparr>hy_unp = Unpacker_zero, hy_err = None, hy_major = major, hy_utc = utc, hy_uuid = uuid\<rparr>"

lemma getErr_setErr [simp]: "getErr (hydrator_setErr e h) \<noteq> None"
  by (auto simp: getErr_def hydrator_setErr_def split: option.split)

lemma hydrate_outcome: "hydrate tz buf h = Some ((x, e), h') \<Longrightarrow> x \<noteq> None \<or> e \<noteq> None"
  unfolding hydrate_def hydrate_tag_def hsuccess_def hrecord_def failure_def failure_body_def hignored_def Let_def
  by (auto simp: bind_eq_Some_conv split: if_splits)

text \<open>
  C5: hydrating a message of fewer than 2^32 - 256 bytes, whatever its nesting and however its lengths lie, returns a
  message or an error, or it panics in buildPath: the tag byte of a path occurs in the message, and nodes, relationships
  and an even number of indexes can be read from it on which buildPath panics. There is no other panic.
\<close>

theorem hydrate_returns:
  assumes "length buf + 256 < 2 ^ 32"
  shows "case hydrate tz buf h of Some ((x, e), h') \<Rightarrow> x \<noteq> None \<or> e \<noteq> None | None \<Rightarrow> path_trouble tz buf"
  using returns_hydrate [OF assms, of tz h] hydrate_outcome [of tz buf h] by auto

theorem hydrate_returns_witness:
  "hydrate no_tz [0xb1, 0x71, 0x91, 0xb3, 0x50, 0x90, 0x90, 0x92, 0x01, 0x00] (new_hydrator 5 True False) = None \<and>
   path_trouble no_tz [0xb1, 0x71, 0x91, 0xb3, 0x50, 0x90, 0x90, 0x92, 0x01, 0x00]"
proof -
  have "hydrate no_tz [0xb1, 0x71, 0x91, 0xb3, 0x50, 0x90, 0x90, 0x92, 0x01, 0x00] (new_hydrator 5 True False) = None"
    by code_simp
  with hydrate_returns [of "[0xb1, 0x71, 0x91, 0xb3, 0x50, 0x90, 0x90, 0x92, 0x01, 0x00]" no_tz "new_hydrator 5 True False"]
  show ?thesis by simp
qed

lemma getErr_failed: "hy_err h \<noteq> None \<Longrightarrow> getErr h \<noteq> None"
  by (auto simp: getErr_def split: option.split)

lemma assertLength_failed [simp]: "hy_err h \<noteq> None \<Longrightarrow> assertLength s e n h = h"
  by (auto simp: assertLength_def hydrator_setErr_def)

lemma unp_err: "unp f h = Some (x, h') \<Longrightarrow> hy_err h' = hy_err h"
  by (auto simp: unp_def bind_eq_Some_conv)

lemma unp_Next_err: "unp_Next h = Some h' \<Longrightarrow> hy_err h' = hy_err h"
  by (auto simp: unp_Next_def bind_eq_Some_conv)

lemma hydrate_tag_failed:
  assumes "hy_err h \<noteq> None" and "hydrate_tag tz d t n h = Some ((x, e), h')"
  shows "x = None \<and> e \<in> {getErr h', Some (PlainError ''unexpected tag at top level'')} \<and> hy_err h' = hy_err h"
  using assms getErr_failed [OF assms(1)]
  unfolding hydrate_tag_def hsuccess_def hrecord_def failure_def failure_body_def hignored_def Let_def
  by (auto simp: bind_eq_Some_conv simp del: not_None_eq split: if_splits)

text \<open>
  C6: once a message has broken the protocol, the hydrator never delivers another one. hydrate starts the unpacker
  afresh but keeps the error, so every later message is answered with an error: what the unpacker says when it fails on
  this message, or that the message is no struct or its tag unknown, or else the error that was recorded first; and
  that one stays recorded.
\<close>

theorem hydrator_stays_failed:
  assumes "hy_err h = Some e0" and "hydrate tz buf h = Some ((x, e), h')"
  shows "x = None \<and> hy_err h' = Some e0 \<and>
    (case u_Err (hy_unp h') of
       Some pe \<Rightarrow> e \<in> {Some (PackstreamErr pe), Some (PlainError ''expected struct''), Some (PlainError ''unexpected tag at top level'')}
     | None \<Rightarrow> e \<in> {Some e0, Some (PlainError ''expected struct''), Some (PlainError ''unexpected tag at top level'')})"
proof -
  obtain h1 where h1: "unp_Next (h\<lparr>hy_unp := Unpacker_Reset (hy_unp h) buf\<rparr>) = Some h1" and e1: "hy_err h1 = hy_err h"
    using assms(2) unp_Next_err by (fastforce simp: hydrate_def bind_eq_Some_conv)
  show ?thesis
  proof (cases "u_Curr (hy_unp h1) = PackedStruct")
    case True
    then obtain n h2 t h3 where u: "unp Unpacker_Len h1 = Some (n, h2)" "unp Unpacker_StructTag h2 = Some (t, h3)"
      and t: "hydrate_tag tz (length buf + 2) t n h3 = Some ((x, e), h')"
      using assms(2) h1 by (auto simp: hydrate_def bind_eq_Some_conv)
    have "hy_err h3 = hy_err h" using unp_err [OF u(1)] unp_err [OF u(2)] e1 by simp
    then show ?thesis using hydrate_tag_failed [OF _ t] assms(1) by (auto simp: getErr_def split: option.split)
  next
    case False
    then show ?thesis using assms(2) h1 e1 assms(1) by (auto simp: hydrate_def split: option.split)
  qed
qed

theorem hydrator_stays_failed_witness:
  "\<exists>r h e h'. hydrate no_tz [0xb1, 0x71, 0x91, 0xb0, 0x7a] (new_hydrator 5 True False) = Some (r, h) \<and>
     hydrate no_tz [0xb1, 0x71, 0x91, 0x01] h = Some ((None, e), h') \<and> e \<noteq> None \<and> hy_err h' = hy_err h"
proof -
  let ?h = "snd (the (hydrate no_tz [0xb1, 0x71, 0x91, 0xb0, 0x7a] (new_hydrator 5 True False)))"
  have ev: "hydrate no_tz [0xb1, 0x71, 0x91, 0xb0, 0x7a] (new_hydrator 5 True False) \<noteq> None"
      "hy_err ?h \<noteq> None" "hydrate no_tz [0xb1, 0x71, 0x91, 0x01] ?h \<noteq> None"
    by code_simp+
  then obtain r h where 1: "hydrate no_tz [0xb1, 0x71, 0x91, 0xb0, 0x7a] (new_hydrator 5 True False) = Some (r, h)"
    by auto
  with ev have 2: "hy_err h \<noteq> None" and "hydrate no_tz [0xb1, 0x71, 0x91, 0x01] h \<noteq> None" by simp_all
  then obtain x e h' where 3: "hydrate no_tz [0xb1, 0x71, 0x91, 0x01] h = Some ((x, e), h')" by auto
  from 2 obtain e0 where e0: "hy_err h = Some e0" by auto
  show ?thesis using hydrator_stays_failed [OF e0 3] 1 3 e0 by (auto split: option.splits)
qed

lemma hydrate_message:
  assumes "hydrate tz buf h = Some ((Some m, e), h')"
  obtains (Success) n s g g' where "m = HMSuccess s" "hsuccess (hvalue tz (length buf + 2)) n g = Some (Some s, g')"
    | (Failure) n r g g' where "m = HMFailure r" "failure tz (length buf + 2) n g = Some (Some r, g')"
    | (Other) "m = HMIgnored" | (Record) vs where "m = HMRecord vs"
  using assms unfolding hydrate_def hydrate_tag_def
  by (auto simp: bind_eq_Some_conv split: if_splits prod.splits)

text \<open>
  C7: a server error that comes out of the hydrator is complete, and so is every cause in its chain, however many
  of their fields the server left out: code, message, GQL status and description are never empty and the diagnostic
  record has the three default entries.
\<close>

theorem failure_chain_complete:
  assumes "hydrate tz buf h = Some ((Some (HMFailure r), e), h')"
  shows "complete_chain r"
  using assms by (cases rule: hydrate_message) (auto dest: failure_complete simp: complete_cause_def)

definition nested_failure_msg :: bytes where
  "nested_failure_msg = [0xb1, 0x7f, 0xa2] @ string_bytes ''message'' @ string_bytes ''outer'' @
     string_bytes ''cause'' @ [0xa1] @ string_bytes ''gql_status'' @ string_bytes ''22N01''"

theorem failure_chain_complete_witness:
  "\<exists>r e h'. hydrate no_tz nested_failure_msg (new_hydrator 5 True False) = Some ((Some (HMFailure r), e), h') \<and>
     GqlCause r \<noteq> None \<and> complete_chain r"
proof -
  let ?x = "hydrate no_tz nested_failure_msg (new_hydrator 5 True False)"
  have "(case ?x of Some ((Some (HMFailure r), e), h') \<Rightarrow> GqlCause r \<noteq> None | _ \<Rightarrow> False)"
    by code_simp
  then obtain r e h' where "?x = Some ((Some (HMFailure r), e), h')" "GqlCause r \<noteq> None"
    by (auto split: option.splits prod.splits hmessage.splits)
  with failure_chain_complete [OF this(1)] show ?thesis by blast
qed

text \<open>
  the summary of a SUCCESS message never panics: whatever the statistics hold, the counters are ints and the
  two update flags are bools when the type assertions of summary look at them.
\<close>

lemma summary_never_panics:
  assumes "hydrate tz buf h = Some ((Some (HMSuccess s), e), h')"
  shows "\<exists>m. success_summary s = Some m \<and> ms_Bookmark m = su_bookmark s \<and> ms_QueryType m = su_qtype s"
proof -
  have ok: "counters_ok (su_counters s)"
    using assms by (cases rule: hydrate_message) (auto intro: hsuccess_counters)
  show ?thesis
    using extract_ok [OF ok] extractBool_ok [OF ok, of "''contains-system-updates''"]
      extractBool_ok [OF ok, of "''contains-updates''"]
    by (auto simp: success_summary_def)
qed

definition stats_msg :: bytes where
  "stats_msg = [0xb1, 0x70, 0xa1] @ string_bytes ''stats'' @ [0xa2] @ string_bytes ''nodes-created'' @ [0x03] @
     string_bytes ''contains-updates'' @ [0xc3]"

theorem summary_never_panics_witness:
  "\<exists>s m. success_summary s = Some m \<and> su_counters s = [(''nodes-created'', CInt 3), (''contains-updates'', CBool True)]"
proof -
  let ?x = "hydrate no_tz stats_msg (new_hydrator 5 True False)"
  have "(case ?x of Some ((Some (HMSuccess s), e), h') \<Rightarrow>
      su_counters s = [(''nodes-created'', CInt 3), (''contains-updates'', CBool True)] | _ \<Rightarrow> False)"
    by code_simp
  then obtain s e h' where "?x = Some ((Some (HMSuccess s), e), h')"
      "su_counters s = [(''nodes-created'', CInt 3), (''contains-updates'', CBool True)]"
    by (auto split: option.splits prod.splits hmessage.splits)
  with summary_never_panics [OF this(1)] show ?thesis by blast
qed

text \<open>
  C9: a path is assembled from the nodes, relationships and indexes the server sends: building it panics exactly
  when there are indexes but no node, or an index is out of range (which no check before the call excludes);
  otherwise every step takes the relationship of its index, and joins the node reached before to the node of the
  step, or the other way round when the index is negative.
\<close>

theorem path_assembled:
  assumes "even (length indexes)"
  shows "(buildPath nodes rns indexes = None) =
      (indexes \<noteq> [] \<and> (nodes = [] \<or> \<not> all_in_range nodes rns indexes)) \<and>
    (\<forall>ns rels. buildPath nodes rns indexes = Some (ns, rels) \<longrightarrow>
      ns = nodes \<and> walk rns (nodes ! 0) indexes (visited nodes indexes) rels)"
proof -
  have "length indexes div 2 = 0 \<longleftrightarrow> indexes = []" using assms by (cases indexes) auto
  then show ?thesis
    by (auto simp: buildPath_def at_def bind_eq_None_conv bind_eq_Some_conv path_loop_None path_loop_walk split: if_splits)
qed

theorem path_assembled_witness:
  "buildPath [Node 1 ''a'' [] [], Node 2 ''b'' [] []] [RelNode 7 ''r'' ''KNOWS'' []] [- 1, 1] =
     Some ([Node 1 ''a'' [] [], Node 2 ''b'' [] []], [Relationship 7 ''r'' 2 ''b'' 1 ''a'' ''KNOWS'' []]) \<and>
   walk [RelNode 7 ''r'' ''KNOWS'' []] (Node 1 ''a'' [] []) [- 1, 1] [Node 2 ''b'' [] []]
     [Relationship 7 ''r'' 2 ''b'' 1 ''a'' ''KNOWS'' []] \<and>
   buildPath [Node 1 ''a'' [] []] [RelNode 7 ''r'' ''KNOWS'' []] [2, 0] = None"
proof -
  have 1: "buildPath [Node 1 ''a'' [] [], Node 2 ''b'' [] []] [RelNode 7 ''r'' ''KNOWS'' []] [- 1, 1] =
     Some ([Node 1 ''a'' [] [], Node 2 ''b'' [] []], [Relationship 7 ''r'' 2 ''b'' 1 ''a'' ''KNOWS'' []])"
    by code_simp
  have 2: "\<not> all_in_range [Node 1 ''a'' [] []] [RelNode 7 ''r'' ''KNOWS'' []] [2, 0]" by code_simp
  show ?thesis
    using path_assembled [of "[- 1, 1]" "[Node 1 ''a'' [] [], Node 2 ''b'' [] []]" "[RelNode 7 ''r'' ''KNOWS'' []]"] 1 2
      path_assembled [of "[2, 0]" "[Node 1 ''a'' [] []]" "[RelNode 7 ''r'' ''KNOWS'' []]"]
    by simp
qed

end
