(* ===== verification/Mapping_Struct.thy ===== *)
theory Mapping_Struct
  imports Errors
begin

text \<open>
  User structs as maps: the encoding half of src/neo4j/internal/mapping/mapping.go (StructAsMap with fieldByIndex
  and buildFields), parseTag, the choice of fields for decoding (decodeFieldsOf) and intFitsFloat. A struct type is
  the list of its fields, as reflect shows them; a struct value has a tree of the same shape. The caches of the
  package are keyed by type and hold the results of pure functions, so they are left out.
\<close>

section \<open>Struct types and values\<close>

text \<open>
  A field with its name, its neo4j tag, whether it is exported and, when it is anonymous and its type is a struct or
  a pointer to one, the fields of that struct.
\<close>

datatype sfield = SField (sf_name: string) (sf_tag: string) (sf_exported: bool) (sf_embed: "sfield list option")

text \<open>
  The value of a field: any value, with IsZero; a struct that is embedded, or pointed to by an embedded pointer; a
  nil embedded pointer.
\<close>

datatype 'v sval = SLeaf 'v bool | SSub "'v sval list" | SNilEmbed

record fieldInfo =
  fi_name :: string
  fi_index :: "nat list"
  fi_omitEmpty :: bool

definition parseTag :: "string \<Rightarrow> string \<times> bool" where
  "parseTag tag =
     (if tag = [] then ([], False)
      else case split_at (CHR '','') tag of
             [] \<Rightarrow> ([], False)
           | name # opts \<Rightarrow> (name, ''omitempty'' \<in> set opts))"

text \<open>A field that is not flattened.\<close>

definition plain_field :: "sfield \<Rightarrow> nat list \<Rightarrow> fieldInfo list" where
  "plain_field f idx =
     (if \<not> sf_exported f then []
      else if sf_tag f = ''-'' then []
      else case parseTag (sf_tag f) of
             (name, omitEmpty) \<Rightarrow>
               [\<lparr>fi_name = (if name = [] then sf_name f else name), fi_index = idx, fi_omitEmpty = omitEmpty\<rparr>])"

text \<open>The loop over the fields; \<open>i\<close> is the position of the next one.\<close>

fun buildFields :: "sfield list \<Rightarrow> nat \<Rightarrow> nat list \<Rightarrow> fieldInfo list" where
  "buildFields [] i indexPath = []"
| "buildFields (SField name tag exported (Some fs) # ts) i indexPath =
     (if tag = [] then buildFields fs 0 (indexPath @ [i])
      else plain_field (SField name tag exported (Some fs)) (indexPath @ [i])) @ buildFields ts (i + 1) indexPath"
| "buildFields (SField name tag exported None # ts) i indexPath =
     plain_field (SField name tag exported None) (indexPath @ [i]) @ buildFields ts (i + 1) indexPath"

definition fieldsOf :: "sfield list \<Rightarrow> fieldInfo list" where
  "fieldsOf t = buildFields t 0 []"

text \<open>\<open>Some None\<close>: the field is behind a nil embedded pointer. \<^const>\<open>None\<close>: the index does not fit the value.\<close>

fun fieldByIndex :: "'v sval \<Rightarrow> nat list \<Rightarrow> 'v sval option option" where
  "fieldByIndex v [] = Some (Some v)"
| "fieldByIndex SNilEmbed (i # is) = Some None"
| "fieldByIndex (SSub vs) (i # is) = do { v \<leftarrow> at vs i; fieldByIndex v is }"
| "fieldByIndex (SLeaf v z) (i # is) = None"

fun as_map_loop :: "'v sval \<Rightarrow> fieldInfo list \<Rightarrow> (string \<times> 'v) list \<Rightarrow> (string \<times> 'v) list option" where
  "as_map_loop v [] out = Some out"
| "as_map_loop v (f # fs) out =
     do { fv \<leftarrow> fieldByIndex v (fi_index f);
          case fv of
            None \<Rightarrow> as_map_loop v fs out
          | Some (SLeaf x zero) \<Rightarrow>
              if fi_omitEmpty f \<and> zero then as_map_loop v fs out
              else as_map_loop v fs (map_put (fi_name f) x out)
          | _ \<Rightarrow> None }"

text \<open>The map of a struct value; the code refuses everything else and answers nil for a nil pointer.\<close>

definition StructAsMap :: "sfield list \<Rightarrow> 'v sval list \<Rightarrow> (string \<times> 'v) list option" where
  "StructAsMap t vs = as_map_loop (SSub vs) (fieldsOf t) []"

section \<open>Fields for decoding\<close>

text \<open>The loop over the fields of one name: the shallowest wins, an equal depth is ambiguous.\<close>

definition pick :: "fieldInfo \<times> bool \<Rightarrow> fieldInfo \<Rightarrow> fieldInfo \<times> bool" where
  "pick wa f =
     (if length (fi_index f) < length (fi_index (fst wa)) then (f, False)
      else if length (fi_index f) = length (fi_index (fst wa)) then (fst wa, True)
      else wa)"

definition decodeField :: "sfield list \<Rightarrow> string \<Rightarrow> fieldInfo option" where
  "decodeField t name =
     (case filter (\<lambda>f. fi_name f = name) (fieldsOf t) of
        [] \<Rightarrow> None
      | f # fs \<Rightarrow> (case foldl pick (f, False) fs of (winner, ambiguous) \<Rightarrow> if ambiguous then None else Some winner))"

section \<open>Integers as floats\<close>

text \<open>bits.Len64 and bits.TrailingZeros64.\<close>

fun bit_len :: "nat \<Rightarrow> nat" where
  "bit_len n = (if n = 0 then 0 else 1 + bit_len (n div 2))"

fun trailing_zeros :: "nat \<Rightarrow> nat" where
  "trailing_zeros n = (if n = 0 then 64 else if odd n then 0 else 1 + trailing_zeros (n div 2))"

definition intFitsFloat :: "int64 \<Rightarrow> nat \<Rightarrow> bool" where
  "intFitsFloat n floatBits =
     (if n = 0 then True
      else let mantissa = (if floatBits = 32 then 24 else 53);
               u = unat (if sint n < 0 then - n else n)
           in bit_len u - trailing_zeros u \<le> mantissa)"

section \<open>Exact conversion\<close>

declare bit_len.simps [simp del] trailing_zeros.simps [simp del]

lemma bit_len_le: "bit_len n \<le> k \<longleftrightarrow> n < 2 ^ k"
proof (induction n arbitrary: k rule: bit_len.induct)
  case (1 n)
  show ?case
  proof (cases k)
    case 0
    then show ?thesis by (simp add: bit_len.simps [of n])
  next
    case (Suc j)
    have "n div 2 < 2 ^ j \<longleftrightarrow> n < 2 ^ Suc j" by (simp add: div_less_iff_less_mult mult.commute)
    then show ?thesis using 1 Suc by (cases "n = 0") (simp_all add: bit_len.simps [of n] bit_len.simps [of 0])
  qed
qed

lemma bit_len_shift: "0 < m \<Longrightarrow> bit_len (m * 2 ^ k) = bit_len m + k"
proof (induction k)
  case (Suc k)
  then have "bit_len (m * 2 ^ Suc k) = 1 + bit_len (m * 2 ^ k)" by (subst bit_len.simps) simp
  with Suc show ?case by simp
qed simp

lemma odd_part: "0 < n \<Longrightarrow> \<exists>m. odd m \<and> n = m * 2 ^ trailing_zeros n"
proof (induction n rule: trailing_zeros.induct)
  case (1 n)
  show ?case
  proof (cases "odd n")
    case True
    then show ?thesis using 1 by (auto simp: trailing_zeros.simps [of n])
  next
    case False
    with 1 have "0 < n div 2" by (auto simp: div_greater_zero_iff)
    with False 1 obtain m where "odd m" "n div 2 = m * 2 ^ trailing_zeros (n div 2)" by auto
    with False \<open>0 < n\<close> show ?thesis
      by (intro exI [of _ m]) (auto simp: trailing_zeros.simps [of n] elim!: evenE)
  qed
qed

lemma odd_part_least:
  fixes m m0 :: nat
  assumes "odd m0" and "m0 * 2 ^ t = m * 2 ^ e"
  shows "m0 \<le> m"
proof (cases "e \<le> t")
  case True
  then have "m0 * 2 ^ (t - e) * 2 ^ e = m * 2 ^ e" using assms(2) by (simp add: mult.assoc power_add [symmetric])
  then have "m = m0 * 2 ^ (t - e)" by simp
  then show ?thesis by simp
next
  case False
  then have "m0 * 2 ^ t = m * 2 ^ (e - t) * 2 ^ t" using assms(2) by (simp add: mult.assoc power_add [symmetric])
  then have "m0 = m * 2 ^ (e - t)" by simp
  with False have "even m0" by simp
  with assms(1) show ?thesis by simp
qed

lemma exact_iff:
  assumes "0 < n"
  shows "bit_len n - trailing_zeros n \<le> k \<longleftrightarrow> (\<exists>m e. n = m * 2 ^ e \<and> m < 2 ^ k)"
proof -
  obtain m0 where m0: "odd m0" "n = m0 * 2 ^ trailing_zeros n" using odd_part [OF assms] by blast
  then have "0 < m0" using assms by (cases m0) auto
  then have "bit_len n = bit_len m0 + trailing_zeros n" by (subst m0(2)) (rule bit_len_shift)
  then have "bit_len n - trailing_zeros n \<le> k \<longleftrightarrow> m0 < 2 ^ k" by (simp add: bit_len_le)
  also have "\<dots> \<longleftrightarrow> (\<exists>m e. n = m * 2 ^ e \<and> m < 2 ^ k)"
    using m0 odd_part_least [OF m0(1)] by (metis order_le_less_trans)
  finally show ?thesis .
qed

lemma unat_abs: "int (unat (if sint n < 0 then - n else n)) = \<bar>sint n\<bar>" for n :: int64
proof -
  have w: "(if sint n < 0 then - n else n) = word_of_int \<bar>sint n\<bar>" by simp
  have "\<bar>sint n\<bar> < 2 ^ 64" using sint_lt [of n] sint_ge [of n] by simp
  then have "uint (word_of_int \<bar>sint n\<bar> :: int64) = \<bar>sint n\<bar>"
    by (simp add: unsigned_of_int take_bit_int_eq_self)
  then show ?thesis unfolding w by simp
qed

text \<open>
  C10: an integer is accepted for a float field exactly when the float can hold it: intFitsFloat answers whether the
  number is an integer of at most 24 bits (float32) or 53 bits (float64) times a power of two, also for the
  smallest int64, whose negation overflows.
\<close>

theorem intFitsFloat_exact:
  assumes "b = 32 \<or> b = 64"
  shows "intFitsFloat n b \<longleftrightarrow> (\<exists>m e. sint n = m * 2 ^ e \<and> \<bar>m\<bar> < 2 ^ (if b = 32 then 24 else 53))"
proof (cases "n = 0")
  case True
  then show ?thesis by (auto simp: intFitsFloat_def intro!: exI [of _ 0])
next
  case False
  define u where "u = unat (if sint n < 0 then - n else n)"
  define k :: nat where "k = (if b = 32 then 24 else 53)"
  have u: "int u = \<bar>sint n\<bar>" unfolding u_def by (rule unat_abs)
  have "sint n \<noteq> 0" using False by (metis signed_eq_0_iff)
  with u have "0 < u" by linarith
  have "intFitsFloat n b \<longleftrightarrow> bit_len u - trailing_zeros u \<le> k"
    using False by (simp add: intFitsFloat_def u_def k_def Let_def)
  also have "\<dots> \<longleftrightarrow> (\<exists>m e. u = m * 2 ^ e \<and> m < 2 ^ k)"
    by (rule exact_iff [OF \<open>0 < u\<close>])
  also have "\<dots> \<longleftrightarrow> (\<exists>m e. sint n = m * 2 ^ e \<and> \<bar>m\<bar> < 2 ^ k)"
  proof
    assume "\<exists>m e. u = m * 2 ^ e \<and> m < 2 ^ k"
    then obtain m e where "u = m * 2 ^ e" "m < 2 ^ k" by blast
    then have "sint n = (if sint n < 0 then - int m else int m) * 2 ^ e" using u by auto
    moreover have "\<bar>if sint n < 0 then - int m else int m\<bar> < 2 ^ k" using \<open>m < 2 ^ k\<close> by simp
    ultimately show "\<exists>m e. sint n = m * 2 ^ e \<and> \<bar>m\<bar> < 2 ^ k" by blast
  next
    assume "\<exists>m e. sint n = m * 2 ^ e \<and> \<bar>m\<bar> < 2 ^ k"
    then obtain m e where m: "sint n = m * 2 ^ e" "\<bar>m\<bar> < 2 ^ k" by blast
    then have "int u = int (nat \<bar>m\<bar> * 2 ^ e)" using u by (simp add: abs_mult)
    then have "u = nat \<bar>m\<bar> * 2 ^ e" by (simp only: of_nat_eq_iff)
    moreover have "nat \<bar>m\<bar> < 2 ^ k" using m(2) by (simp add: nat_less_iff)
    ultimately show "\<exists>m e. u = m * 2 ^ e \<and> m < 2 ^ k" by blast
  qed
  finally show ?thesis by (simp add: k_def)
qed

theorem intFitsFloat_exact_witness:
  "\<exists>m e. sint (- 96 :: int64) = m * 2 ^ e \<and> \<bar>m\<bar> < (2 :: int) ^ 24"
proof -
  have "intFitsFloat (- 96) 32" by code_simp
  then show ?thesis using intFitsFloat_exact [of 32 "- 96"] by simp
qed

section \<open>Encoding and decoding name the same fields\<close>

definition sent :: "'v sval \<Rightarrow> fieldInfo \<Rightarrow> 'v option" where
  "sent v f =
     (case fieldByIndex v (fi_index f) of
        Some (Some (SLeaf x zero)) \<Rightarrow> if fi_omitEmpty f \<and> zero then None else Some x
      | _ \<Rightarrow> None)"

lemma as_map_step:
  assumes "as_map_loop v (f # fs) out = Some m"
  shows "as_map_loop v fs (case sent v f of None \<Rightarrow> out | Some x \<Rightarrow> map_put (fi_name f) x out) = Some m"
proof (cases "fieldByIndex v (fi_index f)")
  case (Some fv)
  show ?thesis
  proof (cases fv)
    case None
    with Some assms show ?thesis by (simp add: sent_def)
  next
    case (Some w)
    with \<open>fieldByIndex v (fi_index f) = Some fv\<close> assms show ?thesis
      by (cases w) (auto simp: sent_def split: if_splits)
  qed
qed (use assms in simp)

lemma as_map_loop_lookup:
  assumes "as_map_loop v fs out = Some m" and "distinct (map fi_name fs)"
  shows "map_of m k = (case find (\<lambda>f. fi_name f = k) fs of
     None \<Rightarrow> map_of out k
   | Some f \<Rightarrow> (case sent v f of None \<Rightarrow> map_of out k | Some x \<Rightarrow> Some x))"
  using assms
proof (induction fs arbitrary: out)
  case (Cons f fs)
  let ?out = "case sent v f of None \<Rightarrow> out | Some x \<Rightarrow> map_put (fi_name f) x out"
  have m: "map_of m k = (case find (\<lambda>f. fi_name f = k) fs of
     None \<Rightarrow> map_of ?out k
   | Some f \<Rightarrow> (case sent v f of None \<Rightarrow> map_of ?out k | Some x \<Rightarrow> Some x))"
    using Cons.prems by (intro Cons.IH as_map_step) simp_all
  show ?case
  proof (cases "fi_name f = k")
    case True
    then have "find (\<lambda>f. fi_name f = k) fs = None"
      using Cons.prems(2) by (auto simp: find_None_iff image_iff)
    with m True show ?thesis by (simp split: option.split)
  next
    case False
    with m show ?thesis by (auto split: option.split)
  qed
qed simp

lemma filter_distinct_name:
  "distinct (map fi_name fs) \<Longrightarrow> f \<in> set fs \<Longrightarrow> filter (\<lambda>g. fi_name g = fi_name f) fs = [f]"
proof (induction fs)
  case (Cons g fs)
  then show ?case by (cases "f = g") (auto simp: filter_empty_conv image_iff)
qed simp

lemma find_filter: "filter P xs = [x] \<Longrightarrow> find P xs = Some x"
  by (induction xs) (auto split: if_splits)

section \<open>What a struct sends\<close>

text \<open>
  The rules for users: the fields of embedded structs without a tag belong to the struct; a field is sent when it is
  exported and its tag is not a dash, under the name before the first comma of the tag or else its own, and omitempty
  among the options drops zero values.
\<close>

definition property_name :: "string \<Rightarrow> string \<Rightarrow> string" where
  "property_name n tag = (let k = takeWhile (\<lambda>c. c \<noteq> CHR '','') tag in if k = [] then n else k)"

definition omits :: "string \<Rightarrow> bool" where
  "omits tag \<longleftrightarrow> ''omitempty'' \<in> set (tl (split_at (CHR '','') tag))"

inductive prop_at :: "sfield list \<Rightarrow> nat list \<Rightarrow> string \<Rightarrow> bool \<Rightarrow> bool" where
  "i < length t \<Longrightarrow> t ! i = SField n tag True emb \<Longrightarrow> tag \<noteq> ''-'' \<Longrightarrow> emb = None \<or> tag \<noteq> [] \<Longrightarrow>
     prop_at t [i] (property_name n tag) (omits tag)"
| "i < length t \<Longrightarrow> t ! i = SField n [] ex (Some fs) \<Longrightarrow> prop_at fs is k om \<Longrightarrow> prop_at t (i # is) k om"

inductive sends :: "sfield list \<Rightarrow> 'v sval list \<Rightarrow> string \<Rightarrow> 'v \<Rightarrow> bool" where
  "i < length t \<Longrightarrow> t ! i = SField n tag True emb \<Longrightarrow> tag \<noteq> ''-'' \<Longrightarrow> emb = None \<or> tag \<noteq> [] \<Longrightarrow>
     i < length vs \<Longrightarrow> vs ! i = SLeaf x zero \<Longrightarrow> \<not> (omits tag \<and> zero) \<Longrightarrow> sends t vs (property_name n tag) x"
| "i < length t \<Longrightarrow> t ! i = SField n [] ex (Some fs) \<Longrightarrow> i < length vs \<Longrightarrow> vs ! i = SSub ws \<Longrightarrow> sends fs ws k x \<Longrightarrow> sends t vs k x"

text \<open>A value of a struct type.\<close>

inductive fshaped :: "sfield \<Rightarrow> 'v sval \<Rightarrow> bool" where
  "emb = None \<or> tag \<noteq> [] \<Longrightarrow> fshaped (SField n tag ex emb) (SLeaf x z)"
| "list_all2 fshaped fs ws \<Longrightarrow> fshaped (SField n [] ex (Some fs)) (SSub ws)"
| "fshaped (SField n [] ex (Some fs)) SNilEmbed"
  monos list_all2_mono

inductive_simps prop_at_Nil: "prop_at t [] k om"
inductive_simps prop_at_step: "prop_at t (i # is) k om"
inductive_simps fshaped_simps: "fshaped (SField n tag ex emb) v"

lemma prop_at_0:
  "prop_at (SField n tag ex emb # ts) (0 # is) k om \<longleftrightarrow>
     (is = [] \<and> ex \<and> tag \<noteq> ''-'' \<and> (emb = None \<or> tag \<noteq> []) \<and> k = property_name n tag \<and> om = omits tag) \<or>
     (tag = [] \<and> (\<exists>fs. emb = Some fs \<and> prop_at fs is k om))"
  by (subst prop_at_step) (auto simp: prop_at_Nil)

lemma prop_at_Suc: "prop_at (f # ts) (Suc j # is) k om \<longleftrightarrow> prop_at ts (j # is) k om"
  by (simp add: prop_at_step)

lemma split_at_hd: "hd (split_at c s) = takeWhile (\<lambda>x. x \<noteq> c) s \<and> split_at c s \<noteq> []"
  by (induction s) (auto split: list.split)

lemma parseTag_spec: "parseTag tag = (takeWhile (\<lambda>c. c \<noteq> CHR '','') tag, omits tag)"
  using split_at_hd [of "CHR '',''" tag] by (cases "split_at (CHR '','') tag") (auto simp: parseTag_def omits_def)

lemma plain_field_spec:
  "f \<in> set (plain_field (SField n tag ex emb) idx) \<longleftrightarrow>
     ex \<and> tag \<noteq> ''-'' \<and> fi_name f = property_name n tag \<and> fi_index f = idx \<and> fi_omitEmpty f = omits tag"
  by (cases f) (auto simp: plain_field_def parseTag_spec property_name_def Let_def)

lemma prop_at_ne: "prop_at t is k om \<Longrightarrow> \<exists>j js. is = j # js"
  by (cases "is") (simp_all add: prop_at_Nil)

lemma prop_at_ex: "(\<exists>is. Q is \<and> prop_at t is k om) \<longleftrightarrow> (\<exists>j js. Q (j # js) \<and> prop_at t (j # js) k om)"
  using prop_at_ne by metis

text \<open>The fields of the first field, and those of the others.\<close>

lemma prop_at_Cons:
  "(\<exists>j is. x = p @ (i + j) # is \<and> prop_at (f # ts) (j # is) k om) \<longleftrightarrow>
     (\<exists>is. x = p @ i # is \<and> prop_at (f # ts) (0 # is) k om) \<or>
     (\<exists>j is. x = p @ (i + 1 + j) # is \<and> prop_at ts (j # is) k om)" (is "?l \<longleftrightarrow> ?r")
proof
  assume ?l
  then obtain j "is" where j: "x = p @ (i + j) # is" "prop_at (f # ts) (j # is) k om" by blast
  then show ?r by (cases j) (auto simp: prop_at_Suc)
next
  assume ?r
  then show ?l
  proof
    assume "\<exists>is. x = p @ i # is \<and> prop_at (f # ts) (0 # is) k om"
    then show ?l by (intro exI [of _ 0]) simp
  next
    assume "\<exists>j is. x = p @ (i + 1 + j) # is \<and> prop_at ts (j # is) k om"
    then obtain j "is" where "x = p @ (i + Suc j) # is" "prop_at (f # ts) (Suc j # is) k om" by (auto simp: prop_at_Suc)
    then show ?l by blast
  qed
qed

lemma buildFields_spec:
  "f \<in> set (buildFields t i p) \<longleftrightarrow>
     (\<exists>j is. fi_index f = p @ (i + j) # is \<and> prop_at t (j # is) (fi_name f) (fi_omitEmpty f))"
proof (induction t i p rule: buildFields.induct)
  case (1 i p)
  then show ?case by (simp add: prop_at_step)
next
  case (2 n tag ex fs ts i p)
  have "f \<in> set (buildFields fs 0 (p @ [i])) \<longleftrightarrow> (\<exists>is. fi_index f = p @ i # is \<and> prop_at fs is (fi_name f) (fi_omitEmpty f))" if "tag = []"
    unfolding 2(1) [OF that] prop_at_ex by simp
  then show ?case
    unfolding prop_at_Cons buildFields.simps set_append Un_iff 2(2) prop_at_0 by (auto simp: plain_field_spec)
next
  case (3 n tag ex ts i p)
  show ?case
    unfolding prop_at_Cons buildFields.simps set_append Un_iff 3 prop_at_0 by (auto simp: plain_field_spec)
qed

lemma fieldsOf_spec: "f \<in> set (fieldsOf t) \<longleftrightarrow> prop_at t (fi_index f) (fi_name f) (fi_omitEmpty f)"
  unfolding fieldsOf_def buildFields_spec by (cases "fi_index f") (auto simp: prop_at_Nil)

lemma plain_field_distinct: "distinct (map fi_index (plain_field f idx))"
  by (auto simp: plain_field_def split: prod.split)

lemma buildFields_later:
  assumes "x \<in> set xs" "\<And>x. x \<in> set xs \<Longrightarrow> \<exists>is. fi_index x = p @ i # is" "y \<in> set (buildFields ts (i + 1) p)"
  shows "fi_index x \<noteq> fi_index y"
  using assms(2) [OF assms(1)] assms(3) unfolding buildFields_spec by auto

lemma buildFields_indexes: "distinct (map fi_index (buildFields t i p))"
proof (induction t i p rule: buildFields.induct)
  case (2 n tag ex fs ts i p)
  let ?f = "SField n tag ex (Some fs)"
  let ?here = "if tag = [] then buildFields fs 0 (p @ [i]) else plain_field ?f (p @ [i])"
  have "\<exists>is. fi_index x = p @ i # is" if "x \<in> set ?here" for x
    using that by (cases "tag = []") (auto simp: buildFields_spec plain_field_spec)
  then have "fi_index x \<noteq> fi_index y" if "x \<in> set ?here" "y \<in> set (buildFields ts (i + 1) p)" for x y
    using that buildFields_later [of x ?here p i] by blast
  moreover have "distinct (map fi_index ?here)" using 2(1) plain_field_distinct by simp
  ultimately show ?case using 2(2) unfolding buildFields.simps map_append distinct_append by auto
next
  case (3 n tag ex ts i p)
  let ?here = "plain_field (SField n tag ex None) (p @ [i])"
  have "\<exists>is. fi_index x = p @ i # is" if "x \<in> set ?here" for x using that by (simp add: plain_field_spec)
  then have "fi_index x \<noteq> fi_index y" if "x \<in> set ?here" "y \<in> set (buildFields ts (i + 1) p)" for x y
    using that buildFields_later [of x ?here p i] by blast
  then show ?case using 3 plain_field_distinct unfolding buildFields.simps map_append distinct_append by auto
qed simp

lemma fieldsOf_names:
  assumes "\<forall>k is js o1 o2. prop_at t is k o1 \<longrightarrow> prop_at t js k o2 \<longrightarrow> is = js"
  shows "distinct (map fi_name (fieldsOf t))"
proof -
  have "distinct (fieldsOf t)" "inj_on fi_index (set (fieldsOf t))"
    using buildFields_indexes [of t 0 "[]"] by (simp_all add: fieldsOf_def distinct_map)
  moreover have "fi_index f = fi_index g" if "f \<in> set (fieldsOf t)" "g \<in> set (fieldsOf t)" "fi_name f = fi_name g" for f g
    using assms that unfolding fieldsOf_spec by metis
  ultimately have "inj_on fi_name (set (fieldsOf t))" by (intro inj_onI) (blast dest: inj_onD)
  then show ?thesis using \<open>distinct (fieldsOf t)\<close> by (simp add: distinct_map)
qed

lemma sends_spec:
  "sends t vs k x \<longleftrightarrow> (\<exists>is om z. prop_at t is k om \<and> fieldByIndex (SSub vs) is = Some (Some (SLeaf x z)) \<and> \<not> (om \<and> z))"
proof
  assume "sends t vs k x"
  then show "\<exists>is om z. prop_at t is k om \<and> fieldByIndex (SSub vs) is = Some (Some (SLeaf x z)) \<and> \<not> (om \<and> z)"
  proof induction
    case (1 i t n tag emb vs x zero)
    then have "prop_at t [i] (property_name n tag) (omits tag)" "fieldByIndex (SSub vs) [i] = Some (Some (SLeaf x zero))"
      by (auto intro: prop_at.intros simp: at_def)
    with 1 show ?case by blast
  next
    case (2 i t n ex fs vs ws k x)
    then obtain "is" om z where "prop_at fs is k om" "fieldByIndex (SSub ws) is = Some (Some (SLeaf x z))" "\<not> (om \<and> z)" by blast
    moreover from this 2 have "prop_at t (i # is) k om" "fieldByIndex (SSub vs) (i # is) = Some (Some (SLeaf x z))"
      by (auto intro: prop_at.intros simp: at_def)
    ultimately show ?case by blast
  qed
next
  assume "\<exists>is om z. prop_at t is k om \<and> fieldByIndex (SSub vs) is = Some (Some (SLeaf x z)) \<and> \<not> (om \<and> z)"
  then obtain "is" om z where "prop_at t is k om" "fieldByIndex (SSub vs) is = Some (Some (SLeaf x z))" "\<not> (om \<and> z)" by blast
  then show "sends t vs k x"
  proof (induction arbitrary: vs)
    case (1 i t n tag emb)
    then show ?case by (auto simp: at_def bind_eq_Some_conv split: if_splits intro: sends.intros(1))
  next
    case (2 i t n ex fs "is" k om)
    from 2(5) obtain v where v: "at vs i = Some v" "fieldByIndex v is = Some (Some (SLeaf x z))" by (auto simp: bind_eq_Some_conv)
    obtain j js where "is = j # js" using 2(3) by (cases "is") (auto simp: prop_at_Nil)
    with v(2) obtain ws where ws: "v = SSub ws" by (cases v) auto
    then have "sends fs ws k x" using 2(4) [of ws] 2(6) v(2) by simp
    then show ?case using 2(1,2) v(1) ws by (auto simp: at_def split: if_splits intro: sends.intros(2))
  qed
qed

lemma shaped_field:
  assumes "prop_at t is k om" "list_all2 fshaped t vs"
  shows "\<exists>w. fieldByIndex (SSub vs) is = Some w \<and> (case w of None \<Rightarrow> True | Some (SLeaf x z) \<Rightarrow> True | _ \<Rightarrow> False)"
  using assms
proof (induction arbitrary: vs)
  case (1 i t n tag emb)
  then have "i < length vs" "fshaped (SField n tag True emb) (vs ! i)" by (auto simp: list_all2_conv_all_nth)
  then show ?case using 1(4) by (auto simp: at_def fshaped_simps)
next
  case (2 i t n ex fs "is" k om)
  then have v: "i < length vs" "fshaped (SField n [] ex (Some fs)) (vs ! i)" by (auto simp: list_all2_conv_all_nth)
  obtain j js where "is = j # js" using 2(3) by (cases "is") (auto simp: prop_at_Nil)
  then show ?case using v 2(4) by (auto simp: at_def fshaped_simps)
qed

lemma as_map_loop_returns:
  assumes "\<And>f. f \<in> set fs \<Longrightarrow> \<exists>w. fieldByIndex v (fi_index f) = Some w \<and> (case w of None \<Rightarrow> True | Some (SLeaf x z) \<Rightarrow> True | _ \<Rightarrow> False)"
  shows "\<exists>m. as_map_loop v fs out = Some m"
  using assms
proof (induction fs arbitrary: out)
  case (Cons f fs)
  from Cons.prems [of f] obtain w where "fieldByIndex v (fi_index f) = Some w"
    "case w of None \<Rightarrow> True | Some (SLeaf x z) \<Rightarrow> True | _ \<Rightarrow> False" by auto
  then show ?case using Cons by (cases w) (auto split: sval.splits)
qed simp

lemma sent_Some: "sent v f = Some x \<longleftrightarrow> (\<exists>z. fieldByIndex v (fi_index f) = Some (Some (SLeaf x z)) \<and> \<not> (fi_omitEmpty f \<and> z))"
  by (auto simp: sent_def split: option.splits sval.splits if_splits)

text \<open>
  C18: the map sent for a struct holds exactly what the rules for users say, when no two of its fields, those of embedded
  structs included, have the same property name: under a name there is the value of the exported field with that name,
  unless it is omitted as empty or behind a nil embedded pointer, and nothing else is in the map; the map is made for
  every value of the type. Decoding assigns the property of a name to the same field.
\<close>

theorem struct_map_faithful:
  assumes "list_all2 fshaped t vs"
    and "\<forall>k is js o1 o2. prop_at t is k o1 \<longrightarrow> prop_at t js k o2 \<longrightarrow> is = js"
  shows "\<exists>m. StructAsMap t vs = Some m \<and> (\<forall>k x. map_of m k = Some x \<longleftrightarrow> sends t vs k x) \<and>
    (\<forall>k is. map_option fi_index (decodeField t k) = Some is \<longleftrightarrow> (\<exists>om. prop_at t is k om))"
proof -
  have one: "filter (\<lambda>g. fi_name g = k) (fieldsOf t) = [f]" if "f \<in> set (fieldsOf t)" "fi_name f = k" for f k
    using filter_distinct_name [OF fieldsOf_names [OF assms(2)]] that by blast
  obtain m where m: "StructAsMap t vs = Some m"
    using as_map_loop_returns [of "fieldsOf t" "SSub vs" "[]"] shaped_field [OF _ assms(1)]
    by (auto simp: StructAsMap_def fieldsOf_spec)
  have look: "map_of m k = (case find (\<lambda>f. fi_name f = k) (fieldsOf t) of None \<Rightarrow> None | Some f \<Rightarrow> sent (SSub vs) f)" for k
    using as_map_loop_lookup [of "SSub vs" "fieldsOf t" "[]" m k] m fieldsOf_names [OF assms(2)]
    by (simp add: StructAsMap_def split: option.split)
  have "map_of m k = Some x \<longleftrightarrow> (\<exists>f \<in> set (fieldsOf t). fi_name f = k \<and> sent (SSub vs) f = Some x)" for k x
  proof (cases "\<exists>f \<in> set (fieldsOf t). fi_name f = k")
    case True
    then obtain f where f: "f \<in> set (fieldsOf t)" "fi_name f = k" by blast
    have "g = f" if "g \<in> set (fieldsOf t)" "fi_name g = k" for g using one [OF that] one [OF f] by simp
    then have "(\<exists>g \<in> set (fieldsOf t). fi_name g = k \<and> sent (SSub vs) g = Some x) \<longleftrightarrow> sent (SSub vs) f = Some x" using f by blast
    then show ?thesis using look [of k] find_filter [OF one [OF f]] by simp
  next
    case False
    then have "find (\<lambda>f. fi_name f = k) (fieldsOf t) = None" by (simp add: find_None_iff)
    then show ?thesis using look [of k] False by auto
  qed
  moreover have "(\<exists>f \<in> set (fieldsOf t). fi_name f = k \<and> sent (SSub vs) f = Some x) \<longleftrightarrow> sends t vs k x" for k x
  proof
    assume "\<exists>f \<in> set (fieldsOf t). fi_name f = k \<and> sent (SSub vs) f = Some x"
    then show "sends t vs k x" unfolding sends_spec sent_Some Bex_def fieldsOf_spec by blast
  next
    assume "sends t vs k x"
    then obtain "is" om z where "prop_at t is k om" "fieldByIndex (SSub vs) is = Some (Some (SLeaf x z))" "\<not> (om \<and> z)"
      unfolding sends_spec by blast
    then show "\<exists>f \<in> set (fieldsOf t). fi_name f = k \<and> sent (SSub vs) f = Some x"
      by (intro bexI [of _ "\<lparr>fi_name = k, fi_index = is, fi_omitEmpty = om\<rparr>"]) (auto simp: sent_Some fieldsOf_spec)
  qed
  moreover have "map_option fi_index (decodeField t k) = Some is \<longleftrightarrow> (\<exists>om. prop_at t is k om)" for k "is"
  proof (cases "\<exists>f \<in> set (fieldsOf t). fi_name f = k")
    case True
    then obtain f where f: "f \<in> set (fieldsOf t)" "fi_name f = k" by blast
    then have "prop_at t (fi_index f) k (fi_omitEmpty f)" by (simp add: fieldsOf_spec)
    then have "(\<exists>om. prop_at t is k om) \<longleftrightarrow> is = fi_index f" using assms(2) [rule_format, of "is" k _ "fi_index f"] by blast
    then show ?thesis using one [OF f] by (auto simp: decodeField_def)
  next
    case False
    then have "\<not> prop_at t is k om" for om
      using fieldsOf_spec [of "\<lparr>fi_name = k, fi_index = is, fi_omitEmpty = om\<rparr>" t] by auto
    moreover have "filter (\<lambda>g. fi_name g = k) (fieldsOf t) = []" using False by (auto simp: filter_empty_conv)
    ultimately show ?thesis by (simp add: decodeField_def)
  qed
  ultimately have "map_of m k = Some x \<longleftrightarrow> sends t vs k x"
    "map_option fi_index (decodeField t k) = Some is \<longleftrightarrow> (\<exists>om. prop_at t is k om)" for k x "is" by simp_all
  then show ?thesis using m by (intro exI [of _ m] conjI allI)
qed

definition person_type :: "sfield list" where
  "person_type = [SField ''Name'' [] True None, SField ''secret'' [] False None, SField ''Note'' ''-'' True None,
     SField ''base'' [] False (Some [SField ''Age'' ''age,omitempty'' True None])]"

definition person :: "goval sval list" where
  "person = [SLeaf (VStr ''A'') False, SLeaf (VInt 1) False, SLeaf (VInt 2) False, SSub [SLeaf (VInt 7) False]]"

lemma person_props:
  "prop_at person_type is k om \<longleftrightarrow> is = [0] \<and> k = ''Name'' \<and> om = False \<or> is = [3, 0] \<and> k = ''age'' \<and> om = True"
proof -
  let ?f = "\<lparr>fi_name = k, fi_index = is, fi_omitEmpty = om\<rparr>"
  have "fieldsOf person_type = [\<lparr>fi_name = ''Name'', fi_index = [0], fi_omitEmpty = False\<rparr>,
      \<lparr>fi_name = ''age'', fi_index = [3, 0], fi_omitEmpty = True\<rparr>]"
    by code_simp
  moreover have "prop_at person_type is k om \<longleftrightarrow> ?f \<in> set (fieldsOf person_type)" by (simp add: fieldsOf_spec)
  ultimately show ?thesis by auto
qed

theorem struct_map_faithful_witness:
  "\<exists>m. StructAsMap person_type person = Some m \<and> map_of m ''Name'' = Some (VStr ''A'') \<and> map_of m ''age'' = Some (VInt 7) \<and>
     map_of m ''secret'' = None \<and> map_of m ''Note'' = None \<and> map_option fi_index (decodeField person_type ''age'') = Some [3, 0]"
proof -
  have v: "list_all2 fshaped person_type person" by (simp add: person_type_def person_def fshaped_simps) blast
  have u: "\<forall>k is js o1 o2. prop_at person_type is k o1 \<longrightarrow> prop_at person_type js k o2 \<longrightarrow> is = js"
    by (simp add: person_props)
  from struct_map_faithful [OF v u] obtain m where m: "StructAsMap person_type person = Some m"
    "\<And>k x. map_of m k = Some x \<longleftrightarrow> sends person_type person k x"
    "\<And>k is. map_option fi_index (decodeField person_type k) = Some is \<longleftrightarrow> (\<exists>om. prop_at person_type is k om)" by blast
  have s: "sends person_type person k x \<longleftrightarrow> k = ''Name'' \<and> x = VStr ''A'' \<or> k = ''age'' \<and> x = VInt 7" for k x
    by (auto simp: sends_spec person_props person_def at_def ex_bool_eq)
  have "map_of m k = None" if "k \<noteq> ''Name''" "k \<noteq> ''age''" for k using m(2) [of k] s [of k] that by (cases "map_of m k") auto
  then show ?thesis using m(1,3) m(2) [of "''Name''"] m(2) [of "''age''"] s person_props by auto
qed

text \<open>
  with a shadowed field the two directions disagree. For a struct that has a field and, after it, an embedded
  struct with a field of the same name, the map sent holds the value of the embedded field, although Go and the
  decoder give the name to the outer one.
\<close>

lemma shadowed_field_sent:
  "StructAsMap [SField n [] True None, SField b [] True (Some [SField n [] True None])]
     [SLeaf x False, SSub [SLeaf y False]] = Some [(n, y)] \<and>
   decodeField [SField n [] True None, SField b [] True (Some [SField n [] True None])] n =
     Some \<lparr>fi_name = n, fi_index = [0], fi_omitEmpty = False\<rparr>"
  by (simp add: StructAsMap_def fieldsOf_def plain_field_def parseTag_def at_def decodeField_def pick_def)

end
