(* ===== verification/Outgoing.thy ===== *)
theory Outgoing
  imports Mapping_Struct Temporal Streams Chunking Packstream
begin

text \<open>
  From values to the bytes of a message: src/neo4j/internal/bolt/outgoing.go with the message tags of messages.go.
  The Go values that packX and packV tell apart by reflection are the constructors of \<open>goarg\<close>; a map is the list
  of its entries in the order in which the range loop meets them. The callback onPackErr is the list of the errors
  it is called with; the errors of the packer come out at the end of the message.
\<close>

section \<open>Go values as reflection sees them\<close>

text \<open>The structs of the packages dbtype and time that packStruct knows.\<close>

datatype gonative =
    GPoint2D "32 word" "64 word" "64 word" | GPoint3D "32 word" "64 word" "64 word" "64 word"
  | GTime gotime | GLocalDateTime gotime | GDate gotime | GTimeOfDay gotime | GLocalTime gotime
  | GDuration int64 int64 int64 int64
  | GVectorI8 "8 word list" | GVectorI16 "16 word list" | GVectorI32 "32 word list" | GVectorI64 "64 word list"
  | GVectorF32 "32 word list" | GVectorF64 "64 word list"

text \<open>The slice and map types with a case of their own; \<open>SNamedBytes\<close> is a slice with elements of kind uint8 that is not a []byte.\<close>

datatype goslice = SBytes bytes | SNamedBytes bytes | SInts "int64 list" | SInt64s "int64 list" | SStrings "string list"
  | SFloat64s "64 word list"

datatype gotmap = MBytes "(string \<times> bytes) list" | MInt "(string \<times> int64) list" | MInt64 "(string \<times> int64) list"
  | MString "(string \<times> string) list" | MFloat64 "(string \<times> 64 word) list"

datatype goarg =
    GNil
  | GBool bool
  | GInt int64                          \<comment> \<open>int, int8, int16, int32, int64\<close>
  | GUint32 "32 word"                   \<comment> \<open>uint8, uint16, uint32\<close>
  | GUint64 "64 word"                   \<comment> \<open>uint, uint64\<close>
  | GFloat "64 word"                    \<comment> \<open>float32, float64\<close>
  | GString string
  | GNilPtr | GPtr goarg                \<comment> \<open>a pointer, nil or to a value\<close>
  | GIface goarg                        \<comment> \<open>a reflect.Value of an interface type\<close>
  | GNative gonative
  | GStruct "sfield list" "goarg sval list"  \<comment> \<open>any other struct\<close>
  | GUUID bytes | GArray string         \<comment> \<open>dbtype.UUID; any other array type\<close>
  | GTyped goslice
  | GAnys "goarg list" | GSlice "goarg list"  \<comment> \<open>[]any; any other slice\<close>
  | GTypedMap gotmap
  | GAnyMap "(string \<times> goarg) list" | GMap "(string \<times> goarg) list"  \<comment> \<open>map[string]any; any other with string keys\<close>
  | GBadMap string | GOther string      \<comment> \<open>a map with other keys; a channel, function or complex number\<close>

definition is_struct :: "goarg \<Rightarrow> bool" where
  "is_struct g = (case g of GNative _ \<Rightarrow> True | GStruct _ _ \<Rightarrow> True | _ \<Rightarrow> False)"

definition is_array :: "goarg \<Rightarrow> bool" where
  "is_array g = (case g of GUUID _ \<Rightarrow> True | GArray _ \<Rightarrow> True | _ \<Rightarrow> False)"

text \<open>
  mapping.StructAsMap on a struct or a pointer to one. The structs of the package time have no exported field, a
  Duration has four; the others have their own cases in packStruct, by value and by pointer.
\<close>

fun native_map :: "gonative \<Rightarrow> (string \<times> goarg) list" where
  "native_map (GDuration mo d s n) = [(''Months'', GInt mo), (''Days'', GInt d), (''Seconds'', GInt s), (''Nanos'', GInt n)]"
| "native_map _ = []"

fun struct_map :: "goarg \<Rightarrow> (string \<times> goarg) list option" where
  "struct_map (GPtr g) = struct_map g"
| "struct_map (GStruct t vs) = StructAsMap t vs"
| "struct_map (GNative n) = Some (native_map n)"
| "struct_map _ = None"

section \<open>The packing state\<close>

record outgoing =
  o_chunker :: chunker
  o_packer :: packer
  o_packErrs :: "goerr list"
  o_useUtc :: bool
  o_supportsUuid :: bool

definition pk :: "(packer \<Rightarrow> packer) \<Rightarrow> outgoing \<Rightarrow> outgoing" where
  "pk f o' = o'\<lparr>o_packer := f (o_packer o')\<rparr>"

definition onPackErr :: "goerr \<Rightarrow> outgoing \<Rightarrow> outgoing" where
  "onPackErr e o' = o'\<lparr>o_packErrs := o_packErrs o' @ [e]\<rparr>"

definition begin_msg :: "outgoing \<Rightarrow> outgoing" where
  "begin_msg o' = (let c = beginMessage (o_chunker o') in o'\<lparr>o_chunker := c, o_packer := Packer_Begin (c_buf c)\<rparr>)"

definition end_msg :: "outgoing \<Rightarrow> outgoing" where
  "end_msg o' =
     (case Packer_End (o_packer o') of
        (buf, err) \<Rightarrow>
          let o1 = o'\<lparr>o_chunker := endMessage ((o_chunker o')\<lparr>c_buf := buf\<rparr>)\<rparr>
          in case err of None \<Rightarrow> o1 | Some e \<Rightarrow> onPackErr (PackstreamErr e) o1)"

section \<open>Structs\<close>

definition packUUID :: "bytes \<Rightarrow> outgoing \<Rightarrow> outgoing" where
  "packUUID u o' =
     (if \<not> o_supportsUuid o' then onPackErr (FeatureNotSupportedError [] ''UUID type'' ''requires at least Bolt 6.1'') o'
      else pk (\<lambda>p. Packer_UUID p u) o')"

definition packArray :: "goarg \<Rightarrow> outgoing \<Rightarrow> outgoing" where
  "packArray g o' =
     (case g of
        GUUID u \<Rightarrow> packUUID u o'
      | GArray t \<Rightarrow> onPackErr (UnsupportedTypeError t) o'
      | _ \<Rightarrow> onPackErr (UnsupportedTypeError []) o')"

text \<open>A struct header, two integers and a third field.\<close>

definition pack_dateTime :: "byte \<Rightarrow> int64 \<Rightarrow> int \<Rightarrow> (packer \<Rightarrow> packer) \<Rightarrow> outgoing \<Rightarrow> outgoing" where
  "pack_dateTime tag secs nsec zone o' =
     pk (\<lambda>p. zone (Packer_Int (Packer_Int64 (Packer_StructHeader p tag 3) secs) (word_of_int nsec))) o'"

definition packLegacyDateTimeWithTzOffset :: "tzdb \<Rightarrow> gotime \<Rightarrow> outgoing \<Rightarrow> outgoing" where
  "packLegacyDateTimeWithTzOffset tz t =
     pack_dateTime 0x46 (t_unix t + Zone tz t) (t_nsec t) (\<lambda>p. Packer_Int p (Zone tz t))"

definition packLegacyDateTimeWithTzName :: "tzdb \<Rightarrow> gotime \<Rightarrow> string \<Rightarrow> outgoing \<Rightarrow> outgoing" where
  "packLegacyDateTimeWithTzName tz t zid =
     pack_dateTime 0x66 (t_unix t + Zone tz t) (t_nsec t) (\<lambda>p. Packer_String p zid)"

definition packUtcDateTimeWithTzOffset :: "tzdb \<Rightarrow> gotime \<Rightarrow> outgoing \<Rightarrow> outgoing" where
  "packUtcDateTimeWithTzOffset tz t =
     pack_dateTime 0x49 (t_unix t) (t_nsec t) (\<lambda>p. Packer_Int p (Zone tz t))"

definition packUtcDateTimeWithTzName :: "gotime \<Rightarrow> string \<Rightarrow> outgoing \<Rightarrow> outgoing" where
  "packUtcDateTimeWithTzName t zid =
     pack_dateTime 0x69 (t_unix t) (t_nsec t) (\<lambda>p. Packer_String p zid)"

definition packTime :: "tzdb \<Rightarrow> gotime \<Rightarrow> outgoing \<Rightarrow> outgoing" where
  "packTime tz t o' =
     (case id_of_time tz t of
        Some zid \<Rightarrow> if o_useUtc o' then packUtcDateTimeWithTzName t zid o' else packLegacyDateTimeWithTzName tz t zid o'
      | None \<Rightarrow> if o_useUtc o' then packUtcDateTimeWithTzOffset tz t o' else packLegacyDateTimeWithTzOffset tz t o')"

text \<open>The day of a date, rounded down; Go's division truncates and its remainder has the sign of the dividend.\<close>

definition date_days :: "int64 \<Rightarrow> int64" where
  "date_days secs =
     (let days = word_of_int (sint secs sdiv 86400)
      in if sint secs smod 86400 < 0 then days - 1 else days)"

definition clock_nanos :: "tzdb \<Rightarrow> gotime \<Rightarrow> int64" where
  "clock_nanos tz t =
     3600000000000 * word_of_int (Hour tz t) + 60000000000 * word_of_int (Minute tz t) +
     1000000000 * word_of_int (Second tz t) + word_of_int (t_nsec t)"

definition pack_point2D :: "32 word \<Rightarrow> 64 word \<Rightarrow> 64 word \<Rightarrow> packer \<Rightarrow> packer" where
  "pack_point2D srid x y p = Packer_Float64 (Packer_Float64 (Packer_Uint32 (Packer_StructHeader p 0x58 3) srid) x) y"

definition pack_point3D :: "32 word \<Rightarrow> 64 word \<Rightarrow> 64 word \<Rightarrow> 64 word \<Rightarrow> packer \<Rightarrow> packer" where
  "pack_point3D srid x y z p =
     Packer_Float64 (Packer_Float64 (Packer_Float64 (Packer_Uint32 (Packer_StructHeader p 0x59 4) srid) x) y) z"

definition pack_duration :: "int64 \<Rightarrow> int64 \<Rightarrow> int64 \<Rightarrow> int64 \<Rightarrow> packer \<Rightarrow> packer" where
  "pack_duration mo d s n p =
     Packer_Int (Packer_Int64 (Packer_Int64 (Packer_Int64 (Packer_StructHeader p 0x45 4) mo) d) s) n"

text \<open>The cases of the type switch of packStruct for struct values.\<close>

fun pack_by_value :: "tzdb \<Rightarrow> gonative \<Rightarrow> outgoing \<Rightarrow> outgoing" where
  "pack_by_value tz (GPoint2D s x y) o' = pk (pack_point2D s x y) o'"
| "pack_by_value tz (GPoint3D s x y z) o' = pk (pack_point3D s x y z) o'"
| "pack_by_value tz (GTime t) o' = packTime tz t o'"
| "pack_by_value tz (GLocalDateTime t) o' =
     pk (\<lambda>p. Packer_Int (Packer_Int64 (Packer_StructHeader p 0x64 2) (t_unix t + Zone tz t)) (word_of_int (t_nsec t))) o'"
| "pack_by_value tz (GDate t) o' =
     pk (\<lambda>p. Packer_Int64 (Packer_StructHeader p 0x44 1) (date_days (t_unix t + Zone tz t))) o'"
| "pack_by_value tz (GTimeOfDay t) o' =
     pk (\<lambda>p. Packer_Int (Packer_Int64 (Packer_StructHeader p 0x54 2) (clock_nanos tz t)) (Zone tz t)) o'"
| "pack_by_value tz (GLocalTime t) o' = pk (\<lambda>p. Packer_Int64 (Packer_StructHeader p 0x74 1) (clock_nanos tz t)) o'"
| "pack_by_value tz (GDuration mo d s n) o' = pk (pack_duration mo d s n) o'"
| "pack_by_value tz (GVectorI8 v) o' = pk (\<lambda>p. Packer_VectorInt8 p v) o'"
| "pack_by_value tz (GVectorI16 v) o' = pk (\<lambda>p. Packer_VectorInt16 p v) o'"
| "pack_by_value tz (GVectorI32 v) o' = pk (\<lambda>p. Packer_VectorInt32 p v) o'"
| "pack_by_value tz (GVectorI64 v) o' = pk (\<lambda>p. Packer_VectorInt64 p v) o'"
| "pack_by_value tz (GVectorF32 v) o' = pk (\<lambda>p. Packer_VectorFloat32 p v) o'"
| "pack_by_value tz (GVectorF64 v) o' = pk (\<lambda>p. Packer_VectorFloat64 p v) o'"

text \<open>Of the pointers to these, the type switch has the points and the vectors only.\<close>

fun ptr_case :: "gonative \<Rightarrow> bool" where
  "ptr_case (GTime _) = False"
| "ptr_case (GLocalDateTime _) = False"
| "ptr_case (GDate _) = False"
| "ptr_case (GTimeOfDay _) = False"
| "ptr_case (GLocalTime _) = False"
| "ptr_case (GDuration _ _ _ _) = False"
| "ptr_case _ = True"

text \<open>\<^const>\<open>None\<close> is the default of the type switch.\<close>

fun pack_native :: "tzdb \<Rightarrow> goarg \<Rightarrow> outgoing \<Rightarrow> outgoing option" where
  "pack_native tz (GNative n) o' = Some (pack_by_value tz n o')"
| "pack_native tz (GPtr (GNative n)) o' = (if ptr_case n then Some (pack_by_value tz n o') else None)"
| "pack_native tz _ o' = None"

section \<open>Values\<close>

fun pack_typed :: "goslice \<Rightarrow> packer \<Rightarrow> packer" where
  "pack_typed (SBytes b) p = Packer_Bytes p b"
| "pack_typed (SNamedBytes b) p = foldl Packer_Uint32 (Packer_ArrayHeader p (int (length b))) (map ucast b)"
| "pack_typed (SInts xs) p = Packer_Ints p xs"
| "pack_typed (SInt64s xs) p = Packer_Int64s p xs"
| "pack_typed (SStrings xs) p = Packer_Strings p xs"
| "pack_typed (SFloat64s xs) p = Packer_Float64s p xs"

fun pack_typed_map :: "gotmap \<Rightarrow> packer \<Rightarrow> packer" where
  "pack_typed_map (MBytes m) p = Packer_BytesMap p m"
| "pack_typed_map (MInt m) p = Packer_IntMap p m"
| "pack_typed_map (MInt64 m) p = Packer_Int64Map p m"
| "pack_typed_map (MString m) p = Packer_StringMap p m"
| "pack_typed_map (MFloat64 m) p = Packer_Float64Map p m"

text \<open>The kinds whose cases contain no further value.\<close>

fun pack_leaf :: "goarg \<Rightarrow> outgoing \<Rightarrow> outgoing" where
  "pack_leaf (GBool b) o' = pk (\<lambda>p. Packer_Bool p b) o'"
| "pack_leaf (GInt i) o' = pk (\<lambda>p. Packer_Int64 p i) o'"
| "pack_leaf (GUint32 w) o' = pk (\<lambda>p. Packer_Uint32 p w) o'"
| "pack_leaf (GUint64 w) o' = pk (\<lambda>p. Packer_Uint64 p w) o'"
| "pack_leaf (GFloat f) o' = pk (\<lambda>p. Packer_Float64 p f) o'"
| "pack_leaf (GString s) o' = pk (\<lambda>p. Packer_String p s) o'"
| "pack_leaf (GUUID u) o' = packArray (GUUID u) o'"
| "pack_leaf (GArray t) o' = packArray (GArray t) o'"
| "pack_leaf (GTyped s) o' = pk (pack_typed s) o'"
| "pack_leaf (GTypedMap m) o' = pk (pack_typed_map m) o'"
| "pack_leaf (GBadMap t) o' = onPackErr (UnsupportedTypeError t) o'"
| "pack_leaf (GOther t) o' = onPackErr (UnsupportedTypeError t) o'"
| "pack_leaf _ o' = pk Packer_Nil o'"

fun packV_typed :: "goslice \<Rightarrow> packer \<Rightarrow> packer" where
  "packV_typed (SBytes b) p = Packer_Bytes p b"
| "packV_typed (SNamedBytes b) p = Packer_Bytes p b"
| "packV_typed (SInts xs) p =
     (if 5 < length xs then pack_typed (SInts xs) p else foldl Packer_Int64 (Packer_ArrayHeader p (int (length xs))) xs)"
| "packV_typed (SInt64s xs) p =
     (if 5 < length xs then pack_typed (SInt64s xs) p else foldl Packer_Int64 (Packer_ArrayHeader p (int (length xs))) xs)"
| "packV_typed (SStrings xs) p =
     (if 5 < length xs then pack_typed (SStrings xs) p else foldl Packer_String (Packer_ArrayHeader p (int (length xs))) xs)"
| "packV_typed (SFloat64s xs) p =
     (if 5 < length xs then pack_typed (SFloat64s xs) p else foldl Packer_Float64 (Packer_ArrayHeader p (int (length xs))) xs)"

text \<open>A header and the elements of a slice, or the entries of a map, one after the other.\<close>

definition pack_elems :: "('v \<Rightarrow> outgoing \<Rightarrow> outgoing) \<Rightarrow> 'v list \<Rightarrow> outgoing \<Rightarrow> outgoing" where
  "pack_elems f xs o' = foldl (\<lambda>o' x. f x o') (pk (\<lambda>p. Packer_ArrayHeader p (int (length xs))) o') xs"

definition pack_map :: "('v \<Rightarrow> outgoing \<Rightarrow> outgoing) \<Rightarrow> (string \<times> 'v) list \<Rightarrow> outgoing \<Rightarrow> outgoing" where
  "pack_map f m o' =
     foldl (\<lambda>o' kv. f (snd kv) (pk (\<lambda>p. Packer_String p (fst kv)) o')) (pk (\<lambda>p. Packer_MapHeader p (int (length m))) o') m"

lemma pack_elems_cong [fundef_cong]:
  "xs = ys \<Longrightarrow> (\<And>x o'. x \<in> set ys \<Longrightarrow> f x o' = g x o') \<Longrightarrow> pack_elems f xs o' = pack_elems g ys o'"
  unfolding pack_elems_def by (auto intro: foldl_cong)

lemma pack_map_cong [fundef_cong]:
  "m = m' \<Longrightarrow> (\<And>v o'. v \<in> snd ` set m' \<Longrightarrow> f v o' = g v o') \<Longrightarrow> pack_map f m o' = pack_map g m' o'"
  unfolding pack_map_def by (auto intro!: foldl_cong)

text \<open>The nesting of a value bounds the recursion.\<close>

lemma fieldByIndex_size:
  "fieldByIndex v is = Some (Some w) \<Longrightarrow> size_sval size w \<le> size_sval size v"
proof (induction v "is" rule: fieldByIndex.induct)
  case (3 vs i "is")
  then obtain v where v: "at vs i = Some v" "size_sval size w \<le> size_sval size v"
    by (auto simp: bind_eq_Some_conv)
  then have "size_sval size v \<le> size_list (size_sval size) vs"
    by (auto simp: at_def split: if_splits) (rule size_list_estimation' [of "vs ! i"]; simp)
  with v show ?case by simp
qed simp_all

lemma set_map_put_subset: "set (map_put k v m) \<subseteq> insert (k, v) (set m)"
  by (induction k v m rule: map_put.induct) auto

lemma sent_size: "sent v f = Some x \<Longrightarrow> size x < size_sval size v" for v :: "goarg sval"
  by (auto simp: sent_def split: option.splits sval.splits if_splits dest!: fieldByIndex_size)

lemma as_map_loop_size:
  fixes v :: "goarg sval"
  assumes "as_map_loop v fs acc = Some m" and "(k, x) \<in> set m"
  shows "(k, x) \<in> set acc \<or> size x < size_sval size v"
  using assms(1)
proof (induction fs arbitrary: acc)
  case Nil
  with assms(2) show ?case by simp
next
  case (Cons f fs)
  from Cons.IH [OF as_map_step [OF Cons.prems]] show ?case
    using set_map_put_subset sent_size by (fastforce split: option.splits)
qed

lemma StructAsMap_size: "StructAsMap t vs = Some m \<Longrightarrow> (k, x) \<in> set m \<Longrightarrow> size x < size (GStruct t vs)"
  using as_map_loop_size [of "SSub vs" "fieldsOf t" "[]" m k x] by (simp add: StructAsMap_def)

lemma struct_map_size_le: "struct_map g = Some m \<Longrightarrow> (k, x) \<in> set m \<Longrightarrow> size x \<le> size g"
proof (induction g rule: struct_map.induct)
  case (2 t vs)
  then show ?case using StructAsMap_size [of t vs m k x] by (simp del: goarg.size)
next
  case (3 n)
  then show ?case by (cases n) auto
qed auto

lemma struct_map_size:
  assumes "pack_native tz g o' = None" and "struct_map g = Some m" and "x \<in> snd ` set m"
  shows "size x < size g"
proof -
  obtain k where k: "(k, x) \<in> set m" using assms(3) by auto
  show ?thesis
  proof (cases g)
    case (GPtr i)
    then show ?thesis using struct_map_size_le [of i m k x] assms(2) k by simp
  next
    case (GStruct t vs)
    then show ?thesis using StructAsMap_size [of t vs m k x] assms(2) k by (simp del: goarg.size)
  qed (use assms in auto)
qed

lemma size_entry: "(k, x) \<in> set m \<Longrightarrow> size x \<le> size_list (size_prod (\<lambda>_. 0) size) m"
  by (induction m) auto

lemma size_elem: "x \<in> set xs \<Longrightarrow> size x \<le> size_list size xs"
  by (induction xs) auto

function packX :: "tzdb \<Rightarrow> goarg \<Rightarrow> outgoing \<Rightarrow> outgoing"
  and packV :: "tzdb \<Rightarrow> goarg \<Rightarrow> outgoing \<Rightarrow> outgoing"
  and packStruct :: "tzdb \<Rightarrow> goarg \<Rightarrow> outgoing \<Rightarrow> outgoing"
where
  "packX tz g o' =
     (case g of
        GPtr i \<Rightarrow>
          if is_struct i then packStruct tz g o' else if is_array i then packArray i o' else packV tz i o'
      | GIface i \<Rightarrow> packX tz i o'
      | GNative _ \<Rightarrow> packStruct tz g o'
      | GStruct _ _ \<Rightarrow> packStruct tz g o'
      | GAnys xs \<Rightarrow> pack_elems (packX tz) xs o'
      | GSlice xs \<Rightarrow> pack_elems (packV tz) xs o'
      | GAnyMap m \<Rightarrow> pack_map (packX tz) m o'
      | GMap m \<Rightarrow> pack_map (packV tz) m o'
      | _ \<Rightarrow> pack_leaf g o')"
| "packV tz g o' =
     (case g of
        GBool b \<Rightarrow> pk (\<lambda>p. Packer_Bool p b) o'
      | GInt i \<Rightarrow> pk (\<lambda>p. Packer_Int64 p i) o'
      | GUint32 i \<Rightarrow> pk (\<lambda>p. Packer_Uint32 p i) o'
      | GUint64 i \<Rightarrow> pk (\<lambda>p. Packer_Uint64 p i) o'
      | GFloat f \<Rightarrow> pk (\<lambda>p. Packer_Float64 p f) o'
      | GString s \<Rightarrow> pk (\<lambda>p. Packer_String p s) o'
      | GNilPtr \<Rightarrow> pk Packer_Nil o'
      | GPtr i \<Rightarrow> if is_struct i then packStruct tz g o' else packV tz i o'
      | GNative _ \<Rightarrow> packStruct tz g o'
      | GStruct _ _ \<Rightarrow> packStruct tz g o'
      | GUUID _ \<Rightarrow> packArray g o'
      | GArray _ \<Rightarrow> packArray g o'
      | GTyped s \<Rightarrow> pk (packV_typed s) o'
      | GAnys xs \<Rightarrow> if 5 < length xs then packX tz g o' else pack_elems (packX tz) xs o'
      | GSlice xs \<Rightarrow> pack_elems (packV tz) xs o'
      | _ \<Rightarrow> packX tz g o')"
| "packStruct tz g o' =
     (case pack_native tz g o' of
        Some o1 \<Rightarrow> o1
      | None \<Rightarrow>
          (case struct_map g of
             None \<Rightarrow> onPackErr (UnsupportedTypeError []) o'
           | Some m \<Rightarrow> pack_map (packX tz) m o'))"
  by pat_completeness auto
termination
  by (relation "measure (\<lambda>x. case x of Inl (tz, g, o') \<Rightarrow> 3 * size g + 1 | Inr (Inl (tz, g, o')) \<Rightarrow> 3 * size g + 2
      | Inr (Inr (tz, g, o')) \<Rightarrow> 3 * size g)")
    (auto dest: size_entry size_elem struct_map_size [OF _ _ imageI [of _ _ snd]])

declare packX.simps [simp del] packV.simps [simp del] packStruct.simps [simp del]

definition packMap :: "tzdb \<Rightarrow> (string \<times> goarg) list \<Rightarrow> outgoing \<Rightarrow> outgoing" where
  "packMap tz m = pack_map (packX tz) m"

section \<open>Messages\<close>

text \<open>Every append method: begin, the struct header of the message, its fields, end.\<close>

definition append_struct :: "byte \<Rightarrow> int \<Rightarrow> (outgoing \<Rightarrow> outgoing) \<Rightarrow> outgoing \<Rightarrow> outgoing" where
  "append_struct tag n body o' = end_msg (body (pk (\<lambda>p. Packer_StructHeader p tag n) (begin_msg o')))"

definition appendHello :: "tzdb \<Rightarrow> (string \<times> goarg) list \<Rightarrow> outgoing \<Rightarrow> outgoing" where
  "appendHello tz hello = append_struct 0x01 1 (packMap tz hello)"

definition appendLogoff :: "outgoing \<Rightarrow> outgoing" where
  "appendLogoff = append_struct 0x6b 0 (\<lambda>o'. o')"

definition appendLogon :: "tzdb \<Rightarrow> (string \<times> goarg) list \<Rightarrow> outgoing \<Rightarrow> outgoing" where
  "appendLogon tz logon = append_struct 0x6a 1 (packMap tz logon)"

definition appendBegin :: "tzdb \<Rightarrow> (string \<times> goarg) list \<Rightarrow> outgoing \<Rightarrow> outgoing" where
  "appendBegin tz meta = append_struct 0x11 1 (packMap tz meta)"

definition appendCommit :: "outgoing \<Rightarrow> outgoing" where
  "appendCommit = append_struct 0x12 0 (\<lambda>o'. o')"

definition appendRollback :: "outgoing \<Rightarrow> outgoing" where
  "appendRollback = append_struct 0x13 0 (\<lambda>o'. o')"

definition appendRun :: "tzdb \<Rightarrow> string \<Rightarrow> (string \<times> goarg) list \<Rightarrow> (string \<times> goarg) list \<Rightarrow> outgoing \<Rightarrow> outgoing" where
  "appendRun tz cypher params meta =
     append_struct 0x10 3 (\<lambda>o'. packMap tz meta (packMap tz params (pk (\<lambda>p. Packer_String p cypher) o')))"

definition pack_n :: "int64 \<Rightarrow> packer \<Rightarrow> packer" where
  "pack_n n p = Packer_Int (Packer_String (Packer_MapHeader p 1) ''n'') n"

definition pack_n_qid :: "int64 \<Rightarrow> int64 \<Rightarrow> packer \<Rightarrow> packer" where
  "pack_n_qid n qd p =
     Packer_Int64 (Packer_String (Packer_Int (Packer_String (Packer_MapHeader p 2) ''n'') n) ''qid'') qd"

definition appendPullN :: "int64 \<Rightarrow> outgoing \<Rightarrow> outgoing" where
  "appendPullN n = append_struct 0x3f 1 (pk (pack_n n))"

definition appendPullNQid :: "int64 \<Rightarrow> int64 \<Rightarrow> outgoing \<Rightarrow> outgoing" where
  "appendPullNQid n qd = append_struct 0x3f 1 (pk (pack_n_qid n qd))"

definition appendDiscardN :: "int64 \<Rightarrow> outgoing \<Rightarrow> outgoing" where
  "appendDiscardN n = append_struct 0x2f 1 (pk (pack_n n))"

definition appendDiscardNQid :: "int64 \<Rightarrow> int64 \<Rightarrow> outgoing \<Rightarrow> outgoing" where
  "appendDiscardNQid n qd = append_struct 0x2f 1 (pk (pack_n_qid n qd))"

definition appendPullAll :: "outgoing \<Rightarrow> outgoing" where
  "appendPullAll = append_struct 0x3f 0 (\<lambda>o'. o')"

text \<open>The routing context and the bookmarks of a ROUTE message.\<close>

definition pack_route :: "(string \<times> string) list \<Rightarrow> string list \<Rightarrow> packer \<Rightarrow> packer" where
  "pack_route ctxt bookmarks p =
     (let p1 = foldl (\<lambda>p kv. Packer_String (Packer_String p (fst kv)) (snd kv)) (Packer_MapHeader p (int (length ctxt))) ctxt
      in foldl Packer_String (Packer_ArrayHeader p1 (int (length bookmarks))) bookmarks)"

definition appendRouteToV43 :: "(string \<times> string) list \<Rightarrow> string list \<Rightarrow> string \<Rightarrow> outgoing \<Rightarrow> outgoing" where
  "appendRouteToV43 ctxt bookmarks database =
     append_struct 0x66 3 (pk (\<lambda>p.
       let p1 = pack_route ctxt bookmarks p in if database = [] then Packer_Nil p1 else Packer_String p1 database))"

definition appendRoute :: "tzdb \<Rightarrow> (string \<times> string) list \<Rightarrow> string list \<Rightarrow> (string \<times> goarg) list \<Rightarrow> outgoing \<Rightarrow> outgoing" where
  "appendRoute tz ctxt bookmarks what =
     append_struct 0x66 3 (\<lambda>o'. packMap tz what (pk (pack_route ctxt bookmarks) o'))"

definition appendReset :: "outgoing \<Rightarrow> outgoing" where
  "appendReset = append_struct 0x0f 0 (\<lambda>o'. o')"

definition appendGoodbye :: "outgoing \<Rightarrow> outgoing" where
  "appendGoodbye = append_struct 0x02 0 (\<lambda>o'. o')"

definition appendTelemetry :: "int64 \<Rightarrow> outgoing \<Rightarrow> outgoing" where
  "appendTelemetry api = append_struct 0x54 1 (pk (\<lambda>p. Packer_Int p api))"

definition appendX :: "tzdb \<Rightarrow> byte \<Rightarrow> goarg list \<Rightarrow> outgoing \<Rightarrow> outgoing" where
  "appendX tz tag fs =
     append_struct tag (int (length fs)) (\<lambda>o'. foldl (\<lambda>o' f. packX tz f o') o' fs)"

definition outgoing_send :: "(nat \<Rightarrow> wstep) \<Rightarrow> outgoing \<Rightarrow> (goerr option \<times> outgoing \<times> bytes) option" where
  "outgoing_send w o' =
     do { (err, c, written) \<leftarrow> send w (o_chunker o'); Some (err, o'\<lparr>o_chunker := c\<rparr>, written) }"

end
