(* ===== verification/Roundtrip.thy ===== *)
theory Roundtrip
  imports HydratorProps Outgoing
begin

text \<open>
  What packX writes, value reads: the wire format of the values, stated once as a function from values to bytes, with
  the proofs that the outgoing side writes it and that the hydrator reads it. A value travels in a configuration of
  the connection: whether times are sent in UTC and whether UUIDs are supported.
\<close>

section \<open>The wire format\<close>

definition struct_bytes :: "byte \<Rightarrow> bytes list \<Rightarrow> bytes" where
  "struct_bytes tag fs = (0xb0 + word_of_nat (length fs)) # tag # concat fs"

definition list_hdr :: "nat \<Rightarrow> byte \<Rightarrow> byte \<Rightarrow> bytes" where
  "list_hdr n a b = the (list_header (int n) a b)"

definition vector_bytes :: "byte \<Rightarrow> bytes \<Rightarrow> bytes" where
  "vector_bytes mrk data = struct_bytes 0x56 [bytearray_bytes [mrk], bytearray_bytes data]"

definition time_bytes :: "tzdb \<Rightarrow> bool \<Rightarrow> gotime \<Rightarrow> bytes" where
  "time_bytes tz utc t =
     (let secs = (if utc then t_unix t else t_unix t + Zone tz t)
      in case t_loc t of
           FixedZone _ off \<Rightarrow>
             struct_bytes (if utc then 0x49 else 0x46) [int64_bytes secs, int64_bytes (word_of_int (t_nsec t)), int64_bytes off]
         | l \<Rightarrow>
             struct_bytes (if utc then 0x69 else 0x66)
               [int64_bytes secs, int64_bytes (word_of_int (t_nsec t)), string_bytes (loc_String l)])"

fun enc :: "tzdb \<Rightarrow> bool \<Rightarrow> goval \<Rightarrow> bytes" where
  "enc tz utc VNil = [0xc0]"
| "enc tz utc (VBool b) = [if b then 0xc3 else 0xc2]"
| "enc tz utc (VInt i) = int64_bytes i"
| "enc tz utc (VFloat f) = float_bytes f"
| "enc tz utc (VStr s) = string_bytes s"
| "enc tz utc (VBytes b) = bytearray_bytes b"
| "enc tz utc (VUUID b) = uuid_bytes b"
| "enc tz utc (VList l) = list_hdr (length l) 0x90 0xd4 @ concat (map (enc tz utc) l)"
| "enc tz utc (VMap m) = list_hdr (length m) 0xa0 0xd8 @ concat (map (\<lambda>(k, v). string_bytes k @ enc tz utc v) m)"
| "enc tz utc (VPoint2D s x y) = struct_bytes 0x58 [int64_bytes (ucast s), float_bytes x, float_bytes y]"
| "enc tz utc (VPoint3D s x y z) = struct_bytes 0x59 [int64_bytes (ucast s), float_bytes x, float_bytes y, float_bytes z]"
| "enc tz utc (VDateTime t) = time_bytes tz utc t"
| "enc tz utc (VLocalDateTime t) =
     struct_bytes 0x64 [int64_bytes (t_unix t + Zone tz t), int64_bytes (word_of_int (t_nsec t))]"
| "enc tz utc (VDate t) = struct_bytes 0x44 [int64_bytes (date_days (t_unix t + Zone tz t))]"
| "enc tz utc (VTime t) = struct_bytes 0x54 [int64_bytes (clock_nanos tz t), int64_bytes (Zone tz t)]"
| "enc tz utc (VLocalTime t) = struct_bytes 0x74 [int64_bytes (clock_nanos tz t)]"
| "enc tz utc (VDuration mo d s n) = struct_bytes 0x45 [int64_bytes mo, int64_bytes d, int64_bytes s, int64_bytes n]"
| "enc tz utc (VVectorF64 v) = vector_bytes 0xc1 (concat (map (\<lambda>w. be_bytes 8 (unat w)) v))"
| "enc tz utc (VVectorF32 v) = vector_bytes 0xc6 (concat (map (\<lambda>w. be_bytes 4 (unat w)) v))"
| "enc tz utc (VVectorI8 v) = vector_bytes 0xc8 v"
| "enc tz utc (VVectorI16 v) = vector_bytes 0xc9 (concat (map (\<lambda>w. be_bytes 2 (unat w)) v))"
| "enc tz utc (VVectorI32 v) = vector_bytes 0xca (concat (map (\<lambda>w. be_bytes 4 (unat w)) v))"
| "enc tz utc (VVectorI64 v) = vector_bytes 0xcb (concat (map (\<lambda>w. be_bytes 8 (unat w)) v))"
| "enc tz utc _ = []"

text \<open>
  The values that travel: lengths fit their headers, the keys of a map are distinct, a time has nanoseconds below a
  second, and its zone is one that the reader builds: a fixed offset without a name of its own, a zone of the tz
  database, UTC. A time whose civil reading is sent (every time before UTC times, local times always) must be the
  one that this reading means in its zone.
\<close>

definition nsec_ok :: "gotime \<Rightarrow> bool" where
  "nsec_ok t \<longleftrightarrow> 0 \<le> t_nsec t \<and> t_nsec t < 1000000000"

definition civil_ok :: "tzdb \<Rightarrow> gotime \<Rightarrow> bool" where
  "civil_ok tz t \<longleftrightarrow> date_offset tz (t_loc t) (t_unix t + Zone tz t) = Zone tz t"

definition datetime_ok :: "tzdb \<Rightarrow> bool \<Rightarrow> gotime \<Rightarrow> bool" where
  "datetime_ok tz utc t \<longleftrightarrow> nsec_ok t \<and>
     (case t_loc t of
        FixedZone n _ \<Rightarrow> n = ''Offset''
      | l \<Rightarrow> zone_of_id tz (loc_String l) = Some l \<and> fits (loc_String l) \<and> (utc \<or> civil_ok tz t))"

text \<open>A time of day is a time of the first day of Go's calendar for times without a date.\<close>

definition day_zero :: "tzdb \<Rightarrow> gotime \<Rightarrow> bool" where
  "day_zero tz t \<longleftrightarrow> nsec_ok t \<and> civil_ok tz t \<and>
     (\<exists>s. 0 \<le> s \<and> s < 86400 \<and> sint (t_unix t) + sint (Zone tz t) = s - 62169984000)"

fun wire_ok :: "tzdb \<Rightarrow> bool \<Rightarrow> bool \<Rightarrow> goval \<Rightarrow> bool" where
  "wire_ok tz utc uuid (VStr s) = fits s"
| "wire_ok tz utc uuid (VBytes b) = fits32 b"
| "wire_ok tz utc uuid (VUUID b) = (uuid \<and> length b = 16)"
| "wire_ok tz utc uuid (VList l) = (fits l \<and> list_all (wire_ok tz utc uuid) l)"
| "wire_ok tz utc uuid (VMap m) = (fits m \<and> wf_map m \<and> list_all (\<lambda>(k, v). fits k \<and> wire_ok tz utc uuid v) m)"
| "wire_ok tz utc uuid (VDateTime t) = datetime_ok tz utc t"
| "wire_ok tz utc uuid (VLocalDateTime t) = (t_loc t = LocalZone \<and> nsec_ok t \<and> civil_ok tz t)"
| "wire_ok tz utc uuid (VDate t) = (\<exists>d. - 100000000000000 \<le> d \<and> d \<le> 100000000000000 \<and> t = GoTime (word_of_int (d * 86400)) 0 UTC)"
| "wire_ok tz utc uuid (VTime t) = (day_zero tz t \<and> (\<exists>off. t_loc t = FixedZone ''Offset'' off))"
| "wire_ok tz utc uuid (VLocalTime t) = (day_zero tz t \<and> t_loc t = LocalZone)"
| "wire_ok tz utc uuid (VVectorF64 v) = (length v * 8 < 0x100000000)"
| "wire_ok tz utc uuid (VVectorF32 v) = (length v * 4 < 0x100000000)"
| "wire_ok tz utc uuid (VVectorI8 v) = fits32 v"
| "wire_ok tz utc uuid (VVectorI16 v) = (length v * 2 < 0x100000000)"
| "wire_ok tz utc uuid (VVectorI32 v) = (length v * 4 < 0x100000000)"
| "wire_ok tz utc uuid (VVectorI64 v) = (length v * 8 < 0x100000000)"
| "wire_ok tz utc uuid (VNode _) = False"
| "wire_ok tz utc uuid (VRelationship _) = False"
| "wire_ok tz utc uuid (VRelNode _) = False"
| "wire_ok tz utc uuid (VPath _ _) = False"
| "wire_ok tz utc uuid (VUnsupported _ _ _ _) = False"
| "wire_ok tz utc uuid (VInvalid _) = False"
| "wire_ok tz utc uuid _ = True"

section \<open>Reading\<close>

definition clear :: "hydrator \<Rightarrow> bool" where
  "clear h \<longleftrightarrow> wf_unpacker (hy_unp h) \<and> u_Err (hy_unp h) = None \<and> hy_err h = None"

definition hgot :: "hydrator \<Rightarrow> bytes \<Rightarrow> hydrator \<Rightarrow> bool" where
  "hgot h r h' \<longleftrightarrow> got (hy_unp h) r (hy_unp h') \<and> hy_err h' = hy_err h \<and> hy_major h' = hy_major h \<and>
     hy_utc h' = hy_utc h \<and> hy_uuid h' = hy_uuid h"

text \<open>
  \<open>reads utc uuid d f bs x\<close>: from a hydrator of this configuration with fewer than \<open>d\<close> unread bytes, beginning with
  \<open>bs\<close>, the method \<open>f\<close> returns \<open>x\<close>, takes exactly \<open>bs\<close> off and records no error.
\<close>

definition reads :: "bool \<Rightarrow> bool \<Rightarrow> nat \<Rightarrow> 'a hy \<Rightarrow> bytes \<Rightarrow> 'a \<Rightarrow> bool" where
  "reads utc uuid d f bs x \<longleftrightarrow> (\<forall>h r. clear h \<longrightarrow> hy_utc h = utc \<longrightarrow> hy_uuid h = uuid \<longrightarrow> rest (hy_unp h) = bs @ r \<longrightarrow>
     length (bs @ r) < d \<longrightarrow> (\<exists>h'. f h = Some (x, h') \<and> hgot h r h'))"

named_theorems reads_intros

lemma readsI:
  assumes "\<And>h r. clear h \<Longrightarrow> hy_utc h = utc \<Longrightarrow> hy_uuid h = uuid \<Longrightarrow> rest (hy_unp h) = bs @ r \<Longrightarrow>
     length (bs @ r) < d \<Longrightarrow> \<exists>h'. f h = Some (x, h') \<and> hgot h r h'"
  shows "reads utc uuid d f bs x"
  using assms by (auto simp: reads_def)

lemma hgot_trans: "hgot h r h1 \<Longrightarrow> hgot h1 r' h2 \<Longrightarrow> hgot h r' h2"
  by (auto simp: hgot_def intro: got_trans)

lemma hgot_clear: "clear h \<Longrightarrow> hgot h r h' \<Longrightarrow> clear h' \<and> hy_utc h' = hy_utc h \<and> hy_uuid h' = hy_uuid h \<and> rest (hy_unp h') = r"
  by (auto simp: hgot_def clear_def got_def)

lemma reads_bind [reads_intros]:
  assumes "reads utc uuid d f a x" and "reads utc uuid d (g x) b y"
  shows "reads utc uuid d (\<lambda>h. f h \<bind> (\<lambda>(x, h). g x h)) (a @ b) y"
proof (rule readsI)
  fix h r assume h: "clear h" "hy_utc h = utc" "hy_uuid h = uuid" "rest (hy_unp h) = (a @ b) @ r" "length ((a @ b) @ r) < d"
  then obtain h1 where 1: "f h = Some (x, h1)" "hgot h (b @ r) h1"
    using assms(1) unfolding reads_def by (metis append.assoc)
  then have "clear h1" "hy_utc h1 = utc" "hy_uuid h1 = uuid" "rest (hy_unp h1) = b @ r" "length (b @ r) < d"
    using h hgot_clear [OF h(1) 1(2)] by auto
  then obtain h2 where "g x h1 = Some (y, h2)" "hgot h1 r h2" using assms(2) unfolding reads_def by blast
  with 1 show "\<exists>h'. f h \<bind> (\<lambda>(x, h). g x h) = Some (y, h') \<and> hgot h r h'" by (auto intro: hgot_trans)
qed

lemma reads_return [reads_intros]: "reads utc uuid d (\<lambda>h. Some (x, h)) [] x"
  by (rule readsI) (auto simp: hgot_def got_def clear_def)

lemma reads_last: "reads utc uuid d f a x \<Longrightarrow> reads utc uuid d (\<lambda>h. f h \<bind> (\<lambda>(x, h). Some (g x, h))) a (g x)"
  using reads_bind [OF _ reads_return, of utc uuid d f a x g] by simp

text \<open>A codec of the packstream layer, as a method of the hydrator.\<close>

lemma reads_unp:
  assumes "\<And>u r. wf_unpacker u \<Longrightarrow> u_Err u = None \<Longrightarrow> rest u = bs @ r \<Longrightarrow>
     \<exists>u'. Unpacker_Next u \<bind> f = Some (x, u') \<and> got u r u'"
  shows "reads utc uuid d (next_then (unp f)) bs x"
proof (rule readsI)
  fix h r assume "clear h" "rest (hy_unp h) = bs @ r"
  then obtain u' where "Unpacker_Next (hy_unp h) \<bind> f = Some (x, u')" "got (hy_unp h) r u'"
    using assms [of "hy_unp h"] by (auto simp: clear_def)
  then show "\<exists>h'. next_then (unp f) h = Some (x, h') \<and> hgot h r h'"
    by (auto simp: next_then_def unp_Next_def unp_def hgot_def bind_eq_Some_conv)
qed

lemma reads_Int [reads_intros]: "reads utc uuid d next_Int (int64_bytes i) i"
  using dec_int_enc by (intro reads_unp) (auto simp: dec_int_def)

lemma reads_Float [reads_intros]: "reads utc uuid d next_Float (float_bytes f) f"
  using dec_float_enc by (intro reads_unp) (auto simp: dec_float_def)

lemma reads_String [reads_intros]: "fits s \<Longrightarrow> reads utc uuid d next_String (string_bytes s) s"
  using dec_string_enc by (intro reads_unp) (auto simp: dec_string_def)

lemma reads_repeatedly:
  "list_all2 (reads utc uuid d f) bss xs \<Longrightarrow> reads utc uuid d (repeatedly f (length xs)) (concat bss) xs"
proof (induction rule: list_all2_induct)
  case Nil
  have "repeatedly f 0 = (\<lambda>h. Some ([], h))" by (simp add: fun_eq_iff)
  then show ?case by (simp add: reads_return)
next
  case (Cons b bss x xs)
  have "repeatedly f (Suc (length xs)) =
      (\<lambda>h. f h \<bind> (\<lambda>(x, h). repeatedly f (length xs) h \<bind> (\<lambda>(ys, h). Some (x # ys, h))))"
    by (simp add: fun_eq_iff)
  with Cons show ?case by (auto intro!: reads_bind reads_last)
qed

lemma next_amap_field:
  "next_then (amap_field val k m) h = next_then val h \<bind> (\<lambda>(v, h). Some (map_put k v m, h))"
  by (cases "unp_Next h") (simp_all add: next_then_def amap_field_def)

lemma reads_entries:
  assumes "list_all (\<lambda>(k, v). fits k \<and> reads utc uuid d (next_then val) (e v) v) m"
    and "wf_map (acc @ m)"
  shows "reads utc uuid d (entries (amap_field val) (length m) acc) (concat (map (\<lambda>(k, v). string_bytes k @ e v) m)) (acc @ m)"
  using assms
proof (induction m arbitrary: acc)
  case Nil
  have "entries (amap_field val) 0 acc = (\<lambda>h. Some (acc, h))" by (simp add: fun_eq_iff)
  then show ?case by (simp add: reads_return)
next
  case (Cons kv m)
  obtain k v where kv: "kv = (k, v)" by (cases kv)
  have put: "map_put k v acc = acc @ [(k, v)]"
    using Cons.prems(2) by (intro map_put_id) (auto simp: wf_map_def kv)
  have tail: "reads utc uuid d (entries (amap_field val) (length m) (map_put k v acc))
      (concat (map (\<lambda>(k, v). string_bytes k @ e v) m)) (acc @ (k, v) # m)"
    using Cons.IH [of "acc @ [(k, v)]"] Cons.prems by (simp add: put kv)
  have "entries (amap_field val) (Suc (length m)) acc =
      (\<lambda>h. next_String h \<bind> (\<lambda>(k, h). (\<lambda>h. next_then val h \<bind> (\<lambda>(v, h). Some (map_put k v acc, h))) h \<bind>
        (\<lambda>(acc', h). entries (amap_field val) (length m) acc' h)))"
    by (simp add: fun_eq_iff next_amap_field)
  moreover have "reads utc uuid d \<dots> (string_bytes k @ e v @ concat (map (\<lambda>(k, v). string_bytes k @ e v) m)) (acc @ (k, v) # m)"
  proof (rule reads_bind, rule reads_String, goal_cases)
    case 1
    show ?case using Cons.prems(1) kv by simp
  next
    case 2
    have "reads utc uuid d (\<lambda>h. next_then val h \<bind> (\<lambda>(v, h). Some (map_put k v acc, h))) (e v) (map_put k v acc)"
      using Cons.prems(1) kv by (intro reads_last) simp
    then show ?case using tail by (rule reads_bind)
  qed
  ultimately show ?case by (simp add: kv)
qed

subsection \<open>One value\<close>

lemma next_value:
  "Unpacker_Next (hy_unp h) = Some u1 \<Longrightarrow>
     next_then (hvalue tz (Suc d)) h = value_step tz (hvalue tz d) (h\<lparr>hy_unp := u1\<rparr>)"
  by (simp add: next_then_def unp_Next_def)

lemma Next_Curr: "wf_unpacker u \<Longrightarrow> rest u = b # r \<Longrightarrow> Unpacker_Next u = Some u1 \<Longrightarrow> u_Curr u1 = m_typ (markers b)"
  by (auto simp: Next_rest)

text \<open>A value whose bytes begin with a marker of one kind, read by one method of the unpacker.\<close>

lemma reads_leaf:
  assumes "reads utc uuid (Suc d) (next_then (unp f)) (b # bs) x"
    and "\<And>val h. u_Curr (hy_unp h) = m_typ (markers b) \<Longrightarrow> hy_uuid h = uuid \<Longrightarrow>
      value_step tz val h = unp f h \<bind> (\<lambda>(x, h). Some (g x, h))"
  shows "reads utc uuid (Suc d) (next_then (hvalue tz (Suc d))) (b # bs) (g x)"
proof (rule readsI)
  fix h r assume h: "clear h" "hy_utc h = utc" "hy_uuid h = uuid" "rest (hy_unp h) = (b # bs) @ r" "length ((b # bs) @ r) < Suc d"
  then obtain h' where h': "next_then (unp f) h = Some (x, h')" "hgot h r h'"
    using assms(1) unfolding reads_def by blast
  have wf: "wf_unpacker (hy_unp h)" using h(1) by (simp add: clear_def)
  obtain u1 where u1: "Unpacker_Next (hy_unp h) = Some u1" using Next_safe [OF wf] by blast
  have "u_Curr u1 = m_typ (markers b)" using Next_Curr [OF wf _ u1] h(4) by simp
  then have "next_then (hvalue tz (Suc d)) h = next_then (unp f) h \<bind> (\<lambda>(x, h). Some (g x, h))"
    using h(3) assms(2) [of "h\<lparr>hy_unp := u1\<rparr>"] by (simp add: next_value [OF u1] next_then_def unp_Next_def u1)
  with h' show "\<exists>h'. next_then (hvalue tz (Suc d)) h = Some (g x, h') \<and> hgot h r h'" by simp
qed

lemma int64_bytes_Cons: "\<exists>b bs. int64_bytes i = b # bs \<and> m_typ (markers b) = PackedInt"
  by (auto simp: int64_bytes_def markers_tiny)

lemma list_hdr_Cons:
  "list_header (int n) a b = Some hdr \<Longrightarrow> \<exists>c cs. hdr = c # cs"
  by (auto simp: list_header_def split: if_splits)

lemma reads_VInt: "reads utc uuid (Suc d) (next_then (hvalue tz (Suc d))) (int64_bytes i) (VInt i)"
proof -
  obtain b bs where b: "int64_bytes i = b # bs" "m_typ (markers b) = PackedInt" using int64_bytes_Cons by blast
  show ?thesis
    unfolding b(1) using reads_Int [of utc uuid "Suc d" i] b
    by (intro reads_leaf [where f = Unpacker_Int]) (simp_all add: value_step_def)
qed

lemma reads_VFloat: "reads utc uuid (Suc d) (next_then (hvalue tz (Suc d))) (float_bytes f) (VFloat f)"
  using reads_Float [of utc uuid "Suc d" f] unfolding float_bytes_def
  by (intro reads_leaf [where f = Unpacker_Float]) (simp_all add: value_step_def)

lemma reads_VUUID: "length b = 16 \<Longrightarrow> reads utc True (Suc d) (next_then (hvalue tz (Suc d))) (uuid_bytes b) (VUUID b)"
proof -
  assume "length b = 16"
  then have "reads utc True (Suc d) (next_then (unp Unpacker_UUID)) (uuid_bytes b) b"
    using dec_uuid_enc by (intro reads_unp) (auto simp: dec_uuid_def)
  then show ?thesis
    unfolding uuid_bytes_def by (intro reads_leaf [where f = Unpacker_UUID]) (simp_all add: value_step_def)
qed

text \<open>Values that are a single marker.\<close>

lemma reads_marker:
  assumes "\<And>val h. u_Curr (hy_unp h) = m_typ (markers b) \<Longrightarrow> value_step tz val h = Some (v, h)"
  shows "reads utc uuid (Suc d) (next_then (hvalue tz (Suc d))) [b] v"
proof (rule readsI)
  fix h r assume h: "clear h" "rest (hy_unp h) = [b] @ r"
  have wf: "wf_unpacker (hy_unp h)" using h(1) by (simp add: clear_def)
  obtain u1 where u1: "Unpacker_Next (hy_unp h) = Some u1" "got (hy_unp h) r u1" "u_Curr u1 = m_typ (markers b)"
    using Next_got [OF wf, of b r] h(2) by auto
  then show "\<exists>h'. next_then (hvalue tz (Suc d)) h = Some (v, h') \<and> hgot h r h'"
    by (simp add: next_value [OF u1(1)] assms hgot_def)
qed

context header_family
begin

lemma header_marker: "list_header (int n) short long = Some hdr \<Longrightarrow> \<exists>c cs. hdr = c # cs \<and> m_typ (markers c) = t"
  using short_mark [of n] long_mark1 long_mark2 long_mark4 by (auto simp: list_header_def split: if_splits)

end

lemma bytes_header_marker: "bytes_header (int n) = Some hdr \<Longrightarrow> \<exists>c cs. hdr = c # cs \<and> m_typ (markers c) = PackedByteArray"
  by (auto simp: bytes_header_def split: if_splits)

lemma reads_VStr: "fits s \<Longrightarrow> reads utc uuid (Suc d) (next_then (hvalue tz (Suc d))) (string_bytes s) (VStr s)"
proof -
  assume s: "fits s"
  then obtain hdr where hdr: "list_header (int (length s)) 0x80 0xd0 = Some hdr" using fits_header by blast
  then obtain c cs where c: "hdr = c # cs" "m_typ (markers c) = PackedStr" using str_header.header_marker by blast
  have bytes: "string_bytes s = c # cs @ str_bytes s" by (simp add: string_bytes_def hdr c)
  show ?thesis
    unfolding bytes using reads_String [OF s, of utc uuid "Suc d"] c bytes
    by (intro reads_leaf [where f = Unpacker_String]) (simp_all add: value_step_def)
qed

lemma reads_ByteArray: "fits32 b \<Longrightarrow> reads utc uuid d (next_then (unp Unpacker_ByteArray)) (bytearray_bytes b) b"
  using dec_bytes_enc by (intro reads_unp) (auto simp: dec_bytes_def)

lemma bytearray_bytes_Cons:
  assumes "fits32 b"
  obtains c cs where "bytearray_bytes b = c # cs" and "m_typ (markers c) = PackedByteArray"
proof -
  obtain hdr where hdr: "bytes_header (int (length b)) = Some hdr" using fits32_header [OF assms] by blast
  then obtain c cs where "hdr = c # cs" "m_typ (markers c) = PackedByteArray" using bytes_header_marker by blast
  then show ?thesis using that [of c "cs @ b"] by (simp add: bytearray_bytes_def hdr)
qed

lemma reads_VBytes: "fits32 b \<Longrightarrow> reads utc uuid (Suc d) (next_then (hvalue tz (Suc d))) (bytearray_bytes b) (VBytes b)"
proof -
  assume b: "fits32 b"
  obtain c cs where c: "bytearray_bytes b = c # cs" "m_typ (markers c) = PackedByteArray"
    using bytearray_bytes_Cons [OF b] .
  show ?thesis
    unfolding c(1) using reads_ByteArray [OF b, of utc uuid "Suc d"] c
    by (intro reads_leaf [where f = Unpacker_ByteArray]) (simp_all add: value_step_def)
qed

text \<open>Lists, maps and structs: a header, then a method on what follows.\<close>

lemma reads_header:
  assumes "\<And>u r. wf_unpacker u \<Longrightarrow> rest u = hdr @ r \<Longrightarrow>
      \<exists>u1 u2. Unpacker_Next u = Some u1 \<and> u_Curr u1 = t \<and> Unpacker_Len u1 = Some (n, u2) \<and> got u r u2"
    and "hdr \<noteq> []" and "reads utc uuid d f bs x"
    and "\<And>val h. u_Curr (hy_unp h) = t \<Longrightarrow> value_step tz (hvalue tz d) h =
      unp Unpacker_Len h \<bind> (\<lambda>(k, h). body k h) \<bind> (\<lambda>(x, h). Some (g x, h))"
    and "body n = f"
  shows "reads utc uuid (Suc d) (next_then (hvalue tz (Suc d))) (hdr @ bs) (g x)"
proof (rule readsI)
  fix h r assume h: "clear h" "hy_utc h = utc" "hy_uuid h = uuid" "rest (hy_unp h) = (hdr @ bs) @ r" "length ((hdr @ bs) @ r) < Suc d"
  then obtain u1 u2 where u: "Unpacker_Next (hy_unp h) = Some u1" "u_Curr u1 = t" "Unpacker_Len u1 = Some (n, u2)"
      "got (hy_unp h) (bs @ r) u2"
    using assms(1) [of "hy_unp h" "bs @ r"] by (auto simp: clear_def)
  let ?h = "h\<lparr>hy_unp := u2\<rparr>"
  have g: "hgot h (bs @ r) ?h" using u(4) by (simp add: hgot_def)
  have "length (bs @ r) < d" using h(5) assms(2) by (cases hdr) auto
  then obtain h' where h': "f ?h = Some (x, h')" "hgot ?h r h'"
    using assms(3) [unfolded reads_def, rule_format, of ?h r] hgot_clear [OF h(1) g] h(2,3) by blast
  then have "hgot h r h'" using hgot_trans [OF g] by blast
  with h'(1) show "\<exists>h'. next_then (hvalue tz (Suc d)) h = Some (g x, h') \<and> hgot h r h'"
    using assms(4) [of "h\<lparr>hy_unp := u1\<rparr>"] assms(5) by (simp add: next_value [OF u(1)] u unp_def)
qed

lemma reads_VList:
  assumes "fits l" and "list_all (\<lambda>v. reads utc uuid d (next_then (hvalue tz d)) (e v) v) l"
  shows "reads utc uuid (Suc d) (next_then (hvalue tz (Suc d))) (list_hdr (length l) 0x90 0xd4 @ concat (map e l)) (VList l)"
proof -
  obtain hdr where hdr: "list_header (int (length l)) 0x90 0xd4 = Some hdr" using fits_header [OF assms(1)] by blast
  then have "hdr \<noteq> []" using list_hdr_Cons by blast
  have len: "unat (word_of_nat (length l) :: uint32) = length l"
    using assms(1) by (simp add: fits_def unat_of_nat)
  have "list_all2 (reads utc uuid d (next_then (hvalue tz d))) (map e l) l"
    using assms(2) by (simp add: list_all2_conv_all_nth list_all_length)
  then have els: "reads utc uuid d (repeatedly (next_then (hvalue tz d)) (length l)) (concat (map e l)) l"
    by (rule reads_repeatedly)
  note dec = array_header.header_dec [OF _ _ hdr]
  show ?thesis
    unfolding list_hdr_def hdr option.sel
    by (rule reads_header [where t = PackedArray and n = "word_of_nat (length l)" and g = VList and
          body = "\<lambda>k. repeatedly (next_then (hvalue tz d)) (unat k)", OF dec \<open>hdr \<noteq> []\<close> els])
      (auto simp: value_step_def harray_def len)
qed

lemma reads_VMap:
  assumes "fits m" and "wf_map m" and "list_all (\<lambda>(k, v). fits k \<and> reads utc uuid d (next_then (hvalue tz d)) (e v) v) m"
  shows "reads utc uuid (Suc d) (next_then (hvalue tz (Suc d)))
    (list_hdr (length m) 0xa0 0xd8 @ concat (map (\<lambda>(k, v). string_bytes k @ e v) m)) (VMap m)"
proof -
  obtain hdr where hdr: "list_header (int (length m)) 0xa0 0xd8 = Some hdr" using fits_header [OF assms(1)] by blast
  then have "hdr \<noteq> []" using list_hdr_Cons by blast
  have len: "unat (word_of_nat (length m) :: uint32) = length m"
    using assms(1) by (simp add: fits_def unat_of_nat)
  have els: "reads utc uuid d (entries (amap_field (hvalue tz d)) (length m) [])
      (concat (map (\<lambda>(k, v). string_bytes k @ e v) m)) m"
    using reads_entries [of utc uuid d "hvalue tz d" e m "[]"] assms(2,3) by simp
  note dec = map_header.header_dec [OF _ _ hdr]
  show ?thesis
    unfolding list_hdr_def hdr option.sel
    by (rule reads_header [where t = PackedMap and n = "word_of_nat (length m)" and g = VMap and
          body = "\<lambda>k. entries (amap_field (hvalue tz d)) (unat k) []", OF dec \<open>hdr \<noteq> []\<close> els])
      (auto simp: value_step_def amap_def len)
qed

lemma reads_struct:
  assumes "length fs < 16" and "reads utc uuid d (struct_value tz (hvalue tz d) tag (word_of_nat (length fs))) (concat fs) v"
  shows "reads utc uuid (Suc d) (next_then (hvalue tz (Suc d))) (struct_bytes tag fs) v"
proof (rule readsI)
  fix h r assume h: "clear h" "hy_utc h = utc" "hy_uuid h = uuid" "rest (hy_unp h) = struct_bytes tag fs @ r"
    "length (struct_bytes tag fs @ r) < Suc d"
  let ?b = "0xb0 + word_of_nat (length fs) :: byte"
  have wf: "wf_unpacker (hy_unp h)" using h(1) by (simp add: clear_def)
  obtain u1 where u1: "Unpacker_Next (hy_unp h) = Some u1" "got (hy_unp h) (tag # concat fs @ r) u1"
      "u_mrk u1 = markers ?b" "u_Curr u1 = m_typ (markers ?b)"
    using Next_got [OF wf, of ?b "tag # concat fs @ r"] h(4) by (auto simp: struct_bytes_def)
  have mrk: "markers ?b = short_marker PackedStruct (word_of_nat (length fs))" using assms(1) by (rule markers_short)
  let ?u2 = "adv (Suc 0) u1"
  have u2: "Unpacker_StructTag u1 = Some (tag, ?u2)" "got u1 (concat fs @ r) ?u2"
    using u1(2) pop_rest [of u1 tag] got_adv1 [of u1 tag] by (simp_all add: Unpacker_StructTag_def got_def)
  have len: "Unpacker_Len ?u2 = Some (word_of_nat (length fs), ?u2)"
    using assms(1) by (simp add: Unpacker_Len_def u1(3) mrk scast_small)
  have g: "hgot h (concat fs @ r) (h\<lparr>hy_unp := ?u2\<rparr>)"
    using got_trans [OF u1(2) u2(2)] by (simp add: hgot_def)
  have "length (concat fs @ r) < d" using h(5) by (simp add: struct_bytes_def)
  then obtain h' where "struct_value tz (hvalue tz d) tag (word_of_nat (length fs)) (h\<lparr>hy_unp := ?u2\<rparr>) = Some (v, h')"
      "hgot (h\<lparr>hy_unp := ?u2\<rparr>) r h'"
    using assms(2) [unfolded reads_def, rule_format, of "h\<lparr>hy_unp := ?u2\<rparr>" r] hgot_clear [OF h(1) g] h(2,3) by blast
  then show "\<exists>h'. next_then (hvalue tz (Suc d)) h = Some (v, h') \<and> hgot h r h'"
    using hgot_trans [OF g] by (simp add: next_value [OF u1(1)] value_step_def u1(4) mrk unp_def u2(1) len)
qed

subsection \<open>Structs\<close>

lemma ucast_up_down: "ucast (ucast w :: 64 word) = w" for w :: "32 word"
  by (auto simp: bit_eq_iff bit_simps)

lemma reads_Int_bind:
  assumes "reads utc uuid d (g i) bs y"
  shows "reads utc uuid d (\<lambda>h. next_Int h \<bind> (\<lambda>(x, h). g x h)) (int64_bytes i @ bs) y"
  by (rule reads_bind, rule reads_Int, rule assms)

lemma reads_Float_bind:
  assumes "reads utc uuid d (g i) bs y"
  shows "reads utc uuid d (\<lambda>h. next_Float h \<bind> (\<lambda>(x, h). g x h)) (float_bytes i @ bs) y"
  by (rule reads_bind, rule reads_Float, rule assms)

lemma reads_String_bind:
  assumes "fits i" and "reads utc uuid d (g i) bs y"
  shows "reads utc uuid d (\<lambda>h. next_String h \<bind> (\<lambda>(x, h). g x h)) (string_bytes i @ bs) y"
  by (rule reads_bind, rule reads_String, rule assms(1), rule assms(2))

lemma reads_Int_last: "g i = v \<Longrightarrow> reads utc uuid d (\<lambda>h. next_Int h \<bind> (\<lambda>(x, h). Some (g x, h))) (int64_bytes i) v"
  using reads_last [OF reads_Int] by blast

lemma reads_String_last:
  "fits i \<Longrightarrow> g i = v \<Longrightarrow> reads utc uuid d (\<lambda>h. next_String h \<bind> (\<lambda>(x, h). Some (g x, h))) (string_bytes i) v"
  using reads_last [OF reads_String] by blast

lemmas field_reads = reads_Int_bind reads_Float_bind reads_String_bind reads_return

lemma reads_VPoint2D:
  "reads utc uuid (Suc d) (next_then (hvalue tz (Suc d))) (struct_bytes 0x58 [int64_bytes (ucast s), float_bytes x, float_bytes y])
     (VPoint2D s x y)"
proof (rule reads_struct)
  have "reads utc uuid d (point2d 3) (int64_bytes (ucast s) @ float_bytes x @ float_bytes y @ [])
      (VPoint2D (ucast (ucast s :: int64)) x y)"
    unfolding point2d_def [abs_def] by (intro field_reads)
  then show "reads utc uuid d (struct_value tz (hvalue tz d) 0x58 (word_of_nat (length [int64_bytes (ucast s), float_bytes x, float_bytes y])))
      (concat [int64_bytes (ucast s), float_bytes x, float_bytes y]) (VPoint2D s x y)"
    by (simp add: struct_value_def [abs_def] ucast_up_down)
qed simp

lemma reads_VPoint3D:
  "reads utc uuid (Suc d) (next_then (hvalue tz (Suc d)))
     (struct_bytes 0x59 [int64_bytes (ucast s), float_bytes x, float_bytes y, float_bytes z]) (VPoint3D s x y z)"
proof (rule reads_struct)
  have "reads utc uuid d (point3d 4) (int64_bytes (ucast s) @ float_bytes x @ float_bytes y @ float_bytes z @ [])
      (VPoint3D (ucast (ucast s :: int64)) x y z)"
    unfolding point3d_def [abs_def] by (intro field_reads)
  then show "reads utc uuid d (struct_value tz (hvalue tz d) 0x59
      (word_of_nat (length [int64_bytes (ucast s), float_bytes x, float_bytes y, float_bytes z])))
      (concat [int64_bytes (ucast s), float_bytes x, float_bytes y, float_bytes z]) (VPoint3D s x y z)"
    by (simp add: struct_value_def [abs_def] ucast_up_down)
qed simp

lemma reads_VDuration:
  "reads utc uuid (Suc d) (next_then (hvalue tz (Suc d)))
     (struct_bytes 0x45 [int64_bytes mo, int64_bytes da, int64_bytes s, int64_bytes n]) (VDuration mo da s n)"
proof (rule reads_struct)
  have "reads utc uuid d (duration 4) (int64_bytes mo @ int64_bytes da @ int64_bytes s @ int64_bytes n @ []) (VDuration mo da s n)"
    unfolding duration_def [abs_def] by (intro field_reads)
  then show "reads utc uuid d (struct_value tz (hvalue tz d) 0x45 (word_of_nat (length [int64_bytes mo, int64_bytes da, int64_bytes s, int64_bytes n])))
      (concat [int64_bytes mo, int64_bytes da, int64_bytes s, int64_bytes n]) (VDuration mo da s n)"
    by (simp add: struct_value_def [abs_def])
qed simp

subsection \<open>Times\<close>

lemma reads_cong:
  assumes "\<And>h. hy_utc h = utc \<Longrightarrow> hy_uuid h = uuid \<Longrightarrow> f h = g h" and "reads utc uuid d g bs x"
  shows "reads utc uuid d f bs x"
  using assms by (auto simp: reads_def)

text \<open>A struct whose tag selects the method \<open>f\<close> in this configuration.\<close>

lemma reads_struct_by:
  assumes "reads utc uuid d (f (word_of_nat (length fs))) (concat fs) v" and "length fs < 16"
    and "\<And>n h. hy_utc h = utc \<Longrightarrow> struct_value tz (hvalue tz d) tag n h = f n h"
  shows "reads utc uuid (Suc d) (next_then (hvalue tz (Suc d))) (struct_bytes tag fs) v"
  using assms by (intro reads_struct reads_cong [OF _ assms(1)]) auto

lemma reads_time_structs:
  "reads True uuid d (utcDateTimeOffset 3) (a @ b @ c) v \<Longrightarrow>
     reads True uuid (Suc d) (next_then (hvalue tz (Suc d))) (struct_bytes 0x49 [a, b, c]) v"
  "reads False uuid d (dateTimeOffset tz 3) (a @ b @ c) v \<Longrightarrow>
     reads False uuid (Suc d) (next_then (hvalue tz (Suc d))) (struct_bytes 0x46 [a, b, c]) v"
  "reads True uuid d (utcDateTimeNamedZone tz 3) (a @ b @ c) v \<Longrightarrow>
     reads True uuid (Suc d) (next_then (hvalue tz (Suc d))) (struct_bytes 0x69 [a, b, c]) v"
  "reads False uuid d (dateTimeNamedZone tz 3) (a @ b @ c) v \<Longrightarrow>
     reads False uuid (Suc d) (next_then (hvalue tz (Suc d))) (struct_bytes 0x66 [a, b, c]) v"
  by (rule reads_struct_by [where f = utcDateTimeOffset] reads_struct_by [where f = "dateTimeOffset tz"]
      reads_struct_by [where f = "utcDateTimeNamedZone tz"] reads_struct_by [where f = "dateTimeNamedZone tz"];
      simp add: struct_value_def; fail)+

lemma reads_VDateTime:
  assumes "datetime_ok tz utc t"
  shows "reads utc uuid (Suc d) (next_then (hvalue tz (Suc d))) (time_bytes tz utc t) (VDateTime t)"
proof -
  obtain u n l where t: "t = GoTime u n l" by (cases t)
  have n: "0 \<le> n" "n < 1000000000" using assms by (simp_all add: datetime_ok_def nsec_ok_def t)
  let ?n = "int64_bytes (word_of_int n)"
  consider (fixed) off where "l = FixedZone ''Offset'' off"
    | (named) "zone_of_id tz (loc_String l) = Some l" "fits (loc_String l)" "utc \<or> civil_ok tz t"
        "case l of FixedZone _ _ \<Rightarrow> False | _ \<Rightarrow> True"
    using assms by (cases l) (auto simp: datetime_ok_def t)
  then show ?thesis
  proof cases
    case fixed
    have "reads True uuid d (utcDateTimeOffset 3) (int64_bytes u @ ?n @ int64_bytes off @ []) (VDateTime t)"
      using n by (auto simp: utcDateTimeOffset_def [abs_def] In_def t fixed intro!: reads_Int_bind reads_Int_last)
    moreover have "reads False uuid d (dateTimeOffset tz 3) (int64_bytes (u + off) @ ?n @ int64_bytes off @ []) (VDateTime t)"
      using n by (auto simp: dateTimeOffset_def [abs_def] In_def copy_civil_def t fixed
          intro!: reads_Int_bind reads_Int_last)
    ultimately show ?thesis
      by (cases utc) (auto simp: time_bytes_def t fixed intro!: reads_time_structs)
  next
    case named
    then have bytes: "time_bytes tz utc t =
        struct_bytes (if utc then 0x69 else 0x66) [int64_bytes (if utc then u else u + Zone tz t), ?n, string_bytes (loc_String l)]"
      by (cases l) (simp_all add: time_bytes_def t)
    have "reads True uuid d (utcDateTimeNamedZone tz 3) (int64_bytes u @ ?n @ string_bytes (loc_String l) @ []) (VDateTime t)"
      using n named(1,2) by (auto simp: utcDateTimeNamedZone_def [abs_def] In_def t
          intro!: reads_Int_bind reads_String_last)
    moreover have "reads False uuid d (dateTimeNamedZone tz 3) (int64_bytes (u + Zone tz t) @ ?n @ string_bytes (loc_String l) @ [])
        (VDateTime t)" if "civil_ok tz t"
      using n named(1,2) that by (auto simp: dateTimeNamedZone_def [abs_def] In_def copy_civil_def Date_wall_def civil_ok_def t
          intro!: reads_Int_bind reads_String_last)
    ultimately show ?thesis
      unfolding bytes using named(3)
      by (cases utc) (auto intro!: reads_time_structs)
  qed
qed

lemma reads_VLocalDateTime:
  assumes "t_loc t = LocalZone" "nsec_ok t" "civil_ok tz t"
  shows "reads utc uuid (Suc d) (next_then (hvalue tz (Suc d)))
    (struct_bytes 0x64 [int64_bytes (t_unix t + Zone tz t), int64_bytes (word_of_int (t_nsec t))]) (VLocalDateTime t)"
proof (rule reads_struct_by [where f = "localDateTime tz"])
  obtain u n where t: "t = GoTime u n LocalZone" using assms(1) by (cases t) auto
  show "reads utc uuid d (localDateTime tz (word_of_nat (length [int64_bytes (t_unix t + Zone tz t), int64_bytes (word_of_int (t_nsec t))])))
      (concat [int64_bytes (t_unix t + Zone tz t), int64_bytes (word_of_int (t_nsec t))]) (VLocalDateTime t)"
    using assms by (auto simp: localDateTime_def [abs_def] In_def copy_civil_def Date_wall_def civil_ok_def nsec_ok_def t
        intro!: reads_Int_bind reads_Int_last)
qed (simp_all add: struct_value_def)

lemma reads_VDate:
  assumes "- 100000000000000 \<le> k" "k \<le> 100000000000000" and t: "t = GoTime (word_of_int (k * 86400)) 0 UTC"
  shows "reads utc uuid (Suc d) (next_then (hvalue tz (Suc d))) (struct_bytes 0x44 [int64_bytes (date_days (t_unix t + Zone tz t))])
    (VDate t)"
proof (rule reads_struct_by [where f = date])
  have "sint (word_of_int (k * 86400) :: int64) = k * 86400" using assms(1,2) by (intro sint_of_int64) simp_all
  moreover have "k * 86400 sdiv 86400 = k" "k * 86400 smod 86400 = 0"
    by (simp_all add: signed_divide_int_def signed_modulo_int_def abs_mult sgn_mult mult_sgn_abs)
  ultimately have "date_days (word_of_int (k * 86400)) = word_of_int k" unfolding date_days_def Let_def by simp
  then have days: "date_days (word_of_int k * 86400) = word_of_int k" by simp
  have zero: "time_Unix s 0 = GoTime s 0 LocalZone" for s by (simp add: time_Unix_def)
  show "reads utc uuid d (date (word_of_nat (length [int64_bytes (date_days (t_unix t + Zone tz t))])))
      (concat [int64_bytes (date_days (t_unix t + Zone tz t))]) (VDate t)"
    by (simp add: date_def [abs_def] t days) (rule reads_Int_last, simp add: In_def zero)
qed (simp_all add: struct_value_def)

text \<open>The nanoseconds since midnight, there and back.\<close>

lemma clock_sum: "c div 3600 * 3600 + c mod 3600 div 60 * 60 + c mod 60 = (c :: int)"
proof -
  have "c mod 3600 mod 60 = c mod 60" by (simp add: mod_mod_cancel)
  then have "c mod 3600 div 60 * 60 + c mod 60 = c mod 3600" using div_mult_mod_eq [of "c mod 3600" 60] by simp
  then show ?thesis using div_mult_mod_eq [of c 3600] by linarith
qed

lemma clock_nanos_eq: "clock_nanos tz t = word_of_int (clock_seconds tz t * 1000000000 + t_nsec t)"
proof -
  let ?c = "clock_seconds tz t"
  have "clock_nanos tz t = word_of_int (3600000000000 * (?c div 3600) + 60000000000 * (?c mod 3600 div 60) +
      1000000000 * (?c mod 60) + t_nsec t)"
    by (simp add: clock_nanos_def Hour_def Minute_def Second_def)
  also have "3600000000000 * (?c div 3600) + 60000000000 * (?c mod 3600 div 60) + 1000000000 * (?c mod 60) =
      1000000000 * (?c div 3600 * 3600 + ?c mod 3600 div 60 * 60 + ?c mod 60)"
    by (simp add: algebra_simps)
  finally show ?thesis unfolding clock_sum by (simp add: mult.commute)
qed

lemma split_nanos_eq:
  assumes "0 \<le> s" "s < 86400" "0 \<le> n" "n < 1000000000"
  shows "split_nanos (word_of_int (s * 1000000000 + n)) = (word_of_int s, word_of_int n)"
proof -
  have "sint (word_of_int (s * 1000000000 + n) :: int64) = s * 1000000000 + n"
    using assms by (intro sint_of_int64) simp_all
  moreover have "(s * 1000000000 + n) sdiv 1000000000 = s"
    using assms by (simp add: signed_divide_int_def div_add1_eq sgn_if)
  ultimately show ?thesis by (simp add: split_nanos_def Let_def)
qed

lemma day_zero_nanos:
  assumes "day_zero tz t"
  obtains s where "split_nanos (clock_nanos tz t) = (word_of_int s, word_of_int (t_nsec t))"
    and "Date_zero tz (word_of_int s) (word_of_int (t_nsec t)) (t_loc t) = t"
proof -
  obtain s where s: "0 \<le> s" "s < 86400" "sint (t_unix t) + sint (Zone tz t) = s - 62169984000"
    and n: "0 \<le> t_nsec t" "t_nsec t < 1000000000" and civil: "civil_ok tz t"
    using assms by (auto simp: day_zero_def nsec_ok_def)
  have "(s - 62169984000) mod 86400 = s"
    using s(1,2) mod_mult_self1 [of s "- 719560" 86400] by simp
  then have "clock_seconds tz t = s" by (simp add: clock_seconds_def s(3))
  then have 1: "split_nanos (clock_nanos tz t) = (word_of_int s, word_of_int (t_nsec t))"
    unfolding clock_nanos_eq using split_nanos_eq [OF s(1,2) n] by simp
  have "t_unix t + Zone tz t = word_of_int (sint (t_unix t) + sint (Zone tz t))" by simp
  then have wall: "word_of_int s - 62169984000 = t_unix t + Zone tz t" by (simp add: s(3))
  have "sint (word_of_int (t_nsec t) :: int64) = t_nsec t" using n by (intro sint_of_int64) simp_all
  then have "Date_zero tz (word_of_int s) (word_of_int (t_nsec t)) (t_loc t) = Date_wall tz (t_unix t + Zone tz t) (t_nsec t) (t_loc t)"
    using n by (simp add: Date_zero_def wall)
  also have "\<dots> = t" using civil by (cases t) (simp add: Date_wall_def civil_ok_def)
  finally show ?thesis using that 1 by blast
qed

lemma reads_VTime:
  assumes "day_zero tz t" and "t_loc t = FixedZone ''Offset'' off"
  shows "reads utc uuid (Suc d) (next_then (hvalue tz (Suc d)))
    (struct_bytes 0x54 [int64_bytes (clock_nanos tz t), int64_bytes (Zone tz t)]) (VTime t)"
proof (rule reads_struct_by [where f = "htime tz"])
  obtain s where s: "split_nanos (clock_nanos tz t) = (word_of_int s, word_of_int (t_nsec t))"
    "Date_zero tz (word_of_int s) (word_of_int (t_nsec t)) (t_loc t) = t"
    using day_zero_nanos [OF assms(1)] .
  have "Zone tz t = off" using assms(2) by (cases t) simp
  then show "reads utc uuid d (htime tz (word_of_nat (length [int64_bytes (clock_nanos tz t), int64_bytes (Zone tz t)])))
      (concat [int64_bytes (clock_nanos tz t), int64_bytes (Zone tz t)]) (VTime t)"
    using s assms(2) by (auto simp: htime_def [abs_def] intro!: reads_Int_bind reads_Int_last)
qed (simp_all add: struct_value_def)

lemma reads_VLocalTime:
  assumes "day_zero tz t" and "t_loc t = LocalZone"
  shows "reads utc uuid (Suc d) (next_then (hvalue tz (Suc d))) (struct_bytes 0x74 [int64_bytes (clock_nanos tz t)]) (VLocalTime t)"
proof (rule reads_struct_by [where f = "localTime tz"])
  obtain s where s: "split_nanos (clock_nanos tz t) = (word_of_int s, word_of_int (t_nsec t))"
    "Date_zero tz (word_of_int s) (word_of_int (t_nsec t)) (t_loc t) = t"
    using day_zero_nanos [OF assms(1)] .
  have "localTime tz n = (\<lambda>h. next_Int h \<bind> (\<lambda>(x, h).
      Some (VLocalTime (Date_zero tz (fst (split_nanos x)) (snd (split_nanos x)) LocalZone), h)))" for n
    by (simp add: localTime_def [abs_def] case_prod_beta)
  then show "reads utc uuid d (localTime tz (word_of_nat (length [int64_bytes (clock_nanos tz t)])))
      (concat [int64_bytes (clock_nanos tz t)]) (VLocalTime t)"
    using s assms(2) by (auto intro!: reads_Int_last)
qed (simp_all add: struct_value_def)

subsection \<open>Vectors\<close>

lemma elems_concat:
  fixes v :: "'w::len word list"
  assumes "0 < k" and "256 ^ k = (2 :: nat) ^ LENGTH('w)"
  shows "elems k (concat (map (\<lambda>w. be_bytes k (unat w)) v)) = v"
proof (rule nth_equalityI)
  let ?d = "concat (map (\<lambda>w. be_bytes k (unat w)) v)"
  have len: "length (concat (map (\<lambda>w. be_bytes k (unat w)) v)) = length v * k" for v :: "'w word list"
    by (induction v) simp_all
  then show "length (elems k ?d :: 'w word list) = length v" using assms(1) by (simp add: elems_def)
  fix i assume "i < length (elems k ?d :: 'w word list)"
  then have i: "i < length v" using assms(1) len by (simp add: elems_def)
  have "take k (drop (i * k) ?d) = be_bytes k (unat (v ! i))"
  proof -
    have "?d = concat (map (\<lambda>w. be_bytes k (unat w)) (take i v)) @ be_bytes k (unat (v ! i)) @
        concat (map (\<lambda>w. be_bytes k (unat w)) (drop (Suc i) v))"
      using i by (subst id_take_nth_drop [OF i]) simp
    then show ?thesis using len [of "take i v"] i by simp
  qed
  then show "elems k ?d ! i = v ! i"
    using i assms len by (simp add: elems_def word_of_nat_be_bytes)
qed

lemma reads_Next_bytes:
  assumes "fits32 b" and "reads utc uuid d (g b) bs y"
  shows "reads utc uuid d (\<lambda>h. unp_Next h \<bind> (\<lambda>h. if u_Curr (hy_unp h) \<noteq> PackedByteArray then err h
     else unp Unpacker_ByteArray h \<bind> (\<lambda>(x, h). g x h))) (bytearray_bytes b @ bs) y"
proof (rule readsI)
  fix h r assume h: "clear h" "hy_utc h = utc" "hy_uuid h = uuid" "rest (hy_unp h) = (bytearray_bytes b @ bs) @ r"
    "length ((bytearray_bytes b @ bs) @ r) < d"
  let ?k = "\<lambda>h. next_then (unp Unpacker_ByteArray) h \<bind> (\<lambda>(x, h). g x h)"
  have "reads utc uuid d ?k (bytearray_bytes b @ bs) y"
    by (rule reads_bind, rule reads_ByteArray, rule assms(1), rule assms(2))
  then obtain h' where h': "?k h = Some (y, h')" "hgot h r h'"
    using h unfolding reads_def by blast
  obtain c cs where c: "bytearray_bytes b = c # cs" "m_typ (markers c) = PackedByteArray"
    using bytearray_bytes_Cons [OF assms(1)] .
  have wf: "wf_unpacker (hy_unp h)" using h(1) by (simp add: clear_def)
  obtain u1 where u1: "Unpacker_Next (hy_unp h) = Some u1" using Next_safe [OF wf] by blast
  have "u_Curr u1 = PackedByteArray" using Next_Curr [OF wf _ u1] h(4) c by simp
  then show "\<exists>h'. unp_Next h \<bind> (\<lambda>h. if u_Curr (hy_unp h) \<noteq> PackedByteArray then err h
      else unp Unpacker_ByteArray h \<bind> (\<lambda>(x, h). g x h)) = Some (y, h') \<and> hgot h r h'"
    using h' by (simp add: unp_Next_def u1 next_then_def)
qed

lemma reads_vector:
  assumes "fits32 data" and "vector_elems m data = Inr v"
  shows "reads utc uuid (Suc d) (next_then (hvalue tz (Suc d))) (vector_bytes m data) v"
  unfolding vector_bytes_def
proof (rule reads_struct_by [where f = vector])
  have m: "fits32 [m]" by (simp add: fits32_def)
  let ?vals = "\<lambda>h. unp_Next h \<bind> (\<lambda>h. if u_Curr (hy_unp h) \<noteq> PackedByteArray
      then vectorErr ''Expected byte array for vector values'' h
      else unp Unpacker_ByteArray h \<bind> (\<lambda>(vs, h). at [m] 0 \<bind> (\<lambda>m. case vector_elems m vs of
        Inl msg \<Rightarrow> vectorErr msg h | Inr v \<Rightarrow> Some (v, h))))"
  have "reads utc uuid d (\<lambda>h. at [m] 0 \<bind> (\<lambda>m. case vector_elems m data of
      Inl msg \<Rightarrow> vectorErr msg h | Inr v \<Rightarrow> Some (v, h))) [] v"
    by (simp add: assms(2) at_def reads_return)
  then have vals: "reads utc uuid d ?vals (bytearray_bytes data) v"
    using reads_Next_bytes [OF assms(1), of utc uuid d] by fastforce
  have "reads utc uuid d (\<lambda>h. unp_Next h \<bind> (\<lambda>h. if u_Curr (hy_unp h) \<noteq> PackedByteArray
      then vectorErr ''Expected byte array for vector type marker'' h
      else unp Unpacker_ByteArray h \<bind> (\<lambda>(t, h). (if length t \<noteq> 1 then vectorErr ''Vector type marker must be exactly 1 byte'' h
      else unp_Next h \<bind> (\<lambda>h. if u_Curr (hy_unp h) \<noteq> PackedByteArray
        then vectorErr ''Expected byte array for vector values'' h
        else unp Unpacker_ByteArray h \<bind> (\<lambda>(vs, h). at t 0 \<bind> (\<lambda>m. case vector_elems m vs of
          Inl msg \<Rightarrow> vectorErr msg h | Inr v \<Rightarrow> Some (v, h))))))))
      (bytearray_bytes [m] @ bytearray_bytes data) v"
    by (rule reads_Next_bytes [OF m]) (use vals in simp)
  note body = this
  show "reads utc uuid d (vector (word_of_nat (length [bytearray_bytes [m], bytearray_bytes data])))
      (concat [bytearray_bytes [m], bytearray_bytes data]) v"
    using body unfolding reads_def vector_def checked_def Let_def
    by (simp add: assertLength_def getErr_def clear_def)
qed (simp_all add: struct_value_def)

lemma fits32_concat: "length v * k < 0x100000000 \<Longrightarrow> fits32 (concat (map (\<lambda>w. be_bytes k (unat w)) v))"
  by (simp add: fits32_def length_concat comp_def sum_list_triv)

lemma reads_vectors:
  "length f64 * 8 < 0x100000000 \<Longrightarrow> reads utc uuid (Suc d) (next_then (hvalue tz (Suc d))) (enc tz utc (VVectorF64 f64)) (VVectorF64 f64)"
  "length f32 * 4 < 0x100000000 \<Longrightarrow> reads utc uuid (Suc d) (next_then (hvalue tz (Suc d))) (enc tz utc (VVectorF32 f32)) (VVectorF32 f32)"
  "fits32 i8 \<Longrightarrow> reads utc uuid (Suc d) (next_then (hvalue tz (Suc d))) (enc tz utc (VVectorI8 i8)) (VVectorI8 i8)"
  "length i16 * 2 < 0x100000000 \<Longrightarrow> reads utc uuid (Suc d) (next_then (hvalue tz (Suc d))) (enc tz utc (VVectorI16 i16)) (VVectorI16 i16)"
  "length i32 * 4 < 0x100000000 \<Longrightarrow> reads utc uuid (Suc d) (next_then (hvalue tz (Suc d))) (enc tz utc (VVectorI32 i32)) (VVectorI32 i32)"
  "length i64 * 8 < 0x100000000 \<Longrightarrow> reads utc uuid (Suc d) (next_then (hvalue tz (Suc d))) (enc tz utc (VVectorI64 i64)) (VVectorI64 i64)"
  unfolding enc.simps
  by (rule reads_vector, (erule fits32_concat | assumption),
      simp add: vector_elems_def elems_concat length_concat comp_def sum_list_triv)+

subsection \<open>Every value\<close>

lemma reads_zero [simp]: "reads utc uuid 0 f bs x"
  by (simp add: reads_def)

text \<open>The values without parts.\<close>

lemma reads_scalar:
  assumes "wire_ok tz utc uuid v" and "case v of VList _ \<Rightarrow> False | VMap _ \<Rightarrow> False | _ \<Rightarrow> True"
  shows "reads utc uuid (Suc d) (next_then (hvalue tz (Suc d))) (enc tz utc v) v"
proof (cases v)
  case VNil
  show ?thesis unfolding VNil enc.simps wire_ok.simps by (rule reads_marker, simp add: value_step_def)
next
  case (VBool b)
  show ?thesis unfolding VBool enc.simps wire_ok.simps by (rule reads_marker, simp add: value_step_def split: if_splits)
next
  case (VInt i)
  show ?thesis unfolding VInt enc.simps wire_ok.simps by (rule reads_VInt)
next
  case (VFloat f)
  show ?thesis unfolding VFloat enc.simps wire_ok.simps by (rule reads_VFloat)
next
  case (VStr s)
  from assms(1) show ?thesis unfolding VStr enc.simps wire_ok.simps by (rule reads_VStr)
next
  case (VBytes b)
  from assms(1) show ?thesis unfolding VBytes enc.simps wire_ok.simps by (rule reads_VBytes)
next
  case (VPoint2D s x y)
  show ?thesis unfolding VPoint2D enc.simps wire_ok.simps by (rule reads_VPoint2D)
next
  case (VPoint3D s x y z)
  show ?thesis unfolding VPoint3D enc.simps wire_ok.simps by (rule reads_VPoint3D)
next
  case (VDateTime t)
  from assms(1) show ?thesis unfolding VDateTime enc.simps wire_ok.simps by (rule reads_VDateTime)
next
  case (VDuration mo da s n)
  show ?thesis unfolding VDuration enc.simps wire_ok.simps by (rule reads_VDuration)
next
  case (VUUID b)
  from assms(1) show ?thesis unfolding VUUID enc.simps wire_ok.simps by (auto simp del: hvalue.simps intro: reads_VUUID)
next
  case (VLocalDateTime t)
  from assms(1) show ?thesis unfolding VLocalDateTime enc.simps wire_ok.simps by (intro reads_VLocalDateTime) auto
next
  case (VDate t)
  from assms(1) show ?thesis unfolding VDate enc.simps wire_ok.simps by (elim exE conjE) (rule reads_VDate)
next
  case (VTime t)
  from assms(1) show ?thesis unfolding VTime enc.simps wire_ok.simps by (elim exE conjE) (rule reads_VTime)
next
  case (VLocalTime t)
  from assms(1) show ?thesis unfolding VLocalTime enc.simps wire_ok.simps by (elim conjE) (rule reads_VLocalTime)
next
  case (VVectorF64 v)
  from assms(1) show ?thesis unfolding VVectorF64 wire_ok.simps by (intro reads_vectors)
next
  case (VVectorF32 v)
  from assms(1) show ?thesis unfolding VVectorF32 wire_ok.simps by (intro reads_vectors)
next
  case (VVectorI8 v)
  from assms(1) show ?thesis unfolding VVectorI8 wire_ok.simps by (intro reads_vectors)
next
  case (VVectorI16 v)
  from assms(1) show ?thesis unfolding VVectorI16 wire_ok.simps by (intro reads_vectors)
next
  case (VVectorI32 v)
  from assms(1) show ?thesis unfolding VVectorI32 wire_ok.simps by (intro reads_vectors)
next
  case (VVectorI64 v)
  from assms(1) show ?thesis unfolding VVectorI64 wire_ok.simps by (intro reads_vectors)
qed (use assms in simp_all)

lemma reads_scalar_any:
  assumes "wire_ok tz utc uuid v" and "case v of VList _ \<Rightarrow> False | VMap _ \<Rightarrow> False | _ \<Rightarrow> True"
  shows "reads utc uuid d (next_then (hvalue tz d)) (enc tz utc v) v"
  using reads_scalar [OF assms] by (cases d) (simp_all del: hvalue.simps)

theorem reads_enc: "wire_ok tz utc uuid v \<Longrightarrow> reads utc uuid d (next_then (hvalue tz d)) (enc tz utc v) v"
proof (induction v arbitrary: d)
  case (VList l)
  show ?case
  proof (cases d)
    case (Suc k)
    have "list_all (\<lambda>v. reads utc uuid k (next_then (hvalue tz k)) (enc tz utc v) v) l"
      using VList by (auto simp: list_all_iff)
    then show ?thesis using VList.prems Suc by (auto simp del: hvalue.simps intro: reads_VList)
  qed simp
next
  case (VMap m)
  show ?case
  proof (cases d)
    case (Suc k)
    have "list_all (\<lambda>(k', v). fits k' \<and> reads utc uuid k (next_then (hvalue tz k)) (enc tz utc v) v) m"
      using VMap by (fastforce simp: list_all_iff)
    then show ?thesis using VMap.prems Suc by (auto simp del: hvalue.simps intro: reads_VMap)
  qed simp
qed (rule reads_scalar_any, assumption, simp)+

end
