(* ===== verification/Dehydrate.thy ===== *)
theory Dehydrate
  imports Roundtrip
begin

text \<open>
  What packX emits is the wire format of the value that its argument stands for. \<open>denotes\<close> relates Go values to
  the values of the database, as the documentation of the driver does; \<open>packX_writes\<close> shows that packX and packV
  write the wire format of such a value, and the round trip takes a record from the values of a program through the
  packer, the chunker, the wire, the dechunker and the hydrator.
\<close>

section \<open>The value that a Go value stands for\<close>

definition wall :: "tzdb \<Rightarrow> gotime \<Rightarrow> int64" where
  "wall tz t = t_unix t + Zone tz t"

text \<open>
  A time keeps its instant. Its zone is sent by name when the tz database has a zone of that name with the same
  offset at that instant, and as an offset otherwise.
\<close>

definition same_instant :: "tzdb \<Rightarrow> gotime \<Rightarrow> gotime \<Rightarrow> bool" where
  "same_instant tz t t' \<longleftrightarrow> t_unix t' = t_unix t \<and> t_nsec t' = t_nsec t \<and>
     (case id_of_time tz t of
        Some zid \<Rightarrow> zone_of_id tz zid = Some (t_loc t')
      | None \<Rightarrow> t_loc t' = FixedZone ''Offset'' (Zone tz t))"

inductive native_denotes :: "tzdb \<Rightarrow> gonative \<Rightarrow> goval \<Rightarrow> bool" for tz where
  "native_denotes tz (GPoint2D s x y) (VPoint2D s x y)"
| "native_denotes tz (GPoint3D s x y z) (VPoint3D s x y z)"
| "same_instant tz t t' \<Longrightarrow> native_denotes tz (GTime t) (VDateTime t')"
| "wall tz t' = wall tz t \<Longrightarrow> t_nsec t' = t_nsec t \<Longrightarrow> native_denotes tz (GLocalDateTime t) (VLocalDateTime t')"
| "date_days (wall tz t') = date_days (wall tz t) \<Longrightarrow> native_denotes tz (GDate t) (VDate t')"
| "clock_nanos tz t' = clock_nanos tz t \<Longrightarrow> Zone tz t' = Zone tz t \<Longrightarrow> native_denotes tz (GTimeOfDay t) (VTime t')"
| "clock_nanos tz t' = clock_nanos tz t \<Longrightarrow> native_denotes tz (GLocalTime t) (VLocalTime t')"
| "native_denotes tz (GDuration mo d s n) (VDuration mo d s n)"
| "native_denotes tz (GVectorI8 i8) (VVectorI8 i8)"
| "native_denotes tz (GVectorI16 i16) (VVectorI16 i16)"
| "native_denotes tz (GVectorI32 i32) (VVectorI32 i32)"
| "native_denotes tz (GVectorI64 i64) (VVectorI64 i64)"
| "native_denotes tz (GVectorF32 f32) (VVectorF32 f32)"
| "native_denotes tz (GVectorF64 f64) (VVectorF64 f64)"

fun slice_val :: "goslice \<Rightarrow> goval" where
  "slice_val (SBytes b) = VBytes b"
| "slice_val (SNamedBytes b) = VBytes b"
| "slice_val (SInts xs) = VList (map VInt xs)"
| "slice_val (SInt64s xs) = VList (map VInt xs)"
| "slice_val (SStrings xs) = VList (map VStr xs)"
| "slice_val (SFloat64s xs) = VList (map VFloat xs)"

fun map_val :: "gotmap \<Rightarrow> goval" where
  "map_val (MBytes m) = VMap (map (\<lambda>(k, v). (k, VBytes v)) m)"
| "map_val (MInt m) = VMap (map (\<lambda>(k, v). (k, VInt v)) m)"
| "map_val (MInt64 m) = VMap (map (\<lambda>(k, v). (k, VInt v)) m)"
| "map_val (MString m) = VMap (map (\<lambda>(k, v). (k, VStr v)) m)"
| "map_val (MFloat64 m) = VMap (map (\<lambda>(k, v). (k, VFloat v)) m)"

definition named_bytes :: "goslice \<Rightarrow> bool" where
  "named_bytes s = (case s of SNamedBytes _ \<Rightarrow> True | _ \<Rightarrow> False)"

text \<open>
  Pointers stand for what they point to, except pointers to the temporal structs, which packStruct does not know;
  slices whose elements are bytes under another name are left out, since packX and packV write them differently.
\<close>

inductive denotes :: "tzdb \<Rightarrow> goarg \<Rightarrow> goval \<Rightarrow> bool" for tz where
  d_nil: "denotes tz GNil VNil"
| d_bool: "denotes tz (GBool b) (VBool b)"
| d_int: "denotes tz (GInt i) (VInt i)"
| d_uint32: "denotes tz (GUint32 w) (VInt (ucast w))"
| d_uint64: "uint w < 0x8000000000000000 \<Longrightarrow> denotes tz (GUint64 w) (VInt w)"
| d_float: "denotes tz (GFloat f) (VFloat f)"
| d_string: "denotes tz (GString s) (VStr s)"
| d_nilptr: "denotes tz GNilPtr VNil"
| d_native: "native_denotes tz n v \<Longrightarrow> denotes tz (GNative n) v"
| d_ptr_native: "native_denotes tz n v \<Longrightarrow> ptr_case n \<Longrightarrow> denotes tz (GPtr (GNative n)) v"
| d_ptr: "\<not> is_struct i \<Longrightarrow> denotes tz i v \<Longrightarrow> denotes tz (GPtr i) v"
| d_iface: "denotes tz i v \<Longrightarrow> denotes tz (GIface i) v"
| d_struct: "struct_map g = Some m \<Longrightarrow> g = GStruct t vs \<or> g = GPtr (GStruct t vs) \<Longrightarrow>
     list_all2 (\<lambda>kx kv. fst kx = fst kv \<and> denotes tz (snd kx) (snd kv)) m m' \<Longrightarrow> denotes tz g (VMap m')"
| d_uuid: "denotes tz (GUUID u) (VUUID u)"
| d_slice: "\<not> named_bytes s \<Longrightarrow> denotes tz (GTyped s) (slice_val s)"
| d_elems: "list_all2 (denotes tz) xs vs \<Longrightarrow> g = GAnys xs \<or> g = GSlice xs \<Longrightarrow> denotes tz g (VList vs)"
| d_typed_map: "denotes tz (GTypedMap m) (map_val m)"
| d_entries: "list_all2 (\<lambda>kx kv. fst kx = fst kv \<and> denotes tz (snd kx) (snd kv)) m m' \<Longrightarrow>
     g = GAnyMap m \<or> g = GMap m \<Longrightarrow> denotes tz g (VMap m')"

section \<open>Writing\<close>

definition emits :: "bool \<Rightarrow> bool \<Rightarrow> (outgoing \<Rightarrow> outgoing) \<Rightarrow> bytes \<Rightarrow> bool" where
  "emits utc uuid f bs \<longleftrightarrow> (\<forall>o'. o_useUtc o' = utc \<longrightarrow> o_supportsUuid o' = uuid \<longrightarrow> f o' = pk (\<lambda>p. emit p bs) o')"

lemma emits_seq: "emits utc uuid f a \<Longrightarrow> emits utc uuid g b \<Longrightarrow> emits utc uuid (\<lambda>o'. g (f o')) (a @ b)"
  by (simp add: emits_def pk_def)

lemma emits_pk: "(\<And>p. f p = emit p bs) \<Longrightarrow> emits utc uuid (pk f) bs"
  by (simp add: emits_def pk_def)

lemma emits_foldl:
  "list_all2 (\<lambda>x bs. emits utc uuid (f x) bs) xs bss \<Longrightarrow> emits utc uuid (\<lambda>o'. foldl (\<lambda>o' x. f x o') o' xs) (concat bss)"
proof (induction rule: list_all2_induct)
  case Nil
  then show ?case by (simp add: emits_def pk_def)
next
  case (Cons x xs bs bss)
  from emits_seq [OF Cons(1) Cons.IH] show ?case by simp
qed

lemma list_hdr_emit: "fits xs \<Longrightarrow> Packer_listHeader p (int (length xs)) a b = emit p (list_hdr (length xs) a b)"
  using fits_header [of xs a b] by (auto simp: Packer_listHeader_emit list_hdr_def)

lemma struct_emit: "length fs \<le> 15 \<Longrightarrow> n = int (length fs) \<Longrightarrow> emit (Packer_StructHeader p tag n) (concat fs) = emit p (struct_bytes tag fs)"
  by (simp add: Packer_StructHeader_def struct_bytes_def)

lemma emits_elems:
  assumes "list_all2 (\<lambda>x v. emits utc uuid (f x) (e v)) xs vs" and "fits vs"
  shows "emits utc uuid (pack_elems f xs) (list_hdr (length vs) 0x90 0xd4 @ concat (map e vs))"
proof -
  have len: "length xs = length vs" using assms(1) by (rule list_all2_lengthD)
  have hdr: "emits utc uuid (pk (\<lambda>p. Packer_ArrayHeader p (int (length xs)))) (list_hdr (length vs) 0x90 0xd4)"
    by (rule emits_pk) (simp add: Packer_ArrayHeader_def len list_hdr_emit [OF assms(2)])
  have "list_all2 (\<lambda>x bs. emits utc uuid (f x) bs) xs (map e vs)" using assms(1) by (simp add: list_all2_map2)
  from emits_seq [OF hdr emits_foldl [OF this]] show ?thesis unfolding pack_elems_def by simp
qed

lemma emits_key: "fits k \<Longrightarrow> emits utc uuid f bs \<Longrightarrow> emits utc uuid (\<lambda>o'. f (pk (\<lambda>p. Packer_String p k) o')) (string_bytes k @ bs)"
  by (rule emits_seq [OF emits_pk]) (simp_all add: Packer_String_emit)

lemma emits_entries:
  assumes "list_all2 (\<lambda>kx kv. fst kx = fst kv \<and> fits (fst kv) \<and> emits utc uuid (f (snd kx)) (e (snd kv))) m m'" and "fits m'"
  shows "emits utc uuid (pack_map f m) (list_hdr (length m') 0xa0 0xd8 @ concat (map (\<lambda>(k, v). string_bytes k @ e v) m'))"
proof -
  have len: "length m = length m'" using assms(1) by (rule list_all2_lengthD)
  have hdr: "emits utc uuid (pk (\<lambda>p. Packer_MapHeader p (int (length m)))) (list_hdr (length m') 0xa0 0xd8)"
    by (rule emits_pk) (simp add: Packer_MapHeader_def len list_hdr_emit [OF assms(2)])
  have "list_all2 (\<lambda>kx bs. emits utc uuid (\<lambda>o'. f (snd kx) (pk (\<lambda>p. Packer_String p (fst kx)) o')) bs) m
      (map (\<lambda>(k, v). string_bytes k @ e v) m')"
    unfolding list_all2_map2 using assms(1)
    by (rule list_all2_mono) (auto intro: emits_key)
  from emits_seq [OF hdr emits_foldl [OF this]] show ?thesis unfolding pack_map_def by simp
qed

subsection \<open>Structs\<close>

lemmas struct_run = Packer_Int_def Packer_Int64_emit Packer_Float64_emit Packer_Uint32_def
  Packer_StructHeader_def struct_bytes_def

lemma emits_pack_dateTime:
  "(\<And>p. zone p = emit p z) \<Longrightarrow>
     emits utc uuid (pack_dateTime tag secs nsec zone) (struct_bytes tag [int64_bytes secs, int64_bytes (word_of_int nsec), z])"
  by (simp add: emits_def pack_dateTime_def pk_def struct_run)

lemma zone_of_id_named: "zone_of_id tz zid = Some l \<Longrightarrow> loc_String l = zid \<and> (\<forall>n off. l \<noteq> FixedZone n off)"
  by (auto simp: zone_of_id_def timezone_Load_def LoadLocation_def Let_def split: if_splits)

lemma id_of_time_Zone:
  "id_of_time tz t = Some zid \<Longrightarrow> zone_of_id tz zid = Some l \<Longrightarrow> Zone tz (In t l) = Zone tz t"
  by (auto simp: id_of_time_def zone_of_id_def timezone_ID_def Let_def split: option.splits prod.splits if_splits)

lemma emits_time:
  assumes "same_instant tz t t'" and "datetime_ok tz utc t'"
  shows "emits utc uuid (packTime tz t) (time_bytes tz utc t')"
proof (cases "id_of_time tz t")
  case None
  then have t': "t' = GoTime (t_unix t) (t_nsec t) (FixedZone ''Offset'' (Zone tz t))"
    using assms(1) by (cases t') (simp add: same_instant_def)
  have z: "Zone tz t' = Zone tz t" by (simp add: t' Zone_def lookup_zone_def)
  show ?thesis
    using emits_pack_dateTime [where zone = "\<lambda>p. Packer_Int p (Zone tz t)" and z = "int64_bytes (Zone tz t)" and nsec = "t_nsec t"]
    by (cases utc) (simp_all add: emits_def packTime_def None packUtcDateTimeWithTzOffset_def
      packLegacyDateTimeWithTzOffset_def time_bytes_def z, simp_all add: t' Packer_Int_def Packer_Int64_emit)
next
  case (Some zid)
  then have l: "zone_of_id tz zid = Some (t_loc t')" and t: "t_unix t' = t_unix t" "t_nsec t' = t_nsec t"
    using assms(1) by (simp_all add: same_instant_def)
  have loc: "loc_String (t_loc t') = zid" "\<forall>n off. t_loc t' \<noteq> FixedZone n off" using zone_of_id_named [OF l] by auto
  have "In t (t_loc t') = t'" by (cases t') (use t in \<open>simp add: In_def\<close>)
  then have z: "Zone tz t' = Zone tz t" using id_of_time_Zone [OF Some l] by simp
  have "fits zid" using assms(2) loc by (auto simp: datetime_ok_def split: location.splits)
  then show ?thesis
    using emits_pack_dateTime [where zone = "\<lambda>p. Packer_String p zid" and z = "string_bytes zid" and nsec = "t_nsec t"] loc
    by (cases utc; cases "t_loc t'") (simp_all add: emits_def packTime_def Some packUtcDateTimeWithTzName_def
      packLegacyDateTimeWithTzName_def time_bytes_def z t Packer_String_emit)
qed

lemma bytes_emit: "fits32 data \<Longrightarrow> n = int (length data) \<Longrightarrow> \<exists>hdr. bytes_header n = Some hdr \<and> bytearray_bytes data = hdr @ data"
  using fits32_header [of data] by (auto simp: bytearray_bytes_def)

lemma vector_emit:
  assumes "length vec * k < 0x100000000" and "\<And>v. length (e v) = k"
  shows "Packer_vector mrk (int k) e p vec = emit p (vector_bytes mrk (concat (map e vec)))"
proof -
  have 1: "fits32 [mrk]" "fits32 ([] :: bytes)" by (simp_all add: fits32_def)
  have len: "length (concat (map e vec)) = length vec * k"
    using assms(2) by (simp add: length_concat comp_def sum_list_triv)
  then obtain hdr where hdr: "bytes_header (int (length vec) * int k) = Some hdr"
    "bytearray_bytes (concat (map e vec)) = hdr @ concat (map e vec)"
    using bytes_emit [of "concat (map e vec)" "int (length vec) * int k"] assms(1) by (auto simp: fits32_def)
  have "foldl (\<lambda>q v. emit q (e v)) q vec = emit q (concat (map e vec))" for q by (rule foldl_emit) simp
  then show ?thesis
    using hdr by (cases "vec = []") (simp_all add: Packer_vector_def Packer_Bytes_emit 1 Packer_prepareVectorData_def Packer_bytesHeader_def
      vector_bytes_def struct_run Let_def)
qed

lemma emits_vectors:
  "length f64 * 8 < 0x100000000 \<Longrightarrow> emits utc uuid (pk (\<lambda>p. Packer_VectorFloat64 p f64)) (enc tz utc (VVectorF64 f64))"
  "length f32 * 4 < 0x100000000 \<Longrightarrow> emits utc uuid (pk (\<lambda>p. Packer_VectorFloat32 p f32)) (enc tz utc (VVectorF32 f32))"
  "fits32 i8 \<Longrightarrow> emits utc uuid (pk (\<lambda>p. Packer_VectorInt8 p i8)) (enc tz utc (VVectorI8 i8))"
  "length i16 * 2 < 0x100000000 \<Longrightarrow> emits utc uuid (pk (\<lambda>p. Packer_VectorInt16 p i16)) (enc tz utc (VVectorI16 i16))"
  "length i32 * 4 < 0x100000000 \<Longrightarrow> emits utc uuid (pk (\<lambda>p. Packer_VectorInt32 p i32)) (enc tz utc (VVectorI32 i32))"
  "length i64 * 8 < 0x100000000 \<Longrightarrow> emits utc uuid (pk (\<lambda>p. Packer_VectorInt64 p i64)) (enc tz utc (VVectorI64 i64))"
  using vector_emit [where k = 8 and vec = f64 and e = "\<lambda>v. be_bytes 8 (unat v)"]
    vector_emit [where k = 4 and vec = f32 and e = "\<lambda>v. be_bytes 4 (unat v)"]
    vector_emit [where k = 1 and vec = i8 and e = "\<lambda>v. [v]"]
    vector_emit [where k = 2 and vec = i16 and e = "\<lambda>v. be_bytes 2 (unat v)"]
    vector_emit [where k = 4 and vec = i32 and e = "\<lambda>v. be_bytes 4 (unat v)"]
    vector_emit [where k = 8 and vec = i64 and e = "\<lambda>v. be_bytes 8 (unat v)"]
  by (auto intro!: emits_pk simp: Packer_VectorFloat64_def Packer_VectorFloat32_def Packer_VectorInt8_def
    Packer_VectorInt16_def Packer_VectorInt32_def Packer_VectorInt64_def fits32_def)

lemma emits_native:
  assumes "native_denotes tz n v" and "wire_ok tz utc uuid v"
  shows "emits utc uuid (pack_by_value tz n) (enc tz utc v)"
  using assms
proof cases
  case (3 t t')
  then show ?thesis using assms(2) emits_time [of tz t t' utc uuid] by (simp add: emits_def)
qed (use assms(2) emits_vectors in
  \<open>auto simp: emits_def pk_def struct_run pack_point2D_def pack_point3D_def pack_duration_def wall_def\<close>)

subsection \<open>Slices and maps with a type of their own\<close>

lemma emits_list:
  assumes "\<And>x p. x \<in> set xs \<Longrightarrow> f p x = emit p (enc tz utc (c x))" and "fits xs"
    and "\<And>p. g p = foldl f (Packer_listHeader p (int (length xs)) 0x90 0xd4) xs"
  shows "emits utc uuid (pk g) (enc tz utc (VList (map c xs)))"
proof (rule emits_pk)
  fix p
  have "foldl f q xs = emit q (concat (map (\<lambda>x. enc tz utc (c x)) xs))" for q
    by (rule foldl_emit_on) (rule assms(1))
  then show "g p = emit p (enc tz utc (VList (map c xs)))"
    by (simp add: assms(3) list_hdr_emit [OF assms(2)] comp_def)
qed

lemma packV_typed_same: "\<not> named_bytes s \<Longrightarrow> packV_typed s = pack_typed s"
proof -
  have "Packer_Int = Packer_Int64" by (simp add: fun_eq_iff Packer_Int_def)
  then show "\<not> named_bytes s \<Longrightarrow> packV_typed s = pack_typed s"
    by (cases s; intro ext) (auto simp: named_bytes_def Packer_Ints_def Packer_Int64s_def Packer_Strings_def
      Packer_Float64s_def Packer_ArrayHeader_def)
qed

lemma emits_slice:
  assumes "\<not> named_bytes s" and "wire_ok tz utc uuid (slice_val s)"
  shows "emits utc uuid (pk (pack_typed s)) (enc tz utc (slice_val s))"
    and "emits utc uuid (pk (packV_typed s)) (enc tz utc (slice_val s))"
proof -
  show "emits utc uuid (pk (pack_typed s)) (enc tz utc (slice_val s))"
  proof (cases s)
    case (SBytes b)
    then show ?thesis using assms(2) by (auto intro: emits_pk simp: Packer_Bytes_emit)
  next
    case (SInts xs)
    then show ?thesis unfolding SInts slice_val.simps
      by (intro emits_list [where f = Packer_Int]) (use assms(2) SInts in \<open>simp_all add: Packer_Int_def Packer_Int64_emit fits_def Packer_Ints_def\<close>)
  next
    case (SInt64s xs)
    then show ?thesis unfolding SInt64s slice_val.simps
      by (intro emits_list [where f = Packer_Int64]) (use assms(2) SInt64s in \<open>simp_all add: Packer_Int64_emit fits_def Packer_Int64s_def\<close>)
  next
    case (SStrings xs)
    then show ?thesis unfolding SStrings slice_val.simps
      by (intro emits_list [where f = Packer_String])
        (use assms(2) SStrings in \<open>auto simp: list_all_iff Packer_String_emit fits_def Packer_Strings_def\<close>)
  next
    case (SFloat64s xs)
    then show ?thesis unfolding SFloat64s slice_val.simps
      by (intro emits_list [where f = Packer_Float64]) (use assms(2) SFloat64s in \<open>simp_all add: Packer_Float64_emit fits_def Packer_Float64s_def\<close>)
  qed (use assms(1) in \<open>simp add: named_bytes_def\<close>)
  then show "emits utc uuid (pk (packV_typed s)) (enc tz utc (slice_val s))" by (simp add: packV_typed_same [OF assms(1)])
qed

lemma emits_map:
  assumes "\<And>k x p. (k, x) \<in> set m \<Longrightarrow> fits k \<and> f p x = emit p (enc tz utc (c x))" and "fits m"
    and "\<And>p. g p = pack_entries f p m"
  shows "emits utc uuid (pk g) (enc tz utc (VMap (map (\<lambda>(k, x). (k, c x)) m)))"
proof (rule emits_pk)
  fix p
  have "foldl (\<lambda>q (k, v). f (Packer_String q k) v) q m = emit q (concat (map (\<lambda>(k, x). string_bytes k @ enc tz utc (c x)) m))" for q
    by (rule foldl_emit_on) (use assms(1) in \<open>auto simp: Packer_String_emit\<close>)
  then show "g p = emit p (enc tz utc (VMap (map (\<lambda>(k, x). (k, c x)) m)))"
    by (simp add: assms(3) pack_entries_def Packer_MapHeader_def list_hdr_emit [OF assms(2)] comp_def case_prod_unfold)
qed

lemma emits_typed_map:
  assumes "wire_ok tz utc uuid (map_val m)"
  shows "emits utc uuid (pk (pack_typed_map m)) (enc tz utc (map_val m))"
proof (cases m)
  case (MBytes b)
  show ?thesis unfolding MBytes map_val.simps
    by (rule emits_map [where f = Packer_Bytes]) (use assms MBytes in \<open>auto simp: list_all_iff fits_def Packer_Bytes_emit Packer_BytesMap_def\<close>)
next
  case (MInt b)
  show ?thesis unfolding MInt map_val.simps
    by (rule emits_map [where f = Packer_Int]) (use assms MInt in \<open>auto simp: list_all_iff fits_def Packer_Int64_emit Packer_Int_def Packer_IntMap_def\<close>)
next
  case (MInt64 b)
  show ?thesis unfolding MInt64 map_val.simps
    by (rule emits_map [where f = Packer_Int64]) (use assms MInt64 in \<open>auto simp: list_all_iff fits_def Packer_Int64_emit Packer_Int64Map_def\<close>)
next
  case (MString b)
  show ?thesis unfolding MString map_val.simps
    by (rule emits_map [where f = Packer_String]) (use assms MString in \<open>auto simp: list_all_iff fits_def Packer_String_emit Packer_StringMap_def\<close>)
next
  case (MFloat64 b)
  show ?thesis unfolding MFloat64 map_val.simps
    by (rule emits_map [where f = Packer_Float64]) (use assms MFloat64 in \<open>auto simp: list_all_iff fits_def Packer_Float64_emit Packer_Float64Map_def\<close>)
qed

section \<open>Every value\<close>

lemma emits_fun: "(\<And>o'. o_useUtc o' = utc \<Longrightarrow> o_supportsUuid o' = uuid \<Longrightarrow> f o' = g o') \<Longrightarrow> emits utc uuid g bs \<Longrightarrow> emits utc uuid f bs"
  by (simp add: emits_def)

text \<open>The unfoldings of packX and packV for each shape of a value.\<close>

lemma packX_leaf:
  assumes "case g of GNil \<Rightarrow> True | GBool _ \<Rightarrow> True | GInt _ \<Rightarrow> True | GUint32 _ \<Rightarrow> True | GUint64 _ \<Rightarrow> True | GFloat _ \<Rightarrow> True
    | GString _ \<Rightarrow> True | GNilPtr \<Rightarrow> True | GUUID _ \<Rightarrow> True | GArray _ \<Rightarrow> True | GTypedMap _ \<Rightarrow> True | _ \<Rightarrow> False"
  shows "packX tz g = pack_leaf g" and "packV tz g = pack_leaf g"
  using assms by (cases g; simp add: fun_eq_iff packX.simps packV.simps)+

lemma pack_struct:
  assumes "g = GNative n \<or> g = GPtr (GNative n) \<and> ptr_case n"
  shows "packX tz g = pack_by_value tz n" and "packV tz g = pack_by_value tz n"
  using assms by (auto simp: fun_eq_iff packX.simps packV.simps packStruct.simps is_struct_def)

lemma pack_mapped:
  assumes "g = GStruct t vs \<or> g = GPtr (GStruct t vs)" and "struct_map g = Some m"
  shows "packX tz g = pack_map (packX tz) m" and "packV tz g = pack_map (packX tz) m"
  using assms by (auto simp: fun_eq_iff packX.simps [of tz g] packV.simps [of tz g] packStruct.simps is_struct_def)

lemma pack_listed:
  "packX tz (GAnys xs) = pack_elems (packX tz) xs" "packV tz (GAnys xs) = pack_elems (packX tz) xs"
  "packX tz (GSlice xs) = pack_elems (packV tz) xs" "packV tz (GSlice xs) = pack_elems (packV tz) xs"
  by (auto simp: fun_eq_iff packX.simps [of tz "GAnys xs"] packV.simps [of tz "GAnys xs"] packX.simps [of tz "GSlice xs"]
    packV.simps [of tz "GSlice xs"])

lemma pack_mapping:
  "packX tz (GAnyMap m) = pack_map (packX tz) m" "packV tz (GAnyMap m) = pack_map (packX tz) m"
  "packX tz (GMap m) = pack_map (packV tz) m" "packV tz (GMap m) = pack_map (packV tz) m"
  by (auto simp: fun_eq_iff packX.simps [of tz "GAnyMap m"] packV.simps [of tz "GAnyMap m"] packX.simps [of tz "GMap m"]
    packV.simps [of tz "GMap m"])

lemma pack_ptr:
  "\<not> is_struct i \<Longrightarrow> packX tz (GPtr i) = (if is_array i then packArray i else packV tz i)"
  "\<not> is_struct i \<Longrightarrow> packV tz (GPtr i) = packV tz i"
  "packX tz (GIface i) = packX tz i" "packV tz (GIface i) = packX tz i"
  by (auto simp: fun_eq_iff packX.simps [of tz "GPtr i"] packV.simps [of tz "GPtr i"] packX.simps [of tz "GIface i"]
    packV.simps [of tz "GIface i"])

lemma pack_slice: "packX tz (GTyped s) = pk (pack_typed s)" "packV tz (GTyped s) = pk (packV_typed s)"
  by (simp_all add: fun_eq_iff packX.simps packV.simps)

lemmas pack_shapes = pack_listed pack_mapping pack_ptr pack_slice

text \<open>An array that denotes a value is a UUID, and packArray writes it like packV.\<close>

lemma array_denotes: "denotes tz i v \<Longrightarrow> is_array i \<Longrightarrow> packArray i = packV tz i"
  by (erule denotes.cases) (auto simp: is_array_def packX_leaf fun_eq_iff)

definition both :: "tzdb \<Rightarrow> bool \<Rightarrow> bool \<Rightarrow> goarg \<Rightarrow> goval \<Rightarrow> bool" where
  "both tz utc uuid g v \<longleftrightarrow>
     (wire_ok tz utc uuid v \<longrightarrow> emits utc uuid (packX tz g) (enc tz utc v) \<and> emits utc uuid (packV tz g) (enc tz utc v))"

lemma both_elems:
  assumes "list_all2 (\<lambda>x v. denotes tz x v \<and> both tz utc uuid x v) xs vs" and "wire_ok tz utc uuid (VList vs)"
  shows "emits utc uuid (pack_elems (packX tz) xs) (enc tz utc (VList vs))"
    and "emits utc uuid (pack_elems (packV tz) xs) (enc tz utc (VList vs))"
proof -
  have "list_all (wire_ok tz utc uuid) vs" "fits vs" using assms(2) by auto
  with assms(1) have "list_all2 (\<lambda>x v. emits utc uuid (packX tz x) (enc tz utc v)) xs vs"
    "list_all2 (\<lambda>x v. emits utc uuid (packV tz x) (enc tz utc v)) xs vs"
    by (auto simp: list_all2_conv_all_nth list_all_length both_def)
  then show "emits utc uuid (pack_elems (packX tz) xs) (enc tz utc (VList vs))"
    "emits utc uuid (pack_elems (packV tz) xs) (enc tz utc (VList vs))"
    using emits_elems \<open>fits vs\<close> by auto
qed

lemma both_entries:
  assumes "list_all2 (\<lambda>kx kv. fst kx = fst kv \<and> denotes tz (snd kx) (snd kv) \<and> both tz utc uuid (snd kx) (snd kv)) m m'"
    and "wire_ok tz utc uuid (VMap m')"
  shows "emits utc uuid (pack_map (packX tz) m) (enc tz utc (VMap m'))"
    and "emits utc uuid (pack_map (packV tz) m) (enc tz utc (VMap m'))"
proof -
  have "list_all (\<lambda>(k, v). fits k \<and> wire_ok tz utc uuid v) m'" "fits m'" using assms(2) by auto
  with assms(1) have
    "list_all2 (\<lambda>kx kv. fst kx = fst kv \<and> fits (fst kv) \<and> emits utc uuid (packX tz (snd kx)) (enc tz utc (snd kv))) m m'"
    "list_all2 (\<lambda>kx kv. fst kx = fst kv \<and> fits (fst kv) \<and> emits utc uuid (packV tz (snd kx)) (enc tz utc (snd kv))) m m'"
    by (auto simp: list_all2_conv_all_nth list_all_length both_def case_prod_unfold)
  then show "emits utc uuid (pack_map (packX tz) m) (enc tz utc (VMap m'))"
    "emits utc uuid (pack_map (packV tz) m) (enc tz utc (VMap m'))"
    using emits_entries [OF _ \<open>fits m'\<close>] by auto
qed

theorem packX_writes: "denotes tz g v \<Longrightarrow> both tz utc uuid g v"
proof (induction rule: denotes.induct)
  case (d_uint64 w)
  then have "Packer_Uint64 p w = emit p (int64_bytes w)" for p
    by (simp add: Packer_Uint64_def Packer_checkOverflowInt_def Packer_Int64_emit)
  then show ?case by (simp add: both_def packX_leaf emits_def pk_def)
next
  case (d_native n v)
  then show ?case by (simp add: both_def pack_struct [of "GNative n" n] emits_native)
next
  case (d_ptr_native n v)
  then show ?case by (simp add: both_def pack_struct [of "GPtr (GNative n)" n] emits_native)
next
  case (d_ptr i v)
  then show ?case using array_denotes [OF d_ptr(2)] by (auto simp: both_def pack_shapes)
next
  case (d_iface i v)
  then show ?case by (simp add: both_def pack_shapes)
next
  case (d_struct g m t vs m')
  then show ?case using both_entries [of tz utc uuid m m'] pack_mapped [OF d_struct(2,1)] by (simp add: both_def)
next
  case (d_uuid u)
  then show ?case by (simp add: both_def packX_leaf emits_def packArray_def packUUID_def Packer_UUID_emit)
next
  case (d_slice s)
  then show ?case by (simp add: both_def pack_shapes emits_slice)
next
  case (d_elems xs vs g)
  then show ?case using both_elems [of tz utc uuid xs vs] by (auto simp: both_def pack_shapes simp del: enc.simps wire_ok.simps)
next
  case (d_typed_map m)
  then show ?case using emits_typed_map by (simp add: both_def packX_leaf emits_def)
next
  case (d_entries m m' g)
  then show ?case using both_entries [of tz utc uuid m m'] by (auto simp: both_def pack_shapes simp del: enc.simps wire_ok.simps)
qed (auto simp: both_def packX_leaf Packer_Nil_def Packer_Bool_def Packer_Int64_emit Packer_Uint32_def Packer_Float64_emit
  Packer_String_emit emits_def pk_def)

section \<open>Messages\<close>

lemma reads_record:
  assumes "wire_ok tz utc uuid (VList vs)"
  shows "reads utc uuid d (hrecord (hvalue tz d) 1) (enc tz utc (VList vs)) (Some vs)"
proof (rule readsI)
  fix h r assume h: "clear h" "hy_utc h = utc" "hy_uuid h = uuid" "rest (hy_unp h) = enc tz utc (VList vs) @ r"
    "length (enc tz utc (VList vs) @ r) < d"
  have fits: "fits vs" and ok: "list_all (wire_ok tz utc uuid) vs" using assms by auto
  obtain hdr where hdr: "list_header (int (length vs)) 0x90 0xd4 = Some hdr" using fits_header [OF fits] by blast
  let ?bs = "concat (map (enc tz utc) vs)"
  have enc: "enc tz utc (VList vs) = hdr @ ?bs" by (simp add: list_hdr_def hdr)
  have wf: "wf_unpacker (hy_unp h)" using h(1) by (simp add: clear_def)
  obtain u1 u2 where u: "Unpacker_Next (hy_unp h) = Some u1" "Unpacker_Len u1 = Some (word_of_nat (length vs), u2)"
      "got (hy_unp h) (?bs @ r) u2"
    using array_header.header_dec [OF wf _ hdr, of "?bs @ r"] h(4) enc by auto
  let ?h = "h\<lparr>hy_unp := u2\<rparr>"
  have g: "hgot h (?bs @ r) ?h" using u(3) by (simp add: hgot_def)
  have "list_all2 (reads utc uuid d (next_then (hvalue tz d))) (map (enc tz utc) vs) vs"
    using ok reads_enc by (simp add: list_all2_conv_all_nth list_all_length)
  from reads_repeatedly [OF this] obtain h' where
    h': "repeatedly (next_then (hvalue tz d)) (length vs) ?h = Some (vs, h')" "hgot ?h r h'"
    using hgot_clear [OF h(1) g] h(2,3,5) enc unfolding reads_def by force
  have "unat (word_of_nat (length vs) :: uint32) = length vs" using fits by (simp add: fits_def unat_of_nat)
  with h' u show "\<exists>h'. hrecord (hvalue tz d) 1 h = Some (Some vs, h') \<and> hgot h r h'"
    using h(1) hgot_trans [OF g h'(2)]
    by (simp add: hrecord_def assertLength_def getErr_def clear_def next_then_def unp_Next_def unp_def)
qed

lemma hydrate_record:
  assumes "wire_ok tz utc uuid (VList vs)" and "hy_err h = None" "hy_utc h = utc" "hy_uuid h = uuid"
    and "length (enc tz utc (VList vs)) + 258 < 2 ^ 32"
  shows "\<exists>h'. hydrate tz (struct_bytes 0x71 [enc tz utc (VList vs)]) h = Some ((Some (HMRecord vs), None), h') \<and> hy_err h' = None"
proof -
  let ?e = "enc tz utc (VList vs)" and ?m = "struct_bytes 0x71 [enc tz utc (VList vs)]"
  let ?u = "Unpacker_Reset (hy_unp h) ?m" and ?b = "0xb1 :: byte"
  have m: "?m = ?b # 0x71 # ?e" by (simp add: struct_bytes_def)
  then have wf: "wf_unpacker ?u" using assms(5) by (intro wf_reset) (simp del: enc.simps)
  have rest: "rest ?u = ?b # 0x71 # ?e" using m by (simp del: enc.simps)
  obtain u1 where u1: "Unpacker_Next ?u = Some u1" "got ?u (0x71 # ?e) u1"
      "u_mrk u1 = markers ?b" "u_Curr u1 = m_typ (markers ?b)"
    using Next_got [OF wf rest] by blast
  have mrk: "markers ?b = short_marker PackedStruct 1" by (simp add: markers_def)
  have len: "Unpacker_Len u1 = Some (1, u1)" by (simp add: Unpacker_Len_def u1(3) mrk)
  let ?u2 = "adv (Suc 0) u1"
  have u2: "Unpacker_StructTag u1 = Some (0x71, ?u2)" "got u1 ?e ?u2"
    using u1(2) pop_rest [where u = u1 and b = "0x71" and r = ?e] got_adv1 [where u = u1 and b = "0x71" and r = ?e] by (simp_all add: Unpacker_StructTag_def got_def del: enc.simps)
  let ?h = "h\<lparr>hy_unp := ?u2\<rparr>"
  have g: "got ?u ?e ?u2" using got_trans [OF u1(2) u2(2)] .
  then have "clear ?h" "rest (hy_unp ?h) = ?e @ []" using assms(2) by (simp_all add: clear_def got_def del: enc.simps)
  then obtain h' where h': "hrecord (hvalue tz (length ?m + 2)) 1 ?h = Some (Some vs, h')" "hgot ?h [] h'"
    using reads_record [OF assms(1), of "length ?m + 2"] assms(3,4) m unfolding reads_def by force
  then have "getErr h' = None" "hy_err h' = None"
    using assms(2) g by (simp_all add: getErr_def hgot_def got_def)
  then show ?thesis
    using h'(1) u1(1,4) len u2(1)
    by (simp add: hydrate_def unp_Next_def mrk unp_def hydrate_tag_def del: enc.simps)
qed

text \<open>What a method that appends a message adds to the chunker.\<close>

lemma appended_message:
  assumes "emits (o_useUtc o') (o_supportsUuid o') body bs" and "0 \<le> n" "n \<le> 15"
  shows "append_struct tag n body o' =
    o'\<lparr>o_chunker := add_message ((0xb0 + word_of_int n) # tag # bs) (o_chunker o'),
       o_packer := \<lparr>p_buf = c_buf (o_chunker o') @ [0, 0] @ (0xb0 + word_of_int n) # tag # bs, p_err = None\<rparr>\<rparr>"
proof -
  let ?o = "pk (\<lambda>p. Packer_StructHeader p tag n) (begin_msg o')"
  have "body ?o = pk (\<lambda>p. emit p bs) ?o" using assms(1) by (simp add: emits_def pk_def begin_msg_def Let_def)
  then show ?thesis
    using assms(2,3) by (simp add: append_struct_def pk_def begin_msg_def end_msg_def Let_def Packer_Begin_def Packer_End_def
      Packer_StructHeader_def emit_def beginMessage_def add_message_def)
qed

section \<open>Two ways to pack one value\<close>

text \<open>
  C11: packV, which packs the elements of typed slices and maps and what pointers point to without boxing them, writes
  the same bytes as packX for every value but one kind: a slice of bytes with a type name of its own, which packX
  writes as a list of integers and packV as a byte array.
\<close>

theorem packV_same_bytes:
  "((\<forall>b. g \<noteq> GTyped (SNamedBytes b)) \<longrightarrow> packV tz g = packX tz g) \<and>
   packX tz (GTyped (SNamedBytes [1])) o' = pk (\<lambda>p. emit p [0x91, 0x01]) o' \<and>
   packV tz (GTyped (SNamedBytes [1])) o' = pk (\<lambda>p. emit p [0xcc, 0x01, 0x01]) o'"
proof (intro conjI impI)
  assume "\<forall>b. g \<noteq> GTyped (SNamedBytes b)"
  then show "packV tz g = packX tz g"
  proof (cases g)
    case (GPtr i)
    have "is_array i \<Longrightarrow> packV tz i = packArray i" by (cases i) (simp_all add: is_array_def packX_leaf fun_eq_iff)
    then show ?thesis
      by (cases "is_struct i") (auto simp: GPtr fun_eq_iff pack_ptr packX.simps [of tz "GPtr i"] packV.simps [of tz "GPtr i"])
  next
    case (GTyped s)
    then show ?thesis using \<open>\<forall>b. g \<noteq> GTyped (SNamedBytes b)\<close> packV_typed_same [of s]
      by (cases s) (auto simp: pack_shapes named_bytes_def)
  next
    case (GIface i)
    then show ?thesis by (simp add: pack_shapes)
  qed (simp_all add: pack_shapes, simp_all add: fun_eq_iff packX.simps packV.simps)
qed (simp_all add: pack_shapes pk_def Packer_ArrayHeader_def Packer_listHeader_def list_header_def Packer_Uint32_def
  Packer_Int64_emit int64_bytes_def Packer_Bytes_def Packer_bytesHeader_def bytes_header_def)

theorem packV_same_bytes_witness: "packV no_tz (GAnys [GInt 1, GTyped (SNamedBytes [1])]) = packX no_tz (GAnys [GInt 1, GTyped (SNamedBytes [1])])"
  using packV_same_bytes [of "GAnys [GInt 1, GTyped (SNamedBytes [1])]" no_tz] by blast

text \<open>
  a pointer to a time, as a program has for an optional parameter, is sent as an empty map, silently and whatever
  the time; the value that it points to is sent as a time.
\<close>

lemma time_pointer_sent_as_empty_map:
  "packX tz (GPtr (GNative (GTime t))) o' = pk (\<lambda>p. emit p [0xa0]) o' \<and>
   packX tz (GNative (GTime t)) o' = packTime tz t o' \<and>
   (\<nexists>v. denotes tz (GPtr (GNative (GTime t))) v)"
proof (intro conjI notI)
  assume "\<exists>v. denotes tz (GPtr (GNative (GTime t))) v"
  then show False by (auto elim!: denotes.cases simp: is_struct_def)
qed (simp_all add: packX.simps packStruct.simps is_struct_def pack_map_def pk_def Packer_MapHeader_def Packer_listHeader_def
  list_header_def)

end
