(* ===== verification/Result.thy ===== *)
theory Result
  imports Streams
begin

text \<open>
  The result cursor: src/neo4j/result.go and result_helpers.go. The connection is the interface of
  src/neo4j/internal/db/connection.go, a record of the operations on a connection of any type; a call returns the
  connection it leaves. A method of the cursor is a function of the cursor and its connection. Two effects reach
  beyond them and are recorded: the errors handed to the transaction (txState.onError) and the call of the hook after
  consumption. The cursor does not touch the connection after either of them within a call, so they may be carried
  out when the method returns.
\<close>

section \<open>The connection as the cursor sees it\<close>

record 'c cursor_ops =
  op_Next :: "nat \<Rightarrow> 'c \<Rightarrow> next_result \<times> 'c"
  op_Consume :: "nat \<Rightarrow> 'c \<Rightarrow> (summary option \<times> goerr option) \<times> 'c"
  op_Buffer :: "nat \<Rightarrow> 'c \<Rightarrow> goerr option \<times> 'c"
  op_Keys :: "nat \<Rightarrow> 'c \<Rightarrow> goerr + string list"

section \<open>The cursor\<close>

record result =
  r_stream :: nat
  r_record :: "rec option"
  r_summary :: "summary option"
  r_err :: "goerr option"
  r_peekedRecord :: "rec option"
  r_peekedSummary :: "summary option"
  r_peeked :: bool
  r_hook :: bool                 \<comment> \<open>afterConsumptionHook is not nil\<close>

record 'c cursor =
  cu_res :: result
  cu_conn :: 'c
  cu_txErrs :: "goerr list"      \<comment> \<open>what txState.onError was called with\<close>
  cu_hooked :: bool              \<comment> \<open>the hook was called\<close>

definition newResult :: "nat \<Rightarrow> bool \<Rightarrow> result" where
  "newResult stream hook =
     \<lparr>r_stream = stream, r_record = None, r_summary = None, r_err = None, r_peekedRecord = None,
      r_peekedSummary = None, r_peeked = False, r_hook = hook\<rparr>"

definition at_cursor :: "result \<Rightarrow> 'c \<Rightarrow> 'c cursor" where
  "at_cursor r c = \<lparr>cu_res = r, cu_conn = c, cu_txErrs = [], cu_hooked = False\<rparr>"

definition on_res :: "(result \<Rightarrow> result) \<Rightarrow> 'c cursor \<Rightarrow> 'c cursor" where
  "on_res f k = k\<lparr>cu_res := f (cu_res k)\<rparr>"

definition consumedResultError :: goerr where
  "consumedResultError = UsageError ''result cursor is not available anymore''"

definition resultFailedError :: goerr where
  "resultFailedError = UsageError ''result failed due to invalid transaction''"

definition isOpen :: "result \<Rightarrow> bool" where
  "isOpen r \<longleftrightarrow> r_summary r = None"

text \<open>The comparison of the message of the error is the one of the error value.\<close>

definition checkOpen :: "result \<Rightarrow> result" where
  "checkOpen r =
     (if r_err r \<noteq> Some consumedResultError \<and> \<not> isOpen r then r\<lparr>r_err := Some consumedResultError\<rparr> else r)"

definition callAfterConsumptionHook :: "'c cursor \<Rightarrow> 'c cursor" where
  "callAfterConsumptionHook k =
     (if \<not> r_hook (cu_res k) then k else (on_res (\<lambda>r. r\<lparr>r_hook := False\<rparr>) k)\<lparr>cu_hooked := True\<rparr>)"

text \<open>The three results of a call of Next of the connection, of which at most one is not nil.\<close>

definition next_of :: "next_result \<Rightarrow> rec option \<times> summary option \<times> goerr option" where
  "next_of x = (case x of NRecord r \<Rightarrow> (Some r, None, None) | NSummary s \<Rightarrow> (None, Some s, None) | NErr e \<Rightarrow> (None, None, Some e))"

definition advance :: "'c cursor_ops \<Rightarrow> 'c cursor \<Rightarrow> 'c cursor" where
  "advance ops k =
     (if r_peeked (cu_res k)
      then on_res (\<lambda>r. r\<lparr>r_record := r_peekedRecord r, r_peekedRecord := None, r_summary := r_peekedSummary r,
             r_peekedSummary := None, r_peeked := False\<rparr>) k
      else
        (case op_Next ops (r_stream (cu_res k)) (cu_conn k) of
           (x, c) \<Rightarrow>
             (case next_of x of
                (rc, su, e) \<Rightarrow>
                  let k1 = (on_res (\<lambda>r. r\<lparr>r_record := rc, r_summary := su, r_err := e\<rparr>) k)\<lparr>cu_conn := c\<rparr>
                  in case e of None \<Rightarrow> k1 | Some e \<Rightarrow> k1\<lparr>cu_txErrs := cu_txErrs k1 @ [e]\<rparr>)))"

definition peek :: "'c cursor_ops \<Rightarrow> 'c cursor \<Rightarrow> 'c cursor" where
  "peek ops k =
     (if r_peeked (cu_res k) then k
      else
        (case op_Next ops (r_stream (cu_res k)) (cu_conn k) of
           (x, c) \<Rightarrow>
             (case next_of x of
                (rc, su, e) \<Rightarrow>
                  (on_res (\<lambda>r. r\<lparr>r_peekedRecord := rc, r_peekedSummary := su, r_err := e, r_peeked := True\<rparr>) k)\<lparr>cu_conn := c\<rparr>)))"

section \<open>The methods\<close>

definition result_Keys :: "'c cursor_ops \<Rightarrow> 'c cursor \<Rightarrow> goerr + string list" where
  "result_Keys ops k = op_Keys ops (r_stream (cu_res k)) (cu_conn k)"

definition result_Next :: "'c cursor_ops \<Rightarrow> 'c cursor \<Rightarrow> bool \<times> 'c cursor" where
  "result_Next ops k =
     (let k1 = on_res checkOpen k in
      if r_err (cu_res k1) \<noteq> None then (False, k1)
      else
        let k2 = advance ops k1;
            k3 = (if r_summary (cu_res k2) \<noteq> None then callAfterConsumptionHook k2 else k2)
        in (r_record (cu_res k3) \<noteq> None, k3))"

text \<open>NextRecord and PeekRecord: the second result is what they store through a pointer that is not nil.\<close>

definition result_NextRecord :: "'c cursor_ops \<Rightarrow> 'c cursor \<Rightarrow> (bool \<times> rec option) \<times> 'c cursor" where
  "result_NextRecord ops k = (case result_Next ops k of (b, k1) \<Rightarrow> ((b, r_record (cu_res k1)), k1))"

definition result_Peek :: "'c cursor_ops \<Rightarrow> 'c cursor \<Rightarrow> bool \<times> 'c cursor" where
  "result_Peek ops k =
     (let k1 = on_res checkOpen k in
      if r_err (cu_res k1) \<noteq> None then (False, k1)
      else let k2 = peek ops k1 in (r_peekedRecord (cu_res k2) \<noteq> None, k2))"

definition result_PeekRecord :: "'c cursor_ops \<Rightarrow> 'c cursor \<Rightarrow> (bool \<times> rec option) \<times> 'c cursor" where
  "result_PeekRecord ops k = (case result_Peek ops k of (b, k1) \<Rightarrow> ((b, r_peekedRecord (cu_res k1)), k1))"

definition result_Err :: "result \<Rightarrow> goerr option" where
  "result_Err r = WrapError (r_err r)"

definition result_Record :: "result \<Rightarrow> rec option" where
  "result_Record r = (if r_peekedRecord r \<noteq> None then r_peekedRecord r else r_record r)"

text \<open>
  The loop of Records, for a yield function that takes at most \<open>n\<close> records: the records and, at the end, the error it
  was called with. A yield that stops the iteration makes the method return at once.
\<close>

fun records_loop :: "'c cursor_ops \<Rightarrow> nat \<Rightarrow> 'c cursor \<Rightarrow> (rec list \<times> bool) \<times> 'c cursor" where
  "records_loop ops n k =
     (let k1 = on_res checkOpen k in
      if r_err (cu_res k1) \<noteq> None then (([], True), k1)
      else
        let k2 = advance ops k1 in
        (case r_record (cu_res k2) of
           None \<Rightarrow> (([], True), k2)
         | Some rc \<Rightarrow>
             if r_err (cu_res k2) \<noteq> None \<or> r_summary (cu_res k2) \<noteq> None then (([], True), k2)
             else
               (case n of
                  0 \<Rightarrow> (([rc], False), k2)
                | Suc m \<Rightarrow> (case records_loop ops m k2 of ((rcs, b), k3) \<Rightarrow> ((rc # rcs, b), k3)))))"

declare records_loop.simps [simp del]

definition result_Records :: "'c cursor_ops \<Rightarrow> nat \<Rightarrow> 'c cursor \<Rightarrow> (rec list \<times> goerr option \<times> bool) \<times> 'c cursor" where
  "result_Records ops n k =
     (case records_loop ops n k of
        ((rcs, ended), k1) \<Rightarrow>
          if \<not> ended then ((rcs, None, False), k1)
          else ((rcs, WrapError (r_err (cu_res k1)), True),
                if r_summary (cu_res k1) \<noteq> None then callAfterConsumptionHook k1 else k1))"

text \<open>Collect does not stop the iteration before an error; \<^const>\<open>None\<close>: more than \<open>n\<close> records came.\<close>

definition result_Collect :: "'c cursor_ops \<Rightarrow> nat \<Rightarrow> 'c cursor \<Rightarrow> ((goerr + rec list) \<times> 'c cursor) option" where
  "result_Collect ops n k =
     (case WrapError (r_err (cu_res k)) of
        Some e \<Rightarrow> Some (Inl e, k)
      | None \<Rightarrow>
          if r_summary (cu_res k) \<noteq> None then Some (Inr [], k)
          else
            (case result_Records ops n k of
               ((_, _, False), _) \<Rightarrow> None
             | ((_, Some e, True), k1) \<Rightarrow> Some (Inl e, k1)
             | ((rcs, None, True), k1) \<Rightarrow> Some (Inr rcs, k1)))"

definition result_Single :: "'c cursor_ops \<Rightarrow> 'c cursor \<Rightarrow> (goerr + rec option) \<times> 'c cursor" where
  "result_Single ops k =
     (let k1 = advance ops k in
      case WrapError (r_err (cu_res k1)) of
        Some e \<Rightarrow> (Inl e, k1)
      | None \<Rightarrow>
          if r_summary (cu_res k1) \<noteq> None
          then let e = UsageError ''Result contains no more records''
               in (Inl e, on_res (\<lambda>r. r\<lparr>r_err := Some e\<rparr>) k1)
          else
            let single = r_record (cu_res k1); k2 = advance ops k1 in
            if r_record (cu_res k2) \<noteq> None
            then (case op_Consume ops (r_stream (cu_res k2)) (cu_conn k2) of
                    ((su, _), c) \<Rightarrow>
                      let e = UsageError ''Result contains more than one record''
                      in (Inl e, (on_res (\<lambda>r. r\<lparr>r_summary := su, r_err := Some e, r_record := None\<rparr>) k2)\<lparr>cu_conn := c\<rparr>))
            else
              (case WrapError (r_err (cu_res k2)) of
                 Some e \<Rightarrow> (Inl e, k2)
               | None \<Rightarrow> (Inr single, callAfterConsumptionHook (on_res (\<lambda>r. r\<lparr>r_record := single\<rparr>) k2))))"

definition result_Consume :: "'c cursor_ops \<Rightarrow> 'c cursor \<Rightarrow> (goerr + summary option) \<times> 'c cursor" where
  "result_Consume ops k =
     (case WrapError (r_err (cu_res k)) of
        Some e \<Rightarrow> (Inl e, k)
      | None \<Rightarrow>
          (case op_Consume ops (r_stream (cu_res k)) (cu_conn k) of
             ((su, e), c) \<Rightarrow>
               let k1 = (on_res (\<lambda>r. r\<lparr>r_record := None, r_summary := su, r_err := e\<rparr>) k)\<lparr>cu_conn := c\<rparr>
               in case WrapError e of
                    Some e \<Rightarrow> (Inl e, k1)
                  | None \<Rightarrow> (Inr su, callAfterConsumptionHook k1)))"

definition result_buffer :: "'c cursor_ops \<Rightarrow> 'c cursor \<Rightarrow> 'c cursor" where
  "result_buffer ops k =
     (case op_Buffer ops (r_stream (cu_res k)) (cu_conn k) of
        (e, c) \<Rightarrow>
          let k1 = (on_res (\<lambda>r. r\<lparr>r_err := e\<rparr>) k)\<lparr>cu_conn := c\<rparr>
          in if e = None then callAfterConsumptionHook k1 else k1)"

definition errorHandler :: "result \<Rightarrow> result" where
  "errorHandler r = (if r_err r = None then r\<lparr>r_err := Some resultFailedError\<rparr> else r)"

text \<open>The helpers of result_helpers.go: an error passed in is handed on, a mapper is applied to each record in turn.\<close>

fun mapAll :: "(rec \<Rightarrow> goerr + 't) \<Rightarrow> rec list \<Rightarrow> goerr + 't list" where
  "mapAll mapper [] = Inr []"
| "mapAll mapper (rc # rcs) =
     (case mapper rc of
        Inl e \<Rightarrow> Inl e
      | Inr x \<Rightarrow> (case mapAll mapper rcs of Inl e \<Rightarrow> Inl e | Inr xs \<Rightarrow> Inr (x # xs)))"

definition CollectT :: "'c cursor_ops \<Rightarrow> nat \<Rightarrow> (rec \<Rightarrow> goerr + 't) \<Rightarrow> 'c cursor \<Rightarrow> ((goerr + 't list) \<times> 'c cursor) option" where
  "CollectT ops n mapper k =
     (case result_Collect ops n k of
        None \<Rightarrow> None
      | Some (Inl e, k1) \<Rightarrow> Some (Inl e, k1)
      | Some (Inr rcs, k1) \<Rightarrow> Some (mapAll mapper rcs, k1))"

definition SingleT :: "'c cursor_ops \<Rightarrow> (rec option \<Rightarrow> goerr + 't) \<Rightarrow> 'c cursor \<Rightarrow> (goerr + 't) \<times> 'c cursor" where
  "SingleT ops mapper k =
     (case result_Single ops k of
        (Inl e, k1) \<Rightarrow> (Inl e, k1)
      | (Inr rc, k1) \<Rightarrow> (mapper rc, k1))"

section \<open>The cursor over a list of records\<close>

text \<open>
  What the cursor promises, whatever connection it reads from: a position in the list of the records. A cursor that has
  been used up is consumed; one that has reported an error keeps it. \<open>too_many\<close> is the number of records that are
  left unread when Single finds more than one.
\<close>

datatype acursor = AOpen "rec list" | AConsumed | AFailed string

datatype kcall = KNext | KPeek | KCollect | KSingle

datatype kout = OMoved "rec option" | OPeeked "rec option" | OCollected "goerr + rec list" | OSingle "goerr + rec option"

definition not_available :: string where
  "not_available = ''result cursor is not available anymore''"

fun a_step :: "kcall \<Rightarrow> acursor \<Rightarrow> kout \<times> acursor" where
  "a_step KNext (AOpen (r # rs)) = (OMoved (Some r), AOpen rs)"
| "a_step KNext (AOpen []) = (OMoved None, AConsumed)"
| "a_step KNext _ = (OMoved None, AFailed not_available)"
| "a_step KPeek (AOpen rs) = (OPeeked (if rs = [] then None else Some (hd rs)), AOpen rs)"
| "a_step KPeek _ = (OPeeked None, AFailed not_available)"
| "a_step KCollect (AOpen rs) = (OCollected (Inr rs), AConsumed)"
| "a_step KCollect AConsumed = (OCollected (Inr []), AConsumed)"
| "a_step KCollect (AFailed e) = (OCollected (Inl (UsageError e)), AFailed e)"
| "a_step KSingle (AOpen [r]) = (OSingle (Inr (Some r)), AConsumed)"
| "a_step KSingle (AOpen (r # r' # rs)) =
     (OSingle (Inl (UsageError ''Result contains more than one record'')), AFailed ''Result contains more than one record'')"
| "a_step KSingle _ = (OSingle (Inl (UsageError ''Result contains no more records'')), AFailed ''Result contains no more records'')"

fun too_many :: "kcall list \<Rightarrow> acursor \<Rightarrow> nat option" where
  "too_many [] a = None"
| "too_many (q # qs) a =
     (case (q, a) of
        (KSingle, AOpen (r # r' # rs)) \<Rightarrow> Some (length rs)
      | _ \<Rightarrow> too_many qs (snd (a_step q a)))"

definition k_step :: "'c cursor_ops \<Rightarrow> nat \<Rightarrow> kcall \<Rightarrow> 'c cursor \<Rightarrow> (kout \<times> 'c cursor) option" where
  "k_step ops n q k =
     (case q of
        KNext \<Rightarrow> (case result_NextRecord ops k of ((b, rc), k1) \<Rightarrow> Some (OMoved (if b then rc else None), k1))
      | KPeek \<Rightarrow> (case result_PeekRecord ops k of ((b, rc), k1) \<Rightarrow> Some (OPeeked (if b then rc else None), k1))
      | KCollect \<Rightarrow> map_option (map_prod OCollected id) (result_Collect ops n k)
      | KSingle \<Rightarrow> Some (map_prod OSingle id (result_Single ops k)))"

fun k_run :: "'c cursor_ops \<Rightarrow> nat \<Rightarrow> kcall list \<Rightarrow> 'c cursor \<Rightarrow> (kout list \<times> 'c cursor) option" where
  "k_run ops n [] k = Some ([], k)"
| "k_run ops n (q # qs) k =
     do { (x, k1) \<leftarrow> k_step ops n q k; (xs, k2) \<leftarrow> k_run ops n qs k1; Some (x # xs, k2) }"

fun a_run :: "kcall list \<Rightarrow> acursor \<Rightarrow> kout list" where
  "a_run [] a = []"
| "a_run (q # qs) a = (case a_step q a of (x, a1) \<Rightarrow> x # a_run qs a1)"

lemmas cursor_defs = on_res_def checkOpen_def isOpen_def advance_def peek_def callAfterConsumptionHook_def next_of_def

text \<open>A failed cursor has no more records to find.\<close>

fun remaining :: "acursor \<Rightarrow> nat" where
  "remaining (AOpen rs) = length rs"
| "remaining _ = 0"

lemma remaining_step: "remaining (snd (a_step q a)) \<le> remaining a"
  by (cases "(q, a)" rule: a_step.cases) simp_all

lemma too_many_cases:
  obtains (single) r r' rs where "q = KSingle" "a = AOpen (r # r' # rs)" "too_many (q # qs) a = Some (length rs)"
  | (other) "q = KSingle \<Longrightarrow> remaining a \<le> 1" "too_many (q # qs) a = too_many qs (snd (a_step q a))"
proof (cases "q = KSingle \<and> 2 \<le> remaining a")
  case True
  then obtain r r' rs where "a = AOpen (r # r' # rs)" by (cases a) (auto simp: numeral_2_eq_2 Suc_le_length_iff)
  then show thesis using True single by simp
next
  case False
  then have "too_many (q # qs) a = too_many qs (snd (a_step q a))"
    by (auto split: kcall.splits acursor.splits list.splits)
  then show thesis using False by (intro other) auto
qed

lemma too_many_remaining: "too_many qs a = Some l \<Longrightarrow> l + 2 \<le> remaining a"
proof (induction qs arbitrary: a)
  case (Cons q qs)
  show ?case
  proof (cases rule: too_many_cases [where q = q and a = a and qs = qs])
    case single
    then show ?thesis using Cons.prems by simp
  next
    case other
    then show ?thesis using Cons.IH [of "snd (a_step q a)"] Cons.prems remaining_step [of q a] by simp
  qed
qed simp

text \<open>Records that come after the point where Single gives up do not matter.\<close>

lemma run_cut:
  "too_many qs (AOpen (xs @ ys)) = Some l \<Longrightarrow> length ys \<le> l \<Longrightarrow>
     a_run qs (AOpen xs) = a_run qs (AOpen (xs @ ys)) \<and> too_many qs (AOpen xs) = Some (l - length ys)"
proof (induction qs arbitrary: xs)
  case (Cons q qs)
  obtain r r' zs where xs: "xs = r # r' # zs"
    using too_many_remaining [OF Cons.prems(1)] Cons.prems(2) by (cases xs rule: list.exhaust [case_product list.exhaust [of "tl xs"]]) auto
  show ?case
  proof (cases q)
    case KNext
    then show ?thesis using Cons by (simp add: xs)
  next
    case KPeek
    then show ?thesis using Cons by (simp add: xs)
  next
    case KCollect
    then show ?thesis using Cons.prems too_many_remaining [of qs AConsumed l] by simp
  next
    case KSingle
    then show ?thesis using Cons.prems by (auto simp: xs)
  qed
qed simp

text \<open>
  What the cursor relies on: a stream of the connection that yields the records one by one and then the summary, again
  and again. \<open>src c rs\<close>: the stream has the records \<open>rs\<close> left.
\<close>

locale record_source =
  fixes ops :: "'c cursor_ops" and i :: nat and src :: "'c \<Rightarrow> rec list \<Rightarrow> bool"
  assumes next_record: "\<And>c r rs. src c (r # rs) \<Longrightarrow> \<exists>c'. op_Next ops i c = (NRecord r, c') \<and> src c' rs"
    and next_summary: "\<And>c. src c [] \<Longrightarrow> \<exists>m c'. op_Next ops i c = (NSummary m, c') \<and> src c' []"
begin

definition open_at :: "'c cursor \<Rightarrow> rec list \<Rightarrow> bool" where
  "open_at k rs \<longleftrightarrow> r_stream (cu_res k) = i \<and> r_err (cu_res k) = None \<and> r_summary (cu_res k) = None \<and>
     (if r_peeked (cu_res k)
      then (case rs of
              [] \<Rightarrow> r_peekedRecord (cu_res k) = None \<and> r_peekedSummary (cu_res k) \<noteq> None \<and> src (cu_conn k) []
            | r # rs' \<Rightarrow> r_peekedRecord (cu_res k) = Some r \<and> r_peekedSummary (cu_res k) = None \<and> src (cu_conn k) rs')
      else r_peekedRecord (cu_res k) = None \<and> src (cu_conn k) rs)"

definition over :: "'c cursor \<Rightarrow> bool" where
  "over k \<longleftrightarrow> r_stream (cu_res k) = i \<and> r_summary (cu_res k) \<noteq> None \<and> \<not> r_peeked (cu_res k) \<and> src (cu_conn k) []"

fun at_pos :: "'c cursor \<Rightarrow> acursor \<Rightarrow> bool" where
  "at_pos k (AOpen rs) = open_at k rs"
| "at_pos k AConsumed = (over k \<and> r_err (cu_res k) = None)"
| "at_pos k (AFailed e) = (over k \<and> r_err (cu_res k) = Some (UsageError e))"

lemma advance_Cons: "open_at k (r # rs) \<Longrightarrow> open_at (advance ops k) rs \<and> r_record (cu_res (advance ops k)) = Some r"
  using next_record [of "cu_conn k" r rs]
  by (auto simp: open_at_def cursor_defs split: list.splits if_splits)

lemma advance_Nil:
  "open_at k [] \<Longrightarrow> over (advance ops k) \<and> r_record (cu_res (advance ops k)) = None \<and> r_err (cu_res (advance ops k)) = None"
  using next_summary [of "cu_conn k"] by (auto simp: open_at_def over_def cursor_defs split: if_splits)

lemma advance_over: "over k \<Longrightarrow> over (advance ops k) \<and> r_record (cu_res (advance ops k)) = None \<and> r_err (cu_res (advance ops k)) = None"
  using next_summary [of "cu_conn k"] by (auto simp: over_def cursor_defs)

lemma peek_at: "open_at k rs \<Longrightarrow> open_at (peek ops k) rs \<and> r_peekedRecord (cu_res (peek ops k)) = (if rs = [] then None else Some (hd rs))"
  using next_record [of "cu_conn k"] next_summary [of "cu_conn k"]
  by (cases rs) (fastforce simp: open_at_def cursor_defs split: if_splits)+

lemma hook_at [simp]:
  "over (callAfterConsumptionHook k) = over k" "open_at (callAfterConsumptionHook k) rs = open_at k rs"
  "r_err (cu_res (callAfterConsumptionHook k)) = r_err (cu_res k)" "r_record (cu_res (callAfterConsumptionHook k)) = r_record (cu_res k)"
  by (auto simp: over_def open_at_def callAfterConsumptionHook_def on_res_def split: list.splits)

lemma res_at [simp]:
  "over (on_res (\<lambda>r. r\<lparr>r_record := x\<rparr>) k) = over k" "over (on_res (\<lambda>r. r\<lparr>r_err := e\<rparr>) k) = over k"
  "r_err (cu_res (on_res (\<lambda>r. r\<lparr>r_record := x\<rparr>) k)) = r_err (cu_res k)" "r_err (cu_res (on_res (\<lambda>r. r\<lparr>r_err := e\<rparr>) k)) = e"
  by (simp_all add: over_def on_res_def)

lemma check_open: "open_at k rs \<Longrightarrow> on_res checkOpen k = k"
  by (simp add: open_at_def cursor_defs)

lemma check_over: "over k \<Longrightarrow> over (on_res checkOpen k) \<and> r_err (cu_res (on_res checkOpen k)) = Some consumedResultError"
  by (auto simp: over_def cursor_defs)

lemma open_err: "open_at k rs \<Longrightarrow> r_err (cu_res k) = None \<and> r_summary (cu_res k) = None"
  by (simp add: open_at_def)

lemma over_summary: "over k \<Longrightarrow> \<exists>m. r_summary (cu_res k) = Some m"
  by (auto simp: over_def)

definition follows :: "nat \<Rightarrow> kcall \<Rightarrow> 'c cursor \<Rightarrow> acursor \<Rightarrow> bool" where
  "follows n q k a \<longleftrightarrow> (\<exists>k'. k_step ops n q k = Some (fst (a_step q a), k') \<and> at_pos k' (snd (a_step q a)))"

lemma step_next: "at_pos k a \<Longrightarrow> follows n KNext k a"
proof (cases a)
  case (AOpen rs)
  assume "at_pos k a"
  with AOpen have k: "open_at k rs" by simp
  show ?thesis
    using check_open [OF k] open_err [OF k] advance_Cons [of k] advance_Nil [of k] open_err over_summary k
    by (cases rs) (fastforce simp: AOpen follows_def k_step_def result_NextRecord_def result_Next_def Let_def)+
qed (use check_over [of k] in \<open>auto simp: follows_def k_step_def result_NextRecord_def result_Next_def consumedResultError_def not_available_def\<close>)

lemma step_peek: "at_pos k a \<Longrightarrow> follows n KPeek k a"
proof (cases a)
  case (AOpen rs)
  assume "at_pos k a"
  with AOpen have k: "open_at k rs" by simp
  show ?thesis
    using check_open [OF k] open_err [OF k] peek_at [OF k]
    by (simp add: AOpen follows_def k_step_def result_PeekRecord_def result_Peek_def Let_def)
qed (use check_over [of k] in \<open>auto simp: follows_def k_step_def result_PeekRecord_def result_Peek_def consumedResultError_def not_available_def\<close>)

lemma loop_at:
  "open_at k rs \<Longrightarrow> length rs \<le> n \<Longrightarrow> \<exists>k'. records_loop ops n k = ((rs, True), k') \<and> over k' \<and> r_err (cu_res k') = None"
proof (induction rs arbitrary: k n)
  case Nil
  then show ?case
    using check_open [OF Nil(1)] open_err [OF Nil(1)] advance_Nil [OF Nil(1)] by (simp add: records_loop.simps [of ops n] Let_def)
next
  case (Cons r rs)
  then obtain l where n: "n = Suc l" "length rs \<le> l" by (cases n) auto
  have k: "open_at (advance ops k) rs" "r_record (cu_res (advance ops k)) = Some r" using advance_Cons [OF Cons.prems(1)] by auto
  obtain k' where "records_loop ops l (advance ops k) = ((rs, True), k')" "over k'" "r_err (cu_res k') = None"
    using Cons.IH [OF k(1) n(2)] by blast
  then show ?case
    using check_open [OF Cons.prems(1)] open_err [OF Cons.prems(1)] open_err [OF k(1)] k(2)
    by (simp add: n(1) records_loop.simps [of ops "Suc l"] Let_def)
qed

lemma step_collect:
  assumes "at_pos k a" "remaining a \<le> n"
  shows "follows n KCollect k a"
proof (cases a)
  case (AOpen rs)
  with assms have k: "open_at k rs" "length rs \<le> n" by auto
  obtain k' where "records_loop ops n k = ((rs, True), k')" "over k'" "r_err (cu_res k') = None" using loop_at [OF k] by blast
  then show ?thesis
    using open_err [OF k(1)] over_summary [of k']
    by (auto simp: AOpen follows_def k_step_def result_Collect_def result_Records_def)
qed (use assms(1) over_summary [of k] in \<open>auto simp: follows_def k_step_def result_Collect_def\<close>)

text \<open>Single on a cursor with at most one record left.\<close>

lemma single_none:
  assumes "over (advance ops k)" "r_err (cu_res (advance ops k)) = None"
  shows "\<exists>k'. result_Single ops k = (Inl (UsageError ''Result contains no more records''), k') \<and>
    at_pos k' (AFailed ''Result contains no more records'')"
  using assms over_summary [OF assms(1)] by (auto simp: result_Single_def Let_def)

lemma step_single:
  assumes "at_pos k a" "remaining a \<le> 1"
  shows "follows n KSingle k a"
proof (cases "\<exists>r. a = AOpen [r]")
  case True
  then obtain r where a: "a = AOpen [r]" by blast
  have k1: "open_at (advance ops k) []" "r_record (cu_res (advance ops k)) = Some r" using advance_Cons [of k r "[]"] assms(1) a by auto
  then show ?thesis
    using open_err [OF k1(1)] advance_Nil [OF k1(1)] by (simp add: a follows_def k_step_def result_Single_def Let_def)
next
  case False
  then have "a = AOpen [] \<or> (\<forall>rs. a \<noteq> AOpen rs)" using assms(2) by (cases a) (auto simp: le_Suc_eq length_Suc_conv)
  then show ?thesis
    using single_none [of k] advance_Nil [of k] advance_over [of k] assms(1)
    by (cases a) (auto simp: follows_def k_step_def)
qed

lemma at_new: "src c rs \<Longrightarrow> at_pos (at_cursor (newResult i hook) c) (AOpen rs)"
  by (simp add: open_at_def at_cursor_def newResult_def)

end

text \<open>
  A source that can drop its records and come to the summary, once fewer than \<open>few\<close> of them are left: what Single asks for
  when it finds more than one.
\<close>

locale consumable_source = record_source +
  fixes few :: nat
  assumes consume: "\<And>c rs. src c rs \<Longrightarrow> length rs < few \<Longrightarrow> \<exists>m c'. op_Consume ops i c = ((Some m, None), c') \<and> src c' []"
begin

lemma single_many:
  assumes "at_pos k (AOpen (r # r' # rs))" "length rs < few"
  shows "follows n KSingle k (AOpen (r # r' # rs))"
proof -
  let ?k1 = "advance ops k"
  let ?k2 = "advance ops ?k1"
  have k1: "open_at ?k1 (r' # rs)" using advance_Cons assms(1) by simp
  have k2: "open_at ?k2 rs" "r_record (cu_res ?k2) = Some r'" using advance_Cons [OF k1] by auto
  have "\<not> r_peeked (cu_res ?k2)" by (auto simp: advance_def on_res_def Let_def split: prod.split option.split)
  then have k3: "src (cu_conn ?k2) rs" "r_stream (cu_res ?k2) = i" "\<not> r_peeked (cu_res ?k2)" using k2(1) by (simp_all add: open_at_def)
  obtain m c where "op_Consume ops i (cu_conn ?k2) = ((Some m, None), c)" "src c []" using consume [OF k3(1) assms(2)] by blast
  then show ?thesis
    using open_err [OF k1] k2(2) k3(2,3)
    by (simp add: follows_def k_step_def result_Single_def Let_def over_def on_res_def)
qed

lemma run_at:
  assumes "at_pos k a" and "remaining a \<le> n" and "\<And>l. too_many qs a = Some l \<Longrightarrow> l < few"
  shows "\<exists>k'. k_run ops n qs k = Some (a_run qs a, k')"
  using assms
proof (induction qs arbitrary: k a)
  case (Cons q qs)
  have "follows n q k a \<and> (\<forall>l. too_many qs (snd (a_step q a)) = Some l \<longrightarrow> l < few)"
  proof (cases rule: too_many_cases [where q = q and a = a and qs = qs])
    case (single r r' rs)
    then show ?thesis
      using single_many [of k r r' rs n] Cons.prems(1,3) too_many_remaining [of qs "AFailed ''Result contains more than one record''"]
      by auto
  next
    case other
    moreover have "follows n q k a"
      using other(1) Cons.prems(1,2) step_next step_peek step_collect step_single by (cases q) auto
    ultimately show ?thesis using Cons.prems(3) by simp
  qed
  then obtain k1 where k1: "k_step ops n q k = Some (fst (a_step q a), k1)" "at_pos k1 (snd (a_step q a))"
    and few: "\<And>l. too_many qs (snd (a_step q a)) = Some l \<Longrightarrow> l < few" unfolding follows_def by blast
  obtain k2 where "k_run ops n qs k1 = Some (a_run qs (snd (a_step q a)), k2)"
    using Cons.IH [OF k1(2) order_trans [OF remaining_step Cons.prems(2)] few] by auto
  with k1(1) show ?case by (simp add: case_prod_unfold)
qed simp

end

end
