(* ===== verification/Cursor.thy ===== *)
theory Cursor
  imports Result Bolt5Props
begin

text \<open>
  The result cursor on a Bolt 5 connection: a stream of bolt5.go is a source of records for the cursor of result.go.
\<close>

text \<open>
  The operations of a Bolt 5 connection behind the interface. Consume and Buffer are partial functions of the model
  whose results exist whenever the streams are in use; what is outside their domain is a call that does not return.
\<close>

definition bolt5_cursor :: "benv \<Rightarrow> bolt cursor_ops" where
  "bolt5_cursor env =
     \<lparr>op_Next = bolt5_Next env,
      op_Consume = (\<lambda>i b. case bolt5_Consume env i b of Some r \<Rightarrow> r | None \<Rightarrow> ((None, None), b)),
      op_Buffer = (\<lambda>i b. case bolt5_Buffer env i b of Some r \<Rightarrow> r | None \<Rightarrow> (None, b)),
      op_Keys = bolt5_Keys\<rparr>"

section \<open>A stream as a source of records\<close>

text \<open>The records of a script with the keys of the query.\<close>

definition keyed :: "string list \<Rightarrow> (goval list list \<times> success) list \<Rightarrow> goval list list \<Rightarrow> rec list" where
  "keyed ks bs vss = map (\<lambda>vs. (ks, vs)) (all_records bs vss)"

lemma keyed_simps [simp]:
  "keyed ks [] vss = map (\<lambda>vs. (ks, vs)) vss" "keyed ks ((rs, su) # bs) vss = map (\<lambda>vs. (ks, vs)) rs @ keyed ks bs vss"
  by (simp_all add: keyed_def all_records_def)

text \<open>
  The last batch that comes holds at least \<open>few\<close> records: when fewer are left, all of them are in the batch that is on
  its way. What follows that batch may be the answer to a DISCARD.
\<close>

fun ends_with :: "nat \<Rightarrow> (goval list list \<times> success) list \<Rightarrow> goval list list \<Rightarrow> bool" where
  "ends_with few [] vss = True"
| "ends_with few ((rs, su) # bs) vss =
     (bs = [] \<and> vss = [] \<or> few \<le> length (all_records bs vss) \<and> ends_with few bs vss)"

text \<open>
  The stream \<open>i\<close> has the records \<open>rs\<close> left: the server still sends them in some batches, or it has sent them all and the
  summary is stored.
\<close>

definition streams_as :: "benv \<Rightarrow> success \<Rightarrow> nat \<Rightarrow> nat \<Rightarrow> bolt \<Rightarrow> rec list \<Rightarrow> bool" where
  "streams_as env fin few i b rs \<longleftrightarrow>
     (\<exists>bs vss ms. calm env \<and> \<not> hasMore fin \<and> pulling i b \<and> curr b = Some i \<and> isSafe i b = None \<and>
        inbox b = map Inr (script bs vss fin) @ ms \<and> list_all (hasMore \<circ> snd) bs \<and> ends_with few bs vss \<and>
        rs = keyed (keys (strm b i)) bs vss) \<or>
     rs = [] \<and> i < length (heap b) \<and> fifo (strm b i) = [] \<and> s_err (strm b i) = None \<and> sum (strm b i) \<noteq> None"

lemma streams_asI:
  assumes "calm env" "\<not> hasMore fin" "pulling i b" "curr b = Some i" "isSafe i b = None" "inbox b = map Inr (script bs vss fin) @ ms"
    and "list_all (hasMore \<circ> snd) bs" "ends_with few bs vss" "keys (strm b i) = ks"
  shows "streams_as env fin few i b (keyed ks bs vss)"
  using assms unfolding streams_as_def by blast

lemma over_next:
  assumes "i < length (heap b)" "fifo (strm b i) = []" "s_err (strm b i) = None" "sum (strm b i) = Some m"
  shows "bolt5_Next env i b = (NSummary m, b)"
proof -
  have "upd i (\<lambda>_. strm b i) b = b" using assms(1) by (simp add: upd_def strm_def)
  then show ?thesis using assms by (simp add: bolt5_Next_valid next_loop.simps [of env i b] bufferedNext_def)
qed

text \<open>A call of Next reads on over empty batches to the next record or to the summary.\<close>

lemma scripted_next:
  assumes "calm env" "\<not> hasMore fin" "pulling i b" "curr b = Some i" "isSafe i b = None" "inbox b = map Inr (script bs vss fin) @ ms"
    and "list_all (hasMore \<circ> snd) bs" "ends_with few bs vss"
  shows "\<exists>x c. bolt5_Next env i b = (x, c) \<and>
    (case keyed (keys (strm b i)) bs vss of
       [] \<Rightarrow> (\<exists>m. x = NSummary m) \<and> streams_as env fin few i c []
     | r # rs \<Rightarrow> x = NRecord r \<and> streams_as env fin few i c rs)"
  using assms(3-)
proof (induction bs arbitrary: b)
  case Nil
  show ?case
  proof (cases vss)
    case Nil
    then show ?thesis
      using next_summary [of i b fin ms env] Nil.prems(1,4) assms(2) by (force simp: streams_as_def)
  next
    case (Cons v vs)
    with Nil.prems(4) have "inbox b = Inr (MRecord v) # map Inr (script [] vs fin) @ ms" by simp
    from next_record [OF Nil.prems(1) this, of env] obtain c where c: "bolt5_Next env i b = (NRecord (keys (strm b i), v), c)"
        "pulling i c" "inbox c = map Inr (script [] vs fin) @ ms" "keys (strm c i) = keys (strm b i)" "curr c = Some i" "isSafe i c = None"
      using Nil.prems(2,3) by auto
    from streams_asI [OF assms(1,2) c(2,5,6,3) _ _ c(4), of few] c(1) show ?thesis by (simp add: Cons)
  qed
next
  case (Cons x bs)
  obtain rs su where x: "x = (rs, su)" by (cases x)
  show ?case
  proof (cases rs)
    case Nil
    with Cons.prems(4) x have "inbox b = Inr (MSuccess su) # map Inr (script bs vss fin) @ ms" "hasMore su"
      using Cons.prems(5) by simp_all
    from next_batch [OF assms(1) Cons.prems(1) this] obtain c where c: "bolt5_Next env i b = bolt5_Next env i c"
        "pulling i c" "inbox c = map Inr (script bs vss fin) @ ms" "keys (strm c i) = keys (strm b i)" "curr c = Some i" "isSafe i c = None"
      using Cons.prems(2,3) by auto
    have "ends_with few bs vss" using Cons.prems(6) x by auto
    with Cons.IH [OF c(2,5,6,3)] Cons.prems(5) show ?thesis by (simp add: x Nil c(1,4))
  next
    case (Cons v vs)
    with Cons.prems(4) x have "inbox b = Inr (MRecord v) # map Inr (script ((vs, su) # bs) vss fin) @ ms" by simp
    from next_record [OF Cons.prems(1) this, of env] obtain c where c: "bolt5_Next env i b = (NRecord (keys (strm b i), v), c)"
        "pulling i c" "inbox c = map Inr (script ((vs, su) # bs) vss fin) @ ms" "keys (strm c i) = keys (strm b i)" "curr c = Some i"
        "isSafe i c = None"
      using Cons.prems(2,3) by auto
    have "list_all (hasMore \<circ> snd) ((vs, su) # bs)" "ends_with few ((vs, su) # bs) vss"
      using Cons.prems(5,6) x by (auto simp: comp_def)
    from streams_asI [OF assms(1,2) c(2,5,6,3) this c(4)] c(1) show ?thesis by (simp add: x Cons)
  qed
qed

text \<open>Consume, when what is left is in the batch on its way.\<close>

lemma scripted_consume:
  assumes "calm env" "\<not> hasMore fin" "pulling i b" "curr b = Some i" "isSafe i b = None" "inbox b = map Inr (script bs vss fin) @ ms"
    and "list_all (hasMore \<circ> snd) bs" "ends_with few bs vss" "length (all_records bs vss) < few"
  shows "\<exists>m c. bolt5_Consume env i b = Some ((Some m, None), c) \<and> streams_as env fin few i c []"
proof -
  have "bs = [] \<or> (\<exists>rs su. bs = [(rs, su)] \<and> hasMore su \<and> vss = [])"
  proof (cases bs)
    case (Cons x bs')
    obtain rs su where x: "x = (rs, su)" by (cases x)
    have "\<not> few \<le> length (all_records bs' vss)" using assms(9) by (simp add: Cons x all_records_def)
    with assms(7,8) show ?thesis by (auto simp: Cons x)
  qed simp
  then obtain vs su ms' where "inbox b = map (Inr \<circ> MRecord) vs @ Inr (MSuccess su) # ms'" "hasMore su \<Longrightarrow> ms' = Inr (MSuccess fin) # ms"
    and "\<not> hasMore su \<Longrightarrow> su = fin"
    using assms(2,6) by force
  with Consume_drains [OF assms(1,3-5) this(1,2)] assms(2) show ?thesis
    by (auto simp: Let_def streams_as_def split: if_splits dest: sym)
qed

lemma over_consume: "i < length (heap b) \<Longrightarrow> sum (strm b i) \<noteq> None \<Longrightarrow> bolt5_Consume env i b = Some ((sum (strm b i), s_err (strm b i)), b)"
  by (simp add: bolt5_Consume_def getUnsafe_def finished_def)

interpretation bolt5_source: consumable_source "bolt5_cursor env" i "streams_as env fin few i" few for env i fin few
proof unfold_locales
  fix c r rs assume "streams_as env fin few i c (r # rs)"
  then show "\<exists>c'. op_Next (bolt5_cursor env) i c = (NRecord r, c') \<and> streams_as env fin few i c' rs"
    unfolding streams_as_def [of env fin few i c]
    by (auto simp: bolt5_cursor_def dest!: scripted_next split: list.splits)
next
  fix c assume "streams_as env fin few i c []"
  then show "\<exists>m c'. op_Next (bolt5_cursor env) i c = (NSummary m, c') \<and> streams_as env fin few i c' []"
    unfolding streams_as_def [of env fin few i c]
    by (auto simp: bolt5_cursor_def over_next streams_as_def dest!: scripted_next split: list.splits)
next
  fix c rs assume "streams_as env fin few i c rs" "length rs < few"
  then show "\<exists>m c'. op_Consume (bolt5_cursor env) i c = ((Some m, None), c') \<and> streams_as env fin few i c' []"
    unfolding streams_as_def [of env fin few i c]
    by (auto simp: bolt5_cursor_def over_consume streams_as_def keyed_def dest!: scripted_consume)
qed

section \<open>The cursor of a query\<close>

text \<open>
  What a server sends that has the records in batches: all of them, or, when Single finds more than one record and
  throws the others away, the batches up to the one that Single has read into. Then the client asks for no other batch; it
  sends a DISCARD, and the server ends the stream.
\<close>

fun sent_batches :: "nat \<Rightarrow> (goval list list \<times> success) list \<Rightarrow> goval list list \<Rightarrow> (goval list list \<times> success) list \<times> goval list list" where
  "sent_batches l [] vss = ([], vss)"
| "sent_batches l ((rs, su) # bs) vss =
     (if length (all_records bs vss) \<le> l then ([(rs, su)], [])
      else case sent_batches l bs vss of (bs', vss') \<Rightarrow> ((rs, su) # bs', vss'))"

definition answers :: "nat option \<Rightarrow> (goval list list \<times> success) list \<Rightarrow> goval list list \<Rightarrow> success \<Rightarrow> message list" where
  "answers discarded bs vss fin =
     (case discarded of None \<Rightarrow> script bs vss fin | Some l \<Rightarrow> (case sent_batches l bs vss of (bs', vss') \<Rightarrow> script bs' vss' fin))"

lemma sent_batches_prefix:
  "sent_batches l bs vss = (bs', vss') \<Longrightarrow> list_all (hasMore \<circ> snd) bs \<Longrightarrow>
     \<exists>ys. all_records bs vss = all_records bs' vss' @ ys \<and> length ys \<le> l \<and> list_all (hasMore \<circ> snd) bs' \<and>
       ends_with (Suc (l - length ys)) bs' vss'"
proof (induction l bs vss arbitrary: bs' rule: sent_batches.induct)
  case (2 l rs su bs vss)
  show ?case
  proof (cases "length (all_records bs vss) \<le> l")
    case True
    with 2(2,3) show ?thesis by (intro exI [of _ "all_records bs vss"]) (auto simp: all_records_def)
  next
    case False
    with 2(2) obtain bs'' where b: "sent_batches l bs vss = (bs'', vss')" "bs' = (rs, su) # bs''" by (auto split: prod.splits)
    have "list_all (hasMore \<circ> snd) bs" using 2(3) by (simp add: comp_def)
    from 2(1) [OF False b(1) this] obtain ys where ys: "all_records bs vss = all_records bs'' vss' @ ys" "length ys \<le> l"
        "list_all (hasMore \<circ> snd) bs''" "ends_with (Suc (l - length ys)) bs'' vss'" by blast
    from ys(1,2) False have "Suc (l - length ys) \<le> length (all_records bs'' vss')" by simp
    with ys b 2(3) show ?thesis by (intro exI [of _ ys]) (simp add: all_records_def comp_def)
  qed
qed simp

lemma ends_with_0: "ends_with 0 bs vss"
  by (induction "0 :: nat" bs vss rule: ends_with.induct) simp_all

lemma run_streams_as:
  assumes "calm env" "idle_conn b" "state b = Ready" "checkNotificationFiltering (tx_notifications c) b = None"
    and "inbox b = Inr (MSuccess su) # map Inr (script bs vss fin) @ rest"
    and "\<not> hasMore fin" "list_all (hasMore \<circ> snd) bs" "ends_with few bs vss"
  obtains i b1 where "bolt5_Run env cypher params n c b = Some (Inr i, b1)" "streams_as env fin few i b1 (keyed (su_fields su) bs vss)"
proof -
  obtain b1 where b1: "run_start env cypher params n (Some (toMeta c (databaseName b) (Version b))) b = (Inr (length (heap b)), b1)"
      "pulling (length (heap b)) b1" "keys (strm b1 (length (heap b))) = su_fields su" "inbox b1 = map Inr (script bs vss fin) @ rest"
      "curr b1 = Some (length (heap b))" "isSafe (length (heap b)) b1 = None"
    using run_start_ok [OF assms(1,2,5)] by blast
  show thesis
    using that streams_asI [OF assms(1,6) b1(2,5,6,4) assms(7,8) b1(3)] Run_ready [OF assms(2,3,4)] b1(1) by simp
qed

text \<open>
  C3: the result of a query is a cursor over the records of the server. A query runs on an idle connection, and the server
  has its records in any number of batches; then for every sequence of calls of Next, Peek, Collect and Single the cursor
  answers like a position in the list of all records. Next moves by one, Peek looks ahead without moving, Collect
  takes what is left, Single returns the record if exactly one is left. Once Next has found no record, or Collect or Single
  has taken the last ones, the cursor is consumed: Collect returns nothing, Next and Peek find nothing and make the cursor
  unavailable, Single fails. A Single that fails leaves its error, which Collect returns until another call of Next, Peek
  or Single replaces it. The server answers what it is asked for: when
  Single has found a second record and discards the others, the batches after that are not sent. Collect is given as many
  rounds as there are records.
\<close>

theorem cursor_refines_list:
  assumes "calm env" "idle_conn b" "state b = Ready" "checkNotificationFiltering (tx_notifications c) b = None"
    and "inbox b = Inr (MSuccess su) # map Inr (answers (too_many qs (AOpen rs)) bs vss fin) @ rest"
    and "\<not> hasMore fin" "list_all (hasMore \<circ> snd) bs"
    and "rs = map (\<lambda>vs. (su_fields su, vs)) (all_records bs vss)" "length rs \<le> l"
  shows "\<exists>i b1. bolt5_Run env cypher params n c b = Some (Inr i, b1) \<and>
    map_option fst (k_run (bolt5_cursor env) l qs (at_cursor (newResult i hook) b1)) = Some (a_run qs (AOpen rs))"
proof -
  have "\<exists>bs' vss' few ys. answers (too_many qs (AOpen rs)) bs vss fin = script bs' vss' fin \<and> list_all (hasMore \<circ> snd) bs' \<and>
      ends_with few bs' vss' \<and> rs = keyed (su_fields su) bs' vss' @ ys \<and>
      a_run qs (AOpen (keyed (su_fields su) bs' vss')) = a_run qs (AOpen rs) \<and>
      (\<forall>d. too_many qs (AOpen (keyed (su_fields su) bs' vss')) = Some d \<longrightarrow> d < few)"
  proof (cases "too_many qs (AOpen rs)")
    case None
    with assms(7,8) show ?thesis
      by (intro exI [of _ bs] exI [of _ vss] exI [of _ 0] exI [of _ "[]"]) (simp add: answers_def ends_with_0 keyed_def)
  next
    case (Some d)
    obtain bs' vss' where s: "sent_batches d bs vss = (bs', vss')" by (cases "sent_batches d bs vss")
    obtain ys where ys: "all_records bs vss = all_records bs' vss' @ ys" "length ys \<le> d" "list_all (hasMore \<circ> snd) bs'"
        "ends_with (Suc (d - length ys)) bs' vss'"
      using sent_batches_prefix [OF s assms(7)] by blast
    have rs: "rs = keyed (su_fields su) bs' vss' @ map (\<lambda>vs. (su_fields su, vs)) ys" by (simp add: assms(8) ys(1) keyed_def)
    from run_cut [of qs "keyed (su_fields su) bs' vss'" "map (\<lambda>vs. (su_fields su, vs)) ys" d] Some ys rs s show ?thesis
      by (intro exI [of _ bs'] exI [of _ vss'] exI [of _ "Suc (d - length ys)"] exI [of _ "map (\<lambda>vs. (su_fields su, vs)) ys"])
        (simp add: answers_def)
  qed
  then obtain bs' vss' few ys where a: "answers (too_many qs (AOpen rs)) bs vss fin = script bs' vss' fin"
      "list_all (hasMore \<circ> snd) bs'" "ends_with few bs' vss'" "rs = keyed (su_fields su) bs' vss' @ ys"
      "a_run qs (AOpen (keyed (su_fields su) bs' vss')) = a_run qs (AOpen rs)"
      "\<And>d. too_many qs (AOpen (keyed (su_fields su) bs' vss')) = Some d \<Longrightarrow> d < few"
    by blast
  obtain i b1 where i: "bolt5_Run env cypher params n c b = Some (Inr i, b1)" "streams_as env fin few i b1 (keyed (su_fields su) bs' vss')"
    using run_streams_as [OF assms(1-4) assms(5) [unfolded a(1)] assms(6) a(2,3), of cypher params n] by blast
  have "remaining (AOpen (keyed (su_fields su) bs' vss')) \<le> l" using assms(9) a(4) by simp
  from bolt5_source.run_at [OF bolt5_source.at_new [OF i(2), where hook = hook] this a(6)] i(1) a(5) show ?thesis by fastforce
qed

text \<open>
  Three batches, of which the third is not sent: the third call is a Single that finds the records of the second batch.
\<close>

theorem cursor_refines_list_witness:
  "\<exists>i b1. bolt5_Run env0 ''q'' [] 1 txc0
      (conn0 [MSuccess succ0, MRecord [VInt 1], MSuccess (succ0\<lparr>hasMore := True\<rparr>), MRecord [VInt 2], MRecord [VInt 3],
        MSuccess (succ0\<lparr>hasMore := True\<rparr>), MSuccess succ0]) = Some (Inr i, b1) \<and>
    map_option fst (k_run (bolt5_cursor env0) 4 [KNext, KPeek, KSingle, KCollect, KNext, KCollect, KSingle, KCollect]
        (at_cursor (newResult i True) b1)) =
      Some [OMoved (Some ([''x''], [VInt 1])), OPeeked (Some ([''x''], [VInt 2])),
        OSingle (Inl (UsageError ''Result contains more than one record'')),
        OCollected (Inl (UsageError ''Result contains more than one record'')), OMoved None,
        OCollected (Inl (UsageError ''result cursor is not available anymore'')),
        OSingle (Inl (UsageError ''Result contains no more records'')),
        OCollected (Inl (UsageError ''Result contains no more records''))]"
proof -
  let ?more = "succ0\<lparr>hasMore := True\<rparr>"
  let ?bs = "[([[VInt 1]], ?more), ([[VInt 2], [VInt 3]], ?more)]" and ?vs = "[[VInt 4]]"
  let ?rs = "[([''x''], [VInt 1]), ([''x''], [VInt 2]), ([''x''], [VInt 3]), ([''x''], [VInt 4])]"
  let ?qs = "[KNext, KPeek, KSingle, KCollect, KNext, KCollect, KSingle, KCollect]"
  let ?ms = "[MSuccess succ0, MRecord [VInt 1], MSuccess ?more, MRecord [VInt 2], MRecord [VInt 3], MSuccess ?more, MSuccess succ0]"
  have inp: "inbox (conn0 ?ms) = Inr (MSuccess succ0) # map Inr (answers (too_many ?qs (AOpen ?rs)) ?bs ?vs succ0) @ []"
    by (simp add: idle_conn0 answers_def all_records_def)
  have rs: "?rs = map (\<lambda>vs. (su_fields succ0, vs)) (all_records ?bs ?vs)" by (simp add: succ0_def all_records_def)
  have more: "\<not> hasMore succ0" "list_all (hasMore \<circ> snd) ?bs" by (simp_all add: succ0_def)
  have calls: "length ?rs \<le> 4" by simp
  show ?thesis
    using cursor_refines_list [OF calm_env0 idle_conn0(1,2) filtering0 inp more rs calls, of "''q''" "[]" 1 True]
    by (simp add: not_available_def)
qed

end
