(* ===== verification/Session.thy ===== *)
theory Session
  imports Result Bolt5 Bookmarks Retry Router
begin

text \<open>
  Sessions and transactions: src/neo4j/session.go and transaction.go. The results, the transaction states and the
  explicit transactions that a program can hold are heaps of the session; the connections are behind their interface.
  The pool, the router and the cache of home databases are seen through their interfaces, too: what they answer may
  depend on everything the session did before, which the session records as a list of events. Contexts only decide
  how the calls of the others end, so they do not appear; the log is not represented.
\<close>

section \<open>State\<close>

record 'c conn_ops = "'c cursor_ops" +
  op_Telemetry :: "int \<Rightarrow> 'c \<Rightarrow> 'c"
  op_telemetryDone :: "'c \<Rightarrow> bool"          \<comment> \<open>the callback of the last Telemetry has been called\<close>
  op_TxBegin :: "txConfig \<Rightarrow> bool \<Rightarrow> 'c \<Rightarrow> (goerr + int) \<times> 'c"
  op_TxCommit :: "int \<Rightarrow> 'c \<Rightarrow> goerr option \<times> 'c"
  op_TxRollback :: "int \<Rightarrow> 'c \<Rightarrow> goerr option \<times> 'c"
  op_Run :: "string \<Rightarrow> gomap \<Rightarrow> int \<Rightarrow> txConfig \<Rightarrow> 'c \<Rightarrow> (goerr + nat) \<times> 'c"
  op_RunTx :: "int \<Rightarrow> string \<Rightarrow> gomap \<Rightarrow> int \<Rightarrow> 'c \<Rightarrow> (goerr + nat) \<times> 'c"
  op_Bookmark :: "'c \<Rightarrow> string"
  op_IsAlive :: "'c \<Rightarrow> bool"
  op_HasFailed :: "'c \<Rightarrow> bool"
  op_IsSsrEnabled :: "'c \<Rightarrow> bool"
  op_SelectDatabase :: "(string \<Rightarrow> 'c \<Rightarrow> 'c) option"  \<comment> \<open>nil: not a DatabaseSelector\<close>
  op_ServerName :: "'c \<Rightarrow> string"
  op_pins :: "'c \<Rightarrow> string list"             \<comment> \<open>the databases the pin callback was called with\<close>

datatype event =
    EvRoute bool selection | EvHomeDb "string list" | EvBorrow "string list" | EvBorrowed nat | EvReturn nat
  | EvCacheSet string string | EvPoolCleanUp | EvRouterCleanUp

text \<open>A result with what its closures capture, a transaction state with its error handlers, the transactions.\<close>

record sresult =
  sr_res :: result
  sr_conn :: nat
  sr_tx :: nat
  sr_bookmarks :: "string list"

datatype err_handler = OnClose nat | OnResult nat

record transactionState =
  ts_err :: "goerr option"
  ts_handlers :: "err_handler list"

record explicitTransaction =
  et_conn :: "nat option"
  et_handle :: int
  et_state :: nat
  et_bookmarks :: "string list"

record autocommitTransaction =
  at_conn :: nat
  at_res :: nat
  at_closed :: bool

record 'c session =
  se_conns :: "nat \<Rightarrow> 'c"
  se_log :: "event list"
  se_results :: "sresult list"
  se_txs :: "transactionState list"
  se_etxs :: "explicitTransaction list"
  explicitTx :: "nat option"
  autocommitTx :: "autocommitTransaction option"
  se_bookmarks :: sessionBookmarks
  resolveHomeDb :: bool
  homeDbGuess :: string
  se_databaseName :: string
  se_closed :: bool

record 'c senv =
  en_ops :: "'c conn_ops"
  en_route :: "event list \<Rightarrow> (goerr + string list) \<times> string option"  \<comment> \<open>servers; the database of the callback\<close>
  en_readers :: "event list \<Rightarrow> string \<Rightarrow> string list"  \<comment> \<open>router.Readers(database)\<close>
  en_homeDb :: "event list \<Rightarrow> goerr + string"
  en_borrow :: "event list \<Rightarrow> goerr + nat \<times> 'c"
  en_cacheEnabled :: "event list \<Rightarrow> bool"
  en_cacheKey :: "event list \<Rightarrow> goerr + string"
  en_supply :: "(goerr + string list option) option"
  en_consume :: "(string list \<Rightarrow> goerr option) option"
  en_key :: string                        \<comment> \<open>homeDbCacheKey\<close>
  en_readMode :: bool                     \<comment> \<open>defaultMode\<close>
  en_fetchSize :: int
  en_impersonated :: string
  en_notifications :: notificationConfig
  en_telemetryDisabled :: bool
  en_disableRetries :: bool               \<comment> \<open>DisableAutoCommitRetries, of the session or else of the driver\<close>

definition newSession :: "bookmarkManager option \<Rightarrow> string list \<Rightarrow> string \<Rightarrow> string option \<Rightarrow> (nat \<Rightarrow> 'c) \<Rightarrow> 'c session" where
  "newSession bm bookmarks database guess conns =
     \<lparr>se_conns = conns, se_log = [], se_results = [], se_txs = [], se_etxs = [], explicitTx = None, autocommitTx = None,
      se_bookmarks = newSessionBookmarks bm bookmarks, resolveHomeDb = (database = []),
      homeDbGuess = (case guess of None \<Rightarrow> [] | Some g \<Rightarrow> g), se_databaseName = database, se_closed = False\<rparr>"

definition logged :: "event \<Rightarrow> 'c session \<Rightarrow> 'c session" where
  "logged ev s = s\<lparr>se_log := se_log s @ [ev]\<rparr>"

definition pool_Return :: "nat \<Rightarrow> 'c session \<Rightarrow> 'c session" where
  "pool_Return c s = logged (EvReturn c) s"

section \<open>Connections\<close>

definition pinHomeDatabase :: "'c senv \<Rightarrow> string \<Rightarrow> 'c session \<Rightarrow> 'c session" where
  "pinHomeDatabase env db s =
     (if \<not> resolveHomeDb s then s
      else
        let s1 = (case en_cacheKey env (se_log s) of Inr key \<Rightarrow> logged (EvCacheSet key db) s | Inl _ \<Rightarrow> s)
        in s1\<lparr>homeDbGuess := db, se_databaseName := db, resolveHomeDb := False\<rparr>)"

text \<open>A call on a connection, with the pin callbacks that come out of it.\<close>

definition on_conn :: "'c senv \<Rightarrow> nat \<Rightarrow> ('c \<Rightarrow> 'a \<times> 'c) \<Rightarrow> 'c session \<Rightarrow> 'a \<times> 'c session" where
  "on_conn env c f s =
     (case f (se_conns s c) of
        (x, c') \<Rightarrow>
          (x, foldl (\<lambda>s db. pinHomeDatabase env db s) (s\<lparr>se_conns := (se_conns s)(c := c')\<rparr>)
                (drop (length (op_pins (en_ops env) (se_conns s c))) (op_pins (en_ops env) c'))))"

definition session_bookmarks :: "'c senv \<Rightarrow> 'c session \<Rightarrow> goerr + string list" where
  "session_bookmarks env s = session_getBookmarks (en_supply env) (se_bookmarks s)"

definition getOrUpdateServers :: "'c senv \<Rightarrow> bool \<Rightarrow> bool \<Rightarrow> bool \<Rightarrow> 'c session \<Rightarrow> (goerr + string list) \<times> 'c session" where
  "getOrUpdateServers env readMode isHomeDbGuess pinOnUpdate s =
     (let sel = \<lparr>sel_Name = (if isHomeDbGuess then homeDbGuess s else se_databaseName s), IsHomeDbGuess = isHomeDbGuess,
                 ImpersonatedUser = en_impersonated env, HomeDbCacheKey = en_key env\<rparr>;
          s1 = logged (EvRoute readMode sel) s
      in case en_route env (se_log s1) of
           (r, updated) \<Rightarrow>
             (r, case updated of Some db \<Rightarrow> if pinOnUpdate then pinHomeDatabase env db s1 else s1 | None \<Rightarrow> s1))"

definition resolveHomeDatabase :: "'c senv \<Rightarrow> 'c session \<Rightarrow> goerr option \<times> 'c session" where
  "resolveHomeDatabase env s =
     (if \<not> resolveHomeDb s then (None, s)
      else
        case session_bookmarks env s of
          Inl e \<Rightarrow> (Some e, s)
        | Inr bs \<Rightarrow>
            let s1 = logged (EvHomeDb bs) s in
            (case en_homeDb env (se_log s1) of
               Inl e \<Rightarrow> (Some e, s1)
             | Inr db \<Rightarrow> (None, pinHomeDatabase env db s1)))"

definition getServerList :: "'c senv \<Rightarrow> bool \<Rightarrow> 'c session \<Rightarrow> (goerr + string list \<times> bool) \<times> 'c session" where
  "getServerList env readMode s =
     (if \<not> resolveHomeDb s then
        (case getOrUpdateServers env readMode False False s of
           (Inl e, s1) \<Rightarrow> (Inl e, s1) | (Inr l, s1) \<Rightarrow> (Inr (l, False), s1))
      else if homeDbGuess s \<noteq> [] \<and> en_cacheEnabled env (se_log s) then
        (case getOrUpdateServers env readMode True True s of
           (Inl e, s1) \<Rightarrow> (Inl e, s1) | (Inr l, s1) \<Rightarrow> (Inr (l, True), s1))
      else
        (case resolveHomeDatabase env s of
           (Some e, s1) \<Rightarrow> (Inl e, s1)
         | (None, s1) \<Rightarrow>
             (case getOrUpdateServers env readMode False False s1 of
                (Inl e, s2) \<Rightarrow> (Inl e, s2) | (Inr l, s2) \<Rightarrow> (Inr (l, False), s2))))"

definition borrowConnection :: "'c senv \<Rightarrow> string list \<Rightarrow> 'c session \<Rightarrow> (goerr + nat) \<times> 'c session" where
  "borrowConnection env servers s =
     (let s1 = logged (EvBorrow servers) s in
      case en_borrow env (se_log s1) of
        Inl e \<Rightarrow> (Inl e, s1)
      | Inr (c, st) \<Rightarrow> (Inr c, logged (EvBorrowed c) (s1\<lparr>se_conns := (se_conns s1)(c := st)\<rparr>)))"

definition selectDatabase :: "'c senv \<Rightarrow> nat \<Rightarrow> 'c session \<Rightarrow> goerr option \<times> 'c session" where
  "selectDatabase env c s =
     (case op_SelectDatabase (en_ops env) of
        None \<Rightarrow> (Some (FeatureNotSupportedError (op_ServerName (en_ops env) (se_conns s c)) ''multi-database'' ''requires at least server v4''), s)
      | Some f \<Rightarrow> (None, s\<lparr>se_conns := (se_conns s)(c := f (se_databaseName s) (se_conns s c))\<rparr>))"

text \<open>The server list and a connection to one of the servers: what getConnection does once or twice.\<close>

definition list_and_borrow :: "'c senv \<Rightarrow> bool \<Rightarrow> 'c session \<Rightarrow> (goerr + nat \<times> bool) \<times> 'c session" where
  "list_and_borrow env readMode s =
     (case getServerList env readMode s of
        (Inl e, s1) \<Rightarrow> (Inl (the (WrapError (Some e))), s1)
      | (Inr (l, guessed), s1) \<Rightarrow>
          (case borrowConnection env l s1 of
             (Inl e, s2) \<Rightarrow> (Inl (the (WrapError (Some e))), s2)
           | (Inr c, s2) \<Rightarrow> (Inr (c, guessed), s2)))"

definition select_or_return :: "'c senv \<Rightarrow> nat \<Rightarrow> 'c session \<Rightarrow> (goerr + nat) \<times> 'c session" where
  "select_or_return env c s =
     (if se_databaseName s = [] then (Inr c, s)
      else
        (case selectDatabase env c s of
           (Some e, s1) \<Rightarrow> (Inl e, pool_Return c s1)
         | (None, s1) \<Rightarrow> (Inr c, s1)))"

definition getConnection :: "'c senv \<Rightarrow> bool \<Rightarrow> 'c session \<Rightarrow> (goerr + nat) \<times> 'c session" where
  "getConnection env readMode s =
     (case list_and_borrow env readMode s of
        (Inl e, s1) \<Rightarrow> (Inl e, s1)
      | (Inr (c, guessed), s1) \<Rightarrow>
          if \<not> op_IsSsrEnabled (en_ops env) (se_conns s1 c) \<and> guessed then
            (case list_and_borrow env readMode (pool_Return c s1) of
               (Inl e, s2) \<Rightarrow> (Inl e, s2)
             | (Inr (c', _), s2) \<Rightarrow> select_or_return env c' s2)
          else select_or_return env c s1)"

section \<open>Bookmarks\<close>

definition retrieveBookmarks :: "'c senv \<Rightarrow> nat \<Rightarrow> string list \<Rightarrow> 'c session \<Rightarrow> goerr option \<times> 'c session" where
  "retrieveBookmarks env c sent s =
     (case replaceBookmarks (en_consume env) sent (op_Bookmark (en_ops env) (se_conns s c)) (se_bookmarks s) of
        (e, sb) \<Rightarrow> (e, s\<lparr>se_bookmarks := sb\<rparr>))"

definition LastBookmarks :: "'c senv \<Rightarrow> 'c session \<Rightarrow> string list \<times> 'c session" where
  "LastBookmarks env s =
     (let s1 = (case autocommitTx s of
                  None \<Rightarrow> s
                | Some tx \<Rightarrow> s\<lparr>se_bookmarks :=
                    replaceSessionBookmarks (op_Bookmark (en_ops env) (se_conns s (at_conn tx))) (se_bookmarks s)\<rparr>)
      in (sb_bookmarks (se_bookmarks s1), s1))"

section \<open>Transactions\<close>

definition tx_state :: "'c session \<Rightarrow> nat \<Rightarrow> transactionState" where
  "tx_state s t = (if t < length (se_txs s) then se_txs s ! t else \<lparr>ts_err = None, ts_handlers = []\<rparr>)"

definition upd_tx :: "nat \<Rightarrow> (transactionState \<Rightarrow> transactionState) \<Rightarrow> 'c session \<Rightarrow> 'c session" where
  "upd_tx t f s = s\<lparr>se_txs := (se_txs s)[t := f (tx_state s t)]\<rparr>"

definition new_tx :: "transactionState \<Rightarrow> 'c session \<Rightarrow> nat \<times> 'c session" where
  "new_tx ts s = (length (se_txs s), s\<lparr>se_txs := se_txs s @ [ts]\<rparr>)"

definition new_result :: "nat \<Rightarrow> nat \<Rightarrow> nat \<Rightarrow> bool \<Rightarrow> string list \<Rightarrow> 'c session \<Rightarrow> nat \<times> 'c session" where
  "new_result c stream t hook bs s =
     (length (se_results s),
      s\<lparr>se_results := se_results s @ [\<lparr>sr_res = newResult stream hook, sr_conn = c, sr_tx = t, sr_bookmarks = bs\<rparr>]\<rparr>)"

text \<open>The function onClose of BeginTransaction.\<close>

definition onClose :: "'c senv \<Rightarrow> nat \<Rightarrow> 'c session \<Rightarrow> 'c session" where
  "onClose env k s =
     (let tx = se_etxs s ! k in
      case et_conn tx of
        None \<Rightarrow> s
      | Some c \<Rightarrow>
          (case retrieveBookmarks env c (et_bookmarks tx) s of
             (bookmarkErr, s1) \<Rightarrow>
               let s2 = upd_tx (et_state tx) (\<lambda>ts. ts\<lparr>ts_err := CombineAllErrors [ts_err ts, bookmarkErr]\<rparr>) (pool_Return c s1)
               in s2\<lparr>se_etxs := (se_etxs s2)[k := tx\<lparr>et_conn := None\<rparr>], explicitTx := None\<rparr>))"

definition upd_result :: "nat \<Rightarrow> (result \<Rightarrow> result) \<Rightarrow> 'c session \<Rightarrow> 'c session" where
  "upd_result j f s =
     (if j < length (se_results s)
      then s\<lparr>se_results := (se_results s)[j := (se_results s ! j)\<lparr>sr_res := f (sr_res (se_results s ! j))\<rparr>]\<rparr> else s)"

fun handle_error :: "'c senv \<Rightarrow> err_handler \<Rightarrow> 'c session \<Rightarrow> 'c session" where
  "handle_error env (OnClose k) s = onClose env k s"
| "handle_error env (OnResult j) s = upd_result j errorHandler s"

definition tx_onError :: "'c senv \<Rightarrow> nat \<Rightarrow> goerr \<Rightarrow> 'c session \<Rightarrow> 'c session" where
  "tx_onError env t err s =
     foldl (\<lambda>s h. handle_error env h s) (upd_tx t (\<lambda>ts. ts\<lparr>ts_err := Some err\<rparr>) s) (ts_handlers (tx_state s t))"

definition alreadyCompleted :: goerr where
  "alreadyCompleted =
     UsageError ''cannot use this transaction, because it has been committed or rolled back either because of an error or explicit termination''"

definition explicit_Run :: "'c senv \<Rightarrow> nat \<Rightarrow> string \<Rightarrow> gomap \<Rightarrow> 'c session \<Rightarrow> (goerr + nat) \<times> 'c session" where
  "explicit_Run env k cypher params s =
     (let tx = se_etxs s ! k; t = et_state tx in
      case et_conn tx of
        None \<Rightarrow> (Inl alreadyCompleted, s)
      | Some c \<Rightarrow>
          (case on_conn env c (op_RunTx (en_ops env) (et_handle tx) cypher params (en_fetchSize env)) s of
             (Inl e, s1) \<Rightarrow>
               let s2 = tx_onError env t e s1 in (Inl (the (WrapError (ts_err (tx_state s2 t)))), s2)
           | (Inr stream, s1) \<Rightarrow>
               (case new_result c stream t False [] s1 of
                  (j, s2) \<Rightarrow> (Inr j, upd_tx t (\<lambda>ts. ts\<lparr>ts_handlers := ts_handlers ts @ [OnResult j]\<rparr>) s2))))"

definition explicit_Commit :: "'c senv \<Rightarrow> nat \<Rightarrow> 'c session \<Rightarrow> goerr option \<times> 'c session" where
  "explicit_Commit env k s =
     (let tx = se_etxs s ! k; t = et_state tx in
      if ts_err (tx_state s t) \<noteq> None then (Some alreadyCompleted, s)
      else
        case et_conn tx of
          None \<Rightarrow> (Some alreadyCompleted, s)
        | Some c \<Rightarrow>
            (case on_conn env c (op_TxCommit (en_ops env) (et_handle tx)) s of
               (e, s1) \<Rightarrow>
                 let s2 = onClose env k (upd_tx t (\<lambda>ts. ts\<lparr>ts_err := e\<rparr>) s1)
                 in (WrapError (ts_err (tx_state s2 t)), s2)))"

definition explicit_Rollback :: "'c senv \<Rightarrow> nat \<Rightarrow> 'c session \<Rightarrow> goerr option \<times> 'c session" where
  "explicit_Rollback env k s =
     (let tx = se_etxs s ! k; t = et_state tx in
      if ts_err (tx_state s t) \<noteq> None then (None, s)
      else
        case et_conn tx of
          None \<Rightarrow> (Some alreadyCompleted, s)
        | Some c \<Rightarrow>
            let (e, s1) = (if \<not> op_IsAlive (en_ops env) (se_conns s c) \<or> op_HasFailed (en_ops env) (se_conns s c)
                           then (None, s) else on_conn env c (op_TxRollback (en_ops env) (et_handle tx)) s);
                s2 = onClose env k (upd_tx t (\<lambda>ts. ts\<lparr>ts_err := e\<rparr>) s1)
            in (WrapError (ts_err (tx_state s2 t)), s2))"

definition explicit_Close :: "'c senv \<Rightarrow> nat \<Rightarrow> 'c session \<Rightarrow> goerr option \<times> 'c session" where
  "explicit_Close env k s = (if et_conn (se_etxs s ! k) = None then (None, s) else explicit_Rollback env k s)"

section \<open>Results within a session\<close>

text \<open>
  A method of result.go called on the result \<open>j\<close>, with the effects that leave the cursor: the error handlers of the
  transaction and the hook, which retrieves the bookmarks and only logs its error.
\<close>

definition on_result :: "'c senv \<Rightarrow> nat \<Rightarrow> ('c cursor \<Rightarrow> 'a \<times> 'c cursor) \<Rightarrow> 'c session \<Rightarrow> 'a \<times> 'c session" where
  "on_result env j f s =
     (let r = se_results s ! j in
      case on_conn env (sr_conn r) (\<lambda>c. case f (at_cursor (sr_res r) c) of (x, k) \<Rightarrow> ((x, k), cu_conn k)) s of
        ((x, k), s1) \<Rightarrow>
          let s2 = upd_result j (\<lambda>_. cu_res k) s1;
              s3 = foldl (\<lambda>s e. tx_onError env (sr_tx r) e s) s2 (cu_txErrs k)
          in (x, if cu_hooked k then snd (retrieveBookmarks env (sr_conn r) (sr_bookmarks r) s3) else s3))"

definition autocommit_done :: "'c senv \<Rightarrow> autocommitTransaction \<Rightarrow> 'c session \<Rightarrow> 'c session" where
  "autocommit_done env tx s =
     (if at_closed tx then s
      else
        let s1 = snd (on_result env (at_res tx) (\<lambda>k. ((), result_buffer (cursor_ops.truncate (en_ops env)) k)) s)
        in (pool_Return (at_conn tx) s1)\<lparr>autocommitTx := None\<rparr>)"

definition autocommit_discard :: "'c senv \<Rightarrow> autocommitTransaction \<Rightarrow> 'c session \<Rightarrow> 'c session" where
  "autocommit_discard env tx s =
     (if at_closed tx then s
      else
        let s1 = snd (on_result env (at_res tx) (result_Consume (cursor_ops.truncate (en_ops env))) s)
        in (pool_Return (at_conn tx) s1)\<lparr>autocommitTx := None\<rparr>)"

text \<open>The auto-commit transaction that is still open is finished before anything else starts.\<close>

definition finish_autocommit :: "'c senv \<Rightarrow> 'c session \<Rightarrow> 'c session" where
  "finish_autocommit env s = (case autocommitTx s of None \<Rightarrow> s | Some tx \<Rightarrow> autocommit_done env tx s)"

section \<open>The operations of a session\<close>

definition closedSession :: goerr where
  "closedSession = UsageError ''Operation attempted on a closed session''"

definition pendingTx :: goerr where
  "pendingTx = UsageError ''Session already has a pending transaction''"

definition autoInExplicit :: goerr where
  "autoInExplicit = UsageError ''Trying to run auto-commit transaction while in explicit transaction''"

record transactionConfig =
  tc_Timeout :: int64
  tc_Metadata :: gomap

definition defaultTransactionConfig :: transactionConfig where
  "defaultTransactionConfig = \<lparr>tc_Timeout = - 0x8000000000000000, tc_Metadata = []\<rparr>"

text \<open>The message goes on with the number.\<close>

definition validateTransactionConfig :: "transactionConfig \<Rightarrow> goerr option" where
  "validateTransactionConfig c =
     (if tc_Timeout c \<noteq> - 0x8000000000000000 \<and> sint (tc_Timeout c) < 0
      then Some (UsageError ''Negative transaction timeouts are not allowed.'') else None)"

definition tx_config :: "'c senv \<Rightarrow> bool \<Rightarrow> string list \<Rightarrow> transactionConfig \<Rightarrow> txConfig" where
  "tx_config env readMode bs c =
     \<lparr>is_read = readMode, tx_bookmarks = bs, tx_timeout = tc_Timeout c, tx_imp_user = en_impersonated env,
      tx_meta = tc_Metadata c, tx_notifications = en_notifications env\<rparr>"

definition send_telemetry :: "'c senv \<Rightarrow> bool \<Rightarrow> int \<Rightarrow> nat \<Rightarrow> 'c session \<Rightarrow> 'c session" where
  "send_telemetry env want api c s = (if want then snd (on_conn env c (\<lambda>x. ((), op_Telemetry (en_ops env) api x)) s) else s)"

definition BeginTransaction :: "'c senv \<Rightarrow> transactionConfig \<Rightarrow> 'c session \<Rightarrow> (goerr + nat) \<times> 'c session" where
  "BeginTransaction env cfg s =
     (if se_closed s then (Inl closedSession, s)
      else if explicitTx s \<noteq> None then (Inl pendingTx, s)
      else
        let s1 = finish_autocommit env s in
        case validateTransactionConfig cfg of
          Some e \<Rightarrow> (Inl e, s1)
        | None \<Rightarrow>
            (case getConnection env (en_readMode env) s1 of
               (Inl e, s2) \<Rightarrow> (Inl (the (WrapError (Some e))), s2)
             | (Inr c, s2) \<Rightarrow>
                 let s3 = send_telemetry env (\<not> en_telemetryDisabled env) 1 c s2 in
                 (case session_bookmarks env s3 of
                    Inl e \<Rightarrow> (Inl (the (WrapError (Some e))), pool_Return c s3)
                  | Inr bs \<Rightarrow>
                      (case on_conn env c (op_TxBegin (en_ops env) (tx_config env (en_readMode env) bs cfg) True) s3 of
                         (Inl e, s4) \<Rightarrow> (Inl (the (WrapError (Some e))), pool_Return c s4)
                       | (Inr h, s4) \<Rightarrow>
                           let k = length (se_etxs s4); (t, s5) = new_tx \<lparr>ts_err = None, ts_handlers = [OnClose k]\<rparr> s4
                           in (Inr k, s5\<lparr>se_etxs := se_etxs s5 @ [\<lparr>et_conn = Some c, et_handle = h, et_state = t, et_bookmarks = bs\<rparr>],
                                explicitTx := Some k\<rparr>)))))"

text \<open>errors.As looks through the wrapped errors.\<close>

definition isIdempotent :: "goerr \<Rightarrow> bool" where
  "isIdempotent err =
     (case as_neo4j err of
        None \<Rightarrow> False
      | Some n \<Rightarrow>
          (case GqlDiagnosticRecord (core n) of
             None \<Rightarrow> False
           | Some m \<Rightarrow> map_of m ''_idempotent'' = Some (VBool True)))"

text \<open>One round of the loop of Run; \<open>attempt\<close> counts the rounds, \<open>resolved\<close> is telemetryResolved.\<close>

datatype run_step = RunDone "goerr + nat" | RunAgain bool

definition run_attempt :: "'c senv \<Rightarrow> string \<Rightarrow> gomap \<Rightarrow> transactionConfig \<Rightarrow> bool \<Rightarrow> bool \<Rightarrow> 'c session \<Rightarrow> run_step \<times> 'c session" where
  "run_attempt env cypher params cfg first resolved s =
     (case getConnection env (en_readMode env) s of
        (Inl e, s1) \<Rightarrow> (RunDone (Inl (the (WrapError (Some e)))), s1)
      | (Inr c, s1) \<Rightarrow>
          let s2 = send_telemetry env (\<not> resolved) 2 c s1 in
          (case session_bookmarks env s2 of
             Inl e \<Rightarrow> (RunDone (Inl (the (WrapError (Some e)))), pool_Return c s2)
           | Inr bs \<Rightarrow>
               (case on_conn env c (op_Run (en_ops env) cypher params (en_fetchSize env) (tx_config env (en_readMode env) bs cfg)) s2 of
                  (Inl e, s3) \<Rightarrow>
                    let resolved' = resolved \<or> op_telemetryDone (en_ops env) (se_conns s3 c); s4 = pool_Return c s3 in
                    if \<not> en_disableRetries env \<and> first \<and> resolved' \<and> isIdempotent e then (RunAgain resolved', s4)
                    else (RunDone (Inl (the (WrapError (Some e)))), s4)
                | (Inr stream, s3) \<Rightarrow>
                    let (t, s4) = new_tx \<lparr>ts_err = None, ts_handlers = []\<rparr> s3; (j, s5) = new_result c stream t True bs s4
                    in (RunDone (Inr j), s5\<lparr>autocommitTx := Some \<lparr>at_conn = c, at_res = j, at_closed = False\<rparr>\<rparr>))))"

text \<open>The loop; it goes round again after its first attempt only.\<close>

lemma RunAgain_first: "(RunAgain r, s1) = run_attempt env cypher params cfg first resolved s \<Longrightarrow> first"
  by (auto simp: run_attempt_def Let_def split: prod.splits sum.splits if_splits)

function run_loop :: "'c senv \<Rightarrow> string \<Rightarrow> gomap \<Rightarrow> transactionConfig \<Rightarrow> bool \<Rightarrow> bool \<Rightarrow> 'c session \<Rightarrow> (goerr + nat) \<times> 'c session" where
  "run_loop env cypher params cfg first resolved s =
     (case run_attempt env cypher params cfg first resolved s of
        (RunDone r, s1) \<Rightarrow> (r, s1)
      | (RunAgain resolved', s1) \<Rightarrow> run_loop env cypher params cfg False resolved' s1)"
  by pat_completeness auto
termination
  by (relation "measure (\<lambda>(_, _, _, _, first, _, _). if first then 1 else 0)") (auto dest: RunAgain_first)

declare run_loop.simps [simp del]

definition session_Run :: "'c senv \<Rightarrow> string \<Rightarrow> gomap \<Rightarrow> transactionConfig \<Rightarrow> 'c session \<Rightarrow> (goerr + nat) \<times> 'c session" where
  "session_Run env cypher params cfg s =
     (if se_closed s then (Inl closedSession, s)
      else if explicitTx s \<noteq> None then (Inl autoInExplicit, s)
      else
        let s1 = finish_autocommit env s in
        case validateTransactionConfig cfg of
          Some e \<Rightarrow> (Inl e, s1)
        | None \<Rightarrow> run_loop env cypher params cfg True (en_telemetryDisabled env) s1)"

text \<open>
  The work of a transaction function: the queries it runs on the managed transaction and the methods it calls on the
  results of the session, and what it returns.
\<close>

datatype rcall = RNext | RPeek | RCollect nat | RSingle | RConsume

definition result_call :: "'c senv \<Rightarrow> nat \<Rightarrow> rcall \<Rightarrow> 'c session \<Rightarrow> 'c session" where
  "result_call env j q s =
     (let ops = cursor_ops.truncate (en_ops env) in
      if \<not> j < length (se_results s) then s
      else case q of
        RNext \<Rightarrow> snd (on_result env j (result_Next ops) s)
      | RPeek \<Rightarrow> snd (on_result env j (result_Peek ops) s)
      | RCollect n \<Rightarrow> snd (on_result env j (result_Records ops n) s)
      | RSingle \<Rightarrow> snd (on_result env j (result_Single ops) s)
      | RConsume \<Rightarrow> snd (on_result env j (result_Consume ops) s))"

datatype work_step = WRun string gomap | WResult nat rcall

definition managed_Run :: "'c senv \<Rightarrow> nat \<Rightarrow> int \<Rightarrow> nat \<Rightarrow> string \<Rightarrow> gomap \<Rightarrow> 'c session \<Rightarrow> (goerr + nat) \<times> 'c session" where
  "managed_Run env c h t cypher params s =
     (case on_conn env c (op_RunTx (en_ops env) h cypher params (en_fetchSize env)) s of
        (Inl e, s1) \<Rightarrow> (Inl (the (WrapError (Some e))), s1)
      | (Inr stream, s1) \<Rightarrow> (case new_result c stream t False [] s1 of (j, s2) \<Rightarrow> (Inr j, s2)))"

text \<open>
  What the function of the user does with its transaction, up to its return; a function that panics is not modelled: the
  deferred calls then run and the panic goes on to the caller.
\<close>

fun run_work :: "'c senv \<Rightarrow> nat \<Rightarrow> int \<Rightarrow> nat \<Rightarrow> work_step list \<Rightarrow> 'c session \<Rightarrow> 'c session" where
  "run_work env c h t [] s = s"
| "run_work env c h t (WRun cypher params # ws) s = run_work env c h t ws (snd (managed_Run env c h t cypher params s))"
| "run_work env c h t (WResult j q # ws) s = run_work env c h t ws (result_call env j q s)"

text \<open>One attempt of a transaction function; the deferred Return runs on every way out.\<close>

definition session_executeTransactionFunction ::
  "'c senv \<Rightarrow> bool \<Rightarrow> transactionConfig \<Rightarrow> work_step list \<Rightarrow> goerr option \<Rightarrow> bool \<Rightarrow> bool \<Rightarrow> int \<Rightarrow> rstate \<Rightarrow> 'c session \<Rightarrow>
   (bool \<times> rstate \<times> bool) \<times> 'c session" where
  "session_executeTransactionFunction env readMode cfg work ret blocking sent api st s =
     (let alive = (\<lambda>c s. Some (op_IsAlive (en_ops env) (se_conns s c))) in
      case getConnection env readMode s of
        (Inl e, s1) \<Rightarrow> ((False, OnFailure e None False st, sent), s1)
      | (Inr c, s1) \<Rightarrow>
          let s2 = send_telemetry env (\<not> en_telemetryDisabled env \<and> \<not> sent) api c s1;
              sent' = (\<lambda>s. sent \<or> \<not> en_telemetryDisabled env \<and> op_telemetryDone (en_ops env) (se_conns s c)) in
          (case session_bookmarks env s2 of
             Inl e \<Rightarrow> ((False, OnFailure e (alive c s2) False st, sent' s2), pool_Return c s2)
           | Inr bs \<Rightarrow>
               (case on_conn env c (op_TxBegin (en_ops env) (tx_config env readMode bs cfg) blocking) s2 of
                  (Inl e, s3) \<Rightarrow> ((False, OnFailure e (alive c s3) False st, sent' s3), pool_Return c s3)
                | (Inr h, s3) \<Rightarrow>
                    let (t, s4) = new_tx \<lparr>ts_err = None, ts_handlers = []\<rparr> s3; s5 = run_work env c h t work s4 in
                    (case ret of
                       Some e \<Rightarrow> ((False, OnFailure e (alive c s5) False st, sent' s5), pool_Return c s5)
                     | None \<Rightarrow>
                         (case on_conn env c (op_TxCommit (en_ops env) h) s5 of
                            (Some e, s6) \<Rightarrow> ((False, OnFailure e (alive c s6) True st, sent' s6), pool_Return c s6)
                          | (None, s6) \<Rightarrow>
                              ((True, st, sent' s6), pool_Return c (snd (retrieveBookmarks env c bs s6))))))))"

text \<open>
  The loop, on the rounds as they come: what Continue reads, and what the work does in this round. \<^const>\<open>None\<close>: the
  rounds are fewer than the run takes.
\<close>

fun retry_rounds :: "'c senv \<Rightarrow> bool \<Rightarrow> transactionConfig \<Rightarrow> bool \<Rightarrow> int \<Rightarrow> (cenv \<times> work_step list \<times> goerr option) list \<Rightarrow>
  bool \<Rightarrow> rstate \<Rightarrow> 'c session \<Rightarrow> goerr option option option \<times> 'c session" where
  "retry_rounds env readMode cfg blocking api [] sent st s = (None, s)"
| "retry_rounds env readMode cfg blocking api ((v, work, ret) # rounds) sent st s =
     (case Continue v st of
        (False, st1) \<Rightarrow> (Some (ProduceError st1), s)
      | (True, st1) \<Rightarrow>
          (case session_executeTransactionFunction env readMode cfg work ret blocking sent api st1 s of
             ((True, _, _), s1) \<Rightarrow> (Some (Some None), s1)
           | ((False, st2, sent'), s1) \<Rightarrow> retry_rounds env readMode cfg blocking api rounds sent' st2 s1))"

definition session_runRetriable :: "'c senv \<Rightarrow> bool \<Rightarrow> transactionConfig \<Rightarrow> bool \<Rightarrow> int \<Rightarrow>
  (cenv \<times> work_step list \<times> goerr option) list \<Rightarrow> rstate \<Rightarrow> 'c session \<Rightarrow> goerr option option option \<times> 'c session" where
  "session_runRetriable env readMode cfg blocking api rounds st s =
     (if se_closed s then (Some (Some (Some closedSession)), s)
      else if explicitTx s \<noteq> None then (Some (Some (Some pendingTx)), s)
      else
        let s1 = finish_autocommit env s in
        case validateTransactionConfig cfg of
          Some e \<Rightarrow> (Some (Some (Some e)), s1)
        | None \<Rightarrow> retry_rounds env readMode cfg blocking api rounds False st s1)"

text \<open>The four ways in: the access mode, whether BEGIN waits for its answer, and the number of the API for telemetry.\<close>

definition ExecuteRead :: "'c senv \<Rightarrow> transactionConfig \<Rightarrow> (cenv \<times> work_step list \<times> goerr option) list \<Rightarrow> rstate \<Rightarrow>
  'c session \<Rightarrow> goerr option option option \<times> 'c session" where
  "ExecuteRead env cfg rounds st s = session_runRetriable env True cfg True 0 rounds st s"

definition ExecuteWrite :: "'c senv \<Rightarrow> transactionConfig \<Rightarrow> (cenv \<times> work_step list \<times> goerr option) list \<Rightarrow> rstate \<Rightarrow>
  'c session \<Rightarrow> goerr option option option \<times> 'c session" where
  "ExecuteWrite env cfg rounds st s = session_runRetriable env False cfg True 0 rounds st s"

definition executeQueryRead :: "'c senv \<Rightarrow> transactionConfig \<Rightarrow> (cenv \<times> work_step list \<times> goerr option) list \<Rightarrow> rstate \<Rightarrow>
  'c session \<Rightarrow> goerr option option option \<times> 'c session" where
  "executeQueryRead env cfg rounds st s = session_runRetriable env True cfg False 3 rounds st s"

definition executeQueryWrite :: "'c senv \<Rightarrow> transactionConfig \<Rightarrow> (cenv \<times> work_step list \<times> goerr option) list \<Rightarrow> rstate \<Rightarrow>
  'c session \<Rightarrow> goerr option option option \<times> 'c session" where
  "executeQueryWrite env cfg rounds st s = session_runRetriable env False cfg False 3 rounds st s"

definition session_Close :: "'c senv \<Rightarrow> 'c session \<Rightarrow> goerr option \<times> 'c session" where
  "session_Close env s =
     (if se_closed s then (None, s)
      else
        let (txErr, s1) = (case explicitTx s of None \<Rightarrow> (None, s) | Some k \<Rightarrow> explicit_Close env k s);
            s2 = (case autocommitTx s1 of None \<Rightarrow> s1 | Some tx \<Rightarrow> autocommit_discard env tx s1)
        in (txErr, (logged EvRouterCleanUp (logged EvPoolCleanUp s2))\<lparr>se_closed := True\<rparr>))"

text \<open>Borrow and return, for the servers of the table: what getServerInfo and verifyAuthentication end with.\<close>

definition borrow_once :: "'c senv \<Rightarrow> 'c session \<Rightarrow> (goerr + nat) \<times> 'c session" where
  "borrow_once env s =
     (case getOrUpdateServers env True False False s of
        (Inl e, s1) \<Rightarrow> (Inl (the (WrapError (Some e))), s1)
      | (Inr l, s1) \<Rightarrow>
          (case borrowConnection env (en_readers env (se_log s1) (se_databaseName s1)) s1 of
             (Inl e, s2) \<Rightarrow> (Inl (the (WrapError (Some e))), s2)
           | (Inr c, s2) \<Rightarrow> (Inr c, pool_Return c s2)))"

definition getServerInfo :: "'c senv \<Rightarrow> 'c session \<Rightarrow> (goerr + string) \<times> 'c session" where
  "getServerInfo env s =
     (case resolveHomeDatabase env s of
        (Some e, s1) \<Rightarrow> (Inl (the (WrapError (Some e))), s1)
      | (None, s1) \<Rightarrow>
          (case borrow_once env s1 of
             (Inl e, s2) \<Rightarrow> (Inl e, s2)
           | (Inr c, s2) \<Rightarrow> (Inr (op_ServerName (en_ops env) (se_conns s2 c)), s2)))"

definition verifyAuthentication :: "'c senv \<Rightarrow> 'c session \<Rightarrow> goerr option \<times> 'c session" where
  "verifyAuthentication env s =
     (case borrow_once env s of (Inl e, s1) \<Rightarrow> (Some e, s1) | (Inr _, s1) \<Rightarrow> (None, s1))"

end
