(* ===== verification/SessionProps.thy ===== *)
theory SessionProps
  imports Session
begin

text \<open>
  What a session owns: the connections it has borrowed and not returned are those of its open explicit transaction
  and its open auto-commit transaction, whatever the program calls, in whatever order, and however the calls of the
  pool, the router and the connections end.
\<close>

section \<open>The connections that are out\<close>

fun held_step :: "event \<Rightarrow> nat list \<Rightarrow> nat list" where
  "held_step (EvBorrowed c) cs = c # cs"
| "held_step (EvReturn c) cs = remove1 c cs"
| "held_step _ cs = cs"

definition held :: "event list \<Rightarrow> nat list" where
  "held l = fold held_step l []"

text \<open>No connection is returned that is not out.\<close>

definition ret_ok :: "event list \<Rightarrow> bool" where
  "ret_ok l \<longleftrightarrow> (\<forall>l1 c l2. l = l1 @ EvReturn c # l2 \<longrightarrow> c \<in> set (held l1))"

definition ret_step :: "event \<Rightarrow> nat list \<Rightarrow> bool" where
  "ret_step ev cs = (case ev of EvReturn c \<Rightarrow> c \<in> set cs | _ \<Rightarrow> True)"

lemma held_Nil [simp]: "held [] = []"
  by (simp add: held_def)

lemma held_snoc [simp]: "held (l @ [ev]) = held_step ev (held l)"
  by (simp add: held_def)

lemma ret_ok_Nil [simp]: "ret_ok []"
  by (simp add: ret_ok_def)

lemma ret_ok_snoc [simp]: "ret_ok (l @ [ev]) \<longleftrightarrow> ret_ok l \<and> ret_step ev (held l)"
proof
  assume r: "ret_ok (l @ [ev])"
  have "ret_ok l" unfolding ret_ok_def
  proof (intro allI impI)
    fix l1 c l2 assume "l = l1 @ EvReturn c # l2"
    then have "l @ [ev] = l1 @ EvReturn c # (l2 @ [ev])" by simp
    then show "c \<in> set (held l1)" using r unfolding ret_ok_def by blast
  qed
  moreover have "ret_step ev (held l)" using r by (auto simp: ret_ok_def ret_step_def split: event.split)
  ultimately show "ret_ok l \<and> ret_step ev (held l)" ..
next
  assume r: "ret_ok l \<and> ret_step ev (held l)"
  show "ret_ok (l @ [ev])" unfolding ret_ok_def
  proof (intro allI impI)
    fix l1 c l2 assume e: "l @ [ev] = l1 @ EvReturn c # l2"
    show "c \<in> set (held l1)"
    proof (cases l2 rule: rev_cases)
      case Nil
      with e r show ?thesis by (simp add: ret_step_def)
    next
      case (snoc l3 x)
      with e have "l = l1 @ EvReturn c # l3" by simp
      with r show ?thesis unfolding ret_ok_def by blast
    qed
  qed
qed

text \<open>The pool hands out only connections that are not out: this is \<open>pool_no_sharing\<close>.\<close>

definition honest :: "'c senv \<Rightarrow> bool" where
  "honest env \<longleftrightarrow> (\<forall>l c st. en_borrow env l = Inr (c, st) \<longrightarrow> c \<notin> set (held l))"

section \<open>Ownership\<close>

definition open_conns :: "'c session \<Rightarrow> nat list" where
  "open_conns s =
     (case explicitTx s of
        None \<Rightarrow> []
      | Some k \<Rightarrow> (case et_conn (se_etxs s ! k) of None \<Rightarrow> [] | Some c \<Rightarrow> [c])) @
     (case autocommitTx s of None \<Rightarrow> [] | Some tx \<Rightarrow> [at_conn tx])"

text \<open>The links between the heaps: the explicit transactions, their states and the handlers of the states.\<close>

definition closes :: "'c session \<Rightarrow> nat \<Rightarrow> nat set" where
  "closes s t = {k. OnClose k \<in> set (ts_handlers (se_txs s ! t))}"

definition linked :: "'c session \<Rightarrow> bool" where
  "linked s \<longleftrightarrow>
     (\<forall>k < length (se_etxs s). et_state (se_etxs s ! k) < length (se_txs s)) \<and>
     (\<forall>t < length (se_txs s). closes s t = {k. k < length (se_etxs s) \<and> et_state (se_etxs s ! k) = t})"

definition current :: "'c session \<Rightarrow> bool" where
  "current s \<longleftrightarrow>
     (\<forall>k < length (se_etxs s). et_conn (se_etxs s ! k) \<noteq> None \<longrightarrow> explicitTx s = Some k) \<and>
     (\<forall>k. explicitTx s = Some k \<longrightarrow> k < length (se_etxs s) \<and> et_conn (se_etxs s ! k) \<noteq> None) \<and>
     (explicitTx s = None \<or> autocommitTx s = None) \<and>
     (\<forall>tx. autocommitTx s = Some tx \<longrightarrow> \<not> at_closed tx \<and> at_res tx < length (se_results s))"

text \<open>\<open>X\<close>: the connections of the operation that is running.\<close>

definition owns :: "nat list \<Rightarrow> 'c session \<Rightarrow> bool" where
  "owns X s \<longleftrightarrow> ret_ok (se_log s) \<and> distinct (held (se_log s)) \<and> set (held (se_log s)) = set (open_conns s @ X) \<and>
     distinct (open_conns s @ X) \<and> linked s \<and> current s"

text \<open>What ownership depends on.\<close>

definition view :: "'c session \<Rightarrow> nat list \<times> bool \<times> explicitTransaction list \<times> nat option \<times> autocommitTransaction option \<times>
  transactionState list \<times> nat \<times> bool" where
  "view s = (held (se_log s), ret_ok (se_log s), se_etxs s, explicitTx s, autocommitTx s, se_txs s, length (se_results s), se_closed s)"

lemma owns_view: "view s = view s' \<Longrightarrow> owns X s = owns X s'"
proof -
  assume "view s = view s'"
  then have e: "held (se_log s) = held (se_log s')" "ret_ok (se_log s) = ret_ok (se_log s')" "se_etxs s = se_etxs s'"
    "explicitTx s = explicitTx s'" "autocommitTx s = autocommitTx s'" "se_txs s = se_txs s'"
    "length (se_results s) = length (se_results s')"
    by (simp_all add: view_def)
  show ?thesis unfolding owns_def open_conns_def linked_def closes_def current_def e by (rule refl)
qed

definition quiet :: "event \<Rightarrow> bool" where
  "quiet ev = (case ev of EvBorrowed _ \<Rightarrow> False | EvReturn _ \<Rightarrow> False | _ \<Rightarrow> True)"

lemma view_logged [simp]: "quiet ev \<Longrightarrow> view (logged ev s) = view s"
  by (cases ev) (simp_all add: view_def logged_def quiet_def ret_step_def)

lemma view_pin [simp]: "view (pinHomeDatabase env db s) = view s"
proof -
  have "view (s\<lparr>homeDbGuess := a, se_databaseName := b, resolveHomeDb := c\<rparr>) = view s" for a b c and s :: "'a session"
    by (simp add: view_def)
  then show ?thesis by (simp add: pinHomeDatabase_def Let_def quiet_def split: sum.split)
qed

lemma view_pins [simp]: "view (foldl (\<lambda>s db. pinHomeDatabase env db s) s dbs) = view s"
  by (induction dbs arbitrary: s) simp_all

lemma view_conns [simp]: "view (s\<lparr>se_conns := f\<rparr>) = view s"
  by (simp add: view_def)

lemma view_on_conn [simp]: "on_conn env c f s = (x, s') \<Longrightarrow> view s' = view s"
  by (auto simp: on_conn_def split: prod.splits)

lemma view_bookmarks [simp]: "retrieveBookmarks env c bs s = (e, s') \<Longrightarrow> view s' = view s"
  by (auto simp: retrieveBookmarks_def view_def split: prod.splits)

lemma view_upd_result [simp]: "view (upd_result j f s) = view s"
  by (simp add: upd_result_def view_def)

lemma view_telemetry [simp]: "view (send_telemetry env w api c s) = view s"
  by (cases "on_conn env c (\<lambda>x. ((), op_Telemetry (en_ops env) api x)) s") (simp add: send_telemetry_def)

lemma view_servers [simp]: "getOrUpdateServers env m g p s = (r, s') \<Longrightarrow> view s' = view s"
  by (auto simp: getOrUpdateServers_def Let_def quiet_def split: prod.splits option.splits if_splits)

lemma view_resolve [simp]: "resolveHomeDatabase env s = (r, s') \<Longrightarrow> view s' = view s"
  by (auto simp: resolveHomeDatabase_def Let_def quiet_def split: sum.splits if_splits)

lemma view_serverList [simp]: "getServerList env m s = (r, s') \<Longrightarrow> view s' = view s"
  by (auto simp: getServerList_def split: prod.splits sum.splits option.splits if_splits)

lemma view_select [simp]: "selectDatabase env c s = (r, s') \<Longrightarrow> view s' = view s"
  by (auto simp: selectDatabase_def split: option.splits)

section \<open>Borrowing and returning\<close>

text \<open>What stays when connections are borrowed and returned.\<close>

definition frame :: "'c session \<Rightarrow> explicitTransaction list \<times> nat option \<times> autocommitTransaction option \<times>
  transactionState list \<times> nat \<times> bool" where
  "frame s = (se_etxs s, explicitTx s, autocommitTx s, se_txs s, length (se_results s), se_closed s)"

lemma view_frame: "view s = view s' \<Longrightarrow> frame s = frame s'"
  by (simp add: view_def frame_def)

lemma frame_owns:
  assumes "frame s' = frame s"
  shows "open_conns s' = open_conns s" "linked s' = linked s" "current s' = current s"
proof -
  have e: "se_etxs s' = se_etxs s" "explicitTx s' = explicitTx s" "autocommitTx s' = autocommitTx s" "se_txs s' = se_txs s"
    "length (se_results s') = length (se_results s)"
    using assms by (simp_all add: frame_def)
  show "open_conns s' = open_conns s" "linked s' = linked s" "current s' = current s"
    unfolding open_conns_def linked_def closes_def current_def e by (rule refl)+
qed

lemma frame_Return [simp]: "frame (pool_Return c s) = frame s"
  by (simp add: frame_def pool_Return_def logged_def)

lemma owns_Return: "owns (c # X) s \<Longrightarrow> owns X (pool_Return c s)"
proof -
  assume o: "owns (c # X) s"
  have l: "se_log (pool_Return c s) = se_log s @ [EvReturn c]" by (simp add: pool_Return_def logged_def)
  show ?thesis using o unfolding owns_def frame_owns [OF frame_Return, of c s] l by (auto simp: ret_step_def)
qed

lemma owns_borrow:
  assumes "honest env" "owns X s" "borrowConnection env l s = (r, s')"
  shows "frame s' = frame s" "case r of Inl _ \<Rightarrow> owns X s' | Inr c \<Rightarrow> owns (c # X) s'"
proof -
  let ?s1 = "logged (EvBorrow l) s"
  have v: "view ?s1 = view s" by (simp add: quiet_def)
  have f: "frame s' = frame s"
    using assms(3) by (auto simp: borrowConnection_def Let_def logged_def frame_def split: sum.splits)
  have "case r of Inl _ \<Rightarrow> owns X s' | Inr c \<Rightarrow> owns (c # X) s'"
  proof (cases "en_borrow env (se_log ?s1)")
    case (Inl e)
    then show ?thesis using assms(2,3) owns_view [OF v] by (auto simp: borrowConnection_def Let_def)
  next
    case (Inr p)
    obtain c st where p: "p = (c, st)" by (cases p)
    have "c \<notin> set (held (se_log ?s1))" using assms(1) Inr p unfolding honest_def by blast
    then have c: "c \<notin> set (held (se_log s))" using v by (simp add: view_def)
    have r: "r = Inr c" "se_log s' = se_log s @ [EvBorrow l, EvBorrowed c]"
      using assms(3) Inr p by (auto simp: borrowConnection_def Let_def logged_def)
    have "held (se_log s @ [EvBorrow l, EvBorrowed c]) = c # held (se_log s)"
      "ret_ok (se_log s @ [EvBorrow l, EvBorrowed c]) = ret_ok (se_log s)"
      using held_snoc [of "se_log s @ [EvBorrow l]" "EvBorrowed c"] ret_ok_snoc [of "se_log s @ [EvBorrow l]" "EvBorrowed c"]
      by (simp_all add: ret_step_def)
    then show ?thesis using assms(2) c frame_owns [OF f] by (auto simp: owns_def r)
  qed
  with f show "frame s' = frame s" "case r of Inl _ \<Rightarrow> owns X s' | Inr c \<Rightarrow> owns (c # X) s'" by simp_all
qed

lemma owns_list_and_borrow:
  assumes "honest env" "owns X s" "list_and_borrow env m s = (r, s')"
  shows "frame s' = frame s" "case r of Inl _ \<Rightarrow> owns X s' | Inr (c, _) \<Rightarrow> owns (c # X) s'"
proof -
  obtain r1 s1 where 1: "getServerList env m s = (r1, s1)" by fastforce
  have o: "owns X s1" "frame s1 = frame s" using assms(2) owns_view view_frame view_serverList [OF 1] by metis+
  have "frame s' = frame s \<and> (case r of Inl _ \<Rightarrow> owns X s' | Inr (c, _) \<Rightarrow> owns (c # X) s')"
  proof (cases r1)
    case (Inl e)
    then show ?thesis using assms(3) o by (auto simp: list_and_borrow_def 1)
  next
    case (Inr p)
    obtain l g where p: "p = (l, g)" by (cases p)
    obtain r2 s2 where 2: "borrowConnection env l s1 = (r2, s2)" by fastforce
    show ?thesis using assms(3) owns_borrow [OF assms(1) o(1) 2] o(2) by (cases r2) (auto simp: list_and_borrow_def 1 Inr p 2)
  qed
  then show "frame s' = frame s" "case r of Inl _ \<Rightarrow> owns X s' | Inr (c, _) \<Rightarrow> owns (c # X) s'" by simp_all
qed

lemma owns_select:
  assumes "owns (c # X) s" "select_or_return env c s = (r, s')"
  shows "frame s' = frame s" "case r of Inl _ \<Rightarrow> owns X s' | Inr c' \<Rightarrow> owns (c' # X) s'"
proof -
  obtain e s1 where 1: "selectDatabase env c s = (e, s1)" by fastforce
  have o: "owns (c # X) s1" "frame s1 = frame s" using assms(1) owns_view view_frame view_select [OF 1] by metis+
  show "frame s' = frame s" "case r of Inl _ \<Rightarrow> owns X s' | Inr c' \<Rightarrow> owns (c' # X) s'"
    using assms o owns_Return [OF o(1)] by (auto simp: select_or_return_def 1 split: if_splits option.splits)
qed

lemma owns_getConnection:
  assumes "honest env" "owns X s" "getConnection env m s = (r, s')"
  shows "frame s' = frame s" "case r of Inl _ \<Rightarrow> owns X s' | Inr c \<Rightarrow> owns (c # X) s'"
proof -
  obtain r1 s1 where 1: "list_and_borrow env m s = (r1, s1)" by fastforce
  note o1 = owns_list_and_borrow [OF assms(1,2) 1]
  have "frame s' = frame s \<and> (case r of Inl _ \<Rightarrow> owns X s' | Inr c \<Rightarrow> owns (c # X) s')"
  proof (cases r1)
    case (Inl e)
    then show ?thesis using assms(3) o1 by (auto simp: getConnection_def 1)
  next
    case (Inr p)
    obtain c g where p: "p = (c, g)" by (cases p)
    have c: "owns (c # X) s1" using o1(2) Inr p by simp
    show ?thesis
    proof (cases "\<not> op_IsSsrEnabled (en_ops env) (se_conns s1 c) \<and> g")
      case False
      then have "select_or_return env c s1 = (r, s')" using assms(3) by (auto simp: getConnection_def 1 Inr p)
      from owns_select [OF c this] o1(1) show ?thesis by simp
    next
      case True
      obtain r2 s2 where 2: "list_and_borrow env m (pool_Return c s1) = (r2, s2)" by fastforce
      note o2 = owns_list_and_borrow [OF assms(1) owns_Return [OF c] 2]
      show ?thesis
      proof (cases r2)
        case (Inl e)
        then show ?thesis using True assms(3) o1(1) o2 by (auto simp: getConnection_def 1 Inr p 2)
      next
        case r2: (Inr q)
        obtain c' g' where q: "q = (c', g')" by (cases q)
        then have "select_or_return env c' s2 = (r, s')" using True assms(3) by (auto simp: getConnection_def 1 Inr p 2 r2)
        from owns_select [OF _ this, of X] o2 o1(1) r2 q show ?thesis by simp
      qed
    qed
  qed
  then show "frame s' = frame s" "case r of Inl _ \<Rightarrow> owns X s' | Inr c \<Rightarrow> owns (c # X) s'" by simp_all
qed

section \<open>Transactions\<close>

text \<open>An explicit transaction that still has its connection has not failed.\<close>

definition live :: "'c session \<Rightarrow> bool" where
  "live s \<longleftrightarrow> (\<forall>k < length (se_etxs s). et_conn (se_etxs s ! k) \<noteq> None \<longrightarrow> ts_err (se_txs s ! et_state (se_etxs s ! k)) = None)"

definition ok :: "nat list \<Rightarrow> 'c session \<Rightarrow> bool" where
  "ok X s \<longleftrightarrow> owns X s \<and> live s"

lemma live_frame: "frame s' = frame s \<Longrightarrow> live s' = live s"
  unfolding live_def frame_def by (metis prod.inject)

lemma ok_view: "view s = view s' \<Longrightarrow> ok X s = ok X s'"
  using owns_view [of s s' X] live_frame [OF view_frame, of s s'] by (simp add: ok_def)

lemma ok_Return: "ok (c # X) s \<Longrightarrow> ok X (pool_Return c s)"
  using live_frame [OF frame_Return] by (auto simp: ok_def owns_Return)

lemma ok_getConnection:
  assumes "honest env" "ok X s" "getConnection env m s = (r, s')"
  shows "frame s' = frame s" "case r of Inl _ \<Rightarrow> ok X s' | Inr c \<Rightarrow> ok (c # X) s'"
  using owns_getConnection [OF assms(1) _ assms(3)] assms(2) live_frame [of s' s]
  by (auto simp: ok_def split: sum.splits)

lemma Return_fields [simp]:
  "se_etxs (pool_Return c s) = se_etxs s" "se_txs (pool_Return c s) = se_txs s" "explicitTx (pool_Return c s) = explicitTx s"
  "autocommitTx (pool_Return c s) = autocommitTx s" "se_results (pool_Return c s) = se_results s"
  "se_closed (pool_Return c s) = se_closed s" "tx_state (pool_Return c s) t = tx_state s t"
  by (simp_all add: pool_Return_def logged_def tx_state_def)

lemma tx_state_etxs [simp]: "tx_state (s\<lparr>se_etxs := e, explicitTx := x\<rparr>) t = tx_state s t"
  by (simp add: tx_state_def)

lemma tx_state_in: "t < length (se_txs s) \<Longrightarrow> tx_state s t = se_txs s ! t"
  by (simp add: tx_state_def)

lemma upd_tx_fields [simp]:
  "se_log (upd_tx t f s) = se_log s" "se_etxs (upd_tx t f s) = se_etxs s" "explicitTx (upd_tx t f s) = explicitTx s"
  "autocommitTx (upd_tx t f s) = autocommitTx s" "se_results (upd_tx t f s) = se_results s"
  "length (se_txs (upd_tx t f s)) = length (se_txs s)" "se_conns (upd_tx t f s) = se_conns s"
  by (simp_all add: upd_tx_def)

lemma upd_tx_closed: "se_closed (upd_tx t f s) = se_closed s"
  by (simp add: upd_tx_def)

lemma upd_tx_nth: "u < length (se_txs s) \<Longrightarrow> se_txs (upd_tx t f s) ! u = (if u = t then f (se_txs s ! u) else se_txs s ! u)"
  by (simp add: upd_tx_def tx_state_def nth_list_update)

lemma owns_upd_tx:
  assumes "\<And>ts k. OnClose k \<in> set (ts_handlers (f ts)) \<longleftrightarrow> OnClose k \<in> set (ts_handlers ts)"
  shows "owns X (upd_tx t f s) \<longleftrightarrow> owns X s"
proof -
  have "closes (upd_tx t f s) u = closes s u" if "u < length (se_txs s)" for u
    using that assms by (simp add: closes_def upd_tx_nth)
  then have "linked (upd_tx t f s) \<longleftrightarrow> linked s" unfolding linked_def by simp
  moreover have "open_conns (upd_tx t f s) = open_conns s" "current (upd_tx t f s) = current s"
    unfolding open_conns_def current_def upd_tx_fields by (rule refl)+
  ultimately show ?thesis by (simp add: owns_def)
qed

lemma owns_set_err: "owns X (upd_tx t (\<lambda>ts. ts\<lparr>ts_err := e\<rparr>) s) \<longleftrightarrow> owns X s"
  and owns_set_errs: "owns X (upd_tx t (\<lambda>ts. ts\<lparr>ts_err := g ts\<rparr>) s) \<longleftrightarrow> owns X s"
  by (rule owns_upd_tx, simp)+

text \<open>The current explicit transaction is closed: nothing is out but the connections of the operation.\<close>

lemma current_unique: "current s \<Longrightarrow> i < length (se_etxs s) \<Longrightarrow> et_conn (se_etxs s ! i) \<noteq> None \<Longrightarrow> explicitTx s = Some i"
  unfolding current_def by blast

lemma owns_current:
  assumes "owns X s" "explicitTx s = Some k"
  obtains c where "k < length (se_etxs s)" "et_conn (se_etxs s ! k) = Some c" "open_conns s = [c]" "autocommitTx s = None"
    "set (held (se_log s)) = insert c (set X)" "c \<notin> set X" "distinct X"
proof -
  have cur: "current s" and h: "set (held (se_log s)) = set (open_conns s @ X)" "distinct (open_conns s @ X)"
    using assms(1) unfolding owns_def by blast+
  have k: "k < length (se_etxs s)" "et_conn (se_etxs s ! k) \<noteq> None" and a: "autocommitTx s = None"
    using cur assms(2) unfolding current_def by (blast, blast, metis option.distinct(1))
  from k(2) obtain c where c: "et_conn (se_etxs s ! k) = Some c" by blast
  have o: "open_conns s = [c]" by (simp add: open_conns_def assms(2) c a)
  show thesis using that [OF k(1) c o a] h unfolding o by simp
qed

lemma owns_close_current:
  assumes "owns X s" "explicitTx s = Some k" "et_conn (se_etxs s ! k) = Some c"
  shows "owns X ((pool_Return c s)\<lparr>se_etxs := (se_etxs s)[k := (se_etxs s ! k)\<lparr>et_conn := None\<rparr>], explicitTx := None\<rparr>)"
    (is "owns X ?s")
proof -
  have k: "k < length (se_etxs s)" and a: "autocommitTx s = None" and h: "set (held (se_log s)) = insert c (set X)" "c \<notin> set X"
    and d: "distinct X" by (rule owns_current [OF assms(1,2)]; use assms(3) in simp)+
  have log: "se_log ?s = se_log s @ [EvReturn c]" by (simp add: pool_Return_def logged_def)
  have o: "open_conns ?s = []" using a by (simp add: open_conns_def pool_Return_def logged_def)
  have st: "et_state ((se_etxs s)[k := (se_etxs s ! k)\<lparr>et_conn := None\<rparr>] ! i) = et_state (se_etxs s ! i)" for i
    using k by (cases "i = k") simp_all
  have lk: "linked s" "current s" using assms(1) unfolding owns_def by blast+
  have e: "se_etxs ?s = (se_etxs s)[k := (se_etxs s ! k)\<lparr>et_conn := None\<rparr>]" "se_txs ?s = se_txs s" "closes ?s = closes s"
    by (simp_all add: pool_Return_def logged_def closes_def fun_eq_iff)
  have "linked ?s" using lk(1) unfolding linked_def e st length_list_update .
  moreover have "et_conn ((se_etxs s)[k := (se_etxs s ! k)\<lparr>et_conn := None\<rparr>] ! i) = None" if "i < length (se_etxs s)" for i
    using that current_unique [OF lk(2), of i] assms(2) k by (cases "i = k"; cases "et_conn (se_etxs s ! i)") auto
  then have "current ?s" using a unfolding current_def by (simp add: pool_Return_def logged_def)
  moreover have "ret_ok (se_log s)" "distinct (held (se_log s))" using assms(1) unfolding owns_def by blast+
  ultimately show ?thesis using h d unfolding owns_def log o by (auto simp: ret_step_def)
qed

lemma live_no_conn: "owns X s \<Longrightarrow> explicitTx s = None \<Longrightarrow> live s"
  by (auto simp: owns_def current_def live_def)

lemma owns_onClose:
  assumes "owns X s" "k < length (se_etxs s)"
  shows "owns X (onClose env k s)" and "length (se_etxs (onClose env k s)) = length (se_etxs s)"
    and "autocommitTx (onClose env k s) = autocommitTx s" and "se_closed (onClose env k s) = se_closed s"
    and "et_conn (se_etxs s ! k) = None \<longrightarrow> onClose env k s = s" and "et_conn (se_etxs s ! k) \<noteq> None \<longrightarrow> explicitTx (onClose env k s) = None"
proof -
  let ?tx = "se_etxs s ! k"
  have "owns X (onClose env k s) \<and> length (se_etxs (onClose env k s)) = length (se_etxs s) \<and>
    autocommitTx (onClose env k s) = autocommitTx s \<and> se_closed (onClose env k s) = se_closed s"
  proof (cases "et_conn ?tx")
    case None
    then show ?thesis using assms(1) by (simp add: onClose_def)
  next
    case (Some c)
    obtain e s1 where b: "retrieveBookmarks env c (et_bookmarks ?tx) s = (e, s1)" by fastforce
    have s1: "se_etxs s1 = se_etxs s" "explicitTx s1 = explicitTx s" "autocommitTx s1 = autocommitTx s" "se_closed s1 = se_closed s"
      using b by (auto simp: retrieveBookmarks_def split: prod.splits)
    have o1: "owns X s1" using assms(1) owns_view [OF view_bookmarks [OF b]] by simp
    have "current s" using assms(1) unfolding owns_def by blast
    then have ex: "explicitTx s = Some k" using assms(2) Some by (simp add: current_unique)
    let ?s2 = "(pool_Return c s1)\<lparr>se_etxs := (se_etxs s1)[k := ?tx\<lparr>et_conn := None\<rparr>], explicitTx := None\<rparr>"
    have o2: "owns X ?s2" using owns_close_current [OF o1, of k c] ex Some s1 by simp
    have eq: "onClose env k s = upd_tx (et_state ?tx) (\<lambda>ts. ts\<lparr>ts_err := CombineAllErrors [ts_err ts, e]\<rparr>) ?s2"
      by (simp add: onClose_def Some b Let_def upd_tx_def s1(1))
    have "owns X (onClose env k s)" unfolding eq by (rule owns_set_errs [THEN iffD2, OF o2])
    then show ?thesis unfolding eq using s1 by (simp add: upd_tx_closed)
  qed
  then show "owns X (onClose env k s)" "length (se_etxs (onClose env k s)) = length (se_etxs s)"
    "autocommitTx (onClose env k s) = autocommitTx s" "se_closed (onClose env k s) = se_closed s" by simp_all
  show "et_conn ?tx = None \<longrightarrow> onClose env k s = s" by (simp add: onClose_def)
  show "et_conn ?tx \<noteq> None \<longrightarrow> explicitTx (onClose env k s) = None"
    by (auto simp: onClose_def Let_def split: prod.splits)
qed

text \<open>The error handlers of a transaction: they end with a live state although the transaction has failed.\<close>

lemma ok_handlers:
  assumes "owns X s" and "\<And>k. OnClose k \<in> set hs \<Longrightarrow> k < length (se_etxs s)"
    and "live s \<or> (\<exists>k. explicitTx s = Some k \<and> OnClose k \<in> set hs)"
  shows "ok X (foldl (\<lambda>s h. handle_error env h s) s hs) \<and>
    length (se_etxs (foldl (\<lambda>s h. handle_error env h s) s hs)) = length (se_etxs s) \<and>
    autocommitTx (foldl (\<lambda>s h. handle_error env h s) s hs) = autocommitTx s \<and>
    se_closed (foldl (\<lambda>s h. handle_error env h s) s hs) = se_closed s"
  using assms
proof (induction hs arbitrary: s)
  case Nil
  then show ?case by (auto simp: ok_def)
next
  case (Cons h hs)
  show ?case
  proof (cases h)
    case (OnResult j)
    let ?s = "upd_result j errorHandler s"
    have v: "view ?s = view s" by simp
    have "owns X ?s" "length (se_etxs ?s) = length (se_etxs s)" "explicitTx ?s = explicitTx s" "autocommitTx ?s = autocommitTx s"
      "se_closed ?s = se_closed s" "live ?s = live s"
      using Cons.prems(1) owns_view [OF v] live_frame [OF view_frame [OF v]] v by (simp_all add: view_def upd_result_def)
    with Cons.IH [of ?s] Cons.prems show ?thesis by (auto simp: OnResult)
  next
    case (OnClose k)
    have k: "k < length (se_etxs s)" using Cons.prems(2) OnClose by simp
    let ?s = "onClose env k s"
    note o = owns_onClose [OF Cons.prems(1) k, of env]
    have "live ?s \<or> (\<exists>k. explicitTx ?s = Some k \<and> OnClose k \<in> set hs)"
    proof (cases "et_conn (se_etxs s ! k)")
      case None
      have "explicitTx s \<noteq> Some k"
        using owns_current [OF Cons.prems(1), of k] None by fastforce
      with Cons.prems(3) o(5) None OnClose show ?thesis by auto
    next
      case (Some c)
      then show ?thesis using live_no_conn [OF o(1)] o(6) by simp
    qed
    with Cons.IH [OF o(1)] Cons.prems(2) o(2,3,4) show ?thesis by (auto simp: OnClose)
  qed
qed

lemma ok_onError:
  assumes "ok X s"
  shows "ok X (tx_onError env t e s)" "length (se_etxs (tx_onError env t e s)) = length (se_etxs s)"
    "autocommitTx (tx_onError env t e s) = autocommitTx s" "se_closed (tx_onError env t e s) = se_closed s"
proof -
  let ?s = "upd_tx t (\<lambda>ts. ts\<lparr>ts_err := Some e\<rparr>) s" and ?hs = "ts_handlers (tx_state s t)"
  have "owns X s" using assms unfolding ok_def ..
  then have o: "owns X ?s" and lk: "linked s" and cu: "current s"
    by (rule owns_set_err [THEN iffD2], unfold owns_def, blast+)
  have hs: "set ?hs \<inter> range OnClose \<subseteq> OnClose ` {k. k < length (se_etxs s) \<and> et_state (se_etxs s ! k) = t}"
    using lk by (cases "t < length (se_txs s)") (auto simp: linked_def closes_def tx_state_def)
  have "live ?s \<or> (\<exists>k. explicitTx ?s = Some k \<and> OnClose k \<in> set ?hs)"
  proof (cases "\<exists>k. explicitTx s = Some k \<and> et_state (se_etxs s ! k) = t \<and> t < length (se_txs s)")
    case True
    then obtain k where k: "explicitTx s = Some k" "et_state (se_etxs s ! k) = t" "t < length (se_txs s)" by blast
    then have "k \<in> closes s t" using lk cu unfolding linked_def current_def by blast
    with k show ?thesis by (auto simp: closes_def tx_state_def)
  next
    case False
    have "live ?s" unfolding live_def
    proof (intro allI impI)
      fix k assume k: "k < length (se_etxs ?s)" "et_conn (se_etxs ?s ! k) \<noteq> None"
      then have "explicitTx s = Some k" using current_unique [OF cu] by simp
      moreover have "et_state (se_etxs s ! k) < length (se_txs s)" using lk k(1) unfolding linked_def by simp
      moreover have "ts_err (se_txs s ! et_state (se_etxs s ! k)) = None" using assms k unfolding ok_def live_def by simp
      ultimately show "ts_err (se_txs ?s ! et_state (se_etxs ?s ! k)) = None" using False by (auto simp: upd_tx_nth)
    qed
    then show ?thesis ..
  qed
  from ok_handlers [OF o _ this, of env] hs
  show "ok X (tx_onError env t e s)" "length (se_etxs (tx_onError env t e s)) = length (se_etxs s)"
    "autocommitTx (tx_onError env t e s) = autocommitTx s" "se_closed (tx_onError env t e s) = se_closed s"
    unfolding tx_onError_def by (auto simp: upd_tx_closed)
qed

section \<open>Results\<close>

text \<open>What an operation on the session keeps besides its connections.\<close>

definition keeps :: "'c session \<Rightarrow> 'c session \<Rightarrow> bool" where
  "keeps s s' \<longleftrightarrow> length (se_etxs s') = length (se_etxs s) \<and> autocommitTx s' = autocommitTx s \<and> se_closed s' = se_closed s \<and>
     (explicitTx s = None \<longrightarrow> explicitTx s' = None)"

lemma keeps_refl [simp]: "keeps s s"
  by (simp add: keeps_def)

lemma keeps_trans: "keeps s s' \<Longrightarrow> keeps s' s'' \<Longrightarrow> keeps s s''"
  by (simp add: keeps_def)

lemma keeps_frame: "frame s' = frame s \<Longrightarrow> keeps s s'"
  by (simp add: keeps_def frame_def)

lemma keeps_view: "view s' = view s \<Longrightarrow> keeps s s'"
  by (rule keeps_frame [OF view_frame])

lemma keeps_onError: "ok X s \<Longrightarrow> keeps s (tx_onError env t e s)"
proof -
  have c: "explicitTx s = None \<Longrightarrow> explicitTx (handle_error env h s) = None" for h and s :: "'a session"
    by (cases h) (auto simp: onClose_def upd_result_def Let_def split: prod.splits option.splits)
  have "explicitTx s = None \<Longrightarrow> explicitTx (foldl (\<lambda>s h. handle_error env h s) s hs) = None" for hs and s :: "'a session"
    by (induction hs arbitrary: s) (simp_all add: c)
  then have "explicitTx s = None \<longrightarrow> explicitTx (tx_onError env t e s) = None" by (simp add: tx_onError_def)
  then show "ok X s \<Longrightarrow> keeps s (tx_onError env t e s)" by (simp add: keeps_def ok_onError)
qed

lemma ok_onErrors: "ok X s \<Longrightarrow> ok X (foldl (\<lambda>s e. tx_onError env t e s) s es) \<and> keeps s (foldl (\<lambda>s e. tx_onError env t e s) s es)"
proof (induction es arbitrary: s)
  case (Cons e es)
  from Cons.IH [OF ok_onError(1) [OF Cons.prems], of env t e] keeps_onError [OF Cons.prems, of env t e] show ?case
    by (simp, blast intro: keeps_trans)
qed simp

lemma ok_bookmarks: "ok X s \<Longrightarrow> ok X (snd (retrieveBookmarks env c bs s)) \<and> keeps s (snd (retrieveBookmarks env c bs s))"
  using view_bookmarks [of env c bs s] keeps_view ok_view by (metis prod.collapse)

lemma ok_on_conn: "ok X s \<Longrightarrow> on_conn env c f s = (x, s') \<Longrightarrow> ok X s' \<and> keeps s s'"
  using view_on_conn keeps_view ok_view by metis

lemma ok_telemetry: "ok X s \<Longrightarrow> ok X (send_telemetry env w api c s) \<and> keeps s (send_telemetry env w api c s)"
  using view_telemetry keeps_view ok_view by metis

lemma ok_upd_result: "ok X s \<Longrightarrow> ok X (upd_result j f s) \<and> keeps s (upd_result j f s)"
  using view_upd_result keeps_view ok_view by metis

lemma ok_on_result:
  assumes "ok X s" "on_result env j f s = (x, s')"
  shows "ok X s'" "keeps s s'"
proof -
  let ?r = "se_results s ! j"
  define p where "p = on_conn env (sr_conn ?r) (\<lambda>c. case f (at_cursor (sr_res ?r) c) of (x, k) \<Rightarrow> ((x, k), cu_conn k)) s"
  obtain x1 k s1 where p: "p = ((x1, k), s1)" by (cases p) auto
  note 1 = p [unfolded p_def]
  note a = ok_on_conn [OF assms(1) 1]
  let ?s2 = "upd_result j (\<lambda>_. cu_res k) s1"
  have b: "ok X ?s2 \<and> keeps s1 ?s2" using a ok_upd_result by blast
  let ?s3 = "foldl (\<lambda>s e. tx_onError env (sr_tx ?r) e s) ?s2 (cu_txErrs k)"
  have c: "ok X ?s3 \<and> keeps ?s2 ?s3" using b ok_onErrors by blast
  have "s' = (if cu_hooked k then snd (retrieveBookmarks env (sr_conn ?r) (sr_bookmarks ?r) ?s3) else ?s3)"
    using assms(2) by (simp add: on_result_def Let_def 1)
  with c have "ok X s' \<and> keeps ?s3 s'" using ok_bookmarks [of X ?s3] by simp
  with a b c show "ok X s'" "keeps s s'" by (blast intro: keeps_trans)+
qed

lemma ok_new_result: "ok X s \<Longrightarrow> ok X (snd (new_result c stream t h bs s)) \<and> keeps s (snd (new_result c stream t h bs s))"
proof -
  assume a: "ok X s"
  let ?s = "snd (new_result c stream t h bs s)"
  have e: "se_log ?s = se_log s" "se_etxs ?s = se_etxs s" "explicitTx ?s = explicitTx s" "autocommitTx ?s = autocommitTx s"
    "se_txs ?s = se_txs s" "length (se_results ?s) = Suc (length (se_results s))" "se_closed ?s = se_closed s"
    by (simp_all add: new_result_def)
  have "current s" using a unfolding ok_def owns_def by blast
  then have "current ?s" unfolding current_def e by (meson less_SucI)
  moreover have "linked ?s = linked s" "open_conns ?s = open_conns s" "live ?s = live s"
    unfolding linked_def open_conns_def closes_def live_def e by (rule refl)+
  ultimately show ?thesis using a unfolding ok_def owns_def e keeps_def by simp
qed

lemma ok_new_tx:
  assumes "ok X s" "\<And>k. OnClose k \<notin> set (ts_handlers ts)"
  shows "ok X (snd (new_tx ts s))" "frame ((snd (new_tx ts s))\<lparr>se_txs := se_txs s\<rparr>) = frame s" "keeps s (snd (new_tx ts s))"
proof -
  let ?s = "snd (new_tx ts s)"
  have e: "se_log ?s = se_log s" "se_etxs ?s = se_etxs s" "explicitTx ?s = explicitTx s" "autocommitTx ?s = autocommitTx s"
    "se_txs ?s = se_txs s @ [ts]" "se_results ?s = se_results s" "se_closed ?s = se_closed s"
    by (simp_all add: new_tx_def)
  have lk: "linked s" and cu: "current s" using assms(1) unfolding ok_def owns_def by blast+
  have st: "et_state (se_etxs s ! k) < length (se_txs s)" if "k < length (se_etxs s)" for k
    using lk that unfolding linked_def by blast
  have "closes ?s t = {k. k < length (se_etxs s) \<and> et_state (se_etxs s ! k) = t}" if "t < Suc (length (se_txs s))" for t
  proof (cases "t < length (se_txs s)")
    case True
    then have "closes ?s t = closes s t" by (simp add: closes_def new_tx_def nth_append)
    with True lk show ?thesis unfolding linked_def by blast
  next
    case False
    then have t: "t = length (se_txs s)" using that by simp
    then have "closes ?s t = {}" using assms(2) by (simp add: closes_def new_tx_def)
    moreover have "{k. k < length (se_etxs s) \<and> et_state (se_etxs s ! k) = t} = {}" using st t by fastforce
    ultimately show ?thesis by simp
  qed
  then have "linked ?s" unfolding linked_def e using st by (auto simp: less_Suc_eq)
  moreover have "current ?s" using cu unfolding current_def e .
  moreover have "live ?s" using assms(1) st unfolding ok_def live_def e by (simp add: nth_append)
  moreover have "open_conns ?s = open_conns s" unfolding open_conns_def e by (rule refl)
  ultimately show "ok X ?s" using assms(1) unfolding ok_def owns_def e by simp
  show "frame (?s\<lparr>se_txs := se_txs s\<rparr>) = frame s" "keeps s ?s" by (simp_all add: new_tx_def frame_def keeps_def)
qed

section \<open>Explicit transactions\<close>

lemma keeps_upd_tx: "keeps s (upd_tx t f s)"
  by (simp add: keeps_def upd_tx_closed)

lemma ok_upd_tx:
  assumes "ok X s" "\<And>ts k. OnClose k \<in> set (ts_handlers (f ts)) \<longleftrightarrow> OnClose k \<in> set (ts_handlers ts)" "\<And>ts. ts_err (f ts) = ts_err ts"
  shows "ok X (upd_tx t f s)"
proof -
  have o: "owns X s" and l: "live s" using assms(1) unfolding ok_def by blast+
  have st: "et_state (se_etxs s ! k) < length (se_txs s)" if "k < length (se_etxs s)" for k
    using o that unfolding owns_def linked_def by blast
  have "ts_err (se_txs (upd_tx t f s) ! u) = ts_err (se_txs s ! u)" if "u < length (se_txs s)" for u
    using that assms(3) by (simp add: upd_tx_nth)
  then have "live (upd_tx t f s)" using l st unfolding live_def by simp
  then show "ok X (upd_tx t f s)" using owns_upd_tx [OF assms(2)] o unfolding ok_def by blast
qed

lemma ok_finish_tx:
  assumes "ok X s" "k < length (se_etxs s)" "et_conn (se_etxs s ! k) = Some c"
    and s': "s' = onClose env k (upd_tx t (\<lambda>ts. ts\<lparr>ts_err := e\<rparr>) s)"
  shows "ok X s'" "keeps s s'" "explicitTx s' = None"
proof -
  let ?s1 = "upd_tx t (\<lambda>ts. ts\<lparr>ts_err := e\<rparr>) s"
  have "owns X ?s1" using assms(1) owns_set_err unfolding ok_def by blast
  note c = owns_onClose [OF this, of k env]
  show e: "explicitTx s' = None" unfolding s' using c(6) assms(2,3) by simp
  show "keeps s s'" using c(2-4) assms(2) e unfolding s' by (simp add: keeps_def upd_tx_closed)
  have "owns X s'" using c(1) assms(2) unfolding s' by simp
  then show "ok X s'" unfolding ok_def using live_no_conn [OF _ e] by blast
qed

lemma ok_explicit_Run:
  assumes "ok X s" "k < length (se_etxs s)" "explicit_Run env k cypher params s = (r, s')"
  shows "ok X s'" "keeps s s'"
proof -
  let ?tx = "se_etxs s ! k" and ?t = "et_state (se_etxs s ! k)"
  have "ok X s' \<and> keeps s s'"
  proof (cases "et_conn ?tx")
    case None
    then show ?thesis using assms by (auto simp: explicit_Run_def)
  next
    case (Some c)
    obtain q s1 where 1: "on_conn env c (op_RunTx (en_ops env) (et_handle ?tx) cypher params (en_fetchSize env)) s = (q, s1)"
      by fastforce
    note a = ok_on_conn [OF assms(1) 1]
    show ?thesis
    proof (cases q)
      case (Inl e)
      then have "s' = tx_onError env ?t e s1" using assms(3) by (auto simp: explicit_Run_def Let_def Some 1)
      with a ok_onError(1) keeps_onError keeps_trans show ?thesis by blast
    next
      case (Inr stream)
      let ?s2 = "snd (new_result c stream ?t False [] s1)" and ?j = "fst (new_result c stream ?t False [] s1)"
      let ?s3 = "upd_tx ?t (\<lambda>ts. ts\<lparr>ts_handlers := ts_handlers ts @ [OnResult ?j]\<rparr>) ?s2"
      have s': "s' = ?s3" using assms(3) Inr by (auto simp: explicit_Run_def Let_def Some 1 split: prod.splits)
      have b: "ok X ?s2 \<and> keeps s1 ?s2" using a ok_new_result by blast
      have "ok X ?s3" by (rule ok_upd_tx) (use b in simp_all)
      moreover have "keeps ?s2 ?s3" by (rule keeps_upd_tx)
      ultimately show ?thesis using a b s' keeps_trans by metis
    qed
  qed
  then show "ok X s'" "keeps s s'" by simp_all
qed

lemma on_conn_keeps_tx: "on_conn env c f s = (x, s') \<Longrightarrow> se_etxs s' = se_etxs s"
  using view_on_conn by (fastforce simp: view_def)

lemma ok_explicit_Commit:
  assumes "ok X s" "k < length (se_etxs s)" "explicit_Commit env k s = (r, s')"
  shows "ok X s' \<and> keeps s s'"
proof -
  let ?tx = "se_etxs s ! k" and ?t = "et_state (se_etxs s ! k)"
  show ?thesis
  proof (cases "ts_err (tx_state s ?t) \<noteq> None \<or> et_conn ?tx = None")
    case True
    then have "s' = s" using assms(3) by (auto simp: explicit_Commit_def Let_def split: if_splits)
    with True show ?thesis using assms(1) by auto
  next
    case False
    then obtain c where c: "et_conn ?tx = Some c" by blast
    obtain e s1 where 1: "on_conn env c (op_TxCommit (en_ops env) (et_handle ?tx)) s = (e, s1)" by fastforce
    have s': "s' = onClose env k (upd_tx ?t (\<lambda>ts. ts\<lparr>ts_err := e\<rparr>) s1)"
      using False assms(3) by (auto simp: explicit_Commit_def Let_def c 1)
    note a = ok_on_conn [OF assms(1) 1] on_conn_keeps_tx [OF 1]
    then show ?thesis using ok_finish_tx [OF _ _ _ s', of X c] c assms(2) keeps_trans by metis
  qed
qed

lemma ok_explicit_Rollback:
  assumes "ok X s" "k < length (se_etxs s)" "explicit_Rollback env k s = (r, s')"
  shows "ok X s' \<and> keeps s s'" "ts_err (tx_state s (et_state (se_etxs s ! k))) = None \<Longrightarrow> et_conn (se_etxs s ! k) \<noteq> None \<Longrightarrow> explicitTx s' = None"
proof -
  let ?tx = "se_etxs s ! k" and ?t = "et_state (se_etxs s ! k)"
  have "ok X s' \<and> keeps s s' \<and> (ts_err (tx_state s ?t) = None \<longrightarrow> et_conn ?tx \<noteq> None \<longrightarrow> explicitTx s' = None)"
  proof (cases "ts_err (tx_state s ?t) \<noteq> None \<or> et_conn ?tx = None")
    case True
    then have "s' = s" using assms(3) by (auto simp: explicit_Rollback_def Let_def split: if_splits)
    with True show ?thesis using assms(1) by auto
  next
    case False
    then obtain c where c: "et_conn ?tx = Some c" by blast
    obtain e s1 where 1: "(if \<not> op_IsAlive (en_ops env) (se_conns s c) \<or> op_HasFailed (en_ops env) (se_conns s c)
        then (None, s) else on_conn env c (op_TxRollback (en_ops env) (et_handle ?tx)) s) = (e, s1)" by fastforce
    have s': "s' = onClose env k (upd_tx ?t (\<lambda>ts. ts\<lparr>ts_err := e\<rparr>) s1)"
      using False assms(3) unfolding explicit_Rollback_def Let_def c option.case 1 by (auto split: if_splits)
    have a: "ok X s1 \<and> keeps s s1" "se_etxs s1 = se_etxs s"
      using 1 assms(1) ok_on_conn on_conn_keeps_tx by (metis keeps_refl prod.inject)+
    then show ?thesis using ok_finish_tx [OF _ _ _ s', of X c] c assms(2) keeps_trans by metis
  qed
  then show "ok X s' \<and> keeps s s'" "ts_err (tx_state s ?t) = None \<Longrightarrow> et_conn ?tx \<noteq> None \<Longrightarrow> explicitTx s' = None" by blast+
qed

text \<open>Closing the current transaction always leaves the session without one.\<close>

lemma ok_explicit_Close:
  assumes "ok X s" "k < length (se_etxs s)" "explicit_Close env k s = (r, s')"
  shows "ok X s' \<and> keeps s s'" "explicitTx s = Some k \<Longrightarrow> explicitTx s' = None"
proof -
  show "ok X s' \<and> keeps s s'"
    using assms ok_explicit_Rollback(1) [OF assms(1,2)] by (auto simp: explicit_Close_def split: if_splits)
  assume e: "explicitTx s = Some k"
  have o: "owns X s" and l: "live s" using assms(1) unfolding ok_def by blast+
  from owns_current [OF o e] obtain c where c: "et_conn (se_etxs s ! k) = Some c" by metis
  have st: "et_state (se_etxs s ! k) < length (se_txs s)" using o assms(2) unfolding owns_def linked_def by blast
  then have "ts_err (tx_state s (et_state (se_etxs s ! k))) = None"
    using l assms(2) c unfolding live_def by (simp add: tx_state_in)
  then show "explicitTx s' = None"
    using ok_explicit_Rollback(2) [OF assms(1,2)] assms(3) c by (simp add: explicit_Close_def)
qed

section \<open>Auto-commit transactions\<close>

lemma owns_autocommit:
  assumes "owns X s" "autocommitTx s = Some tx"
  shows "explicitTx s = None" "open_conns s = [at_conn tx]" "\<not> at_closed tx" "at_conn tx \<notin> set X" "distinct X"
    "set (held (se_log s)) = insert (at_conn tx) (set X)"
proof -
  have cu: "current s" and h: "set (held (se_log s)) = set (open_conns s @ X)" "distinct (open_conns s @ X)"
    using assms(1) unfolding owns_def by blast+
  show e: "explicitTx s = None" using cu assms(2) unfolding current_def by (metis option.distinct(1))
  show c: "\<not> at_closed tx" using cu assms(2) unfolding current_def by blast
  show o: "open_conns s = [at_conn tx]" by (simp add: open_conns_def e assms(2))
  show "at_conn tx \<notin> set X" "distinct X" "set (held (se_log s)) = insert (at_conn tx) (set X)" using h unfolding o by simp_all
qed

lemma ok_release:
  assumes "ok X s" "autocommitTx s = Some tx"
    and s': "s' = (pool_Return (at_conn tx) s)\<lparr>autocommitTx := None\<rparr>"
  shows "ok X s'" "explicitTx s' = None" "autocommitTx s' = None" "se_closed s' = se_closed s" "length (se_etxs s') = length (se_etxs s)"
proof -
  have ow: "owns X s" and lv: "live s" using assms(1) unfolding ok_def by blast+
  note a = owns_autocommit [OF ow assms(2)]
  have e: "se_log s' = se_log s @ [EvReturn (at_conn tx)]" "se_etxs s' = se_etxs s" "explicitTx s' = None" "autocommitTx s' = None"
    "se_txs s' = se_txs s" "se_results s' = se_results s" "se_closed s' = se_closed s"
    using a(1) unfolding s' by (simp_all add: pool_Return_def logged_def)
  have cu: "current s" and lk: "linked s" and r: "ret_ok (se_log s)" "distinct (held (se_log s))"
    using ow unfolding owns_def by blast+
  have none: "et_conn (se_etxs s ! k) = None" if "k < length (se_etxs s)" for k
    using current_unique [OF cu that] a(1) by (cases "et_conn (se_etxs s ! k)") simp_all
  have "current s'" unfolding current_def e using none by simp
  moreover have "linked s'" using lk unfolding linked_def closes_def e .
  moreover have "live s'" using lv unfolding live_def e .
  moreover have "open_conns s' = []" unfolding open_conns_def e by simp
  ultimately show "ok X s'" unfolding ok_def owns_def e(1) using r a(4-6) by (auto simp: ret_step_def)
  show "explicitTx s' = None" "autocommitTx s' = None" "se_closed s' = se_closed s" "length (se_etxs s') = length (se_etxs s)"
    by (simp_all add: e)
qed

lemma ok_end_autocommit:
  assumes "ok X s" "autocommitTx s = Some tx" "s' = autocommit_done env tx s \<or> s' = autocommit_discard env tx s"
  shows "ok X s'" "explicitTx s' = None" "autocommitTx s' = None" "se_closed s' = se_closed s" "length (se_etxs s') = length (se_etxs s)"
proof -
  have c: "\<not> at_closed tx" using owns_autocommit(3) assms(1,2) unfolding ok_def by blast
  obtain s1 where s1: "ok X s1" "keeps s s1" "s' = (pool_Return (at_conn tx) s1)\<lparr>autocommitTx := None\<rparr>"
    using assms(3) c ok_on_result [OF assms(1), OF prod.collapse [symmetric]] unfolding autocommit_done_def autocommit_discard_def Let_def
    by (metis (no_types, lifting))
  then have tx: "autocommitTx s1 = Some tx" using assms(2) by (simp add: keeps_def)
  note r = ok_release [OF s1(1) tx s1(3)]
  show "ok X s'" "explicitTx s' = None" "autocommitTx s' = None" "se_closed s' = se_closed s" "length (se_etxs s') = length (se_etxs s)"
    using r s1(2) by (simp_all add: keeps_def)
qed

lemma ok_finish_autocommit:
  assumes "ok X s" "s' = finish_autocommit env s"
  shows "ok X s'" "autocommitTx s' = None" "se_closed s' = se_closed s" "length (se_etxs s') = length (se_etxs s)"
    "explicitTx s = None \<Longrightarrow> explicitTx s' = None"
  using ok_end_autocommit [OF assms(1), of _ s' env] assms by (cases "autocommitTx s"; simp add: finish_autocommit_def)+

section \<open>The operations of a session\<close>

text \<open>No transaction is open: what the operations that borrow a connection start from.\<close>

definition idle :: "nat list \<Rightarrow> 'c session \<Rightarrow> bool" where
  "idle X s \<longleftrightarrow> ok X s \<and> explicitTx s = None \<and> autocommitTx s = None"

lemma idle_frame: "frame s' = frame s \<Longrightarrow> idle X s \<Longrightarrow> ok Y s' \<Longrightarrow> idle Y s'"
  by (simp add: idle_def frame_def)

lemma idle_keeps: "keeps s s' \<Longrightarrow> idle X s \<Longrightarrow> ok Y s' \<Longrightarrow> idle Y s'"
  by (simp add: idle_def keeps_def)

lemma idle_open: "idle X s \<Longrightarrow> open_conns s = []"
  by (simp add: idle_def open_conns_def)

lemma idle_getConnection:
  assumes "honest env" "idle X s" "getConnection env m s = (r, s')"
  shows "case r of Inl _ \<Rightarrow> idle X s' | Inr c \<Rightarrow> idle (c # X) s'" "frame s' = frame s"
proof -
  have "ok X s" using assms(2) unfolding idle_def by blast
  note g = ok_getConnection [OF assms(1) this assms(3)]
  show "frame s' = frame s" by (rule g)
  show "case r of Inl _ \<Rightarrow> idle X s' | Inr c \<Rightarrow> idle (c # X) s'"
    using g(2) idle_frame [OF g(1) assms(2)] by (auto split: sum.splits)
qed

lemma idle_Return: "idle (c # X) s \<Longrightarrow> idle X (pool_Return c s)"
  using ok_Return [of c X s] by (simp add: idle_def)

text \<open>The connection of the operation becomes that of a transaction.\<close>

lemma ok_new_explicit:
  assumes "idle [c] s" "k = length (se_etxs s)" "t = length (se_txs s)"
    and s': "s' = s\<lparr>se_txs := se_txs s @ [\<lparr>ts_err = None, ts_handlers = [OnClose k]\<rparr>],
      se_etxs := se_etxs s @ [\<lparr>et_conn = Some c, et_handle = h, et_state = t, et_bookmarks = bs\<rparr>], explicitTx := Some k\<rparr>"
  shows "ok [] s'"
proof -
  have ow: "owns [c] s" and lv: "live s" and n: "explicitTx s = None" "autocommitTx s = None"
    using assms(1) unfolding idle_def ok_def by blast+
  let ?tx = "\<lparr>et_conn = Some c, et_handle = h, et_state = t, et_bookmarks = bs\<rparr>"
  have e: "se_log s' = se_log s" "se_etxs s' = se_etxs s @ [?tx]" "explicitTx s' = Some k" "autocommitTx s' = None"
    "se_txs s' = se_txs s @ [\<lparr>ts_err = None, ts_handlers = [OnClose k]\<rparr>]"
    unfolding s' by (simp_all add: n)
  have cu: "current s" and lk: "linked s" and r: "ret_ok (se_log s)" "distinct (held (se_log s))" "set (held (se_log s)) = set (open_conns s @ [c])"
    using ow unfolding owns_def by blast+
  have none: "et_conn (se_etxs s ! i) = None" if "i < length (se_etxs s)" for i
    using current_unique [OF cu that] n(1) by (cases "et_conn (se_etxs s ! i)") simp_all
  have st: "et_state (se_etxs s ! i) < length (se_txs s)" if "i < length (se_etxs s)" for i
    using lk that unfolding linked_def by blast
  have cl: "closes s u = {i. i < length (se_etxs s) \<and> et_state (se_etxs s ! i) = u}" if "u < length (se_txs s)" for u
    using lk that unfolding linked_def by blast
  have "current s'" unfolding current_def e using none assms(2) by (auto simp: nth_append less_Suc_eq)
  moreover have "closes s' u = {i. i < length (se_etxs s') \<and> et_state (se_etxs s' ! i) = u}" if "u < length (se_txs s')" for u
  proof (cases "u = t")
    case True
    then have "closes s' u = {k}" using assms(3) by (simp add: closes_def e)
    moreover have "{i. i < length (se_etxs s') \<and> et_state (se_etxs s' ! i) = u} = {k}"
      using st [THEN less_imp_neq] True assms(2,3) by (auto simp: e nth_append less_Suc_eq)
    ultimately show ?thesis by simp
  next
    case False
    then have u: "u < length (se_txs s)" using that assms(3) by (simp add: e)
    then have "closes s' u = closes s u" by (simp add: closes_def e nth_append)
    moreover have "(i < length (se_etxs s') \<and> et_state (se_etxs s' ! i) = u) = (i < length (se_etxs s) \<and> et_state (se_etxs s ! i) = u)" for i
      using False by (auto simp: e nth_append less_Suc_eq)
    ultimately show ?thesis using cl [OF u] by presburger
  qed
  moreover have "et_state (se_etxs s' ! i) < length (se_txs s')" if "i < length (se_etxs s')" for i
    using that st [of i] assms(3) by (auto simp: e nth_append less_Suc_eq)
  ultimately have "current s'" "linked s'" unfolding linked_def by blast+
  moreover have "live s'" unfolding live_def e using none assms(2,3) by (auto simp: nth_append less_Suc_eq)
  moreover have "open_conns s' = [c]" unfolding open_conns_def e using assms(2) by simp
  ultimately show ?thesis unfolding ok_def owns_def e(1) using r idle_open [OF assms(1)] by simp
qed

lemma ok_new_autocommit:
  assumes "idle [c] s" "j < length (se_results s)"
  shows "ok [] (s\<lparr>autocommitTx := Some \<lparr>at_conn = c, at_res = j, at_closed = False\<rparr>\<rparr>)" (is "ok [] ?s")
proof -
  have ow: "owns [c] s" and lv: "live s" and n: "explicitTx s = None" "autocommitTx s = None"
    using assms(1) unfolding idle_def ok_def by blast+
  have cu: "current s" and lk: "linked s" and r: "ret_ok (se_log s)" "distinct (held (se_log s))" "set (held (se_log s)) = set (open_conns s @ [c])"
    using ow unfolding owns_def by blast+
  have e: "se_log ?s = se_log s" "se_etxs ?s = se_etxs s" "explicitTx ?s = None" "se_txs ?s = se_txs s"
    by (simp_all add: n)
  have "et_conn (se_etxs s ! i) = None" if "i < length (se_etxs s)" for i
    using current_unique [OF cu that] n(1) by (cases "et_conn (se_etxs s ! i)") simp_all
  then have "current ?s" unfolding current_def e using assms(2) by simp
  moreover have "linked ?s" using lk unfolding linked_def closes_def e .
  moreover have "live ?s" using lv unfolding live_def e .
  moreover have "open_conns ?s = [c]" unfolding open_conns_def e by simp
  ultimately show ?thesis unfolding ok_def owns_def e(1) using r idle_open [OF assms(1)] by simp
qed

lemma idle_on_conn: "idle X s \<Longrightarrow> on_conn env c f s = (x, s') \<Longrightarrow> idle X s'"
  using ok_on_conn idle_keeps unfolding idle_def by metis

lemma idle_telemetry: "idle X s \<Longrightarrow> idle X (send_telemetry env w api c s)"
  using ok_telemetry idle_keeps unfolding idle_def by metis

lemma on_conn_frame: "on_conn env c f s = (x, s') \<Longrightarrow> frame s' = frame s"
  by (rule view_frame [OF view_on_conn])

lemma telemetry_frame: "frame (send_telemetry env w api c s) = frame s"
  by (rule view_frame [OF view_telemetry])

text \<open>What a call may do to the session: nothing that is closed is opened, nothing is open once the session is closed.\<close>

definition sound :: "'c session \<Rightarrow> bool" where
  "sound s \<longleftrightarrow> ok [] s \<and> (se_closed s \<longrightarrow> explicitTx s = None \<and> autocommitTx s = None)"

lemma sound_open: "ok [] s \<Longrightarrow> \<not> se_closed s \<Longrightarrow> sound s"
  by (simp add: sound_def)

lemma sound_idle: "idle [] s \<Longrightarrow> sound s"
  by (simp add: sound_def idle_def)

lemma sound_keeps: "sound s \<Longrightarrow> keeps s s' \<Longrightarrow> ok [] s' \<Longrightarrow> sound s'"
  by (auto simp: sound_def keeps_def)

lemma idle_finish: "ok [] s \<Longrightarrow> explicitTx s = None \<Longrightarrow> idle [] (finish_autocommit env s)"
  using ok_finish_autocommit [OF _ refl, of "[]" s env] by (simp add: idle_def)

lemma closed_finish: "ok [] s \<Longrightarrow> se_closed (finish_autocommit env s) = se_closed s"
  using ok_finish_autocommit [OF _ refl, of "[]" s env] by simp

lemma sound_BeginTransaction:
  assumes "honest env" "sound s" "BeginTransaction env cfg s = (r, s')"
  shows "sound s'"
proof (cases "se_closed s \<or> explicitTx s \<noteq> None")
  case True
  then show ?thesis using assms(2,3) by (auto simp: BeginTransaction_def split: if_splits)
next
  case False
  have ok: "ok [] s" using assms(2) unfolding sound_def by blast
  let ?s1 = "finish_autocommit env s"
  have i1: "idle [] ?s1" using idle_finish [OF ok] False by simp
  show ?thesis
  proof (cases "validateTransactionConfig cfg")
    case (Some e)
    then have "s' = ?s1" using False assms(3) by (simp add: BeginTransaction_def)
    with i1 show ?thesis by (simp add: sound_idle)
  next
    case None
    obtain q s2 where 2: "getConnection env (en_readMode env) ?s1 = (q, s2)" by fastforce
    note g = idle_getConnection [OF assms(1) i1 2]
    show ?thesis
    proof (cases q)
      case (Inl e)
      then have "s' = s2" using False None assms(3) by (simp add: BeginTransaction_def 2)
      with g(1) Inl show ?thesis by (simp add: sound_idle)
    next
      case (Inr c)
      let ?s3 = "send_telemetry env (\<not> en_telemetryDisabled env) 1 c s2"
      have i3: "idle [c] ?s3" using g(1) Inr by (simp add: idle_telemetry)
      show ?thesis
      proof (cases "session_bookmarks env ?s3")
        case b: (Inl e)
        then have "s' = pool_Return c ?s3" using False None Inr assms(3) by (simp add: BeginTransaction_def 2)
        with i3 show ?thesis by (simp add: sound_idle idle_Return)
      next
        case bs: (Inr bs)
        obtain p s4 where 4: "on_conn env c (op_TxBegin (en_ops env) (tx_config env (en_readMode env) bs cfg) True) ?s3 = (p, s4)"
          by fastforce
        have i4: "idle [c] s4" by (rule idle_on_conn [OF i3 4])
        show ?thesis
        proof (cases p)
          case (Inl e)
          then have "s' = pool_Return c s4" using False None Inr bs assms(3) by (simp add: BeginTransaction_def 2 4)
          with i4 show ?thesis by (simp add: sound_idle idle_Return)
        next
          case p: (Inr h)
          let ?k = "length (se_etxs s4)" and ?t = "length (se_txs s4)"
          let ?s' = "s4\<lparr>se_txs := se_txs s4 @ [\<lparr>ts_err = None, ts_handlers = [OnClose ?k]\<rparr>],
            se_etxs := se_etxs s4 @ [\<lparr>et_conn = Some c, et_handle = h, et_state = ?t, et_bookmarks = bs\<rparr>], explicitTx := Some ?k\<rparr>"
          have "s' = ?s'" using False None Inr bs p assms(3) by (simp add: BeginTransaction_def 2 4 new_tx_def Let_def)
          moreover have "frame s4 = frame ?s1" using on_conn_frame [OF 4] g(2) by (simp add: telemetry_frame)
          then have "se_closed s4 = se_closed s" using closed_finish [OF ok] by (simp add: frame_def)
          ultimately show ?thesis using ok_new_explicit [OF i4 refl refl refl] False by (simp add: sound_open)
        qed
      qed
    qed
  qed
qed

lemma sound_run_attempt:
  assumes "honest env" "idle [] s" "\<not> se_closed s" "run_attempt env cypher params cfg first resolved s = (r, s')"
  shows "case r of RunDone _ \<Rightarrow> sound s' | RunAgain _ \<Rightarrow> idle [] s' \<and> \<not> se_closed s'"
proof -
  obtain q s1 where 1: "getConnection env (en_readMode env) s = (q, s1)" by fastforce
  note g = idle_getConnection [OF assms(1,2) 1]
  show ?thesis
  proof (cases q)
    case (Inl e)
    then show ?thesis using g(1) assms(4) by (auto simp: run_attempt_def 1 sound_idle)
  next
    case (Inr c)
    let ?s2 = "send_telemetry env (\<not> resolved) 2 c s1"
    have i2: "idle [c] ?s2" using g(1) Inr by (simp add: idle_telemetry)
    show ?thesis
    proof (cases "session_bookmarks env ?s2")
      case b: (Inl e)
      then have "r = RunDone (Inl (the (WrapError (Some e))))" "s' = pool_Return c ?s2"
        using assms(4) by (simp_all add: run_attempt_def 1 Inr Let_def)
      then show ?thesis using i2 by (simp add: sound_idle idle_Return)
    next
      case bs: (Inr bs)
      obtain p s3 where 3: "on_conn env c (op_Run (en_ops env) cypher params (en_fetchSize env)
          (tx_config env (en_readMode env) bs cfg)) ?s2 = (p, s3)" by fastforce
      have i3: "idle [c] s3" by (rule idle_on_conn [OF i2 3])
      have cl: "\<not> se_closed s3"
        using on_conn_frame [OF 3] telemetry_frame [of env "\<not> resolved" 2 c s1] g(2) assms(3) by (simp add: frame_def)
      show ?thesis
      proof (cases p)
        case (Inl e)
        then have "s' = pool_Return c s3" using assms(4) by (simp add: run_attempt_def 1 \<open>q = Inr c\<close> bs 3 Let_def split: if_splits)
        then have "idle [] s'" "\<not> se_closed s'" using i3 cl by (simp_all add: idle_Return)
        then show ?thesis by (simp add: sound_idle split: run_step.split)
      next
        case p: (Inr stream)
        let ?s4 = "snd (new_tx \<lparr>ts_err = None, ts_handlers = []\<rparr> s3)"
        let ?s5 = "snd (new_result c stream (length (se_txs s3)) True bs ?s4)"
        have "ok [c] s3" using i3 unfolding idle_def by blast
        then have 4: "ok [c] ?s4" "keeps s3 ?s4" by (simp_all add: ok_new_tx)
        then have 5: "ok [c] ?s5" "keeps ?s4 ?s5" using ok_new_result by blast+
        have k: "keeps s3 ?s5" by (rule keeps_trans [OF 4(2) 5(2)])
        then have i5: "idle [c] ?s5" "\<not> se_closed ?s5" using idle_keeps [OF k i3 5(1)] cl by (simp_all add: keeps_def)
        let ?s' = "?s5\<lparr>autocommitTx := Some \<lparr>at_conn = c, at_res = length (se_results s3), at_closed = False\<rparr>\<rparr>"
        have "r = RunDone (Inr (length (se_results s3)))" "s' = ?s'"
          using assms(4) by (simp_all add: run_attempt_def 1 Inr bs 3 p Let_def new_tx_def new_result_def)
        moreover have "length (se_results s3) < length (se_results ?s5)" by (simp add: new_tx_def new_result_def)
        then have "ok [] ?s'" by (rule ok_new_autocommit [OF i5(1)])
        ultimately show ?thesis using i5(2) by (simp add: sound_open)
      qed
    qed
  qed
qed

lemma sound_run_loop:
  assumes "honest env" "idle [] s" "\<not> se_closed s"
  shows "sound (snd (run_loop env cypher params cfg first resolved s))"
  using assms
proof (induction env cypher params cfg first resolved s rule: run_loop.induct)
  case (1 env cypher params cfg first resolved s)
  obtain r s1 where r: "run_attempt env cypher params cfg first resolved s = (r, s1)" by fastforce
  note a = sound_run_attempt [OF "1.prems" r]
  show ?case
  proof (cases r)
    case (RunDone x)
    then show ?thesis using a r by (simp add: run_loop.simps)
  next
    case (RunAgain x)
    then show ?thesis using 1 a r by (simp add: run_loop.simps [of env cypher params cfg first])
  qed
qed

lemma sound_session_Run:
  assumes "honest env" "sound s"
  shows "sound (snd (session_Run env cypher params cfg s))"
proof (cases "se_closed s \<or> explicitTx s \<noteq> None")
  case True
  then show ?thesis using assms(2) by (auto simp: session_Run_def)
next
  case False
  have ok: "ok [] s" using assms(2) unfolding sound_def by blast
  have "idle [] (finish_autocommit env s)" "\<not> se_closed (finish_autocommit env s)"
    using idle_finish [OF ok] closed_finish [OF ok] False by simp_all
  then show ?thesis using False sound_run_loop [OF assms(1)]
    by (auto simp: session_Run_def Let_def sound_idle split: option.splits)
qed

lemma ok_on_result_snd: "ok X s \<Longrightarrow> ok X (snd (on_result env j f s)) \<and> keeps s (snd (on_result env j f s))"
  using ok_on_result by (metis prod.collapse)

lemma ok_result_call: "ok X s \<Longrightarrow> ok X (result_call env j q s) \<and> keeps s (result_call env j q s)"
  by (cases q) (simp_all add: result_call_def Let_def ok_on_result_snd)

lemma ok_managed_Run: "ok X s \<Longrightarrow> ok X (snd (managed_Run env c h t cypher params s)) \<and> keeps s (snd (managed_Run env c h t cypher params s))"
proof -
  assume a: "ok X s"
  obtain p s1 where 1: "on_conn env c (op_RunTx (en_ops env) h cypher params (en_fetchSize env)) s = (p, s1)" by fastforce
  note b = ok_on_conn [OF a 1]
  show ?thesis
  proof (cases p)
    case (Inl e)
    then show ?thesis using b by (simp add: managed_Run_def 1)
  next
    case (Inr stream)
    then have "snd (managed_Run env c h t cypher params s) = snd (new_result c stream t False [] s1)"
      by (simp add: managed_Run_def 1 split: prod.split)
    moreover have "ok X (snd (new_result c stream t False [] s1)) \<and> keeps s1 (snd (new_result c stream t False [] s1))"
      using b ok_new_result by blast
    ultimately show ?thesis using b keeps_trans by metis
  qed
qed

lemma ok_run_work: "ok X s \<Longrightarrow> ok X (run_work env c h t ws s) \<and> keeps s (run_work env c h t ws s)"
proof (induction env c h t ws s rule: run_work.induct)
  case (2 env c h t cypher params ws s)
  let ?s = "snd (managed_Run env c h t cypher params s)"
  from ok_managed_Run [OF 2(2), of env c h t cypher params] 2(1) keeps_trans [of s ?s] show ?case by simp
next
  case (3 env c h t j q ws s)
  let ?s = "result_call env j q s"
  from ok_result_call [OF 3(2), of env j q] 3(1) keeps_trans [of s ?s] show ?case by simp
qed simp

text \<open>The deferred Return: whatever happens in an attempt, its connection goes back.\<close>

lemma idle_executeTransactionFunction:
  assumes "honest env" "idle [] s"
    and "session_executeTransactionFunction env readMode cfg work ret blocking sent api st s = (r, s')"
  shows "idle [] s'"
proof -
  obtain q s1 where 1: "getConnection env readMode s = (q, s1)" by fastforce
  note g = idle_getConnection(1) [OF assms(1,2) 1]
  show ?thesis
  proof (cases q)
    case (Inl e)
    then show ?thesis using g assms(3) by (auto simp: session_executeTransactionFunction_def 1)
  next
    case (Inr c)
    let ?s2 = "send_telemetry env (\<not> en_telemetryDisabled env \<and> \<not> sent) api c s1"
    have i2: "idle [c] ?s2" using g Inr by (simp add: idle_telemetry)
    have "\<exists>s2. idle [c] s2 \<and> s' = pool_Return c s2"
    proof (cases "session_bookmarks env ?s2")
      case b: (Inl e)
      then show ?thesis using assms(3) i2 by (auto simp: session_executeTransactionFunction_def 1 Inr Let_def)
    next
      case bs: (Inr bs)
      obtain p s3 where 3: "on_conn env c (op_TxBegin (en_ops env) (tx_config env readMode bs cfg) blocking) ?s2 = (p, s3)" by fastforce
      have i3: "idle [c] s3" by (rule idle_on_conn [OF i2 3])
      show ?thesis
      proof (cases p)
        case p: (Inl e)
        then show ?thesis using assms(3) i3 by (auto simp: session_executeTransactionFunction_def 1 Inr bs 3 Let_def)
      next
        case p: (Inr h)
        obtain t s4 where n: "new_tx \<lparr>ts_err = None, ts_handlers = []\<rparr> s3 = (t, s4)" by fastforce
        let ?s5 = "run_work env c h t work s4"
        have "ok [c] s3" using i3 unfolding idle_def by blast
        then have 4: "ok [c] s4" "keeps s3 s4" using ok_new_tx(1,3) [of "[c]" s3 "\<lparr>ts_err = None, ts_handlers = []\<rparr>"] n by simp_all
        then have 5: "ok [c] ?s5" "keeps s4 ?s5" using ok_run_work by blast+
        have i5: "idle [c] ?s5" by (rule idle_keeps [OF keeps_trans [OF 4(2) 5(2)] i3 5(1)])
        obtain e s6 where 6: "on_conn env c (op_TxCommit (en_ops env) h) ?s5 = (e, s6)" by fastforce
        have i6: "idle [c] s6" by (rule idle_on_conn [OF i5 6])
        have "idle [c] (snd (retrieveBookmarks env c bs s6))"
          using i6 ok_bookmarks [of "[c]" s6 env c bs] idle_keeps [OF _ i6] unfolding idle_def by blast
        moreover have "s' = pool_Return c (case ret of Some _ \<Rightarrow> ?s5 | None \<Rightarrow> (case e of Some _ \<Rightarrow> s6 | None \<Rightarrow> snd (retrieveBookmarks env c bs s6)))"
          using arg_cong [OF assms(3), of snd] by (cases ret; cases e) (simp_all add: session_executeTransactionFunction_def 1 Inr bs 3 p n 6 Let_def)
        ultimately show ?thesis using i5 i6 by (auto split: option.splits)
      qed
    qed
    then show ?thesis using idle_Return by blast
  qed
qed

lemma idle_retry_rounds:
  assumes "honest env" "idle [] s"
  shows "idle [] (snd (retry_rounds env readMode cfg blocking api rounds sent st s))"
  using assms(2)
proof (induction rounds arbitrary: sent st s)
  case (Cons r rounds)
  obtain v work ret where r: "r = (v, work, ret)" by (cases r)
  obtain go st1 where c: "Continue v st = (go, st1)" by fastforce
  obtain fin st2 sent2 s1 where e: "session_executeTransactionFunction env readMode cfg work ret blocking sent api st1 s = ((fin, st2, sent2), s1)"
    by (metis prod.exhaust)
  show ?case
    using Cons idle_executeTransactionFunction [OF assms(1) Cons.prems e] by (cases go; cases fin) (simp_all add: r c e)
qed simp

lemma sound_runRetriable:
  assumes "honest env" "sound s"
  shows "sound (snd (session_runRetriable env readMode cfg blocking api rounds st s))"
proof (cases "se_closed s \<or> explicitTx s \<noteq> None")
  case True
  then show ?thesis using assms(2) by (auto simp: session_runRetriable_def)
next
  case False
  have ok: "ok [] s" using assms(2) unfolding sound_def by blast
  then show ?thesis using False idle_finish [OF ok] idle_retry_rounds [OF assms(1)]
    by (auto simp: session_runRetriable_def Let_def sound_idle split: option.splits)
qed

lemmas sound_execute = sound_runRetriable [of _ _ True _ True 0, folded ExecuteRead_def]
  sound_runRetriable [of _ _ False _ True 0, folded ExecuteWrite_def]
  sound_runRetriable [of _ _ True _ False 3, folded executeQueryRead_def]
  sound_runRetriable [of _ _ False _ False 3, folded executeQueryWrite_def]

text \<open>Closing: nothing is open afterwards.\<close>

lemma ok_set_closed: "ok X (s\<lparr>se_closed := b\<rparr>) = ok X s" (is "ok X ?s = _")
proof -
  have e: "se_log ?s = se_log s" "se_etxs ?s = se_etxs s" "explicitTx ?s = explicitTx s" "autocommitTx ?s = autocommitTx s"
    "se_txs ?s = se_txs s" "se_results ?s = se_results s"
    by simp_all
  show ?thesis unfolding ok_def owns_def open_conns_def linked_def closes_def current_def live_def e by (rule refl)
qed

lemma sound_Close:
  assumes "sound s"
  shows "sound (snd (session_Close env s))" "held (se_log (snd (session_Close env s))) = []"
proof -
  have ok: "ok [] s" using assms unfolding sound_def by blast
  have "idle [] (snd (session_Close env s))"
  proof (cases "se_closed s")
    case True
    then show ?thesis using assms by (simp add: session_Close_def sound_def idle_def)
  next
    case False
    obtain e s1 where 1: "(case explicitTx s of None \<Rightarrow> (None, s) | Some k \<Rightarrow> explicit_Close env k s) = (e, s1)" by fastforce
    have a: "ok [] s1 \<and> explicitTx s1 = None"
    proof (cases "explicitTx s")
      case None
      then show ?thesis using 1 ok by simp
    next
      case (Some k)
      have "k < length (se_etxs s)" using ok Some unfolding ok_def owns_def current_def by blast
      then show ?thesis using 1 Some ok_explicit_Close [OF ok, of k env e s1] by simp
    qed
    let ?s2 = "case autocommitTx s1 of None \<Rightarrow> s1 | Some tx \<Rightarrow> autocommit_discard env tx s1"
    have b: "idle [] ?s2"
      using a ok_end_autocommit [of "[]" s1 _ "autocommit_discard env _ s1" env] by (cases "autocommitTx s1") (simp_all add: idle_def)
    let ?s3 = "logged EvRouterCleanUp (logged EvPoolCleanUp ?s2)"
    have v: "view ?s3 = view ?s2" by (simp add: quiet_def)
    have i: "idle [] ?s3" using b idle_frame [OF view_frame [OF v] b] ok_view [OF v, of "[]"] unfolding idle_def by blast
    then have "idle [] (?s3\<lparr>se_closed := True\<rparr>)" by (simp add: idle_def ok_set_closed)
    moreover have "snd (session_Close env s) = ?s3\<lparr>se_closed := True\<rparr>" using False 1 by (simp add: session_Close_def Let_def)
    ultimately show ?thesis by simp
  qed
  note i = this
  show "sound (snd (session_Close env s))" by (rule sound_idle [OF i])
  have "set (held (se_log (snd (session_Close env s)))) = {}" 
    using i idle_open [OF i] unfolding idle_def ok_def owns_def by simp
  then show "held (se_log (snd (session_Close env s))) = []" by simp
qed

lemma frame_borrow_once:
  assumes "honest env" "ok X s" "borrow_once env s = (r, s')"
  shows "ok X s'" "keeps s s'"
proof -
  obtain q s1 where 1: "getOrUpdateServers env True False False s = (q, s1)" by fastforce
  have a: "ok X s1" "frame s1 = frame s" using ok_view view_servers [OF 1] view_frame assms(2) by metis+
  have "ok X s' \<and> frame s' = frame s"
  proof (cases q)
    case (Inl e)
    then show ?thesis using a assms(3) by (auto simp: borrow_once_def 1)
  next
    case (Inr l)
    obtain p s2 where 2: "borrowConnection env (en_readers env (se_log s1) (se_databaseName s1)) s1 = (p, s2)" by fastforce
    have "owns X s1" using a(1) unfolding ok_def by blast
    note b = owns_borrow [OF assms(1) this 2]
    have l: "live s2" "frame s2 = frame s" using live_frame [OF b(1)] a b(1) unfolding ok_def by simp_all
    show ?thesis
    proof (cases p)
      case p: (Inl e)
      then show ?thesis using b l assms(3) by (auto simp: borrow_once_def 1 Inr 2 ok_def)
    next
      case p: (Inr c)
      then have "ok (c # X) s2" using b l by (simp add: ok_def)
      then have "ok X (pool_Return c s2)" by (rule ok_Return)
      then show ?thesis using p assms(3) l by (auto simp: borrow_once_def 1 Inr 2)
    qed
  qed
  then show "ok X s'" "keeps s s'" by (simp_all add: keeps_frame)
qed

lemma ok_verifyAuthentication:
  assumes "honest env" "ok X s"
  shows "ok X (snd (verifyAuthentication env s)) \<and> keeps s (snd (verifyAuthentication env s))"
proof -
  obtain r s1 where "borrow_once env s = (r, s1)" by fastforce
  with frame_borrow_once [OF assms this] show ?thesis by (simp add: verifyAuthentication_def split: sum.split)
qed

lemma ok_getServerInfo:
  assumes "honest env" "ok X s"
  shows "ok X (snd (getServerInfo env s)) \<and> keeps s (snd (getServerInfo env s))"
proof -
  obtain e s1 where 1: "resolveHomeDatabase env s = (e, s1)" by fastforce
  have a: "ok X s1" "keeps s s1" using ok_view view_resolve [OF 1] keeps_view assms(2) by metis+
  obtain r s2 where 2: "borrow_once env s1 = (r, s2)" by fastforce
  from frame_borrow_once [OF assms(1) a(1) 2] a keeps_trans show ?thesis
    by (cases e; cases r) (simp_all add: getServerInfo_def 1 2, blast+)
qed

lemma ok_LastBookmarks: "ok X s \<Longrightarrow> ok X (snd (LastBookmarks env s)) \<and> keeps s (snd (LastBookmarks env s))"
proof -
  have v: "view (snd (LastBookmarks env s)) = view s" by (simp add: LastBookmarks_def view_def split: option.split)
  then show "ok X s \<Longrightarrow> ?thesis" using ok_view [OF v] keeps_view [OF v] by blast
qed

section \<open>Any program\<close>

text \<open>
  What a program can call on a session, on the explicit transactions it was given and on the results; a transaction it
  was never given cannot be called.
\<close>

datatype scall =
    CBegin transactionConfig
  | CRun string gomap transactionConfig
  | CExecute bool bool transactionConfig "(cenv \<times> work_step list \<times> goerr option) list" rstate  \<comment> \<open>read; managed, else of a query\<close>
  | CTxRun nat string gomap | CTxCommit nat | CTxRollback nat | CTxClose nat
  | CResult nat rcall
  | CLastBookmarks | CServerInfo | CVerify | CClose

fun scall_step :: "'c senv \<Rightarrow> scall \<Rightarrow> 'c session \<Rightarrow> 'c session" where
  "scall_step env (CBegin cfg) s = snd (BeginTransaction env cfg s)"
| "scall_step env (CRun cypher params cfg) s = snd (session_Run env cypher params cfg s)"
| "scall_step env (CExecute readMode managed cfg rounds st) s =
     snd ((if managed then if readMode then ExecuteRead env else ExecuteWrite env
           else if readMode then executeQueryRead env else executeQueryWrite env) cfg rounds st s)"
| "scall_step env (CTxRun k cypher params) s =
     (if k < length (se_etxs s) then snd (explicit_Run env k cypher params s) else s)"
| "scall_step env (CTxCommit k) s = (if k < length (se_etxs s) then snd (explicit_Commit env k s) else s)"
| "scall_step env (CTxRollback k) s = (if k < length (se_etxs s) then snd (explicit_Rollback env k s) else s)"
| "scall_step env (CTxClose k) s = (if k < length (se_etxs s) then snd (explicit_Close env k s) else s)"
| "scall_step env (CResult j q) s = result_call env j q s"
| "scall_step env CLastBookmarks s = snd (LastBookmarks env s)"
| "scall_step env CServerInfo s = snd (getServerInfo env s)"
| "scall_step env CVerify s = snd (verifyAuthentication env s)"
| "scall_step env CClose s = snd (session_Close env s)"

lemma sound_explicit:
  assumes "sound s" "k < length (se_etxs s)"
  shows "sound (snd (explicit_Run env k cypher params s))" "sound (snd (explicit_Commit env k s))"
    "sound (snd (explicit_Rollback env k s))" "sound (snd (explicit_Close env k s))"
proof -
  have ok: "ok [] s" using assms unfolding sound_def by blast
  note pc = prod.collapse [symmetric]
  show "sound (snd (explicit_Run env k cypher params s))" "sound (snd (explicit_Commit env k s))"
    "sound (snd (explicit_Rollback env k s))" "sound (snd (explicit_Close env k s))"
    using sound_keeps [OF assms(1)] ok_explicit_Run [OF ok assms(2) pc] ok_explicit_Commit [OF ok assms(2) pc]
      ok_explicit_Rollback(1) [OF ok assms(2) pc] ok_explicit_Close(1) [OF ok assms(2) pc]
    by blast+
qed

lemma sound_step:
  assumes "honest env" "sound s"
  shows "sound (scall_step env q s)"
proof -
  have ok: "ok [] s" using assms(2) unfolding sound_def by blast
  show ?thesis
  proof (cases q)
    case (CBegin cfg)
    then show ?thesis using sound_BeginTransaction [OF assms prod.collapse [symmetric]] by simp
  next
    case (CResult j r)
    then show ?thesis using ok_result_call [OF ok] sound_keeps [OF assms(2)] by simp
  next
    case CLastBookmarks
    then show ?thesis using ok_LastBookmarks [OF ok] sound_keeps [OF assms(2)] by simp
  next
    case CServerInfo
    then show ?thesis using ok_getServerInfo [OF assms(1) ok] sound_keeps [OF assms(2)] by simp
  next
    case CVerify
    then show ?thesis using ok_verifyAuthentication [OF assms(1) ok] sound_keeps [OF assms(2)] by simp
  qed (use assms in \<open>auto simp: sound_session_Run sound_execute sound_explicit sound_Close\<close>)
qed

lemma sound_new: "sound (newSession bm bs db guess conns)"
  by (simp add: newSession_def sound_def ok_def owns_def open_conns_def linked_def current_def live_def)

lemma sound_calls: "honest env \<Longrightarrow> sound s \<Longrightarrow> sound (fold (scall_step env) calls s)"
  by (induction calls arbitrary: s) (simp_all add: sound_step)

lemma open_at_most_one: "ok [] s \<Longrightarrow> length (open_conns s) \<le> 1"
proof -
  assume "ok [] s"
  then have "current s" unfolding ok_def owns_def by blast
  then have "explicitTx s = None \<or> autocommitTx s = None" unfolding current_def by (elim conjE)
  then show ?thesis by (auto simp: open_conns_def split: option.split)
qed

text \<open>
  C2: no connection leaks from a session and none is returned twice. Whatever a program calls on a session, on its
  transactions and on its results, in whatever order, and however the calls of the pool, the router and the
  connections end: the connections that are borrowed and not yet returned are those of the one open transaction, no
  connection is returned that is not out, and after Close nothing is out. The pool is assumed not to hand out a
  connection that is out, which is what it promises.
\<close>

theorem session_no_leak:
  assumes "honest env" and s: "s = fold (scall_step env) calls (newSession bm bookmarks database guess conns)"
  shows "ret_ok (se_log s) \<and> distinct (held (se_log s)) \<and> set (held (se_log s)) = set (open_conns s) \<and>
    length (open_conns s) \<le> 1 \<and> held (se_log (snd (session_Close env s))) = []"
proof -
  have s: "sound s" unfolding s by (rule sound_calls [OF assms(1) sound_new])
  then have ok: "ok [] s" unfolding sound_def by blast
  then have "ret_ok (se_log s)" "distinct (held (se_log s))" "set (held (se_log s)) = set (open_conns s @ [])"
    unfolding ok_def owns_def by blast+
  with open_at_most_one [OF ok] sound_Close(2) [OF s] show ?thesis by simp
qed

text \<open>A pool with one connection. The first result fails and takes its transaction with it, so the second BEGIN gets the connection.\<close>

definition demo_ops :: "unit conn_ops" where
  "demo_ops =
     \<lparr>op_Next = \<lambda>_ c. (NErr (UsageError ''end''), c), op_Consume = \<lambda>_ c. ((None, None), c), op_Buffer = \<lambda>_ c. (None, c), op_Keys = \<lambda>_ _. Inr [],
      op_Telemetry = \<lambda>_ c. c, op_telemetryDone = \<lambda>_. True, op_TxBegin = \<lambda>_ _ c. (Inr 1, c), op_TxCommit = \<lambda>_ c. (None, c),
      op_TxRollback = \<lambda>_ c. (None, c), op_Run = \<lambda>_ _ _ _ c. (Inr 0, c), op_RunTx = \<lambda>_ _ _ _ c. (Inr 0, c), op_Bookmark = \<lambda>_. ''bm'',
      op_IsAlive = \<lambda>_. True, op_HasFailed = \<lambda>_. False, op_IsSsrEnabled = \<lambda>_. True, op_SelectDatabase = None,
      op_ServerName = \<lambda>_. ''s'', op_pins = \<lambda>_. []\<rparr>"

definition demo_env :: "unit senv" where
  "demo_env =
     \<lparr>en_ops = demo_ops, en_route = \<lambda>_. (Inr [''s''], None), en_readers = \<lambda>_ _. [''s''], en_homeDb = \<lambda>_. Inr [],
      en_borrow = \<lambda>l. if 0 \<in> set (held l) then Inl (UsageError ''full'') else Inr (0, ()),
      en_cacheEnabled = \<lambda>_. False, en_cacheKey = \<lambda>_. Inr [], en_supply = None, en_consume = None, en_key = [], en_readMode = False,
      en_fetchSize = 1000, en_impersonated = [], en_notifications = \<lparr>MinSev = [], cats_none = True, cats = [], clas_none = True, clas = []\<rparr>, en_telemetryDisabled = True,
      en_disableRetries = False\<rparr>"

lemma demo_honest: "honest demo_env"
  by (auto simp: honest_def demo_env_def split: if_splits)

definition demo_session :: "scall list \<Rightarrow> unit session" where
  "demo_session calls = fold (scall_step demo_env) calls (newSession None [] [] None (\<lambda>_. ()))"

theorem session_no_leak_witness:
  "held (se_log (demo_session [CBegin defaultTransactionConfig, CTxRun 0 ''RETURN 1'' [], CResult 0 RNext, CBegin defaultTransactionConfig,
      CRun ''RETURN 2'' [] defaultTransactionConfig])) = [0] \<and>
   held (se_log (demo_session [CBegin defaultTransactionConfig, CTxCommit 0, CRun ''RETURN 2'' [] defaultTransactionConfig])) = [0] \<and>
   held (se_log (snd (session_Close demo_env
     (demo_session [CBegin defaultTransactionConfig, CTxCommit 0, CRun ''RETURN 2'' [] defaultTransactionConfig])))) = []"
  (is "?a \<and> ?b \<and> ?c")
proof (intro conjI)
  show ?c using session_no_leak [OF demo_honest demo_session_def] by blast
  show ?a by code_simp
  show ?b by code_simp
qed

end
