(* ===== verification/PropertyCodec.thy ===== *)
theory PropertyCodec
  imports Dehydrate "HOL-Library.Char_ord" "HOL-Library.List_Lexorder"
begin

text \<open>
  The encoding of property values for encryption: src/neo4j/internal/propertyencryption, the files scheme.go,
  encode.go, decode.go and structure.go. Encoder and decoder are the structs of the code, their methods functions on
  them; a panic is \<^const>\<open>None\<close>. The arguments of the encoder are the Go values of \<^typ>\<open>goarg\<close>; the numbers that error
  messages end with are left out.
\<close>

section \<open>The scheme\<close>

record scheme_version =
  sv_Major :: int64
  sv_Minor :: int64

definition Implemented :: scheme_version where
  "Implemented = \<lparr>sv_Major = 1, sv_Minor = 0\<rparr>"

definition atLeast_version :: "scheme_version \<Rightarrow> scheme_version \<Rightarrow> bool" where
  "atLeast_version v w = (if sv_Major v \<noteq> sv_Major w then sint (sv_Major w) < sint (sv_Major v) else sint (sv_Minor w) \<le> sint (sv_Minor v))"

definition version_max :: "scheme_version \<Rightarrow> scheme_version \<Rightarrow> scheme_version" where
  "version_max v w = (if atLeast_version v w then v else w)"

definition typeBaselines :: "(string \<times> scheme_version) list" where
  "typeBaselines = map (\<lambda>t. (t, \<lparr>sv_Major = 1, sv_Minor = 0\<rparr>))
     [''BOOLEAN'', ''BYTES'', ''DATE'', ''DURATION'', ''FLOAT'', ''INTEGER'', ''LIST'', ''LOCAL DATETIME'', ''LOCAL TIME'', ''NULL'',
      ''POINT'', ''STRING'', ''UUID'', ''VECTOR'', ''ZONED DATETIME'', ''ZONED TIME'']"

definition aadTypes :: "string list" where
  "aadTypes = [''BOOLEAN'', ''BYTES'', ''DATE'', ''INTEGER'', ''LOCAL TIME'', ''POINT'', ''STRING'', ''UUID'', ''ZONED TIME'']"

definition aadTypeBaselines :: "(string \<times> scheme_version) list" where
  "aadTypeBaselines = map (\<lambda>t. (t, the (map_of typeBaselines t))) aadTypes"

text \<open>The errors of the package, of the services that the application provides, and the public Error with its cause.\<close>

datatype encerr =
    ValueError string | MalformedError string | UnsupportedProfileError string int64 | ErrUnsupported
  | ErrAuthentication | ErrKeyNotFound
  | FmtError string                     \<comment> \<open>fmt.Errorf\<close>
  | GoErr goerr
  | WrapError string encerr             \<comment> \<open>fmt.Errorf with \<^verbatim>\<open>%w\<close>\<close>
  | EncError string "encerr option"     \<comment> \<open>the type Error: Message, Cause\<close>

section \<open>Encoding\<close>

record encoded =
  en_Bytes :: bytes
  en_TypeName :: string
  en_Baseline :: scheme_version

record elemKind =
  ek_typeName :: string
  ek_srid :: "32 word"
  ek_dimensions :: int

definition noKind :: elemKind where
  "noKind = \<lparr>ek_typeName = [], ek_srid = 0, ek_dimensions = 0\<rparr>"

record encoder =
  e_packer :: packer
  e_permitted :: "(string \<times> scheme_version) list"
  e_baseline :: scheme_version
  e_err :: "encerr option"

definition encoder_setErr :: "string \<Rightarrow> encoder \<Rightarrow> encoder" where
  "encoder_setErr msg e = (if e_err e = None then e\<lparr>e_err := Some (ValueError msg)\<rparr> else e)"

definition accept :: "string \<Rightarrow> encoder \<Rightarrow> bool \<times> encoder" where
  "accept ty e =
     (case map_of (e_permitted e) ty of
        None \<Rightarrow>
          (False, encoder_setErr (if map_of typeBaselines ty \<noteq> None then ty @ '' is not supported as additional authenticated data''
                                  else ty @ '' is not a Neo4j property type'') e)
      | Some b \<Rightarrow> (True, e\<lparr>e_baseline := version_max (e_baseline e) b\<rparr>))"

text \<open>pack, and packPoint with the reference system and the dimensions of the point.\<close>

definition pack_kind :: "elemKind \<Rightarrow> (packer \<Rightarrow> packer) \<Rightarrow> encoder \<Rightarrow> elemKind \<times> encoder" where
  "pack_kind k write e =
     (case accept (ek_typeName k) e of
        (False, e1) \<Rightarrow> (noKind, e1)
      | (True, e1) \<Rightarrow> (k, e1\<lparr>e_packer := write (e_packer e1)\<rparr>))"

definition encoder_pack :: "string \<Rightarrow> (packer \<Rightarrow> packer) \<Rightarrow> encoder \<Rightarrow> elemKind \<times> encoder" where
  "encoder_pack ty = pack_kind \<lparr>ek_typeName = ty, ek_srid = 0, ek_dimensions = 0\<rparr>"

definition encoder_packPoint :: "32 word \<Rightarrow> int \<Rightarrow> (packer \<Rightarrow> packer) \<Rightarrow> encoder \<Rightarrow> elemKind \<times> encoder" where
  "encoder_packPoint srid dims = pack_kind \<lparr>ek_typeName = ''POINT'', ek_srid = srid, ek_dimensions = dims\<rparr>"

definition encoder_packVector :: "bool \<Rightarrow> (packer \<Rightarrow> packer) \<Rightarrow> encoder \<Rightarrow> elemKind \<times> encoder" where
  "encoder_packVector inList write e =
     (if inList then (noKind, encoder_setErr ''a list stored as a property cannot contain a vector'' e)
      else encoder_pack ''VECTOR'' write e)"

definition encoder_packDate :: "tzdb \<Rightarrow> gotime \<Rightarrow> packer \<Rightarrow> packer" where
  "encoder_packDate tz t p =
     (let seconds = t_unix t + Zone tz t;
          days = word_of_int (sint seconds sdiv 86400);
          days = (if sint seconds smod 86400 < 0 then days - 1 else days)
      in Packer_Int64 (Packer_StructHeader p 0x44 1) days)"

definition encoder_packZonedTime :: "tzdb \<Rightarrow> gotime \<Rightarrow> packer \<Rightarrow> packer" where
  "encoder_packZonedTime tz t p = Packer_Int (Packer_Int64 (Packer_StructHeader p 0x54 2) (clock_nanos tz t)) (Zone tz t)"

definition encoder_packLocalTime :: "tzdb \<Rightarrow> gotime \<Rightarrow> packer \<Rightarrow> packer" where
  "encoder_packLocalTime tz t p = Packer_Int64 (Packer_StructHeader p 0x74 1) (clock_nanos tz t)"

definition encoder_packLocalDateTime :: "tzdb \<Rightarrow> gotime \<Rightarrow> packer \<Rightarrow> packer" where
  "encoder_packLocalDateTime tz t p =
     Packer_Int (Packer_Int64 (Packer_StructHeader p 0x64 2) (t_unix t + Zone tz t)) (word_of_int (t_nsec t))"

definition encoder_packZonedDateTime :: "tzdb \<Rightarrow> gotime \<Rightarrow> packer \<Rightarrow> packer" where
  "encoder_packZonedDateTime tz t p =
     (case id_of_time tz t of
        None \<Rightarrow> Packer_Int (Packer_Int (Packer_Int64 (Packer_StructHeader p 0x49 3) (t_unix t)) (word_of_int (t_nsec t))) (Zone tz t)
      | Some zid \<Rightarrow> Packer_String (Packer_Int (Packer_Int64 (Packer_StructHeader p 0x69 3) (t_unix t)) (word_of_int (t_nsec t))) zid)"

definition encoder_packPoint2D :: "32 word \<Rightarrow> 64 word \<Rightarrow> 64 word \<Rightarrow> packer \<Rightarrow> packer" where
  "encoder_packPoint2D srid x y p = Packer_Float64 (Packer_Float64 (Packer_Uint32 (Packer_StructHeader p 0x58 3) srid) x) y"

definition encoder_packPoint3D :: "32 word \<Rightarrow> 64 word \<Rightarrow> 64 word \<Rightarrow> 64 word \<Rightarrow> packer \<Rightarrow> packer" where
  "encoder_packPoint3D srid x y z p =
     Packer_Float64 (Packer_Float64 (Packer_Float64 (Packer_Uint32 (Packer_StructHeader p 0x59 4) srid) x) y) z"

definition encoder_packDuration :: "int64 \<Rightarrow> int64 \<Rightarrow> int64 \<Rightarrow> int64 \<Rightarrow> packer \<Rightarrow> packer" where
  "encoder_packDuration mo d s n p =
     Packer_Int (Packer_Int64 (Packer_Int64 (Packer_Int64 (Packer_StructHeader p 0x45 4) mo) d) s) n"

fun encoder_native :: "tzdb \<Rightarrow> bool \<Rightarrow> gonative \<Rightarrow> encoder \<Rightarrow> elemKind \<times> encoder" where
  "encoder_native tz inList (GDate t) e = encoder_pack ''DATE'' (encoder_packDate tz t) e"
| "encoder_native tz inList (GTimeOfDay t) e = encoder_pack ''ZONED TIME'' (encoder_packZonedTime tz t) e"
| "encoder_native tz inList (GLocalTime t) e = encoder_pack ''LOCAL TIME'' (encoder_packLocalTime tz t) e"
| "encoder_native tz inList (GLocalDateTime t) e = encoder_pack ''LOCAL DATETIME'' (encoder_packLocalDateTime tz t) e"
| "encoder_native tz inList (GTime t) e = encoder_pack ''ZONED DATETIME'' (encoder_packZonedDateTime tz t) e"
| "encoder_native tz inList (GDuration mo d s n) e = encoder_pack ''DURATION'' (encoder_packDuration mo d s n) e"
| "encoder_native tz inList (GPoint2D s x y) e = encoder_packPoint s 2 (encoder_packPoint2D s x y) e"
| "encoder_native tz inList (GPoint3D s x y z) e = encoder_packPoint s 3 (encoder_packPoint3D s x y z) e"
| "encoder_native tz inList (GVectorI8 v) e = encoder_packVector inList (\<lambda>p. Packer_VectorInt8 p v) e"
| "encoder_native tz inList (GVectorI16 v) e = encoder_packVector inList (\<lambda>p. Packer_VectorInt16 p v) e"
| "encoder_native tz inList (GVectorI32 v) e = encoder_packVector inList (\<lambda>p. Packer_VectorInt32 p v) e"
| "encoder_native tz inList (GVectorI64 v) e = encoder_packVector inList (\<lambda>p. Packer_VectorInt64 p v) e"
| "encoder_native tz inList (GVectorF32 v) e = encoder_packVector inList (\<lambda>p. Packer_VectorFloat32 p v) e"
| "encoder_native tz inList (GVectorF64 v) e = encoder_packVector inList (\<lambda>p. Packer_VectorFloat64 p v) e"

definition encoder_mixed :: "elemKind \<Rightarrow> elemKind \<Rightarrow> encoder \<Rightarrow> encoder" where
  "encoder_mixed first got' e =
     (if ek_typeName first \<noteq> ek_typeName got'
      then encoder_setErr (''a list stored as a property cannot mix '' @ ek_typeName first @ '' and '' @ ek_typeName got') e
      else encoder_setErr ''points in a list stored as a property must have the same coordinate reference system and dimensions'' e)"

text \<open>The loop over the elements of a slice; \<^const>\<open>None\<close>: no element has been seen.\<close>

fun encoder_elems :: "('v \<Rightarrow> encoder \<Rightarrow> elemKind \<times> encoder) \<Rightarrow> 'v list \<Rightarrow> elemKind option \<Rightarrow> encoder \<Rightarrow> elemKind \<times> encoder" where
  "encoder_elems f [] first e = (noKind\<lparr>ek_typeName := ''LIST''\<rparr>, e)"
| "encoder_elems f (x # xs) first e =
     (case f x e of
        (kind, e1) \<Rightarrow>
          if e_err e1 \<noteq> None then (noKind, e1)
          else case first of
                 None \<Rightarrow> encoder_elems f xs (Some kind) e1
               | Some k \<Rightarrow> if kind \<noteq> k then (noKind, encoder_mixed k kind e1) else encoder_elems f xs first e1)"

definition encoder_list :: "('v \<Rightarrow> encoder \<Rightarrow> elemKind \<times> encoder) \<Rightarrow> bool \<Rightarrow> 'v list \<Rightarrow> encoder \<Rightarrow> elemKind \<times> encoder" where
  "encoder_list f inList xs e =
     (if inList then (noKind, encoder_setErr ''a list stored as a property cannot contain another list'' e)
      else
        case accept ''LIST'' e of
          (False, e1) \<Rightarrow> (noKind, e1)
        | (True, e1) \<Rightarrow> encoder_elems f xs None (e1\<lparr>e_packer := Packer_ArrayHeader (e_packer e1) (int (length xs))\<rparr>))"

lemma encoder_elems_cong:
  "(\<And>x e. x \<in> set xs \<Longrightarrow> f x e = g x e) \<Longrightarrow> encoder_elems f xs first e = encoder_elems g xs first e"
proof (induction xs arbitrary: first e)
  case (Cons x xs)
  then have IH: "encoder_elems f xs first e = encoder_elems g xs first e" for first e by simp
  have "f x e = g x e" using Cons.prems by simp
  then show ?case by (simp add: IH split: prod.split option.split)
qed simp

lemma encoder_list_cong [fundef_cong]:
  "xs = ys \<Longrightarrow> inList = inList' \<Longrightarrow> e = e' \<Longrightarrow> (\<And>x e. x \<in> set ys \<Longrightarrow> f x e = g x e) \<Longrightarrow>
     encoder_list f inList xs e = encoder_list g inList' ys e'"
  unfolding encoder_list_def using encoder_elems_cong [of ys f g] by (auto split: prod.split bool.split)

text \<open>
  The cases of the type switch and of reflected that contain no further value. An unsigned integer of fewer than 64
  bits fits an int64, so that packInt and packUint write the same for it.
\<close>

fun encoder_leaf :: "tzdb \<Rightarrow> bool \<Rightarrow> goarg \<Rightarrow> encoder \<Rightarrow> elemKind \<times> encoder" where
  "encoder_leaf tz inList (GBool b) e = encoder_pack ''BOOLEAN'' (\<lambda>p. Packer_Bool p b) e"
| "encoder_leaf tz inList (GString s) e = encoder_pack ''STRING'' (\<lambda>p. Packer_String p s) e"
| "encoder_leaf tz inList (GInt i) e = encoder_pack ''INTEGER'' (\<lambda>p. Packer_Int64 p i) e"
| "encoder_leaf tz inList (GUint32 w) e = encoder_pack ''INTEGER'' (\<lambda>p. Packer_Int64 p (ucast w)) e"
| "encoder_leaf tz inList (GUint64 w) e = encoder_pack ''INTEGER'' (\<lambda>p. Packer_Uint64 p w) e"
| "encoder_leaf tz inList (GFloat f) e = encoder_pack ''FLOAT'' (\<lambda>p. Packer_Float64 p f) e"
| "encoder_leaf tz inList (GUUID u) e = encoder_pack ''UUID'' (\<lambda>p. Packer_UUID p u) e"
| "encoder_leaf tz inList (GNative n) e = encoder_native tz inList n e"
| "encoder_leaf tz inList GNil e =
     (if inList then (noKind, encoder_setErr ''a list stored as a property cannot contain null'' e) else encoder_pack ''NULL'' Packer_Nil e)"
| "encoder_leaf tz inList GNilPtr e =
     (if inList then (noKind, encoder_setErr ''a list stored as a property cannot contain null'' e) else encoder_pack ''NULL'' Packer_Nil e)"
| "encoder_leaf tz inList g e = (noKind, encoder_setErr ''not a Neo4j property type'' e)"

definition encoder_typed :: "bool \<Rightarrow> goslice \<Rightarrow> encoder \<Rightarrow> elemKind \<times> encoder" where
  "encoder_typed inList s e =
     (case s of
        SBytes b \<Rightarrow> encoder_pack ''BYTES'' (\<lambda>p. Packer_Bytes p b) e
      | SNamedBytes b \<Rightarrow> encoder_pack ''BYTES'' (\<lambda>p. Packer_Bytes p b) e
      | SInts xs \<Rightarrow> encoder_list (\<lambda>x. encoder_pack ''INTEGER'' (\<lambda>p. Packer_Int64 p x)) inList xs e
      | SInt64s xs \<Rightarrow> encoder_list (\<lambda>x. encoder_pack ''INTEGER'' (\<lambda>p. Packer_Int64 p x)) inList xs e
      | SStrings xs \<Rightarrow> encoder_list (\<lambda>x. encoder_pack ''STRING'' (\<lambda>p. Packer_String p x)) inList xs e
      | SFloat64s xs \<Rightarrow> encoder_list (\<lambda>x. encoder_pack ''FLOAT'' (\<lambda>p. Packer_Float64 p x)) inList xs e)"

fun encoder_value :: "tzdb \<Rightarrow> bool \<Rightarrow> goarg \<Rightarrow> encoder \<Rightarrow> elemKind \<times> encoder" where
  "encoder_value tz inList g e =
     (if e_err e \<noteq> None then (noKind, e)
      else
        case g of
          GPtr g' \<Rightarrow> encoder_value tz inList g' e
        | GIface g' \<Rightarrow> encoder_value tz inList g' e
        | GTyped s \<Rightarrow> encoder_typed inList s e
        | GAnys xs \<Rightarrow> encoder_list (encoder_value tz True) inList xs e
        | GSlice xs \<Rightarrow> encoder_list (encoder_value tz True) inList xs e
        | _ \<Rightarrow> encoder_leaf tz inList g e)"

declare encoder_value.simps [simp del]

definition encode_permitted :: "tzdb \<Rightarrow> (string \<times> scheme_version) list \<Rightarrow> goarg \<Rightarrow> encerr + encoded" where
  "encode_permitted tz permitted v =
     (case encoder_value tz False v
             \<lparr>e_packer = Packer_Begin [], e_permitted = permitted, e_baseline = \<lparr>sv_Major = 0, sv_Minor = 0\<rparr>, e_err = None\<rparr> of
        (kind, e) \<Rightarrow>
          (case Packer_End (e_packer e) of
             (buf, packErr) \<Rightarrow>
               (case e_err e of
                  Some err \<Rightarrow> Inl err
                | None \<Rightarrow>
                    (case packErr of
                       Some err \<Rightarrow> Inl (GoErr (PackstreamErr err))
                     | None \<Rightarrow> Inr \<lparr>en_Bytes = buf, en_TypeName = ek_typeName kind, en_Baseline = e_baseline e\<rparr>))))"

definition EncodeValue :: "tzdb \<Rightarrow> goarg \<Rightarrow> encerr + encoded" where
  "EncodeValue tz = encode_permitted tz typeBaselines"

definition EncodeAAD :: "tzdb \<Rightarrow> goarg \<Rightarrow> encerr + encoded" where
  "EncodeAAD tz = encode_permitted tz aadTypeBaselines"

section \<open>Decoding\<close>

record decoder =
  d_unp :: unpacker
  d_recorded :: scheme_version
  d_err :: "encerr option"
  d_unsupportedDetail :: string

type_synonym 'a dy = "decoder \<Rightarrow> ('a \<times> decoder) option"

definition decoder_setErr :: "encerr \<Rightarrow> decoder \<Rightarrow> decoder" where
  "decoder_setErr err d = (if d_err d = None then d\<lparr>d_err := Some err\<rparr> else d)"

definition malformed :: "string \<Rightarrow> decoder \<Rightarrow> decoder" where
  "malformed msg d = decoder_setErr (MalformedError msg) d"

definition decoder_unsupported :: "string \<Rightarrow> decoder \<Rightarrow> decoder" where
  "decoder_unsupported detail d =
     (if d_err d = None then d\<lparr>d_unsupportedDetail := detail, d_err := Some ErrUnsupported\<rparr> else d)"

definition decoder_require :: "string \<Rightarrow> decoder \<Rightarrow> bool \<times> decoder" where
  "decoder_require ty d =
     (case map_of typeBaselines ty of
        None \<Rightarrow> (False, decoder_unsupported (''the '' @ ty @ '' type'') d)
      | Some b \<Rightarrow>
          if \<not> atLeast_version (d_recorded d) b then (False, decoder_unsupported (''a '' @ ty @ '' encoded under another scheme'') d)
          else (True, d))"

text \<open>A method of the unpacker, and the methods int, float, string and bytes: Next, the kind, the value.\<close>

definition d_unpack :: "(unpacker \<Rightarrow> ('a \<times> unpacker) option) \<Rightarrow> 'a dy" where
  "d_unpack f d = do { (x, u) \<leftarrow> f (d_unp d); Some (x, d\<lparr>d_unp := u\<rparr>) }"

definition d_Next :: "decoder \<Rightarrow> decoder option" where
  "d_Next d = do { u \<leftarrow> Unpacker_Next (d_unp d); Some (d\<lparr>d_unp := u\<rparr>) }"

definition d_typed :: "packed \<Rightarrow> string \<Rightarrow> 'a \<Rightarrow> (unpacker \<Rightarrow> ('a \<times> unpacker) option) \<Rightarrow> 'a dy" where
  "d_typed kind msg zero f d =
     do { d \<leftarrow> d_Next d;
          if u_Curr (d_unp d) \<noteq> kind then Some (zero, malformed msg d) else d_unpack f d }"

definition d_int :: "int64 dy" where
  "d_int = d_typed PackedInt ''expected an integer field'' 0 Unpacker_Int"

definition d_float :: "64 word dy" where
  "d_float = d_typed PackedFloat ''expected a float field'' 0 Unpacker_Float"

definition d_string :: "string dy" where
  "d_string = d_typed PackedStr ''expected a string field'' [] Unpacker_String"

definition d_bytes :: "bytes dy" where
  "d_bytes = d_typed PackedByteArray ''expected a byte array field'' [] Unpacker_ByteArray"

definition fieldCount :: "string \<Rightarrow> uint32 \<Rightarrow> uint32 \<Rightarrow> decoder \<Rightarrow> bool \<times> decoder" where
  "fieldCount name expected actual d =
     (if actual \<noteq> expected then (False, malformed (name @ '' has the wrong number of fields'') d) else (True, d))"

text \<open>What every structure begins with; and the value at its end, nil after an error.\<close>

definition d_struct :: "string \<Rightarrow> string \<Rightarrow> uint32 \<Rightarrow> uint32 \<Rightarrow> goval dy \<Rightarrow> goval dy" where
  "d_struct ty name expected nfields body d =
     (case decoder_require ty d of
        (False, d1) \<Rightarrow> Some (VNil, d1)
      | (True, d1) \<Rightarrow> (case fieldCount name expected nfields d1 of (False, d2) \<Rightarrow> Some (VNil, d2) | (True, d2) \<Rightarrow> body d2))"

definition d_ret :: "goval \<Rightarrow> goval dy" where
  "d_ret v d = Some (if d_err d \<noteq> None then VNil else v, d)"

definition d_date :: "uint32 \<Rightarrow> goval dy" where
  "d_date nfields = d_struct ''DATE'' ''Date'' 1 nfields (\<lambda>d.
     do { (days, d) \<leftarrow> d_int d; d_ret (VDate (In (time_Unix (days * 86400) 0) UTC)) d })"

definition d_zonedTime :: "tzdb \<Rightarrow> uint32 \<Rightarrow> goval dy" where
  "d_zonedTime tz nfields = d_struct ''ZONED TIME'' ''Time'' 2 nfields (\<lambda>d.
     do { (nanos, d) \<leftarrow> d_int d;
          (offset, d) \<leftarrow> d_int d;
          d_ret (case split_nanos nanos of (s, n) \<Rightarrow> VTime (Date_zero tz s n (FixedZone ''Offset'' offset))) d })"

definition d_localTime :: "tzdb \<Rightarrow> uint32 \<Rightarrow> goval dy" where
  "d_localTime tz nfields = d_struct ''LOCAL TIME'' ''LocalTime'' 1 nfields (\<lambda>d.
     do { (nanos, d) \<leftarrow> d_int d;
          d_ret (case split_nanos nanos of (s, n) \<Rightarrow> VLocalTime (Date_zero tz s n LocalZone)) d })"

definition d_localDateTime :: "tzdb \<Rightarrow> uint32 \<Rightarrow> goval dy" where
  "d_localDateTime tz nfields = d_struct ''LOCAL DATETIME'' ''LocalDateTime'' 2 nfields (\<lambda>d.
     do { (secs, d) \<leftarrow> d_int d;
          (nanos, d) \<leftarrow> d_int d;
          d_ret (VLocalDateTime (copy_civil tz (In (time_Unix secs nanos) UTC) LocalZone)) d })"

definition d_zonedDateTimeOffset :: "uint32 \<Rightarrow> goval dy" where
  "d_zonedDateTimeOffset nfields = d_struct ''ZONED DATETIME'' ''DateTime'' 3 nfields (\<lambda>d.
     do { (secs, d) \<leftarrow> d_int d;
          (nanos, d) \<leftarrow> d_int d;
          (offset, d) \<leftarrow> d_int d;
          d_ret (VDateTime (In (time_Unix secs nanos) (FixedZone ''Offset'' offset))) d })"

definition d_zonedDateTimeZoneId :: "tzdb \<Rightarrow> uint32 \<Rightarrow> goval dy" where
  "d_zonedDateTimeZoneId tz nfields = d_struct ''ZONED DATETIME'' ''DateTimeZoneId'' 3 nfields (\<lambda>d.
     do { (secs, d) \<leftarrow> d_int d;
          (nanos, d) \<leftarrow> d_int d;
          (zid, d) \<leftarrow> d_string d;
          if d_err d \<noteq> None then Some (VNil, d)
          else case zone_of_id tz zid of
                 None \<Rightarrow> Some (VNil, malformed ''unknown time zone'' d)
               | Some zone \<Rightarrow> Some (VDateTime (In (time_Unix secs nanos) zone), d) })"

definition d_duration :: "uint32 \<Rightarrow> goval dy" where
  "d_duration nfields = d_struct ''DURATION'' ''Duration'' 4 nfields (\<lambda>d.
     do { (months, d) \<leftarrow> d_int d;
          (days, d) \<leftarrow> d_int d;
          (secs, d) \<leftarrow> d_int d;
          (nanos, d) \<leftarrow> d_int d;
          d_ret (VDuration months days secs nanos) d })"

definition d_point2D :: "uint32 \<Rightarrow> goval dy" where
  "d_point2D nfields = d_struct ''POINT'' ''Point2D'' 3 nfields (\<lambda>d.
     do { (srid, d) \<leftarrow> d_int d;
          (x, d) \<leftarrow> d_float d;
          (y, d) \<leftarrow> d_float d;
          d_ret (VPoint2D (ucast srid) x y) d })"

definition d_point3D :: "uint32 \<Rightarrow> goval dy" where
  "d_point3D nfields = d_struct ''POINT'' ''Point3D'' 4 nfields (\<lambda>d.
     do { (srid, d) \<leftarrow> d_int d;
          (x, d) \<leftarrow> d_float d;
          (y, d) \<leftarrow> d_float d;
          (z, d) \<leftarrow> d_float d;
          d_ret (VPoint3D (ucast srid) x y z) d })"

definition decodeVector :: "nat \<Rightarrow> (bytes \<Rightarrow> goval) \<Rightarrow> bytes \<Rightarrow> goval dy" where
  "decodeVector width build elements d =
     (if length elements mod width \<noteq> 0 then Some (VNil, malformed ''Vector values have the wrong number of bytes'' d)
      else Some (build elements, d))"

definition d_vector :: "uint32 \<Rightarrow> goval dy" where
  "d_vector nfields = d_struct ''VECTOR'' ''Vector'' 2 nfields (\<lambda>d.
     do { (mrk, d) \<leftarrow> d_bytes d;
          (elements, d) \<leftarrow> d_bytes d;
          if d_err d \<noteq> None then Some (VNil, d)
          else if length mrk \<noteq> 1 then Some (VNil, malformed ''a Vector type marker should be 1 byte'' d)
          else do {
            m \<leftarrow> at mrk 0;
            if m = 0xc1 then decodeVector 8 (\<lambda>b. VVectorF64 (elems 8 b)) elements d
            else if m = 0xc6 then decodeVector 4 (\<lambda>b. VVectorF32 (elems 4 b)) elements d
            else if m = 0xc8 then decodeVector 1 (\<lambda>b. VVectorI8 (elems 1 b)) elements d
            else if m = 0xc9 then decodeVector 2 (\<lambda>b. VVectorI16 (elems 2 b)) elements d
            else if m = 0xca then decodeVector 4 (\<lambda>b. VVectorI32 (elems 4 b)) elements d
            else if m = 0xcb then decodeVector 8 (\<lambda>b. VVectorI64 (elems 8 b)) elements d
            else Some (VNil, decoder_unsupported ''a Vector with an unknown element marker'' d) } })"

definition d_by_tag :: "tzdb \<Rightarrow> byte \<Rightarrow> uint32 \<Rightarrow> goval dy" where
  "d_by_tag tz tag nfields =
     (if tag = 0x44 then d_date nfields
      else if tag = 0x54 then d_zonedTime tz nfields
      else if tag = 0x74 then d_localTime tz nfields
      else if tag = 0x64 then d_localDateTime tz nfields
      else if tag = 0x49 then d_zonedDateTimeOffset nfields
      else if tag = 0x69 then d_zonedDateTimeZoneId tz nfields
      else if tag = 0x45 then d_duration nfields
      else if tag = 0x58 then d_point2D nfields
      else if tag = 0x59 then d_point3D nfields
      else if tag = 0x56 then d_vector nfields
      else (\<lambda>d. Some (VNil, decoder_unsupported ''a structure with an unknown tag'' d)))"

definition d_structure :: "tzdb \<Rightarrow> goval dy" where
  "d_structure tz d =
     do { (tag, d) \<leftarrow> d_unpack Unpacker_StructTag d;
          (nfields, d) \<leftarrow> d_unpack Unpacker_Len d;
          if u_Err (d_unp d) \<noteq> None then Some (VNil, d) else d_by_tag tz tag nfields d }"

text \<open>The loop over the items of a list; \<^const>\<open>None\<close>: an item had an error.\<close>

fun d_items :: "goval dy \<Rightarrow> nat \<Rightarrow> goval list option dy" where
  "d_items f 0 d = Some (Some [], d)"
| "d_items f (Suc n) d =
     do { (item, d) \<leftarrow> f d;
          if d_err d \<noteq> None \<or> u_Err (d_unp d) \<noteq> None then Some (None, d)
          else do { (r, d) \<leftarrow> d_items f n d; Some (map_option (\<lambda>items. item # items) r, d) } }"

definition d_list :: "goval dy \<Rightarrow> goval dy" where
  "d_list f d =
     (case decoder_require ''LIST'' d of
        (False, d) \<Rightarrow> Some (VNil, d)
      | (True, d) \<Rightarrow>
          do { (n, d) \<leftarrow> d_unpack Unpacker_Len d;
               if u_Err (d_unp d) \<noteq> None then Some (VNil, d)
               else do { (r, d) \<leftarrow> d_items f (unat n) d; Some (case r of None \<Rightarrow> VNil | Some items \<Rightarrow> VList items, d) } })"

text \<open>A scalar of a type that is required first.\<close>

definition d_scalar :: "string \<Rightarrow> ('a \<Rightarrow> goval) \<Rightarrow> (unpacker \<Rightarrow> ('a \<times> unpacker) option) \<Rightarrow> goval dy" where
  "d_scalar ty build f d =
     (case decoder_require ty d of
        (False, d) \<Rightarrow> Some (VNil, d)
      | (True, d) \<Rightarrow> do { (x, d) \<leftarrow> d_unpack f d; Some (build x, d) })"

definition d_by_kind :: "tzdb \<Rightarrow> goval dy \<Rightarrow> bool \<Rightarrow> goval dy" where
  "d_by_kind tz item inList d =
     (case u_Curr (d_unp d) of
        PackedInt \<Rightarrow> d_scalar ''INTEGER'' VInt Unpacker_Int d
      | PackedFloat \<Rightarrow> d_scalar ''FLOAT'' VFloat Unpacker_Float d
      | PackedStr \<Rightarrow> d_scalar ''STRING'' VStr Unpacker_String d
      | PackedByteArray \<Rightarrow> d_scalar ''BYTES'' VBytes Unpacker_ByteArray d
      | PackedTrue \<Rightarrow> d_scalar ''BOOLEAN'' VBool (\<lambda>u. Some (Unpacker_Bool u)) d
      | PackedFalse \<Rightarrow> d_scalar ''BOOLEAN'' VBool (\<lambda>u. Some (Unpacker_Bool u)) d
      | PackedUUID \<Rightarrow> d_scalar ''UUID'' VUUID Unpacker_UUID d
      | PackedArray \<Rightarrow> d_list item d
      | PackedStruct \<Rightarrow> d_structure tz d
      | PackedNil \<Rightarrow>
          if inList then Some (VNil, malformed ''a list stored as a property cannot contain null'' d)
          else Some (VNil, snd (decoder_require ''NULL'' d))
      | _ \<Rightarrow> Some (VNil, decoder_unsupported ''a PackStream type this driver does not recognise'' d))"

text \<open>The method value; the first argument bounds the nesting of lists.\<close>

fun d_value :: "tzdb \<Rightarrow> nat \<Rightarrow> bool \<Rightarrow> goval dy" where
  "d_value tz 0 inList d = None"
| "d_value tz (Suc n) inList d =
     (if d_err d \<noteq> None then Some (VNil, d)
      else do { d \<leftarrow> d_Next d; d_by_kind tz (d_value tz n True) inList d })"

definition newUnsupportedType :: "string \<Rightarrow> scheme_version \<Rightarrow> string \<Rightarrow> goval" where
  "newUnsupportedType ty v msg = VUnsupported ty (sv_Major v) (sv_Minor v) (Some msg)"

definition unsupportedBaseline :: "string \<Rightarrow> scheme_version \<Rightarrow> goval option" where
  "unsupportedBaseline ty recorded =
     (if sv_Major recorded = sv_Major Implemented then
        if sint (sv_Minor recorded) \<le> sint (sv_Minor Implemented) then None
        else Some (newUnsupportedType ty recorded ''the driver needs updating'')
      else if sint (sv_Major Implemented) < sint (sv_Major recorded) then Some (newUnsupportedType ty recorded ''the driver needs updating'')
      else Some (newUnsupportedType ty recorded ''no longer supported''))"

definition new_decoder :: "scheme_version \<Rightarrow> bytes \<Rightarrow> decoder" where
  "new_decoder recorded buf =
     \<lparr>d_unp = Unpacker_Reset Unpacker_zero buf, d_recorded = recorded, d_err = None, d_unsupportedDetail = []\<rparr>"

definition DecodeValue :: "tzdb \<Rightarrow> bytes \<Rightarrow> string \<Rightarrow> scheme_version \<Rightarrow> (encerr + goval) option" where
  "DecodeValue tz plaintext ty recorded =
     (case unsupportedBaseline ty recorded of
        Some u \<Rightarrow> Some (Inr u)
      | None \<Rightarrow>
          do { (v, d) \<leftarrow> d_value tz (Suc (Suc (length plaintext))) False (new_decoder recorded plaintext);
               Some (if d_err d = Some ErrUnsupported then Inr (newUnsupportedType ty recorded (d_unsupportedDetail d))
                     else case d_err d of
                            Some err \<Rightarrow> Inl err
                          | None \<Rightarrow> (case u_Err (d_unp d) of
                                       Some err \<Rightarrow> Inl (MalformedError ''unpacker'')
                                     | None \<Rightarrow> Inr v)) })"

section \<open>The structure of an encrypted value\<close>

datatype meta_value = MetaString string | MetaBytes bytes | MetaInt int64 | MetaOther

record encrypted =
  en_ProfileType :: string
  en_ProfileVersion :: int64
  en_ProfileName :: string
  en_CipherOutput :: bytes
  en_TypeName' :: string
  en_Baseline' :: scheme_version
  en_Metadata :: "(string \<times> meta_value) list"

definition Metadata_String :: "(string \<times> meta_value) list \<Rightarrow> string \<Rightarrow> string option" where
  "Metadata_String m k = (case map_of m k of Some (MetaString s) \<Rightarrow> Some s | _ \<Rightarrow> None)"

definition Metadata_Bytes :: "(string \<times> meta_value) list \<Rightarrow> string \<Rightarrow> bytes option" where
  "Metadata_Bytes m k = (case map_of m k of Some (MetaBytes b) \<Rightarrow> Some b | _ \<Rightarrow> None)"

definition Metadata_Int :: "(string \<times> meta_value) list \<Rightarrow> string \<Rightarrow> int64 option" where
  "Metadata_Int m k = (case map_of m k of Some (MetaInt i) \<Rightarrow> Some i | _ \<Rightarrow> None)"

fun pack_metadata :: "(string \<times> meta_value) list \<Rightarrow> packer \<Rightarrow> encerr + packer" where
  "pack_metadata [] p = Inr p"
| "pack_metadata ((k, v) # m) p =
     (let p1 = Packer_String p k in
      case v of
        MetaString s \<Rightarrow> pack_metadata m (Packer_String p1 s)
      | MetaBytes b \<Rightarrow> pack_metadata m (Packer_Bytes p1 b)
      | MetaInt i \<Rightarrow> pack_metadata m (Packer_Int64 p1 i)
      | MetaOther \<Rightarrow> Inl (FmtError ''metadata entry has unsupported type''))"

definition EncodeEncrypted :: "encrypted \<Rightarrow> encerr + bytes" where
  "EncodeEncrypted e =
     (let p = Packer_StructHeader (Packer_Begin [0x01]) 0x65 8;
          p = Packer_Int64 (Packer_String p (en_ProfileType e)) (en_ProfileVersion e);
          p = Packer_Bytes (Packer_String p (en_ProfileName e)) (en_CipherOutput e);
          p = Packer_Int (Packer_Int (Packer_String p (en_TypeName' e)) (sv_Major (en_Baseline' e))) (sv_Minor (en_Baseline' e));
          p = Packer_MapHeader p (int (length (en_Metadata e)))
      in case pack_metadata (sort_key fst (en_Metadata e)) p of
           Inl err \<Rightarrow> Inl err
         | Inr p \<Rightarrow> (case Packer_End p of (buf, None) \<Rightarrow> Inr buf | (_, Some err) \<Rightarrow> Inl (GoErr (PackstreamErr err))))"

fun d_meta_entries :: "nat \<Rightarrow> (string \<times> meta_value) list \<Rightarrow> (string \<times> meta_value) list dy" where
  "d_meta_entries 0 m d = Some (m, d)"
| "d_meta_entries (Suc n) m d =
     do { (key, d) \<leftarrow> d_string d;
          if d_err d \<noteq> None then Some (m, d)
          else do {
            d \<leftarrow> d_Next d;
            case u_Curr (d_unp d) of
              PackedStr \<Rightarrow> do { (s, d) \<leftarrow> d_unpack Unpacker_String d; d_meta_entries n (map_put key (MetaString s) m) d }
            | PackedByteArray \<Rightarrow> do { (b, d) \<leftarrow> d_unpack Unpacker_ByteArray d; d_meta_entries n (map_put key (MetaBytes b) m) d }
            | PackedInt \<Rightarrow> do { (i, d) \<leftarrow> d_unpack Unpacker_Int d; d_meta_entries n (map_put key (MetaInt i) m) d }
            | _ \<Rightarrow> Some (m, malformed ''the Encrypted metadata entry is not a string, bytes or integer'' d) } }"

definition d_metadata :: "(string \<times> meta_value) list dy" where
  "d_metadata d =
     do { d \<leftarrow> d_Next d;
          if u_Curr (d_unp d) \<noteq> PackedMap then Some ([], malformed ''the Encrypted metadata must be a dictionary'' d)
          else do { (n, d) \<leftarrow> d_unpack Unpacker_Len d;
                    if u_Err (d_unp d) \<noteq> None then Some ([], d) else d_meta_entries (unat n) [] d } }"

text \<open>The fields behind the profile, which has been recognised.\<close>

definition d_encrypted_fields :: "(string \<times> bytes \<times> string \<times> int64 \<times> int64 \<times> (string \<times> meta_value) list) dy" where
  "d_encrypted_fields d =
     do { (name, d) \<leftarrow> d_string d;
          (cipher, d) \<leftarrow> d_bytes d;
          (ty, d) \<leftarrow> d_string d;
          (major, d) \<leftarrow> d_int d;
          (minor, d) \<leftarrow> d_int d;
          (meta, d) \<leftarrow> d_metadata d;
          Some ((name, cipher, ty, major, minor, meta), d) }"

definition d_encrypted_rest :: "string \<Rightarrow> int64 \<Rightarrow> decoder \<Rightarrow> (encerr + encrypted) option" where
  "d_encrypted_rest ptype pversion d =
     do { ((name, cipher, ty, major, minor, meta), d) \<leftarrow> d_encrypted_fields d;
          Some (case d_err d of
                  Some err \<Rightarrow> Inl err
                | None \<Rightarrow>
                    (case u_Err (d_unp d) of
                       Some err \<Rightarrow> Inl (MalformedError ''unpacker'')
                     | None \<Rightarrow> Inr \<lparr>en_ProfileType = ptype, en_ProfileVersion = pversion, en_ProfileName = name, en_CipherOutput = cipher,
                         en_TypeName' = ty, en_Baseline' = \<lparr>sv_Major = major, sv_Minor = minor\<rparr>, en_Metadata = meta\<rparr>)) }"

definition DecodeEncrypted :: "bytes \<Rightarrow> (encerr + encrypted) option" where
  "DecodeEncrypted v =
     (case v of
        [] \<Rightarrow> Some (Inl (MalformedError ''an encrypted value cannot be empty''))
      | b # buf \<Rightarrow>
          if b \<noteq> 0x01 then Some (Inl (MalformedError ''unknown encrypted value encoding version''))
          else do {
            d \<leftarrow> d_Next (new_decoder Implemented buf);
            if u_Curr (d_unp d) \<noteq> PackedStruct then Some (Inl (MalformedError ''an encrypted value must hold a structure''))
            else do {
              (tag, d) \<leftarrow> d_unpack Unpacker_StructTag d;
              if tag \<noteq> 0x65 then Some (Inl (MalformedError ''expected the Encrypted structure tag''))
              else do {
                (nfields, d) \<leftarrow> d_unpack Unpacker_Len d;
                if nfields \<noteq> 8 then Some (Inl (MalformedError ''the Encrypted structure should have 8 fields''))
                else do {
                  (ptype, d) \<leftarrow> d_string d;
                  (pversion, d) \<leftarrow> d_int d;
                  case d_err d of
                    Some err \<Rightarrow> Some (Inl err)
                  | None \<Rightarrow>
                      if ptype \<noteq> ''ENVELOPE'' \<or> pversion \<noteq> 1 then Some (Inl (UnsupportedProfileError ptype pversion))
                      else d_encrypted_rest ptype pversion d } } } })"

end
