(* ===== verification/PropertyCodecProps.thy ===== *)
theory PropertyCodecProps
  imports PropertyCodec
begin

text \<open>
  What EncodeValue writes is the wire format of the value, and DecodeValue reads it back; the structure around a cipher
  text is read back, too; and no input makes the decoders panic.
\<close>

section \<open>Encoding\<close>

text \<open>The value that a Go value stands for: as for packX, but pointers to every struct are followed, and structs and maps are refused.\<close>

inductive stands_for :: "tzdb \<Rightarrow> goarg \<Rightarrow> goval \<Rightarrow> bool" for tz where
  "stands_for tz GNil VNil"
| "stands_for tz GNilPtr VNil"
| "stands_for tz (GBool b) (VBool b)"
| "stands_for tz (GInt i) (VInt i)"
| "stands_for tz (GUint32 w) (VInt (ucast w))"
| "uint w < 0x8000000000000000 \<Longrightarrow> stands_for tz (GUint64 w) (VInt w)"
| "stands_for tz (GFloat f) (VFloat f)"
| "stands_for tz (GString s) (VStr s)"
| "stands_for tz (GUUID u) (VUUID u)"
| sf_native: "native_denotes tz n v \<Longrightarrow> stands_for tz (GNative n) v"
| sf_ptr: "stands_for tz g v \<Longrightarrow> stands_for tz (GPtr g) v"
| sf_iface: "stands_for tz g v \<Longrightarrow> stands_for tz (GIface g) v"
| sf_slice: "stands_for tz (GTyped s) (slice_val s)"
| sf_elems: "list_all2 (stands_for tz) xs vs \<Longrightarrow> g = GAnys xs \<or> g = GSlice xs \<Longrightarrow> stands_for tz g (VList vs)"

definition v10 :: scheme_version where
  "v10 = \<lparr>sv_Major = 1, sv_Minor = 0\<rparr>"

definition perm_ok :: "(string \<times> scheme_version) list \<Rightarrow> bool" where
  "perm_ok perm \<longleftrightarrow> snd ` set perm \<subseteq> {v10}"

definition base_ok :: "encoder \<Rightarrow> bool" where
  "base_ok e \<longleftrightarrow> perm_ok (e_permitted e) \<and> e_baseline e \<in> {\<lparr>sv_Major = 0, sv_Minor = 0\<rparr>, v10}"

text \<open>A step of the encoder that ended without an error wrote \<open>bs\<close>.\<close>

definition wrote :: "bytes \<Rightarrow> encoder \<Rightarrow> encoder \<Rightarrow> bool" where
  "wrote bs e e' \<longleftrightarrow> e_packer e' = emit (e_packer e) bs \<and> e_permitted e' = e_permitted e \<and> e_baseline e' = v10 \<and> base_ok e'"

lemma wrote_trans: "wrote a e e1 \<Longrightarrow> wrote b e1 e2 \<Longrightarrow> wrote (a @ b) e e2"
  by (auto simp: wrote_def)

lemma perm_ok_types [simp]: "perm_ok typeBaselines" "perm_ok aadTypeBaselines"
  by (auto simp: perm_ok_def typeBaselines_def aadTypeBaselines_def aadTypes_def v10_def)

lemma setErr_err [simp]: "e_err (encoder_setErr m e) \<noteq> None" "\<exists>y. e_err (encoder_setErr m e) = Some y"
  by (auto simp: encoder_setErr_def)

lemma accept_ok:
  assumes "accept ty e = (b, e')" "base_ok e"
  shows "b \<longleftrightarrow> map_of (e_permitted e) ty \<noteq> None"
    and "b \<Longrightarrow> e' = e\<lparr>e_baseline := v10\<rparr>" and "\<not> b \<Longrightarrow> e_err e' \<noteq> None"
proof -
  have m: "version_max (e_baseline e) x = v10" if "map_of (e_permitted e) ty = Some x" for x
  proof -
    have "x = v10" using map_of_SomeD [OF that] assms(2) by (force simp: base_ok_def perm_ok_def)
    then show ?thesis using assms(2) by (auto simp: base_ok_def version_max_def atLeast_version_def v10_def)
  qed
  show "b \<longleftrightarrow> map_of (e_permitted e) ty \<noteq> None" "\<not> b \<Longrightarrow> e_err e' \<noteq> None"
    using assms(1) by (auto simp: accept_def encoder_setErr_def split: option.splits)
  show "b \<Longrightarrow> e' = e\<lparr>e_baseline := v10\<rparr>"
    using assms(1) m by (auto simp: accept_def split: option.splits)
qed

lemma pack_kind_wrote:
  assumes "pack_kind k w e = (k', e')" "base_ok e" "e_err e' = None" "\<And>p. w p = emit p bs"
  shows "k' = k \<and> wrote bs e e'"
proof -
  obtain b e1 where 1: "accept (ek_typeName k) e = (b, e1)" by fastforce
  note a = accept_ok [OF 1 assms(2)]
  show ?thesis
  proof (cases b)
    case True
    then show ?thesis using assms a(2) 1 by (auto simp: pack_kind_def wrote_def base_ok_def)
  next
    case False
    then show ?thesis using assms a(3) 1 by (auto simp: pack_kind_def)
  qed
qed

lemma encoder_pack_wrote:
  assumes "encoder_pack ty w e = (k, e')" "base_ok e" "e_err e' = None" "\<And>p. w p = emit p bs"
  shows "wrote bs e e'"
  using pack_kind_wrote [OF assms(1) [unfolded encoder_pack_def] assms(2-4)] by simp

text \<open>The structs are written as packX writes them under the newest configuration.\<close>

definition out_of :: "packer \<Rightarrow> outgoing" where
  "out_of p = \<lparr>o_chunker = newChunker, o_packer = p, o_packErrs = [], o_useUtc = True, o_supportsUuid = True\<rparr>"

lemma by_value_emit:
  assumes "native_denotes tz n v" "wire_ok tz True True v"
  shows "o_packer (pack_by_value tz n (out_of p)) = emit p (enc tz True v)"
  using emits_native [OF assms] by (simp add: emits_def out_of_def pk_def)

lemma encoder_packs:
  "encoder_packDate tz t p = o_packer (pack_by_value tz (GDate t) (out_of p))"
  "encoder_packZonedTime tz t p = o_packer (pack_by_value tz (GTimeOfDay t) (out_of p))"
  "encoder_packLocalTime tz t p = o_packer (pack_by_value tz (GLocalTime t) (out_of p))"
  "encoder_packLocalDateTime tz t p = o_packer (pack_by_value tz (GLocalDateTime t) (out_of p))"
  "encoder_packZonedDateTime tz t p = o_packer (pack_by_value tz (GTime t) (out_of p))"
  "encoder_packDuration mo d s n p = o_packer (pack_by_value tz (GDuration mo d s n) (out_of p))"
  "encoder_packPoint2D sr x y p = o_packer (pack_by_value tz (GPoint2D sr x y) (out_of p))"
  "encoder_packPoint3D sr x y z p = o_packer (pack_by_value tz (GPoint3D sr x y z) (out_of p))"
  by (simp_all add: encoder_packDate_def encoder_packZonedTime_def encoder_packLocalTime_def encoder_packLocalDateTime_def
      encoder_packZonedDateTime_def encoder_packDuration_def encoder_packPoint2D_def encoder_packPoint3D_def pk_def out_of_def
      date_days_def Let_def packTime_def packUtcDateTimeWithTzName_def packUtcDateTimeWithTzOffset_def pack_dateTime_def
      pack_duration_def pack_point2D_def pack_point3D_def split: option.split)

lemma native_wrote:
  assumes "native_denotes tz n v" "wire_ok tz True True v" "encoder_native tz inList n e = (k, e')" "base_ok e" "e_err e' = None"
  shows "wrote (enc tz True v) e e'"
proof -
  note bv = by_value_emit [OF assms(1,2)]
  note pack = encoder_pack_wrote [where bs = "enc tz True v", OF _ assms(4,5)]
  note kind = pack_kind_wrote [where bs = "enc tz True v", OF _ assms(4,5)]
  note ps = encoder_packs [where tz = tz]
  show ?thesis
  proof (cases n)
    case (GPoint2D s x y)
    then have "\<And>p. encoder_packPoint2D s x y p = emit p (enc tz True v)" using ps(7) bv by (simp del: pack_by_value.simps)
    then show ?thesis using assms(3) kind GPoint2D by (simp add: encoder_packPoint_def)
  next
    case (GPoint3D s x y z)
    then have "\<And>p. encoder_packPoint3D s x y z p = emit p (enc tz True v)" using ps(8) bv by (simp del: pack_by_value.simps)
    then show ?thesis using assms(3) kind GPoint3D by (simp add: encoder_packPoint_def)
  next
    case (GDuration mo d s n')
    then have "\<And>p. encoder_packDuration mo d s n' p = emit p (enc tz True v)" using ps(6) bv by (simp del: pack_by_value.simps)
    then show ?thesis using assms(3) pack GDuration by simp
  qed (use assms(3,5) pack bv in \<open>auto simp: ps(1-5) encoder_packVector_def simp del: pack_by_value.simps split: if_splits\<close>,
      (use assms(3,5) pack bv in \<open>auto simp: encoder_packVector_def pk_def out_of_def split: if_splits\<close>)+)
qed

text \<open>A writer of one value, also within a list.\<close>

definition writer :: "tzdb \<Rightarrow> (encoder \<Rightarrow> elemKind \<times> encoder) \<Rightarrow> goval \<Rightarrow> bool" where
  "writer tz f v \<longleftrightarrow> (\<forall>e k e'. f e = (k, e') \<longrightarrow> base_ok e \<longrightarrow> e_err e' = None \<longrightarrow> wrote (enc tz True v) e e')"

lemma writerI: "(\<And>e k e'. f e = (k, e') \<Longrightarrow> base_ok e \<Longrightarrow> e_err e' = None \<Longrightarrow> wrote (enc tz True v) e e') \<Longrightarrow> writer tz f v"
  by (simp add: writer_def)

lemma writer_pack: "(\<And>p. w p = emit p (enc tz True v)) \<Longrightarrow> writer tz (encoder_pack ty w) v"
  by (rule writerI) (blast intro: encoder_pack_wrote)

lemma elems_wrote:
  assumes "list_all2 (\<lambda>x. writer tz (f x)) xs vs"
    and "encoder_elems f xs first e = (k, e')" "base_ok e" "e_baseline e = v10" "e_err e' = None"
  shows "wrote (concat (map (enc tz True) vs)) e e'"
  using assms
proof (induction arbitrary: first e rule: list_all2_induct)
  case Nil
  then show ?case by (simp add: wrote_def)
next
  case (Cons x xs v vs)
  obtain kind e1 where 1: "f x e = (kind, e1)" by fastforce
  have mixed: "e_err (encoder_mixed a b e1) = None \<Longrightarrow> False" for a b by (simp add: encoder_mixed_def split: if_splits)
  have n: "e_err e1 = None" using Cons.prems(1,4) 1 by (auto split: if_splits)
  then have "\<exists>first'. encoder_elems f xs first' e1 = (k, e')"
    using Cons.prems(1,4) 1 by (auto split: if_splits option.splits dest: mixed)
  then obtain first' where el: "encoder_elems f xs first' e1 = (k, e')" by blast
  have w: "wrote (enc tz True v) e e1" using Cons.hyps(1) 1 n Cons.prems(2) by (simp add: writer_def)
  from w have "base_ok e1" "e_baseline e1 = v10" by (simp_all add: wrote_def)
  with Cons.IH [OF el] Cons.prems(4) wrote_trans [OF w] show ?case by simp
qed

lemma writer_list:
  assumes "list_all2 (\<lambda>x. writer tz (f x)) xs vs" "fits vs"
  shows "writer tz (encoder_list f inList xs) (VList vs)"
proof (rule writerI)
  fix e k e' assume a: "encoder_list f inList xs e = (k, e')" "base_ok e" "e_err e' = None"
  obtain b e1 where 1: "accept ''LIST'' e = (b, e1)" by fastforce
  note ac = accept_ok [OF 1 a(2)]
  have inl: "\<not> inList" using a(1,3) by (auto simp: encoder_list_def)
  then have b: "b" using a(1,3) ac(3) 1 by (cases b) (auto simp: encoder_list_def)
  let ?e2 = "e1\<lparr>e_packer := Packer_ArrayHeader (e_packer e1) (int (length xs))\<rparr>"
  have el: "encoder_elems f xs None ?e2 = (k, e')" using a(1) inl b 1 by (simp add: encoder_list_def)
  have e1: "e1 = e\<lparr>e_baseline := v10\<rparr>" using ac(2) b by simp
  have len: "length xs = length vs" using assms(1) by (rule list_all2_lengthD)
  have w: "wrote (list_hdr (length vs) 0x90 0xd4) e ?e2"
    using a(2) by (simp add: wrote_def base_ok_def e1 Packer_ArrayHeader_def len list_hdr_emit [OF assms(2)])
  have "base_ok ?e2" "e_baseline ?e2 = v10" using w unfolding wrote_def by blast+
  from wrote_trans [OF w elems_wrote [OF assms(1) el this a(3)]] show "wrote (enc tz True (VList vs)) e e'" by simp
qed

lemma writer_typed:
  assumes "wire_ok tz True True (slice_val s)"
  shows "writer tz (encoder_typed inList s) (slice_val s)"
proof -
  have each: "list_all2 (\<lambda>x. writer tz (encoder_pack ty (w x))) xs (map c xs)"
    if "\<And>x p. x \<in> set xs \<Longrightarrow> w x p = emit p (enc tz True (c x))" for xs :: "'v list" and w c ty
    using that by (induction xs) (auto intro: writer_pack)
  show ?thesis
  proof (cases s)
    case (SInts xs)
    then show ?thesis using assms writer_list [OF each [of xs "\<lambda>x p. Packer_Int64 p x" VInt "''INTEGER''"], of inList]
      by (simp add: encoder_typed_def [abs_def] Packer_Int64_emit fits_def)
  next
    case (SInt64s xs)
    then show ?thesis using assms writer_list [OF each [of xs "\<lambda>x p. Packer_Int64 p x" VInt "''INTEGER''"], of inList]
      by (simp add: encoder_typed_def [abs_def] Packer_Int64_emit fits_def)
  next
    case (SStrings xs)
    then show ?thesis using assms writer_list [OF each [of xs "\<lambda>x p. Packer_String p x" VStr "''STRING''"], of inList]
      by (simp add: encoder_typed_def [abs_def] Packer_String_emit list_all_iff fits_def)
  next
    case (SFloat64s xs)
    then show ?thesis using assms writer_list [OF each [of xs "\<lambda>x p. Packer_Float64 p x" VFloat "''FLOAT''"], of inList]
      by (simp add: encoder_typed_def [abs_def] Packer_Float64_emit fits_def)
  qed (use assms in \<open>auto simp: encoder_typed_def [abs_def] Packer_Bytes_emit intro!: writer_pack\<close>)
qed

lemma uint64_emit: "uint w < 0x8000000000000000 \<Longrightarrow> Packer_Uint64 p w = emit p (int64_bytes w)"
  by (simp add: Packer_Uint64_def Packer_checkOverflowInt_def Packer_Int64_emit)

lemma writer_value:
  assumes "\<And>e. e_err e = None \<Longrightarrow> encoder_value tz inList g e = f e" "writer tz f v"
  shows "writer tz (encoder_value tz inList g) v"
proof (rule writerI)
  fix e k e' assume a: "encoder_value tz inList g e = (k, e')" "base_ok e" "e_err e' = None"
  then have "e_err e = None" by (cases "e_err e") (simp_all add: encoder_value.simps)
  with a assms show "wrote (enc tz True v) e e'" by (auto simp: writer_def)
qed

lemma writer_leaf: "(\<And>e. encoder_leaf tz inList g e = encoder_pack ty w e) \<Longrightarrow>
    (\<And>p. w p = emit p (enc tz True v)) \<Longrightarrow> writer tz (encoder_leaf tz inList g) v"
  using writer_pack [of w tz v ty] by (simp add: writer_def)

lemma writer_leaves:
  "writer tz (encoder_leaf tz l (GBool b)) (VBool b)" "writer tz (encoder_leaf tz l (GInt i)) (VInt i)"
  "writer tz (encoder_leaf tz l (GUint32 w)) (VInt (ucast w))"
  "uint u < 0x8000000000000000 \<Longrightarrow> writer tz (encoder_leaf tz l (GUint64 u)) (VInt u)"
  "writer tz (encoder_leaf tz l (GFloat f)) (VFloat f)" "fits s \<Longrightarrow> writer tz (encoder_leaf tz l (GString s)) (VStr s)"
  "writer tz (encoder_leaf tz l (GUUID x)) (VUUID x)"
  "writer tz (encoder_leaf tz l GNil) VNil" "writer tz (encoder_leaf tz l GNilPtr) VNil"
  by (rule writer_leaf, rule encoder_leaf.simps, simp add: run_simps Packer_Bool_def uint64_emit)+
    (use writer_pack [of Packer_Nil tz VNil "''NULL''"] in \<open>auto simp: writer_def Packer_Nil_def\<close>)

lemma encoder_writes: "stands_for tz g v \<Longrightarrow> wire_ok tz True True v \<Longrightarrow> writer tz (encoder_value tz inList g) v"
proof (induction arbitrary: inList rule: stands_for.induct)
  case (sf_native n v)
  have "writer tz (encoder_native tz inList n) v"
    using native_wrote [OF sf_native] by (blast intro: writerI)
  then show ?case by (rule writer_value [rotated]) (simp add: encoder_value.simps)
next
  case (sf_ptr g v)
  then show ?case by (intro writer_value [OF _ sf_ptr.IH]) (simp_all add: encoder_value.simps [of _ _ "GPtr _"])
next
  case (sf_iface g v)
  then show ?case by (intro writer_value [OF _ sf_iface.IH]) (simp_all add: encoder_value.simps [of _ _ "GIface _"])
next
  case (sf_slice s)
  show ?case by (rule writer_value [OF _ writer_typed [OF sf_slice]]) (simp add: encoder_value.simps)
next
  case (sf_elems xs vs g)
  then have l: "list_all2 (\<lambda>x. writer tz (encoder_value tz True x)) xs vs" "fits vs"
    by (auto simp: list_all2_conv_all_nth list_all_length)
  show ?case by (rule writer_value [OF _ writer_list [OF l]]) (use sf_elems(2) in \<open>auto simp: encoder_value.simps [of _ _ "GAnys _"] encoder_value.simps [of _ _ "GSlice _"]\<close>)
qed (rule writer_value [rotated], rule writer_leaves, (simp add: encoder_value.simps)+)+

text \<open>The values of properties: no maps, and no null, list or vector within a list.\<close>

fun storable :: "bool \<Rightarrow> goval \<Rightarrow> bool" where
  "storable inList VNil = (\<not> inList)"
| "storable inList (VList l) = (\<not> inList \<and> list_all (storable True) l)"
| "storable inList (VVectorF64 _) = (\<not> inList)"
| "storable inList (VVectorF32 _) = (\<not> inList)"
| "storable inList (VVectorI8 _) = (\<not> inList)"
| "storable inList (VVectorI16 _) = (\<not> inList)"
| "storable inList (VVectorI32 _) = (\<not> inList)"
| "storable inList (VVectorI64 _) = (\<not> inList)"
| "storable inList (VMap _) = False"
| "storable inList _ = True"

lemma elems_each:
  "encoder_elems f xs first e = (k, e') \<Longrightarrow> e_err e' = None \<Longrightarrow> x \<in> set xs \<Longrightarrow> \<exists>e0 k1 e1. f x e0 = (k1, e1) \<and> e_err e1 = None"
proof (induction xs arbitrary: first e)
  case (Cons y ys)
  obtain k1 e1 where 1: "f y e = (k1, e1)" by fastforce
  have mixed: "e_err (encoder_mixed a b e1) = None \<Longrightarrow> False" for a b by (simp add: encoder_mixed_def split: if_splits)
  have n: "e_err e1 = None" using Cons.prems(1,2) 1 by (auto split: if_splits)
  then obtain first' where "x = y \<or> encoder_elems f ys first' e1 = (k, e')"
    using Cons.prems(1,2) 1 by (auto split: if_splits option.splits dest: mixed)
  then show ?case using Cons.IH [of first' e1] Cons.prems 1 n by auto
qed simp

lemma list_each:
  assumes "encoder_list f inList xs e = (k, e')" "e_err e' = None"
  shows "\<not> inList" and "e_err e = None \<Longrightarrow> x \<in> set xs \<Longrightarrow> \<exists>e0 k1 e1. f x e0 = (k1, e1) \<and> e_err e1 = None"
proof -
  show i: "\<not> inList" using assms by (auto simp: encoder_list_def)
  assume e: "e_err e = None" and x: "x \<in> set xs"
  have "\<not> (\<exists>e1. accept ''LIST'' e = (False, e1))"
    using assms i e by (auto simp: encoder_list_def accept_def encoder_setErr_def split: option.splits if_splits)
  then obtain e1 where "accept ''LIST'' e = (True, e1)" by (metis (full_types) prod.exhaust)
  with assms(1) i have "encoder_elems f xs None (e1\<lparr>e_packer := Packer_ArrayHeader (e_packer e1) (int (length xs))\<rparr>) = (k, e')"
    by (simp add: encoder_list_def)
  then show "\<exists>e0 k1 e1. f x e0 = (k1, e1) \<and> e_err e1 = None" using elems_each [OF _ assms(2) x] by blast
qed

lemma stored_storable:
  "stands_for tz g v \<Longrightarrow> encoder_value tz inList g e = (k, e') \<Longrightarrow> e_err e' = None \<Longrightarrow> storable inList v"
proof (induction arbitrary: inList e k e' rule: stands_for.induct)
  case (sf_native n v)
  then have n: "encoder_native tz inList n e = (k, e')" by (auto simp: encoder_value.simps split: if_splits)
  show ?case using sf_native.hyps n sf_native.prems(2)
    by (cases rule: native_denotes.cases) (auto simp: encoder_packVector_def split: if_splits)
next
  case (sf_ptr g v)
  then show ?case by (auto simp: encoder_value.simps [of _ _ "GPtr _"] split: if_splits)
next
  case (sf_iface g v)
  then show ?case by (auto simp: encoder_value.simps [of _ _ "GIface _"] split: if_splits)
next
  case (sf_slice s)
  then have "encoder_typed inList s e = (k, e')" by (auto simp: encoder_value.simps split: if_splits)
  then show ?case by (cases s) (auto simp: encoder_typed_def list_all_iff dest: list_each(1) [OF _ sf_slice(2)])
next
  case (sf_elems xs vs g)
  then have l: "encoder_list (encoder_value tz True) inList xs e = (k, e')" and e: "e_err e = None"
    by (auto simp: encoder_value.simps [of _ _ "GAnys _"] encoder_value.simps [of _ _ "GSlice _"] split: if_splits)
  have "storable True (vs ! i)" if "i < length vs" for i
  proof -
    have len: "length xs = length vs" using sf_elems(1) by (rule list_all2_lengthD)
    then have "xs ! i \<in> set xs" using that by simp
    then obtain e0 k1 e1 where "encoder_value tz True (xs ! i) e0 = (k1, e1)" "e_err e1 = None"
      using list_each(2) [OF l sf_elems.prems(2) e] by blast
    moreover have "\<forall>inList e k e'. encoder_value tz inList (xs ! i) e = (k, e') \<longrightarrow> e_err e' = None \<longrightarrow> storable inList (vs ! i)"
      using list_all2_nthD2 [OF sf_elems(1) that] by blast
    ultimately show ?thesis by blast
  qed
  then show ?case using list_each(1) [OF l sf_elems.prems(2)] by (simp add: list_all_length)
qed (auto simp: encoder_value.simps split: if_splits)

section \<open>Decoding\<close>

definition dclear :: "decoder \<Rightarrow> bool" where
  "dclear d \<longleftrightarrow> wf_unpacker (d_unp d) \<and> u_Err (d_unp d) = None \<and> d_err d = None \<and> d_recorded d = v10"

definition dgot :: "decoder \<Rightarrow> bytes \<Rightarrow> decoder \<Rightarrow> bool" where
  "dgot d r d' \<longleftrightarrow> got (d_unp d) r (d_unp d') \<and> d_err d' = d_err d \<and> d_recorded d' = d_recorded d"

text \<open>
  \<open>dreads n f bs x\<close>: from a decoder with fewer than \<open>n\<close> unread bytes, beginning with \<open>bs\<close>, the method \<open>f\<close> returns \<open>x\<close>,
  takes exactly \<open>bs\<close> off and records no error.
\<close>

definition dreads :: "nat \<Rightarrow> 'a dy \<Rightarrow> bytes \<Rightarrow> 'a \<Rightarrow> bool" where
  "dreads n f bs x \<longleftrightarrow> (\<forall>d r. dclear d \<longrightarrow> rest (d_unp d) = bs @ r \<longrightarrow> length (bs @ r) < n \<longrightarrow> (\<exists>d'. f d = Some (x, d') \<and> dgot d r d'))"

lemma dreadsI:
  "(\<And>d r. dclear d \<Longrightarrow> rest (d_unp d) = bs @ r \<Longrightarrow> length (bs @ r) < n \<Longrightarrow> \<exists>d'. f d = Some (x, d') \<and> dgot d r d') \<Longrightarrow> dreads n f bs x"
  by (simp add: dreads_def)

lemma dgot_trans: "dgot d r d1 \<Longrightarrow> dgot d1 r' d2 \<Longrightarrow> dgot d r' d2"
  by (auto simp: dgot_def intro: got_trans)

lemma dgot_clear: "dclear d \<Longrightarrow> dgot d r d' \<Longrightarrow> dclear d' \<and> rest (d_unp d') = r"
  by (auto simp: dgot_def dclear_def got_def)

lemma dreads_bind:
  assumes "dreads n f a x" and "dreads n (g x) b y"
  shows "dreads n (\<lambda>d. f d \<bind> (\<lambda>(x, d). g x d)) (a @ b) y"
proof (rule dreadsI)
  fix d r assume d: "dclear d" "rest (d_unp d) = (a @ b) @ r" "length ((a @ b) @ r) < n"
  then obtain d1 where 1: "f d = Some (x, d1)" "dgot d (b @ r) d1"
    using assms(1) unfolding dreads_def by (metis append.assoc)
  then have "dclear d1" "rest (d_unp d1) = b @ r" "length (b @ r) < n" using d dgot_clear [OF d(1) 1(2)] by auto
  then obtain d2 where "g x d1 = Some (y, d2)" "dgot d1 r d2" using assms(2) unfolding dreads_def by blast
  with 1 show "\<exists>d'. f d \<bind> (\<lambda>(x, d). g x d) = Some (y, d') \<and> dgot d r d'" by (auto intro: dgot_trans)
qed

lemma dreads_return: "dreads n (\<lambda>d. Some (x, d)) [] x"
  by (rule dreadsI) (auto simp: dgot_def got_def dclear_def)

lemma dreads_ret: "dreads n (d_ret v) [] v"
  by (rule dreadsI) (auto simp: dgot_def got_def dclear_def d_ret_def)

lemma dreads_cong: "(\<And>d. dclear d \<Longrightarrow> f d = g d) \<Longrightarrow> dreads n g bs x \<Longrightarrow> dreads n f bs x"
  by (auto simp: dreads_def)

text \<open>A field that is read after its kind has been checked.\<close>

lemma dreads_typed:
  assumes "\<And>u r. wf_unpacker u \<Longrightarrow> u_Err u = None \<Longrightarrow> rest u = (b # bs) @ r \<Longrightarrow> \<exists>u'. Unpacker_Next u \<bind> f = Some (x, u') \<and> got u r u'"
    and "m_typ (markers b) = kind"
  shows "dreads n (d_typed kind msg zero f) (b # bs) x"
proof (rule dreadsI)
  fix d r assume d: "dclear d" "rest (d_unp d) = (b # bs) @ r"
  then obtain u' where u': "Unpacker_Next (d_unp d) \<bind> f = Some (x, u')" "got (d_unp d) r u'"
    using assms(1) [of "d_unp d"] by (auto simp: dclear_def)
  then obtain u1 where u1: "Unpacker_Next (d_unp d) = Some u1" "f u1 = Some (x, u')" by (auto simp: bind_eq_Some_conv)
  have "u_Curr u1 = kind" using Next_Curr [OF _ _ u1(1)] d assms(2) by (auto simp: dclear_def)
  then show "\<exists>d'. d_typed kind msg zero f d = Some (x, d') \<and> dgot d r d'"
    using u1 u'(2) by (simp add: d_typed_def d_Next_def d_unpack_def dgot_def)
qed

lemma dreads_int: "dreads n d_int (int64_bytes i) i"
proof -
  obtain b bs where b: "int64_bytes i = b # bs" "m_typ (markers b) = PackedInt" using int64_bytes_Cons by blast
  show ?thesis unfolding d_int_def b(1)
    by (rule dreads_typed) (use dec_int_enc [of _ i] b in \<open>auto simp: dec_int_def\<close>)
qed

lemma dreads_float: "dreads n d_float (float_bytes f) f"
  unfolding d_float_def float_bytes_def
  by (rule dreads_typed) (use dec_float_enc [of _ f] in \<open>auto simp: dec_float_def float_bytes_def\<close>)

lemma string_bytes_Cons: "fits s \<Longrightarrow> \<exists>b bs. string_bytes s = b # bs \<and> m_typ (markers b) = PackedStr"
proof -
  assume "fits s"
  then obtain hdr where hdr: "list_header (int (length s)) 0x80 0xd0 = Some hdr" using fits_header by blast
  then obtain c cs where "hdr = c # cs" "m_typ (markers c) = PackedStr" using str_header.header_marker by blast
  then show ?thesis by (simp add: string_bytes_def hdr)
qed

lemma dreads_string: "fits s \<Longrightarrow> dreads n d_string (string_bytes s) s"
proof -
  assume s: "fits s"
  obtain b bs where b: "string_bytes s = b # bs" "m_typ (markers b) = PackedStr" using string_bytes_Cons [OF s] by blast
  show ?thesis unfolding d_string_def b(1)
    by (rule dreads_typed) (use dec_string_enc [OF s] b in \<open>auto simp: dec_string_def\<close>)
qed

lemma dreads_bytes: "fits32 x \<Longrightarrow> dreads n d_bytes (bytearray_bytes x) x"
proof -
  assume x: "fits32 x"
  obtain b bs where b: "bytearray_bytes x = b # bs" "m_typ (markers b) = PackedByteArray" using bytearray_bytes_Cons [OF x] by blast
  show ?thesis unfolding d_bytes_def b(1)
    by (rule dreads_typed) (use dec_bytes_enc [OF x] b in \<open>auto simp: dec_bytes_def\<close>)
qed

lemma require_ok:
  assumes "dclear d" "ty \<in> fst ` set typeBaselines"
  shows "decoder_require ty d = (True, d)"
  using assms by (auto simp: decoder_require_def typeBaselines_def dclear_def v10_def atLeast_version_def)

text \<open>A scalar, a header and a structure as a value.\<close>

lemma value_Next:
  assumes "dclear d" "Unpacker_Next (d_unp d) = Some u1"
  shows "d_value tz (Suc n) inList d = d_by_kind tz (d_value tz n True) inList (d\<lparr>d_unp := u1\<rparr>)"
  using assms by (simp add: dclear_def d_Next_def)

lemma dreads_scalar:
  assumes "\<And>u r. wf_unpacker u \<Longrightarrow> u_Err u = None \<Longrightarrow> rest u = (b # bs) @ r \<Longrightarrow> \<exists>u'. Unpacker_Next u \<bind> f = Some (x, u') \<and> got u r u'"
    and "\<And>d item. u_Curr (d_unp d) = m_typ (markers b) \<Longrightarrow> d_by_kind tz item inList d = d_scalar ty build f d"
    and "ty \<in> fst ` set typeBaselines"
  shows "dreads m (d_value tz (Suc n) inList) (b # bs) (build x)"
proof (rule dreadsI)
  fix d r assume d: "dclear d" "rest (d_unp d) = (b # bs) @ r"
  then obtain u' where u': "Unpacker_Next (d_unp d) \<bind> f = Some (x, u')" "got (d_unp d) r u'"
    using assms(1) [of "d_unp d"] by (auto simp: dclear_def)
  then obtain u1 where u1: "Unpacker_Next (d_unp d) = Some u1" "f u1 = Some (x, u')" by (auto simp: bind_eq_Some_conv)
  have k: "u_Curr u1 = m_typ (markers b)" using Next_Curr [OF _ _ u1(1)] d by (auto simp: dclear_def)
  have req: "decoder_require ty (d\<lparr>d_unp := u1\<rparr>) = (True, d\<lparr>d_unp := u1\<rparr>)"
    using require_ok [OF d(1) assms(3)] by (auto simp: decoder_require_def decoder_unsupported_def split: option.splits if_splits)
  show "\<exists>d'. d_value tz (Suc n) inList d = Some (build x, d') \<and> dgot d r d'"
    using assms(2) [of "d\<lparr>d_unp := u1\<rparr>"] k u1(2) u'(2)
    by (simp add: value_Next [OF d(1) u1(1)] d_scalar_def req d_unpack_def dgot_def del: d_value.simps)
qed

lemma dreads_struct:
  assumes "length fs < 16" and "dreads n (d_by_tag tz tag (word_of_nat (length fs))) (concat fs) v"
  shows "dreads (Suc n) (d_value tz (Suc n) inList) (struct_bytes tag fs) v"
proof (rule dreadsI)
  fix d r assume d: "dclear d" "rest (d_unp d) = struct_bytes tag fs @ r" "length (struct_bytes tag fs @ r) < Suc n"
  let ?b = "0xb0 + word_of_nat (length fs) :: byte"
  have wf: "wf_unpacker (d_unp d)" using d(1) by (simp add: dclear_def)
  obtain u1 where u1: "Unpacker_Next (d_unp d) = Some u1" "got (d_unp d) (tag # concat fs @ r) u1"
      "u_mrk u1 = markers ?b" "u_Curr u1 = m_typ (markers ?b)"
    using Next_got [OF wf, of ?b "tag # concat fs @ r"] d(2) by (auto simp: struct_bytes_def)
  have mrk: "markers ?b = short_marker PackedStruct (word_of_nat (length fs))" using assms(1) by (rule markers_short)
  let ?u2 = "adv (Suc 0) u1"
  have u2: "Unpacker_StructTag u1 = Some (tag, ?u2)" "got u1 (concat fs @ r) ?u2"
    using u1(2) pop_rest [of u1 tag] got_adv1 [of u1 tag] by (simp_all add: Unpacker_StructTag_def got_def)
  have len: "Unpacker_Len ?u2 = Some (word_of_nat (length fs), ?u2)"
    using assms(1) by (simp add: Unpacker_Len_def u1(3) mrk scast_small)
  have g: "dgot d (concat fs @ r) (d\<lparr>d_unp := ?u2\<rparr>)"
    using got_trans [OF u1(2) u2(2)] by (simp add: dgot_def)
  have c: "dclear (d\<lparr>d_unp := ?u2\<rparr>)" "rest ?u2 = concat fs @ r" using dgot_clear [OF d(1) g] by simp_all
  then have e: "u_Err ?u2 = None" by (simp add: dclear_def)
  have "length (concat fs @ r) < n" using d(3) by (simp add: struct_bytes_def)
  then obtain d' where d': "d_by_tag tz tag (word_of_nat (length fs)) (d\<lparr>d_unp := ?u2\<rparr>) = Some (v, d')" "dgot (d\<lparr>d_unp := ?u2\<rparr>) r d'"
    using assms(2) [unfolded dreads_def, rule_format, of "d\<lparr>d_unp := ?u2\<rparr>" r] c by auto
  then show "\<exists>d'. d_value tz (Suc n) inList d = Some (v, d') \<and> dgot d r d'"
    using dgot_trans [OF g] e
    by (simp add: value_Next [OF d(1) u1(1)] d_by_kind_def u1(4) mrk d_structure_def d_unpack_def u2(1) len del: d_value.simps)
qed

lemma dreads_body:
  assumes "dreads n body bs v" "ty \<in> fst ` set typeBaselines"
  shows "dreads n (d_struct ty name k k body) bs v"
  by (rule dreads_cong [OF _ assms(1)]) (simp add: d_struct_def require_ok [OF _ assms(2)] fieldCount_def)

lemma dreads_int_bind: "dreads n (g i) bs y \<Longrightarrow> dreads n (\<lambda>d. d_int d \<bind> (\<lambda>(x, d). g x d)) (int64_bytes i @ bs) y"
  by (rule dreads_bind [OF dreads_int])

lemma dreads_float_bind: "dreads n (g i) bs y \<Longrightarrow> dreads n (\<lambda>d. d_float d \<bind> (\<lambda>(x, d). g x d)) (float_bytes i @ bs) y"
  by (rule dreads_bind [OF dreads_float])

lemma dreads_string_bind: "fits i \<Longrightarrow> dreads n (g i) bs y \<Longrightarrow> dreads n (\<lambda>d. d_string d \<bind> (\<lambda>(x, d). g x d)) (string_bytes i @ bs) y"
  by (rule dreads_bind [OF dreads_string])

lemma dreads_bytes_bind: "fits32 i \<Longrightarrow> dreads n (g i) bs y \<Longrightarrow> dreads n (\<lambda>d. d_bytes d \<bind> (\<lambda>(x, d). g x d)) (bytearray_bytes i @ bs) y"
  by (rule dreads_bind [OF dreads_bytes])

lemma dreads_ret_eq: "w = v \<Longrightarrow> dreads n (d_ret w) [] v"
  by (simp add: dreads_ret)

lemmas dfield_reads = dreads_int_bind dreads_float_bind dreads_string_bind dreads_bytes_bind dreads_ret_eq

text \<open>A structure by its tag: the fields, then the value that is built of them.\<close>

lemma dreads_by_tag:
  assumes "d_by_tag tz tag k = d_struct ty name k k body" "ty \<in> fst ` set typeBaselines" "dreads n body bs v"
    and "k = word_of_nat (length fs)" "concat fs @ [] = bs" "length fs < 16"
  shows "dreads (Suc n) (d_value tz (Suc n) inList) (struct_bytes tag fs) v"
  by (rule dreads_struct [OF assms(6)]) (use dreads_body [OF assms(3,2)] assms(1,4,5) in simp)

lemma types_known [simp]:
  "''POINT'' \<in> fst ` set typeBaselines" "''DURATION'' \<in> fst ` set typeBaselines" "''DATE'' \<in> fst ` set typeBaselines"
  "''ZONED TIME'' \<in> fst ` set typeBaselines" "''LOCAL TIME'' \<in> fst ` set typeBaselines" "''LOCAL DATETIME'' \<in> fst ` set typeBaselines"
  "''ZONED DATETIME'' \<in> fst ` set typeBaselines" "''VECTOR'' \<in> fst ` set typeBaselines" "''LIST'' \<in> fst ` set typeBaselines"
  "''INTEGER'' \<in> fst ` set typeBaselines" "''FLOAT'' \<in> fst ` set typeBaselines" "''STRING'' \<in> fst ` set typeBaselines"
  "''BYTES'' \<in> fst ` set typeBaselines" "''BOOLEAN'' \<in> fst ` set typeBaselines" "''UUID'' \<in> fst ` set typeBaselines"
  "''NULL'' \<in> fst ` set typeBaselines"
  by (simp_all add: typeBaselines_def)

lemma dreads_VPoint2D: "dreads (Suc n) (d_value tz (Suc n) l) (struct_bytes 0x58 [int64_bytes (ucast s), float_bytes x, float_bytes y]) (VPoint2D s x y)"
  by (rule dreads_by_tag [where k = 3 and ty = "''POINT''"], simp add: d_by_tag_def d_point2D_def, simp,
      (rule dfield_reads)+, simp_all add: ucast_up_down)

lemma dreads_VPoint3D:
  "dreads (Suc n) (d_value tz (Suc n) l) (struct_bytes 0x59 [int64_bytes (ucast s), float_bytes x, float_bytes y, float_bytes z]) (VPoint3D s x y z)"
  by (rule dreads_by_tag [where k = 4 and ty = "''POINT''"], simp add: d_by_tag_def d_point3D_def, simp,
      (rule dfield_reads)+, simp_all add: ucast_up_down)

lemma dreads_VDuration:
  "dreads (Suc n) (d_value tz (Suc n) l) (struct_bytes 0x45 [int64_bytes mo, int64_bytes da, int64_bytes s, int64_bytes ns]) (VDuration mo da s ns)"
  by (rule dreads_by_tag [where k = 4 and ty = "''DURATION''"], simp add: d_by_tag_def d_duration_def, simp,
      (rule dfield_reads)+, simp_all)

lemma date_days_back: "- 100000000000000 \<le> k \<Longrightarrow> k \<le> 100000000000000 \<Longrightarrow> date_days (word_of_int (k * 86400)) = word_of_int k"
proof -
  assume a: "- 100000000000000 \<le> k" "k \<le> 100000000000000"
  then have "sint (word_of_int (k * 86400) :: int64) = k * 86400" by (intro sint_of_int64) simp_all
  moreover have "k * 86400 sdiv 86400 = k" "k * 86400 smod 86400 = 0"
    by (simp_all add: signed_divide_int_def signed_modulo_int_def abs_mult sgn_mult mult_sgn_abs)
  ultimately show ?thesis unfolding date_days_def Let_def by simp
qed

lemma dreads_VDate:
  assumes "- 100000000000000 \<le> k" "k \<le> 100000000000000" and t: "t = GoTime (word_of_int (k * 86400)) 0 UTC"
  shows "dreads (Suc n) (d_value tz (Suc n) l) (struct_bytes 0x44 [int64_bytes (date_days (t_unix t + Zone tz t))]) (VDate t)"
proof -
  have z: "Zone tz t = 0" by (simp add: t Zone_def lookup_zone_def)
  have d: "date_days (t_unix t + Zone tz t) = word_of_int k" using date_days_back [OF assms(1,2)] by (simp add: z t)
  have "dreads n (\<lambda>d. d_int d \<bind> (\<lambda>(days, d). d_ret (VDate (In (time_Unix (days * 86400) 0) UTC)) d)) (int64_bytes (word_of_int k) @ []) (VDate t)"
    by (rule dreads_int_bind, rule dreads_ret_eq) (simp add: t In_def time_Unix_def)
  then show ?thesis unfolding d
    by (rule dreads_by_tag [where k = 1 and ty = "''DATE''", rotated 2]) (simp_all add: d_by_tag_def d_date_def)
qed

lemma dreads_VLocalDateTime:
  assumes "t_loc t = LocalZone" "nsec_ok t" "civil_ok tz t"
  shows "dreads (Suc n) (d_value tz (Suc n) l) (struct_bytes 0x64 [int64_bytes (t_unix t + Zone tz t), int64_bytes (word_of_int (t_nsec t))]) (VLocalDateTime t)"
proof -
  obtain u ns where t: "t = GoTime u ns LocalZone" using assms(1) by (cases t) auto
  have "copy_civil tz (In (time_Unix (t_unix t + Zone tz t) (word_of_int (t_nsec t))) UTC) LocalZone = t"
    using assms by (auto simp: In_def copy_civil_def Date_wall_def civil_ok_def nsec_ok_def t)
  note inv = this
  show ?thesis
    by (rule dreads_by_tag [where k = 2 and ty = "''LOCAL DATETIME''"], simp add: d_by_tag_def d_localDateTime_def, simp,
      (rule dfield_reads)+, use inv in simp_all)
qed

lemma dreads_VTime:
  assumes "day_zero tz t" and "t_loc t = FixedZone ''Offset'' off"
  shows "dreads (Suc n) (d_value tz (Suc n) l) (struct_bytes 0x54 [int64_bytes (clock_nanos tz t), int64_bytes (Zone tz t)]) (VTime t)"
proof -
  obtain s where s: "split_nanos (clock_nanos tz t) = (word_of_int s, word_of_int (t_nsec t))"
    "Date_zero tz (word_of_int s) (word_of_int (t_nsec t)) (t_loc t) = t"
    using day_zero_nanos [OF assms(1)] .
  have z: "Zone tz t = off" using assms(2) by (cases t) simp
  show ?thesis
    by (rule dreads_by_tag [where k = 2 and ty = "''ZONED TIME''"], simp add: d_by_tag_def d_zonedTime_def, simp,
      (rule dfield_reads)+, use s assms(2) z in simp_all)
qed

lemma dreads_VLocalTime:
  assumes "day_zero tz t" and "t_loc t = LocalZone"
  shows "dreads (Suc n) (d_value tz (Suc n) l) (struct_bytes 0x74 [int64_bytes (clock_nanos tz t)]) (VLocalTime t)"
proof -
  obtain s where s: "split_nanos (clock_nanos tz t) = (word_of_int s, word_of_int (t_nsec t))"
    "Date_zero tz (word_of_int s) (word_of_int (t_nsec t)) (t_loc t) = t"
    using day_zero_nanos [OF assms(1)] .
  show ?thesis
    by (rule dreads_by_tag [where k = 1 and ty = "''LOCAL TIME''"], simp add: d_by_tag_def d_localTime_def, simp,
      (rule dfield_reads)+, use s assms(2) in simp_all)
qed

lemma dreads_VDateTime:
  assumes "datetime_ok tz True t"
  shows "dreads (Suc n) (d_value tz (Suc n) l) (time_bytes tz True t) (VDateTime t)"
proof -
  obtain u ns lo where t: "t = GoTime u ns lo" by (cases t)
  have ns: "0 \<le> ns" "ns < 1000000000" using assms by (simp_all add: datetime_ok_def nsec_ok_def t)
  have inv: "In (time_Unix u (word_of_int ns)) lo = t" using ns by (simp add: In_def t)
  consider (fixed) off where "lo = FixedZone ''Offset'' off"
    | (named) "zone_of_id tz (loc_String lo) = Some lo" "fits (loc_String lo)" "case lo of FixedZone _ _ \<Rightarrow> False | _ \<Rightarrow> True"
    using assms by (cases lo) (auto simp: datetime_ok_def t)
  then show ?thesis
  proof cases
    case fixed
    have bytes: "time_bytes tz True t = struct_bytes 0x49 [int64_bytes u, int64_bytes (word_of_int ns), int64_bytes off]"
      by (simp add: time_bytes_def t fixed)
    show ?thesis unfolding bytes
      by (rule dreads_by_tag [where k = 3 and ty = "''ZONED DATETIME''"], simp add: d_by_tag_def d_zonedDateTimeOffset_def, simp,
        (rule dfield_reads)+, use inv fixed in simp_all)
  next
    case named
    have bytes: "time_bytes tz True t = struct_bytes 0x69 [int64_bytes u, int64_bytes (word_of_int ns), string_bytes (loc_String lo)]"
      using named(3) by (cases lo) (simp_all add: time_bytes_def t)
    have last: "dreads n (\<lambda>d. if d_err d \<noteq> None then Some (VNil, d)
        else case zone_of_id tz (loc_String lo) of None \<Rightarrow> Some (VNil, malformed ''unknown time zone'' d)
          | Some zone \<Rightarrow> Some (VDateTime (In (time_Unix u (word_of_int ns)) zone), d)) [] (VDateTime t)"
      by (rule dreads_cong [OF _ dreads_return]) (simp add: named(1) inv dclear_def)
    have tag: "d_by_tag tz 0x69 = d_zonedDateTimeZoneId tz" by (simp add: d_by_tag_def fun_eq_iff)
    show ?thesis unfolding bytes
      by (rule dreads_by_tag [where k = 3 and ty = "''ZONED DATETIME''"], unfold tag d_zonedDateTimeZoneId_def, rule refl, simp,
        rule dreads_int_bind, rule dreads_int_bind, rule dreads_string_bind [OF named(2)], rule last, simp_all)
  qed
qed

lemma dreads_vector:
  assumes "fits32 data" and "vector_elems m data = Inr v"
  shows "dreads (Suc n) (d_value tz (Suc n) l) (vector_bytes m data) v"
proof -
  have m: "fits32 [m]" by (simp add: fits32_def)
  have i8: "elems (Suc 0) b = b" for b :: bytes
    by (rule nth_equalityI) (auto simp: elems_def be_nat_def take_Suc_conv_app_nth hd_drop_conv_nth take_Suc)
  have last: "dreads n (\<lambda>d. if d_err d \<noteq> None then Some (VNil, d)
          else if length [m] \<noteq> 1 then Some (VNil, malformed ''a Vector type marker should be 1 byte'' d)
          else do {
            m \<leftarrow> at [m] 0;
            if m = 0xc1 then decodeVector 8 (\<lambda>b. VVectorF64 (elems 8 b)) data d
            else if m = 0xc6 then decodeVector 4 (\<lambda>b. VVectorF32 (elems 4 b)) data d
            else if m = 0xc8 then decodeVector 1 (\<lambda>b. VVectorI8 (elems 1 b)) data d
            else if m = 0xc9 then decodeVector 2 (\<lambda>b. VVectorI16 (elems 2 b)) data d
            else if m = 0xca then decodeVector 4 (\<lambda>b. VVectorI32 (elems 4 b)) data d
            else if m = 0xcb then decodeVector 8 (\<lambda>b. VVectorI64 (elems 8 b)) data d
            else Some (VNil, decoder_unsupported ''a Vector with an unknown element marker'' d) }) [] v"
    by (rule dreads_cong [OF _ dreads_return])
      (use assms(2) in \<open>auto simp: dclear_def at_def vector_elems_def decodeVector_def i8 split: if_splits\<close>)
  have tag: "d_by_tag tz 0x56 = d_vector" by (simp add: d_by_tag_def fun_eq_iff)
  show ?thesis unfolding vector_bytes_def
    by (rule dreads_by_tag [where k = 2 and ty = "''VECTOR''"], unfold tag d_vector_def, rule refl, simp,
      rule dreads_bytes_bind [OF m], rule dreads_bytes_bind [OF assms(1)], rule last, simp_all)
qed

lemma dreads_marker:
  assumes "\<And>d item. u_Curr (d_unp d) = m_typ (markers b) \<Longrightarrow> d_by_kind tz item l d = Some (v, d)"
  shows "dreads m (d_value tz (Suc n) l) [b] v"
proof (rule dreadsI)
  fix d r assume d: "dclear d" "rest (d_unp d) = [b] @ r"
  have wf: "wf_unpacker (d_unp d)" using d(1) by (simp add: dclear_def)
  obtain u1 where u1: "Unpacker_Next (d_unp d) = Some u1" "got (d_unp d) r u1" "u_Curr u1 = m_typ (markers b)"
    using Next_got [OF wf, of b r] d(2) by auto
  then show "\<exists>d'. d_value tz (Suc n) l d = Some (v, d') \<and> dgot d r d'"
    using assms [of "d\<lparr>d_unp := u1\<rparr>"] by (simp add: value_Next [OF d(1) u1(1)] dgot_def del: d_value.simps)
qed

lemma dreads_items:
  "list_all2 (dreads n f) bss xs \<Longrightarrow> dreads n (d_items f (length xs)) (concat bss) (Some xs)"
proof (induction rule: list_all2_induct)
  case Nil
  have "d_items f 0 = (\<lambda>d. Some (Some [], d))" by (simp add: fun_eq_iff)
  then show ?case by (simp add: dreads_return)
next
  case (Cons b bss x xs)
  have tail: "dreads n (\<lambda>d. d_items f (length xs) d \<bind> (\<lambda>(r, d). Some (map_option (\<lambda>items. x # items) r, d))) (concat bss) (Some (x # xs))"
    using dreads_bind [OF Cons.IH dreads_return, of "\<lambda>r. map_option (\<lambda>items. x # items) r"] by simp
  have "dreads n (\<lambda>d. f d \<bind> (\<lambda>(x, d). if d_err d \<noteq> None \<or> u_Err (d_unp d) \<noteq> None then Some (None, d)
      else d_items f (length xs) d \<bind> (\<lambda>(r, d). Some (map_option (\<lambda>items. x # items) r, d)))) (b @ concat bss) (Some (x # xs))"
    by (rule dreads_bind [OF Cons.hyps(1)], rule dreads_cong [OF _ tail]) (simp add: dclear_def)
  moreover have "d_items f (Suc (length xs)) = (\<lambda>d. f d \<bind> (\<lambda>(x, d). if d_err d \<noteq> None \<or> u_Err (d_unp d) \<noteq> None then Some (None, d)
      else d_items f (length xs) d \<bind> (\<lambda>(r, d). Some (map_option (\<lambda>items. x # items) r, d))))"
    by (simp add: fun_eq_iff)
  ultimately show ?case by simp
qed

lemma dreads_VList:
  assumes "fits xs" and "list_all (\<lambda>v. dreads n (d_value tz n True) (e v) v) xs"
  shows "dreads (Suc n) (d_value tz (Suc n) l) (list_hdr (length xs) 0x90 0xd4 @ concat (map e xs)) (VList xs)"
proof (rule dreadsI)
  fix d r assume d: "dclear d" "rest (d_unp d) = (list_hdr (length xs) 0x90 0xd4 @ concat (map e xs)) @ r"
    "length ((list_hdr (length xs) 0x90 0xd4 @ concat (map e xs)) @ r) < Suc n"
  obtain hdr where hdr: "list_header (int (length xs)) 0x90 0xd4 = Some hdr" using fits_header [OF assms(1)] by blast
  then have h: "list_hdr (length xs) 0x90 0xd4 = hdr" "hdr \<noteq> []" using list_hdr_Cons by (auto simp: list_hdr_def)
  have len: "unat (word_of_nat (length xs) :: uint32) = length xs" using assms(1) by (simp add: fits_def unat_of_nat)
  have wf: "wf_unpacker (d_unp d)" using d(1) by (simp add: dclear_def)
  obtain u1 u2 where u: "Unpacker_Next (d_unp d) = Some u1" "u_Curr u1 = PackedArray"
      "Unpacker_Len u1 = Some (word_of_nat (length xs), u2)" "got (d_unp d) (concat (map e xs) @ r) u2"
    using array_header.header_dec [OF wf _ hdr, of "concat (map e xs) @ r"] d(2) by (auto simp: h)
  have g: "dgot d (concat (map e xs) @ r) (d\<lparr>d_unp := u2\<rparr>)" using u(4) by (simp add: dgot_def)
  note c = dgot_clear [OF d(1) g]
  have e: "u_Err u2 = None" using c by (simp add: dclear_def)
  have req: "decoder_require ''LIST'' (d\<lparr>d_unp := u1\<rparr>) = (True, d\<lparr>d_unp := u1\<rparr>)"
    using require_ok [OF d(1), of "''LIST''"] by (auto simp: decoder_require_def decoder_unsupported_def split: option.splits if_splits)
  have "list_all2 (dreads n (d_value tz n True)) (map e xs) xs" using assms(2) by (simp add: list_all2_conv_all_nth list_all_length)
  then have "dreads n (d_items (d_value tz n True) (length xs)) (concat (map e xs)) (Some xs)" by (rule dreads_items)
  moreover have "length (concat (map e xs) @ r) < n" using d(3) h by (cases hdr) auto
  ultimately obtain d' where "d_items (d_value tz n True) (length xs) (d\<lparr>d_unp := u2\<rparr>) = Some (Some xs, d')" "dgot (d\<lparr>d_unp := u2\<rparr>) r d'"
    using c unfolding dreads_def by blast
  then show "\<exists>d'. d_value tz (Suc n) l d = Some (VList xs, d') \<and> dgot d r d'"
    using dgot_trans [OF g] e
    by (simp add: value_Next [OF d(1) u(1)] d_by_kind_def u(2,3) d_list_def req d_unpack_def len del: d_value.simps)
qed

lemma dreads_zero [simp]: "dreads 0 f bs x"
  by (simp add: dreads_def)

lemma dreads_scalars:
  "dreads m (d_value tz (Suc n) l) (int64_bytes i) (VInt i)"
  "dreads m (d_value tz (Suc n) l) (float_bytes f) (VFloat f)"
  "fits s \<Longrightarrow> dreads m (d_value tz (Suc n) l) (string_bytes s) (VStr s)"
  "fits32 y \<Longrightarrow> dreads m (d_value tz (Suc n) l) (bytearray_bytes y) (VBytes y)"
  "length z = 16 \<Longrightarrow> dreads m (d_value tz (Suc n) l) (uuid_bytes z) (VUUID z)"
  "dreads m (d_value tz (Suc n) l) [if b then 0xc3 else 0xc2] (VBool b)"
proof -
  obtain c cs where c: "int64_bytes i = c # cs" "m_typ (markers c) = PackedInt" using int64_bytes_Cons by blast
  show "dreads m (d_value tz (Suc n) l) (int64_bytes i) (VInt i)" unfolding c(1)
    by (rule dreads_scalar [where f = Unpacker_Int and ty = "''INTEGER''"])
      (use dec_int_enc [of _ i] c in \<open>auto simp: dec_int_def d_by_kind_def\<close>)
  show "dreads m (d_value tz (Suc n) l) (float_bytes f) (VFloat f)" unfolding float_bytes_def
    by (rule dreads_scalar [where f = Unpacker_Float and ty = "''FLOAT''"])
      (use dec_float_enc [of _ f] in \<open>auto simp: dec_float_def float_bytes_def d_by_kind_def\<close>)
  show "dreads m (d_value tz (Suc n) l) (string_bytes s) (VStr s)" if s: "fits s"
  proof -
    obtain c cs where c: "string_bytes s = c # cs" "m_typ (markers c) = PackedStr" using string_bytes_Cons [OF s] by blast
    show ?thesis unfolding c(1)
      by (rule dreads_scalar [where f = Unpacker_String and ty = "''STRING''"])
        (use dec_string_enc [OF s] c in \<open>auto simp: dec_string_def d_by_kind_def\<close>)
  qed
  show "dreads m (d_value tz (Suc n) l) (bytearray_bytes y) (VBytes y)" if y: "fits32 y"
  proof -
    obtain c cs where c: "bytearray_bytes y = c # cs" "m_typ (markers c) = PackedByteArray" using bytearray_bytes_Cons [OF y] by blast
    show ?thesis unfolding c(1)
      by (rule dreads_scalar [where f = Unpacker_ByteArray and ty = "''BYTES''"])
        (use dec_bytes_enc [OF y] c in \<open>auto simp: dec_bytes_def d_by_kind_def\<close>)
  qed
  show "dreads m (d_value tz (Suc n) l) (uuid_bytes z) (VUUID z)" if z: "length z = 16"
    unfolding uuid_bytes_def
    by (rule dreads_scalar [where f = Unpacker_UUID and ty = "''UUID''"])
      (use dec_uuid_enc [of z] z in \<open>auto simp: dec_uuid_def uuid_bytes_def d_by_kind_def\<close>)
  show "dreads m (d_value tz (Suc n) l) [if b then 0xc3 else 0xc2] (VBool b)"
  proof (rule dreads_scalar [where f = "\<lambda>u. Some (Unpacker_Bool u)" and ty = "''BOOLEAN''"])
    fix u r assume "wf_unpacker u" "rest u = [if b then 0xc3 else 0xc2] @ r"
    then obtain u1 where "Unpacker_Next u = Some u1" "got u r u1" "u_Curr u1 = m_typ (markers (if b then 0xc3 else 0xc2))"
      using Next_got [of u "if b then 0xc3 else 0xc2" r] by auto
    then show "\<exists>u'. Unpacker_Next u \<bind> (\<lambda>u. Some (Unpacker_Bool u)) = Some (b, u') \<and> got u r u'"
      by (cases b) (simp_all add: Unpacker_Bool_def)
  qed (simp_all add: d_by_kind_def split: if_splits)
qed

text \<open>Every value of a property.\<close>

lemma dreads_vectors:
  "length f64 * 8 < 0x100000000 \<Longrightarrow> dreads (Suc n) (d_value tz (Suc n) l) (enc tz True (VVectorF64 f64)) (VVectorF64 f64)"
  "length f32 * 4 < 0x100000000 \<Longrightarrow> dreads (Suc n) (d_value tz (Suc n) l) (enc tz True (VVectorF32 f32)) (VVectorF32 f32)"
  "fits32 i8 \<Longrightarrow> dreads (Suc n) (d_value tz (Suc n) l) (enc tz True (VVectorI8 i8)) (VVectorI8 i8)"
  "length i16 * 2 < 0x100000000 \<Longrightarrow> dreads (Suc n) (d_value tz (Suc n) l) (enc tz True (VVectorI16 i16)) (VVectorI16 i16)"
  "length i32 * 4 < 0x100000000 \<Longrightarrow> dreads (Suc n) (d_value tz (Suc n) l) (enc tz True (VVectorI32 i32)) (VVectorI32 i32)"
  "length i64 * 8 < 0x100000000 \<Longrightarrow> dreads (Suc n) (d_value tz (Suc n) l) (enc tz True (VVectorI64 i64)) (VVectorI64 i64)"
  unfolding enc.simps
  by (rule dreads_vector, (erule fits32_concat | assumption),
      simp add: vector_elems_def elems_concat length_concat comp_def sum_list_triv)+

lemma dreads_VNil: "dreads m (d_value tz (Suc n) False) [0xc0] VNil"
proof (rule dreadsI)
  fix d r assume d: "dclear d" "rest (d_unp d) = [0xc0] @ r"
  have wf: "wf_unpacker (d_unp d)" using d(1) by (simp add: dclear_def)
  obtain u1 where u1: "Unpacker_Next (d_unp d) = Some u1" "got (d_unp d) r u1" "u_Curr u1 = m_typ (markers 0xc0)"
    using Next_got [OF wf, of "0xc0" r] d(2) by auto
  have req: "decoder_require ''NULL'' (d\<lparr>d_unp := u1\<rparr>) = (True, d\<lparr>d_unp := u1\<rparr>)"
    using require_ok [OF d(1), of "''NULL''"] by (auto simp: decoder_require_def decoder_unsupported_def split: option.splits if_splits)
  from u1 show "\<exists>d'. d_value tz (Suc n) False d = Some (VNil, d') \<and> dgot d r d'"
    by (simp add: value_Next [OF d(1) u1(1)] d_by_kind_def req dgot_def del: d_value.simps)
qed

lemma dreads_value: "wire_ok tz True True v \<Longrightarrow> storable l v \<Longrightarrow> dreads n (d_value tz n l) (enc tz True v) v"
proof (induction n arbitrary: v l)
  case (Suc n)
  show ?case
  proof (cases v)
    case VNil
    then show ?thesis using Suc.prems dreads_VNil by (simp del: d_value.simps)
  next
    case (VList xs)
    have "list_all (\<lambda>v. dreads n (d_value tz n True) (enc tz True v) v) xs"
      using Suc.prems Suc.IH unfolding VList by (simp add: list_all_iff)
    then show ?thesis using Suc.prems dreads_VList unfolding VList by (simp del: d_value.simps)
  next
    case (VDate t)
    then show ?thesis using Suc.prems dreads_VDate [of _ t n tz l] by (auto simp del: d_value.simps)
  next
    case (VTime t)
    then show ?thesis using Suc.prems dreads_VTime [of tz t _ n l] by (auto simp del: d_value.simps)
  next
    case (VVectorF64 x)
    then show ?thesis using Suc.prems dreads_vectors(1) by (simp del: d_value.simps enc.simps)
  next
    case (VVectorF32 x)
    then show ?thesis using Suc.prems dreads_vectors(2) by (simp del: d_value.simps enc.simps)
  next
    case (VVectorI8 x)
    then show ?thesis using Suc.prems dreads_vectors(3) by (simp del: d_value.simps enc.simps)
  next
    case (VVectorI16 x)
    then show ?thesis using Suc.prems dreads_vectors(4) by (simp del: d_value.simps enc.simps)
  next
    case (VVectorI32 x)
    then show ?thesis using Suc.prems dreads_vectors(5) by (simp del: d_value.simps enc.simps)
  next
    case (VVectorI64 x)
    then show ?thesis using Suc.prems dreads_vectors(6) by (simp del: d_value.simps enc.simps)
  qed (use Suc.prems dreads_scalars dreads_VPoint2D dreads_VPoint3D dreads_VDateTime dreads_VLocalDateTime dreads_VLocalTime dreads_VDuration
      in \<open>simp_all del: d_value.simps\<close>)
qed simp

lemma clear_new: "length buf + 256 < 2 ^ 32 \<Longrightarrow> dclear (new_decoder v10 buf)"
  by (simp add: dclear_def new_decoder_def wf_reset)

lemma decode_encoded:
  assumes "stands_for tz g v" "wire_ok tz True True v" "EncodeValue tz g = Inr ec" "length (en_Bytes ec @ junk) + 256 < 2 ^ 32"
  shows "DecodeValue tz (en_Bytes ec @ junk) (en_TypeName ec) (en_Baseline ec) = Some (Inr v) \<and> en_Baseline ec = Implemented"
proof -
  let ?e0 = "\<lparr>e_packer = Packer_Begin [], e_permitted = typeBaselines, e_baseline = \<lparr>sv_Major = 0, sv_Minor = 0\<rparr>, e_err = None\<rparr>"
  obtain k e where e: "encoder_value tz False g ?e0 = (k, e)" by fastforce
  have err: "e_err e = None" and ec: "en_Bytes ec = p_buf (e_packer e)" "en_Baseline ec = e_baseline e"
    using assms(3) e by (auto simp: EncodeValue_def encode_permitted_def Packer_End_def split: option.splits)
  have "base_ok ?e0" by (simp add: base_ok_def)
  then have w: "wrote (enc tz True v) ?e0 e" using encoder_writes [OF assms(1,2)] e err unfolding writer_def by blast
  then have b: "en_Bytes ec = enc tz True v" "en_Baseline ec = v10" by (simp_all add: wrote_def ec Packer_Begin_def emit_def)
  have st: "storable False v" by (rule stored_storable [OF assms(1) e err])
  let ?d = "new_decoder v10 (en_Bytes ec @ junk)"
  have rd: "rest (d_unp ?d) = enc tz True v @ junk" by (simp add: new_decoder_def b)
  have len: "length (enc tz True v @ junk) < Suc (Suc (length (en_Bytes ec @ junk)))" by (simp add: b)
  from dreads_value [OF assms(2) st, unfolded dreads_def, rule_format, OF clear_new [OF assms(4)] rd len]
  obtain d' where d': "d_value tz (Suc (Suc (length (en_Bytes ec @ junk)))) False ?d = Some (v, d')" "dgot ?d junk d'" by blast
  have c: "d_err d' = None" "u_Err (d_unp d') = None" using dgot_clear [OF clear_new [OF assms(4)] d'(2)] by (simp_all add: dclear_def)
  have imp: "v10 = Implemented" by (simp add: v10_def Implemented_def)
  have "unsupportedBaseline (en_TypeName ec) v10 = None" by (simp add: unsupportedBaseline_def v10_def Implemented_def)
  then show ?thesis using d'(1) c by (simp add: DecodeValue_def b(2) imp [symmetric] del: d_value.simps)
qed

text \<open>
  C14: what is encoded for encryption is decoded again. For every Go value that stands for a property of the database,
  if EncodeValue accepts it, the baseline it records is that of the scheme, and DecodeValue returns the value from the
  bytes, the type name and the baseline, whatever follows the bytes.
\<close>

theorem property_value_roundtrip:
  assumes "stands_for tz g v" "wire_ok tz True True v" "EncodeValue tz g = Inr ec" "length (en_Bytes ec @ junk) + 256 < 2 ^ 32"
  shows "DecodeValue tz (en_Bytes ec @ junk) (en_TypeName ec) (en_Baseline ec) = Some (Inr v) \<and> en_Baseline ec = Implemented"
  using assms by (rule decode_encoded)

definition sample_prop :: goarg where
  "sample_prop = GAnys [GPtr (GInt 7), GUint32 900]"

lemma sample_prop_encoded:
  "EncodeValue no_tz sample_prop = Inr \<lparr>en_Bytes = [0x92, 0x07, 0xc9, 0x03, 0x84], en_TypeName = ''LIST'', en_Baseline = Implemented\<rparr>"
  by code_simp

theorem property_value_roundtrip_witness:
  "DecodeValue no_tz [0x92, 0x07, 0xc9, 0x03, 0x84, 0xff] ''LIST'' Implemented = Some (Inr (VList [VInt 7, VInt 900]))"
proof -
  have "stands_for no_tz (GUint32 900) (VInt 900)" using stands_for.intros(5) [of no_tz 900] by simp
  note elem = this
  have "stands_for no_tz sample_prop (VList [VInt 7, VInt (ucast (900 :: 32 word))])" unfolding sample_prop_def
    by (rule sf_elems [where xs = "[GPtr (GInt 7), GUint32 900]"]) (use elem in \<open>auto intro: stands_for.intros\<close>)
  moreover have "wire_ok no_tz True True (VList [VInt 7, VInt (ucast (900 :: 32 word))])" by (simp add: fits_def)
  ultimately show ?thesis using property_value_roundtrip [OF _ _ sample_prop_encoded, of "VList [VInt 7, VInt (ucast (900 :: 32 word))]" "[0xff]"] by simp
qed

section \<open>The structure around the cipher text\<close>

fun meta_enc :: "meta_value \<Rightarrow> bytes" where
  "meta_enc (MetaString s) = string_bytes s"
| "meta_enc (MetaBytes b) = bytearray_bytes b"
| "meta_enc (MetaInt i) = int64_bytes i"
| "meta_enc MetaOther = []"

fun meta_ok :: "string \<times> meta_value \<Rightarrow> bool" where
  "meta_ok (k, MetaString s) = (fits k \<and> fits s)"
| "meta_ok (k, MetaBytes b) = (fits k \<and> fits32 b)"
| "meta_ok (k, MetaInt i) = fits k"
| "meta_ok (k, MetaOther) = False"

definition meta_bytes :: "(string \<times> meta_value) list \<Rightarrow> bytes" where
  "meta_bytes m = concat (map (\<lambda>(k, v). string_bytes k @ meta_enc v) m)"

lemma pack_metadata_emit: "list_all meta_ok m \<Longrightarrow> pack_metadata m p = Inr (emit p (meta_bytes m))"
proof (induction m arbitrary: p)
  case (Cons kv m)
  obtain k v where "kv = (k, v)" by (cases kv)
  with Cons show ?case by (cases v) (simp_all add: run_simps meta_bytes_def Let_def)
qed (simp add: meta_bytes_def)

lemma dreads_Next_kind:
  assumes "\<And>u r. wf_unpacker u \<Longrightarrow> u_Err u = None \<Longrightarrow> rest u = (b # bs) @ r \<Longrightarrow> \<exists>u'. Unpacker_Next u \<bind> f = Some (x, u') \<and> got u r u'"
    and "m_typ (markers b) = kind"
    and "\<And>d. u_Curr (d_unp d) = kind \<Longrightarrow> K d = d_unpack f d \<bind> (\<lambda>(x, d). g x d)"
    and "dreads n (g x) cs y"
  shows "dreads n (\<lambda>d. d_Next d \<bind> K) ((b # bs) @ cs) y"
proof -
  have t: "dreads n (d_typed kind [] x f) (b # bs) x" by (rule dreads_typed [OF assms(1,2)])
  have eq: "d_Next d \<bind> K = d_typed kind [] x f d \<bind> (\<lambda>(x, d). g x d)" if "dclear d" "rest (d_unp d) = ((b # bs) @ cs) @ r" for d r
  proof -
    have "wf_unpacker (d_unp d)" using that(1) by (simp add: dclear_def)
    from Next_safe [OF this] obtain u1 where u1: "Unpacker_Next (d_unp d) = Some u1" by blast
    have "u_Curr u1 = kind" using Next_Curr [OF _ _ u1] that assms(2) by (auto simp: dclear_def)
    then show ?thesis using assms(3) [of "d\<lparr>d_unp := u1\<rparr>"] by (simp add: d_typed_def d_Next_def u1)
  qed
  show ?thesis using dreads_bind [where g = g, OF t assms(4)] eq unfolding dreads_def by (metis (no_types, lifting))
qed

lemma dreads_meta_entries:
  "list_all meta_ok m \<Longrightarrow> wf_map (acc @ m) \<Longrightarrow> dreads n (d_meta_entries (length m) acc) (meta_bytes m) (acc @ m)"
proof (induction m arbitrary: acc)
  case Nil
  have "d_meta_entries 0 acc = (\<lambda>d. Some (acc, d))" by (simp add: fun_eq_iff)
  then show ?case by (simp add: dreads_return meta_bytes_def)
next
  case (Cons kv m)
  obtain k v where kv: "kv = (k, v)" by (cases kv)
  have fk: "fits k" using Cons.prems(1) kv by (cases v) auto
  have put: "map_put k v acc = acc @ [(k, v)]" using Cons.prems(2) by (intro map_put_id) (auto simp: wf_map_def kv)
  have tail: "dreads n (d_meta_entries (length m) (map_put k v acc)) (meta_bytes m) (acc @ (k, v) # m)"
    using Cons.IH [of "acc @ [(k, v)]"] Cons.prems by (simp add: put kv)
  let ?K = "\<lambda>d. case u_Curr (d_unp d) of
              PackedStr \<Rightarrow> do { (s, d) \<leftarrow> d_unpack Unpacker_String d; d_meta_entries (length m) (map_put k (MetaString s) acc) d }
            | PackedByteArray \<Rightarrow> do { (b, d) \<leftarrow> d_unpack Unpacker_ByteArray d; d_meta_entries (length m) (map_put k (MetaBytes b) acc) d }
            | PackedInt \<Rightarrow> do { (i, d) \<leftarrow> d_unpack Unpacker_Int d; d_meta_entries (length m) (map_put k (MetaInt i) acc) d }
            | _ \<Rightarrow> Some (acc, malformed ''the Encrypted metadata entry is not a string, bytes or integer'' d)"
  have val: "dreads n (\<lambda>d. d_Next d \<bind> ?K) (meta_enc v @ meta_bytes m) (acc @ (k, v) # m)"
  proof (cases v)
    case (MetaString s)
    then have s: "fits s" using Cons.prems(1) kv by simp
    obtain c cs where c: "string_bytes s = c # cs" "m_typ (markers c) = PackedStr" using string_bytes_Cons [OF s] by blast
    show ?thesis unfolding MetaString meta_enc.simps c(1)
      by (rule dreads_Next_kind [where f = Unpacker_String and g = "\<lambda>s. d_meta_entries (length m) (map_put k (MetaString s) acc)"])
        (use dec_string_enc [OF s] c tail MetaString in \<open>auto simp: dec_string_def\<close>)
  next
    case (MetaBytes b)
    then have b: "fits32 b" using Cons.prems(1) kv by simp
    obtain c cs where c: "bytearray_bytes b = c # cs" "m_typ (markers c) = PackedByteArray" using bytearray_bytes_Cons [OF b] by blast
    show ?thesis unfolding MetaBytes meta_enc.simps c(1)
      by (rule dreads_Next_kind [where f = Unpacker_ByteArray and g = "\<lambda>b. d_meta_entries (length m) (map_put k (MetaBytes b) acc)"])
        (use dec_bytes_enc [OF b] c tail MetaBytes in \<open>auto simp: dec_bytes_def\<close>)
  next
    case (MetaInt i)
    obtain c cs where c: "int64_bytes i = c # cs" "m_typ (markers c) = PackedInt" using int64_bytes_Cons by blast
    show ?thesis unfolding MetaInt meta_enc.simps c(1)
      by (rule dreads_Next_kind [where f = Unpacker_Int and g = "\<lambda>i. d_meta_entries (length m) (map_put k (MetaInt i) acc)"])
        (use dec_int_enc [of _ i] c tail MetaInt in \<open>auto simp: dec_int_def\<close>)
  qed (use Cons.prems(1) kv in simp)
  have "dreads n (\<lambda>d. d_string d \<bind> (\<lambda>(key, d). if d_err d \<noteq> None then Some (acc, d) else d_Next d \<bind> (\<lambda>d. case u_Curr (d_unp d) of
              PackedStr \<Rightarrow> do { (s, d) \<leftarrow> d_unpack Unpacker_String d; d_meta_entries (length m) (map_put key (MetaString s) acc) d }
            | PackedByteArray \<Rightarrow> do { (b, d) \<leftarrow> d_unpack Unpacker_ByteArray d; d_meta_entries (length m) (map_put key (MetaBytes b) acc) d }
            | PackedInt \<Rightarrow> do { (i, d) \<leftarrow> d_unpack Unpacker_Int d; d_meta_entries (length m) (map_put key (MetaInt i) acc) d }
            | _ \<Rightarrow> Some (acc, malformed ''the Encrypted metadata entry is not a string, bytes or integer'' d))))
       (string_bytes k @ meta_enc v @ meta_bytes m) (acc @ (k, v) # m)"
    by (rule dreads_string_bind [OF fk], rule dreads_cong [OF _ val]) (simp add: dclear_def)
  moreover have "meta_bytes (kv # m) = string_bytes k @ meta_enc v @ meta_bytes m" by (simp add: meta_bytes_def kv)
  ultimately show ?case unfolding kv
    by (simp only: list.size add_Suc_right add_0_right d_meta_entries.simps(2) [abs_def])
qed

lemma dreads_metadata:
  assumes "list_all meta_ok m" "wf_map m" "fits m"
  shows "dreads n d_metadata (list_hdr (length m) 0xa0 0xd8 @ meta_bytes m) m"
proof (rule dreadsI)
  fix d r assume d: "dclear d" "rest (d_unp d) = (list_hdr (length m) 0xa0 0xd8 @ meta_bytes m) @ r"
    "length ((list_hdr (length m) 0xa0 0xd8 @ meta_bytes m) @ r) < n"
  obtain hdr where hdr: "list_header (int (length m)) 0xa0 0xd8 = Some hdr" using fits_header [OF assms(3)] by blast
  then have h: "list_hdr (length m) 0xa0 0xd8 = hdr" by (simp add: list_hdr_def)
  have len: "unat (word_of_nat (length m) :: uint32) = length m" using assms(3) by (simp add: fits_def unat_of_nat)
  have wf: "wf_unpacker (d_unp d)" using d(1) by (simp add: dclear_def)
  obtain u1 u2 where u: "Unpacker_Next (d_unp d) = Some u1" "u_Curr u1 = PackedMap"
      "Unpacker_Len u1 = Some (word_of_nat (length m), u2)" "got (d_unp d) (meta_bytes m @ r) u2"
    using map_header.header_dec [OF wf _ hdr, of "meta_bytes m @ r"] d(2) by (auto simp: h)
  have g: "dgot d (meta_bytes m @ r) (d\<lparr>d_unp := u2\<rparr>)" using u(4) by (simp add: dgot_def)
  note c = dgot_clear [OF d(1) g]
  have e: "u_Err u2 = None" using c by (simp add: dclear_def)
  have "dreads n (d_meta_entries (length m) []) (meta_bytes m) m"
    using dreads_meta_entries [OF assms(1), of "[]" n] assms(2) by simp
  moreover have "length (meta_bytes m @ r) < n" using d(3) by simp
  ultimately obtain d' where "d_meta_entries (length m) [] (d\<lparr>d_unp := u2\<rparr>) = Some (m, d')" "dgot (d\<lparr>d_unp := u2\<rparr>) r d'"
    using c unfolding dreads_def by blast
  then show "\<exists>d'. d_metadata d = Some (m, d') \<and> dgot d r d'"
    using dgot_trans [OF g] e by (simp add: d_metadata_def d_Next_def u d_unpack_def len)
qed

definition encrypted_ok :: "encrypted \<Rightarrow> bool" where
  "encrypted_ok e \<longleftrightarrow> en_ProfileType e = ''ENVELOPE'' \<and> en_ProfileVersion e = 1 \<and> fits (en_ProfileName e) \<and> fits32 (en_CipherOutput e) \<and>
     fits (en_TypeName' e) \<and> list_all meta_ok (en_Metadata e) \<and> wf_map (en_Metadata e) \<and> fits (en_Metadata e)"

definition encrypted_bytes :: "encrypted \<Rightarrow> bytes" where
  "encrypted_bytes e =
     (let m = sort_key fst (en_Metadata e) in
      struct_bytes 0x65 [string_bytes (en_ProfileType e), int64_bytes (en_ProfileVersion e), string_bytes (en_ProfileName e),
        bytearray_bytes (en_CipherOutput e), string_bytes (en_TypeName' e), int64_bytes (sv_Major (en_Baseline' e)),
        int64_bytes (sv_Minor (en_Baseline' e)), list_hdr (length m) 0xa0 0xd8 @ meta_bytes m])"

lemma sorted_meta:
  assumes "list_all meta_ok m" "wf_map m" "fits m"
  shows "list_all meta_ok (sort_key fst m)" "wf_map (sort_key fst m)" "fits (sort_key fst m)" "map_of (sort_key fst m) = map_of m"
proof -
  have s: "set (sort_key fst m) = set m" "length (sort_key fst m) = length m" by simp_all
  have d: "distinct (map fst (sort_key fst m))" using assms(2) by (simp add: wf_map_def distinct_map)
  show "list_all meta_ok (sort_key fst m)" "fits (sort_key fst m)" using assms s by (simp_all add: list_all_iff fits_def)
  show "wf_map (sort_key fst m)" using d by (simp add: wf_map_def)
  have "set (sort_key fst m) = set m" by simp
  then show "map_of (sort_key fst m) = map_of m" using map_of_inject_set [of "sort_key fst m" m] d assms(2) by (simp add: wf_map_def)
qed

lemma EncodeEncrypted_bytes:
  assumes "encrypted_ok e"
  shows "EncodeEncrypted e = Inr (0x01 # encrypted_bytes e)"
proof -
  let ?m = "sort_key fst (en_Metadata e)"
  have m: "list_all meta_ok ?m" "fits ?m" "length ?m = length (en_Metadata e)"
    using sorted_meta [of "en_Metadata e"] assms by (simp_all add: encrypted_ok_def)
  have f: "fits (en_ProfileType e)" using assms by (simp add: encrypted_ok_def fits_def)
  have hdr: "Packer_MapHeader p (int (length (en_Metadata e))) = emit p (list_hdr (length ?m) 0xa0 0xd8)" for p
    using list_hdr_emit [OF m(2)] by (simp add: Packer_MapHeader_def)
  show ?thesis
    using assms f m by (simp add: EncodeEncrypted_def encrypted_ok_def hdr pack_metadata_emit run_simps Packer_Int_def
        Packer_StructHeader_def encrypted_bytes_def struct_bytes_def Packer_End_def Packer_Begin_def emit_def Let_def)
qed

lemma dreads_pair: "dreads n f a x \<Longrightarrow> y = h x \<Longrightarrow> dreads n (\<lambda>d. f d \<bind> (\<lambda>(x, d). Some (h x, d))) a y"
  using dreads_bind [OF _ dreads_return, of n f a x h] by simp

lemma dreads_encrypted_fields:
  assumes "fits name" "fits32 cipher" "fits ty" "list_all meta_ok m" "wf_map m" "fits m"
  shows "dreads n d_encrypted_fields (string_bytes name @ bytearray_bytes cipher @ string_bytes ty @ int64_bytes ma @ int64_bytes mi @
    list_hdr (length m) 0xa0 0xd8 @ meta_bytes m) (name, cipher, ty, ma, mi, m)"
  unfolding d_encrypted_fields_def [abs_def]
  by (rule dreads_string_bind [OF assms(1)], rule dreads_bytes_bind [OF assms(2)], rule dreads_string_bind [OF assms(3)],
      rule dreads_int_bind, rule dreads_int_bind, rule dreads_pair [OF dreads_metadata [OF assms(4-6)]], rule refl)

text \<open>The structure comes back, with its metadata in the order of their keys; what follows it is not looked at.\<close>

lemma encrypted_roundtrip:
  assumes "encrypted_ok e" "length (encrypted_bytes e @ junk) + 256 < 2 ^ 32"
  shows "DecodeEncrypted (0x01 # encrypted_bytes e @ junk) = Some (Inr (e\<lparr>en_Metadata := sort_key fst (en_Metadata e)\<rparr>))"
proof -
  let ?m = "sort_key fst (en_Metadata e)" and ?d = "new_decoder v10 (encrypted_bytes e @ junk)"
  define body where "body = string_bytes (en_ProfileName e) @ bytearray_bytes (en_CipherOutput e) @ string_bytes (en_TypeName' e) @
    int64_bytes (sv_Major (en_Baseline' e)) @ int64_bytes (sv_Minor (en_Baseline' e)) @ list_hdr (length ?m) 0xa0 0xd8 @ meta_bytes ?m"
  have bytes: "encrypted_bytes e = 0xb8 # 0x65 # string_bytes ''ENVELOPE'' @ int64_bytes 1 @ body"
    using assms(1) by (simp add: encrypted_bytes_def struct_bytes_def encrypted_ok_def body_def Let_def)
  have c: "dclear ?d" by (rule clear_new [OF assms(2)])
  then have wf: "wf_unpacker (d_unp ?d)" by (simp add: dclear_def)
  let ?r = "string_bytes ''ENVELOPE'' @ int64_bytes 1 @ body @ junk"
  obtain u1 where u1: "Unpacker_Next (d_unp ?d) = Some u1" "got (d_unp ?d) (0x65 # ?r) u1" "u_mrk u1 = markers 0xb8" "u_Curr u1 = m_typ (markers 0xb8)"
    using Next_got [OF wf, of "0xb8" "0x65 # ?r"] by (auto simp: new_decoder_def bytes)
  have mrk: "markers 0xb8 = short_marker PackedStruct 8" using markers_short [of 8] by simp
  let ?u2 = "adv (Suc 0) u1"
  have u2: "Unpacker_StructTag u1 = Some (0x65, ?u2)" "got u1 ?r ?u2"
    using u1(2) pop_rest [of u1 "0x65"] got_adv1 [of u1 "0x65"] by (simp_all add: Unpacker_StructTag_def got_def)
  have len: "Unpacker_Len ?u2 = Some (8, ?u2)" using scast_small [of 8] by (simp add: Unpacker_Len_def u1(3) mrk)
  let ?d2 = "?d\<lparr>d_unp := ?u2\<rparr>"
  have g2: "dgot ?d ?r ?d2" using got_trans [OF u1(2) u2(2)] by (simp add: dgot_def)
  note c2 = dgot_clear [OF c g2]
  let ?n = "Suc (length ?r)"
  have fe: "fits ''ENVELOPE''" by (simp add: fits_def)
  obtain d3 where d3: "d_string ?d2 = Some (''ENVELOPE'', d3)" "dgot ?d2 (int64_bytes 1 @ body @ junk) d3"
    using dreads_string [OF fe, of ?n] c2 unfolding dreads_def by (metis lessI)
  note c3 = dgot_clear [OF conjunct1 [OF c2] d3(2)]
  obtain d4 where d4: "d_int d3 = Some (1, d4)" "dgot d3 (body @ junk) d4"
    using dreads_int [of "Suc (length (int64_bytes 1 @ body @ junk))" 1] c3 unfolding dreads_def by (metis lessI)
  note c4 = dgot_clear [OF conjunct1 [OF c3] d4(2)]
  have "dreads (Suc (length (body @ junk))) d_encrypted_fields body (en_ProfileName e, en_CipherOutput e, en_TypeName' e,
      sv_Major (en_Baseline' e), sv_Minor (en_Baseline' e), ?m)"
    unfolding body_def by (rule dreads_encrypted_fields) (use assms(1) sorted_meta [of "en_Metadata e"] in \<open>simp_all add: encrypted_ok_def\<close>)
  then obtain d5 where d5: "d_encrypted_fields d4 = Some ((en_ProfileName e, en_CipherOutput e, en_TypeName' e,
      sv_Major (en_Baseline' e), sv_Minor (en_Baseline' e), ?m), d5)" "dgot d4 junk d5"
    using c4 unfolding dreads_def by (metis lessI)
  note c5 = dgot_clear [OF conjunct1 [OF c4] d5(2)]
  have imp: "Implemented = v10" by (simp add: v10_def Implemented_def)
  have e: "d_err d4 = None" "d_err d5 = None" "u_Err (d_unp d5) = None" using c4 c5 by (simp_all add: dclear_def)
  show ?thesis using assms(1) e
    by (simp add: DecodeEncrypted_def imp d_Next_def u1(1,4) mrk d_unpack_def u2(1) len d3(1) d4(1) d_encrypted_rest_def d5(1) encrypted_ok_def)
qed

end
