(* ===== verification/PropertyDecodeSafe.thy ===== *)
theory PropertyDecodeSafe
  imports PropertyCodecProps HydratorProps
begin

text \<open>
  The decoders of src/neo4j/internal/propertyencryption return on every input: no byte string makes them index past
  its end, and the nesting of lists is bounded by the length of the plaintext.
\<close>

section \<open>Methods that return\<close>

definition dleft :: "decoder \<Rightarrow> nat" where
  "dleft d = length (rest (d_unp d))"

definition dreturns :: "'a dy \<Rightarrow> decoder \<Rightarrow> bool" where
  "dreturns f d \<longleftrightarrow> (\<exists>x d'. f d = Some (x, d') \<and> progress (d_unp d) (d_unp d'))"

text \<open>\<open>dsafe L f\<close>: with a well-formed unpacker and at most \<open>L\<close> unread bytes \<open>f\<close> returns.\<close>

definition dsafe :: "nat \<Rightarrow> 'a dy \<Rightarrow> bool" where
  "dsafe L f \<longleftrightarrow> (\<forall>d. wf_unpacker (d_unp d) \<longrightarrow> dleft d \<le> L \<longrightarrow> dreturns f d)"

named_theorems dsafe_intros

lemma dsafe_bind [dsafe_intros]:
  assumes f: "dsafe L f" and g: "\<And>x. dsafe L (g x)"
  shows "dsafe L (\<lambda>d. f d \<bind> (\<lambda>(x, d). g x d))"
  unfolding dsafe_def
proof (intro allI impI)
  fix d :: decoder assume d: "wf_unpacker (d_unp d)" "dleft d \<le> L"
  obtain x d1 where 1: "f d = Some (x, d1)" "progress (d_unp d) (d_unp d1)"
    using f d by (auto simp: dsafe_def dreturns_def)
  then have "wf_unpacker (d_unp d1)" "dleft d1 \<le> L"
    using d progress_left [OF 1(2)] by (auto simp: progress_def dleft_def)
  then obtain y d2 where "g x d1 = Some (y, d2)" "progress (d_unp d1) (d_unp d2)"
    using g [of x] by (auto simp: dsafe_def dreturns_def)
  with 1 show "dreturns (\<lambda>d. f d \<bind> (\<lambda>(x, d). g x d)) d"
    by (auto simp: dreturns_def intro: progress_trans)
qed

lemma malformed_unp [simp]: "d_unp (malformed msg d) = d_unp d"
  by (simp add: malformed_def decoder_setErr_def)

lemma unsupported_unp [simp]: "d_unp (decoder_unsupported msg d) = d_unp d"
  by (simp add: decoder_unsupported_def)

lemma require_unp: "decoder_require ty d = (b, d') \<Longrightarrow> d_unp d' = d_unp d"
  by (auto simp: decoder_require_def split: option.splits if_splits)

lemma fieldCount_unp: "fieldCount name n m d = (b, d') \<Longrightarrow> d_unp d' = d_unp d"
  by (auto simp: fieldCount_def split: if_splits)

lemma dsafe_leave: "(\<And>d. d_unp (g d) = d_unp d) \<Longrightarrow> dsafe L (\<lambda>d. Some (f d, g d))"
  by (auto simp: dsafe_def dreturns_def)

lemmas dsafe_leaves [dsafe_intros] =
  dsafe_leave [where g = "\<lambda>d. d", OF refl]
  dsafe_leave [where g = "malformed m" for m, OF malformed_unp]
  dsafe_leave [where g = "decoder_unsupported m" for m, OF unsupported_unp]

lemma dsafe_ret [dsafe_intros]: "dsafe L (d_ret v)"
  unfolding d_ret_def by (rule dsafe_leaves)

lemma dsafe_if [dsafe_intros]: "dsafe L f \<Longrightarrow> dsafe L g \<Longrightarrow> dsafe L (\<lambda>d. if P d then f d else g d)"
  by (auto simp: dsafe_def dreturns_def)

lemma dsafe_if_const [dsafe_intros]: "dsafe L f \<Longrightarrow> dsafe L g \<Longrightarrow> dsafe L (if b then f else g)"
  by simp

lemma dsafe_unpack:
  assumes "\<And>u. wf_unpacker u \<Longrightarrow> \<exists>x u'. f u = Some (x, u') \<and> progress u u'"
  shows "dsafe L (d_unpack f)"
  unfolding dsafe_def
proof (intro allI impI)
  fix d :: decoder assume "wf_unpacker (d_unp d)"
  from assms [OF this] show "dreturns (d_unpack f) d" by (auto simp: dreturns_def d_unpack_def)
qed

lemma dsafe_unpackers [dsafe_intros]:
  "dsafe L (d_unpack Unpacker_Int)" "dsafe L (d_unpack Unpacker_Float)" "dsafe L (d_unpack Unpacker_String)"
  "dsafe L (d_unpack Unpacker_ByteArray)" "dsafe L (d_unpack Unpacker_UUID)" "dsafe L (d_unpack Unpacker_Len)"
  "dsafe L (d_unpack Unpacker_StructTag)" "dsafe L (d_unpack (\<lambda>u. Some (Unpacker_Bool u)))"
  using Bool_safe
  by (fastforce intro!: dsafe_unpack Int_safe Float_safe String_safe ByteArray_safe UUID_safe Len_safe
      structTag.reader_returns)+

text \<open>Next takes a byte off, or finds none and announces an integer.\<close>

lemma d_Next_cases:
  assumes "wf_unpacker (d_unp d)"
  obtains d' where "d_Next d = Some d'" and "progress (d_unp d) (d_unp d')" and "d_err d' = d_err d"
    and "dleft d' < dleft d \<or> u_Curr (d_unp d') = PackedInt"
proof (cases "rest (d_unp d)")
  case Nil
  then have "Unpacker_Next (d_unp d) =
      Some ((Unpacker_setErr (d_unp d) IoError)\<lparr>u_mrk := markers 0, u_Curr := m_typ (markers 0)\<rparr>)"
    using assms by (simp add: Unpacker_Next_def pop_empty)
  moreover have "m_typ (markers 0) = PackedInt" by (simp add: markers_def)
  ultimately show ?thesis
    using assms
    by (intro that [of "d\<lparr>d_unp := (Unpacker_setErr (d_unp d) IoError)\<lparr>u_mrk := markers 0, u_Curr := PackedInt\<rparr>\<rparr>"])
      (auto simp: d_Next_def intro: progress_setErr)
next
  case (Cons b r)
  obtain u1 where u1: "Unpacker_Next (d_unp d) = Some u1" "got (d_unp d) r u1"
    using Next_got [OF assms Cons] .
  moreover obtain u' where "Unpacker_Next (d_unp d) = Some u'" "progress (d_unp d) u'"
    using Next_safe [OF assms] by blast
  ultimately show ?thesis
    using Cons by (intro that [of "d\<lparr>d_unp := u1\<rparr>"]) (auto simp: d_Next_def dleft_def got_def)
qed

lemma dsafe_Next [dsafe_intros]: "dsafe L f \<Longrightarrow> dsafe L (\<lambda>d. d_Next d \<bind> f)"
  unfolding dsafe_def
proof (intro allI impI)
  fix d :: decoder assume f: "\<forall>d. wf_unpacker (d_unp d) \<longrightarrow> dleft d \<le> L \<longrightarrow> dreturns f d"
    and d: "wf_unpacker (d_unp d)" "dleft d \<le> L"
  obtain d1 where 1: "d_Next d = Some d1" "progress (d_unp d) (d_unp d1)" using d_Next_cases [OF d(1)] by blast
  then have "dreturns f d1" using f d progress_left [OF 1(2)] by (auto simp: progress_def dleft_def)
  with 1 show "dreturns (\<lambda>d. d_Next d \<bind> f) d" by (auto simp: dreturns_def intro: progress_trans)
qed

lemma dsafe_typed: "dsafe L (d_unpack f) \<Longrightarrow> dsafe L (d_typed kind msg zero f)"
  unfolding d_typed_def by (intro dsafe_intros)

lemma dsafe_fields [dsafe_intros]: "dsafe L d_int" "dsafe L d_float" "dsafe L d_string" "dsafe L d_bytes"
  unfolding d_int_def d_float_def d_string_def d_bytes_def by (intro dsafe_typed dsafe_intros)+

lemma dsafe_require:
  assumes "dsafe L body"
  shows "dsafe L (\<lambda>d. case decoder_require ty d of (False, d1) \<Rightarrow> Some (x, d1) | (True, d1) \<Rightarrow> body d1)"
  unfolding dsafe_def
proof (intro allI impI)
  fix d :: decoder assume d: "wf_unpacker (d_unp d)" "dleft d \<le> L"
  obtain b d1 where b: "decoder_require ty d = (b, d1)" by fastforce
  then have u: "d_unp d1 = d_unp d" by (rule require_unp)
  then have "dreturns body d1" using assms d by (simp add: dsafe_def dleft_def)
  with b u d show "dreturns (\<lambda>d. case decoder_require ty d of (False, d1) \<Rightarrow> Some (x, d1) | (True, d1) \<Rightarrow> body d1) d"
    by (cases b) (auto simp: dreturns_def)
qed

lemma dsafe_count:
  assumes "dsafe L body"
  shows "dsafe L (\<lambda>d. case fieldCount name n m d of (False, d1) \<Rightarrow> Some (x, d1) | (True, d1) \<Rightarrow> body d1)"
  unfolding dsafe_def
proof (intro allI impI)
  fix d :: decoder assume d: "wf_unpacker (d_unp d)" "dleft d \<le> L"
  obtain b d1 where b: "fieldCount name n m d = (b, d1)" by fastforce
  then have u: "d_unp d1 = d_unp d" by (rule fieldCount_unp)
  then have "dreturns body d1" using assms d by (simp add: dsafe_def dleft_def)
  with b u d show "dreturns (\<lambda>d. case fieldCount name n m d of (False, d1) \<Rightarrow> Some (x, d1) | (True, d1) \<Rightarrow> body d1) d"
    by (cases b) (auto simp: dreturns_def)
qed

lemma dsafe_struct: "dsafe L body \<Longrightarrow> dsafe L (d_struct ty name n m body)"
  unfolding d_struct_def by (intro dsafe_require dsafe_count)

section \<open>Values\<close>

lemma dsafe_structs [dsafe_intros]:
  "dsafe L (d_date n)" "dsafe L (d_zonedTime tz n)" "dsafe L (d_localTime tz n)" "dsafe L (d_localDateTime tz n)"
  "dsafe L (d_zonedDateTimeOffset n)" "dsafe L (d_duration n)" "dsafe L (d_point2D n)" "dsafe L (d_point3D n)"
  unfolding d_date_def d_zonedTime_def d_localTime_def d_localDateTime_def d_zonedDateTimeOffset_def
    d_duration_def d_point2D_def d_point3D_def
  by (intro dsafe_struct dsafe_intros)+

lemma dsafe_zoneId [dsafe_intros]: "dsafe L (d_zonedDateTimeZoneId tz n)"
proof -
  have "dsafe L (\<lambda>d. case zone_of_id tz z of
      None \<Rightarrow> Some (VNil, malformed ''unknown time zone'' d) | Some zone \<Rightarrow> Some (f zone, d))" for z f
    by (cases "zone_of_id tz z") (simp_all add: dsafe_leaves)
  then show ?thesis unfolding d_zonedDateTimeZoneId_def by (intro dsafe_struct dsafe_intros)
qed

lemma dsafe_vector [dsafe_intros]: "dsafe L (d_vector n)"
proof -
  have v: "dsafe L (decodeVector w build e)" for w build e
    unfolding decodeVector_def by (cases "length e mod w = 0") (simp_all add: dsafe_leaves)
  have "dsafe L (\<lambda>d. if length m \<noteq> 1 then Some (VNil, malformed s d) else at m 0 \<bind> (\<lambda>t. g t d))"
    if "\<And>t. dsafe L (g t)" for m :: bytes and s and g :: "byte \<Rightarrow> goval dy"
    using that by (cases "length m = 1") (auto simp: at_def dsafe_leaves)
  note m = this
  show ?thesis
    unfolding d_vector_def
    by (rule dsafe_struct, rule dsafe_bind, rule dsafe_fields, rule dsafe_bind, rule dsafe_fields, rule dsafe_if,
        rule dsafe_leaves, rule m) (intro dsafe_intros v)
qed

lemma dsafe_structure [dsafe_intros]: "dsafe L (d_structure tz)"
  unfolding d_structure_def d_by_tag_def by (intro dsafe_intros)

lemma dsafe_scalar: "dsafe L (d_unpack f) \<Longrightarrow> dsafe L (d_scalar ty build f)"
  unfolding d_scalar_def by (intro dsafe_require dsafe_intros)

lemma dsafe_items: "dsafe L f \<Longrightarrow> dsafe L (d_items f n)"
proof (induction n)
  case 0
  have "d_items f 0 = (\<lambda>d. Some (Some [], d))" by (simp add: fun_eq_iff)
  then show ?case by (simp add: dsafe_leaves)
next
  case (Suc n)
  have "d_items f (Suc n) = (\<lambda>d. f d \<bind> (\<lambda>(item, d).
      if d_err d \<noteq> None \<or> u_Err (d_unp d) \<noteq> None then Some (None, d)
      else d_items f n d \<bind> (\<lambda>(r, d). Some (map_option (\<lambda>items. item # items) r, d))))"
    by (simp add: fun_eq_iff)
  then show ?case using Suc by (simp only:) (intro dsafe_intros, simp_all)
qed

lemma dsafe_list: "dsafe L f \<Longrightarrow> dsafe L (d_list f)"
  unfolding d_list_def by (intro dsafe_require dsafe_intros dsafe_items)

lemma dsafe_null: "dsafe L (\<lambda>d. Some (x, snd (decoder_require ty d)))"
  by (rule dsafe_leave) (metis prod.collapse require_unp)

lemma dsafe_by_kind: "dsafe L item \<Longrightarrow> dsafe L (d_by_kind tz item inList)"
  unfolding dsafe_def
proof (intro allI impI)
  fix d :: decoder assume "\<forall>d. wf_unpacker (d_unp d) \<longrightarrow> dleft d \<le> L \<longrightarrow> dreturns item d"
    and d: "wf_unpacker (d_unp d)" "dleft d \<le> L"
  then have l: "dsafe L (d_list item)" by (intro dsafe_list) (simp add: dsafe_def)
  have s: "dsafe L (d_scalar ty build (\<lambda>u. Some (Unpacker_Bool u)))" "dsafe L (d_scalar ty build2 Unpacker_Int)"
    "dsafe L (d_scalar ty build3 Unpacker_Float)" "dsafe L (d_scalar ty build4 Unpacker_String)"
    "dsafe L (d_scalar ty build5 Unpacker_ByteArray)" "dsafe L (d_scalar ty build6 Unpacker_UUID)"
    for ty and build :: "bool \<Rightarrow> goval" and build2 build3 build4 build5 build6
    by (intro dsafe_scalar dsafe_intros)+
  show "dreturns (d_by_kind tz item inList) d"
    using d l s dsafe_structure [of L tz] dsafe_null [of L VNil "''NULL''"]
    by (cases "u_Curr (d_unp d)"; cases inList) (auto simp: d_by_kind_def dreturns_def dsafe_def)
qed

text \<open>An integer is announced at the end of the input: then no item is read.\<close>

lemma dreturns_int:
  assumes "wf_unpacker (d_unp d)" and "u_Curr (d_unp d) = PackedInt"
  shows "dreturns (d_by_kind tz item inList) d"
proof -
  have "dreturns (d_scalar ''INTEGER'' VInt Unpacker_Int) d"
    using dsafe_scalar [OF dsafe_unpackers(1)] assms(1) by (auto simp: dsafe_def)
  then show ?thesis using assms(2) by (simp add: d_by_kind_def dreturns_def)
qed

lemma dsafe_value: "L < n \<Longrightarrow> dsafe L (d_value tz n inList)"
proof (induction n arbitrary: L inList)
  case 0
  then show ?case by simp
next
  case (Suc n)
  show ?case
    unfolding dsafe_def
  proof (intro allI impI)
    fix d :: decoder assume d: "wf_unpacker (d_unp d)" "dleft d \<le> L"
    obtain d1 where 1: "d_Next d = Some d1" "progress (d_unp d) (d_unp d1)"
      "dleft d1 < dleft d \<or> u_Curr (d_unp d1) = PackedInt"
      using d_Next_cases [OF d(1)] by blast
    have wf: "wf_unpacker (d_unp d1)" using d(1) 1(2) by (simp add: progress_def)
    have "dreturns (d_by_kind tz (d_value tz n True) inList) d1"
    proof (cases "u_Curr (d_unp d1) = PackedInt")
      case True
      with wf show ?thesis by (rule dreturns_int)
    next
      case False
      with 1(3) d(2) have l: "dleft d1 \<le> L - 1" "L - 1 < n" using Suc.prems by auto
      show ?thesis using dsafe_by_kind [OF Suc.IH [OF l(2)]] wf l(1) by (auto simp: dsafe_def)
    qed
    with 1 d(1) show "dreturns (d_value tz (Suc n) inList) d"
      by (auto simp: dreturns_def intro: progress_trans)
  qed
qed

section \<open>Encrypted structures\<close>

lemma dsafe_meta_entries: "dsafe L (d_meta_entries n m)"
proof (induction n arbitrary: m)
  case 0
  have "d_meta_entries 0 m = (\<lambda>d. Some (m, d))" by (simp add: fun_eq_iff)
  then show ?case by (simp add: dsafe_leaves)
next
  case (Suc n)
  have kinds: "dsafe L (\<lambda>d. case u_Curr (d_unp d) of PackedStr \<Rightarrow> f d | PackedByteArray \<Rightarrow> g d | PackedInt \<Rightarrow> h d | _ \<Rightarrow> e d)"
    if "dsafe L f" "dsafe L g" "dsafe L h" "dsafe L e" for f g h :: "(string \<times> meta_value) list dy" and e
    using that by (auto simp: dsafe_def dreturns_def split: packed.split)
  have "d_meta_entries (Suc n) m = (\<lambda>d. d_string d \<bind> (\<lambda>(key, d). if d_err d \<noteq> None then Some (m, d)
      else d_Next d \<bind> (\<lambda>d. case u_Curr (d_unp d) of
              PackedStr \<Rightarrow> d_unpack Unpacker_String d \<bind> (\<lambda>(s, d). d_meta_entries n (map_put key (MetaString s) m) d)
            | PackedByteArray \<Rightarrow> d_unpack Unpacker_ByteArray d \<bind> (\<lambda>(b, d). d_meta_entries n (map_put key (MetaBytes b) m) d)
            | PackedInt \<Rightarrow> d_unpack Unpacker_Int d \<bind> (\<lambda>(i, d). d_meta_entries n (map_put key (MetaInt i) m) d)
            | _ \<Rightarrow> Some (m, malformed ''the Encrypted metadata entry is not a string, bytes or integer'' d))))"
    by (simp add: fun_eq_iff)
  then show ?case using Suc by (simp only:) (intro dsafe_intros kinds Suc)
qed

lemma dsafe_metadata [dsafe_intros]: "dsafe L d_metadata"
  unfolding d_metadata_def by (intro dsafe_intros dsafe_meta_entries)

lemma dsafe_encrypted_fields: "dsafe L d_encrypted_fields"
  unfolding d_encrypted_fields_def by (intro dsafe_intros)

lemma returns_then:
  assumes "dsafe L f" and "wf_unpacker (d_unp d)" and "dleft d \<le> L"
    and "\<And>x d'. wf_unpacker (d_unp d') \<Longrightarrow> dleft d' \<le> L \<Longrightarrow> \<exists>r. g x d' = Some r"
  shows "\<exists>r. f d \<bind> (\<lambda>(x, d). g x d) = Some r"
proof -
  obtain x d1 where 1: "f d = Some (x, d1)" "progress (d_unp d) (d_unp d1)"
    using assms by (auto simp: dsafe_def dreturns_def)
  then show ?thesis using assms(2-4) progress_left [OF 1(2)] by (auto simp: progress_def dleft_def)
qed

lemma some_Some: "\<exists>r. Some x = Some r"
  by simp

lemma some_if: "\<exists>r. a = Some r \<Longrightarrow> \<exists>r. b = Some r \<Longrightarrow> \<exists>r. (if P then a else b) = Some r"
  by simp

lemma encrypted_rest_returns:
  "wf_unpacker (d_unp d) \<Longrightarrow> \<exists>r. d_encrypted_rest ptype pversion d = Some r"
  unfolding d_encrypted_rest_def
  by (rule returns_then [OF dsafe_encrypted_fields _ order_refl]) auto

lemma new_decoder_wf: "length b + 256 < 2 ^ 32 \<Longrightarrow> wf_unpacker (d_unp (new_decoder v b))"
  by (simp add: new_decoder_def wf_reset)

lemma DecodeEncrypted_returns:
  assumes "length b + 256 < 2 ^ 32"
  shows "\<exists>r. DecodeEncrypted b = Some r"
proof (cases "\<exists>buf. b = 0x01 # buf")
  case False
  then show ?thesis by (auto simp: DecodeEncrypted_def split: list.split)
next
  case True
  then obtain buf where buf: "b = 0x01 # buf" by blast
  then have "wf_unpacker (d_unp (new_decoder Implemented buf))" using assms by (intro new_decoder_wf) simp
  then obtain d1 where 1: "d_Next (new_decoder Implemented buf) = Some d1" "wf_unpacker (d_unp d1)"
    using d_Next_cases [of "new_decoder Implemented buf"] by (metis progress_def)
  have rest: "\<exists>r. (case d_err d of Some err \<Rightarrow> Some (Inl err) | None \<Rightarrow>
      if P then Some (Inl e) else d_encrypted_rest ptype pversion d) = Some r"
    if "wf_unpacker (d_unp d)" for d P e ptype pversion
    using encrypted_rest_returns [OF that] by (auto split: option.split)
  have "\<exists>r. (d_unpack Unpacker_StructTag d1 \<bind> (\<lambda>(tag, d).
      if tag \<noteq> 0x65 then Some (Inl (MalformedError ''expected the Encrypted structure tag''))
      else d_unpack Unpacker_Len d \<bind> (\<lambda>(nfields, d).
        if nfields \<noteq> 8 then Some (Inl (MalformedError ''the Encrypted structure should have 8 fields''))
        else d_string d \<bind> (\<lambda>(ptype, d). d_int d \<bind> (\<lambda>(pversion, d).
          case d_err d of Some err \<Rightarrow> Some (Inl err) | None \<Rightarrow>
            if ptype \<noteq> ''ENVELOPE'' \<or> pversion \<noteq> 1 then Some (Inl (UnsupportedProfileError ptype pversion))
            else d_encrypted_rest ptype pversion d))))) = Some r"
    by (intro returns_then [OF dsafe_unpackers(7) _ order_refl] returns_then [OF dsafe_unpackers(6) _ order_refl]
        returns_then [OF dsafe_fields(3) _ order_refl] returns_then [OF dsafe_fields(1) _ order_refl]
        some_if rest some_Some 1(2))
  with 1 buf show ?thesis by (auto simp: DecodeEncrypted_def)
qed

text \<open>
  C15: The decoders of the property encryption return, whatever bytes they are given (up to the lengths a 32-bit offset
  can address): a plaintext or an encrypted value that is corrupted or malicious is an error or an UnsupportedType,
  never a panic and never an endless recursion.
\<close>

theorem property_decoders_return:
  assumes "length b + 256 < 2 ^ 32"
  shows "(\<exists>r. DecodeValue tz b ty v = Some r) \<and> (\<exists>r. DecodeEncrypted b = Some r)"
proof
  have wf: "wf_unpacker (d_unp (new_decoder v b))" using assms by (rule new_decoder_wf)
  obtain x d where "d_value tz (Suc (Suc (length b))) False (new_decoder v b) = Some (x, d)"
    using dsafe_value [of "length b" "Suc (Suc (length b))" tz False, unfolded dsafe_def, rule_format, OF _ wf]
    by (auto simp: dreturns_def dleft_def new_decoder_def simp del: d_value.simps)
  then show "\<exists>r. DecodeValue tz b ty v = Some r" by (simp add: DecodeValue_def split: option.split del: d_value.simps)
  show "\<exists>r. DecodeEncrypted b = Some r" using assms by (rule DecodeEncrypted_returns)
qed

theorem property_decoders_return_witness:
  "(\<exists>r. DecodeValue no_tz [0x92, 0x93] ''LIST'' Implemented = Some r) \<and> (\<exists>r. DecodeEncrypted [0x92, 0x93] = Some r)"
  using property_decoders_return [of "[0x92, 0x93]" no_tz "''LIST''" Implemented] by simp

end
