(* ===== verification/KeyCache.thy ===== *)
theory KeyCache
  imports Prelude
begin

text \<open>
  The cache of src/neo4j/internal/propertyencryption/cache.go: a map from keys to the elements of a doubly linked list,
  most recently used first, with a time to live and a maximal size. An element is a number, the list holds the elements
  with their entries, and the map points to elements; that both agree is the invariant. Every call of Now is one reading
  of the clock, taken off a sequence of readings.
\<close>

section \<open>The clock\<close>

type_synonym readings = "nat \<Rightarrow> int"

definition later :: "readings \<Rightarrow> readings" where
  "later ck n = ck (Suc n)"

section \<open>The operations\<close>

record 'v cacheEntry =
  ce_key :: string
  ce_value :: 'v
  ce_expires :: int

record 'v cache =
  c_ttl :: int
  c_maxSize :: int
  c_entries :: "string \<rightharpoonup> nat"
  c_order :: "(nat \<times> 'v cacheEntry) list"
  c_alloc :: nat       \<comment> \<open>the next element that PushFront allocates\<close>

definition Cache_New :: "int \<Rightarrow> int \<Rightarrow> 'v cache" where
  "Cache_New ttl maxSize = \<lparr>c_ttl = ttl, c_maxSize = maxSize, c_entries = Map.empty, c_order = [], c_alloc = 0\<rparr>"

definition hasExpired :: "int \<Rightarrow> 'v cacheEntry \<Rightarrow> bool" where
  "hasExpired now e \<longleftrightarrow> \<not> now < ce_expires e"

definition Cache_remove :: "nat \<times> 'v cacheEntry \<Rightarrow> 'v cache \<Rightarrow> 'v cache" where
  "Cache_remove el c = c\<lparr>c_entries := (c_entries c)(ce_key (snd el) := None), c_order := filter (\<lambda>x. fst x \<noteq> fst el) (c_order c)\<rparr>"

text \<open>MoveToFront of an element whose entry is \<open>e\<close> now.\<close>

definition to_front :: "nat \<Rightarrow> 'v cacheEntry \<Rightarrow> 'v cache \<Rightarrow> 'v cache" where
  "to_front i e c = c\<lparr>c_order := (i, e) # filter (\<lambda>x. fst x \<noteq> i) (c_order c)\<rparr>"

text \<open>The element of a key with its entry.\<close>

definition find_element :: "string \<Rightarrow> 'v cache \<Rightarrow> (nat \<times> 'v cacheEntry) option" where
  "find_element k c =
     (case c_entries c k of None \<Rightarrow> None | Some i \<Rightarrow> (case map_of (c_order c) i of None \<Rightarrow> None | Some e \<Rightarrow> Some (i, e)))"

definition Cache_Get :: "string \<Rightarrow> 'v cache \<Rightarrow> readings \<Rightarrow> 'v option \<times> 'v cache \<times> readings" where
  "Cache_Get k c ck =
     (case find_element k c of
        None \<Rightarrow> (None, c, ck)
      | Some (i, e) \<Rightarrow>
          if hasExpired (ck 0) e then (None, Cache_remove (i, e) c, later ck)
          else (Some (ce_value e), to_front i e c, later ck))"

text \<open>The loop of purgeExpired: over the elements that the list has at its start.\<close>

fun purge_loop :: "(nat \<times> 'v cacheEntry) list \<Rightarrow> 'v cache \<Rightarrow> readings \<Rightarrow> 'v cache \<times> readings" where
  "purge_loop [] c ck = (c, ck)"
| "purge_loop (el # els) c ck = purge_loop els (if hasExpired (ck 0) (snd el) then Cache_remove el c else c) (later ck)"

definition purgeExpired :: "'v cache \<Rightarrow> readings \<Rightarrow> 'v cache \<times> readings" where
  "purgeExpired c ck = purge_loop (c_order c) c ck"

text \<open>The loop of evict; \<^const>\<open>None\<close>: the nil element of an empty list is removed, a panic that needs a negative size.\<close>

function evict :: "'v cache \<Rightarrow> 'v cache option" where
  "evict c =
     (if int (length (c_order c)) \<le> c_maxSize c then Some c
      else if c_order c = [] then None
      else evict (Cache_remove (last (c_order c)) c))"
  by pat_completeness auto

lemma remove_shorter: "c_order c \<noteq> [] \<Longrightarrow> length (c_order (Cache_remove (last (c_order c)) c)) < length (c_order c)"
  by (simp add: Cache_remove_def) (metis (mono_tags, lifting) last_in_set length_filter_less)

termination evict
  by (relation "measure (\<lambda>c. length (c_order c))") (auto intro: remove_shorter)

declare evict.simps [simp del]

definition Cache_Put :: "string \<Rightarrow> 'v \<Rightarrow> 'v cache \<Rightarrow> readings \<Rightarrow> ('v cache \<times> readings) option" where
  "Cache_Put k v c ck =
     (case purgeExpired c ck of
        (c, ck) \<Rightarrow>
          (let expires = ck 0 + c_ttl c; ck = later ck in
           case find_element k c of
             Some (i, e) \<Rightarrow> Some (to_front i (e\<lparr>ce_value := v, ce_expires := expires\<rparr>) c, ck)
           | None \<Rightarrow>
               (let i = c_alloc c;
                    e = \<lparr>ce_key = k, ce_value = v, ce_expires = expires\<rparr>;
                    c = c\<lparr>c_entries := (c_entries c)(k \<mapsto> i), c_order := (i, e) # c_order c, c_alloc := Suc i\<rparr>
                in map_option (\<lambda>c. (c, ck)) (evict c))))"

definition Cache_Remove :: "string \<Rightarrow> 'v cache \<Rightarrow> 'v cache" where
  "Cache_Remove k c = (case find_element k c of None \<Rightarrow> c | Some el \<Rightarrow> Cache_remove el c)"

definition Cache_Clear :: "'v cache \<Rightarrow> 'v cache" where
  "Cache_Clear c = c\<lparr>c_entries := Map.empty, c_order := []\<rparr>"

definition Cache_len :: "'v cache \<Rightarrow> nat" where
  "Cache_len c = length (c_order c)"

section \<open>The map and the list agree\<close>

definition cache_wf :: "'v cache \<Rightarrow> bool" where
  "cache_wf c \<longleftrightarrow>
     distinct (map fst (c_order c)) \<and> distinct (map (ce_key \<circ> snd) (c_order c)) \<and>
     (\<forall>k i. c_entries c k = Some i \<longleftrightarrow> (\<exists>e. (i, e) \<in> set (c_order c) \<and> ce_key e = k)) \<and>
     (\<forall>el \<in> set (c_order c). fst el < c_alloc c)"

definition cache_ok :: "'v cache \<Rightarrow> bool" where
  "cache_ok c \<longleftrightarrow> cache_wf c \<and> 0 \<le> c_maxSize c \<and> int (length (c_order c)) \<le> c_maxSize c"

text \<open>What the cache holds under a key.\<close>

definition holds :: "'v cache \<Rightarrow> string \<Rightarrow> 'v cacheEntry \<Rightarrow> bool" where
  "holds c k e \<longleftrightarrow> (\<exists>i. (i, e) \<in> set (c_order c)) \<and> ce_key e = k"

named_theorems cache_defs
lemmas [cache_defs] = cache_wf_def holds_def Cache_remove_def to_front_def

lemma New_ok: "0 \<le> maxSize \<Longrightarrow> cache_ok (Cache_New ttl maxSize)"
  by (simp add: cache_ok_def cache_wf_def Cache_New_def)

lemma find_wf:
  assumes "cache_wf c"
  shows "find_element k c = Some (i, e) \<longleftrightarrow> (i, e) \<in> set (c_order c) \<and> ce_key e = k"
proof -
  have d: "distinct (map fst (c_order c))"
    and m: "\<And>k i. c_entries c k = Some i \<longleftrightarrow> (\<exists>e. (i, e) \<in> set (c_order c) \<and> ce_key e = k)"
    using assms unfolding cache_wf_def by blast+
  have "map_of (c_order c) j = Some e' \<longleftrightarrow> (j, e') \<in> set (c_order c)" for j e' using d by simp
  then show ?thesis
    unfolding find_element_def using m
    by (auto split: option.split) (metis (no_types) d eq_key_imp_eq_value option.inject option.discI)+
qed

lemma find_none: "cache_wf c \<Longrightarrow> find_element k c = None \<longleftrightarrow> (\<forall>e. \<not> holds c k e)"
  unfolding holds_def by (metis find_wf not_Some_eq surj_pair)

lemma holds_unique: "cache_wf c \<Longrightarrow> holds c k e \<Longrightarrow> holds c k e' \<Longrightarrow> e = e'"
  unfolding holds_def by (metis find_wf option.inject prod.inject)

lemma wfD:
  assumes "cache_wf c"
  shows "distinct (map fst (c_order c))" "distinct (map (ce_key \<circ> snd) (c_order c))"
    "c_entries c k = Some i \<longleftrightarrow> (\<exists>e. (i, e) \<in> set (c_order c) \<and> ce_key e = k)"
    "el \<in> set (c_order c) \<Longrightarrow> fst el < c_alloc c"
  using assms unfolding cache_wf_def by blast+

lemma wfI:
  assumes "distinct (map fst (c_order c))" "distinct (map (ce_key \<circ> snd) (c_order c))"
    "\<And>k i. c_entries c k = Some i \<longleftrightarrow> (\<exists>e. (i, e) \<in> set (c_order c) \<and> ce_key e = k)"
    "\<And>el. el \<in> set (c_order c) \<Longrightarrow> fst el < c_alloc c"
  shows "cache_wf c"
  using assms unfolding cache_wf_def by blast

lemma same_element:
  assumes "cache_wf c" "(i, e) \<in> set (c_order c)" "(j, e') \<in> set (c_order c)"
  shows "ce_key e' = ce_key e \<longleftrightarrow> j = i" and "j = i \<Longrightarrow> e' = e"
proof -
  show "j = i \<Longrightarrow> e' = e" using assms wfD(1) [OF assms(1)] by (meson eq_key_imp_eq_value)
  moreover have "ce_key e' = ce_key e \<Longrightarrow> j = i"
    using wfD(3) [OF assms(1), of "ce_key e"] assms(2,3) by (metis option.inject)
  ultimately show "ce_key e' = ce_key e \<longleftrightarrow> j = i" by blast
qed

lemma remove_wf:
  assumes "cache_wf c" and "(i, e) \<in> set (c_order c)"
  shows "cache_wf (Cache_remove (i, e) c)"
proof (rule wfI)
  note same = same_element [OF assms]
  show "distinct (map fst (c_order (Cache_remove (i, e) c)))" "distinct (map (ce_key \<circ> snd) (c_order (Cache_remove (i, e) c)))"
    using wfD(1,2) [OF assms(1)] by (simp_all add: Cache_remove_def distinct_map_filter)
  fix k j
  show "c_entries (Cache_remove (i, e) c) k = Some j \<longleftrightarrow>
      (\<exists>e'. (j, e') \<in> set (c_order (Cache_remove (i, e) c)) \<and> ce_key e' = k)"
    using same wfD(3) [OF assms(1), of k j] by (auto simp: Cache_remove_def)
next
  fix el assume "el \<in> set (c_order (Cache_remove (i, e) c))"
  then show "fst el < c_alloc (Cache_remove (i, e) c)" using wfD(4) [OF assms(1)] by (simp add: Cache_remove_def)
qed

lemma remove_holds:
  assumes "cache_wf c" and "(i, e) \<in> set (c_order c)"
  shows "holds (Cache_remove (i, e) c) k e' \<longleftrightarrow> holds c k e' \<and> k \<noteq> ce_key e"
  using same_element [OF assms] by (auto simp: holds_def Cache_remove_def)

text \<open>An element moved to the front, with a new value and time.\<close>

lemma to_front_wf:
  assumes "cache_wf c" and "(i, e) \<in> set (c_order c)" and "ce_key e1 = ce_key e"
  shows "cache_wf (to_front i e1 c)"
proof (rule wfI)
  note same = same_element [OF assms(1,2)]
  show "distinct (map fst (c_order (to_front i e1 c)))"
    using wfD(1) [OF assms(1)] by (auto simp: to_front_def distinct_map_filter)
  show "distinct (map (ce_key \<circ> snd) (c_order (to_front i e1 c)))"
  proof -
    have "ce_key e1 \<notin> (ce_key \<circ> snd) ` {x \<in> set (c_order c). fst x \<noteq> i}" using same(1) assms(3) by force
    then show ?thesis using wfD(2) [OF assms(1)] by (simp add: to_front_def distinct_map_filter)
  qed
  fix k j
  show "c_entries (to_front i e1 c) k = Some j \<longleftrightarrow>
      (\<exists>e'. (j, e') \<in> set (c_order (to_front i e1 c)) \<and> ce_key e' = k)"
  proof (cases "j = i")
    case True
    have "c_entries c k = Some i \<longleftrightarrow> ce_key e = k" using wfD(3) [OF assms(1), of k i] assms(2) same(2) by blast
    with True assms(3) show ?thesis by (simp add: to_front_def)
  next
    case False
    then show ?thesis using wfD(3) [OF assms(1), of k j] by (simp add: to_front_def)
  qed
next
  fix el assume "el \<in> set (c_order (to_front i e1 c))"
  then show "fst el < c_alloc (to_front i e1 c)"
    using wfD(4) [OF assms(1), of el] wfD(4) [OF assms(1,2)] by (auto simp: to_front_def)
qed

lemma to_front_holds:
  assumes "cache_wf c" and "(i, e) \<in> set (c_order c)" and "ce_key e1 = ce_key e"
  shows "holds (to_front i e1 c) k e' \<longleftrightarrow> (if k = ce_key e then e' = e1 else holds c k e')"
  using same_element [OF assms(1,2)] assms(3) by (auto simp: holds_def to_front_def)

section \<open>A list in the order of use\<close>

text \<open>
  The specification: the entries, most recently used first. A lookup moves an entry to the front unless it has expired;
  storing drops what has expired and the entry of the same key, and then keeps the first ones.
\<close>

definition drop_key :: "string \<Rightarrow> 'v cacheEntry list \<Rightarrow> 'v cacheEntry list" where
  "drop_key k es = filter (\<lambda>e. ce_key e \<noteq> k) es"

fun live :: "readings \<Rightarrow> 'v cacheEntry list \<Rightarrow> 'v cacheEntry list" where
  "live ck [] = []"
| "live ck (e # es) = (if hasExpired (ck 0) e then live (later ck) es else e # live (later ck) es)"

definition lru_get :: "string \<Rightarrow> 'v cacheEntry list \<Rightarrow> readings \<Rightarrow> 'v option \<times> 'v cacheEntry list \<times> readings" where
  "lru_get k es ck =
     (case find (\<lambda>e. ce_key e = k) es of
        None \<Rightarrow> (None, es, ck)
      | Some e \<Rightarrow> if hasExpired (ck 0) e then (None, drop_key k es, later ck) else (Some (ce_value e), e # drop_key k es, later ck))"

definition skip :: "nat \<Rightarrow> readings \<Rightarrow> readings" where
  "skip n ck = (\<lambda>m. ck (n + m))"

definition lru_put :: "int \<Rightarrow> int \<Rightarrow> string \<Rightarrow> 'v \<Rightarrow> 'v cacheEntry list \<Rightarrow> readings \<Rightarrow> 'v cacheEntry list \<times> readings" where
  "lru_put ttl room k v es ck =
     (take (nat room) (\<lparr>ce_key = k, ce_value = v, ce_expires = ck (length es) + ttl\<rparr> # drop_key k (live ck es)),
      skip (Suc (length es)) ck)"

definition uses :: "'v cache \<Rightarrow> 'v cacheEntry list" where
  "uses c = map snd (c_order c)"

lemma filter_element:
  assumes "cache_wf c" and "(i, e) \<in> set (c_order c)"
  shows "map snd (filter (\<lambda>x. fst x \<noteq> i) (c_order c)) = drop_key (ce_key e) (uses c)"
proof -
  have "filter (\<lambda>x. fst x \<noteq> i) (c_order c) = filter (\<lambda>x. ce_key (snd x) \<noteq> ce_key e) (c_order c)"
    using same_element(1) [OF assms] by (intro filter_cong) auto
  then show ?thesis by (simp add: drop_key_def uses_def filter_map comp_def)
qed

lemma remove_uses:
  "cache_wf c \<Longrightarrow> (i, e) \<in> set (c_order c) \<Longrightarrow> uses (Cache_remove (i, e) c) = drop_key (ce_key e) (uses c)"
  using filter_element by (simp add: Cache_remove_def uses_def)

lemma to_front_uses:
  "cache_wf c \<Longrightarrow> (i, e) \<in> set (c_order c) \<Longrightarrow> uses (to_front i e1 c) = e1 # drop_key (ce_key e) (uses c)"
  using filter_element by (simp add: to_front_def uses_def)

lemma find_uses:
  assumes "cache_wf c"
  shows "find (\<lambda>e. ce_key e = k) (uses c) = map_option snd (find_element k c)"
proof (cases "find_element k c")
  case None
  then have "\<forall>e \<in> set (uses c). ce_key e \<noteq> k" using find_none [OF assms] by (auto simp: holds_def uses_def)
  then show ?thesis using None by (auto simp: find_None_iff)
next
  case (Some el)
  obtain i e where el: "el = (i, e)" by (cases el)
  have e: "(i, e) \<in> set (c_order c)" "ce_key e = k" using Some find_wf [OF assms] by (simp_all add: el)
  obtain e' where e': "find (\<lambda>e. ce_key e = k) (uses c) = Some e'"
    using e by (cases "find (\<lambda>e. ce_key e = k) (uses c)") (auto simp: find_None_iff uses_def)
  then have "ce_key e' = k" "e' \<in> set (uses c)" by (auto simp: find_Some_iff)
  then obtain j where "(j, e') \<in> set (c_order c)" by (auto simp: uses_def)
  then have "e' = e" using same_element [OF assms e(1)] e(2) \<open>ce_key e' = k\<close> by blast
  with e' Some el show ?thesis by simp
qed

lemma drop_key_shorter: "find (\<lambda>e. ce_key e = k) es = Some e \<Longrightarrow> length (drop_key k es) < length es"
  unfolding drop_key_def by (rule length_filter_less [of e]) (auto simp: find_Some_iff)

section \<open>The operations refine the list\<close>

lemma cache_ok_iff: "cache_ok c \<longleftrightarrow> cache_wf c \<and> 0 \<le> c_maxSize c \<and> int (length (uses c)) \<le> c_maxSize c"
  by (simp add: cache_ok_def uses_def)

definition same_settings :: "'v cache \<Rightarrow> 'v cache \<Rightarrow> bool" where
  "same_settings c c' \<longleftrightarrow> c_ttl c' = c_ttl c \<and> c_maxSize c' = c_maxSize c"

lemma settings [simp]: "same_settings c c" "same_settings c (Cache_remove el c)" "same_settings c (to_front i e c)"
  by (simp_all add: same_settings_def Cache_remove_def to_front_def)

lemma settings_trans: "same_settings a b \<Longrightarrow> same_settings b c \<Longrightarrow> same_settings a c"
  by (simp add: same_settings_def)

lemma Get_refines:
  assumes "cache_ok c"
  shows "\<exists>r c' ck'. Cache_Get k c ck = (r, c', ck') \<and> cache_ok c' \<and> same_settings c c' \<and> lru_get k (uses c) ck = (r, uses c', ck')"
proof (cases "find_element k c")
  case None
  then show ?thesis using assms by (simp add: Cache_Get_def lru_get_def find_uses cache_ok_iff)
next
  case (Some el)
  obtain i e where el: "el = (i, e)" by (cases el)
  have wf: "cache_wf c" using assms by (simp add: cache_ok_def)
  have e: "(i, e) \<in> set (c_order c)" "ce_key e = k" using Some find_wf [OF wf] by (simp_all add: el)
  have f: "find (\<lambda>e. ce_key e = k) (uses c) = Some e" using Some by (simp add: find_uses wf el)
  note short = drop_key_shorter [OF f]
  show ?thesis
    using Some f e(2) assms short remove_wf [OF wf e(1)] to_front_wf [OF wf e(1) refl] remove_uses [OF wf e(1)] to_front_uses [OF wf e(1)]
    by (auto simp: Cache_Get_def lru_get_def el cache_ok_iff Cache_remove_def to_front_def same_settings_def)
qed

lemma drop_key_other: "k \<notin> ce_key ` set es \<Longrightarrow> drop_key k es = es"
  unfolding drop_key_def by (induction es) auto

lemma drop_key_append: "drop_key k (xs @ e # ys) = drop_key k xs @ (if ce_key e = k then [] else [e]) @ drop_key k ys"
  by (simp add: drop_key_def)

lemma drop_key_middle: "distinct (map ce_key (xs @ e # ys)) \<Longrightarrow> drop_key (ce_key e) (xs @ e # ys) = xs @ ys"
  by (auto simp: drop_key_append drop_key_other)

lemma purge_refines:
  assumes "cache_wf c" and "set els \<subseteq> set (c_order c)" and "distinct (map fst els)" and "uses c = pre @ map snd els"
  shows "\<exists>c'. purge_loop els c ck = (c', skip (length els) ck) \<and> cache_wf c' \<and> same_settings c c' \<and>
    uses c' = pre @ live ck (map snd els)"
  using assms
proof (induction els arbitrary: c ck pre)
  case Nil
  then show ?case by (simp add: skip_def)
next
  case (Cons el els)
  obtain i e where el: "el = (i, e)" by (cases el)
  have el_in: "(i, e) \<in> set (c_order c)" using Cons.prems(2) el by simp
  have sk: "skip (length els) (later ck) = skip (length (el # els)) ck" by (simp add: skip_def later_def fun_eq_iff)
  show ?case
  proof (cases "hasExpired (ck 0) e")
    case False
    have "set els \<subseteq> set (c_order c)" "distinct (map fst els)" "uses c = (pre @ [e]) @ map snd els"
      using Cons.prems el by auto
    from Cons.IH [OF Cons.prems(1) this, of "later ck"] show ?thesis using False sk by (auto simp: el)
  next
    case True
    let ?c = "Cache_remove (i, e) c"
    have wf: "cache_wf ?c" by (rule remove_wf [OF Cons.prems(1) el_in])
    have sub: "set els \<subseteq> set (c_order ?c)" using Cons.prems(2,3) el by (force simp: Cache_remove_def)
    have "distinct (map ce_key (uses c))" using wfD(2) [OF Cons.prems(1)] by (simp add: uses_def)
    then have "distinct (map ce_key (pre @ e # map snd els))" using Cons.prems(4) by (simp add: el)
    then have "drop_key (ce_key e) (pre @ e # map snd els) = pre @ map snd els" by (rule drop_key_middle)
    then have "drop_key (ce_key e) (uses c) = pre @ map snd els" using Cons.prems(4) by (simp add: el)
    then have u: "uses ?c = pre @ map snd els" using remove_uses [OF Cons.prems(1) el_in] by simp
    obtain c' where "purge_loop els ?c (later ck) = (c', skip (length els) (later ck))" "cache_wf c'" "same_settings ?c c'"
      "uses c' = pre @ live (later ck) (map snd els)"
      using Cons.IH [OF wf sub _ u, of "later ck"] Cons.prems(3) by auto
    then show ?thesis using True sk settings_trans [OF settings(2) [of c "(i, e)"]] by (auto simp: el)
  qed
qed

lemma purgeExpired_refines:
  assumes "cache_wf c"
  obtains c' where "purgeExpired c ck = (c', skip (length (uses c)) ck)" "cache_wf c'" "same_settings c c'" "uses c' = live ck (uses c)"
  using purge_refines [OF assms order_refl wfD(1) [OF assms], of "[]" ck] that
  by (auto simp: purgeExpired_def uses_def)

lemma evict_refines:
  assumes "cache_wf c" and "0 \<le> c_maxSize c"
  shows "\<exists>c'. evict c = Some c' \<and> cache_ok c' \<and> same_settings c c' \<and> uses c' = take (nat (c_maxSize c)) (uses c)"
  using assms
proof (induction c rule: evict.induct)
  case (1 c)
  show ?case
  proof (cases "int (length (c_order c)) \<le> c_maxSize c")
    case True
    then show ?thesis using "1.prems" by (subst evict.simps) (simp add: cache_ok_iff uses_def)
  next
    case False
    then have ne: "c_order c \<noteq> []" using "1.prems"(2) by auto
    obtain i e where ie: "last (c_order c) = (i, e)" by fastforce
    have el: "(i, e) \<in> set (c_order c)" using ne ie by (metis last_in_set)
    let ?c = "Cache_remove (i, e) c"
    have b: "uses c = butlast (uses c) @ [e]" using ne ie by (metis append_butlast_last_id last_map map_is_Nil_conv snd_conv uses_def)
    have "distinct (map ce_key (uses c))" using wfD(2) [OF "1.prems"(1)] by (simp add: uses_def)
    then have d: "distinct (map ce_key (butlast (uses c) @ [e]))" using b by simp
    have "drop_key (ce_key e) (butlast (uses c) @ [e]) = butlast (uses c)"
      using drop_key_middle [OF d] by simp
    then have "drop_key (ce_key e) (uses c) = butlast (uses c)" using b by simp
    then have u: "uses ?c = butlast (uses c)" using remove_uses [OF "1.prems"(1) el] by simp
    have s: "c_maxSize ?c = c_maxSize c" by (simp add: Cache_remove_def)
    obtain c' where c': "evict ?c = Some c'" "cache_ok c'" "same_settings ?c c'" "uses c' = take (nat (c_maxSize ?c)) (uses ?c)"
      using "1.IH" [OF False ne] remove_wf [OF "1.prems"(1) el] "1.prems"(2) ie s by auto
    have "nat (c_maxSize c) \<le> length (butlast (uses c))" using False ne by (simp add: uses_def)
    then have "take (nat (c_maxSize c)) (butlast (uses c) @ [e]) = take (nat (c_maxSize c)) (butlast (uses c))" by simp
    then have "take (nat (c_maxSize c)) (butlast (uses c)) = take (nat (c_maxSize c)) (uses c)" using b by metis
    then show ?thesis
      using c' u s False ne ie settings_trans [OF settings(2) c'(3)] by (subst evict.simps) simp
  qed
qed

lemma drop_key_none: "find (\<lambda>e. ce_key e = k) es = None \<Longrightarrow> drop_key k es = es"
  by (auto simp: drop_key_def find_None_iff filter_id_conv)

lemma live_length: "length (live ck es) \<le> length es"
  by (induction ck es rule: live.induct) auto

lemma push_wf:
  assumes "cache_wf c" and "find_element (ce_key e) c = None"
  shows "cache_wf (c\<lparr>c_entries := (c_entries c)(ce_key e \<mapsto> c_alloc c), c_order := (c_alloc c, e) # c_order c, c_alloc := Suc (c_alloc c)\<rparr>)"
    (is "cache_wf ?c")
proof (rule wfI)
  have no: "ce_key e' \<noteq> ce_key e" if "(i, e') \<in> set (c_order c)" for i e'
    using that assms(2) find_none [OF assms(1)] by (auto simp: holds_def)
  have fresh: "i < c_alloc c" if "(i, e') \<in> set (c_order c)" for i e' using wfD(4) [OF assms(1) that] by simp
  show "distinct (map fst (c_order ?c))" using wfD(1) [OF assms(1)] fresh by force
  show "distinct (map (ce_key \<circ> snd) (c_order ?c))" using wfD(2) [OF assms(1)] no by force
  fix k i
  show "c_entries ?c k = Some i \<longleftrightarrow> (\<exists>e'. (i, e') \<in> set (c_order ?c) \<and> ce_key e' = k)"
    using wfD(3) [OF assms(1), of k i] no by auto
next
  fix el assume "el \<in> set (c_order ?c)"
  then show "fst el < c_alloc ?c" using wfD(4) [OF assms(1), of el] by (auto intro: less_SucI)
qed

lemma Put_refines:
  assumes "cache_ok c"
  shows "\<exists>c' ck'. Cache_Put k v c ck = Some (c', ck') \<and> cache_ok c' \<and> same_settings c c' \<and>
    lru_put (c_ttl c) (c_maxSize c) k v (uses c) ck = (uses c', ck')"
proof -
  have wf: "cache_wf c" using assms by (simp add: cache_ok_def)
  obtain c1 where 1: "purgeExpired c ck = (c1, skip (length (uses c)) ck)" "cache_wf c1" "same_settings c c1" "uses c1 = live ck (uses c)"
    using purgeExpired_refines [OF wf] .
  have ttl: "c_ttl c1 = c_ttl c" "c_maxSize c1 = c_maxSize c" using 1(3) by (simp_all add: same_settings_def)
  have sk: "skip (length (uses c)) ck 0 = ck (length (uses c))" "later (skip (length (uses c)) ck) = skip (Suc (length (uses c))) ck"
    by (simp_all add: skip_def later_def fun_eq_iff)
  let ?x = "ck (length (uses c)) + c_ttl c"
  have len: "int (length (live ck (uses c))) \<le> c_maxSize c" using assms live_length [of ck "uses c"] by (simp add: cache_ok_iff)
  show ?thesis
  proof (cases "find_element k c1")
    case None
    let ?e = "\<lparr>ce_key = k, ce_value = v, ce_expires = ?x\<rparr>"
    let ?c = "c1\<lparr>c_entries := (c_entries c1)(k \<mapsto> c_alloc c1), c_order := (c_alloc c1, ?e) # c_order c1, c_alloc := Suc (c_alloc c1)\<rparr>"
    have "cache_wf ?c" using push_wf [OF 1(2), of ?e] None by simp
    then obtain c' where c': "evict ?c = Some c'" "cache_ok c'" "same_settings ?c c'" "uses c' = take (nat (c_maxSize c)) (?e # live ck (uses c))"
      using evict_refines [of ?c] assms 1(4) ttl by (auto simp: cache_ok_def uses_def)
    have "drop_key k (live ck (uses c)) = live ck (uses c)" using None find_uses [OF 1(2)] 1(4) by (intro drop_key_none) simp
    then show ?thesis using 1(1) None c' ttl sk by (simp add: Cache_Put_def Let_def lru_put_def same_settings_def)
  next
    case (Some el)
    obtain i e where el: "el = (i, e)" by (cases el)
    have e: "(i, e) \<in> set (c_order c1)" "ce_key e = k" using Some find_wf [OF 1(2)] by (simp_all add: el)
    let ?e = "e\<lparr>ce_value := v, ce_expires := ?x\<rparr>"
    have "find (\<lambda>e. ce_key e = k) (live ck (uses c)) = Some e" using Some find_uses [OF 1(2)] 1(4) by (simp add: el)
    then have short: "length (drop_key k (live ck (uses c))) < length (live ck (uses c))" by (rule drop_key_shorter)
    have u: "uses (to_front i ?e c1) = ?e # drop_key k (live ck (uses c))" using to_front_uses [OF 1(2) e(1)] e(2) 1(4) by simp
    have k: "?e = \<lparr>ce_key = k, ce_value = v, ce_expires = ?x\<rparr>" using e(2) by (cases e) simp
    have t: "take (nat (c_maxSize c)) (?e # drop_key k (live ck (uses c))) = ?e # drop_key k (live ck (uses c))"
      using short len by (intro take_all) simp
    have "cache_ok (to_front i ?e c1)"
      using to_front_wf [OF 1(2) e(1), of ?e] u short len ttl assms by (simp add: cache_ok_iff to_front_def)
    then show ?thesis
      using 1(1) Some sk u t k ttl by (simp add: Cache_Put_def Let_def lru_put_def el same_settings_def to_front_def)
  qed
qed

lemma Remove_refines:
  assumes "cache_ok c"
  shows "cache_ok (Cache_Remove k c)" "uses (Cache_Remove k c) = drop_key k (uses c)" "same_settings c (Cache_Remove k c)"
proof -
  have wf: "cache_wf c" using assms by (simp add: cache_ok_def)
  have "cache_ok (Cache_Remove k c) \<and> uses (Cache_Remove k c) = drop_key k (uses c) \<and> same_settings c (Cache_Remove k c)"
  proof (cases "find_element k c")
    case None
    then have "drop_key k (uses c) = uses c" by (intro drop_key_none) (simp add: find_uses wf)
    then show ?thesis using None assms by (simp add: Cache_Remove_def)
  next
    case (Some el)
    obtain i e where el: "el = (i, e)" by (cases el)
    have e: "(i, e) \<in> set (c_order c)" "ce_key e = k" using Some find_wf [OF wf] by (simp_all add: el)
    have "length (drop_key k (uses c)) \<le> length (uses c)" by (simp add: drop_key_def)
    then show ?thesis
      using Some remove_wf [OF wf e(1)] remove_uses [OF wf e(1)] e(2) assms
      by (simp add: Cache_Remove_def el cache_ok_iff) (simp add: Cache_remove_def)
  qed
  then show "cache_ok (Cache_Remove k c)" "uses (Cache_Remove k c) = drop_key k (uses c)" "same_settings c (Cache_Remove k c)" by auto
qed

lemma Clear_refines: "cache_ok c \<Longrightarrow> cache_ok (Cache_Clear c) \<and> uses (Cache_Clear c) = [] \<and> same_settings c (Cache_Clear c)"
  by (simp add: cache_ok_def cache_wf_def Cache_Clear_def uses_def same_settings_def)

section \<open>Programs\<close>

datatype 'v cacheop = CGet string | CPut string 'v | CRemove string | CClear

text \<open>A program on a cache, with the answers of its lookups; \<^const>\<open>None\<close>: a panic.\<close>

fun run_cache :: "'v cacheop list \<Rightarrow> 'v cache \<Rightarrow> readings \<Rightarrow> ('v option list \<times> 'v cache) option" where
  "run_cache [] c ck = Some ([], c)"
| "run_cache (CGet k # ops) c ck =
     (case Cache_Get k c ck of (r, c', ck') \<Rightarrow> map_option (\<lambda>(rs, c''). (r # rs, c'')) (run_cache ops c' ck'))"
| "run_cache (CPut k v # ops) c ck = (case Cache_Put k v c ck of None \<Rightarrow> None | Some (c', ck') \<Rightarrow> run_cache ops c' ck')"
| "run_cache (CRemove k # ops) c ck = run_cache ops (Cache_Remove k c) ck"
| "run_cache (CClear # ops) c ck = run_cache ops (Cache_Clear c) ck"

fun run_lru :: "int \<Rightarrow> int \<Rightarrow> 'v cacheop list \<Rightarrow> 'v cacheEntry list \<Rightarrow> readings \<Rightarrow> 'v option list \<times> 'v cacheEntry list" where
  "run_lru ttl n [] es ck = ([], es)"
| "run_lru ttl n (CGet k # ops) es ck =
     (case lru_get k es ck of (r, es', ck') \<Rightarrow> (case run_lru ttl n ops es' ck' of (rs, es'') \<Rightarrow> (r # rs, es'')))"
| "run_lru ttl n (CPut k v # ops) es ck = (case lru_put ttl n k v es ck of (es', ck') \<Rightarrow> run_lru ttl n ops es' ck')"
| "run_lru ttl n (CRemove k # ops) es ck = run_lru ttl n ops (drop_key k es) ck"
| "run_lru ttl n (CClear # ops) es ck = run_lru ttl n ops [] ck"

lemma run_refines:
  assumes "cache_ok c"
  shows "\<exists>rs c'. run_cache ops c ck = Some (rs, c') \<and> run_lru (c_ttl c) (c_maxSize c) ops (uses c) ck = (rs, uses c') \<and>
    cache_ok c' \<and> same_settings c c'"
  using assms
proof (induction ops arbitrary: c ck)
  case Nil
  then show ?case by simp
next
  case (Cons op ops)
  have step: "\<exists>rs c''. run_cache ops c' ck' = Some (rs, c'') \<and> run_lru (c_ttl c) (c_maxSize c) ops (uses c') ck' = (rs, uses c'') \<and>
      cache_ok c'' \<and> same_settings c c''" if "cache_ok c'" "same_settings c c'" for c' ck'
    using Cons.IH [OF that(1), of ck'] that(2) settings_trans [OF that(2)] by (auto simp: same_settings_def)
  show ?case
  proof (cases op)
    case (CGet k)
    obtain r c' ck' where "Cache_Get k c ck = (r, c', ck')" "cache_ok c'" "same_settings c c'" "lru_get k (uses c) ck = (r, uses c', ck')"
      using Get_refines [OF Cons.prems] by blast
    then show ?thesis using step [of c' ck'] CGet by auto
  next
    case (CPut k v)
    obtain c' ck' where "Cache_Put k v c ck = Some (c', ck')" "cache_ok c'" "same_settings c c'"
      "lru_put (c_ttl c) (c_maxSize c) k v (uses c) ck = (uses c', ck')"
      using Put_refines [OF Cons.prems] by blast
    then show ?thesis using step [of c' ck'] CPut by auto
  next
    case (CRemove k)
    then show ?thesis using step [OF Remove_refines(1,3) [OF Cons.prems], of k ck] Remove_refines(2) [OF Cons.prems, of k] by simp
  next
    case CClear
    then show ?thesis using step [of "Cache_Clear c" ck] Clear_refines [OF Cons.prems] by simp
  qed
qed

text \<open>
  C13: the cache of data keys and aliases, a map into a linked list, is a list in the order of use. For every program of
  lookups, stores, removals and clears on a new cache, and whatever the clock reads, no operation panics, the lookups
  answer what the specification answers, the entries are those of the specification in its order, the map and the list
  agree, and there are never more entries than the maximal size.
\<close>

theorem key_cache_refines_lru:
  fixes ops :: "'v cacheop list"
  assumes "0 \<le> maxSize"
  shows "\<exists>rs c. run_cache ops (Cache_New ttl maxSize) ck = Some (rs, c) \<and>
    run_lru ttl maxSize ops [] ck = (rs, uses c) \<and> cache_wf c \<and> int (Cache_len c) \<le> maxSize"
proof -
  let ?c = "Cache_New ttl maxSize :: 'v cache"
  have "uses ?c = []" "c_ttl ?c = ttl" "c_maxSize ?c = maxSize" by (simp_all add: Cache_New_def uses_def)
  then show ?thesis
    using run_refines [OF New_ok [OF assms], of ops ttl ck] by (auto simp: cache_ok_def Cache_len_def same_settings_def)
qed

text \<open>Two places, a time to live of ten: the entry used least recently makes room, and an entry expires.\<close>

definition cache_program :: "int cacheop list" where
  "cache_program = [CPut ''a'' 1, CPut ''b'' 2, CGet ''a'', CPut ''c'' 3, CGet ''b'', CGet ''a'']"

theorem key_cache_refines_lru_witness:
  "\<exists>c. run_cache cache_program (Cache_New 10 2) (\<lambda>n. int n) = Some ([Some 1, None, Some 1], c) \<and> int (Cache_len c) \<le> 2"
proof -
  have "fst (run_lru 10 2 cache_program [] (\<lambda>n. int n)) = [Some 1, None, Some 1]"
    by (simp add: cache_program_def lru_put_def lru_get_def skip_def later_def drop_key_def hasExpired_def numeral_2_eq_2)
  then show ?thesis using key_cache_refines_lru [of 2 cache_program 10 "\<lambda>n. int n"] by auto
qed

end
