(* ===== verification/PropertyEncryption.thy ===== *)
theory PropertyEncryption
  imports PropertyCodec KeyCache
begin

text \<open>
  The encryption of property values: src/neo4j/internal/propertyencryption/crypto.go and the package
  src/neo4j/propertyencryption (encryption.go, profile.go, keys.go, local.go, errors.go). AES-GCM, the source of random
  bytes, the repository of the keys and the service that protects them are arguments; the last two act on a state of
  theirs, whose type is a parameter. The clock is a sequence of readings. A panic is \<^const>\<open>None\<close>.
\<close>

section \<open>AES-GCM\<close>

text \<open>Key, initialisation vector, text, additional authenticated data; opening fails with \<^const>\<open>None\<close>.\<close>

record aead =
  gcm_Seal :: "bytes \<Rightarrow> bytes \<Rightarrow> bytes \<Rightarrow> bytes \<Rightarrow> bytes"
  gcm_Open :: "bytes \<Rightarrow> bytes \<Rightarrow> bytes \<Rightarrow> bytes \<Rightarrow> bytes option"

type_synonym 'r rng = "nat \<Rightarrow> 'r \<Rightarrow> (encerr + bytes) \<times> 'r"

definition NewDataKey :: "bytes \<Rightarrow> encerr + bytes" where
  "NewDataKey key = (if length key \<noteq> 32 then Inl (FmtError ''an AES-256 key must be 32 bytes'') else Inr key)"

definition DataKey_Seal :: "aead \<Rightarrow> bytes \<Rightarrow> bytes \<Rightarrow> bytes \<Rightarrow> bytes \<Rightarrow> encerr + bytes" where
  "DataKey_Seal A k iv plaintext aad =
     (if length iv \<noteq> 12 then Inl (FmtError ''the initialisation vector must be 12 bytes'') else Inr (gcm_Seal A k iv plaintext aad))"

definition DataKey_Open :: "aead \<Rightarrow> bytes \<Rightarrow> bytes \<Rightarrow> bytes \<Rightarrow> bytes \<Rightarrow> encerr + bytes" where
  "DataKey_Open A k iv cipherOutput aad =
     (if length iv \<noteq> 12 then Inl (FmtError ''the initialisation vector must be 12 bytes'')
      else case gcm_Open A k iv cipherOutput aad of None \<Rightarrow> Inl ErrAuthentication | Some plaintext \<Rightarrow> Inr plaintext)"

definition NewDEK :: "'r rng \<Rightarrow> 'r \<Rightarrow> (encerr + bytes) \<times> 'r" where
  "NewDEK rand x =
     (case rand 32 x of (Inl err, x) \<Rightarrow> (Inl (WrapError ''generating a data encryption key'' err), x) | (Inr dek, x) \<Rightarrow> (Inr dek, x))"

definition NewIV :: "'r rng \<Rightarrow> 'r \<Rightarrow> (encerr + bytes) \<times> 'r" where
  "NewIV rand x =
     (case rand 12 x of (Inl err, x) \<Rightarrow> (Inl (WrapError ''generating an initialisation vector'' err), x) | (Inr iv, x) \<Rightarrow> (Inr iv, x))"

section \<open>Errors\<close>

text \<open>The errors that errors.Is and errors.As look at: the error and what it unwraps to.\<close>

fun causes :: "encerr \<Rightarrow> encerr list" where
  "causes (EncError m None) = [EncError m None]"
| "causes (EncError m (Some e)) = EncError m (Some e) # causes e"
| "causes (WrapError m e) = WrapError m e # causes e"
| "causes e = [e]"

definition key_not_found :: "encerr \<Rightarrow> bool" where
  "key_not_found err = list_ex (\<lambda>e. e = ErrKeyNotFound) (causes err)"

fun driver_goerr :: "goerr \<Rightarrow> bool" where
  "driver_goerr (Neo4jErr _) = True"
| "driver_goerr (UsageError _) = True"
| "driver_goerr (ConnectivityError _) = True"
| "driver_goerr (TokenExpiredError _ _ _) = True"
| "driver_goerr (TransactionExecutionLimit _ _) = True"
| "driver_goerr (WrappedError _ e) = driver_goerr e"
| "driver_goerr _ = False"

definition isDriverError :: "encerr \<Rightarrow> bool" where
  "isDriverError err =
     list_ex (\<lambda>e. case e of EncError _ _ \<Rightarrow> True | GoErr g \<Rightarrow> driver_goerr g | _ \<Rightarrow> False) (causes err)"

definition wrap :: "string \<Rightarrow> encerr \<Rightarrow> encerr" where
  "wrap message err = (if isDriverError err then err else EncError message (Some err))"

definition codec_error :: "encerr \<Rightarrow> bool" where
  "codec_error err =
     list_ex (\<lambda>e. case e of ValueError _ \<Rightarrow> True | MalformedError _ \<Rightarrow> True | UnsupportedProfileError _ _ \<Rightarrow> True | _ \<Rightarrow> False) (causes err)"

definition asError :: "string \<Rightarrow> encerr \<Rightarrow> encerr" where
  "asError message err = (if codec_error err then EncError message (Some err) else wrap message err)"

section \<open>Keys and profiles\<close>

record keyRecord =
  kr_ID :: string
  kr_Alias :: string
  kr_Encapsulation :: bytes
  kr_Metadata :: "(string \<times> string) list"

record encapsulationResult =
  er_Key :: bytes
  er_Encapsulation :: bytes
  er_Metadata :: "(string \<times> string) list"

record 'r keyService =
  Encapsulate :: "(string \<times> string) list \<Rightarrow> 'r \<Rightarrow> (encerr + encapsulationResult) \<times> 'r"
  Decapsulate :: "bytes \<Rightarrow> (string \<times> string) list \<Rightarrow> 'r \<Rightarrow> (encerr + bytes) \<times> 'r"

record 'r keyRepository =
  FindByID :: "string \<Rightarrow> 'r \<Rightarrow> (encerr + keyRecord) \<times> 'r"
  FindByAlias :: "string \<Rightarrow> 'r \<Rightarrow> (encerr + keyRecord) \<times> 'r"
  CreateKey :: "string \<Rightarrow> bytes \<Rightarrow> (string \<times> string) list \<Rightarrow> 'r \<Rightarrow> (encerr + keyRecord) \<times> 'r"
  SetAlias :: "string \<Rightarrow> string \<Rightarrow> 'r \<Rightarrow> encerr option \<times> 'r"
  DeleteByID :: "string \<Rightarrow> 'r \<Rightarrow> encerr option \<times> 'r"

record 'r envelopeProfile =
  ep_Name :: string
  ep_EncapsulationService :: "'r keyService option"
  ep_KeyRepository :: "'r keyRepository option"
  ep_KeyCacheTTL :: int
  ep_KeyCacheSize :: int
  ep_KeyAliasIndexTTL :: int
  ep_KeyAliasIndexSize :: int
  ep_DisableKeyCache :: bool

definition profile_validate :: "'r envelopeProfile \<Rightarrow> string option" where
  "profile_validate p =
     (if ep_Name p = [] then Some ''a property encryption profile must have a name''
      else if ep_EncapsulationService p = None then Some ''has no EncapsulationService''
      else if ep_KeyRepository p = None then Some ''has no KeyRepository''
      else if ep_KeyCacheTTL p < 0 \<or> ep_KeyAliasIndexTTL p < 0 then Some ''has a negative cache time to live''
      else if ep_KeyCacheSize p < 0 \<or> ep_KeyAliasIndexSize p < 0 then Some ''has a negative cache size, use DisableKeyCache instead''
      else None)"

text \<open>Times are in nanoseconds: fifteen minutes for keys and fifteen seconds for aliases.\<close>

definition withDefaults :: "'r envelopeProfile \<Rightarrow> 'r envelopeProfile" where
  "withDefaults p =
     (if ep_DisableKeyCache p then p\<lparr>ep_KeyCacheSize := 0, ep_KeyAliasIndexSize := 0\<rparr>
      else p\<lparr>ep_KeyCacheTTL := (if ep_KeyCacheTTL p = 0 then 900000000000 else ep_KeyCacheTTL p),
             ep_KeyCacheSize := (if ep_KeyCacheSize p = 0 then 100 else ep_KeyCacheSize p),
             ep_KeyAliasIndexTTL := (if ep_KeyAliasIndexTTL p = 0 then 15000000000 else ep_KeyAliasIndexTTL p),
             ep_KeyAliasIndexSize := (if ep_KeyAliasIndexSize p = 0 then 100 else ep_KeyAliasIndexSize p)\<rparr>)"

datatype keyReference = NoKey | KeyAlias string | KeyID string

record encryptRequest =
  rq_Value :: goarg
  rq_Key :: keyReference
  rq_Profile :: string

record 'r profileState =
  ps_profile :: "'r envelopeProfile"
  ps_aliasIndex :: "string cache"
  ps_keyCache :: "bytes cache"

record 'r encryption =
  ne_profiles :: "(string \<times> 'r profileState) list"
  ne_names :: "string list"
  ne_newIV :: "'r \<Rightarrow> (encerr + bytes) \<times> 'r"

text \<open>The dynamic type of a Profile: an EnvelopeProfile, a pointer to one, or something else.\<close>

datatype 'r profile = EnvelopeValue "'r envelopeProfile" | EnvelopePointer "'r envelopeProfile option" | OtherProfile

definition new_state :: "'r envelopeProfile \<Rightarrow> 'r profileState" where
  "new_state p =
     \<lparr>ps_profile = p, ps_aliasIndex = Cache_New (ep_KeyAliasIndexTTL p) (ep_KeyAliasIndexSize p),
      ps_keyCache = Cache_New (ep_KeyCacheTTL p) (ep_KeyCacheSize p)\<rparr>"

definition add_profile :: "'r envelopeProfile \<Rightarrow> 'r encryption \<Rightarrow> string + 'r encryption" where
  "add_profile p e =
     (case profile_validate p of
        Some err \<Rightarrow> Inl err
      | None \<Rightarrow>
          if map_of (ne_profiles e) (ep_Name p) \<noteq> None then Inl (''more than one property encryption profile is named '' @ ep_Name p)
          else Inr (e\<lparr>ne_profiles := map_put (ep_Name p) (new_state (withDefaults p)) (ne_profiles e), ne_names := ne_names e @ [ep_Name p]\<rparr>))"

fun add_profiles :: "'r profile list \<Rightarrow> 'r encryption \<Rightarrow> string + 'r encryption" where
  "add_profiles [] e = Inr e"
| "add_profiles (p # ps) e =
     (case p of
        EnvelopeValue q \<Rightarrow> (case add_profile q e of Inl err \<Rightarrow> Inl err | Inr e \<Rightarrow> add_profiles ps e)
      | EnvelopePointer (Some q) \<Rightarrow> (case add_profile q e of Inl err \<Rightarrow> Inl err | Inr e \<Rightarrow> add_profiles ps e)
      | EnvelopePointer None \<Rightarrow> Inl ''a property encryption profile is nil''
      | OtherProfile \<Rightarrow> Inl ''unsupported property encryption profile'')"

text \<open>New; the error is the message of a UsageError.\<close>

definition Encryption_New :: "'r rng \<Rightarrow> 'r profile list \<Rightarrow> string + 'r encryption" where
  "Encryption_New rand ps =
     (case add_profiles ps \<lparr>ne_profiles = [], ne_names = [], ne_newIV = NewIV rand\<rparr> of
        Inl err \<Rightarrow> Inl err
      | Inr e \<Rightarrow> Inr (e\<lparr>ne_names := sort (ne_names e)\<rparr>))"

definition PinIV :: "bytes \<Rightarrow> 'r encryption \<Rightarrow> 'r encryption" where
  "PinIV iv e = e\<lparr>ne_newIV := (\<lambda>x. (Inr iv, x))\<rparr>"

section \<open>Resolving a key\<close>

record 'r world =
  w_clock :: readings
  w_ext :: 'r

definition getKey :: "string \<Rightarrow> 'r profileState \<Rightarrow> 'r world \<Rightarrow> bytes option \<times> 'r profileState \<times> 'r world" where
  "getKey i s w = (case Cache_Get i (ps_keyCache s) (w_clock w) of (r, c, ck) \<Rightarrow> (r, s\<lparr>ps_keyCache := c\<rparr>, w\<lparr>w_clock := ck\<rparr>))"

definition getAlias :: "string \<Rightarrow> 'r profileState \<Rightarrow> 'r world \<Rightarrow> string option \<times> 'r profileState \<times> 'r world" where
  "getAlias a s w = (case Cache_Get a (ps_aliasIndex s) (w_clock w) of (r, c, ck) \<Rightarrow> (r, s\<lparr>ps_aliasIndex := c\<rparr>, w\<lparr>w_clock := ck\<rparr>))"

definition putKey :: "string \<Rightarrow> bytes \<Rightarrow> 'r profileState \<Rightarrow> 'r world \<Rightarrow> ('r profileState \<times> 'r world) option" where
  "putKey i k s w = do { (c, ck) \<leftarrow> Cache_Put i k (ps_keyCache s) (w_clock w); Some (s\<lparr>ps_keyCache := c\<rparr>, w\<lparr>w_clock := ck\<rparr>) }"

definition putAlias :: "string \<Rightarrow> string \<Rightarrow> 'r profileState \<Rightarrow> 'r world \<Rightarrow> ('r profileState \<times> 'r world) option" where
  "putAlias a i s w = do { (c, ck) \<leftarrow> Cache_Put a i (ps_aliasIndex s) (w_clock w); Some (s\<lparr>ps_aliasIndex := c\<rparr>, w\<lparr>w_clock := ck\<rparr>) }"

text \<open>A call of the repository or of the service; a nil interface panics.\<close>

definition on_repo :: "('r keyRepository \<Rightarrow> 'r \<Rightarrow> 'a \<times> 'r) \<Rightarrow> 'r profileState \<Rightarrow> 'r world \<Rightarrow> ('a \<times> 'r world) option" where
  "on_repo f s w = do { repo \<leftarrow> ep_KeyRepository (ps_profile s); (case f repo (w_ext w) of (r, x) \<Rightarrow> Some (r, w\<lparr>w_ext := x\<rparr>)) }"

definition on_service :: "('r keyService \<Rightarrow> 'r \<Rightarrow> 'a \<times> 'r) \<Rightarrow> 'r profileState \<Rightarrow> 'r world \<Rightarrow> ('a \<times> 'r world) option" where
  "on_service f s w = do { svc \<leftarrow> ep_EncapsulationService (ps_profile s); (case f svc (w_ext w) of (r, x) \<Rightarrow> Some (r, w\<lparr>w_ext := x\<rparr>)) }"

definition decapsulate :: "keyRecord \<Rightarrow> 'r profileState \<Rightarrow> 'r world \<Rightarrow> ((encerr + bytes) \<times> 'r world) option" where
  "decapsulate rc s w =
     do { (r, w) \<leftarrow> on_service (\<lambda>svc. Decapsulate svc (kr_Encapsulation rc) (kr_Metadata rc)) s w;
          Some (case r of
                  Inl err \<Rightarrow> Inl (wrap (''could not unwrap encryption key '' @ kr_ID rc) err)
                | Inr dek \<Rightarrow> (case NewDataKey dek of
                                Inl err \<Rightarrow> Inl (EncError (''could not prepare encryption key '' @ kr_ID rc) (Some err))
                              | Inr k \<Rightarrow> Inr k), w) }"

definition lookup_error :: "string \<Rightarrow> string \<Rightarrow> 'r profileState \<Rightarrow> encerr \<Rightarrow> encerr" where
  "lookup_error missing failed s err =
     (if key_not_found err then EncError (missing @ '' in profile '' @ ep_Name (ps_profile s)) (Some err) else wrap failed err)"

definition resolveByID :: "string \<Rightarrow> 'r profileState \<Rightarrow> 'r world \<Rightarrow> ((encerr + string \<times> bytes) \<times> 'r profileState \<times> 'r world) option" where
  "resolveByID i s w =
     (case getKey i s w of
        (Some k, s, w) \<Rightarrow> Some (Inr (i, k), s, w)
      | (None, s, w) \<Rightarrow>
          do { (r, w) \<leftarrow> on_repo (\<lambda>repo. FindByID repo i) s w;
               case r of
                 Inl err \<Rightarrow> Some (Inl (lookup_error (''no encryption key has id '' @ i) (''could not look up encryption key '' @ i) s err), s, w)
               | Inr rc \<Rightarrow>
                   do { (r, w) \<leftarrow> decapsulate rc s w;
                        case r of
                          Inl err \<Rightarrow> Some (Inl err, s, w)
                        | Inr k \<Rightarrow> do { (s, w) \<leftarrow> putKey i k s w; Some (Inr (i, k), s, w) } } })"

text \<open>The lookups of an alias in both caches; an alias whose key has gone is forgotten.\<close>

definition cached_alias :: "string \<Rightarrow> 'r profileState \<Rightarrow> 'r world \<Rightarrow> (string \<times> bytes) option \<times> 'r profileState \<times> 'r world" where
  "cached_alias a s w =
     (case getAlias a s w of
        (None, s, w) \<Rightarrow> (None, s, w)
      | (Some i, s, w) \<Rightarrow>
          (case getKey i s w of
             (Some k, s, w) \<Rightarrow> (Some (i, k), s, w)
           | (None, s, w) \<Rightarrow> (None, s\<lparr>ps_aliasIndex := Cache_Remove a (ps_aliasIndex s)\<rparr>, w)))"

definition resolveByAlias :: "string \<Rightarrow> 'r profileState \<Rightarrow> 'r world \<Rightarrow> ((encerr + string \<times> bytes) \<times> 'r profileState \<times> 'r world) option" where
  "resolveByAlias a s w =
     (case cached_alias a s w of
        (Some ik, s, w) \<Rightarrow> Some (Inr ik, s, w)
      | (None, s, w) \<Rightarrow>
          do { (r, w) \<leftarrow> on_repo (\<lambda>repo. FindByAlias repo a) s w;
               case r of
                 Inl err \<Rightarrow> Some (Inl (lookup_error (''no encryption key has alias '' @ a) (''could not look up encryption key alias '' @ a) s err), s, w)
               | Inr rc \<Rightarrow>
                   if kr_ID rc = [] then Some (Inl (EncError (''the key repository returned a key with no id for alias '' @ a) None), s, w)
                   else
                     do { (r, w) \<leftarrow> decapsulate rc s w;
                          case r of
                            Inl err \<Rightarrow> Some (Inl err, s, w)
                          | Inr k \<Rightarrow>
                              do { (s, w) \<leftarrow> putAlias a (kr_ID rc) s w;
                                   (s, w) \<leftarrow> putKey (kr_ID rc) k s w;
                                   Some (Inr (kr_ID rc, k), s, w) } } })"

fun resolve :: "keyReference \<Rightarrow> 'r profileState \<Rightarrow> 'r world \<Rightarrow> ((encerr + string \<times> bytes) \<times> 'r profileState \<times> 'r world) option" where
  "resolve (KeyAlias a) s w = resolveByAlias a s w"
| "resolve (KeyID i) s w = resolveByID i s w"
| "resolve NoKey s w = resolveByID [] s w"

section \<open>Encrypting and decrypting\<close>

text \<open>The profile of a name, with the name under which it is stored.\<close>

definition join_names :: "string list \<Rightarrow> string" where
  "join_names ns = concat (case ns of [] \<Rightarrow> [] | n # ns \<Rightarrow> n # map (\<lambda>n. '', '' @ n) ns)"

definition profileFor :: "string \<Rightarrow> 'r encryption \<Rightarrow> encerr + string \<times> 'r profileState" where
  "profileFor name e =
     (if ne_names e = [] then Inl (EncError ''no property encryption profiles are configured, set config.Config.PropertyEncryptionProfiles'' None)
      else if name = [] \<and> length (ne_names e) > 1
        then Inl (EncError (''more than one property encryption profile is configured ('' @ join_names (ne_names e) @ ''), so one must be named'') None)
      else
        (let name = (if name = [] then hd (ne_names e) else name) in
         case map_of (ne_profiles e) name of
           None \<Rightarrow> Inl (EncError (''no property encryption profile is named '' @ name @ '', the configured profiles are '' @ join_names (ne_names e)) None)
         | Some s \<Rightarrow> Inr (name, s)))"

definition put_state :: "string \<Rightarrow> 'r profileState \<Rightarrow> 'r encryption \<Rightarrow> 'r encryption" where
  "put_state name s e = e\<lparr>ne_profiles := map_put name s (ne_profiles e)\<rparr>"

text \<open>The metadata of the additional authenticated data with its bytes; nothing for a nil one.\<close>

definition aad_metadata :: "tzdb \<Rightarrow> goarg \<Rightarrow> encerr + (string \<times> meta_value) list \<times> bytes" where
  "aad_metadata tz aad =
     (if aad = GNil then Inr ([], [])
      else
        case EncodeAAD tz aad of
          Inl err \<Rightarrow> Inl (asError ''the additional authenticated data cannot be used'' err)
        | Inr ea \<Rightarrow>
            Inr (map_put ''aad_encoding_scheme_minor'' (MetaInt (sv_Minor (en_Baseline ea)))
                   (map_put ''aad_encoding_scheme_major'' (MetaInt (sv_Major (en_Baseline ea)))
                     (map_put ''aad'' (MetaBytes (en_Bytes ea)) [])), en_Bytes ea))"

text \<open>What encrypt does once the key is known.\<close>

definition seal_value ::
  "aead \<Rightarrow> 'r profileState \<Rightarrow> encoded \<Rightarrow> (string \<times> meta_value) list \<Rightarrow> bytes \<Rightarrow> string \<Rightarrow> bytes \<Rightarrow> bytes \<Rightarrow> encerr + bytes" where
  "seal_value A s ec meta aadBytes keyID k iv =
     (case DataKey_Seal A k iv (en_Bytes ec) aadBytes of
        Inl err \<Rightarrow> Inl (EncError ''could not encrypt the value'' (Some err))
      | Inr cipherOutput \<Rightarrow>
          (case EncodeEncrypted
                  \<lparr>en_ProfileType = ''ENVELOPE'', en_ProfileVersion = 1, en_ProfileName = ep_Name (ps_profile s), en_CipherOutput = cipherOutput,
                   en_TypeName' = en_TypeName ec, en_Baseline' = en_Baseline ec,
                   en_Metadata = map_put ''iv'' (MetaBytes iv) (map_put ''key_id'' (MetaString keyID) meta)\<rparr> of
             Inl err \<Rightarrow> Inl (EncError ''could not assemble the encrypted value'' (Some err))
           | Inr b \<Rightarrow> Inr b))"

definition encrypt :: "aead \<Rightarrow> tzdb \<Rightarrow> encryptRequest \<Rightarrow> goarg \<Rightarrow> 'r encryption \<Rightarrow> 'r world \<Rightarrow> ((encerr + bytes) \<times> 'r encryption \<times> 'r world) option" where
  "encrypt A tz req aad e w =
     (case profileFor (rq_Profile req) e of
        Inl err \<Rightarrow> Some (Inl err, e, w)
      | Inr (name, s) \<Rightarrow>
          if rq_Key req = NoKey then Some (Inl (EncError ''no encryption key was named, use KeyAlias or KeyID'' None), e, w)
          else
            case EncodeValue tz (rq_Value req) of
              Inl err \<Rightarrow> Some (Inl (asError ''the value cannot be encrypted'' err), e, w)
            | Inr ec \<Rightarrow>
                (case aad_metadata tz aad of
                   Inl err \<Rightarrow> Some (Inl err, e, w)
                 | Inr (meta, aadBytes) \<Rightarrow>
                     do { (r, s, w) \<leftarrow> resolve (rq_Key req) s w;
                          let e = put_state name s e in
                          case r of
                            Inl err \<Rightarrow> Some (Inl err, e, w)
                          | Inr (keyID, k) \<Rightarrow>
                              (case ne_newIV e (w_ext w) of
                                 (Inl err, x) \<Rightarrow> Some (Inl (EncError ''could not create an initialisation vector'' (Some err)), e, w\<lparr>w_ext := x\<rparr>)
                               | (Inr iv, x) \<Rightarrow> Some (seal_value A s ec meta aadBytes keyID k iv, e, w\<lparr>w_ext := x\<rparr>)) }))"

definition Encrypt :: "aead \<Rightarrow> tzdb \<Rightarrow> encryptRequest \<Rightarrow> 'r encryption \<Rightarrow> 'r world \<Rightarrow> ((encerr + bytes) \<times> 'r encryption \<times> 'r world) option" where
  "Encrypt A tz req = encrypt A tz req GNil"

definition EncryptWithAAD :: "aead \<Rightarrow> tzdb \<Rightarrow> encryptRequest \<Rightarrow> goarg \<Rightarrow> 'r encryption \<Rightarrow> 'r world \<Rightarrow> ((encerr + bytes) \<times> 'r encryption \<times> 'r world) option" where
  "EncryptWithAAD A tz req aad e w =
     (if aad = GNil then Some (Inl (EncError ''no additional authenticated data was supplied, use Encrypt to encrypt without it'' None), e, w)
      else encrypt A tz req aad e w)"

text \<open>The bytes to authenticate against; \<^const>\<open>None\<close>: the ones stored with the value.\<close>

definition aadFor :: "tzdb \<Rightarrow> encrypted \<Rightarrow> goarg option \<Rightarrow> encerr + bytes" where
  "aadFor tz st given =
     (case given of
        None \<Rightarrow> Inr (case Metadata_Bytes (en_Metadata st) ''aad'' of None \<Rightarrow> [] | Some stored \<Rightarrow> stored)
      | Some aad \<Rightarrow>
          (case EncodeAAD tz aad of
             Inl err \<Rightarrow> Inl (asError ''the additional authenticated data cannot be used'' err)
           | Inr ea \<Rightarrow>
               (case (Metadata_Int (en_Metadata st) ''aad_encoding_scheme_major'', Metadata_Int (en_Metadata st) ''aad_encoding_scheme_minor'') of
                  (Some major, Some mn) \<Rightarrow>
                    if en_Baseline ea \<noteq> \<lparr>sv_Major = major, sv_Minor = mn\<rparr>
                    then Inl (EncError ''the additional authenticated data has to be encoded with another Bolt Value Encoding Scheme'' None)
                    else Inr (en_Bytes ea)
                | _ \<Rightarrow>
                    if Metadata_Bytes (en_Metadata st) ''aad'' = None
                    then Inl (EncError ''this value was not encrypted with additional authenticated data, decrypt it with Decrypt'' None)
                    else Inr (en_Bytes ea))))"

text \<open>What decrypt does once the key is known.\<close>

definition open_value :: "aead \<Rightarrow> tzdb \<Rightarrow> encrypted \<Rightarrow> bytes \<Rightarrow> bytes \<Rightarrow> bytes \<Rightarrow> (encerr + goval) option" where
  "open_value A tz st iv aadBytes k =
     (case DataKey_Open A k iv (en_CipherOutput st) aadBytes of
        Inl err \<Rightarrow> Some (Inl (EncError ''could not decrypt the value'' (Some err)))
      | Inr plaintext \<Rightarrow>
          do { r \<leftarrow> DecodeValue tz plaintext (en_TypeName' st) (en_Baseline' st);
               Some (case r of Inl err \<Rightarrow> Inl (asError ''the decrypted value could not be read'' err) | Inr v \<Rightarrow> Inr v) })"

definition decrypt :: "aead \<Rightarrow> tzdb \<Rightarrow> bytes \<Rightarrow> goarg option \<Rightarrow> 'r encryption \<Rightarrow> 'r world \<Rightarrow> ((encerr + goval) \<times> 'r encryption \<times> 'r world) option" where
  "decrypt A tz b given e w =
     do { d \<leftarrow> DecodeEncrypted b;
          case d of
            Inl err \<Rightarrow> Some (Inl (asError ''the value is not a Neo4j encrypted value'' err), e, w)
          | Inr st \<Rightarrow>
              (case profileFor (en_ProfileName st) e of
                 Inl err \<Rightarrow> Some (Inl err, e, w)
               | Inr (name, s) \<Rightarrow>
                   (case Metadata_Bytes (en_Metadata st) ''iv'' of
                      None \<Rightarrow> Some (Inl (EncError ''the encrypted value has no initialisation vector'' None), e, w)
                    | Some iv \<Rightarrow>
                        (case Metadata_String (en_Metadata st) ''key_id'' of
                           None \<Rightarrow> Some (Inl (EncError ''the encrypted value does not say which key encrypted it'' None), e, w)
                         | Some keyID \<Rightarrow>
                             (case aadFor tz st given of
                                Inl err \<Rightarrow> Some (Inl err, e, w)
                              | Inr aadBytes \<Rightarrow>
                                  do { (r, s, w) \<leftarrow> resolve (KeyID keyID) s w;
                                       let e = put_state name s e in
                                       case r of
                                         Inl err \<Rightarrow> Some (Inl err, e, w)
                                       | Inr (_, k) \<Rightarrow> do { v \<leftarrow> open_value A tz st iv aadBytes k; Some (v, e, w) } })))) }"

definition Decrypt :: "aead \<Rightarrow> tzdb \<Rightarrow> bytes \<Rightarrow> 'r encryption \<Rightarrow> 'r world \<Rightarrow> ((encerr + goval) \<times> 'r encryption \<times> 'r world) option" where
  "Decrypt A tz b = decrypt A tz b None"

definition DecryptWithAAD :: "aead \<Rightarrow> tzdb \<Rightarrow> bytes \<Rightarrow> goarg \<Rightarrow> 'r encryption \<Rightarrow> 'r world \<Rightarrow> ((encerr + goval) \<times> 'r encryption \<times> 'r world) option" where
  "DecryptWithAAD A tz b aad e w =
     (if aad = GNil
      then Some (Inl (EncError ''no additional authenticated data was supplied, use Decrypt to authenticate against the data stored with the value'' None), e, w)
      else decrypt A tz b (Some aad) e w)"

section \<open>Managing keys\<close>

text \<open>KeyManager: its methods act on the state of one profile. An EncapsulatedKey is an id with an alias.\<close>

definition KM_Create ::
  "string \<Rightarrow> (string \<times> string) list \<Rightarrow> 'r profileState \<Rightarrow> 'r world \<Rightarrow> ((encerr + string \<times> string) \<times> 'r profileState \<times> 'r world) option" where
  "KM_Create a opts s w =
     do { (r, w) \<leftarrow> on_service (\<lambda>svc. Encapsulate svc opts) s w;
          case r of
            Inl err \<Rightarrow> Some (Inl (wrap ''could not create an encryption key'' err), s, w)
          | Inr res \<Rightarrow>
              (case NewDataKey (er_Key res) of
                 Inl err \<Rightarrow> Some (Inl (EncError ''the key encapsulation service returned an unusable key'' (Some err)), s, w)
               | Inr k \<Rightarrow>
                   do { (r, w) \<leftarrow> on_repo (\<lambda>repo. CreateKey repo a (er_Encapsulation res) (er_Metadata res)) s w;
                        case r of
                          Inl err \<Rightarrow> Some (Inl (wrap ''could not store the new encryption key'' err), s, w)
                        | Inr rc \<Rightarrow>
                            if kr_ID rc = [] then Some (Inl (EncError ''the key repository stored the new encryption key without giving it an id'' None), s, w)
                            else
                              do { (s, w) \<leftarrow> (if a \<noteq> [] then putAlias a (kr_ID rc) s w else Some (s, w));
                                   (s, w) \<leftarrow> putKey (kr_ID rc) k s w;
                                   Some (Inr (kr_ID rc, kr_Alias rc), s, w) } }) }"

definition KM_FindByAlias :: "string \<Rightarrow> 'r profileState \<Rightarrow> 'r world \<Rightarrow> ((encerr + string \<times> string) \<times> 'r world) option" where
  "KM_FindByAlias a s w =
     do { (r, w) \<leftarrow> on_repo (\<lambda>repo. FindByAlias repo a) s w;
          Some (case r of
                  Inl err \<Rightarrow> Inl (lookup_error (''no encryption key has alias '' @ a) (''could not look up encryption key alias '' @ a) s err)
                | Inr rc \<Rightarrow> Inr (kr_ID rc, kr_Alias rc), w) }"

definition KM_setAlias :: "string \<Rightarrow> string \<Rightarrow> 'r profileState \<Rightarrow> 'r world \<Rightarrow> (encerr option \<times> 'r profileState \<times> 'r world) option" where
  "KM_setAlias i a s w =
     (if i = [] then Some (Some (EncError ''an encryption key id cannot be empty'' None), s, w)
      else
        do { (r, w) \<leftarrow> on_repo (\<lambda>repo. SetAlias repo i a) s w;
             case r of
               Some err \<Rightarrow> Some (Some (lookup_error (''no encryption key has id '' @ i) (''could not set the alias of encryption key '' @ i) s err), s, w)
             | None \<Rightarrow> Some (None, s\<lparr>ps_aliasIndex := Cache_Clear (ps_aliasIndex s)\<rparr>, w) })"

definition KM_SetAlias :: "string \<Rightarrow> string \<Rightarrow> 'r profileState \<Rightarrow> 'r world \<Rightarrow> (encerr option \<times> 'r profileState \<times> 'r world) option" where
  "KM_SetAlias i a s w =
     (if a = [] then Some (Some (EncError ''an encryption key alias cannot be empty, use DeleteAlias'' None), s, w) else KM_setAlias i a s w)"

definition KM_DeleteAlias :: "string \<Rightarrow> 'r profileState \<Rightarrow> 'r world \<Rightarrow> (encerr option \<times> 'r profileState \<times> 'r world) option" where
  "KM_DeleteAlias i s w = KM_setAlias i [] s w"

definition KM_DeleteByID :: "string \<Rightarrow> 'r profileState \<Rightarrow> 'r world \<Rightarrow> (encerr option \<times> 'r profileState \<times> 'r world) option" where
  "KM_DeleteByID i s w =
     (if i = [] then Some (Some (EncError ''an encryption key id cannot be empty'' None), s, w)
      else
        do { (r, w) \<leftarrow> on_repo (\<lambda>repo. DeleteByID repo i) s w;
             case r of
               Some err \<Rightarrow> Some (Some (lookup_error (''no encryption key has id '' @ i) (''could not delete encryption key '' @ i) s err), s, w)
             | None \<Rightarrow> Some (None, s\<lparr>ps_keyCache := Cache_Remove i (ps_keyCache s), ps_aliasIndex := Cache_Clear (ps_aliasIndex s)\<rparr>, w) })"

section \<open>A local key encapsulation service\<close>

text \<open>encoding/base64 with the standard alphabet and padding; line ends are skipped when decoding.\<close>

definition b64_alphabet :: string where
  "b64_alphabet = ''ABCDEFGHIJKLMNOPQRSTUVWXYZabcdefghijklmnopqrstuvwxyz0123456789+/''"

fun b64_index :: "nat \<Rightarrow> string \<Rightarrow> char \<Rightarrow> nat option" where
  "b64_index n [] c = None"
| "b64_index n (x # xs) c = (if x = c then Some n else b64_index (Suc n) xs c)"

definition b64_val :: "char \<Rightarrow> nat option" where
  "b64_val = b64_index 0 b64_alphabet"

abbreviation b64_char :: "nat \<Rightarrow> char" where
  "b64_char n \<equiv> b64_alphabet ! n"

fun b64_encode :: "bytes \<Rightarrow> string" where
  "b64_encode [] = []"
| "b64_encode [a] = [b64_char (unat a div 4), b64_char (unat a mod 4 * 16), CHR ''='', CHR ''='']"
| "b64_encode [a, b] = [b64_char (unat a div 4), b64_char (unat a mod 4 * 16 + unat b div 16), b64_char (unat b mod 16 * 4), CHR ''='']"
| "b64_encode (a # b # c # r) =
     b64_char (unat a div 4) # b64_char (unat a mod 4 * 16 + unat b div 16) # b64_char (unat b mod 16 * 4 + unat c div 64) #
     b64_char (unat c mod 64) # b64_encode r"

text \<open>The three bytes of a quantum of four digits.\<close>

definition byte1 :: "nat \<Rightarrow> nat \<Rightarrow> byte" where
  "byte1 w x = word_of_nat (w * 4 + x div 16)"

definition byte2 :: "nat \<Rightarrow> nat \<Rightarrow> byte" where
  "byte2 x y = word_of_nat (x mod 16 * 16 + y div 4)"

definition byte3 :: "nat \<Rightarrow> nat \<Rightarrow> byte" where
  "byte3 y z = word_of_nat (y mod 4 * 64 + z)"

fun b64_quanta :: "string \<Rightarrow> bytes option" where
  "b64_quanta [] = Some []"
| "b64_quanta (p # q # r # s # ms) =
     do { w \<leftarrow> b64_val p;
          x \<leftarrow> b64_val q;
          if r = CHR ''='' then
            if s = CHR ''='' \<and> ms = [] then Some [byte1 w x] else None
          else do {
            y \<leftarrow> b64_val r;
            if s = CHR ''='' then
              if ms = [] then Some [byte1 w x, byte2 x y] else None
            else do {
              z \<leftarrow> b64_val s;
              bs \<leftarrow> b64_quanta ms;
              Some (byte1 w x # byte2 x y # byte3 y z # bs) } } }"
| "b64_quanta _ = None"

definition b64_decode :: "string \<Rightarrow> bytes option" where
  "b64_decode s = b64_quanta (filter (\<lambda>c. c \<noteq> CHR 0x0A \<and> c \<noteq> CHR 0x0D) s)"

text \<open>NewLocalKeyEncapsulationService and its methods; the service is the key encryption key. The error is a usage error.\<close>

definition NewLocalKeyEncapsulationService :: "bytes \<Rightarrow> encerr + bytes" where
  "NewLocalKeyEncapsulationService kek =
     (case NewDataKey kek of Inl err \<Rightarrow> Inl (GoErr (UsageError ''invalid local key encryption key'')) | Inr k \<Rightarrow> Inr k)"

definition Local_Encapsulate :: "aead \<Rightarrow> 'r rng \<Rightarrow> bytes \<Rightarrow> (string \<times> string) list \<Rightarrow> 'r \<Rightarrow> (encerr + encapsulationResult) \<times> 'r" where
  "Local_Encapsulate A rand kek opts x =
     (case NewDEK rand x of
        (Inl err, x) \<Rightarrow> (Inl (EncError ''could not create a data encryption key'' (Some err)), x)
      | (Inr dek, x) \<Rightarrow>
          (case NewIV rand x of
             (Inl err, x) \<Rightarrow> (Inl (EncError ''could not wrap the data encryption key'' (Some err)), x)
           | (Inr iv, x) \<Rightarrow>
               (case DataKey_Seal A kek iv dek [] of
                  Inl err \<Rightarrow> (Inl (EncError ''could not wrap the data encryption key'' (Some err)), x)
                | Inr capsule \<Rightarrow> (Inr \<lparr>er_Key = dek, er_Encapsulation = capsule, er_Metadata = [(''iv'', b64_encode iv)]\<rparr>, x))))"

definition Local_Decapsulate :: "aead \<Rightarrow> bytes \<Rightarrow> bytes \<Rightarrow> (string \<times> string) list \<Rightarrow> 'r \<Rightarrow> (encerr + bytes) \<times> 'r" where
  "Local_Decapsulate A kek encapsulation meta x =
     (case map_of meta ''iv'' of
        None \<Rightarrow> (Inl (EncError ''the encapsulated key has no iv metadata and was not wrapped by a local key encapsulation service'' None), x)
      | Some encoded \<Rightarrow>
          (case b64_decode encoded of
             None \<Rightarrow> (Inl (EncError ''the encapsulated key has unreadable iv metadata'' (Some (FmtError ''illegal base64 data''))), x)
           | Some iv \<Rightarrow>
               (case DataKey_Open A kek iv encapsulation [] of
                  Inl err \<Rightarrow> (Inl (EncError ''could not unwrap the data encryption key, the key encryption key may be wrong'' (Some err)), x)
                | Inr dek \<Rightarrow> (Inr dek, x))))"

definition localService :: "aead \<Rightarrow> 'r rng \<Rightarrow> bytes \<Rightarrow> 'r keyService" where
  "localService A rand kek = \<lparr>Encapsulate = Local_Encapsulate A rand kek, Decapsulate = Local_Decapsulate A kek\<rparr>"

end
