(* ===== verification/PropertyEncryptionProps.thy ===== *)
theory PropertyEncryptionProps
  imports PropertyEncryption PropertyCodecProps
begin

text \<open>
  Properties of property encryption: the states of the profiles stay coherent, a local service recovers the keys it
  wraps, and what was encrypted is decrypted again.
\<close>

section \<open>Base 64\<close>

lemma b64_val_char: "n < 64 \<Longrightarrow> b64_val (b64_char n) = Some n"
proof -
  have "list_all (\<lambda>n. b64_val (b64_char n) = Some n) [0..<64]" by code_simp
  then show "n < 64 \<Longrightarrow> b64_val (b64_char n) = Some n" by (simp add: list_all_iff)
qed

lemma b64_char_plain: "n < 64 \<Longrightarrow> b64_char n \<noteq> CHR ''='' \<and> b64_char n \<noteq> CHR 0x0A \<and> b64_char n \<noteq> CHR 0x0D"
proof -
  have "list_all (\<lambda>n. b64_char n \<noteq> CHR ''='' \<and> b64_char n \<noteq> CHR 0x0A \<and> b64_char n \<noteq> CHR 0x0D) [0..<64]" by code_simp
  then show "n < 64 \<Longrightarrow> b64_char n \<noteq> CHR ''='' \<and> b64_char n \<noteq> CHR 0x0A \<and> b64_char n \<noteq> CHR 0x0D" by (simp add: list_all_iff)
qed

lemma byte_lt: "unat a < 256" for a :: byte
  using unsigned_less [of a] by simp

lemma byte_bounds [simp]:
  fixes a b c :: byte
  shows "unat a div 4 < 64" "unat a mod 4 * 16 < 64" "unat a mod 4 * 16 + unat b div 16 < 64" "unat b mod 16 * 4 < 64"
    "unat b mod 16 * 4 + unat c div 64 < 64" "unat c mod 64 < 64"
  using byte_lt [of a] byte_lt [of b] byte_lt [of c] by auto

lemma byte_joins [simp]:
  fixes a b c :: byte
  shows "byte1 (unat a div 4) (unat a mod 4 * 16 + unat b div 16) = a" "byte1 (unat a div 4) (unat a mod 4 * 16) = a"
    "byte2 (unat a mod 4 * 16 + unat b div 16) (unat b mod 16 * 4 + unat c div 64) = b"
    "byte2 (unat a mod 4 * 16 + unat b div 16) (unat b mod 16 * 4) = b"
    "byte3 (unat b mod 16 * 4 + unat c div 64) (unat c mod 64) = c"
proof -
  have k: "unat b div 16 < 16" "unat c div 64 < 4" using byte_lt [of b] byte_lt [of c] by auto
  have d: "(unat a mod 4 * 16 + unat b div 16) div 16 = unat a mod 4" "(unat a mod 4 * 16 + unat b div 16) mod 16 = unat b div 16"
    "(unat b mod 16 * 4 + unat c div 64) div 4 = unat b mod 16" "(unat b mod 16 * 4 + unat c div 64) mod 4 = unat c div 64"
    using k by simp_all
  have 1: "unat a div 4 * 4 + (unat a mod 4 * 16 + unat b div 16) div 16 = unat a" unfolding d by simp
  have 2: "unat a div 4 * 4 + unat a mod 4 * 16 div 16 = unat a" by simp
  have 3: "(unat a mod 4 * 16 + unat b div 16) mod 16 * 16 + (unat b mod 16 * 4 + unat c div 64) div 4 = unat b" unfolding d by simp
  have 4: "(unat a mod 4 * 16 + unat b div 16) mod 16 * 16 + unat b mod 16 * 4 div 4 = unat b" unfolding d by simp
  have 5: "(unat b mod 16 * 4 + unat c div 64) mod 4 * 64 + unat c mod 64 = unat c" unfolding d by simp
  show "byte1 (unat a div 4) (unat a mod 4 * 16 + unat b div 16) = a" unfolding byte1_def 1 by simp
  show "byte1 (unat a div 4) (unat a mod 4 * 16) = a" unfolding byte1_def 2 by simp
  show "byte2 (unat a mod 4 * 16 + unat b div 16) (unat b mod 16 * 4 + unat c div 64) = b" unfolding byte2_def 3 by simp
  show "byte2 (unat a mod 4 * 16 + unat b div 16) (unat b mod 16 * 4) = b" unfolding byte2_def 4 by simp
  show "byte3 (unat b mod 16 * 4 + unat c div 64) (unat c mod 64) = c" unfolding byte3_def 5 by simp
qed

lemma b64_roundtrip: "b64_decode (b64_encode bs) = Some bs"
proof -
  have "filter (\<lambda>c. c \<noteq> CHR 0x0A \<and> c \<noteq> CHR 0x0D) (b64_encode bs) = b64_encode bs"
    by (induction bs rule: b64_encode.induct) (auto simp: b64_char_plain byte_bounds)
  moreover have "b64_quanta (b64_encode bs) = Some bs"
    by (induction bs rule: b64_encode.induct)
      (simp_all add: b64_val_char b64_char_plain byte_bounds)
  ultimately show ?thesis by (simp add: b64_decode_def)
qed

section \<open>Coherent caches\<close>

lemma lru_get_from:
  "lru_get k es ck = (r, es', ck') \<Longrightarrow>
     set es' \<subseteq> set es \<and> (\<forall>v. r = Some v \<longrightarrow> (\<exists>e \<in> set es. ce_key e = k \<and> ce_value e = v))"
  by (auto simp: lru_get_def drop_key_def find_Some_iff split: option.splits if_splits)

lemma live_from: "set (live ck es) \<subseteq> set es"
  by (induction ck es rule: live.induct) auto

lemma lru_put_from:
  assumes "lru_put ttl n k v es ck = (es', ck')"
  shows "set es' \<subseteq> insert \<lparr>ce_key = k, ce_value = v, ce_expires = ck (length es) + ttl\<rparr> (set es)"
proof -
  have "set (drop_key k (live ck es)) \<subseteq> set es" using live_from [of ck es] by (auto simp: drop_key_def)
  then show ?thesis using assms by (auto simp: lru_put_def dest!: in_set_takeD)
qed

text \<open>
  Every cached key is the key of its id. \<open>H\<close> is the log of all the keys that ever had an id: it is no state of the
  program, and it only grows.
\<close>

definition coherent :: "(string \<rightharpoonup> bytes) \<Rightarrow> 'r profileState \<Rightarrow> bool" where
  "coherent H s \<longleftrightarrow> cache_ok (ps_aliasIndex s) \<and> cache_ok (ps_keyCache s) \<and> (\<forall>e \<in> set (uses (ps_keyCache s)). H (ce_key e) = Some (ce_value e))"

lemma coherent_mono: "coherent H s \<Longrightarrow> H \<subseteq>\<^sub>m H' \<Longrightarrow> coherent H' s"
  by (auto simp: coherent_def map_le_def dom_def)

text \<open>What an operation on a state may change.\<close>

definition kept :: "'r profileState \<Rightarrow> 'r profileState \<Rightarrow> bool" where
  "kept s s' \<longleftrightarrow> ps_profile s' = ps_profile s"

lemma kept_trans: "kept s s1 \<Longrightarrow> kept s1 s2 \<Longrightarrow> kept s s2"
  by (simp add: kept_def)

lemma getKey_coherent:
  assumes "coherent H s"
  obtains r s' w' where "getKey i s w = (r, s', w')" "coherent H s'" "kept s s'" "w_ext w' = w_ext w" "\<And>k. r = Some k \<Longrightarrow> H i = Some k"
proof -
  have ok: "cache_ok (ps_keyCache s)" using assms by (simp add: coherent_def)
  obtain r c ck where g: "Cache_Get i (ps_keyCache s) (w_clock w) = (r, c, ck)" "cache_ok c"
    "lru_get i (uses (ps_keyCache s)) (w_clock w) = (r, uses c, ck)"
    using Get_refines [OF ok] by blast
  note fr = lru_get_from [OF g(3)]
  have "coherent H (s\<lparr>ps_keyCache := c\<rparr>)" using assms g(2) fr by (auto simp: coherent_def)
  moreover have "H i = Some k" if "r = Some k" for k using that fr assms by (auto simp: coherent_def)
  ultimately show ?thesis
    using g(1) by (intro that [of r "s\<lparr>ps_keyCache := c\<rparr>" "w\<lparr>w_clock := ck\<rparr>"]) (auto simp: getKey_def kept_def)
qed

lemma getAlias_coherent:
  assumes "coherent H s"
  obtains r s' w' where "getAlias a s w = (r, s', w')" "coherent H s'" "kept s s'" "w_ext w' = w_ext w"
proof -
  have ok: "cache_ok (ps_aliasIndex s)" using assms by (simp add: coherent_def)
  obtain r c ck where "Cache_Get a (ps_aliasIndex s) (w_clock w) = (r, c, ck)" "cache_ok c"
    using Get_refines [OF ok] by blast
  then show ?thesis
    using assms by (intro that [of r "s\<lparr>ps_aliasIndex := c\<rparr>" "w\<lparr>w_clock := ck\<rparr>"]) (auto simp: getAlias_def kept_def coherent_def)
qed

lemma putKey_coherent:
  assumes "coherent H s" "H i = Some k"
  obtains s' w' where "putKey i k s w = Some (s', w')" "coherent H s'" "kept s s'" "w_ext w' = w_ext w"
proof -
  have ok: "cache_ok (ps_keyCache s)" using assms by (simp add: coherent_def)
  obtain c ck where p: "Cache_Put i k (ps_keyCache s) (w_clock w) = Some (c, ck)" "cache_ok c"
    "lru_put (c_ttl (ps_keyCache s)) (c_maxSize (ps_keyCache s)) i k (uses (ps_keyCache s)) (w_clock w) = (uses c, ck)"
    using Put_refines [OF ok] by blast
  have "coherent H (s\<lparr>ps_keyCache := c\<rparr>)" using assms p(2) lru_put_from [OF p(3)] by (auto simp: coherent_def)
  then show ?thesis
    using p(1) by (intro that [of "s\<lparr>ps_keyCache := c\<rparr>" "w\<lparr>w_clock := ck\<rparr>"]) (auto simp: putKey_def kept_def)
qed

lemma putAlias_coherent:
  assumes "coherent H s"
  obtains s' w' where "putAlias a i s w = Some (s', w')" "coherent H s'" "kept s s'" "w_ext w' = w_ext w"
proof -
  have ok: "cache_ok (ps_aliasIndex s)" using assms by (simp add: coherent_def)
  obtain c ck where "Cache_Put a i (ps_aliasIndex s) (w_clock w) = Some (c, ck)" "cache_ok c"
    using Put_refines [OF ok] by blast
  then show ?thesis
    using assms by (intro that [of "s\<lparr>ps_aliasIndex := c\<rparr>" "w\<lparr>w_clock := ck\<rparr>"]) (auto simp: putAlias_def kept_def coherent_def)
qed

section \<open>What a profile relies on\<close>

text \<open>A coherent state whose profile uses this service and this repository.\<close>

definition served ::
  "'r keyService \<Rightarrow> 'r keyRepository \<Rightarrow> ((string \<rightharpoonup> bytes) \<Rightarrow> 'r \<Rightarrow> bool) \<Rightarrow> (string \<rightharpoonup> bytes) \<Rightarrow> 'r profileState \<Rightarrow> 'r world \<Rightarrow> bool" where
  "served svc repo I H s w \<longleftrightarrow> ep_EncapsulationService (ps_profile s) = Some svc \<and> ep_KeyRepository (ps_profile s) = Some repo \<and>
     coherent H s \<and> I H (w_ext w)"

text \<open>
  The contract of a repository with a service, as the comments on the two interfaces state it: an id names one key for
  ever, a record that is found recovers the key of its id when it can be decapsulated, and a key that was encapsulated
  and stored is the key of the id that the repository assigns, which no other key had before. \<open>I H\<close> holds of the states
  of the two that agree with the log \<open>H\<close> of the keys ever stored.
\<close>

locale key_store =
  fixes svc :: "'r keyService" and repo :: "'r keyRepository" and I :: "(string \<rightharpoonup> bytes) \<Rightarrow> 'r \<Rightarrow> bool"
  assumes found_by_id: "I H x \<Longrightarrow> FindByID repo i x = (r, x') \<Longrightarrow> I H x' \<and>
      (\<forall>rc y k y'. r = Inr rc \<longrightarrow> I H y \<longrightarrow> Decapsulate svc (kr_Encapsulation rc) (kr_Metadata rc) y = (Inr k, y') \<longrightarrow> H i = Some k)"
    and found_by_alias: "I H x \<Longrightarrow> FindByAlias repo a x = (r, x') \<Longrightarrow> I H x' \<and>
      (\<forall>rc y k y'. r = Inr rc \<longrightarrow> I H y \<longrightarrow> Decapsulate svc (kr_Encapsulation rc) (kr_Metadata rc) y = (Inr k, y') \<longrightarrow> H (kr_ID rc) = Some k)"
    and decapsulated: "I H x \<Longrightarrow> Decapsulate svc c m x = (r', x') \<Longrightarrow> I H x'"
    and encapsulated: "I H x \<Longrightarrow> Encapsulate svc opts x = (r'', x') \<Longrightarrow> I H x'"
    and created: "I H x \<Longrightarrow> Encapsulate svc opts x = (Inr res, x') \<Longrightarrow>
      CreateKey repo a (er_Encapsulation res) (er_Metadata res) x' = (q, x2) \<Longrightarrow>
      \<exists>H'. H \<subseteq>\<^sub>m H' \<and> I H' x2 \<and> (\<forall>rc. q = Inr rc \<longrightarrow> H' (kr_ID rc) = Some (er_Key res))"
    and alias_set: "I H x \<Longrightarrow> SetAlias repo i a x = (o1, x') \<Longrightarrow> I H x'"
    and deleted: "I H x \<Longrightarrow> DeleteByID repo i x = (o1, x') \<Longrightarrow> I H x'"
begin

lemma served_kept: "served svc repo I H s w \<Longrightarrow> kept s s' \<Longrightarrow> coherent H s' \<Longrightarrow> I H (w_ext w') \<Longrightarrow> served svc repo I H s' w'"
  by (simp add: served_def kept_def)

lemma decapsulate_served:
  assumes "served svc repo I H s w"
    and "\<And>y k y'. I H y \<Longrightarrow> Decapsulate svc (kr_Encapsulation rc) (kr_Metadata rc) y = (Inr k, y') \<Longrightarrow> H i = Some k"
  obtains r w' where "decapsulate rc s w = Some (r, w')" "I H (w_ext w')" "\<And>k. r = Inr k \<Longrightarrow> H i = Some k"
proof -
  obtain r x where d: "Decapsulate svc (kr_Encapsulation rc) (kr_Metadata rc) (w_ext w) = (r, x)" by fastforce
  have I: "I H (w_ext w)" and s: "ep_EncapsulationService (ps_profile s) = Some svc" using assms(1) by (simp_all add: served_def)
  have "I H x" using decapsulated [OF I d] .
  moreover have "H i = Some k" if "r = Inr k" for k using assms(2) [OF I] d that by simp
  moreover obtain r1 where r1: "decapsulate rc s w = Some (r1, w\<lparr>w_ext := x\<rparr>)" "\<And>k. r1 = Inr k \<Longrightarrow> r = Inr k"
    using d s by (cases r; cases "\<exists>b. r = Inr b \<and> length b = 32") (auto simp: decapsulate_def on_service_def NewDataKey_def)
  ultimately show ?thesis by (intro that [OF r1(1)]) auto
qed

lemma resolveByID_served:
  assumes "served svc repo I H s w"
  obtains r s' w' where "resolveByID i s w = Some (r, s', w')" "served svc repo I H s' w'" "kept s s'" "\<And>j k. r = Inr (j, k) \<Longrightarrow> j = i \<and> H i = Some k"
proof -
  have coh: "coherent H s" and I: "I H (w_ext w)" using assms by (simp_all add: served_def)
  obtain r1 s1 w1 where 1: "getKey i s w = (r1, s1, w1)" "coherent H s1" "kept s s1" "w_ext w1 = w_ext w" "\<And>k. r1 = Some k \<Longrightarrow> H i = Some k"
    using getKey_coherent [OF coh] by blast
  have sv1: "served svc repo I H s1 w1" using served_kept [OF assms 1(3,2)] I 1(4) by simp
  obtain r2 x2 where 2: "FindByID repo i (w_ext w1) = (r2, x2)" by fastforce
  let ?w2 = "w1\<lparr>w_ext := x2\<rparr>"
  have rp: "on_repo (\<lambda>repo. FindByID repo i) s1 w1 = Some (r2, ?w2)" using 2 sv1 by (simp add: on_repo_def served_def)
  have f: "I H x2" "\<And>rc y k y'. r2 = Inr rc \<Longrightarrow> I H y \<Longrightarrow> Decapsulate svc (kr_Encapsulation rc) (kr_Metadata rc) y = (Inr k, y') \<Longrightarrow> H i = Some k"
    using found_by_id [OF _ 2] I 1(4) by auto
  have sv2: "served svc repo I H s1 ?w2" using sv1 f(1) by (simp add: served_def)
  show ?thesis
  proof (cases r1)
    case (Some k)
    then have "resolveByID i s w = Some (Inr (i, k), s1, w1)" using 1(1) by (simp add: resolveByID_def)
    then show ?thesis by (rule that) (use 1 sv1 Some in auto)
  next
    case None
    show ?thesis
    proof (cases r2)
      case (Inl err)
      then have "\<exists>e. resolveByID i s w = Some (Inl e, s1, ?w2)" using None 1(1) rp by (simp add: resolveByID_def)
      then show ?thesis using that sv2 1(3) by blast
    next
      case (Inr rc)
      obtain r3 w3 where 3: "decapsulate rc s1 ?w2 = Some (r3, w3)" "I H (w_ext w3)" "\<And>k. r3 = Inr k \<Longrightarrow> H i = Some k"
        using decapsulate_served [of H s1 ?w2 rc i] sv2 f(2) [OF Inr] by blast
      have sv3: "served svc repo I H s1 w3" using sv1 3(2) by (simp add: served_def)
      show ?thesis
      proof (cases r3)
        case (Inl err)
        then have "resolveByID i s w = Some (Inl err, s1, w3)" using None 1(1) rp \<open>r2 = Inr rc\<close> 3(1) by (simp add: resolveByID_def)
        then show ?thesis by (rule that) (use sv3 1(3) in auto)
      next
        case (Inr k)
        obtain s4 w4 where 4: "putKey i k s1 w3 = Some (s4, w4)" "coherent H s4" "kept s1 s4" "w_ext w4 = w_ext w3"
          using putKey_coherent [OF 1(2) 3(3) [OF Inr]] by blast
        have sv4: "served svc repo I H s4 w4" using served_kept [OF sv3 4(3,2)] 4(4) 3(2) by simp
        have "resolveByID i s w = Some (Inr (i, k), s4, w4)"
          using Inr None 1(1) rp \<open>r2 = Inr rc\<close> 3(1) 4(1) by (simp add: resolveByID_def)
        then show ?thesis by (rule that) (use sv4 kept_trans [OF 1(3) 4(3)] 3(3) Inr in auto)
      qed
    qed
  qed
qed

lemma cached_alias_served:
  assumes "served svc repo I H s w"
  obtains r s' w' where "cached_alias a s w = (r, s', w')" "served svc repo I H s' w'" "kept s s'" "\<And>j k. r = Some (j, k) \<Longrightarrow> H j = Some k"
proof -
  have coh: "coherent H s" and I: "I H (w_ext w)" using assms by (simp_all add: served_def)
  obtain r1 s1 w1 where 1: "getAlias a s w = (r1, s1, w1)" "coherent H s1" "kept s s1" "w_ext w1 = w_ext w"
    using getAlias_coherent [OF coh] by blast
  have sv1: "served svc repo I H s1 w1" using served_kept [OF assms 1(3,2)] I 1(4) by simp
  show ?thesis
  proof (cases r1)
    case None
    then have "cached_alias a s w = (None, s1, w1)" using 1(1) by (simp add: cached_alias_def)
    then show ?thesis by (rule that) (use 1 sv1 in auto)
  next
    case (Some j)
    obtain r2 s2 w2 where 2: "getKey j s1 w1 = (r2, s2, w2)" "coherent H s2" "kept s1 s2" "w_ext w2 = w_ext w1" "\<And>k. r2 = Some k \<Longrightarrow> H j = Some k"
      using getKey_coherent [OF 1(2)] by blast
    have sv2: "served svc repo I H s2 w2" using served_kept [OF sv1 2(3,2)] I 1(4) 2(4) by simp
    have k2: "kept s s2" using kept_trans [OF 1(3) 2(3)] .
    show ?thesis
    proof (cases r2)
      case (Some k)
      then have "cached_alias a s w = (Some (j, k), s2, w2)" using \<open>r1 = Some j\<close> 1(1) 2(1) by (simp add: cached_alias_def)
      then show ?thesis by (rule that) (use Some 2(5) sv2 k2 in auto)
    next
      case None
      let ?s = "s2\<lparr>ps_aliasIndex := Cache_Remove a (ps_aliasIndex s2)\<rparr>"
      have "coherent H ?s" using 2(2) Remove_refines(1) by (auto simp: coherent_def)
      then have "served svc repo I H ?s w2" "kept s ?s" using sv2 k2 by (simp_all add: served_def kept_def)
      moreover have "cached_alias a s w = (None, ?s, w2)" using None Some 1(1) 2(1) by (simp add: cached_alias_def)
      ultimately show ?thesis using that by blast
    qed
  qed
qed

lemma resolveByAlias_served:
  assumes "served svc repo I H s w"
  obtains r s' w' where "resolveByAlias a s w = Some (r, s', w')" "served svc repo I H s' w'" "kept s s'" "\<And>j k. r = Inr (j, k) \<Longrightarrow> H j = Some k"
proof -
  obtain r1 s1 w1 where 1: "cached_alias a s w = (r1, s1, w1)" "served svc repo I H s1 w1" "kept s s1" "\<And>j k. r1 = Some (j, k) \<Longrightarrow> H j = Some k"
    using cached_alias_served [OF assms] by blast
  have coh: "coherent H s1" and I: "I H (w_ext w1)" using 1(2) by (simp_all add: served_def)
  obtain r2 x2 where 2: "FindByAlias repo a (w_ext w1) = (r2, x2)" by fastforce
  let ?w2 = "w1\<lparr>w_ext := x2\<rparr>"
  have rp: "on_repo (\<lambda>repo. FindByAlias repo a) s1 w1 = Some (r2, ?w2)" using 2 1(2) by (simp add: on_repo_def served_def)
  have f: "I H x2" "\<And>rc y k y'. r2 = Inr rc \<Longrightarrow> I H y \<Longrightarrow> Decapsulate svc (kr_Encapsulation rc) (kr_Metadata rc) y = (Inr k, y') \<Longrightarrow> H (kr_ID rc) = Some k"
    using found_by_alias [OF I 2] by auto
  have sv2: "served svc repo I H s1 ?w2" using 1(2) f(1) by (simp add: served_def)
  show ?thesis
  proof (cases r1)
    case (Some jk)
    then have "resolveByAlias a s w = Some (Inr jk, s1, w1)" using 1(1) by (simp add: resolveByAlias_def)
    then show ?thesis by (rule that) (use 1 Some in auto)
  next
    case None
    show ?thesis
    proof (cases "\<exists>rc. r2 = Inr rc \<and> kr_ID rc \<noteq> []")
      case False
      then have "\<exists>e. resolveByAlias a s w = Some (Inl e, s1, ?w2)" using None 1(1) rp by (cases r2) (auto simp: resolveByAlias_def)
      then show ?thesis using that sv2 1(3) by blast
    next
      case True
      then obtain rc where rc: "r2 = Inr rc" "kr_ID rc \<noteq> []" by blast
      let ?i = "kr_ID rc"
      obtain r3 w3 where 3: "decapsulate rc s1 ?w2 = Some (r3, w3)" "I H (w_ext w3)" "\<And>k. r3 = Inr k \<Longrightarrow> H ?i = Some k"
        using decapsulate_served [of H s1 ?w2 rc ?i] sv2 f(2) [OF rc(1)] by blast
      have sv3: "served svc repo I H s1 w3" using 1(2) 3(2) by (simp add: served_def)
      obtain s4 w4 where 4: "putAlias a ?i s1 w3 = Some (s4, w4)" "coherent H s4" "kept s1 s4" "w_ext w4 = w_ext w3"
        using putAlias_coherent [OF coh] by blast
      show ?thesis
      proof (cases r3)
        case (Inl err)
        then have "resolveByAlias a s w = Some (Inl err, s1, w3)" using None 1(1) rp rc 3(1) by (simp add: resolveByAlias_def)
        then show ?thesis by (rule that) (use sv3 1(3) in auto)
      next
        case (Inr k)
        obtain s5 w5 where 5: "putKey ?i k s4 w4 = Some (s5, w5)" "coherent H s5" "kept s4 s5" "w_ext w5 = w_ext w4"
          using putKey_coherent [OF 4(2) 3(3) [OF Inr]] by blast
        have k5: "kept s1 s5" using kept_trans [OF 4(3) 5(3)] .
        have sv5: "served svc repo I H s5 w5" using served_kept [OF sv3 k5 5(2)] 4(4) 5(4) 3(2) by simp
        have "resolveByAlias a s w = Some (Inr (?i, k), s5, w5)"
          using Inr None 1(1) rp rc 3(1) 4(1) 5(1) by (simp add: resolveByAlias_def)
        then show ?thesis by (rule that) (use sv5 kept_trans [OF 1(3) k5] 3(3) Inr in auto)
      qed
    qed
  qed
qed

lemma resolve_served:
  assumes "served svc repo I H s w"
  obtains r s' w' where "resolve ref s w = Some (r, s', w')" "served svc repo I H s' w'" "kept s s'" "\<And>j k. r = Inr (j, k) \<Longrightarrow> H j = Some k"
    "\<And>i j k. ref = KeyID i \<Longrightarrow> r = Inr (j, k) \<Longrightarrow> j = i"
proof (cases ref)
  case NoKey
  then show ?thesis using resolveByID_served [OF assms, of "[]"] that by (metis keyReference.distinct(3) resolve.simps(3))
next
  case (KeyAlias a)
  then show ?thesis using resolveByAlias_served [OF assms, of a] that by (metis keyReference.distinct(5) resolve.simps(1))
next
  case (KeyID i)
  then show ?thesis using resolveByID_served [OF assms, of i] that by (metis keyReference.inject(2) resolve.simps(2))
qed

end

section \<open>What is encoded fits\<close>

lemma String_err: "p_err (Packer_String p s) = None \<longleftrightarrow> fits s \<and> p_err p = None"
  by (auto simp: Packer_String_def Packer_listHeader_def list_header_def fits_def emit_def)

lemma Bytes_err: "p_err (Packer_Bytes p b) = None \<longleftrightarrow> fits32 b \<and> p_err p = None"
  by (auto simp: Packer_Bytes_def Packer_bytesHeader_def bytes_header_def fits32_def emit_def)

lemma Int_err: "p_err (Packer_Int64 p i) = p_err p" "p_err (Packer_Int p i) = p_err p"
  by (simp_all add: Packer_Int_def Packer_Int64_def emit_def)

lemma MapHeader_err: "p_err (Packer_MapHeader p (int (length m))) = None \<longleftrightarrow> fits m \<and> p_err p = None"
  by (auto simp: Packer_MapHeader_def Packer_listHeader_def list_header_def fits_def emit_def)

lemmas pack_errs = String_err Bytes_err Int_err MapHeader_err

lemma pack_metadata_ok: "pack_metadata m p = Inr p' \<Longrightarrow> p_err p' = None \<Longrightarrow> list_all meta_ok m \<and> p_err p = None"
proof (induction m arbitrary: p)
  case (Cons kv m)
  obtain k v where "kv = (k, v)" by (cases kv)
  with Cons.prems(1) show ?case
    by (cases v) (auto simp: Let_def pack_errs dest!: Cons.IH [OF _ Cons.prems(2)])
qed simp

lemma EncodeEncrypted_ok:
  assumes "EncodeEncrypted e = Inr b" "en_ProfileType e = ''ENVELOPE''" "en_ProfileVersion e = 1" "wf_map (en_Metadata e)"
  shows "encrypted_ok e" "b = 0x01 # encrypted_bytes e"
proof -
  have set: "list_all meta_ok (sort_key fst (en_Metadata e)) = list_all meta_ok (en_Metadata e)" by (simp add: list_all_iff)
  show ok: "encrypted_ok e"
    using assms by (auto simp: EncodeEncrypted_def Let_def encrypted_ok_def Packer_End_def pack_errs set
        split: sum.splits option.splits dest!: pack_metadata_ok)
  show "b = 0x01 # encrypted_bytes e" using EncodeEncrypted_bytes [OF ok] assms(1) by simp
qed

lemma cipher_shorter: "length (en_CipherOutput e) \<le> length (encrypted_bytes e)"
  by (simp add: encrypted_bytes_def struct_bytes_def bytearray_bytes_def Let_def)

section \<open>What was encrypted is decrypted\<close>

text \<open>What AES-GCM promises: opening what was sealed, with the same additional data, and sixteen bytes more than the text.\<close>

definition gcm_law :: "aead \<Rightarrow> bool" where
  "gcm_law A \<longleftrightarrow> (\<forall>k iv p a. gcm_Open A k iv (gcm_Seal A k iv p a) a = Some p \<and> length (gcm_Seal A k iv p a) = length p + 16)"

text \<open>The structure that an encryption writes.\<close>

definition sealed :: "aead \<Rightarrow> string \<Rightarrow> encoded \<Rightarrow> (string \<times> meta_value) list \<Rightarrow> bytes \<Rightarrow> string \<Rightarrow> bytes \<Rightarrow> bytes \<Rightarrow> encrypted" where
  "sealed A name ec meta aadBytes keyID k iv =
     \<lparr>en_ProfileType = ''ENVELOPE'', en_ProfileVersion = 1, en_ProfileName = name, en_CipherOutput = gcm_Seal A k iv (en_Bytes ec) aadBytes,
      en_TypeName' = en_TypeName ec, en_Baseline' = en_Baseline ec,
      en_Metadata = map_put ''iv'' (MetaBytes iv) (map_put ''key_id'' (MetaString keyID) meta)\<rparr>"

lemma seal_value_sealed:
  "seal_value A s ec meta aadBytes keyID k iv = Inr b \<Longrightarrow>
     length iv = 12 \<and> EncodeEncrypted (sealed A (ep_Name (ps_profile s)) ec meta aadBytes keyID k iv) = Inr b"
  by (auto simp: seal_value_def DataKey_Seal_def sealed_def split: sum.splits if_splits)

text \<open>The metadata of the additional data, and that decrypting finds the same bytes.\<close>

definition aad_meta :: "(string \<times> meta_value) list \<Rightarrow> bytes \<Rightarrow> tzdb \<Rightarrow> goarg \<Rightarrow> bool" where
  "aad_meta meta aadBytes tz aad \<longleftrightarrow> wf_map meta \<and>
     (if aad = GNil then meta = [] \<and> aadBytes = []
      else \<exists>ea. EncodeAAD tz aad = Inr ea \<and> aadBytes = en_Bytes ea \<and> map_of meta ''aad'' = Some (MetaBytes aadBytes) \<and>
        map_of meta ''aad_encoding_scheme_major'' = Some (MetaInt (sv_Major (en_Baseline ea))) \<and>
        map_of meta ''aad_encoding_scheme_minor'' = Some (MetaInt (sv_Minor (en_Baseline ea))))"

lemma aad_metadata_ok: "aad_metadata tz aad = Inr (meta, aadBytes) \<Longrightarrow> aad_meta meta aadBytes tz aad"
  by (auto simp: aad_metadata_def aad_meta_def wf_map_def split: if_splits sum.splits)

lemma aadFor_same:
  assumes "aad_meta meta aadBytes tz aad" and "given = None \<or> (given = Some aad \<and> aad \<noteq> GNil)"
    and "map_of (en_Metadata st) = (map_of meta)(''key_id'' \<mapsto> MetaString i, ''iv'' \<mapsto> MetaBytes iv)"
  shows "aadFor tz st given = Inr aadBytes"
  using assms by (auto simp: aadFor_def aad_meta_def Metadata_Bytes_def Metadata_Int_def split: if_splits)

lemma sealed_opened:
  assumes law: "gcm_law A" and b: "EncodeEncrypted (sealed A name ec meta aadBytes i k iv) = Inr b"
    and iv: "length iv = 12" and meta: "aad_meta meta aadBytes tz aad" and small: "length b + 256 < 2 ^ 32"
    and v: "DecodeValue tz (en_Bytes ec) (en_TypeName ec) (en_Baseline ec) = Some (Inr v)"
    and given: "given = None \<or> (given = Some aad \<and> aad \<noteq> GNil)"
  obtains st where "DecodeEncrypted b = Some (Inr st)" "en_ProfileName st = name"
    "Metadata_Bytes (en_Metadata st) ''iv'' = Some iv" "Metadata_String (en_Metadata st) ''key_id'' = Some i"
    "aadFor tz st given = Inr aadBytes" "open_value A tz st iv aadBytes k = Some (Inr v)"
proof -
  let ?e = "sealed A name ec meta aadBytes i k iv"
  have wf: "wf_map (en_Metadata ?e)"
    using meta by (simp add: sealed_def aad_meta_def wf_map_put)
  have ok: "encrypted_ok ?e" and bytes: "b = 0x01 # encrypted_bytes ?e"
    using EncodeEncrypted_ok [OF b _ _ wf] by (simp_all add: sealed_def)
  let ?st = "?e\<lparr>en_Metadata := sort_key fst (en_Metadata ?e)\<rparr>"
  have m: "map_of (en_Metadata ?st) = (map_of meta)(''key_id'' \<mapsto> MetaString i, ''iv'' \<mapsto> MetaBytes iv)"
    using sorted_meta(4) [of "en_Metadata ?e"] ok by (simp add: encrypted_ok_def) (simp add: sealed_def)
  have "DecodeEncrypted b = Some (Inr ?st)"
    using encrypted_roundtrip [OF ok, of "[]"] small bytes by simp
  moreover have "en_ProfileName ?st = name" by (simp add: sealed_def)
  moreover have "Metadata_Bytes (en_Metadata ?st) ''iv'' = Some iv" "Metadata_String (en_Metadata ?st) ''key_id'' = Some i"
    unfolding Metadata_Bytes_def Metadata_String_def m by simp_all
  moreover have "aadFor tz ?st given = Inr aadBytes" by (rule aadFor_same [OF meta given m])
  moreover have "open_value A tz ?st iv aadBytes k = Some (Inr v)"
    using law iv v by (simp add: open_value_def DataKey_Open_def gcm_law_def sealed_def)
  ultimately show ?thesis by (rule that)
qed

context key_store
begin

lemma Create_served:
  assumes "served svc repo I H s w"
  obtains r s' w' H' where "KM_Create a opts s w = Some (r, s', w')" "served svc repo I H' s' w'" "kept s s'" "H \<subseteq>\<^sub>m H'"
proof -
  have coh: "coherent H s" and I: "I H (w_ext w)" and p: "ep_EncapsulationService (ps_profile s) = Some svc" "ep_KeyRepository (ps_profile s) = Some repo"
    using assms by (simp_all add: served_def)
  obtain r1 x1 where 1: "Encapsulate svc opts (w_ext w) = (r1, x1)" by fastforce
  note enc = encapsulated [OF I 1]
  have s1: "on_service (\<lambda>svc. Encapsulate svc opts) s w = Some (r1, w\<lparr>w_ext := x1\<rparr>)" using 1 p by (simp add: on_service_def)
  have sv1: "served svc repo I H s (w\<lparr>w_ext := x1\<rparr>)" using assms enc by (simp add: served_def)
  show ?thesis
  proof (cases "\<exists>res. r1 = Inr res \<and> length (er_Key res) = 32")
    case False
    then have "\<exists>err. KM_Create a opts s w = Some (Inl err, s, w\<lparr>w_ext := x1\<rparr>)"
      using s1 by (cases r1) (auto simp: KM_Create_def NewDataKey_def)
    then show ?thesis using that [OF _ sv1 _ map_le_refl] by (auto simp: kept_def)
  next
    case True
    then obtain res where res: "r1 = Inr res" "length (er_Key res) = 32" by blast
    obtain q x2 where 2: "CreateKey repo a (er_Encapsulation res) (er_Metadata res) x1 = (q, x2)" by fastforce
    obtain H' where H': "H \<subseteq>\<^sub>m H'" "I H' x2" "\<And>rc. q = Inr rc \<Longrightarrow> H' (kr_ID rc) = Some (er_Key res)"
      using created [OF I _ 2] 1 res(1) by blast
    have coh': "coherent H' s" using coherent_mono [OF coh H'(1)] .
    let ?w2 = "w\<lparr>w_ext := x2\<rparr>"
    have s2: "on_repo (\<lambda>repo. CreateKey repo a (er_Encapsulation res) (er_Metadata res)) s (w\<lparr>w_ext := x1\<rparr>) = Some (q, ?w2)"
      using 2 p by (simp add: on_repo_def)
    have sv2: "served svc repo I H' s ?w2" using assms H'(2) coh' by (simp add: served_def)
    show ?thesis
    proof (cases "\<exists>rc. q = Inr rc \<and> kr_ID rc \<noteq> []")
      case False
      then have "\<exists>err. KM_Create a opts s w = Some (Inl err, s, ?w2)"
        using s1 s2 res by (cases q) (auto simp: KM_Create_def NewDataKey_def)
      then show ?thesis using that [OF _ sv2 _ H'(1)] by (auto simp: kept_def)
    next
      case True
      then obtain rc where rc: "q = Inr rc" "kr_ID rc \<noteq> []" by blast
      let ?i = "kr_ID rc"
      obtain s1 w1 where pa: "putAlias a ?i s ?w2 = Some (s1, w1)" "coherent H' s1" "kept s s1" "w_ext w1 = w_ext ?w2"
        using putAlias_coherent [OF coh'] by blast
      obtain s3 w3 where 3: "(if a \<noteq> [] then putAlias a ?i s ?w2 else Some (s, ?w2)) = Some (s3, w3)" "coherent H' s3" "kept s s3" "w_ext w3 = x2"
        using pa coh' by (cases "a = []") (auto simp: kept_def)
      obtain s4 w4 where 4: "putKey ?i (er_Key res) s3 w3 = Some (s4, w4)" "coherent H' s4" "kept s3 s4" "w_ext w4 = w_ext w3"
        using putKey_coherent [OF 3(2) H'(3) [OF rc(1)]] by blast
      have k: "kept s s4" using kept_trans [OF 3(3) 4(3)] .
      have "KM_Create a opts s w = Some (Inr (?i, kr_Alias rc), s4, w4)"
        using s1 s2 res rc 3(1) 4(1) by (simp add: KM_Create_def NewDataKey_def)
      then show ?thesis by (rule that) (use served_kept [OF sv2 k 4(2)] 3(4) 4(4) H'(1,2) k in auto)
    qed
  qed
qed

lemma setAlias_served:
  assumes "served svc repo I H s w"
  obtains r s' w' where "KM_setAlias i a s w = Some (r, s', w')" "served svc repo I H s' w'" "kept s s'"
proof -
  obtain q x where 1: "SetAlias repo i a (w_ext w) = (q, x)" by fastforce
  have I: "I H x" using alias_set [OF _ 1] assms by (simp add: served_def)
  let ?s = "s\<lparr>ps_aliasIndex := Cache_Clear (ps_aliasIndex s)\<rparr>"
  have "coherent H ?s" using assms Clear_refines by (auto simp: coherent_def served_def)
  then have "served svc repo I H ?s (w\<lparr>w_ext := x\<rparr>)" "served svc repo I H s (w\<lparr>w_ext := x\<rparr>)" "kept s ?s" "kept s s"
    using assms I by (simp_all add: served_def kept_def)
  moreover have "\<exists>r. KM_setAlias i a s w \<in> {Some (r, s, w), Some (r, s, w\<lparr>w_ext := x\<rparr>), Some (r, ?s, w\<lparr>w_ext := x\<rparr>)}"
    using assms 1 by (cases q) (auto simp: KM_setAlias_def on_repo_def served_def)
  ultimately show ?thesis using that assms by auto
qed

lemma DeleteByID_served:
  assumes "served svc repo I H s w"
  obtains r s' w' where "KM_DeleteByID i s w = Some (r, s', w')" "served svc repo I H s' w'" "kept s s'"
proof -
  obtain q x where 1: "DeleteByID repo i (w_ext w) = (q, x)" by fastforce
  have I: "I H x" using deleted [OF _ 1] assms by (simp add: served_def)
  let ?s = "s\<lparr>ps_keyCache := Cache_Remove i (ps_keyCache s), ps_aliasIndex := Cache_Clear (ps_aliasIndex s)\<rparr>"
  have "coherent H ?s" using assms Clear_refines Remove_refines [of "ps_keyCache s" i]
    by (auto simp: coherent_def served_def drop_key_def)
  then have "served svc repo I H ?s (w\<lparr>w_ext := x\<rparr>)" "served svc repo I H s (w\<lparr>w_ext := x\<rparr>)" "kept s ?s" "kept s s"
    using assms I by (simp_all add: served_def kept_def)
  moreover have "\<exists>r. KM_DeleteByID i s w \<in> {Some (r, s, w), Some (r, s, w\<lparr>w_ext := x\<rparr>), Some (r, ?s, w\<lparr>w_ext := x\<rparr>)}"
    using assms 1 by (cases q) (auto simp: KM_DeleteByID_def on_repo_def served_def)
  ultimately show ?thesis using that assms by auto
qed

lemma KM_FindByAlias_served:
  assumes "served svc repo I H s w"
  obtains r w' where "KM_FindByAlias a s w = Some (r, w')" "served svc repo I H s w'"
proof -
  obtain q x where 1: "FindByAlias repo a (w_ext w) = (q, x)" by fastforce
  have "I H x" using found_by_alias [OF _ 1] assms by (simp add: served_def)
  then have "served svc repo I H s (w\<lparr>w_ext := x\<rparr>)" using assms by (simp add: served_def)
  moreover have "\<exists>r. KM_FindByAlias a s w = Some (r, w\<lparr>w_ext := x\<rparr>)"
    using assms 1 by (auto simp: KM_FindByAlias_def on_repo_def served_def)
  ultimately show ?thesis using that by auto
qed

end

section \<open>Histories\<close>

text \<open>The calls of an application, and what they leave.\<close>

datatype key_call = KCreate string "(string \<times> string) list" | KFind string | KSetAlias string string | KDeleteAlias string | KDeleteByID string

fun key_exec :: "key_call \<Rightarrow> 'r profileState \<Rightarrow> 'r world \<Rightarrow> ('r profileState \<times> 'r world) option" where
  "key_exec (KCreate a opts) s w = map_option snd (KM_Create a opts s w)"
| "key_exec (KFind a) s w = map_option (\<lambda>(r, w). (s, w)) (KM_FindByAlias a s w)"
| "key_exec (KSetAlias i a) s w = map_option snd (KM_SetAlias i a s w)"
| "key_exec (KDeleteAlias i) s w = map_option snd (KM_DeleteAlias i s w)"
| "key_exec (KDeleteByID i) s w = map_option snd (KM_DeleteByID i s w)"

datatype enc_call = EEncrypt encryptRequest goarg | EDecrypt bytes "goarg option" | EKeys string key_call

fun enc_exec :: "aead \<Rightarrow> tzdb \<Rightarrow> enc_call \<Rightarrow> 'r encryption \<Rightarrow> 'r world \<Rightarrow> ('r encryption \<times> 'r world) option" where
  "enc_exec A tz (EEncrypt req aad) e w = map_option snd (encrypt A tz req aad e w)"
| "enc_exec A tz (EDecrypt b given) e w = map_option snd (decrypt A tz b given e w)"
| "enc_exec A tz (EKeys name c) e w =
     (case profileFor name e of
        Inl err \<Rightarrow> Some (e, w)
      | Inr (n, s) \<Rightarrow> (case key_exec c s w of None \<Rightarrow> None | Some (s, w) \<Rightarrow> Some (put_state n s e, w)))"

text \<open>
  A step is a call, or what time and the other users of the repositories do meanwhile: the clock changes arbitrarily, and
  the state of the repositories and the services by \<open>R\<close>.
\<close>

inductive enc_step :: "aead \<Rightarrow> tzdb \<Rightarrow> ('r \<Rightarrow> 'r \<Rightarrow> bool) \<Rightarrow> 'r encryption \<times> 'r world \<Rightarrow> 'r encryption \<times> 'r world \<Rightarrow> bool" for A tz R where
  es_call: "enc_exec A tz c e w = Some (e', w') \<Longrightarrow> enc_step A tz R (e, w) (e', w')"
| es_others: "R (w_ext w) (w_ext w') \<Longrightarrow> enc_step A tz R (e, w) (e, w')"

type_synonym key_logs = "string \<Rightarrow> string \<rightharpoonup> bytes"

text \<open>The logs of all profiles grow.\<close>

definition logs_le :: "key_logs \<Rightarrow> key_logs \<Rightarrow> bool" where
  "logs_le H H' \<longleftrightarrow> (\<forall>n. H n \<subseteq>\<^sub>m H' n)"

lemma logs_le_refl [simp]: "logs_le H H"
  by (simp add: logs_le_def)

lemma logs_le_trans: "logs_le H H1 \<Longrightarrow> logs_le H1 H2 \<Longrightarrow> logs_le H H2"
  using map_le_trans unfolding logs_le_def by blast

text \<open>Every profile is served by its service and its repository; the names are those of the profiles.\<close>

definition all_served ::
  "(string \<Rightarrow> 'r keyService) \<Rightarrow> (string \<Rightarrow> 'r keyRepository) \<Rightarrow> (key_logs \<Rightarrow> 'r \<Rightarrow> bool) \<Rightarrow> key_logs \<Rightarrow> 'r encryption \<times> 'r world \<Rightarrow> bool" where
  "all_served svc repo I H ew \<longleftrightarrow>
     (\<forall>n s. map_of (ne_profiles (fst ew)) n = Some s \<longrightarrow> n \<noteq> [] \<and> ep_Name (ps_profile s) = n \<and>
        served (svc n) (repo n) (\<lambda>h. I (H(n := h))) (H n) s (snd ew)) \<and>
     I H (w_ext (snd ew)) \<and> set (ne_names (fst ew)) = dom (map_of (ne_profiles (fst ew))) \<and>
     (\<forall>H x. I H x \<longrightarrow> I H (snd (ne_newIV (fst ew) x)))"

lemma all_servedD:
  assumes "all_served svc repo I H (e, w)"
  shows "map_of (ne_profiles e) n = Some s \<Longrightarrow> n \<noteq> []" "map_of (ne_profiles e) n = Some s \<Longrightarrow> ep_Name (ps_profile s) = n"
    "map_of (ne_profiles e) n = Some s \<Longrightarrow> served (svc n) (repo n) (\<lambda>h. I (H(n := h))) (H n) s w" "I H (w_ext w)"
    "set (ne_names e) = dom (map_of (ne_profiles e))" "I H' x \<Longrightarrow> I H' (snd (ne_newIV e x))"
  using assms unfolding all_served_def fst_conv snd_conv by blast+

lemma served_world:
  "served svc repo (\<lambda>h. I (H(n := h))) (H n) s w \<Longrightarrow> logs_le H H' \<Longrightarrow> I H' (w_ext w') \<Longrightarrow>
     served svc repo (\<lambda>h. I (H'(n := h))) (H' n) s w'"
  using coherent_mono by (auto simp: served_def logs_le_def)

lemma all_served_world:
  assumes "all_served svc repo I H (e, w)" "logs_le H H'" "I H' (w_ext w')"
  shows "all_served svc repo I H' (e, w')"
proof -
  have "served (svc n) (repo n) (\<lambda>h. I (H'(n := h))) (H' n) s w'" if "map_of (ne_profiles e) n = Some s" for n s
    using all_servedD(3) [OF assms(1) that] assms(2,3) by (rule served_world)
  then show ?thesis
    using all_servedD(1,2,5,6) [OF assms(1)] assms(3) unfolding all_served_def fst_conv snd_conv by blast
qed

lemma put_state_served:
  assumes "all_served svc repo I H (e, w)" "map_of (ne_profiles e) n = Some s" "kept s s'" "H n \<subseteq>\<^sub>m h"
    and "served (svc n) (repo n) (\<lambda>h. I (H(n := h))) h s' w'"
  shows "all_served svc repo I (H(n := h)) (put_state n s' e, w')" "logs_le H (H(n := h))"
proof -
  let ?H = "H(n := h)"
  show le: "logs_le H ?H" using assms(4) by (simp add: logs_le_def)
  note D = all_servedD [OF assms(1)]
  have I: "I ?H (w_ext w')" using assms(5) by (simp add: served_def)
  have "m \<noteq> [] \<and> ep_Name (ps_profile t) = m \<and> served (svc m) (repo m) (\<lambda>h. I (?H(m := h))) (?H m) t w'"
    if "map_of (ne_profiles (put_state n s' e)) m = Some t" for m t
  proof (cases "m = n")
    case True
    then show ?thesis using that assms(2,3,5) D(1,2) [OF assms(2)] by (simp add: put_state_def kept_def)
  next
    case False
    then have m: "map_of (ne_profiles e) m = Some t" using that by (simp add: put_state_def)
    have "served (svc m) (repo m) (\<lambda>h. I (?H(m := h))) (?H m) t w'" by (rule served_world [OF D(3) [OF m] le I])
    then show ?thesis using D(1,2) [OF m] by blast
  qed
  moreover have "set (ne_names (put_state n s' e)) = dom (map_of (ne_profiles (put_state n s' e)))"
    using D(5) assms(2) by (auto simp: put_state_def)
  moreover have "I H' x \<Longrightarrow> I H' (snd (ne_newIV (put_state n s' e) x))" for H' x using D(6) by (simp add: put_state_def)
  ultimately show "all_served svc repo I ?H (put_state n s' e, w')" using I unfolding all_served_def fst_conv snd_conv by blast
qed

lemma profileFor_state: "profileFor name e = Inr (n, s) \<Longrightarrow> map_of (ne_profiles e) n = Some s"
  by (auto simp: profileFor_def Let_def split: if_splits option.splits)

lemma profileFor_name:
  assumes "all_served svc repo I H (e, w)" "map_of (ne_profiles e) n = Some s"
  shows "profileFor n e = Inr (n, s)"
proof -
  have "n \<noteq> []" "ne_names e \<noteq> []" using all_servedD(1) [OF assms] all_servedD(5) [OF assms(1)] assms(2) by auto
  then show ?thesis using assms(2) by (simp add: profileFor_def)
qed

text \<open>The path of a successful encryption.\<close>

lemma encrypt_path:
  assumes "encrypt A tz req aad e w = Some (Inr b, e', w')"
  obtains n s ec meta aadBytes i k s1 w1 iv x where "profileFor (rq_Profile req) e = Inr (n, s)" "EncodeValue tz (rq_Value req) = Inr ec"
    "aad_metadata tz aad = Inr (meta, aadBytes)" "resolve (rq_Key req) s w = Some (Inr (i, k), s1, w1)"
    "ne_newIV e (w_ext w1) = (Inr iv, x)" "seal_value A s1 ec meta aadBytes i k iv = Inr b" "e' = put_state n s1 e" "w' = w1\<lparr>w_ext := x\<rparr>"
proof -
  obtain n s where p: "profileFor (rq_Profile req) e = Inr (n, s)"
    using assms by (cases "profileFor (rq_Profile req) e") (auto simp: encrypt_def)
  have nk: "rq_Key req \<noteq> NoKey" using assms p by (auto simp: encrypt_def)
  obtain ec where ec: "EncodeValue tz (rq_Value req) = Inr ec"
    using assms p nk by (cases "EncodeValue tz (rq_Value req)") (auto simp: encrypt_def)
  obtain meta aadBytes where m: "aad_metadata tz aad = Inr (meta, aadBytes)"
    using assms p nk ec by (cases "aad_metadata tz aad") (auto simp: encrypt_def)
  obtain r s1 w1 where r: "resolve (rq_Key req) s w = Some (r, s1, w1)"
    using assms p nk ec m by (cases "resolve (rq_Key req) s w") (auto simp: encrypt_def)
  obtain i k where ik: "r = Inr (i, k)" using assms p nk ec m r by (cases r) (auto simp: encrypt_def)
  obtain q x where q: "ne_newIV e (w_ext w1) = (q, x)" by fastforce
  have q': "ne_newIV (put_state n s1 e) (w_ext w1) = (q, x)" using q by (simp add: put_state_def)
  obtain iv where iv: "q = Inr iv" using assms p nk ec m r ik q' by (cases q) (auto simp: encrypt_def)
  have "seal_value A s1 ec meta aadBytes i k iv = Inr b" "e' = put_state n s1 e" "w' = w1\<lparr>w_ext := x\<rparr>"
    using assms p nk ec m r ik q' iv by (simp_all add: encrypt_def)
  then show ?thesis using that p ec m r ik q iv by blast
qed

locale key_stores =
  fixes svc :: "string \<Rightarrow> 'r keyService" and repo :: "string \<Rightarrow> 'r keyRepository"
    and I :: "key_logs \<Rightarrow> 'r \<Rightarrow> bool" and R :: "'r \<Rightarrow> 'r \<Rightarrow> bool"
  assumes stores: "key_store (svc n) (repo n) (\<lambda>h. I (H(n := h)))"
    and others: "I H x \<Longrightarrow> R x x' \<Longrightarrow> \<exists>H'. logs_le H H' \<and> I H' x'"
begin

lemma resolve_all:
  assumes "all_served svc repo I H (e, w)" "map_of (ne_profiles e) n = Some s"
  obtains r s' w' where "resolve ref s w = Some (r, s', w')" "all_served svc repo I H (put_state n s' e, w')" "kept s s'"
    "\<And>j k. r = Inr (j, k) \<Longrightarrow> H n j = Some k" "\<And>i j k. ref = KeyID i \<Longrightarrow> r = Inr (j, k) \<Longrightarrow> j = i"
proof -
  obtain r s' w' where r: "resolve ref s w = Some (r, s', w')" "served (svc n) (repo n) (\<lambda>h. I (H(n := h))) (H n) s' w'" "kept s s'"
    "\<And>j k. r = Inr (j, k) \<Longrightarrow> H n j = Some k" "\<And>i j k. ref = KeyID i \<Longrightarrow> r = Inr (j, k) \<Longrightarrow> j = i"
    using key_store.resolve_served [OF stores all_servedD(3) [OF assms]] by metis
  show ?thesis by (rule that [OF r(1) _ r(3-5)]) (use put_state_served(1) [OF assms r(3) map_le_refl r(2)] in simp_all)
qed

lemma newIV_all: "all_served svc repo I H (e, w) \<Longrightarrow> ne_newIV e (w_ext w) = (r, x) \<Longrightarrow> all_served svc repo I H (e, w\<lparr>w_ext := x\<rparr>)"
  using all_servedD(6) [of svc repo I H e w H "w_ext w"] all_servedD(4) [of svc repo I H e w]
    all_served_world [of svc repo I H e w H "w\<lparr>w_ext := x\<rparr>"]
  by simp

lemma encrypt_all:
  assumes "all_served svc repo I H (e, w)" "encrypt A tz req aad e w = Some (r, e', w')"
  shows "all_served svc repo I H (e', w')"
proof (cases "\<exists>n s. profileFor (rq_Profile req) e = Inr (n, s)")
  case False
  then show ?thesis using assms by (cases "profileFor (rq_Profile req) e") (auto simp: encrypt_def)
next
  case True
  then obtain n s where p: "profileFor (rq_Profile req) e = Inr (n, s)" by blast
  obtain r1 s1 w1 where 1: "resolve (rq_Key req) s w = Some (r1, s1, w1)" "all_served svc repo I H (put_state n s1 e, w1)"
    using resolve_all [OF assms(1) profileFor_state [OF p]] by metis
  have iv: "all_served svc repo I H (put_state n s1 e, w1\<lparr>w_ext := x\<rparr>)" if "ne_newIV e (w_ext w1) = (q, x)" for q x
    using newIV_all [OF 1(2)] that by (simp add: put_state_def)
  show ?thesis
    using assms p 1 iv
    by (auto simp: encrypt_def Let_def put_state_def split: sum.splits prod.splits if_splits)
qed

lemma decrypt_all:
  assumes "all_served svc repo I H (e, w)" "decrypt A tz b given e w = Some (r, e', w')"
  shows "all_served svc repo I H (e', w')"
proof (cases "\<exists>st n s. DecodeEncrypted b = Some (Inr st) \<and> profileFor (en_ProfileName st) e = Inr (n, s)")
  case False
  then have "e' = e \<and> w' = w"
    using assms(2) by (cases "DecodeEncrypted b"; cases "the (DecodeEncrypted b)")
      (auto simp: decrypt_def split: sum.splits)
  then show ?thesis using assms(1) by simp
next
  case True
  then obtain st n s where p: "DecodeEncrypted b = Some (Inr st)" "profileFor (en_ProfileName st) e = Inr (n, s)" by blast
  have 1: "\<exists>r1 s1 w1. resolve (KeyID i) s w = Some (r1, s1, w1) \<and> all_served svc repo I H (put_state n s1 e, w1)" for i
    using resolve_all [OF assms(1) profileFor_state [OF p(2)]] by metis
  show ?thesis
  proof (cases "Metadata_String (en_Metadata st) ''key_id''")
    case None
    then show ?thesis using assms p by (auto simp: decrypt_def split: option.splits)
  next
    case (Some i)
    obtain r1 s1 w1 where "resolve (KeyID i) s w = Some (r1, s1, w1)" "all_served svc repo I H (put_state n s1 e, w1)"
      using 1 by blast
    then show ?thesis
      using assms p Some by (auto simp: decrypt_def Let_def bind_eq_Some_conv split: option.splits sum.splits)
  qed
qed

lemma keys_all:
  assumes "all_served svc repo I H (e, w)" "map_of (ne_profiles e) n = Some s" "key_exec c s w = Some (s', w')"
  shows "\<exists>H'. logs_le H H' \<and> all_served svc repo I H' (put_state n s' e, w')"
proof -
  let ?I = "\<lambda>h. I (H(n := h))"
  have sv: "served (svc n) (repo n) ?I (H n) s w" using all_servedD(3) [OF assms(1,2)] .
  note ops = key_store.Create_served [OF stores sv] key_store.setAlias_served [OF stores sv]
    key_store.DeleteByID_served [OF stores sv] key_store.KM_FindByAlias_served [OF stores sv]
  have "\<exists>h. kept s s' \<and> H n \<subseteq>\<^sub>m h \<and> served (svc n) (repo n) ?I h s' w'"
  proof (cases c)
    case (KCreate a opts)
    with ops(1) [of a opts] assms(3) show ?thesis by fastforce
  next
    case (KFind a)
    with ops(4) [of a] assms(3) have "kept s s' \<and> served (svc n) (repo n) ?I (H n) s' w'" by (fastforce simp: kept_def)
    then show ?thesis using map_le_refl by blast
  next
    case (KSetAlias i a)
    with ops(2) [of i a] assms(3) sv have "kept s s' \<and> served (svc n) (repo n) ?I (H n) s' w'"
      by (fastforce simp: KM_SetAlias_def kept_def split: if_splits)
    then show ?thesis using map_le_refl by blast
  next
    case (KDeleteAlias i)
    with ops(2) [of i "[]"] assms(3) have "kept s s' \<and> served (svc n) (repo n) ?I (H n) s' w'" by (fastforce simp: KM_DeleteAlias_def)
    then show ?thesis using map_le_refl by blast
  next
    case (KDeleteByID i)
    with ops(3) [of i] assms(3) have "kept s s' \<and> served (svc n) (repo n) ?I (H n) s' w'" by fastforce
    then show ?thesis using map_le_refl by blast
  qed
  then show ?thesis using put_state_served [OF assms(1,2)] by blast
qed

lemma enc_step_all:
  assumes "all_served svc repo I H ew" "enc_step A tz R ew ew'"
  shows "\<exists>H'. logs_le H H' \<and> all_served svc repo I H' ew'"
  using assms(2,1)
proof cases
  case (es_call c e w e' w')
  show ?thesis
  proof (cases c)
    case (EEncrypt req aad)
    then have "all_served svc repo I H ew'" using es_call assms(1) encrypt_all [of H e w A tz req aad _ e' w'] by auto
    then show ?thesis using logs_le_refl by blast
  next
    case (EDecrypt b given)
    then have "all_served svc repo I H ew'" using es_call assms(1) decrypt_all [of H e w A tz b given _ e' w'] by auto
    then show ?thesis using logs_le_refl by blast
  next
    case (EKeys name c1)
    show ?thesis
    proof (cases "profileFor name e")
      case (Inl err)
      then have "ew' = ew" using EKeys es_call by simp
      then show ?thesis using assms(1) logs_le_refl by blast
    next
      case (Inr ns)
      obtain n s where ns: "ns = (n, s)" by (cases ns)
      obtain s' where "key_exec c1 s w = Some (s', w')" "e' = put_state n s' e"
        using EKeys es_call Inr ns by (cases "key_exec c1 s w") auto
      then show ?thesis using keys_all [OF _ profileFor_state] es_call(1,2) assms(1) Inr ns by blast
    qed
  qed
next
  case (es_others w w' e)
  then obtain H' where "logs_le H H'" "I H' (w_ext w')" using others all_servedD(4) assms(1) by blast
  then show ?thesis using es_others all_served_world assms(1) by blast
qed

lemma enc_steps_all:
  "(enc_step A tz R)\<^sup>*\<^sup>* ew ew' \<Longrightarrow> all_served svc repo I H ew \<Longrightarrow> \<exists>H'. logs_le H H' \<and> all_served svc repo I H' ew'"
proof (induction rule: rtranclp_induct)
  case (step y z)
  then show ?case using enc_step_all logs_le_trans by meson
qed (use logs_le_refl in blast)

end

text \<open>The profiles stay: a call only replaces the state of one of them.\<close>

lemma names_put [simp]: "ne_names (put_state n s e) = ne_names e"
  by (simp add: put_state_def)

lemma encrypt_names: "encrypt A tz req aad e w = Some (r, e', w') \<Longrightarrow> ne_names e' = ne_names e"
  unfolding encrypt_def Let_def
  by (auto split: sum.split_asm prod.split_asm if_split_asm Option.bind_split_asm)

lemma decrypt_names: "decrypt A tz b given e w = Some (r, e', w') \<Longrightarrow> ne_names e' = ne_names e"
  unfolding decrypt_def Let_def
  by (auto split: sum.split_asm prod.split_asm option.split_asm Option.bind_split_asm)

lemma enc_step_names: "enc_step A tz R ew ew' \<Longrightarrow> ne_names (fst ew') = ne_names (fst ew)"
proof (induction rule: enc_step.induct)
  case (es_call c e w e' w')
  then show ?case
    using encrypt_names [of A tz _ _ e w _ e' w'] decrypt_names [of A tz _ _ e w _ e' w']
    by (cases c) (auto split: sum.splits option.splits)
qed simp

lemma enc_steps_names: "(enc_step A tz R)\<^sup>*\<^sup>* ew ew' \<Longrightarrow> ne_names (fst ew') = ne_names (fst ew)"
  by (induction rule: rtranclp_induct) (auto dest: enc_step_names)

section \<open>A new encryption\<close>

text \<open>The profiles of the configuration use the services and the repositories.\<close>

fun envelope_of :: "'r profile \<Rightarrow> 'r envelopeProfile option" where
  "envelope_of (EnvelopeValue p) = Some p"
| "envelope_of (EnvelopePointer q) = q"
| "envelope_of OtherProfile = None"

definition configured :: "(string \<Rightarrow> 'r keyService) \<Rightarrow> (string \<Rightarrow> 'r keyRepository) \<Rightarrow> 'r profile list \<Rightarrow> bool" where
  "configured svc repo ps \<longleftrightarrow>
     list_all (\<lambda>p. case envelope_of p of
        None \<Rightarrow> True
      | Some q \<Rightarrow> ep_EncapsulationService q = Some (svc (ep_Name q)) \<and> ep_KeyRepository q = Some (repo (ep_Name q))) ps"

lemma new_state_served:
  assumes "profile_validate p = None" "ep_EncapsulationService p = Some svc" "ep_KeyRepository p = Some repo" "I H (w_ext w)"
  shows "served svc repo I H (new_state (withDefaults p)) w" "ep_Name (ps_profile (new_state (withDefaults p))) = ep_Name p" "ep_Name p \<noteq> []"
proof -
  have "0 \<le> ep_KeyCacheSize (withDefaults p)" "0 \<le> ep_KeyAliasIndexSize (withDefaults p)"
    using assms(1) by (auto simp: profile_validate_def withDefaults_def split: if_splits)
  then have "coherent H (new_state (withDefaults p))"
    by (simp add: coherent_def new_state_def New_ok) (simp add: Cache_New_def uses_def)
  then show "served svc repo I H (new_state (withDefaults p)) w"
    using assms(2-4) by (simp add: served_def new_state_def withDefaults_def)
  show "ep_Name (ps_profile (new_state (withDefaults p))) = ep_Name p" by (simp add: new_state_def withDefaults_def)
  show "ep_Name p \<noteq> []" using assms(1) by (auto simp: profile_validate_def)
qed

lemma add_profile_served:
  assumes "all_served svc repo I H (e, w)" "add_profile p e = Inr e'"
    and "ep_EncapsulationService p = Some (svc (ep_Name p))" "ep_KeyRepository p = Some (repo (ep_Name p))"
  shows "all_served svc repo I H (e', w)"
proof -
  let ?s = "new_state (withDefaults p)"
  have v: "profile_validate p = None"
    and e': "e' = e\<lparr>ne_profiles := map_put (ep_Name p) ?s (ne_profiles e), ne_names := ne_names e @ [ep_Name p]\<rparr>"
    using assms(2) by (auto simp: add_profile_def split: option.splits if_splits)
  note D = all_servedD [OF assms(1)]
  have "I (H(ep_Name p := H (ep_Name p))) (w_ext w)" using D(4) by simp
  note N = new_state_served [where I = "\<lambda>h. I (H(ep_Name p := h))" and w = w, OF v assms(3,4) this]
  have "n \<noteq> [] \<and> ep_Name (ps_profile s) = n \<and> served (svc n) (repo n) (\<lambda>h. I (H(n := h))) (H n) s w"
    if "map_of (ne_profiles e') n = Some s" for n s
    using that D(1-3) [of n s] N by (cases "n = ep_Name p") (auto simp: e')
  moreover have "set (ne_names e') = dom (map_of (ne_profiles e'))" using D(5) by (auto simp: e')
  moreover have "I H' x \<Longrightarrow> I H' (snd (ne_newIV e' x))" for H' x using D(6) by (simp add: e')
  ultimately show ?thesis using D(4) unfolding all_served_def fst_conv snd_conv by blast
qed

lemma add_profiles_served:
  assumes "all_served svc repo I H (e, w)" "add_profiles ps e = Inr e'" "configured svc repo ps"
  shows "all_served svc repo I H (e', w)"
  using assms
proof (induction ps arbitrary: e)
  case (Cons p ps)
  have c: "configured svc repo ps" using Cons.prems(3) by (simp add: configured_def)
  obtain q e1 where q: "envelope_of p = Some q" "add_profile q e = Inr e1" "add_profiles ps e1 = Inr e'"
    using Cons.prems(2) by (cases p) (auto split: sum.splits option.splits)
  have "all_served svc repo I H (e1, w)"
    using add_profile_served [OF Cons.prems(1) q(2)] Cons.prems(3) q(1) by (simp add: configured_def)
  then show ?case using Cons.IH q(3) c by blast
qed simp

lemma New_served:
  assumes "Encryption_New rand ps = Inr e" "configured svc repo ps" "I H (w_ext w)" "\<And>H n x. I H x \<Longrightarrow> I H (snd (rand n x))"
  shows "all_served svc repo I H (e, w)"
proof -
  let ?e0 = "\<lparr>ne_profiles = [], ne_names = [], ne_newIV = NewIV rand\<rparr>"
  have "I H x \<Longrightarrow> I H (snd (NewIV rand x))" for H x
    using assms(4) [of H x 12] by (auto simp: NewIV_def split: prod.splits sum.splits)
  then have "all_served svc repo I H (?e0, w)" using assms(3) by (simp add: all_served_def)
  moreover obtain e1 where e1: "add_profiles ps ?e0 = Inr e1" "e = e1\<lparr>ne_names := sort (ne_names e1)\<rparr>"
    using assms(1) by (auto simp: Encryption_New_def split: sum.splits)
  ultimately have "all_served svc repo I H (e1, w)" using add_profiles_served assms(2) by blast
  then show ?thesis by (simp add: all_served_def e1(2))
qed

section \<open>Encrypted properties come back\<close>

lemma value_bytes_short:
  assumes "gcm_law A" "EncodeEncrypted (sealed A n ec meta aadBytes i k iv) = Inr b" "aad_meta meta aadBytes tz aad"
  shows "length (en_Bytes ec) \<le> length b"
proof -
  have wf: "wf_map (en_Metadata (sealed A n ec meta aadBytes i k iv))" using assms(3) by (simp add: sealed_def aad_meta_def)
  have "b = 0x01 # encrypted_bytes (sealed A n ec meta aadBytes i k iv)"
    using EncodeEncrypted_ok(2) [OF assms(2) _ _ wf] by (simp add: sealed_def)
  moreover have "length (en_Bytes ec) \<le> length (en_CipherOutput (sealed A n ec meta aadBytes i k iv))"
    using assms(1) by (simp add: gcm_law_def sealed_def)
  ultimately show ?thesis using cipher_shorter [of "sealed A n ec meta aadBytes i k iv"] by simp
qed

text \<open>
  C1: a property that was encrypted is decrypted again. An encryption is made from profiles; then any calls encrypt,
  decrypt, create keys, move or delete their aliases or delete keys, while the clock goes on and other programs use the
  repositories. When a value is encrypted in between, with or without additional authenticated data, then after any
  further history decrypting its bytes - against the data that is stored with them or against the same data, given
  again - resolves the id of the key with which the value was encrypted: when that fails, with the error that is
  returned, the key could not be found or unwrapped; when it succeeds, by a cache or by the repository, the result is
  the value. What is assumed of AES-GCM, of the services and of the repositories is what their documentation states.
\<close>

theorem encrypted_property_roundtrip:
  assumes stores: "key_stores svc repo I R" and law: "gcm_law A"
    and new: "Encryption_New rand ps = Inr e0" "configured svc repo ps" "I H (w_ext w0)" "\<forall>H n x. I H x \<longrightarrow> I H (snd (rand n x))"
    and before: "(enc_step A tz R)\<^sup>*\<^sup>* (e0, w0) (e, w)"
    and val: "stands_for tz (rq_Value req) v" "wire_ok tz True True v"
    and enc: "encrypt A tz req aad e w = Some (Inr b, e1, w1)" "length b + 256 < 2 ^ 32"
    and after: "(enc_step A tz R)\<^sup>*\<^sup>* (e1, w1) (e2, w2)"
    and given: "given = None \<or> (given = Some aad \<and> aad \<noteq> GNil)"
  shows "\<exists>n s i k s' w' s2 r s3 w3.
    profileFor (rq_Profile req) e = Inr (n, s) \<and> resolve (rq_Key req) s w = Some (Inr (i, k), s', w') \<and>
    map_of (ne_profiles e2) n = Some s2 \<and> resolve (KeyID i) s2 w2 = Some (r, s3, w3) \<and>
    decrypt A tz b given e2 w2 = Some (case r of Inl err \<Rightarrow> Inl err | Inr _ \<Rightarrow> Inr v, put_state n s3 e2, w3)"
proof -
  have "all_served svc repo I H (e0, w0)" using New_served [where I = I and H = H and w = w0, OF new(1-3)] new(4) by blast
  then obtain H1 where H1: "all_served svc repo I H1 (e, w)" using key_stores.enc_steps_all [OF stores before] by blast
  obtain n s ec meta aadBytes i k s1 w' iv x where p: "profileFor (rq_Profile req) e = Inr (n, s)" "EncodeValue tz (rq_Value req) = Inr ec"
    "aad_metadata tz aad = Inr (meta, aadBytes)" "resolve (rq_Key req) s w = Some (Inr (i, k), s1, w')"
    "ne_newIV e (w_ext w') = (Inr iv, x)" "seal_value A s1 ec meta aadBytes i k iv = Inr b" "e1 = put_state n s1 e"
    using encrypt_path [OF enc(1)] by metis
  note st = profileFor_state [OF p(1)]
  have ks: "kept s s1" "H1 n i = Some k"
    using key_stores.resolve_all [OF stores H1 st, of "rq_Key req"] p(4) by (auto elim!: key_stores.resolve_all [OF stores H1 st, of "rq_Key req"])
  have n1: "ep_Name (ps_profile s1) = n" using ks(1) all_servedD(2) [OF H1 st] by (simp add: kept_def)
  have b: "length iv = 12" "EncodeEncrypted (sealed A n ec meta aadBytes i k iv) = Inr b" using seal_value_sealed [OF p(6)] n1 by simp_all
  note meta = aad_metadata_ok [OF p(3)]
  have "all_served svc repo I H1 (e1, w1)" using key_stores.encrypt_all [OF stores H1 enc(1)] .
  then obtain H2 where H2: "logs_le H1 H2" "all_served svc repo I H2 (e2, w2)" using key_stores.enc_steps_all [OF stores after] by blast
  have "n \<in> set (ne_names e2)"
    using enc_steps_names [OF after] p(7) all_servedD(5) [OF H1] st by auto
  then obtain s2 where s2: "map_of (ne_profiles e2) n = Some s2" using all_servedD(5) [OF H2(2)] by auto
  obtain r s3 w3 where r: "resolve (KeyID i) s2 w2 = Some (r, s3, w3)"
    "\<And>j k. r = Inr (j, k) \<Longrightarrow> H2 n j = Some k" "\<And>j k. r = Inr (j, k) \<Longrightarrow> j = i"
    using key_stores.resolve_all [OF stores H2(2) s2, of "KeyID i"] by metis
  have key: "k' = k" if "r = Inr (j, k')" for j k'
    using r(2,3) [OF that] ks(2) H2(1) by (force simp: logs_le_def map_le_def dom_def)
  have "DecodeValue tz (en_Bytes ec) (en_TypeName ec) (en_Baseline ec) = Some (Inr v)"
    using decode_encoded [OF val p(2), of "[]"] enc(2) value_bytes_short [OF law b(2) meta]
    by (metis add_le_mono1 append_Nil2 le_less_trans)
  then obtain st where d: "DecodeEncrypted b = Some (Inr st)" "en_ProfileName st = n"
    "Metadata_Bytes (en_Metadata st) ''iv'' = Some iv" "Metadata_String (en_Metadata st) ''key_id'' = Some i"
    "aadFor tz st given = Inr aadBytes" "open_value A tz st iv aadBytes k = Some (Inr v)"
    using sealed_opened [OF law b(2,1) meta enc(2) _ given] by metis
  have pf: "profileFor n e2 = Inr (n, s2)" by (rule profileFor_name [OF H2(2) s2])
  have "decrypt A tz b given e2 w2 = Some (case r of Inl err \<Rightarrow> Inl err | Inr _ \<Rightarrow> Inr v, put_state n s3 e2, w3)"
    using d pf r(1) key by (cases r) (auto simp: decrypt_def Let_def)
  then show ?thesis using p(1,4) s2 r(1) by blast
qed

end
