(* ===== verification/KeyRepository.thy ===== *)
theory KeyRepository
  imports PropertyEncryptionProps
begin

text \<open>
  The repository in memory of the example src/neo4j/propertyencryption/encryption_example_test.go together with the
  local key encapsulation service meets the contract of key stores, for every source of random bytes and every number
  of profiles: the histories of property encryption are not empty.
\<close>

section \<open>The repository\<close>

record memory =
  mr_keys :: "(string \<times> keyRecord) list"
  mr_aliases :: "(string \<times> string) list"
  mr_nextID :: nat
  mr_tape :: nat      \<comment> \<open>how often random bytes have been read\<close>

definition key_name :: "nat \<Rightarrow> string" where
  "key_name n = ''key-'' @ digits n"

definition zero_record :: keyRecord where
  "zero_record = \<lparr>kr_ID = [], kr_Alias = [], kr_Encapsulation = [], kr_Metadata = []\<rparr>"

definition mem_FindByID :: "string \<Rightarrow> memory \<Rightarrow> (encerr + keyRecord) \<times> memory" where
  "mem_FindByID i r = (case map_of (mr_keys r) i of None \<Rightarrow> Inl ErrKeyNotFound | Some rc \<Rightarrow> Inr rc, r)"

definition mem_FindByAlias :: "string \<Rightarrow> memory \<Rightarrow> (encerr + keyRecord) \<times> memory" where
  "mem_FindByAlias a r =
     (case map_of (mr_aliases r) a of
        None \<Rightarrow> Inl ErrKeyNotFound
      | Some i \<Rightarrow> Inr (case map_of (mr_keys r) i of None \<Rightarrow> zero_record | Some rc \<Rightarrow> rc), r)"

definition mem_Create :: "string \<Rightarrow> bytes \<Rightarrow> (string \<times> string) list \<Rightarrow> memory \<Rightarrow> (encerr + keyRecord) \<times> memory" where
  "mem_Create a capsule meta r =
     (if map_of (mr_aliases r) a \<noteq> None then (Inl (FmtError (''alias '' @ a @ '' is in use'')), r)
      else
        (let r = r\<lparr>mr_nextID := Suc (mr_nextID r)\<rparr>;
             rc = \<lparr>kr_ID = key_name (mr_nextID r), kr_Alias = a, kr_Encapsulation = capsule, kr_Metadata = meta\<rparr>;
             r = r\<lparr>mr_keys := map_put (kr_ID rc) rc (mr_keys r)\<rparr>
         in (Inr rc, if a \<noteq> [] then r\<lparr>mr_aliases := map_put a (kr_ID rc) (mr_aliases r)\<rparr> else r)))"

definition mem_SetAlias :: "string \<Rightarrow> string \<Rightarrow> memory \<Rightarrow> encerr option \<times> memory" where
  "mem_SetAlias i a r =
     (case map_of (mr_keys r) i of
        None \<Rightarrow> (Some ErrKeyNotFound, r)
      | Some rc \<Rightarrow>
          if map_of (mr_aliases r) a \<noteq> None \<and> map_of (mr_aliases r) a \<noteq> Some i then (Some (FmtError (''alias '' @ a @ '' is in use'')), r)
          else
            (let r = r\<lparr>mr_aliases := map_del (kr_Alias rc) (mr_aliases r), mr_keys := map_put i (rc\<lparr>kr_Alias := a\<rparr>) (mr_keys r)\<rparr>
             in (None, if a \<noteq> [] then r\<lparr>mr_aliases := map_put a i (mr_aliases r)\<rparr> else r)))"

definition mem_DeleteByID :: "string \<Rightarrow> memory \<Rightarrow> encerr option \<times> memory" where
  "mem_DeleteByID i r =
     (case map_of (mr_keys r) i of
        None \<Rightarrow> (Some ErrKeyNotFound, r)
      | Some rc \<Rightarrow> (None, r\<lparr>mr_keys := map_del i (mr_keys r), mr_aliases := map_del (kr_Alias rc) (mr_aliases r)\<rparr>))"

text \<open>A profile has a memory of its own; an operation acts on that.\<close>

definition on_mem :: "string \<Rightarrow> (memory \<Rightarrow> 'a \<times> memory) \<Rightarrow> (string \<Rightarrow> memory) \<Rightarrow> 'a \<times> (string \<Rightarrow> memory)" where
  "on_mem n f x = (case f (x n) of (r, m) \<Rightarrow> (r, x(n := m)))"

definition mem_repo :: "string \<Rightarrow> (string \<Rightarrow> memory) keyRepository" where
  "mem_repo n =
     \<lparr>FindByID = (\<lambda>i. on_mem n (mem_FindByID i)), FindByAlias = (\<lambda>a. on_mem n (mem_FindByAlias a)),
      CreateKey = (\<lambda>a c m. on_mem n (mem_Create a c m)), SetAlias = (\<lambda>i a. on_mem n (mem_SetAlias i a)),
      DeleteByID = (\<lambda>i. on_mem n (mem_DeleteByID i))\<rparr>"

text \<open>Random bytes: any outcome of each reading.\<close>

definition tape_rand :: "(nat \<Rightarrow> nat \<Rightarrow> encerr + bytes) \<Rightarrow> string \<Rightarrow> (string \<Rightarrow> memory) rng" where
  "tape_rand f n len = on_mem n (\<lambda>m. (f len (mr_tape m), m\<lparr>mr_tape := Suc (mr_tape m)\<rparr>))"

definition local_svc :: "aead \<Rightarrow> (nat \<Rightarrow> nat \<Rightarrow> encerr + bytes) \<Rightarrow> bytes \<Rightarrow> string \<Rightarrow> (string \<Rightarrow> memory) keyService" where
  "local_svc A f kek n = localService A (tape_rand f n) kek"

section \<open>The contract holds\<close>

lemma digits_value: "foldl (\<lambda>v c. v * 10 + (of_char c - 48)) 0 (digits n) = (n :: nat)"
proof (induction n rule: digits.induct)
  case (1 n)
  show ?case
  proof (cases "n < 10")
    case True
    then show ?thesis by (subst digits.simps) simp
  next
    case False
    then show ?thesis using "1.IH" by (subst digits.simps) (simp add: of_char_of)
  qed
qed

lemma key_name_inj: "key_name n = key_name m \<Longrightarrow> n = m"
  unfolding key_name_def using digits_value by (metis same_append_eq)

text \<open>The key that a record of the local service yields.\<close>

definition unwraps :: "aead \<Rightarrow> bytes \<Rightarrow> keyRecord \<Rightarrow> bytes \<Rightarrow> bool" where
  "unwraps A kek rc k \<longleftrightarrow> (\<exists>encoded iv. map_of (kr_Metadata rc) ''iv'' = Some encoded \<and> b64_decode encoded = Some iv \<and>
     DataKey_Open A kek iv (kr_Encapsulation rc) [] = Inr k)"

lemma Local_Decapsulate_unwraps:
  "Local_Decapsulate A kek (kr_Encapsulation rc) (kr_Metadata rc) y = (Inr k, y') \<Longrightarrow> unwraps A kek rc k"
  by (auto simp: Local_Decapsulate_def unwraps_def split: option.splits sum.splits)

lemma Local_Decapsulate_state: "snd (Local_Decapsulate A kek c m y) = y"
  by (auto simp: Local_Decapsulate_def split: option.split sum.split)

text \<open>A memory agrees with a log: what is stored yields what was logged, and only ids that were assigned are logged.\<close>

definition mem_ok :: "aead \<Rightarrow> bytes \<Rightarrow> (string \<rightharpoonup> bytes) \<Rightarrow> memory \<Rightarrow> bool" where
  "mem_ok A kek h m \<longleftrightarrow>
     (\<forall>i rc. map_of (mr_keys m) i = Some rc \<longrightarrow> kr_ID rc = i \<and> (\<forall>k. unwraps A kek rc k \<longrightarrow> h i = Some k)) \<and>
     (\<forall>i k. h i = Some k \<longrightarrow> (\<exists>n \<le> mr_nextID m. i = key_name n))"

definition mems_ok :: "aead \<Rightarrow> bytes \<Rightarrow> key_logs \<Rightarrow> (string \<Rightarrow> memory) \<Rightarrow> bool" where
  "mems_ok A kek H x \<longleftrightarrow> (\<forall>n. mem_ok A kek (H n) (x n))"

lemma mem_okD:
  assumes "mem_ok A kek h m"
  shows "map_of (mr_keys m) i = Some rc \<Longrightarrow> kr_ID rc = i" "map_of (mr_keys m) i = Some rc \<Longrightarrow> unwraps A kek rc k \<Longrightarrow> h i = Some k"
    "h i = Some k \<Longrightarrow> \<exists>n \<le> mr_nextID m. i = key_name n"
  using assms unfolding mem_ok_def by blast+

lemma zero_record_locked: "\<not> unwraps A kek zero_record k"
  by (simp add: unwraps_def zero_record_def)

lemma mem_ok_tape [simp]: "mem_ok A kek h (m\<lparr>mr_tape := t\<rparr>) = mem_ok A kek h m"
  by (simp add: mem_ok_def)

lemma FindByAlias_record:
  assumes "mem_ok A kek h m" "mem_FindByAlias a m = (Inr rc, m')" "unwraps A kek rc k"
  shows "h (kr_ID rc) = Some k"
  using assms zero_record_locked mem_okD [OF assms(1)]
  by (auto simp: mem_FindByAlias_def split: option.splits)

lemma SetAlias_ok:
  assumes "mem_ok A kek h m" "mem_SetAlias i a m = (r, m')"
  shows "mem_ok A kek h m'"
proof -
  have u: "unwraps A kek (rc\<lparr>kr_Alias := a\<rparr>) k = unwraps A kek rc k" for rc a k by (simp add: unwraps_def)
  show ?thesis
    using assms unfolding mem_ok_def
    by (auto simp: mem_SetAlias_def Let_def u split: option.splits if_splits)
qed

lemma DeleteByID_ok:
  assumes "mem_ok A kek h m" "mem_DeleteByID i m = (r, m')"
  shows "mem_ok A kek h m'"
  using assms unfolding mem_ok_def
  by (auto simp: mem_DeleteByID_def split: option.splits if_splits)


lemma Create_ok:
  assumes "mem_ok A kek h m" "mem_Create a c md m = (q, m')" "\<And>rc k'. kr_Encapsulation rc = c \<Longrightarrow> kr_Metadata rc = md \<Longrightarrow> unwraps A kek rc k' \<Longrightarrow> k' = k"
  shows "\<exists>h'. h \<subseteq>\<^sub>m h' \<and> mem_ok A kek h' m' \<and> (\<forall>rc. q = Inr rc \<longrightarrow> h' (kr_ID rc) = Some k)"
proof (cases "map_of (mr_aliases m) a")
  case (Some i)
  then have "m' = m" "\<exists>e. q = Inl e" using assms(2) by (auto simp: mem_Create_def)
  then show ?thesis using assms(1) by (intro exI [of _ h]) auto
next
  case None
  let ?i = "key_name (Suc (mr_nextID m))" and ?rc = "\<lparr>kr_ID = key_name (Suc (mr_nextID m)), kr_Alias = a, kr_Encapsulation = c, kr_Metadata = md\<rparr>"
  have m': "q = Inr ?rc" "mr_keys m' = map_put ?i ?rc (mr_keys m)" "mr_nextID m' = Suc (mr_nextID m)"
    using None assms(2) by (auto simp: mem_Create_def Let_def)
  have fresh: "h ?i = None"
  proof (cases "h ?i")
    case (Some k)
    then obtain n where "n \<le> mr_nextID m" "?i = key_name n" using mem_okD(3) [OF assms(1)] by blast
    then show ?thesis using key_name_inj [of "Suc (mr_nextID m)" n] by simp
  qed
  let ?h = "h(?i \<mapsto> k)"
  have "kr_ID rc = i \<and> (\<forall>k'. unwraps A kek rc k' \<longrightarrow> ?h i = Some k')" if "map_of (mr_keys m') i = Some rc" for i rc
  proof (cases "i = ?i")
    case True
    then have "rc = ?rc" using that by (simp add: m')
    then show ?thesis using assms(3) [of rc] True by auto
  next
    case False
    then have "map_of (mr_keys m) i = Some rc" using that by (simp add: m')
    then show ?thesis using mem_okD(1,2) [OF assms(1)] False by auto
  qed
  moreover have "\<exists>n \<le> mr_nextID m'. i = key_name n" if "?h i = Some k'" for i k'
    using that mem_okD(3) [OF assms(1), of i] m'(3) by (cases "i = ?i") (auto intro: le_SucI)
  ultimately have "mem_ok A kek ?h m'" unfolding mem_ok_def by blast
  moreover have "h \<subseteq>\<^sub>m ?h" using fresh by (auto simp: map_le_def)
  ultimately show ?thesis using m'(1) by (intro exI [of _ ?h]) simp
qed

lemma mems_okD: "mems_ok A kek H x \<Longrightarrow> mem_ok A kek (H n) (x n)"
  by (simp add: mems_ok_def)

lemma mems_ok_at: "mems_ok A kek (H(n := h)) x \<Longrightarrow> mem_ok A kek h' m \<Longrightarrow> mems_ok A kek (H(n := h')) (x(n := m))"
  by (auto simp: mems_ok_def split: if_splits)

lemma on_mem_split: "on_mem n f x = (r, x') \<longleftrightarrow> (\<exists>m. f (x n) = (r, m) \<and> x' = x(n := m))"
  by (auto simp: on_mem_def split: prod.split)

lemma rand_ok: "mems_ok A kek H x \<Longrightarrow> mems_ok A kek H (snd (tape_rand f n len x))"
  by (auto simp: tape_rand_def on_mem_def mems_ok_def)

text \<open>What the local service wraps, it unwraps.\<close>

lemma Encapsulate_local:
  assumes "gcm_law A" "Local_Encapsulate A (tape_rand f n) kek opts x = (r, x')" "mems_ok A kek H x"
  shows "mems_ok A kek H x'"
    and "r = Inr res \<Longrightarrow> kr_Encapsulation rc = er_Encapsulation res \<Longrightarrow> kr_Metadata rc = er_Metadata res \<Longrightarrow>
      unwraps A kek rc k \<Longrightarrow> k = er_Key res"
proof -
  obtain d x1 where d: "NewDEK (tape_rand f n) x = (d, x1)" by fastforce
  obtain v x2 where v: "NewIV (tape_rand f n) x1 = (v, x2)" by fastforce
  have x1: "mems_ok A kek H x1"
    using d rand_ok [OF assms(3), of f n 32] by (auto simp: NewDEK_def split: prod.splits sum.splits)
  have "mems_ok A kek H x2"
    using v rand_ok [OF x1, of f n 12] by (auto simp: NewIV_def split: prod.splits sum.splits)
  then show "mems_ok A kek H x'" using assms(2) d v x1 by (auto simp: Local_Encapsulate_def split: sum.splits)
  show "k = er_Key res"
    if "r = Inr res" "kr_Encapsulation rc = er_Encapsulation res" "kr_Metadata rc = er_Metadata res" "unwraps A kek rc k"
    using assms(1,2) that d v b64_roundtrip
    by (auto simp: Local_Encapsulate_def DataKey_Seal_def DataKey_Open_def unwraps_def gcm_law_def split: sum.splits if_splits)
qed

lemma local_key_store:
  assumes "gcm_law A"
  shows "key_store (local_svc A f kek n) (mem_repo n) (\<lambda>h. mems_ok A kek (H(n := h)))"
proof
  fix h x i r x'
  assume ok: "mems_ok A kek (H(n := h)) x" and "FindByID (mem_repo n) i x = (r, x')"
  then have x': "x' = x" and r: "r = fst (mem_FindByID i (x n))"
    by (auto simp: mem_repo_def on_mem_split mem_FindByID_def)
  have m: "mem_ok A kek h (x n)" using mems_okD [OF ok, of n] by simp
  have "h i = Some k" if "r = Inr rc" "Decapsulate (local_svc A f kek n) (kr_Encapsulation rc) (kr_Metadata rc) y = (Inr k, y')" for rc y k y'
    using that r mem_okD(2) [OF m] Local_Decapsulate_unwraps [of A kek rc y k y']
    by (auto simp: mem_FindByID_def local_svc_def localService_def split: option.splits)
  then show "mems_ok A kek (H(n := h)) x' \<and> (\<forall>rc y k y'. r = Inr rc \<longrightarrow> mems_ok A kek (H(n := h)) y \<longrightarrow>
      Decapsulate (local_svc A f kek n) (kr_Encapsulation rc) (kr_Metadata rc) y = (Inr k, y') \<longrightarrow> h i = Some k)"
    using ok x' by blast
next
  fix h x a r x'
  assume ok: "mems_ok A kek (H(n := h)) x" and "FindByAlias (mem_repo n) a x = (r, x')"
  then have x': "x' = x" and r: "mem_FindByAlias a (x n) = (r, x n)"
    by (auto simp: mem_repo_def on_mem_split mem_FindByAlias_def)
  have m: "mem_ok A kek h (x n)" using mems_okD [OF ok, of n] by simp
  have "h (kr_ID rc) = Some k" if "r = Inr rc" "Decapsulate (local_svc A f kek n) (kr_Encapsulation rc) (kr_Metadata rc) y = (Inr k, y')" for rc y k y'
    using that r FindByAlias_record [OF m] Local_Decapsulate_unwraps [of A kek rc y k y']
    by (auto simp: local_svc_def localService_def)
  then show "mems_ok A kek (H(n := h)) x' \<and> (\<forall>rc y k y'. r = Inr rc \<longrightarrow> mems_ok A kek (H(n := h)) y \<longrightarrow>
      Decapsulate (local_svc A f kek n) (kr_Encapsulation rc) (kr_Metadata rc) y = (Inr k, y') \<longrightarrow> h (kr_ID rc) = Some k)"
    using ok x' by blast
next
  fix h x c m r' x'
  assume "mems_ok A kek (H(n := h)) x" "Decapsulate (local_svc A f kek n) c m x = (r', x')"
  then show "mems_ok A kek (H(n := h)) x'"
    using Local_Decapsulate_state [of A kek c m x] by (simp add: local_svc_def localService_def)
next
  fix h x opts r'' x'
  assume "mems_ok A kek (H(n := h)) x" "Encapsulate (local_svc A f kek n) opts x = (r'', x')"
  then show "mems_ok A kek (H(n := h)) x'"
    using Encapsulate_local(1) [OF assms] by (auto simp: local_svc_def localService_def)
next
  fix h x opts res x' a q x2
  assume ok: "mems_ok A kek (H(n := h)) x" and e: "Encapsulate (local_svc A f kek n) opts x = (Inr res, x')"
    and c: "CreateKey (mem_repo n) a (er_Encapsulation res) (er_Metadata res) x' = (q, x2)"
  have le: "Local_Encapsulate A (tape_rand f n) kek opts x = (Inr res, x')" using e by (simp add: local_svc_def localService_def)
  have ok': "mems_ok A kek (H(n := h)) x'" by (rule Encapsulate_local(1) [OF assms le ok])
  obtain m where m: "mem_Create a (er_Encapsulation res) (er_Metadata res) (x' n) = (q, m)" "x2 = x'(n := m)"
    using c by (auto simp: mem_repo_def on_mem_split)
  have "mem_ok A kek h (x' n)" using mems_okD [OF ok', of n] by simp
  from Create_ok [OF this m(1), of "er_Key res"] obtain h' where h': "h \<subseteq>\<^sub>m h'" "mem_ok A kek h' m"
    "\<forall>rc. q = Inr rc \<longrightarrow> h' (kr_ID rc) = Some (er_Key res)"
    using Encapsulate_local(2) [OF assms le ok refl] by blast
  then show "\<exists>h'. h \<subseteq>\<^sub>m h' \<and> mems_ok A kek (H(n := h')) x2 \<and> (\<forall>rc. q = Inr rc \<longrightarrow> h' (kr_ID rc) = Some (er_Key res))"
    using mems_ok_at [OF ok' h'(2)] m(2) by blast
next
  fix h x i a o1 x'
  assume ok: "mems_ok A kek (H(n := h)) x" and "SetAlias (mem_repo n) i a x = (o1, x')"
  then obtain m where "mem_SetAlias i a (x n) = (o1, m)" "x' = x(n := m)" by (auto simp: mem_repo_def on_mem_split)
  then show "mems_ok A kek (H(n := h)) x'" using mems_ok_at [OF ok SetAlias_ok] mems_okD [OF ok, of n] by simp
next
  fix h x i o1 x'
  assume ok: "mems_ok A kek (H(n := h)) x" and "DeleteByID (mem_repo n) i x = (o1, x')"
  then obtain m where "mem_DeleteByID i (x n) = (o1, m)" "x' = x(n := m)" by (auto simp: mem_repo_def on_mem_split)
  then show "mems_ok A kek (H(n := h)) x'" using mems_ok_at [OF ok DeleteByID_ok] mems_okD [OF ok, of n] by simp
qed


text \<open>Other programs with the same key encryption key create keys, set aliases and delete keys.\<close>

definition mem_others :: "aead \<Rightarrow> (nat \<Rightarrow> nat \<Rightarrow> encerr + bytes) \<Rightarrow> bytes \<Rightarrow> (string \<Rightarrow> memory) \<Rightarrow> (string \<Rightarrow> memory) \<Rightarrow> bool" where
  "mem_others A f kek x x' \<longleftrightarrow>
     x' = x \<or>
     (\<exists>n opts res x1 a q. Encapsulate (local_svc A f kek n) opts x = (Inr res, x1) \<and>
        CreateKey (mem_repo n) a (er_Encapsulation res) (er_Metadata res) x1 = (q, x')) \<or>
     (\<exists>n i a q. SetAlias (mem_repo n) i a x = (q, x')) \<or> (\<exists>n i q. DeleteByID (mem_repo n) i x = (q, x'))"

lemma others_ok:
  assumes "gcm_law A" "mems_ok A kek H x" "mem_others A f kek x x'"
  shows "\<exists>H'. logs_le H H' \<and> mems_ok A kek H' x'"
proof -
  have store: "key_store (local_svc A f kek n) (mem_repo n) (\<lambda>h. mems_ok A kek (H(n := h)))" for n
    by (rule local_key_store [OF assms(1)])
  have ok: "mems_ok A kek (H(n := H n)) x" for n using assms(2) by simp
  have "mems_ok A kek H x'" if "SetAlias (mem_repo n) i a x = (q, x')" for n i a q
    using key_store.alias_set [OF store [of n], where H = "H n", OF ok that] by simp
  moreover have "mems_ok A kek H x'" if "DeleteByID (mem_repo n) i x = (q, x')" for n i q
    using key_store.deleted [OF store [of n], where H = "H n", OF ok that] by simp
  moreover have "\<exists>H'. logs_le H H' \<and> mems_ok A kek H' x'"
    if "Encapsulate (local_svc A f kek n) opts x = (Inr res, x1)" "CreateKey (mem_repo n) a (er_Encapsulation res) (er_Metadata res) x1 = (q, x')"
    for n opts res x1 a q
  proof -
    note prems = that
    obtain h where h: "H n \<subseteq>\<^sub>m h" "mems_ok A kek (H(n := h)) x'"
      using key_store.created [OF store [of n], where H = "H n", OF ok prems] by blast
    then have "logs_le H (H(n := h))" by (simp add: logs_le_def)
    with h(2) show ?thesis by blast
  qed
  ultimately show ?thesis
    using assms(2,3) logs_le_refl unfolding mem_others_def by blast
qed

lemma local_key_stores:
  "gcm_law A \<Longrightarrow> key_stores (local_svc A f kek) mem_repo (mems_ok A kek) (mem_others A f kek)"
  by (intro key_stores.intro local_key_store others_ok)

section \<open>An instance\<close>

text \<open>In place of AES-GCM, a function that only appends a tag; it meets what is relied on.\<close>

definition null_gcm :: aead where
  "null_gcm = \<lparr>gcm_Seal = (\<lambda>k iv p a. p @ replicate 16 0), gcm_Open = (\<lambda>k iv c a. if length c < 16 then None else Some (take (length c - 16) c))\<rparr>"

lemma null_gcm_law: "gcm_law null_gcm"
  by (simp add: gcm_law_def null_gcm_def)

interpretation mem_store: key_store "local_svc null_gcm f kek n" "mem_repo n" "\<lambda>h. mems_ok null_gcm kek (H(n := h))" for f kek n H
  by (rule local_key_store [OF null_gcm_law])

interpretation mem_stores: key_stores "local_svc null_gcm f kek" mem_repo "mems_ok null_gcm kek" "mem_others null_gcm f kek" for f kek
  by (rule local_key_stores [OF null_gcm_law])

definition demo_tape :: "nat \<Rightarrow> nat \<Rightarrow> encerr + bytes" where
  "demo_tape len t = Inr (replicate len (word_of_nat t))"

definition demo_kek :: bytes where
  "demo_kek = replicate 32 1"

definition demo_profile :: "(string \<Rightarrow> memory) envelopeProfile" where
  "demo_profile =
     \<lparr>ep_Name = ''pii'', ep_EncapsulationService = Some (local_svc null_gcm demo_tape demo_kek ''pii''), ep_KeyRepository = Some (mem_repo ''pii''),
      ep_KeyCacheTTL = 0, ep_KeyCacheSize = 0, ep_KeyAliasIndexTTL = 0, ep_KeyAliasIndexSize = 0, ep_DisableKeyCache = False\<rparr>"

definition demo_world :: "(string \<Rightarrow> memory) world" where
  "demo_world = \<lparr>w_clock = int, w_ext = (\<lambda>n. \<lparr>mr_keys = [], mr_aliases = [], mr_nextID = 0, mr_tape = 0\<rparr>)\<rparr>"

definition demo_state :: "(string \<Rightarrow> memory) profileState" where
  "demo_state = \<lparr>ps_profile = withDefaults demo_profile, ps_aliasIndex = Cache_New 15000000000 100, ps_keyCache = Cache_New 900000000000 100\<rparr>"

definition demo_new :: "(string \<Rightarrow> memory) encryption" where
  "demo_new = \<lparr>ne_profiles = [(''pii'', demo_state)], ne_names = [''pii''], ne_newIV = NewIV (tape_rand demo_tape ''pii'')\<rparr>"

lemma demo_New: "Encryption_New (tape_rand demo_tape ''pii'') [EnvelopeValue demo_profile] = Inr demo_new"
  by (simp add: demo_new_def demo_state_def Encryption_New_def add_profile_def demo_profile_def profile_validate_def new_state_def withDefaults_def)

text \<open>A cache with one entry, and what it answers.\<close>

definition one_entry :: "int \<Rightarrow> int \<Rightarrow> string \<Rightarrow> 'v \<Rightarrow> int \<Rightarrow> 'v cache" where
  "one_entry ttl n k v t =
     \<lparr>c_ttl = ttl, c_maxSize = n, c_entries = [k \<mapsto> 0], c_order = [(0, \<lparr>ce_key = k, ce_value = v, ce_expires = t\<rparr>)], c_alloc = 1\<rparr>"

lemma Put_new: "1 \<le> n \<Longrightarrow> Cache_Put k v (Cache_New ttl n) ck = Some (one_entry ttl n k v (ck 0 + ttl), later ck)"
  by (simp add: Cache_Put_def purgeExpired_def Cache_New_def find_element_def evict.simps one_entry_def Let_def)

lemma Get_one: "ck 0 < t \<Longrightarrow> Cache_Get k (one_entry ttl n k v t) ck = (Some v, one_entry ttl n k v t, later ck)"
  by (simp add: Cache_Get_def one_entry_def find_element_def hasExpired_def to_front_def)

text \<open>A key is created under an alias.\<close>

definition demo_record :: keyRecord where
  "demo_record = \<lparr>kr_ID = ''key-1'', kr_Alias = ''current'', kr_Encapsulation = replicate 32 0 @ replicate 16 0, kr_Metadata = [(''iv'', b64_encode (replicate 12 1))]\<rparr>"

definition demo_keyed :: "(string \<Rightarrow> memory) profileState" where
  "demo_keyed = demo_state\<lparr>ps_aliasIndex := one_entry 15000000000 100 ''current'' ''key-1'' 15000000000,
     ps_keyCache := one_entry 900000000000 100 ''key-1'' (replicate 32 0) 900000000001\<rparr>"

definition demo_later :: "nat \<Rightarrow> (string \<Rightarrow> memory) world" where
  "demo_later t = \<lparr>w_clock = (\<lambda>n. int (t + n)), w_ext = (w_ext demo_world)(''pii'' :=
     \<lparr>mr_keys = [(''key-1'', demo_record)], mr_aliases = [(''current'', ''key-1'')], mr_nextID = 1, mr_tape = 2\<rparr>)\<rparr>"

lemma key_name_1: "key_name (Suc 0) = ''key-1''"
  by code_simp

lemma demo_create: "KM_Create ''current'' [] demo_state demo_world = Some (Inr (''key-1'', ''current''), demo_keyed, demo_later 2)"
  by (simp add: KM_Create_def on_service_def on_repo_def demo_state_def withDefaults_def demo_profile_def local_svc_def localService_def
      Local_Encapsulate_def NewDEK_def NewIV_def tape_rand_def on_mem_def demo_tape_def demo_world_def DataKey_Seal_def null_gcm_def
      NewDataKey_def mem_repo_def mem_Create_def Let_def key_name_1 putAlias_def putKey_def Put_new demo_keyed_def demo_later_def
      demo_record_def later_def fun_eq_iff)


text \<open>A number is encrypted with that key.\<close>

definition demo_req :: encryptRequest where
  "demo_req = \<lparr>rq_Value = GInt 7, rq_Key = KeyAlias ''current'', rq_Profile = []\<rparr>"

definition demo_encryption :: "(string \<Rightarrow> memory) encryption" where
  "demo_encryption = put_state ''pii'' demo_keyed demo_new"

definition demo_meta :: "(string \<times> meta_value) list" where
  "demo_meta = [(''aad'', MetaBytes [0x82, 0x63, 0x31]), (''aad_encoding_scheme_major'', MetaInt 1), (''aad_encoding_scheme_minor'', MetaInt 0)]"

definition demo_encrypted :: encrypted where
  "demo_encrypted = sealed null_gcm ''pii'' \<lparr>en_Bytes = [7], en_TypeName = ''INTEGER'', en_Baseline = Implemented\<rparr> demo_meta
     [0x82, 0x63, 0x31] ''key-1'' (replicate 32 0) (replicate 12 2)"

definition demo_bytes :: bytes where
  "demo_bytes = projr (EncodeEncrypted demo_encrypted)"

lemma demo_encoded:
  "EncodeValue no_tz (GInt 7) = Inr \<lparr>en_Bytes = [7], en_TypeName = ''INTEGER'', en_Baseline = Implemented\<rparr>"
  "aad_metadata no_tz (GString ''c1'') = Inr (demo_meta, [0x82, 0x63, 0x31])"
  "EncodeEncrypted demo_encrypted = Inr demo_bytes" "length demo_bytes < 400"
  by code_simp+

lemma demo_resolved:
  "t < 15000000 \<Longrightarrow> resolve (KeyAlias ''current'') demo_keyed (demo_later t) = Some (Inr (''key-1'', replicate 32 0), demo_keyed, demo_later (t + 2))"
  "t < 15000000 \<Longrightarrow> resolve (KeyID ''key-1'') demo_keyed ((demo_later t)\<lparr>w_ext := x\<rparr>) =
     Some (Inr (''key-1'', replicate 32 0), demo_keyed, (demo_later (t + 1))\<lparr>w_ext := x\<rparr>)"
  by (simp_all add: resolveByAlias_def cached_alias_def resolveByID_def getAlias_def getKey_def demo_keyed_def demo_later_def
      Get_one later_def fun_eq_iff)

lemma demo_encrypt:
  "\<exists>x. encrypt null_gcm no_tz demo_req (GString ''c1'') demo_encryption (demo_later 2) = Some (Inr demo_bytes, demo_encryption, (demo_later 4)\<lparr>w_ext := x\<rparr>)"
proof -
  have p: "profileFor [] demo_encryption = Inr (''pii'', demo_keyed)" by (simp add: profileFor_def demo_encryption_def put_state_def demo_new_def)
  have e: "put_state ''pii'' demo_keyed demo_encryption = demo_encryption" by (simp add: demo_encryption_def put_state_def demo_new_def)
  obtain x where iv: "ne_newIV demo_encryption (w_ext (demo_later 4)) = (Inr (replicate 12 2), x)"
    by (simp add: demo_encryption_def put_state_def demo_new_def NewIV_def tape_rand_def on_mem_def demo_tape_def demo_later_def)
  have "ep_Name (ps_profile demo_keyed) = ''pii''" by (simp add: demo_keyed_def demo_state_def withDefaults_def demo_profile_def)
  then have "seal_value null_gcm demo_keyed \<lparr>en_Bytes = [7], en_TypeName = ''INTEGER'', en_Baseline = Implemented\<rparr> demo_meta
      [0x82, 0x63, 0x31] ''key-1'' (replicate 32 0) (replicate 12 2) = Inr demo_bytes"
    using demo_encoded(3) by (simp add: seal_value_def DataKey_Seal_def demo_encrypted_def sealed_def)
  with p e iv show ?thesis
    by (intro exI [of _ x]) (simp add: encrypt_def demo_req_def demo_encoded demo_resolved del: resolve.simps)
qed

theorem encrypted_property_roundtrip_witness:
  "\<exists>e1 w1 e2 w2. encrypt null_gcm no_tz demo_req (GString ''c1'') demo_encryption (demo_later 2) = Some (Inr demo_bytes, e1, w1) \<and>
     decrypt null_gcm no_tz demo_bytes (Some (GString ''c1'')) e1 w1 = Some (Inr (VInt 7), e2, w2)"
proof -
  obtain x where enc: "encrypt null_gcm no_tz demo_req (GString ''c1'') demo_encryption (demo_later 2) = Some (Inr demo_bytes, demo_encryption, (demo_later 4)\<lparr>w_ext := x\<rparr>)"
    using demo_encrypt by blast
  have conf: "configured (local_svc null_gcm demo_tape demo_kek) mem_repo [EnvelopeValue demo_profile]"
    by (simp add: configured_def demo_profile_def)
  have ok: "mems_ok null_gcm demo_kek (\<lambda>_. Map.empty) (w_ext demo_world)" by (simp add: mems_ok_def mem_ok_def demo_world_def)
  have rnd: "\<forall>H n x. mems_ok null_gcm demo_kek H x \<longrightarrow> mems_ok null_gcm demo_kek H (snd (tape_rand demo_tape ''pii'' n x))" using rand_ok by blast
  have "enc_exec null_gcm no_tz (EKeys ''pii'' (KCreate ''current'' [])) demo_new demo_world = Some (demo_encryption, demo_later 2)"
    by (simp add: profileFor_def demo_new_def demo_create demo_encryption_def)
  then have before: "(enc_step null_gcm no_tz (mem_others null_gcm demo_tape demo_kek))\<^sup>*\<^sup>* (demo_new, demo_world) (demo_encryption, demo_later 2)"
    by (blast intro: es_call)
  have v: "stands_for no_tz (rq_Value demo_req) (VInt 7)" "wire_ok no_tz True True (VInt 7)"
    by (simp_all add: demo_req_def stands_for.intros(4))
  from encrypted_property_roundtrip [OF local_key_stores [OF null_gcm_law] null_gcm_law demo_New conf ok rnd before v enc _
      rtranclp.rtrancl_refl, of "Some (GString ''c1'')"] demo_encoded(4)
  obtain n s i k s2 r s3 w3 where d: "profileFor (rq_Profile demo_req) demo_encryption = Inr (n, s)"
    "\<exists>s' w'. resolve (rq_Key demo_req) s (demo_later 2) = Some (Inr (i, k), s', w')"
    "map_of (ne_profiles demo_encryption) n = Some s2" "resolve (KeyID i) s2 ((demo_later 4)\<lparr>w_ext := x\<rparr>) = Some (r, s3, w3)"
    "decrypt null_gcm no_tz demo_bytes (Some (GString ''c1'')) demo_encryption ((demo_later 4)\<lparr>w_ext := x\<rparr>) =
       Some (case r of Inl err \<Rightarrow> Inl err | Inr _ \<Rightarrow> Inr (VInt 7), put_state n s3 demo_encryption, w3)"
    by auto
  have "n = ''pii''" "s = demo_keyed"
    using d(1) by (auto simp: demo_req_def profileFor_def demo_encryption_def put_state_def demo_new_def)
  then have "s2 = demo_keyed" "i = ''key-1''"
    using d(2,3) demo_resolved(1) [of 2] by (auto simp: demo_req_def demo_encryption_def put_state_def demo_new_def)
  then have "\<exists>jk. r = Inr jk" using d(4) demo_resolved(2) [of 4 x] by auto
  then show ?thesis using enc d(5) by auto
qed

end
