(* ===== verification/Go_Float.thy ===== *)
theory Go_Float
  imports Mapping_Struct
begin

text \<open>
  The floats of Go that the mapping of structs needs, as bit patterns: the conversion of an integer and the tests
  whether a float64 is a float32.
\<close>

section \<open>Bits\<close>

text \<open>The float64 of an integer that has one: sign, biased exponent and the bits after the leading one.\<close>

definition float_bits :: "int \<Rightarrow> 64 word" where
  "float_bits n =
     (if n = 0 then 0
      else let u = nat \<bar>n\<bar>; k = bit_len u - 1;
               mant = (if k \<le> 52 then u * 2 ^ (52 - k) else u div 2 ^ (k - 52))
           in word_of_nat ((if n < 0 then 2 ^ 63 else 0) + (k + 1023) * 2 ^ 52 + (mant - 2 ^ 52)))"

text \<open>The bits of a float64 without its sign; for numbers they are ordered as the numbers.\<close>

definition mag :: "64 word \<Rightarrow> nat" where
  "mag f = unat f mod 2 ^ 63"

text \<open>reflect.Value.OverflowFloat: between the greatest float32 and the greatest float64.\<close>

definition OverflowFloat :: "nat \<Rightarrow> 64 word \<Rightarrow> bool" where
  "OverflowFloat w f \<longleftrightarrow> w = 32 \<and> 0x47EFFFFFE0000000 < mag f \<and> mag f \<le> 0x7FEFFFFFFFFFFFFF"

text \<open>
  \<^verbatim>\<open>float64(float32(f)) == f\<close>: zero, infinity, or a number whose last bits, those for which a float32 has no place,
  are zero. It is false for a NaN.
\<close>

definition float32_exact :: "64 word \<Rightarrow> bool" where
  "float32_exact f =
     (let e = mag f div 2 ^ 52; m = mag f mod 2 ^ 52
      in mag f = 0 \<or> mag f = 0x7FF0000000000000 \<or>
         (874 \<le> e \<and> e \<le> 1150 \<and> 2 ^ (29 + (897 - e)) dvd m))"

section \<open>The bits of an integer\<close>

lemma bit_len_bounds:
  assumes "0 < u"
  shows "2 ^ (bit_len u - 1) \<le> u" "u < 2 ^ bit_len u" "0 < bit_len u"
proof -
  show "u < 2 ^ bit_len u" using bit_len_le [of u "bit_len u"] by simp
  then show p: "0 < bit_len u" using assms by (cases "bit_len u") auto
  from p have "\<not> bit_len u \<le> bit_len u - 1" by simp
  then show "2 ^ (bit_len u - 1) \<le> u" unfolding bit_len_le by (simp only: not_less)
qed

lemma scaled_range:
  fixes u :: nat
  assumes "2 ^ k \<le> u" "u < 2 ^ (k + 1)" "m = (if k \<le> N then u * 2 ^ (N - k) else u div 2 ^ (k - N))"
  shows "2 ^ N \<le> m" "m < 2 ^ (N + 1)"
proof -
  have "2 ^ N \<le> m \<and> m < 2 ^ (N + 1)"
  proof (cases "k \<le> N")
    case True
    have e: "2 ^ k * 2 ^ (N - k) = (2 :: nat) ^ N" "2 ^ (k + 1) * 2 ^ (N - k) = (2 :: nat) ^ (N + 1)"
      using True by (simp_all flip: power_add)
    have "2 ^ k * 2 ^ (N - k) \<le> u * 2 ^ (N - k)" "u * 2 ^ (N - k) < 2 ^ (k + 1) * 2 ^ (N - k)"
      using assms(1,2) by simp_all
    then show ?thesis unfolding e using assms(3) True by simp
  next
    case False
    have e: "(2 :: nat) ^ k = 2 ^ N * 2 ^ (k - N)" "(2 :: nat) ^ (k + 1) = 2 ^ (N + 1) * 2 ^ (k - N)"
      using False by (simp_all flip: power_add)
    have "2 ^ N \<le> u div 2 ^ (k - N)" "u div 2 ^ (k - N) < 2 ^ (N + 1)"
      using assms(1,2) unfolding e by (simp_all add: less_eq_div_iff_mult_less_eq div_less_iff_less_mult)
    then show ?thesis using assms(3) False by simp
  qed
  then show "2 ^ N \<le> m" "m < 2 ^ (N + 1)" by simp_all
qed

text \<open>The leading bits of a positive integer: 53 of them.\<close>

definition mant_of :: "nat \<Rightarrow> nat" where
  "mant_of u = (if bit_len u - 1 \<le> 52 then u * 2 ^ (52 - (bit_len u - 1)) else u div 2 ^ (bit_len u - 1 - 52))"

lemma mant_of_range:
  assumes "0 < u"
  shows "2 ^ 52 \<le> mant_of u" "mant_of u < 2 ^ (52 + 1)"
proof -
  have "u < 2 ^ (bit_len u - 1 + 1)" using bit_len_bounds(2,3) [OF assms] by simp
  note scaled_range [OF bit_len_bounds(1) [OF assms] this mant_of_def]
  then show "2 ^ 52 \<le> mant_of u" "mant_of u < 2 ^ (52 + 1)" .
qed

lemma float_bits_unat:
  assumes "n \<noteq> 0" "u = nat \<bar>n\<bar>" "bit_len u \<le> 64"
  shows "unat (float_bits n) = (if n < 0 then 2 ^ 63 else 0) + (bit_len u + 1022) * 2 ^ 52 + (mant_of u - 2 ^ 52)"
proof -
  have u: "0 < u" using assms by simp
  note r = mant_of_range [OF u] bit_len_bounds [OF u]
  let ?x = "(if n < 0 then 2 ^ 63 else 0) + (bit_len u + 1022) * 2 ^ 52 + (mant_of u - 2 ^ 52) :: nat"
  have "(bit_len u + 1022) * 2 ^ 52 \<le> 1086 * (2 :: nat) ^ 52" using assms(3) by simp
  moreover have "mant_of u - 2 ^ 52 < 2 ^ 52" using r(2) by simp
  ultimately have "?x < 2 ^ LENGTH(64)" by simp
  then have x: "unat (word_of_nat ?x :: 64 word) = ?x" by (simp only: unat_of_nat mod_less)
  have "float_bits n = word_of_nat ((if n < 0 then 2 ^ 63 else 0) + (bit_len u - 1 + 1023) * 2 ^ 52 + (mant_of u - 2 ^ 52))"
    unfolding float_bits_def mant_of_def Let_def assms(2) [symmetric] using assms(1) by (simp only: if_False)
  also have "bit_len u - 1 + 1023 = bit_len u + 1022" using r(5) by simp
  finally show ?thesis using x by (simp only:)
qed

lemma mag_parts:
  assumes "mag f = e * 2 ^ 52 + m" "m < 2 ^ 52"
  shows "mag f div 2 ^ 52 = e" "mag f mod 2 ^ 52 = m"
  using assms by simp_all

lemma mag_float_bits:
  assumes "n \<noteq> 0" "u = nat \<bar>n\<bar>" "bit_len u \<le> 64"
  shows "mag (float_bits n) div 2 ^ 52 = bit_len u + 1022" "mag (float_bits n) mod 2 ^ 52 = mant_of u - 2 ^ 52"
    "2 ^ 63 \<le> unat (float_bits n) \<longleftrightarrow> n < 0"
proof -
  let ?y = "(bit_len u + 1022) * 2 ^ 52 + (mant_of u - 2 ^ 52) :: nat"
  have "0 < u" using assms by simp
  note r = mant_of_range [OF this]
  have m: "mant_of u - 2 ^ 52 < 2 ^ 52" using r by (simp add: less_diff_conv2)
  moreover have "(bit_len u + 1022) * 2 ^ 52 \<le> 1086 * (2 :: nat) ^ 52" using assms(3) by simp
  ultimately have y: "?y < 2 ^ 63" by simp
  have x: "unat (float_bits n) = (if n < 0 then 2 ^ 63 else 0) + ?y"
    using float_bits_unat [OF assms] by (simp only: add.assoc)
  have "((if b then K else 0) + z) mod K = z" if "z < K" for b and z K :: nat using that by simp
  from this [OF y] have "mag (float_bits n) = ?y" unfolding mag_def x .
  from mag_parts [OF this m]
  show "mag (float_bits n) div 2 ^ 52 = bit_len u + 1022" "mag (float_bits n) mod 2 ^ 52 = mant_of u - 2 ^ 52" .
  show "2 ^ 63 \<le> unat (float_bits n) \<longleftrightarrow> n < 0" unfolding x using y by (cases "n < 0") simp_all
qed

text \<open>An integer of at most 53 significant bits keeps them.\<close>

lemma mant_of_shift:
  assumes "0 < m" "bit_len m \<le> 53"
  shows "mant_of (m * 2 ^ t) = m * 2 ^ (53 - bit_len m)"
proof -
  have b: "bit_len (m * 2 ^ t) = bit_len m + t" using assms(1) by (rule bit_len_shift)
  have p: "0 < bit_len m" using bit_len_bounds [OF assms(1)] by simp
  show ?thesis
  proof (cases "bit_len m + t - 1 \<le> 52")
    case True
    then have "t + (52 - (bit_len m + t - 1)) = 53 - bit_len m" using p by simp
    then have "m * 2 ^ t * 2 ^ (52 - (bit_len m + t - 1)) = m * 2 ^ (53 - bit_len m)"
      by (simp only: mult.assoc power_add [symmetric])
    then show ?thesis using True by (simp only: mant_of_def b if_True)
  next
    case False
    then have "53 - bit_len m + (bit_len m + t - 1 - 52) = t" using p assms(2) by simp
    then have "m * 2 ^ t = m * 2 ^ (53 - bit_len m) * 2 ^ (bit_len m + t - 1 - 52)"
      by (simp only: mult.assoc power_add [symmetric])
    then have "m * 2 ^ t div 2 ^ (bit_len m + t - 1 - 52) = m * 2 ^ (53 - bit_len m)"
      by (metis nonzero_mult_div_cancel_right power_not_zero zero_neq_numeral)
    then show ?thesis using False by (simp only: mant_of_def b if_False)
  qed
qed

lemma intFitsFloat_odd:
  assumes "intFitsFloat n w" "w = 32 \<or> w = 64" "n \<noteq> 0"
  obtains m t where "nat \<bar>sint n\<bar> = m * 2 ^ t" "0 < m" "bit_len m \<le> (if w = 32 then 24 else 53)" "bit_len (nat \<bar>sint n\<bar>) \<le> 64"
proof -
  define u where "u = unat (if sint n < 0 then - n else n)"
  have "int u = \<bar>sint n\<bar>" unfolding u_def by (rule unat_abs)
  then have u: "nat \<bar>sint n\<bar> = u" by linarith
  have "sint n \<noteq> 0" using assms(3) by (metis signed_eq_0_iff)
  with u have pos: "0 < u" by linarith
  obtain m where m: "odd m" "u = m * 2 ^ trailing_zeros u" using odd_part [OF pos] by blast
  then have "0 < m" by (cases m) auto
  have "bit_len u - trailing_zeros u \<le> (if w = 32 then 24 else 53)"
    using assms by (auto simp: intFitsFloat_def u_def Let_def)
  moreover have "bit_len u = bit_len m + trailing_zeros u" by (subst m(2)) (rule bit_len_shift [OF \<open>0 < m\<close>])
  ultimately have "bit_len m \<le> (if w = 32 then 24 else 53)" by simp
  moreover have "u < 2 ^ 64" unfolding u_def using unsigned_less [of "if sint n < 0 then - n else n"] by simp
  then have "bit_len u \<le> 64" by (simp only: bit_len_le)
  ultimately show thesis using that [of m "trailing_zeros u"] m(2) u \<open>0 < m\<close> by simp
qed

lemma intFitsFloat32_exact:
  assumes "intFitsFloat n 32"
  shows "float32_exact (float_bits (sint n))"
proof (cases "n = 0")
  case True
  then show ?thesis by (simp add: float_bits_def float32_exact_def mag_def)
next
  case False
  obtain m t where m: "nat \<bar>sint n\<bar> = m * 2 ^ t" "0 < m" "bit_len m \<le> 24" "bit_len (nat \<bar>sint n\<bar>) \<le> 64"
    using intFitsFloat_odd [OF assms _ False] by auto
  have nz: "sint n \<noteq> 0" using False by (metis signed_eq_0_iff)
  note parts = mag_float_bits [OF nz refl m(4)]
  have "53 - bit_len m = 29 + (24 - bit_len m)" using m(3) by simp
  then have "mant_of (nat \<bar>sint n\<bar>) = m * 2 ^ (24 - bit_len m) * 2 ^ 29"
    using mant_of_shift [of m t] m by (simp only: power_add mult_ac)
  then have "2 ^ 29 dvd mant_of (nat \<bar>sint n\<bar>)" by simp
  moreover have "(2 :: nat) ^ 29 dvd 2 ^ 52" by (rule le_imp_power_dvd) simp
  ultimately have "2 ^ 29 dvd mant_of (nat \<bar>sint n\<bar>) - 2 ^ 52" by (rule dvd_diff_nat)
  moreover have "897 - (bit_len (nat \<bar>sint n\<bar>) + 1022) = 0" by simp
  ultimately show ?thesis
    using m(4) unfolding float32_exact_def Let_def parts(1,2) by simp
qed

end
