(* ===== verification/Decode_Struct.thy ===== *)
theory Decode_Struct
  imports Go_Float
begin

text \<open>
  Filling user structs from records: MapToStruct of src/neo4j/internal/mapping/mapping.go with assign, assignSlice,
  assignMap and assignNumeric, and As and sourceOf of src/neo4j/mapping.go. A Go type is a tree: a recursive struct
  type is unfolded as deep as the value that it meets. What reflect changes in place is the value that a function
  returns; after an error the destination is not looked at, as As drops it. The order in which a range loop meets
  the keys of a map is an argument.
\<close>

unbundle bit_operations_syntax

section \<open>Types and values of the destination\<close>

text \<open>
  TInt and TUint carry their width in bits; the types stand for the predeclared ones and those defined over them, but
  TByte is uint8 itself. TUUID is any array of 16 bytes. Of a map type the flag says whether a string can be assigned to
  its keys. A struct has the name of its type, which is what makes a value of the driver assignable to it. TOther is a
  channel, a function, a complex number or another array.
\<close>

datatype gotype =
    TBool | TString | TInt nat | TUint nat | TByte | TFloat32 | TFloat64 | TAny | TIface string | TUUID | TPtr gotype
  | TSlice gotype | TMap bool gotype | TStruct string "tfield list" | TOther
and tfield = TField (tf_name: string) (tf_tag: string) (tf_exported: bool) (tf_anonymous: bool) (tf_type: gotype)

text \<open>A value of a record, or a byte of a byte array.\<close>

datatype raw = RV goval | RByte byte

text \<open>A float is its bit pattern, as a float64; \<open>DRaw\<close> is a struct that was assigned as a whole.\<close>

datatype dval =
    DBool bool | DStr string | DInt int | DUint nat | DFloat "64 word" | DIface "raw option" | DUUID bytes
  | DPtr "dval option" | DSlice "dval list option" | DMap "(string \<times> dval) list option"
  | DStruct "dval list" | DRaw goval | DOther

primrec zero_val :: "gotype \<Rightarrow> dval" and zero_field :: "tfield \<Rightarrow> dval" where
  "zero_val TBool = DBool False"
| "zero_val TString = DStr []"
| "zero_val (TInt n) = DInt 0"
| "zero_val (TUint n) = DUint 0"
| "zero_val TByte = DUint 0"
| "zero_val TFloat32 = DFloat 0"
| "zero_val TFloat64 = DFloat 0"
| "zero_val TAny = DIface None"
| "zero_val (TIface s) = DIface None"
| "zero_val TUUID = DUUID (replicate 16 0)"
| "zero_val (TPtr t) = DPtr None"
| "zero_val (TSlice t) = DSlice None"
| "zero_val (TMap k t) = DMap None"
| "zero_val (TStruct n fs) = DStruct (map zero_field fs)"
| "zero_val TOther = DOther"
| "zero_field (TField n tag ex an t) = zero_val t"

text \<open>A field as buildFields sees it: an anonymous struct, or pointer to one, is flattened.\<close>

fun sfield_of :: "tfield \<Rightarrow> sfield" where
  "sfield_of (TField n tag ex True (TStruct s fs)) = SField n tag ex (Some (map sfield_of fs))"
| "sfield_of (TField n tag ex True (TPtr (TStruct s fs))) = SField n tag ex (Some (map sfield_of fs))"
| "sfield_of (TField n tag ex an t) = SField n tag ex None"

section \<open>Numbers\<close>

datatype maperr = TypeErr | OverflowErr | PrecisionErr | PropertyErr string maperr | DestinationErr | NilRecordErr

definition OverflowInt :: "nat \<Rightarrow> int \<Rightarrow> bool" where
  "OverflowInt w n \<longleftrightarrow> \<not> (- (2 ^ (w - 1)) \<le> n \<and> n < 2 ^ (w - 1))"

definition OverflowUint :: "nat \<Rightarrow> int \<Rightarrow> bool" where
  "OverflowUint w n \<longleftrightarrow> \<not> n < 2 ^ w"

definition isNumeric :: "gotype \<Rightarrow> bool" where
  "isNumeric t = (case t of TInt _ \<Rightarrow> True | TUint _ \<Rightarrow> True | TByte \<Rightarrow> True | TFloat32 \<Rightarrow> True | TFloat64 \<Rightarrow> True | _ \<Rightarrow> False)"

text \<open>A byte is a uint8, which neither CanInt nor CanFloat holds of.\<close>

definition int_to :: "gotype \<Rightarrow> int64 \<Rightarrow> maperr + dval" where
  "int_to t n =
     (case t of
        TInt w \<Rightarrow> if OverflowInt w (sint n) then Inl OverflowErr else Inr (DInt (sint n))
      | TUint w \<Rightarrow> if sint n < 0 \<or> OverflowUint w (sint n) then Inl OverflowErr else Inr (DUint (nat (sint n)))
      | TByte \<Rightarrow> if sint n < 0 \<or> OverflowUint 8 (sint n) then Inl OverflowErr else Inr (DUint (nat (sint n)))
      | TFloat32 \<Rightarrow> if \<not> intFitsFloat n 32 then Inl PrecisionErr else Inr (DFloat (float_bits (sint n)))
      | TFloat64 \<Rightarrow> if \<not> intFitsFloat n 64 then Inl PrecisionErr else Inr (DFloat (float_bits (sint n)))
      | _ \<Rightarrow> Inl TypeErr)"

definition float_to :: "gotype \<Rightarrow> 64 word \<Rightarrow> maperr + dval" where
  "float_to t f =
     (case t of
        TFloat32 \<Rightarrow>
          if OverflowFloat 32 f then Inl OverflowErr
          else if \<not> float32_exact f then Inl PrecisionErr
          else Inr (DFloat f)
      | TFloat64 \<Rightarrow> if OverflowFloat 64 f then Inl OverflowErr else Inr (DFloat f)
      | _ \<Rightarrow> Inl TypeErr)"

definition assignNumeric :: "gotype \<Rightarrow> raw \<Rightarrow> maperr + dval" where
  "assignNumeric t src =
     (case src of RV (VInt n) \<Rightarrow> int_to t n | RV (VFloat f) \<Rightarrow> float_to t f | _ \<Rightarrow> Inl TypeErr)"

section \<open>Assigning values\<close>

text \<open>The struct type of a value of the driver; time.Time is that of VDateTime. The others are no structs.\<close>

definition struct_name :: "goval \<Rightarrow> string option" where
  "struct_name v =
     (case v of
        VNode _ \<Rightarrow> Some ''dbtype.Node'' | VRelationship _ \<Rightarrow> Some ''dbtype.Relationship'' | VPath _ _ \<Rightarrow> Some ''dbtype.Path''
      | VPoint2D _ _ _ \<Rightarrow> Some ''dbtype.Point2D'' | VPoint3D _ _ _ _ \<Rightarrow> Some ''dbtype.Point3D''
      | VDateTime _ \<Rightarrow> Some ''time.Time'' | VLocalDateTime _ \<Rightarrow> Some ''dbtype.LocalDateTime'' | VDate _ \<Rightarrow> Some ''dbtype.Date''
      | VTime _ \<Rightarrow> Some ''dbtype.Time'' | VLocalTime _ \<Rightarrow> Some ''dbtype.LocalTime'' | VDuration _ _ _ _ \<Rightarrow> Some ''dbtype.Duration''
      | VVectorF64 _ \<Rightarrow> Some ''dbtype.Vector[float64]'' | VVectorF32 _ \<Rightarrow> Some ''dbtype.Vector[float32]''
      | VVectorI8 _ \<Rightarrow> Some ''dbtype.Vector[int8]'' | VVectorI16 _ \<Rightarrow> Some ''dbtype.Vector[int16]''
      | VVectorI32 _ \<Rightarrow> Some ''dbtype.Vector[int32]'' | VVectorI64 _ \<Rightarrow> Some ''dbtype.Vector[int64]''
      | _ \<Rightarrow> None)"

definition propsOf :: "raw \<Rightarrow> gomap option" where
  "propsOf r =
     (case r of
        RV (VMap m) \<Rightarrow> Some m
      | RV (VNode n) \<Rightarrow> Some (node_Props n)
      | RV (VRelationship l) \<Rightarrow> Some (rel_Props l)
      | _ \<Rightarrow> None)"

text \<open>The types that are neither structs, slices nor maps; \<open>impl\<close> says which values implement an interface type.\<close>

definition assign_plain :: "(string \<Rightarrow> raw \<Rightarrow> bool) \<Rightarrow> gotype \<Rightarrow> raw \<Rightarrow> maperr + dval" where
  "assign_plain impl t r =
     (case (t, r) of
        (TAny, _) \<Rightarrow> Inr (DIface (Some r))
      | (TIface i, _) \<Rightarrow> if impl i r then Inr (DIface (Some r)) else Inl TypeErr
      | (TBool, RV (VBool b)) \<Rightarrow> Inr (DBool b)
      | (TString, RV (VStr s)) \<Rightarrow> Inr (DStr s)
      | (TUUID, RV (VUUID u)) \<Rightarrow> Inr (DUUID u)
      | (TByte, RByte b) \<Rightarrow> Inr (DUint (unat b))
      | _ \<Rightarrow> if isNumeric t then assignNumeric t r else Inl TypeErr)"

text \<open>
  fieldByIndex and what is done with the field: a nil embedded pointer is allocated on the way when it can be set;
  when it cannot, the field is skipped. \<^const>\<open>None\<close>: the index does not fit the value.
\<close>

fun with_field :: "(gotype \<Rightarrow> dval \<Rightarrow> (maperr + dval) option) \<Rightarrow> bool \<Rightarrow> gotype \<Rightarrow> dval \<Rightarrow> nat list \<Rightarrow> (maperr + dval) option" where
  "with_field f canSet t d [] = f t d"
| "with_field f canSet (TStruct s fs) (DStruct ds) (i # is) =
     do { tf \<leftarrow> at fs i; d \<leftarrow> at ds i;
          map_option (map_sum id (\<lambda>d'. DStruct (ds[i := d']))) (with_field f (tf_exported tf) (tf_type tf) d is) }"
| "with_field f canSet (TPtr t) (DPtr None) (i # is) =
     (if \<not> canSet then Some (Inr (DPtr None))
      else map_option (map_sum id (\<lambda>d'. DPtr (Some d'))) (with_field f canSet t (zero_val t) (i # is)))"
| "with_field f canSet (TPtr t) (DPtr (Some d)) (i # is) =
     map_option (map_sum id (\<lambda>d'. DPtr (Some d'))) (with_field f canSet t d (i # is))"
| "with_field f canSet t d (i # is) = None"

text \<open>The sizes on which assign recurses.\<close>

definition psize :: "gomap \<Rightarrow> nat" where
  "psize m = size_list (size_prod (\<lambda>_. 0) size) m"

definition rsize :: "raw \<Rightarrow> nat" where
  "rsize r = (case r of RV v \<Rightarrow> Suc (size v) | RByte b \<Rightarrow> 0)"

lemma psize_lookup: "map_of m k = Some v \<Longrightarrow> size v \<le> psize m"
  by (induction m) (auto simp: psize_def split: if_splits)

lemma psize_entry: "(k, v) \<in> set m \<Longrightarrow> size v \<le> psize m"
  by (induction m) (auto simp: psize_def)

lemma psize_props: "propsOf (RV v) = Some m \<Longrightarrow> psize m < size v"
proof (cases v)
  case (VNode n)
  then show "propsOf (RV v) = Some m \<Longrightarrow> psize m < size v" by (cases n) (simp add: propsOf_def psize_def)
next
  case (VRelationship l)
  then show "propsOf (RV v) = Some m \<Longrightarrow> psize m < size v" by (cases l) (simp add: propsOf_def psize_def)
qed (auto simp: propsOf_def psize_def)

lemma rsize_prop: "propsOf (RV w) = Some m \<Longrightarrow> map_of m k = Some v \<Longrightarrow> rsize (RV v) < rsize (RV w)"
  using psize_props psize_lookup by (fastforce simp: rsize_def)

lemma rsize_entry: "(k, v) \<in> set m \<Longrightarrow> rsize (RV v) < rsize (RV (VMap m))"
  using psize_entry psize_props [of "VMap m" m] by (fastforce simp: rsize_def propsOf_def)

text \<open>
  The elements of a slice value, and the entries of a map value. A slice of the driver is a []any or a []byte.
\<close>

definition elems_of :: "raw \<Rightarrow> raw list option" where
  "elems_of r = (case r of RV (VList vs) \<Rightarrow> Some (map RV vs) | RV (VBytes bs) \<Rightarrow> Some (map RByte bs) | _ \<Rightarrow> None)"

lemma goval_size_elem: "v \<in> set vs \<Longrightarrow> size v < Suc (size_list size vs)" for v :: goval
  by (induction vs) auto

lemma rsize_elem: "elems_of r = Some rs \<Longrightarrow> x \<in> set rs \<Longrightarrow> rsize x < rsize r"
  by (cases r; cases "case r of RV v \<Rightarrow> v | RByte _ \<Rightarrow> VNil") (auto simp: elems_of_def rsize_def goval_size_elem)

text \<open>Loops that stop at the first error.\<close>

fun mapM_res :: "('a \<Rightarrow> (maperr + 'b) option) \<Rightarrow> 'a list \<Rightarrow> (maperr + 'b list) option" where
  "mapM_res f [] = Some (Inr [])"
| "mapM_res f (x # xs) =
     do { r \<leftarrow> f x;
          case r of Inl e \<Rightarrow> Some (Inl e) | Inr y \<Rightarrow> map_option (map_sum id (\<lambda>ys. y # ys)) (mapM_res f xs) }"

fun foldM_res :: "('a \<Rightarrow> 'd \<Rightarrow> (maperr + 'd) option) \<Rightarrow> 'a list \<Rightarrow> 'd \<Rightarrow> (maperr + 'd) option" where
  "foldM_res f [] d = Some (Inr d)"
| "foldM_res f (x # xs) d = do { r \<leftarrow> f x d; case r of Inl e \<Rightarrow> Some (Inl e) | Inr d' \<Rightarrow> foldM_res f xs d' }"

lemma mapM_res_eq: "(\<And>x. x \<in> set xs \<Longrightarrow> f x = g x) \<Longrightarrow> mapM_res f xs = mapM_res g xs"
proof (induction xs)
  case (Cons x xs)
  then have "f x = g x" "mapM_res f xs = mapM_res g xs" by simp_all
  then show ?case by simp
qed simp

lemma mapM_res_cong [fundef_cong]: "xs = ys \<Longrightarrow> (\<And>x. x \<in> set ys \<Longrightarrow> f x = g x) \<Longrightarrow> mapM_res f xs = mapM_res g ys"
  using mapM_res_eq by blast

text \<open>
  One field of structFromMap: \<open>get\<close> assigns the value to the field. Properties that are missing, null or ambiguous
  leave it as it is.
\<close>

definition fill_field :: "(goval \<Rightarrow> gotype \<Rightarrow> dval \<Rightarrow> (maperr + dval) option) \<Rightarrow> string \<Rightarrow> tfield list \<Rightarrow> gomap \<Rightarrow> string \<Rightarrow> dval \<Rightarrow>
  (maperr + dval) option" where
  "fill_field get s fs m name d =
     (case map_of m name of
        None \<Rightarrow> Some (Inr d)
      | Some v \<Rightarrow>
          if v = VNil then Some (Inr d)
          else (case decodeField (map sfield_of fs) name of
                  None \<Rightarrow> Some (Inr d)
                | Some f \<Rightarrow> map_option (map_sum (PropertyErr name) id) (with_field (get v) True (TStruct s fs) d (fi_index f))))"

lemma fill_field_cong [fundef_cong]:
  "m = m' \<Longrightarrow> (\<And>name v. map_of m' name = Some v \<Longrightarrow> get v = get' v) \<Longrightarrow> fill_field get s fs m = fill_field get' s fs m'"
  by (intro ext) (auto simp: fill_field_def split: option.split)

text \<open>
  assign: \<open>impl\<close> says which values implement an interface type, \<open>ord\<close> in which order the range loop of structFromMap
  meets the properties of a struct type.
\<close>

function assign :: "(string \<Rightarrow> raw \<Rightarrow> bool) \<Rightarrow> (sfield list \<Rightarrow> string list) \<Rightarrow> gotype \<Rightarrow> dval \<Rightarrow> raw \<Rightarrow> (maperr + dval) option" where
  "assign impl ord t d r =
     (if r = RV VNil then Some (Inr d)
      else
        (case t of
           TPtr t' \<Rightarrow>
             map_option (map_sum id (\<lambda>d'. DPtr (Some d')))
               (assign impl ord t' (case d of DPtr (Some d') \<Rightarrow> d' | _ \<Rightarrow> zero_val t') r)
         | TStruct s fs \<Rightarrow>
             (case r of
                RV v \<Rightarrow>
                  if struct_name v = Some s then Some (Inr (DRaw v))
                  else
                    (case propsOf r of
                       None \<Rightarrow> Some (Inl TypeErr)
                     | Some m \<Rightarrow> foldM_res (fill_field (\<lambda>v t d. assign impl ord t d (RV v)) s fs m) (ord (map sfield_of fs)) d)
              | RByte _ \<Rightarrow> Some (Inl TypeErr))
         | TSlice t' \<Rightarrow>
             (case elems_of r of
                None \<Rightarrow> Some (Inl TypeErr)
              | Some rs \<Rightarrow>
                  map_option (map_sum id (\<lambda>ds. DSlice (Some ds))) (mapM_res (\<lambda>x. assign impl ord t' (zero_val t') x) rs))
         | TMap k t' \<Rightarrow>
             (case r of
                RV (VMap m) \<Rightarrow>
                  if \<not> k then Some (Inl TypeErr)
                  else
                    map_option (map_sum id (\<lambda>ds. DMap (Some ds)))
                      (mapM_res (\<lambda>(key, v). map_option (map_sum id (Pair key)) (assign impl ord t' (zero_val t') (RV v))) m)
              | _ \<Rightarrow> Some (Inl TypeErr))
         | _ \<Rightarrow> Some (assign_plain impl t r)))"
  by pat_completeness auto
termination
  by (relation "inv_image (less_than <*lex*> less_than) (\<lambda>(impl, ord, t, d, r). (rsize r, size t))")
    (auto dest: rsize_elem rsize_prop rsize_entry)

declare assign.simps [simp del]

definition structFromMap :: "(string \<Rightarrow> raw \<Rightarrow> bool) \<Rightarrow> (sfield list \<Rightarrow> string list) \<Rightarrow> string \<Rightarrow> tfield list \<Rightarrow> gomap \<Rightarrow> dval \<Rightarrow>
  (maperr + dval) option" where
  "structFromMap impl ord s fs m d =
     foldM_res (fill_field (\<lambda>v t d. assign impl ord t d (RV v)) s fs m) (ord (map sfield_of fs)) d"

text \<open>The destination is a pointer that is not nil to a value \<open>d\<close> of type \<open>t\<close>; pointers to pointers are followed.\<close>

fun MapToStruct :: "(string \<Rightarrow> raw \<Rightarrow> bool) \<Rightarrow> (sfield list \<Rightarrow> string list) \<Rightarrow> gomap \<Rightarrow> gotype \<Rightarrow> dval \<Rightarrow> (maperr + dval) option" where
  "MapToStruct impl ord src (TPtr t) d =
     map_option (map_sum id (\<lambda>d'. DPtr (Some d')))
       (MapToStruct impl ord src t (case d of DPtr (Some d') \<Rightarrow> d' | _ \<Rightarrow> zero_val t))"
| "MapToStruct impl ord src (TStruct s fs) d = structFromMap impl ord s fs src d"
| "MapToStruct impl ord src t d = Some (Inl DestinationErr)"

section \<open>Records\<close>

text \<open>Record.AsMap panics when a record has fewer values than keys.\<close>

fun AsMap :: "string list \<Rightarrow> goval list \<Rightarrow> gomap \<Rightarrow> gomap option" where
  "AsMap [] vs m = Some m"
| "AsMap (k # ks) [] m = None"
| "AsMap (k # ks) (v # vs) m = AsMap ks vs (map_put k v m)"

definition sourceOf :: "string list \<times> goval list \<Rightarrow> gomap option" where
  "sourceOf r =
     (case r of
        (ks, vs) \<Rightarrow>
          if length ks = 1 then
            do { v \<leftarrow> at vs 0;
                 (case propsOf (RV v) of Some m \<Rightarrow> Some m | None \<Rightarrow> AsMap ks vs []) }
          else AsMap ks vs [])"

definition As :: "(string \<Rightarrow> raw \<Rightarrow> bool) \<Rightarrow> (sfield list \<Rightarrow> string list) \<Rightarrow> gotype \<Rightarrow> (string list \<times> goval list) option \<Rightarrow>
  (maperr + dval) option" where
  "As impl ord t r =
     (case r of
        None \<Rightarrow> Some (Inl NilRecordErr)
      | Some rc \<Rightarrow> do { src \<leftarrow> sourceOf rc; MapToStruct impl ord src t (zero_val t) })"

definition CollectRecordsAs :: "(string \<Rightarrow> raw \<Rightarrow> bool) \<Rightarrow> (sfield list \<Rightarrow> string list) \<Rightarrow> gotype \<Rightarrow>
  (string list \<times> goval list) option list \<Rightarrow> (maperr + dval list) option" where
  "CollectRecordsAs impl ord t rs = mapM_res (As impl ord t) rs"

section \<open>Types of values\<close>

text \<open>
  A value of a type; a float32 is a float64 that converts to float32 and back unchanged. An embedded struct that is
  flattened is made of its fields.
\<close>

definition no_raw :: "dval \<Rightarrow> bool" where
  "no_raw d = (case d of DRaw _ \<Rightarrow> False | DPtr (Some (DRaw _)) \<Rightarrow> False | _ \<Rightarrow> True)"

inductive has_type :: "(string \<Rightarrow> raw \<Rightarrow> bool) \<Rightarrow> gotype \<Rightarrow> dval \<Rightarrow> bool" and has_field :: "(string \<Rightarrow> raw \<Rightarrow> bool) \<Rightarrow> tfield \<Rightarrow> dval \<Rightarrow> bool"
  for impl where
  "has_type impl TBool (DBool b)"
| "has_type impl TString (DStr s)"
| "\<not> OverflowInt w i \<Longrightarrow> has_type impl (TInt w) (DInt i)"
| "n < 2 ^ w \<Longrightarrow> has_type impl (TUint w) (DUint n)"
| "n < 256 \<Longrightarrow> has_type impl TByte (DUint n)"
| "float32_exact f \<Longrightarrow> has_type impl TFloat32 (DFloat f)"
| "has_type impl TFloat64 (DFloat f)"
| "has_type impl TAny (DIface v)"
| "has_type impl (TIface i) (DIface None)"
| "impl i r \<Longrightarrow> has_type impl (TIface i) (DIface (Some r))"
| "has_type impl TUUID (DUUID u)"
| "has_type impl (TPtr t) (DPtr None)"
| "has_type impl t d \<Longrightarrow> has_type impl (TPtr t) (DPtr (Some d))"
| "has_type impl (TSlice t) (DSlice None)"
| "\<forall>d \<in> set ds. has_type impl t d \<Longrightarrow> has_type impl (TSlice t) (DSlice (Some ds))"
| "has_type impl (TMap k t) (DMap None)"
| "\<forall>d \<in> set m. has_type impl t (snd d) \<Longrightarrow> has_type impl (TMap k t) (DMap (Some m))"
| "list_all2 (has_field impl) fs ds \<Longrightarrow> has_type impl (TStruct s fs) (DStruct ds)"
| "struct_name v = Some s \<Longrightarrow> has_type impl (TStruct s fs) (DRaw v)"
| "has_type impl TOther DOther"
| "has_type impl t d \<Longrightarrow> (an \<and> tag = [] \<longrightarrow> no_raw d) \<Longrightarrow> has_field impl (TField n tag ex an t) d"
  monos list_all2_mono

inductive_simps has_type_simps [simp]:
  "has_type impl (TPtr t) d" "has_type impl (TStruct s fs) d" "has_type impl (TSlice t) d" "has_type impl (TMap k t) d"
  "has_field impl (TField n tag ex an t) d"

lemma zero_no_raw [simp]: "no_raw (zero_val t)"
  by (cases t) (simp_all add: no_raw_def)

lemma zero_typed: "has_type impl t (zero_val t)" "has_field impl f (zero_field f)"
  by (induction t and f)
    (auto intro!: has_type_has_field.intros simp: OverflowInt_def float32_exact_def mag_def list_all2_conv_all_nth)

lemma zero_field_val: "zero_field f = zero_val (tf_type f)"
  by (cases f) simp

lemma has_field_type: "has_field impl f d \<Longrightarrow> has_type impl (tf_type f) d"
  by (cases f) simp

section \<open>The indexes of fields\<close>

text \<open>The fields that buildFields flattens.\<close>

fun flattened :: "tfield \<Rightarrow> (string \<times> tfield list) option" where
  "flattened (TField n tag ex True (TStruct s gs)) = (if tag = [] then Some (s, gs) else None)"
| "flattened (TField n tag ex True (TPtr (TStruct s gs))) = (if tag = [] then Some (s, gs) else None)"
| "flattened _ = None"

fun fits :: "tfield list \<Rightarrow> nat list \<Rightarrow> bool" where
  "fits fs [] = False"
| "fits fs [i] = (i < length fs \<and> flattened (fs ! i) = None)"
| "fits fs (i # is) = (i < length fs \<and> (case flattened (fs ! i) of None \<Rightarrow> False | Some (s, gs) \<Rightarrow> fits gs is))"

lemma sfield_of_cases:
  obtains (flat) n ex an t s gs where "f = TField n [] ex an t" "flattened f = Some (s, gs)" "sfield_of f = SField n [] ex (Some (map sfield_of gs))"
      "t = TStruct s gs \<or> t = TPtr (TStruct s gs)" "an"
  | (plain) "flattened f = None" "sf_embed (sfield_of f) = None \<or> sf_tag (sfield_of f) \<noteq> []"
  by (induction f rule: sfield_of.induct) (auto split: if_splits)

lemma size_flattened: "flattened f = Some (s, gs) \<Longrightarrow> size_list size gs < size f"
  by (induction f rule: sfield_of.induct) (auto split: if_splits)

lemma buildFields_Cons:
  "buildFields (sfield_of f # ts) i p =
     (case flattened f of
        Some (s, gs) \<Rightarrow> buildFields (map sfield_of gs) 0 (p @ [i])
      | None \<Rightarrow> plain_field (sfield_of f) (p @ [i])) @ buildFields ts (i + 1) p"
proof (cases f rule: sfield_of_cases)
  case plain
  then show ?thesis by (cases "sfield_of f"; cases "sf_embed (sfield_of f)") auto
qed auto

lemma plain_field_index: "x \<in> set (plain_field f p) \<Longrightarrow> fi_index x = p"
  by (auto simp: plain_field_def split: if_splits prod.splits)

lemma fits_flat: "i < length fs \<Longrightarrow> flattened (fs ! i) = Some (s, gs) \<Longrightarrow> fits gs is \<Longrightarrow> fits fs (i # is)"
  by (cases "is") auto

lemma buildFields_fits:
  assumes "x \<in> set (buildFields (map sfield_of fs) i p)"
  shows "\<exists>j is. fi_index x = p @ (i + j) # is \<and> fits fs (j # is)"
  using assms
proof (induction "size_list size fs" arbitrary: fs i p rule: less_induct)
  case less
  show ?case
  proof (cases fs)
    case (Cons f ts)
    consider (here) "x \<in> set (plain_field (sfield_of f) (p @ [i]))" "flattened f = None"
      | (flat) s gs where "flattened f = Some (s, gs)" "x \<in> set (buildFields (map sfield_of gs) 0 (p @ [i]))"
      | (later) "x \<in> set (buildFields (map sfield_of ts) (i + 1) p)"
      using less.prems unfolding Cons list.map buildFields_Cons by (auto split: option.splits)
    then show ?thesis
    proof cases
      case here
      then show ?thesis using Cons by (intro exI [of _ 0] exI [of _ "[]"]) (auto dest: plain_field_index)
    next
      case flat
      from less.hyps [OF _ flat(2)] size_flattened [OF flat(1)] obtain j "is" where
        "fi_index x = (p @ [i]) @ (0 + j) # is" "fits gs (j # is)" using Cons by fastforce
      then show ?thesis using Cons flat(1) by (intro exI [of _ 0] exI [of _ "j # is"]) (auto intro: fits_flat)
    next
      case later
      from less.hyps [OF _ this] obtain j "is" where "fi_index x = p @ (i + 1 + j) # is" "fits ts (j # is)"
        using Cons by fastforce
      moreover from this(2) have "fits fs (Suc j # is)" using Cons by (cases "is") auto
      ultimately show ?thesis by (intro exI [of _ "Suc j"] exI [of _ "is"]) auto
    qed
  qed (use less.prems in simp)
qed

lemma pick_mem: "fst (foldl pick (w, a) fs) \<in> insert w (set fs)"
proof (induction fs arbitrary: w a)
  case (Cons f fs)
  obtain w' a' where p: "pick (w, a) f = (w', a')" by (cases "pick (w, a) f")
  then have "w' = f \<or> w' = w" by (auto simp: pick_def split: if_splits)
  with p Cons [of w' a'] show ?case by auto
qed simp

lemma decodeField_fits:
  assumes "decodeField (map sfield_of fs) name = Some f"
  shows "fits fs (fi_index f)"
proof -
  have "f \<in> set (fieldsOf (map sfield_of fs))"
    using assms
    by (auto simp: decodeField_def split: list.splits prod.splits if_splits dest!: arg_cong [of _ _ set])
      (metis fst_conv pick_mem insert_iff mem_Collect_eq)
  then show ?thesis using buildFields_fits [of f fs 0 "[]"] by (auto simp: fieldsOf_def)
qed

section \<open>Mapping keeps types\<close>

text \<open>An operation that returns, with an error or a value for which \<open>P\<close> holds.\<close>

definition keeps :: "('d \<Rightarrow> bool) \<Rightarrow> (maperr + 'd) option \<Rightarrow> bool" where
  "keeps P r = (case r of None \<Rightarrow> False | Some (Inl e) \<Rightarrow> True | Some (Inr d) \<Rightarrow> P d)"

lemma keeps_simps [simp]:
  "keeps P (Some (Inl e))" "keeps P (Some (Inr d)) = P d"
  "keeps P (map_option (map_sum h g) r) = keeps (\<lambda>d. P (g d)) r"
  by (auto simp: keeps_def split: option.split sum.split)

lemma keepsE:
  assumes "keeps P r"
  obtains e where "r = Some (Inl e)" | d where "r = Some (Inr d)" "P d"
  using assms by (auto simp: keeps_def split: option.splits sum.splits)

lemma keeps_mono: "keeps P r \<Longrightarrow> (\<And>d. P d \<Longrightarrow> Q d) \<Longrightarrow> keeps Q r"
  by (elim keepsE) simp_all

lemma list_all2_upd: "list_all2 P xs ys \<Longrightarrow> (i < length xs \<Longrightarrow> P (xs ! i) y) \<Longrightarrow> list_all2 P xs (ys[i := y])"
  by (cases "i < length ys") (auto simp: list_all2_conv_all_nth nth_list_update list_update_beyond)

lemma keeps_foldM:
  "P d \<Longrightarrow> (\<And>x d. x \<in> set xs \<Longrightarrow> P d \<Longrightarrow> keeps P (f x d)) \<Longrightarrow> keeps P (foldM_res f xs d)"
proof (induction xs arbitrary: d)
  case (Cons x xs)
  from Cons.prems(2) [of x d] Cons.prems(1) have "keeps P (f x d)" by simp
  then show ?case by (rule keepsE) (use Cons in auto)
qed simp

lemma keeps_mapM:
  "(\<And>x. x \<in> set xs \<Longrightarrow> keeps P (f x)) \<Longrightarrow> keeps (\<lambda>ys. \<forall>y \<in> set ys. P y) (mapM_res f xs)"
proof (induction xs)
  case (Cons x xs)
  then have "keeps (\<lambda>ys. \<forall>y \<in> set ys. P y) (mapM_res f xs)" by simp
  moreover have "keeps P (f x)" using Cons by simp
  ultimately show ?case by (elim keepsE) auto
qed simp

lemma leaf_field: "flattened f = None \<Longrightarrow> has_type impl (tf_type f) d \<Longrightarrow> has_field impl f d"
  by (induction f rule: flattened.induct) (auto simp: no_raw_def elim: has_type.cases split: if_splits)

lemma typed_structs:
  "has_type impl (TStruct s fs) d \<Longrightarrow> no_raw d \<Longrightarrow> \<exists>ds. d = DStruct ds \<and> list_all2 (has_field impl) fs ds"
  by (auto simp: no_raw_def)

text \<open>
  A value in which no struct was assigned as a whole; and the same of the field with an index, when the pointers on
  the way to it are not nil.
\<close>

fun clean :: "dval \<Rightarrow> bool" where
  "clean (DRaw _) = False"
| "clean (DStruct ds) = list_all clean ds"
| "clean (DPtr (Some d)) = clean d"
| "clean _ = True"

fun clean_at :: "dval list \<Rightarrow> nat list \<Rightarrow> bool" where
  "clean_at ds [] = True"
| "clean_at ds [i] = clean (ds ! i)"
| "clean_at ds (i # is) =
     (case ds ! i of DStruct es \<Rightarrow> clean_at es is | DPtr (Some (DStruct es)) \<Rightarrow> clean_at es is | _ \<Rightarrow> True)"

lemma clean_zero [simp]: "clean (zero_val t)" "clean (zero_field f)"
  by (induction t and f) (auto simp: list_all_iff)

lemma clean_at_Cons:
  "is \<noteq> [] \<Longrightarrow> clean_at ds (i # is) =
     (case ds ! i of DStruct es \<Rightarrow> clean_at es is | DPtr (Some (DStruct es)) \<Rightarrow> clean_at es is | _ \<Rightarrow> True)"
  by (cases "is") (simp, hypsubst, rule clean_at.simps)

lemma fits_Cons: "flattened (fs ! i) = Some (s, gs) \<Longrightarrow> fits fs (i # is) \<longleftrightarrow> i < length fs \<and> fits gs is"
  by (cases "is") auto

lemma fits_length: "fits fs (i # is) \<Longrightarrow> i < length fs"
  by (cases "is") auto

lemma flattened_type:
  assumes "flattened f = Some (s, gs)"
  obtains n ex t where "f = TField n [] ex True t" "t = TStruct s gs \<or> t = TPtr (TStruct s gs)"
  using assms by (cases f rule: sfield_of_cases) auto

lemma clean_at_clean:
  assumes "fits fs is" "list_all2 (has_field impl) fs ds" "list_all clean ds"
  shows "clean_at ds is"
  using assms
proof (induction fs "is" arbitrary: ds rule: fits.induct)
  case (2 fs i)
  then show ?case by (auto simp: list_all_length list_all2_lengthD)
next
  case (3 fs i j "is")
  from 3(2) obtain s gs where fl: "i < length fs" "flattened (fs ! i) = Some (s, gs)" "fits gs (j # is)"
    by (auto split: option.splits)
  have d: "has_field impl (fs ! i) (ds ! i)" "clean (ds ! i)"
    using 3(3,4) fl(1) by (auto simp: list_all2_conv_all_nth list_all_length)
  obtain n ex t where "fs ! i = TField n [] ex True t" "t = TStruct s gs \<or> t = TPtr (TStruct s gs)"
    using flattened_type [OF fl(2)] .
  with d 3(1) [OF fl(2) refl fl(3)] show ?case by auto
qed simp

lemma with_field_keeps:
  assumes "fits fs is" "list_all2 (has_field impl) fs ds" "clean_at ds is"
    and f: "\<And>t d. has_type impl t d \<Longrightarrow> clean d \<Longrightarrow> keeps (has_type impl t) (f t d)"
  shows "keeps (\<lambda>d. \<exists>ds'. d = DStruct ds' \<and> list_all2 (has_field impl) fs ds' \<and>
      (\<forall>q. fits fs q \<and> q \<noteq> is \<and> clean_at ds q \<longrightarrow> clean_at ds' q)) (with_field f c (TStruct s fs) (DStruct ds) is)"
  using assms(1,2,3)
proof (induction fs "is" arbitrary: ds c s rule: fits.induct)
  case (2 fs i)
  then have i: "i < length fs" "i < length ds" "has_field impl (fs ! i) (ds ! i)" "flattened (fs ! i) = None" "clean (ds ! i)"
    by (auto simp: list_all2_conv_all_nth)
  have other: "clean_at (ds[i := d]) q" if "fits fs q" "q \<noteq> [i]" "clean_at ds q" for q d
    using that i(2,4) by (cases "(fs, q)" rule: fits.cases) (auto simp: nth_list_update split: if_splits)
  have "keeps (has_type impl (tf_type (fs ! i))) (f (tf_type (fs ! i)) (ds ! i))" by (rule f) (use i in \<open>simp_all add: has_field_type\<close>)
  then show ?case
    using i 2 other by (auto simp: at_def elim!: keeps_mono intro: leaf_field list_all2_upd)
next
  case (3 fs i j "is")
  from 3(2) obtain s' gs where fl: "i < length fs" "flattened (fs ! i) = Some (s', gs)" "fits gs (j # is)"
    by (auto split: option.splits)
  have d: "i < length ds" "has_field impl (fs ! i) (ds ! i)" using 3(3) fl(1) by (auto simp: list_all2_conv_all_nth)
  note ih = 3(1) [OF fl(2) refl fl(3)]
  have zero: "list_all2 (has_field impl) gs (map zero_field gs)" by (simp add: list_all2_conv_all_nth zero_typed)
  obtain n ex t where f: "fs ! i = TField n [] ex True t" "t = TStruct s' gs \<or> t = TPtr (TStruct s' gs)"
    using fl(2) by (cases "fs ! i" rule: sfield_of_cases) auto
  let ?P = "\<lambda>d. has_field impl (fs ! i) d \<and> (\<forall>q. fits fs q \<and> q \<noteq> i # j # is \<and> clean_at ds q \<longrightarrow> clean_at (ds[i := d]) q)"
  have lift: "\<forall>q. fits fs q \<and> q \<noteq> i # j # is \<and> clean_at ds q \<longrightarrow> clean_at (ds[i := d]) q"
    if "d = DStruct es \<or> d = DPtr (Some (DStruct es))"
      "\<And>q. fits gs q \<Longrightarrow> q \<noteq> j # is \<Longrightarrow> clean_at ds (i # q) \<Longrightarrow> clean_at es q" for d es
  proof (intro allI impI)
    fix q assume q: "fits fs q \<and> q \<noteq> i # j # is \<and> clean_at ds q"
    then obtain k q' where k: "q = k # q'" by (cases q) auto
    show "clean_at (ds[i := d]) q"
    proof (cases "k = i")
      case True
      with q k fl(2) have "fits gs q'" "q' \<noteq> []" by (auto simp: fits_Cons)
      with that q k True d(1) show ?thesis by (auto simp: clean_at_Cons)
    next
      case False
      with q k show ?thesis by (cases q') auto
    qed
  qed
  have p: "keeps (\<lambda>d. ?P (g d)) (with_field f ex (TStruct s' gs) (DStruct es) (j # is))"
    if "g = (\<lambda>d. d) \<and> t = TStruct s' gs \<or> g = (\<lambda>d. DPtr (Some d)) \<and> t = TPtr (TStruct s' gs)"
      "list_all2 (has_field impl) gs es" "clean_at es (j # is)"
      "\<And>q. fits gs q \<Longrightarrow> clean_at ds (i # q) \<Longrightarrow> clean_at es q" for g es
    using ih [OF that(2,3), where s = s' and c = ex]
  proof (rule keeps_mono, elim exE conjE)
    fix d es' assume e: "d = DStruct es'" "list_all2 (has_field impl) gs es'"
      "\<forall>q. fits gs q \<and> q \<noteq> j # is \<and> clean_at es q \<longrightarrow> clean_at es' q"
    then have "has_field impl (fs ! i) (g d)" using that(1) f(1) by (auto simp: no_raw_def)
    moreover have "g d = DStruct es' \<or> g d = DPtr (Some (DStruct es'))" using that(1) e(1) by auto
    ultimately show "?P (g d)" using lift [of "g d" es'] e(3) that(4) by blast
  qed
  have "keeps ?P (with_field f ex t (ds ! i) (j # is))"
    using f(2)
  proof
    assume t: "t = TStruct s' gs"
    then obtain es where es: "ds ! i = DStruct es" "list_all2 (has_field impl) gs es"
      using d(2) f(1) typed_structs [of impl s' gs "ds ! i"] by auto
    then have "clean_at es q" if "fits gs q" "clean_at ds (i # q)" for q
      using that by (cases q) (simp_all add: clean_at_Cons)
    from p [of "\<lambda>d. d" es, OF _ es(2) _ this] show ?thesis using es(1) t 3(4) by (simp add: clean_at_Cons)
  next
    assume t: "t = TPtr (TStruct s' gs)"
    have z: "clean_at (map zero_field gs) q" if "fits gs q" for q
      using clean_at_clean [OF that zero] by (simp add: list_all_iff)
    consider "ds ! i = DPtr None" | es where "ds ! i = DPtr (Some (DStruct es))" "list_all2 (has_field impl) gs es"
      using d(2) f(1) t by (auto simp: no_raw_def)
    then show ?thesis
    proof cases
      case 1
      have "ds[i := DPtr None] = ds" using 1 by (metis list_update_id)
      then show ?thesis
        using 1 t d(2) z fl(3) p [of "\<lambda>d. DPtr (Some d)" "map zero_field gs"] zero by (cases ex) auto
    next
      case (2 es)
      then have "clean_at es q" if "fits gs q" "clean_at ds (i # q)" for q
        using that by (cases q) (simp_all add: clean_at_Cons)
      from p [of "\<lambda>d. DPtr (Some d)" es, OF _ 2(2) _ this] show ?thesis using 2(1) t 3(4) by (simp add: clean_at_Cons)
    qed
  qed
  then show ?case
    using fl(1) d(1) f(1) 3(3) by (auto simp: at_def elim!: keeps_mono intro: list_all2_upd)
qed simp

lemma buildFields_distinct: "distinct (map fi_index (buildFields (map sfield_of fs) i p))"
proof (induction "size_list size fs" arbitrary: fs i p rule: less_induct)
  case less
  show ?case
  proof (cases fs)
    case (Cons f ts)
    let ?here = "case flattened f of Some (s, gs) \<Rightarrow> buildFields (map sfield_of gs) 0 (p @ [i]) | None \<Rightarrow> plain_field (sfield_of f) (p @ [i])"
    have "distinct (map fi_index (buildFields (map sfield_of ts) (i + 1) p))" using less [of ts] Cons by simp
    moreover have "distinct (map fi_index ?here)"
      using less size_flattened [of f] Cons by (auto simp: plain_field_def split: option.split prod.split)
    moreover have "fi_index x \<noteq> fi_index y" if "x \<in> set ?here" "y \<in> set (buildFields (map sfield_of ts) (i + 1) p)" for x y
    proof -
      have "\<exists>js. fi_index x = p @ i # js"
        using that(1) buildFields_fits [of x _ 0 "p @ [i]"] by (fastforce dest: plain_field_index split: option.splits)
      with buildFields_fits [OF that(2)] show ?thesis by auto
    qed
    ultimately show ?thesis unfolding Cons list.map buildFields_Cons by auto
  qed simp
qed

lemma decodeField_name:
  assumes "decodeField ts name = Some f"
  shows "f \<in> set (fieldsOf ts) \<and> fi_name f = name"
proof -
  obtain g gs a where g: "filter (\<lambda>f. fi_name f = name) (fieldsOf ts) = g # gs" "foldl pick (g, False) gs = (f, a)"
    using assms by (auto simp: decodeField_def split: list.splits prod.splits if_splits)
  have "f \<in> set (g # gs)" using pick_mem [of g False gs] g(2) by simp
  then show ?thesis unfolding g(1) [symmetric] by simp
qed

lemma decodeField_index:
  assumes "decodeField (map sfield_of fs) n = Some f" "decodeField (map sfield_of fs) n' = Some f'" "n \<noteq> n'"
  shows "fi_index f \<noteq> fi_index f'"
  using decodeField_name [OF assms(1)] decodeField_name [OF assms(2)] assms(3) buildFields_distinct [of fs 0 "[]"]
  unfolding fieldsOf_def by (metis distinct_map inj_on_def)

text \<open>The loop over the properties: the fields that are still to be assigned are clean.\<close>

lemma fill_field_keeps:
  assumes "list_all2 (has_field impl) fs ds" "n \<notin> set ns"
    "\<forall>k \<in> set (n # ns). \<forall>f. decodeField (map sfield_of fs) k = Some f \<longrightarrow> clean_at ds (fi_index f)"
    and f: "\<And>n v t d. map_of m n = Some v \<Longrightarrow> has_type impl t d \<Longrightarrow> clean d \<Longrightarrow> keeps (has_type impl t) (get v t d)"
  shows "keeps (\<lambda>d. \<exists>ds'. d = DStruct ds' \<and> list_all2 (has_field impl) fs ds' \<and>
      (\<forall>k \<in> set ns. \<forall>f. decodeField (map sfield_of fs) k = Some f \<longrightarrow> clean_at ds' (fi_index f)))
    (fill_field get s fs m n (DStruct ds))" (is "keeps ?I _")
proof (cases "map_of m n = None \<or> map_of m n = Some VNil \<or> decodeField (map sfield_of fs) n = None")
  case True
  then show ?thesis using assms by (auto simp: fill_field_def split: option.split)
next
  case False
  then obtain v g where v: "map_of m n = Some v" "v \<noteq> VNil" "decodeField (map sfield_of fs) n = Some g" by auto
  have "keeps (\<lambda>d. \<exists>ds'. d = DStruct ds' \<and> list_all2 (has_field impl) fs ds' \<and>
      (\<forall>q. fits fs q \<and> q \<noteq> fi_index g \<and> clean_at ds q \<longrightarrow> clean_at ds' q))
    (with_field (get v) True (TStruct s fs) (DStruct ds) (fi_index g))"
    using assms v by (intro with_field_keeps decodeField_fits f) auto
  then have "keeps ?I (with_field (get v) True (TStruct s fs) (DStruct ds) (fi_index g))"
    using assms(2,3) v(3) by (elim keeps_mono) (metis decodeField_fits decodeField_index list.set_intros(2))
  then show ?thesis using v by (simp add: fill_field_def)
qed

lemma structFromMap_keeps:
  assumes "list_all2 (has_field impl) fs ds" "list_all clean ds" "distinct (ord (map sfield_of fs))"
    and f: "\<And>n v t d. map_of m n = Some v \<Longrightarrow> has_type impl t d \<Longrightarrow> clean d \<Longrightarrow> keeps (has_type impl t) (assign impl ord t d (RV v))"
  shows "keeps (has_type impl (TStruct s fs)) (structFromMap impl ord s fs m (DStruct ds))"
proof -
  let ?ts = "map sfield_of fs" and ?get = "\<lambda>v t d. assign impl ord t d (RV v)"
  have "keeps (has_type impl (TStruct s fs)) (foldM_res (fill_field ?get s fs m) ns (DStruct ds))"
    if "distinct ns" "list_all2 (has_field impl) fs ds" "\<forall>n \<in> set ns. \<forall>f. decodeField ?ts n = Some f \<longrightarrow> clean_at ds (fi_index f)"
    for ns ds
    using that
  proof (induction ns arbitrary: ds)
    case (Cons n ns)
    have "n \<notin> set ns" using Cons.prems(1) by simp
    from fill_field_keeps [OF Cons.prems(2) this Cons.prems(3), where get = ?get and m = m and s = s, OF f] show ?case
      by (rule keepsE) (use Cons in auto)
  qed simp
  moreover have "clean_at ds (fi_index g)" if "decodeField ?ts n = Some g" for n g
    using clean_at_clean [OF decodeField_fits [OF that] assms(1,2)] .
  ultimately show ?thesis using assms(1,3) by (simp add: structFromMap_def)
qed

lemma int_to_typed: "int_to t n = Inr d \<Longrightarrow> has_type impl t d"
  by (auto simp: int_to_def OverflowUint_def intFitsFloat32_exact nat_less_iff split: gotype.splits if_splits
      intro!: has_type_has_field.intros)

lemma float_to_typed: "float_to t f = Inr d \<Longrightarrow> has_type impl t d"
  by (auto simp: float_to_def split: gotype.splits if_splits intro!: has_type_has_field.intros)

lemma assign_plain_typed:
  assumes "assign_plain impl t r = Inr d"
  shows "has_type impl t d"
proof -
  have "has_type impl t d" if "isNumeric t" "assignNumeric t r = Inr d"
    using that int_to_typed float_to_typed by (auto simp: assignNumeric_def split: raw.splits goval.splits)
  moreover have "unat b < 256" for b :: byte using unsigned_less [of b] by simp
  ultimately show ?thesis
    using assms by (auto simp: assign_plain_def split: gotype.splits raw.splits goval.splits if_splits
        intro: has_type_has_field.intros)
qed

lemma assign_keeps:
  assumes "\<forall>ts. distinct (ord ts)"
  shows "has_type impl t d \<Longrightarrow> clean d \<Longrightarrow> keeps (has_type impl t) (assign impl ord t d r)"
  using assms
proof (induction impl ord t d r rule: assign.induct)
  case (1 impl ord t d r)
  show ?case
  proof (cases "r = RV VNil")
    case False
    have plain: "keeps (has_type impl t) (Some (assign_plain impl t r))"
      by (simp add: keeps_def assign_plain_typed split: sum.split)
    show ?thesis
    proof (cases t)
      case (TPtr t')
      let ?d = "case d of DPtr (Some d') \<Rightarrow> d' | _ \<Rightarrow> zero_val t'"
      have "has_type impl t' ?d" "clean ?d"
        using 1(5,6) TPtr by (auto simp: zero_typed)
      then have "keeps (has_type impl t') (assign impl ord t' ?d r)" using 1(1) [OF False TPtr] 1(7) by blast
      then show ?thesis using False TPtr by (subst assign.simps) simp
    next
      case (TStruct s fs)
      then obtain ds where ds: "d = DStruct ds" "list_all2 (has_field impl) fs ds" "list_all clean ds"
        using 1(5,6) by auto
      show ?thesis
      proof (cases r)
        case (RV v)
        show ?thesis
        proof (cases "propsOf r")
          case (Some m)
          have "keeps (has_type impl t) (structFromMap impl ord s fs m (DStruct ds))" if "struct_name v \<noteq> Some s"
            unfolding TStruct using 1(4) [OF False TStruct RV that Some] 1(7) ds
            by (intro structFromMap_keeps) auto
          then show ?thesis
            using False TStruct RV Some ds(1) by (subst assign.simps) (auto simp: structFromMap_def)
        qed (use False TStruct RV in \<open>subst assign.simps, auto\<close>)
      qed (use TStruct in \<open>subst assign.simps, simp\<close>)
    next
      case (TSlice t')
      show ?thesis
      proof (cases "elems_of r")
        case (Some rs)
        have "keeps (\<lambda>ds. \<forall>d \<in> set ds. has_type impl t' d) (mapM_res (\<lambda>x. assign impl ord t' (zero_val t') x) rs)"
          using 1(2) [OF False TSlice Some] 1(7) by (intro keeps_mapM) (auto simp: zero_typed)
        then show ?thesis using False TSlice Some by (subst assign.simps) simp
      qed (use False TSlice in \<open>subst assign.simps, simp\<close>)
    next
      case (TMap k t')
      show ?thesis
      proof (cases "\<exists>m. r = RV (VMap m) \<and> k")
        case True
        then obtain m where m: "r = RV (VMap m)" "k" by auto
        have "keeps (\<lambda>y. has_type impl t' (snd y))
            (case e of (key, v) \<Rightarrow> map_option (map_sum id (Pair key)) (assign impl ord t' (zero_val t') (RV v)))"
          if "e \<in> set m" for e
          using 1(3) [OF False TMap m(1) refl _ that] m(2) 1(7) zero_typed(1) [of impl t'] by (cases e) auto
        then have "keeps (\<lambda>ds. \<forall>d \<in> set ds. has_type impl t' (snd d))
            (mapM_res (\<lambda>(key, v). map_option (map_sum id (Pair key)) (assign impl ord t' (zero_val t') (RV v))) m)"
          by (rule keeps_mapM)
        then show ?thesis using False TMap m by (subst assign.simps) simp
      qed (use False TMap in \<open>subst assign.simps, auto split: raw.split goval.split\<close>)
    qed (use False plain in \<open>simp_all add: assign.simps [of impl ord _ d r]\<close>)
  qed (use 1 in \<open>subst assign.simps, simp\<close>)
qed

lemma MapToStruct_keeps:
  assumes "\<forall>ts. distinct (ord ts)"
  shows "has_type impl t d \<Longrightarrow> clean d \<Longrightarrow> keeps (has_type impl t) (MapToStruct impl ord src t d)"
  using assms
proof (induction impl ord src t d rule: MapToStruct.induct)
  case (1 impl ord src t d)
  then show ?case by (auto simp: zero_typed elim!: keeps_mono)
next
  case (2 impl ord src s fs d)
  then obtain ds where "d = DStruct ds" "list_all2 (has_field impl) fs ds" "list_all clean ds" by auto
  then show ?case using structFromMap_keeps [of impl fs ds ord src s] assign_keeps [OF 2(3)] 2(3) by (simp del: has_type_simps)
qed simp_all

lemma AsMap_panics: "AsMap ks vs m = None \<longleftrightarrow> length vs < length ks"
  by (induction ks vs m rule: AsMap.induct) auto

lemma sourceOf_panics: "sourceOf (ks, vs) = None \<longleftrightarrow> length vs < length ks"
  using AsMap_panics [of ks vs "[]"] by (auto simp: sourceOf_def at_def split: option.split)

section \<open>Which field gets which value\<close>

text \<open>The field with an index; what is behind a nil pointer is seen as zero.\<close>

fun view :: "tfield list \<Rightarrow> dval list \<Rightarrow> nat list \<Rightarrow> dval" where
  "view fs ds [] = DOther"
| "view fs ds [i] = ds ! i"
| "view fs ds (i # is) =
     (case flattened (fs ! i) of
        None \<Rightarrow> DOther
      | Some (s, gs) \<Rightarrow>
          (case ds ! i of
             DStruct es \<Rightarrow> view gs es is
           | DPtr (Some (DStruct es)) \<Rightarrow> view gs es is
           | _ \<Rightarrow> view gs (map zero_field gs) is))"

fun type_at :: "tfield list \<Rightarrow> nat list \<Rightarrow> gotype" where
  "type_at fs [] = TOther"
| "type_at fs [i] = tf_type (fs ! i)"
| "type_at fs (i # is) = (case flattened (fs ! i) of None \<Rightarrow> TOther | Some (s, gs) \<Rightarrow> type_at gs is)"

text \<open>No embedded pointer on the way is unexported: nil pointers can be allocated.\<close>

fun settable :: "tfield list \<Rightarrow> nat list \<Rightarrow> bool" where
  "settable fs [] = True"
| "settable fs [i] = True"
| "settable fs (i # is) =
     (case flattened (fs ! i) of
        None \<Rightarrow> False
      | Some (s, gs) \<Rightarrow> (tf_type (fs ! i) = TPtr (TStruct s gs) \<longrightarrow> tf_exported (fs ! i)) \<and> settable gs is)"

lemma view_Cons:
  "is \<noteq> [] \<Longrightarrow> flattened (fs ! i) = Some (s, gs) \<Longrightarrow> view fs ds (i # is) =
     (case ds ! i of
        DStruct es \<Rightarrow> view gs es is
      | DPtr (Some (DStruct es)) \<Rightarrow> view gs es is
      | _ \<Rightarrow> view gs (map zero_field gs) is)"
  by (cases "is") (simp, hypsubst, simp only: view.simps option.case prod.case)

lemma view_other: "k \<noteq> i \<Longrightarrow> view fs (ds[i := d]) (k # is) = view fs ds (k # is)"
  by (cases "is") (auto split: option.split)

lemma view_zero: "fits fs is \<Longrightarrow> view fs (map zero_field fs) is = zero_val (type_at fs is)"
proof (induction fs "is" rule: fits.induct)
  case (2 fs i)
  then show ?case by (cases "fs ! i") auto
next
  case (3 fs i j "is")
  then obtain s gs where fl: "i < length fs" "flattened (fs ! i) = Some (s, gs)" "fits gs (j # is)"
    by (auto split: option.splits)
  obtain n ex t where "fs ! i = TField n [] ex True t" "t = TStruct s gs \<or> t = TPtr (TStruct s gs)"
    using flattened_type [OF fl(2)] .
  then show ?case using 3(1) [OF fl(2) refl fl(3)] fl(1,2) by auto
qed simp

text \<open>with_field assigns to one field and leaves the others alone.\<close>

definition assigned :: "(gotype \<Rightarrow> dval \<Rightarrow> (maperr + dval) option) \<Rightarrow> tfield list \<Rightarrow> nat list \<Rightarrow> dval list \<Rightarrow> dval list \<Rightarrow> bool" where
  "assigned f fs is ds ds' \<longleftrightarrow>
     (\<forall>q. fits fs q \<longrightarrow> q \<noteq> is \<longrightarrow> view fs ds' q = view fs ds q) \<and>
     (settable fs is \<longrightarrow> f (type_at fs is) (view fs ds is) = Some (Inr (view fs ds' is)))"

lemma assigned_flat:
  assumes fl: "i < length fs" "flattened (fs ! i) = Some (s, gs)" and d: "i < length ds" "is \<noteq> []"
    and v: "\<And>q. q \<noteq> [] \<Longrightarrow> view fs ds (i # q) = view gs es q"
    and e: "d = DStruct es' \<or> d = DPtr (Some (DStruct es'))" "assigned f gs is es es'"
  shows "assigned f fs (i # is) ds (ds[i := d])"
proof -
  have v': "view fs (ds[i := d]) (i # q) = view gs es' q" if "q \<noteq> []" for q
    using that fl(2) d(1) e(1) by (auto simp: view_Cons)
  have "view fs (ds[i := d]) q = view fs ds q" if "fits fs q" "q \<noteq> i # is" for q
  proof (cases q)
    case (Cons k q')
    show ?thesis
    proof (cases "k = i")
      case True
      with that Cons fl(2) have "fits gs q'" "q' \<noteq> is" "q' \<noteq> []" by (auto simp: fits_Cons)
      with e(2) v v' True Cons show ?thesis by (simp add: assigned_def)
    qed (simp add: Cons view_other)
  qed simp
  moreover have "f (type_at fs (i # is)) (view fs ds (i # is)) = Some (Inr (view fs (ds[i := d]) (i # is)))"
    if "settable fs (i # is)"
  proof -
    obtain j js where j: "is = j # js" using d(2) by (cases "is") auto
    then have "settable gs is" "type_at fs (i # is) = type_at gs is" using that fl(2) by simp_all
    then show ?thesis using e(2) v v' d(2) by (simp add: assigned_def)
  qed
  ultimately show ?thesis by (simp add: assigned_def)
qed

lemma mapped_result: "map_sum h g z = Inr d \<longleftrightarrow> (\<exists>x. z = Inr x \<and> d = g x)"
  by (cases z) auto

lemma with_field_assigned:
  assumes "fits fs is" "list_all2 (has_field impl) fs ds" "with_field f c (TStruct s fs) (DStruct ds) is = Some (Inr d')"
  shows "\<exists>ds'. d' = DStruct ds' \<and> assigned f fs is ds ds'"
  using assms
proof (induction fs "is" arbitrary: ds c s d' rule: fits.induct)
  case (2 fs i)
  then have i: "i < length fs" "i < length ds" "flattened (fs ! i) = None" by (auto simp: list_all2_lengthD)
  then obtain x where x: "f (tf_type (fs ! i)) (ds ! i) = Some (Inr x)" "d' = DStruct (ds[i := x])"
    using 2(3) by (auto simp: at_def mapped_result)
  have "view fs (ds[i := x]) q = view fs ds q" if "fits fs q" "q \<noteq> [i]" for q
  proof (cases q)
    case (Cons k q')
    with that i(3) have "k \<noteq> i" by (cases q') auto
    then show ?thesis by (simp add: Cons view_other)
  qed simp
  then show ?case using x i(2) by (auto simp: assigned_def)
next
  case (3 fs i j "is")
  from 3(2) obtain s' gs where fl: "i < length fs" "flattened (fs ! i) = Some (s', gs)" "fits gs (j # is)"
    by (auto split: option.splits)
  have d: "i < length ds" "has_field impl (fs ! i) (ds ! i)" using 3(3) fl(1) by (auto simp: list_all2_conv_all_nth)
  note ih = 3(1) [OF fl(2) refl fl(3)]
  have zero: "list_all2 (has_field impl) gs (map zero_field gs)" by (simp add: list_all2_conv_all_nth zero_typed)
  obtain n ex t where f: "fs ! i = TField n [] ex True t" "t = TStruct s' gs \<or> t = TPtr (TStruct s' gs)"
    using flattened_type [OF fl(2)] .
  obtain x where x: "with_field f ex t (ds ! i) (j # is) = Some (Inr x)" "d' = DStruct (ds[i := x])"
    using 3(4) fl(1) d(1) f(1) by (auto simp: at_def mapped_result)
  have lift: "\<exists>ds'. d' = DStruct ds' \<and> assigned f fs (i # j # is) ds ds'"
    if "list_all2 (has_field impl) gs es" "\<And>q. q \<noteq> [] \<Longrightarrow> view fs ds (i # q) = view gs es q"
      "with_field f ex (TStruct s' gs) (DStruct es) (j # is) = Some (Inr y)" "x = y \<or> x = DPtr (Some y)" for es y
  proof -
    from ih [OF that(1,3)] obtain es' where "y = DStruct es'" "assigned f gs (j # is) es es'" by blast
    with assigned_flat [OF fl(1,2) d(1) _ that(2)] that(4) have "assigned f fs (i # j # is) ds (ds[i := x])" by blast
    with x(2) show ?thesis by blast
  qed
  consider (struct) es where "t = TStruct s' gs" "ds ! i = DStruct es" "list_all2 (has_field impl) gs es"
    | (nil) "t = TPtr (TStruct s' gs)" "ds ! i = DPtr None"
    | (ptr) es where "t = TPtr (TStruct s' gs)" "ds ! i = DPtr (Some (DStruct es))" "list_all2 (has_field impl) gs es"
    using d(2) f by (auto simp: no_raw_def)
  then show ?case
  proof cases
    case struct
    then show ?thesis using x(1) fl(2) by (intro lift [of es]) (auto simp: view_Cons)
  next
    case nil
    show ?thesis
    proof (cases ex)
      case True
      then obtain y where "with_field f ex (TStruct s' gs) (DStruct (map zero_field gs)) (j # is) = Some (Inr y)" "x = DPtr (Some y)"
        using x(1) nil by (auto simp: mapped_result)
      then show ?thesis using nil fl(2) zero by (intro lift) (auto simp: view_Cons)
    next
      case False
      then have "ds[i := x] = ds" using x(1) nil by (metis list_update_id option.inject sum.inject(2) with_field.simps(3))
      moreover have "\<not> settable fs (i # j # is)" using False nil f(1) fl(2) by simp
      ultimately show ?thesis using x(2) by (simp add: assigned_def)
    qed
  next
    case ptr
    then obtain y where "with_field f ex (TStruct s' gs) (DStruct es) (j # is) = Some (Inr y)" "x = DPtr (Some y)"
      using x(1) by (auto simp: mapped_result)
    then show ?thesis using ptr fl(2) by (intro lift [of es]) (auto simp: view_Cons)
  qed
qed simp

text \<open>The property with a name has a value that goes to the field with an index.\<close>

definition goes :: "tfield list \<Rightarrow> gomap \<Rightarrow> string \<Rightarrow> nat list \<Rightarrow> goval \<Rightarrow> bool" where
  "goes fs m n q v \<longleftrightarrow> map_of m n = Some v \<and> v \<noteq> VNil \<and> map_option fi_index (decodeField (map sfield_of fs) n) = Some q"

lemma goes_fits: "goes fs m n q v \<Longrightarrow> fits fs q"
  by (auto simp: goes_def decodeField_fits)

lemma goes_unique: "goes fs m n q v \<Longrightarrow> goes fs m n' q v' \<Longrightarrow> n = n' \<and> v = v'"
  by (cases "n = n'") (auto simp: goes_def dest: decodeField_index)

lemma fill_field_assigned:
  assumes "fill_field get s fs m n (DStruct ds) = Some (Inr d)" "list_all2 (has_field impl) fs ds"
  shows "\<exists>ds'. d = DStruct ds' \<and> (if \<exists>q v. goes fs m n q v then \<exists>q v. goes fs m n q v \<and> assigned (get v) fs q ds ds' else ds' = ds)"
proof (cases "\<exists>q v. goes fs m n q v")
  case True
  then obtain v g where v: "map_of m n = Some v" "v \<noteq> VNil" "decodeField (map sfield_of fs) n = Some g" by (auto simp: goes_def)
  then have "with_field (get v) True (TStruct s fs) (DStruct ds) (fi_index g) = Some (Inr d)"
    using assms(1) by (auto simp: fill_field_def mapped_result)
  from with_field_assigned [OF decodeField_fits [OF v(3)] assms(2) this] True v show ?thesis
    by (auto simp: goes_def)
next
  case False
  then show ?thesis using assms(1) by (auto simp: goes_def fill_field_def split: option.splits if_splits)
qed

lemma fold_fields_assigned:
  assumes "foldM_res (fill_field get s fs m) ns (DStruct ds) = Some (Inr d)" "distinct ns" "list_all2 (has_field impl) fs ds"
    "\<forall>n \<in> set ns. \<forall>f. decodeField (map sfield_of fs) n = Some f \<longrightarrow> clean_at ds (fi_index f)"
    and f: "\<And>n v t d. map_of m n = Some v \<Longrightarrow> has_type impl t d \<Longrightarrow> clean d \<Longrightarrow> keeps (has_type impl t) (get v t d)"
  shows "\<exists>ds'. d = DStruct ds' \<and>
    (\<forall>q. fits fs q \<longrightarrow> (\<forall>n \<in> set ns. \<forall>v. \<not> goes fs m n q v) \<longrightarrow> view fs ds' q = view fs ds q) \<and>
    (\<forall>n \<in> set ns. \<forall>q v. goes fs m n q v \<longrightarrow> settable fs q \<longrightarrow> get v (type_at fs q) (view fs ds q) = Some (Inr (view fs ds' q)))"
  using assms(1-4)
proof (induction ns arbitrary: ds)
  case (Cons n ns)
  from Cons.prems(1) obtain d1 where d1: "fill_field get s fs m n (DStruct ds) = Some (Inr d1)"
    "foldM_res (fill_field get s fs m) ns d1 = Some (Inr d)"
    by (auto split: bind_splits sum.splits)
  from d1(1) fill_field_keeps [of impl fs ds n ns m get s] Cons.prems f obtain ds1 where
    ds1: "d1 = DStruct ds1" "list_all2 (has_field impl) fs ds1"
    "\<forall>k \<in> set ns. \<forall>f. decodeField (map sfield_of fs) k = Some f \<longrightarrow> clean_at ds1 (fi_index f)" by auto
  from Cons.IH [OF d1(2) [unfolded ds1(1)] _ ds1(2,3)] Cons.prems(2) obtain ds' where
    ds': "d = DStruct ds'" "\<And>q. fits fs q \<Longrightarrow> \<forall>n \<in> set ns. \<forall>v. \<not> goes fs m n q v \<Longrightarrow> view fs ds' q = view fs ds1 q"
    "\<And>n q v. n \<in> set ns \<Longrightarrow> goes fs m n q v \<Longrightarrow> settable fs q \<Longrightarrow> get v (type_at fs q) (view fs ds1 q) = Some (Inr (view fs ds' q))"
    by auto
  have other: "view fs ds1 q = view fs ds q" if "fits fs q" "\<forall>v. \<not> goes fs m n q v" for q
    using fill_field_assigned [OF d1(1) Cons.prems(3)] that by (auto simp: ds1(1) assigned_def split: if_splits)
  have own: "get v (type_at fs q) (view fs ds q) = Some (Inr (view fs ds1 q))" if "goes fs m n q v" "settable fs q" for q v
    using fill_field_assigned [OF d1(1) Cons.prems(3)] that by (auto simp: ds1(1) assigned_def goes_def split: if_splits)
  have "n \<notin> set ns" using Cons.prems(2) by simp
  then have "view fs ds' q = view fs ds1 q" if "goes fs m n q v" for q v
    using that ds'(2) [OF goes_fits] goes_unique by blast
  moreover have "view fs ds1 q = view fs ds q" if "goes fs m k q v" "k \<in> set ns" for k q v
    using that \<open>n \<notin> set ns\<close> other [OF goes_fits] goes_unique by blast
  ultimately show ?case using ds' other own by (intro exI [of _ ds']) auto
qed auto

lemma As_clean_at: "decodeField (map sfield_of fs) n = Some g \<Longrightarrow> clean_at (map zero_field fs) (fi_index g)"
  using clean_at_clean [OF decodeField_fits, of fs n g "\<lambda>_ _. True" "map zero_field fs"]
  by (simp add: list_all_iff list_all2_conv_all_nth zero_typed)

section \<open>Properties\<close>

text \<open>
  C16: mapping a record to a Go type never produces a value outside of the type, and panics only on a record that has
  fewer values than keys. Whatever else the record holds and in whatever order the properties are met, As returns an
  error or a value of the type: integers within the range of their width, float32 fields that are float32 numbers,
  pointers, slices, maps and embedded structs of the declared shape, and interfaces that the value implements.
\<close>

theorem mapped_value_typed:
  assumes "\<forall>ts. distinct (ord ts)"
  shows "case As impl ord t (Some (ks, vs)) of
      None \<Rightarrow> length vs < length ks
    | Some (Inl e) \<Rightarrow> length ks \<le> length vs
    | Some (Inr d) \<Rightarrow> length ks \<le> length vs \<and> has_type impl t d"
proof (cases "sourceOf (ks, vs)")
  case None
  with sourceOf_panics [of ks vs] show ?thesis by (simp add: As_def)
next
  case (Some m)
  then have "length ks \<le> length vs" by (metis linorder_not_le option.discI sourceOf_panics)
  moreover have "keeps (has_type impl t) (MapToStruct impl ord m t (zero_val t))"
    using MapToStruct_keeps [OF assms] by (simp add: zero_typed)
  ultimately show ?thesis using Some by (elim keepsE) (simp_all add: As_def)
qed

text \<open>An order of the properties, and a struct with an embedded pointer.\<close>

definition by_name :: "sfield list \<Rightarrow> string list" where
  "by_name ts = remdups (map fi_name (fieldsOf ts))"

definition base_fields :: "tfield list" where
  "base_fields = [TField ''Id'' ''id'' True False (TUint 16), TField ''name'' [] True False TString]"

definition user_fields :: "tfield list" where
  "user_fields =
     [TField ''Name'' ''name'' True False TString, TField ''Age'' ''age'' True False (TPtr (TInt 8)),
      TField ''Base'' [] True True (TPtr (TStruct ''Base'' base_fields)), TField ''Tags'' ''tags'' True False (TSlice TFloat32)]"

definition user_record :: "string list \<times> goval list" where
  "user_record =
     ([''age'', ''id'', ''tags'', ''other''], [VInt 42, VInt 65535, VList [VFloat 0x4008000000000000, VNil], VBool True])"

definition user_value :: "dval list" where
  "user_value =
     [DStr [], DPtr (Some (DInt 42)), DPtr (Some (DStruct [DUint 65535, DStr []])),
      DSlice (Some [DFloat 0x4008000000000000, DFloat 0])]"

lemma by_name_order: "\<forall>ts. distinct (by_name ts) \<and> (\<forall>n. decodeField ts n \<noteq> None \<longrightarrow> n \<in> set (by_name ts))"
  by (force simp: by_name_def dest: decodeField_name)

lemma user_source: "sourceOf user_record = Some [(''age'', VInt 42), (''id'', VInt 65535), (''tags'', VList [VFloat 0x4008000000000000, VNil]), (''other'', VBool True)]"
  by (simp add: user_record_def sourceOf_def)

lemma user_decode:
  "by_name (map sfield_of user_fields) = [''age'', ''id'', ''name'', ''tags'']"
  "map_option fi_index (decodeField (map sfield_of user_fields) ''name'') = Some [0]"
  "map_option fi_index (decodeField (map sfield_of user_fields) ''age'') = Some [1]"
  "map_option fi_index (decodeField (map sfield_of user_fields) ''id'') = Some [2, 0]"
  "map_option fi_index (decodeField (map sfield_of user_fields) ''tags'') = Some [3]"
  "map_option fi_index (decodeField (map sfield_of user_fields) ''other'') = None"
  by (simp_all add: user_fields_def base_fields_def by_name_def fieldsOf_def plain_field_def parseTag_def decodeField_def pick_def)

lemma fill_field_at:
  assumes "map_option fi_index (decodeField (map sfield_of fs) n) = Some q" "map_of m n = Some v" "v \<noteq> VNil"
  shows "fill_field get s fs m n d = map_option (map_sum (PropertyErr n) id) (with_field (get v) True (TStruct s fs) d q)"
  using assms by (auto simp: fill_field_def)

lemmas assign_at =
  assign.simps [where t = "TPtr t" for t] assign.simps [where t = "TSlice t" for t] assign.simps [where t = "TInt n" for n]
  assign.simps [where t = "TUint n" for n] assign.simps [where t = TFloat32]

lemma user_assigns:
  "assign impl ord (TPtr (TInt 8)) (DPtr None) (RV (VInt 42)) = Some (Inr (DPtr (Some (DInt 42))))"
  "assign impl ord (TUint 16) (DUint 0) (RV (VInt 65535)) = Some (Inr (DUint 65535))"
  "assign impl ord (TSlice TFloat32) (DSlice None) (RV (VList [VFloat 0x4008000000000000, VNil])) =
     Some (Inr (DSlice (Some [DFloat 0x4008000000000000, DFloat 0])))"
  by (simp_all add: assign_at elems_of_def assign_plain_def isNumeric_def assignNumeric_def int_to_def OverflowInt_def OverflowUint_def
      float_to_def OverflowFloat_def float32_exact_def mag_def)

lemma user_fields_at:
  "zero_val (TStruct ''User'' user_fields) = DStruct [DStr [], DPtr None, DPtr None, DSlice None]"
  "with_field f True (TStruct ''User'' user_fields) (DStruct [a, b, c, e]) [Suc 0] =
     map_option (map_sum id (\<lambda>d. DStruct [a, d, c, e])) (f (TPtr (TInt 8)) b)"
  "with_field f True (TStruct ''User'' user_fields) (DStruct [a, b, DPtr None, e]) [2, 0] =
     map_option (map_sum id (\<lambda>d. DStruct [a, b, DPtr (Some (DStruct [d, DStr []])), e])) (f (TUint 16) (DUint 0))"
  "with_field f True (TStruct ''User'' user_fields) (DStruct [a, b, c, e]) [3] =
     map_option (map_sum id (\<lambda>d. DStruct [a, b, c, d])) (f (TSlice TFloat32) e)"
  by (simp_all add: user_fields_def base_fields_def at_def numeral_2_eq_2 numeral_3_eq_3 option.map_comp sum.map_comp o_def
      cong: map_option_cong sum.map_cong0)

lemma user_mapped: "As (\<lambda>_ _. False) by_name (TStruct ''User'' user_fields) (Some user_record) = Some (Inr (DStruct user_value))"
proof -
  have "fill_field get s fs [(''age'', a), (''id'', b), (''tags'', c), (''other'', e)] ''name'' d = Some (Inr d)" for get s fs a b c d e
    by (simp add: fill_field_def)
  then show ?thesis
    by (simp add: As_def user_source structFromMap_def user_fields_at(1) user_decode(1) user_assigns user_value_def
        fill_field_at [OF user_decode(3)] fill_field_at [OF user_decode(4)] fill_field_at [OF user_decode(5)] user_fields_at(2-)
        del: zero_val.simps with_field.simps)
qed

theorem mapped_value_typed_witness: "has_type (\<lambda>_ _. False) (TStruct ''User'' user_fields) (DStruct user_value)"
proof -
  obtain ks vs where r: "user_record = (ks, vs)" by (simp add: user_record_def)
  have "\<forall>ts. distinct (by_name ts)" using by_name_order by blast
  from mapped_value_typed [OF this, where impl = "\<lambda>_ _. False" and t = "TStruct ''User'' user_fields" and ks = ks and vs = vs] user_mapped show ?thesis
    unfolding r by (simp del: has_type_simps)
qed

text \<open>
  C17: a mapped struct has the value of each property in the field that the property names, and zero everywhere else.
  The fields of a struct that As returns are those of the type with embedded structs flattened. A field to which a
  property of the record goes, one that is present, not null and not ambiguous, holds what assign makes of that value
  for the type of the field; the others keep the zero value of their types. So the result does not depend on the
  order in which the map of fields is met. A field behind an embedded pointer of unexported type is not claimed to be
  set.
\<close>

theorem mapped_fields:
  assumes "\<forall>ts. distinct (ord ts) \<and> (\<forall>n. decodeField ts n \<noteq> None \<longrightarrow> n \<in> set (ord ts))"
    and "sourceOf rc = Some m" "As impl ord (TStruct s fs) (Some rc) = Some (Inr d)"
  shows "\<exists>ds. d = DStruct ds \<and>
    (\<forall>q. fits fs q \<longrightarrow> (\<forall>n v. \<not> goes fs m n q v) \<longrightarrow> view fs ds q = zero_val (type_at fs q)) \<and>
    (\<forall>n q v. goes fs m n q v \<longrightarrow> settable fs q \<longrightarrow>
       assign impl ord (type_at fs q) (zero_val (type_at fs q)) (RV v) = Some (Inr (view fs ds q)))"
proof -
  let ?ord = "ord (map sfield_of fs)" and ?get = "\<lambda>v t d. assign impl ord t d (RV v)"
  have "foldM_res (fill_field ?get s fs m) ?ord (DStruct (map zero_field fs)) = Some (Inr d)"
    using assms(2,3) by (simp add: As_def structFromMap_def)
  moreover have "list_all2 (has_field impl) fs (map zero_field fs)" by (simp add: list_all2_conv_all_nth zero_typed)
  moreover have "\<And>n v t d. map_of m n = Some v \<Longrightarrow> has_type impl t d \<Longrightarrow> clean d \<Longrightarrow> keeps (has_type impl t) (?get v t d)"
    using assign_keeps assms(1) by blast
  ultimately obtain ds where ds: "d = DStruct ds"
    "\<And>q. fits fs q \<Longrightarrow> \<forall>n \<in> set ?ord. \<forall>v. \<not> goes fs m n q v \<Longrightarrow> view fs ds q = view fs (map zero_field fs) q"
    "\<And>n q v. n \<in> set ?ord \<Longrightarrow> goes fs m n q v \<Longrightarrow> settable fs q \<Longrightarrow>
      ?get v (type_at fs q) (view fs (map zero_field fs) q) = Some (Inr (view fs ds q))"
    using fold_fields_assigned [of ?get s fs m ?ord "map zero_field fs" d impl] assms(1) As_clean_at by auto
  moreover have "n \<in> set ?ord" if "goes fs m n q v" for n q v using that assms(1) by (auto simp: goes_def)
  ultimately show ?thesis by (intro exI [of _ ds]) (auto simp: view_zero goes_fits)
qed

theorem mapped_fields_witness:
  "assign (\<lambda>_ _. False) by_name (TUint 16) (DUint 0) (RV (VInt 65535)) = Some (Inr (view user_fields user_value [2, 0])) \<and>
   view user_fields user_value [2, 1] = DStr []"
proof -
  let ?m = "[(''age'', VInt 42), (''id'', VInt 65535), (''tags'', VList [VFloat 0x4008000000000000, VNil]), (''other'', VBool True)]"
  have g: "goes user_fields ?m ''id'' [2, 0] (VInt 65535)" by (simp add: goes_def user_decode del: map_option_eq_Some)
  have n: "\<not> goes user_fields ?m n [2, 1] v" for n v
  proof
    assume "goes user_fields ?m n [2, 1] v"
    then have "n \<in> {''age'', ''id'', ''tags'', ''other''}" "map_option fi_index (decodeField (map sfield_of user_fields) n) = Some [2, 1]"
      by (auto simp only: goes_def map_of.simps fst_conv snd_conv fun_upd_apply option.distinct insert_iff split: if_splits)
    then show False using user_decode(3-6) by force
  qed
  have f: "settable user_fields [2, 0]" "type_at user_fields [2, 0] = TUint 16" "fits user_fields [2, 1]"
    "type_at user_fields [2, 1] = TString"
    by (simp_all add: user_fields_def base_fields_def)
  from mapped_fields [OF by_name_order user_source user_mapped] obtain ds where ds: "DStruct user_value = DStruct ds"
    "\<And>q. fits user_fields q \<Longrightarrow> \<forall>n v. \<not> goes user_fields ?m n q v \<Longrightarrow> view user_fields ds q = zero_val (type_at user_fields q)"
    "\<And>n q v. goes user_fields ?m n q v \<Longrightarrow> settable user_fields q \<Longrightarrow>
      assign (\<lambda>_ _. False) by_name (type_at user_fields q) (zero_val (type_at user_fields q)) (RV v) = Some (Inr (view user_fields ds q))"
    by blast
  from ds(1) have "ds = user_value" by simp
  with ds(2) [OF f(3)] ds(3) [OF g f(1)] n show ?thesis by (simp only: f(2,4) zero_val.simps) blast
qed

end
