(* ===== verification/ResultSummary.thy ===== *)
theory ResultSummary
  imports HydratorProps Bolt5 "HOL-Library.Multiset"
begin

text \<open>
  What a program sees of the end of a result: the summary of src/neo4j/resultsummary.go over the Summary that the
  connection made of the last SUCCESS message, and src/neo4j/internal/notifications, which stands in for statuses when
  the server sends notifications and the other way round. A nil slice is \<^const>\<open>None\<close>; the methods that only return a field
  of the summary, a plan or a profile are the fields of the records.
\<close>

section \<open>Summaries\<close>

record full_summary = msg_summary +
  fs_Agent :: string
  fs_Major :: int
  fs_Minor :: int
  fs_ServerName :: string
  fs_TFirst :: int
  fs_HadRecord :: bool
  fs_HadKey :: bool

text \<open>extractSummary of a connection, with all that the message holds.\<close>

definition full_extractSummary :: "success_msg \<Rightarrow> stream \<Rightarrow> bolt \<Rightarrow> full_summary option" where
  "full_extractSummary s st b =
     do { m \<leftarrow> success_summary s;
          Some (msg_summary.extend m
            \<lparr>fs_Agent = serverVersion b, fs_Major = 5, fs_Minor = minor b, fs_ServerName = b_serverName b,
             fs_TFirst = tfirst st, fs_HadRecord = fst (ToSummary st), fs_HadKey = snd (ToSummary st)\<rparr>) }"

record resultSummary =
  rs_sum :: full_summary
  rs_cypher :: string
  rs_params :: gomap

definition ProtocolVersion :: "resultSummary \<Rightarrow> int \<times> int" where
  "ProtocolVersion s = (fs_Major (rs_sum s), fs_Minor (rs_sum s))"

text \<open>A map that was made is not nil; a missing key reads as zero.\<close>

definition getCounter :: "resultSummary \<Rightarrow> string \<Rightarrow> int64" where
  "getCounter s n = or_zero 0 (map_of (ms_Counters (rs_sum s)) n)"

definition NodesCreated :: "resultSummary \<Rightarrow> int64" where
  "NodesCreated s = getCounter s ''nodes-created''"

definition NodesDeleted :: "resultSummary \<Rightarrow> int64" where
  "NodesDeleted s = getCounter s ''nodes-deleted''"

definition RelationshipsCreated :: "resultSummary \<Rightarrow> int64" where
  "RelationshipsCreated s = getCounter s ''relationships-created''"

definition RelationshipsDeleted :: "resultSummary \<Rightarrow> int64" where
  "RelationshipsDeleted s = getCounter s ''relationships-deleted''"

definition PropertiesSet :: "resultSummary \<Rightarrow> int64" where
  "PropertiesSet s = getCounter s ''properties-set''"

definition LabelsAdded :: "resultSummary \<Rightarrow> int64" where
  "LabelsAdded s = getCounter s ''labels-added''"

definition LabelsRemoved :: "resultSummary \<Rightarrow> int64" where
  "LabelsRemoved s = getCounter s ''labels-removed''"

definition IndexesAdded :: "resultSummary \<Rightarrow> int64" where
  "IndexesAdded s = getCounter s ''indexes-added''"

definition IndexesRemoved :: "resultSummary \<Rightarrow> int64" where
  "IndexesRemoved s = getCounter s ''indexes-removed''"

definition ConstraintsAdded :: "resultSummary \<Rightarrow> int64" where
  "ConstraintsAdded s = getCounter s ''constraints-added''"

definition ConstraintsRemoved :: "resultSummary \<Rightarrow> int64" where
  "ConstraintsRemoved s = getCounter s ''constraints-removed''"

definition SystemUpdates :: "resultSummary \<Rightarrow> int64" where
  "SystemUpdates s = getCounter s ''system-updates''"

definition ContainsUpdates :: "resultSummary \<Rightarrow> bool" where
  "ContainsUpdates s =
     (case ms_ContainsUpdates (rs_sum s) of
        Some b \<Rightarrow> b
      | None \<Rightarrow>
          0 < sint (ConstraintsAdded s) \<or> 0 < sint (ConstraintsRemoved s) \<or> 0 < sint (IndexesAdded s) \<or> 0 < sint (IndexesRemoved s) \<or>
          0 < sint (NodesCreated s) \<or> 0 < sint (NodesDeleted s) \<or> 0 < sint (RelationshipsCreated s) \<or>
          0 < sint (RelationshipsDeleted s) \<or> 0 < sint (LabelsAdded s) \<or> 0 < sint (LabelsRemoved s) \<or> 0 < sint (PropertiesSet s))"

definition ContainsSystemUpdates :: "resultSummary \<Rightarrow> bool" where
  "ContainsSystemUpdates s =
     (case ms_ContainsSystemUpdates (rs_sum s) of
        Some b \<Rightarrow> b
      | None \<Rightarrow> 0 < sint (getCounter s ''system-updates''))"

text \<open>Milliseconds as a time.Duration, with the wrap-around of int64.\<close>

definition ms_duration :: "int \<Rightarrow> int64" where
  "ms_duration t = word_of_int t * 1000000"

definition ResultAvailableAfter :: "resultSummary \<Rightarrow> int64" where
  "ResultAvailableAfter s = ms_duration (fs_TFirst (rs_sum s))"

definition ResultConsumedAfter :: "resultSummary \<Rightarrow> int64" where
  "ResultConsumedAfter s = ms_duration (ms_TLast (rs_sum s))"

definition summary_Database :: "resultSummary \<Rightarrow> string option" where
  "summary_Database s = (if ms_Database (rs_sum s) = [] then None else Some (ms_Database (rs_sum s)))"

text \<open>A statistic of a profile: zero when it was not recorded, and whether it was.\<close>

definition DerefOr :: "'a option \<Rightarrow> 'a \<Rightarrow> 'a" where
  "DerefOr v d = (case v of None \<Rightarrow> d | Some x \<Rightarrow> x)"

definition recorded :: "'a option \<Rightarrow> 'a \<Rightarrow> 'a \<times> bool" where
  "recorded v d = (DerefOr v d, v \<noteq> None)"

record profiled =
  pd_DbHits :: "int64 \<times> bool"
  pd_Rows :: "int64 \<times> bool"
  pd_PageCacheMisses :: "int64 \<times> bool"
  pd_PageCacheHits :: "int64 \<times> bool"
  pd_PageCacheHitRatio :: "64 word \<times> bool"
  pd_Time :: "int64 \<times> bool"

definition profile_stats :: "profile \<Rightarrow> profiled" where
  "profile_stats p =
     \<lparr>pd_DbHits = recorded (DbHits (pr_info p)) 0, pd_Rows = recorded (Rows (pr_info p)) 0,
      pd_PageCacheMisses = recorded (PageCacheMisses (pr_info p)) 0, pd_PageCacheHits = recorded (PageCacheHits (pr_info p)) 0,
      pd_PageCacheHitRatio = recorded (PageCacheHitRatio (pr_info p)) 0, pd_Time = recorded (Time (pr_info p)) 0\<rparr>"

section \<open>Notifications and statuses\<close>

definition default_status :: "string \<Rightarrow> string \<Rightarrow> gqlStatusObject" where
  "default_status st d =
     \<lparr>g_Code = [], g_Title = [], g_Description = [], g_GqlStatus = st, g_StatusDescription = d, g_Position = None,
      g_Classification = [], g_Severity = [], g_DiagnosticRecord = NewDefaultDiagnosticRecord, g_IsNotification = False\<rparr>"

definition newSuccessGqlStatusObject :: gqlStatusObject where
  "newSuccessGqlStatusObject = default_status ''00000'' ''note: successful completion''"

definition newNoDataGqlStatusObject :: gqlStatusObject where
  "newNoDataGqlStatusObject = default_status ''02000'' ''note: no data''"

definition newOmittedResultGqlStatusObject :: gqlStatusObject where
  "newOmittedResultGqlStatusObject = default_status ''00001'' ''note: successful completion - omitted result''"

definition newUnknownWarningResultGqlStatusObject :: gqlStatusObject where
  "newUnknownWarningResultGqlStatusObject = default_status ''01N42'' ''warn: unknown warning''"

definition newUnknownInformationResultGqlStatusObject :: gqlStatusObject where
  "newUnknownInformationResultGqlStatusObject = default_status ''03N42'' ''info: unknown notification''"

definition ToNotification :: "gqlStatusObject \<Rightarrow> notification" where
  "ToNotification g =
     \<lparr>n_Code = g_Code g, n_Title = g_Title g, n_Description = g_Description g, n_Position = g_Position g,
      n_Severity = g_Severity g, n_Category = g_Classification g\<rparr>"

definition position_map :: "inputPosition \<Rightarrow> goval" where
  "position_map p = VMap [(''offset'', VInt (Offset p)), (''line'', VInt (Line p)), (''column'', VInt (Column p))]"

definition ToGqlStatusObject :: "notification \<Rightarrow> gqlStatusObject" where
  "ToGqlStatusObject n =
     (let defaultStatus =
            (if n_Severity n = ''WARNING'' then newUnknownWarningResultGqlStatusObject
             else newUnknownInformationResultGqlStatusObject);
          statusDescription = (if n_Description n = [] then g_StatusDescription defaultStatus else n_Description n);
          d0 = NewDefaultDiagnosticRecord;
          d1 = (case n_Position n of None \<Rightarrow> d0 | Some p \<Rightarrow> map_put ''_position'' (position_map p) d0);
          d2 = (if n_Severity n \<noteq> [] then map_put ''_severity'' (VStr (n_Severity n)) d1 else d1);
          d3 = (if n_Category n \<noteq> [] then map_put ''_classification'' (VStr (n_Category n)) d2 else d2)
      in \<lparr>g_Code = n_Code n, g_Title = n_Title n, g_Description = n_Description n, g_GqlStatus = g_GqlStatus defaultStatus,
          g_StatusDescription = statusDescription, g_Position = n_Position n, g_Classification = n_Category n,
          g_Severity = n_Severity n, g_DiagnosticRecord = d3, g_IsNotification = True\<rparr>)"

definition ToGqlStatusObjectFromSummary :: "full_summary \<Rightarrow> gqlStatusObject" where
  "ToGqlStatusObjectFromSummary s =
     (if fs_HadRecord s then newSuccessGqlStatusObject
      else if fs_HadKey s then newNoDataGqlStatusObject
      else newOmittedResultGqlStatusObject)"

definition Notifications :: "full_summary \<Rightarrow> notification list option" where
  "Notifications s =
     (case ms_Notifications s of
        Some ns \<Rightarrow> Some ns
      | None \<Rightarrow> map_option (\<lambda>gs. map ToNotification (filter g_IsNotification gs)) (ms_GqlStatusObjects s))"

text \<open>\<^const>\<open>None\<close>: the slice expression panics, the status is shorter than two characters.\<close>

definition calculateGqlStatusWeight :: "gqlStatusObject \<Rightarrow> nat option" where
  "calculateGqlStatusWeight g =
     (if length (g_GqlStatus g) < 2 then None
      else let status = take 2 (g_GqlStatus g)
           in Some (if status = ''02'' then 0 else if status = ''01'' then 1 else if status = ''00'' then 2
                    else if status = ''03'' then 3 else 2 ^ 63 - 1))"

definition weight :: "gqlStatusObject \<Rightarrow> nat" where
  "weight g = or_zero 0 (calculateGqlStatusWeight g)"

text \<open>
  sort.Slice by weight; \<open>srt\<close> is the algorithm, which compares every element when there are two or more. The result is
  \<^const>\<open>None\<close> when a comparison panics.
\<close>

definition sort_Slice :: "((gqlStatusObject \<Rightarrow> nat) \<Rightarrow> gqlStatusObject list \<Rightarrow> gqlStatusObject list) \<Rightarrow> gqlStatusObject list \<Rightarrow>
  gqlStatusObject list option" where
  "sort_Slice srt gs =
     (if 2 \<le> length gs \<and> list_ex (\<lambda>g. calculateGqlStatusWeight g = None) gs then None else Some (srt weight gs))"

definition GqlStatusObjects :: "((gqlStatusObject \<Rightarrow> nat) \<Rightarrow> gqlStatusObject list \<Rightarrow> gqlStatusObject list) \<Rightarrow> full_summary \<Rightarrow>
  gqlStatusObject list option" where
  "GqlStatusObjects srt s =
     (case ms_GqlStatusObjects s of
        Some gs \<Rightarrow> Some gs
      | None \<Rightarrow>
          (case ms_Notifications s of
             Some ns \<Rightarrow> sort_Slice srt (map ToGqlStatusObject ns @ [ToGqlStatusObjectFromSummary s])
           | None \<Rightarrow> Some [ToGqlStatusObjectFromSummary s]))"

text \<open>What is known of severities and categories; other strings are unknown.\<close>

definition SeverityLevel :: "string \<Rightarrow> string" where
  "SeverityLevel s = (if s = ''WARNING'' then ''WARNING'' else if s = ''INFORMATION'' then ''INFORMATION'' else ''UNKNOWN'')"

definition categories :: "string list" where
  "categories =
     [''HINT'', ''UNRECOGNIZED'', ''UNSUPPORTED'', ''PERFORMANCE'', ''DEPRECATION'', ''SECURITY'', ''TOPOLOGY'', ''SCHEMA'', ''GENERIC'']"

definition notification_Category :: "string \<Rightarrow> string" where
  "notification_Category c = (if c \<in> set categories then c else ''UNKNOWN'')"

section \<open>Lemmas\<close>

lemma full_extractSummary_agrees:
  assumes "full_extractSummary s st b = Some m"
  shows "extractSummary (success.truncate s) st b =
    \<lparr>Bookmark = ms_Bookmark m, QueryType = ms_QueryType m, TLast = ms_TLast m, Database = ms_Database m, Agent = fs_Agent m,
     Major = fs_Major m, Minor = fs_Minor m, ServerName = fs_ServerName m, TFirst = fs_TFirst m, HadRecord = fs_HadRecord m,
     HadKey = fs_HadKey m\<rparr>"
  using assms
  by (auto simp: full_extractSummary_def success_summary_def extractSummary_def success.defs msg_summary.defs split: bind_splits)

lemma ms_duration_exact:
  assumes "\<bar>t\<bar> \<le> 9223372036854"
  shows "sint (ms_duration t) = t * 1000000"
proof -
  have "sint (word_of_int (t * 1000000) :: int64) = t * 1000000"
    using assms by (intro signed_take_bit_int_eq_self [THEN trans [OF sint_sbintrunc']]) auto
  then show ?thesis by (simp add: ms_duration_def)
qed

lemma ToNotification_ToGqlStatusObject: "ToNotification (ToGqlStatusObject n) = n"
  by (simp add: ToNotification_def ToGqlStatusObject_def Let_def)

lemma IsNotification_simps [simp]: "g_IsNotification (ToGqlStatusObject n)" "\<not> g_IsNotification (ToGqlStatusObjectFromSummary s)"
  by (simp_all add: ToGqlStatusObject_def Let_def ToGqlStatusObjectFromSummary_def newSuccessGqlStatusObject_def
      newNoDataGqlStatusObject_def newOmittedResultGqlStatusObject_def default_status_def)

text \<open>The status of an outcome and of a notification is long enough, and its weight is one of the four.\<close>

lemma weight_outcome: "calculateGqlStatusWeight (ToGqlStatusObjectFromSummary s) = Some (if fs_HadRecord s \<or> \<not> fs_HadKey s then 2 else 0)"
  by (simp add: ToGqlStatusObjectFromSummary_def calculateGqlStatusWeight_def newSuccessGqlStatusObject_def
      newNoDataGqlStatusObject_def newOmittedResultGqlStatusObject_def default_status_def)

lemma weight_notification: "calculateGqlStatusWeight (ToGqlStatusObject n) = Some (if n_Severity n = ''WARNING'' then 1 else 3)"
  by (simp add: ToGqlStatusObject_def Let_def calculateGqlStatusWeight_def newUnknownWarningResultGqlStatusObject_def
      newUnknownInformationResultGqlStatusObject_def default_status_def)

section \<open>Sorting\<close>

text \<open>What the documentation of sort.Slice promises; it does not promise to be stable.\<close>

locale sort_slice =
  fixes srt :: "('a \<Rightarrow> nat) \<Rightarrow> 'a list \<Rightarrow> 'a list"
  assumes srt_mset: "\<And>k xs. mset (srt k xs) = mset xs"
    and srt_sorted: "\<And>k xs. sorted (map k (srt k xs))"
begin

lemma srt_set: "set (srt k xs) = set xs"
  using srt_mset by (rule mset_eq_setD)

lemma srt_filter_single:
  assumes "filter P xs = [x]"
  shows "filter P (srt k xs) = [x]"
proof -
  have "mset (filter P (srt k xs)) = {#x#}" using assms by (metis mset_filter mset_single_iff_right srt_mset)
  then show ?thesis by (simp only: mset_single_iff)
qed

lemma srt_single: "srt k [x] = [x]"
  using srt_mset [of k "[x]"] by (simp only: mset_single_iff mset.simps empty_neutral)

lemma srt_filter_mset: "mset (map f (filter P (srt k xs))) = mset (map f (filter P xs))"
  by (simp add: mset_filter srt_mset)

end

text \<open>The insertion sort that package sort uses for a dozen elements at most.\<close>

interpretation insertion: sort_slice sort_key
  by unfold_locales simp_all

lemma no_notifications: "filter (\<lambda>g. \<not> g_IsNotification g) (map ToGqlStatusObject ns) = []"
  by (simp add: filter_empty_conv)

lemma hydrated_summary:
  assumes "hydrate tz buf h = Some ((Some (HMSuccess s), e), h')"
  obtains m where "full_extractSummary s st b = Some m" "ms_Notifications m = su_notifications s" "ms_GqlStatusObjects m = su_statuses s"
    "fs_HadRecord m = hadRecord st" "fs_HadKey m = (keys st \<noteq> [])"
proof -
  have ok: "counters_ok (su_counters s)"
    using assms by (cases rule: hydrate_message) (auto intro: hsuccess_counters)
  show ?thesis
    using extract_ok [OF ok] extractBool_ok [OF ok, of "''contains-system-updates''"]
      extractBool_ok [OF ok, of "''contains-updates''"]
    by (auto simp: full_extractSummary_def success_summary_def msg_summary.defs ToSummary_def intro!: that)
qed

text \<open>A list in the order of weights is made of the four classes in the documented order.\<close>

definition of_class :: "string \<Rightarrow> gqlStatusObject list \<Rightarrow> bool" where
  "of_class c gs \<longleftrightarrow> (\<forall>g \<in> set gs. take 2 (g_GqlStatus g) = c)"

lemma sorted_blocks:
  fixes k :: "'a \<Rightarrow> nat"
  assumes "sorted (map k xs)" "\<forall>x \<in> set xs. k x \<le> 3"
  shows "xs = filter (\<lambda>x. k x = 0) xs @ filter (\<lambda>x. k x = 1) xs @ filter (\<lambda>x. k x = 2) xs @ filter (\<lambda>x. k x = 3) xs"
  using assms
proof (induction xs)
  case (Cons x xs)
  have e: "filter (\<lambda>y. k y = n) xs = []" if "n < k x" for n
    using that Cons.prems(1) by (auto simp: filter_empty_conv)
  consider "k x = 0" | "k x = 1" | "k x = 2" | "k x = 3" using Cons.prems(2) by (metis One_nat_def Suc_1 le_Suc_eq le_zero_eq list.set_intros(1) numeral_3_eq_3)
  then show ?case using Cons e by cases simp_all
qed simp

lemma class_weight:
  assumes "calculateGqlStatusWeight g = Some w"
  shows "w = 0 \<Longrightarrow> take 2 (g_GqlStatus g) = ''02''" "w = 1 \<Longrightarrow> take 2 (g_GqlStatus g) = ''01''"
    "w = 2 \<Longrightarrow> take 2 (g_GqlStatus g) = ''00''" "w = 3 \<Longrightarrow> take 2 (g_GqlStatus g) = ''03''"
  using assms by (simp_all add: calculateGqlStatusWeight_def Let_def del: One_nat_def split: if_splits)

lemma weight_blocks:
  assumes "sorted (map weight gs)" "\<forall>g \<in> set gs. \<exists>w \<le> 3. calculateGqlStatusWeight g = Some w"
  shows "\<exists>as bs cs ds. gs = as @ bs @ cs @ ds \<and> of_class ''02'' as \<and> of_class ''01'' bs \<and> of_class ''00'' cs \<and> of_class ''03'' ds"
proof -
  have w: "calculateGqlStatusWeight g = Some (weight g)" if "g \<in> set gs" for g
    using assms(2) that by (auto simp: weight_def or_zero_def)
  then have "\<forall>g \<in> set gs. weight g \<le> 3" using assms(2) by fastforce
  note b = sorted_blocks [OF assms(1) this]
  have "of_class ''02'' (filter (\<lambda>x. weight x = 0) gs)" "of_class ''01'' (filter (\<lambda>x. weight x = 1) gs)"
    "of_class ''00'' (filter (\<lambda>x. weight x = 2) gs)" "of_class ''03'' (filter (\<lambda>x. weight x = 3) gs)"
    using class_weight [OF w] by (auto simp: of_class_def)
  with b show ?thesis by blast
qed

section \<open>Properties\<close>

text \<open>
  C8: the statuses of a summary are complete and in order, whatever SUCCESS message ended the result. Making the summary
  and asking it for its statuses never panics. Statuses of the server are passed on as they are, an empty list included.
  Otherwise there is one status for the outcome, success, no data or omitted result after what the stream has seen, and
  one for every notification of the server, from which that notification can be read back; first come the statuses
  02xxx, no data, then the warnings 01xxx, then the successes 00xxx, then the information 03xxx. The sort need not be
  stable.
\<close>

theorem status_objects_complete:
  assumes "hydrate tz buf h = Some ((Some (HMSuccess s), e), h')" "sort_slice srt"
  shows "\<exists>m gs. full_extractSummary s st b = Some m \<and> GqlStatusObjects srt m = Some gs \<and>
    (case su_statuses s of
       Some statuses \<Rightarrow> gs = statuses
     | None \<Rightarrow>
         filter (\<lambda>g. \<not> g_IsNotification g) gs =
           [if hadRecord st then newSuccessGqlStatusObject else if keys st \<noteq> [] then newNoDataGqlStatusObject
            else newOmittedResultGqlStatusObject] \<and>
         mset (map ToNotification (filter g_IsNotification gs)) = mset (or_zero [] (su_notifications s)) \<and>
         (\<exists>as bs cs ds. gs = as @ bs @ cs @ ds \<and> of_class ''02'' as \<and> of_class ''01'' bs \<and> of_class ''00'' cs \<and> of_class ''03'' ds))"
proof -
  obtain m where m: "full_extractSummary s st b = Some m" "ms_Notifications m = su_notifications s"
    "ms_GqlStatusObjects m = su_statuses s" "fs_HadRecord m = hadRecord st" "fs_HadKey m = (keys st \<noteq> [])"
    using hydrated_summary [OF assms(1)] .
  let ?o = "ToGqlStatusObjectFromSummary m"
  let ?gs = "map ToGqlStatusObject (or_zero [] (su_notifications s)) @ [?o]"
  have "\<forall>g \<in> set (srt weight ?gs). \<exists>w \<le> 3. calculateGqlStatusWeight g = Some w"
    unfolding sort_slice.srt_set [OF assms(2)] by (auto simp: weight_notification weight_outcome)
  note weight_blocks [OF sort_slice.srt_sorted [OF assms(2)] this]
  moreover have "filter (\<lambda>g. \<not> g_IsNotification g) (srt weight ?gs) = [?o]"
    by (rule sort_slice.srt_filter_single [OF assms(2)]) (simp add: no_notifications)
  moreover have "mset (map ToNotification (filter g_IsNotification (srt weight ?gs))) = mset (or_zero [] (su_notifications s))"
    unfolding sort_slice.srt_filter_mset [OF assms(2)]
    by (simp add: filter_map comp_def ToNotification_ToGqlStatusObject)
  moreover have "?o = (if hadRecord st then newSuccessGqlStatusObject else if keys st \<noteq> [] then newNoDataGqlStatusObject
      else newOmittedResultGqlStatusObject)"
    using m(4,5) by (simp add: ToGqlStatusObjectFromSummary_def)
  moreover have "GqlStatusObjects srt m = Some (srt weight ?gs)" if "su_statuses s = None"
    using that m(2,3)
    by (auto simp: GqlStatusObjects_def sort_Slice_def or_zero_def list_ex_iff weight_notification weight_outcome
        sort_slice.srt_single [OF assms(2)] split: option.split)
  moreover have "GqlStatusObjects srt m = Some statuses" if "su_statuses s = Some statuses" for statuses
    using that m(3) by (simp add: GqlStatusObjects_def)
  ultimately show ?thesis
    by (intro exI [of _ m] exI [of _ "case su_statuses s of Some g \<Rightarrow> g | None \<Rightarrow> srt weight ?gs"])
      (cases "su_statuses s"; use m(1) in \<open>simp only: option.case simp_thms; blast\<close>)
qed

text \<open>A SUCCESS with an information and a warning, for a stream that had keys but no record.\<close>

definition notes_msg :: bytes where
  "notes_msg = [0xb1, 0x70, 0xa1] @ string_bytes ''notifications'' @ [0x92] @
     [0xa1] @ string_bytes ''severity'' @ string_bytes ''INFORMATION'' @ [0xa1] @ string_bytes ''severity'' @ string_bytes ''WARNING''"

definition sample_note :: "string \<Rightarrow> notification" where
  "sample_note sev = \<lparr>n_Code = [], n_Title = [], n_Description = [], n_Position = None, n_Severity = sev, n_Category = []\<rparr>"

theorem status_objects_complete_witness:
  "\<forall>b :: bolt. \<exists>m :: full_summary. \<exists>gs. GqlStatusObjects sort_key m = Some gs \<and> fs_Agent m = serverVersion b \<and>
     filter (\<lambda>g. \<not> g_IsNotification g) gs = [newNoDataGqlStatusObject] \<and>
     mset (map ToNotification (filter g_IsNotification gs)) = {#sample_note ''INFORMATION'', sample_note ''WARNING''#}"
proof
  fix b :: bolt
  let ?st = "(new_stream 10)\<lparr>keys := [''a'']\<rparr>"
  let ?x = "hydrate no_tz notes_msg (new_hydrator 5 True False)"
  have "(case ?x of Some ((Some (HMSuccess s), e), h') \<Rightarrow>
      su_statuses s = None \<and> su_notifications s = Some [sample_note ''INFORMATION'', sample_note ''WARNING''] | _ \<Rightarrow> False)"
    by code_simp
  then obtain s e h' where s: "?x = Some ((Some (HMSuccess s), e), h')" "su_statuses s = None"
      "su_notifications s = Some [sample_note ''INFORMATION'', sample_note ''WARNING'']"
    by (auto split: option.splits prod.splits hmessage.splits)
  from status_objects_complete [OF s(1) insertion.sort_slice_axioms, of ?st b] obtain m gs where
    g: "full_extractSummary s ?st b = Some m" "GqlStatusObjects sort_key m = Some gs"
      "filter (\<lambda>g. \<not> g_IsNotification g) gs = [newNoDataGqlStatusObject]"
      "mset (map ToNotification (filter g_IsNotification gs)) = mset [sample_note ''INFORMATION'', sample_note ''WARNING'']"
    by (auto simp: s(2,3) or_zero_def new_stream_def)
  moreover from g(1) have "fs_Agent m = serverVersion b" by (auto simp: full_extractSummary_def msg_summary.defs split: bind_splits)
  ultimately show "\<exists>m :: full_summary. \<exists>gs. GqlStatusObjects sort_key m = Some gs \<and> fs_Agent m = serverVersion b \<and>
     filter (\<lambda>g. \<not> g_IsNotification g) gs = [newNoDataGqlStatusObject] \<and>
     mset (map ToNotification (filter g_IsNotification gs)) = {#sample_note ''INFORMATION'', sample_note ''WARNING''#}" by auto
qed

end
