(* ===== verification/Spec2Isabelle.thy ===== *)
theory Spec2Isabelle
  imports Packstream Chunking Retry PoolSteps HomeDb Bolt6Props Handshake Bookmarks Dehydrate Cursor SessionProps PropertyDecodeSafe
    KeyRepository Decode_Struct ResultSummary
begin

text \<open>
  A verification library for the Neo4j Go driver (package neo4j and neo4j/internal under src/).

  \<^bold>\<open>The program.\<close> A driver keeps a pool of connections per server (src/neo4j/internal/pool). A session borrows a
  connection, runs queries and transactions on it and returns it. In a cluster the servers come from a router
  (src/neo4j/internal/router) that reads routing tables over borrowed connections; the name of the home database of
  a user is cached (src/neo4j/internal/homedb). A connection negotiates the protocol version
  (src/neo4j/internal/bolt/connect.go) and then exchanges messages (bolt5.go and its siblings): requests are
  packed (internal/packstream/packer.go), framed into chunks (chunker.go) and written under a context
  (internal/racing); responses are read, joined from their chunks (dechunker.go), unpacked (unpacker.go) and handed
  to the handlers that the requests queued (message_queue.go). Failures are classified (db/errors.go,
  internal/errorutil) and a transaction function is retried when they allow it (internal/retry, session.go).
  Sessions are chained by bookmarks (bookmarks.go, session_bookmarks.go).

  \<^bold>\<open>The theories\<close>, in the order of their imports:

  \<^item> Prelude: machine types, big-endian encodings, slices with run-time panics as \<^const>\<open>None\<close>, and the locale
    \<open>stepping\<close>: invariants of a step relation, from its initial states to every reachable one.
  \<^item> Values: the values of the driver as one datatype; Go maps as association lists (locale \<open>keyed_store\<close>).
  \<^item> Packer, Unpacker, Packstream: internal/packstream. The state is the struct of the code, every method a
    function; the lemmas show that what was packed is unpacked, that the shortest encodings are used, that errors
    stick and that no input panics.
  \<^item> Errors: db/errors.go and internal/errorutil: the error values, their classification and the polyfill of the
    GQL fields.
  \<^item> Racing: internal/racing, the race of an I/O operation with its context. A write that loses the race goes on behind
    the caller, and its bytes count.
  \<^item> Chunking: chunker.go and dechunker.go: framing is lossless, and what is on the wire after any failure that is
    reported is a prefix; a write that the racing writer skips without an error is the one exception.
  \<^item> Retry: internal/retry and the retry loop of session.go: bounded attempts, no retry of a lost commit.
  \<^item> Server, Pool, PoolSteps: internal/pool. Server and Pool hold the operations; PoolSteps takes the critical
    sections of the goroutines as the steps of a relation and proves the invariant of every interleaving: the
    number of connections is bounded, no connection is shared or lost, the tracker of server-side routing is exact.
  \<^item> Router: internal/router, reading, storing, invalidating routing tables; the single flight of updates is a step
    relation of its own.
  \<^item> HomeDb: internal/homedb, the bounded cache of home databases.
  \<^item> Streams, Bolt5, Bolt5Props: stream.go, message_queue.go, bolt5.go. The connection is a record with the streams as
    a heap and the handlers as values of a datatype; Bolt5 has one function per method, Bolt5Props the theorems:
    delivery of records across batches, discarding the rest of a result, termination of the loops, commits, failed
    connections, time-outs.
  \<^item> Bolt6, Bolt6Props: bolt6.go, with a function of its own for every method, as the file repeats bolt5.go. The equations
    \<open>bolt6_same\<close> and the locale \<open>same_protocol\<close> show that the copies agree, over all histories of calls; the other theorems
    are about messages that the protocol version cannot express, where the two files differ.
  \<^item> Temporal: internal/timezone and what the driver uses of package time; the tz database is a parameter.
  \<^item> Hydrator, HydratorProps: hydrator.go and path.go, one function per method, and that every message is hydrated
    without a panic but the one of a path with wrong indexes, which the theorem names, that errors stick and failures
    are complete.
  \<^item> ResultSummary: resultsummary.go and internal/notifications, the summary of a result and the statuses that stand in for
    notifications; what the code relies on of sort.Slice is the locale \<open>sort_slice\<close>.
  \<^item> Mapping_Struct: internal/mapping, from structs to maps and the test for a loss of precision.
  \<^item> Go_Float, Decode_Struct: the float operations that internal/mapping uses, on bit patterns, and its way back from maps to
    structs with As of mapping.go. A Go type is a tree, reflection a function on values of it. What is mapped has its type,
    and every field has the value of its property or zero.
  \<^item> Outgoing, Roundtrip, Dehydrate: outgoing.go, the packing of parameters and of every request; the wire format of the
    values, that the hydrator reads it back, and that packX writes it for every Go value that stands for one.
  \<^item> Handshake: connect.go, the negotiation of the version and its base-128 integers.
  \<^item> Bookmarks: the bookmark manager as the refinement of a specification of causal chaining; the sets it uses meet
    the locale \<open>set_ops\<close>.
  \<^item> Result, Cursor: result.go and result_helpers.go. What a result needs of its connection is the locale
    \<open>record_source\<close>, extended to \<open>consumable_source\<close> for a Single that discards the rest; in it the cursor refines a list of
    records under every sequence of calls. Cursor interprets it for a Bolt 5 connection whose server sends the records in
    batches as it is asked to.
  \<^item> Session, SessionProps: session.go and transaction.go. The pool, the router and the connections are arguments whose
    answers may depend on the whole history of the session; SessionProps shows which connections are out after any
    program.
  \<^item> PropertyCodec, PropertyCodecProps, PropertyDecodeSafe: internal/propertyencryption (scheme.go, encode.go, decode.go,
    structure.go), the encoding of property values and of the structure around the cipher text; what was encoded is
    decoded, and no input makes the decoders panic.
  \<^item> KeyCache: internal/propertyencryption/cache.go, a map into a linked list that refines a list in the order of use.
  \<^item> PropertyEncryption, PropertyEncryptionProps, KeyRepository: crypto.go and the package propertyencryption. The contract
    of a repository of keys with its service is the locale \<open>key_store\<close>; in \<open>key_stores\<close>, one for every profile, the caches
    stay coherent in every history and what was encrypted is decrypted. KeyRepository proves the contract for the local
    service with the repository of the example and interprets both locales.

  \<^bold>\<open>Conventions.\<close> A Go error is a value of \<open>goerr\<close>, nil is \<^const>\<open>None\<close>. What the code does not decide is an argument:
  what a clock reads, how a write, a connect or a callback ends, what the server sends. Concurrency appears as step
  relations whose steps are the critical sections of the code; everything else is sequential, as the code promises
  for a connection. The server does not react in the model: what it sends is a list, and a theorem about a DISCARD
  says which list answers it. A run-time panic is \<^const>\<open>None\<close> of the functions that can panic.

  \<^bold>\<open>Loops and bounds.\<close> Loops that read from a connection recurse on the input that is left: the server's input is a
  finite list that ends with an error of reading, so a server that is silent for ever is a read that fails late,
  and what is shown to return does so as long as each read does. The loops of bufferStream and discardStream are
  partial functions; that they return is a theorem. The dechunker takes one context per read, as many as there are
  reads; the retry loop takes the list of the outcomes of the attempts. The method value of the hydrator takes the
  depth of nesting as fuel, and hydrate gives it the length of the message, which is shown to be enough. No other fuel
  is used.

  \<^bold>\<open>Not modelled.\<close> Logging; TLS and dialling (internal/connector); the options and the public surface of driver.go,
  config.go and auth; the older protocols bolt3.go and bolt4.go, which repeat bolt5.go with other messages; AES-GCM and the source
  of random bytes, which property encryption takes from the standard library; the read-ahead goroutine of connections.go; the testkit
  backend, the benchmarks and the stress tests, which use the driver.
\<close>

section \<open>Across the components\<close>

definition sample_outgoing :: outgoing where
  "sample_outgoing = \<lparr>o_chunker = newChunker, o_packer = Packer_Begin [], o_packErrs = [], o_useUtc = True, o_supportsUuid = False\<rparr>"

text \<open>A row with an integer, a pointer, a map and a time in a zone that the tz database does not know.\<close>

definition sample_row :: "goarg list" where
  "sample_row = [GInt 7, GPtr (GString ''a''), GAnyMap [(''k'', GNil)], GNative (GTime (GoTime 60 5 (FixedZone ''x'' 3600)))]"

definition sample_vals :: "goval list" where
  "sample_vals = [VInt 7, VStr ''a'', VMap [(''k'', VNil)], VDateTime (GoTime 60 5 (FixedZone ''Offset'' 3600))]"

text \<open>
  C4: a record travels unchanged from the values of a program to the values of a program. The Go values are packed
  into a RECORD message (as the round trip tests of the driver do), framed, written, read back from the chunks and
  hydrated: the result is the list of the values that they stand for, no packing error is reported, and nothing is
  left on the wire. Values of every type of the database that a program can send are covered.
\<close>

theorem record_roundtrip:
  assumes "list_all2 (denotes tz) gs vs" and "wire_ok tz (o_useUtc o') (o_supportsUuid o') (VList vs)"
    and "o_chunker o' = newChunker"
    and "hy_err h = None" "hy_utc h = o_useUtc o'" "hy_uuid h = o_supportsUuid o'"
    and "m = struct_bytes 0x71 [enc tz (o_useUtc o') (VList vs)]" "length m + 256 < 2 ^ 32"
    and "all_run cxs" "length (chunked m) \<le> length cxs"
  shows "\<exists>o'' w buf' h'. outgoing_send (\<lambda>_. ok_write) (appendX tz 0x71 [GAnys gs] o') = Some (None, o'', w) \<and>
    o_packErrs o'' = o_packErrs o' \<and>
    dechunkMessage cxs buf \<lparr>inp = w, fail = e\<rparr> = Some (buf', Inr m, \<lparr>inp = [], fail = e\<rparr>) \<and>
    hydrate tz m h = Some ((Some (HMRecord vs), None), h') \<and> hy_err h' = None"
proof -
  let ?utc = "o_useUtc o'" and ?uuid = "o_supportsUuid o'"
  have "denotes tz (GAnys gs) (VList vs)" using assms(1) by (auto intro: denotes.intros)
  then have "emits ?utc ?uuid (packX tz (GAnys gs)) (enc tz ?utc (VList vs))"
    using packX_writes assms(2) unfolding both_def by blast
  then have "emits ?utc ?uuid (\<lambda>o'. foldl (\<lambda>o' f. packX tz f o') o' [GAnys gs]) (enc tz ?utc (VList vs))" by simp
  from appended_message [OF this] have app: "o_chunker (appendX tz 0x71 [GAnys gs] o') = add_message m newChunker"
    "o_packErrs (appendX tz 0x71 [GAnys gs] o') = o_packErrs o'"
    using assms(3,7) by (simp_all add: appendX_def struct_bytes_def)
  have m: "m \<noteq> []" using assms(7) by (simp add: struct_bytes_def)
  obtain c' w buf' rest where w: "send (\<lambda>_. ok_write) (add_message m newChunker) = Some (None, c', w)"
    "dechunkMessage cxs buf \<lparr>inp = w, fail = e\<rparr> = Some (buf', Inr m, \<lparr>inp = rest, fail = e\<rparr>)"
    "send (\<lambda>_. ok_write) newChunker = Some (None, c', rest)"
    using frames_lossless [OF m assms(9), of 0 "[]" buf e] assms(10) by auto
  have "rest = []" using w(3) by (simp add: send_def newChunker_def)
  moreover obtain h' where "hydrate tz m h = Some ((Some (HMRecord vs), None), h')" "hy_err h' = None"
    using hydrate_record [OF assms(2,4,5,6)] assms(7,8) by (auto simp: struct_bytes_def)
  ultimately show ?thesis using w(1,2) app by (auto simp: outgoing_send_def)
qed

theorem record_roundtrip_witness:
  "\<exists>o'' w m h'. outgoing_send (\<lambda>_. ok_write) (appendX no_tz 0x71 [GAnys sample_row] sample_outgoing) = Some (None, o'', w) \<and>
    o_packErrs o'' = [] \<and>
    (\<exists>buf'. dechunkMessage (replicate 40 background) [] \<lparr>inp = w, fail = ErrEOF\<rparr> = Some (buf', Inr m, \<lparr>inp = [], fail = ErrEOF\<rparr>)) \<and>
    hydrate no_tz m (new_hydrator 5 True False) = Some ((Some (HMRecord sample_vals), None), h')"
proof -
  let ?m = "struct_bytes 0x71 [enc no_tz True (VList sample_vals)]"
  have id: "id_of_time no_tz (GoTime 60 5 (FixedZone ''x'' 3600)) = None"
    by (simp add: id_of_time_def timezone_ID_def timezone_Load_def LoadLocation_def no_tz_def)
  have "list_all2 (denotes no_tz) sample_row sample_vals"
    by (auto simp: sample_row_def sample_vals_def same_instant_def id Zone_def lookup_zone_def is_struct_def
      intro!: denotes.intros native_denotes.intros)
  moreover have "wire_ok no_tz True False (VList sample_vals)"
    by (simp add: sample_vals_def fits_def wf_map_def datetime_ok_def nsec_ok_def)
  moreover have len: "length ?m = 17"
    by (simp add: struct_bytes_def sample_vals_def list_hdr_def list_header_def string_bytes_def str_bytes_def time_bytes_def int64_bytes_def)
  moreover have "length (chunked ?m) \<le> 40" by (subst chunked.simps) (simp add: len del: enc.simps)
  ultimately show ?thesis
    using record_roundtrip [of no_tz sample_row sample_vals sample_outgoing "new_hydrator 5 True False" ?m "replicate 40 background" "[]" ErrEOF]
    by (auto simp: sample_outgoing_def new_hydrator_def all_run_def simp del: enc.simps wire_ok.simps)
qed

end
